(* ===== verification/Monoid_Prelude.thy ===== *)
theory Monoid_Prelude
  imports Complex_Main "HOL-Library.AList" "HOL-Library.Log_Nat"
begin

text \<open>
  Shared vocabulary of the development: the Python values the kernel passes around, the
  fragment of the language and of its standard library the modelled modules use, and the
  generic lemmas about results, dictionaries, strings and floats.

  \<^item> A \<open>str\<close> is a list of code points below 256 (a \<open>char list\<close>); on that fragment
    \<open>lower\<close> and \<open>strip\<close> are exact.
  \<^item> A \<open>float\<close> is a finite binary64 value, written as the rational it denotes (the sign of
    zero is not kept), or one of the three non-finite values; sums and differences round
    half to even.
  \<^item> A \<open>dict\<close> is an association list in insertion order; assignment keeps the position of
    an existing key, as \<open>AList.update\<close> does.
  \<^item> A raised exception is the left part of a sum, with its class and what identifies it.
\<close>

section \<open>Results\<close>

text \<open>The exception classes the modelled code raises, with the message or the error code.\<close>

datatype exn =
    ValueError string
  | TypeError string
  | OverflowError
  | KeyError string
  | NativeAgentError string
  | PermissionDenied string
  | ToolExecutionError string
  | WriteAuthorityRevoked
  | ScopePolicyError string string
  | LeaseAdmissionError string
  | UnportableScalarError string
  | UnportableContainerError string
  | JSONDecodeError string
  | RuntimeFault string
  | AssertionError string
  | WriterLeaseUnavailable string int
  | DurableModelCallError string
  | ModelEvidenceUncommitted
  | SchemaIncompatible string
  | DatabaseError bool
  | UniqueViolation
  | RegexError string

type_synonym 'a res = "exn + 'a"

text \<open>The classes an \<open>except ValueError\<close> clause catches.\<close>

fun is_value_error :: "exn \<Rightarrow> bool" where
  "is_value_error (ValueError _) = True"
| "is_value_error (ScopePolicyError _ _) = True"
| "is_value_error (LeaseAdmissionError _) = True"
| "is_value_error (UnportableScalarError _) = True"
| "is_value_error (UnportableContainerError _) = True"
| "is_value_error (JSONDecodeError _) = True"
| "is_value_error _ = False"

named_theorems res_simps \<open>equations of the result monad\<close>
named_theorems py_simps \<open>equations of the Python library fragment\<close>

definition res_bind :: "'e + 'a \<Rightarrow> ('a \<Rightarrow> 'e + 'b) \<Rightarrow> 'e + 'b" where
  "res_bind m f = (case m of Inl e \<Rightarrow> Inl e | Inr x \<Rightarrow> f x)"

definition guard :: "bool \<Rightarrow> 'e \<Rightarrow> 'e + unit" where
  "guard b e = (if b then Inr () else Inl e)"

fun is_ok :: "'e + 'a \<Rightarrow> bool" where
  "is_ok (Inl _) = False"
| "is_ok (Inr _) = True"

fun res_map :: "('a \<Rightarrow> 'e + 'b) \<Rightarrow> 'a list \<Rightarrow> 'e + 'b list" where
  "res_map f [] = Inr []"
| "res_map f (x # xs) = res_bind (f x) (\<lambda>y. res_bind (res_map f xs) (\<lambda>ys. Inr (y # ys)))"

lemma res_bind_Inl [simp, res_simps]: "res_bind (Inl e) f = Inl e"
  by (simp add: res_bind_def)

lemma res_bind_Inr [simp, res_simps]: "res_bind (Inr x) f = f x"
  by (simp add: res_bind_def)

lemma res_bind_eq_Inr [res_simps]:
  "res_bind m f = Inr y \<longleftrightarrow> (\<exists>x. m = Inr x \<and> f x = Inr y)"
  by (cases m) auto

lemma res_bind_eq_Inl [res_simps]:
  "res_bind m f = Inl e \<longleftrightarrow> m = Inl e \<or> (\<exists>x. m = Inr x \<and> f x = Inl e)"
  by (cases m) auto

lemma guard_True [simp, res_simps]: "guard True e = Inr ()"
  and guard_False [simp, res_simps]: "guard False e = Inl e"
  by (simp_all add: guard_def)

lemma guard_eq_Inr [simp, res_simps]: "guard b e = Inr u \<longleftrightarrow> b"
  by (simp add: guard_def)

lemma guard_eq_Inl [simp, res_simps]: "guard b e = Inl e' \<longleftrightarrow> \<not> b \<and> e' = e"
  by (auto simp: guard_def)

lemma res_bind_assoc: "res_bind (res_bind m f) g = res_bind m (\<lambda>x. res_bind (f x) g)"
  by (cases m) auto

lemma is_ok_iff: "is_ok m \<longleftrightarrow> (\<exists>x. m = Inr x)"
  by (cases m) auto

lemma res_map_Inr_iff:
  "res_map f xs = Inr ys \<longleftrightarrow> list_all2 (\<lambda>x y. f x = Inr y) xs ys"
  by (induction xs arbitrary: ys) (auto simp: res_bind_eq_Inr list_all2_Cons1)

lemma res_map_Inr_map: "(\<And>x. x \<in> set xs \<Longrightarrow> f x = Inr (g x)) \<Longrightarrow> res_map f xs = Inr (map g xs)"
  by (induction xs) auto

section \<open>Floats\<close>

datatype pyfloat = Fin rat | PosInf | NegInf | NaN

fun is_finite_float :: "pyfloat \<Rightarrow> bool" where
  "is_finite_float (Fin _) = True"
| "is_finite_float _ = False"

text \<open>\<open>a <= b\<close> and \<open>a < b\<close> of the language: every comparison with NaN is false.\<close>

fun flt_le :: "pyfloat \<Rightarrow> pyfloat \<Rightarrow> bool" where
  "flt_le NaN _ = False"
| "flt_le _ NaN = False"
| "flt_le (Fin a) (Fin b) = (a \<le> b)"
| "flt_le NegInf _ = True"
| "flt_le _ PosInf = True"
| "flt_le _ _ = False"

fun flt_lt :: "pyfloat \<Rightarrow> pyfloat \<Rightarrow> bool" where
  "flt_lt NaN _ = False"
| "flt_lt _ NaN = False"
| "flt_lt (Fin a) (Fin b) = (a < b)"
| "flt_lt NegInf NegInf = False"
| "flt_lt NegInf _ = True"
| "flt_lt PosInf PosInf = False"
| "flt_lt _ PosInf = True"
| "flt_lt _ _ = False"

text \<open>The builtins \<open>max(a, b)\<close> and \<open>min(a, b)\<close>: the first argument wins a tie or an
  incomparable pair.\<close>

definition flt_max :: "pyfloat \<Rightarrow> pyfloat \<Rightarrow> pyfloat" where
  "flt_max a b = (if flt_lt a b then b else a)"

definition flt_min :: "pyfloat \<Rightarrow> pyfloat \<Rightarrow> pyfloat" where
  "flt_min a b = (if flt_lt b a then b else a)"

text \<open>Rounding of a rational to binary64: a 53-bit significand, least exponent \<open>-1074\<close>, ties
  to even, and an infinity from \<open>2^1024 - 2^970\<close> on.\<close>

definition ilog2 :: "rat \<Rightarrow> int" where
  "ilog2 x = (case quotient_of x of (a, b) \<Rightarrow>
     (let k = int (floorlog 2 (nat a)) - int (floorlog 2 (nat b))
      in if 2 powi k \<le> x then k else k - 1))"

definition round_half_even :: "rat \<Rightarrow> int" where
  "round_half_even x = (let f = \<lfloor>x\<rfloor>; d = x - of_int f
     in if d < 1/2 then f else if 1/2 < d then f + 1 else if even f then f else f + 1)"

definition rnd :: "rat \<Rightarrow> pyfloat" where
  "rnd x = (if x = 0 then Fin 0 else
     (let e = max (-1074) (ilog2 \<bar>x\<bar> - 52);
          r = of_int (round_half_even (x / 2 powi e)) * 2 powi e
      in if 2 ^ 1024 \<le> r then PosInf else if r \<le> - (2 ^ 1024) then NegInf else Fin r))"

fun flt_neg :: "pyfloat \<Rightarrow> pyfloat" where
  "flt_neg (Fin a) = Fin (- a)"
| "flt_neg PosInf = NegInf"
| "flt_neg NegInf = PosInf"
| "flt_neg NaN = NaN"

fun flt_add :: "pyfloat \<Rightarrow> pyfloat \<Rightarrow> pyfloat" where
  "flt_add NaN _ = NaN"
| "flt_add _ NaN = NaN"
| "flt_add (Fin a) (Fin b) = rnd (a + b)"
| "flt_add PosInf NegInf = NaN"
| "flt_add NegInf PosInf = NaN"
| "flt_add PosInf _ = PosInf"
| "flt_add _ PosInf = PosInf"
| "flt_add NegInf _ = NegInf"
| "flt_add _ NegInf = NegInf"

definition flt_sub :: "pyfloat \<Rightarrow> pyfloat \<Rightarrow> pyfloat" where
  "flt_sub a b = flt_add a (flt_neg b)"

text \<open>\<open>float(n)\<close> of an integer: rounded, and \<open>OverflowError\<close> beyond the range.\<close>

definition float_of_int :: "int \<Rightarrow> pyfloat res" where
  "float_of_int n = (case rnd (of_int n) of Fin r \<Rightarrow> Inr (Fin r) | _ \<Rightarrow> Inl OverflowError)"

lemma flt_le_refl_iff [simp]: "flt_le a a \<longleftrightarrow> a \<noteq> NaN"
  by (cases a) auto

lemma flt_lt_irrefl [simp]: "\<not> flt_lt a a"
  by (cases a) auto

lemma flt_le_trans: "flt_le a b \<Longrightarrow> flt_le b c \<Longrightarrow> flt_le a c"
  by (cases a; cases b; cases c) auto

lemma flt_lt_trans: "flt_lt a b \<Longrightarrow> flt_lt b c \<Longrightarrow> flt_lt a c"
  by (cases a; cases b; cases c) auto

lemma flt_lt_le_trans: "flt_lt a b \<Longrightarrow> flt_le b c \<Longrightarrow> flt_lt a c"
  by (cases a; cases b; cases c) auto

lemma flt_le_lt_trans: "flt_le a b \<Longrightarrow> flt_lt b c \<Longrightarrow> flt_lt a c"
  by (cases a; cases b; cases c) auto

lemma flt_not_lt: "a \<noteq> NaN \<Longrightarrow> b \<noteq> NaN \<Longrightarrow> \<not> flt_lt a b \<longleftrightarrow> flt_le b a"
  by (cases a; cases b) auto

lemma flt_lt_imp_le: "flt_lt a b \<Longrightarrow> flt_le a b"
  by (cases a; cases b) auto

lemma flt_max_ge1: "a \<noteq> NaN \<Longrightarrow> flt_le a (flt_max a b)"
  by (cases a; cases b) (auto simp: flt_max_def)

lemma flt_max_ge2: "a \<noteq> NaN \<Longrightarrow> b \<noteq> NaN \<Longrightarrow> flt_le b (flt_max a b)"
  by (cases a; cases b) (auto simp: flt_max_def)

lemma flt_max_not_NaN: "a \<noteq> NaN \<Longrightarrow> flt_max a b \<noteq> NaN"
  by (cases a; cases b) (auto simp: flt_max_def)

lemma flt_min_le2: "b \<noteq> NaN \<Longrightarrow> a \<noteq> NaN \<Longrightarrow> flt_le (flt_min a b) b"
  by (cases a; cases b) (auto simp: flt_min_def)

lemma flt_min_cases: "flt_min a b = a \<or> flt_min a b = b"
  by (simp add: flt_min_def)

lemma round_half_even_nonneg: "0 \<le> x \<Longrightarrow> 0 \<le> round_half_even x"
  by (auto simp: round_half_even_def Let_def)

text \<open>Rounding keeps the sign.\<close>

lemma rnd_nonneg: "0 \<le> x \<Longrightarrow> flt_le (Fin 0) (rnd x)"
proof -
  assume x: "0 \<le> x"
  define e where "e = max (-1074) (ilog2 \<bar>x\<bar> - 52)"
  have "0 \<le> x / 2 powi e" using x by simp
  then have "0 \<le> (of_int (round_half_even (x / 2 powi e)) :: rat)"
    using round_half_even_nonneg by simp
  then have "0 \<le> (of_int (round_half_even (x / 2 powi e)) :: rat) * 2 powi e"
    by simp
  moreover have "\<not> (0::rat) \<le> - (2 ^ 1024)" by simp
  ultimately show ?thesis
    unfolding rnd_def e_def [symmetric] Let_def by (auto simp del: power_numeral)
qed

lemma rnd_not_NaN [simp]: "rnd x \<noteq> NaN"
  by (simp add: rnd_def Let_def)

lemma round_half_even_of_int [simp]: "round_half_even (of_int m) = m"
  by (simp add: round_half_even_def)

lemma ilog2_of_int_le: "0 < n \<Longrightarrow> n < 2 ^ k \<Longrightarrow> ilog2 (of_int n) \<le> int k - 1"
proof -
  assume n: "0 < n" "n < 2 ^ k"
  have q: "quotient_of (of_int n) = (n, 1)" by (simp add: quotient_of_int)
  have "nat n < 2 ^ k" using n by (simp add: nat_less_iff)
  then have "floorlog 2 (nat n) \<le> k" by (simp add: floorlog_leI)
  then show ?thesis by (auto simp: ilog2_def q Let_def floorlog_def)
qed

text \<open>Integers of at most 53 bits are represented exactly.\<close>

lemma rnd_of_int:
  assumes "\<bar>n\<bar> < 2 ^ 53" shows "rnd (of_int n) = Fin (of_int n)"
proof (cases "n = 0")
  case True then show ?thesis by (simp add: rnd_def)
next
  case False
  define e where "e = max (-1074) (ilog2 \<bar>of_int n\<bar> - 52)"
  have "ilog2 (of_int \<bar>n\<bar>) \<le> int 53 - 1"
    using ilog2_of_int_le [of "\<bar>n\<bar>" 53] False assms by simp
  then have e: "e \<le> 0" by (simp add: e_def)
  define j where "j = nat (- e)"
  have ej: "e = - int j" using e by (simp add: j_def)
  have d: "(of_int n :: rat) / 2 powi e = of_int (n * 2 ^ j)"
    by (simp add: ej power_int_minus divide_inverse)
  have r: "(of_int (n * 2 ^ j) :: rat) * 2 powi e = of_int n"
    by (simp add: ej power_int_minus divide_inverse)
  have big: "(2::int) ^ 53 \<le> 2 ^ 1024" by simp
  have b: "\<bar>n\<bar> < 2 ^ 1024" using assms big by linarith
  have "\<not> (2 :: rat) ^ 1024 \<le> of_int n \<and> \<not> (of_int n :: rat) \<le> - (2 ^ 1024)"
  proof -
    have "(of_int \<bar>n\<bar> :: rat) < of_int (2 ^ 1024)" using b by (subst of_int_less_iff)
    then have "\<bar>of_int n :: rat\<bar> < 2 ^ 1024" by (simp del: power_numeral)
    then show ?thesis unfolding abs_less_iff by linarith
  qed
  then show ?thesis using False
    unfolding rnd_def e_def [symmetric] Let_def d r round_half_even_of_int
    by (simp del: power_numeral)
qed

lemma float_of_int_exact [simp]: "\<bar>n\<bar> < 2 ^ 53 \<Longrightarrow> float_of_int n = Inr (Fin (of_int n))"
  by (simp only: float_of_int_def rnd_of_int pyfloat.case)

lemma flt_max_zero_nonneg: "flt_le (Fin 0) (flt_max (Fin 0) x)"
  by (cases x) (auto simp: flt_max_def)

end
