(* ===== verification/Py_Values.thy ===== *)
theory Py_Values
  imports Monoid_Prelude
begin

text \<open>
  The dynamically typed values of the wire and configuration layers (\<open>typing.Any\<close> in the
  source) and the operations on \<open>str\<close>, \<open>dict\<close> and truth values the modelled modules use.
  \<open>POther\<close> is an object outside the JSON domain; only its type name is known.
\<close>

section \<open>Strings\<close>

text \<open>Case mapping and whitespace of \<open>str\<close> on code points below 256.\<close>

definition lower_char :: "char \<Rightarrow> char" where
  "lower_char c = (let n = (of_char c :: nat) in
     if (65 \<le> n \<and> n \<le> 90) \<or> (192 \<le> n \<and> n \<le> 222 \<and> n \<noteq> 215) then char_of (n + 32) else c)"

definition str_lower :: "string \<Rightarrow> string" where
  "str_lower s = map lower_char s"

definition is_space :: "char \<Rightarrow> bool" where
  "is_space c = (let n = (of_char c :: nat) in
     (9 \<le> n \<and> n \<le> 13) \<or> (28 \<le> n \<and> n \<le> 32) \<or> n = 133 \<or> n = 160)"

text \<open>\<open>s.strip(chars)\<close> removes from both ends; \<open>s.strip()\<close> removes whitespace.\<close>

definition strip_by :: "(char \<Rightarrow> bool) \<Rightarrow> string \<Rightarrow> string" where
  "strip_by p s = rev (dropWhile p (rev (dropWhile p s)))"

definition str_strip :: "string \<Rightarrow> string" where
  "str_strip s = strip_by is_space s"

fun str_startswith :: "string \<Rightarrow> string \<Rightarrow> bool" where
  "str_startswith _ [] = True"
| "str_startswith [] (_ # _) = False"
| "str_startswith (c # s) (d # p) = (c = d \<and> str_startswith s p)"

definition str_endswith :: "string \<Rightarrow> string \<Rightarrow> bool" where
  "str_endswith s p = str_startswith (rev s) (rev p)"

text \<open>\<open>sub in s\<close> for strings.\<close>

fun str_contains :: "string \<Rightarrow> string \<Rightarrow> bool" where
  "str_contains s p = (str_startswith s p \<or> (case s of [] \<Rightarrow> False | _ # s' \<Rightarrow> str_contains s' p))"

declare str_contains.simps [simp del]

definition show_digit :: "nat \<Rightarrow> char" where
  "show_digit d = char_of (48 + d)"

fun show_nat :: "nat \<Rightarrow> string" where
  "show_nat n = (if n < 10 then [show_digit n] else show_nat (n div 10) @ [show_digit (n mod 10)])"

declare show_nat.simps [simp del]

definition show_int :: "int \<Rightarrow> string" where
  "show_int i = (if i < 0 then CHR ''-'' # show_nat (nat (- i)) else show_nat (nat i))"

lemma lower_char_idem [simp]: "lower_char (lower_char c) = lower_char c"
proof (cases "(65 \<le> (of_char c :: nat) \<and> of_char c \<le> (90::nat)) \<or>
    (192 \<le> (of_char c :: nat) \<and> of_char c \<le> (222::nat) \<and> of_char c \<noteq> (215::nat))")
  case True
  then have "(of_char c :: nat) + 32 < 256" by auto
  then have n: "(of_char (char_of ((of_char c :: nat) + 32) :: char) :: nat) = of_char c + 32"
    by (simp only: of_char_of mod_less)
  from True have l: "lower_char c = char_of ((of_char c :: nat) + 32)"
    by (simp add: lower_char_def Let_def)
  from True show ?thesis unfolding l lower_char_def Let_def n by auto
next
  case False
  then have "lower_char c = c" unfolding lower_char_def Let_def by (simp only: if_False)
  then show ?thesis by simp
qed

lemma str_lower_idem [simp]: "str_lower (str_lower s) = str_lower s"
  by (simp add: str_lower_def)

lemma str_lower_append: "str_lower (a @ b) = str_lower a @ str_lower b"
  by (simp add: str_lower_def)

lemma dropWhile_idem [simp]: "dropWhile p (dropWhile p xs) = dropWhile p xs"
  by (induction xs) auto

lemma strip_by_hd: "strip_by p s \<noteq> [] \<Longrightarrow> \<not> p (hd (strip_by p s))"
proof -
  assume ne: "strip_by p s \<noteq> []"
  let ?t = "dropWhile p s"
  have split: "?t = strip_by p s @ rev (takeWhile p (rev ?t))"
    unfolding strip_by_def by (metis rev_append rev_rev_ident takeWhile_dropWhile_id)
  with ne have "hd ?t = hd (strip_by p s)" by (metis hd_append2)
  moreover have "?t \<noteq> []" using ne split by fastforce
  ultimately show ?thesis using hd_dropWhile by metis
qed

lemma strip_by_last: "strip_by p s \<noteq> [] \<Longrightarrow> \<not> p (last (strip_by p s))"
  unfolding strip_by_def by (metis hd_dropWhile last_rev rev_is_Nil_conv)

lemma strip_by_id: "(s \<noteq> [] \<Longrightarrow> \<not> p (hd s) \<and> \<not> p (last s)) \<Longrightarrow> strip_by p s = s"
  unfolding strip_by_def
  by (cases "s = []") (simp_all add: dropWhile_eq_self_iff [THEN iffD2] hd_rev)

lemma strip_by_idem [simp]: "strip_by p (strip_by p s) = strip_by p s"
  by (rule strip_by_id) (simp add: strip_by_hd strip_by_last)

lemma str_strip_idem [simp]: "str_strip (str_strip s) = str_strip s"
  by (simp add: str_strip_def)

lemma is_space_lower [simp]: "is_space (lower_char c) \<longleftrightarrow> is_space c"
proof (cases "(65 \<le> (of_char c :: nat) \<and> of_char c \<le> (90::nat)) \<or>
    (192 \<le> (of_char c :: nat) \<and> of_char c \<le> (222::nat) \<and> of_char c \<noteq> (215::nat))")
  case True
  then have "(of_char c :: nat) + 32 < 256" by auto
  then have n: "(of_char (char_of ((of_char c :: nat) + 32) :: char) :: nat) = of_char c + 32"
    by (simp only: of_char_of mod_less)
  from True have l: "lower_char c = char_of ((of_char c :: nat) + 32)"
    by (simp add: lower_char_def Let_def)
  from True show ?thesis unfolding l is_space_def Let_def n by auto
next
  case False
  then have "lower_char c = c" unfolding lower_char_def Let_def by (simp only: if_False)
  then show ?thesis by simp
qed

lemma strip_by_map: "(\<And>c. p (f c) = p c) \<Longrightarrow> strip_by p (map f s) = map f (strip_by p s)"
  unfolding strip_by_def by (simp add: dropWhile_map rev_map comp_def)

lemma str_strip_lower: "str_strip (str_lower s) = str_lower (str_strip s)"
  unfolding str_strip_def str_lower_def by (rule strip_by_map) simp

lemma str_lower_Nil [simp]: "str_lower s = [] \<longleftrightarrow> s = []"
  by (simp add: str_lower_def)

lemma strip_by_decomp:
  obtains a b where "s = a @ strip_by p s @ b" and "\<forall>c \<in> set a. p c" and "\<forall>c \<in> set b. p c"
proof -
  let ?a = "takeWhile p s" and ?b = "rev (takeWhile p (rev (dropWhile p s)))"
  have "dropWhile p s = strip_by p s @ ?b"
    unfolding strip_by_def by (metis rev_append rev_rev_ident takeWhile_dropWhile_id)
  then have "s = ?a @ strip_by p s @ ?b" by (metis takeWhile_dropWhile_id)
  moreover have "\<forall>c \<in> set ?a. p c" "\<forall>c \<in> set ?b. p c"
    by (auto dest: set_takeWhileD)
  ultimately show ?thesis by (rule that)
qed

lemma str_startswith_iff: "str_startswith s p \<longleftrightarrow> (\<exists>t. s = p @ t)"
  by (induction s p rule: str_startswith.induct) auto

lemma str_endswith_iff: "str_endswith s p \<longleftrightarrow> (\<exists>t. s = t @ p)"
  unfolding str_endswith_def str_startswith_iff
  by (metis rev_append rev_rev_ident)

lemma str_contains_iff: "str_contains s p \<longleftrightarrow> (\<exists>a b. s = a @ p @ b)"
proof (induction s)
  case Nil
  then show ?case by (subst str_contains.simps) (auto simp: str_startswith_iff)
next
  case (Cons c s)
  have "str_contains (c # s) p \<longleftrightarrow> (\<exists>t. c # s = p @ t) \<or> (\<exists>a b. s = a @ p @ b)"
    by (subst str_contains.simps) (simp add: str_startswith_iff Cons)
  also have "\<dots> \<longleftrightarrow> (\<exists>a b. c # s = a @ p @ b)"
    by (metis append_Cons append_Nil list.exhaust list.inject)
  finally show ?case .
qed

lemma str_startswith_append [simp]: "str_startswith (p @ t) p"
  by (auto simp: str_startswith_iff)

lemma str_endswith_trans: "str_endswith a b \<Longrightarrow> str_endswith b c \<Longrightarrow> str_endswith a c"
  by (auto simp: str_endswith_iff)

section \<open>Values\<close>

datatype pyval =
    PNone
  | PBool bool
  | PInt int
  | PFloat pyfloat
  | PStr string
  | PList "pyval list"
  | PTuple "pyval list"
  | PDict "(string \<times> pyval) list"
  | POther string

type_synonym pydict = "(string \<times> pyval) list"

text \<open>\<open>bool(v)\<close>.\<close>

fun py_truthy :: "pyval \<Rightarrow> bool" where
  "py_truthy PNone = False"
| "py_truthy (PBool b) = b"
| "py_truthy (PInt n) = (n \<noteq> 0)"
| "py_truthy (PFloat f) = (f \<noteq> Fin 0)"
| "py_truthy (PStr s) = (s \<noteq> [])"
| "py_truthy (PList xs) = (xs \<noteq> [])"
| "py_truthy (PTuple xs) = (xs \<noteq> [])"
| "py_truthy (PDict d) = (d \<noteq> [])"
| "py_truthy (POther _) = True"

text \<open>\<open>v == w\<close>: numbers by value across \<open>bool\<close>, \<open>int\<close> and \<open>float\<close>, sequences of one type
  element by element, dictionaries without regard to order, other objects by identity.\<close>

fun num_of :: "pyval \<Rightarrow> pyfloat option" where
  "num_of (PBool b) = Some (Fin (if b then 1 else 0))"
| "num_of (PInt n) = Some (Fin (of_int n))"
| "num_of (PFloat f) = Some f"
| "num_of _ = None"

definition num_eq :: "pyval \<Rightarrow> pyval \<Rightarrow> bool" where
  "num_eq v w = (case (num_of v, num_of w) of (Some a, Some b) \<Rightarrow> a = b \<and> a \<noteq> NaN | _ \<Rightarrow> False)"

function py_eq :: "pyval \<Rightarrow> pyval \<Rightarrow> bool" where
  "py_eq PNone w = (case w of PNone \<Rightarrow> True | _ \<Rightarrow> False)"
| "py_eq (PBool b) w = num_eq (PBool b) w"
| "py_eq (PInt n) w = num_eq (PInt n) w"
| "py_eq (PFloat f) w = num_eq (PFloat f) w"
| "py_eq (PStr s) w = (case w of PStr t \<Rightarrow> s = t | _ \<Rightarrow> False)"
| "py_eq (PList xs) w = (case w of PList ys \<Rightarrow> list_all2 py_eq xs ys | _ \<Rightarrow> False)"
| "py_eq (PTuple xs) w = (case w of PTuple ys \<Rightarrow> list_all2 py_eq xs ys | _ \<Rightarrow> False)"
| "py_eq (PDict d) w = (case w of
      PDict e \<Rightarrow> length d = length e \<and>
        list_all (\<lambda>p. case map_of e (fst p) of None \<Rightarrow> False | Some u \<Rightarrow> py_eq (snd p) u) d
    | _ \<Rightarrow> False)"
| "py_eq (POther s) w = (case w of POther t \<Rightarrow> s = t | _ \<Rightarrow> False)"
  by pat_completeness auto
termination
proof (relation "measure (\<lambda>(v, w). size v)", goal_cases)
  case 1 show ?case by simp
next
  case (2 xs w ys x y) then show ?case by (simp add: less_Suc_eq_le size_list_estimation')
next
  case (3 xs w ys x y) then show ?case by (simp add: less_Suc_eq_le size_list_estimation')
next
  case (4 d w e p u)
  have "size (snd p) \<le> size_prod (\<lambda>_. 0) size p" by (cases p) simp
  with 4 show ?case by (simp add: less_Suc_eq_le size_list_estimation')
qed

text \<open>Values that may be elements of a \<open>set\<close>.\<close>

fun py_hashable :: "pyval \<Rightarrow> bool" where
  "py_hashable (PList _) = False"
| "py_hashable (PDict _) = False"
| "py_hashable (PTuple xs) = list_all py_hashable xs"
| "py_hashable _ = True"

text \<open>\<open>str(v)\<close>. The textual form of floats, containers and other objects is the parameter
  \<open>rp\<close>.\<close>

fun str_of :: "(pyval \<Rightarrow> string) \<Rightarrow> pyval \<Rightarrow> string" where
  "str_of rp PNone = ''None''"
| "str_of rp (PBool b) = (if b then ''True'' else ''False'')"
| "str_of rp (PInt n) = show_int n"
| "str_of rp (PStr s) = s"
| "str_of rp v = rp v"

text \<open>\<open>d.get(k)\<close> with the default \<open>None\<close>, and \<open>str(d.get(k) or "")\<close>.\<close>

definition dget :: "pydict \<Rightarrow> string \<Rightarrow> pyval" where
  "dget d k = (case map_of d k of None \<Rightarrow> PNone | Some v \<Rightarrow> v)"

definition dget_str :: "(pyval \<Rightarrow> string) \<Rightarrow> pydict \<Rightarrow> string \<Rightarrow> string" where
  "dget_str rp d k = (let v = dget d k in if py_truthy v then str_of rp v else [])"

definition dhas :: "string \<Rightarrow> pydict \<Rightarrow> bool" where
  "dhas k d = (map_of d k \<noteq> None)"

text \<open>The well-formedness every \<open>dict\<close> has: keys are distinct, at every level.\<close>

fun wf_val :: "pyval \<Rightarrow> bool" where
  "wf_val (PList xs) = list_all wf_val xs"
| "wf_val (PTuple xs) = list_all wf_val xs"
| "wf_val (PDict d) = (distinct (map fst d) \<and> list_all (\<lambda>p. wf_val (snd p)) d)"
| "wf_val _ = True"

lemma dhas_iff [simp]: "dhas k d \<longleftrightarrow> k \<in> fst ` set d"
  by (simp add: dhas_def map_of_eq_None_iff)

lemma dget_update: "dget (AList.update k v d) k' = (if k' = k then v else dget d k')"
  by (simp add: dget_def update_conv')

lemma dhas_update: "dhas k' (AList.update k v d) \<longleftrightarrow> k' = k \<or> dhas k' d"
  by (simp add: dhas_def update_conv' del: dhas_iff)

lemma dget_delete: "dget (AList.delete k d) k' = (if k' = k then PNone else dget d k')"
  by (simp add: dget_def delete_conv')

lemma num_eq_sym: "num_eq v w = num_eq w v"
  by (auto simp: num_eq_def split: option.splits)

lemma num_eq_trans: "num_eq u v \<Longrightarrow> num_eq v w \<Longrightarrow> num_eq u w"
  by (auto simp: num_eq_def split: option.splits)

lemma num_eq_cases:
  "num_eq v w \<longleftrightarrow> (\<exists>a. num_of v = Some a \<and> num_of w = Some a \<and> a \<noteq> NaN)"
  by (auto simp: num_eq_def split: option.splits)

lemma py_eq_num: "num_of v = Some a \<Longrightarrow> py_eq v w = num_eq v w"
  by (cases v) simp_all

lemma py_eq_trans: "py_eq u v \<Longrightarrow> py_eq v w \<Longrightarrow> py_eq u w"
proof (induction u v arbitrary: w rule: py_eq.induct)
  case (6 xs v)
  then obtain ys where v: "v = PList ys" and xy: "list_all2 py_eq xs ys"
    by (auto split: pyval.splits)
  from "6.prems"(2) v obtain zs where w: "w = PList zs" and yz: "list_all2 py_eq ys zs"
    by (auto split: pyval.splits)
  have "list_all2 py_eq xs zs"
  proof (rule list_all2_all_nthI)
    show "length xs = length zs" using xy yz by (simp add: list_all2_conv_all_nth)
    fix n assume n: "n < length xs"
    then have "py_eq (xs ! n) (ys ! n)" and "py_eq (ys ! n) (zs ! n)"
      and "xs ! n \<in> set xs" and "ys ! n \<in> set ys"
      using xy yz by (simp_all add: list_all2_conv_all_nth)
    with "6.IH" [OF v] show "py_eq (xs ! n) (zs ! n)" by blast
  qed
  with w show ?case by simp
next
  case (7 xs v)
  then obtain ys where v: "v = PTuple ys" and xy: "list_all2 py_eq xs ys"
    by (auto split: pyval.splits)
  from "7.prems"(2) v obtain zs where w: "w = PTuple zs" and yz: "list_all2 py_eq ys zs"
    by (auto split: pyval.splits)
  have "list_all2 py_eq xs zs"
  proof (rule list_all2_all_nthI)
    show "length xs = length zs" using xy yz by (simp add: list_all2_conv_all_nth)
    fix n assume n: "n < length xs"
    then have "py_eq (xs ! n) (ys ! n)" and "py_eq (ys ! n) (zs ! n)"
      and "xs ! n \<in> set xs" and "ys ! n \<in> set ys"
      using xy yz by (simp_all add: list_all2_conv_all_nth)
    with "7.IH" [OF v] show "py_eq (xs ! n) (zs ! n)" by blast
  qed
  with w show ?case by simp
next
  case (8 d v)
  then obtain e where v: "v = PDict e" and len: "length d = length e" and
    de: "\<And>p. p \<in> set d \<Longrightarrow> \<exists>u. map_of e (fst p) = Some u \<and> py_eq (snd p) u"
    by (fastforce simp: list_all_iff split: pyval.splits option.splits)
  from "8.prems"(2) v obtain g where w: "w = PDict g" and leng: "length e = length g" and
    eg: "\<And>p. p \<in> set e \<Longrightarrow> \<exists>u. map_of g (fst p) = Some u \<and> py_eq (snd p) u"
    by (fastforce simp: list_all_iff split: pyval.splits option.splits)
  have "\<exists>z. map_of g (fst p) = Some z \<and> py_eq (snd p) z" if p: "p \<in> set d" for p
  proof -
    from de [OF p] obtain y where y: "map_of e (fst p) = Some y" "py_eq (snd p) y" by blast
    from y(1) have "(fst p, y) \<in> set e" by (rule map_of_SomeD)
    from eg [OF this] obtain z where "map_of g (fst p) = Some z" "py_eq y z" by auto
    with "8.IH" [OF v p y(1) y(2)] show ?thesis by blast
  qed
  with w len leng show ?case by (fastforce simp: list_all_iff split: option.splits)
qed (auto simp: num_eq_cases py_eq_num split: pyval.splits)

lemma py_eq_refl_iff:
  "py_eq (PStr s) (PStr s)" "py_eq (PInt n) (PInt n)" "py_eq (PBool b) (PBool b)"
  "py_eq (PFloat f) (PFloat f) \<longleftrightarrow> f \<noteq> NaN" "py_eq PNone PNone"
  by (auto simp: num_eq_def)

end
