(* ===== verification/Wire_Validation.thy ===== *)
theory Wire_Validation
  imports Py_Values
begin

text \<open>
  The strict parsers of \<open>core/wire_validation.py\<close>, the numeric predicate of
  \<open>core/json_ingress.py\<close> they rest on, the reserved-control validators of
  \<open>core/runtime_controls.py\<close> and the identifier vocabulary of \<open>identifiers.py\<close>.

  The type adapters are pydantic's: \<open>va\<close> stands for \<open>adapter.validate_python(v, strict=True)\<close>,
  with \<open>None\<close> for a \<open>ValidationError\<close>. What the code relies on is pydantic's documented strict
  mode (\<open>pydantic_strict\<close>): an adapter accepts exactly the values of its type, unchanged.
\<close>

section \<open>Numbers of the JSON domain\<close>

text \<open>\<open>float(v)\<close> of a number.\<close>

fun to_float :: "pyval \<Rightarrow> pyfloat res" where
  "to_float (PInt n) = float_of_int n"
| "to_float (PFloat f) = Inr f"
| "to_float (PBool b) = Inr (Fin (if b then 1 else 0))"
| "to_float _ = Inl (TypeError ''float() argument must be a string or a real number'')"

definition is_finite_json_number :: "pyval \<Rightarrow> bool" where
  "is_finite_json_number v = (case v of
      PInt _ \<Rightarrow> (case to_float v of Inr f \<Rightarrow> is_finite_float f | Inl _ \<Rightarrow> False)
    | PFloat _ \<Rightarrow> (case to_float v of Inr f \<Rightarrow> is_finite_float f | Inl _ \<Rightarrow> False)
    | _ \<Rightarrow> False)"

section \<open>Parsers\<close>

datatype adapter = OBJECT_ADAPTER | LIST_ADAPTER | STR_ADAPTER | BOOL_ADAPTER

type_synonym validator = "adapter \<Rightarrow> pyval \<Rightarrow> pyval option"

definition pydantic_strict :: "validator \<Rightarrow> bool" where
  "pydantic_strict va \<longleftrightarrow>
     (\<forall>v. va OBJECT_ADAPTER v = (case v of PDict _ \<Rightarrow> Some v | _ \<Rightarrow> None)) \<and>
     (\<forall>v. va LIST_ADAPTER v = (case v of PList _ \<Rightarrow> Some v | _ \<Rightarrow> None)) \<and>
     (\<forall>v. va STR_ADAPTER v = (case v of PStr _ \<Rightarrow> Some v | _ \<Rightarrow> None)) \<and>
     (\<forall>v. va BOOL_ADAPTER v = (case v of PBool _ \<Rightarrow> Some v | _ \<Rightarrow> None))"

text \<open>A validator with that behaviour.\<close>

fun strict_validator :: validator where
  "strict_validator OBJECT_ADAPTER v = (case v of PDict _ \<Rightarrow> Some v | _ \<Rightarrow> None)"
| "strict_validator LIST_ADAPTER v = (case v of PList _ \<Rightarrow> Some v | _ \<Rightarrow> None)"
| "strict_validator STR_ADAPTER v = (case v of PStr _ \<Rightarrow> Some v | _ \<Rightarrow> None)"
| "strict_validator BOOL_ADAPTER v = (case v of PBool _ \<Rightarrow> Some v | _ \<Rightarrow> None)"

definition wire_validate :: "validator \<Rightarrow> adapter \<Rightarrow> pyval \<Rightarrow> string \<Rightarrow> string \<Rightarrow> pyval res" where
  "wire_validate va a v field msg = (case va a v of
      Some w \<Rightarrow> Inr w
    | None \<Rightarrow> Inl (ValueError (field @ '' '' @ msg)))"

text \<open>The result of an adapter at the type it is declared with; an adapter that returns a value
  of another type has no counterpart in the source and is a fault of the model.\<close>

fun as_dict :: "pyval \<Rightarrow> pydict res" where
  "as_dict (PDict d) = Inr d"
| "as_dict _ = Inl (RuntimeFault ''adapter'')"

fun as_list :: "pyval \<Rightarrow> pyval list res" where
  "as_list (PList xs) = Inr xs"
| "as_list _ = Inl (RuntimeFault ''adapter'')"

fun as_str :: "pyval \<Rightarrow> string res" where
  "as_str (PStr s) = Inr s"
| "as_str _ = Inl (RuntimeFault ''adapter'')"

fun as_bool :: "pyval \<Rightarrow> bool res" where
  "as_bool (PBool b) = Inr b"
| "as_bool _ = Inl (RuntimeFault ''adapter'')"

definition require_object :: "validator \<Rightarrow> pyval \<Rightarrow> string \<Rightarrow> pydict res" where
  "require_object va v name =
     res_bind (wire_validate va OBJECT_ADAPTER v name ''must be an object'') as_dict"

definition require_only_fields :: "pydict \<Rightarrow> string list \<Rightarrow> string \<Rightarrow> unit res" where
  "require_only_fields payload allowed name =
     guard (list_all (\<lambda>p. fst p \<in> set allowed) payload)
       (ValueError (name @ '' contains fields outside its closed schema''))"

definition optional_object :: "validator \<Rightarrow> pydict \<Rightarrow> string \<Rightarrow> pydict \<Rightarrow> pydict res" where
  "optional_object va payload key d = (case map_of payload key of
      None \<Rightarrow> Inr d
    | Some v \<Rightarrow> require_object va v key)"

definition require_list :: "validator \<Rightarrow> pyval \<Rightarrow> string \<Rightarrow> pyval list res" where
  "require_list va v name =
     res_bind (wire_validate va LIST_ADAPTER v name ''must be a list'') as_list"

definition optional_list :: "validator \<Rightarrow> pydict \<Rightarrow> string \<Rightarrow> pyval list \<Rightarrow> pyval list res" where
  "optional_list va payload key d = (case map_of payload key of
      None \<Rightarrow> Inr d
    | Some v \<Rightarrow> require_list va v key)"

definition parse_str :: "validator \<Rightarrow> pydict \<Rightarrow> string \<Rightarrow> string \<Rightarrow> string res" where
  "parse_str va payload key d = (case map_of payload key of
      None \<Rightarrow> Inr d
    | Some v \<Rightarrow> res_bind (wire_validate va STR_ADAPTER v key ''must be a string'') as_str)"

definition parse_required_str ::
    "validator \<Rightarrow> pydict \<Rightarrow> string \<Rightarrow> bool \<Rightarrow> bool \<Rightarrow> string res" where
  "parse_required_str va payload key strip non_empty =
     (if \<not> dhas key payload then Inl (ValueError (key @ '' is required''))
      else res_bind (parse_str va payload key []) (\<lambda>value.
        let value = (if strip then str_strip value else value)
        in if non_empty \<and> value = [] then Inl (ValueError (key @ '' is required'')) else Inr value))"

definition parse_bool :: "validator \<Rightarrow> pydict \<Rightarrow> string \<Rightarrow> bool \<Rightarrow> bool res" where
  "parse_bool va payload key d = (case map_of payload key of
      None \<Rightarrow> Inr d
    | Some v \<Rightarrow> res_bind (wire_validate va BOOL_ADAPTER v key ''must be a boolean'') as_bool)"

definition parse_int :: "pydict \<Rightarrow> string \<Rightarrow> int \<Rightarrow> int res" where
  "parse_int payload key d = (case map_of payload key of
      None \<Rightarrow> Inr d
    | Some (PInt n) \<Rightarrow> Inr n
    | Some _ \<Rightarrow> Inl (ValueError (key @ '' must be an integer'')))"

definition parse_float :: "pydict \<Rightarrow> string \<Rightarrow> pyfloat \<Rightarrow> bool \<Rightarrow> pyfloat option res" where
  "parse_float payload key d allow_none = (case map_of payload key of
      None \<Rightarrow> Inr (Some d)
    | Some v \<Rightarrow>
        if v = PNone \<and> allow_none then Inr None
        else if \<not> is_finite_json_number v
        then Inl (ValueError (key @ '' must be a finite number''))
        else res_bind (to_float v) (\<lambda>f. Inr (Some f)))"

text \<open>\<open>parse_literal\<close> at its string-valued uses: exact type and value, first match.\<close>

definition parse_literal :: "pydict \<Rightarrow> string \<Rightarrow> string list \<Rightarrow> string option \<Rightarrow> string res" where
  "parse_literal payload key allowed d =
     (case (case map_of payload key of Some v \<Rightarrow> Some v | None \<Rightarrow> map_option PStr d) of
        None \<Rightarrow> Inl (ValueError (key @ '' is required''))
      | Some v \<Rightarrow> (case find (\<lambda>a. v = PStr a) allowed of
            Some a \<Rightarrow> Inr a
          | None \<Rightarrow> Inl (ValueError (key @ '' must be one of: ''
              @ concat (map (\<lambda>a. a @ '', '') (butlast allowed)) @ last allowed))))"

section \<open>Reserved runtime controls\<close>

fun exact_runtime_string :: "pyval \<Rightarrow> string \<Rightarrow> string res" where
  "exact_runtime_string (PStr s) _ = Inr s"
| "exact_runtime_string _ field_name = Inl (ValueError (field_name @ '' must be a string''))"

fun exact_runtime_bool :: "pyval \<Rightarrow> string \<Rightarrow> bool res" where
  "exact_runtime_bool (PBool b) _ = Inr b"
| "exact_runtime_bool _ field_name = Inl (ValueError (field_name @ '' must be a boolean''))"

definition int_qualifier :: "int \<Rightarrow> string" where
  "int_qualifier minimum = (if minimum = 0 then ''non-negative'' else ''positive'')"

fun exact_runtime_integer :: "pyval \<Rightarrow> string \<Rightarrow> int \<Rightarrow> int res" where
  "exact_runtime_integer (PInt n) field_name minimum = (if n < minimum
     then Inl (ValueError (field_name @ '' must be a '' @ int_qualifier minimum @ '' integer''))
     else Inr n)"
| "exact_runtime_integer _ field_name minimum =
     Inl (ValueError (field_name @ '' must be a '' @ int_qualifier minimum @ '' integer''))"

definition runtime_section :: "pyval \<Rightarrow> string \<Rightarrow> string \<Rightarrow> pydict res" where
  "runtime_section runtime sec source = (case runtime of
      PDict d \<Rightarrow> (case map_of d sec of
          None \<Rightarrow> Inr d
        | Some (PDict nested) \<Rightarrow> Inr nested
        | Some _ \<Rightarrow> Inl (ValueError (source @ '' must be an object'')))
    | _ \<Rightarrow> Inl (ValueError (source @ '' must be an object'')))"

definition WEB_INTEGER_MINIMUMS :: "(string \<times> int) list" where
  "WEB_INTEGER_MINIMUMS = [
     (''max_calls'', 0), (''max_search_calls'', 0), (''max_fetch_calls'', 0),
     (''max_context_calls'', 0), (''default_max_results'', 1), (''max_results'', 1),
     (''default_timeout_s'', 1), (''max_timeout_s'', 1), (''timeout_s'', 1),
     (''default_max_response_bytes'', 1), (''max_response_bytes'', 1), (''max_bytes'', 1),
     (''default_max_context_tokens'', 1), (''max_context_tokens'', 1), (''max_tokens'', 1),
     (''default_max_context_urls'', 1), (''max_context_urls'', 1), (''max_urls'', 1),
     (''default_max_context_snippets'', 1), (''max_context_snippets'', 1),
     (''max_snippets'', 1)]"

definition WEB_DEFAULT_MAX_PAIRS :: "(string \<times> string) list" where
  "WEB_DEFAULT_MAX_PAIRS = [
     (''default_max_results'', ''max_results''),
     (''default_timeout_s'', ''max_timeout_s''),
     (''default_max_response_bytes'', ''max_response_bytes''),
     (''default_max_context_tokens'', ''max_context_tokens''),
     (''default_max_context_urls'', ''max_context_urls''),
     (''default_max_context_snippets'', ''max_context_snippets'')]"

fun web_check_minimums :: "pydict \<Rightarrow> string \<Rightarrow> (string \<times> int) list \<Rightarrow> unit res" where
  "web_check_minimums sec source [] = Inr ()"
| "web_check_minimums sec source ((key, minimum) # rest) =
     (case map_of sec key of
        None \<Rightarrow> web_check_minimums sec source rest
      | Some v \<Rightarrow> res_bind (exact_runtime_integer v (source @ '' '' @ key) minimum)
          (\<lambda>_. web_check_minimums sec source rest))"

text \<open>The comparison \<open>sec[default_key] > sec[max_key]\<close> of two values that passed the
  first loop, hence of two integers.\<close>

fun web_check_pairs :: "pydict \<Rightarrow> string \<Rightarrow> (string \<times> string) list \<Rightarrow> unit res" where
  "web_check_pairs sec source [] = Inr ()"
| "web_check_pairs sec source ((dk, mk) # rest) =
     (case (map_of sec dk, map_of sec mk) of
        (Some (PInt a), Some (PInt b)) \<Rightarrow>
          if b < a then Inl (ValueError (source @ '' '' @ dk @ '' cannot exceed '' @ mk))
          else web_check_pairs sec source rest
      | _ \<Rightarrow> web_check_pairs sec source rest)"

definition validate_web_runtime :: "pyval \<Rightarrow> string \<Rightarrow> pydict res" where
  "validate_web_runtime runtime source =
     res_bind (runtime_section runtime ''web'' source) (\<lambda>sec.
     res_bind (web_check_minimums sec source WEB_INTEGER_MINIMUMS) (\<lambda>_.
     res_bind (web_check_pairs sec source WEB_DEFAULT_MAX_PAIRS) (\<lambda>_.
     Inr sec)))"

section \<open>Identifiers\<close>

definition CURRENT_NAMESPACE :: string where "CURRENT_NAMESPACE = ''monoid''"
definition LEGACY_NAMESPACE :: string where "LEGACY_NAMESPACE = ''native-agent-runner''"

definition namespaced_id :: "string \<Rightarrow> string" where
  "namespaced_id name = CURRENT_NAMESPACE @ ''.'' @ name"

definition legacy_namespaced_id :: "string \<Rightarrow> string" where
  "legacy_namespaced_id name = LEGACY_NAMESPACE @ ''.'' @ name"

definition accepted_namespaced_ids :: "string \<Rightarrow> string list" where
  "accepted_namespaced_ids name = [namespaced_id name, legacy_namespaced_id name]"

definition accepts_namespaced_id :: "pyval \<Rightarrow> string \<Rightarrow> bool" where
  "accepts_namespaced_id v name = (case v of
      PStr s \<Rightarrow> s \<in> set (accepted_namespaced_ids name)
    | _ \<Rightarrow> False)"

section \<open>Laws\<close>

lemma strict_validator_strict: "pydantic_strict strict_validator"
  by (simp add: pydantic_strict_def)

named_theorems wire_simps \<open>behaviour of the parsers under strict adapters\<close>

lemma require_object_strict [wire_simps]:
  "pydantic_strict va \<Longrightarrow> require_object va v name =
     (case v of PDict d \<Rightarrow> Inr d | _ \<Rightarrow> Inl (ValueError (name @ '' must be an object'')))"
  by (simp add: require_object_def wire_validate_def pydantic_strict_def split: pyval.split)

lemma require_list_strict [wire_simps]:
  "pydantic_strict va \<Longrightarrow> require_list va v name =
     (case v of PList d \<Rightarrow> Inr d | _ \<Rightarrow> Inl (ValueError (name @ '' must be a list'')))"
  by (simp add: require_list_def wire_validate_def pydantic_strict_def split: pyval.split)

lemma parse_str_strict [wire_simps]:
  "pydantic_strict va \<Longrightarrow> parse_str va payload key d = (case map_of payload key of
      None \<Rightarrow> Inr d
    | Some (PStr s) \<Rightarrow> Inr s
    | Some _ \<Rightarrow> Inl (ValueError (key @ '' must be a string'')))"
  by (auto simp: parse_str_def wire_validate_def pydantic_strict_def
      split: option.split pyval.split)

lemma parse_bool_strict [wire_simps]:
  "pydantic_strict va \<Longrightarrow> parse_bool va payload key d = (case map_of payload key of
      None \<Rightarrow> Inr d
    | Some (PBool b) \<Rightarrow> Inr b
    | Some _ \<Rightarrow> Inl (ValueError (key @ '' must be a boolean'')))"
  by (auto simp: parse_bool_def wire_validate_def pydantic_strict_def
      split: option.split pyval.split)

lemma is_finite_json_number_to_float:
  "is_finite_json_number v \<longleftrightarrow>
     (\<exists>f. to_float v = Inr f \<and> is_finite_float f \<and> (\<forall>b. v \<noteq> PBool b))"
  by (cases v) (auto simp: is_finite_json_number_def split: sum.splits)

lemma parse_float_finite:
  "parse_float payload key d an = Inr (Some f) \<Longrightarrow> is_finite_float d \<Longrightarrow> is_finite_float f"
  by (auto simp: parse_float_def is_finite_json_number_to_float res_bind_eq_Inr
      split: option.splits if_splits)

lemma parse_literal_mem: "parse_literal payload key allowed d = Inr a \<Longrightarrow> a \<in> set allowed"
  by (auto simp: parse_literal_def find_Some_iff split: option.splits)

lemma parse_literal_present:
  "map_of payload key = Some (PStr a) \<Longrightarrow> a \<in> set allowed \<Longrightarrow>
     parse_literal payload key allowed d = Inr a"
proof -
  assume m: "map_of payload key = Some (PStr a)" and a: "a \<in> set allowed"
  from a have "find (\<lambda>b. PStr a = PStr b) allowed = Some a"
    by (induction allowed) auto
  with m show ?thesis by (simp add: parse_literal_def)
qed

lemma accepted_namespaced_ids_iff:
  "s \<in> set (accepted_namespaced_ids name) \<longleftrightarrow>
     s = namespaced_id name \<or> s = legacy_namespaced_id name"
  by (simp add: accepted_namespaced_ids_def)

lemma namespaced_id_ne_Nil [simp]: "namespaced_id name \<noteq> []"
  by (simp add: namespaced_id_def CURRENT_NAMESPACE_def)

text \<open>What the two loops of \<open>validate_web_runtime\<close> establish, and when they refuse.\<close>

definition web_section_ok :: "pydict \<Rightarrow> bool" where
  "web_section_ok sec \<longleftrightarrow>
     (\<forall>(k, m) \<in> set WEB_INTEGER_MINIMUMS. \<forall>v. map_of sec k = Some v \<longrightarrow>
        (\<exists>n. v = PInt n \<and> m \<le> n)) \<and>
     (\<forall>(dk, mk) \<in> set WEB_DEFAULT_MAX_PAIRS. \<forall>a b.
        map_of sec dk = Some (PInt a) \<longrightarrow> map_of sec mk = Some (PInt b) \<longrightarrow> a \<le> b)"

lemma exact_runtime_integer_ok:
  "is_ok (exact_runtime_integer v f m) \<longleftrightarrow> (\<exists>n. v = PInt n \<and> m \<le> n)"
  by (cases v) auto

lemma web_check_minimums_ok:
  "is_ok (web_check_minimums sec source ks) \<longleftrightarrow>
     (\<forall>(k, m) \<in> set ks. \<forall>v. map_of sec k = Some v \<longrightarrow> (\<exists>n. v = PInt n \<and> m \<le> n))"
proof (induction ks)
  case Nil
  then show ?case by simp
next
  case (Cons km ks)
  obtain k m where km: "km = (k, m)" by (cases km)
  show ?case
  proof (cases "map_of sec k")
    case None
    with Cons km show ?thesis by simp
  next
    case (Some v)
    have "is_ok (res_bind (exact_runtime_integer v (source @ '' '' @ k) m)
            (\<lambda>_. web_check_minimums sec source ks)) \<longleftrightarrow>
          is_ok (exact_runtime_integer v (source @ '' '' @ k) m) \<and>
            is_ok (web_check_minimums sec source ks)"
      by (cases "exact_runtime_integer v (source @ '' '' @ k) m") auto
    with Some Cons km show ?thesis by (simp add: exact_runtime_integer_ok)
  qed
qed

lemma web_check_pairs_ok:
  "is_ok (web_check_pairs sec source ks) \<longleftrightarrow>
     (\<forall>(dk, mk) \<in> set ks. \<forall>a b. map_of sec dk = Some (PInt a) \<longrightarrow>
        map_of sec mk = Some (PInt b) \<longrightarrow> a \<le> b)"
  by (induction sec source ks rule: web_check_pairs.induct)
     (auto split: option.splits pyval.splits)

end
