(* ===== verification/Event_Log.thy ===== *)
theory Event_Log
  imports Wire_Validation
begin

text \<open>
  The append-only event log of \<open>core/_event_log.py\<close> and the writer of \<open>recorder.py\<close> that
  appends to it, on the bytes of the file.

  A file is its content with the identity \<open>fstat\<close> reports; a missing file is \<open>None\<close>. A generator is
  the list of what it yields together with the exception that ended it, if one did. The digest
  (\<open>sha\<close>) and the JSON reader (\<open>loads\<close>, \<open>None\<close> where \<open>loads_json_ingress\<close> raises) are arguments:
  every statement holds for all of them. UTF-8 decoding is written out.

  The reader walks the file forwards, the tail inspection walks it backwards in blocks of 64 KiB;
  the main lemmas show that the two agree, that a repair removes exactly the uncommitted suffix, and
  that appends interrupted by crashes leave a log whose committed events are numbered upwards.
\<close>

section \<open>Bytes\<close>

type_synonym bytes = "char list"

abbreviation nl :: char where
  "nl \<equiv> CHR 0x0A"

text \<open>\<open>bytes.strip()\<close> removes ASCII whitespace.\<close>

definition is_ascii_space :: "char \<Rightarrow> bool" where
  "is_ascii_space c = (let n = (of_char c :: nat) in n = 32 \<or> (9 \<le> n \<and> n \<le> 13))"

definition bytes_strip :: "bytes \<Rightarrow> bytes" where
  "bytes_strip b = strip_by is_ascii_space b"

text \<open>\<open>handle.readline()\<close> on the rest of a file: up to and including the first newline.\<close>

fun readline :: "bytes \<Rightarrow> bytes" where
  "readline [] = []"
| "readline (c # b) = (if c = nl then [c] else c # readline b)"

text \<open>\<open>block.rfind(newline)\<close>.\<close>

fun rfind_nl :: "bytes \<Rightarrow> nat option" where
  "rfind_nl [] = None"
| "rfind_nl (c # b) = (case rfind_nl b of
      Some i \<Rightarrow> Some (Suc i)
    | None \<Rightarrow> if c = nl then Some 0 else None)"

text \<open>Strict UTF-8: shortest forms only, no surrogates, nothing above \<open>0x10FFFF\<close>.\<close>

definition utf8_cont :: "nat \<Rightarrow> bool" where
  "utf8_cont n = (128 \<le> n \<and> n \<le> 191)"

fun utf8_units :: "nat list \<Rightarrow> nat list option" where
  "utf8_units [] = Some []"
| "utf8_units (a # u) =
    (if a < 128 then map_option (Cons a) (utf8_units u)
     else if 194 \<le> a \<and> a \<le> 223 then
       (case u of b # v \<Rightarrow> if utf8_cont b
            then map_option (Cons ((a - 192) * 64 + (b - 128))) (utf8_units v) else None
        | [] \<Rightarrow> None)
     else if 224 \<le> a \<and> a \<le> 239 then
       (case u of b # c # v \<Rightarrow>
            if utf8_cont b \<and> utf8_cont c \<and> (a = 224 \<longrightarrow> 160 \<le> b) \<and> (a = 237 \<longrightarrow> b \<le> 159)
            then map_option (Cons ((a - 224) * 4096 + (b - 128) * 64 + (c - 128))) (utf8_units v)
            else None
        | _ \<Rightarrow> None)
     else if 240 \<le> a \<and> a \<le> 244 then
       (case u of b # c # d # v \<Rightarrow>
            if utf8_cont b \<and> utf8_cont c \<and> utf8_cont d \<and> (a = 240 \<longrightarrow> 144 \<le> b) \<and> (a = 244 \<longrightarrow> b \<le> 143)
            then map_option (Cons ((a - 240) * 262144 + (b - 128) * 4096 + (c - 128) * 64 + (d - 128)))
                   (utf8_units v)
            else None
        | _ \<Rightarrow> None)
     else None)"

definition utf8_decode :: "bytes \<Rightarrow> nat list option" where
  "utf8_decode b = utf8_units (map of_char b)"

section \<open>Records\<close>

datatype log_error =
    BadArgument string
  | EventLogCorruption string nat
  | EventLogBoundaryError nat
  | EventLogChanged string nat
  | UnicodeDecodeError
  | OSFailure string

record jsonl_record =
  jr_byte_offset :: nat
  jr_next_byte_offset :: nat
  jr_raw_bytes :: bytes
  jr_record_sha256 :: string

record event_record =
  er_byte_offset :: nat
  er_next_byte_offset :: nat
  er_seq :: int
  er_payload :: pydict
  er_raw_json :: "nat list"
  er_record_sha256 :: string

type_synonym 'a generator = "'a list \<times> log_error option"

text \<open>The reading loop of \<open>iter_open_committed_jsonl_records\<close>: \<open>rest\<close> is what lies behind the
  handle's position \<open>off\<close>.\<close>

definition next_line :: "nat option \<Rightarrow> nat \<Rightarrow> bytes \<Rightarrow> bytes" where
  "next_line end_offset off rest = (case end_offset of
      None \<Rightarrow> readline rest
    | Some e \<Rightarrow> readline (take (e - off) rest))"

lemma readline_nonempty [simp]: "readline b = [] \<longleftrightarrow> b = []"
  by (cases b) auto

lemma next_line_rest: "next_line e off rest \<noteq> [] \<Longrightarrow> rest \<noteq> []"
  by (auto simp: next_line_def split: option.splits)

definition jsonl_record_at :: "(bytes \<Rightarrow> string) \<Rightarrow> nat \<Rightarrow> bytes \<Rightarrow> jsonl_record" where
  "jsonl_record_at sha off raw = \<lparr>jr_byte_offset = off, jr_next_byte_offset = off + length raw,
     jr_raw_bytes = raw, jr_record_sha256 = sha raw\<rparr>"

function read_loop ::
    "(bytes \<Rightarrow> string) \<Rightarrow> nat option \<Rightarrow> nat \<Rightarrow> bytes \<Rightarrow> jsonl_record generator" where
  "read_loop sha end_offset off rest =
    (if (case end_offset of None \<Rightarrow> False | Some e \<Rightarrow> e \<le> off) then ([], None)
     else let raw = next_line end_offset off rest in
       if raw = [] then
         ([], (case end_offset of None \<Rightarrow> None
               | Some _ \<Rightarrow> Some (EventLogChanged ''ended before the committed boundary'' off)))
       else if last raw \<noteq> nl then
         ([], (case end_offset of None \<Rightarrow> None
               | Some _ \<Rightarrow> Some (EventLogChanged ''changed within the committed boundary'' off)))
       else (case read_loop sha end_offset (off + length raw) (drop (length raw) rest) of
          (rs, stop) \<Rightarrow> (jsonl_record_at sha off raw # rs, stop)))"
  by pat_completeness auto
termination
  by (relation "measure (\<lambda>(sha, e, off, rest). length rest)") 
    (auto dest: next_line_rest intro!: diff_less)

declare read_loop.simps [simp del]

text \<open>\<open>handle.seek(p); handle.read(1)\<close> compared with a newline.\<close>

definition newline_at :: "bytes \<Rightarrow> nat \<Rightarrow> bool" where
  "newline_at b p = (p < length b \<and> b ! p = nl)"

definition iter_open_committed_jsonl_records ::
    "(bytes \<Rightarrow> string) \<Rightarrow> bytes \<Rightarrow> int \<Rightarrow> int option \<Rightarrow> jsonl_record generator" where
  "iter_open_committed_jsonl_records sha b start_offset end_offset =
    (if start_offset < 0 then ([], Some (BadArgument ''start_offset must be non-negative''))
     else if (case end_offset of None \<Rightarrow> False | Some e \<Rightarrow> e < start_offset)
       then ([], Some (BadArgument ''end_offset must not precede start_offset''))
     else if start_offset \<noteq> 0 \<and> \<not> newline_at b (nat start_offset - 1)
       then ([], Some (EventLogBoundaryError (nat start_offset)))
     else if (case end_offset of None \<Rightarrow> False | Some e \<Rightarrow> e \<noteq> 0 \<and> \<not> newline_at b (nat e - 1))
       then ([], Some (EventLogChanged ''end offset is no longer committed'' (nat (the end_offset))))
     else read_loop sha (map_option nat end_offset) (nat start_offset) (drop (nat start_offset) b))"

text \<open>A file as the log sees it.\<close>

record log_file =
  lf_device :: int
  lf_inode :: int
  lf_mtime :: int
  lf_content :: bytes

definition iter_committed_jsonl_records ::
    "(bytes \<Rightarrow> string) \<Rightarrow> log_file option \<Rightarrow> int \<Rightarrow> int option \<Rightarrow> jsonl_record generator" where
  "iter_committed_jsonl_records sha path start_offset end_offset =
    (if start_offset < 0 then ([], Some (BadArgument ''start_offset must be non-negative''))
     else if (case end_offset of None \<Rightarrow> False | Some e \<Rightarrow> e < start_offset)
       then ([], Some (BadArgument ''end_offset must not precede start_offset''))
     else (case path of
        None \<Rightarrow> if end_offset \<in> {None, Some 0} then ([], None)
                else ([], Some (EventLogChanged ''disappeared while reading'' 0))
      | Some f \<Rightarrow> iter_open_committed_jsonl_records sha (lf_content f) start_offset end_offset))"

section \<open>Event records\<close>

definition decode_event_record ::
    "(nat list \<Rightarrow> pyval option) \<Rightarrow> nat \<Rightarrow> bytes \<Rightarrow> log_error + pydict" where
  "decode_event_record loads off raw = (case utf8_decode raw of
      None \<Rightarrow> Inl (EventLogCorruption ''not valid UTF-8'' off)
    | Some t \<Rightarrow> (case loads t of
        None \<Rightarrow> Inl (EventLogCorruption ''not valid JSON'' off)
      | Some (PDict d) \<Rightarrow> Inr d
      | Some _ \<Rightarrow> Inl (EventLogCorruption ''must be a JSON object'' off)))"

definition event_sequence :: "nat \<Rightarrow> pydict \<Rightarrow> log_error + int" where
  "event_sequence off event = (case dget event ''seq'' of
      PInt n \<Rightarrow> if n \<le> 0 then Inl (EventLogCorruption ''invalid sequence'' off) else Inr n
    | _ \<Rightarrow> Inl (EventLogCorruption ''invalid sequence'' off))"

definition chomp_cr :: "nat list \<Rightarrow> nat list" where
  "chomp_cr t = (if t \<noteq> [] \<and> last t = 13 then butlast t else t)"

definition decode_committed_event_record ::
    "(nat list \<Rightarrow> pyval option) \<Rightarrow> jsonl_record \<Rightarrow> log_error + event_record" where
  "decode_committed_event_record loads r =
    (let raw = jr_raw_bytes r in
     res_bind (decode_event_record loads (jr_byte_offset r) raw) (\<lambda>payload.
     res_bind (case utf8_decode (butlast raw) of None \<Rightarrow> Inl UnicodeDecodeError | Some t \<Rightarrow> Inr t)
       (\<lambda>text.
     res_bind (event_sequence (jr_byte_offset r) payload) (\<lambda>seq.
     Inr \<lparr>er_byte_offset = jr_byte_offset r, er_next_byte_offset = jr_next_byte_offset r,
       er_seq = seq, er_payload = payload, er_raw_json = chomp_cr text,
       er_record_sha256 = jr_record_sha256 r\<rparr>))))"

text \<open>The generators over event records: blank records are skipped, a record that cannot be decoded
  ends the iteration with its error.\<close>

fun decode_records ::
    "(nat list \<Rightarrow> pyval option) \<Rightarrow> jsonl_record list \<Rightarrow> log_error option \<Rightarrow> event_record generator"
    where
  "decode_records loads [] stop = ([], stop)"
| "decode_records loads (r # rs) stop =
    (if bytes_strip (jr_raw_bytes r) = [] then decode_records loads rs stop
     else (case decode_committed_event_record loads r of
        Inl e \<Rightarrow> ([], Some e)
      | Inr ev \<Rightarrow> (case decode_records loads rs stop of (evs, st) \<Rightarrow> (ev # evs, st))))"

definition iter_committed_event_records ::
    "(bytes \<Rightarrow> string) \<Rightarrow> (nat list \<Rightarrow> pyval option) \<Rightarrow> log_file option \<Rightarrow> int \<Rightarrow> int option \<Rightarrow>
     event_record generator" where
  "iter_committed_event_records sha loads path start_offset end_offset =
    (case iter_committed_jsonl_records sha path start_offset end_offset of
       (rs, stop) \<Rightarrow> decode_records loads rs stop)"

definition iter_open_committed_event_records ::
    "(bytes \<Rightarrow> string) \<Rightarrow> (nat list \<Rightarrow> pyval option) \<Rightarrow> bytes \<Rightarrow> int \<Rightarrow> int option \<Rightarrow>
     event_record generator" where
  "iter_open_committed_event_records sha loads b start_offset end_offset =
    (case iter_open_committed_jsonl_records sha b start_offset end_offset of
       (rs, stop) \<Rightarrow> decode_records loads rs stop)"

text \<open>\<open>read_committed_event_payloads\<close> keeps what it read and says why it stopped;
  \<open>validate_committed_event_sequence\<close> raises instead.\<close>

fun increasing_payloads :: "int option \<Rightarrow> event_record list \<Rightarrow> pydict list \<times> log_error option" where
  "increasing_payloads prev [] = ([], None)"
| "increasing_payloads prev (r # rs) =
    (if (case prev of None \<Rightarrow> False | Some p \<Rightarrow> er_seq r \<le> p)
     then ([], Some (EventLogCorruption ''sequence is not increasing'' (er_byte_offset r)))
     else (case increasing_payloads (Some (er_seq r)) rs of
        (ps, st) \<Rightarrow> (er_payload r # ps, st)))"

fun is_log_corruption :: "log_error \<Rightarrow> bool" where
  "is_log_corruption (EventLogCorruption _ _) = True"
| "is_log_corruption (EventLogBoundaryError _) = True"
| "is_log_corruption (EventLogChanged _ _) = True"
| "is_log_corruption _ = False"

text \<open>The read of a whole log: the payloads and the reason for stopping early; an exception that is
  neither a corruption nor an \<open>OSError\<close> passes through.\<close>

definition read_committed_event_payloads ::
    "(bytes \<Rightarrow> string) \<Rightarrow> (nat list \<Rightarrow> pyval option) \<Rightarrow> log_file option \<Rightarrow>
     log_error + pydict list \<times> log_error option" where
  "read_committed_event_payloads sha loads path =
    (case iter_committed_event_records sha loads path 0 None of (rs, stop) \<Rightarrow>
      (case increasing_payloads None rs of
         (ps, Some e) \<Rightarrow> Inr (ps, Some e)
       | (ps, None) \<Rightarrow> (case stop of
            None \<Rightarrow> Inr (ps, None)
          | Some e \<Rightarrow> if is_log_corruption e \<or> (\<exists>m. e = OSFailure m) then Inr (ps, Some e)
                      else Inl e)))"

fun validate_sequence :: "int option \<Rightarrow> int \<Rightarrow> event_record list \<Rightarrow> log_error option \<Rightarrow> log_error + int"
    where
  "validate_sequence prev last_seq [] stop =
     (case stop of None \<Rightarrow> Inr last_seq | Some e \<Rightarrow> Inl e)"
| "validate_sequence prev last_seq (r # rs) stop =
    (if (case prev of None \<Rightarrow> False | Some p \<Rightarrow> er_seq r \<le> p)
     then Inl (EventLogCorruption ''sequence is not increasing'' (er_byte_offset r))
     else validate_sequence (Some (er_seq r)) (er_seq r) rs stop)"

definition validate_committed_event_sequence ::
    "(bytes \<Rightarrow> string) \<Rightarrow> (nat list \<Rightarrow> pyval option) \<Rightarrow> log_file option \<Rightarrow> log_error + int" where
  "validate_committed_event_sequence sha loads path =
    (case iter_committed_event_records sha loads path 0 None of
       (rs, stop) \<Rightarrow> validate_sequence None 0 rs stop)"

section \<open>Tail inspection\<close>

definition REVERSE_READ_SIZE :: nat where
  "REVERSE_READ_SIZE = 64 * 1024"

definition block_at :: "bytes \<Rightarrow> nat \<Rightarrow> nat \<Rightarrow> bytes" where
  "block_at b cursor n = take n (drop cursor b)"

function find_previous_newline_loop :: "bytes \<Rightarrow> nat \<Rightarrow> nat \<Rightarrow> nat option \<times> nat" where
  "find_previous_newline_loop b cursor inspected =
    (if cursor = 0 then (None, inspected)
     else let n = min REVERSE_READ_SIZE cursor;
              cursor' = cursor - n;
              block = block_at b cursor' n;
              inspected' = inspected + length block
       in (case rfind_nl block of
            Some i \<Rightarrow> (Some (cursor' + i), inspected')
          | None \<Rightarrow> find_previous_newline_loop b cursor' inspected'))"
  by pat_completeness auto
termination
  by (relation "measure (\<lambda>(b, cursor, inspected). cursor)") (auto simp: REVERSE_READ_SIZE_def)

declare find_previous_newline_loop.simps [simp del]

definition find_previous_newline :: "bytes \<Rightarrow> nat \<Rightarrow> nat option \<times> nat" where
  "find_previous_newline b end_pos = find_previous_newline_loop b end_pos 0"

text \<open>The inner loop of \<open>_last_nonblank_committed_record\<close>: a record found at an offset relative to
  the candidate, or the suffix it leaves.\<close>

lemma rfind_nl_Some: "rfind_nl b = Some i \<Longrightarrow> i < length b"
  by (induction b arbitrary: i) (auto split: option.splits if_splits)

function scan_candidate :: "bytes \<Rightarrow> (nat \<times> bytes) + bytes" where
  "scan_candidate cand = (case rfind_nl cand of
      None \<Rightarrow> Inr cand
    | Some i \<Rightarrow> let rec = drop (i + 1) cand in
        if bytes_strip rec \<noteq> [] then Inl (i + 1, rec) else scan_candidate (take i cand))"
  by pat_completeness auto
termination
  by (relation "measure length") (auto dest: rfind_nl_Some)

declare scan_candidate.simps [simp del]

function last_nonblank_loop :: "bytes \<Rightarrow> nat \<Rightarrow> bytes \<Rightarrow> nat \<Rightarrow> nat \<times> bytes option \<times> nat" where
  "last_nonblank_loop b cursor suffix inspected =
    (if cursor = 0 then
       (if bytes_strip suffix \<noteq> [] then (0, Some suffix, inspected) else (0, None, inspected))
     else let n = min REVERSE_READ_SIZE cursor;
              cursor' = cursor - n;
              block = block_at b cursor' n;
              inspected' = inspected + length block
       in (case scan_candidate (block @ suffix) of
            Inl (i, rec) \<Rightarrow> (cursor' + i, Some rec, inspected')
          | Inr suffix' \<Rightarrow> last_nonblank_loop b cursor' suffix' inspected'))"
  by pat_completeness auto
termination
  by (relation "measure (\<lambda>(b, cursor, suffix, inspected). cursor)")
    (auto simp: REVERSE_READ_SIZE_def)

declare last_nonblank_loop.simps [simp del]

definition last_nonblank_committed_record :: "bytes \<Rightarrow> nat \<Rightarrow> nat \<times> bytes option \<times> nat" where
  "last_nonblank_committed_record b committed_end =
    (if committed_end = 0 then (0, None, 0)
     else last_nonblank_loop b (committed_end - 1) [] 0)"

record jsonl_tail =
  jt_device :: int
  jt_inode :: int
  jt_modified_ns :: int
  jt_file_size :: nat
  jt_committed_end :: nat
  jt_incomplete_size :: nat
  jt_last_record_offset :: nat
  jt_last_record_sha256 :: string
  jt_inspected_bytes :: nat

definition inspect_open_committed_jsonl_tail ::
    "(bytes \<Rightarrow> string) \<Rightarrow> log_file \<Rightarrow> jsonl_tail \<times> bytes option" where
  "inspect_open_committed_jsonl_tail sha f =
    (let b = lf_content f; file_size = length b in
     if file_size = 0 then
       (\<lparr>jt_device = lf_device f, jt_inode = lf_inode f, jt_modified_ns = lf_mtime f,
         jt_file_size = 0, jt_committed_end = 0, jt_incomplete_size = 0,
         jt_last_record_offset = 0, jt_last_record_sha256 = [], jt_inspected_bytes = 0\<rparr>, None)
     else
       (case (if b ! (file_size - 1) = nl then (file_size, 1)
              else (case find_previous_newline b file_size of (newline_offset, searched) \<Rightarrow>
                ((case newline_offset of None \<Rightarrow> 0 | Some p \<Rightarrow> p + 1), 1 + searched)))
        of (committed_end, inspected) \<Rightarrow>
          (case last_nonblank_committed_record b committed_end of
             (record_offset, raw_record, record_bytes) \<Rightarrow>
             (\<lparr>jt_device = lf_device f, jt_inode = lf_inode f, jt_modified_ns = lf_mtime f,
               jt_file_size = file_size, jt_committed_end = committed_end,
               jt_incomplete_size = file_size - committed_end,
               jt_last_record_offset = record_offset,
               jt_last_record_sha256 =
                 (case raw_record of None \<Rightarrow> [] | Some r \<Rightarrow> sha (r @ [nl])),
               jt_inspected_bytes = inspected + record_bytes\<rparr>, raw_record))))"

record event_tail =
  et_exists :: bool
  et_device :: int
  et_inode :: int
  et_modified_ns :: int
  et_file_size :: nat
  et_committed_end :: nat
  et_incomplete_size :: nat
  et_last_record_offset :: nat
  et_last_seq :: int
  et_last_record_sha256 :: string
  et_inspected_bytes :: nat

definition has_incomplete_tail :: "event_tail \<Rightarrow> bool" where
  "has_incomplete_tail t = (0 < et_incomplete_size t)"

definition missing_tail :: event_tail where
  "missing_tail = \<lparr>et_exists = False, et_device = 0, et_inode = 0, et_modified_ns = 0,
     et_file_size = 0, et_committed_end = 0, et_incomplete_size = 0, et_last_record_offset = 0,
     et_last_seq = 0, et_last_record_sha256 = [], et_inspected_bytes = 0\<rparr>"

definition inspect_open_event_log_tail ::
    "(bytes \<Rightarrow> string) \<Rightarrow> (nat list \<Rightarrow> pyval option) \<Rightarrow> log_file \<Rightarrow> log_error + event_tail" where
  "inspect_open_event_log_tail sha loads f =
    (case inspect_open_committed_jsonl_tail sha f of (tail, raw_record) \<Rightarrow>
      res_bind (case raw_record of
          None \<Rightarrow> Inr 0
        | Some r \<Rightarrow> res_bind (decode_event_record loads (jt_last_record_offset tail) (r @ [nl]))
            (event_sequence (jt_last_record_offset tail))) (\<lambda>last_seq.
      Inr \<lparr>et_exists = True, et_device = jt_device tail, et_inode = jt_inode tail,
        et_modified_ns = jt_modified_ns tail, et_file_size = jt_file_size tail,
        et_committed_end = jt_committed_end tail, et_incomplete_size = jt_incomplete_size tail,
        et_last_record_offset = jt_last_record_offset tail, et_last_seq = last_seq,
        et_last_record_sha256 = jt_last_record_sha256 tail,
        et_inspected_bytes = jt_inspected_bytes tail\<rparr>))"

definition inspect_event_log_tail ::
    "(bytes \<Rightarrow> string) \<Rightarrow> (nat list \<Rightarrow> pyval option) \<Rightarrow> log_file option \<Rightarrow> log_error + event_tail" where
  "inspect_event_log_tail sha loads path = (case path of
      None \<Rightarrow> Inr missing_tail
    | Some f \<Rightarrow> inspect_open_event_log_tail sha loads f)"

definition same_event_log_tail :: "event_tail \<Rightarrow> event_tail \<Rightarrow> bool" where
  "same_event_log_tail l r = (et_exists l = et_exists r \<and> et_device l = et_device r \<and>
     et_inode l = et_inode r \<and> et_modified_ns l = et_modified_ns r \<and>
     et_file_size l = et_file_size r \<and> et_committed_end l = et_committed_end r \<and>
     et_incomplete_size l = et_incomplete_size r \<and>
     et_last_record_offset l = et_last_record_offset r \<and> et_last_seq l = et_last_seq r \<and>
     et_last_record_sha256 l = et_last_record_sha256 r)"

section \<open>Repair\<close>

text \<open>\<open>repair_event_log_tail_for_append\<close>: in attempt \<open>k\<close> the environment shows the file first to the
  inspection and then to the handle that is opened for the repair (\<open>env k\<close>), and stamps a truncated
  file with \<open>stamp k\<close>. The result is the reported tail with the file the repair leaves.\<close>

fun repair_loop ::
    "(bytes \<Rightarrow> string) \<Rightarrow> (nat list \<Rightarrow> pyval option) \<Rightarrow> (nat \<Rightarrow> log_file option \<times> log_file option) \<Rightarrow>
     (nat \<Rightarrow> int) \<Rightarrow> int option \<Rightarrow> nat \<Rightarrow> nat \<Rightarrow> log_error + event_tail \<times> log_file option" where
  "repair_loop sha loads env stamp advertised k 0 =
     Inl (EventLogChanged ''changed while its tail was repaired'' 0)"
| "repair_loop sha loads env stamp advertised k (Suc n) =
    res_bind (inspect_event_log_tail sha loads (fst (env k))) (\<lambda>tail.
      if (case advertised of None \<Rightarrow> False | Some a \<Rightarrow> et_last_seq tail < a)
      then Inl (EventLogCorruption ''behind the acknowledged status watermark'' 0)
      else if \<not> et_exists tail then Inr (tail, fst (env k))
      else (case snd (env k) of
          None \<Rightarrow> repair_loop sha loads env stamp advertised (Suc k) n
        | Some f \<Rightarrow> res_bind (inspect_open_event_log_tail sha loads f) (\<lambda>current.
            if \<not> same_event_log_tail tail current
            then repair_loop sha loads env stamp advertised (Suc k) n
            else if \<not> has_incomplete_tail current then Inr (current, Some f)
            else Inr (current\<lparr>et_modified_ns := stamp k, et_file_size := et_committed_end current,
                        et_incomplete_size := 0\<rparr>,
                   Some (f\<lparr>lf_content := take (et_committed_end tail) (lf_content f),
                           lf_mtime := stamp k\<rparr>)))))"

definition repair_event_log_tail_for_append ::
    "(bytes \<Rightarrow> string) \<Rightarrow> (nat list \<Rightarrow> pyval option) \<Rightarrow> (nat \<Rightarrow> log_file option \<times> log_file option) \<Rightarrow>
     (nat \<Rightarrow> int) \<Rightarrow> int option \<Rightarrow> int \<Rightarrow> log_error + event_tail \<times> log_file option" where
  "repair_event_log_tail_for_append sha loads env stamp advertised max_attempts =
    (if (case advertised of None \<Rightarrow> False | Some a \<Rightarrow> a < 0)
     then Inl (BadArgument ''advertised_last_seq must be non-negative'')
     else if max_attempts < 1 then Inl (BadArgument ''max_attempts must be positive'')
     else repair_loop sha loads env stamp advertised 0 (nat max_attempts))"

section \<open>Appending\<close>

record agent_event =
  ev_schema_version :: string
  ev_event_id :: string
  ev_seq :: int
  ev_run_id :: string
  ev_timestamp :: string
  ev_type :: string
  ev_level :: string
  ev_data :: pydict
  ev_turn_id :: "string option"
  ev_parent_id :: "string option"

definition opt_str :: "string option \<Rightarrow> pyval" where
  "opt_str v = (case v of None \<Rightarrow> PNone | Some s \<Rightarrow> PStr s)"

definition event_to_json :: "agent_event \<Rightarrow> pydict" where
  "event_to_json e = [
     (''schema_version'', PStr (ev_schema_version e)),
     (''event_id'', PStr (ev_event_id e)),
     (''seq'', PInt (ev_seq e)),
     (''run_id'', PStr (ev_run_id e)),
     (''turn_id'', opt_str (ev_turn_id e)),
     (''parent_id'', opt_str (ev_parent_id e)),
     (''timestamp'', PStr (ev_timestamp e)),
     (''type'', PStr (ev_type e)),
     (''level'', PStr (ev_level e)),
     (''data'', PDict (ev_data e))]"

definition EVENT_SCHEMA_VERSION :: string where
  "EVENT_SCHEMA_VERSION = namespaced_id ''event.v1''"

text \<open>What an append takes from outside: the digest, the JSON reader and writer (\<open>dumps\<close> is the UTF-8
  line of a payload), the identity a created file gets, the time stamps, and the ingress copy of the
  event data, which is the subject of the theory of JSON ingress. The strings of an event lie in the
  scalar range already, where \<open>normalize_unicode_scalars\<close> is the identity.\<close>

record log_io =
  io_sha :: "bytes \<Rightarrow> string"
  io_loads :: "nat list \<Rightarrow> pyval option"
  io_dumps :: "pydict \<Rightarrow> bytes"
  io_ingress :: "pydict \<Rightarrow> log_error + pydict"
  io_fresh :: log_file
  io_stamp :: int

text \<open>The arguments of an append; \<open>append_event_to_run\<close> leaves \<open>turn_id\<close> and \<open>parent_id\<close> at their
  default \<open>None\<close>.\<close>

record event_request =
  rq_event_id :: string
  rq_run_id :: string
  rq_timestamp :: string
  rq_type :: string
  rq_level :: string
  rq_data :: "pydict option"

definition make_agent_event :: "log_io \<Rightarrow> event_request \<Rightarrow> int \<Rightarrow> log_error + agent_event" where
  "make_agent_event io q seq =
    res_bind (io_ingress io (case rq_data q of None \<Rightarrow> [] | Some d \<Rightarrow> d)) (\<lambda>data.
    Inr \<lparr>ev_schema_version = EVENT_SCHEMA_VERSION, ev_event_id = ''evt_'' @ rq_event_id q,
      ev_seq = seq, ev_run_id = rq_run_id q, ev_timestamp = rq_timestamp q, ev_type = rq_type q,
      ev_level = rq_level q, ev_data = data, ev_turn_id = None, ev_parent_id = None\<rparr>)"

text \<open>The \<open>status.json\<close> beside the log: absent, unreadable, or a value.\<close>

datatype status_file = NoStatus | UnreadableStatus | StatusValue pyval

record run_dir =
  rd_events :: "log_file option"
  rd_status :: status_file

definition read_status_last_event_seq :: "status_file \<Rightarrow> log_error + int option" where
  "read_status_last_event_seq s =
    (let refused = Inl (EventLogCorruption ''status event watermark cannot be verified'' 0) in
     (case s of
        NoStatus \<Rightarrow> Inr None
      | UnreadableStatus \<Rightarrow> refused
      | StatusValue v \<Rightarrow> (case v of
          PDict d \<Rightarrow> if \<not> dhas ''last_event_seq'' d then Inr None
            else (case dget d ''last_event_seq'' of
                PInt n \<Rightarrow> if n < 0 then refused else Inr (Some n)
              | _ \<Rightarrow> refused)
        | _ \<Rightarrow> refused)))"

definition verified_event_sequence_seed ::
    "(bytes \<Rightarrow> string) \<Rightarrow> (nat list \<Rightarrow> pyval option) \<Rightarrow> log_file option \<Rightarrow> event_tail \<Rightarrow> log_error + int"
    where
  "verified_event_sequence_seed sha loads path tail =
    (if \<not> et_exists tail \<or> et_file_size tail = 0 then Inr 0
     else res_bind (validate_committed_event_sequence sha loads path) (\<lambda>n.
       if n \<noteq> et_last_seq tail
       then Inl (EventLogCorruption ''event log tail changed during sequence validation'' 0)
       else Inr n))"

definition update_status_last_event :: "status_file \<Rightarrow> agent_event \<Rightarrow> status_file" where
  "update_status_last_event s e = (case s of
      StatusValue (PDict d) \<Rightarrow>
        (let d = AList.update ''last_event_seq'' (PInt (ev_seq e)) d;
             d = AList.update ''last_event_type'' (PStr (ev_type e)) d;
             d = AList.update ''updated_at'' (PStr (ev_timestamp e)) d
         in StatusValue (PDict (if str_startswith (ev_type e) ''proposal.''
              then AList.update ''proposal_event'' (PDict (ev_data e)) d else d)))
    | _ \<Rightarrow> s)"

text \<open>Everything before the write: the repaired file and the event to write.\<close>

definition prepare_append ::
    "log_io \<Rightarrow> event_request \<Rightarrow> run_dir \<Rightarrow> log_error + log_file option \<times> agent_event" where
  "prepare_append io q d =
    res_bind (read_status_last_event_seq (rd_status d)) (\<lambda>advertised.
    res_bind (repair_event_log_tail_for_append (io_sha io) (io_loads io)
        (\<lambda>_. (rd_events d, rd_events d)) (\<lambda>_. io_stamp io) advertised 2) (\<lambda>(tail, path).
    res_bind (verified_event_sequence_seed (io_sha io) (io_loads io) path tail) (\<lambda>seed.
    res_bind (make_agent_event io q (seed + 1)) (\<lambda>event.
    Inr (path, event)))))"

text \<open>Opening with mode \<open>a\<close> creates a missing file; a write puts a prefix of the line at the end.\<close>

definition append_bytes :: "log_io \<Rightarrow> log_file option \<Rightarrow> bytes \<Rightarrow> log_file" where
  "append_bytes io path line = (case path of
      None \<Rightarrow> (io_fresh io)\<lparr>lf_content := line\<rparr>
    | Some f \<Rightarrow> f\<lparr>lf_content := lf_content f @ line, lf_mtime := io_stamp io\<rparr>)"

definition event_line :: "log_io \<Rightarrow> agent_event \<Rightarrow> bytes" where
  "event_line io e = io_dumps io (event_to_json e) @ [nl]"

definition append_event_to_run ::
    "log_io \<Rightarrow> event_request \<Rightarrow> run_dir \<Rightarrow> log_error + agent_event \<times> run_dir" where
  "append_event_to_run io q d =
    res_bind (prepare_append io q d) (\<lambda>(path, event).
    Inr (event, \<lparr>rd_events = Some (append_bytes io path (event_line io event)),
      rd_status = update_status_last_event (rd_status d) event\<rparr>))"

text \<open>The process dies while it appends: a prefix of the line is on disk, the status is not updated.\<close>

definition interrupted_append ::
    "log_io \<Rightarrow> event_request \<Rightarrow> nat \<Rightarrow> run_dir \<Rightarrow> log_error + agent_event \<times> run_dir" where
  "interrupted_append io q k d =
    res_bind (prepare_append io q d) (\<lambda>(path, event).
    Inr (event, \<lparr>rd_events = Some (append_bytes io path (take k (event_line io event))),
      rd_status = rd_status d\<rparr>))"

section \<open>The forward reader\<close>

text \<open>Every byte string is a sequence of lines followed by a torn one.\<close>

lemma bytes_lines_induct [case_names torn line]:
  assumes "\<And>p. nl \<notin> set p \<Longrightarrow> P p"
    and "\<And>p r. nl \<notin> set p \<Longrightarrow> P r \<Longrightarrow> P (p @ nl # r)"
  shows "P b"
proof (induction "length b" arbitrary: b rule: less_induct)
  case less
  show ?case
  proof (cases "nl \<in> set b")
    case True
    then obtain p r where "b = p @ nl # r" "nl \<notin> set p" by (meson split_list_first)
    with less assms(2) show ?thesis by simp
  qed (rule assms(1))
qed

lemma readline_line [simp]: "nl \<notin> set p \<Longrightarrow> readline (p @ nl # r) = p @ [nl]"
  by (induction p) auto

lemma readline_torn: "nl \<notin> set p \<Longrightarrow> readline p = p"
  by (induction p) auto

lemma read_loop_torn: "nl \<notin> set p \<Longrightarrow> read_loop sha None off p = ([], None)"
  by (subst read_loop.simps)
    (use last_in_set in \<open>fastforce simp: next_line_def readline_torn Let_def\<close>)

lemma read_loop_line:
  "nl \<notin> set p \<Longrightarrow> read_loop sha None off (p @ nl # r) =
     (jsonl_record_at sha off (p @ [nl]) # fst (read_loop sha None (off + length p + 1) r),
      snd (read_loop sha None (off + length p + 1) r))"
  by (subst read_loop.simps) (simp add: next_line_def Let_def split: prod.split)

abbreviation physical :: "(bytes \<Rightarrow> string) \<Rightarrow> nat \<Rightarrow> bytes \<Rightarrow> jsonl_record list" where
  "physical sha off b \<equiv> fst (read_loop sha None off b)"

lemma read_loop_no_stop: "snd (read_loop sha None off b) = None"
  by (induction b arbitrary: off rule: bytes_lines_induct) (simp_all add: read_loop_torn read_loop_line)

lemma physical_torn: "nl \<notin> set p \<Longrightarrow> physical sha off p = []"
  by (simp add: read_loop_torn)

lemma physical_line:
  "nl \<notin> set p \<Longrightarrow> physical sha off (p @ nl # r) =
     jsonl_record_at sha off (p @ [nl]) # physical sha (off + length p + 1) r"
  by (simp add: read_loop_line)

text \<open>A byte string whose last record is complete.\<close>

definition committed :: "bytes \<Rightarrow> bool" where
  "committed b = (b = [] \<or> last b = nl)"

lemma committed_line [simp]: "committed (p @ nl # r) \<longleftrightarrow> committed r"
  by (simp add: committed_def)

lemma committed_torn: "nl \<notin> set p \<Longrightarrow> committed p \<longleftrightarrow> p = []"
  by (metis committed_def last_in_set)

lemma physical_append:
  "committed c \<Longrightarrow> physical sha off (c @ d) = physical sha off c @ physical sha (off + length c) d"
proof (induction c arbitrary: off rule: bytes_lines_induct)
  case (torn p) then show ?case by (simp add: committed_torn physical_torn)
next
  case (line p r)
  then show ?case by (simp add: physical_line add.assoc)
qed

lemma physical_torn_tail:
  "committed c \<Longrightarrow> nl \<notin> set t \<Longrightarrow> physical sha off (c @ t) = physical sha off c"
  by (simp add: physical_append physical_torn)

lemma concat_physical: "committed c \<Longrightarrow> concat (map jr_raw_bytes (physical sha off c)) = c"
proof (induction c arbitrary: off rule: bytes_lines_induct)
  case (torn p) then show ?case by (simp add: committed_torn physical_torn)
next
  case (line p r) then show ?case by (simp add: physical_line jsonl_record_at_def)
qed

section \<open>The backward scan\<close>

lemma rfind_nl_None: "rfind_nl b = None \<longleftrightarrow> nl \<notin> set b"
  by (induction b) (auto split: option.splits)

lemma rfind_nl_torn [simp]: "nl \<notin> set b \<Longrightarrow> rfind_nl b = None"
  by (simp add: rfind_nl_None)

lemma rfind_nl_append:
  "rfind_nl (a @ b) = (case rfind_nl b of Some i \<Rightarrow> Some (length a + i) | None \<Rightarrow> rfind_nl a)"
  by (induction a) (auto split: option.splits)

lemma rfind_nl_split:
  "rfind_nl b = Some i \<Longrightarrow> b = take i b @ nl # drop (i + 1) b \<and> nl \<notin> set (drop (i + 1) b)"
proof (induction b arbitrary: i)
  case (Cons c b)
  then show ?case by (cases i) (auto simp: rfind_nl_None split: option.splits if_splits)
qed simp

text \<open>Where the committed part of a file ends.\<close>

definition commit_point :: "bytes \<Rightarrow> nat" where
  "commit_point b = (case rfind_nl b of None \<Rightarrow> 0 | Some i \<Rightarrow> i + 1)"

lemma commit_point_le: "commit_point b \<le> length b"
  by (auto simp: commit_point_def dest: rfind_nl_Some split: option.splits)

lemma commit_point_committed: "committed (take (commit_point b) b)"
proof (cases "rfind_nl b")
  case (Some i)
  then have "take (i + 1) b = take i b @ [nl]"
    using rfind_nl_split [OF Some] rfind_nl_Some [OF Some]
    by (metis Suc_eq_plus1 nth_append_length length_take less_imp_le min.absorb2
        take_Suc_conv_app_nth)
  with Some show ?thesis by (simp add: commit_point_def committed_def)
qed (simp add: commit_point_def committed_def)

lemma commit_point_torn: "nl \<notin> set (drop (commit_point b) b)"
  by (cases "rfind_nl b") (use rfind_nl_split in \<open>auto simp: commit_point_def rfind_nl_None\<close>)

lemma commit_point_unique:
  "committed c \<Longrightarrow> nl \<notin> set t \<Longrightarrow> commit_point (c @ t) = length c"
proof (cases "c = []")
  case False
  assume c: "committed c" and t: "nl \<notin> set t"
  from c False obtain a where "c = a @ [nl]" by (metis committed_def append_butlast_last_id)
  with t show ?thesis by (simp add: commit_point_def rfind_nl_append split: option.splits)
qed (simp add: commit_point_def)

lemma block_at_take: "n \<le> cursor \<Longrightarrow> take (cursor - n) b @ block_at b (cursor - n) n = take cursor b"
  by (simp add: block_at_def take_add [symmetric])

lemma block_at_length: "n \<le> cursor \<Longrightarrow> cursor \<le> length b \<Longrightarrow> length (block_at b (cursor - n) n) = n"
  by (simp add: block_at_def)

lemma find_previous_newline_loop_fst:
  "cursor \<le> length b \<Longrightarrow> fst (find_previous_newline_loop b cursor ins) = rfind_nl (take cursor b)"
proof (induction b cursor ins rule: find_previous_newline_loop.induct)
  case (1 b cursor ins)
  show ?case
  proof (cases "cursor = 0")
    case True then show ?thesis by (simp add: find_previous_newline_loop.simps)
  next
    case False
    define n where "n = min REVERSE_READ_SIZE cursor"
    define bl where "bl = block_at b (cursor - n) n"
    have n: "n \<le> cursor" by (simp add: n_def)
    have t: "rfind_nl (take cursor b) = (case rfind_nl bl of
        Some i \<Rightarrow> Some (length (take (cursor - n) b) + i) | None \<Rightarrow> rfind_nl (take (cursor - n) b))"
      using rfind_nl_append [of "take (cursor - n) b" bl] block_at_take [OF n, of b]
      by (simp add: bl_def)
    have l: "length (take (cursor - n) b) = cursor - n" using "1.prems" by simp
    show ?thesis
    proof (cases "rfind_nl bl")
      case None
      have "fst (find_previous_newline_loop b (cursor - n) (ins + length bl)) =
          rfind_nl (take (cursor - n) b)"
        using "1.IH" [OF False n_def refl bl_def refl] None "1.prems" by simp
      with None False t show ?thesis
        unfolding find_previous_newline_loop.simps [of b cursor ins] Let_def
          n_def [symmetric] bl_def [symmetric] by simp
    next
      case (Some i)
      with False t l show ?thesis
        unfolding find_previous_newline_loop.simps [of b cursor ins] Let_def
          n_def [symmetric] bl_def [symmetric] by simp
    qed
  qed
qed

lemma find_previous_newline_commit_point:
  "(case fst (find_previous_newline b (length b)) of None \<Rightarrow> 0 | Some p \<Rightarrow> p + 1) = commit_point b"
  by (simp add: find_previous_newline_def find_previous_newline_loop_fst commit_point_def)

text \<open>The last non-blank line of a text, by position.\<close>

function last_nonblank :: "bytes \<Rightarrow> (nat \<times> bytes) option" where
  "last_nonblank s = (case rfind_nl s of
      None \<Rightarrow> if bytes_strip s \<noteq> [] then Some (0, s) else None
    | Some i \<Rightarrow> if bytes_strip (drop (i + 1) s) \<noteq> [] then Some (i + 1, drop (i + 1) s)
        else last_nonblank (take i s))"
  by pat_completeness auto
termination
  by (relation "measure length") (auto dest: rfind_nl_Some)

declare last_nonblank.simps [simp del]

lemma scan_candidate_nl: "scan_candidate cand = Inr suf \<Longrightarrow> nl \<notin> set suf"
proof (induction cand rule: scan_candidate.induct)
  case (1 cand)
  from "1.prems" show ?case
    by (subst (asm) scan_candidate.simps)
      (auto simp: Let_def rfind_nl_None dest: "1.IH" split: option.splits if_splits)
qed

lemma scan_candidate_correct:
  "last_nonblank (p @ cand) = (case scan_candidate cand of
      Inl (i, rec) \<Rightarrow> Some (length p + i, rec)
    | Inr suf \<Rightarrow> last_nonblank (p @ suf))"
proof (induction cand rule: scan_candidate.induct)
  case (1 cand)
  show ?case
  proof (cases "rfind_nl cand")
    case None
    then show ?thesis by (subst scan_candidate.simps) simp
  next
    case (Some i)
    then have i: "i < length cand" by (rule rfind_nl_Some)
    have r: "rfind_nl (p @ cand) = Some (length p + i)" using Some by (simp add: rfind_nl_append)
    show ?thesis
    proof (cases "bytes_strip (drop (i + 1) cand) = []")
      case True
      with Some r show ?thesis
        by (subst scan_candidate.simps, subst last_nonblank.simps)
          (simp add: Let_def "1.IH" [OF Some refl])
    next
      case False
      with Some r show ?thesis
        by (subst scan_candidate.simps, subst last_nonblank.simps) (simp add: Let_def)
    qed
  qed
qed

lemma last_nonblank_loop_correct:
  assumes "cursor \<le> length b" "nl \<notin> set suffix"
  shows "(case last_nonblank_loop b cursor suffix ins of
      (pos, Some rec, _) \<Rightarrow> last_nonblank (take cursor b @ suffix) = Some (pos, rec)
    | (pos, None, _) \<Rightarrow> pos = 0 \<and> last_nonblank (take cursor b @ suffix) = None)"
  using assms
proof (induction b cursor suffix ins rule: last_nonblank_loop.induct)
  case (1 b cursor suffix ins)
  show ?case
  proof (cases "cursor = 0")
    case True
    with "1.prems" show ?thesis
      by (subst last_nonblank_loop.simps, subst (1 2) last_nonblank.simps) simp
  next
    case False
    define n where "n = min REVERSE_READ_SIZE cursor"
    define bl where "bl = block_at b (cursor - n) n"
    have n: "n \<le> cursor" by (simp add: n_def)
    have t: "take cursor b @ suffix = take (cursor - n) b @ (bl @ suffix)"
      using block_at_take [OF n, of b] by (simp add: bl_def)
    have l: "length (take (cursor - n) b) = cursor - n" using "1.prems" by simp
    have u: "last_nonblank_loop b cursor suffix ins = (case scan_candidate (bl @ suffix) of
            Inl (i, rec) \<Rightarrow> (cursor - n + i, Some rec, ins + length bl)
          | Inr suffix' \<Rightarrow> last_nonblank_loop b (cursor - n) suffix' (ins + length bl))"
      using False unfolding last_nonblank_loop.simps [of b cursor suffix ins] Let_def
        n_def [symmetric] bl_def [symmetric] by simp
    show ?thesis
    proof (cases "scan_candidate (bl @ suffix)")
      case (Inl x)
      then show ?thesis unfolding u t
          scan_candidate_correct [of "take (cursor - n) b" "bl @ suffix"]
        using l by (cases x) simp
    next
      case (Inr suf)
      have "cursor - n \<le> length b" using "1.prems" by simp
      from "1.IH" [OF False n_def refl bl_def refl Inr this scan_candidate_nl [OF Inr]]
      show ?thesis unfolding u t
          scan_candidate_correct [of "take (cursor - n) b" "bl @ suffix"] Inr sum.case .
    qed
  qed
qed

section \<open>Both directions agree\<close>

abbreviation blank :: "jsonl_record \<Rightarrow> bool" where
  "blank r \<equiv> bytes_strip (jr_raw_bytes r) = []"

lemma strip_by_Nil: "strip_by p s = [] \<longleftrightarrow> (\<forall>c \<in> set s. p c)"
proof
  assume "strip_by p s = []"
  then show "\<forall>c \<in> set s. p c"
    by (metis strip_by_decomp [of s p] append_Nil set_append UnE)
next
  assume "\<forall>c \<in> set s. p c"
  then have "dropWhile p s = []" by (simp only: dropWhile_eq_Nil_conv)
  then show "strip_by p s = []" by (simp only: strip_by_def rev.simps dropWhile.simps)
qed

lemma bytes_strip_newline [simp]: "bytes_strip (d @ [nl]) = [] \<longleftrightarrow> bytes_strip d = []"
  by (simp add: bytes_strip_def strip_by_Nil is_ascii_space_def)

lemma physical_single:
  "nl \<notin> set d \<Longrightarrow> physical sha off (d @ [nl]) = [jsonl_record_at sha off (d @ [nl])]"
  using physical_line [of d sha off "[]"] by (simp add: physical_torn)

lemma last_nonblank_physical:
  "last_nonblank s = (let rs = filter (\<lambda>r. \<not> blank r) (physical sha 0 (s @ [nl])) in
     if rs = [] then None else Some (jr_byte_offset (last rs), butlast (jr_raw_bytes (last rs))))"
proof (induction s rule: last_nonblank.induct)
  case (1 s)
  show ?case
  proof (cases "rfind_nl s")
    case None
    then have "nl \<notin> set s" by (simp add: rfind_nl_None)
    then show ?thesis
      by (subst last_nonblank.simps) (simp add: physical_single jsonl_record_at_def)
  next
    case (Some i)
    let ?d = "drop (i + 1) s"
    have i: "i < length s" using Some by (rule rfind_nl_Some)
    have s: "s @ [nl] = (take i s @ [nl]) @ (?d @ [nl])" and d: "nl \<notin> set ?d"
      using rfind_nl_split [OF Some] by auto
    have "physical sha 0 (s @ [nl]) =
        physical sha 0 (take i s @ [nl]) @ [jsonl_record_at sha (i + 1) (?d @ [nl])]"
      unfolding s using i d by (subst physical_append)
        (simp_all add: committed_def physical_single min.absorb2)
    then show ?thesis using Some "1.IH" [OF Some]
      by (subst last_nonblank.simps) (auto simp: jsonl_record_at_def)
  qed
qed

lemma decode_records_no_stop:
  "decode_records loads rs stop = (evs, None) \<Longrightarrow> stop = None \<and>
     list_all2 (\<lambda>r ev. decode_committed_event_record loads r = Inr ev)
       (filter (\<lambda>r. \<not> blank r) rs) evs"
  by (induction rs arbitrary: evs) (auto split: if_splits sum.splits prod.splits)

lemma decode_records_iff:
  "decode_records loads rs None = (evs, None) \<longleftrightarrow>
     list_all2 (\<lambda>r ev. decode_committed_event_record loads r = Inr ev)
       (filter (\<lambda>r. \<not> blank r) rs) evs"
proof (induction rs arbitrary: evs)
  case (Cons r rs)
  obtain es st where d: "decode_records loads rs None = (es, st)" by (cases "decode_records loads rs None")
  have IH: "list_all2 (\<lambda>r ev. decode_committed_event_record loads r = Inr ev)
      (filter (\<lambda>r. \<not> blank r) rs) es' \<longleftrightarrow> es = es' \<and> st = None" for es'
    using Cons.IH [of es'] d by simp
  show ?case
    by (cases "blank r"; cases "decode_committed_event_record loads r")
      (auto simp: d IH list_all2_Cons1)
qed auto

lemma iter_open_from_start:
  "iter_open_committed_jsonl_records sha b 0 None = (physical sha 0 b, None)"
  by (simp add: iter_open_committed_jsonl_records_def prod_eq_iff read_loop_no_stop)

lemma iter_events_from_start:
  "iter_committed_event_records sha loads (Some f) 0 None =
     decode_records loads (physical sha 0 (lf_content f)) None"
  by (simp add: iter_committed_event_records_def iter_committed_jsonl_records_def
      iter_open_from_start)

lemma decode_committed_facts:
  assumes "decode_committed_event_record loads r = Inr ev"
  shows "decode_event_record loads (jr_byte_offset r) (jr_raw_bytes r) = Inr (er_payload ev)"
    and "event_sequence (jr_byte_offset r) (er_payload ev) = Inr (er_seq ev)"
    and "er_byte_offset ev = jr_byte_offset r" and "er_record_sha256 ev = jr_record_sha256 r"
    and "er_next_byte_offset ev = jr_next_byte_offset r"
  using assms by (auto simp: decode_committed_event_record_def Let_def res_bind_eq_Inr)

text \<open>What the physical inspection reports.\<close>

abbreviation events_of :: "(bytes \<Rightarrow> string) \<Rightarrow> bytes \<Rightarrow> jsonl_record list" where
  "events_of sha b \<equiv> filter (\<lambda>r. \<not> blank r) (physical sha 0 b)"

lemma physical_commit_point: "physical sha 0 (take (commit_point b) b) = physical sha 0 b"
  using physical_torn_tail [OF commit_point_committed [of b] commit_point_torn [of b], of sha 0]
  by simp

lemma raw_ends_newline: "r \<in> set (physical sha off b) \<Longrightarrow> \<exists>d. jr_raw_bytes r = d @ [nl]"
  by (induction b arbitrary: off rule: bytes_lines_induct)
    (auto simp: physical_torn physical_line jsonl_record_at_def)

lemma sha_of_record: "r \<in> set (physical sha off b) \<Longrightarrow> jr_record_sha256 r = sha (jr_raw_bytes r)"
  by (induction b arbitrary: off rule: bytes_lines_induct)
    (auto simp: physical_torn physical_line jsonl_record_at_def)

lemma last_nonblank_committed_correct:
  assumes "last_nonblank_committed_record b (commit_point b) = (pos, raw, ins)"
  shows "(case raw of
      None \<Rightarrow> pos = 0 \<and> events_of sha b = []
    | Some r \<Rightarrow> events_of sha b \<noteq> [] \<and> pos = jr_byte_offset (last (events_of sha b)) \<and>
        r @ [nl] = jr_raw_bytes (last (events_of sha b)))"
proof (cases "commit_point b = 0")
  case True
  then have "physical sha 0 b = []"
    using commit_point_torn [of b] by (simp add: physical_torn)
  with assms True show ?thesis by (auto simp: last_nonblank_committed_record_def)
next
  case False
  let ?s = "take (commit_point b - 1) b"
  have ne: "take (commit_point b) b \<noteq> []"
    using False commit_point_le [of b] by auto
  have "?s @ [nl] = take (commit_point b) b"
    using commit_point_committed [of b] ne commit_point_le [of b]
    by (metis append_butlast_last_id butlast_take committed_def)
  then have p: "physical sha 0 (?s @ [nl]) = physical sha 0 b"
    by (simp add: physical_commit_point)
  have l: "last_nonblank_loop b (commit_point b - 1) [] 0 = (pos, raw, ins)"
    using assms False by (simp add: last_nonblank_committed_record_def)
  have c: "commit_point b - 1 \<le> length b" using commit_point_le [of b] by simp
  have spec: "case raw of None \<Rightarrow> pos = 0 \<and> last_nonblank ?s = None
      | Some r \<Rightarrow> last_nonblank ?s = Some (pos, r)"
    using last_nonblank_loop_correct [OF c, of "[]" 0] l by (simp split: option.splits)
  have "events_of sha b \<noteq> [] \<Longrightarrow> \<exists>d. jr_raw_bytes (last (events_of sha b)) = d @ [nl]"
    by (rule raw_ends_newline [of _ sha 0 b]) (meson filter_is_subset last_in_set subsetD)
  with spec last_nonblank_physical [of ?s sha, unfolded p] show ?thesis
    by (auto simp: Let_def split: option.splits if_splits)
qed

lemma commit_point_full: "b \<noteq> [] \<Longrightarrow> b ! (length b - 1) = nl \<Longrightarrow> commit_point b = length b"
  using commit_point_unique [of b "[]"] by (simp add: committed_def last_conv_nth)

lemma inspect_jsonl_tail:
  assumes "inspect_open_committed_jsonl_tail sha f = (t, raw)"
  shows "jt_committed_end t = commit_point (lf_content f)"
    and "jt_file_size t = length (lf_content f)"
    and "jt_incomplete_size t = length (lf_content f) - commit_point (lf_content f)"
    and "(case raw of
        None \<Rightarrow> events_of sha (lf_content f) = []
      | Some r \<Rightarrow> events_of sha (lf_content f) \<noteq> [] \<and>
          jt_last_record_offset t = jr_byte_offset (last (events_of sha (lf_content f))) \<and>
          r @ [nl] = jr_raw_bytes (last (events_of sha (lf_content f))) \<and>
          jt_last_record_sha256 t = jr_record_sha256 (last (events_of sha (lf_content f))))"
proof -
  let ?b = "lf_content f" and ?E = "events_of sha (lf_content f)"
  obtain pos raw' ins where lr: "last_nonblank_committed_record ?b (commit_point ?b) = (pos, raw', ins)"
    by (cases "last_nonblank_committed_record ?b (commit_point ?b)") auto
  note lc = last_nonblank_committed_correct [OF lr, of sha]
  have sl: "?E \<noteq> [] \<Longrightarrow> jr_record_sha256 (last ?E) = sha (jr_raw_bytes (last ?E))"
    by (rule sha_of_record [of _ sha 0 ?b]) (meson filter_is_subset last_in_set subsetD)
  obtain nlo se where fp: "find_previous_newline ?b (length ?b) = (nlo, se)"
    by (cases "find_previous_newline ?b (length ?b)")
  have nlo: "(case nlo of None \<Rightarrow> 0 | Some p \<Rightarrow> p + 1) = commit_point ?b"
    using find_previous_newline_commit_point [of ?b] fp by simp
  have "jt_committed_end t = commit_point ?b \<and> jt_file_size t = length ?b \<and>
      jt_incomplete_size t = length ?b - commit_point ?b \<and>
      (?b \<noteq> [] \<longrightarrow> raw = raw' \<and> jt_last_record_offset t = pos \<and>
        jt_last_record_sha256 t = (case raw' of None \<Rightarrow> [] | Some r \<Rightarrow> sha (r @ [nl]))) \<and>
      (?b = [] \<longrightarrow> raw = None)"
    using assms lr fp nlo commit_point_full [of ?b] commit_point_le [of ?b]
    unfolding inspect_open_committed_jsonl_tail_def Let_def
    by (auto split: if_splits)
  then show "jt_committed_end t = commit_point ?b" "jt_file_size t = length ?b"
    "jt_incomplete_size t = length ?b - commit_point ?b"
    "(case raw of None \<Rightarrow> ?E = [] | Some r \<Rightarrow> ?E \<noteq> [] \<and>
          jt_last_record_offset t = jr_byte_offset (last ?E) \<and> r @ [nl] = jr_raw_bytes (last ?E) \<and>
          jt_last_record_sha256 t = jr_record_sha256 (last ?E))"
    using lc sl by (auto simp: physical_torn split: option.splits)
qed

section \<open>Inspection and repair\<close>

text \<open>A log that reads to its committed end gives its inspection the last event.\<close>

lemma list_all2_last:
  "list_all2 P xs ys \<Longrightarrow> xs \<noteq> [] \<Longrightarrow> ys \<noteq> [] \<and> P (last xs) (last ys)"
  by (induction rule: list_all2_induct) (auto split: if_splits)

definition last_seq_of :: "event_record list \<Rightarrow> int" where
  "last_seq_of evs = (if evs = [] then 0 else er_seq (last evs))"

lemma inspect_tail_fields:
  assumes "inspect_open_event_log_tail sha loads f = Inr t"
  shows "et_committed_end t = commit_point (lf_content f)"
    and "et_file_size t = length (lf_content f)"
    and "et_incomplete_size t = length (lf_content f) - commit_point (lf_content f)"
    and "et_exists t"
proof -
  obtain jt raw where j: "inspect_open_committed_jsonl_tail sha f = (jt, raw)"
    by (cases "inspect_open_committed_jsonl_tail sha f")
  note jf = inspect_jsonl_tail [OF j]
  show "et_committed_end t = commit_point (lf_content f)"
    "et_file_size t = length (lf_content f)"
    "et_incomplete_size t = length (lf_content f) - commit_point (lf_content f)" "et_exists t"
    using assms jf(1,2,3) unfolding inspect_open_event_log_tail_def j
    by (auto simp: res_bind_eq_Inr)
qed

lemma inspect_tail_of_readable:
  assumes "iter_committed_event_records sha loads (Some f) 0 None = (evs, None)"
  obtains t where "inspect_open_event_log_tail sha loads f = Inr t"
    and "et_last_seq t = last_seq_of evs"
    and "evs \<noteq> [] \<Longrightarrow> et_last_record_offset t = er_byte_offset (last evs) \<and>
      et_last_record_sha256 t = er_record_sha256 (last evs)"
proof -
  let ?E = "events_of sha (lf_content f)"
  obtain jt raw where j: "inspect_open_committed_jsonl_tail sha f = (jt, raw)"
    by (cases "inspect_open_committed_jsonl_tail sha f")
  note jf = inspect_jsonl_tail(4) [OF j]
  have all: "list_all2 (\<lambda>r ev. decode_committed_event_record loads r = Inr ev) ?E evs"
    using assms by (simp add: iter_events_from_start decode_records_iff)
  show ?thesis
  proof (cases raw)
    case None
    with jf all have "evs = []" by simp
    with None show ?thesis
      by (intro that) (auto simp: inspect_open_event_log_tail_def j last_seq_of_def)
  next
    case (Some r)
    with jf have ne: "?E \<noteq> []" and off: "jt_last_record_offset jt = jr_byte_offset (last ?E)"
      and r: "r @ [nl] = jr_raw_bytes (last ?E)"
      and h: "jt_last_record_sha256 jt = jr_record_sha256 (last ?E)" by auto
    from list_all2_last [OF all ne] have ev: "evs \<noteq> []"
      and dl: "decode_committed_event_record loads (last ?E) = Inr (last evs)" by auto
    note df = decode_committed_facts [OF dl]
    show ?thesis
      by (rule that, (simp add: inspect_open_event_log_tail_def j Some off r df; fail))
        (simp_all add: h df ev last_seq_of_def)
  qed
qed

lemma same_tail_commit: "same_event_log_tail t c \<Longrightarrow> et_committed_end t = et_committed_end c"
  by (simp add: same_event_log_tail_def)

lemma has_incomplete_iff:
  "inspect_open_event_log_tail sha loads f = Inr t \<Longrightarrow>
     has_incomplete_tail t \<longleftrightarrow> commit_point (lf_content f) < length (lf_content f)"
  by (auto simp: has_incomplete_tail_def inspect_tail_fields)

text \<open>What a repair that returns between the attempts \<open>lo\<close> and \<open>hi\<close> leaves behind.\<close>

definition repair_outcome ::
    "(nat \<Rightarrow> log_file option \<times> log_file option) \<Rightarrow> int option \<Rightarrow> nat \<Rightarrow> nat \<Rightarrow> event_tail \<Rightarrow>
     log_file option \<Rightarrow> bool" where
  "repair_outcome env adv lo hi t left \<longleftrightarrow>
    (\<forall>a. adv = Some a \<longrightarrow> a \<le> et_last_seq t) \<and> et_incomplete_size t = 0 \<and>
    (case left of
       None \<Rightarrow> \<not> et_exists t \<and> (\<exists>i. lo \<le> i \<and> i < hi \<and> fst (env i) = None)
     | Some g \<Rightarrow> et_exists t \<and> et_file_size t = length (lf_content g) \<and>
         (\<exists>i f. lo \<le> i \<and> i < hi \<and> snd (env i) = Some f \<and>
            lf_content g = take (commit_point (lf_content f)) (lf_content f)))"

lemma repair_outcome_mono:
  assumes "repair_outcome env adv lo hi t left" "lo' \<le> lo" "hi \<le> hi'"
  shows "repair_outcome env adv lo' hi' t left"
proof (cases left)
  case None
  with assms show ?thesis unfolding repair_outcome_def by (auto intro: le_trans less_le_trans)
next
  case (Some g)
  from assms(1) [unfolded repair_outcome_def Some option.case] obtain i f
    where "lo \<le> i" "i < hi" and o: "snd (env i) = Some f"
      "lf_content g = take (commit_point (lf_content f)) (lf_content f)" by blast
  then have "lo' \<le> i" "i < hi'" using assms by auto
  with assms(1) o show ?thesis unfolding repair_outcome_def Some option.case by blast
qed

lemma repair_loop_safe:
  assumes "repair_loop sha loads env stamp adv k n = Inr (t, left)"
  shows "repair_outcome env adv k (k + n) t left"
  using assms
proof (induction n arbitrary: k)
  case (Suc n)
  from Suc.prems obtain t0 where t0: "inspect_event_log_tail sha loads (fst (env k)) = Inr t0"
    by (simp only: repair_loop.simps res_bind_eq_Inr) blast
  have adv: "\<forall>a. adv = Some a \<longrightarrow> a \<le> et_last_seq t0"
  proof (rule ccontr)
    assume "\<not> ?thesis"
    then have "(case adv of None \<Rightarrow> False | Some a \<Rightarrow> et_last_seq t0 < a)" by auto
    with Suc.prems t0 show False by simp
  qed
  have later: ?case if "repair_loop sha loads env stamp adv (Suc k) n = Inr (t, left)"
    by (rule repair_outcome_mono [OF Suc.IH [OF that]]) simp_all
  have adv': "\<not> (case adv of None \<Rightarrow> False | Some a \<Rightarrow> et_last_seq t0 < a)"
    using adv by (auto split: option.splits)
  show ?case
  proof (cases "et_exists t0")
    case False
    with t0 have "fst (env k) = None"
      by (auto simp: inspect_event_log_tail_def inspect_tail_fields split: option.splits)
    moreover from this t0 have "t0 = missing_tail" by (simp add: inspect_event_log_tail_def)
    moreover have "t = t0" "left = fst (env k)" using Suc.prems t0 adv' False by auto
    moreover from calculation have "\<exists>i. k \<le> i \<and> i < k + Suc n \<and> fst (env i) = None"
      by (intro exI [of _ k]) simp
    ultimately show ?thesis using adv by (auto simp: missing_tail_def repair_outcome_def)
  next
    case True
    show ?thesis
    proof (cases "snd (env k)")
      case None with Suc.prems t0 adv' True later show ?thesis by simp
    next
      case (Some f)
      with Suc.prems t0 adv' True obtain c where c: "inspect_open_event_log_tail sha loads f = Inr c"
        and rest: "(if \<not> same_event_log_tail t0 c then repair_loop sha loads env stamp adv (Suc k) n
            else if \<not> has_incomplete_tail c then Inr (c, Some f)
            else Inr (c\<lparr>et_modified_ns := stamp k, et_file_size := et_committed_end c,
                        et_incomplete_size := 0\<rparr>,
                   Some (f\<lparr>lf_content := take (et_committed_end t0) (lf_content f),
                           lf_mtime := stamp k\<rparr>))) = Inr (t, left)"
        by (auto simp: res_bind_eq_Inr)
      note cf = inspect_tail_fields [OF c]
      show ?thesis
      proof (cases "same_event_log_tail t0 c")
        case False with rest later show ?thesis by simp
      next
        case same: True
        have seq: "et_last_seq t0 = et_last_seq c" using same by (simp add: same_event_log_tail_def)
        show ?thesis
        proof (cases "has_incomplete_tail c")
          case False
          with rest same have "t = c" "left = Some f" by auto
          moreover have "commit_point (lf_content f) = length (lf_content f)"
            using False has_incomplete_iff [OF c] commit_point_le [of "lf_content f"] by simp
          ultimately show ?thesis unfolding repair_outcome_def using adv seq cf Some by auto
        next
          case True
          with rest same have t: "t = c\<lparr>et_modified_ns := stamp k,
                et_file_size := et_committed_end c, et_incomplete_size := 0\<rparr>"
            and left: "left = Some (f\<lparr>lf_content := take (et_committed_end t0) (lf_content f),
                lf_mtime := stamp k\<rparr>)" by auto
          show ?thesis unfolding repair_outcome_def t left
            using adv seq cf Some same_tail_commit [OF same] commit_point_le [of "lf_content f"]
            by auto
        qed
      qed
    qed
  qed
qed simp

section \<open>Sequence numbers of an append\<close>

text \<open>A text that ends in a newline decodes with and without it.\<close>

lemma utf8_units_newline: "utf8_units (u @ [10]) = Some t \<Longrightarrow> \<exists>t'. utf8_units u = Some t'"
proof (induction u arbitrary: t rule: utf8_units.induct)
  case (2 a u)
  have ncont: "\<not> utf8_cont 10" by (simp add: utf8_cont_def)
  consider "a < 128" | "194 \<le> a \<and> a \<le> 223" | "224 \<le> a \<and> a \<le> 239" | "240 \<le> a \<and> a \<le> 244"
    using "2.prems" by (fastforce split: if_splits)
  then show ?case
  proof cases
    case 1
    with "2.prems" "2.IH"(1) [OF 1] show ?thesis by auto
  next
    case two: 2
    with "2.prems" ncont obtain b v where u: "u = b # v" "utf8_cont b"
      by (cases u) (auto split: if_splits)
    with two "2.prems" obtain t' where "utf8_units (v @ [10]) = Some t'" by auto
    with "2.IH"(2) [OF _ _ u(1)] two u show ?thesis by force
  next
    case three: 3
    with "2.prems" ncont obtain b c v where u: "u = b # c # v"
      and g: "utf8_cont b \<and> utf8_cont c \<and> (a = 224 \<longrightarrow> 160 \<le> b) \<and> (a = 237 \<longrightarrow> b \<le> 159)"
      by (cases u; cases "tl u") (auto split: if_splits)
    with three "2.prems" obtain t' where "utf8_units (v @ [10]) = Some t'" by auto
    with "2.IH"(3) [OF _ _ _ u refl] g three u show ?thesis by force
  next
    case four: 4
    with "2.prems" ncont obtain b c d v where u: "u = b # c # d # v"
      and g: "utf8_cont b \<and> utf8_cont c \<and> utf8_cont d \<and> (a = 240 \<longrightarrow> 144 \<le> b) \<and> (a = 244 \<longrightarrow> b \<le> 143)"
      by (cases u; cases "tl u"; cases "tl (tl u)") (auto split: if_splits)
    with four "2.prems" obtain t' where "utf8_units (v @ [10]) = Some t'" by auto
    with "2.IH"(4) [OF _ _ _ _ u refl refl] g four u show ?thesis by force
  qed
qed simp

lemma utf8_decode_newline: "utf8_decode (b @ [nl]) = Some t \<Longrightarrow> \<exists>t'. utf8_decode b = Some t'"
  using utf8_units_newline [of "map of_char b" t] by (simp add: utf8_decode_def)

lemma validate_sequence_increasing:
  "sorted_wrt (<) (map er_seq rs) \<Longrightarrow> \<forall>p. prev = Some p \<longrightarrow> (\<forall>r \<in> set rs. p < er_seq r) \<Longrightarrow>
     validate_sequence prev l rs None = Inr (if rs = [] then l else er_seq (last rs))"
  by (induction rs arbitrary: prev l) (auto split: option.splits)

definition content_of :: "log_file option \<Rightarrow> bytes" where
  "content_of path = (case path of None \<Rightarrow> [] | Some f \<Rightarrow> lf_content f)"

lemma iter_events_content:
  "iter_committed_event_records sha loads path 0 None =
     decode_records loads (physical sha 0 (content_of path)) None"
  by (cases path)
    (simp_all add: content_of_def physical_torn iter_open_from_start
      iter_committed_event_records_def iter_committed_jsonl_records_def)

text \<open>The committed events of a run directory, when all of them can be read, are numbered upwards and
  the status does not promise more than is there.\<close>

definition log_sound :: "log_io \<Rightarrow> event_record list \<Rightarrow> run_dir \<Rightarrow> bool" where
  "log_sound io evs d \<longleftrightarrow>
     iter_committed_event_records (io_sha io) (io_loads io) (rd_events d) 0 None = (evs, None) \<and>
     sorted_wrt (<) (map er_seq evs) \<and>
     (case read_status_last_event_seq (rd_status d) of
        Inl _ \<Rightarrow> False
      | Inr None \<Rightarrow> True
      | Inr (Some a) \<Rightarrow> a \<le> last_seq_of evs)"

lemma missing_tail_fields [simp]:
  "et_exists missing_tail = False" "et_last_seq missing_tail = 0" "et_file_size missing_tail = 0"
  by (simp_all add: missing_tail_def)

lemma same_event_log_tail_refl [simp]: "same_event_log_tail t t"
  by (simp add: same_event_log_tail_def)

lemma read_status_nonneg: "read_status_last_event_seq s = Inr (Some a) \<Longrightarrow> 0 \<le> a"
  by (auto simp: read_status_last_event_seq_def Let_def split: status_file.splits pyval.splits if_splits)

lemma validate_content:
  assumes "iter_committed_event_records sha loads path 0 None = (evs, None)"
    and "sorted_wrt (<) (map er_seq evs)"
  shows "validate_committed_event_sequence sha loads path = Inr (last_seq_of evs)"
  using assms by (simp add: validate_committed_event_sequence_def validate_sequence_increasing
      last_seq_of_def)

lemma prepare_append_sound:
  assumes "log_sound io evs d"
  obtains path where
    "prepare_append io q d = res_bind (make_agent_event io q (last_seq_of evs + 1)) (\<lambda>e. Inr (path, e))"
    and "content_of path = take (commit_point (content_of (rd_events d))) (content_of (rd_events d))"
proof -
  from assms have it: "iter_committed_event_records (io_sha io) (io_loads io) (rd_events d) 0 None = (evs, None)"
    and so: "sorted_wrt (<) (map er_seq evs)" by (auto simp: log_sound_def)
  from assms obtain adv where adv: "read_status_last_event_seq (rd_status d) = Inr adv"
    and le: "\<not> (case adv of None \<Rightarrow> False | Some a \<Rightarrow> last_seq_of evs < a)"
    by (auto simp: log_sound_def split: sum.splits option.splits)
  have pos: "\<not> (case adv of None \<Rightarrow> False | Some a \<Rightarrow> a < 0)"
    using read_status_nonneg [of "rd_status d"] adv by (fastforce split: option.splits)
  show ?thesis
  proof (cases "rd_events d")
    case None
    have "evs = []" using it None by (simp add: iter_events_content content_of_def physical_torn)
    then have z: "last_seq_of evs = 0" by (simp add: last_seq_of_def)
    have "\<not> (case adv of None \<Rightarrow> False | Some a \<Rightarrow> et_last_seq missing_tail < a)"
      using le z by (cases adv) simp_all
    with None adv pos show ?thesis
      by (intro that [of None])
        (simp_all add: prepare_append_def repair_event_log_tail_for_append_def numeral_2_eq_2
          inspect_event_log_tail_def verified_event_sequence_seed_def z content_of_def)
  next
    case (Some f)
    obtain t where t: "inspect_open_event_log_tail (io_sha io) (io_loads io) f = Inr t"
      and ts: "et_last_seq t = last_seq_of evs"
      using inspect_tail_of_readable it Some by metis
    have "\<exists>t' g. repair_event_log_tail_for_append (io_sha io) (io_loads io)
        (\<lambda>_. (rd_events d, rd_events d)) (\<lambda>_. io_stamp io) adv 2 = Inr (t', Some g) \<and>
        et_last_seq t' = last_seq_of evs"
      using t ts le [folded ts] pos inspect_tail_fields(4) [OF t] Some
      by (simp add: repair_event_log_tail_for_append_def numeral_2_eq_2 inspect_event_log_tail_def)
    then obtain t' g where rep: "repair_event_log_tail_for_append (io_sha io) (io_loads io)
        (\<lambda>_. (rd_events d, rd_events d)) (\<lambda>_. io_stamp io) adv 2 = Inr (t', Some g)"
      and t's: "et_last_seq t' = last_seq_of evs" by blast
    then have loop: "repair_loop (io_sha io) (io_loads io) (\<lambda>_. (rd_events d, rd_events d))
        (\<lambda>_. io_stamp io) adv 0 2 = Inr (t', Some g)"
      using pos by (simp add: repair_event_log_tail_for_append_def)
    from repair_loop_safe [OF loop] Some have ex: "et_exists t'"
      and sz: "et_file_size t' = length (lf_content g)"
      and g: "lf_content g = take (commit_point (lf_content f)) (lf_content f)"
      by (auto simp: repair_outcome_def)
    have it': "iter_committed_event_records (io_sha io) (io_loads io) (Some g) 0 None = (evs, None)"
      using it Some by (simp add: iter_events_content content_of_def g physical_commit_point)
    have "et_file_size t' = 0 \<Longrightarrow> evs = []"
      using it' sz by (simp add: iter_events_content content_of_def physical_torn)
    then have "verified_event_sequence_seed (io_sha io) (io_loads io) (Some g) t' = Inr (last_seq_of evs)"
      using validate_content [OF it' so] ex t's
      by (auto simp: verified_event_sequence_seed_def last_seq_of_def)
    then show ?thesis
      by (intro that [of "Some g"])
        (simp_all add: prepare_append_def adv rep [unfolded Some] g Some content_of_def)
  qed
qed

section \<open>Appends and crashes\<close>

text \<open>What the log relies on of the JSON writer and reader, for the events of \<open>E\<close>: the line of an event
  is one line, is not blank, and reads back as the event.\<close>

definition json_faithful :: "log_io \<Rightarrow> agent_event set \<Rightarrow> bool" where
  "json_faithful io E \<longleftrightarrow> (\<forall>e \<in> E. let l = io_dumps io (event_to_json e) in
     nl \<notin> set l \<and> bytes_strip l \<noteq> [] \<and>
     (\<exists>t. utf8_decode (l @ [nl]) = Some t \<and> io_loads io t = Some (PDict (event_to_json e))))"

text \<open>The life of a run directory: appends that complete and appends cut off by a crash, of events of
  \<open>E\<close>.\<close>

inductive log_step :: "log_io \<Rightarrow> agent_event set \<Rightarrow> run_dir \<Rightarrow> run_dir \<Rightarrow> bool"
  for io :: log_io and E :: "agent_event set" where
  appended: "append_event_to_run io q d = Inr (e, d') \<Longrightarrow> e \<in> E \<Longrightarrow> log_step io E d d'"
| crashed: "interrupted_append io q k d = Inr (e, d') \<Longrightarrow> e \<in> E \<Longrightarrow> log_step io E d d'"

inductive log_run :: "log_io \<Rightarrow> agent_event set \<Rightarrow> run_dir \<Rightarrow> run_dir \<Rightarrow> bool"
  for io :: log_io and E :: "agent_event set" where
  log_refl: "log_run io E d d"
| log_more: "log_run io E d d' \<Longrightarrow> log_step io E d' d'' \<Longrightarrow> log_run io E d d''"

inductive_cases log_stepE: "log_step io E d d'"

lemma event_seq_json [simp]: "dget (event_to_json e) ''seq'' = PInt (ev_seq e)"
  by (simp add: dget_def event_to_json_def)

lemma decode_written:
  assumes "json_faithful io E" "e \<in> E" "0 < ev_seq e"
  obtains r where "decode_committed_event_record (io_loads io) (jsonl_record_at sha off (event_line io e)) = Inr r"
    and "er_seq r = ev_seq e" and "er_payload r = event_to_json e"
proof -
  let ?l = "io_dumps io (event_to_json e)"
  from assms obtain t where t: "utf8_decode (?l @ [nl]) = Some t"
    and lo: "io_loads io t = Some (PDict (event_to_json e))"
    by (auto simp: json_faithful_def Let_def)
  from utf8_decode_newline [OF t] obtain t' where t': "utf8_decode ?l = Some t'" by blast
  show ?thesis
  proof (rule that)
    show "decode_committed_event_record (io_loads io) (jsonl_record_at sha off (event_line io e)) =
        Inr \<lparr>er_byte_offset = off, er_next_byte_offset = off + length (event_line io e),
          er_seq = ev_seq e, er_payload = event_to_json e, er_raw_json = chomp_cr t',
          er_record_sha256 = sha (event_line io e)\<rparr>"
      using assms(3) by (simp add: decode_committed_event_record_def jsonl_record_at_def
          event_line_def decode_event_record_def t lo t' event_sequence_def)
  qed simp_all
qed

lemma decode_appended:
  assumes "json_faithful io E" "e \<in> E" "committed c" "0 < ev_seq e"
    and evs: "decode_records (io_loads io) (physical sha 0 c) None = (evs, None)"
  obtains r where "decode_records (io_loads io) (physical sha 0 (c @ event_line io e)) None =
      (evs @ [r], None)"
    and "er_seq r = ev_seq e" and "er_payload r = event_to_json e"
proof -
  obtain r where r: "decode_committed_event_record (io_loads io)
        (jsonl_record_at sha (length c) (event_line io e)) = Inr r"
      "er_seq r = ev_seq e" "er_payload r = event_to_json e"
    by (rule decode_written [OF assms(1,2,4)])
  have n: "nl \<notin> set (io_dumps io (event_to_json e))" "bytes_strip (io_dumps io (event_to_json e)) \<noteq> []"
    using assms(1,2) by (auto simp: json_faithful_def Let_def)
  have "physical sha 0 (c @ event_line io e) =
      physical sha 0 c @ [jsonl_record_at sha (length c) (event_line io e)]"
    using assms(3) n(1) by (simp add: physical_append event_line_def physical_single)
  moreover have "\<not> blank (jsonl_record_at sha (length c) (event_line io e))"
    using n(2) by (simp add: jsonl_record_at_def event_line_def)
  ultimately have "decode_records (io_loads io) (physical sha 0 (c @ event_line io e)) None =
      (evs @ [r], None)"
    using evs r(1) by (simp add: decode_records_iff list_all2_appendI)
  with r that show ?thesis by blast
qed

lemma make_agent_event_seq: "make_agent_event io q n = Inr e \<Longrightarrow> ev_seq e = n"
  by (auto simp: make_agent_event_def res_bind_eq_Inr)

lemma content_append_bytes [simp]: "content_of (Some (append_bytes io path l)) = content_of path @ l"
  by (simp add: append_bytes_def content_of_def split: option.split)

lemma event_sequence_pos: "event_sequence off p = Inr n \<Longrightarrow> 0 < n"
  by (auto simp: event_sequence_def split: pyval.splits if_splits)

lemma decoded_seqs_positive:
  "decode_records loads rs None = (evs, None) \<Longrightarrow> \<forall>r \<in> set evs. 0 < er_seq r"
  unfolding decode_records_iff
  by (auto simp: list_all2_conv_all_nth in_set_conv_nth
      dest!: decode_committed_facts(2) event_sequence_pos)

lemma last_seq_bounds:
  assumes "log_sound io evs d"
  shows "0 \<le> last_seq_of evs" and "\<forall>r \<in> set evs. er_seq r \<le> last_seq_of evs"
proof -
  have pos: "\<forall>r \<in> set evs. 0 < er_seq r"
    using assms decoded_seqs_positive by (auto simp: log_sound_def iter_events_content)
  then show "0 \<le> last_seq_of evs" using last_in_set by (fastforce simp: last_seq_of_def)
  have so: "sorted_wrt (<) (map er_seq evs)" using assms by (simp add: log_sound_def)
  show "\<forall>r \<in> set evs. er_seq r \<le> last_seq_of evs"
  proof (cases evs rule: rev_cases)
    case (snoc xs x)
    with so show ?thesis by (auto simp: last_seq_of_def sorted_wrt_append)
  qed simp
qed

lemma status_after_append:
  assumes "read_status_last_event_seq s = Inr adv" "0 \<le> ev_seq e"
  shows "read_status_last_event_seq (update_status_last_event s e) \<in> {Inr None, Inr (Some (ev_seq e))}"
  using assms
  by (auto simp: read_status_last_event_seq_def update_status_last_event_def Let_def dget_update
      dhas_update simp del: dhas_iff split: status_file.splits pyval.splits if_splits)

lemma log_sound_append:
  assumes "log_sound io evs d" "er_seq r = last_seq_of evs + 1"
  shows "sorted_wrt (<) (map er_seq (evs @ [r]))" and "last_seq_of (evs @ [r]) = last_seq_of evs + 1"
  using assms last_seq_bounds(2) [OF assms(1)]
  by (auto simp: log_sound_def sorted_wrt_append last_seq_of_def)

lemma append_sound:
  assumes "json_faithful io E" "log_sound io evs d"
    and mk: "make_agent_event io q (last_seq_of evs + 1) = Inr e" "e \<in> E"
  obtains d' r where "append_event_to_run io q d = Inr (e, d')" and "log_sound io (evs @ [r]) d'"
    and "er_seq r = last_seq_of evs + 1" and "er_payload r = event_to_json e"
proof -
  obtain path where prep: "prepare_append io q d = Inr (path, e)"
    and c: "content_of path = take (commit_point (content_of (rd_events d))) (content_of (rd_events d))"
    using prepare_append_sound [OF assms(2), of q] mk by auto
  have seq: "ev_seq e = last_seq_of evs + 1" using mk by (simp add: make_agent_event_seq)
  have pos: "0 < ev_seq e" using seq last_seq_bounds(1) [OF assms(2)] by simp
  have dec: "decode_records (io_loads io) (physical (io_sha io) 0 (content_of path)) None = (evs, None)"
    using assms(2) by (simp add: log_sound_def iter_events_content c physical_commit_point)
  have com: "committed (content_of path)" by (simp add: c commit_point_committed)
  obtain r where r: "decode_records (io_loads io)
        (physical (io_sha io) 0 (content_of path @ event_line io e)) None = (evs @ [r], None)"
      "er_seq r = ev_seq e" "er_payload r = event_to_json e"
    by (rule decode_appended [OF assms(1) mk(2) com pos dec])
  let ?d' = "\<lparr>rd_events = Some (append_bytes io path (event_line io e)),
      rd_status = update_status_last_event (rd_status d) e\<rparr>"
  obtain adv where "read_status_last_event_seq (rd_status d) = Inr adv"
    using assms(2) by (auto simp: log_sound_def split: sum.splits)
  from status_after_append [OF this, of e] pos
  have st: "read_status_last_event_seq (update_status_last_event (rd_status d) e) \<in>
      {Inr None, Inr (Some (ev_seq e))}" by simp
  have seq': "er_seq r = last_seq_of evs + 1" using r seq by simp
  note so = log_sound_append [OF assms(2) seq']
  have "log_sound io (evs @ [r]) ?d'"
    using r(1) so st seq by (auto simp: log_sound_def iter_events_content)
  moreover have "append_event_to_run io q d = Inr (e, ?d')"
    by (simp add: append_event_to_run_def prep)
  ultimately show ?thesis using seq' r(3) that by blast
qed

lemma crash_sound:
  assumes "json_faithful io E" "log_sound io evs d"
    and cr: "interrupted_append io q k d = Inr (e, d')" "e \<in> E"
  obtains "log_sound io evs d'"
  | r where "log_sound io (evs @ [r]) d'" "er_seq r = last_seq_of evs + 1"
proof -
  obtain path where pe: "prepare_append io q d =
      res_bind (make_agent_event io q (last_seq_of evs + 1)) (\<lambda>e. Inr (path, e))"
    and c: "content_of path = take (commit_point (content_of (rd_events d))) (content_of (rd_events d))"
    by (rule prepare_append_sound [OF assms(2), of q])
  from cr(1) pe have mk: "make_agent_event io q (last_seq_of evs + 1) = Inr e"
    and d': "d' = \<lparr>rd_events = Some (append_bytes io path (take k (event_line io e))),
      rd_status = rd_status d\<rparr>"
    by (auto simp: interrupted_append_def res_bind_eq_Inr)
  have seq: "ev_seq e = last_seq_of evs + 1" using mk by (simp add: make_agent_event_seq)
  have pos: "0 < ev_seq e" using seq last_seq_bounds(1) [OF assms(2)] by simp
  have dec: "decode_records (io_loads io) (physical (io_sha io) 0 (content_of path)) None = (evs, None)"
    using assms(2) by (simp add: log_sound_def iter_events_content c physical_commit_point)
  have com: "committed (content_of path)" by (simp add: c commit_point_committed)
  show ?thesis
  proof (cases "length (event_line io e) \<le> k")
    case True
    obtain r where r: "decode_records (io_loads io)
          (physical (io_sha io) 0 (content_of path @ event_line io e)) None = (evs @ [r], None)"
        "er_seq r = ev_seq e" "er_payload r = event_to_json e"
      by (rule decode_appended [OF assms(1) cr(2) com pos dec])
    have seq': "er_seq r = last_seq_of evs + 1" using r seq by simp
    note so = log_sound_append [OF assms(2) seq']
    have "log_sound io (evs @ [r]) d'"
      using assms(2) r(1) True so d'
      by (auto simp: log_sound_def iter_events_content split: sum.splits option.splits)
    then show ?thesis using seq' that(2) by blast
  next
    case False
    then have "take k (event_line io e) = take k (io_dumps io (event_to_json e))"
      by (simp add: event_line_def)
    moreover have "nl \<notin> set (io_dumps io (event_to_json e))"
      using assms(1) cr(2) by (simp add: json_faithful_def Let_def)
    ultimately have "nl \<notin> set (take k (event_line io e))" by (metis in_set_takeD)
    then have "log_sound io evs d'"
      using assms(2) dec d' by (simp add: log_sound_def iter_events_content physical_torn_tail [OF com])
    then show ?thesis by (rule that(1))
  qed
qed

lemma log_step_sound:
  assumes "json_faithful io E" "log_sound io evs d" "log_step io E d d'"
  obtains "log_sound io evs d'"
  | r where "log_sound io (evs @ [r]) d'" "er_seq r = last_seq_of evs + 1"
proof -
  from assms(3) consider (app) q e where "append_event_to_run io q d = Inr (e, d')" "e \<in> E"
    | (crash) q k e where "interrupted_append io q k d = Inr (e, d')" "e \<in> E"
    by (rule log_stepE) blast+
  then show ?thesis
  proof cases
    case (app q e)
    obtain path where "prepare_append io q d =
        res_bind (make_agent_event io q (last_seq_of evs + 1)) (\<lambda>e. Inr (path, e))"
      by (rule prepare_append_sound [OF assms(2), of q])
    with app(1) have mk: "make_agent_event io q (last_seq_of evs + 1) = Inr e"
      by (auto simp: append_event_to_run_def res_bind_eq_Inr)
    obtain d'' r where "append_event_to_run io q d = Inr (e, d'')" "log_sound io (evs @ [r]) d''"
      "er_seq r = last_seq_of evs + 1"
      by (rule append_sound [OF assms(1,2) mk app(2)])
    with app(1) that(2) show ?thesis by simp
  next
    case (crash q k e)
    show ?thesis by (rule crash_sound [OF assms(1,2) crash]) (rule that; assumption)+
  qed
qed

lemma log_run_sound:
  assumes "log_run io E d d'" "json_faithful io E" "log_sound io evs d"
  shows "\<exists>new. log_sound io (evs @ new) d' \<and>
     map er_seq new = [last_seq_of evs + 1 .. last_seq_of evs + int (length new)] \<and>
     last_seq_of (evs @ new) = last_seq_of evs + int (length new)"
  using assms(1,3)
proof (induction rule: log_run.induct)
  case (log_refl d0)
  then show ?case by (intro exI [of _ "[]"]) simp
next
  case (log_more d0 d1 d2)
  then obtain new where n: "log_sound io (evs @ new) d1"
    "map er_seq new = [last_seq_of evs + 1 .. last_seq_of evs + int (length new)]"
    "last_seq_of (evs @ new) = last_seq_of evs + int (length new)" by blast
  from log_step_sound [OF assms(2) n(1) log_more.hyps(2)] show ?case
  proof cases
    case 1 with n show ?thesis by blast
  next
    case (2 r)
    have "map er_seq (new @ [r]) =
        [last_seq_of evs + 1 .. last_seq_of evs + int (length (new @ [r]))]"
      using n 2 upto_rec2 [of "last_seq_of evs + 1" "last_seq_of evs + 1 + int (length new)"]
      by (simp add: algebra_simps)
    moreover have "last_seq_of (evs @ new @ [r]) = last_seq_of evs + int (length (new @ [r]))"
      using log_sound_append(2) [OF n(1) 2(2)] n(3) by simp
    ultimately show ?thesis using 2(1) by (intro exI [of _ "new @ [r]"]) simp
  qed
qed

section \<open>Properties of the event log\<close>

text \<open>A small instance: two events whose lines are \<open>{1}\<close> and \<open>{2}\<close>.\<close>

definition demo_event :: "int \<Rightarrow> agent_event" where
  "demo_event n = \<lparr>ev_schema_version = EVENT_SCHEMA_VERSION, ev_event_id = ''evt_a'', ev_seq = n,
     ev_run_id = ''r'', ev_timestamp = ''now'', ev_type = ''run.started'', ev_level = ''info'',
     ev_data = [], ev_turn_id = None, ev_parent_id = None\<rparr>"

definition demo_request :: event_request where
  "demo_request = \<lparr>rq_event_id = ''a'', rq_run_id = ''r'', rq_timestamp = ''now'',
     rq_type = ''run.started'', rq_level = ''info'', rq_data = None\<rparr>"

definition demo_loads :: "nat list \<Rightarrow> pyval option" where
  "demo_loads t = (if t = [123, 49, 125, 10] then Some (PDict (event_to_json (demo_event 1)))
     else if t = [123, 50, 125, 10] then Some (PDict (event_to_json (demo_event 2))) else None)"

definition demo_io :: log_io where
  "demo_io = \<lparr>io_sha = (\<lambda>b. b), io_loads = demo_loads,
     io_dumps = (\<lambda>d. if dget d ''seq'' = PInt 1 then ''{1}'' else ''{2}''), io_ingress = Inr,
     io_fresh = \<lparr>lf_device = 1, lf_inode = 7, lf_mtime = 0, lf_content = []\<rparr>, io_stamp = 5\<rparr>"

definition demo_file :: log_file where
  "demo_file = \<lparr>lf_device = 1, lf_inode = 7, lf_mtime = 0, lf_content = ''{1}'' @ nl # ''{2''\<rparr>"

definition demo_record :: event_record where
  "demo_record = \<lparr>er_byte_offset = 0, er_next_byte_offset = 4, er_seq = 1,
     er_payload = event_to_json (demo_event 1), er_raw_json = [123, 49, 125],
     er_record_sha256 = ''{1}'' @ [nl]\<rparr>"

lemma demo_utf8:
  "utf8_decode (''{1}'' @ [nl]) = Some [123, 49, 125, 10]" "utf8_decode ''{1}'' = Some [123, 49, 125]"
  "utf8_decode (''{2}'' @ [nl]) = Some [123, 50, 125, 10]"
  by (simp_all add: utf8_decode_def)

lemma demo_reads:
  "iter_committed_event_records (\<lambda>b. b) demo_loads (Some demo_file) 0 None = ([demo_record], None)"
proof -
  have "physical (\<lambda>b. b) 0 (lf_content demo_file) = [jsonl_record_at (\<lambda>b. b) 0 (''{1}'' @ [nl])]"
    unfolding demo_file_def log_file.select_convs
    by (subst physical_line) (simp_all add: physical_torn)
  moreover have "bytes_strip (''{1}'' @ [nl]) \<noteq> []"
    by (simp add: bytes_strip_def strip_by_Nil is_ascii_space_def Let_def)
  ultimately show ?thesis
    using demo_utf8(1,2)
    by (simp add: iter_events_from_start jsonl_record_at_def decode_committed_event_record_def
        decode_event_record_def demo_loads_def event_sequence_def demo_record_def demo_event_def
        chomp_cr_def)
qed

lemma demo_faithful: "json_faithful demo_io {demo_event 1, demo_event 2}"
proof -
  have "bytes_strip ''{1}'' \<noteq> []" "bytes_strip ''{2}'' \<noteq> []"
    by (simp_all add: bytes_strip_def strip_by_Nil is_ascii_space_def Let_def)
  moreover have "ev_seq (demo_event n) = n" for n by (simp add: demo_event_def)
  ultimately show ?thesis
    using demo_utf8 by (simp add: json_faithful_def demo_io_def demo_loads_def)
qed

lemma demo_sound:
  "log_sound demo_io [demo_record] \<lparr>rd_events = Some demo_file, rd_status = NoStatus\<rparr>"
  using demo_reads by (simp add: log_sound_def demo_io_def read_status_last_event_seq_def)

lemma demo_make: "make_agent_event demo_io demo_request n = Inr (demo_event n)"
  by (simp add: make_agent_event_def demo_io_def demo_request_def demo_event_def)


text \<open>C28. The bounded backward inspection of a log agrees with the forward reader on every file whose
  committed records can be read: it succeeds, it reports as committed exactly the bytes of the
  forward reader's records and as incomplete the rest, which holds no newline, and the last sequence
  number, the offset and the digest it reports are those of the last event the reader yields (zero
  when there is none). This holds for every file size, across the block boundaries of the backward
  scan.\<close>

theorem tail_inspection_matches_reader:
  assumes "iter_committed_event_records sha loads (Some f) 0 None = (evs, None)"
  shows "\<exists>t. inspect_event_log_tail sha loads (Some f) = Inr t \<and>
    concat (map jr_raw_bytes (fst (iter_committed_jsonl_records sha (Some f) 0 None))) =
      take (et_committed_end t) (lf_content f) \<and>
    nl \<notin> set (drop (et_committed_end t) (lf_content f)) \<and>
    et_file_size t = length (lf_content f) \<and>
    et_committed_end t + et_incomplete_size t = et_file_size t \<and>
    et_last_seq t = (if evs = [] then 0 else er_seq (last evs)) \<and>
    (evs \<noteq> [] \<longrightarrow> et_last_record_offset t = er_byte_offset (last evs) \<and>
       et_last_record_sha256 t = er_record_sha256 (last evs))"
proof -
  obtain t where t: "inspect_open_event_log_tail sha loads f = Inr t"
    and s: "et_last_seq t = last_seq_of evs"
    and l: "evs \<noteq> [] \<Longrightarrow> et_last_record_offset t = er_byte_offset (last evs) \<and>
      et_last_record_sha256 t = er_record_sha256 (last evs)"
    using inspect_tail_of_readable [OF assms] by blast
  let ?b = "lf_content f"
  have "concat (map jr_raw_bytes (physical sha 0 ?b)) = take (commit_point ?b) ?b"
    using concat_physical [OF commit_point_committed, of sha 0 ?b]
    by (simp add: physical_commit_point)
  then have "concat (map jr_raw_bytes (fst (iter_committed_jsonl_records sha (Some f) 0 None))) =
      take (et_committed_end t) ?b"
    by (simp add: iter_committed_jsonl_records_def iter_open_from_start inspect_tail_fields [OF t])
  moreover have "et_committed_end t + et_incomplete_size t = et_file_size t"
    using commit_point_le [of ?b] by (simp add: inspect_tail_fields [OF t])
  ultimately show ?thesis using t s l commit_point_torn [of ?b]
    by (intro exI [of _ t])
      (simp add: inspect_event_log_tail_def inspect_tail_fields [OF t] last_seq_of_def)
qed

text \<open>The log with one event and a torn second line.\<close>

theorem tail_inspection_matches_reader_witness:
  "\<exists>t. inspect_event_log_tail (\<lambda>b. b) demo_loads (Some demo_file) = Inr t \<and>
     et_last_seq t = 1 \<and> et_file_size t = 6"
proof -
  obtain t where "inspect_event_log_tail (\<lambda>b. b) demo_loads (Some demo_file) = Inr t"
    and s: "et_last_seq t = (if [demo_record] = [] then 0 else er_seq (last [demo_record]))"
    and z: "et_file_size t = length (lf_content demo_file)"
    using tail_inspection_matches_reader [OF demo_reads] by blast
  moreover from s have "et_last_seq t = 1" by (simp add: demo_record_def)
  moreover from z have "et_file_size t = 6" by (simp add: demo_file_def)
  ultimately show ?thesis by blast
qed

text \<open>A repair that returns left the file with exactly its committed bytes, whatever other
  processes did to the file between the inspection and the truncation: what it removed holds no
  newline, the reader yields from the repaired file exactly what it yielded from the file the repair
  opened, the reported tail has no incomplete part, and the log reaches the acknowledged watermark.\<close>

theorem repair_keeps_committed_events:
  assumes "repair_event_log_tail_for_append sha loads env stamp advertised max_attempts = Inr (t, Some g)"
  shows "\<exists>i f. i < nat max_attempts \<and> snd (env i) = Some f \<and>
     (\<exists>torn. lf_content f = lf_content g @ torn \<and> nl \<notin> set torn) \<and>
     iter_committed_event_records sha loads (Some g) 0 None =
       iter_committed_event_records sha loads (Some f) 0 None \<and>
     et_incomplete_size t = 0 \<and> et_file_size t = length (lf_content g) \<and>
     (\<forall>a. advertised = Some a \<longrightarrow> a \<le> et_last_seq t)"
proof -
  have "repair_loop sha loads env stamp advertised 0 (nat max_attempts) = Inr (t, Some g)"
    using assms by (simp add: repair_event_log_tail_for_append_def split: if_splits)
  from repair_loop_safe [OF this] obtain i f where i: "i < nat max_attempts" "snd (env i) = Some f"
    and g: "lf_content g = take (commit_point (lf_content f)) (lf_content f)"
    and o: "et_incomplete_size t = 0" "et_file_size t = length (lf_content g)"
      "\<forall>a. advertised = Some a \<longrightarrow> a \<le> et_last_seq t"
    by (auto simp: repair_outcome_def)
  have "lf_content f = lf_content g @ drop (commit_point (lf_content f)) (lf_content f)"
    by (simp add: g)
  then have "\<exists>torn. lf_content f = lf_content g @ torn \<and> nl \<notin> set torn"
    using commit_point_torn by blast
  moreover have "iter_committed_event_records sha loads (Some g) 0 None =
      iter_committed_event_records sha loads (Some f) 0 None"
    by (simp add: iter_events_from_start g physical_commit_point)
  ultimately show ?thesis using i o by blast
qed

text \<open>The torn log is repaired in the first attempt.\<close>

theorem repair_keeps_committed_events_witness:
  "\<exists>t g. repair_event_log_tail_for_append (\<lambda>b. b) demo_loads
       (\<lambda>_. (Some demo_file, Some demo_file)) (\<lambda>_. 5) (Some 1) 2 = Inr (t, Some g) \<and>
     iter_committed_event_records (\<lambda>b. b) demo_loads (Some g) 0 None = ([demo_record], None)"
proof -
  obtain t where t: "inspect_open_event_log_tail (\<lambda>b. b) demo_loads demo_file = Inr t"
    and s: "et_last_seq t = last_seq_of [demo_record]"
    using inspect_tail_of_readable [OF demo_reads] by blast
  have s1: "et_last_seq t = 1" using s by (simp add: last_seq_of_def demo_record_def)
  have "\<exists>t' g. repair_event_log_tail_for_append (\<lambda>b. b) demo_loads
       (\<lambda>_. (Some demo_file, Some demo_file)) (\<lambda>_. 5) (Some 1) 2 = Inr (t', Some g)"
    using t s1 inspect_tail_fields(4) [OF t]
    by (simp add: repair_event_log_tail_for_append_def numeral_2_eq_2 inspect_event_log_tail_def)
  then obtain t' g where r: "repair_event_log_tail_for_append (\<lambda>b. b) demo_loads
       (\<lambda>_. (Some demo_file, Some demo_file)) (\<lambda>_. 5) (Some 1) 2 = Inr (t', Some g)" by blast
  from repair_keeps_committed_events [OF r] r demo_reads show ?thesis by auto
qed

text \<open>C8. Crash safety of the event log: over any history of appends, completed or cut off by a crash
  after an arbitrary prefix of the line reached the disk, no committed event is lost or changed, the
  events added are numbered consecutively from the last number on, every record stays readable, and
  the next append succeeds with the next number. The JSON writer and reader are assumed to put an
  event on one non-blank line that reads back as the event.\<close>

theorem event_log_crash_safe:
  assumes "json_faithful io E" and "log_sound io evs d" and "log_run io E d d'"
  shows "\<exists>new. log_sound io (evs @ new) d' \<and>
     map er_seq new = [last_seq_of evs + 1 .. last_seq_of evs + int (length new)] \<and>
     (\<forall>q e. make_agent_event io q (last_seq_of evs + int (length new) + 1) = Inr e \<and> e \<in> E \<longrightarrow>
        (\<exists>d'' r. append_event_to_run io q d' = Inr (e, d'') \<and> er_payload r = event_to_json e \<and>
           log_sound io (evs @ new @ [r]) d''))"
proof -
  obtain new where n: "log_sound io (evs @ new) d'"
    "map er_seq new = [last_seq_of evs + 1 .. last_seq_of evs + int (length new)]"
    "last_seq_of (evs @ new) = last_seq_of evs + int (length new)"
    using log_run_sound [OF assms(3,1,2)] by blast
  have "\<exists>d'' r. append_event_to_run io q d' = Inr (e, d'') \<and> er_payload r = event_to_json e \<and>
      log_sound io (evs @ new @ [r]) d''"
    if mk: "make_agent_event io q (last_seq_of evs + int (length new) + 1) = Inr e" "e \<in> E" for q e
  proof -
    obtain d'' r where "append_event_to_run io q d' = Inr (e, d'')"
      "log_sound io ((evs @ new) @ [r]) d''" "er_payload r = event_to_json e"
      using append_sound [OF assms(1) n(1), of q e] mk n(3) by (metis (no_types))
    then show ?thesis by auto
  qed
  with n show ?thesis by blast
qed

text \<open>Starting from one event and a torn line, an append that crashes after one byte of its line.\<close>

theorem event_log_crash_safe_witness:
  "\<exists>d' new. log_run demo_io {demo_event 1, demo_event 2}
       \<lparr>rd_events = Some demo_file, rd_status = NoStatus\<rparr> d' \<and>
     log_sound demo_io ([demo_record] @ new) d' \<and>
     map er_seq new = [1 + 1 .. 1 + int (length new)] \<and> content_of (rd_events d') = ''{1}'' @ [nl, CHR ''{'']"
proof -
  let ?d = "\<lparr>rd_events = Some demo_file, rd_status = NoStatus\<rparr>"
  have l: "last_seq_of [demo_record] = 1" by (simp add: last_seq_of_def demo_record_def)
  obtain path where p: "prepare_append demo_io demo_request ?d = Inr (path, demo_event 2)"
    and c: "content_of path = take (commit_point (content_of (rd_events ?d))) (content_of (rd_events ?d))"
    using prepare_append_sound [OF demo_sound, of demo_request] l by (auto simp: demo_make)
  let ?d' = "\<lparr>rd_events = Some (append_bytes demo_io path (take 1 (event_line demo_io (demo_event 2)))),
      rd_status = NoStatus\<rparr>"
  have "interrupted_append demo_io demo_request 1 ?d = Inr (demo_event 2, ?d')"
    by (simp add: interrupted_append_def p)
  then have run: "log_run demo_io {demo_event 1, demo_event 2} ?d ?d'"
    by (intro log_more [OF log_refl] crashed) auto
  have "commit_point (content_of (rd_events ?d)) = 4"
    using commit_point_unique [of "''{1}'' @ [nl]" "''{2''"]
    by (simp add: content_of_def demo_file_def committed_def)
  then have "content_of (rd_events ?d') = ''{1}'' @ [nl, CHR ''{'']"
    by (simp add: c) (simp add: content_of_def demo_file_def event_line_def demo_io_def)
  with event_log_crash_safe [OF demo_faithful demo_sound run] run show ?thesis
    unfolding l by blast
qed

end
