(* ===== verification/Run_Results.thy ===== *)
theory Run_Results
  imports Wire_Validation
begin

text \<open>
  The result records of \<open>core/result.py\<close> and the interruption vocabulary of
  \<open>core/interruption.py\<close>: a turn result, the \<open>Suspension\<close> a pump returns at every park, and the
  durable observation of a park with its reader.
\<close>

section \<open>Interruption causes\<close>

datatype InterruptionCause =
    USER_CANCEL | GRACEFUL_DRAIN | LEASE_LOST | DEADLINE | HOST_SHUTDOWN
  | PROVIDER_FAILURE | VALIDATION_FAILURE | UNKNOWN

fun cause_value :: "InterruptionCause \<Rightarrow> string" where
  "cause_value USER_CANCEL = ''user_cancel''"
| "cause_value GRACEFUL_DRAIN = ''graceful_drain''"
| "cause_value LEASE_LOST = ''lease_lost''"
| "cause_value DEADLINE = ''deadline''"
| "cause_value HOST_SHUTDOWN = ''host_shutdown''"
| "cause_value PROVIDER_FAILURE = ''provider_failure''"
| "cause_value VALIDATION_FAILURE = ''validation_failure''"
| "cause_value UNKNOWN = ''unknown''"

definition all_causes :: "InterruptionCause list" where
  "all_causes = [USER_CANCEL, GRACEFUL_DRAIN, LEASE_LOST, DEADLINE, HOST_SHUTDOWN,
     PROVIDER_FAILURE, VALIDATION_FAILURE, UNKNOWN]"

text \<open>The enum constructor \<open>InterruptionCause(value)\<close>, which raises for an unknown value.\<close>

definition InterruptionCause_of :: "string \<Rightarrow> InterruptionCause res" where
  "InterruptionCause_of s = (case find (\<lambda>c. cause_value c = s) all_causes of
      Some c \<Rightarrow> Inr c
    | None \<Rightarrow> Inl (ValueError (s @ '' is not a valid InterruptionCause'')))"

definition parse_interruption_cause :: "pyval \<Rightarrow> InterruptionCause option" where
  "parse_interruption_cause v = (case v of
      PStr s \<Rightarrow> if s = [] then None
        else (case InterruptionCause_of s of Inr c \<Rightarrow> Some c | Inl _ \<Rightarrow> None)
    | _ \<Rightarrow> None)"

section \<open>Turn results and suspensions\<close>

record turn_result =
  tr_status :: string
  tr_final_text :: string
  tr_proposal_path :: string
  tr_proposal_hash :: string
  tr_changed_paths :: "string list"
  tr_turn_handle :: "string option"
  tr_error :: string
  tr_error_code :: string
  tr_final_output :: pyval
  tr_outputs :: pydict
  tr_metrics :: pydict
  tr_interruption_cause :: "InterruptionCause option"

record suspension =
  su_reason :: string
  su_status :: string
  su_final_text :: string
  su_error :: string
  su_error_code :: string
  su_awaiting_task_ids :: "string list"
  su_has_external :: bool
  su_turn :: "turn_result option"
  su_retryable :: bool
  su_http_status :: "int option"
  su_config_recoverable :: bool
  su_provider_error_code :: string
  su_provider_retried :: bool
  su_model_tool_calls_pending :: bool
  su_interruption_cause :: "InterruptionCause option"

definition SUSPENSION_REASONS :: "string list" where
  "SUSPENSION_REASONS = [''settled'', ''awaiting_tasks'', ''limited'', ''terminal'',
     ''turn_failed'', ''interrupted'', ''paused'']"

definition SUSPENSION_CHECKPOINT_STATUSES :: "string list" where
  "SUSPENSION_CHECKPOINT_STATUSES = [''completed'', ''failed'', ''limited'']"

definition suspension_checkpoint_payload :: "suspension \<Rightarrow> pydict" where
  "suspension_checkpoint_payload s = [
     (''reason'', PStr (su_reason s)),
     (''status'', PStr (su_status s)),
     (''final_text'', PStr (su_final_text s)),
     (''error'', PStr (su_error s)),
     (''error_code'', PStr (su_error_code s)),
     (''awaiting_task_ids'', PList (map PStr (su_awaiting_task_ids s))),
     (''has_external'', PBool (su_has_external s)),
     (''retryable'', PBool (su_retryable s)),
     (''http_status'', (case su_http_status s of None \<Rightarrow> PNone | Some n \<Rightarrow> PInt n)),
     (''config_recoverable'', PBool (su_config_recoverable s)),
     (''provider_error_code'', PStr (su_provider_error_code s)),
     (''provider_retried'', PBool (su_provider_retried s)),
     (''model_tool_calls_pending'', PBool (su_model_tool_calls_pending s)),
     (''interruption_cause'', PStr (case su_interruption_cause s of
         None \<Rightarrow> [] | Some c \<Rightarrow> cause_value c))]"

fun str_item :: "pyval \<Rightarrow> string res" where
  "str_item (PStr s) = Inr s"
| "str_item _ = Inl (ValueError ''durable suspension task ids must be strings'')"

definition suspension_from_checkpoint_payload :: "validator \<Rightarrow> pydict \<Rightarrow> suspension res" where
  "suspension_from_checkpoint_payload va p =
     res_bind (parse_str va p ''reason'' []) (\<lambda>reason.
     res_bind (parse_str va p ''status'' []) (\<lambda>status.
     res_bind (guard (reason \<in> set SUSPENSION_REASONS)
       (ValueError ''unsupported durable suspension reason'')) (\<lambda>_.
     res_bind (guard (status \<in> set SUSPENSION_CHECKPOINT_STATUSES)
       (ValueError ''unsupported durable suspension status'')) (\<lambda>_.
     res_bind (optional_list va p ''awaiting_task_ids'' []) (\<lambda>raw.
     res_bind (res_map str_item raw) (\<lambda>task_ids.
     res_bind (if dget p ''http_status'' = PNone then Inr None
               else res_bind (parse_int p ''http_status'' 0) (\<lambda>n. Inr (Some n))) (\<lambda>http_status.
     res_bind (parse_str va p ''interruption_cause'' []) (\<lambda>raw_cause.
     res_bind (parse_str va p ''final_text'' []) (\<lambda>final_text.
     res_bind (parse_str va p ''error'' []) (\<lambda>error.
     res_bind (parse_str va p ''error_code'' []) (\<lambda>error_code.
     res_bind (parse_bool va p ''has_external'' False) (\<lambda>has_external.
     res_bind (parse_bool va p ''retryable'' False) (\<lambda>retryable.
     res_bind (parse_bool va p ''config_recoverable'' False) (\<lambda>config_recoverable.
     res_bind (parse_str va p ''provider_error_code'' []) (\<lambda>provider_error_code.
     res_bind (parse_bool va p ''provider_retried'' False) (\<lambda>provider_retried.
     res_bind (parse_bool va p ''model_tool_calls_pending'' False) (\<lambda>pending.
     res_bind (if raw_cause = [] then Inr None
               else res_bind (InterruptionCause_of raw_cause) (\<lambda>c. Inr (Some c))) (\<lambda>cause.
     Inr \<lparr>su_reason = reason, su_status = status, su_final_text = final_text,
          su_error = error, su_error_code = error_code, su_awaiting_task_ids = task_ids,
          su_has_external = has_external, su_turn = None, su_retryable = retryable,
          su_http_status = http_status, su_config_recoverable = config_recoverable,
          su_provider_error_code = provider_error_code,
          su_provider_retried = provider_retried, su_model_tool_calls_pending = pending,
          su_interruption_cause = cause\<rparr>))))))))))))))))))"

section \<open>Laws\<close>

lemma cause_value_inj: "cause_value a = cause_value b \<longleftrightarrow> a = b"
  by (cases a; cases b) simp_all

lemma cause_value_ne_Nil [simp]: "cause_value c \<noteq> []"
  by (cases c) simp_all

lemma InterruptionCause_of_value [simp]: "InterruptionCause_of (cause_value c) = Inr c"
  by (cases c) (simp_all add: InterruptionCause_of_def all_causes_def)

lemma InterruptionCause_of_Inr: "InterruptionCause_of s = Inr c \<longleftrightarrow> s = cause_value c"
proof
  assume "InterruptionCause_of s = Inr c"
  then show "s = cause_value c"
    by (auto simp: InterruptionCause_of_def find_Some_iff split: option.splits)
qed simp

lemma parse_interruption_cause_Some:
  "parse_interruption_cause v = Some c \<longleftrightarrow> v = PStr (cause_value c)"
  by (auto simp: parse_interruption_cause_def InterruptionCause_of_Inr cause_value_inj
      cause_value_ne_Nil [symmetric] split: pyval.splits sum.splits)

lemma res_map_str_item [simp]: "res_map str_item (map PStr xs) = Inr xs"
  by (induction xs) auto

lemma suspension_payload_lookup:
  "map_of (suspension_checkpoint_payload s) ''reason'' = Some (PStr (su_reason s))"
  "map_of (suspension_checkpoint_payload s) ''status'' = Some (PStr (su_status s))"
  "map_of (suspension_checkpoint_payload s) ''final_text'' = Some (PStr (su_final_text s))"
  "map_of (suspension_checkpoint_payload s) ''error'' = Some (PStr (su_error s))"
  "map_of (suspension_checkpoint_payload s) ''error_code'' = Some (PStr (su_error_code s))"
  "map_of (suspension_checkpoint_payload s) ''awaiting_task_ids'' =
     Some (PList (map PStr (su_awaiting_task_ids s)))"
  "map_of (suspension_checkpoint_payload s) ''has_external'' = Some (PBool (su_has_external s))"
  "map_of (suspension_checkpoint_payload s) ''retryable'' = Some (PBool (su_retryable s))"
  "map_of (suspension_checkpoint_payload s) ''http_status'' =
     Some (case su_http_status s of None \<Rightarrow> PNone | Some n \<Rightarrow> PInt n)"
  "map_of (suspension_checkpoint_payload s) ''config_recoverable'' =
     Some (PBool (su_config_recoverable s))"
  "map_of (suspension_checkpoint_payload s) ''provider_error_code'' =
     Some (PStr (su_provider_error_code s))"
  "map_of (suspension_checkpoint_payload s) ''provider_retried'' =
     Some (PBool (su_provider_retried s))"
  "map_of (suspension_checkpoint_payload s) ''model_tool_calls_pending'' =
     Some (PBool (su_model_tool_calls_pending s))"
  "map_of (suspension_checkpoint_payload s) ''interruption_cause'' =
     Some (PStr (case su_interruption_cause s of None \<Rightarrow> [] | Some c \<Rightarrow> cause_value c))"
  by (simp_all add: suspension_checkpoint_payload_def)

lemma suspension_roundtrip:
  assumes "pydantic_strict va"
    and "su_reason s \<in> set SUSPENSION_REASONS"
    and "su_status s \<in> set SUSPENSION_CHECKPOINT_STATUSES"
  shows "suspension_from_checkpoint_payload va (suspension_checkpoint_payload s)
           = Inr (s\<lparr>su_turn := None\<rparr>)"
  using assms
  by (cases "su_http_status s"; cases "su_interruption_cause s")
     (simp_all add: suspension_from_checkpoint_payload_def suspension_payload_lookup
        parse_str_strict parse_bool_strict optional_list_def require_list_strict parse_int_def
        dget_def)

lemma suspension_from_payload_vocabulary:
  assumes "suspension_from_checkpoint_payload va p = Inr s"
  shows "su_reason s \<in> set SUSPENSION_REASONS"
    and "su_status s \<in> set SUSPENSION_CHECKPOINT_STATUSES"
    and "su_turn s = None"
  using assms by (auto simp: suspension_from_checkpoint_payload_def res_bind_eq_Inr)

end
