(* ===== verification/Lifecycle.thy ===== *)
theory Lifecycle
  imports Run_Results
begin

text \<open>
  The session lifecycle of \<open>core/lifecycle.py\<close>: the state machine, the projections of a park, of
  a run status and of a durable \<open>status.json\<close> onto it, and the \<open>LoopSession\<close> facade that owns the
  state and drives an agent loop.

  The facade's calls into the loop (\<open>open\<close>, \<open>submit\<close>, \<open>run_until_suspended\<close>, \<open>close\<close>) are
  arguments of the facade's operations: a function from the loop to the loop it leaves behind
  and the value it returned or the exception it raised. Every statement about the facade
  quantifies over all of them.
\<close>

section \<open>The state machine\<close>

datatype SessionState =
    CREATED | IDLE | RUNNING | AWAITING_INPUT | AWAITING_TASKS | PAUSED | INTERRUPTED
  | TURN_FAILED | LIMITED | CANCELLED | FAILED | COMPLETED

definition all_states :: "SessionState list" where
  "all_states = [CREATED, IDLE, RUNNING, AWAITING_INPUT, AWAITING_TASKS, PAUSED, INTERRUPTED,
     TURN_FAILED, LIMITED, CANCELLED, FAILED, COMPLETED]"

fun state_value :: "SessionState \<Rightarrow> string" where
  "state_value CREATED = ''created''"
| "state_value IDLE = ''idle''"
| "state_value RUNNING = ''running''"
| "state_value AWAITING_INPUT = ''awaiting_input''"
| "state_value AWAITING_TASKS = ''awaiting_tasks''"
| "state_value PAUSED = ''paused''"
| "state_value INTERRUPTED = ''interrupted''"
| "state_value TURN_FAILED = ''turn_failed''"
| "state_value LIMITED = ''limited''"
| "state_value CANCELLED = ''cancelled''"
| "state_value FAILED = ''failed''"
| "state_value COMPLETED = ''completed''"

definition REASON_TO_STATE :: "(string \<times> SessionState) list" where
  "REASON_TO_STATE = [
     (''settled'', AWAITING_INPUT), (''awaiting_tasks'', AWAITING_TASKS),
     (''limited'', LIMITED), (''paused'', PAUSED), (''interrupted'', INTERRUPTED),
     (''turn_failed'', TURN_FAILED)]"

definition terminal_outcome_state :: "string \<Rightarrow> string \<Rightarrow> SessionState" where
  "terminal_outcome_state status error_code =
     (if error_code = ''cancelled'' then CANCELLED
      else if status = ''limited'' then LIMITED
      else FAILED)"

definition state_from_suspension :: "suspension \<Rightarrow> SessionState res" where
  "state_from_suspension s =
     (if su_reason s = ''terminal'' then Inr (terminal_outcome_state (su_status s) (su_error_code s))
      else case map_of REASON_TO_STATE (su_reason s) of
        Some st \<Rightarrow> Inr st
      | None \<Rightarrow> Inl (NativeAgentError ''unmapped_suspension_reason''))"

definition LIVE_FINALIZE :: "SessionState list" where
  "LIVE_FINALIZE = [COMPLETED, FAILED, CANCELLED, LIMITED]"

fun LEGAL_TRANSITIONS :: "SessionState \<Rightarrow> SessionState list" where
  "LEGAL_TRANSITIONS CREATED = IDLE # LIVE_FINALIZE"
| "LEGAL_TRANSITIONS IDLE = RUNNING # LIVE_FINALIZE"
| "LEGAL_TRANSITIONS RUNNING =
     [AWAITING_INPUT, AWAITING_TASKS, PAUSED, INTERRUPTED, TURN_FAILED, LIMITED] @ LIVE_FINALIZE"
| "LEGAL_TRANSITIONS AWAITING_INPUT = RUNNING # LIVE_FINALIZE"
| "LEGAL_TRANSITIONS AWAITING_TASKS = RUNNING # LIVE_FINALIZE"
| "LEGAL_TRANSITIONS PAUSED = RUNNING # LIVE_FINALIZE"
| "LEGAL_TRANSITIONS INTERRUPTED = RUNNING # AWAITING_INPUT # LIVE_FINALIZE"
| "LEGAL_TRANSITIONS TURN_FAILED = RUNNING # LIVE_FINALIZE"
| "LEGAL_TRANSITIONS LIMITED = RUNNING # LIVE_FINALIZE"
| "LEGAL_TRANSITIONS CANCELLED = []"
| "LEGAL_TRANSITIONS FAILED = []"
| "LEGAL_TRANSITIONS COMPLETED = []"

definition TERMINAL_STATES :: "SessionState list" where
  "TERMINAL_STATES = [CANCELLED, FAILED, COMPLETED]"

definition STATUS_STRING_TO_STATE :: "(string \<times> SessionState) list" where
  "STATUS_STRING_TO_STATE = [
     (''queued'', CREATED), (''created'', CREATED), (''idle'', IDLE), (''running'', RUNNING),
     (''awaiting_input'', AWAITING_INPUT), (''awaiting_tasks'', AWAITING_TASKS),
     (''waiting_for_background_jobs'', AWAITING_TASKS), (''paused'', PAUSED),
     (''interrupted'', INTERRUPTED), (''turn_failed'', TURN_FAILED),
     (''completed'', COMPLETED), (''failed'', FAILED), (''limited'', LIMITED),
     (''cancelled'', CANCELLED)]"

text \<open>A status argument is a \<open>SessionState\<close> member or an arbitrary value.\<close>

definition session_state_value :: "SessionState + pyval \<Rightarrow> string res" where
  "session_state_value st = (case st of
      Inl m \<Rightarrow> Inr (state_value m)
    | Inr (PStr s) \<Rightarrow> (case find (\<lambda>m. state_value m = s) all_states of
          Some m \<Rightarrow> Inr (state_value m)
        | None \<Rightarrow> Inl (ValueError (s @ '' is not a valid SessionState'')))
    | Inr _ \<Rightarrow> Inl (ValueError ''session state must be a string''))"

definition session_state_from_run_status ::
    "SessionState + pyval \<Rightarrow> pyval \<Rightarrow> pyval \<Rightarrow> SessionState res" where
  "session_state_from_run_status status error_code terminal = (case status of
      Inl m \<Rightarrow> Inr m
    | Inr v \<Rightarrow> (case v of
        PStr s \<Rightarrow> (case error_code of
            PStr ec \<Rightarrow> (case terminal of
                PBool _ \<Rightarrow>
                  if ec = ''cancelled'' \<and> s \<in> {''limited'', ''failed''} then Inr CANCELLED
                  else (case map_of STATUS_STRING_TO_STATE s of
                      Some st \<Rightarrow> Inr st | None \<Rightarrow> Inr CREATED)
              | _ \<Rightarrow> Inl (ValueError ''run terminal must be a boolean''))
          | _ \<Rightarrow> Inl (ValueError ''run error_code must be a string''))
      | _ \<Rightarrow> Inl (ValueError ''run status must be a string'')))"

definition to_session_state :: "SessionState + pyval \<Rightarrow> pyval \<Rightarrow> SessionState res" where
  "to_session_state status error_code =
     session_state_from_run_status status error_code (PBool False)"

text \<open>\<open>None\<close> or an exact string, as the loop over the two text fields checks.\<close>

fun artifact_text :: "string \<Rightarrow> pyval \<Rightarrow> string res" where
  "artifact_text field PNone = Inr []"
| "artifact_text field (PStr s) = Inr s"
| "artifact_text field _ = Inl (ValueError (''status artifact '' @ field @ '' must be a string''))"

definition lifecycle_from_status_artifact ::
    "pydict option \<Rightarrow> bool \<Rightarrow> (SessionState \<times> bool) res" where
  "lifecycle_from_status_artifact payload failure_present =
    (let p = (case payload of None \<Rightarrow> [] | Some d \<Rightarrow> d) in
     res_bind (artifact_text ''state'' (dget p ''state'')) (\<lambda>state_text.
     res_bind (artifact_text ''status'' (dget p ''status'')) (\<lambda>status_text.
     let raw_state = (if state_text \<noteq> [] then state_text else status_text) in
     if raw_state \<noteq> [] then
       res_bind (case (case map_of p ''terminal'' of None \<Rightarrow> PBool False | Some v \<Rightarrow> v) of
           PBool b \<Rightarrow> Inr b
         | _ \<Rightarrow> Inl (ValueError ''status artifact terminal must be a boolean'')) (\<lambda>terminal.
       res_bind (case (case map_of p ''error_code'' of None \<Rightarrow> PStr [] | Some v \<Rightarrow> v) of
           PNone \<Rightarrow> Inr []
         | PStr s \<Rightarrow> Inr s
         | _ \<Rightarrow> Inl (ValueError ''status artifact error_code must be a string'')) (\<lambda>error_code.
       res_bind (session_state_from_run_status (Inr (PStr raw_state)) (PStr error_code)
           (PBool terminal)) (\<lambda>state.
       let terminal = (if \<not> dhas ''terminal'' p \<and>
             (state_text \<in> {''completed'', ''failed'', ''cancelled''} \<or>
              state_text = [] \<and>
                status_text \<in> {''completed'', ''failed'', ''limited'', ''cancelled''})
           then True else terminal) in
       if failure_present \<and> \<not> terminal then Inr (FAILED, True) else Inr (state, terminal))))
     else if failure_present then Inr (FAILED, True)
     else Inr (CREATED, False))))"

definition can_transition :: "SessionState \<Rightarrow> SessionState \<Rightarrow> bool" where
  "can_transition src dst \<longleftrightarrow> src = dst \<or> dst \<in> set (LEGAL_TRANSITIONS src)"

definition assert_transition :: "SessionState \<Rightarrow> SessionState \<Rightarrow> unit res" where
  "assert_transition src dst =
     guard (can_transition src dst) (NativeAgentError ''illegal_session_transition'')"

definition CAN_ACCEPT_INPUT :: "SessionState list" where
  "CAN_ACCEPT_INPUT = [IDLE, AWAITING_INPUT, INTERRUPTED, TURN_FAILED, LIMITED, PAUSED]"

section \<open>The session facade\<close>

text \<open>What the facade reads of the loop it wraps: the live session, the finalized flag, the
  cancellation token, the pause flag, the run id and the pending-task probe.\<close>

record loop_session =
  ss_terminal :: bool
  ss_status :: "string option"
  ss_error_code :: "string option"
  ss_last_suspension :: pyval
  ss_previous_turn_handle :: "string option"

record agent_loop =
  lp_session :: "loop_session option"
  lp_finalized :: bool
  lp_token_cancelled :: "bool option"
  lp_pause_requested :: bool
  lp_run_id :: string
  lp_has_pending_tasks :: bool

record loop_facade =
  lf_loop :: agent_loop
  lf_state :: SessionState
  lf_last_suspension :: "suspension option"
  lf_cancel_reason :: string

record session_inspection =
  si_state :: SessionState
  si_run_id :: string
  si_terminal :: bool
  si_pending_tasks :: bool
  si_awaiting_task_ids :: "string list"
  si_last_suspension_reason :: "string option"
  si_turn_handle :: "string option"

record session_health =
  sh_state :: SessionState
  sh_alive :: bool
  sh_can_accept_input :: bool
  sh_has_pending_tasks :: bool

text \<open>Returns the derived state, if any, and the facade with its park cache seeded.\<close>

definition derive_initial_state ::
    "validator \<Rightarrow> loop_facade \<Rightarrow> (SessionState option \<times> loop_facade) res" where
  "derive_initial_state va f = (case lp_session (lf_loop f) of
      None \<Rightarrow> Inr (None, f)
    | Some s \<Rightarrow>
        if ss_terminal s then
          Inr (Some (terminal_outcome_state
                 (case ss_status s of Some t \<Rightarrow> (if t = [] then ''failed'' else t) | None \<Rightarrow> ''failed'')
                 (case ss_error_code s of Some t \<Rightarrow> t | None \<Rightarrow> [])), f)
        else (case ss_last_suspension s of
            PDict park \<Rightarrow> res_bind (suspension_from_checkpoint_payload va park) (\<lambda>su.
              res_bind (state_from_suspension su) (\<lambda>st.
                Inr (Some st, f\<lparr>lf_last_suspension := Some su\<rparr>)))
          | _ \<Rightarrow> Inr (Some IDLE, f)))"

definition post_init :: "validator \<Rightarrow> loop_facade \<Rightarrow> loop_facade res" where
  "post_init va f =
     (if lf_state f = CREATED then
        res_bind (derive_initial_state va f) (\<lambda>(derived, f').
          case derived of Some st \<Rightarrow> Inr (f'\<lparr>lf_state := st\<rparr>) | None \<Rightarrow> Inr f')
      else Inr f)"

definition set_state :: "loop_facade \<Rightarrow> SessionState \<Rightarrow> loop_facade res" where
  "set_state f dst = res_bind (assert_transition (lf_state f) dst) (\<lambda>_. Inr (f\<lparr>lf_state := dst\<rparr>))"

definition derive_after_settle :: "loop_facade \<Rightarrow> turn_result \<Rightarrow> SessionState" where
  "derive_after_settle f turn =
     (if (case lp_session (lf_loop f) of Some s \<Rightarrow> ss_terminal s | None \<Rightarrow> False)
      then terminal_outcome_state (tr_status turn) (tr_error_code turn)
      else if tr_status turn = ''limited'' then LIMITED
      else AWAITING_INPUT)"

definition loop_is_dead :: "loop_facade \<Rightarrow> bool" where
  "loop_is_dead f = (case lp_session (lf_loop f) of
      None \<Rightarrow> lp_finalized (lf_loop f)
    | Some s \<Rightarrow> ss_terminal s)"

definition require_pumpable :: "loop_facade \<Rightarrow> unit res" where
  "require_pumpable f = (case lp_session (lf_loop f) of
      None \<Rightarrow> Inl (NativeAgentError ''run_not_open'')
    | Some s \<Rightarrow> if ss_terminal s then Inl (NativeAgentError ''run_terminal'') else Inr ())"

text \<open>An operation leaves a facade behind even when it raises, so it returns both. The local
  helper runs a facade update that may raise and keeps the old facade on an exception.\<close>

type_synonym 'a op = "loop_facade \<times> 'a res"
type_synonym 'a loop_call = "agent_loop \<Rightarrow> agent_loop \<times> 'a res"

definition try_set :: "loop_facade \<Rightarrow> SessionState \<Rightarrow> 'a \<Rightarrow> 'a op" where
  "try_set f dst r = (case set_state f dst of Inl e \<Rightarrow> (f, Inl e) | Inr f' \<Rightarrow> (f', Inr r))"

definition facade_open :: "unit loop_call \<Rightarrow> loop_facade \<Rightarrow> unit op" where
  "facade_open loop_open f = (case loop_open (lf_loop f) of
      (l, Inl e) \<Rightarrow> (f\<lparr>lf_loop := l\<rparr>, Inl e)
    | (l, Inr _) \<Rightarrow> try_set (f\<lparr>lf_loop := l\<rparr>)
        (case lp_session l of Some s \<Rightarrow> (if ss_terminal s then FAILED else IDLE) | None \<Rightarrow> IDLE) ())"

text \<open>\<open>loop.submit\<close> returns a turn, raises \<open>TurnNotSettled\<close> with the park it carries, or raises
  anything else.\<close>

datatype submit_outcome = Settled turn_result | NotSettled suspension

definition facade_submit :: "submit_outcome loop_call \<Rightarrow> loop_facade \<Rightarrow> submit_outcome op" where
  "facade_submit loop_submit f = (case require_pumpable f of
      Inl e \<Rightarrow> (f, Inl e)
    | Inr _ \<Rightarrow> (case set_state f RUNNING of
        Inl e \<Rightarrow> (f, Inl e)
      | Inr f1 \<Rightarrow> (case loop_submit (lf_loop f1) of
          (l, Inl e) \<Rightarrow> (f1\<lparr>lf_loop := l\<rparr>, Inl e)
        | (l, Inr (NotSettled su)) \<Rightarrow>
            (let f2 = f1\<lparr>lf_loop := l, lf_last_suspension := Some su\<rparr> in
             case state_from_suspension su of
               Inl e \<Rightarrow> (f2, Inl e)
             | Inr st \<Rightarrow> try_set f2 st (NotSettled su))
        | (l, Inr (Settled turn)) \<Rightarrow>
            (let f2 = f1\<lparr>lf_loop := l\<rparr> in
             try_set f2 (derive_after_settle f2 turn) (Settled turn)))))"

definition facade_run_until_suspended :: "suspension loop_call \<Rightarrow> loop_facade \<Rightarrow> suspension op" where
  "facade_run_until_suspended loop_run f = (case require_pumpable f of
      Inl e \<Rightarrow> (f, Inl e)
    | Inr _ \<Rightarrow> (case set_state f RUNNING of
        Inl e \<Rightarrow> (f, Inl e)
      | Inr f1 \<Rightarrow> (case loop_run (lf_loop f1) of
          (l, Inl e) \<Rightarrow> (f1\<lparr>lf_loop := l\<rparr>, Inl e)
        | (l, Inr su) \<Rightarrow>
            (let f2 = f1\<lparr>lf_loop := l, lf_last_suspension := Some su\<rparr> in
             case state_from_suspension su of
               Inl e \<Rightarrow> (f2, Inl e)
             | Inr st \<Rightarrow> try_set f2 st su))))"

text \<open>\<open>close\<close> reads the status and the error code of the run result.\<close>

definition facade_close :: "(string \<times> string) loop_call \<Rightarrow> loop_facade \<Rightarrow> (string \<times> string) op" where
  "facade_close loop_close f = (case loop_close (lf_loop f) of
      (l, Inl e) \<Rightarrow>
        (let f1 = f\<lparr>lf_loop := l\<rparr> in
         if loop_is_dead f1 \<and> can_transition (lf_state f1) FAILED
         then (case set_state f1 FAILED of Inl e' \<Rightarrow> (f1, Inl e') | Inr f2 \<Rightarrow> (f2, Inl e))
         else (f1, Inl e))
    | (l, Inr (status, error_code)) \<Rightarrow>
        (let f1 = f\<lparr>lf_loop := l\<rparr> in
         case session_state_from_run_status (Inr (PStr status)) (PStr error_code) (PBool True) of
           Inl e \<Rightarrow> (f1, Inl e)
         | Inr st \<Rightarrow> try_set f1 st (status, error_code)))"

definition facade_pause :: "loop_facade \<Rightarrow> loop_facade" where
  "facade_pause f = (if lf_state f \<in> set TERMINAL_STATES then f
     else f\<lparr>lf_loop := (lf_loop f)\<lparr>lp_pause_requested := True\<rparr>\<rparr>)"

definition facade_resume :: "suspension loop_call \<Rightarrow> loop_facade \<Rightarrow> suspension op" where
  "facade_resume loop_run f = facade_run_until_suspended loop_run f"

definition facade_cancel :: "string \<Rightarrow> loop_facade \<Rightarrow> loop_facade" where
  "facade_cancel reason f =
     f\<lparr>lf_cancel_reason := reason, lf_loop := (lf_loop f)\<lparr>lp_token_cancelled := Some True\<rparr>\<rparr>"

definition facade_inspect :: "loop_facade \<Rightarrow> session_inspection" where
  "facade_inspect f = (case lp_session (lf_loop f) of
      None \<Rightarrow> \<lparr>si_state = lf_state f, si_run_id = lp_run_id (lf_loop f),
               si_terminal = loop_is_dead f, si_pending_tasks = False,
               si_awaiting_task_ids = [], si_last_suspension_reason = None,
               si_turn_handle = None\<rparr>
    | Some s \<Rightarrow> \<lparr>si_state = lf_state f, si_run_id = lp_run_id (lf_loop f),
               si_terminal = ss_terminal s,
               si_pending_tasks = lp_has_pending_tasks (lf_loop f),
               si_awaiting_task_ids = (case lf_last_suspension f of
                   Some su \<Rightarrow> (if su_reason su = ''awaiting_tasks''
                               then su_awaiting_task_ids su else [])
                 | None \<Rightarrow> []),
               si_last_suspension_reason = map_option su_reason (lf_last_suspension f),
               si_turn_handle = ss_previous_turn_handle s\<rparr>)"

definition facade_health :: "loop_facade \<Rightarrow> session_health" where
  "facade_health f =
     (let dead = loop_is_dead f in
      \<lparr>sh_state = lf_state f, sh_alive = (\<not> dead),
       sh_can_accept_input = (\<not> dead \<and> lf_state f \<in> set CAN_ACCEPT_INPUT),
       sh_has_pending_tasks = (case lp_session (lf_loop f) of
           Some _ \<Rightarrow> lp_has_pending_tasks (lf_loop f) | None \<Rightarrow> False)\<rparr>)"

section \<open>Laws of the state machine\<close>

text \<open>A facade step: one of its operations with whatever the loop does in it, or a change of the
  loop alone (its worker thread, a control-plane call).\<close>

inductive facade_step :: "loop_facade \<Rightarrow> loop_facade \<Rightarrow> bool" where
  step_open: "facade_step f (fst (facade_open c f))"
| step_submit: "facade_step f (fst (facade_submit c f))"
| step_pump: "facade_step f (fst (facade_run_until_suspended c f))"
| step_close: "facade_step f (fst (facade_close c f))"
| step_pause: "facade_step f (facade_pause f)"
| step_cancel: "facade_step f (facade_cancel reason f)"
| step_loop: "facade_step f (f\<lparr>lf_loop := l\<rparr>)"

lemmas terminal_state_defs = TERMINAL_STATES_def LIVE_FINALIZE_def

lemma can_transition_refl [simp]: "can_transition s s"
  by (simp add: can_transition_def)

lemma terminal_no_exit: "src \<in> set TERMINAL_STATES \<Longrightarrow> can_transition src dst \<longleftrightarrow> dst = src"
  by (auto simp: can_transition_def TERMINAL_STATES_def)

text \<open>Every state that is not terminal may be finalized to each of the four outcomes.\<close>

lemma live_finalize:
  "src \<notin> set TERMINAL_STATES \<Longrightarrow> dst \<in> set LIVE_FINALIZE \<Longrightarrow> can_transition src dst"
  by (cases src) (auto simp: can_transition_def terminal_state_defs)

lemma terminal_outcome_state_finalize: "terminal_outcome_state st ec \<in> set LIVE_FINALIZE"
  by (simp add: terminal_outcome_state_def LIVE_FINALIZE_def)

lemma state_from_suspension_total:
  "su_reason s \<in> set SUSPENSION_REASONS \<Longrightarrow> \<exists>st. state_from_suspension s = Inr st"
  by (auto simp: SUSPENSION_REASONS_def state_from_suspension_def REASON_TO_STATE_def)

lemma state_from_suspension_legal:
  "state_from_suspension s = Inr st \<Longrightarrow> can_transition RUNNING st"
  by (auto simp: state_from_suspension_def REASON_TO_STATE_def can_transition_def
      LIVE_FINALIZE_def terminal_outcome_state_def split: if_splits)

lemma derive_after_settle_legal: "can_transition RUNNING (derive_after_settle f t)"
  by (simp add: derive_after_settle_def can_transition_def LIVE_FINALIZE_def
      terminal_outcome_state_def)

lemma set_state_Inr [simp]:
  "set_state f dst = Inr g \<longleftrightarrow> can_transition (lf_state f) dst \<and> g = f\<lparr>lf_state := dst\<rparr>"
  by (auto simp: set_state_def assert_transition_def res_bind_eq_Inr)

lemma set_state_eq:
  "set_state f dst = (if can_transition (lf_state f) dst then Inr (f\<lparr>lf_state := dst\<rparr>)
     else Inl (NativeAgentError ''illegal_session_transition''))"
  by (simp add: set_state_def assert_transition_def)

lemma try_set_eq:
  "try_set f dst r = (if can_transition (lf_state f) dst then (f\<lparr>lf_state := dst\<rparr>, Inr r)
     else (f, Inl (NativeAgentError ''illegal_session_transition'')))"
  by (simp add: try_set_def set_state_eq)

lemma try_set_state:
  "lf_state (fst (try_set f dst r)) =
     (if can_transition (lf_state f) dst then dst else lf_state f)"
  by (simp add: try_set_eq)

lemma try_set_can_transition: "can_transition (lf_state f) (lf_state (fst (try_set f dst r)))"
  by (simp add: try_set_state)

subsection \<open>Each operation moves along legal edges\<close>

lemma open_legal: "can_transition (lf_state f) (lf_state (fst (facade_open c f)))"
proof (cases "c (lf_loop f)")
  case (Pair l r)
  then show ?thesis
    using try_set_can_transition [of "f\<lparr>lf_loop := l\<rparr>"]
    by (cases r) (simp_all add: facade_open_def)
qed

lemma pumped_legal:
  "can_transition RUNNING (lf_state (fst
     (case state_from_suspension su of Inl e \<Rightarrow> (f, Inl e) | Inr st \<Rightarrow> try_set f st r)))"
  if "lf_state f = RUNNING"
  using that state_from_suspension_legal
  by (auto simp: try_set_state split: sum.splits)


text \<open>A pump either leaves the state alone or goes through \<open>RUNNING\<close>.\<close>

definition via_running :: "SessionState \<Rightarrow> SessionState \<Rightarrow> bool" where
  "via_running a b \<longleftrightarrow> b = a \<or> (can_transition a RUNNING \<and> can_transition RUNNING b)"

lemma run_via_running: "via_running (lf_state f) (lf_state (fst (facade_run_until_suspended c f)))"
proof (cases "require_pumpable f")
  case (Inr u)
  show ?thesis
  proof (cases "can_transition (lf_state f) RUNNING")
    case True
    obtain l r where lr: "c (lf_loop f) = (l, r)" by fastforce
    from True Inr lr show ?thesis
      by (cases r) (simp_all add: facade_run_until_suspended_def set_state_eq via_running_def
            Let_def pumped_legal)
  qed (simp add: facade_run_until_suspended_def set_state_eq via_running_def Inr)
qed (simp add: facade_run_until_suspended_def via_running_def)

lemma submit_via_running: "via_running (lf_state f) (lf_state (fst (facade_submit c f)))"
proof (cases "require_pumpable f")
  case (Inr u)
  show ?thesis
  proof (cases "can_transition (lf_state f) RUNNING")
    case True
    obtain l r where lr: "c (lf_loop f) = (l, r)" by fastforce
    show ?thesis
    proof (cases r)
      case (Inr x)
      with True lr \<open>require_pumpable f = Inr u\<close> show ?thesis
        by (cases x) (simp_all add: facade_submit_def set_state_eq via_running_def Let_def
              try_set_state derive_after_settle_legal pumped_legal)
    qed (use True lr Inr in \<open>simp add: facade_submit_def set_state_eq via_running_def\<close>)
  qed (simp add: facade_submit_def set_state_eq via_running_def Inr)
qed (simp add: facade_submit_def via_running_def)

lemma close_legal: "can_transition (lf_state f) (lf_state (fst (facade_close c f)))"
proof -
  obtain l r where lr: "c (lf_loop f) = (l, r)" by fastforce
  show ?thesis
  proof (cases r)
    case (Inl e)
    with lr show ?thesis by (simp add: facade_close_def set_state_eq Let_def)
  next
    case (Inr x)
    with lr show ?thesis
      by (cases x) (simp add: facade_close_def Let_def try_set_state split: sum.splits)
  qed
qed

lemma facade_step_legal: "facade_step f g \<Longrightarrow> can_transition\<^sup>*\<^sup>* (lf_state f) (lf_state g)"
proof (induction rule: facade_step.induct)
  case (step_submit f c)
  then show ?case using submit_via_running [of f c]
    by (auto simp: via_running_def intro: converse_rtranclp_into_rtranclp)
next
  case (step_pump f c)
  then show ?case using run_via_running [of f c]
    by (auto simp: via_running_def intro: converse_rtranclp_into_rtranclp)
qed (auto intro: open_legal close_legal simp: facade_pause_def facade_cancel_def)

lemma facade_steps_legal:
  "facade_step\<^sup>*\<^sup>* f g \<Longrightarrow> can_transition\<^sup>*\<^sup>* (lf_state f) (lf_state g)"
  by (induction rule: rtranclp_induct) (auto dest: facade_step_legal)

lemma terminal_absorbing:
  "can_transition\<^sup>*\<^sup>* a b \<Longrightarrow> a \<in> set TERMINAL_STATES \<Longrightarrow> b = a"
  by (induction rule: rtranclp_induct) (auto simp: terminal_no_exit)

text \<open>\<open>CREATED\<close> is left for good, and only through \<open>IDLE\<close> or an outcome.\<close>

lemma created_not_reentered: "can_transition a CREATED \<longleftrightarrow> a = CREATED"
  by (cases a) (auto simp: can_transition_def LIVE_FINALIZE_def)

section \<open>Laws of the projections\<close>

lemma state_value_inj: "state_value a = state_value b \<longleftrightarrow> a = b"
  by (cases a; cases b) simp_all

lemma session_state_value_roundtrip:
  "session_state_value (Inr (PStr (state_value st))) = Inr (state_value st)"
  by (cases st) (simp_all add: session_state_value_def all_states_def)

lemma session_state_from_value:
  "st \<noteq> CANCELLED \<longrightarrow> ec \<noteq> ''cancelled'' \<Longrightarrow>
   session_state_from_run_status (Inr (PStr (state_value st))) (PStr ec) (PBool t) = Inr st"
  by (cases st) (simp_all add: session_state_from_run_status_def STATUS_STRING_TO_STATE_def)

lemma run_status_finalize:
  "status \<in> set SUSPENSION_CHECKPOINT_STATUSES \<Longrightarrow>
   \<exists>st \<in> set LIVE_FINALIZE.
     session_state_from_run_status (Inr (PStr status)) (PStr ec) (PBool t) = Inr st"
  by (auto simp: SUSPENSION_CHECKPOINT_STATUSES_def session_state_from_run_status_def
      STATUS_STRING_TO_STATE_def LIVE_FINALIZE_def)

lemma session_state_from_run_status_str:
  "\<exists>st. session_state_from_run_status (Inr (PStr s)) (PStr ec) (PBool t) = Inr st"
  by (auto simp: session_state_from_run_status_def split: option.splits)

section \<open>Properties\<close>

text \<open>C17. Terminal states are absorbing: whatever sequence of facade operations runs, and
  whatever the loop returns or raises in each of them, a session whose state is cancelled,
  failed or completed keeps exactly that state.\<close>

theorem facade_terminal_absorbing:
  assumes "facade_step\<^sup>*\<^sup>* f g" and "lf_state f \<in> set TERMINAL_STATES"
  shows "lf_state g = lf_state f"
  using assms facade_steps_legal terminal_absorbing by blast

definition dead_facade :: loop_facade where
  "dead_facade = \<lparr>lf_loop = \<lparr>lp_session = None, lp_finalized = True, lp_token_cancelled = None,
      lp_pause_requested = False, lp_run_id = ''run-1'', lp_has_pending_tasks = False\<rparr>,
     lf_state = COMPLETED, lf_last_suspension = None, lf_cancel_reason = []\<rparr>"

theorem facade_terminal_absorbing_witness:
  "lf_state (facade_cancel ''late'' dead_facade) = COMPLETED"
proof -
  have "facade_step\<^sup>*\<^sup>* dead_facade (facade_cancel ''late'' dead_facade)"
    by (intro r_into_rtranclp step_cancel)
  moreover have "lf_state dead_facade \<in> set TERMINAL_STATES"
    by (simp add: dead_facade_def TERMINAL_STATES_def)
  ultimately have "lf_state (facade_cancel ''late'' dead_facade) = lf_state dead_facade"
    by (rule facade_terminal_absorbing)
  then show ?thesis by (simp add: dead_facade_def)
qed

text \<open>The facade only ever moves along edges of the transition table: a step keeps the
  state, takes one legal edge, or (a pump) takes a legal edge into running and a legal edge out
  of it.\<close>

theorem facade_step_along_legal_edges:
  assumes "facade_step f g"
  shows "can_transition (lf_state f) (lf_state g) \<or>
    (can_transition (lf_state f) RUNNING \<and> can_transition RUNNING (lf_state g))"
  using assms
proof (cases rule: facade_step.cases)
  case (step_submit c)
  then show ?thesis using submit_via_running [of f c] by (auto simp: via_running_def)
next
  case (step_pump c)
  then show ?thesis using run_via_running [of f c] by (auto simp: via_running_def)
qed (auto intro: open_legal close_legal simp: facade_pause_def facade_cancel_def)

theorem facade_step_along_legal_edges_witness:
  "can_transition (lf_state dead_facade) (lf_state (facade_pause dead_facade)) \<or>
    (can_transition (lf_state dead_facade) RUNNING \<and>
     can_transition RUNNING (lf_state (facade_pause dead_facade)))"
  by (rule facade_step_along_legal_edges [OF step_pause])

text \<open>A pump never wedges the facade: over an open, live session in a state that may run,
  when the loop returns a suspension of the documented vocabulary the pump returns it, the new
  state is the suspension's projection, and the park is cached.\<close>

theorem pump_lands_on_projection:
  assumes "lp_session (lf_loop f) = Some s" and "\<not> ss_terminal s"
    and "can_transition (lf_state f) RUNNING"
    and "c (lf_loop f) = (l, Inr su)" and "su_reason su \<in> set SUSPENSION_REASONS"
  shows "\<exists>st. state_from_suspension su = Inr st \<and> facade_run_until_suspended c f =
      (f\<lparr>lf_loop := l, lf_last_suspension := Some su, lf_state := st\<rparr>, Inr su)"
proof -
  obtain st where st: "state_from_suspension su = Inr st"
    using state_from_suspension_total [OF assms(5)] by blast
  have "facade_run_until_suspended c f =
      (f\<lparr>lf_loop := l, lf_last_suspension := Some su, lf_state := st\<rparr>, Inr su)"
    using assms st state_from_suspension_legal [OF st]
    by (simp add: facade_run_until_suspended_def require_pumpable_def set_state_eq try_set_eq)
  with st show ?thesis by blast
qed

definition live_facade :: loop_facade where
  "live_facade = \<lparr>lf_loop = \<lparr>lp_session = Some \<lparr>ss_terminal = False, ss_status = None,
        ss_error_code = None, ss_last_suspension = PNone, ss_previous_turn_handle = None\<rparr>,
      lp_finalized = False, lp_token_cancelled = None,
      lp_pause_requested = False, lp_run_id = ''run-1'', lp_has_pending_tasks = False\<rparr>,
     lf_state = IDLE, lf_last_suspension = None, lf_cancel_reason = []\<rparr>"

definition sample_park :: suspension where
  "sample_park = \<lparr>su_reason = ''awaiting_tasks'', su_status = ''completed'', su_final_text = [],
     su_error = [], su_error_code = [], su_awaiting_task_ids = [''task-1''],
     su_has_external = True, su_turn = None, su_retryable = False, su_http_status = None,
     su_config_recoverable = False, su_provider_error_code = [], su_provider_retried = False,
     su_model_tool_calls_pending = False, su_interruption_cause = None\<rparr>"

theorem pump_lands_on_projection_witness:
  "lf_state (fst (facade_run_until_suspended (\<lambda>l. (l, Inr sample_park)) live_facade))
     = AWAITING_TASKS"
proof -
  have "\<exists>st. state_from_suspension sample_park = Inr st \<and>
    facade_run_until_suspended (\<lambda>l. (l, Inr sample_park)) live_facade =
      (live_facade\<lparr>lf_loop := lf_loop live_facade, lf_last_suspension := Some sample_park,
         lf_state := st\<rparr>, Inr sample_park)"
    by (rule pump_lands_on_projection [of live_facade])
       (auto simp: live_facade_def sample_park_def can_transition_def SUSPENSION_REASONS_def)
  then show ?thesis
    by (auto simp: state_from_suspension_def sample_park_def REASON_TO_STATE_def)
qed

text \<open>The blocking and the pump half agree on a dead run: when the loop ends with a terminal
  session, a settled turn and a terminal suspension of the same status and error code leave the
  facade in the same state.\<close>

theorem submit_pump_agree_on_terminal:
  assumes "lp_session (lf_loop f) = Some s" and "\<not> ss_terminal s"
    and "can_transition (lf_state f) RUNNING"
    and "lp_session l = Some s'" and "ss_terminal s'"
    and "su_reason su = ''terminal''"
    and "su_status su = tr_status t" and "su_error_code su = tr_error_code t"
  shows "lf_state (fst (facade_submit (\<lambda>_. (l, Inr (Settled t))) f)) =
         lf_state (fst (facade_run_until_suspended (\<lambda>_. (l, Inr su)) f))"
proof -
  have "can_transition RUNNING (terminal_outcome_state (tr_status t) (tr_error_code t))"
    using live_finalize [of RUNNING] terminal_outcome_state_finalize
    by (simp add: TERMINAL_STATES_def)
  with assms show ?thesis
    by (simp add: facade_submit_def facade_run_until_suspended_def require_pumpable_def
        set_state_eq try_set_eq derive_after_settle_def state_from_suspension_def Let_def)
qed

definition sample_turn :: turn_result where
  "sample_turn = \<lparr>tr_status = ''limited'', tr_final_text = [], tr_proposal_path = [],
     tr_proposal_hash = [], tr_changed_paths = [], tr_turn_handle = None, tr_error = [],
     tr_error_code = ''cancelled'', tr_final_output = PNone, tr_outputs = [], tr_metrics = [],
     tr_interruption_cause = None\<rparr>"

definition dead_loop :: agent_loop where
  "dead_loop = (lf_loop live_facade)\<lparr>lp_session := Some \<lparr>ss_terminal = True, ss_status = None,
        ss_error_code = None, ss_last_suspension = PNone, ss_previous_turn_handle = None\<rparr>\<rparr>"

theorem submit_pump_agree_on_terminal_witness:
  "lf_state (fst (facade_submit (\<lambda>_. (dead_loop, Inr (Settled sample_turn))) live_facade)) =
   lf_state (fst (facade_run_until_suspended (\<lambda>_. (dead_loop, Inr (sample_park\<lparr>
     su_reason := ''terminal'', su_status := ''limited'', su_error_code := ''cancelled''\<rparr>)))
     live_facade))"
  by (rule submit_pump_agree_on_terminal)
     (auto simp: live_facade_def dead_loop_def sample_turn_def sample_park_def can_transition_def)

text \<open>The two projections of a facade never contradict each other: a session that can accept
  input is alive, and \<open>inspect\<close> reports terminal exactly when \<open>health\<close> reports not alive.\<close>

theorem health_inspect_consistent:
  "(sh_can_accept_input (facade_health f) \<longrightarrow> sh_alive (facade_health f)) \<and>
   si_terminal (facade_inspect f) = (\<not> sh_alive (facade_health f)) \<and>
   si_state (facade_inspect f) = sh_state (facade_health f) \<and>
   si_pending_tasks (facade_inspect f) = sh_has_pending_tasks (facade_health f)"
  by (simp add: facade_health_def facade_inspect_def loop_is_dead_def Let_def split: option.split)

theorem health_inspect_consistent_witness:
  "sh_can_accept_input (facade_health live_facade) \<and> sh_alive (facade_health live_facade)"
  using health_inspect_consistent [of live_facade]
  by (simp add: facade_health_def live_facade_def loop_is_dead_def CAN_ACCEPT_INPUT_def Let_def)

text \<open>Restore continues where the run parked: a fresh facade over a restored, live loop whose
  session carries the durable observation of a park is in the state the pump was in after that
  park, and reports the same reason and the same awaited tasks.\<close>

theorem restore_seeds_last_park:
  assumes "pydantic_strict va"
    and "su_reason su \<in> set SUSPENSION_REASONS"
    and "su_status su \<in> set SUSPENSION_CHECKPOINT_STATUSES"
    and "lf_state f = CREATED" and "lp_session (lf_loop f) = Some s" and "\<not> ss_terminal s"
    and "ss_last_suspension s = PDict (suspension_checkpoint_payload su)"
  shows "\<exists>st g. state_from_suspension su = Inr st \<and> post_init va f = Inr g \<and> lf_state g = st \<and>
      si_last_suspension_reason (facade_inspect g) = Some (su_reason su) \<and>
      si_awaiting_task_ids (facade_inspect g) =
        (if su_reason su = ''awaiting_tasks'' then su_awaiting_task_ids su else [])"
proof -
  obtain st where st: "state_from_suspension su = Inr st"
    using state_from_suspension_total [OF assms(2)] by blast
  then have st': "state_from_suspension (su\<lparr>su_turn := None\<rparr>) = Inr st"
    by (simp add: state_from_suspension_def split: if_splits)
  let ?g = "f\<lparr>lf_last_suspension := Some (su\<lparr>su_turn := None\<rparr>), lf_state := st\<rparr>"
  have "post_init va f = Inr ?g"
    using assms st' suspension_roundtrip [OF assms(1-3)]
    by (simp add: post_init_def derive_initial_state_def)
  with st assms(5) show ?thesis by (intro exI [of _ st] exI [of _ ?g]) (simp add: facade_inspect_def)
qed

definition parked_facade :: loop_facade where
  "parked_facade = live_facade\<lparr>lf_state := CREATED, lf_loop := (lf_loop live_facade)
     \<lparr>lp_session := Some \<lparr>ss_terminal = False, ss_status = None, ss_error_code = None,
        ss_last_suspension = PDict (suspension_checkpoint_payload sample_park),
        ss_previous_turn_handle = None\<rparr>\<rparr>\<rparr>"

theorem restore_seeds_last_park_witness:
  "\<exists>g. post_init strict_validator parked_facade = Inr g \<and> lf_state g = AWAITING_TASKS \<and>
     si_awaiting_task_ids (facade_inspect g) = [''task-1'']"
proof -
  have "state_from_suspension sample_park = Inr AWAITING_TASKS"
    by (simp add: state_from_suspension_def sample_park_def REASON_TO_STATE_def)
  then show ?thesis
    using restore_seeds_last_park [OF strict_validator_strict, of sample_park parked_facade
        "the (lp_session (lf_loop parked_facade))"]
    by (auto simp: sample_park_def SUSPENSION_REASONS_def SUSPENSION_CHECKPOINT_STATUSES_def
          parked_facade_def)
qed

text \<open>A failure bundle beside a status artifact outranks every non-terminal reading and only
  those: it turns a parked or an absent artifact into a dead, failed run, leaves a terminal
  artifact as it is, and does not change which artifacts are refused.\<close>

theorem failure_bundle_outranks_parked:
  "lifecycle_from_status_artifact p True = (case lifecycle_from_status_artifact p False of
      Inl e \<Rightarrow> Inl e
    | Inr (st, terminal) \<Rightarrow> if terminal then Inr (st, True) else Inr (FAILED, True))"
proof -
  have b: "res_bind m f = (case res_bind m g of Inl e \<Rightarrow> Inl e
      | Inr (st, terminal) \<Rightarrow> if terminal then Inr (st, True) else Inr (FAILED, True))"
    if "\<And>x. m = Inr x \<Longrightarrow> f x = (case g x of Inl e \<Rightarrow> Inl e
      | Inr (st, terminal) \<Rightarrow> if terminal then Inr (st, True) else Inr (FAILED, True))"
    for m :: "'a res" and f g
    using that by (cases m) auto
  show ?thesis
    unfolding lifecycle_from_status_artifact_def Let_def
    by (intro b) (auto intro!: b)
qed

text \<open>A status artifact as current writers produce it (state and terminal flag, no
  cancellation code) reads back as exactly the lifecycle it was written from.\<close>

theorem status_artifact_roundtrip:
  "lifecycle_from_status_artifact
     (Some [(''state'', PStr (state_value st)), (''terminal'', PBool t)]) False = Inr (st, t)"
  using session_state_from_value [of st "[]" t]
  by (cases st) (simp_all add: lifecycle_from_status_artifact_def dget_def)

end
