(* ===== verification/Event_Sequencing.thy ===== *)
theory Event_Sequencing
  imports Event_Log Lifecycle
begin

text \<open>
  Paging through the event log and the ownership of its sequence numbers
  (\<open>core/event_sequencing.py\<close>): the page reader on the records of the log, the decisions of
  \<open>RunEventSequencer\<close> on the state of a run, the bounded window and the projection of the
  diagnostics interface. A client that follows \<open>next_seq\<close> reads every event once, in order.
\<close>

section \<open>Pages\<close>

record event_page =
  pg_events :: "pydict list"
  pg_next_seq :: int
  pg_has_more :: bool

text \<open>The loop over the records: \<open>acc\<close> is \<open>events\<close>, \<open>nxt\<close> is \<open>next_seq\<close>.\<close>

fun page_loop ::
    "int \<Rightarrow> int option \<Rightarrow> pydict list \<Rightarrow> int \<Rightarrow> event_record list \<Rightarrow> log_error option \<Rightarrow>
     log_error + event_page" where
  "page_loop from_seq limit acc nxt [] stop = (case stop of
      None \<Rightarrow> Inr \<lparr>pg_events = acc, pg_next_seq = nxt, pg_has_more = False\<rparr>
    | Some e \<Rightarrow> Inl e)"
| "page_loop from_seq limit acc nxt (r # rs) stop =
    (if er_seq r < from_seq then page_loop from_seq limit acc nxt rs stop
     else if (case limit of None \<Rightarrow> False | Some l \<Rightarrow> l \<le> int (length acc))
       then Inr \<lparr>pg_events = acc, pg_next_seq = nxt, pg_has_more = True\<rparr>
     else page_loop from_seq limit (acc @ [er_payload r]) (er_seq r + 1) rs stop)"

definition read_event_page ::
    "(bytes \<Rightarrow> string) \<Rightarrow> (nat list \<Rightarrow> pyval option) \<Rightarrow> log_file option \<Rightarrow> int \<Rightarrow> int option \<Rightarrow>
     log_error + event_page" where
  "read_event_page sha loads path from_seq limit =
    (if from_seq < 0 then Inl (BadArgument ''from_seq must be non-negative'')
     else if (case limit of None \<Rightarrow> False | Some l \<Rightarrow> l < 1)
       then Inl (BadArgument ''limit must be positive'')
     else (case iter_committed_event_records sha loads path 0 None of
        (rs, stop) \<Rightarrow> page_loop from_seq limit [] from_seq rs stop))"

text \<open>A client that asks for page after page until \<open>has_more\<close> is false; \<open>None\<close> when the fuel ends
  first.\<close>

fun read_pages ::
    "nat \<Rightarrow> (int \<Rightarrow> log_error + event_page) \<Rightarrow> int \<Rightarrow> (log_error + pydict list) option" where
  "read_pages 0 page from_seq = None"
| "read_pages (Suc n) page from_seq = (case page from_seq of
      Inl e \<Rightarrow> Some (Inl e)
    | Inr p \<Rightarrow> if pg_has_more p
        then map_option (\<lambda>r. res_bind r (\<lambda>rest. Inr (pg_events p @ rest)))
               (read_pages n page (pg_next_seq p))
        else Some (Inr (pg_events p)))"

section \<open>Diagnostics\<close>

definition DEFAULT_DIAGNOSTIC_EVENT_DATA_KEYS :: "string list" where
  "DEFAULT_DIAGNOSTIC_EVENT_DATA_KEYS = [''actor'', ''attempts'', ''binding_id'', ''call_id'',
     ''capability'', ''child_run_id'', ''command'', ''command_id'', ''error'', ''error_code'',
     ''failure_code'', ''idempotency_key'', ''job_id'', ''reason'', ''request_id'', ''result_code'',
     ''run_id'', ''state'', ''status'', ''target_run_id'', ''task_id'', ''tool'', ''traceparent'']"

text \<open>The key set is written in the order \<open>sorted\<close> gives it.\<close>

definition diagnostic_event_summary :: "pydict \<Rightarrow> pydict" where
  "diagnostic_event_summary event =
    (let data = (case dget event ''data'' of PDict d \<Rightarrow> d | _ \<Rightarrow> []) in
     [(''seq'', dget event ''seq''), (''type'', dget event ''type''),
      (''timestamp'', dget event ''timestamp''), (''level'', dget event ''level''),
      (''turn_id'', dget event ''turn_id''), (''parent_id'', dget event ''parent_id''),
      (''data'', PDict (map (\<lambda>k. (k, dget data k))
         (filter (\<lambda>k. dhas k data) DEFAULT_DIAGNOSTIC_EVENT_DATA_KEYS)))])"

text \<open>\<open>int(status.get("last_event_seq") or 0)\<close>, with the builtin \<open>int\<close> as an argument.\<close>

definition status_sequence :: "(pyval \<Rightarrow> int res) \<Rightarrow> pydict \<Rightarrow> int res" where
  "status_sequence to_int status = (let v = dget status ''last_event_seq'' in
     if py_truthy v then to_int v else Inr 0)"

definition newest_sequence :: "(pyval \<Rightarrow> int res) \<Rightarrow> pydict \<Rightarrow> pydict option \<Rightarrow> int res" where
  "newest_sequence to_int status status_file =
    res_bind (status_sequence to_int status) (\<lambda>a.
    res_bind (status_sequence to_int (case status_file of None \<Rightarrow> [] | Some d \<Rightarrow> d)) (\<lambda>b.
    Inr (max a b)))"

definition diagnostics_from_seq ::
    "(pyval \<Rightarrow> int res) \<Rightarrow> pydict \<Rightarrow> pydict option \<Rightarrow> int \<Rightarrow> int res" where
  "diagnostics_from_seq to_int status status_file event_limit =
    (if event_limit < 1 then Inl (ValueError ''event_limit must be positive'')
     else res_bind (newest_sequence to_int status status_file) (\<lambda>last_event_seq.
       Inr (if last_event_seq \<noteq> 0 then max 0 (last_event_seq - event_limit + 1) else 0)))"

section \<open>Sequence ownership\<close>

definition is_queued_before_recorder :: "SessionState + pyval \<Rightarrow> bool res" where
  "is_queued_before_recorder state =
    res_bind (session_state_from_run_status state (PStr []) (PBool False)) (\<lambda>s. Inr (s = CREATED))"

definition is_terminal_direct_append_status :: "SessionState + pyval \<Rightarrow> bool \<Rightarrow> bool res" where
  "is_terminal_direct_append_status state terminal =
    res_bind (session_state_from_run_status state (PStr []) (PBool terminal)) (\<lambda>s.
    Inr (terminal \<or> s \<in> set TERMINAL_STATES))"

definition requires_live_sequence_owner :: "SessionState + pyval \<Rightarrow> bool \<Rightarrow> bool res" where
  "requires_live_sequence_owner state terminal =
    res_bind (is_queued_before_recorder state) (\<lambda>queued.
      if queued then Inr False
      else res_bind (is_terminal_direct_append_status state terminal) (\<lambda>direct. Inr (\<not> direct)))"

text \<open>\<open>payload\<close> is what \<open>_read_optional_json\<close> made of \<open>status.json\<close>.\<close>

definition run_dir_allows_direct_append :: "pydict option \<Rightarrow> bool res" where
  "run_dir_allows_direct_append payload = (case payload of
      None \<Rightarrow> Inr False
    | Some p \<Rightarrow> res_bind (lifecycle_from_status_artifact (Some p) False) (\<lambda>(state, terminal).
        is_terminal_direct_append_status (Inl state) terminal))"

section \<open>Lemmas\<close>

abbreviation from_on :: "int \<Rightarrow> event_record list \<Rightarrow> event_record list" where
  "from_on s rs \<equiv> filter (\<lambda>r. s \<le> er_seq r) rs"

text \<open>A page is a prefix of the records from \<open>from_seq\<close> on.\<close>

lemma page_loop_unlimited:
  "page_loop s None acc nxt rs None =
     Inr \<lparr>pg_events = acc @ map er_payload (from_on s rs),
       pg_next_seq = (if from_on s rs = [] then nxt else er_seq (last (from_on s rs)) + 1),
       pg_has_more = False\<rparr>"
  by (induction rs arbitrary: acc nxt) (auto simp: not_less)

lemma page_loop_limited:
  "int (length acc) \<le> l \<Longrightarrow> page_loop s (Some l) acc nxt rs None =
     (let F = from_on s rs; m = nat l - length acc in
      Inr \<lparr>pg_events = acc @ map er_payload (take m F),
        pg_next_seq = (if take m F = [] then nxt else er_seq (last (take m F)) + 1),
        pg_has_more = (m < length F)\<rparr>)"
proof (induction rs arbitrary: acc nxt)
  case (Cons r rs)
  show ?case
  proof (cases "er_seq r < s")
    case True with Cons show ?thesis by (simp add: Let_def)
  next
    case False
    show ?thesis
    proof (cases "l \<le> int (length acc)")
      case True with False Cons.prems show ?thesis by (simp add: Let_def)
    next
      case l: False
      obtain m where m: "nat l - length acc = Suc m" using l Cons.prems
        by (metis Suc_diff_Suc nat_int not_le zless_nat_conj zless_nat_eq_int_zless)
      have m': "nat l - length (acc @ [er_payload r]) = m" using m by simp
      have "int (length (acc @ [er_payload r])) \<le> l" using l by simp
      from Cons.IH [OF this, of "er_seq r + 1"] show ?thesis
        using False l unfolding m m' by (simp add: Let_def not_less)
    qed
  qed
qed (simp add: Let_def)

lemma from_on_sorted:
  assumes "sorted_wrt (<) (map er_seq rs)"
  shows "sorted_wrt (<) (map er_seq (from_on s rs))"
  using assms by (simp add: sorted_wrt_filter sorted_wrt_map)

text \<open>Behind a page that is not the last, the rest of the log is what comes from \<open>next_seq\<close> on.\<close>

lemma from_on_next:
  assumes "sorted_wrt (<) (map er_seq F)" "0 < m" "m < length F"
  shows "from_on (er_seq (last (take m F)) + 1) F = drop m F"
proof -
  obtain k where k: "m = Suc k" using assms(2) by (cases m) auto
  then have l: "last (take m F) = F ! k" using assms(3) by (simp add: take_Suc_conv_app_nth)
  have lt: "i < j \<Longrightarrow> j < length F \<Longrightarrow> er_seq (F ! i) < er_seq (F ! j)" for i j
    using assms(1) by (simp add: sorted_wrt_iff_nth_less)
  have "from_on (er_seq (F ! k) + 1) (take m F) = []"
  proof -
    have "er_seq r < er_seq (F ! k) + 1" if "r \<in> set (take m F)" for r
    proof -
      from that obtain i where "i < m" "r = F ! i" using assms(3) by (auto simp: in_set_conv_nth)
      then show ?thesis using lt [of i k] k assms(3) by (cases "i = k") auto
    qed
    then show ?thesis by (fastforce simp: filter_empty_conv)
  qed
  moreover have "from_on (er_seq (F ! k) + 1) (drop m F) = drop m F"
  proof (rule filter_True, rule ballI)
    fix r assume "r \<in> set (drop m F)"
    then obtain i where "i < length F - m" "r = F ! (m + i)" by (auto simp: in_set_conv_nth)
    moreover from this k have "er_seq (F ! k) < er_seq (F ! (m + i))" by (intro lt) auto
    ultimately show "er_seq (F ! k) + 1 \<le> er_seq r" by simp
  qed
  ultimately show ?thesis unfolding l
    by (metis append_Nil append_take_drop_id filter_append)
qed

lemma last_take_in_set: "0 < m \<Longrightarrow> xs \<noteq> [] \<Longrightarrow> last (take m xs) \<in> set xs"
  using last_in_set [of "take m xs"] in_set_takeD by fastforce

lemma from_on_from_on: "s \<le> t \<Longrightarrow> from_on t (from_on s rs) = from_on t rs"
  by (induction rs) auto

lemma read_event_page_limited:
  assumes "iter_committed_event_records sha loads path 0 None = (evs, None)" "1 \<le> l" "0 \<le> s"
  shows "read_event_page sha loads path s (Some l) =
     Inr \<lparr>pg_events = map er_payload (take (nat l) (from_on s evs)),
       pg_next_seq = (if from_on s evs = [] then s else er_seq (last (take (nat l) (from_on s evs))) + 1),
       pg_has_more = (nat l < length (from_on s evs))\<rparr>"
  using assms page_loop_limited [of "[]" l s s evs]
  by (simp add: read_event_page_def Let_def)

lemma read_pages_complete:
  assumes it: "iter_committed_event_records sha loads path 0 None = (evs, None)"
    and so: "sorted_wrt (<) (map er_seq evs)" and l: "1 \<le> l"
  shows "0 \<le> s \<Longrightarrow> length (from_on s evs) < n \<Longrightarrow>
    read_pages n (\<lambda>t. read_event_page sha loads path t (Some l)) s =
      Some (Inr (map er_payload (from_on s evs)))"
proof (induction n arbitrary: s)
  case (Suc n)
  let ?F = "from_on s evs" and ?m = "nat l"
  note page = read_event_page_limited [OF it l Suc.prems(1)]
  show ?case
  proof (cases "?m < length ?F")
    case False
    then show ?thesis using page by simp
  next
    case True
    define t where "t = er_seq (last (take ?m ?F)) + 1"
    have m: "0 < ?m" using l by simp
    have ne: "?F \<noteq> []" using True by auto
    have "last (take ?m ?F) \<in> set ?F" by (rule last_take_in_set [OF m ne])
    then have "s \<le> er_seq (last (take ?m ?F))" by simp
    then have st: "s \<le> t" "0 \<le> t" using Suc.prems(1) by (simp_all add: t_def)
    have rest: "from_on t evs = drop ?m ?F"
      using from_on_next [OF from_on_sorted [OF so, of s] m True] from_on_from_on [OF st(1), of evs]
      by (simp add: t_def)
    have "length (from_on t evs) < n" using rest Suc.prems(2) m True by simp
    from Suc.IH [OF st(2) this] have IH: "read_pages n (\<lambda>t. read_event_page sha loads path t (Some l)) t =
        Some (Inr (map er_payload (drop ?m ?F)))" using rest by simp
    have "map er_payload (take ?m ?F) @ map er_payload (drop ?m ?F) = map er_payload ?F"
      by (metis append_take_drop_id map_append)
    with page True ne IH show ?thesis by (simp add: t_def [symmetric])
  qed
qed simp

lemma seqs_positive:
  "iter_committed_event_records sha loads path 0 None = (evs, None) \<Longrightarrow> \<forall>r \<in> set evs. 0 < er_seq r"
  by (rule decoded_seqs_positive) (simp only: iter_events_content)

lemma distinct_int_window:
  assumes "sorted_wrt (<) xs" "set xs \<subseteq> {a .. b::int}" "a \<le> b + 1"
  shows "int (length xs) \<le> b - a + 1"
proof -
  have "distinct xs" using assms(1) by (simp add: strict_sorted_iff)
  then have "length xs = card (set xs)" by (simp add: distinct_card)
  also have "\<dots> \<le> card {a .. b}" by (rule card_mono) (use assms in auto)
  finally show ?thesis using assms(3) by simp
qed

section \<open>Properties of paging\<close>

text \<open>C20. A client that follows \<open>next_seq\<close> with any positive limit reads every committed event exactly
  once, in order, and finishes: on a log of increasing numbers the pages concatenate to the whole log,
  one request more than there are events is enough, no page is longer than its limit, and
  \<open>has_more\<close> says precisely whether events remain behind the page.\<close>

theorem paging_reads_every_event_once:
  assumes "iter_committed_event_records sha loads path 0 None = (evs, None)"
    and "sorted_wrt (<) (map er_seq evs)" and "1 \<le> limit"
  shows "read_pages (length evs + 1) (\<lambda>s. read_event_page sha loads path s (Some limit)) 0 =
      Some (Inr (map er_payload evs)) \<and>
    (\<forall>s \<ge> 0. \<exists>p. read_event_page sha loads path s (Some limit) = Inr p \<and>
      int (length (pg_events p)) \<le> limit \<and>
      pg_events p @ map er_payload (filter (\<lambda>r. pg_next_seq p \<le> er_seq r) evs) =
        map er_payload (filter (\<lambda>r. s \<le> er_seq r) evs) \<and>
      pg_has_more p = (\<exists>r \<in> set evs. pg_next_seq p \<le> er_seq r))"
proof (intro conjI allI impI)
  have "from_on 0 evs = evs" using seqs_positive [OF assms(1)] by (auto simp: filter_id_conv)
  then show "read_pages (length evs + 1) (\<lambda>s. read_event_page sha loads path s (Some limit)) 0 =
      Some (Inr (map er_payload evs))"
    using read_pages_complete [OF assms, of 0 "length evs + 1"] by simp
next
  fix s :: int assume s: "0 \<le> s"
  let ?F = "from_on s evs" and ?m = "nat limit"
  define t where "t = (if ?F = [] then s else er_seq (last (take ?m ?F)) + 1)"
  have page: "read_event_page sha loads path s (Some limit) =
      Inr \<lparr>pg_events = map er_payload (take ?m ?F), pg_next_seq = t, pg_has_more = (?m < length ?F)\<rparr>"
    unfolding t_def by (rule read_event_page_limited [OF assms(1,3) s])
  have rest: "from_on t evs = drop ?m ?F"
  proof (cases "?F = []")
    case True then show ?thesis by (simp add: t_def)
  next
    case ne: False
    have m: "0 < ?m" using assms(3) by simp
    have "last (take ?m ?F) \<in> set ?F" by (rule last_take_in_set [OF m ne])
    then have st: "s \<le> t" using ne by (auto simp: t_def)
    note ff = from_on_from_on [OF st, of evs]
    show ?thesis
    proof (cases "?m < length ?F")
      case True
      then show ?thesis
        using from_on_next [OF from_on_sorted [OF assms(2), of s] m True] ff ne by (simp add: t_def)
    next
      case False
      have "er_seq r \<le> er_seq (last ?F)" if "r \<in> set ?F" for r
        using from_on_sorted [OF assms(2), of s] that ne
        by (cases ?F rule: rev_cases) (auto simp: sorted_wrt_append)
      then have "from_on t ?F = []" using False ne by (fastforce simp: t_def filter_empty_conv)
      with False ff show ?thesis by simp
    qed
  qed
  have "(\<exists>r \<in> set evs. t \<le> er_seq r) \<longleftrightarrow> from_on t evs \<noteq> []" by (auto simp: filter_empty_conv)
  then have more: "(?m < length ?F) = (\<exists>r \<in> set evs. t \<le> er_seq r)"
    using rest by (simp add: not_le)
  have "map er_payload (take ?m ?F) @ map er_payload (from_on t evs) = map er_payload ?F"
    unfolding rest by (metis append_take_drop_id map_append)
  with page more assms(3) show "\<exists>p. read_event_page sha loads path s (Some limit) = Inr p \<and>
      int (length (pg_events p)) \<le> limit \<and>
      pg_events p @ map er_payload (filter (\<lambda>r. pg_next_seq p \<le> er_seq r) evs) = map er_payload ?F \<and>
      pg_has_more p = (\<exists>r \<in> set evs. pg_next_seq p \<le> er_seq r)" by auto
qed

text \<open>Pages of one event of the log with one event and a torn line.\<close>

theorem paging_reads_every_event_once_witness:
  "read_pages 2 (\<lambda>s. read_event_page (\<lambda>b. b) demo_loads (Some demo_file) s (Some 1)) 0 =
     Some (Inr [event_to_json (demo_event 1)])"
  using paging_reads_every_event_once [OF demo_reads, of 1]
  by (simp add: demo_record_def numeral_2_eq_2)

text \<open>The diagnostics window is bounded and reaches the newest event: with a status that reports the
  last committed number, the events from the computed start on are at most \<open>event_limit\<close>, and the last
  event of the log is among them.\<close>

theorem diagnostic_window_bounded:
  assumes "iter_committed_event_records sha loads path 0 None = (evs, None)"
    and "sorted_wrt (<) (map er_seq evs)"
    and "diagnostics_from_seq to_int status status_file event_limit = Inr s"
    and "newest_sequence to_int status status_file = Inr (last_seq_of evs)"
  shows "int (length (filter (\<lambda>r. s \<le> er_seq r) evs)) \<le> event_limit \<and>
    (evs \<noteq> [] \<longrightarrow> last evs \<in> set (filter (\<lambda>r. s \<le> er_seq r) evs))"
proof (rule conjI)
  have lim: "1 \<le> event_limit"
    using assms(3) by (simp add: diagnostics_from_seq_def split: if_splits)
  have s: "s = (if last_seq_of evs \<noteq> 0 then max 0 (last_seq_of evs - event_limit + 1) else 0)"
    using assms(3,4) lim by (simp add: diagnostics_from_seq_def)
  have pos: "\<forall>r \<in> set evs. 0 < er_seq r" by (rule seqs_positive [OF assms(1)])
  have top: "er_seq r \<le> last_seq_of evs" if "r \<in> set evs" for r
    using assms(2) that by (cases evs rule: rev_cases) (auto simp: last_seq_of_def sorted_wrt_append)
  show "int (length (from_on s evs)) \<le> event_limit"
  proof (cases "evs = []")
    case False
    then have l: "0 < last_seq_of evs" using pos by (simp add: last_seq_of_def)
    define a where "a = max 1 s"
    have "a \<le> last_seq_of evs + 1" using l lim s by (simp add: a_def)
    moreover have "set (map er_seq (from_on s evs)) \<subseteq> {a .. last_seq_of evs}"
      using pos top by (force simp: a_def)
    ultimately have "int (length (map er_seq (from_on s evs))) \<le> last_seq_of evs - a + 1"
      using distinct_int_window [OF from_on_sorted [OF assms(2), of s]] by blast
    then show ?thesis using l s by (simp add: a_def)
  qed (use lim in simp)
  show "evs \<noteq> [] \<longrightarrow> last evs \<in> set (from_on s evs)"
  proof
    assume ne: "evs \<noteq> []"
    then show "last evs \<in> set (from_on s evs)"
      using s lim bspec [OF pos last_in_set [OF ne]] by (auto simp: last_seq_of_def)
  qed
qed

theorem diagnostic_window_bounded_witness:
  "int (length (filter (\<lambda>r. 1 \<le> er_seq r) [demo_record])) \<le> 1 \<and>
   diagnostics_from_seq (\<lambda>v. Inr 1) [(''last_event_seq'', PInt 1)] None 1 = Inr 1"
proof -
  have d: "diagnostics_from_seq (\<lambda>v. Inr 1) [(''last_event_seq'', PInt 1)] None 1 = Inr 1"
    and n: "newest_sequence (\<lambda>v. Inr 1) [(''last_event_seq'', PInt 1)] None =
      Inr (last_seq_of [demo_record])"
    by (simp_all add: diagnostics_from_seq_def newest_sequence_def status_sequence_def dget_def
        last_seq_of_def demo_record_def Let_def)
  have "sorted_wrt (<) (map er_seq [demo_record])" by simp
  from diagnostic_window_bounded [OF demo_reads this d n] d show ?thesis by simp
qed

text \<open>Sequence ownership: a status that needs the live recorder is neither queued nor open to direct
  appends, and every readable status has an owner.\<close>

lemma sequence_owner_total:
  assumes "is_terminal_direct_append_status st terminal = Inr direct"
    and "is_queued_before_recorder st = Inr queued"
  shows "requires_live_sequence_owner st terminal = Inr (\<not> queued \<and> \<not> direct)"
  using assms by (simp add: requires_live_sequence_owner_def)

lemma live_states_need_owner:
  "requires_live_sequence_owner (Inl s) False = Inr (s \<noteq> CREATED \<and> s \<notin> set TERMINAL_STATES)"
  by (simp add: requires_live_sequence_owner_def is_queued_before_recorder_def
      is_terminal_direct_append_status_def session_state_from_run_status_def)

lemma summary_data_keys:
  "dget (diagnostic_event_summary event) ''data'' = PDict d \<Longrightarrow> (k, v) \<in> set d \<Longrightarrow>
     k \<in> set DEFAULT_DIAGNOSTIC_EVENT_DATA_KEYS \<and>
     (\<exists>data. dget event ''data'' = PDict data \<and> map_of data k = Some v)"
  by (auto simp: diagnostic_event_summary_def Let_def dget_def map_of_eq_None_iff
      split: pyval.splits option.splits) (force simp: map_of_eq_None_iff)+

end
