(* ===== verification/Scope.thy ===== *)
theory Scope
  imports Wire_Validation
begin

text \<open>
  The scope relation of \<open>core/scope.py\<close>, the domain patterns of \<open>web.py\<close> it is built on, and
  lease admission (\<open>core/lease_admission.py\<close>): when a granted or requested scope is no broader
  than an outer one, and how a signed scope is applied as the ceiling of a payload.

  Scopes are JSON objects. A numeric key set is a list in the order the code iterates it. The
  parameter \<open>rp\<close> is the textual form of floats and containers (\<open>str_of\<close>).
\<close>

section \<open>Domain patterns\<close>

definition domain_matches :: "string \<Rightarrow> string \<Rightarrow> bool" where
  "domain_matches domain pattern =
     (let p = str_strip (str_lower pattern) in
      if p = ''*'' then True
      else if str_startswith p ''*.'' then
        (let suffix = drop 2 p in domain = suffix \<or> str_endswith domain (''.'' @ suffix))
      else domain = p)"

definition strip_dots :: "string \<Rightarrow> string" where
  "strip_dots s = strip_by (\<lambda>c. c = CHR ''.'') s"

definition domain_allowed :: "string \<Rightarrow> string list \<Rightarrow> string list \<Rightarrow> bool" where
  "domain_allowed domain allowed_domains blocked_domains =
     (let normalized = strip_dots (str_lower domain) in
      if normalized = [] then False
      else if list_ex (domain_matches normalized) blocked_domains then False
      else if allowed_domains \<noteq> [] \<and> \<not> list_ex (domain_matches normalized) allowed_domains
      then False
      else True)"

definition domain_pattern_within :: "string \<Rightarrow> string \<Rightarrow> bool" where
  "domain_pattern_within pattern0 signed0 =
     (let pattern = str_strip (str_lower pattern0); signed = str_strip (str_lower signed0) in
      if signed = ''*'' then True
      else if pattern = ''*'' then False
      else if pattern = signed then True
      else if str_startswith pattern ''*.'' then
        (let suffix = strip_dots (drop 2 pattern) in
         suffix \<noteq> [] \<and> str_startswith signed ''*.'' \<and> domain_matches suffix signed)
      else domain_matches pattern signed)"

section \<open>The scope relation\<close>

definition DEFAULT_NUMERIC_SCOPE_CAP_KEYS :: "string list" where
  "DEFAULT_NUMERIC_SCOPE_CAP_KEYS = [''max_calls'', ''max_results'', ''max_bytes'', ''timeout_s'',
     ''max_tokens'', ''max_urls'', ''max_snippets'']"

fun elements :: "pyval \<Rightarrow> pyval list option" where
  "elements (PList xs) = Some xs"
| "elements (PTuple xs) = Some xs"
| "elements _ = None"

definition is_sequence :: "pyval \<Rightarrow> bool" where
  "is_sequence v = (elements v \<noteq> None)"

text \<open>Of strings already extracted: \<open>strip().lower()\<close>, dropping the empty ones.\<close>

definition domain_strings :: "string list \<Rightarrow> string list" where
  "domain_strings xs = map (\<lambda>s. str_lower (str_strip s)) (filter (\<lambda>s. str_strip s \<noteq> []) xs)"

definition domain_tuple :: "(pyval \<Rightarrow> string) \<Rightarrow> pyval \<Rightarrow> string list res" where
  "domain_tuple rp v = (case elements v of
      None \<Rightarrow> Inl (ScopePolicyError ''domains'' ''invalid'')
    | Some xs \<Rightarrow> Inr (domain_strings (map (str_of rp) xs)))"

definition string_tuple :: "(pyval \<Rightarrow> string) \<Rightarrow> pyval list \<Rightarrow> string list" where
  "string_tuple rp xs = filter (\<lambda>s. s \<noteq> []) (map (\<lambda>v. str_strip (str_of rp v)) xs)"

definition domain_patterns_within :: "string list \<Rightarrow> string list \<Rightarrow> bool" where
  "domain_patterns_within requested signed =
     (let signed_patterns = domain_strings signed in
      if ''*'' \<in> set signed_patterns then True
      else list_all (\<lambda>p. list_ex (domain_pattern_within p) signed_patterns)
             (domain_strings requested))"

definition numeric_cap_within :: "pyval \<Rightarrow> pyval \<Rightarrow> bool" where
  "numeric_cap_within iv ov =
     (let num = (\<lambda>v. case v of PInt _ \<Rightarrow> to_float v | PFloat _ \<Rightarrow> to_float v
                    | _ \<Rightarrow> Inl (TypeError [])) in
      case (num iv, num ov) of
        (Inr a, Inr b) \<Rightarrow> is_finite_float a \<and> is_finite_float b \<and> flt_le a b
      | _ \<Rightarrow> False)"

text \<open>\<open>set(xs) <= set(ys)\<close>, which raises for an unhashable element.\<close>

definition set_within :: "pyval list \<Rightarrow> pyval list \<Rightarrow> bool res" where
  "set_within xs ys =
     (if list_all py_hashable xs \<and> list_all py_hashable ys
      then Inr (list_all (\<lambda>x. list_ex (py_eq x) ys) xs)
      else Inl (TypeError ''unhashable type''))"

text \<open>One iteration of the loop of \<open>scope_within\<close>, for a key both scopes have. Scopes reach it
  normalised as JSON, so the third sequence type of the source, a Python set, does not occur.\<close>

definition value_within ::
    "(pyval \<Rightarrow> string) \<Rightarrow> string list \<Rightarrow> string \<Rightarrow> pyval \<Rightarrow> pyval \<Rightarrow> bool res" where
  "value_within rp numeric_keys key iv ov =
     (case (elements iv, elements ov) of
        (Some xs, Some ys) \<Rightarrow>
          if key = ''allowed_domains''
          then Inr (domain_patterns_within (string_tuple rp xs) (string_tuple rp ys))
          else set_within xs ys
      | _ \<Rightarrow>
          if key \<in> set numeric_keys \<and> numeric_cap_within iv ov then Inr True
          else Inr (py_eq iv ov))"

fun scope_within_loop ::
    "(pyval \<Rightarrow> string) \<Rightarrow> string list \<Rightarrow> pydict \<Rightarrow> pydict \<Rightarrow> bool res" where
  "scope_within_loop rp nk [] outer = Inr True"
| "scope_within_loop rp nk ((key, iv) # rest) outer =
     (case map_of outer key of
        None \<Rightarrow> scope_within_loop rp nk rest outer
      | Some ov \<Rightarrow> res_bind (value_within rp nk key iv ov) (\<lambda>ok.
          if ok then scope_within_loop rp nk rest outer else Inr False))"

definition scope_within ::
    "(pyval \<Rightarrow> string) \<Rightarrow> string list \<Rightarrow> pydict \<Rightarrow> pydict \<Rightarrow> bool res" where
  "scope_within rp numeric_keys inner outer = scope_within_loop rp numeric_keys inner outer"

section \<open>Signed scopes\<close>

definition apply_binding_id :: "(pyval \<Rightarrow> string) \<Rightarrow> pydict \<Rightarrow> pydict \<Rightarrow> pydict res" where
  "apply_binding_id rp scope payload =
     (let signed = str_strip (dget_str rp scope ''binding_id'') in
      if signed = [] then Inr payload
      else let requested = str_strip (dget_str rp payload ''binding_id'') in
        if requested \<noteq> [] \<and> requested \<noteq> signed
        then Inl (ScopePolicyError ''binding_id'' ''exceeds'')
        else Inr (AList.update ''binding_id'' (PStr signed) payload))"

text \<open>\<open>_domain_tuple(d.get(key) or ())\<close>.\<close>

definition domains_at :: "(pyval \<Rightarrow> string) \<Rightarrow> pydict \<Rightarrow> string \<Rightarrow> string list res" where
  "domains_at rp d key = (let v = dget d key in
     if py_truthy v then domain_tuple rp v else Inr [])"

definition apply_allowed_domains :: "(pyval \<Rightarrow> string) \<Rightarrow> pydict \<Rightarrow> pydict \<Rightarrow> pydict res" where
  "apply_allowed_domains rp scope payload =
     (if \<not> dhas ''allowed_domains'' scope then Inr payload
      else res_bind (domains_at rp scope ''allowed_domains'') (\<lambda>signed.
        res_bind (domains_at rp payload ''allowed_domains'') (\<lambda>requested.
        if signed \<noteq> [] \<and> requested \<noteq> [] \<and> \<not> domain_patterns_within requested signed
        then Inl (ScopePolicyError ''allowed_domains'' ''exceeds'')
        else if signed \<noteq> []
        then Inr (AList.update ''allowed_domains''
               (PList (map PStr (if requested \<noteq> [] then requested else signed))) payload)
        else Inr payload)))"

text \<open>\<open>list(dict.fromkeys(xs))\<close>: the first occurrence of every element.\<close>

fun dedupe :: "'a list \<Rightarrow> 'a list" where
  "dedupe [] = []"
| "dedupe (x # xs) = x # filter (\<lambda>y. y \<noteq> x) (dedupe xs)"

definition apply_blocked_domains :: "(pyval \<Rightarrow> string) \<Rightarrow> pydict \<Rightarrow> pydict \<Rightarrow> pydict res" where
  "apply_blocked_domains rp scope payload =
     (if \<not> dhas ''blocked_domains'' scope then Inr payload
      else res_bind (domains_at rp scope ''blocked_domains'') (\<lambda>signed.
        res_bind (domains_at rp payload ''blocked_domains'') (\<lambda>requested.
        Inr (AList.update ''blocked_domains''
              (PList (map PStr (dedupe (signed @ requested)))) payload))))"

definition positive_number :: "pyval \<Rightarrow> string \<Rightarrow> string \<Rightarrow> rat res" where
  "positive_number v key reason = (case v of
      PInt _ \<Rightarrow> (case to_float v of
          Inr (Fin r) \<Rightarrow> if r \<le> 0 then Inl (ScopePolicyError key reason) else Inr r
        | _ \<Rightarrow> Inl (ScopePolicyError key reason))
    | PFloat (Fin r) \<Rightarrow> if r \<le> 0 then Inl (ScopePolicyError key reason) else Inr r
    | _ \<Rightarrow> Inl (ScopePolicyError key reason))"

definition json_number :: "rat \<Rightarrow> pyval" where
  "json_number r = (if of_int \<lfloor>r\<rfloor> = r then PInt \<lfloor>r\<rfloor> else PFloat (Fin r))"

definition apply_numeric_cap :: "pydict \<Rightarrow> pydict \<Rightarrow> string \<Rightarrow> pydict res" where
  "apply_numeric_cap scope payload key =
     (if dget scope key = PNone then Inr payload
      else res_bind (positive_number (dget scope key) key ''signed_not_positive'') (\<lambda>signed.
        if dget payload key = PNone then Inr (AList.update key (json_number signed) payload)
        else res_bind (positive_number (dget payload key) key ''request_not_positive'')
          (\<lambda>requested. if signed < requested then Inl (ScopePolicyError key ''exceeds'')
             else Inr payload)))"

fun apply_numeric_caps :: "pydict \<Rightarrow> pydict \<Rightarrow> string list \<Rightarrow> pydict res" where
  "apply_numeric_caps scope payload [] = Inr payload"
| "apply_numeric_caps scope payload (k # ks) =
     res_bind (apply_numeric_cap scope payload k) (\<lambda>p. apply_numeric_caps scope p ks)"

definition effective_signed_scope ::
    "(pyval \<Rightarrow> string) \<Rightarrow> string list \<Rightarrow> pydict \<Rightarrow> pydict \<Rightarrow> pydict res" where
  "effective_signed_scope rp numeric_keys scope payload =
     res_bind (apply_binding_id rp scope payload) (\<lambda>p1.
     res_bind (apply_allowed_domains rp scope p1) (\<lambda>p2.
     res_bind (apply_blocked_domains rp scope p2) (\<lambda>p3.
     apply_numeric_caps scope p3 numeric_keys)))"

section \<open>Lease admission\<close>

definition validate_lease_admission ::
    "(pyval \<Rightarrow> string) \<Rightarrow> string \<Rightarrow> pydict \<Rightarrow> string \<Rightarrow> pydict \<Rightarrow> unit res" where
  "validate_lease_admission rp request_capability request_scope lease_capability lease_scope =
     (if lease_capability \<noteq> request_capability
      then Inl (LeaseAdmissionError ''capability_mismatch'')
      else res_bind (scope_within rp DEFAULT_NUMERIC_SCOPE_CAP_KEYS lease_scope request_scope)
        (\<lambda>ok. guard ok (LeaseAdmissionError ''scope_widened'')))"

definition sanitize_denied_capability_result ::
    "(pyval \<Rightarrow> string) \<Rightarrow> pydict \<Rightarrow> string \<Rightarrow> string \<Rightarrow> pydict" where
  "sanitize_denied_capability_result rp result reason answer =
     (let d1 = AList.update ''answer'' (PStr answer) result;
          d2 = AList.update ''approved'' (PBool False) d1;
          d3 = AList.update ''granted'' (PBool False) d2;
          d4 = AList.delete ''token_ref'' (AList.delete ''lease'' d3)
      in AList.update ''reason'' (PStr (if reason \<noteq> [] then reason
           else (let r = dget d4 ''reason'' in if py_truthy r then str_of rp r else ''denied''))) d4)"

section \<open>Laws of domain patterns\<close>

abbreviation pattern_norm :: "string \<Rightarrow> string" where
  "pattern_norm s \<equiv> str_strip (str_lower s)"

lemma pattern_norm_idem [simp]: "pattern_norm (pattern_norm s) = pattern_norm s"
  by (simp add: str_strip_lower)

lemma domain_matches_norm [simp]: "domain_matches d (pattern_norm p) = domain_matches d p"
  unfolding domain_matches_def by simp

lemma domain_strings_norm: "x \<in> set (domain_strings xs) \<longleftrightarrow>
    x \<noteq> [] \<and> (\<exists>y \<in> set xs. x = pattern_norm y)"
  by (auto simp: domain_strings_def str_strip_lower)

lemma domain_strings_idem [simp]: "domain_strings (domain_strings xs) = domain_strings xs"
proof -
  have n: "pattern_norm x = x" and ne: "x \<noteq> []" if "x \<in> set (domain_strings xs)" for x
    using that by (auto simp: domain_strings_norm)
  have strip: "str_strip x = x" if "x \<in> set (domain_strings xs)" for x
    using n [OF that] by (metis str_strip_idem)
  show ?thesis
    unfolding domain_strings_def [of "domain_strings xs"]
    using n ne strip by (auto intro!: map_idI simp: filter_id_conv str_strip_lower)
qed

lemma strip_dots_last: "strip_dots s \<noteq> [] \<Longrightarrow> last (strip_dots s) \<noteq> CHR ''.''"
  unfolding strip_dots_def using strip_by_last [of "\<lambda>c. c = CHR ''.''" s] by simp

lemma star_dot_iff: "str_startswith p ''*.'' \<longleftrightarrow> p = ''*.'' @ drop 2 p"
  by (auto simp: str_startswith_iff)

text \<open>A host name whose last character is not a dot, as \<open>domain_allowed\<close> passes it.\<close>

definition undotted :: "string \<Rightarrow> bool" where
  "undotted d \<longleftrightarrow> d \<noteq> [] \<and> last d \<noteq> CHR ''.''"

lemma strip_dots_undotted: "strip_dots s \<noteq> [] \<Longrightarrow> undotted (strip_dots s)"
  by (simp add: undotted_def strip_dots_last)

text \<open>The shape of \<open>domain_matches\<close> against a wildcard.\<close>

lemma domain_matches_wild:
  "pattern_norm p = ''*.'' @ x \<Longrightarrow>
     domain_matches d p \<longleftrightarrow> d = x \<or> (\<exists>t. d = t @ ''.'' @ x)"
  unfolding domain_matches_def by (simp add: str_endswith_iff Let_def)

lemma domain_matches_plain:
  "pattern_norm p \<noteq> ''*'' \<Longrightarrow> \<not> str_startswith (pattern_norm p) ''*.'' \<Longrightarrow>
     domain_matches d p \<longleftrightarrow> d = pattern_norm p"
  unfolding domain_matches_def by (simp add: Let_def)

lemma all_dots_snoc: "a \<noteq> [] \<Longrightarrow> \<forall>c \<in> set a. c = CHR ''.'' \<Longrightarrow> \<exists>a'. a = a' @ ''.''"
  by (metis append_butlast_last_id last_in_set)

lemma undotted_append_dots:
  "undotted (u @ x @ b) \<Longrightarrow> \<forall>c \<in> set b. c = CHR ''.'' \<Longrightarrow> b = []"
  by (cases b rule: rev_cases) (auto simp: undotted_def)

lemma domain_pattern_within_sound:
  assumes within: "domain_pattern_within p s" and d: "undotted d" and m: "domain_matches d p"
  shows "domain_matches d s"
proof -
  let ?P = "pattern_norm p" and ?S = "pattern_norm s"
  consider "?S = ''*''" | "?P = ?S" | "?S \<noteq> ''*''" "?P \<noteq> ''*''" "?P \<noteq> ?S"
    using within by (auto simp: domain_pattern_within_def Let_def split: if_splits)
  then show ?thesis
  proof cases
    case 1
    then show ?thesis by (simp add: domain_matches_def Let_def)
  next
    case 2
    with m show ?thesis by (metis domain_matches_norm)
  next
    case 3
    show ?thesis
    proof (cases "str_startswith ?P ''*.''")
      case False
      with 3 within have "domain_matches ?P s"
        by (simp add: domain_pattern_within_def Let_def)
      moreover from 3 False m have "d = ?P" by (simp add: domain_matches_plain)
      ultimately show ?thesis by simp
    next
      case True
      define x where "x = strip_dots (drop 2 ?P)"
      from 3 True within have x: "x \<noteq> []" and S: "str_startswith ?S ''*.''"
        and xS: "domain_matches x s"
        by (auto simp: domain_pattern_within_def x_def Let_def)
      obtain a b where ab: "drop 2 ?P = a @ x @ b" "\<forall>c \<in> set a. c = CHR ''.''"
          "\<forall>c \<in> set b. c = CHR ''.''"
        using strip_by_decomp [of "drop 2 ?P" "\<lambda>c. c = CHR ''.''"]
        unfolding x_def strip_dots_def by blast
      from True have P: "?P = ''*.'' @ a @ x @ b" using ab(1) star_dot_iff by metis
      from m domain_matches_wild [OF P] obtain t where
        t: "d = t @ a @ x @ b" "t = [] \<or> (\<exists>t'. t = t' @ ''.'')" by auto
      from d t(1) ab(3) have "b = []" using undotted_append_dots [of "t @ a" x b] by simp
      with t have "d = (t @ a) @ x" by simp
      moreover have "t @ a = [] \<or> (\<exists>u. t @ a = u @ ''.'')"
        using t(2) all_dots_snoc [OF _ ab(2)] by (cases "a = []") auto
      ultimately have dx: "d = x \<or> (\<exists>u. d = u @ ''.'' @ x)" by auto
      from S have S': "?S = ''*.'' @ drop 2 ?S" using star_dot_iff by metis
      from xS have "x = drop 2 ?S \<or> (\<exists>v. x = v @ ''.'' @ drop 2 ?S)"
        by (simp add: domain_matches_wild [OF S'])
      with dx show ?thesis
        unfolding domain_matches_wild [OF S'] by (metis append.assoc)
    qed
  qed
qed

lemma domain_patterns_within_sound:
  assumes "domain_patterns_within requested signed" and "undotted d"
    and "r \<in> set requested" and "domain_matches d r"
  shows "\<exists>s \<in> set signed. domain_matches d s"
proof (cases "''*'' \<in> set (domain_strings signed)")
  case True
  then obtain s where "s \<in> set signed" "pattern_norm s = ''*''"
    by (auto simp: domain_strings_norm)
  then show ?thesis by (auto simp: domain_matches_def Let_def intro!: bexI [of _ s])
next
  case False
  have "pattern_norm r \<noteq> []"
    using assms(2,4) by (auto simp: domain_matches_def undotted_def Let_def)
  with assms(3) have "pattern_norm r \<in> set (domain_strings requested)"
    by (auto simp: domain_strings_norm)
  with False assms(1) obtain s where s: "s \<in> set (domain_strings signed)"
      "domain_pattern_within (pattern_norm r) s"
    by (auto simp: domain_patterns_within_def list_all_iff list_ex_iff Let_def)
  have "domain_matches d s"
    using s(2) assms(2,4) domain_pattern_within_sound [of "pattern_norm r" s d] by simp
  moreover from s(1) obtain s0 where "s0 \<in> set signed" "s = pattern_norm s0"
    by (auto simp: domain_strings_norm)
  ultimately show ?thesis by auto
qed

section \<open>Laws of the scope relation\<close>

lemma scope_within_True:
  "scope_within rp nk inner outer = Inr True \<longleftrightarrow>
     (\<forall>(k, iv) \<in> set inner. \<forall>ov. map_of outer k = Some ov \<longrightarrow>
        value_within rp nk k iv ov = Inr True)"
  unfolding scope_within_def
  by (induction rp nk inner outer rule: scope_within_loop.induct)
     (auto simp: res_bind_eq_Inr split: option.splits)

lemma scope_within_error: "scope_within rp nk inner outer = Inl e \<Longrightarrow> e = TypeError ''unhashable type''"
  unfolding scope_within_def
  by (induction rp nk inner outer rule: scope_within_loop.induct)
     (auto simp: res_bind_def value_within_def set_within_def split: option.splits sum.splits if_splits)

lemma validate_lease_admission_ok:
  "is_ok (validate_lease_admission rp rc rs lc ls) \<longleftrightarrow>
     lc = rc \<and> scope_within rp DEFAULT_NUMERIC_SCOPE_CAP_KEYS ls rs = Inr True"
  by (auto simp: validate_lease_admission_def is_ok_iff res_bind_eq_Inr)

text \<open>What it means that a scope narrows another, apart from how the code compares them: for every key
  both set, the hosts a list of patterns reaches are reached by the other list, the members of a list
  are members of the other, a number of a cap is at most the other (as doubles), and anything else is equal.\<close>

definition number_at_most :: "pyval \<Rightarrow> pyval \<Rightarrow> bool" where
  "number_at_most v w \<longleftrightarrow> (\<exists>a b. to_float v = Inr (Fin a) \<and> to_float w = Inr (Fin b) \<and> a \<le> b)"

definition value_narrows :: "string \<Rightarrow> pyval \<Rightarrow> pyval \<Rightarrow> bool" where
  "value_narrows k v w \<longleftrightarrow>
     (\<forall>ps qs. k = ''allowed_domains'' \<and> elements v = Some (map PStr ps) \<and> elements w = Some (map PStr qs) \<longrightarrow>
        (\<forall>d. undotted d \<and> (\<exists>p \<in> set ps. domain_matches d p) \<longrightarrow> (\<exists>q \<in> set qs. domain_matches d q))) \<and>
     (\<forall>xs ys. k \<noteq> ''allowed_domains'' \<and> elements v = Some xs \<and> elements w = Some ys \<longrightarrow>
        (\<forall>x \<in> set xs. \<exists>y \<in> set ys. py_eq x y)) \<and>
     (elements v = None \<or> elements w = None \<longrightarrow>
        py_eq v w \<or> k \<in> set DEFAULT_NUMERIC_SCOPE_CAP_KEYS \<and> number_at_most v w)"

definition narrows :: "pydict \<Rightarrow> pydict \<Rightarrow> bool" where
  "narrows inner outer \<longleftrightarrow>
     (\<forall>k v w. (k, v) \<in> set inner \<and> map_of outer k = Some w \<longrightarrow> value_narrows k v w)"

lemma string_tuple_strings:
  "string_tuple rp (map PStr ps) = filter (\<lambda>s. s \<noteq> []) (map str_strip ps)"
  by (simp add: string_tuple_def comp_def)

lemma domain_matches_strip: "domain_matches d (str_strip p) = domain_matches d p"
proof -
  have "pattern_norm (str_strip p) = pattern_norm p" by (simp add: str_strip_lower)
  then show ?thesis by (simp only: domain_matches_def)
qed

lemma domain_values_narrow:
  assumes "domain_patterns_within (string_tuple rp (map PStr ps)) (string_tuple rp (map PStr qs))"
    and "undotted d" and "p \<in> set ps" and "domain_matches d p"
  shows "\<exists>q \<in> set qs. domain_matches d q"
proof -
  have "\<not> domain_matches d []" using assms(2) by (simp add: domain_matches_def undotted_def str_startswith_iff str_strip_def strip_by_def str_lower_def Let_def)
  then have "str_strip p \<noteq> []" using assms(4) domain_matches_strip [of d p] by metis
  then have "str_strip p \<in> set (string_tuple rp (map PStr ps))" using assms(3) by (auto simp: string_tuple_strings)
  from domain_patterns_within_sound [OF assms(1,2) this] assms(4)
  obtain q where "q \<in> set (string_tuple rp (map PStr qs))" "domain_matches d q" by (auto simp: domain_matches_strip)
  then show ?thesis by (auto simp: string_tuple_strings domain_matches_strip)
qed

lemma numeric_cap_number: "numeric_cap_within v w \<Longrightarrow> number_at_most v w"
  by (auto simp: numeric_cap_within_def number_at_most_def Let_def split: sum.splits pyval.splits
      elim!: is_finite_float.elims)

lemma value_within_narrows:
  assumes "value_within rp DEFAULT_NUMERIC_SCOPE_CAP_KEYS k v w = Inr True"
  shows "value_narrows k v w"
proof (cases "elements v = None \<or> elements w = None")
  case True
  then show ?thesis using assms numeric_cap_number
    by (auto simp: value_within_def value_narrows_def split: option.splits if_splits)
next
  case False
  then obtain xs ys where e: "elements v = Some xs" "elements w = Some ys" by auto
  show ?thesis
  proof (cases "k = ''allowed_domains''")
    case True
    with assms e have d: "domain_patterns_within (string_tuple rp xs) (string_tuple rp ys)" by (simp add: value_within_def)
    have "\<exists>q \<in> set qs. domain_matches h q" if "xs = map PStr ps" "ys = map PStr qs" "undotted h" "p \<in> set ps" "domain_matches h p" for ps qs h p
      using domain_values_narrow [OF d [unfolded that(1,2)] that(3-)] .
    with True e show ?thesis unfolding value_narrows_def by auto
  next
    case False
    with assms e show ?thesis
      by (auto simp: value_within_def value_narrows_def set_within_def list_all_iff list_ex_iff split: if_splits)
  qed
qed

lemma scope_within_narrows: "scope_within rp DEFAULT_NUMERIC_SCOPE_CAP_KEYS inner outer = Inr True \<Longrightarrow> narrows inner outer"
  unfolding scope_within_True narrows_def using value_within_narrows by blast

text \<open>The plain ways to narrow a value: the same text, a smaller exact integer of a cap, a sublist of texts.\<close>

definition plainly_narrows :: "string \<Rightarrow> pyval \<Rightarrow> pyval \<Rightarrow> bool" where
  "plainly_narrows k v w \<longleftrightarrow> (\<exists>a. v = PStr a \<and> w = PStr a) \<or>
     (\<exists>m n. k \<in> set DEFAULT_NUMERIC_SCOPE_CAP_KEYS \<and> v = PInt m \<and> w = PInt n \<and> m \<le> n \<and> \<bar>m\<bar> < 2 ^ 53 \<and> \<bar>n\<bar> < 2 ^ 53) \<or>
     (\<exists>xs ys. v = PList (map PStr xs) \<and> w = PList (map PStr ys) \<and> set xs \<subseteq> set ys)"

lemma domain_patterns_within_subset: "set xs \<subseteq> set ys \<Longrightarrow> domain_patterns_within xs ys"
proof -
  assume sub: "set xs \<subseteq> set ys"
  have "set (domain_strings xs) \<subseteq> set (domain_strings ys)" using sub by (force simp: domain_strings_norm)
  moreover have "domain_pattern_within p p" for p by (simp add: domain_pattern_within_def Let_def)
  ultimately show ?thesis by (auto simp: domain_patterns_within_def list_all_iff list_ex_iff Let_def)
qed

lemma plain_value_within:
  assumes "plainly_narrows k v w"
  shows "value_within rp DEFAULT_NUMERIC_SCOPE_CAP_KEYS k v w = Inr True"
  using assms unfolding plainly_narrows_def
proof (elim disjE exE conjE)
  fix m n assume "k \<in> set DEFAULT_NUMERIC_SCOPE_CAP_KEYS" "v = PInt m" "w = PInt n" "m \<le> n" "\<bar>m\<bar> < 2 ^ 53" "\<bar>n\<bar> < 2 ^ 53"
  then show ?thesis by (simp add: value_within_def numeric_cap_within_def)
next
  fix xs ys assume v: "v = PList (map PStr xs)" "w = PList (map PStr ys)" and sub: "set xs \<subseteq> set ys"
  have "domain_patterns_within (string_tuple rp (map PStr xs)) (string_tuple rp (map PStr ys))"
    by (rule domain_patterns_within_subset) (use sub in \<open>auto simp: string_tuple_strings\<close>)
  moreover have "set_within (map PStr xs) (map PStr ys) = Inr True"
    using sub by (auto simp: set_within_def list_all_iff list_ex_iff)
  ultimately show ?thesis by (simp add: value_within_def v)
qed (simp add: value_within_def)

section \<open>Laws of signed scopes\<close>

lemma set_dedupe [simp]: "set (dedupe xs) = set xs"
  by (induction xs) auto

lemma distinct_dedupe: "distinct (dedupe xs)"
  by (induction xs) auto

lemma dget_apply_numeric_cap:
  "apply_numeric_cap scope p k = Inr q \<Longrightarrow> k' \<noteq> k \<Longrightarrow> dget q k' = dget p k'"
  by (auto simp: apply_numeric_cap_def res_bind_eq_Inr dget_update split: if_splits)

lemma dget_apply_numeric_caps:
  "apply_numeric_caps scope p ks = Inr q \<Longrightarrow> k' \<notin> set ks \<Longrightarrow> dget q k' = dget p k'"
  by (induction scope p ks rule: apply_numeric_caps.induct)
     (auto simp: res_bind_eq_Inr dest!: dget_apply_numeric_cap)

text \<open>A cap in force: the value is the signed number itself or a positive number not above it.\<close>

definition cap_in_force :: "pyval \<Rightarrow> string \<Rightarrow> pyval \<Rightarrow> bool" where
  "cap_in_force signed key v \<longleftrightarrow>
     (\<exists>s. positive_number signed key ''signed_not_positive'' = Inr s \<and>
        (v = json_number s \<or>
         (\<exists>e. positive_number v key ''request_not_positive'' = Inr e \<and> e \<le> s)))"

lemma apply_numeric_cap_in_force:
  assumes "apply_numeric_cap scope p k = Inr q" and "dget scope k \<noteq> PNone"
  shows "cap_in_force (dget scope k) k (dget q k)"
  using assms
  by (auto simp: apply_numeric_cap_def cap_in_force_def res_bind_eq_Inr dget_update not_less
      split: if_splits)

lemma apply_numeric_caps_in_force:
  "apply_numeric_caps scope p ks = Inr q \<Longrightarrow> distinct ks \<Longrightarrow> k \<in> set ks \<Longrightarrow>
     dget scope k \<noteq> PNone \<Longrightarrow> cap_in_force (dget scope k) k (dget q k)"
proof (induction scope p ks rule: apply_numeric_caps.induct)
  case (2 scope p k' ks)
  from "2.prems"(1) obtain p' where p': "apply_numeric_cap scope p k' = Inr p'"
      "apply_numeric_caps scope p' ks = Inr q"
    by (auto simp: res_bind_eq_Inr)
  show ?case
  proof (cases "k = k'")
    case True
    with "2.prems" p' have "dget q k = dget p' k"
      by (auto dest: dget_apply_numeric_caps)
    with apply_numeric_cap_in_force [OF p'(1)] "2.prems"(4) True show ?thesis by simp
  qed (use 2 p' in auto)
qed simp

lemma apply_binding_id_frame:
  "apply_binding_id rp scope p = Inr q \<Longrightarrow> k \<noteq> ''binding_id'' \<Longrightarrow> dget q k = dget p k"
  by (auto simp: apply_binding_id_def Let_def dget_update split: if_splits)

lemma apply_allowed_domains_frame:
  "apply_allowed_domains rp scope p = Inr q \<Longrightarrow> k \<noteq> ''allowed_domains'' \<Longrightarrow> dget q k = dget p k"
  by (auto simp: apply_allowed_domains_def res_bind_eq_Inr dget_update split: if_splits)

lemma apply_blocked_domains_frame:
  "apply_blocked_domains rp scope p = Inr q \<Longrightarrow> k \<noteq> ''blocked_domains'' \<Longrightarrow> dget q k = dget p k"
  by (auto simp: apply_blocked_domains_def res_bind_eq_Inr dget_update split: if_splits)

lemma domains_at_strings:
  "map_of d k = Some (PList (map PStr xs)) \<Longrightarrow> domains_at rp d k = Inr (domain_strings xs)"
  by (cases "xs = []") (simp_all add: domains_at_def dget_def domain_tuple_def domain_strings_def
      comp_def)

lemma apply_allowed_domains_result:
  assumes "map_of scope ''allowed_domains'' = Some (PList (map PStr A))"
    and "domain_strings A \<noteq> []" and "apply_allowed_domains rp scope p = Inr q"
  shows "\<exists>xs. dget q ''allowed_domains'' = PList (map PStr xs) \<and> xs \<noteq> [] \<and>
           domain_patterns_within xs (domain_strings A)"
proof -
  have h: "dhas ''allowed_domains'' scope" using assms(1) by (simp add: dhas_def del: dhas_iff)
  have refl: "domain_patterns_within (domain_strings A) (domain_strings A)"
    by (auto simp: domain_patterns_within_def list_all_iff list_ex_iff Let_def
        domain_pattern_within_def intro: bexI)
  show ?thesis
    using assms h refl
    by (auto simp: apply_allowed_domains_def domains_at_strings res_bind_eq_Inr dget_update
        simp del: dhas_iff split: if_splits)
qed

lemma apply_blocked_domains_result:
  assumes "map_of scope ''blocked_domains'' = Some (PList (map PStr B))"
    and "apply_blocked_domains rp scope p = Inr q"
  shows "\<exists>xs. dget q ''blocked_domains'' = PList (map PStr xs) \<and> set (domain_strings B) \<subseteq> set xs"
proof -
  have h: "dhas ''blocked_domains'' scope" using assms(1) by (simp add: dhas_def del: dhas_iff)
  show ?thesis
    using assms h
    by (auto simp: apply_blocked_domains_def domains_at_strings res_bind_eq_Inr dget_update
        simp del: dhas_iff)
qed

lemma domain_allowed_mono:
  assumes "domain_allowed d xs ys" and "xs \<noteq> []" and "domain_patterns_within xs A"
    and "\<forall>b \<in> set B. pattern_norm b \<noteq> [] \<longrightarrow> pattern_norm b \<in> set ys"
  shows "domain_allowed d A B"
proof -
  let ?d = "strip_dots (str_lower d)"
  from assms(1,2) have d: "?d \<noteq> []" and blocked: "\<forall>y \<in> set ys. \<not> domain_matches ?d y"
    and "\<exists>x \<in> set xs. domain_matches ?d x"
    by (auto simp: domain_allowed_def Let_def list_ex_iff split: if_splits)
  then have "\<exists>a \<in> set A. domain_matches ?d a"
    using domain_patterns_within_sound [OF assms(3) strip_dots_undotted [OF d]] by blast
  moreover have "\<not> domain_matches ?d b" if "b \<in> set B" for b
  proof (cases "pattern_norm b = []")
    case True
    with d show ?thesis by (simp add: domain_matches_def Let_def)
  next
    case False
    with assms(4) that blocked show ?thesis by (metis domain_matches_norm)
  qed
  ultimately show ?thesis using d by (auto simp: domain_allowed_def Let_def list_ex_iff)
qed

section \<open>Properties\<close>

text \<open>A signed scope is a ceiling on network reach: whenever the effective payload of a
  request is computed, every domain its allow and block lists admit is admitted by the signed
  allow and block lists, whatever the caller asked for.\<close>

theorem effective_scope_domain_ceiling:
  assumes "effective_signed_scope rp nk scope payload = Inr eff"
    and "map_of scope ''allowed_domains'' = Some (PList (map PStr A))"
    and "domain_strings A \<noteq> []"
    and "map_of scope ''blocked_domains'' = Some (PList (map PStr B))"
    and "''allowed_domains'' \<notin> set nk" and "''blocked_domains'' \<notin> set nk"
  shows "\<exists>ea eb. dget eff ''allowed_domains'' = PList (map PStr ea) \<and>
           dget eff ''blocked_domains'' = PList (map PStr eb) \<and>
           (\<forall>d. domain_allowed d ea eb \<longrightarrow> domain_allowed d A B)"
proof -
  from assms(1) obtain p1 p2 p3 where p1: "apply_binding_id rp scope payload = Inr p1"
      and p2: "apply_allowed_domains rp scope p1 = Inr p2"
      and p3: "apply_blocked_domains rp scope p2 = Inr p3"
      and eff: "apply_numeric_caps scope p3 nk = Inr eff"
    by (auto simp: effective_signed_scope_def res_bind_eq_Inr)
  from apply_allowed_domains_result [OF assms(2,3) p2] obtain ea where
    ea: "dget p2 ''allowed_domains'' = PList (map PStr ea)" "ea \<noteq> []"
        "domain_patterns_within ea (domain_strings A)" by blast
  from apply_blocked_domains_result [OF assms(4) p3] obtain eb where
    eb: "dget p3 ''blocked_domains'' = PList (map PStr eb)" "set (domain_strings B) \<subseteq> set eb"
    by blast
  have "dget eff ''allowed_domains'' = PList (map PStr ea)"
    using ea(1) dget_apply_numeric_caps [OF eff assms(5)]
      apply_blocked_domains_frame [OF p3, of "''allowed_domains''"] by simp
  moreover have "dget eff ''blocked_domains'' = PList (map PStr eb)"
    using eb(1) dget_apply_numeric_caps [OF eff assms(6)] by simp
  moreover have "domain_allowed d A B" if "domain_allowed d ea eb" for d
  proof -
    have "domain_patterns_within ea A"
      using ea(3) by (simp add: domain_patterns_within_def Let_def)
    moreover have "\<forall>b \<in> set B. pattern_norm b \<noteq> [] \<longrightarrow> pattern_norm b \<in> set eb"
      using eb(2) by (auto simp: domain_strings_norm subset_iff)
    ultimately show ?thesis using domain_allowed_mono [OF that ea(2)] by blast
  qed
  ultimately show ?thesis by blast
qed

text \<open>A signed numeric cap is always in force: after a successful computation every numeric
  key the signed scope sets holds the signed number or a positive number not above it, and every
  key the signed scope does not govern is left as the caller gave it.\<close>

theorem effective_scope_numeric_ceiling:
  assumes "effective_signed_scope rp nk scope payload = Inr eff" and "distinct nk"
    and "set nk \<inter> {''binding_id'', ''allowed_domains'', ''blocked_domains''} = {}"
  shows "(\<forall>k \<in> set nk. dget scope k \<noteq> PNone \<longrightarrow> cap_in_force (dget scope k) k (dget eff k)) \<and>
    (\<forall>k. k \<notin> set nk \<union> {''binding_id'', ''allowed_domains'', ''blocked_domains''} \<longrightarrow>
       dget eff k = dget payload k)"
proof -
  from assms(1) obtain p1 p2 p3 where p1: "apply_binding_id rp scope payload = Inr p1"
      and p2: "apply_allowed_domains rp scope p1 = Inr p2"
      and p3: "apply_blocked_domains rp scope p2 = Inr p3"
      and eff: "apply_numeric_caps scope p3 nk = Inr eff"
    by (auto simp: effective_signed_scope_def res_bind_eq_Inr)
  show ?thesis
    using apply_numeric_caps_in_force [OF eff assms(2)]
      dget_apply_numeric_caps [OF eff] apply_binding_id_frame [OF p1]
      apply_allowed_domains_frame [OF p2] apply_blocked_domains_frame [OF p3]
    by auto
qed

theorem effective_scope_numeric_ceiling_witness:
  "cap_in_force (PInt 5) ''max_calls'' (PInt 3)"
proof -
  have e: "effective_signed_scope (\<lambda>_. []) [''max_calls''] [(''max_calls'', PInt 5)]
      [(''max_calls'', PInt 3)] = Inr [(''max_calls'', PInt 3)]"
    by (simp add: effective_signed_scope_def apply_binding_id_def apply_allowed_domains_def
        apply_blocked_domains_def apply_numeric_cap_def positive_number_def dget_def dget_str_def
        str_strip_def strip_by_def)
  show ?thesis using effective_scope_numeric_ceiling [OF e] by (simp add: dget_def)
qed



text \<open>A denied capability result carries no grant material: whatever the reported result
  held, after sanitising it has no lease and no token reference, is neither approved nor granted,
  and names a non-empty reason when one is given or the result had one.\<close>

theorem denied_result_has_no_grant:
  "let d = sanitize_denied_capability_result rp result reason answer in
     map_of d ''lease'' = None \<and> map_of d ''token_ref'' = None \<and>
     dget d ''approved'' = PBool False \<and> dget d ''granted'' = PBool False \<and>
     dget d ''answer'' = PStr answer \<and>
     dget d ''reason'' = PStr (if reason \<noteq> [] then reason
       else if py_truthy (dget result ''reason'') then str_of rp (dget result ''reason'')
       else ''denied'')"
  by (simp add: sanitize_denied_capability_result_def Let_def update_conv' delete_conv'
      dget_def)

end
