(* ===== verification/Json_Ingress.thy ===== *)
theory Json_Ingress
  imports Wire_Validation
begin

text \<open>
  The JSON domain of \<open>core/json_ingress.py\<close>: repair of surrogate code units, the copy that
  normalises a value at ingress, the scalar and shape refusals, and the bounded decoders.

  Text is a list of code points here, since the module is about code units a \<open>char list\<close> cannot
  hold. A value is a tree (\<open>ival\<close>): sharing is not observable in a copy, and object graphs with
  sharing or cycles, and the pass that refuses their shapes, are in \<open>Shape_Refusal\<close>. Dictionary keys may be
  non-strings, and an object outside the JSON domain is known by its type name only.
\<close>

section \<open>Code points\<close>

type_synonym codepoints = "nat list"

definition is_surrogate :: "nat \<Rightarrow> bool" where
  "is_surrogate c \<longleftrightarrow> 0xD800 \<le> c \<and> c \<le> 0xDFFF"

definition is_high :: "nat \<Rightarrow> bool" where
  "is_high c \<longleftrightarrow> 0xD800 \<le> c \<and> c \<le> 0xDBFF"

definition is_low :: "nat \<Rightarrow> bool" where
  "is_low c \<longleftrightarrow> 0xDC00 \<le> c \<and> c \<le> 0xDFFF"

definition scalar_or_fffd :: "nat \<Rightarrow> nat" where
  "scalar_or_fffd c = (if is_surrogate c then 0xFFFD else c)"

text \<open>The repairing loop, on the rest of the text.\<close>

fun repair_units :: "codepoints \<Rightarrow> codepoints" where
  "repair_units [] = []"
| "repair_units [c] = [scalar_or_fffd c]"
| "repair_units (c # d # rest) =
     (if is_high c \<and> is_low d
      then (0x10000 + (c - 0xD800) * 2 ^ 10 + (d - 0xDC00)) # repair_units rest
      else scalar_or_fffd c # repair_units (d # rest))"

definition normalize_unicode_scalars :: "codepoints \<Rightarrow> codepoints" where
  "normalize_unicode_scalars s = (if \<not> list_ex is_surrogate s then s else repair_units s)"

text \<open>The bytes of a code point in \<open>json.dumps(..., ensure_ascii=True)\<close>: two-character
  escapes, \<open>\u\<close> escapes, and a surrogate pair beyond the basic plane.\<close>

definition char_cost :: "nat \<Rightarrow> nat" where
  "char_cost c = (if c \<in> {34, 92, 8, 9, 10, 12, 13} then 2
     else if 32 \<le> c \<and> c \<le> 126 then 1
     else if c \<le> 0xFFFF then 6 else 12)"

definition escaped_cost :: "codepoints \<Rightarrow> nat" where
  "escaped_cost text = sum_list (map char_cost text)"

definition TYPE_NAME_MAX_ESCAPED_BYTES :: nat where
  "TYPE_NAME_MAX_ESCAPED_BYTES = 64"

fun keep_within :: "nat \<Rightarrow> codepoints \<Rightarrow> codepoints" where
  "keep_within spent [] = []"
| "keep_within spent (c # cs) =
     (if TYPE_NAME_MAX_ESCAPED_BYTES < spent + char_cost c then []
      else c # keep_within (spent + char_cost c) cs)"

definition portable_class_name :: "codepoints \<Rightarrow> codepoints" where
  "portable_class_name name =
     (if escaped_cost name \<le> TYPE_NAME_MAX_ESCAPED_BYTES then name else keep_within 0 name)"

section \<open>Values at ingress\<close>

datatype ikey = KStr codepoints | KOther

datatype ival =
    INone
  | IBool bool
  | IInt int
  | IFloat pyfloat
  | IStr codepoints
  | IList "ival list"
  | ITuple "ival list"
  | IDict "(ikey \<times> ival) list"
  | IOther codepoints

definition MAX_JSON_INTEGER_DIGITS :: nat where
  "MAX_JSON_INTEGER_DIGITS = 4300"

definition UNCONDITIONALLY_SPELLABLE_INT :: int where
  "UNCONDITIONALLY_SPELLABLE_INT = 10 ^ 17"

text \<open>\<open>configured\<close> is \<open>sys.get_int_max_str_digits()\<close>.\<close>

definition spellable_integer_digits :: "int \<Rightarrow> nat" where
  "spellable_integer_digits configured =
     (if configured \<le> 0 then MAX_JSON_INTEGER_DIGITS
      else min MAX_JSON_INTEGER_DIGITS (nat configured))"

definition digit_bound_magnitude :: "nat \<Rightarrow> int" where
  "digit_bound_magnitude digits = 10 ^ digits"

fun refuse_unportable_scalar :: "int \<Rightarrow> ival \<Rightarrow> unit res" where
  "refuse_unportable_scalar configured (IInt n) =
     (if - UNCONDITIONALLY_SPELLABLE_INT < n \<and> n < UNCONDITIONALLY_SPELLABLE_INT then Inr ()
      else let bound = digit_bound_magnitude (spellable_integer_digits configured) in
        if - bound < n \<and> n < bound then Inr ()
        else Inl (UnportableScalarError ''integer exceeds the JSON bound''))"
| "refuse_unportable_scalar configured INone = Inr ()"
| "refuse_unportable_scalar configured (IBool _) = Inr ()"
| "refuse_unportable_scalar configured (IFloat _) = Inr ()"
| "refuse_unportable_scalar configured (IStr _) = Inr ()"
| "refuse_unportable_scalar configured _ = Inl (UnportableScalarError ''not portable JSON'')"

definition is_portable_json_integer :: "int \<Rightarrow> ival \<Rightarrow> bool" where
  "is_portable_json_integer configured v = (case v of
      IInt n \<Rightarrow> is_ok (refuse_unportable_scalar configured (IInt n)) | _ \<Rightarrow> False)"

text \<open>The keyword arguments of the walk, with the interpreter's digit limit.\<close>

record ingress_opts =
  io_substitute_nonfinite :: bool
  io_normalize_strings :: bool
  io_refuse_unportable :: bool
  io_max_str_digits :: int

definition normalize_scalar :: "ingress_opts \<Rightarrow> ival \<Rightarrow> ival res" where
  "normalize_scalar opt v =
     res_bind (if io_refuse_unportable opt
               then refuse_unportable_scalar (io_max_str_digits opt) v else Inr ()) (\<lambda>_.
     Inr (case v of
        IStr s \<Rightarrow> if io_normalize_strings opt then IStr (normalize_unicode_scalars s) else v
      | IFloat f \<Rightarrow> if io_substitute_nonfinite opt \<and> \<not> is_finite_float f then INone else v
      | _ \<Rightarrow> v))"

fun prepare_keys :: "codepoints list \<Rightarrow> ikey list \<Rightarrow> codepoints list res" where
  "prepare_keys seen [] = Inr []"
| "prepare_keys seen (KOther # ks) = Inl (ValueError ''JSON object keys must be strings'')"
| "prepare_keys seen (KStr k # ks) = (let k' = normalize_unicode_scalars k in
     if k' \<in> set seen
     then Inl (ValueError ''JSON object keys collide after ingress normalization'')
     else res_bind (prepare_keys (k' # seen) ks) (\<lambda>rest. Inr (k' # rest)))"

text \<open>The walk. The stack of the source visits a container before its elements and the
  elements in order, and checks every key of an object before its first value.\<close>

fun ingress_walk :: "ingress_opts \<Rightarrow> ival \<Rightarrow> ival res"
  and ingress_walk_list :: "ingress_opts \<Rightarrow> ival list \<Rightarrow> ival list res"
  and ingress_walk_items :: "ingress_opts \<Rightarrow> (ikey \<times> ival) list \<Rightarrow> ival list res"
where
  "ingress_walk opt (IDict items) = res_bind (prepare_keys [] (map fst items)) (\<lambda>ks.
     res_bind (ingress_walk_items opt items) (\<lambda>vs. Inr (IDict (zip (map KStr ks) vs))))"
| "ingress_walk opt (IList vs) = res_bind (ingress_walk_list opt vs) (\<lambda>ws. Inr (IList ws))"
| "ingress_walk opt (ITuple vs) = res_bind (ingress_walk_list opt vs) (\<lambda>ws. Inr (IList ws))"
| "ingress_walk opt INone = normalize_scalar opt INone"
| "ingress_walk opt (IBool b) = normalize_scalar opt (IBool b)"
| "ingress_walk opt (IInt n) = normalize_scalar opt (IInt n)"
| "ingress_walk opt (IFloat f) = normalize_scalar opt (IFloat f)"
| "ingress_walk opt (IStr s) = normalize_scalar opt (IStr s)"
| "ingress_walk opt (IOther n) = normalize_scalar opt (IOther n)"
| "ingress_walk_list opt [] = Inr []"
| "ingress_walk_list opt (v # vs) = res_bind (ingress_walk opt v) (\<lambda>w.
     res_bind (ingress_walk_list opt vs) (\<lambda>ws. Inr (w # ws)))"
| "ingress_walk_items opt [] = Inr []"
| "ingress_walk_items opt ((k, v) # items) = res_bind (ingress_walk opt v) (\<lambda>w.
     res_bind (ingress_walk_items opt items) (\<lambda>ws. Inr (w # ws)))"

definition MAX_PORTABLE_CONTAINER_DEPTH :: nat where
  "MAX_PORTABLE_CONTAINER_DEPTH = 64"

text \<open>The height of a container, as the shape refusal settles it; scalars have height 0.\<close>

fun height_of :: "ival \<Rightarrow> nat" where
  "height_of (IList vs) = Suc (fold max (map height_of vs) 0)"
| "height_of (IDict items) = Suc (fold max (map (\<lambda>p. height_of (snd p)) items) 0)"
| "height_of _ = 0"

definition refuse_tall :: "ival \<Rightarrow> unit res" where
  "refuse_tall v = guard (height_of v \<le> MAX_PORTABLE_CONTAINER_DEPTH)
     (UnportableContainerError ''container nests deeper than 64 levels'')"

definition normalize_json_ingress :: "ingress_opts \<Rightarrow> ival \<Rightarrow> ival res" where
  "normalize_json_ingress opt v = res_bind (ingress_walk opt v) (\<lambda>w.
     res_bind (if io_refuse_unportable opt then refuse_tall w else Inr ()) (\<lambda>_. Inr w))"

section \<open>Bounded decoding\<close>

definition digit_value :: "char \<Rightarrow> nat option" where
  "digit_value c = (let n = (of_char c :: nat) in
     if 48 \<le> n \<and> n \<le> 57 then Some (n - 48) else None)"

fun digits_value :: "nat \<Rightarrow> string \<Rightarrow> nat option" where
  "digits_value acc [] = Some acc"
| "digits_value acc (c # cs) = (case digit_value c of
      None \<Rightarrow> None
    | Some d \<Rightarrow> digits_value (acc * 10 + d) cs)"

text \<open>\<open>int(value)\<close> on the lexemes the decoder passes: an optional minus and decimal digits.\<close>

definition int_of_lexeme :: "string \<Rightarrow> int option" where
  "int_of_lexeme s = (case s of
      [] \<Rightarrow> None
    | c # cs \<Rightarrow> if c = CHR ''-''
        then (if cs = [] then None else map_option (\<lambda>n. - int n) (digits_value 0 cs))
        else map_option int (digits_value 0 s))"

definition parse_bounded_json_int :: "string \<Rightarrow> int res" where
  "parse_bounded_json_int s =
     (let digits = (if str_startswith s ''-'' then drop 1 s else s) in
      if MAX_JSON_INTEGER_DIGITS < length digits
      then Inl (JSONDecodeError ''JSON integer decoder limit exceeded'')
      else case int_of_lexeme s of
          None \<Rightarrow> Inl (JSONDecodeError ''invalid JSON integer'')
        | Some n \<Rightarrow> Inr n)"

fun unique_json_object_loop ::
    "(codepoints \<times> ival) list \<Rightarrow> (codepoints \<times> ival) list \<Rightarrow> (codepoints \<times> ival) list res" where
  "unique_json_object_loop decoded [] = Inr decoded"
| "unique_json_object_loop decoded ((k, v) # pairs) = (let k' = normalize_unicode_scalars k in
     if k' \<in> fst ` set decoded
     then Inl (JSONDecodeError ''duplicate JSON object key after ingress normalization'')
     else unique_json_object_loop (decoded @ [(k', v)]) pairs)"

definition unique_json_object :: "(codepoints \<times> ival) list \<Rightarrow> (codepoints \<times> ival) list res" where
  "unique_json_object pairs = unique_json_object_loop [] pairs"

definition MAX_JSON_NESTING :: nat where
  "MAX_JSON_NESTING = 512"

record lex_state =
  lx_depth :: nat
  lx_in_string :: bool
  lx_escaped :: bool

text \<open>One character of the lexical scan: \<open>None\<close> is the refusal.\<close>

definition nesting_step :: "lex_state \<Rightarrow> char \<Rightarrow> lex_state option" where
  "nesting_step st c =
     (if lx_in_string st then
        Some (if lx_escaped st then st\<lparr>lx_escaped := False\<rparr>
              else if (of_char c :: nat) = 92 then st\<lparr>lx_escaped := True\<rparr>
              else if (of_char c :: nat) = 34 then st\<lparr>lx_in_string := False\<rparr>
              else st)
      else if (of_char c :: nat) = 34 then Some (st\<lparr>lx_in_string := True\<rparr>)
      else if c \<in> {CHR ''['', CHR ''{''} then
        (if MAX_JSON_NESTING < Suc (lx_depth st) then None
         else Some (st\<lparr>lx_depth := Suc (lx_depth st)\<rparr>))
      else if c \<in> {CHR '']'', CHR ''}''} \<and> lx_depth st \<noteq> 0
      then Some (st\<lparr>lx_depth := lx_depth st - 1\<rparr>)
      else Some st)"

fun nesting_scan :: "lex_state \<Rightarrow> string \<Rightarrow> lex_state option" where
  "nesting_scan st [] = Some st"
| "nesting_scan st (c # cs) = (case nesting_step st c of
      None \<Rightarrow> None | Some st' \<Rightarrow> nesting_scan st' cs)"

definition lex_init :: lex_state where
  "lex_init = \<lparr>lx_depth = 0, lx_in_string = False, lx_escaped = False\<rparr>"

definition enforce_json_nesting_limit :: "string \<Rightarrow> string \<Rightarrow> unit res" where
  "enforce_json_nesting_limit text message = (case nesting_scan lex_init text of
      None \<Rightarrow> Inl (JSONDecodeError message) | Some _ \<Rightarrow> Inr ())"

definition json_nesting_within_limit :: "string \<Rightarrow> bool" where
  "json_nesting_within_limit text =
     is_ok (enforce_json_nesting_limit text ''JSON nesting exceeds the parser limit'')"

section \<open>Laws of code points\<close>

abbreviation no_surrogates :: "codepoints \<Rightarrow> bool" where
  "no_surrogates s \<equiv> list_all (\<lambda>c. \<not> is_surrogate c) s"

lemma scalar_or_fffd_scalar [simp]: "\<not> is_surrogate (scalar_or_fffd c)"
  by (auto simp: scalar_or_fffd_def is_surrogate_def)

lemma astral_scalar: "\<not> is_surrogate (0x10000 + n)"
  by (simp add: is_surrogate_def)

lemma repair_units_clean: "no_surrogates (repair_units s)"
  by (induction s rule: repair_units.induct) (simp_all add: astral_scalar add.assoc)

lemma repair_units_id: "no_surrogates s \<Longrightarrow> repair_units s = s"
  by (induction s rule: repair_units.induct)
     (auto simp: scalar_or_fffd_def is_surrogate_def is_high_def)

lemma normalize_is_repair: "normalize_unicode_scalars s = repair_units s"
  by (auto simp: normalize_unicode_scalars_def repair_units_id list_all_iff list_ex_iff)

lemma normalize_clean [simp]: "no_surrogates (normalize_unicode_scalars s)"
  by (simp add: normalize_is_repair repair_units_clean)

lemma normalize_id: "no_surrogates s \<Longrightarrow> normalize_unicode_scalars s = s"
  by (simp add: normalize_is_repair repair_units_id)

lemma normalize_idem [simp]:
  "normalize_unicode_scalars (normalize_unicode_scalars s) = normalize_unicode_scalars s"
  by (simp add: normalize_id)

lemma keep_within_prefix: "\<exists>t. name = keep_within spent name @ t"
  by (induction name arbitrary: spent) auto

lemma keep_within_cost:
  "spent \<le> TYPE_NAME_MAX_ESCAPED_BYTES \<Longrightarrow>
     spent + escaped_cost (keep_within spent name) \<le> TYPE_NAME_MAX_ESCAPED_BYTES"
proof (induction name arbitrary: spent)
  case Nil
  then show ?case by (simp add: escaped_cost_def)
next
  case (Cons c cs)
  show ?case
  proof (cases "TYPE_NAME_MAX_ESCAPED_BYTES < spent + char_cost c")
    case True
    with Cons.prems show ?thesis by (simp add: escaped_cost_def)
  next
    case False
    with Cons.IH [of "spent + char_cost c"] show ?thesis by (simp add: escaped_cost_def)
  qed
qed

section \<open>Laws of the walk\<close>

text \<open>What the walk promises of its result under given options.\<close>

fun ingress_normal :: "ingress_opts \<Rightarrow> ival \<Rightarrow> bool" where
  "ingress_normal opt (IList vs) = list_all (ingress_normal opt) vs"
| "ingress_normal opt (IDict items) =
     (list_all (\<lambda>p. case fst p of KStr k \<Rightarrow> no_surrogates k | KOther \<Rightarrow> False) items \<and>
      distinct (map fst items) \<and> list_all (\<lambda>p. ingress_normal opt (snd p)) items)"
| "ingress_normal opt (ITuple vs) = False"
| "ingress_normal opt (IStr s) = (io_normalize_strings opt \<longrightarrow> no_surrogates s)"
| "ingress_normal opt (IFloat f) = (io_substitute_nonfinite opt \<longrightarrow> is_finite_float f)"
| "ingress_normal opt (IInt n) = (io_refuse_unportable opt \<longrightarrow>
     is_portable_json_integer (io_max_str_digits opt) (IInt n))"
| "ingress_normal opt (IOther n) = (\<not> io_refuse_unportable opt)"
| "ingress_normal opt _ = True"

lemma normalize_scalar_normal:
  "normalize_scalar opt v = Inr w \<Longrightarrow> (\<forall>vs. v \<noteq> IList vs \<and> v \<noteq> ITuple vs) \<Longrightarrow>
     (\<forall>d. v \<noteq> IDict d) \<Longrightarrow> ingress_normal opt w"
  by (cases v) (auto simp: normalize_scalar_def is_portable_json_integer_def res_bind_eq_Inr
      split: if_splits)

lemma prepare_keys_sound:
  "prepare_keys seen ks = Inr ks' \<Longrightarrow> list_all no_surrogates ks' \<and> distinct ks' \<and>
     set ks' \<inter> set seen = {} \<and> length ks' = length ks"
proof (induction seen ks arbitrary: ks' rule: prepare_keys.induct)
  case (3 seen k ks)
  then show ?case
    by (fastforce simp: Let_def res_bind_eq_Inr split: if_splits)
qed auto

lemma prepare_keys_id:
  "list_all no_surrogates ks \<Longrightarrow> distinct ks \<Longrightarrow> set ks \<inter> set seen = {} \<Longrightarrow>
     prepare_keys seen (map KStr ks) = Inr ks"
  by (induction ks arbitrary: seen) (auto simp: normalize_id Let_def)

lemma ingress_walk_items_length:
  "ingress_walk_items opt items = Inr ws \<Longrightarrow> length ws = length items"
  by (induction items arbitrary: ws) (auto simp: res_bind_eq_Inr)

lemma list_all_zip_keys:
  assumes "length ks = length ws"
  shows "list_all (\<lambda>p. P (fst p)) (zip (map KStr ks) ws) \<longleftrightarrow> list_all (\<lambda>k. P (KStr k)) ks"
    and "list_all (\<lambda>p. Q (snd p)) (zip (map KStr ks) ws) \<longleftrightarrow> list_all Q ws"
    and "map fst (zip (map KStr ks) ws) = map KStr ks"
  using assms by (induction ks ws rule: list_induct2) auto

lemma ingress_walk_normal:
  "ingress_walk opt v = Inr w \<Longrightarrow> ingress_normal opt w"
  "ingress_walk_list opt vs = Inr ws \<Longrightarrow> list_all (ingress_normal opt) ws"
  "ingress_walk_items opt items = Inr ws' \<Longrightarrow> list_all (ingress_normal opt) ws'"
proof (induction opt v and opt vs and opt items arbitrary: w and ws and ws'
    rule: ingress_walk_ingress_walk_list_ingress_walk_items.induct)
  case (1 opt items)
  then obtain ks vs where ks: "prepare_keys [] (map fst items) = Inr ks"
    and vs: "ingress_walk_items opt items = Inr vs" and w: "w = IDict (zip (map KStr ks) vs)"
    by (auto simp: res_bind_eq_Inr)
  have len: "length ks = length vs"
    using prepare_keys_sound [OF ks] ingress_walk_items_length [OF vs] by simp
  have "distinct (map KStr ks)"
    using prepare_keys_sound [OF ks] by (simp add: distinct_map inj_on_def)
  then show ?case
    using prepare_keys_sound [OF ks] "1.IH" [OF vs]
    by (simp add: w list_all_zip_keys [OF len])
next
  case (4 opt) then show ?case by (auto intro: normalize_scalar_normal)
next
  case (5 opt b) then show ?case using normalize_scalar_normal by fastforce
next
  case (6 opt n) then show ?case using normalize_scalar_normal by fastforce
next
  case (7 opt f) then show ?case using normalize_scalar_normal by fastforce
next
  case (8 opt s) then show ?case using normalize_scalar_normal by fastforce
next
  case (9 opt n) then show ?case using normalize_scalar_normal by fastforce
qed (auto simp: res_bind_eq_Inr)

lemma ingress_walk_id:
  "ingress_normal opt v \<Longrightarrow> ingress_walk opt v = Inr v"
  "list_all (ingress_normal opt) vs \<Longrightarrow> ingress_walk_list opt vs = Inr vs"
  "list_all (\<lambda>p. ingress_normal opt (snd p)) items \<Longrightarrow>
     ingress_walk_items opt items = Inr (map snd items)"
proof (induction opt v and opt vs and opt items
    rule: ingress_walk_ingress_walk_list_ingress_walk_items.induct)
  case (1 opt items)
  define ks where "ks = map (\<lambda>p. case fst p of KStr k \<Rightarrow> k | KOther \<Rightarrow> []) items"
  have keys: "map fst items = map KStr ks"
    using 1 by (auto simp: ks_def list_all_iff split: ikey.splits)
  have "list_all no_surrogates ks"
    using 1 by (auto simp: ks_def list_all_iff split: ikey.splits)
  moreover have "distinct ks" using 1 keys by (simp add: distinct_map)
  ultimately have p: "prepare_keys [] (map fst items) = Inr ks"
    unfolding keys by (intro prepare_keys_id) auto
  have z: "zip (map KStr ks) (map snd items) = items"
    by (metis keys zip_map_fst_snd)
  from 1 p have "ingress_walk_items opt items = Inr (map snd items)" by auto
  then show ?case by (simp add: p z)
next
  case (6 opt n)
  then show ?case
    by (cases "refuse_unportable_scalar (io_max_str_digits opt) (IInt n)")
       (auto simp: normalize_scalar_def is_portable_json_integer_def
         simp del: refuse_unportable_scalar.simps)
qed (auto simp: normalize_scalar_def normalize_id)

section \<open>Laws of the decoders\<close>

lemma digit_value_show [simp]: "d < 10 \<Longrightarrow> digit_value (show_digit d) = Some d"
  by (simp add: digit_value_def show_digit_def Let_def of_char_of)

lemma digits_value_append:
  "digits_value acc (xs @ ys) =
     (case digits_value acc xs of None \<Rightarrow> None | Some a \<Rightarrow> digits_value a ys)"
  by (induction xs arbitrary: acc) (auto split: option.splits)

lemma digits_value_show_nat: "digits_value 0 (show_nat n) = Some n"
proof (induction n rule: show_nat.induct)
  case (1 n)
  then show ?case by (subst show_nat.simps) (simp add: digits_value_append)
qed

lemma digit_value_less: "digit_value c = Some d \<Longrightarrow> d < 10"
  by (auto simp: digit_value_def Let_def split: if_splits)

lemma digits_value_bound:
  "digits_value acc s = Some n \<Longrightarrow> n < (acc + 1) * 10 ^ length s"
proof (induction s arbitrary: acc)
  case (Cons c s)
  then obtain d where d: "digit_value c = Some d" "digits_value (acc * 10 + d) s = Some n"
    by (auto split: option.splits)
  have "n < (acc * 10 + d + 1) * 10 ^ length s" using Cons.IH [OF d(2)] .
  also have "\<dots> \<le> ((acc + 1) * 10) * 10 ^ length s"
    using digit_value_less [OF d(1)] by (intro mult_right_mono) auto
  finally show ?case by (simp add: algebra_simps)
qed simp

lemma show_nat_ne_Nil [simp]: "show_nat n \<noteq> []"
  by (subst show_nat.simps) simp

lemma show_nat_length: "0 < k \<Longrightarrow> length (show_nat n) \<le> k \<longleftrightarrow> n < 10 ^ k"
proof (induction n arbitrary: k rule: show_nat.induct)
  case (1 n)
  show ?case
  proof (cases "n < 10")
    case True
    have "(10 :: nat) ^ 1 \<le> 10 ^ k" using 1 by (intro power_increasing) auto
    with True have "n < 10 ^ k" by simp
    with True 1 show ?thesis by (subst show_nat.simps) simp
  next
    case False
    show ?thesis
    proof (cases "k = 1")
      case True
      with False show ?thesis
        by (subst show_nat.simps) (simp add: Suc_le_eq)
    next
      case False2: False
      then have k: "0 < k - 1" "k = Suc (k - 1)" using 1 by auto
      have "length (show_nat n) \<le> k \<longleftrightarrow> length (show_nat (n div 10)) \<le> k - 1"
        using False k by (subst show_nat.simps) auto
      also have "\<dots> \<longleftrightarrow> n div 10 < 10 ^ (k - 1)" using 1 False k by simp
      also have "\<dots> \<longleftrightarrow> n < 10 ^ k"
        by (subst k(2)) (simp add: div_less_iff_less_mult ac_simps)
      finally show ?thesis .
    qed
  qed
qed

lemma show_nat_hd: "hd (show_nat n) \<noteq> CHR ''-''"
proof (induction n rule: show_nat.induct)
  case (1 n)
  have "show_digit n \<noteq> CHR ''-''" if "n < 10"
  proof
    assume "show_digit n = CHR ''-''"
    with digit_value_show [OF that] show False by (simp add: digit_value_def)
  qed
  with 1 show ?case by (subst show_nat.simps) auto
qed

lemma show_nat_not_minus: "show_nat n \<noteq> CHR ''-'' # s"
  using show_nat_hd [of n] by auto

lemma int_of_lexeme_show: "int_of_lexeme (show_int n) = Some n"
proof (cases "n < 0")
  case True
  then show ?thesis by (simp add: show_int_def int_of_lexeme_def digits_value_show_nat)
next
  case False
  obtain c cs where s: "show_nat (nat n) = c # cs"
    using show_nat_ne_Nil by (cases "show_nat (nat n)") blast+
  have "digits_value 0 (c # cs) = Some (nat n)" using digits_value_show_nat s by metis
  with s False show ?thesis
    using show_nat_not_minus [of "nat n"]
    by (auto simp: show_int_def int_of_lexeme_def simp del: digits_value.simps)
qed

lemma parse_bounded_show:
  "parse_bounded_json_int (show_int n) = (if \<bar>n\<bar> < 10 ^ MAX_JSON_INTEGER_DIGITS then Inr n
     else Inl (JSONDecodeError ''JSON integer decoder limit exceeded''))"
proof -
  have pos: "0 < MAX_JSON_INTEGER_DIGITS" by (simp add: MAX_JSON_INTEGER_DIGITS_def)
  have digits: "(if str_startswith (show_int n) ''-'' then drop 1 (show_int n) else show_int n)
      = show_nat (nat \<bar>n\<bar>)"
    using show_nat_not_minus [of "nat n"] by (auto simp: show_int_def str_startswith_iff)
  have "length (show_nat (nat \<bar>n\<bar>)) \<le> MAX_JSON_INTEGER_DIGITS \<longleftrightarrow>
      \<bar>n\<bar> < 10 ^ MAX_JSON_INTEGER_DIGITS"
    unfolding show_nat_length [OF pos] by (simp add: nat_less_iff)
  then show ?thesis
    unfolding parse_bounded_json_int_def Let_def digits int_of_lexeme_show by auto
qed

lemma nesting_scan_append:
  "nesting_scan st (xs @ ys) =
     (case nesting_scan st xs of None \<Rightarrow> None | Some st' \<Rightarrow> nesting_scan st' ys)"
  by (induction xs arbitrary: st) (auto split: option.splits)

lemma unique_json_object_loop_sound:
  "unique_json_object_loop decoded pairs = Inr out \<Longrightarrow>
     out = decoded @ map (\<lambda>(k, v). (normalize_unicode_scalars k, v)) pairs"
  "unique_json_object_loop decoded pairs = Inr out \<Longrightarrow> distinct (map fst decoded) \<Longrightarrow>
     distinct (map fst out)"
  by (induction decoded pairs rule: unique_json_object_loop.induct)
     (simp_all add: Let_def split: if_splits)

section \<open>Properties\<close>

text \<open>What an accepted ingress copy is: it has no tuple, every object key is text without
  surrogate code units and the keys of an object are distinct, strings are repaired and
  non-finite floats are gone when those options are on, under the refusing option every integer
  is spellable, no foreign object is left and the nesting is at most 64; and normalising the copy
  again returns it unchanged.\<close>

theorem ingress_copy_is_normal:
  assumes "normalize_json_ingress opt v = Inr w"
  shows "ingress_normal opt w \<and>
    (io_refuse_unportable opt \<longrightarrow> height_of w \<le> MAX_PORTABLE_CONTAINER_DEPTH) \<and>
    normalize_json_ingress opt w = Inr w"
proof -
  from assms have walk: "ingress_walk opt v = Inr w"
    and tall: "io_refuse_unportable opt \<longrightarrow> height_of w \<le> MAX_PORTABLE_CONTAINER_DEPTH"
    by (auto simp: normalize_json_ingress_def refuse_tall_def res_bind_eq_Inr split: if_splits)
  note normal = ingress_walk_normal(1) [OF walk]
  show ?thesis
    using normal tall ingress_walk_id(1) [OF normal]
    by (simp add: normalize_json_ingress_def refuse_tall_def)
qed

theorem ingress_copy_is_normal_witness:
  "ingress_normal \<lparr>io_substitute_nonfinite = True, io_normalize_strings = True,
      io_refuse_unportable = True, io_max_str_digits = 640\<rparr>
     (IDict [(KStr [0x1F600], IList [INone, IStr [0xFFFD], IInt 7])])"
proof -
  let ?opt = "\<lparr>io_substitute_nonfinite = True, io_normalize_strings = True,
      io_refuse_unportable = True, io_max_str_digits = 640\<rparr>"
  have "normalize_json_ingress ?opt
      (IDict [(KStr [0xD83D, 0xDE00], ITuple [IFloat PosInf, IStr [0xDC00], IInt 7])]) =
    Inr (IDict [(KStr [0x1F600], IList [INone, IStr [0xFFFD], IInt 7])])"
    by (simp add: normalize_json_ingress_def normalize_scalar_def refuse_tall_def
        normalize_unicode_scalars_def is_surrogate_def is_high_def is_low_def
        scalar_or_fffd_def UNCONDITIONALLY_SPELLABLE_INT_def MAX_PORTABLE_CONTAINER_DEPTH_def)
  from ingress_copy_is_normal [OF this] show ?thesis by blast
qed

text \<open>The integer bounds of the two directions agree: the decoder reads the decimal text of
  an integer back to that integer exactly when the refusing ingress of a process without a lower
  digit limit admits it, and with a lower limit everything the ingress admits is still read.\<close>

theorem integer_bounds_agree:
  "(configured \<le> 0 \<or> 4300 \<le> configured \<longrightarrow>
     (is_portable_json_integer configured (IInt n) \<longleftrightarrow>
      parse_bounded_json_int (show_int n) = Inr n)) \<and>
   (is_portable_json_integer configured (IInt n) \<longrightarrow>
      parse_bounded_json_int (show_int n) = Inr n)"
proof -
  let ?d = "spellable_integer_digits configured"
  have d: "?d \<le> MAX_JSON_INTEGER_DIGITS" by (simp add: spellable_integer_digits_def)
  then have le: "(10 :: int) ^ ?d \<le> 10 ^ MAX_JSON_INTEGER_DIGITS"
    by (intro power_increasing) auto
  have le17: "(10 :: int) ^ 17 \<le> 10 ^ MAX_JSON_INTEGER_DIGITS"
    unfolding MAX_JSON_INTEGER_DIGITS_def by (intro power_increasing) auto
  have port: "is_portable_json_integer configured (IInt n) \<longleftrightarrow>
      \<bar>n\<bar> < 10 ^ 17 \<or> \<bar>n\<bar> < 10 ^ ?d"
    by (auto simp: is_portable_json_integer_def UNCONDITIONALLY_SPELLABLE_INT_def
        digit_bound_magnitude_def Let_def abs_less_iff)
  have parse: "parse_bounded_json_int (show_int n) = Inr n \<longleftrightarrow>
      \<bar>n\<bar> < 10 ^ MAX_JSON_INTEGER_DIGITS"
    by (simp add: parse_bounded_show)
  have "?d = MAX_JSON_INTEGER_DIGITS" if "configured \<le> 0 \<or> 4300 \<le> configured"
    using that by (auto simp: spellable_integer_digits_def MAX_JSON_INTEGER_DIGITS_def)
  moreover have "\<bar>n\<bar> < 10 ^ MAX_JSON_INTEGER_DIGITS" if "\<bar>n\<bar> < 10 ^ 17 \<or> \<bar>n\<bar> < 10 ^ ?d"
    using that le le17 by linarith
  ultimately show ?thesis unfolding port parse by auto
qed

theorem integer_bounds_agree_witness:
  "parse_bounded_json_int (show_int 42) = Inr 42"
proof -
  have "is_portable_json_integer 0 (IInt 42)" by code_simp
  with integer_bounds_agree [of 0 42] show ?thesis by simp
qed

text \<open>A published type name is a prefix of the class's own name, costs at most 64 escaped
  bytes, and is the whole name whenever that fits.\<close>

theorem portable_class_name_bounded:
  "escaped_cost (portable_class_name name) \<le> TYPE_NAME_MAX_ESCAPED_BYTES \<and>
   (\<exists>t. name = portable_class_name name @ t) \<and>
   (portable_class_name name = name \<longleftrightarrow> escaped_cost name \<le> TYPE_NAME_MAX_ESCAPED_BYTES)"
  using keep_within_prefix [of name 0] keep_within_cost [of 0 name]
  by (auto simp: portable_class_name_def)

end
