(* ===== verification/Capability.thy ===== *)
theory Capability
  imports Scope Json_Ingress "HOL-Library.List_Lexorder" "HOL-Library.Char_ord"
begin

text \<open>
  Capability requests, leases, the per-run vault and its revocation records
  (\<open>core/capability.py\<close>, \<open>core/capability_revocation.py\<close>), with the loop's lease gate, rotation
  and restore (\<open>loop.py\<close>).

  A run and its child runs share one revocation object, so the records live in a store (a map
  from addresses to revocation states) and a vault holds the address. Fresh identifiers and the
  clock are arguments. Epoch fields are floats, as the classes declare them.
\<close>

section \<open>Normalised fields\<close>

definition normalize_text :: "string \<Rightarrow> string" where
  "normalize_text s = map char_of (normalize_unicode_scalars (map of_char s))"

fun ival_of :: "pyval \<Rightarrow> ival" where
  "ival_of PNone = INone"
| "ival_of (PBool b) = IBool b"
| "ival_of (PInt n) = IInt n"
| "ival_of (PFloat f) = IFloat f"
| "ival_of (PStr s) = IStr (map of_char s)"
| "ival_of (PList vs) = IList (map ival_of vs)"
| "ival_of (PTuple vs) = ITuple (map ival_of vs)"
| "ival_of (PDict d) = IDict (map (\<lambda>(k, v). (KStr (map of_char k), ival_of v)) d)"
| "ival_of (POther s) = IOther (map of_char s)"

fun pyval_of :: "ival \<Rightarrow> pyval" where
  "pyval_of INone = PNone"
| "pyval_of (IBool b) = PBool b"
| "pyval_of (IInt n) = PInt n"
| "pyval_of (IFloat f) = PFloat f"
| "pyval_of (IStr s) = PStr (map char_of s)"
| "pyval_of (IList vs) = PList (map pyval_of vs)"
| "pyval_of (ITuple vs) = PTuple (map pyval_of vs)"
| "pyval_of (IDict d) = PDict (map (\<lambda>(k, v).
     ((case k of KStr s \<Rightarrow> map char_of s | KOther \<Rightarrow> []), pyval_of v)) d)"
| "pyval_of (IOther s) = POther (map char_of s)"

text \<open>The leaves \<open>_validate_json_scope\<close> admits; a tree has no cycle to refuse.\<close>

fun portable_json :: "pyval \<Rightarrow> bool" where
  "portable_json (PDict d) = list_all (\<lambda>p. portable_json (snd p)) d"
| "portable_json (PList vs) = list_all portable_json vs"
| "portable_json (PFloat f) = is_finite_float f"
| "portable_json (PTuple _) = False"
| "portable_json (POther _) = False"
| "portable_json _ = True"

definition validate_json_scope :: "pydict \<Rightarrow> string \<Rightarrow> unit res" where
  "validate_json_scope scope field_name = guard (portable_json (PDict scope))
     (ValueError (field_name @ '' must contain portable JSON values''))"

definition scope_ingress_opts :: ingress_opts where
  "scope_ingress_opts = \<lparr>io_substitute_nonfinite = False, io_normalize_strings = True,
     io_refuse_unportable = False, io_max_str_digits = 0\<rparr>"

definition normalize_scope :: "pydict \<Rightarrow> string \<Rightarrow> pydict res" where
  "normalize_scope scope field_name =
     res_bind (validate_json_scope scope field_name) (\<lambda>_.
     res_bind (normalize_json_ingress scope_ingress_opts (ival_of (PDict scope))) (\<lambda>w.
     case pyval_of w of PDict d \<Rightarrow> Inr d
       | _ \<Rightarrow> Inl (ValueError (field_name @ '' must be an object''))))"

section \<open>Requests, leases and grants\<close>

record capability_request =
  cr_capability :: string
  cr_scope :: pydict
  cr_run_id :: string
  cr_binding_id :: string
  cr_ttl_seconds :: int
  cr_reason :: string
  cr_request_id :: string

definition normalize_request_fields :: "capability_request \<Rightarrow> capability_request res" where
  "normalize_request_fields r =
     (let r1 = r\<lparr>cr_capability := normalize_text (cr_capability r),
                cr_run_id := normalize_text (cr_run_id r),
                cr_binding_id := normalize_text (cr_binding_id r),
                cr_reason := normalize_text (cr_reason r),
                cr_request_id := normalize_text (cr_request_id r)\<rparr> in
      if cr_capability r1 = [] \<or> cr_request_id r1 = []
      then Inl (ValueError ''capability request identities must be non-empty strings'')
      else if cr_ttl_seconds r1 \<le> 0 \<or> \<not> is_finite_json_number (PInt (cr_ttl_seconds r1))
      then Inl (ValueError ''capability request ttl_seconds must be a positive integer'')
      else res_bind (normalize_scope (cr_scope r1) ''capability request scope'') (\<lambda>s.
        Inr (r1\<lparr>cr_scope := s\<rparr>)))"

text \<open>The constructor runs the normalisation.\<close>

definition make_request :: "string \<Rightarrow> pydict \<Rightarrow> string \<Rightarrow> string \<Rightarrow> int \<Rightarrow> string \<Rightarrow> string \<Rightarrow>
    capability_request res" where
  "make_request capability scope run_id binding_id ttl reason request_id =
     normalize_request_fields \<lparr>cr_capability = capability, cr_scope = scope, cr_run_id = run_id,
       cr_binding_id = binding_id, cr_ttl_seconds = ttl, cr_reason = reason,
       cr_request_id = request_id\<rparr>"

definition CAPABILITY_REQUEST_VERSION :: string where
  "CAPABILITY_REQUEST_VERSION = namespaced_id ''capability-request.v1''"

definition request_to_json :: "capability_request \<Rightarrow> pydict res" where
  "request_to_json r0 = res_bind (normalize_request_fields r0) (\<lambda>r. Inr [
     (''protocol'', PStr CAPABILITY_REQUEST_VERSION),
     (''request_id'', PStr (cr_request_id r)),
     (''run_id'', PStr (cr_run_id r)),
     (''binding_id'', PStr (cr_binding_id r)),
     (''capability'', PStr (cr_capability r)),
     (''scope'', PDict (cr_scope r)),
     (''ttl_seconds'', PInt (cr_ttl_seconds r)),
     (''reason'', PStr (cr_reason r))])"

record capability_lease =
  cl_capability :: string
  cl_token_ref :: string
  cl_expires_at :: pyfloat
  cl_scope :: pydict
  cl_lease_id :: string
  cl_durable :: bool
  cl_issued_at :: pyfloat
  cl_max_expires_at :: "pyfloat option"

definition finite_epoch :: "pyfloat \<Rightarrow> string \<Rightarrow> pyfloat res" where
  "finite_epoch v field_name = (if is_finite_json_number (PFloat v) then Inr v
     else Inl (ValueError (field_name @ '' must be a finite number'')))"

definition lease_text :: "string \<Rightarrow> string \<Rightarrow> string res" where
  "lease_text v field_name = (if v = []
     then Inl (ValueError (''capability lease '' @ field_name @ '' must be a non-empty string''))
     else Inr (normalize_text v))"

definition validate_lease_fields :: "capability_lease \<Rightarrow> capability_lease res" where
  "validate_lease_fields l =
     res_bind (lease_text (cl_capability l) ''capability'') (\<lambda>c.
     res_bind (lease_text (cl_token_ref l) ''token_ref'') (\<lambda>t.
     res_bind (lease_text (cl_lease_id l) ''lease_id'') (\<lambda>i.
     res_bind (finite_epoch (cl_expires_at l) ''capability lease expires_at'') (\<lambda>_.
     res_bind (finite_epoch (cl_issued_at l) ''capability lease issued_at'') (\<lambda>_.
     res_bind (normalize_scope (cl_scope l) ''capability lease scope'') (\<lambda>s.
     res_bind (case cl_max_expires_at l of None \<Rightarrow> Inr (Fin 0)
               | Some m \<Rightarrow> finite_epoch m ''capability lease max_expires_at'') (\<lambda>_.
     Inr (l\<lparr>cl_capability := c, cl_token_ref := t, cl_lease_id := i, cl_scope := s\<rparr>))))))))"

definition lease_is_valid :: "capability_lease \<Rightarrow> pyfloat \<Rightarrow> bool" where
  "lease_is_valid l now = flt_lt now (cl_expires_at l)"

definition can_rotate :: "capability_lease \<Rightarrow> pyfloat \<Rightarrow> pyfloat \<Rightarrow> bool" where
  "can_rotate l now skew =
     (if \<not> lease_is_valid l now \<or> flt_lt now (flt_sub (cl_expires_at l) skew) then False
      else (case cl_max_expires_at l of None \<Rightarrow> True | Some m \<Rightarrow> flt_lt now m))"

definition CAPABILITY_LEASE_VERSION :: string where
  "CAPABILITY_LEASE_VERSION = namespaced_id ''capability-lease.v1''"

definition ACCEPTED_CAPABILITY_LEASE_VERSIONS :: "string list" where
  "ACCEPTED_CAPABILITY_LEASE_VERSIONS = accepted_namespaced_ids ''capability-lease.v1''"

definition lease_to_json :: "capability_lease \<Rightarrow> pydict res" where
  "lease_to_json l0 = res_bind (validate_lease_fields l0) (\<lambda>l. Inr [
     (''protocol'', PStr CAPABILITY_LEASE_VERSION),
     (''lease_id'', PStr (cl_lease_id l)),
     (''capability'', PStr (cl_capability l)),
     (''scope'', PDict (cl_scope l)),
     (''expires_at'', PFloat (cl_expires_at l)),
     (''token_ref'', PStr (cl_token_ref l)),
     (''durable'', PBool (cl_durable l)),
     (''issued_at'', PFloat (cl_issued_at l)),
     (''max_expires_at'', (case cl_max_expires_at l of None \<Rightarrow> PNone | Some m \<Rightarrow> PFloat m))])"

text \<open>\<open>parse_float(payload, key, default=0.0) or 0.0\<close>.\<close>

definition float_or_zero :: "pydict \<Rightarrow> string \<Rightarrow> pyfloat res" where
  "float_or_zero payload key = res_bind (parse_float payload key (Fin 0) False) (\<lambda>f.
     Inr (case f of None \<Rightarrow> Fin 0 | Some x \<Rightarrow> x))"

definition lease_from_json :: "validator \<Rightarrow> string \<Rightarrow> pyval \<Rightarrow> capability_lease res" where
  "lease_from_json va fresh_id payload0 =
     res_bind (require_object va payload0 ''capability lease'') (\<lambda>payload.
     res_bind (parse_str va payload ''protocol'' []) (\<lambda>protocol.
     if protocol \<noteq> [] \<and> protocol \<notin> set ACCEPTED_CAPABILITY_LEASE_VERSIONS
     then Inl (ValueError ''unsupported capability lease protocol'')
     else
     res_bind (if dhas ''max_expires_at'' payload
               then parse_float payload ''max_expires_at'' (Fin 0) True else Inr None) (\<lambda>mx.
     res_bind (case map_of payload ''scope'' of None \<Rightarrow> Inr []
               | Some s \<Rightarrow> require_object va s ''scope'') (\<lambda>scope.
     res_bind (parse_str va payload ''capability'' []) (\<lambda>capability.
     res_bind (parse_str va payload ''token_ref'' []) (\<lambda>token_ref.
     res_bind (float_or_zero payload ''expires_at'') (\<lambda>expires_at.
     res_bind (parse_bool va payload ''durable'' False) (\<lambda>durable.
     res_bind (float_or_zero payload ''issued_at'') (\<lambda>issued_at.
     res_bind (parse_str va payload ''lease_id'' []) (\<lambda>lease_id.
     validate_lease_fields \<lparr>cl_capability = capability, cl_token_ref = token_ref,
       cl_expires_at = expires_at, cl_scope = scope,
       cl_lease_id = (if lease_id \<noteq> [] then lease_id else fresh_id), cl_durable = durable,
       cl_issued_at = issued_at, cl_max_expires_at = mx\<rparr>))))))))))"

record capability_denial =
  cd_capability :: string
  cd_reason :: string
  cd_retryable :: bool

record capability_pending =
  cp_request :: capability_request
  cp_prompt :: string

datatype capability_grant =
    GLease capability_lease
  | GDenial capability_denial
  | GPending capability_pending

section \<open>Revocation records\<close>

record revocation_state =
  rv_lease_ids :: "string set"
  rv_capabilities :: "string set"
  rv_before :: pyfloat
  rv_all_revoked :: bool

definition empty_revocations :: revocation_state where
  "empty_revocations = \<lparr>rv_lease_ids = {}, rv_capabilities = {}, rv_before = Fin 0,
     rv_all_revoked = False\<rparr>"

definition apply_capability_revocation :: "revocation_state \<Rightarrow> string option \<Rightarrow> string option \<Rightarrow>
    pyfloat option \<Rightarrow> revocation_state \<times> pydict" where
  "apply_capability_revocation st0 capability lease_id before =
     (let (st1, revoked_caps) =
        (case capability of
           None \<Rightarrow> (st0, [])
         | Some c \<Rightarrow>
             if c = ''*'' then (st0\<lparr>rv_all_revoked := True\<rparr>, [''*''])
             else if c \<noteq> [] then (st0\<lparr>rv_capabilities := insert c (rv_capabilities st0)\<rparr>, [c])
             else (st0, []));
      st2 = (case lease_id of
           None \<Rightarrow> st1
         | Some l \<Rightarrow> if l \<noteq> [] then st1\<lparr>rv_lease_ids := insert l (rv_lease_ids st1)\<rparr> else st1);
      st3 = (case before of
           None \<Rightarrow> st2
         | Some b \<Rightarrow> st2\<lparr>rv_before := flt_max (rv_before st2) b\<rparr>)
      in (st3, [(''capabilities'', PList (map PStr revoked_caps)),
                (''lease_id'', PStr (case lease_id of None \<Rightarrow> [] | Some l \<Rightarrow> l)),
                (''revoked_before'', PFloat (rv_before st3))]))"

definition is_lease_revoked :: "revocation_state \<Rightarrow> capability_lease \<Rightarrow> bool" where
  "is_lease_revoked st l \<longleftrightarrow>
     rv_all_revoked st \<or> cl_lease_id l \<in> rv_lease_ids st \<or>
     cl_capability l \<in> rv_capabilities st \<or> flt_lt (cl_issued_at l) (rv_before st)"

definition is_capability_revoked :: "revocation_state \<Rightarrow> string \<Rightarrow> bool" where
  "is_capability_revoked st c \<longleftrightarrow> rv_all_revoked st \<or> c \<in> rv_capabilities st"

text \<open>The serialised form: the keyword arguments of the import.\<close>

record revocation_export =
  re_lease_ids :: "string list"
  re_capabilities :: "string list"
  re_before :: pyfloat
  re_all :: bool

definition export_revocation_state :: "revocation_state \<Rightarrow> revocation_export" where
  "export_revocation_state st =
     (let capabilities = sorted_list_of_set (rv_capabilities st) in
      \<lparr>re_lease_ids = sorted_list_of_set (rv_lease_ids st),
       re_capabilities = (if rv_all_revoked st \<and> ''*'' \<notin> set capabilities
          then ''*'' # capabilities else capabilities),
       re_before = rv_before st,
       re_all = rv_all_revoked st\<rparr>)"

definition import_revocation_state ::
    "revocation_state \<Rightarrow> revocation_export \<Rightarrow> revocation_state" where
  "import_revocation_state st e =
     (let star = ''*'' \<in> set (re_capabilities e) in
      st\<lparr>rv_lease_ids := rv_lease_ids st \<union> set (re_lease_ids e),
         rv_capabilities := rv_capabilities st \<union> (set (re_capabilities e) - {''*''}),
         rv_before := flt_max (rv_before st) (re_before e),
         rv_all_revoked := rv_all_revoked st \<or> (re_all e \<or> star)\<rparr>)"

section \<open>The vault\<close>

type_synonym rev_store = "nat \<Rightarrow> revocation_state"

record vault =
  va_leases :: "(string \<times> capability_lease) list"
  va_revocations :: nat

definition get_valid :: "(pyval \<Rightarrow> string) \<Rightarrow> rev_store \<Rightarrow> vault \<Rightarrow> string \<Rightarrow> pydict \<Rightarrow> pyfloat \<Rightarrow>
    capability_lease option res" where
  "get_valid rp h v capability scope now = (case map_of (va_leases v) capability of
      None \<Rightarrow> Inr None
    | Some lease \<Rightarrow>
        if \<not> lease_is_valid lease now \<or> is_lease_revoked (h (va_revocations v)) lease
        then Inr None
        else res_bind (scope_within rp DEFAULT_NUMERIC_SCOPE_CAP_KEYS scope (cl_scope lease))
          (\<lambda>ok. Inr (if ok then Some lease else None)))"

definition token_for :: "rev_store \<Rightarrow> vault \<Rightarrow> string \<Rightarrow> pyfloat \<Rightarrow> string option" where
  "token_for h v capability now = (case map_of (va_leases v) capability of
      None \<Rightarrow> None
    | Some lease \<Rightarrow>
        if \<not> lease_is_valid lease now \<or> is_lease_revoked (h (va_revocations v)) lease then None
        else Some (cl_token_ref lease))"

definition admit :: "(pyval \<Rightarrow> string) \<Rightarrow> vault \<Rightarrow> capability_request \<Rightarrow> capability_lease \<Rightarrow>
    (vault \<times> capability_lease) res" where
  "admit rp v request0 lease0 =
     res_bind (normalize_request_fields request0) (\<lambda>request.
     res_bind (validate_lease_fields lease0) (\<lambda>lease.
     res_bind (validate_lease_admission rp (cr_capability request) (cr_scope request)
                 (cl_capability lease) (cl_scope lease)) (\<lambda>_.
     Inr (v\<lparr>va_leases := AList.update (cl_capability lease) lease (va_leases v)\<rparr>, lease))))"

definition vault_revoke :: "rev_store \<Rightarrow> vault \<Rightarrow> string option \<Rightarrow> string option \<Rightarrow>
    pyfloat option \<Rightarrow> rev_store \<times> pydict" where
  "vault_revoke h v capability lease_id before =
     (let (st, summary) =
        apply_capability_revocation (h (va_revocations v)) capability lease_id before
      in (h(va_revocations v := st), summary))"

definition vault_is_capability_revoked :: "rev_store \<Rightarrow> vault \<Rightarrow> string \<Rightarrow> bool" where
  "vault_is_capability_revoked h v capability =
     is_capability_revoked (h (va_revocations v)) capability"

definition export_durable :: "vault \<Rightarrow> pydict list res" where
  "export_durable v = res_map lease_to_json (filter cl_durable (map snd (va_leases v)))"

definition export_revocations :: "rev_store \<Rightarrow> vault \<Rightarrow> revocation_export" where
  "export_revocations h v = export_revocation_state (h (va_revocations v))"

definition import_revocations :: "rev_store \<Rightarrow> vault \<Rightarrow> revocation_export \<Rightarrow> rev_store" where
  "import_revocations h v e =
     h(va_revocations v := import_revocation_state (h (va_revocations v)) e)"

definition install :: "vault \<Rightarrow> capability_lease \<Rightarrow> vault res" where
  "install v lease0 = res_bind (validate_lease_fields lease0) (\<lambda>lease.
     Inr (v\<lparr>va_leases := AList.update (cl_capability lease) lease (va_leases v)\<rparr>))"

fun install_all :: "vault \<Rightarrow> capability_lease list \<Rightarrow> vault res" where
  "install_all v [] = Inr v"
| "install_all v (l # ls) = res_bind (install v l) (\<lambda>v'. install_all v' ls)"

definition fork_for_child :: "vault \<Rightarrow> vault res" where
  "fork_for_child v =
     install_all \<lparr>va_leases = [], va_revocations = va_revocations v\<rparr>
       (filter cl_durable (map snd (va_leases v)))"

text \<open>The restore of \<open>loop.py\<close>: decode and reinstall the durable leases one by one, then
  merge the revocations.\<close>

fun restore_leases :: "validator \<Rightarrow> string \<Rightarrow> vault \<Rightarrow> pydict list \<Rightarrow> vault res" where
  "restore_leases va fresh_id v [] = Inr v"
| "restore_leases va fresh_id v (p # ps) =
     res_bind (lease_from_json va fresh_id (PDict p)) (\<lambda>l.
     res_bind (install v l) (\<lambda>v'. restore_leases va fresh_id v' ps))"

definition restore_vault :: "validator \<Rightarrow> string \<Rightarrow> rev_store \<Rightarrow> vault \<Rightarrow> pydict list \<Rightarrow>
    revocation_export \<Rightarrow> (rev_store \<times> vault) res" where
  "restore_vault va fresh_id h v payloads e =
     res_bind (restore_leases va fresh_id v payloads) (\<lambda>v'.
     Inr (import_revocations h v' e, v'))"

section \<open>Brokers\<close>

definition auto_grant_request :: "int \<Rightarrow> pyfloat \<Rightarrow> pyfloat \<Rightarrow> string \<Rightarrow> capability_request \<Rightarrow>
    capability_grant res" where
  "auto_grant_request ttl_seconds clock issued_at fresh_id req =
     res_bind (float_of_int (if cr_ttl_seconds req \<noteq> 0 then cr_ttl_seconds req else ttl_seconds))
       (\<lambda>ttl.
     res_bind (validate_lease_fields \<lparr>cl_capability = cr_capability req,
       cl_token_ref = ''auto:'' @ cr_capability req, cl_expires_at = flt_add clock ttl,
       cl_scope = cr_scope req, cl_lease_id = fresh_id, cl_durable = False,
       cl_issued_at = issued_at, cl_max_expires_at = None\<rparr>) (\<lambda>l. Inr (GLease l)))"

section \<open>The lease gate of the loop\<close>

datatype cap_event =
    EvDenied string string string bool
  | EvRejected string string exn
  | EvRevoked string pydict
  | EvRequested string string string pydict string
  | EvGranted string string string pyfloat pydict
  | EvRotated string string string pyfloat

record gate_state =
  gs_vault :: vault
  gs_events :: "cap_event list"
  gs_tasks :: "pydict list"

record gate_call =
  gc_requirement :: pyval
  gc_capability :: string
  gc_scope :: pydict
  gc_binding_id :: string
  gc_run_id :: string
  gc_reason :: string
  gc_request_id :: string
  gc_now :: pyfloat
  gc_skew :: pyfloat
  gc_replay :: pydict

type_synonym broker = "capability_request \<Rightarrow> capability_grant"

definition emit_cap :: "cap_event \<Rightarrow> gate_state \<Rightarrow> gate_state" where
  "emit_cap e gs = gs\<lparr>gs_events := gs_events gs @ [e]\<rparr>"

definition rotated_lease :: "capability_lease \<Rightarrow> capability_lease \<Rightarrow> capability_lease" where
  "rotated_lease current grant =
     grant\<lparr>cl_durable := cl_durable current, cl_max_expires_at := cl_max_expires_at current,
           cl_expires_at := (case cl_max_expires_at current of
              None \<Rightarrow> cl_expires_at grant
            | Some limit \<Rightarrow> flt_min (cl_expires_at grant) limit)\<rparr>"

definition rotate_capability_lease :: "(pyval \<Rightarrow> string) \<Rightarrow> broker option \<Rightarrow> gate_call \<Rightarrow>
    capability_lease \<Rightarrow> gate_state \<Rightarrow> gate_state res" where
  "rotate_capability_lease rp broker c current gs = (case broker of
      None \<Rightarrow> Inr gs
    | Some ask \<Rightarrow>
        res_bind (make_request (gc_capability c) (gc_scope c) (gc_run_id c) (gc_binding_id c)
                    600 [] (gc_request_id c)) (\<lambda>request.
        case ask request of
          GDenial _ \<Rightarrow> Inr gs
        | GPending _ \<Rightarrow> Inr gs
        | GLease grant \<Rightarrow>
            res_bind (validate_lease_fields (rotated_lease current grant)) (\<lambda>rotated.
            case admit rp (gs_vault gs) request rotated of
              Inl e \<Rightarrow> if is_value_error e then Inr gs else Inl e
            | Inr (v, lease) \<Rightarrow> Inr (emit_cap (EvRotated (gc_capability c) (cl_lease_id current)
                (cl_lease_id lease) (cl_expires_at lease)) (gs\<lparr>gs_vault := v\<rparr>)))))"

definition pending_task :: "gate_call \<Rightarrow> capability_request \<Rightarrow> string \<Rightarrow> pydict" where
  "pending_task c request prompt =
     [(''capability'', PStr (gc_capability c)), (''scope'', PDict (gc_scope c)),
      (''binding_id'', PStr (gc_binding_id c)), (''request_id'', PStr (cr_request_id request)),
      (''ttl_seconds'', PInt (cr_ttl_seconds request)), (''reason'', PStr (cr_reason request)),
      (''prompt'', PStr prompt)] @ gc_replay c"

datatype gate_outcome = Proceed | PendingCapability pydict

text \<open>The result carries the state also when the call raises: events are emitted before.\<close>

definition ensure_capability_lease :: "(pyval \<Rightarrow> string) \<Rightarrow> rev_store \<Rightarrow> broker option \<Rightarrow>
    gate_call \<Rightarrow> gate_state \<Rightarrow> gate_state \<times> gate_outcome res" where
  "ensure_capability_lease rp h broker c gs =
     (if \<not> py_truthy (gc_requirement c) then (gs, Inr Proceed)
      else if gc_capability c = [] then (gs, Inl (PermissionDenied ''capability_required''))
      else case broker of
        None \<Rightarrow>
          if gc_requirement c = PStr ''optional'' then (gs, Inr Proceed)
          else (emit_cap (EvDenied (gc_capability c) (gc_binding_id c)
                  ''capability broker required'' False) gs,
                Inl (PermissionDenied ''capability_broker_required''))
      | Some ask \<Rightarrow>
          if vault_is_capability_revoked h (gs_vault gs) (gc_capability c)
          then (emit_cap (EvRevoked (gc_capability c) (gc_scope c)) gs,
                Inl (PermissionDenied ''capability_revoked''))
          else
          (case get_valid rp h (gs_vault gs) (gc_capability c) (gc_scope c) (gc_now c) of
             Inl e \<Rightarrow> (gs, Inl e)
           | Inr (Some cached) \<Rightarrow>
               if flt_lt (Fin 0) (gc_skew c) \<and> can_rotate cached (gc_now c) (gc_skew c)
               then (case rotate_capability_lease rp broker c cached gs of
                   Inl e \<Rightarrow> (gs, Inl e)
                 | Inr gs' \<Rightarrow> (gs', Inr Proceed))
               else (gs, Inr Proceed)
           | Inr None \<Rightarrow>
               (case make_request (gc_capability c) (gc_scope c) (gc_run_id c) (gc_binding_id c)
                       600 (gc_reason c) (gc_request_id c) of
                  Inl e \<Rightarrow> (gs, Inl e)
                | Inr request \<Rightarrow>
                  let gs1 = emit_cap (EvRequested (gc_capability c) (gc_binding_id c)
                        (cr_request_id request) (gc_scope c) (cr_reason request)) gs in
                  (case ask request of
                     GDenial d \<Rightarrow> (emit_cap (EvDenied (gc_capability c) (gc_binding_id c)
                         (cd_reason d) (cd_retryable d)) gs1,
                       Inl (PermissionDenied ''capability_denied''))
                   | GPending p \<Rightarrow>
                       let t = pending_task c request (cp_prompt p) in
                       (gs1\<lparr>gs_tasks := gs_tasks gs1 @ [t]\<rparr>, Inr (PendingCapability t))
                   | GLease grant \<Rightarrow>
                       (case admit rp (gs_vault gs1) request grant of
                          Inl e \<Rightarrow> if is_value_error e
                            then (emit_cap (EvRejected (gc_capability c) (gc_binding_id c) e) gs1,
                                  Inl (PermissionDenied ''capability_scope_widened''))
                            else (gs1, Inl e)
                        | Inr (v, lease) \<Rightarrow>
                            (emit_cap (EvGranted (gc_capability c) (gc_binding_id c)
                               (cl_lease_id lease) (cl_expires_at lease) (cl_scope lease))
                               (gs1\<lparr>gs_vault := v\<rparr>), Inr Proceed))))))"

section \<open>Grants reported through a task\<close>

text \<open>\<open>dict(d.get(k) or {})\<close>.\<close>

definition dict_or_empty :: "pydict \<Rightarrow> string \<Rightarrow> pydict res" where
  "dict_or_empty d k = (let v = dget d k in
     if \<not> py_truthy v then Inr []
     else case v of PDict e \<Rightarrow> Inr e | _ \<Rightarrow> Inl (TypeError ''cannot convert to dict''))"

record redispatch_state =
  rd_gate :: gate_state
  rd_replays :: "pydict list"

definition capability_replay :: "(pyval \<Rightarrow> string) \<Rightarrow> pydict \<Rightarrow> string \<Rightarrow> string \<Rightarrow> string \<Rightarrow>
    pydict res" where
  "capability_replay rp req binding_id capability task_id =
     res_bind (dict_or_empty req ''replay_arguments'') (\<lambda>arguments.
     res_bind (if dget req ''replay_approved_tool_approval'' = PNone then Inr PNone
               else res_bind (dict_or_empty req ''replay_approved_tool_approval'') (\<lambda>a.
                 Inr (PDict a))) (\<lambda>approved.
     Inr [(''call_name'', PStr (str_of rp (dget req ''replay_call_name''))),
          (''call_id'', PStr (dget_str rp req ''replay_call_id'')),
          (''arguments'', PDict arguments),
          (''binding_id'', PStr binding_id),
          (''capability'', PStr capability),
          (''task_id'', PStr task_id),
          (''approved_tool_approval'', approved)]))"

definition admit_capability_grant :: "(pyval \<Rightarrow> string) \<Rightarrow> validator \<Rightarrow> string \<Rightarrow> string \<Rightarrow> string \<Rightarrow>
    bool \<Rightarrow> string \<Rightarrow> pyval \<Rightarrow> pyval \<Rightarrow> redispatch_state \<Rightarrow> redispatch_state res" where
  "admit_capability_grant rp va fresh_lease fresh_req run_id auto_redispatch task_id
      request_payload result_payload st =
     (case (request_payload, result_payload) of
        (PDict req, PDict result) \<Rightarrow>
          (case map_of result ''lease'' of
             Some (PDict lease_payload) \<Rightarrow>
               res_bind (dict_or_empty req ''scope'') (\<lambda>scope.
               res_bind (make_request (dget_str rp req ''capability'') scope run_id
                           (dget_str rp req ''binding_id'') 600 [] fresh_req) (\<lambda>request.
               res_bind (lease_from_json va fresh_lease (PDict lease_payload)) (\<lambda>decoded.
               res_bind (validate_lease_fields (decoded\<lparr>cl_durable := True\<rparr>)) (\<lambda>lease0.
               case admit rp (gs_vault (rd_gate st)) request lease0 of
                 Inl e \<Rightarrow> if is_value_error e
                   then Inr (st\<lparr>rd_gate := emit_cap (EvRejected (cr_capability request)
                          (cr_binding_id request) e) (rd_gate st)\<rparr>)
                   else Inl e
               | Inr (v, lease) \<Rightarrow>
                   let st1 = st\<lparr>rd_gate := emit_cap (EvGranted (cr_capability request)
                         (cr_binding_id request) (cl_lease_id lease) (cl_expires_at lease)
                         (cl_scope lease)) ((rd_gate st)\<lparr>gs_vault := v\<rparr>)\<rparr> in
                   if auto_redispatch \<and> py_truthy (dget req ''replay_call_name'')
                   then res_bind (capability_replay rp req (cr_binding_id request)
                           (cr_capability request) task_id) (\<lambda>replay.
                          Inr (st1\<lparr>rd_replays := rd_replays st1 @ [replay]\<rparr>))
                   else Inr st1))))
           | _ \<Rightarrow> Inr st)
      | _ \<Rightarrow> Inr st)"

text \<open>The first test of the replay of a gated call: run only while a lease is live.\<close>

definition replay_may_run :: "(pyval \<Rightarrow> string) \<Rightarrow> rev_store \<Rightarrow> vault \<Rightarrow> pydict \<Rightarrow> pyfloat \<Rightarrow> bool" where
  "replay_may_run rp h v replay now =
     (let capability = dget_str rp replay ''capability'' in
      capability \<noteq> [] \<and> token_for h v capability now \<noteq> None)"

section \<open>The scope a tool asks for\<close>

text \<open>\<open>int(v)\<close>; the reading of a string is the parameter \<open>ip\<close>.\<close>

fun py_int :: "(string \<Rightarrow> int option) \<Rightarrow> pyval \<Rightarrow> int res" where
  "py_int ip (PInt n) = Inr n"
| "py_int ip (PBool b) = Inr (if b then 1 else 0)"
| "py_int ip (PFloat (Fin r)) = Inr (if 0 \<le> r then \<lfloor>r\<rfloor> else - \<lfloor>- r\<rfloor>)"
| "py_int ip (PFloat NaN) = Inl (ValueError ''cannot convert float NaN to integer'')"
| "py_int ip (PFloat _) = Inl OverflowError"
| "py_int ip (PStr s) = (case ip s of Some n \<Rightarrow> Inr n
     | None \<Rightarrow> Inl (ValueError ''invalid literal for int()''))"
| "py_int ip _ = Inl (TypeError ''int() argument'')"

definition setdefault :: "string \<Rightarrow> pyval \<Rightarrow> pydict \<Rightarrow> pydict" where
  "setdefault k v d = (if dhas k d then d else d @ [(k, v)])"

text \<open>\<open>w.get(k1, w.get(k2, default))\<close> and \<open>scope.setdefault(key, max(lo, int(...)))\<close>.\<close>

definition get_either :: "pydict \<Rightarrow> string \<Rightarrow> string \<Rightarrow> int \<Rightarrow> pyval" where
  "get_either w k1 k2 d = (case map_of w k1 of Some v \<Rightarrow> v
     | None \<Rightarrow> (case map_of w k2 of Some v \<Rightarrow> v | None \<Rightarrow> PInt d))"

definition default_cap :: "(string \<Rightarrow> int option) \<Rightarrow> pydict \<Rightarrow> string \<Rightarrow> string \<Rightarrow> string \<Rightarrow> int \<Rightarrow>
    int \<Rightarrow> pydict \<Rightarrow> pydict res" where
  "default_cap ip w key k1 k2 d lo scope = res_bind (py_int ip (get_either w k1 k2 d)) (\<lambda>n.
     Inr (setdefault key (PInt (max lo n)) scope))"

definition web_runtime_of :: "pyval \<Rightarrow> pydict" where
  "web_runtime_of runtime = (case runtime of
      PDict r \<Rightarrow> (case map_of r ''web'' of None \<Rightarrow> r | Some (PDict w) \<Rightarrow> w | Some _ \<Rightarrow> [])
    | _ \<Rightarrow> [])"

text \<open>The sequences of \<open>setdefault\<close> of the three web features: key, the two runtime names in
  order of preference, the default and the minimum.\<close>

type_synonym cap_row = "string \<times> string \<times> string \<times> int \<times> int"

fun default_caps :: "(string \<Rightarrow> int option) \<Rightarrow> pydict \<Rightarrow> cap_row list \<Rightarrow> pydict \<Rightarrow> pydict res" where
  "default_caps ip w [] scope = Inr scope"
| "default_caps ip w ((key, k1, k2, d, lo) # rows) scope =
     res_bind (default_cap ip w key k1 k2 d lo scope) (default_caps ip w rows)"

definition web_feature_caps :: "string \<Rightarrow> cap_row list option" where
  "web_feature_caps capability =
     (if capability = ''web.search'' then Some
        [(''max_calls'', ''max_calls'', ''max_search_calls'', 20, 0),
         (''max_results'', ''max_results'', ''max_results'', 10, 1)]
      else if capability = ''web.fetch'' then Some
        [(''max_calls'', ''max_calls'', ''max_fetch_calls'', 50, 0),
         (''max_bytes'', ''max_response_bytes'', ''max_bytes'', 1000000, 1),
         (''timeout_s'', ''max_timeout_s'', ''timeout_s'', 60, 1)]
      else if capability = ''web.context'' then Some
        [(''max_calls'', ''max_calls'', ''max_context_calls'', 10, 0),
         (''max_tokens'', ''max_context_tokens'', ''max_tokens'', 32768, 1),
         (''max_urls'', ''max_context_urls'', ''max_urls'', 20, 1),
         (''max_snippets'', ''max_context_snippets'', ''max_snippets'', 256, 1)]
      else None)"

definition capability_scope_for_tool :: "(string \<Rightarrow> int option) \<Rightarrow> pydict \<Rightarrow> string \<Rightarrow> string \<Rightarrow>
    pyval \<Rightarrow> pydict res" where
  "capability_scope_for_tool ip binding_scope capability binding_id runtime =
     (let scope = filter (\<lambda>p. py_truthy (snd p)) binding_scope in
      case web_feature_caps capability of
        None \<Rightarrow> Inr scope
      | Some rows \<Rightarrow> default_caps ip (web_runtime_of runtime) rows
          (setdefault ''binding_id'' (PStr binding_id) scope))"

section \<open>Laws of normalised fields\<close>

lemma of_char_lt: "(of_char c :: nat) < 256"
  by (metis nat_of_char_less_256)

lemma of_char_scalar [simp]: "\<not> is_surrogate (of_char c)"
  unfolding is_surrogate_def using of_char_lt [of c] by linarith

lemma chars_no_surrogates [simp]: "no_surrogates (map of_char s)"
  by (simp add: list_all_iff)

lemma map_char_of_char [simp]: "map char_of (map of_char s :: nat list) = s"
  by (induction s) simp_all

lemma normalize_text_id [simp]: "normalize_text s = s"
  unfolding normalize_text_def by (simp add: normalize_id del: map_map)

lemma pyval_of_ival_of [simp]: "pyval_of (ival_of v) = v"
proof (induction v)
  case (PStr s)
  show ?case using map_char_of_char [of s] by (simp del: map_map map_char_of_char)
next
  case (POther s)
  show ?case using map_char_of_char [of s] by (simp del: map_map map_char_of_char)
next
  case (PDict d)
  have "(\<lambda>(k, v). ((case k of KStr s \<Rightarrow> map char_of s | KOther \<Rightarrow> []), pyval_of v))
      (case p of (k, v) \<Rightarrow> (KStr (map of_char k), ival_of v)) = p" if "p \<in> set d" for p
  proof -
    obtain k v where p: "p = (k, v)" by (cases p)
    have "pyval_of (ival_of v) = v" using PDict [of p v] that by (simp add: p)
    then show ?thesis using map_char_of_char [of k]
      by (simp add: p del: map_map map_char_of_char)
  qed
  then have "map (\<lambda>(k, v). ((case k of KStr s \<Rightarrow> map char_of s | KOther \<Rightarrow> []), pyval_of v))
      (map (\<lambda>(k, v). (KStr (map of_char k), ival_of v)) d) = d"
    by (simp add: comp_def map_idI)
  then show ?case by (simp del: map_map)
qed (simp_all add: map_idI)

lemma ival_of_normal:
  "portable_json v \<Longrightarrow> wf_val v \<Longrightarrow> ingress_normal scope_ingress_opts (ival_of v)"
proof (induction v)
  case (PDict d)
  have inj: "inj (\<lambda>k :: string. KStr (map of_char k))"
    by (rule injI) (metis ikey.inject map_char_of_char)
  have "map fst (map (\<lambda>(k, v). (KStr (map of_char k), ival_of v)) d) =
      map (\<lambda>k. KStr (map of_char k)) (map fst d)"
    by auto
  then have "distinct (map fst (map (\<lambda>(k, v). (KStr (map of_char k), ival_of v)) d))"
    using PDict.prems inj_on_subset [OF inj subset_UNIV]
    by (simp add: distinct_map [of _ "map fst d"] del: map_map)
  moreover have "ingress_normal scope_ingress_opts (ival_of v)" if "(k, v) \<in> set d" for k v
    using PDict.IH [of "(k, v)" v] PDict.prems that by (fastforce simp: list_all_iff)
  ultimately show ?case by (auto simp: list_all_iff simp del: map_map)
qed (auto simp: list_all_iff scope_ingress_opts_def)

lemma normalize_scope_wf:
  assumes "wf_val (PDict d)"
  shows "normalize_scope d n = (if portable_json (PDict d) then Inr d
     else Inl (ValueError (n @ '' must contain portable JSON values'')))"
proof (cases "portable_json (PDict d)")
  case True
  have "ingress_walk scope_ingress_opts (ival_of (PDict d)) = Inr (ival_of (PDict d))"
    by (intro ingress_walk_id ival_of_normal True assms)
  then have "normalize_json_ingress scope_ingress_opts (ival_of (PDict d)) =
      Inr (ival_of (PDict d))"
    unfolding normalize_json_ingress_def by (simp add: scope_ingress_opts_def)
  with True show ?thesis
    unfolding normalize_scope_def validate_json_scope_def
    by (simp del: ival_of.simps portable_json.simps)
next
  case False
  then show ?thesis
    unfolding normalize_scope_def validate_json_scope_def by (simp del: portable_json.simps)
qed

text \<open>What a lease that passed validation is: unchanged, with identities and finite epochs.\<close>

definition wf_lease :: "capability_lease \<Rightarrow> bool" where
  "wf_lease l \<longleftrightarrow> cl_capability l \<noteq> [] \<and> cl_token_ref l \<noteq> [] \<and> cl_lease_id l \<noteq> [] \<and>
     is_finite_float (cl_expires_at l) \<and> is_finite_float (cl_issued_at l) \<and>
     portable_json (PDict (cl_scope l)) \<and>
     (\<forall>m. cl_max_expires_at l = Some m \<longrightarrow> is_finite_float m)"

lemma finite_epoch_iff [simp]: "finite_epoch v n = Inr w \<longleftrightarrow> w = v \<and> is_finite_float v"
  by (auto simp: finite_epoch_def is_finite_json_number_def)

lemma lease_text_iff [simp]: "lease_text v n = Inr w \<longleftrightarrow> w = v \<and> v \<noteq> []"
  by (auto simp: lease_text_def)

lemma validate_lease_fields_wf:
  assumes "wf_val (PDict (cl_scope l))"
  shows "validate_lease_fields l = Inr l' \<longleftrightarrow> l' = l \<and> wf_lease l"
proof -
  have eq: "l\<lparr>cl_capability := cl_capability l, cl_token_ref := cl_token_ref l,
      cl_lease_id := cl_lease_id l, cl_scope := cl_scope l\<rparr> = l" by simp
  show ?thesis
    unfolding validate_lease_fields_def res_bind_eq_Inr normalize_scope_wf [OF assms] wf_lease_def
    by (auto simp: eq split: option.splits simp del: portable_json.simps)
qed

lemma lease_from_to_json:
  assumes "pydantic_strict va" and "wf_val (PDict (cl_scope l))" and "lease_to_json l = Inr p"
  shows "lease_from_json va fresh_id (PDict p) = Inr l"
proof -
  from assms(3) obtain l' where l': "validate_lease_fields l = Inr l'"
    by (auto simp: lease_to_json_def res_bind_eq_Inr)
  then have eq: "l' = l" and wf: "wf_lease l"
    using validate_lease_fields_wf [OF assms(2)] by auto
  have v: "validate_lease_fields l = Inr l" using l' eq by simp
  have fin: "is_finite_json_number (PFloat (cl_expires_at l))"
      "is_finite_json_number (PFloat (cl_issued_at l))"
      "\<And>m. cl_max_expires_at l = Some m \<Longrightarrow> is_finite_json_number (PFloat m)"
    using wf by (auto simp: wf_lease_def is_finite_json_number_def)
  have id: "cl_lease_id l \<noteq> []" using wf by (simp add: wf_lease_def)
  have acc: "CAPABILITY_LEASE_VERSION \<in> set ACCEPTED_CAPABILITY_LEASE_VERSIONS"
    by (simp add: ACCEPTED_CAPABILITY_LEASE_VERSIONS_def CAPABILITY_LEASE_VERSION_def
        accepted_namespaced_ids_iff)
  have p: "p = [(''protocol'', PStr CAPABILITY_LEASE_VERSION),
     (''lease_id'', PStr (cl_lease_id l)), (''capability'', PStr (cl_capability l)),
     (''scope'', PDict (cl_scope l)), (''expires_at'', PFloat (cl_expires_at l)),
     (''token_ref'', PStr (cl_token_ref l)), (''durable'', PBool (cl_durable l)),
     (''issued_at'', PFloat (cl_issued_at l)),
     (''max_expires_at'', (case cl_max_expires_at l of None \<Rightarrow> PNone | Some m \<Rightarrow> PFloat m))]"
    using assms(3) v by (simp add: lease_to_json_def)
  have mx: "parse_float p ''max_expires_at'' (Fin 0) True = Inr (cl_max_expires_at l)"
    using fin(3) by (cases "cl_max_expires_at l") (simp_all add: p parse_float_def)
  have e: "float_or_zero p ''expires_at'' = Inr (cl_expires_at l)"
      "float_or_zero p ''issued_at'' = Inr (cl_issued_at l)"
    using fin(1,2) by (simp_all add: p parse_float_def float_or_zero_def)
  have strs: "parse_str va p ''protocol'' [] = Inr CAPABILITY_LEASE_VERSION"
      "parse_str va p ''capability'' [] = Inr (cl_capability l)"
      "parse_str va p ''token_ref'' [] = Inr (cl_token_ref l)"
      "parse_str va p ''lease_id'' [] = Inr (cl_lease_id l)"
      "parse_bool va p ''durable'' False = Inr (cl_durable l)"
    by (simp_all add: p parse_str_strict [OF assms(1)] parse_bool_strict [OF assms(1)])
  have sc: "map_of p ''scope'' = Some (PDict (cl_scope l))" "dhas ''max_expires_at'' p"
    by (simp_all add: p)
  have v': "validate_lease_fields \<lparr>cl_capability = cl_capability l,
      cl_token_ref = cl_token_ref l, cl_expires_at = cl_expires_at l, cl_scope = cl_scope l,
      cl_lease_id = cl_lease_id l, cl_durable = cl_durable l, cl_issued_at = cl_issued_at l,
      cl_max_expires_at = cl_max_expires_at l\<rparr> = Inr l"
    using v by (cases l) simp
  show ?thesis
    unfolding lease_from_json_def require_object_strict [OF assms(1)]
    using acc id by (simp add: strs mx e sc v' del: dhas_iff)
qed

section \<open>Laws of revocation\<close>

text \<open>The contract of a revocation record: it only grows under every operation on it, and a
  blocked capability covers each of its leases.\<close>

locale revocation_record =
  fixes covers :: "'st \<Rightarrow> 'lease \<Rightarrow> bool"
    and blocks :: "'st \<Rightarrow> 'cap \<Rightarrow> bool"
    and act :: "'op \<Rightarrow> 'st \<Rightarrow> 'st"
    and cap_of :: "'lease \<Rightarrow> 'cap"
  assumes act_covers: "covers st l \<Longrightarrow> covers (act x st) l"
    and act_blocks: "blocks st c \<Longrightarrow> blocks (act x st) c"
    and blocks_covers: "blocks st (cap_of l) \<Longrightarrow> covers st l"
begin

lemma covers_sticky: "covers st l \<Longrightarrow> covers (fold act xs st) l"
  by (induction xs arbitrary: st) (auto intro: act_covers)

lemma blocks_sticky: "blocks st c \<Longrightarrow> blocks (fold act xs st) c"
  by (induction xs arbitrary: st) (auto intro: act_blocks)

lemma blocked_lease_dead: "blocks st (cap_of l) \<Longrightarrow> covers (fold act xs st) l"
  by (intro covers_sticky blocks_covers)

end

text \<open>The operations the vault performs on its record.\<close>

datatype revocation_op =
    RevokeOp "string option" "string option" "pyfloat option"
  | ImportOp revocation_export

fun revocation_act :: "revocation_op \<Rightarrow> revocation_state \<Rightarrow> revocation_state" where
  "revocation_act (RevokeOp c l b) st = fst (apply_capability_revocation st c l b)"
| "revocation_act (ImportOp e) st = import_revocation_state st e"

lemma flt_lt_max2: "flt_lt a c \<Longrightarrow> b \<noteq> NaN \<Longrightarrow> flt_lt a (flt_max b c)"
  by (cases a; cases b; cases c) (auto simp: flt_max_def)

lemma flt_lt_max: "flt_lt a b \<Longrightarrow> flt_lt a (flt_max b c)"
  by (auto simp: flt_max_def intro: flt_lt_trans)

lemmas revocation_defs = apply_capability_revocation_def import_revocation_state_def
  is_lease_revoked_def is_capability_revoked_def Let_def

lemma revocation_act_covers:
  "is_lease_revoked st l \<Longrightarrow> is_lease_revoked (revocation_act x st) l"
  by (cases x) (auto simp: revocation_defs flt_lt_max split: option.splits prod.splits)

lemma revocation_act_blocks:
  "is_capability_revoked st c \<Longrightarrow> is_capability_revoked (revocation_act x st) c"
  by (cases x) (auto simp: revocation_defs split: option.splits prod.splits)

interpretation rev: revocation_record is_lease_revoked is_capability_revoked revocation_act
    cl_capability
proof
  show "is_capability_revoked st (cl_capability l) \<Longrightarrow> is_lease_revoked st l" for st l
    by (auto simp: revocation_defs)
qed (rule revocation_act_covers revocation_act_blocks; assumption)+

lemma revoke_blocks:
  "c \<noteq> [] \<Longrightarrow> is_capability_revoked (fst (apply_capability_revocation st (Some c) l b)) c"
  by (auto simp: revocation_defs split: option.splits)

lemma revoke_star_blocks:
  "is_capability_revoked (fst (apply_capability_revocation st (Some ''*'') l b)) c"
  by (auto simp: revocation_defs split: option.splits)

lemma revoke_lease_covers:
  "cl_lease_id x \<noteq> [] \<Longrightarrow>
     is_lease_revoked (fst (apply_capability_revocation st c (Some (cl_lease_id x)) b)) x"
  by (auto simp: revocation_defs split: option.splits prod.splits)

lemma revoke_before_covers:
  "flt_lt (cl_issued_at x) w \<Longrightarrow> rv_before st \<noteq> NaN \<Longrightarrow>
     is_lease_revoked (fst (apply_capability_revocation st c l (Some w))) x"
  by (auto simp: revocation_defs flt_lt_max2 split: option.splits prod.splits)

section \<open>Laws of the vault\<close>

text \<open>Leases are stored under the capability they name.\<close>

definition wf_vault :: "vault \<Rightarrow> bool" where
  "wf_vault v \<longleftrightarrow> distinct (map fst (va_leases v)) \<and>
     (\<forall>(k, l) \<in> set (va_leases v). k = cl_capability l)"

lemma wf_vault_lookup: "wf_vault v \<Longrightarrow> map_of (va_leases v) c = Some l \<Longrightarrow> cl_capability l = c"
  by (auto simp: wf_vault_def dest!: map_of_SomeD)

lemma wf_vault_update:
  assumes "wf_vault v"
  shows "wf_vault (v\<lparr>va_leases := AList.update (cl_capability l) l (va_leases v)\<rparr>)"
proof -
  let ?u = "AList.update (cl_capability l) l (va_leases v)"
  have d: "distinct (map fst ?u)" using assms by (simp add: wf_vault_def distinct_update)
  have "k = cl_capability x" if "(k, x) \<in> set ?u" for k x
  proof -
    have "map_of ?u k = Some x" using that d by simp
    then show ?thesis using wf_vault_lookup [OF assms, of k x]
      by (auto simp: update_conv' split: if_splits)
  qed
  with d show ?thesis by (auto simp: wf_vault_def)
qed

lemma token_for_Some:
  "token_for h v c now = Some t \<longleftrightarrow> (\<exists>l. map_of (va_leases v) c = Some l \<and>
     lease_is_valid l now \<and> \<not> is_lease_revoked (h (va_revocations v)) l \<and> t = cl_token_ref l)"
  by (auto simp: token_for_def split: option.splits)

lemma get_valid_Some:
  "get_valid rp h v c scope now = Inr (Some l) \<longleftrightarrow>
     map_of (va_leases v) c = Some l \<and> lease_is_valid l now \<and>
     \<not> is_lease_revoked (h (va_revocations v)) l \<and>
     scope_within rp DEFAULT_NUMERIC_SCOPE_CAP_KEYS scope (cl_scope l) = Inr True"
  by (auto simp: get_valid_def res_bind_eq_Inr split: option.splits if_splits)

lemma admit_Inr:
  assumes "admit rp v req lease = Inr (v', l)"
  shows "v' = v\<lparr>va_leases := AList.update (cl_capability l) l (va_leases v)\<rparr>"
    and "validate_lease_fields lease = Inr l"
    and "is_ok (validate_lease_admission rp (cr_capability req) (cr_scope req)
           (cl_capability l) (cl_scope l)) \<or> \<not> wf_val (PDict (cr_scope req))"
proof -
  from assms obtain r where r: "normalize_request_fields req = Inr r"
    and l: "validate_lease_fields lease = Inr l"
    and ok: "validate_lease_admission rp (cr_capability r) (cr_scope r)
           (cl_capability l) (cl_scope l) = Inr ()"
    and v': "v' = v\<lparr>va_leases := AList.update (cl_capability l) l (va_leases v)\<rparr>"
    by (auto simp: admit_def res_bind_eq_Inr)
  show "v' = v\<lparr>va_leases := AList.update (cl_capability l) l (va_leases v)\<rparr>" by (rule v')
  show "validate_lease_fields lease = Inr l" by (rule l)
  have "cr_capability r = cr_capability req \<and> cr_scope r = cr_scope req"
    if "wf_val (PDict (cr_scope req))"
    using r that by (auto simp: normalize_request_fields_def Let_def res_bind_eq_Inr
        normalize_scope_wf split: if_splits simp del: wf_val.simps portable_json.simps)
  with ok show "is_ok (validate_lease_admission rp (cr_capability req) (cr_scope req)
           (cl_capability l) (cl_scope l)) \<or> \<not> wf_val (PDict (cr_scope req))"
    by (auto simp del: wf_val.simps)
qed

lemma admit_wf: "admit rp v req lease = Inr (v', l) \<Longrightarrow> wf_vault v \<Longrightarrow>
    wf_vault v' \<and> va_revocations v' = va_revocations v"
  using admit_Inr(1) wf_vault_update by fastforce

lemma install_wf: "install v lease = Inr v' \<Longrightarrow> wf_vault v \<Longrightarrow>
    wf_vault v' \<and> va_revocations v' = va_revocations v"
  by (auto simp: install_def res_bind_eq_Inr wf_vault_update)

lemma install_all_wf: "install_all v ls = Inr v' \<Longrightarrow> wf_vault v \<Longrightarrow>
    wf_vault v' \<and> va_revocations v' = va_revocations v"
proof (induction ls arbitrary: v)
  case (Cons l ls)
  then show ?case using install_wf by (fastforce simp: res_bind_eq_Inr)
qed simp

lemma fork_wf: "fork_for_child v = Inr v' \<Longrightarrow> wf_vault v' \<and> va_revocations v' = va_revocations v"
  using install_all_wf by (fastforce simp: fork_for_child_def wf_vault_def)

lemma rotate_cases:
  assumes "rotate_capability_lease rp broker c current gs = Inr gs'"
  obtains (kept) "gs' = gs"
  | (rotated) ask request grant lease v l where "broker = Some ask" "ask request = GLease grant"
      "validate_lease_fields (rotated_lease current grant) = Inr lease"
      "admit rp (gs_vault gs) request lease = Inr (v, l)" "gs_vault gs' = v"
proof (cases broker)
  case None
  with assms kept show ?thesis by (simp add: rotate_capability_lease_def)
next
  case (Some ask)
  with assms obtain request where req: "make_request (gc_capability c) (gc_scope c) (gc_run_id c)
      (gc_binding_id c) 600 [] (gc_request_id c) = Inr request"
    by (auto simp: rotate_capability_lease_def res_bind_eq_Inr)
  note unfolded = assms [unfolded rotate_capability_lease_def Some req res_bind_Inr option.case]
  show ?thesis
  proof (cases "ask request")
    case (GLease grant)
    with unfolded obtain lease where
      lease: "validate_lease_fields (rotated_lease current grant) = Inr lease"
      by (auto simp: res_bind_eq_Inr)
    note unf = unfolded [unfolded GLease lease res_bind_Inr capability_grant.case]
    show ?thesis
    proof (cases "admit rp (gs_vault gs) request lease")
      case (Inl e)
      with unf kept show ?thesis by (simp split: if_splits)
    next
      case (Inr vl)
      obtain v l where vl: "vl = (v, l)" by (cases vl)
      have "gs_vault gs' = v" using unf by (auto simp: Inr vl emit_cap_def)
      with rotated [OF Some GLease lease] Inr vl show ?thesis by simp
    qed
  qed (use unfolded kept in simp_all)
qed

lemma rotate_wf:
  "rotate_capability_lease rp broker c current gs = Inr gs' \<Longrightarrow> wf_vault (gs_vault gs) \<Longrightarrow>
     wf_vault (gs_vault gs') \<and> va_revocations (gs_vault gs') = va_revocations (gs_vault gs)"
  by (erule rotate_cases) (auto dest: admit_wf)

lemma gate_wf:
  assumes "ensure_capability_lease rp h broker c gs = (gs', r)" and "wf_vault (gs_vault gs)"
  shows "wf_vault (gs_vault gs') \<and> va_revocations (gs_vault gs') = va_revocations (gs_vault gs)"
  using assms rotate_wf [of rp broker c _ gs gs'] admit_wf [of rp "gs_vault gs"]
  by (auto simp: ensure_capability_lease_def emit_cap_def Let_def
      split: option.splits capability_grant.splits sum.splits if_splits prod.splits)

section \<open>Runs and their children\<close>

text \<open>A run tree: the revocation store and the vaults of the run and of its children, with
  every operation the kernel performs on them.\<close>

record fleet =
  fl_store :: rev_store
  fl_vaults :: "vault list"

definition wf_fleet :: "fleet \<Rightarrow> bool" where
  "wf_fleet fl \<longleftrightarrow> (\<forall>v \<in> set (fl_vaults fl). wf_vault v)"

inductive fleet_step :: "(pyval \<Rightarrow> string) \<Rightarrow> fleet \<Rightarrow> fleet \<Rightarrow> bool" for rp where
  FAdmit: "\<lbrakk>i < length (fl_vaults fl); admit rp (fl_vaults fl ! i) req lease = Inr (v', l)\<rbrakk> \<Longrightarrow>
     fleet_step rp fl (fl\<lparr>fl_vaults := (fl_vaults fl)[i := v']\<rparr>)"
| FInstall: "\<lbrakk>i < length (fl_vaults fl); install (fl_vaults fl ! i) lease = Inr v'\<rbrakk> \<Longrightarrow>
     fleet_step rp fl (fl\<lparr>fl_vaults := (fl_vaults fl)[i := v']\<rparr>)"
| FRevoke: "i < length (fl_vaults fl) \<Longrightarrow>
     fleet_step rp fl (fl\<lparr>fl_store := fst (vault_revoke (fl_store fl) (fl_vaults fl ! i) c l b)\<rparr>)"
| FImport: "i < length (fl_vaults fl) \<Longrightarrow>
     fleet_step rp fl (fl\<lparr>fl_store := import_revocations (fl_store fl) (fl_vaults fl ! i) e\<rparr>)"
| FFork: "\<lbrakk>i < length (fl_vaults fl); fork_for_child (fl_vaults fl ! i) = Inr v'\<rbrakk> \<Longrightarrow>
     fleet_step rp fl (fl\<lparr>fl_vaults := fl_vaults fl @ [v']\<rparr>)"
| FGate: "\<lbrakk>i < length (fl_vaults fl); gs_vault gs = fl_vaults fl ! i;
      ensure_capability_lease rp (fl_store fl) broker call gs = (gs', r)\<rbrakk> \<Longrightarrow>
     fleet_step rp fl (fl\<lparr>fl_vaults := (fl_vaults fl)[i := gs_vault gs']\<rparr>)"

inductive_cases fleet_stepE: "fleet_step rp fl fl'"

lemma fleet_step_wf: "fleet_step rp fl fl' \<Longrightarrow> wf_fleet fl \<Longrightarrow> wf_fleet fl'"
proof (induction rule: fleet_step.induct)
  case (FAdmit i fl req lease v' l)
  then show ?case using admit_wf [OF FAdmit(2)]
    by (auto simp: wf_fleet_def dest!: set_update_subset_insert [THEN subsetD])
next
  case (FInstall i fl lease v')
  then show ?case using install_wf [OF FInstall(2)]
    by (auto simp: wf_fleet_def dest!: set_update_subset_insert [THEN subsetD])
next
  case (FFork i fl v')
  then show ?case using fork_wf [OF FFork(2)] by (auto simp: wf_fleet_def)
next
  case (FGate i fl gs broker call gs' r)
  then show ?case using gate_wf [OF FGate(3)]
    by (auto simp: wf_fleet_def dest!: set_update_subset_insert [THEN subsetD])
qed (auto simp: wf_fleet_def)

text \<open>Every step acts on the revocation records of an address by a sequence of operations.\<close>

lemma fleet_step_store:
  "fleet_step rp fl fl' \<Longrightarrow> \<exists>xs. fl_store fl' a = fold revocation_act xs (fl_store fl a)"
proof (induction rule: fleet_step.induct)
  case (FRevoke i fl c l b)
  then show ?case
    by (cases "a = va_revocations (fl_vaults fl ! i)")
       (auto simp: vault_revoke_def Let_def case_prod_beta
         intro: exI [of _ "[RevokeOp c l b]"] exI [of _ "[]"])
next
  case (FImport i fl e)
  then show ?case
    by (cases "a = va_revocations (fl_vaults fl ! i)")
       (auto simp: import_revocations_def intro: exI [of _ "[ImportOp e]"] exI [of _ "[]"])
qed (auto intro: exI [of _ "[]"])

text \<open>All vaults of a run tree keep their records at the same address.\<close>

lemma fleet_step_shared:
  "fleet_step rp fl fl' \<Longrightarrow> wf_fleet fl \<Longrightarrow> \<forall>v \<in> set (fl_vaults fl). va_revocations v = a \<Longrightarrow>
     \<forall>v \<in> set (fl_vaults fl'). va_revocations v = a"
proof (induction rule: fleet_step.induct)
  case (FAdmit i fl req lease v' l)
  then show ?case using admit_wf [OF FAdmit(2)]
    by (auto simp: wf_fleet_def dest!: set_update_subset_insert [THEN subsetD])
next
  case (FInstall i fl lease v')
  then show ?case using install_wf [OF FInstall(2)]
    by (auto simp: wf_fleet_def dest!: set_update_subset_insert [THEN subsetD])
next
  case (FFork i fl v')
  then show ?case using fork_wf [OF FFork(2)] by auto
next
  case (FGate i fl gs broker call gs' r)
  then show ?case using gate_wf [OF FGate(3)]
    by (auto simp: wf_fleet_def dest!: set_update_subset_insert [THEN subsetD])
qed auto

lemma fleet_steps_shared:
  assumes "(fleet_step rp)\<^sup>*\<^sup>* fl fl'" and "wf_fleet fl" and "\<forall>v \<in> set (fl_vaults fl). va_revocations v = a"
  shows "wf_fleet fl' \<and> (\<forall>v \<in> set (fl_vaults fl'). va_revocations v = a)"
  using assms by (induction rule: rtranclp_induct) (auto dest: fleet_step_wf fleet_step_shared)

lemma fleet_steps_inv:
  assumes "(fleet_step rp)\<^sup>*\<^sup>* fl fl'" and "wf_fleet fl"
  shows "wf_fleet fl' \<and> (\<exists>xs. fl_store fl' a = fold revocation_act xs (fl_store fl a))"
  using assms
proof (induction rule: rtranclp_induct)
  case base
  then show ?case by (auto intro: exI [of _ "[]"])
next
  case (step y z)
  then obtain xs where xs: "fl_store y a = fold revocation_act xs (fl_store fl a)"
    and wf: "wf_fleet y" by blast
  from fleet_step_store [OF step(2), of a] obtain ys where
    "fl_store z a = fold revocation_act ys (fl_store y a)" by blast
  with xs have "fl_store z a = fold revocation_act (xs @ ys) (fl_store fl a)" by simp
  with fleet_step_wf [OF step(2) wf] show ?case by blast
qed

lemma setdefault_keeps: "map_of d k = Some v \<Longrightarrow> map_of (setdefault k' v' d) k = Some v"
  by (auto simp: setdefault_def map_add_def)

lemma setdefault_adds: "\<exists>v. map_of (setdefault k v' d) k = Some v \<and>
    (v = v' \<or> map_of d k = Some v)"
  by (auto simp: setdefault_def map_add_def dest: weak_map_of_SomeI split: option.splits
      simp: map_of_eq_None_iff)

lemma default_cap_ok:
  assumes "default_cap ip w key k1 k2 d lo scope = Inr s"
  shows "map_of scope k = Some v \<Longrightarrow> map_of s k = Some v"
    and "\<exists>v. map_of s key = Some v \<and> (map_of scope key = Some v \<or> (\<exists>n \<ge> lo. v = PInt n))"
proof -
  from assms obtain n where s: "s = setdefault key (PInt (max lo n)) scope"
    by (auto simp: default_cap_def res_bind_eq_Inr)
  show "map_of scope k = Some v \<Longrightarrow> map_of s k = Some v"
    unfolding s by (rule setdefault_keeps)
  show "\<exists>v. map_of s key = Some v \<and> (map_of scope key = Some v \<or> (\<exists>n \<ge> lo. v = PInt n))"
    using setdefault_adds [of key "PInt (max lo n)" scope] unfolding s by force
qed

lemma default_caps_ok:
  assumes "default_caps ip w rows scope = Inr s" and "distinct (map fst rows)"
  shows "(\<forall>k v. map_of scope k = Some v \<longrightarrow> map_of s k = Some v) \<and>
    (\<forall>(key, k1, k2, d, lo) \<in> set rows. \<exists>v. map_of s key = Some v \<and>
       (map_of scope key = Some v \<or> (\<exists>n \<ge> lo. v = PInt n)))"
  using assms
proof (induction rows arbitrary: scope)
  case (Cons row rows)
  obtain key k1 k2 d lo where row: "row = (key, k1, k2, d, lo)" by (cases row)
  from Cons.prems row obtain s1 where s1: "default_cap ip w key k1 k2 d lo scope = Inr s1"
    and s: "default_caps ip w rows s1 = Inr s" by (auto simp: res_bind_eq_Inr)
  have ih: "map_of s1 k = Some v \<Longrightarrow> map_of s k = Some v"
      "(k, a, b, e, l) \<in> set rows \<Longrightarrow> \<exists>v. map_of s k = Some v \<and>
         (map_of s1 k = Some v \<or> (\<exists>n \<ge> l. v = PInt n))" for k v a b e l
    using Cons.IH [OF s] Cons.prems(2) by auto
  note ok = default_cap_ok [OF s1]
  have other: "map_of scope k = Some v" if "map_of s1 k = Some v" "k \<noteq> key" for k v
    using s1 that by (auto simp: default_cap_def res_bind_eq_Inr setdefault_def map_add_def
        split: if_splits option.splits)
  have later: "\<exists>v. map_of s k = Some v \<and> (map_of scope k = Some v \<or> (\<exists>n \<ge> l. v = PInt n))"
    if r: "(k, a, b, e, l) \<in> set rows" for k a b e l
  proof -
    have "k \<in> fst ` set rows" using r by force
    then have "k \<noteq> key" using Cons.prems(2) row by auto
    then show ?thesis using ih(2) [OF r] other by blast
  qed
  moreover have "map_of s k = Some v" if "map_of scope k = Some v" for k v
    using ih(1) ok(1) that by blast
  moreover have "\<exists>v. map_of s key = Some v \<and> (map_of scope key = Some v \<or> (\<exists>n \<ge> lo. v = PInt n))"
    using ok(2) ih(1) by blast
  ultimately show ?case unfolding row by auto
qed simp

lemma web_feature_caps_distinct: "web_feature_caps c = Some rows \<Longrightarrow> distinct (map fst rows)"
  by (auto simp: web_feature_caps_def split: if_splits)

lemma admit_capability_grant_cases:
  assumes "admit_capability_grant rp va fl fr run auto tid req res st = Inr st'"
    and "gs_vault (rd_gate st') \<noteq> gs_vault (rd_gate st)"
  shows "\<exists>rq rs lp request lease0 l. req = PDict rq \<and> res = PDict rs \<and>
    map_of rs ''lease'' = Some (PDict lp) \<and>
    make_request (dget_str rp rq ''capability'') (if py_truthy (dget rq ''scope'')
      then (case dget rq ''scope'' of PDict e \<Rightarrow> e | _ \<Rightarrow> []) else []) run
      (dget_str rp rq ''binding_id'') 600 [] fr = Inr request \<and>
    cl_durable lease0 \<and> admit rp (gs_vault (rd_gate st)) request lease0 =
      Inr (gs_vault (rd_gate st'), l)"
proof -
  from assms obtain rq rs where rr: "req = PDict rq" "res = PDict rs"
    by (auto simp: admit_capability_grant_def split: pyval.splits)
  from assms rr obtain lp where lp: "map_of rs ''lease'' = Some (PDict lp)"
    by (auto simp: admit_capability_grant_def split: option.splits pyval.splits)
  from assms rr lp obtain scope request dec lease0 where
    sc: "dict_or_empty rq ''scope'' = Inr scope"
    and rq: "make_request (dget_str rp rq ''capability'') scope run
           (dget_str rp rq ''binding_id'') 600 [] fr = Inr request"
    and dec: "lease_from_json va fl (PDict lp) = Inr dec"
    and l0: "validate_lease_fields (dec\<lparr>cl_durable := True\<rparr>) = Inr lease0"
    by (auto simp: admit_capability_grant_def res_bind_eq_Inr)
  have unf: "(case admit rp (gs_vault (rd_gate st)) request lease0 of
       Inl e \<Rightarrow> if is_value_error e
         then Inr (st\<lparr>rd_gate := emit_cap (EvRejected (cr_capability request)
                (cr_binding_id request) e) (rd_gate st)\<rparr>)
         else Inl e
     | Inr (v, lease) \<Rightarrow>
         let st1 = st\<lparr>rd_gate := emit_cap (EvGranted (cr_capability request)
               (cr_binding_id request) (cl_lease_id lease) (cl_expires_at lease)
               (cl_scope lease)) ((rd_gate st)\<lparr>gs_vault := v\<rparr>)\<rparr> in
         if auto \<and> py_truthy (dget rq ''replay_call_name'')
         then res_bind (capability_replay rp rq (cr_binding_id request)
                 (cr_capability request) tid) (\<lambda>replay.
                Inr (st1\<lparr>rd_replays := rd_replays st1 @ [replay]\<rparr>))
         else Inr st1) = Inr st'"
    using assms(1) by (simp add: admit_capability_grant_def rr lp sc rq dec l0)
  obtain v l where a: "admit rp (gs_vault (rd_gate st)) request lease0 = Inr (v, l)"
    and v: "gs_vault (rd_gate st') = v"
    using unf assms(2)
    by (cases "admit rp (gs_vault (rd_gate st)) request lease0")
       (auto simp: emit_cap_def Let_def res_bind_eq_Inr split: if_splits prod.splits)
  have "cl_durable lease0"
    using l0 by (auto simp: validate_lease_fields_def res_bind_eq_Inr)
  moreover have "scope = (if py_truthy (dget rq ''scope'')
      then (case dget rq ''scope'' of PDict e \<Rightarrow> e | _ \<Rightarrow> []) else [])"
    using sc by (auto simp: dict_or_empty_def Let_def split: if_splits pyval.splits)
  ultimately show ?thesis using rr lp rq a v by blast
qed

lemma update_fresh: "k \<notin> fst ` set al \<Longrightarrow> AList.update k v al = al @ [(k, v)]"
  by (induction al) auto

lemma restore_durable_leases:
  assumes strict: "pydantic_strict va"
    and "\<forall>(k, l) \<in> set ls. k = cl_capability l \<and> wf_val (PDict (cl_scope l))"
    and "distinct (map fst (va_leases v @ ls))"
    and "res_map lease_to_json (map snd ls) = Inr ps"
  shows "restore_leases va fresh_id v ps = Inr (v\<lparr>va_leases := va_leases v @ ls\<rparr>)"
  using assms(2-)
proof (induction ls arbitrary: v ps)
  case Nil
  then show ?case by simp
next
  case (Cons kl ls)
  obtain k l where kl: "kl = (k, l)" by (cases kl)
  from Cons.prems kl obtain p ps' where p: "lease_to_json l = Inr p"
    and ps': "res_map lease_to_json (map snd ls) = Inr ps'" and ps: "ps = p # ps'"
    by (auto simp: res_bind_eq_Inr)
  from Cons.prems(1) kl have k: "k = cl_capability l" and wf: "wf_val (PDict (cl_scope l))"
    by auto
  have "validate_lease_fields l = Inr l"
    using p validate_lease_fields_wf [OF wf] by (auto simp: lease_to_json_def res_bind_eq_Inr)
  moreover have "k \<notin> fst ` set (va_leases v)" using Cons.prems(2) kl by auto
  ultimately have i: "install v l = Inr (v\<lparr>va_leases := va_leases v @ [(k, l)]\<rparr>)"
    by (simp add: install_def k update_fresh)
  show ?case
    using lease_from_to_json [OF strict wf p, of fresh_id]
      Cons.IH [of "v\<lparr>va_leases := va_leases v @ [(k, l)]\<rparr>" ps'] Cons.prems ps' kl
    by (simp add: ps i)
qed

section \<open>Example data\<close>

definition lease_example :: capability_lease where
  "lease_example = \<lparr>cl_capability = ''web.fetch'', cl_token_ref = ''tok'', cl_expires_at = Fin 100,
     cl_scope = [(''max_calls'', PInt 3)], cl_lease_id = ''lease_1'', cl_durable = True,
     cl_issued_at = Fin 10, cl_max_expires_at = Some (Fin 90)\<rparr>"

definition vault_example :: vault where
  "vault_example = \<lparr>va_leases = [(''web.fetch'', lease_example)], va_revocations = 0\<rparr>"

definition call_example :: gate_call where
  "call_example = \<lparr>gc_requirement = PBool True, gc_capability = ''web.fetch'', gc_scope = [],
     gc_binding_id = ''b'', gc_run_id = ''r'', gc_reason = [], gc_request_id = ''cap_req_1'',
     gc_now = Fin 200, gc_skew = Fin 30, gc_replay = []\<rparr>"

definition gate_example :: gate_state where
  "gate_example = \<lparr>gs_vault = \<lparr>va_leases = [], va_revocations = 0\<rparr>, gs_events = [],
     gs_tasks = []\<rparr>"

lemma lease_example_scope: "wf_val (PDict (cl_scope lease_example))"
  by (simp add: lease_example_def)

lemma lease_example_durable: "cl_durable lease_example"
  by (simp add: lease_example_def)

lemma lease_example_wf: "wf_lease lease_example"
  by (simp add: lease_example_def wf_lease_def)

lemma lease_example_valid: "validate_lease_fields lease_example = Inr lease_example"
  using validate_lease_fields_wf [OF lease_example_scope] lease_example_wf by blast

lemma vault_example_wf: "wf_vault vault_example"
  by (simp add: vault_example_def wf_vault_def lease_example_def)

lemma make_request_example:
  "make_request ''web.fetch'' [] ''r'' ''b'' 600 [] ''cap_req_1'' =
     Inr \<lparr>cr_capability = ''web.fetch'', cr_scope = [], cr_run_id = ''r'', cr_binding_id = ''b'',
       cr_ttl_seconds = 600, cr_reason = [], cr_request_id = ''cap_req_1''\<rparr>"
  by (simp add: make_request_def normalize_request_fields_def normalize_scope_wf
      is_finite_json_number_def)

lemma admit_example:
  "admit rp \<lparr>va_leases = [], va_revocations = 0\<rparr>
     \<lparr>cr_capability = ''web.fetch'', cr_scope = [], cr_run_id = ''r'', cr_binding_id = ''b'',
       cr_ttl_seconds = 600, cr_reason = [], cr_request_id = ''cap_req_1''\<rparr> lease_example =
     Inr (vault_example, lease_example)"
  by (simp add: admit_def normalize_request_fields_def normalize_scope_wf lease_example_valid
      is_finite_json_number_def validate_lease_admission_def scope_within_def)
     (simp add: vault_example_def lease_example_def)

section \<open>Properties\<close>

text \<open>C7. The kill switch is final for the whole run tree. A run starts with one vault; its tree grows by
  forks. When any vault of the tree revokes a capability, or everything, then after any further sequence of
  admissions, installs, revocations, imports, forks and gated calls, no vault of the tree (the run's own,
  those of its children, forked before or after the revocation) hands out a token or a lease for it, and the gate of a call that
  requires a lease refuses it without asking the broker and without touching the vault.\<close>

theorem kill_switch_is_final:
  assumes "wf_vault v0" and "(fleet_step rp)\<^sup>*\<^sup>* \<lparr>fl_store = h, fl_vaults = [v0]\<rparr> fl"
    and "i < length (fl_vaults fl)" and "k = c \<and> c \<noteq> [] \<or> k = ''*''"
    and "(fleet_step rp)\<^sup>*\<^sup>* (fl\<lparr>fl_store := fst (vault_revoke (fl_store fl) (fl_vaults fl ! i) (Some k) lease_id before)\<rparr>) fl'"
    and "v \<in> set (fl_vaults fl')"
  shows "token_for (fl_store fl') v c now = None \<and>
    get_valid rp (fl_store fl') v c scope now = Inr None \<and>
    (gs_vault gs = v \<and> py_truthy (gc_requirement call) \<and> gc_capability call = c \<and> c \<noteq> [] \<longrightarrow>
      ensure_capability_lease rp (fl_store fl') (Some ask) call gs =
        (emit_cap (EvRevoked c (gc_scope call)) gs, Inl (PermissionDenied ''capability_revoked'')))"
proof -
  let ?a = "va_revocations v0"
    and ?fl = "fl\<lparr>fl_store := fst (vault_revoke (fl_store fl) (fl_vaults fl ! i) (Some k) lease_id before)\<rparr>"
  have s: "wf_fleet fl" "\<forall>v \<in> set (fl_vaults fl). va_revocations v = ?a"
    using fleet_steps_shared [OF assms(2), of ?a] assms(1) by (auto simp: wf_fleet_def)
  then have wf: "wf_fleet ?fl" and s': "\<forall>v \<in> set (fl_vaults ?fl). va_revocations v = ?a" by (simp_all add: wf_fleet_def)
  have i: "va_revocations (fl_vaults fl ! i) = ?a" using s(2) assms(3) by simp
  have "fl_store ?fl ?a = fst (apply_capability_revocation (fl_store fl ?a) (Some k) lease_id before)"
    by (simp add: vault_revoke_def i Let_def case_prod_beta)
  then have start: "is_capability_revoked (fl_store ?fl ?a) c"
    using assms(4) revoke_blocks revoke_star_blocks by metis
  obtain xs where xs: "fl_store fl' ?a = fold revocation_act xs (fl_store ?fl ?a)"
    using fleet_steps_inv [OF assms(5) wf, of ?a] by blast
  have v: "wf_vault v" "va_revocations v = ?a"
    using fleet_steps_shared [OF assms(5) wf s'] assms(6) by (auto simp: wf_fleet_def)
  have blocked: "is_capability_revoked (fl_store fl' ?a) c" unfolding xs by (rule rev.blocks_sticky [OF start])
  have dead: "is_lease_revoked (fl_store fl' ?a) l" if "map_of (va_leases v) c = Some l" for l
    using rev.blocks_covers blocked wf_vault_lookup [OF v(1) that] by metis
  show ?thesis using blocked dead
    by (auto simp: token_for_def get_valid_def ensure_capability_lease_def vault_is_capability_revoked_def v(2) split: option.splits)
qed

text \<open>The run forks a child with a durable lease, and the child's vault revokes the capability: the
  run's own vault is dead for it.\<close>

theorem kill_switch_is_final_witness:
  "token_for (fst (vault_revoke (\<lambda>_. empty_revocations) \<lparr>va_leases = [(''web.fetch'', lease_example)], va_revocations = 0\<rparr>
      (Some ''web.fetch'') None None)) vault_example ''web.fetch'' (Fin 50) = None \<and>
   token_for (\<lambda>_. empty_revocations) vault_example ''web.fetch'' (Fin 50) = Some ''tok''"
proof (rule conjI)
  let ?h = "\<lambda>_ :: nat. empty_revocations" and ?child = "\<lparr>va_leases = [(''web.fetch'', lease_example)], va_revocations = 0\<rparr>"
  let ?fl = "\<lparr>fl_store = ?h, fl_vaults = [vault_example, ?child]\<rparr>"
  have "fork_for_child vault_example = Inr ?child"
    by (simp add: fork_for_child_def vault_example_def install_def lease_example_durable lease_example_valid) (simp add: lease_example_def)
  then have "fleet_step rp \<lparr>fl_store = ?h, fl_vaults = [vault_example]\<rparr> ?fl" for rp
    using fleet_step.FFork [of 0 "\<lparr>fl_store = ?h, fl_vaults = [vault_example]\<rparr>" ?child] by simp
  then have steps: "(fleet_step (\<lambda>_. []))\<^sup>*\<^sup>* \<lparr>fl_store = ?h, fl_vaults = [vault_example]\<rparr> ?fl" by (rule r_into_rtranclp)
  from kill_switch_is_final [OF vault_example_wf steps _ _ rtranclp.rtrancl_refl, where i = 1 and k = "''web.fetch''" and
      c = "''web.fetch''" and lease_id = None and before = None and v = vault_example and now = "Fin 50"]
  show "token_for (fst (vault_revoke ?h ?child (Some ''web.fetch'') None None)) vault_example ''web.fetch'' (Fin 50) = None"
    by simp
qed (simp add: token_for_Some vault_example_def lease_example_def lease_is_valid_def is_lease_revoked_def empty_revocations_def)

text \<open>The read path fails closed: a token or a cached lease is handed out only for a stored
  lease of exactly that capability which has not expired at that moment and is covered by no
  revocation record: neither its identifier, nor its capability, nor the watermark, nor the
  global switch; and a lease handed out covers the requested scope.\<close>

theorem read_path_fails_closed:
  assumes "wf_vault v"
  shows "(token_for h v c now = Some t \<longrightarrow> (\<exists>l. map_of (va_leases v) c = Some l \<and>
      cl_capability l = c \<and> t = cl_token_ref l \<and> flt_lt now (cl_expires_at l) \<and>
      \<not> rv_all_revoked (h (va_revocations v)) \<and> c \<notin> rv_capabilities (h (va_revocations v)) \<and>
      cl_lease_id l \<notin> rv_lease_ids (h (va_revocations v)) \<and>
      \<not> flt_lt (cl_issued_at l) (rv_before (h (va_revocations v))))) \<and>
    (get_valid rp h v c scope now = Inr (Some l) \<longrightarrow>
      token_for h v c now = Some (cl_token_ref l) \<and>
      scope_within rp DEFAULT_NUMERIC_SCOPE_CAP_KEYS scope (cl_scope l) = Inr True)"
  using wf_vault_lookup [OF assms, of c]
  by (auto simp: token_for_Some get_valid_Some is_lease_revoked_def lease_is_valid_def)

theorem read_path_fails_closed_witness:
  "token_for (\<lambda>_. empty_revocations) vault_example ''web.fetch'' (Fin 50) = Some ''tok'' \<and>
   flt_lt (Fin 50) (cl_expires_at lease_example)"
proof -
  have t: "token_for (\<lambda>_. empty_revocations) vault_example ''web.fetch'' (Fin 50) = Some ''tok''"
    by (simp add: token_for_Some vault_example_def lease_example_def lease_is_valid_def
        is_lease_revoked_def empty_revocations_def)
  with read_path_fails_closed [OF vault_example_wf, of "\<lambda>_. empty_revocations" "''web.fetch''"
      "Fin 50" "''tok''"]
  show ?thesis by (auto simp: vault_example_def)
qed

text \<open>Revocation survives the checkpoint: exporting the records and importing them into any
  record, also a fresh one, revokes at least every lease and blocks at least every capability
  the exported record did; into a fresh record it restores exactly the same decisions, provided
  no capability is literally named by the wildcard and the watermark is not negative.\<close>

theorem revocations_survive_checkpoint:
  assumes "finite (rv_lease_ids st)" and "finite (rv_capabilities st)" and "rv_before st \<noteq> NaN"
    and "rv_before st0 \<noteq> NaN"
  shows "(is_lease_revoked st l \<longrightarrow> cl_capability l \<noteq> ''*'' \<longrightarrow>
      is_lease_revoked (import_revocation_state st0 (export_revocation_state st)) l) \<and>
    (is_capability_revoked st c \<longrightarrow> c \<noteq> ''*'' \<longrightarrow>
      is_capability_revoked (import_revocation_state st0 (export_revocation_state st)) c) \<and>
    (''*'' \<notin> rv_capabilities st \<longrightarrow> flt_le (Fin 0) (rv_before st) \<longrightarrow>
      import_revocation_state empty_revocations (export_revocation_state st) = st)"
proof -
  have lt: "flt_lt (cl_issued_at l) (flt_max (rv_before st0) (rv_before st))"
    if "flt_lt (cl_issued_at l) (rv_before st)"
    using that assms(4) by (rule flt_lt_max2)
  have zero: "flt_max (Fin 0) (rv_before st) = rv_before st" if "flt_le (Fin 0) (rv_before st)"
    using that by (cases "rv_before st") (auto simp: flt_max_def)
  show ?thesis
    using assms(1,2) lt zero
    by (auto simp: export_revocation_state_def import_revocation_state_def is_lease_revoked_def
        is_capability_revoked_def empty_revocations_def Let_def)
qed

theorem revocations_survive_checkpoint_witness:
  "import_revocation_state empty_revocations (export_revocation_state
     \<lparr>rv_lease_ids = {''l2'', ''l1''}, rv_capabilities = {''web.fetch''}, rv_before = Fin 7,
      rv_all_revoked = True\<rparr>) =
     \<lparr>rv_lease_ids = {''l2'', ''l1''}, rv_capabilities = {''web.fetch''}, rv_before = Fin 7,
      rv_all_revoked = True\<rparr>"
  using revocations_survive_checkpoint [of "\<lparr>rv_lease_ids = {''l2'', ''l1''},
      rv_capabilities = {''web.fetch''}, rv_before = Fin 7, rv_all_revoked = True\<rparr>"
      empty_revocations]
  by (simp add: empty_revocations_def)

text \<open>A serialised lease decodes to itself: for a lease whose scope is a dictionary, encoding
  followed by decoding returns the same lease whenever encoding succeeds, and encoding succeeds
  exactly for leases with non-empty identities, finite times and a portable scope.\<close>

theorem lease_json_roundtrip:
  assumes "pydantic_strict va" and "wf_val (PDict (cl_scope l))"
  shows "(case lease_to_json l of Inr p \<Rightarrow> lease_from_json va fresh_id (PDict p) = Inr l
          | Inl _ \<Rightarrow> \<not> wf_lease l) \<and> (is_ok (lease_to_json l) \<longleftrightarrow> wf_lease l)"
proof (cases "lease_to_json l")
  case (Inl e)
  then have "validate_lease_fields l \<noteq> Inr l" by (auto simp: lease_to_json_def)
  with validate_lease_fields_wf [OF assms(2)] Inl show ?thesis by auto
next
  case (Inr p)
  then have "wf_lease l"
    using validate_lease_fields_wf [OF assms(2)] by (auto simp: lease_to_json_def res_bind_eq_Inr)
  with Inr lease_from_to_json [OF assms Inr] show ?thesis by simp
qed

theorem lease_json_roundtrip_witness:
  "\<exists>p. lease_to_json lease_example = Inr p \<and>
     lease_from_json strict_validator ''lease_2'' (PDict p) = Inr lease_example"
  using lease_json_roundtrip [OF strict_validator_strict lease_example_scope, of "''lease_2''"]
    lease_example_wf
  by (auto simp: is_ok_iff)

text \<open>Rotation respects the ceiling and never raises a lease above it: when a rotation
  replaces the stored lease, the new one keeps the durability and the absolute ceiling of the old
  and expires no later than the ceiling.\<close>

theorem rotation_respects_ceiling:
  assumes "rotate_capability_lease rp broker c current gs = Inr gs'" and "gs' \<noteq> gs"
    and "cl_max_expires_at current = Some m" and "m \<noteq> NaN"
  shows "\<exists>l. map_of (va_leases (gs_vault gs')) (cl_capability l) = Some l \<and>
    cl_durable l = cl_durable current \<and> cl_max_expires_at l = Some m \<and>
    flt_le (cl_expires_at l) m"
  using assms(1)
proof (cases rule: rotate_cases)
  case kept
  with assms(2) show ?thesis by simp
next
  case (rotated ask request grant lease v l)
  have e: "cl_durable x = cl_durable y \<and> cl_max_expires_at x = cl_max_expires_at y \<and>
      cl_expires_at x = cl_expires_at y \<and> is_finite_float (cl_expires_at y)"
    if "validate_lease_fields y = Inr x" for x y
    using that by (auto simp: validate_lease_fields_def res_bind_eq_Inr)
  from e [OF rotated(3)] e [OF admit_Inr(2) [OF rotated(4)]]
  have l: "cl_durable l = cl_durable current" "cl_max_expires_at l = Some m"
      "cl_expires_at l = flt_min (cl_expires_at grant) m" "is_finite_float (cl_expires_at l)"
    by (auto simp: rotated_lease_def assms(3))
  have "flt_le (cl_expires_at l) m"
    using l(3,4) assms(4) by (cases "cl_expires_at grant"; cases m) (auto simp: flt_min_def)
  moreover have "map_of (va_leases (gs_vault gs')) (cl_capability l) = Some l"
    using admit_Inr(1) [OF rotated(4)] rotated(5) by (simp add: update_conv')
  ultimately show ?thesis using l by blast
qed

theorem rotation_respects_ceiling_witness:
  "\<exists>gs' l. rotate_capability_lease (\<lambda>_. []) (Some (\<lambda>_. GLease lease_example)) call_example
      lease_example gate_example = Inr gs' \<and>
     map_of (va_leases (gs_vault gs')) (cl_capability l) = Some l \<and>
     cl_max_expires_at l = Some (Fin 90) \<and> flt_le (cl_expires_at l) (Fin 90)"
proof -
  let ?rotated = "lease_example\<lparr>cl_expires_at := Fin 90\<rparr>"
  have r: "rotated_lease lease_example lease_example = ?rotated"
    by (simp add: rotated_lease_def lease_example_def flt_min_def)
  have valid: "validate_lease_fields ?rotated = Inr ?rotated"
    using validate_lease_fields_wf [of ?rotated] lease_example_scope lease_example_wf
    by (simp add: wf_lease_def)
  have a: "admit rp \<lparr>va_leases = [], va_revocations = 0\<rparr>
     \<lparr>cr_capability = ''web.fetch'', cr_scope = [], cr_run_id = ''r'', cr_binding_id = ''b'',
       cr_ttl_seconds = 600, cr_reason = [], cr_request_id = ''cap_req_1''\<rparr> ?rotated =
     Inr (\<lparr>va_leases = [(''web.fetch'', ?rotated)], va_revocations = 0\<rparr>, ?rotated)" for rp
    by (simp add: admit_def normalize_request_fields_def normalize_scope_wf valid
        is_finite_json_number_def validate_lease_admission_def scope_within_def)
       (simp add: lease_example_def)
  have "\<exists>gs'. rotate_capability_lease (\<lambda>_. []) (Some (\<lambda>_. GLease lease_example)) call_example
      lease_example gate_example = Inr gs' \<and> gs' \<noteq> gate_example"
    by (simp add: rotate_capability_lease_def r valid a emit_cap_def gate_example_def
        call_example_def make_request_example)
  then obtain gs' where g: "rotate_capability_lease (\<lambda>_. []) (Some (\<lambda>_. GLease lease_example))
      call_example lease_example gate_example = Inr gs'" "gs' \<noteq> gate_example" by blast
  have m: "cl_max_expires_at lease_example = Some (Fin 90)" by (simp add: lease_example_def)
  from rotation_respects_ceiling [OF g m] have "\<exists>l. map_of (va_leases (gs_vault gs')) (cl_capability l) = Some l \<and>
      cl_max_expires_at l = Some (Fin 90) \<and> flt_le (cl_expires_at l) (Fin 90)" by auto
  then show ?thesis using g(1) by blast
qed

lemma normal_request:
  assumes "make_request c sc run bind ttl reason rid = Inr r" and "wf_val (PDict sc)"
  shows "r = \<lparr>cr_capability = c, cr_scope = sc, cr_run_id = run, cr_binding_id = bind, cr_ttl_seconds = ttl,
     cr_reason = reason, cr_request_id = rid\<rparr>" and "normalize_request_fields r = Inr r"
  using assms by (auto simp: make_request_def normalize_request_fields_def Let_def res_bind_eq_Inr
      normalize_scope_wf split: if_splits simp del: wf_val.simps portable_json.simps)

text \<open>What an admission stores: the granted lease, for the capability of the request and no wider on its keys.\<close>

lemma admitted_grant:
  assumes "admit rp v r grant = Inr (v', l)" and "normalize_request_fields r = Inr r"
  shows "validate_lease_fields grant = Inr l" "cl_capability l = cr_capability r" "narrows (cl_scope l) (cr_scope r)"
    "map_of (va_leases v') (cr_capability r) = Some l"
proof -
  from assms have v: "validate_lease_fields grant = Inr l"
    "validate_lease_admission rp (cr_capability r) (cr_scope r) (cl_capability l) (cl_scope l) = Inr ()"
    "v' = v\<lparr>va_leases := AList.update (cl_capability l) l (va_leases v)\<rparr>"
    by (auto simp: admit_def res_bind_eq_Inr)
  then have "is_ok (validate_lease_admission rp (cr_capability r) (cr_scope r) (cl_capability l) (cl_scope l))" by (simp add: is_ok_iff)
  then show "cl_capability l = cr_capability r" "narrows (cl_scope l) (cr_scope r)"
    unfolding validate_lease_admission_ok by (auto intro: scope_within_narrows)
  with v show "validate_lease_fields grant = Inr l" "map_of (va_leases v') (cr_capability r) = Some l" by (simp_all add: update_conv')
qed

text \<open>C18. When the gate lets a call that requires a lease proceed, then either there is no broker and the
  requirement is only optional, and nothing changed; or the capability is blocked by no revocation, and the vault holds
  a lease of it that is unexpired at the moment of the call, covered by no revocation (neither by its id nor by the watermark), and
  whose scope the call's scope narrows; or the broker was asked for exactly this call's capability and scope and granted a lease,
  which names the capability, narrows the call's scope, is stored in the vault, and whose request and grant are recorded as the two new events. (The
  expiry of a lease granted in this moment is not checked by the gate.) The vault keeps its revocation record.\<close>

theorem gate_proceeds_only_with_lease:
  assumes "ensure_capability_lease rp h broker call gs = (gs', Inr Proceed)"
    and "py_truthy (gc_requirement call)" and "wf_vault (gs_vault gs)" and "wf_val (PDict (gc_scope call))"
  defines "st \<equiv> h (va_revocations (gs_vault gs))"
  shows "gc_capability call \<noteq> [] \<and> va_revocations (gs_vault gs') = va_revocations (gs_vault gs) \<and>
    (broker = None \<and> gc_requirement call = PStr ''optional'' \<and> gs' = gs \<or>
     (\<exists>ask. broker = Some ask \<and> \<not> rv_all_revoked st \<and> gc_capability call \<notin> rv_capabilities st \<and>
       ((\<exists>l. map_of (va_leases (gs_vault gs)) (gc_capability call) = Some l \<and> cl_capability l = gc_capability call \<and>
           flt_lt (gc_now call) (cl_expires_at l) \<and> cl_lease_id l \<notin> rv_lease_ids st \<and>
           \<not> flt_lt (cl_issued_at l) (rv_before st) \<and> narrows (gc_scope call) (cl_scope l)) \<or>
        (\<exists>grant l. ask \<lparr>cr_capability = gc_capability call, cr_scope = gc_scope call, cr_run_id = gc_run_id call,
             cr_binding_id = gc_binding_id call, cr_ttl_seconds = 600, cr_reason = gc_reason call, cr_request_id = gc_request_id call\<rparr> = GLease grant \<and>
           validate_lease_fields grant = Inr l \<and> cl_capability l = gc_capability call \<and> narrows (cl_scope l) (gc_scope call) \<and>
           map_of (va_leases (gs_vault gs')) (gc_capability call) = Some l \<and>
           gs_events gs' = gs_events gs @ [EvRequested (gc_capability call) (gc_binding_id call) (gc_request_id call) (gc_scope call) (gc_reason call),
             EvGranted (gc_capability call) (gc_binding_id call) (cl_lease_id l) (cl_expires_at l) (cl_scope l)]))))"
proof (cases broker)
  case None
  then show ?thesis using assms(1,2) by (auto simp: ensure_capability_lease_def split: if_splits)
next
  case (Some ask)
  let ?c = "gc_capability call" and ?v = "gs_vault gs"
  have cap: "?c \<noteq> []" "va_revocations (gs_vault gs') = va_revocations ?v" "\<not> rv_all_revoked st" "?c \<notin> rv_capabilities st"
    using assms(1,2) gate_wf [OF assms(1,3)] Some
    by (auto simp: ensure_capability_lease_def vault_is_capability_revoked_def is_capability_revoked_def st_def split: if_splits)
  note body = assms(1) [unfolded ensure_capability_lease_def Some option.case]
  obtain x where x: "get_valid rp h ?v ?c (gc_scope call) (gc_now call) = Inr x"
    using body assms(2) cap(1) by (auto split: sum.splits if_splits)
  show ?thesis
  proof (cases x)
    case (Some l)
    then have "\<exists>l. map_of (va_leases ?v) ?c = Some l \<and> cl_capability l = ?c \<and> flt_lt (gc_now call) (cl_expires_at l) \<and>
        cl_lease_id l \<notin> rv_lease_ids st \<and> \<not> flt_lt (cl_issued_at l) (rv_before st) \<and> narrows (gc_scope call) (cl_scope l)"
      using x wf_vault_lookup [OF assms(3)] scope_within_narrows
      by (auto simp: get_valid_Some lease_is_valid_def is_lease_revoked_def st_def)
    then show ?thesis using cap \<open>broker = Some ask\<close> by blast
  next
    case None
    from body x assms(2) cap None obtain r where r: "make_request ?c (gc_scope call) (gc_run_id call) (gc_binding_id call) 600
        (gc_reason call) (gc_request_id call) = Inr r"
      by (auto split: sum.splits if_splits)
    note n = normal_request [OF r assms(4)]
    from body x assms(2) cap None r obtain grant v l where g: "ask r = GLease grant" "admit rp ?v r grant = Inr (v, l)"
      and gs': "gs' = emit_cap (EvGranted ?c (gc_binding_id call) (cl_lease_id l) (cl_expires_at l) (cl_scope l))
         ((emit_cap (EvRequested ?c (gc_binding_id call) (cr_request_id r) (gc_scope call) (cr_reason r)) gs)\<lparr>gs_vault := v\<rparr>)"
      by (auto simp: Let_def emit_cap_def split: capability_grant.splits sum.splits if_splits prod.splits)
    from admitted_grant [OF g(2) n(2)] g(1) gs' cap n(1) \<open>broker = Some ask\<close> show ?thesis by (simp add: emit_cap_def)
  qed
qed

lemma gate_grant_example:
  "ensure_capability_lease rp (\<lambda>_. empty_revocations) (Some (\<lambda>_. GLease lease_example))
     call_example gate_example =
   (gate_example\<lparr>gs_vault := vault_example, gs_events :=
      [EvRequested ''web.fetch'' ''b'' ''cap_req_1'' [] [],
       EvGranted ''web.fetch'' ''b'' ''lease_1'' (Fin 100) [(''max_calls'', PInt 3)]]\<rparr>,
    Inr Proceed)"
  unfolding ensure_capability_lease_def
  by (simp add: vault_is_capability_revoked_def is_capability_revoked_def empty_revocations_def
      get_valid_def make_request_example admit_example emit_cap_def call_example_def
      gate_example_def)
     (simp add: lease_example_def)

text \<open>A call at 50 whose lease, granted by the broker, expires at 100.\<close>

theorem gate_proceeds_only_with_lease_witness:
  "\<exists>l gs'. ensure_capability_lease (\<lambda>_. []) (\<lambda>_. empty_revocations) (Some (\<lambda>_. GLease lease_example))
       (call_example\<lparr>gc_now := Fin 50\<rparr>) gate_example = (gs', Inr Proceed) \<and>
     map_of (va_leases (gs_vault gs')) ''web.fetch'' = Some l \<and> cl_capability l = ''web.fetch'' \<and> flt_lt (Fin 50) (cl_expires_at l) \<and>
     gs_events gs' = [EvRequested ''web.fetch'' ''b'' ''cap_req_1'' [] [], EvGranted ''web.fetch'' ''b'' (cl_lease_id l) (cl_expires_at l) (cl_scope l)]"
proof -
  let ?call = "call_example\<lparr>gc_now := Fin 50\<rparr>" and ?ask = "\<lambda>_ :: capability_request. GLease lease_example"
  obtain gs' where g: "ensure_capability_lease (\<lambda>_. []) (\<lambda>_. empty_revocations) (Some ?ask) ?call gate_example = (gs', Inr Proceed)"
    unfolding ensure_capability_lease_def
    by (simp add: vault_is_capability_revoked_def is_capability_revoked_def empty_revocations_def
        get_valid_def make_request_example admit_example emit_cap_def call_example_def gate_example_def)
  have p: "py_truthy (gc_requirement ?call)" "wf_vault (gs_vault gate_example)" "wf_val (PDict (gc_scope ?call))"
    by (simp_all add: call_example_def gate_example_def wf_vault_def)
  have "va_leases (gs_vault gate_example) = []" "gs_events gate_example = []" by (simp_all add: gate_example_def)
  with gate_proceeds_only_with_lease [OF g p] obtain l where
    "validate_lease_fields lease_example = Inr l" "cl_capability l = ''web.fetch''" "map_of (va_leases (gs_vault gs')) ''web.fetch'' = Some l"
    "gs_events gs' = [EvRequested ''web.fetch'' ''b'' ''cap_req_1'' [] [], EvGranted ''web.fetch'' ''b'' (cl_lease_id l) (cl_expires_at l) (cl_scope l)]"
    by (auto simp: call_example_def)
  moreover from this(1) have "flt_lt (Fin 50) (cl_expires_at l)" unfolding lease_example_valid by (auto simp: lease_example_def)
  ultimately show ?thesis using g by blast
qed

text \<open>The admitted grant is not checked for expiry: in the example the broker's lease expired at
  100, the call is made at 200, the gate proceeds, and the tool then finds no token.\<close>

lemma gate_admits_expired_grant:
  "\<exists>gs'. ensure_capability_lease rp (\<lambda>_. empty_revocations) (Some (\<lambda>_. GLease lease_example))
     call_example gate_example = (gs', Inr Proceed) \<and>
   token_for (\<lambda>_. empty_revocations) (gs_vault gs') ''web.fetch'' (gc_now call_example) = None"
  unfolding gate_grant_example
  by (simp add: token_for_def vault_example_def lease_example_def lease_is_valid_def
      call_example_def)

text \<open>Nor does rotation compare the grant with the lease it replaces: here the stored lease is
  valid until 100, the call is made at 80, the broker answers with a lease that expired at 50,
  and the valid lease is overwritten.\<close>

lemma rotation_replaces_valid_lease:
  "\<exists>gs'. ensure_capability_lease rp (\<lambda>_. empty_revocations)
       (Some (\<lambda>_. GLease (lease_example\<lparr>cl_expires_at := Fin 50\<rparr>)))
       (call_example\<lparr>gc_now := Fin 80\<rparr>) (gate_example\<lparr>gs_vault := vault_example\<rparr>) =
       (gs', Inr Proceed) \<and>
     token_for (\<lambda>_. empty_revocations) vault_example ''web.fetch'' (Fin 80) = Some ''tok'' \<and>
     token_for (\<lambda>_. empty_revocations) (gs_vault gs') ''web.fetch'' (Fin 80) = None"
proof -
  let ?grant = "lease_example\<lparr>cl_expires_at := Fin 50\<rparr>"
  have valid: "validate_lease_fields ?grant = Inr ?grant"
    using validate_lease_fields_wf [of ?grant] lease_example_scope lease_example_wf
    by (simp add: wf_lease_def)
  have r: "rotated_lease lease_example ?grant = ?grant"
    by (simp add: rotated_lease_def lease_example_def flt_min_def)
  have a: "admit rp vault_example
     \<lparr>cr_capability = ''web.fetch'', cr_scope = [], cr_run_id = ''r'', cr_binding_id = ''b'',
       cr_ttl_seconds = 600, cr_reason = [], cr_request_id = ''cap_req_1''\<rparr> ?grant =
     Inr (\<lparr>va_leases = [(''web.fetch'', ?grant)], va_revocations = 0\<rparr>, ?grant)"
    by (simp add: admit_def normalize_request_fields_def normalize_scope_wf valid
        is_finite_json_number_def validate_lease_admission_def scope_within_def)
       (simp add: vault_example_def lease_example_def)
  have rnd70: "rnd 70 = Fin 70" using rnd_of_int [of 70] by simp
  have cached: "get_valid rp (\<lambda>_. empty_revocations) vault_example ''web.fetch'' [] (Fin 80) =
      Inr (Some lease_example)"
    by (simp add: get_valid_def vault_example_def lease_example_def lease_is_valid_def
        is_lease_revoked_def empty_revocations_def scope_within_def)
  have rot: "can_rotate lease_example (Fin 80) (Fin 30)"
    by (simp add: can_rotate_def lease_example_def lease_is_valid_def flt_sub_def rnd70)
  show ?thesis
    unfolding ensure_capability_lease_def rotate_capability_lease_def
    by (simp add: call_example_def gate_example_def vault_is_capability_revoked_def
        is_capability_revoked_def cached rot make_request_example r valid a emit_cap_def)
       (simp add: token_for_def vault_example_def lease_example_def lease_is_valid_def
        is_lease_revoked_def empty_revocations_def)
qed

text \<open>A grant reported through a task changes the vault only by admitting a durable lease for
  the request the task carried (so under the same capability and no wider on the constrained
  keys); in particular a result sanitised as a denial leaves the vault, the events and the queue
  of replays as they were.\<close>

theorem reported_grant_is_admitted_or_ignored:
  "(\<forall>st'. admit_capability_grant rp va fl fr run auto tid req res st = Inr st' \<and>
      gs_vault (rd_gate st') \<noteq> gs_vault (rd_gate st) \<longrightarrow>
      (\<exists>request lease0 l. cr_run_id request = run \<and> cl_durable lease0 \<and>
        admit rp (gs_vault (rd_gate st)) request lease0 = Inr (gs_vault (rd_gate st'), l))) \<and>
   admit_capability_grant rp va fl fr run auto tid req
     (PDict (sanitize_denied_capability_result rp result reason answer)) st = Inr st"
proof -
  have "map_of (sanitize_denied_capability_result rp result reason answer) ''lease'' = None"
    by (simp add: sanitize_denied_capability_result_def Let_def update_conv' delete_conv')
  then have "admit_capability_grant rp va fl fr run auto tid req
     (PDict (sanitize_denied_capability_result rp result reason answer)) st = Inr st"
    by (simp add: admit_capability_grant_def split: pyval.splits)
  moreover have "cr_run_id r = run" if "make_request c s run b t x i = Inr r" for c s b t x i r
    using that by (auto simp: make_request_def normalize_request_fields_def Let_def
        res_bind_eq_Inr split: if_splits)
  ultimately show ?thesis using admit_capability_grant_cases by metis
qed

theorem reported_grant_is_admitted_or_ignored_witness:
  "admit_capability_grant (\<lambda>_. []) strict_validator ''l'' ''q'' ''r'' True ''t''
     (PDict [(''capability'', PStr ''web.fetch'')])
     (PDict (sanitize_denied_capability_result (\<lambda>_. []) [(''lease'', PDict [])] [] ''Deny''))
     \<lparr>rd_gate = gate_example, rd_replays = []\<rparr> = Inr \<lparr>rd_gate = gate_example, rd_replays = []\<rparr>"
  using reported_grant_is_admitted_or_ignored by blast

text \<open>The scope requested for a web tool: every constraint the binding sets is kept, and the
  binding identifier and each limit of the feature are present, a limit the binding did not set
  being an integer at or above its minimum (0 calls, otherwise 1); for any other capability the
  scope is exactly what the binding sets.\<close>

theorem web_tool_scope_is_capped:
  assumes "capability_scope_for_tool ip bs c b runtime = Inr s"
  shows "case web_feature_caps c of
      None \<Rightarrow> s = filter (\<lambda>p. py_truthy (snd p)) bs
    | Some rows \<Rightarrow>
        (\<forall>k v. map_of (filter (\<lambda>p. py_truthy (snd p)) bs) k = Some v \<longrightarrow> map_of s k = Some v) \<and>
        map_of s ''binding_id'' \<noteq> None \<and>
        (\<forall>(k, k1, k2, d, lo) \<in> set rows. k = ''binding_id'' \<or> (\<exists>v. map_of s k = Some v \<and>
          (map_of (filter (\<lambda>p. py_truthy (snd p)) bs) k = Some v \<or> (\<exists>n \<ge> lo. v = PInt n))))"
proof (cases "web_feature_caps c")
  case None
  with assms show ?thesis by (simp add: capability_scope_for_tool_def)
next
  case (Some rows)
  let ?bs = "filter (\<lambda>p. py_truthy (snd p)) bs"
  let ?s0 = "setdefault ''binding_id'' (PStr b) ?bs"
  from assms Some have d: "default_caps ip (web_runtime_of runtime) rows ?s0 = Inr s"
    by (simp add: capability_scope_for_tool_def)
  note ok = default_caps_ok [OF d web_feature_caps_distinct [OF Some]]
  have "map_of s ''binding_id'' \<noteq> None"
    using setdefault_adds [of "''binding_id''" "PStr b" ?bs] ok by fastforce
  moreover have "map_of s k = Some v" if "map_of ?bs k = Some v" for k v
    using conjunct1 [OF ok] setdefault_keeps [OF that] by blast
  moreover have "\<exists>v. map_of s k = Some v \<and> (map_of ?bs k = Some v \<or> (\<exists>n \<ge> lo. v = PInt n))"
    if r: "(k, k1, k2, d, lo) \<in> set rows" and kb: "k \<noteq> ''binding_id''" for k k1 k2 d lo
  proof -
    obtain v where "map_of s k = Some v" "map_of ?s0 k = Some v \<or> (\<exists>n \<ge> lo. v = PInt n)"
      using bspec [OF conjunct2 [OF ok] r] by auto
    moreover have "map_of ?bs k = Some v" if "map_of ?s0 k = Some v"
      using that kb
      by (auto simp: setdefault_def map_add_def split: if_splits option.splits)
    ultimately show ?thesis by blast
  qed
  ultimately show ?thesis
    unfolding Some option.case by (intro conjI ballI allI impI) (simp | blast | clarify)+
qed

theorem web_tool_scope_is_capped_witness:
  "\<exists>s. capability_scope_for_tool (\<lambda>_. None) [] ''web.search'' ''b'' (PDict [(''max_calls'', PInt (-4))])
      = Inr s \<and> map_of s ''binding_id'' \<noteq> None"
proof -
  let ?s = "[(''binding_id'', PStr ''b''), (''max_calls'', PInt 0), (''max_results'', PInt 10)]"
  have e: "capability_scope_for_tool (\<lambda>_. None) [] ''web.search'' ''b''
      (PDict [(''max_calls'', PInt (-4))]) = Inr ?s"
    by (simp add: capability_scope_for_tool_def web_feature_caps_def default_cap_def
        setdefault_def get_either_def web_runtime_of_def)
  from web_tool_scope_is_capped [OF e] e show ?thesis
    by (auto simp: web_feature_caps_def)
qed

text \<open>Approved access and the kill switch survive a restart together: restoring a fresh vault
  from the checkpoint of a well-formed one succeeds, puts back exactly the durable leases in
  their order and none of the ephemeral ones, and keeps every revocation decision.\<close>

theorem restart_restores_durable_leases:
  assumes "pydantic_strict va" and "wf_vault v" and "export_durable v = Inr payloads"
    and "\<forall>(k, l) \<in> set (va_leases v). wf_val (PDict (cl_scope l))"
    and "finite (rv_lease_ids (h (va_revocations v)))"
    and "finite (rv_capabilities (h (va_revocations v)))"
    and "''*'' \<notin> rv_capabilities (h (va_revocations v))"
    and "flt_le (Fin 0) (rv_before (h (va_revocations v)))" and "h' a = empty_revocations"
  shows "\<exists>h'' v''. restore_vault va fresh_id h' \<lparr>va_leases = [], va_revocations = a\<rparr> payloads
      (export_revocations h v) = Inr (h'', v'') \<and>
    va_leases v'' = filter (\<lambda>p. cl_durable (snd p)) (va_leases v) \<and>
    va_revocations v'' = a \<and> h'' a = h (va_revocations v)"
proof -
  let ?st = "h (va_revocations v)" and ?ls = "filter (\<lambda>p. cl_durable (snd p)) (va_leases v)"
  have snd: "filter cl_durable (map snd (va_leases v)) = map snd ?ls"
    by (simp add: filter_map comp_def)
  have r: "restore_leases va fresh_id \<lparr>va_leases = [], va_revocations = a\<rparr> payloads =
      Inr \<lparr>va_leases = ?ls, va_revocations = a\<rparr>"
    using restore_durable_leases [OF assms(1), of ?ls "\<lparr>va_leases = [], va_revocations = a\<rparr>"
        payloads fresh_id] assms(2-4)
    by (auto simp: export_durable_def snd wf_vault_def distinct_map_filter)
  have "flt_max (Fin 0) (rv_before ?st) = rv_before ?st"
    using assms(8) by (cases "rv_before ?st") (auto simp: flt_max_def)
  then have i: "import_revocation_state empty_revocations (export_revocation_state ?st) = ?st"
    using assms(5-7)
    by (auto simp: export_revocation_state_def import_revocation_state_def
        empty_revocations_def Let_def)
  show ?thesis
    by (simp add: restore_vault_def r import_revocations_def export_revocations_def i assms(9))
qed

theorem restart_restores_durable_leases_witness:
  "\<exists>h'' v'' payloads. export_durable vault_example = Inr payloads \<and>
     restore_vault strict_validator ''x'' (\<lambda>_. empty_revocations)
       \<lparr>va_leases = [], va_revocations = 7\<rparr> payloads
       (export_revocations (\<lambda>_. empty_revocations) vault_example) = Inr (h'', v'') \<and>
     va_leases v'' = [(''web.fetch'', lease_example)]"
proof -
  obtain p where p: "lease_to_json lease_example = Inr p"
    using lease_example_valid by (auto simp: lease_to_json_def)
  have e: "export_durable vault_example = Inr [p]"
    using p by (simp add: export_durable_def vault_example_def) (simp add: lease_example_def)
  have d: "cl_durable lease_example" by (simp add: lease_example_def)
  show ?thesis
    using restart_restores_durable_leases [OF strict_validator_strict vault_example_wf e,
        of "\<lambda>_. empty_revocations" "\<lambda>_. empty_revocations" 7 "''x''"] lease_example_scope e d
    by (auto simp: empty_revocations_def vault_example_def simp del: wf_val.simps)
qed

end
