(* ===== verification/Text_Ingress.thy ===== *)
theory Text_Ingress
  imports Capability
begin

text \<open>
  The ingress copy (\<open>normalize_json_ingress\<close>) on the values of the wire layer, whose strings lie below
  256: without refusals it only turns tuples into lists and, when asked to, non-finite floats into
  \<open>None\<close>. Shared by the components that normalise payloads.
\<close>

fun norm_val :: "bool \<Rightarrow> pyval \<Rightarrow> pyval" where
  "norm_val sub (PFloat f) = (if is_finite_float f \<or> \<not> sub then PFloat f else PNone)"
| "norm_val sub (PList vs) = PList (map (norm_val sub) vs)"
| "norm_val sub (PTuple vs) = PList (map (norm_val sub) vs)"
| "norm_val sub (PDict d) = PDict (map (\<lambda>(k, v). (k, norm_val sub v)) d)"
| "norm_val sub v = v"

definition text_opts :: "bool \<Rightarrow> ingress_opts" where
  "text_opts sub = \<lparr>io_substitute_nonfinite = sub, io_normalize_strings = True,
     io_refuse_unportable = False, io_max_str_digits = 0\<rparr>"

lemma ingress_walk_list_map: "ingress_walk_list opt vs = res_map (ingress_walk opt) vs"
  by (induction vs) simp_all

lemma ingress_walk_items_map:
  "ingress_walk_items opt items = res_map (ingress_walk opt) (map snd items)"
  by (induction items) auto

lemma ival_keys: "map fst (map (\<lambda>(k, v). (KStr (map of_char k), f v)) d) =
    map KStr (map (\<lambda>k. map of_char k) (map fst d))"
  by auto

lemma prepare_text_keys:
  fixes ks :: "string list"
  assumes "distinct ks"
  shows "prepare_keys [] (map KStr (map (\<lambda>k. map of_char k) ks)) =
    Inr (map (\<lambda>k. map of_char k) ks)"
proof (rule prepare_keys_id)
  have "inj (map of_char :: string \<Rightarrow> nat list)"
    by (rule injI) (metis map_char_of_char)
  then show "distinct (map (\<lambda>k. map of_char k) ks :: nat list list)"
    using assms by (simp add: distinct_map inj_on_subset [OF _ subset_UNIV])
qed (auto simp: list_all_iff)

lemma text_ingress_list:
  "(\<And>x. x \<in> set vs \<Longrightarrow> ingress_walk opt (ival_of x) = Inr (ival_of (norm_val sub x))) \<Longrightarrow>
     ingress_walk_list opt (map ival_of vs) = Inr (map (\<lambda>x. ival_of (norm_val sub x)) vs)"
  by (induction vs) simp_all

lemma text_ingress:
  "wf_val v \<Longrightarrow> ingress_walk (text_opts sub) (ival_of v) = Inr (ival_of (norm_val sub v))"
proof (induction v)
  case (PDict d)
  let ?items = "map (\<lambda>(k, v). (KStr (map of_char k), ival_of v)) d"
  have keys: "prepare_keys [] (map fst ?items) = Inr (map (\<lambda>k. map of_char k) (map fst d))"
    unfolding ival_keys using PDict.prems by (intro prepare_text_keys) simp
  have vals: "ingress_walk_items (text_opts sub) ?items =
      Inr (map (\<lambda>p. ival_of (norm_val sub (snd p))) d)"
  proof -
    have "ingress_walk (text_opts sub) (ival_of (snd p)) = Inr (ival_of (norm_val sub (snd p)))"
      if "p \<in> set d" for p
      using PDict.IH [of p "snd p"] PDict.prems that by (cases p) (auto simp: list_all_iff)
    then have "res_map (\<lambda>p. ingress_walk (text_opts sub) (ival_of (snd p))) d =
        Inr (map (\<lambda>p. ival_of (norm_val sub (snd p))) d)"
      by (rule res_map_Inr_map)
    moreover have "res_map (ingress_walk (text_opts sub)) (map snd ?items) =
        res_map (\<lambda>p. ingress_walk (text_opts sub) (ival_of (snd p))) d"
      by (induction d) auto
    ultimately show ?thesis by (simp add: ingress_walk_items_map del: map_map)
  qed
  have "zip (map KStr (map (\<lambda>k. map of_char k) (map fst d)))
      (map (\<lambda>p. ival_of (norm_val sub (snd p))) d) =
      map (\<lambda>(k, v). (KStr (map of_char k), ival_of v)) ((map (\<lambda>(k, v). (k, norm_val sub v)) d))"
    by (induction d) auto
  then show ?case using keys vals by (simp del: map_map)
next
  case (PList vs)
  then have "ingress_walk_list (text_opts sub) (map ival_of vs) =
      Inr (map (\<lambda>x. ival_of (norm_val sub x)) vs)"
    by (intro text_ingress_list) (auto simp: list_all_iff)
  then show ?case by (simp add: comp_def)
next
  case (PTuple vs)
  then have "ingress_walk_list (text_opts sub) (map ival_of vs) =
      Inr (map (\<lambda>x. ival_of (norm_val sub x)) vs)"
    by (intro text_ingress_list) (auto simp: list_all_iff)
  then show ?case by (simp add: comp_def)
qed (auto simp: normalize_scalar_def text_opts_def normalize_id)

lemma norm_val_idem [simp]: "norm_val sub (norm_val sub v) = norm_val sub v"
  by (induction v) auto

lemma wf_norm_val: "wf_val v \<Longrightarrow> wf_val (norm_val sub v)"
proof (induction v)
  case (PDict d)
  have "map fst ((map (\<lambda>(k, v). (k, norm_val sub v)) d)) = map fst d" by auto
  moreover have "wf_val (norm_val sub (snd p))" if "p \<in> set d" for p
    using PDict.IH [of p "snd p"] PDict.prems that by (cases p) (auto simp: list_all_iff)
  ultimately show ?case using PDict.prems by (auto simp: list_all_iff simp del: map_map)
qed (auto simp: list_all_iff)

lemma text_ingress_copy:
  "wf_val v \<Longrightarrow> normalize_json_ingress (text_opts sub) (ival_of v) = Inr (ival_of (norm_val sub v))"
  unfolding normalize_json_ingress_def by (simp add: text_ingress) (simp add: text_opts_def)

lemma portable_norm_val: "portable_json v \<Longrightarrow> norm_val sub v = v"
proof (induction v)
  case (PDict d)
  have "(case p of (k, v) \<Rightarrow> (k, norm_val sub v)) = p" if "p \<in> set d" for p
    using PDict.IH [of p "snd p"] PDict.prems that by (cases p) (auto simp: list_all_iff)
  then show ?case by (simp add: map_idI)
qed (auto simp: list_all_iff map_idI)

end
