(* ===== verification/Keyed_Store.thy ===== *)
theory Keyed_Store
  imports Monoid_Prelude
begin

text \<open>
  The contract of a keyed store: what a lookup returns after one or many writes. The outbox register
  is an instance; its theory interprets the locale on the operations of the model.
\<close>

locale keyed_store =
  fixes lookup :: "'s \<Rightarrow> 'k \<Rightarrow> 'v option"
    and store :: "'v \<Rightarrow> 's \<Rightarrow> 's"
    and key :: "'v \<Rightarrow> 'k"
  assumes lookup_store: "lookup (store v s) k = (if k = key v then Some v else lookup s k)"
begin

lemma lookup_stored [simp]: "lookup (store v s) (key v) = Some v"
  by (simp add: lookup_store)

lemma lookup_other: "k \<noteq> key v \<Longrightarrow> lookup (store v s) k = lookup s k"
  by (simp add: lookup_store)

lemma lookup_stores_other: "k \<notin> key ` set vs \<Longrightarrow> lookup (fold store vs s) k = lookup s k"
  by (induction vs arbitrary: s) (auto simp: lookup_store)

lemma lookup_stores:
  "v \<in> set vs \<Longrightarrow> distinct (map key vs) \<Longrightarrow> lookup (fold store vs s) (key v) = Some v"
proof (induction vs arbitrary: s)
  case (Cons w vs)
  then show ?case
    using lookup_stores_other [of "key w" vs "store w s"] by (auto simp: lookup_store)
qed simp

lemma store_overwrites: "key v = key w \<Longrightarrow> lookup (store v (store w s)) = lookup (store v s)"
  by (auto simp: lookup_store)

lemma stores_commute:
  "key v \<noteq> key w \<Longrightarrow> lookup (store v (store w s)) = lookup (store w (store v s))"
  by (auto simp: lookup_store)

end

lemma map_of_update: "map_of (AList.update k v al) k' = (if k' = k then Some v else map_of al k')"
  by (simp add: update_conv')

lemma map_of_filter_key:
  "distinct (map fst al) \<Longrightarrow> map_of (filter P al) k =
     (case map_of al k of Some v \<Rightarrow> if P (k, v) then Some v else None | None \<Rightarrow> None)"
proof (induction al)
  case (Cons p al)
  obtain a b where p: "p = (a, b)" by (cases p)
  have "map_of (filter P al) a = None" if "a \<notin> fst ` set al"
    using that by (auto simp: map_of_eq_None_iff)
  with Cons p show ?case by auto
qed simp

end
