(* ===== verification/Outbox.thy ===== *)
theory Outbox
  imports Text_Ingress Keyed_Store
begin

text \<open>
  Outbound side effects and inbound messages: \<open>core/outbox.py\<close>, \<open>core/inbox.py\<close>, the loop's
  staging and bookkeeping (\<open>emit_outbox\<close>, \<open>record_outbox_result\<close> of \<open>loop.py\<close>) and the edge
  dispatcher (\<open>reference/backend/outbox_dispatch.py\<close>).

  The sender is a function from requests to a receipt or the text of a raised exception, and the
  state of the edge lists the requests handed to it. The edge loses its memory at a restart and goes
  on from the last committed checkpoint. The backoff schedule and
  its jitter are one function from an attempt number to a delay, and every theorem holds for
  any of them. Whether write authority is lost at a check is a function of the place of the
  check and of the request being processed.
\<close>

section \<open>Requests\<close>

datatype outbox_status = Pending | Dispatched | Failed

fun outbox_status_value :: "outbox_status \<Rightarrow> string" where
  "outbox_status_value Pending = ''pending''"
| "outbox_status_value Dispatched = ''dispatched''"
| "outbox_status_value Failed = ''failed''"

definition outbox_status_of :: "string \<Rightarrow> outbox_status" where
  "outbox_status_of s = (if s = ''dispatched'' then Dispatched
     else if s = ''failed'' then Failed else Pending)"

record outbox_request =
  ob_destination :: string
  ob_payload :: pydict
  ob_capability :: string
  ob_token_ref :: string
  ob_run_id :: string
  ob_id :: string
  ob_idempotency_key :: string
  ob_correlation_id :: string
  ob_causation_id :: string
  ob_expect_ack :: bool
  ob_reply_to :: string
  ob_traceparent :: string
  ob_tracestate :: string
  ob_created_at :: pyfloat
  ob_status :: outbox_status
  ob_attempts :: int
  ob_next_attempt_at :: pyfloat
  ob_reference :: string
  ob_error :: string

definition default_ingress_opts :: ingress_opts where
  "default_ingress_opts = \<lparr>io_substitute_nonfinite = True, io_normalize_strings = True,
     io_refuse_unportable = False, io_max_str_digits = 0\<rparr>"

text \<open>\<open>normalize_json_ingress(payload)\<close> followed by the test that the copy is an object.\<close>

definition payload_ingress :: "pydict \<Rightarrow> string \<Rightarrow> pydict res" where
  "payload_ingress d message =
     res_bind (normalize_json_ingress default_ingress_opts (ival_of (PDict d))) (\<lambda>w.
     case pyval_of w of PDict e \<Rightarrow> Inr e | _ \<Rightarrow> Inl (ValueError message))"

text \<open>\<open>parse_float({key: value}, key) or 0.0\<close>.\<close>

definition scheduler_float :: "pyfloat \<Rightarrow> string \<Rightarrow> pyfloat res" where
  "scheduler_float f key = float_or_zero [(key, PFloat f)] key"

definition normalize_outbox_request :: "outbox_request \<Rightarrow> outbox_request res" where
  "normalize_outbox_request r =
     res_bind (payload_ingress (ob_payload r) ''outbox request payload must be an object'') (\<lambda>p.
     let r1 = r\<lparr>ob_payload := p,
       ob_destination := normalize_text (ob_destination r),
       ob_capability := normalize_text (ob_capability r),
       ob_token_ref := normalize_text (ob_token_ref r),
       ob_run_id := normalize_text (ob_run_id r),
       ob_id := normalize_text (ob_id r),
       ob_idempotency_key := normalize_text (ob_idempotency_key r),
       ob_correlation_id := normalize_text (ob_correlation_id r),
       ob_causation_id := normalize_text (ob_causation_id r),
       ob_reply_to := normalize_text (ob_reply_to r),
       ob_traceparent := normalize_text (ob_traceparent r),
       ob_tracestate := normalize_text (ob_tracestate r),
       ob_reference := normalize_text (ob_reference r),
       ob_error := normalize_text (ob_error r)\<rparr> in
     res_bind (scheduler_float (ob_created_at r1) ''created_at'') (\<lambda>c.
     res_bind (parse_int [(''attempts'', PInt (ob_attempts r1))] ''attempts'' 0) (\<lambda>a.
     res_bind (scheduler_float (ob_next_attempt_at r1) ''next_attempt_at'') (\<lambda>n.
     Inr (r1\<lparr>ob_created_at := c, ob_attempts := a, ob_next_attempt_at := n\<rparr>)))))"

definition OUTBOX_REQUEST_VERSION :: string where
  "OUTBOX_REQUEST_VERSION = namespaced_id ''outbox-request.v1''"

definition ACCEPTED_OUTBOX_REQUEST_VERSIONS :: "string list" where
  "ACCEPTED_OUTBOX_REQUEST_VERSIONS = accepted_namespaced_ids ''outbox-request.v1''"

definition outbox_request_to_json :: "outbox_request \<Rightarrow> pydict res" where
  "outbox_request_to_json r0 = res_bind (normalize_outbox_request r0) (\<lambda>r. Inr [
     (''protocol'', PStr OUTBOX_REQUEST_VERSION),
     (''id'', PStr (ob_id r)),
     (''run_id'', PStr (ob_run_id r)),
     (''destination'', PStr (ob_destination r)),
     (''capability'', PStr (ob_capability r)),
     (''payload'', PDict (ob_payload r)),
     (''token_ref'', PStr (ob_token_ref r)),
     (''idempotency_key'',
        PStr (if ob_idempotency_key r \<noteq> [] then ob_idempotency_key r else ob_id r)),
     (''correlation_id'',
        PStr (if ob_correlation_id r \<noteq> [] then ob_correlation_id r else ob_id r)),
     (''causation_id'', PStr (ob_causation_id r)),
     (''expect_ack'', PBool (ob_expect_ack r)),
     (''reply_to'', PStr (ob_reply_to r)),
     (''traceparent'', PStr (ob_traceparent r)),
     (''tracestate'', PStr (ob_tracestate r)),
     (''created_at'', PFloat (ob_created_at r)),
     (''status'', PStr (outbox_status_value (ob_status r))),
     (''attempts'', PInt (ob_attempts r)),
     (''next_attempt_at'', PFloat (ob_next_attempt_at r)),
     (''reference'', PStr (ob_reference r)),
     (''error'', PStr (ob_error r))])"

definition outbox_request_from_json :: "validator \<Rightarrow> string \<Rightarrow> pyval \<Rightarrow> outbox_request res" where
  "outbox_request_from_json va fresh_id payload0 =
     res_bind (require_object va payload0 ''outbox request'') (\<lambda>payload.
     res_bind (parse_str va payload ''protocol'' []) (\<lambda>protocol.
     if protocol \<noteq> [] \<and> protocol \<notin> set ACCEPTED_OUTBOX_REQUEST_VERSIONS
     then Inl (ValueError ''unsupported outbox request protocol'')
     else
     res_bind (case map_of payload ''payload'' of None \<Rightarrow> Inr []
               | Some p \<Rightarrow> require_object va p ''payload'') (\<lambda>body.
     res_bind (parse_str va payload ''destination'' []) (\<lambda>destination.
     res_bind (parse_str va payload ''capability'' []) (\<lambda>capability.
     res_bind (parse_str va payload ''token_ref'' []) (\<lambda>token_ref.
     res_bind (parse_str va payload ''run_id'' []) (\<lambda>run_id.
     res_bind (parse_str va payload ''idempotency_key'' []) (\<lambda>idempotency_key.
     res_bind (parse_str va payload ''correlation_id'' []) (\<lambda>correlation_id.
     res_bind (parse_str va payload ''causation_id'' []) (\<lambda>causation_id.
     res_bind (parse_bool va payload ''expect_ack'' False) (\<lambda>expect_ack.
     res_bind (parse_str va payload ''reply_to'' []) (\<lambda>reply_to.
     res_bind (parse_str va payload ''traceparent'' []) (\<lambda>traceparent.
     res_bind (parse_str va payload ''tracestate'' []) (\<lambda>tracestate.
     res_bind (float_or_zero payload ''created_at'') (\<lambda>created_at.
     res_bind (parse_literal payload ''status'' [''pending'', ''dispatched'', ''failed'']
                 (Some ''pending'')) (\<lambda>status.
     res_bind (parse_int payload ''attempts'' 0) (\<lambda>attempts.
     res_bind (float_or_zero payload ''next_attempt_at'') (\<lambda>next_attempt_at.
     res_bind (parse_str va payload ''reference'' []) (\<lambda>reference.
     res_bind (parse_str va payload ''error'' []) (\<lambda>error.
     res_bind (parse_str va payload ''id'' []) (\<lambda>request_id.
     normalize_outbox_request \<lparr>ob_destination = destination, ob_payload = body,
       ob_capability = capability, ob_token_ref = token_ref, ob_run_id = run_id,
       ob_id = (if request_id \<noteq> [] then request_id else fresh_id),
       ob_idempotency_key = idempotency_key, ob_correlation_id = correlation_id,
       ob_causation_id = causation_id, ob_expect_ack = expect_ack, ob_reply_to = reply_to,
       ob_traceparent = traceparent, ob_tracestate = tracestate, ob_created_at = created_at,
       ob_status = outbox_status_of status, ob_attempts = attempts,
       ob_next_attempt_at = next_attempt_at, ob_reference = reference,
       ob_error = error\<rparr>)))))))))))))))))))))"

section \<open>Receipts\<close>

record outbox_receipt =
  rc_ok :: bool
  rc_reference :: string
  rc_error :: string
  rc_retryable :: bool

definition normalize_outbox_receipt :: "outbox_receipt \<Rightarrow> outbox_receipt res" where
  "normalize_outbox_receipt v =
     res_bind (exact_runtime_bool (PBool (rc_ok v)) ''outbox receipt ok'') (\<lambda>ok.
     res_bind (exact_runtime_string (PStr (rc_reference v)) ''outbox receipt reference'') (\<lambda>ref.
     res_bind (exact_runtime_string (PStr (rc_error v)) ''outbox receipt error'') (\<lambda>err.
     res_bind (exact_runtime_bool (PBool (rc_retryable v)) ''outbox receipt retryable'') (\<lambda>ret.
     Inr \<lparr>rc_ok = ok, rc_reference = normalize_text ref, rc_error = normalize_text err,
          rc_retryable = ret\<rparr>))))"

section \<open>The register\<close>

type_synonym outbox = "(string \<times> outbox_request) list"

definition outbox_append :: "outbox_request \<Rightarrow> outbox \<Rightarrow> outbox" where
  "outbox_append r ob = AList.update (ob_id r) r ob"

definition outbox_get :: "outbox \<Rightarrow> string \<Rightarrow> outbox_request option" where
  "outbox_get ob request_id = map_of ob request_id"

definition outbox_pending :: "outbox \<Rightarrow> outbox_request list" where
  "outbox_pending ob = filter (\<lambda>r. ob_status r = Pending) (map snd ob)"

definition outbox_due :: "outbox \<Rightarrow> pyfloat \<Rightarrow> outbox_request list" where
  "outbox_due ob now =
     filter (\<lambda>r. ob_status r = Pending \<and> flt_le (ob_next_attempt_at r) now) (map snd ob)"

definition outbox_mark :: "outbox \<Rightarrow> string \<Rightarrow> outbox_status \<Rightarrow> int option \<Rightarrow> pyfloat option \<Rightarrow>
    string \<Rightarrow> string \<Rightarrow> outbox" where
  "outbox_mark ob request_id status attempts next_attempt_at reference error =
     (case outbox_get ob request_id of
        None \<Rightarrow> ob
      | Some r0 \<Rightarrow>
          let r1 = r0\<lparr>ob_status := status\<rparr>;
              r2 = (case attempts of None \<Rightarrow> r1 | Some a \<Rightarrow> r1\<lparr>ob_attempts := a\<rparr>);
              r3 = (case next_attempt_at of None \<Rightarrow> r2 | Some n \<Rightarrow> r2\<lparr>ob_next_attempt_at := n\<rparr>);
              r4 = (if reference \<noteq> [] then r3\<lparr>ob_reference := reference\<rparr> else r3)
          in AList.update request_id (r4\<lparr>ob_error := error\<rparr>) ob)"

definition outbox_export :: "outbox \<Rightarrow> pydict list res" where
  "outbox_export ob = res_map outbox_request_to_json (map snd ob)"

fun outbox_import :: "validator \<Rightarrow> string \<Rightarrow> outbox \<Rightarrow> pydict list \<Rightarrow> outbox res" where
  "outbox_import va fresh_id ob [] = Inr ob"
| "outbox_import va fresh_id ob (p # ps) =
     res_bind (outbox_request_from_json va fresh_id (PDict p)) (\<lambda>r.
     outbox_import va fresh_id (outbox_append r ob) ps)"

section \<open>Staging and recording\<close>

datatype outbox_event =
    OutboxRequested string string string string
  | OutboxDispatched string string string int string
  | OutboxFailed string string string int string

text \<open>The arguments after the exact-type checks; \<open>token\<close> is the lease handle the vault returns
  for the capability, \<open>revoked\<close> whether write authority is lost.\<close>

definition emit_outbox :: "bool \<Rightarrow> (string \<Rightarrow> string option) \<Rightarrow> string \<Rightarrow> string \<Rightarrow> pyfloat \<Rightarrow> string \<Rightarrow>
    string \<Rightarrow> pydict \<Rightarrow> string \<Rightarrow> string \<Rightarrow> bool \<Rightarrow> string \<Rightarrow> outbox \<times> outbox_event list \<Rightarrow>
    (outbox \<times> outbox_event list) res" where
  "emit_outbox revoked token run_id fresh_id now traceparent destination payload capability
      idempotency_key expect_ack reply_to st =
     (if revoked then Inl WriteAuthorityRevoked
      else res_bind (payload_ingress payload ''outbox payload must be an object'') (\<lambda>body.
        res_bind (normalize_outbox_request \<lparr>ob_destination = normalize_text destination,
          ob_payload = body, ob_capability = normalize_text capability,
          ob_token_ref = (if capability \<noteq> []
             then (case token (normalize_text capability) of Some t \<Rightarrow> t | None \<Rightarrow> []) else []),
          ob_run_id = run_id, ob_id = fresh_id,
          ob_idempotency_key = normalize_text idempotency_key, ob_correlation_id = [],
          ob_causation_id = [], ob_expect_ack = expect_ack, ob_reply_to = normalize_text reply_to,
          ob_traceparent = traceparent, ob_tracestate = [], ob_created_at = now,
          ob_status = Pending, ob_attempts = 0, ob_next_attempt_at = Fin 0, ob_reference = [],
          ob_error = []\<rparr>) (\<lambda>r.
        Inr (outbox_append r (fst st),
             snd st @ [OutboxRequested (ob_id r) (ob_destination r) (ob_capability r)
                         (ob_traceparent r)]))))"

definition record_outbox_result :: "bool \<Rightarrow> outbox \<times> outbox_event list \<Rightarrow> string \<Rightarrow>
    outbox_receipt \<Rightarrow> int \<Rightarrow> pyfloat option \<Rightarrow>
    ((outbox \<times> outbox_event list) \<times> outbox_status option) res" where
  "record_outbox_result revoked st request_id0 receipt0 max_attempts next_attempt_at =
     (if revoked then Inl WriteAuthorityRevoked
      else let request_id = normalize_text request_id0; ob = fst st; evs = snd st in
      case outbox_get ob request_id of
        None \<Rightarrow> Inr (st, None)
      | Some request \<Rightarrow>
        res_bind (normalize_outbox_receipt receipt0) (\<lambda>receipt.
        let attempts = ob_attempts request + 1 in
        if rc_ok receipt then
          Inr ((outbox_mark ob request_id Dispatched (Some attempts) None (rc_reference receipt) [],
                evs @ [OutboxDispatched request_id (ob_destination request)
                         (rc_reference receipt) attempts (ob_traceparent request)]),
               Some Dispatched)
        else if rc_retryable receipt \<and> attempts < max_attempts then
          Inr ((outbox_mark ob request_id Pending (Some attempts) next_attempt_at []
                  (rc_error receipt), evs), Some Pending)
        else
          Inr ((outbox_mark ob request_id Failed (Some attempts) None [] (rc_error receipt),
                evs @ [OutboxFailed request_id (ob_destination request) (rc_error receipt)
                         attempts (ob_traceparent request)]),
               Some Failed)))"

section \<open>Inbox messages\<close>

record inbox_message =
  ib_content :: pyval
  ib_id :: string
  ib_source :: string
  ib_type :: string
  ib_run_id :: string
  ib_created_at :: pyfloat
  ib_correlation_id :: string
  ib_causation_id :: string
  ib_traceparent :: string
  ib_tracestate :: string
  ib_metadata :: pydict

definition INBOX_PROTOCOL_VERSION :: string where
  "INBOX_PROTOCOL_VERSION = namespaced_id ''inbox-message.v1''"

definition ACCEPTED_INBOX_PROTOCOL_VERSIONS :: "string list" where
  "ACCEPTED_INBOX_PROTOCOL_VERSIONS = accepted_namespaced_ids ''inbox-message.v1''"

definition inbox_to_json :: "inbox_message \<Rightarrow> pydict" where
  "inbox_to_json m = [
     (''protocol'', PStr INBOX_PROTOCOL_VERSION),
     (''id'', PStr (ib_id m)),
     (''source'', PStr (ib_source m)),
     (''type'', PStr (ib_type m)),
     (''run_id'', PStr (ib_run_id m)),
     (''created_at'', PFloat (ib_created_at m)),
     (''correlation_id'',
        PStr (if ib_correlation_id m \<noteq> [] then ib_correlation_id m else ib_id m)),
     (''causation_id'', PStr (ib_causation_id m)),
     (''traceparent'', PStr (ib_traceparent m)),
     (''tracestate'', PStr (ib_tracestate m)),
     (''metadata'', PDict (ib_metadata m)),
     (''content'', ib_content m)]"

definition inbox_content :: "validator \<Rightarrow> pydict \<Rightarrow> pyval res" where
  "inbox_content va payload = (case map_of payload ''content'' of
      None \<Rightarrow> Inr (PStr [])
    | Some (PList parts) \<Rightarrow>
        res_bind (res_map (\<lambda>p. require_object va p ''content part'') parts) (\<lambda>ds.
          Inr (PList (map PDict ds)))
    | Some (PStr s) \<Rightarrow> Inr (PStr s)
    | Some _ \<Rightarrow> Inl (ValueError ''content must be a string or list of objects''))"

definition inbox_from_json :: "validator \<Rightarrow> string \<Rightarrow> pyval \<Rightarrow> inbox_message res" where
  "inbox_from_json va fresh_id payload0 =
     res_bind (require_object va payload0 ''inbox message'') (\<lambda>payload.
     res_bind (parse_str va payload ''protocol'' []) (\<lambda>protocol.
     if protocol \<noteq> [] \<and> protocol \<notin> set ACCEPTED_INBOX_PROTOCOL_VERSIONS
     then Inl (ValueError ''unsupported inbox message protocol'')
     else
     res_bind (inbox_content va payload) (\<lambda>content.
     res_bind (case map_of payload ''metadata'' of None \<Rightarrow> Inr []
               | Some p \<Rightarrow> require_object va p ''metadata'') (\<lambda>metadata.
     res_bind (parse_str va payload ''source'' ''api'') (\<lambda>source.
     res_bind (parse_str va payload ''type'' ''user_message'') (\<lambda>type.
     res_bind (parse_str va payload ''run_id'' []) (\<lambda>run_id.
     res_bind (float_or_zero payload ''created_at'') (\<lambda>created_at.
     res_bind (parse_str va payload ''correlation_id'' []) (\<lambda>correlation_id.
     res_bind (parse_str va payload ''causation_id'' []) (\<lambda>causation_id.
     res_bind (parse_str va payload ''traceparent'' []) (\<lambda>traceparent.
     res_bind (parse_str va payload ''tracestate'' []) (\<lambda>tracestate.
     res_bind (parse_str va payload ''id'' []) (\<lambda>msg_id.
     Inr \<lparr>ib_content = content, ib_id = (if msg_id \<noteq> [] then msg_id else fresh_id),
       ib_source = source, ib_type = type, ib_run_id = run_id, ib_created_at = created_at,
       ib_correlation_id = correlation_id, ib_causation_id = causation_id,
       ib_traceparent = traceparent, ib_tracestate = tracestate,
       ib_metadata = metadata\<rparr>)))))))))))))"

definition is_inbox_envelope :: "pyval \<Rightarrow> bool" where
  "is_inbox_envelope obj = (case obj of
      PDict d \<Rightarrow> (case dget d ''protocol'' of
          PStr s \<Rightarrow> s \<in> set ACCEPTED_INBOX_PROTOCOL_VERSIONS | _ \<Rightarrow> False)
    | _ \<Rightarrow> False)"

section \<open>The edge dispatcher\<close>

text \<open>The part of the backend's run record the dispatcher uses, with the loop's outbox. \<open>eg_commits\<close> are the
  checkpoints committed so far, \<open>eg_sent\<close> is what left the process: the requests handed to the sender, in order.\<close>

record edge_state =
  eg_outbox :: outbox
  eg_events :: "outbox_event list"
  eg_queue :: "pyval list"
  eg_seen :: "string list"
  eg_terminal :: bool
  eg_commits :: "(outbox \<times> pyval list \<times> string list) list"
  eg_sent :: "outbox_request list"

record edge_env =
  ev_sender :: "outbox_request \<Rightarrow> string + outbox_receipt"
  ev_delay :: "int \<Rightarrow> pyfloat"
  ev_max_attempts :: int
  ev_max_queue :: nat
  ev_run_id :: string
  ev_now :: pyfloat
  ev_trace :: "string \<Rightarrow> string"
  ev_summary :: "outbox_request \<Rightarrow> outbox_status \<Rightarrow> outbox_receipt \<Rightarrow> string"
  ev_has_sender :: bool
  ev_has_snapshot :: bool
  ev_lost_start :: bool
  ev_lost_before :: "string \<Rightarrow> bool"
  ev_lost_after :: "string \<Rightarrow> bool"
  ev_lost_ack :: "string \<Rightarrow> bool"
  ev_lost_commit :: bool

definition ack_id_of :: "string \<Rightarrow> string" where
  "ack_id_of request_id = ''ack_'' @ request_id"

definition stage_outbox_ack :: "edge_env \<Rightarrow> edge_state \<Rightarrow> outbox_request \<Rightarrow> outbox_status \<Rightarrow>
    outbox_receipt \<Rightarrow> edge_state" where
  "stage_outbox_ack env st request status receipt =
     (let ack_id = ack_id_of (ob_id request) in
      if eg_terminal st then st
      else if ack_id \<in> set (eg_seen st) \<or> ev_max_queue env \<le> length (eg_queue st) then st
      else st\<lparr>eg_queue := eg_queue st @ [PDict (inbox_to_json
        \<lparr>ib_content = PStr (ev_summary env request status receipt), ib_id = ack_id,
         ib_source = ''outbox'', ib_type = ''outbox_ack'', ib_run_id = ev_run_id env,
         ib_created_at = ev_now env,
         ib_correlation_id =
           (if ob_correlation_id request \<noteq> [] then ob_correlation_id request else ob_id request),
         ib_causation_id = ob_id request, ib_traceparent = ob_traceparent request,
         ib_tracestate = ob_tracestate request, ib_metadata = []\<rparr>)]\<rparr>)"

text \<open>\<open>sender.send(request)\<close>: the request leaves, and the sender answers with a receipt or raises.\<close>

definition send_request :: "edge_env \<Rightarrow> edge_state \<Rightarrow> outbox_request \<Rightarrow> edge_state \<times> (string + outbox_receipt)" where
  "send_request env st r = (st\<lparr>eg_sent := eg_sent st @ [r]\<rparr>, ev_sender env r)"

text \<open>One iteration of the loop over the due requests: the state at the end of the iteration, or
  the exception and the state it leaves.\<close>

definition drain_one :: "edge_env \<Rightarrow> edge_state \<Rightarrow> string \<Rightarrow> edge_state \<times> unit res" where
  "drain_one env st rid =
     (if ev_lost_before env rid then (st, Inl WriteAuthorityRevoked)
      else case outbox_get (eg_outbox st) rid of
        None \<Rightarrow> (st, Inr ())
      | Some r0 \<Rightarrow>
          let r = (if ob_traceparent r0 = [] then r0\<lparr>ob_traceparent := ev_trace env rid\<rparr> else r0);
              (st1, answer) = send_request env (st\<lparr>eg_outbox := AList.update rid r (eg_outbox st)\<rparr>) r;
              receipt = (case answer of
                  Inr rc \<Rightarrow> rc
                | Inl text \<Rightarrow> \<lparr>rc_ok = False, rc_reference = [], rc_error = text,
                               rc_retryable = True\<rparr>) in
          if ev_lost_after env rid then (st1, Inl WriteAuthorityRevoked)
          else (case record_outbox_result False (eg_outbox st1, eg_events st1) rid receipt
                  (ev_max_attempts env)
                  (Some (flt_add (ev_now env) (ev_delay env (ob_attempts r + 1)))) of
              Inl e \<Rightarrow> (st1, Inl e)
            | Inr ((ob, evs), status) \<Rightarrow>
                let st2 = st1\<lparr>eg_outbox := ob, eg_events := evs\<rparr> in
                (case status of
                   Some Pending \<Rightarrow> (st2, Inr ())
                 | None \<Rightarrow> (st2, Inr ())
                 | Some s \<Rightarrow>
                     if \<not> ob_expect_ack r then (st2, Inr ())
                     else if ev_lost_ack env rid then (st2, Inl WriteAuthorityRevoked)
                     else (stage_outbox_ack env st2 r s receipt, Inr ()))))"

fun drain_requests :: "edge_env \<Rightarrow> edge_state \<Rightarrow> string list \<Rightarrow> edge_state \<times> unit res" where
  "drain_requests env st [] = (st, Inr ())"
| "drain_requests env st (rid # rids) =
     (case drain_one env st rid of
        (st', Inl e) \<Rightarrow> (st', Inl e)
      | (st', Inr _) \<Rightarrow> drain_requests env st' rids)"

text \<open>The commit persists the loop's snapshot together with the queued messages and the sorted
  seen identifiers.\<close>

definition commit_drain :: "edge_env \<Rightarrow> edge_state \<Rightarrow> edge_state \<times> unit res" where
  "commit_drain env st =
     (if ev_lost_commit env then (st, Inl WriteAuthorityRevoked)
      else if ev_has_snapshot env
      then (st\<lparr>eg_commits := eg_commits st @
             [(eg_outbox st, eg_queue st, sort (remdups (eg_seen st)))]\<rparr>, Inr ())
      else (st, Inr ()))"

definition drain_outbox :: "edge_env \<Rightarrow> edge_state \<Rightarrow> edge_state \<times> unit res" where
  "drain_outbox env st =
     (if ev_lost_start env then (st, Inl WriteAuthorityRevoked)
      else let due = map ob_id (outbox_due (eg_outbox st) (ev_now env)) in
      if \<not> ev_has_sender env \<or> due = [] then (st, Inr ())
      else (case drain_requests env st due of
          (st', Inl e) \<Rightarrow> (st', Inl e)
        | (st', Inr _) \<Rightarrow> commit_drain env st'))"

section \<open>Laws of payload normalisation\<close>

abbreviation norm_json :: "pyval \<Rightarrow> pyval" where
  "norm_json \<equiv> norm_val True"

abbreviation norm_payload :: "pydict \<Rightarrow> pydict" where
  "norm_payload d \<equiv> map (\<lambda>(k, v). (k, norm_json v)) d"

lemma default_is_text: "default_ingress_opts = text_opts True"
  by (simp add: default_ingress_opts_def text_opts_def)

lemma payload_ingress_wf:
  "wf_val (PDict d) \<Longrightarrow> payload_ingress d m = Inr (norm_payload d)"
proof -
  assume "wf_val (PDict d)"
  from text_ingress_copy [OF this, of True]
  have "normalize_json_ingress default_ingress_opts (ival_of (PDict d)) =
      Inr (ival_of (PDict (norm_payload d)))"
    by (simp add: default_is_text del: ival_of.simps)
  then show ?thesis unfolding payload_ingress_def
    by (simp del: ival_of.simps)
qed

section \<open>Laws of requests\<close>

definition wf_request :: "outbox_request \<Rightarrow> bool" where
  "wf_request r \<longleftrightarrow> ob_id r \<noteq> [] \<and> wf_val (PDict (ob_payload r))"

definition schedulable :: "outbox_request \<Rightarrow> bool" where
  "schedulable r \<longleftrightarrow> is_finite_float (ob_created_at r) \<and> is_finite_float (ob_next_attempt_at r)"

text \<open>The request as its wire form determines it: payload normalised, defaults filled in.\<close>

definition canonical :: "outbox_request \<Rightarrow> outbox_request" where
  "canonical r = r\<lparr>ob_payload := norm_payload (ob_payload r),
     ob_idempotency_key := (if ob_idempotency_key r \<noteq> [] then ob_idempotency_key r else ob_id r),
     ob_correlation_id := (if ob_correlation_id r \<noteq> [] then ob_correlation_id r else ob_id r)\<rparr>"

lemma scheduler_float_iff [simp]:
  "scheduler_float f k = Inr g \<longleftrightarrow> g = f \<and> is_finite_float f"
  by (auto simp: scheduler_float_def float_or_zero_def parse_float_def is_finite_json_number_def
      res_bind_eq_Inr)

lemma normalize_request_wf:
  assumes "wf_val (PDict (ob_payload r))"
  shows "normalize_outbox_request r = Inr r' \<longleftrightarrow>
    schedulable r \<and> r' = r\<lparr>ob_payload := norm_payload (ob_payload r)\<rparr>"
  unfolding normalize_outbox_request_def payload_ingress_wf [OF assms] res_bind_Inr Let_def
    res_bind_eq_Inr schedulable_def
  by (auto simp: parse_int_def)

lemma status_value_of [simp]: "outbox_status_of (outbox_status_value st) = st"
  by (cases st) (simp_all add: outbox_status_of_def)

lemma status_value_mem:
  "outbox_status_value st \<in> set [''pending'', ''dispatched'', ''failed'']"
  by (cases st) simp_all

lemma outbox_json_roundtrip:
  assumes strict: "pydantic_strict va" and wf: "wf_request r"
    and to: "outbox_request_to_json r = Inr p"
  shows "outbox_request_from_json va fresh_id (PDict p) = Inr (canonical r)"
proof -
  have wfp: "wf_val (PDict (ob_payload r))" and id: "ob_id r \<noteq> []"
    using wf by (auto simp: wf_request_def)
  define c where "c = canonical r"
  have "schedulable r"
    using to normalize_request_wf [OF wfp] by (auto simp: outbox_request_to_json_def res_bind_eq_Inr)
  then have sc: "schedulable c" by (simp add: c_def schedulable_def canonical_def)
  have n: "normalize_outbox_request r = Inr (r\<lparr>ob_payload := norm_payload (ob_payload r)\<rparr>)"
    using normalize_request_wf [OF wfp] \<open>schedulable r\<close> by blast
  have p: "p = [(''protocol'', PStr OUTBOX_REQUEST_VERSION), (''id'', PStr (ob_id c)),
     (''run_id'', PStr (ob_run_id c)), (''destination'', PStr (ob_destination c)),
     (''capability'', PStr (ob_capability c)), (''payload'', PDict (ob_payload c)),
     (''token_ref'', PStr (ob_token_ref c)), (''idempotency_key'', PStr (ob_idempotency_key c)),
     (''correlation_id'', PStr (ob_correlation_id c)), (''causation_id'', PStr (ob_causation_id c)),
     (''expect_ack'', PBool (ob_expect_ack c)), (''reply_to'', PStr (ob_reply_to c)),
     (''traceparent'', PStr (ob_traceparent c)), (''tracestate'', PStr (ob_tracestate c)),
     (''created_at'', PFloat (ob_created_at c)),
     (''status'', PStr (outbox_status_value (ob_status c))), (''attempts'', PInt (ob_attempts c)),
     (''next_attempt_at'', PFloat (ob_next_attempt_at c)), (''reference'', PStr (ob_reference c)),
     (''error'', PStr (ob_error c))]"
    using to n by (auto simp: outbox_request_to_json_def c_def canonical_def)
  have strs: "parse_str va p ''protocol'' [] = Inr OUTBOX_REQUEST_VERSION"
      "parse_str va p ''id'' [] = Inr (ob_id c)" "parse_str va p ''run_id'' [] = Inr (ob_run_id c)"
      "parse_str va p ''destination'' [] = Inr (ob_destination c)"
      "parse_str va p ''capability'' [] = Inr (ob_capability c)"
      "parse_str va p ''token_ref'' [] = Inr (ob_token_ref c)"
      "parse_str va p ''idempotency_key'' [] = Inr (ob_idempotency_key c)"
      "parse_str va p ''correlation_id'' [] = Inr (ob_correlation_id c)"
      "parse_str va p ''causation_id'' [] = Inr (ob_causation_id c)"
      "parse_str va p ''reply_to'' [] = Inr (ob_reply_to c)"
      "parse_str va p ''traceparent'' [] = Inr (ob_traceparent c)"
      "parse_str va p ''tracestate'' [] = Inr (ob_tracestate c)"
      "parse_str va p ''reference'' [] = Inr (ob_reference c)"
      "parse_str va p ''error'' [] = Inr (ob_error c)"
      "parse_bool va p ''expect_ack'' False = Inr (ob_expect_ack c)"
    by (simp_all add: p parse_str_strict [OF strict] parse_bool_strict [OF strict])
  have nums: "float_or_zero p ''created_at'' = Inr (ob_created_at c)"
      "float_or_zero p ''next_attempt_at'' = Inr (ob_next_attempt_at c)"
      "parse_int p ''attempts'' 0 = Inr (ob_attempts c)"
    using sc by (simp_all add: p float_or_zero_def parse_float_def parse_int_def schedulable_def
        is_finite_json_number_def)
  have st: "parse_literal p ''status'' [''pending'', ''dispatched'', ''failed'']
      (Some ''pending'') = Inr (outbox_status_value (ob_status c))"
    by (rule parse_literal_present) (simp_all only: p status_value_mem, simp)
  have body: "map_of p ''payload'' = Some (PDict (ob_payload c))" by (simp add: p)
  have acc: "OUTBOX_REQUEST_VERSION \<in> set ACCEPTED_OUTBOX_REQUEST_VERSIONS"
    by (simp add: ACCEPTED_OUTBOX_REQUEST_VERSIONS_def OUTBOX_REQUEST_VERSION_def
        accepted_namespaced_ids_iff)
  have wfc: "wf_val (PDict (ob_payload c))"
    using wf_norm_val [OF wfp] by (simp add: c_def canonical_def)
  have "norm_payload (ob_payload c) = ob_payload c"
    using norm_val_idem [of True "PDict (ob_payload r)"] by (simp add: c_def canonical_def)
  then have "normalize_outbox_request c = Inr c"
    using normalize_request_wf [OF wfc] sc by simp
  then have nc: "normalize_outbox_request \<lparr>ob_destination = ob_destination c,
      ob_payload = ob_payload c, ob_capability = ob_capability c, ob_token_ref = ob_token_ref c,
      ob_run_id = ob_run_id c, ob_id = ob_id c, ob_idempotency_key = ob_idempotency_key c,
      ob_correlation_id = ob_correlation_id c, ob_causation_id = ob_causation_id c,
      ob_expect_ack = ob_expect_ack c, ob_reply_to = ob_reply_to c,
      ob_traceparent = ob_traceparent c, ob_tracestate = ob_tracestate c,
      ob_created_at = ob_created_at c, ob_status = ob_status c, ob_attempts = ob_attempts c,
      ob_next_attempt_at = ob_next_attempt_at c, ob_reference = ob_reference c,
      ob_error = ob_error c\<rparr> = Inr c"
    by (cases c) simp
  have idc: "ob_id c \<noteq> []" using id by (simp add: c_def canonical_def)
  show ?thesis
    unfolding outbox_request_from_json_def require_object_strict [OF strict] c_def [symmetric]
    using acc idc
    by (simp add: strs nums st body nc require_object_strict [OF strict])
qed

lemma outbox_to_json_canonical:
  assumes wf: "wf_request r" and to: "outbox_request_to_json r = Inr p"
  shows "outbox_request_to_json (canonical r) = Inr p" and "wf_request (canonical r)"
proof -
  have wfp: "wf_val (PDict (ob_payload r))" using wf by (simp add: wf_request_def)
  have wfc: "wf_val (PDict (ob_payload (canonical r)))"
    using wf_norm_val [OF wfp] by (simp add: canonical_def)
  show "wf_request (canonical r)" using wf wfc by (simp add: wf_request_def canonical_def)
  have sc: "schedulable r"
    using to normalize_request_wf [OF wfp] by (auto simp: outbox_request_to_json_def res_bind_eq_Inr)
  have n: "normalize_outbox_request r = Inr (r\<lparr>ob_payload := norm_payload (ob_payload r)\<rparr>)"
    using normalize_request_wf [OF wfp] sc by blast
  have "norm_payload (ob_payload (canonical r)) = ob_payload (canonical r)"
    using norm_val_idem [of True "PDict (ob_payload r)"] by (simp add: canonical_def)
  then have c: "normalize_outbox_request (canonical r) = Inr (canonical r)"
    using normalize_request_wf [OF wfc] sc by (simp add: schedulable_def canonical_def)
  show "outbox_request_to_json (canonical r) = Inr p"
    using to n c by (auto simp: outbox_request_to_json_def canonical_def)
qed

section \<open>Laws of the register\<close>

interpretation ob: keyed_store outbox_get outbox_append ob_id
  by unfold_locales (simp add: outbox_get_def outbox_append_def map_of_update)

text \<open>Requests are registered under their identifier.\<close>

definition wf_outbox :: "outbox \<Rightarrow> bool" where
  "wf_outbox ob \<longleftrightarrow> distinct (map fst ob) \<and> (\<forall>(k, r) \<in> set ob. k = ob_id r)"

lemma wf_outbox_get: "wf_outbox ob \<Longrightarrow> outbox_get ob k = Some r \<Longrightarrow> ob_id r = k"
  by (auto simp: wf_outbox_def outbox_get_def dest!: map_of_SomeD)

lemma wf_outbox_update: "wf_outbox ob \<Longrightarrow> ob_id r = k \<Longrightarrow> wf_outbox (AList.update k r ob)"
proof -
  assume wf: "wf_outbox ob" and k: "ob_id r = k"
  have d: "distinct (map fst (AList.update k r ob))"
    using wf by (simp add: wf_outbox_def distinct_update)
  have "j = ob_id x" if "(j, x) \<in> set (AList.update k r ob)" for j x
  proof -
    have "map_of (AList.update k r ob) j = Some x" using that d by simp
    then show ?thesis using k wf_outbox_get [OF wf, of j x]
      by (auto simp: map_of_update outbox_get_def split: if_splits)
  qed
  with d show ?thesis by (auto simp: wf_outbox_def)
qed

lemma wf_outbox_append: "wf_outbox ob \<Longrightarrow> wf_outbox (outbox_append r ob)"
  by (simp add: outbox_append_def wf_outbox_update)

lemma outbox_due_iff:
  "wf_outbox ob \<Longrightarrow> r \<in> set (outbox_due ob now) \<longleftrightarrow>
     outbox_get ob (ob_id r) = Some r \<and> ob_status r = Pending \<and> flt_le (ob_next_attempt_at r) now"
  by (force simp: outbox_due_def outbox_get_def wf_outbox_def)

lemma outbox_due_ids_distinct: "wf_outbox ob \<Longrightarrow> distinct (map ob_id (outbox_due ob now))"
proof -
  assume wf: "wf_outbox ob"
  then have "map ob_id (map snd ob) = map fst ob" by (auto simp: wf_outbox_def)
  with wf have "distinct (map ob_id (map snd ob))" by (simp add: wf_outbox_def del: map_map)
  then show ?thesis by (simp add: outbox_due_def distinct_map_filter del: map_map)
qed

text \<open>What a mark does to the request it names.\<close>

definition marked :: "outbox_status \<Rightarrow> int option \<Rightarrow> pyfloat option \<Rightarrow> string \<Rightarrow> string \<Rightarrow>
    outbox_request \<Rightarrow> outbox_request" where
  "marked status attempts next reference error r = r\<lparr>ob_status := status,
     ob_attempts := (case attempts of None \<Rightarrow> ob_attempts r | Some a \<Rightarrow> a),
     ob_next_attempt_at := (case next of None \<Rightarrow> ob_next_attempt_at r | Some n \<Rightarrow> n),
     ob_reference := (if reference \<noteq> [] then reference else ob_reference r),
     ob_error := error\<rparr>"

lemma outbox_mark_eq:
  "outbox_mark ob k st a n ref err = (case outbox_get ob k of None \<Rightarrow> ob
     | Some r \<Rightarrow> AList.update k (marked st a n ref err r) ob)"
  by (auto simp: outbox_mark_def marked_def Let_def split: option.splits)

lemma outbox_get_mark:
  "outbox_get (outbox_mark ob k st a n ref err) j =
     (if j = k then map_option (marked st a n ref err) (outbox_get ob k) else outbox_get ob j)"
  by (auto simp: outbox_mark_eq outbox_get_def map_of_update split: option.splits)

lemma marked_id [simp]: "ob_id (marked st a n ref err r) = ob_id r"
  by (simp add: marked_def)

lemma wf_outbox_mark: "wf_outbox ob \<Longrightarrow> wf_outbox (outbox_mark ob k st a n ref err)"
  by (auto simp: outbox_mark_eq wf_outbox_get intro: wf_outbox_update split: option.splits)

text \<open>The outcome of a receipt for a request at a given attempt.\<close>

definition outcome :: "outbox_receipt \<Rightarrow> int \<Rightarrow> int \<Rightarrow> outbox_status" where
  "outcome receipt attempts max_attempts =
     (if rc_ok receipt then Dispatched
      else if rc_retryable receipt \<and> attempts < max_attempts then Pending else Failed)"

lemma normalize_receipt_id [simp]: "normalize_outbox_receipt rc = Inr rc"
  by (simp add: normalize_outbox_receipt_def)

lemma record_outbox_result_ok:
  assumes "outbox_get (fst st) k = Some r"
  shows "\<exists>evs. record_outbox_result False st k rc mx nx = Inr ((outbox_mark (fst st) k
      (outcome rc (ob_attempts r + 1) mx) (Some (ob_attempts r + 1))
      (if outcome rc (ob_attempts r + 1) mx = Pending then nx else None)
      (if rc_ok rc then rc_reference rc else []) (if rc_ok rc then [] else rc_error rc),
      evs), Some (outcome rc (ob_attempts r + 1) mx))"
  using assms by (simp add: record_outbox_result_def outcome_def Let_def)

section \<open>Laws of the dispatcher\<close>

definition traced :: "edge_env \<Rightarrow> outbox_request \<Rightarrow> outbox_request" where
  "traced env r = (if ob_traceparent r = [] then r\<lparr>ob_traceparent := ev_trace env (ob_id r)\<rparr> else r)"

definition receipt_of :: "edge_env \<Rightarrow> outbox_request \<Rightarrow> outbox_receipt" where
  "receipt_of env r = (case ev_sender env (traced env r) of Inr rc \<Rightarrow> rc
     | Inl text \<Rightarrow> \<lparr>rc_ok = False, rc_reference = [], rc_error = text, rc_retryable = True\<rparr>)"

definition result_of :: "edge_env \<Rightarrow> outbox_request \<Rightarrow> outbox_status" where
  "result_of env r = outcome (receipt_of env r) (ob_attempts r + 1) (ev_max_attempts env)"

text \<open>The abstract effect of dispatching one request.\<close>

definition settled :: "edge_env \<Rightarrow> outbox_request \<Rightarrow> outbox_request" where
  "settled env r = marked (result_of env r) (Some (ob_attempts r + 1))
     (if result_of env r = Pending
      then Some (flt_add (ev_now env) (ev_delay env (ob_attempts r + 1))) else None)
     (if rc_ok (receipt_of env r) then rc_reference (receipt_of env r) else [])
     (if rc_ok (receipt_of env r) then [] else rc_error (receipt_of env r)) (traced env r)"

lemma traced_simps [simp]:
  "ob_id (traced env r) = ob_id r" "ob_attempts (traced env r) = ob_attempts r"
  "ob_status (traced env r) = ob_status r" "ob_expect_ack (traced env r) = ob_expect_ack r"
  "ob_idempotency_key (traced env r) = ob_idempotency_key r"
  "ob_correlation_id (traced env r) = ob_correlation_id r"
  by (simp_all add: traced_def)

lemma settled_simps [simp]:
  "ob_id (settled env r) = ob_id r" "ob_attempts (settled env r) = ob_attempts r + 1"
  "ob_status (settled env r) = result_of env r"
  "ob_idempotency_key (settled env r) = ob_idempotency_key r"
  by (simp_all add: settled_def marked_def)

lemma stage_ack_outbox [simp]: "eg_outbox (stage_outbox_ack env st r s rc) = eg_outbox st"
  by (simp add: stage_outbox_ack_def Let_def)

text \<open>The message an acknowledgement is, and the queue after one dispatch.\<close>

definition ack_message :: "edge_env \<Rightarrow> outbox_request \<Rightarrow> inbox_message" where
  "ack_message env r = \<lparr>ib_content = PStr (ev_summary env (traced env r) (result_of env r)
       (receipt_of env r)), ib_id = ack_id_of (ob_id r), ib_source = ''outbox'',
     ib_type = ''outbox_ack'', ib_run_id = ev_run_id env, ib_created_at = ev_now env,
     ib_correlation_id = (if ob_correlation_id r \<noteq> [] then ob_correlation_id r else ob_id r),
     ib_causation_id = ob_id r, ib_traceparent = ob_traceparent (traced env r),
     ib_tracestate = ob_tracestate (traced env r), ib_metadata = []\<rparr>"

definition queue_after :: "edge_env \<Rightarrow> edge_state \<Rightarrow> outbox_request \<Rightarrow> pyval list" where
  "queue_after env st r = (if ob_expect_ack r \<and> result_of env r \<noteq> Pending \<and> \<not> eg_terminal st \<and>
      ack_id_of (ob_id r) \<notin> set (eg_seen st) \<and> length (eg_queue st) < ev_max_queue env
    then eg_queue st @ [PDict (inbox_to_json (ack_message env r))] else eg_queue st)"

lemma drain_one_lost_before: "ev_lost_before env k \<Longrightarrow> drain_one env st k =
    (st, Inl WriteAuthorityRevoked)"
  by (simp add: drain_one_def)

lemma drain_one_lost_after:
  assumes "\<not> ev_lost_before env k" "outbox_get (eg_outbox st) k = Some r" "ob_id r = k"
    "ev_lost_after env k"
  shows "drain_one env st k = (st\<lparr>eg_outbox := AList.update k (traced env r) (eg_outbox st),
    eg_sent := eg_sent st @ [traced env r]\<rparr>, Inl WriteAuthorityRevoked)"
  using assms by (simp add: drain_one_def send_request_def Let_def traced_def)

lemma drain_one_settles:
  assumes "\<not> ev_lost_before env k" "outbox_get (eg_outbox st) k = Some r" "ob_id r = k"
    "\<not> ev_lost_after env k"
  shows "\<exists>st' res. drain_one env st k = (st', res) \<and>
    (res = Inr () \<or> ev_lost_ack env k \<and> res = Inl WriteAuthorityRevoked) \<and>
    outbox_get (eg_outbox st') = (outbox_get (eg_outbox st))(k \<mapsto> settled env r) \<and>
    (wf_outbox (eg_outbox st) \<longrightarrow> wf_outbox (eg_outbox st')) \<and>
    (if res = Inr () then eg_queue st' = queue_after env st r else eg_queue st' = eg_queue st) \<and>
    eg_terminal st' = eg_terminal st \<and> eg_seen st' = eg_seen st \<and> eg_sent st' = eg_sent st @ [traced env r] \<and>
    eg_commits st' = eg_commits st"
proof -
  let ?r = "traced env r" and ?rc = "receipt_of env r"
  let ?ob = "AList.update k ?r (eg_outbox st)"
  let ?nx = "Some (flt_add (ev_now env) (ev_delay env (ob_attempts r + 1)))"
  let ?ob' = "outbox_mark ?ob k (result_of env r) (Some (ob_attempts r + 1))
      (if result_of env r = Pending then ?nx else None)
      (if rc_ok ?rc then rc_reference ?rc else []) (if rc_ok ?rc then [] else rc_error ?rc)"
  have get: "outbox_get ?ob k = Some ?r" by (simp add: outbox_get_def map_of_update)
  from record_outbox_result_ok [of "(?ob, eg_events st)" k ?r ?rc "ev_max_attempts env" ?nx] get
  obtain evs where rec: "record_outbox_result False (?ob, eg_events st) k ?rc
      (ev_max_attempts env) ?nx = Inr ((?ob', evs), Some (result_of env r))"
    by (auto simp: result_of_def)
  let ?st2 = "st\<lparr>eg_sent := eg_sent st @ [?r], eg_outbox := ?ob', eg_events := evs\<rparr>"
  let ?ack = "result_of env r \<noteq> Pending \<and> ob_expect_ack r"
  let ?st' = "if ?ack \<and> \<not> ev_lost_ack env k
      then stage_outbox_ack env ?st2 ?r (result_of env r) ?rc else ?st2"
  let ?res = "if ?ack \<and> ev_lost_ack env k then Inl WriteAuthorityRevoked else Inr ()"
  have tr: "(if ob_traceparent r = [] then r\<lparr>ob_traceparent := ev_trace env k\<rparr> else r) = ?r"
    using assms(3) by (simp add: traced_def)
  have d: "drain_one env st k = (?st', ?res)"
    using assms(1,2,4) rec
    by (cases "result_of env r") (simp_all add: drain_one_def send_request_def Let_def tr receipt_of_def)
  have wf: "wf_outbox (eg_outbox st) \<longrightarrow> wf_outbox ?ob'"
    using assms(3) by (auto intro!: wf_outbox_mark wf_outbox_update)
  have g: "outbox_get ?ob' = (outbox_get (eg_outbox st))(k \<mapsto> settled env r)"
    by (rule ext) (simp add: outbox_get_mark get settled_def, simp add: outbox_get_def map_of_update)
  have q: "if ?res = Inr () then eg_queue ?st' = queue_after env st r
      else eg_queue ?st' = eg_queue st"
    by (auto simp: queue_after_def stage_outbox_ack_def Let_def ack_message_def)
  have o: "eg_outbox ?st' = ?ob'" by simp
  have t: "eg_terminal ?st' = eg_terminal st" "eg_seen ?st' = eg_seen st" "eg_sent ?st' = eg_sent st @ [?r]"
    "eg_commits ?st' = eg_commits st"
    by (simp_all add: stage_outbox_ack_def Let_def)
  have res: "?res = Inr () \<or> ev_lost_ack env k \<and> ?res = Inl WriteAuthorityRevoked" by simp
  show ?thesis
    by (rule exI [of _ ?st'], rule exI [of _ ?res], unfold o t, intro conjI)
       (rule d, rule res, rule g, rule wf, rule q, (rule refl)+)
qed

text \<open>The effect of a whole pass over some registered requests.\<close>

definition pass_effect :: "edge_env \<Rightarrow> edge_state \<Rightarrow> string list \<Rightarrow> edge_state \<Rightarrow> unit res \<Rightarrow> bool" where
  "pass_effect env st rids st' res \<longleftrightarrow>
     wf_outbox (eg_outbox st') \<and>
     (\<forall>k. k \<notin> set rids \<longrightarrow> outbox_get (eg_outbox st') k = outbox_get (eg_outbox st) k) \<and>
     (\<forall>k \<in> set rids. \<forall>r. outbox_get (eg_outbox st) k = Some r \<longrightarrow>
        outbox_get (eg_outbox st') k \<in> {Some r, Some (traced env r), Some (settled env r)} \<and>
        (res = Inr () \<longrightarrow> outbox_get (eg_outbox st') k = Some (settled env r))) \<and>
     (res = Inr () \<or> res = Inl WriteAuthorityRevoked) \<and>
     ((\<forall>k \<in> set rids. \<not> ev_lost_before env k \<and> \<not> ev_lost_after env k \<and> \<not> ev_lost_ack env k) \<longrightarrow>
        res = Inr ())"

lemma drain_requests_effect:
  assumes "wf_outbox (eg_outbox st)" and "distinct rids"
    and "\<forall>k \<in> set rids. outbox_get (eg_outbox st) k \<noteq> None"
    and "drain_requests env st rids = (st', res)"
  shows "pass_effect env st rids st' res"
  using assms
proof (induction rids arbitrary: st)
  case Nil
  then show ?case by (simp add: pass_effect_def)
next
  case (Cons k rids)
  then obtain r where r: "outbox_get (eg_outbox st) k = Some r" by auto
  have id: "ob_id r = k" using wf_outbox_get [OF Cons.prems(1) r] .
  show ?case
  proof (cases "ev_lost_before env k")
    case True
    with Cons.prems have "st' = st" "res = Inl WriteAuthorityRevoked"
      by (auto simp: drain_one_lost_before)
    with True Cons.prems show ?thesis by (auto simp: pass_effect_def)
  next
    case nb: False
    show ?thesis
    proof (cases "ev_lost_after env k")
      case True
      with Cons.prems have "st' = st\<lparr>eg_outbox := AList.update k (traced env r) (eg_outbox st), eg_sent := eg_sent st @ [traced env r]\<rparr>"
        "res = Inl WriteAuthorityRevoked"
        by (auto simp: drain_one_lost_after [OF nb r id])
      with True r id Cons.prems(1) show ?thesis
        by (auto simp: pass_effect_def outbox_get_def map_of_update intro: wf_outbox_update)
    next
      case na: False
      from drain_one_settles [OF nb r id na] obtain st1 r1 where
        st1: "drain_one env st k = (st1, r1)"
          "r1 = Inr () \<or> ev_lost_ack env k \<and> r1 = Inl WriteAuthorityRevoked"
          "outbox_get (eg_outbox st1) = (outbox_get (eg_outbox st))(k \<mapsto> settled env r)"
          "wf_outbox (eg_outbox st1)"
        using Cons.prems(1) by blast
      have k: "k \<notin> set rids" using Cons.prems(2) by simp
      have same: "outbox_get (eg_outbox st1) j = outbox_get (eg_outbox st) j" if "j \<noteq> k" for j
        using st1(3) that by simp
      show ?thesis
      proof (cases "r1 = Inr ()")
        case False
        with st1 Cons.prems(4) have "st' = st1" "res = Inl WriteAuthorityRevoked" "ev_lost_ack env k"
          by auto
        with st1(3,4) r show ?thesis by (auto simp: pass_effect_def)
      next
        case True
        then have ih: "pass_effect env st1 rids st' res"
          using Cons.prems st1 by (intro Cons.IH) auto
        have now: "outbox_get (eg_outbox st') k = Some (settled env r)"
          using ih k st1(3) by (simp add: pass_effect_def)
        have rest: "outbox_get (eg_outbox st') j = outbox_get (eg_outbox st) j"
          if "j \<notin> set (k # rids)" for j
          using ih that same [of j] by (auto simp: pass_effect_def)
        have "outbox_get (eg_outbox st') j \<in> {Some x, Some (traced env x), Some (settled env x)} \<and>
            (res = Inr () \<longrightarrow> outbox_get (eg_outbox st') j = Some (settled env x))"
          if "j \<in> set (k # rids)" "outbox_get (eg_outbox st) j = Some x" for j x
        proof (cases "j = k")
          case True
          with that(2) r now show ?thesis by simp
        next
          case False
          with that same [of j] have "j \<in> set rids" "outbox_get (eg_outbox st1) j = Some x" by auto
          with ih show ?thesis unfolding pass_effect_def by blast
        qed
        with rest ih show ?thesis by (simp add: pass_effect_def)
      qed
    qed
  qed
qed

text \<open>What a pass sends: an initial part of the requests it visits, each once. All but the last of them are
  settled, and those behind are as before.\<close>

definition sends :: "edge_env \<Rightarrow> edge_state \<Rightarrow> string list \<Rightarrow> edge_state \<Rightarrow> unit res \<Rightarrow> bool" where
  "sends env st rids st' res \<longleftrightarrow> (\<exists>sent rest. rids = sent @ rest \<and>
     eg_sent st' = eg_sent st @ map (\<lambda>k. traced env (the (outbox_get (eg_outbox st) k))) sent \<and>
     (\<forall>k \<in> set rest. outbox_get (eg_outbox st') k = outbox_get (eg_outbox st) k) \<and>
     (\<forall>k \<in> set (butlast sent). outbox_get (eg_outbox st') k = map_option (settled env) (outbox_get (eg_outbox st) k)) \<and>
     (sent \<noteq> [] \<longrightarrow> outbox_get (eg_outbox st') (last sent) \<in>
        {map_option (traced env) (outbox_get (eg_outbox st) (last sent)), map_option (settled env) (outbox_get (eg_outbox st) (last sent))}) \<and>
     (res = Inr () \<longrightarrow> rest = []))"

text \<open>The same over the requests themselves.\<close>

lemma sends_requests:
  assumes "sends env st (map ob_id due) st' res" and "\<And>r. r \<in> set due \<Longrightarrow> outbox_get (eg_outbox st) (ob_id r) = Some r"
  shows "\<exists>sent rest. due = sent @ rest \<and> eg_sent st' = eg_sent st @ map (traced env) sent \<and>
    (\<forall>r \<in> set (butlast sent). outbox_get (eg_outbox st') (ob_id r) = Some (settled env r)) \<and>
    (sent \<noteq> [] \<longrightarrow> outbox_get (eg_outbox st') (ob_id (last sent)) \<in> {Some (traced env (last sent)), Some (settled env (last sent))}) \<and>
    (\<forall>r \<in> set rest. outbox_get (eg_outbox st') (ob_id r) = Some r) \<and> (res = Inr () \<longrightarrow> rest = [])"
proof -
  let ?get = "outbox_get (eg_outbox st)" and ?get' = "outbox_get (eg_outbox st')"
  from assms(1) obtain ids rest where s: "map ob_id due = ids @ rest"
    "eg_sent st' = eg_sent st @ map (\<lambda>k. traced env (the (?get k))) ids" "\<forall>k \<in> set rest. ?get' k = ?get k"
    "\<forall>k \<in> set (butlast ids). ?get' k = map_option (settled env) (?get k)"
    "ids \<noteq> [] \<longrightarrow> ?get' (last ids) \<in> {map_option (traced env) (?get (last ids)), map_option (settled env) (?get (last ids))}"
    "res = Inr () \<longrightarrow> rest = []" unfolding sends_def by blast
  obtain sent tail where due: "due = sent @ tail" and ids: "ids = map ob_id sent" "rest = map ob_id tail"
    using s(1) by (auto simp: map_eq_append_conv)
  have r: "?get (ob_id r) = Some r" if "r \<in> set sent \<or> r \<in> set tail" for r using assms(2) that due by auto
  have "eg_sent st' = eg_sent st @ map (traced env) sent" using s(2) r by (simp add: ids)
  moreover have "\<forall>r \<in> set (butlast sent). ?get' (ob_id r) = Some (settled env r)"
    using s(4) r by (auto simp: ids map_butlast [symmetric] dest: in_set_butlastD)
  moreover have "sent \<noteq> [] \<longrightarrow> ?get' (ob_id (last sent)) \<in> {Some (traced env (last sent)), Some (settled env (last sent))}"
    using s(5) r by (auto simp: ids last_map)
  moreover have "\<forall>r \<in> set tail. ?get' (ob_id r) = Some r" using s(3) r by (auto simp: ids)
  ultimately show ?thesis using due s(6) ids(2) by blast
qed

lemma sends_Cons:
  assumes st1: "outbox_get (eg_outbox st1) = (outbox_get (eg_outbox st))(k \<mapsto> settled env r)" "eg_sent st1 = eg_sent st @ [traced env r]"
    and r: "outbox_get (eg_outbox st) k = Some r" and k: "k \<notin> set rids"
    and eff: "pass_effect env st1 rids st' res" and ih: "sends env st1 rids st' res"
  shows "sends env st (k # rids) st' res"
proof -
  from ih obtain sent rest where s: "rids = sent @ rest"
    "eg_sent st' = eg_sent st1 @ map (\<lambda>k. traced env (the (outbox_get (eg_outbox st1) k))) sent"
    "\<forall>j \<in> set rest. outbox_get (eg_outbox st') j = outbox_get (eg_outbox st1) j"
    "\<forall>j \<in> set (butlast sent). outbox_get (eg_outbox st') j = map_option (settled env) (outbox_get (eg_outbox st1) j)"
    "sent \<noteq> [] \<longrightarrow> outbox_get (eg_outbox st') (last sent) \<in>
       {map_option (traced env) (outbox_get (eg_outbox st1) (last sent)), map_option (settled env) (outbox_get (eg_outbox st1) (last sent))}"
    "res = Inr () \<longrightarrow> rest = []" unfolding sends_def by blast
  have same: "outbox_get (eg_outbox st1) j = outbox_get (eg_outbox st) j" if "j \<in> set rids" for j
    using st1(1) that k by auto
  have now: "outbox_get (eg_outbox st') k = Some (settled env r)" using eff k st1(1) by (simp add: pass_effect_def)
  show ?thesis unfolding sends_def
  proof (intro exI conjI)
    show "k # rids = (k # sent) @ rest" by (simp add: s(1))
    show "eg_sent st' = eg_sent st @ map (\<lambda>k. traced env (the (outbox_get (eg_outbox st) k))) (k # sent)"
      using s(1,2) st1(2) r same by simp
    show "\<forall>j \<in> set rest. outbox_get (eg_outbox st') j = outbox_get (eg_outbox st) j" using s(1,3) same by simp
    show "\<forall>j \<in> set (butlast (k # sent)). outbox_get (eg_outbox st') j = map_option (settled env) (outbox_get (eg_outbox st) j)"
      using s(1,4) same now r by (auto dest: in_set_butlastD)
    show "k # sent \<noteq> [] \<longrightarrow> outbox_get (eg_outbox st') (last (k # sent)) \<in>
       {map_option (traced env) (outbox_get (eg_outbox st) (last (k # sent))), map_option (settled env) (outbox_get (eg_outbox st) (last (k # sent)))}"
      using s(1,5) same now r by (cases "sent = []") auto
    show "res = Inr () \<longrightarrow> rest = []" by (rule s(6))
  qed
qed

lemma drain_requests_sends:
  assumes "wf_outbox (eg_outbox st)" and "distinct rids" and "\<forall>k \<in> set rids. outbox_get (eg_outbox st) k \<noteq> None"
    and "drain_requests env st rids = (st', res)"
  shows "sends env st rids st' res \<and> eg_commits st' = eg_commits st"
  using assms
proof (induction rids arbitrary: st)
  case Nil
  then show ?case by (simp add: sends_def)
next
  case (Cons k rids)
  then obtain r where r: "outbox_get (eg_outbox st) k = Some r" by auto
  have id: "ob_id r = k" using wf_outbox_get [OF Cons.prems(1) r] .
  have k: "k \<notin> set rids" using Cons.prems(2) by simp
  consider (before) "ev_lost_before env k" | (after) "\<not> ev_lost_before env k" "ev_lost_after env k"
    | (settles) "\<not> ev_lost_before env k" "\<not> ev_lost_after env k" by blast
  then show ?case
  proof cases
    case before
    with Cons.prems(4) have "st' = st" "res = Inl WriteAuthorityRevoked" by (auto simp: drain_one_lost_before)
    then show ?thesis unfolding sends_def by (intro conjI exI [of _ "[]"] exI [of _ "k # rids"]) simp_all
  next
    case after
    with Cons.prems(4) have "st' = st\<lparr>eg_outbox := AList.update k (traced env r) (eg_outbox st), eg_sent := eg_sent st @ [traced env r]\<rparr>"
      "res = Inl WriteAuthorityRevoked" by (auto simp: drain_one_lost_after [OF after(1) r id])
    with r k show ?thesis unfolding sends_def
      by (intro conjI exI [of _ "[k]"] exI [of _ rids]) (auto simp: outbox_get_def map_of_update)
  next
    case settles
    from drain_one_settles [OF settles(1) r id settles(2)] obtain st1 r1 where
      st1: "drain_one env st k = (st1, r1)" "r1 = Inr () \<or> ev_lost_ack env k \<and> r1 = Inl WriteAuthorityRevoked"
        "outbox_get (eg_outbox st1) = (outbox_get (eg_outbox st))(k \<mapsto> settled env r)" "wf_outbox (eg_outbox st1)"
        "eg_sent st1 = eg_sent st @ [traced env r]" "eg_commits st1 = eg_commits st"
      using Cons.prems(1) by blast
    show ?thesis
    proof (cases "r1 = Inr ()")
      case False
      with st1 Cons.prems(4) have "st' = st1" "res = Inl WriteAuthorityRevoked" by auto
      with st1 r k show ?thesis unfolding sends_def
        by (intro conjI exI [of _ "[k]"] exI [of _ rids]) auto
    next
      case True
      have d: "drain_requests env st1 rids = (st', res)" using Cons.prems(4) st1(1) True by simp
      have pre: "distinct rids" "\<forall>j \<in> set rids. outbox_get (eg_outbox st1) j \<noteq> None" using Cons.prems(2,3) st1(3) by auto
      from sends_Cons [OF st1(3,5) r k drain_requests_effect [OF st1(4) pre d]] Cons.IH [OF st1(4) pre d] st1(6)
      show ?thesis by simp
    qed
  qed
qed

lemma drain_requests_queue:
  assumes "wf_outbox (eg_outbox st)" and "distinct rids"
    and "\<forall>k \<in> set rids. outbox_get (eg_outbox st) k \<noteq> None"
    and "drain_requests env st rids = (st', res)"
  shows "\<exists>rs. eg_queue st' = eg_queue st @ map (\<lambda>r. PDict (inbox_to_json (ack_message env r))) rs \<and>
    distinct (map ob_id rs) \<and>
    (\<forall>r \<in> set rs. ob_id r \<in> set rids \<and> outbox_get (eg_outbox st) (ob_id r) = Some r \<and>
       ob_expect_ack r \<and> result_of env r \<noteq> Pending \<and> ack_id_of (ob_id r) \<notin> set (eg_seen st) \<and>
       \<not> eg_terminal st) \<and>
    length (eg_queue st') \<le> max (length (eg_queue st)) (ev_max_queue env)"
  using assms
proof (induction rids arbitrary: st)
  case Nil
  then show ?case by (intro exI [of _ "[]"]) simp
next
  case (Cons k rids)
  then obtain r where r: "outbox_get (eg_outbox st) k = Some r" by auto
  have id: "ob_id r = k" using wf_outbox_get [OF Cons.prems(1) r] .
  show ?case
  proof (cases "ev_lost_before env k \<or> ev_lost_after env k")
    case True
    with Cons.prems have "eg_queue st' = eg_queue st"
      using drain_one_lost_after [OF _ r id] by (cases "ev_lost_before env k")
        (auto simp: drain_one_lost_before)
    then show ?thesis by (intro exI [of _ "[]"]) simp
  next
    case False
    then obtain st1 r1 where
      st1: "drain_one env st k = (st1, r1)"
        "outbox_get (eg_outbox st1) = (outbox_get (eg_outbox st))(k \<mapsto> settled env r)"
        "wf_outbox (eg_outbox st1)"
        "if r1 = Inr () then eg_queue st1 = queue_after env st r else eg_queue st1 = eg_queue st"
        "eg_terminal st1 = eg_terminal st" "eg_seen st1 = eg_seen st"
        "r1 = Inr () \<or> r1 = Inl WriteAuthorityRevoked"
      using drain_one_settles [OF _ r id] Cons.prems(1) by metis
    show ?thesis
    proof (cases "r1 = Inr ()")
    case False
    with st1 Cons.prems(4) have "eg_queue st' = eg_queue st" by auto
    then show ?thesis by (intro exI [of _ "[]"]) simp
    next
    case ok: True
    have d: "drain_requests env st1 rids = (st', res)" using Cons.prems(4) st1(1) ok by simp
    have pre: "distinct rids" "\<forall>k \<in> set rids. outbox_get (eg_outbox st1) k \<noteq> None"
      using Cons.prems(2,3) st1(2) by auto
    obtain rs where rs: "eg_queue st' = eg_queue st1 @
          map (\<lambda>r. PDict (inbox_to_json (ack_message env r))) rs" "distinct (map ob_id rs)"
        "\<forall>r \<in> set rs. ob_id r \<in> set rids \<and> outbox_get (eg_outbox st1) (ob_id r) = Some r \<and>
           ob_expect_ack r \<and> result_of env r \<noteq> Pending \<and>
           ack_id_of (ob_id r) \<notin> set (eg_seen st1) \<and> \<not> eg_terminal st1"
        "length (eg_queue st') \<le> max (length (eg_queue st1)) (ev_max_queue env)"
      using Cons.IH [OF st1(3) pre d] by blast
    have k: "k \<notin> set rids" using Cons.prems(2) by simp
    have old: "\<forall>r \<in> set rs. ob_id r \<in> set rids \<and> outbox_get (eg_outbox st) (ob_id r) = Some r \<and>
       ob_expect_ack r \<and> result_of env r \<noteq> Pending \<and> ack_id_of (ob_id r) \<notin> set (eg_seen st) \<and>
       \<not> eg_terminal st"
      using rs(3) st1(2,5,6) k by (auto split: if_splits)
    show ?thesis
    proof (cases "eg_queue st1 = eg_queue st")
      case True
      with rs(1,2,4) old show ?thesis by (intro exI [of _ rs]) auto
    next
      case False
      then have q: "eg_queue st1 = eg_queue st @ [PDict (inbox_to_json (ack_message env r))]"
        and cond: "ob_expect_ack r" "result_of env r \<noteq> Pending" "\<not> eg_terminal st"
          "ack_id_of (ob_id r) \<notin> set (eg_seen st)" "length (eg_queue st) < ev_max_queue env"
        using st1(4) ok by (auto simp: queue_after_def split: if_splits)
      have "distinct (map ob_id (r # rs))" using rs(2,3) id k by auto
      then show ?thesis using rs(1,4) old q cond r id by (intro exI [of _ "r # rs"]) auto
    qed
    qed
  qed
qed

lemma due_registered:
  "wf_outbox ob \<Longrightarrow> k \<in> set (map ob_id (outbox_due ob now)) \<longleftrightarrow>
     (\<exists>r. outbox_get ob k = Some r \<and> ob_status r = Pending \<and> flt_le (ob_next_attempt_at r) now)"
proof -
  assume wf: "wf_outbox ob"
  have "k \<in> set (map ob_id (outbox_due ob now)) \<longleftrightarrow> (\<exists>r \<in> set (outbox_due ob now). ob_id r = k)"
    by auto
  also have "\<dots> \<longleftrightarrow> (\<exists>r. outbox_get ob k = Some r \<and> ob_status r = Pending \<and>
      flt_le (ob_next_attempt_at r) now)"
    unfolding Bex_def outbox_due_iff [OF wf] using wf_outbox_get [OF wf] by blast
  finally show ?thesis .
qed

text \<open>The requests a pass will visit.\<close>

definition drain_set :: "edge_env \<Rightarrow> edge_state \<Rightarrow> string list" where
  "drain_set env st = (if ev_lost_start env \<or> \<not> ev_has_sender env then []
     else map ob_id (outbox_due (eg_outbox st) (ev_now env)))"

definition never_lost :: "edge_env \<Rightarrow> bool" where
  "never_lost env \<longleftrightarrow> \<not> ev_lost_start env \<and> \<not> ev_lost_commit env \<and>
     (\<forall>k. \<not> ev_lost_before env k \<and> \<not> ev_lost_after env k \<and> \<not> ev_lost_ack env k)"

lemma drain_set_registered:
  "wf_outbox (eg_outbox st) \<Longrightarrow> \<forall>k \<in> set (drain_set env st). outbox_get (eg_outbox st) k \<noteq> None"
  using due_registered [of "eg_outbox st"] by (auto simp: drain_set_def)

lemma drain_set_iff:
  "wf_outbox (eg_outbox st) \<Longrightarrow> k \<in> set (drain_set env st) \<longleftrightarrow>
     \<not> ev_lost_start env \<and> ev_has_sender env \<and>
     (\<exists>r. outbox_get (eg_outbox st) k = Some r \<and> ob_status r = Pending \<and>
        flt_le (ob_next_attempt_at r) (ev_now env))"
  using due_registered [of "eg_outbox st" k "ev_now env"] by (simp add: drain_set_def)

lemma drain_outbox_run:
  assumes "drain_outbox env st = (st', res)"
  shows "\<exists>st0 res0. drain_requests env st (drain_set env st) = (st0, res0) \<and>
    eg_outbox st' = eg_outbox st0 \<and> eg_queue st' = eg_queue st0 \<and> eg_sent st' = eg_sent st0 \<and>
    (eg_commits st' = eg_commits st0 \<or> (\<exists>q seen. eg_commits st' = eg_commits st0 @ [(eg_outbox st0, q, seen)])) \<and>
    (res = Inr () \<longrightarrow> res0 = Inr ()) \<and> (res0 = Inr () \<longrightarrow> res = Inr () \<or> res = Inl WriteAuthorityRevoked) \<and>
    (\<forall>e. res0 = Inl e \<longrightarrow> res = Inl e) \<and> (never_lost env \<longrightarrow> res = res0)"
proof (cases "ev_lost_start env \<or> \<not> ev_has_sender env \<or> outbox_due (eg_outbox st) (ev_now env) = []")
  case True
  then have ds: "drain_set env st = []" by (auto simp: drain_set_def)
  have "st' = st" "res = (if ev_lost_start env then Inl WriteAuthorityRevoked else Inr ())"
    using assms True by (auto simp: drain_outbox_def Let_def split: if_splits)
  then show ?thesis by (simp add: ds never_lost_def)
next
  case False
  obtain st0 res0 where r: "drain_requests env st (drain_set env st) = (st0, res0)"
    by (cases "drain_requests env st (drain_set env st)")
  from False have ds: "drain_set env st = map ob_id (outbox_due (eg_outbox st) (ev_now env))"
    by (simp add: drain_set_def)
  have "(st', res) = (case (st0, res0) of (st', Inl e) \<Rightarrow> (st', Inl e)
      | (st', Inr _) \<Rightarrow> commit_drain env st')"
    using assms False r ds by (simp add: drain_outbox_def Let_def)
  then show ?thesis
    using r by (cases res0) (auto simp: commit_drain_def never_lost_def split: if_splits)
qed

lemma drain_outbox_effect:
  assumes "wf_outbox (eg_outbox st)" and "drain_outbox env st = (st', res)"
  shows "\<exists>st0 res0. pass_effect env st (drain_set env st) st0 res0 \<and>
    eg_outbox st' = eg_outbox st0 \<and> (res = Inr () \<longrightarrow> res0 = Inr ()) \<and>
    (res = Inr () \<or> res = Inl WriteAuthorityRevoked) \<and> (never_lost env \<longrightarrow> res = Inr ())"
proof -
  from drain_outbox_run [OF assms(2)] obtain st0 res0
    where r: "drain_requests env st (drain_set env st) = (st0, res0)"
      "eg_outbox st' = eg_outbox st0" "res = Inr () \<longrightarrow> res0 = Inr ()"
      "res0 = Inr () \<longrightarrow> res = Inr () \<or> res = Inl WriteAuthorityRevoked"
      "\<forall>e. res0 = Inl e \<longrightarrow> res = Inl e" "never_lost env \<longrightarrow> res = res0" by blast
  have "distinct (drain_set env st)"
    using outbox_due_ids_distinct [OF assms(1)] by (simp add: drain_set_def)
  then have eff: "pass_effect env st (drain_set env st) st0 res0"
    using drain_requests_effect [OF assms(1) _ drain_set_registered [OF assms(1)] r(1)] by blast
  then have "res = Inr () \<or> res = Inl WriteAuthorityRevoked"
    using r(4,5) by (auto simp: pass_effect_def)
  moreover have "res = Inr ()" if "never_lost env"
    using eff r(6) that by (simp add: pass_effect_def never_lost_def)
  ultimately show ?thesis using eff r(2,3) by blast
qed

section \<open>The life of a request\<close>

lemma outbox_import_export:
  assumes strict: "pydantic_strict va"
    and "\<forall>(k, r) \<in> set xs. k = ob_id r \<and> wf_request r" and "distinct (map fst (ob @ xs))"
    and "res_map outbox_request_to_json (map snd xs) = Inr ps"
  shows "outbox_import va fresh_id ob ps = Inr (ob @ map (\<lambda>(k, r). (k, canonical r)) xs)"
  using assms(2-)
proof (induction xs arbitrary: ob ps)
  case Nil
  then show ?case by simp
next
  case (Cons kr xs)
  obtain k r where kr: "kr = (k, r)" by (cases kr)
  from Cons.prems kr obtain p ps' where p: "outbox_request_to_json r = Inr p"
    and ps': "res_map outbox_request_to_json (map snd xs) = Inr ps'" and ps: "ps = p # ps'"
    by (auto simp: res_bind_eq_Inr)
  from Cons.prems(1) kr have k: "k = ob_id r" and wf: "wf_request r" by auto
  have "k \<notin> fst ` set ob" using Cons.prems(2) kr by auto
  then have a: "outbox_append (canonical r) ob = ob @ [(k, canonical r)]"
    using k by (simp add: outbox_append_def update_fresh canonical_def)
  show ?case
    using outbox_json_roundtrip [OF strict wf p, of fresh_id]
      Cons.IH [of "ob @ [(k, canonical r)]" ps'] Cons.prems ps' kr
    by (simp add: ps a)
qed

text \<open>What the external target dedupes on.\<close>

definition dedup_key :: "outbox_request \<Rightarrow> string" where
  "dedup_key r = (if ob_idempotency_key r \<noteq> [] then ob_idempotency_key r else ob_id r)"

text \<open>How a registered request may evolve: identity and deduplication key stay, attempts grow,
  and a terminal status is final.\<close>

definition evolves :: "outbox_request \<Rightarrow> outbox_request \<Rightarrow> bool" where
  "evolves r r' \<longleftrightarrow> ob_id r' = ob_id r \<and> dedup_key r' = dedup_key r \<and>
     ob_attempts r \<le> ob_attempts r' \<and>
     (ob_status r \<noteq> Pending \<longrightarrow> ob_status r' = ob_status r \<and> ob_attempts r' = ob_attempts r)"

lemma evolves_refl: "evolves r r"
  by (simp add: evolves_def)

lemma evolves_trans: "evolves a b \<Longrightarrow> evolves b c \<Longrightarrow> evolves a c"
  by (auto simp: evolves_def)

lemma evolves_canonical: "evolves r (canonical r)"
  by (simp add: evolves_def canonical_def dedup_key_def)

lemma evolves_traced: "evolves r (traced env r)"
  by (simp add: evolves_def dedup_key_def)

lemma evolves_settled: "ob_status r = Pending \<Longrightarrow> evolves r (settled env r)"
  by (simp add: evolves_def dedup_key_def)

text \<open>The register of the last committed checkpoint: what a restart finds.\<close>

definition durable_outbox :: "edge_state \<Rightarrow> outbox" where
  "durable_outbox st = (case eg_commits st of [] \<Rightarrow> [] | x # xs \<Rightarrow> fst (last (x # xs)))"

text \<open>The operations on the register: staging under a fresh identifier, a dispatcher pass under
  a policy of \<open>mx\<close> attempts, the backend consuming its queue, the loop committing a checkpoint of its own, and a restart,
  which forgets the memory and imports the register of the last committed checkpoint; what was sent stays sent.\<close>

inductive edge_step :: "int \<Rightarrow> edge_state \<Rightarrow> edge_state \<Rightarrow> bool" for mx where
  EStage: "\<lbrakk>emit_outbox False token run fid now tp dest payload cap ik ack rt
       (eg_outbox st, eg_events st) = Inr (ob, evs);
      fid \<noteq> []; wf_val (PDict payload); outbox_get (eg_outbox st) fid = None\<rbrakk> \<Longrightarrow>
     edge_step mx st (st\<lparr>eg_outbox := ob, eg_events := evs\<rparr>)"
| EDrain: "\<lbrakk>ev_max_attempts env = mx; drain_outbox env st = (st', res)\<rbrakk> \<Longrightarrow> edge_step mx st st'"
| EQueue: "edge_step mx st (st\<lparr>eg_queue := q, eg_seen := seen, eg_terminal := t\<rparr>)"
| ECommit: "edge_step mx st (st\<lparr>eg_commits := eg_commits st @ [(eg_outbox st, eg_queue st, seen)]\<rparr>)"
| ERestart: "\<lbrakk>pydantic_strict va; outbox_export (durable_outbox st) = Inr ps;
      outbox_import va fid [] ps = Inr ob\<rbrakk> \<Longrightarrow>
     edge_step mx st (st\<lparr>eg_outbox := ob, eg_events := evs, eg_queue := q, eg_seen := seen\<rparr>)"

definition request_ok :: "int \<Rightarrow> outbox_request \<Rightarrow> bool" where
  "request_ok mx r \<longleftrightarrow> wf_request r \<and> 0 \<le> ob_attempts r \<and> ob_attempts r \<le> max 1 mx \<and>
     (ob_status r = Pending \<longrightarrow> ob_attempts r = 0 \<or> ob_attempts r < mx)"

definition register_ok :: "int \<Rightarrow> outbox \<Rightarrow> bool" where
  "register_ok mx ob \<longleftrightarrow> wf_outbox ob \<and> (\<forall>k r. outbox_get ob k = Some r \<longrightarrow> request_ok mx r)"

definition register_evolves :: "outbox \<Rightarrow> outbox \<Rightarrow> bool" where
  "register_evolves ob ob' \<longleftrightarrow> (\<forall>k r. outbox_get ob k = Some r \<longrightarrow> (\<exists>r'. outbox_get ob' k = Some r' \<and> evolves r r'))"

lemma register_evolves_refl: "register_evolves ob ob"
  unfolding register_evolves_def using evolves_refl by blast

lemma register_evolves_trans: "register_evolves a b \<Longrightarrow> register_evolves b c \<Longrightarrow> register_evolves a c"
  unfolding register_evolves_def using evolves_trans by meson

text \<open>The memory has evolved from the last committed checkpoint, and both registers are in order.\<close>

definition edge_inv :: "int \<Rightarrow> edge_state \<Rightarrow> bool" where
  "edge_inv mx st \<longleftrightarrow> register_ok mx (eg_outbox st) \<and> register_ok mx (durable_outbox st) \<and>
     register_evolves (durable_outbox st) (eg_outbox st)"

lemma request_ok_traced: "request_ok mx r \<Longrightarrow> request_ok mx (traced env r)"
  by (auto simp: request_ok_def wf_request_def traced_def)

lemma request_ok_settled:
  "request_ok mx r \<Longrightarrow> ob_status r = Pending \<Longrightarrow> ev_max_attempts env = mx \<Longrightarrow>
     request_ok mx (settled env r)"
  by (auto simp: request_ok_def wf_request_def result_of_def outcome_def)
     (auto simp: settled_def marked_def traced_def)

lemma request_ok_canonical: "request_ok mx r \<Longrightarrow> request_ok mx (canonical r)"
  using wf_norm_val [of "PDict (ob_payload r)"]
  by (auto simp: request_ok_def wf_request_def canonical_def)

lemma emit_outbox_ok:
  assumes "emit_outbox False token run fid now tp dest payload cap ik ack rt (ob, evs) =
      Inr (ob', evs')" and "fid \<noteq> []" and "wf_val (PDict payload)"
  shows "\<exists>r. ob' = outbox_append r ob \<and> ob_id r = fid \<and> ob_status r = Pending \<and>
    ob_attempts r = 0 \<and> ob_next_attempt_at r = Fin 0 \<and> wf_request r \<and>
    ob_token_ref r = (if cap \<noteq> [] then (case token cap of Some t \<Rightarrow> t | None \<Rightarrow> []) else []) \<and>
    dedup_key r = (if ik \<noteq> [] then ik else fid)"
proof -
  have wfn: "wf_val (PDict (norm_payload payload))"
    using wf_norm_val [OF assms(3)] by simp
  have idem: "norm_payload (norm_payload payload) = norm_payload payload"
    using norm_val_idem [of True "PDict payload"] by simp
  define r where "r = \<lparr>ob_destination = dest, ob_payload = norm_payload payload,
    ob_capability = cap,
    ob_token_ref = (if cap \<noteq> [] then (case token cap of Some t \<Rightarrow> t | None \<Rightarrow> []) else []),
    ob_run_id = run, ob_id = fid, ob_idempotency_key = ik, ob_correlation_id = [],
    ob_causation_id = [], ob_expect_ack = ack, ob_reply_to = rt, ob_traceparent = tp,
    ob_tracestate = [], ob_created_at = now, ob_status = Pending, ob_attempts = 0,
    ob_next_attempt_at = Fin 0, ob_reference = [], ob_error = []\<rparr>"
  have wfr: "wf_val (PDict (ob_payload r))" using wfn by (simp add: r_def)
  have "r\<lparr>ob_payload := norm_payload (ob_payload r)\<rparr> = r" using idem by (simp add: r_def)
  then have n: "normalize_outbox_request r = Inr x \<longleftrightarrow> schedulable r \<and> x = r" for x
    using normalize_request_wf [OF wfr] by simp
  have "ob' = outbox_append r ob"
    using assms(1) n
    unfolding emit_outbox_def payload_ingress_wf [OF assms(3)] normalize_text_id
      r_def [symmetric] res_bind_Inr
    by (auto simp: res_bind_eq_Inr)
  moreover have "wf_request r" using assms(2) wfr by (simp add: wf_request_def r_def)
  ultimately show ?thesis
    by (intro exI [of _ r]) (simp add: r_def dedup_key_def)
qed

lemma durable_append: "eg_commits st' = cs @ [(ob, q, seen)] \<Longrightarrow> durable_outbox st' = ob"
  by (cases cs) (simp_all add: durable_outbox_def)

lemma durable_same: "eg_commits st' = eg_commits st \<Longrightarrow> durable_outbox st' = durable_outbox st"
  by (simp add: durable_outbox_def)

lemma stage_evolves:
  assumes "emit_outbox False token run fid now tp dest payload cap ik ack rt (ob0, evs0) = Inr (ob, evs)"
    and "fid \<noteq> []" and "wf_val (PDict payload)" and "outbox_get ob0 fid = None" and "register_ok mx ob0"
  shows "register_ok mx ob \<and> register_evolves ob0 ob"
proof -
  from emit_outbox_ok [OF assms(1-3)] obtain r where r: "ob = outbox_append r ob0"
    "ob_id r = fid" "ob_status r = Pending" "ob_attempts r = 0" "wf_request r" by blast
  have get: "outbox_get ob k = (if k = fid then Some r else outbox_get ob0 k)" for k
    by (simp add: r ob.lookup_store)
  have "request_ok mx r" using r by (auto simp: request_ok_def)
  then show ?thesis using assms(4,5) get
    by (auto simp: register_ok_def register_evolves_def r wf_outbox_append evolves_refl split: if_splits)
qed

lemma drain_evolves:
  assumes "drain_outbox env st = (st', res)" and "ev_max_attempts env = mx" and "register_ok mx (eg_outbox st)"
  shows "register_ok mx (eg_outbox st') \<and> register_evolves (eg_outbox st) (eg_outbox st')"
proof -
  have wf: "wf_outbox (eg_outbox st)" using assms(3) by (simp add: register_ok_def)
  let ?due = "drain_set env st"
  obtain st0 res0 where eff: "pass_effect env st ?due st0 res0" and same: "eg_outbox st' = eg_outbox st0"
    using drain_outbox_effect [OF wf assms(1)] by blast
  have step: "\<exists>r'. outbox_get (eg_outbox st') k = Some r' \<and> evolves r r' \<and> request_ok mx r'"
    if r: "outbox_get (eg_outbox st) k = Some r" for k r
  proof (cases "k \<in> set ?due")
    case True
    then have p: "ob_status r = Pending" using drain_set_iff [OF wf] r by auto
    have "outbox_get (eg_outbox st') k \<in> {Some r, Some (traced env r), Some (settled env r)}"
      using eff True r unfolding same pass_effect_def by blast
    then show ?thesis
      using p r assms(2,3) evolves_refl evolves_traced [of r env] evolves_settled [OF p]
        request_ok_traced request_ok_settled [OF _ p]
      by (auto simp: register_ok_def)
  next
    case False
    then show ?thesis
      using eff r assms(3) evolves_refl by (auto simp: pass_effect_def register_ok_def same)
  qed
  have "request_ok mx r'" if r': "outbox_get (eg_outbox st') k = Some r'" for k r'
  proof (cases "outbox_get (eg_outbox st) k")
    case None
    then have "k \<notin> set ?due" using drain_set_iff [OF wf] by auto
    then show ?thesis using eff None r' by (simp add: pass_effect_def same)
  next
    case (Some r)
    with step [OF Some] r' show ?thesis by auto
  qed
  moreover have "wf_outbox (eg_outbox st')" using eff by (simp add: pass_effect_def same)
  ultimately show ?thesis using step unfolding register_ok_def register_evolves_def by blast
qed

lemma restart_evolves:
  assumes "pydantic_strict va" and "outbox_export ob0 = Inr ps" and "outbox_import va fid [] ps = Inr ob" and "register_ok mx ob0"
  shows "register_ok mx ob \<and> register_evolves ob0 ob"
proof -
  have wf: "wf_outbox ob0" using assms(4) by (simp add: register_ok_def)
  have all: "\<forall>(k, r) \<in> set ob0. k = ob_id r \<and> wf_request r"
    using assms(4) by (auto simp: register_ok_def wf_outbox_def outbox_get_def request_ok_def)
  have ob: "ob = map (\<lambda>(k, r). (k, canonical r)) ob0"
    using outbox_import_export [OF assms(1) all, of "[]" ps fid] assms(2,3) wf
    by (simp add: outbox_export_def wf_outbox_def)
  then have get: "outbox_get ob k = map_option canonical (outbox_get ob0 k)" for k
    by (simp add: outbox_get_def map_of_map)
  have "map fst ob = map fst ob0" using ob by auto
  moreover have "\<forall>(k, r) \<in> set ob. k = ob_id r" using ob all by (auto simp: canonical_def)
  ultimately have "wf_outbox ob" using wf by (simp add: wf_outbox_def)
  then show ?thesis using get assms(4) evolves_canonical request_ok_canonical
    by (auto simp: register_ok_def register_evolves_def)
qed

text \<open>What one step does to the committed register and to what was sent: the committed register only evolves, and only
  requests that are pending in memory are sent.\<close>

lemma drain_sends:
  assumes "drain_outbox env st = (st', res)" and "wf_outbox (eg_outbox st)"
  shows "sends env st (drain_set env st) st' (if res = Inr () then Inr () else Inl WriteAuthorityRevoked) \<and>
    (eg_commits st' = eg_commits st \<or> (\<exists>q seen. eg_commits st' = eg_commits st @ [(eg_outbox st', q, seen)]))"
proof -
  from drain_outbox_run [OF assms(1)] obtain st0 res0 where r: "drain_requests env st (drain_set env st) = (st0, res0)"
    "eg_outbox st' = eg_outbox st0" "eg_sent st' = eg_sent st0" "res = Inr () \<longrightarrow> res0 = Inr ()"
    "eg_commits st' = eg_commits st0 \<or> (\<exists>q seen. eg_commits st' = eg_commits st0 @ [(eg_outbox st0, q, seen)])" by blast
  have "distinct (drain_set env st)" using outbox_due_ids_distinct [OF assms(2)] by (simp add: drain_set_def)
  from drain_requests_sends [OF assms(2) this drain_set_registered [OF assms(2)] r(1)]
  have s: "sends env st (drain_set env st) st0 res0" "eg_commits st0 = eg_commits st" by simp_all
  have "sends env st (drain_set env st) st' (if res = Inr () then Inr () else Inl WriteAuthorityRevoked)"
    using s(1) r(4) unfolding sends_def r(2,3) by (cases "res = Inr ()") auto
  with s(2) r show ?thesis by simp
qed

lemma edge_step_evolves:
  assumes "edge_step mx st st'" and "edge_inv mx st"
  shows "edge_inv mx st' \<and> register_evolves (durable_outbox st) (durable_outbox st') \<and>
    (\<exists>xs. eg_sent st' = eg_sent st @ xs \<and>
       (\<forall>x \<in> set xs. \<exists>r. outbox_get (eg_outbox st) (ob_id x) = Some r \<and> ob_status r = Pending))"
proof -
  have I: "register_ok mx (eg_outbox st)" "register_ok mx (durable_outbox st)" "register_evolves (durable_outbox st) (eg_outbox st)"
    using assms(2) by (simp_all add: edge_inv_def)
  have wf: "wf_outbox (eg_outbox st)" using I(1) by (simp add: register_ok_def)
  show ?thesis using assms(1)
  proof cases
    case (EStage token run fid now tp dest payload cap ik ack rt ob evs)
    have "durable_outbox st' = durable_outbox st" by (rule durable_same) (simp add: EStage)
    moreover have "eg_sent st' = eg_sent st" "eg_outbox st' = ob" by (simp_all add: EStage)
    moreover note stage_evolves [OF EStage(2-5) I(1)]
    ultimately show ?thesis using I register_evolves_trans register_evolves_refl unfolding edge_inv_def by auto
  next
    case (EDrain env res)
    note D = drain_sends [OF EDrain(2) wf] and E = drain_evolves [OF EDrain(2,1) I(1)]
    have m: "register_evolves (durable_outbox st) (eg_outbox st')" using I(3) E register_evolves_trans by blast
    from D consider "durable_outbox st' = durable_outbox st" | "durable_outbox st' = eg_outbox st'"
      using durable_same durable_append by metis
    then have "edge_inv mx st'" "register_evolves (durable_outbox st) (durable_outbox st')"
      using I E m register_evolves_refl by (cases; auto simp: edge_inv_def)+
    moreover from D obtain sent rest where s: "drain_set env st = sent @ rest"
      "eg_sent st' = eg_sent st @ map (\<lambda>k. traced env (the (outbox_get (eg_outbox st) k))) sent" unfolding sends_def by blast
    have "\<exists>r. outbox_get (eg_outbox st) (ob_id (traced env (the (outbox_get (eg_outbox st) k)))) = Some r \<and> ob_status r = Pending"
      if "k \<in> set sent" for k
      using drain_set_iff [OF wf, of k env] wf_outbox_get [OF wf] that s(1) by fastforce
    ultimately show ?thesis using s(2) by auto
  next
    case (EQueue q seen t)
    then show ?thesis using assms(2) register_evolves_refl by (auto simp: edge_inv_def durable_outbox_def)
  next
    case (ECommit seen)
    have "durable_outbox st' = eg_outbox st" by (rule durable_append) (simp add: ECommit)
    then show ?thesis using I ECommit register_evolves_refl by (auto simp: edge_inv_def)
  next
    case (ERestart va ps fid ob evs q seen)
    have "durable_outbox st' = durable_outbox st" by (rule durable_same) (simp add: ERestart)
    moreover have "eg_sent st' = eg_sent st" "eg_outbox st' = ob" by (simp_all add: ERestart)
    moreover note restart_evolves [OF ERestart(2-4) I(2)]
    ultimately show ?thesis using I register_evolves_refl unfolding edge_inv_def by auto
  qed
qed

lemma edge_steps_evolve:
  assumes "(edge_step mx)\<^sup>*\<^sup>* st st'" and "edge_inv mx st"
  shows "edge_inv mx st' \<and> register_evolves (durable_outbox st) (durable_outbox st')"
  using assms
proof (induction rule: rtranclp_induct)
  case base
  then show ?case using register_evolves_refl by auto
next
  case (step y z)
  then show ?case using edge_step_evolves [OF step(2)] register_evolves_trans by meson
qed

text \<open>A request committed as settled is never sent again.\<close>

lemma settled_not_sent:
  assumes "(edge_step mx)\<^sup>*\<^sup>* st st'" and "edge_inv mx st" and "outbox_get (durable_outbox st) k = Some r" and "ob_status r \<noteq> Pending"
  shows "\<exists>xs. eg_sent st' = eg_sent st @ xs \<and> (\<forall>x \<in> set xs. ob_id x \<noteq> k)"
  using assms
proof (induction rule: rtranclp_induct)
  case base
  then show ?case by simp
next
  case (step y z)
  then obtain xs where xs: "eg_sent y = eg_sent st @ xs" "\<forall>x \<in> set xs. ob_id x \<noteq> k" by blast
  have I: "edge_inv mx y" "register_evolves (durable_outbox st) (durable_outbox y)"
    using edge_steps_evolve [OF step(1) step.prems(1)] by simp_all
  then have "register_evolves (durable_outbox st) (eg_outbox y)" using register_evolves_trans by (auto simp: edge_inv_def)
  with step.prems obtain r' where r': "outbox_get (eg_outbox y) k = Some r'" "ob_status r' \<noteq> Pending"
    unfolding register_evolves_def evolves_def by metis
  from edge_step_evolves [OF step(2) I(1)] obtain ys where ys: "eg_sent z = eg_sent y @ ys"
    "\<forall>x \<in> set ys. \<exists>r. outbox_get (eg_outbox y) (ob_id x) = Some r \<and> ob_status r = Pending" by blast
  then show ?case using xs r' by (intro exI [of _ "xs @ ys"]) auto
qed

text \<open>Successive passes of the dispatcher.\<close>

fun drains :: "(nat \<Rightarrow> edge_env) \<Rightarrow> nat \<Rightarrow> edge_state \<Rightarrow> edge_state" where
  "drains es 0 st = st"
| "drains es (Suc n) st = fst (drain_outbox (es n) (drains es n st))"

text \<open>The specification of a pass on the register.\<close>

definition settle_due :: "edge_env \<Rightarrow> outbox_request \<Rightarrow> outbox_request" where
  "settle_due env r = (if ob_status r = Pending \<and> flt_le (ob_next_attempt_at r) (ev_now env)
     then settled env r else r)"

lemma drain_settles:
  assumes "wf_outbox (eg_outbox st)" and "drain_outbox env st = (st', Inr ())"
    and "ev_has_sender env"
  shows "wf_outbox (eg_outbox st') \<and>
    outbox_get (eg_outbox st') k = map_option (settle_due env) (outbox_get (eg_outbox st) k)"
proof -
  from drain_outbox_effect [OF assms(1,2)] obtain st0 where
    eff: "pass_effect env st (drain_set env st) st0 (Inr ())" and same: "eg_outbox st' = eg_outbox st0"
    by blast
  have start: "\<not> ev_lost_start env" using assms(2) by (auto simp: drain_outbox_def)
  note iff = drain_set_iff [OF assms(1), of k env]
  have "outbox_get (eg_outbox st') k = map_option (settle_due env) (outbox_get (eg_outbox st) k)"
  proof (cases "k \<in> set (drain_set env st)")
    case True
    then obtain r where r: "outbox_get (eg_outbox st) k = Some r" "ob_status r = Pending"
        "flt_le (ob_next_attempt_at r) (ev_now env)"
      using iff by blast
    have "outbox_get (eg_outbox st') k = Some (settled env r)"
      using eff True r(1) unfolding same pass_effect_def by blast
    with r show ?thesis by (simp add: settle_due_def)
  next
    case False
    then have "outbox_get (eg_outbox st') k = outbox_get (eg_outbox st) k"
      using eff unfolding same pass_effect_def by blast
    with False iff start assms(3) show ?thesis
      by (cases "outbox_get (eg_outbox st) k") (auto simp: settle_due_def)
  qed
  with eff show ?thesis by (simp add: pass_effect_def same)
qed

lemma drain_commits:
  assumes "wf_outbox (eg_outbox st)" and "drain_outbox env st = (st', Inr ())" and "ev_has_sender env"
    and "outbox_due (eg_outbox st) (ev_now env) \<noteq> []" and "ev_has_snapshot env"
  shows "\<exists>q seen. eg_commits st' = eg_commits st @ [(eg_outbox st', q, seen)]"
proof -
  let ?ids = "map ob_id (outbox_due (eg_outbox st) (ev_now env))"
  obtain st0 where d: "drain_requests env st ?ids = (st0, Inr ())" "commit_drain env st0 = (st', Inr ())"
    using assms by (auto simp: drain_outbox_def Let_def split: if_splits prod.splits sum.splits)
  have "\<forall>k \<in> set ?ids. outbox_get (eg_outbox st) k \<noteq> None" using due_registered [OF assms(1)] by auto
  with drain_requests_sends [OF assms(1) outbox_due_ids_distinct [OF assms(1)] _ d(1)]
  have "eg_commits st0 = eg_commits st" by blast
  with d(2) assms(5) show ?thesis by (auto simp: commit_drain_def split: if_splits)
qed

lemma drain_without_loss:
  assumes "wf_outbox (eg_outbox st)" and "never_lost env"
  shows "\<exists>st'. drain_outbox env st = (st', Inr ())"
  using drain_outbox_effect [OF assms(1)] assms(2) by (cases "drain_outbox env st") blast

section \<open>Properties\<close>


definition request_example :: outbox_request where
  "request_example = \<lparr>ob_destination = ''mail'', ob_payload = [(''to'', PStr ''a'')],
     ob_capability = ''outbox.send'', ob_token_ref = ''tok'', ob_run_id = ''r'', ob_id = ''o1'',
     ob_idempotency_key = [], ob_correlation_id = [], ob_causation_id = [],
     ob_expect_ack = True, ob_reply_to = [], ob_traceparent = ''t'', ob_tracestate = [],
     ob_created_at = Fin 1, ob_status = Pending, ob_attempts = 0, ob_next_attempt_at = Fin 0,
     ob_reference = [], ob_error = []\<rparr>"

definition env_example :: "(string + outbox_receipt) \<Rightarrow> edge_env" where
  "env_example answer = \<lparr>ev_sender = (\<lambda>_. answer), ev_delay = (\<lambda>_. Fin 2), ev_max_attempts = 1,
     ev_max_queue = 8, ev_run_id = ''r'', ev_now = Fin 10, ev_trace = (\<lambda>_. ''t''),
     ev_summary = (\<lambda>_ _ _. ''sent''), ev_has_sender = True, ev_has_snapshot = True,
     ev_lost_start = False, ev_lost_before = (\<lambda>_. False), ev_lost_after = (\<lambda>_. False),
     ev_lost_ack = (\<lambda>_. False), ev_lost_commit = False\<rparr>"

lemma env_example_never_lost: "never_lost (env_example x)"
  by (simp add: env_example_def never_lost_def)

definition edge_example :: edge_state where
  "edge_example = \<lparr>eg_outbox = [(''o1'', request_example)], eg_events = [], eg_queue = [],
     eg_seen = [], eg_terminal = False, eg_commits = [([(''o1'', request_example)], [], [])], eg_sent = []\<rparr>"

lemma edge_example_wf: "wf_outbox (eg_outbox edge_example)"
  by (simp add: edge_example_def wf_outbox_def request_example_def)

lemma edge_example_get: "outbox_get (eg_outbox edge_example) ''o1'' = Some request_example"
  by (simp add: edge_example_def outbox_get_def)

lemma edge_example_durable: "durable_outbox edge_example = eg_outbox edge_example"
  by (simp add: durable_outbox_def edge_example_def)

lemma edge_example_inv: "edge_inv 1 edge_example"
proof -
  have "register_ok 1 (eg_outbox edge_example)" unfolding register_ok_def using edge_example_wf
    by (auto simp: edge_example_def outbox_get_def request_ok_def wf_request_def request_example_def split: if_splits)
  then show ?thesis by (simp add: edge_inv_def edge_example_durable register_evolves_refl)
qed

definition ok_receipt :: outbox_receipt where
  "ok_receipt = \<lparr>rc_ok = True, rc_reference = ''ref'', rc_error = [], rc_retryable = False\<rparr>"


text \<open>C24. The life of a committed request. A restart forgets the memory and resumes from the last committed checkpoint, so a request is
  safe once a checkpoint with it is committed. From then on, through any sequence of stagings, dispatcher passes (also
  interrupted ones), queue changes, commits and restarts, it stays registered, in memory and in the last committed checkpoint, with its identifier and the key
  the external target dedupes on; its committed attempts never decrease, the attempts in memory are never below the committed ones and never exceed the policy's limit;
  and once it is committed as dispatched or failed it stays so, also in memory, and is never handed to the sender again.\<close>

theorem staged_request_life:
  assumes "(edge_step mx)\<^sup>*\<^sup>* st st'" and "edge_inv mx st"
    and "outbox_get (durable_outbox st) k = Some r"
  shows "\<exists>c m. outbox_get (durable_outbox st') k = Some c \<and> outbox_get (eg_outbox st') k = Some m \<and>
    ob_id c = ob_id r \<and> ob_id m = ob_id r \<and> dedup_key c = dedup_key r \<and> dedup_key m = dedup_key r \<and>
    ob_attempts r \<le> ob_attempts c \<and> ob_attempts c \<le> ob_attempts m \<and> ob_attempts m \<le> max 1 mx \<and>
    (ob_status r \<noteq> Pending \<longrightarrow> ob_status c = ob_status r \<and> ob_status m = ob_status r \<and> ob_attempts m = ob_attempts r \<and>
       (\<exists>xs. eg_sent st' = eg_sent st @ xs \<and> (\<forall>x \<in> set xs. ob_id x \<noteq> k)))"
proof -
  note ev = edge_steps_evolve [OF assms(1,2)]
  then obtain c where c: "outbox_get (durable_outbox st') k = Some c" "evolves r c"
    using assms(3) unfolding register_evolves_def by blast
  with ev obtain m where m: "outbox_get (eg_outbox st') k = Some m" "evolves c m"
    unfolding edge_inv_def register_evolves_def by blast
  have "request_ok mx m" using ev m(1) by (simp add: edge_inv_def register_ok_def)
  with c m settled_not_sent [OF assms] show ?thesis by (auto simp: evolves_def request_ok_def)
qed

theorem staged_request_life_witness:
  "\<exists>st' c m. drain_outbox (env_example (Inl ''down'')) edge_example = (st', Inr ()) \<and>
     outbox_get (durable_outbox st') ''o1'' = Some c \<and> outbox_get (eg_outbox st') ''o1'' = Some m \<and>
     ob_attempts c \<le> ob_attempts m \<and> ob_attempts m \<le> 1 \<and> dedup_key m = ''o1''"
proof -
  from drain_without_loss [OF edge_example_wf env_example_never_lost] obtain st' where
    d: "drain_outbox (env_example (Inl ''down'')) edge_example = (st', Inr ())" by blast
  have "edge_step 1 edge_example st'"
    using d by (intro edge_step.EDrain [OF _ d]) (simp add: env_example_def)
  then have "(edge_step 1)\<^sup>*\<^sup>* edge_example st'" by blast
  moreover have "dedup_key request_example = ''o1''" by (simp add: dedup_key_def request_example_def)
  ultimately show ?thesis
    using staged_request_life [OF _ edge_example_inv edge_example_get [folded edge_example_durable], of st'] d by auto
qed

text \<open>A send that keeps failing is dead-lettered: if a fresh request is due at each pass and
  the sender raises every time, then after \<open>n\<close> passes it has been attempted \<open>n\<close> times and is
  still pending, and the pass that reaches the limit marks it failed.\<close>

theorem failing_send_is_dead_lettered:
  assumes "wf_outbox (eg_outbox st)" and "outbox_get (eg_outbox st) k = Some r"
    and "ob_status r = Pending" and "ob_attempts r = 0" and "0 < mx"
    and "\<forall>n < mx. ev_max_attempts (es n) = int mx \<and> (\<forall>x. \<exists>text. ev_sender (es n) x = Inl text) \<and>
      never_lost (es n) \<and> ev_has_sender (es n) \<and>
      (\<forall>x. outbox_get (eg_outbox (drains es n st)) k = Some x \<longrightarrow>
         flt_le (ob_next_attempt_at x) (ev_now (es n)))"
    and "n \<le> mx"
  shows "\<exists>r'. outbox_get (eg_outbox (drains es n st)) k = Some r' \<and> ob_attempts r' = int n \<and>
    ob_status r' = (if n < mx then Pending else Failed)"
proof -
  have "wf_outbox (eg_outbox (drains es n st)) \<and>
    (\<exists>r'. outbox_get (eg_outbox (drains es n st)) k = Some r' \<and> ob_attempts r' = int n \<and>
      ob_status r' = (if n < mx then Pending else Failed))"
    using assms(7)
  proof (induction n)
    case 0
    with assms show ?case by simp
  next
    case (Suc n)
    then obtain r' where wf: "wf_outbox (eg_outbox (drains es n st))"
      and r': "outbox_get (eg_outbox (drains es n st)) k = Some r'" "ob_attempts r' = int n"
        "ob_status r' = Pending"
      by auto
    have env: "ev_max_attempts (es n) = int mx" "\<exists>text. ev_sender (es n) (traced (es n) r') = Inl text"
      "never_lost (es n)" "ev_has_sender (es n)"
      "flt_le (ob_next_attempt_at r') (ev_now (es n))"
      using assms(6) Suc.prems r'(1) by auto
    from drain_without_loss [OF wf env(3)] obtain st'
      where d: "drain_outbox (es n) (drains es n st) = (st', Inr ())" by blast
    have "settle_due (es n) r' = settled (es n) r'"
      using r'(3) env(5) by (simp add: settle_due_def)
    with drain_settles [OF wf d env(4), of k] r'(1)
    have st': "drain_outbox (es n) (drains es n st) = (st', Inr ())" "wf_outbox (eg_outbox st')"
        "outbox_get (eg_outbox st') k = Some (settled (es n) r')"
      using d by simp_all
    have "result_of (es n) r' = (if Suc n < mx then Pending else Failed)"
      using env(1,2) r'(2) by (auto simp: result_of_def receipt_of_def outcome_def)
    with st' r'(2) show ?case by simp
  qed
  then show ?thesis by blast
qed

theorem failing_send_is_dead_lettered_witness:
  "\<exists>r'. outbox_get (eg_outbox (drains (\<lambda>_. env_example (Inl ''down'')) 1 edge_example)) ''o1'' = Some r' \<and>
     ob_attempts r' = 1 \<and> ob_status r' = Failed"
  using failing_send_is_dead_lettered [OF edge_example_wf edge_example_get, of 1
      "\<lambda>_. env_example (Inl ''down'')" 1] edge_example_get
  by (auto simp: request_example_def env_example_def never_lost_def)

text \<open>Acknowledgements: a pass appends to the inbox queue at most one message per request,
  each a correlated acknowledgement of a due request that asked for one and that this pass brought
  to a terminal status and whose acknowledgement was not already seen; nothing is appended for a
  terminal run, and the queue never grows past its depth limit.\<close>

theorem acks_once_and_correlated:
  assumes "wf_outbox (eg_outbox st)" and "drain_outbox env st = (st', res)"
  shows "\<exists>rs. eg_queue st' = eg_queue st @ map (\<lambda>r. PDict (inbox_to_json (ack_message env r))) rs \<and>
    distinct (map ob_id rs) \<and>
    (\<forall>r \<in> set rs. r \<in> set (outbox_due (eg_outbox st) (ev_now env)) \<and> ob_expect_ack r \<and>
       ob_status (settled env r) \<noteq> Pending \<and> ack_id_of (ob_id r) \<notin> set (eg_seen st) \<and>
       ib_causation_id (ack_message env r) = ob_id r \<and> \<not> eg_terminal st) \<and>
    length (eg_queue st') \<le> max (length (eg_queue st)) (ev_max_queue env)"
proof -
  from drain_outbox_run [OF assms(2)] obtain st0 res0 where
    d: "drain_requests env st (drain_set env st) = (st0, res0)" and q: "eg_queue st' = eg_queue st0"
    by blast
  have dist: "distinct (drain_set env st)"
    using outbox_due_ids_distinct [OF assms(1)] by (simp add: drain_set_def)
  from drain_requests_queue [OF assms(1) dist drain_set_registered [OF assms(1)] d]
  obtain rs where rs: "eg_queue st' = eg_queue st @
        map (\<lambda>r. PDict (inbox_to_json (ack_message env r))) rs" "distinct (map ob_id rs)"
      "\<forall>r \<in> set rs. ob_id r \<in> set (drain_set env st) \<and>
         outbox_get (eg_outbox st) (ob_id r) = Some r \<and>
         ob_expect_ack r \<and> result_of env r \<noteq> Pending \<and> ack_id_of (ob_id r) \<notin> set (eg_seen st) \<and>
         \<not> eg_terminal st"
      "length (eg_queue st') \<le> max (length (eg_queue st)) (ev_max_queue env)"
    unfolding q by blast
  have "r \<in> set (outbox_due (eg_outbox st) (ev_now env))" if "r \<in> set rs" for r
    using rs(3) that drain_set_iff [OF assms(1)] outbox_due_iff [OF assms(1)]
    by (metis option.inject)
  with rs show ?thesis by (intro exI [of _ rs]) (auto simp: ack_message_def)
qed

theorem acks_once_and_correlated_witness:
  "\<exists>st'. drain_outbox (env_example (Inr ok_receipt)) edge_example = (st', Inr ()) \<and>
     length (eg_queue st') \<le> 8"
proof -
  from drain_without_loss [OF edge_example_wf env_example_never_lost] obtain st' where
    d: "drain_outbox (env_example (Inr ok_receipt)) edge_example = (st', Inr ())" by blast
  from acks_once_and_correlated [OF edge_example_wf d] d show ?thesis
    by (auto simp: env_example_def edge_example_def)
qed

text \<open>The outbox survives a checkpoint: exporting a register of well-formed requests and
  importing the result into an empty one rebuilds the same requests in the same order under the
  same identifiers, with payloads in the JSON domain and the defaulted keys filled in, so that
  what is pending and due is the same; and encoding the rebuilt requests gives the same wire
  form again.\<close>

theorem outbox_survives_checkpoint:
  assumes "pydantic_strict va" and "wf_outbox ob" and "\<forall>(k, r) \<in> set ob. wf_request r"
    and "outbox_export ob = Inr payloads"
  shows "\<exists>ob'. outbox_import va fresh_id [] payloads = Inr ob' \<and>
    ob' = map (\<lambda>(k, r). (k, canonical r)) ob \<and> outbox_export ob' = Inr payloads \<and>
    map ob_id (outbox_due ob' now) = map ob_id (outbox_due ob now)"
proof -
  let ?ob' = "map (\<lambda>(k, r). (k, canonical r)) ob"
  have imp: "outbox_import va fresh_id [] payloads = Inr ?ob'"
    using outbox_import_export [OF assms(1), of ob "[]" payloads fresh_id] assms(2-)
    by (auto simp: outbox_export_def wf_outbox_def)
  have "res_map outbox_request_to_json (map snd ?ob') = Inr payloads"
    using assms(3,4)
  proof (induction ob arbitrary: payloads)
    case (Cons kr ob)
    then show ?case
      using outbox_to_json_canonical(1)
      by (cases kr) (auto simp: outbox_export_def res_bind_eq_Inr)
  qed (simp add: outbox_export_def)
  then have ex: "outbox_export ?ob' = Inr payloads" by (simp add: outbox_export_def)
  have "map ob_id (outbox_due ?ob' now) = map ob_id (outbox_due ob now)"
    by (induction ob) (auto simp: outbox_due_def canonical_def)
  with imp ex show ?thesis by blast
qed

theorem outbox_survives_checkpoint_witness:
  "\<exists>payloads ob'. outbox_export [(''o1'', request_example)] = Inr payloads \<and>
     outbox_import strict_validator ''f'' [] payloads = Inr ob' \<and> map fst ob' = [''o1'']"
proof -
  have wf: "wf_request request_example" by (simp add: wf_request_def request_example_def)
  have "schedulable request_example" and wfp: "wf_val (PDict (ob_payload request_example))"
    by (simp_all add: request_example_def schedulable_def)
  then have "normalize_outbox_request request_example =
      Inr (request_example\<lparr>ob_payload := norm_payload (ob_payload request_example)\<rparr>)"
    using normalize_request_wf [OF wfp] by blast
  then have "\<exists>p. outbox_request_to_json request_example = Inr p"
    unfolding outbox_request_to_json_def by simp
  then obtain p where p: "outbox_export [(''o1'', request_example)] = Inr [p]"
    by (auto simp: outbox_export_def)
  have "wf_outbox [(''o1'', request_example)]" by (simp add: wf_outbox_def request_example_def)
  from outbox_survives_checkpoint [OF strict_validator_strict this _ p, of "''f''"] wf p
  show ?thesis by auto
qed

text \<open>An inbox envelope decodes to itself: for a message with an identifier, a finite time and
  JSON-native content (text or a list of objects), decoding its wire form returns the message,
  with an empty correlation identifier replaced by the message's own; and the wire form is
  recognised as an envelope.\<close>

theorem inbox_roundtrip:
  assumes strict: "pydantic_strict va" and "ib_id m \<noteq> []" and "is_finite_float (ib_created_at m)"
    and "(\<exists>s. ib_content m = PStr s) \<or> (\<exists>ds. ib_content m = PList (map PDict ds))"
  shows "inbox_from_json va fresh_id (PDict (inbox_to_json m)) =
      Inr (m\<lparr>ib_correlation_id := (if ib_correlation_id m \<noteq> [] then ib_correlation_id m else ib_id m)\<rparr>) \<and>
    is_inbox_envelope (PDict (inbox_to_json m))"
proof -
  let ?p = "inbox_to_json m"
  have strs: "parse_str va ?p ''protocol'' [] = Inr INBOX_PROTOCOL_VERSION"
      "parse_str va ?p ''id'' [] = Inr (ib_id m)"
      "parse_str va ?p ''source'' ''api'' = Inr (ib_source m)"
      "parse_str va ?p ''type'' ''user_message'' = Inr (ib_type m)"
      "parse_str va ?p ''run_id'' [] = Inr (ib_run_id m)"
      "parse_str va ?p ''correlation_id'' [] =
         Inr (if ib_correlation_id m \<noteq> [] then ib_correlation_id m else ib_id m)"
      "parse_str va ?p ''causation_id'' [] = Inr (ib_causation_id m)"
      "parse_str va ?p ''traceparent'' [] = Inr (ib_traceparent m)"
      "parse_str va ?p ''tracestate'' [] = Inr (ib_tracestate m)"
    by (simp_all add: inbox_to_json_def parse_str_strict [OF strict])
  have t: "float_or_zero ?p ''created_at'' = Inr (ib_created_at m)"
    using assms(3) by (simp add: inbox_to_json_def float_or_zero_def parse_float_def
        is_finite_json_number_def)
  have "res_map (\<lambda>p. require_object va p ''content part'') (map PDict ds) = Inr ds" for ds
    by (induction ds) (simp_all add: require_object_strict [OF strict])
  then have c: "inbox_content va ?p = Inr (ib_content m)"
    using assms(4) by (auto simp: inbox_content_def inbox_to_json_def)
  have md: "map_of ?p ''metadata'' = Some (PDict (ib_metadata m))"
    by (simp add: inbox_to_json_def)
  have acc: "INBOX_PROTOCOL_VERSION \<in> set ACCEPTED_INBOX_PROTOCOL_VERSIONS"
    by (simp add: ACCEPTED_INBOX_PROTOCOL_VERSIONS_def INBOX_PROTOCOL_VERSION_def
        accepted_namespaced_ids_iff)
  have "inbox_from_json va fresh_id (PDict ?p) =
      Inr (m\<lparr>ib_correlation_id := (if ib_correlation_id m \<noteq> [] then ib_correlation_id m else ib_id m)\<rparr>)"
    unfolding inbox_from_json_def require_object_strict [OF strict]
    using acc assms(2) by (simp add: strs t c md require_object_strict [OF strict])
  moreover have "is_inbox_envelope (PDict ?p)"
    using acc by (simp add: is_inbox_envelope_def inbox_to_json_def dget_def)
  ultimately show ?thesis by blast
qed

theorem inbox_roundtrip_witness:
  "is_inbox_envelope (PDict (inbox_to_json (ack_message (env_example (Inr ok_receipt))
     request_example)))"
  using inbox_roundtrip [OF strict_validator_strict,
      of "ack_message (env_example (Inr ok_receipt)) request_example" "''f''"]
  by (simp add: ack_message_def ack_id_of_def env_example_def)

end
