(* ===== verification/Tool_Gate.thy ===== *)
theory Tool_Gate
  imports Outbox Capability Json_Ingress
begin

text \<open>
  What a model-requested tool call has to pass before its handler runs: the surface authorization
  with its quota (\<open>loop.py\<close>), the approval of a call that has to be asked for
  (\<open>core/tool_approval.py\<close>), the policy for external side effects
  (\<open>core/side_effect_policy.py\<close>) and the capability gate of the theory of capabilities, composed
  as \<open>AgentLoop._aexecute_tool_call\<close> composes them.

  The handler, the argument validation, the surface scope check and the permission check are
  arguments of the composed call; the handler acts on the outbox. \<open>canonical_sha256\<close> is the argument
  \<open>sha\<close>.
\<close>

section \<open>Side-effect policy\<close>

datatype side_effect_mode = Compat | Strict

record side_effect_declaration =
  sd_external :: bool
  sd_delivery :: string
  sd_idempotency_key_arg :: string

record side_effect_admission =
  sa_allowed :: bool
  sa_declaration :: side_effect_declaration
  sa_requires_outbox :: bool
  sa_error :: string
  sa_error_code :: string

definition SIDE_EFFECT_POLICY_DENIED :: string where
  "SIDE_EFFECT_POLICY_DENIED = ''tool_side_effect_policy_denied''"

definition SIDE_EFFECT_OUTBOX_MISSING :: string where
  "SIDE_EFFECT_OUTBOX_MISSING = ''tool_side_effect_outbox_missing''"

text \<open>\<open>str(v or default).strip()\<close>.\<close>

definition str_or :: "(pyval \<Rightarrow> string) \<Rightarrow> string \<Rightarrow> pyval \<Rightarrow> string" where
  "str_or rp dflt v = str_strip (if py_truthy v then str_of rp v else dflt)"

text \<open>\<open>metadata\<close> is the configuration's attribute, \<open>None\<close> when it has none.\<close>

definition side_effect_policy_from_config :: "(pyval \<Rightarrow> string) \<Rightarrow> pyval option \<Rightarrow> side_effect_mode" where
  "side_effect_policy_from_config rp metadata =
    (let raw = (case metadata of Some (PDict d) \<Rightarrow> dget d ''tool_side_effect_policy'' | _ \<Rightarrow> PNone);
         mode = (case raw of PDict d \<Rightarrow> str_lower (str_or rp ''compat'' (dget d ''mode''))
                 | _ \<Rightarrow> str_lower (str_or rp ''compat'' raw))
     in if mode = ''strict'' then Strict else Compat)"

fun as_bool :: "pyval \<Rightarrow> bool" where
  "as_bool (PBool b) = b"
| "as_bool (PStr s) = (str_lower (str_strip s) \<in> {''1'', ''true'', ''yes'', ''on''})"
| "as_bool v = py_truthy v"

definition bool_setting :: "string \<Rightarrow> pydict \<Rightarrow> pydict \<Rightarrow> bool" where
  "bool_setting key runtime annotations =
    (if dhas key runtime then as_bool (dget runtime key)
     else if dhas key annotations then as_bool (dget annotations key)
     else False)"

definition str_setting :: "(pyval \<Rightarrow> string) \<Rightarrow> string \<Rightarrow> pydict \<Rightarrow> pydict \<Rightarrow> string" where
  "str_setting rp key runtime annotations =
    (if dhas key runtime then str_or rp [] (dget runtime key)
     else if dhas key annotations then str_or rp [] (dget annotations key)
     else [])"

definition side_effect_declaration_from_tool ::
    "(pyval \<Rightarrow> string) \<Rightarrow> pydict \<Rightarrow> pydict option \<Rightarrow> side_effect_declaration" where
  "side_effect_declaration_from_tool rp annotations binding_runtime =
    (let runtime = (case binding_runtime of None \<Rightarrow> [] | Some r \<Rightarrow> r);
         key_arg = str_setting rp ''idempotency_key_arg'' runtime annotations
     in \<lparr>sd_external = bool_setting ''external_side_effect'' runtime annotations,
         sd_delivery = str_setting rp ''side_effect_delivery'' runtime annotations,
         sd_idempotency_key_arg = (if key_arg \<noteq> [] then key_arg else ''idempotency_key'')\<rparr>)"

definition plain_admission :: "side_effect_declaration \<Rightarrow> side_effect_admission" where
  "plain_admission d = \<lparr>sa_allowed = True, sa_declaration = d, sa_requires_outbox = False,
     sa_error = [], sa_error_code = []\<rparr>"

definition admit_tool_side_effect ::
    "(pyval \<Rightarrow> string) \<Rightarrow> pydict \<Rightarrow> pydict option \<Rightarrow> pydict \<Rightarrow> side_effect_mode \<Rightarrow> side_effect_admission"
    where
  "admit_tool_side_effect rp annotations binding_runtime arguments policy =
    (let d = side_effect_declaration_from_tool rp annotations binding_runtime in
     if policy \<noteq> Strict \<or> \<not> sd_external d then plain_admission d
     else if sd_delivery d = ''outbox'' then (plain_admission d)\<lparr>sa_requires_outbox := True\<rparr>
     else if sd_delivery d = ''idempotent'' then
       (if str_or rp [] (dget arguments (sd_idempotency_key_arg d)) \<noteq> [] then plain_admission d
        else (plain_admission d)\<lparr>sa_allowed := False,
               sa_error := ''external side-effect tool requires idempotency key argument: '' @
                 sd_idempotency_key_arg d,
               sa_error_code := SIDE_EFFECT_POLICY_DENIED\<rparr>)
     else (plain_admission d)\<lparr>sa_allowed := False,
            sa_error := ''external side-effect tool requires outbox or idempotent delivery'',
            sa_error_code := SIDE_EFFECT_POLICY_DENIED\<rparr>)"

definition verify_outbox_side_effect ::
    "side_effect_admission \<Rightarrow> nat \<Rightarrow> nat \<Rightarrow> side_effect_admission" where
  "verify_outbox_side_effect a before_count after_count =
    (if \<not> sa_requires_outbox a \<or> before_count < after_count then plain_admission (sa_declaration a)
     else (plain_admission (sa_declaration a))\<lparr>sa_allowed := False, sa_requires_outbox := True,
            sa_error :=
              ''external side-effect tool declared outbox delivery but staged no outbox request'',
            sa_error_code := SIDE_EFFECT_OUTBOX_MISSING\<rparr>)"

section \<open>Approvals\<close>

definition TOOL_APPROVAL_RESULT_TYPE :: string where
  "TOOL_APPROVAL_RESULT_TYPE = ''tool_approval_result''"

definition APPROVE_VALUES :: "string list" where
  "APPROVE_VALUES = [''1'', ''allow'', ''allowed'', ''approve'', ''approved'', ''true'', ''y'', ''yes'']"

definition DENY_VALUES :: "string list" where
  "DENY_VALUES = [''0'', ''deny'', ''denied'', ''false'', ''n'', ''no'', ''reject'', ''rejected'']"

fun parse_approval_bool :: "pyval \<Rightarrow> bool option" where
  "parse_approval_bool (PBool b) = Some b"
| "parse_approval_bool (PStr s) = (let t = str_lower (str_strip s) in
     if t \<in> set APPROVE_VALUES then Some True
     else if t \<in> set DENY_VALUES then Some False else None)"
| "parse_approval_bool _ = None"

text \<open>A result is \<open>None\<close> or a mapping; \<open>dict(result or {})\<close>.\<close>

definition normalize_tool_approval_result ::
    "(pyval \<Rightarrow> string) \<Rightarrow> pydict option \<Rightarrow> string \<Rightarrow> string \<Rightarrow> pydict" where
  "normalize_tool_approval_result rp result task_id default_reason =
    (let payload = (case result of None \<Rightarrow> [] | Some d \<Rightarrow> d);
         answer = str_or rp [] (dget payload ''answer'');
         approved = (if dhas ''approved'' payload \<and> dget payload ''approved'' \<noteq> PNone
                     then parse_approval_bool (dget payload ''approved'') = Some True
                     else parse_approval_bool (PStr answer) = Some True);
         reason = (if py_truthy (dget payload ''reason'') then str_of rp (dget payload ''reason'')
                   else if default_reason \<noteq> [] then default_reason
                   else if approved then ''approved'' else ''denied'')
     in [(''type'', PStr TOOL_APPROVAL_RESULT_TYPE), (''task_id'', PStr task_id),
         (''approved'', PBool approved), (''answer'', PStr (if approved then ''Approve'' else ''Deny'')),
         (''reason'', PStr reason)])"

definition approved_of :: "pydict \<Rightarrow> bool" where
  "approved_of normalized = py_truthy (dget normalized ''approved'')"

definition approval_preimage :: "pydict \<Rightarrow> pydict" where
  "approval_preimage request = [(''tool_id'', dget request ''tool_id''),
     (''binding_id'', dget request ''binding_id''), (''call_name'', dget request ''call_name''),
     (''call_id'', dget request ''call_id''), (''arguments'', dget request ''arguments'')]"

definition tool_approval_key :: "(pydict \<Rightarrow> string) \<Rightarrow> pydict \<Rightarrow> string" where
  "tool_approval_key sha request = sha (approval_preimage request)"

definition approval_replay_from_task ::
    "(pyval \<Rightarrow> string) \<Rightarrow> (pydict \<Rightarrow> string) \<Rightarrow> pydict option \<Rightarrow> pydict option \<Rightarrow> string \<Rightarrow>
     pydict option res" where
  "approval_replay_from_task rp sha request result task_id = (case request of
      None \<Rightarrow> Inr None
    | Some q \<Rightarrow>
        if \<not> approved_of (normalize_tool_approval_result rp result task_id []) then Inr None
        else res_bind (dict_or_empty q ''arguments'') (\<lambda>arguments.
          Inr (Some [(''call_name'', PStr (dget_str rp q ''call_name'')),
            (''call_id'', PStr (dget_str rp q ''call_id'')),
            (''arguments'', PDict arguments),
            (''binding_id'', PStr (dget_str rp q ''binding_id'')),
            (''tool_id'', PStr (dget_str rp q ''tool_id'')),
            (''task_id'', PStr task_id),
            (''approval_key'', PStr (if py_truthy (dget q ''approval_key'')
                then str_of rp (dget q ''approval_key'') else tool_approval_key sha q))])))"

definition denied_tool_approval_observation ::
    "(pyval \<Rightarrow> string) \<Rightarrow> pydict option \<Rightarrow> pydict option \<Rightarrow> string \<Rightarrow> string option \<Rightarrow> pydict" where
  "denied_tool_approval_observation rp request result task_id reason =
    (let n = normalize_tool_approval_result rp result task_id [];
         q = (case request of None \<Rightarrow> [] | Some d \<Rightarrow> d);
         deny_reason = (case reason of Some (c # r) \<Rightarrow> c # r
             | _ \<Rightarrow> if py_truthy (dget n ''reason'') then str_of rp (dget n ''reason'') else ''denied'')
     in AList.update ''call_name'' (PStr (dget_str rp q ''call_name''))
       (AList.update ''binding_id'' (PStr (dget_str rp q ''binding_id''))
       (AList.update ''tool_id'' (PStr (dget_str rp q ''tool_id''))
       (AList.update ''status'' (PStr ''denied'')
       (AList.update ''reason'' (PStr deny_reason)
       (AList.update ''answer'' (PStr ''Deny'')
       (AList.update ''approved'' (PBool False) n)))))))"

definition DEFAULT_SECRET_KEY_PARTS :: "string list" where
  "DEFAULT_SECRET_KEY_PARTS = [''api_key'', ''apikey'', ''authorization'', ''bearer'', ''credential'',
     ''password'', ''secret'', ''token'']"

definition is_secret_key :: "string \<Rightarrow> bool" where
  "is_secret_key key = (let lowered = map (\<lambda>c. if c = CHR ''-'' then CHR ''_'' else c) (str_lower key)
     in list_ex (\<lambda>part. str_contains lowered part) DEFAULT_SECRET_KEY_PARTS)"

text \<open>\<open>_jsonish\<close>: the recorded copy of the arguments, refused beyond \<open>MAX_ARGUMENT_DEPTH\<close>.\<close>

definition MAX_ARGUMENT_DEPTH :: nat where
  "MAX_ARGUMENT_DEPTH = MAX_PORTABLE_CONTAINER_DEPTH"

lemma res_map_cong [fundef_cong]:
  "xs = ys \<Longrightarrow> (\<And>x. x \<in> set ys \<Longrightarrow> f x = g x) \<Longrightarrow> res_map f xs = res_map g ys"
  by (induction ys arbitrary: xs) auto

fun jsonish :: "(pyval \<Rightarrow> string) \<Rightarrow> nat \<Rightarrow> pyval \<Rightarrow> pyval res" where
  "jsonish rp depth v =
    (if MAX_ARGUMENT_DEPTH < depth then Inl (ValueError ''tool arguments nest deeper'')
     else (case v of
        PDict d \<Rightarrow> res_bind (res_map (\<lambda>p. res_bind (jsonish rp (Suc depth) (snd p))
            (\<lambda>w. Inr (fst p, w))) d) (\<lambda>e. Inr (PDict e))
      | PList xs \<Rightarrow> res_bind (res_map (jsonish rp (Suc depth)) xs) (\<lambda>ys. Inr (PList ys))
      | PTuple xs \<Rightarrow> res_bind (res_map (jsonish rp (Suc depth)) xs) (\<lambda>ys. Inr (PList ys))
      | POther t \<Rightarrow> Inr (PStr (rp (POther t)))
      | _ \<Rightarrow> Inr v))"

declare jsonish.simps [simp del]

record bound_tool =
  bt_binding_id :: string
  bt_tool_id :: string
  bt_model_name :: string
  bt_side_effect :: string
  bt_annotations :: pydict
  bt_runtime :: "pydict option"

text \<open>\<open>preview\<close> is the bounded projection of the arguments that public surfaces show.\<close>

definition build_tool_approval_task_request ::
    "(pyval \<Rightarrow> string) \<Rightarrow> (pydict \<Rightarrow> string) \<Rightarrow> (pydict \<Rightarrow> pydict) \<Rightarrow> bound_tool \<Rightarrow> string \<Rightarrow> string \<Rightarrow>
     pydict \<Rightarrow> string \<Rightarrow> string \<Rightarrow> string option \<Rightarrow> pydict res" where
  "build_tool_approval_task_request rp sha preview bt call_name call_id arguments reason turn_id
       tool_event_id =
    res_bind (jsonish rp 0 (PDict arguments)) (\<lambda>v.
      let sanitized = (case v of PDict d \<Rightarrow> d | _ \<Rightarrow> []);
          request = [(''prompt'', PStr (''Approve tool call '' @ call_name)),
            (''tool_id'', PStr (bt_tool_id bt)), (''binding_id'', PStr (bt_binding_id bt)),
            (''model_name'', PStr (bt_model_name bt)), (''call_name'', PStr call_name),
            (''call_id'', PStr call_id), (''arguments'', PDict sanitized),
            (''arguments_preview'', PDict (preview sanitized)), (''reason'', PStr reason),
            (''side_effect'', PStr (bt_side_effect bt)), (''turn_id'', PStr turn_id),
            (''tool_event_id'', (case tool_event_id of None \<Rightarrow> PNone | Some e \<Rightarrow> PStr e))]
      in Inr (request @ [(''approval_key'', PStr (tool_approval_key sha request))]))"

section \<open>The call in the loop\<close>

record tool_authorization =
  ta_decision :: string
  ta_reason :: string
  ta_max_calls :: "int option"

record surface_snapshot =
  sf_immediate :: "string list"
  sf_authorizations :: "(string \<times> tool_authorization) list"

type_synonym call_counts = "(string \<times> int) list"

definition count_of :: "call_counts \<Rightarrow> string \<Rightarrow> int" where
  "count_of counts binding_id = (case map_of counts binding_id of None \<Rightarrow> 0 | Some n \<Rightarrow> n)"

definition authorize_surface_tool ::
    "bound_tool \<Rightarrow> surface_snapshot \<Rightarrow> call_counts \<Rightarrow> bool \<Rightarrow> tool_authorization res" where
  "authorize_surface_tool bt snapshot counts allow_ask =
    (let binding_id = bt_binding_id bt; authorization = map_of (sf_authorizations snapshot) binding_id in
     (case authorization of
        None \<Rightarrow> Inl (PermissionDenied ''tool_not_in_surface'')
      | Some a \<Rightarrow>
          if ta_decision a = ''deny'' then Inl (PermissionDenied ''tool_binding_denied'')
          else if binding_id \<notin> set (sf_immediate snapshot)
            then Inl (PermissionDenied ''tool_not_in_surface'')
          else if (case ta_max_calls a of None \<Rightarrow> False | Some m \<Rightarrow> m \<le> count_of counts binding_id)
            then Inl (PermissionDenied ''tool_quota_exceeded'')
          else if ta_decision a = ''ask'' \<and> \<not> allow_ask
            then Inl (PermissionDenied ''tool_approval_required'')
          else Inr a))"

definition verify_tool_approval_replay ::
    "(pyval \<Rightarrow> string) \<Rightarrow> (pydict \<Rightarrow> string) \<Rightarrow> bound_tool \<Rightarrow> pydict \<Rightarrow> unit res" where
  "verify_tool_approval_replay rp sha bt replay =
    (if dget_str rp replay ''binding_id'' \<noteq> bt_binding_id bt
       \<or> dget_str rp replay ''tool_id'' \<noteq> bt_tool_id bt
       \<or> dget_str rp replay ''approval_key'' \<noteq> tool_approval_key sha replay
     then Inl (PermissionDenied ''tool_approval_stale'') else Inr ())"

text \<open>\<open>_handle_tool_approval_result\<close>: the task as the job table has it (its request, its result and its
  status), the status of the observation, and the replays queued so far. The result is the
  normalised decision, the queue and the observation's output.\<close>

record approval_task =
  at_request :: "pydict option"
  at_result :: "pydict option"
  at_status :: string

definition handle_tool_approval_result ::
    "(pyval \<Rightarrow> string) \<Rightarrow> (pydict \<Rightarrow> string) \<Rightarrow> approval_task option \<Rightarrow> pydict \<Rightarrow> pydict list \<Rightarrow>
     (pydict list \<times> pydict) res" where
  "handle_tool_approval_result rp sha task output replays =
    (let task_id = dget_str rp output ''task_id'';
         request = (case task of None \<Rightarrow> None | Some t \<Rightarrow> at_request t);
         result = (case task of None \<Rightarrow> None | Some t \<Rightarrow> at_result t);
         normalized = normalize_tool_approval_result rp result task_id [];
         own_status = (case task of None \<Rightarrow> [] | Some t \<Rightarrow> at_status t);
         task_status = (if own_status \<noteq> [] then own_status else dget_str rp output ''status'');
         normalized = (if approved_of normalized \<and> task_status \<noteq> ''answered''
           then AList.update ''reason'' (PStr (''tool approval task ended with status '' @
                    (if task_status \<noteq> [] then task_status else ''unknown'')))
                  (AList.update ''answer'' (PStr ''Deny'') (AList.update ''approved'' (PBool False) normalized))
           else normalized)
     in if approved_of normalized
        then res_bind (approval_replay_from_task rp sha request result task_id) (\<lambda>replay.
          Inr ((case replay of None \<Rightarrow> replays | Some r \<Rightarrow> replays @ [r]),
               normalized @ [(''status'', PStr ''approved''),
                 (''message'', PStr (''Tool approval task '' @ task_id @ '' was approved.''))]))
        else Inr (replays, denied_tool_approval_observation rp request result task_id
               (Some (dget_str rp normalized ''reason''))))"

text \<open>The state a call works on. \<open>ts_invoked\<close> records the bindings whose handler was entered; the code
  has no such list.\<close>

record tool_state =
  ts_counts :: call_counts
  ts_outbox :: outbox
  ts_gate :: gate_state
  ts_tasks :: "pydict list"
  ts_invoked :: "string list"

datatype call_outcome =
    ApprovalRequested
  | LeasePending pydict
  | Ran bool pyval

text \<open>A handler leaves the outbox changed and returns whether its result is ok, with the content, or
  raises.\<close>

type_synonym handler = "outbox \<Rightarrow> outbox \<times> (bool \<times> pyval) res"

record call_env =
  ce_rp :: "pyval \<Rightarrow> string"
  ce_sha :: "pydict \<Rightarrow> string"
  ce_preview :: "pydict \<Rightarrow> pydict"
  ce_revocations :: rev_store
  ce_broker :: "broker option"
  ce_surface :: surface_snapshot
  ce_policy :: side_effect_mode

record tool_call =
  tc_tool :: bound_tool
  tc_call_name :: string
  tc_call_id :: string
  tc_turn_id :: string
  tc_event_id :: "string option"
  tc_arguments :: pydict
  tc_checks :: "unit res"
  tc_lease :: gate_call
  tc_handler :: handler

text \<open>What follows the admission of the side effect: the capability gate, the count against the quota,
  the handler, and the check that a declared outbox delivery staged a request.\<close>

definition charge_call :: "string \<Rightarrow> tool_state \<Rightarrow> tool_state" where
  "charge_call b ts = ts\<lparr>ts_counts := AList.update b (count_of (ts_counts ts) b + 1) (ts_counts ts)\<rparr>"

definition enter_handler :: "string \<Rightarrow> outbox \<Rightarrow> tool_state \<Rightarrow> tool_state" where
  "enter_handler b ob ts = ts\<lparr>ts_outbox := ob, ts_invoked := ts_invoked ts @ [b]\<rparr>"

definition outbox_before :: "side_effect_admission \<Rightarrow> outbox \<Rightarrow> pydict list res" where
  "outbox_before admission ob = (if sa_requires_outbox admission then outbox_export ob else Inr [])"

definition invoke_handler ::
    "tool_call \<Rightarrow> side_effect_admission \<Rightarrow> tool_state \<Rightarrow> tool_state \<times> call_outcome res" where
  "invoke_handler c admission ts0 =
    (let b = bt_binding_id (tc_tool c); ts1 = charge_call b ts0 in
     (case outbox_before admission (ts_outbox ts1) of
        Inl e \<Rightarrow> (ts1, Inl e)
      | Inr before \<Rightarrow>
          (case tc_handler c (ts_outbox ts1) of (ob, result) \<Rightarrow>
            let ts2 = enter_handler b ob ts1 in
            (case result of
               Inl e \<Rightarrow> (ts2, Inl e)
             | Inr (ok, content) \<Rightarrow>
                 if ok \<and> sa_requires_outbox admission then
                   (case outbox_export (ts_outbox ts2) of
                      Inl e \<Rightarrow> (ts2, Inl e)
                    | Inr after \<Rightarrow>
                        let v = verify_outbox_side_effect admission (length before) (length after) in
                        if \<not> sa_allowed v then (ts2, Inl (ToolExecutionError (sa_error_code v)))
                        else (ts2, Inr (Ran ok content)))
                 else (ts2, Inr (Ran ok content))))))"

definition execute_tool_call ::
    "call_env \<Rightarrow> tool_call \<Rightarrow> pydict option \<Rightarrow> tool_state \<Rightarrow> tool_state \<times> call_outcome res" where
  "execute_tool_call env c approved ts =
    (let bt = tc_tool c in
     (case authorize_surface_tool bt (ce_surface env) (ts_counts ts) True of
        Inl e \<Rightarrow> (ts, Inl e)
      | Inr authorization \<Rightarrow>
          (case tc_checks c of
             Inl e \<Rightarrow> (ts, Inl e)
           | Inr _ \<Rightarrow>
               if ta_decision authorization = ''ask'' \<and> approved = None then
                 (case build_tool_approval_task_request (ce_rp env) (ce_sha env) (ce_preview env) bt
                         (tc_call_name c) (tc_call_id c) (tc_arguments c) (ta_reason authorization)
                         (tc_turn_id c) (tc_event_id c) of
                    Inl e \<Rightarrow> (ts, Inl e)
                  | Inr request \<Rightarrow> (ts\<lparr>ts_tasks := ts_tasks ts @ [request]\<rparr>, Inr ApprovalRequested))
               else
                 (case (case approved of None \<Rightarrow> Inr ()
                        | Some replay \<Rightarrow> verify_tool_approval_replay (ce_rp env) (ce_sha env) bt replay)
                  of Inl e \<Rightarrow> (ts, Inl e)
                   | Inr _ \<Rightarrow>
                       let admission = admit_tool_side_effect (ce_rp env) (bt_annotations bt)
                             (bt_runtime bt) (tc_arguments c) (ce_policy env) in
                       if \<not> sa_allowed admission
                       then (ts, Inl (PermissionDenied (sa_error_code admission)))
                       else (case ensure_capability_lease (ce_rp env) (ce_revocations env)
                                    (ce_broker env) (tc_lease c) (ts_gate ts) of
                               (gate, r) \<Rightarrow>
                                 let ts = ts\<lparr>ts_gate := gate\<rparr> in
                                 (case r of
                                    Inl e \<Rightarrow> (ts, Inl e)
                                  | Inr (PendingCapability t) \<Rightarrow> (ts, Inr (LeasePending t))
                                  | Inr Proceed \<Rightarrow> invoke_handler c admission ts))))))"

section \<open>Lemmas of the call\<close>

lemma outbox_export_length: "outbox_export ob = Inr ps \<Longrightarrow> length ps = length ob"
  unfolding outbox_export_def by (simp add: res_map_Inr_iff) (metis length_map list_all2_lengthD)

lemma verify_outbox_allowed:
  "sa_allowed (verify_outbox_side_effect a m n) \<longleftrightarrow> \<not> sa_requires_outbox a \<or> m < n"
  by (simp add: verify_outbox_side_effect_def plain_admission_def)

lemma count_of_update [simp]:
  "count_of (AList.update k n counts) k' = (if k' = k then n else count_of counts k')"
  by (simp add: count_of_def update_conv')

text \<open>When the handler is entered, and what a successful outbox delivery leaves.\<close>

lemma charge_call_fields [simp]:
  "ts_outbox (charge_call b ts) = ts_outbox ts" "ts_gate (charge_call b ts) = ts_gate ts"
  "ts_tasks (charge_call b ts) = ts_tasks ts" "ts_invoked (charge_call b ts) = ts_invoked ts"
  "ts_counts (charge_call b ts) = AList.update b (count_of (ts_counts ts) b + 1) (ts_counts ts)"
  by (simp_all add: charge_call_def)

lemma enter_handler_fields [simp]:
  "ts_outbox (enter_handler b ob ts) = ob" "ts_gate (enter_handler b ob ts) = ts_gate ts"
  "ts_tasks (enter_handler b ob ts) = ts_tasks ts" "ts_counts (enter_handler b ob ts) = ts_counts ts"
  "ts_invoked (enter_handler b ob ts) = ts_invoked ts @ [b]"
  by (simp_all add: enter_handler_def)

lemma invoke_handler_effect:
  assumes "invoke_handler c a ts = (ts', r)"
  shows "ts_gate ts' = ts_gate ts \<and> ts_tasks ts' = ts_tasks ts \<and>
    ts_counts ts' = AList.update (bt_binding_id (tc_tool c))
      (count_of (ts_counts ts) (bt_binding_id (tc_tool c)) + 1) (ts_counts ts) \<and>
    ts_invoked ts' \<in> {ts_invoked ts, ts_invoked ts @ [bt_binding_id (tc_tool c)]} \<and>
    (\<forall>content. r = Inr (Ran True content) \<and> sa_requires_outbox a \<longrightarrow>
       length (ts_outbox ts) < length (ts_outbox ts'))"
proof (cases "outbox_before a (ts_outbox ts)")
  case (Inl e)
  with assms show ?thesis by (auto simp: invoke_handler_def Let_def)
next
  case (Inr bef)
  have lb: "length bef = length (ts_outbox ts)" if "sa_requires_outbox a"
    using Inr that by (simp add: outbox_export_length outbox_before_def)
  obtain ob res where h: "tc_handler c (ts_outbox ts) = (ob, res)" by (cases "tc_handler c (ts_outbox ts)")
  let ?t = "enter_handler (bt_binding_id (tc_tool c)) ob (charge_call (bt_binding_id (tc_tool c)) ts)"
  have u: "(case res of
      Inl e \<Rightarrow> (?t, Inl e)
    | Inr (ok, content) \<Rightarrow>
        if ok \<and> sa_requires_outbox a then
          (case outbox_export (ts_outbox ?t) of
             Inl e \<Rightarrow> (?t, Inl e)
           | Inr after \<Rightarrow>
               let v = verify_outbox_side_effect a (length bef) (length after) in
               if \<not> sa_allowed v then (?t, Inl (ToolExecutionError (sa_error_code v)))
               else (?t, Inr (Ran ok content)))
        else (?t, Inr (Ran ok content))) = (ts', r)"
    using assms by (simp add: invoke_handler_def Let_def Inr h)
  show ?thesis
  proof (cases "\<exists>content. res = Inr (True, content) \<and> sa_requires_outbox a")
    case False
    with u show ?thesis by (cases res) (auto split: prod.splits if_splits)
  next
    case True
    then obtain content where res: "res = Inr (True, content)" and ro: "sa_requires_outbox a" by blast
    show ?thesis
    proof (cases "outbox_export ob")
      case (Inl e) with u res ro show ?thesis by auto
    next
      case aft: (Inr aft)
      have "length aft = length ob" by (rule outbox_export_length [OF aft])
      with u res ro aft lb [OF ro] show ?thesis
        by (auto simp: verify_outbox_allowed Let_def split: if_splits)
    qed
  qed
qed

text \<open>The conditions under which a call gets as far as its handler.\<close>

definition side_effect_ok :: "(pyval \<Rightarrow> string) \<Rightarrow> side_effect_mode \<Rightarrow> bound_tool \<Rightarrow> pydict \<Rightarrow> bool" where
  "side_effect_ok rp policy bt arguments =
    (let d = side_effect_declaration_from_tool rp (bt_annotations bt) (bt_runtime bt) in
     policy = Compat \<or> \<not> sd_external d \<or> sd_delivery d = ''outbox'' \<or>
     sd_delivery d = ''idempotent'' \<and> str_or rp [] (dget arguments (sd_idempotency_key_arg d)) \<noteq> [])"

lemma admit_allowed_iff:
  "sa_allowed (admit_tool_side_effect rp (bt_annotations bt) (bt_runtime bt) args policy) \<longleftrightarrow>
     side_effect_ok rp policy bt args"
  by (cases policy) (simp_all add: admit_tool_side_effect_def side_effect_ok_def plain_admission_def Let_def)

lemma admit_requires_outbox_iff:
  "sa_requires_outbox (admit_tool_side_effect rp ann rt args policy) \<longleftrightarrow>
     policy = Strict \<and> sd_external (side_effect_declaration_from_tool rp ann rt) \<and>
     sd_delivery (side_effect_declaration_from_tool rp ann rt) = ''outbox''"
  by (cases policy) (auto simp: admit_tool_side_effect_def plain_admission_def Let_def)

lemma authorize_Inr:
  assumes "authorize_surface_tool bt sf counts allow = Inr a"
  shows "map_of (sf_authorizations sf) (bt_binding_id bt) = Some a" "ta_decision a \<noteq> ''deny''"
    "bt_binding_id bt \<in> set (sf_immediate sf)"
    "\<And>m. ta_max_calls a = Some m \<Longrightarrow> count_of counts (bt_binding_id bt) < m"
  using assms by (auto simp: authorize_surface_tool_def Let_def split: option.splits if_splits)

text \<open>A call either leaves the counts and the trace alone or has passed every gate.\<close>

lemma execute_tool_call_cases:
  assumes "execute_tool_call env c approved ts = (ts', r)"
  obtains (stopped) "ts_counts ts' = ts_counts ts" "ts_invoked ts' = ts_invoked ts"
      "\<And>ok content. r \<noteq> Inr (Ran ok content)"
  | (entered) a gate where
      "authorize_surface_tool (tc_tool c) (ce_surface env) (ts_counts ts) True = Inr a"
      "tc_checks c = Inr ()" "ta_decision a = ''ask'' \<longrightarrow> approved \<noteq> None"
      "\<And>replay. approved = Some replay \<Longrightarrow>
         verify_tool_approval_replay (ce_rp env) (ce_sha env) (tc_tool c) replay = Inr ()"
      "side_effect_ok (ce_rp env) (ce_policy env) (tc_tool c) (tc_arguments c)"
      "ensure_capability_lease (ce_rp env) (ce_revocations env) (ce_broker env) (tc_lease c)
         (ts_gate ts) = (gate, Inr Proceed)"
      "invoke_handler c (admit_tool_side_effect (ce_rp env) (bt_annotations (tc_tool c))
         (bt_runtime (tc_tool c)) (tc_arguments c) (ce_policy env)) (ts\<lparr>ts_gate := gate\<rparr>) = (ts', r)"
proof -
  let ?bt = "tc_tool c"
  let ?ver = "case approved of None \<Rightarrow> Inr ()
    | Some replay \<Rightarrow> verify_tool_approval_replay (ce_rp env) (ce_sha env) ?bt replay"
  obtain gate g where eg: "ensure_capability_lease (ce_rp env) (ce_revocations env) (ce_broker env)
      (tc_lease c) (ts_gate ts) = (gate, g)" by fastforce
  show ?thesis
  proof (cases "authorize_surface_tool ?bt (ce_surface env) (ts_counts ts) True")
    case (Inl e)
    with assms show ?thesis by (intro stopped) (auto simp: execute_tool_call_def Let_def)
  next
    case a: (Inr a)
    show ?thesis
    proof (cases "tc_checks c")
      case (Inl e)
      with assms a show ?thesis by (intro stopped) (auto simp: execute_tool_call_def Let_def)
    next
      case ck: (Inr u)
      show ?thesis
      proof (cases "ta_decision a = ''ask'' \<and> approved = None")
        case True
        with assms a ck show ?thesis
          by (intro stopped) (auto simp: execute_tool_call_def Let_def split: sum.splits)
      next
        case ask: False
        show ?thesis
        proof (cases ?ver)
          case (Inl e)
          with assms a ck ask show ?thesis
            by (intro stopped) (auto simp: execute_tool_call_def Let_def)
        next
          case ver: (Inr u')
          note step = assms [unfolded execute_tool_call_def Let_def a ck eg ver, simplified]
          show ?thesis
          proof (cases "side_effect_ok (ce_rp env) (ce_policy env) ?bt (tc_arguments c)")
            case False
            with step ask show ?thesis
              by (intro stopped) (auto simp: admit_allowed_iff)
          next
            case se: True
            show ?thesis
            proof (cases "g = Inr Proceed")
              case False
              with step ask se show ?thesis
                by (intro stopped) (auto simp: admit_allowed_iff split: sum.splits gate_outcome.splits)
            next
              case True
              with step ask se have "invoke_handler c (admit_tool_side_effect (ce_rp env)
                  (bt_annotations ?bt) (bt_runtime ?bt) (tc_arguments c) (ce_policy env))
                  (ts\<lparr>ts_gate := gate\<rparr>) = (ts', r)" by (auto simp: admit_allowed_iff)
              with a ck ask ver se True eg show ?thesis by (intro entered) auto
            qed
          qed
        qed
      qed
    qed
  qed
qed

lemma verify_replay_iff:
  "verify_tool_approval_replay rp sha bt replay = Inr u \<longleftrightarrow>
     dget_str rp replay ''binding_id'' = bt_binding_id bt \<and>
     dget_str rp replay ''tool_id'' = bt_tool_id bt \<and>
     dget_str rp replay ''approval_key'' = sha (approval_preimage replay)"
  by (simp add: verify_tool_approval_replay_def tool_approval_key_def)

lemma dget_str_PStr: "dget d k = PStr t \<Longrightarrow> dget_str rp d k = t"
  by (simp add: dget_str_def Let_def)

lemma approved_normalized:
  "approved_of (normalize_tool_approval_result rp result task_id dflt) \<longleftrightarrow>
     (let payload = (case result of None \<Rightarrow> [] | Some d \<Rightarrow> d) in
      if dhas ''approved'' payload \<and> dget payload ''approved'' \<noteq> PNone
      then parse_approval_bool (dget payload ''approved'') = Some True
      else parse_approval_bool (PStr (str_or rp [] (dget payload ''answer''))) = Some True)"
  by (simp add: approved_of_def normalize_tool_approval_result_def Let_def dget_def)

lemma build_request_fields:
  assumes "build_tool_approval_task_request rp sha preview bt name cid args reason turn ev = Inr q"
  obtains sanitized where "dget q ''tool_id'' = PStr (bt_tool_id bt)"
    "dget q ''binding_id'' = PStr (bt_binding_id bt)" "dget q ''call_name'' = PStr name"
    "dget q ''call_id'' = PStr cid" "dget q ''arguments'' = PDict sanitized"
    "dget q ''approval_key'' = PStr (sha (approval_preimage q))"
proof -
  from assms obtain v where "jsonish rp 0 (PDict args) = Inr v"
    by (auto simp: build_tool_approval_task_request_def res_bind_eq_Inr)
  with assms show ?thesis
    by (intro that [of "case v of PDict d \<Rightarrow> d | _ \<Rightarrow> []"])
      (auto simp: build_tool_approval_task_request_def Let_def dget_def tool_approval_key_def
        approval_preimage_def)
qed

text \<open>Any number of tool calls under surfaces that give the binding \<open>b\<close> the quota \<open>m\<close>.\<close>

inductive tool_calls :: "string \<Rightarrow> int \<Rightarrow> tool_state \<Rightarrow> tool_state \<Rightarrow> bool" for b m where
  no_call: "tool_calls b m ts ts"
| one_more: "\<lbrakk>tool_calls b m ts ts1;
    \<forall>a. map_of (sf_authorizations (ce_surface env)) b = Some a \<longrightarrow> ta_max_calls a = Some m;
    execute_tool_call env c approved ts1 = (ts2, r)\<rbrakk> \<Longrightarrow> tool_calls b m ts ts2"

section \<open>Properties of the tool gate\<close>

text \<open>C5. A handler runs only for an admitted call. Whenever the execution of a tool call enters the
  handler, the binding is offered by the surface and not denied, its quota is not used up, the argument,
  scope and permission checks passed, a binding that has to be asked for has an approval, the approval
  names this binding and tool and carries the digest of its own content, a strict policy has its
  outbox delivery or its idempotency key, and the capability gate let the call proceed; the call is
  counted. If the handler of an outbox-delivering tool then succeeds under the strict policy, it has
  staged at least one request.\<close>

theorem handler_runs_only_when_admitted:
  assumes "execute_tool_call env c approved ts = (ts', r)"
  shows "(ts_invoked ts' \<noteq> ts_invoked ts \<or> (\<exists>ok content. r = Inr (Ran ok content)) \<longrightarrow>
    (\<exists>a. map_of (sf_authorizations (ce_surface env)) (bt_binding_id (tc_tool c)) = Some a \<and>
       ta_decision a \<noteq> ''deny'' \<and> bt_binding_id (tc_tool c) \<in> set (sf_immediate (ce_surface env)) \<and>
       (\<forall>m. ta_max_calls a = Some m \<longrightarrow> count_of (ts_counts ts) (bt_binding_id (tc_tool c)) < m) \<and>
       (ta_decision a = ''ask'' \<longrightarrow> approved \<noteq> None)) \<and>
    tc_checks c = Inr () \<and>
    (\<forall>replay. approved = Some replay \<longrightarrow>
       dget_str (ce_rp env) replay ''binding_id'' = bt_binding_id (tc_tool c) \<and>
       dget_str (ce_rp env) replay ''tool_id'' = bt_tool_id (tc_tool c) \<and>
       dget_str (ce_rp env) replay ''approval_key'' = ce_sha env (approval_preimage replay)) \<and>
    side_effect_ok (ce_rp env) (ce_policy env) (tc_tool c) (tc_arguments c) \<and>
    snd (ensure_capability_lease (ce_rp env) (ce_revocations env) (ce_broker env) (tc_lease c)
      (ts_gate ts)) = Inr Proceed \<and>
    ts_invoked ts' \<in> {ts_invoked ts, ts_invoked ts @ [bt_binding_id (tc_tool c)]} \<and>
    count_of (ts_counts ts') (bt_binding_id (tc_tool c)) =
      count_of (ts_counts ts) (bt_binding_id (tc_tool c)) + 1) \<and>
   (\<forall>content. r = Inr (Ran True content) \<and> ce_policy env = Strict \<and>
      sd_external (side_effect_declaration_from_tool (ce_rp env) (bt_annotations (tc_tool c))
        (bt_runtime (tc_tool c))) \<and>
      sd_delivery (side_effect_declaration_from_tool (ce_rp env) (bt_annotations (tc_tool c))
        (bt_runtime (tc_tool c))) = ''outbox'' \<longrightarrow>
      length (ts_outbox ts) < length (ts_outbox ts'))"
  using assms
proof (cases rule: execute_tool_call_cases)
  case stopped
  then show ?thesis by blast
next
  case (entered a gate)
  have v: "\<forall>replay. approved = Some replay \<longrightarrow>
      dget_str (ce_rp env) replay ''binding_id'' = bt_binding_id (tc_tool c) \<and>
      dget_str (ce_rp env) replay ''tool_id'' = bt_tool_id (tc_tool c) \<and>
      dget_str (ce_rp env) replay ''approval_key'' = ce_sha env (approval_preimage replay)"
    using entered(4) by (simp add: verify_replay_iff)
  from invoke_handler_effect [OF entered(7)] authorize_Inr [OF entered(1)] entered(2,3,5,6) v
  show ?thesis by (simp add: admit_requires_outbox_iff)
qed

definition demo_tool :: bound_tool where
  "demo_tool = \<lparr>bt_binding_id = ''b'', bt_tool_id = ''mail.send'', bt_model_name = ''mail_send'',
     bt_side_effect = ''external'',
     bt_annotations = [(''external_side_effect'', PBool True), (''side_effect_delivery'', PStr ''idempotent'')],
     bt_runtime = None\<rparr>"

definition demo_env :: call_env where
  "demo_env = \<lparr>ce_rp = (\<lambda>_. []), ce_sha = (\<lambda>d. ''digest''), ce_preview = id,
     ce_revocations = (\<lambda>_. empty_revocations), ce_broker = None,
     ce_surface = \<lparr>sf_immediate = [''b''], sf_authorizations =
       [(''b'', \<lparr>ta_decision = ''allow'', ta_reason = [], ta_max_calls = Some 1\<rparr>)]\<rparr>,
     ce_policy = Strict\<rparr>"

definition demo_gate_call :: gate_call where
  "demo_gate_call = \<lparr>gc_requirement = PNone, gc_capability = [], gc_scope = [], gc_binding_id = ''b'',
     gc_run_id = ''r'', gc_reason = [], gc_request_id = ''q'', gc_now = Fin 0, gc_skew = Fin 0,
     gc_replay = []\<rparr>"

definition demo_call :: tool_call where
  "demo_call = \<lparr>tc_tool = demo_tool, tc_call_name = ''mail_send'', tc_call_id = ''c1'',
     tc_turn_id = ''t1'', tc_event_id = None, tc_arguments = [(''idempotency_key'', PStr ''k1'')],
     tc_checks = Inr (), tc_lease = demo_gate_call, tc_handler = (\<lambda>ob. (ob, Inr (True, PNone)))\<rparr>"

definition demo_state :: tool_state where
  "demo_state = \<lparr>ts_counts = [], ts_outbox = [],
     ts_gate = \<lparr>gs_vault = \<lparr>va_leases = [], va_revocations = 0\<rparr>, gs_events = [], gs_tasks = []\<rparr>,
     ts_tasks = [], ts_invoked = []\<rparr>"

lemma demo_admission:
  "side_effect_declaration_from_tool (\<lambda>_. []) (bt_annotations demo_tool) (bt_runtime demo_tool) =
     \<lparr>sd_external = True, sd_delivery = ''idempotent'', sd_idempotency_key_arg = ''idempotency_key''\<rparr>"
  by (simp add: side_effect_declaration_from_tool_def demo_tool_def bool_setting_def str_setting_def
      str_or_def dget_def str_strip_def strip_by_def is_space_def Let_def)

lemma demo_executes:
  "\<exists>ts'. execute_tool_call demo_env demo_call None demo_state = (ts', Inr (Ran True PNone)) \<and>
     ts_invoked ts' = [''b'']"
proof -
  have key: "str_or (\<lambda>_. []) [] (dget [(''idempotency_key'', PStr ''k1'')] ''idempotency_key'') \<noteq> []"
    by (simp add: str_or_def dget_def str_strip_def strip_by_def is_space_def Let_def)
  have auth: "authorize_surface_tool demo_tool (ce_surface demo_env) [] True =
      Inr \<lparr>ta_decision = ''allow'', ta_reason = [], ta_max_calls = Some 1\<rparr>"
    by (simp add: authorize_surface_tool_def demo_tool_def demo_env_def count_of_def)
  have adm: "admit_tool_side_effect (\<lambda>_. []) (bt_annotations demo_tool) (bt_runtime demo_tool)
      [(''idempotency_key'', PStr ''k1'')] Strict =
      plain_admission (side_effect_declaration_from_tool (\<lambda>_. []) (bt_annotations demo_tool)
        (bt_runtime demo_tool))"
    using key by (simp add: admit_tool_side_effect_def demo_admission)
  have b: "bt_binding_id demo_tool = ''b''" by (simp add: demo_tool_def)
  show ?thesis
    using auth adm b
    by (simp add: execute_tool_call_def demo_call_def demo_env_def demo_state_def demo_gate_call_def
        ensure_capability_lease_def invoke_handler_def outbox_before_def plain_admission_def Let_def)
qed

text \<open>A strict, idempotent mail tool called with its key.\<close>

theorem handler_runs_only_when_admitted_witness:
  "\<exists>ts'. execute_tool_call demo_env demo_call None demo_state = (ts', Inr (Ran True PNone)) \<and>
     side_effect_ok (\<lambda>_. []) Strict demo_tool [(''idempotency_key'', PStr ''k1'')] \<and>
     count_of (ts_counts ts') ''b'' = 1"
proof -
  obtain ts' where e: "execute_tool_call demo_env demo_call None demo_state = (ts', Inr (Ran True PNone))"
    using demo_executes by blast
  have f: "tc_tool demo_call = demo_tool" "bt_binding_id demo_tool = ''b''" "ce_rp demo_env = (\<lambda>_. [])"
    "ce_policy demo_env = Strict" "tc_arguments demo_call = [(''idempotency_key'', PStr ''k1'')]"
    "count_of (ts_counts demo_state) ''b'' = 0"
    by (simp_all add: demo_call_def demo_tool_def demo_env_def demo_state_def count_of_def)
  from handler_runs_only_when_admitted [OF e]
  have "side_effect_ok (ce_rp demo_env) (ce_policy demo_env) (tc_tool demo_call) (tc_arguments demo_call)"
    and "count_of (ts_counts ts') (bt_binding_id (tc_tool demo_call)) =
      count_of (ts_counts demo_state) (bt_binding_id (tc_tool demo_call)) + 1" by blast+
  with e show ?thesis by (simp add: f)
qed

text \<open>C21. A quota bounds the invocations of a binding over a whole run: over any sequence of tool calls
  under surfaces that give the binding the quota \<open>m\<close>, its handler is entered at most \<open>m\<close> times.\<close>

theorem quota_bounds_invocations:
  assumes "tool_calls b m ts ts'" and "0 \<le> m" and "count_of (ts_counts ts) b = 0"
    and "count_list (ts_invoked ts) b = 0"
  shows "int (count_list (ts_invoked ts') b) \<le> m"
proof -
  have "int (count_list (ts_invoked ts') b) \<le> count_of (ts_counts ts') b \<and>
      count_of (ts_counts ts') b \<le> m"
    using assms
  proof (induction rule: tool_calls.induct)
    case (one_more ts ts1 env c approved ts2 r)
    note IH = one_more.IH [OF one_more.prems]
    from one_more.hyps(3) show ?case
    proof (cases rule: execute_tool_call_cases)
      case stopped with IH show ?thesis by simp
    next
      case (entered a gate)
      note eff = invoke_handler_effect [OF entered(7)]
      show ?thesis
      proof (cases "bt_binding_id (tc_tool c) = b")
        case False
        with eff IH show ?thesis by auto
      next
        case True
        have "ta_max_calls a = Some m"
          using authorize_Inr(1) [OF entered(1)] one_more.hyps(2) True by simp
        then have "count_of (ts_counts ts1) b < m"
          using authorize_Inr(4) [OF entered(1)] True by simp
        with eff IH True show ?thesis by auto
      qed
    qed
  qed simp
  then show ?thesis by simp
qed

theorem quota_bounds_invocations_witness:
  "\<exists>ts'. tool_calls ''b'' 1 demo_state ts' \<and> ts_invoked ts' = [''b''] \<and>
     int (count_list (ts_invoked ts') ''b'') \<le> 1"
proof -
  obtain ts' where e: "execute_tool_call demo_env demo_call None demo_state = (ts', Inr (Ran True PNone))"
    and i: "ts_invoked ts' = [''b'']" using demo_executes by blast
  have "\<forall>a. map_of (sf_authorizations (ce_surface demo_env)) ''b'' = Some a \<longrightarrow> ta_max_calls a = Some 1"
    by (simp add: demo_env_def)
  then have t: "tool_calls ''b'' 1 demo_state ts'" by (rule one_more [OF no_call _ e])
  have "count_of (ts_counts demo_state) ''b'' = 0" "count_list (ts_invoked demo_state) ''b'' = 0"
    by (simp_all add: demo_state_def count_of_def)
  from quota_bounds_invocations [OF t _ this] have "int (count_list (ts_invoked ts') ''b'') \<le> 1" by simp
  with t i show ?thesis by blast
qed

text \<open>C29. An approval replays the call it was asked for, and no other. The request recorded for a call
  yields, once approved, a replay with the same call name, call id and arguments that verifies against
  the tool it was made for; and a replay that verifies with the request's key, the digest not
  colliding on the two, names the same tool, binding, call and arguments as the request.\<close>

theorem approval_replays_the_requested_call:
  assumes "build_tool_approval_task_request rp sha preview bt name cid args reason turn ev = Inr q"
  shows "(approved_of (normalize_tool_approval_result rp result task_id []) \<longrightarrow>
      (\<exists>r. approval_replay_from_task rp sha (Some q) result task_id = Inr (Some r) \<and>
         verify_tool_approval_replay rp sha bt r = Inr () \<and> approval_preimage r = approval_preimage q)) \<and>
    (verify_tool_approval_replay rp sha bt' replay = Inr () \<and>
       dget replay ''approval_key'' = dget q ''approval_key'' \<and>
       (sha (approval_preimage replay) = sha (approval_preimage q) \<longrightarrow>
          approval_preimage replay = approval_preimage q) \<longrightarrow>
     dget replay ''arguments'' = dget q ''arguments'' \<and> dget replay ''call_name'' = PStr name \<and>
     dget replay ''call_id'' = PStr cid \<and> bt_binding_id bt' = bt_binding_id bt \<and>
     bt_tool_id bt' = bt_tool_id bt)"
proof -
  obtain sanitized where q: "dget q ''tool_id'' = PStr (bt_tool_id bt)"
    "dget q ''binding_id'' = PStr (bt_binding_id bt)" "dget q ''call_name'' = PStr name"
    "dget q ''call_id'' = PStr cid" "dget q ''arguments'' = PDict sanitized"
    "dget q ''approval_key'' = PStr (sha (approval_preimage q))"
    by (rule build_request_fields [OF assms])
  let ?r = "[(''call_name'', PStr name), (''call_id'', PStr cid), (''arguments'', PDict sanitized),
    (''binding_id'', PStr (bt_binding_id bt)), (''tool_id'', PStr (bt_tool_id bt)),
    (''task_id'', PStr task_id), (''approval_key'', PStr (sha (approval_preimage q)))]"
  have args: "dict_or_empty q ''arguments'' = Inr sanitized"
    by (simp add: dict_or_empty_def q Let_def)
  have pre: "approval_preimage ?r = approval_preimage q"
    unfolding approval_preimage_def q by (simp add: dget_def)
  have rep: "approval_replay_from_task rp sha (Some q) result task_id = Inr (Some ?r)"
    if "approved_of (normalize_tool_approval_result rp result task_id [])"
    using that q args by (auto simp: approval_replay_from_task_def dget_str_PStr tool_approval_key_def)
  have ver: "verify_tool_approval_replay rp sha bt ?r = Inr ()"
    unfolding verify_replay_iff pre by (simp add: dget_str_def dget_def)
  have bind: "dget replay ''arguments'' = dget q ''arguments'' \<and> dget replay ''call_name'' = PStr name \<and>
      dget replay ''call_id'' = PStr cid \<and> bt_binding_id bt' = bt_binding_id bt \<and>
      bt_tool_id bt' = bt_tool_id bt"
    if v: "verify_tool_approval_replay rp sha bt' replay = Inr ()"
      and k: "dget replay ''approval_key'' = dget q ''approval_key''"
      and nc: "sha (approval_preimage replay) = sha (approval_preimage q) \<longrightarrow>
          approval_preimage replay = approval_preimage q"
  proof -
    from v [unfolded verify_replay_iff] k q(6) have "sha (approval_preimage replay) = sha (approval_preimage q)"
      by (simp add: dget_str_PStr)
    with nc have "approval_preimage replay = approval_preimage q" by blast
    then have e: "dget replay ''tool_id'' = dget q ''tool_id''" "dget replay ''binding_id'' = dget q ''binding_id''"
      "dget replay ''call_name'' = dget q ''call_name''" "dget replay ''call_id'' = dget q ''call_id''"
      "dget replay ''arguments'' = dget q ''arguments''"
      by (simp_all add: approval_preimage_def)
    with v [unfolded verify_replay_iff] q show ?thesis by (simp add: dget_str_PStr)
  qed
  show ?thesis using rep ver pre bind by blast
qed

text \<open>The mail call is asked for, approved and replayed.\<close>

theorem approval_replays_the_requested_call_witness:
  "\<exists>q r. build_tool_approval_task_request (\<lambda>_. []) (\<lambda>d. ''digest'') id demo_tool ''mail_send'' ''c1''
       [(''to'', PStr ''a'')] ''reason'' ''t1'' None = Inr q \<and>
     approval_replay_from_task (\<lambda>_. []) (\<lambda>d. ''digest'') (Some q) (Some [(''approved'', PBool True)])
       ''task'' = Inr (Some r) \<and>
     verify_tool_approval_replay (\<lambda>_. []) (\<lambda>d. ''digest'') demo_tool r = Inr ()"
proof -
  have "jsonish (\<lambda>_. []) 0 (PDict [(''to'', PStr ''a'')]) = Inr (PDict [(''to'', PStr ''a'')])"
    by (simp add: jsonish.simps MAX_ARGUMENT_DEPTH_def MAX_PORTABLE_CONTAINER_DEPTH_def)
  then obtain q where q: "build_tool_approval_task_request (\<lambda>_. []) (\<lambda>d. ''digest'') id demo_tool
      ''mail_send'' ''c1'' [(''to'', PStr ''a'')] ''reason'' ''t1'' None = Inr q"
    by (simp add: build_tool_approval_task_request_def Let_def)
  have "approved_of (normalize_tool_approval_result (\<lambda>_. []) (Some [(''approved'', PBool True)]) ''task'' [])"
    by (simp add: approved_normalized dget_def)
  with approval_replays_the_requested_call [OF q, of "Some [(''approved'', PBool True)]" "''task''"] q
  show ?thesis by blast
qed

text \<open>An explicit approval: a present \<open>approved\<close> field decides, and only a recognised yes approves;
  without it the answer decides in the same way.\<close>

definition explicit_approval :: "(pyval \<Rightarrow> string) \<Rightarrow> pydict \<Rightarrow> bool" where
  "explicit_approval rp payload =
    (case dget payload ''approved'' of
       PNone \<Rightarrow> str_lower (str_strip (str_or rp [] (dget payload ''answer''))) \<in> set APPROVE_VALUES
     | PBool b \<Rightarrow> b
     | PStr s \<Rightarrow> str_lower (str_strip s) \<in> set APPROVE_VALUES
     | _ \<Rightarrow> False)"

lemma approve_deny_disjoint: "set APPROVE_VALUES \<inter> set DENY_VALUES = {}"
  by (simp add: APPROVE_VALUES_def DENY_VALUES_def)

lemma parse_str_True: "parse_approval_bool (PStr s) = Some True \<longleftrightarrow> str_lower (str_strip s) \<in> set APPROVE_VALUES"
  by (simp add: Let_def)

lemma approved_iff_explicit:
  "approved_of (normalize_tool_approval_result rp result task_id dflt) \<longleftrightarrow>
     explicit_approval rp (case result of None \<Rightarrow> [] | Some d \<Rightarrow> d)"
proof -
  define payload where "payload = (case result of None \<Rightarrow> [] | Some d \<Rightarrow> d)"
  have "dget payload ''approved'' \<noteq> PNone \<Longrightarrow> dhas ''approved'' payload"
    by (auto simp: dget_def dhas_def split: option.splits simp del: dhas_iff)
  then show ?thesis
    unfolding approved_normalized explicit_approval_def payload_def [symmetric] Let_def
    by (cases "dget payload ''approved''") (simp_all add: parse_str_True del: parse_approval_bool.simps(2) dhas_iff)
qed

lemma no_result_denies: "\<not> explicit_approval rp []"
  by (simp add: explicit_approval_def dget_def str_or_def str_strip_def strip_by_def APPROVE_VALUES_def
      str_lower_def)

lemma denied_observation_fields:
  "dget (denied_tool_approval_observation rp request result task_id reason) ''approved'' = PBool False"
  "dget (denied_tool_approval_observation rp request result task_id reason) ''status'' = PStr ''denied''"
  by (simp_all add: denied_tool_approval_observation_def Let_def dget_update)

lemma replay_fields:
  assumes "approval_replay_from_task rp sha (Some q) result task_id = Inr rep"
    and "approved_of (normalize_tool_approval_result rp result task_id [])"
  obtains r where "rep = Some r" "dget r ''call_name'' = PStr (dget_str rp q ''call_name'')"
    "dget r ''call_id'' = PStr (dget_str rp q ''call_id'')"
proof -
  from assms obtain arguments where "rep = Some [(''call_name'', PStr (dget_str rp q ''call_name'')),
            (''call_id'', PStr (dget_str rp q ''call_id'')), (''arguments'', PDict arguments),
            (''binding_id'', PStr (dget_str rp q ''binding_id'')),
            (''tool_id'', PStr (dget_str rp q ''tool_id'')), (''task_id'', PStr task_id),
            (''approval_key'', PStr (if py_truthy (dget q ''approval_key'')
                then str_of rp (dget q ''approval_key'') else tool_approval_key sha q))]"
    by (simp only: approval_replay_from_task_def option.case if_True not_True_eq_False if_False
        res_bind_eq_Inr) auto
  then show ?thesis by (rule that) (simp_all add: dget_def)
qed

text \<open>C30. Approval fails closed. A resolved approval task queues at most one replay, and only when the task
  was answered and its result is an explicit approval; in every other case (no task, another end of
  the task, a denial, an unrecognised value) the queue is unchanged and the observation the model sees
  is a denial. A queued replay carries the call name and id of the task's request.\<close>

theorem approval_fails_closed:
  assumes "handle_tool_approval_result rp sha task output replays = Inr (replays', out)"
  shows "replays' = replays \<and> dget out ''approved'' = PBool False \<and> dget out ''status'' = PStr ''denied'' \<or>
    (\<exists>t d. task = Some t \<and> at_result t = Some d \<and> explicit_approval rp d \<and>
       (if at_status t \<noteq> [] then at_status t else dget_str rp output ''status'') = ''answered'' \<and>
       (case at_request t of
          None \<Rightarrow> replays' = replays
        | Some q \<Rightarrow> \<exists>r. replays' = replays @ [r] \<and>
            dget r ''call_name'' = PStr (dget_str rp q ''call_name'') \<and>
            dget r ''call_id'' = PStr (dget_str rp q ''call_id'')))"
proof -
  define req where "req = (case task of None \<Rightarrow> None | Some t \<Rightarrow> at_request t)"
  define res where "res = (case task of None \<Rightarrow> None | Some t \<Rightarrow> at_result t)"
  define tid where "tid = dget_str rp output ''task_id''"
  define st where "st = (let own = (case task of None \<Rightarrow> [] | Some t \<Rightarrow> at_status t)
    in if own \<noteq> [] then own else dget_str rp output ''status'')"
  define n where "n = normalize_tool_approval_result rp res tid []"
  define n' where "n' = (if approved_of n \<and> st \<noteq> ''answered''
      then AList.update ''reason'' (PStr (''tool approval task ended with status '' @
               (if st \<noteq> [] then st else ''unknown'')))
             (AList.update ''answer'' (PStr ''Deny'') (AList.update ''approved'' (PBool False) n)) else n)"
  have h: "(if approved_of n' then res_bind (approval_replay_from_task rp sha req res tid) (\<lambda>replay.
          Inr ((case replay of None \<Rightarrow> replays | Some r \<Rightarrow> replays @ [r]),
               n' @ [(''status'', PStr ''approved''),
                 (''message'', PStr (''Tool approval task '' @ tid @ '' was approved.''))]))
        else Inr (replays, denied_tool_approval_observation rp req res tid
               (Some (dget_str rp n' ''reason'')))) = Inr (replays', out)"
    using assms unfolding handle_tool_approval_result_def Let_def n'_def n_def st_def req_def res_def tid_def
    by simp
  show ?thesis
  proof (cases "approved_of n'")
    case False
    with h show ?thesis by (auto simp: denied_observation_fields)
  next
    case True
    have an: "approved_of n \<and> st = ''answered''"
      using True unfolding n'_def by (auto simp: approved_of_def dget_update split: if_splits)
    then have ex: "explicit_approval rp (case res of None \<Rightarrow> [] | Some d \<Rightarrow> d)"
      by (simp add: n_def approved_iff_explicit)
    with no_result_denies obtain d where d: "res = Some d" by (cases res) auto
    then obtain t where t: "task = Some t" "at_result t = Some d" by (auto simp: res_def split: option.splits)
    have "case at_request t of None \<Rightarrow> replays' = replays
        | Some q \<Rightarrow> \<exists>r. replays' = replays @ [r] \<and>
            dget r ''call_name'' = PStr (dget_str rp q ''call_name'') \<and>
            dget r ''call_id'' = PStr (dget_str rp q ''call_id'')"
    proof (cases "at_request t")
      case None
      then have "approval_replay_from_task rp sha req res tid = Inr None"
        using t by (simp add: req_def approval_replay_from_task_def)
      with h True None show ?thesis by simp
    next
      case (Some q)
      then have req: "req = Some q" using t by (simp add: req_def)
      from h True obtain rep where rep: "approval_replay_from_task rp sha req res tid = Inr rep"
        and r': "replays' = (case rep of None \<Rightarrow> replays | Some r \<Rightarrow> replays @ [r])"
        by (auto simp: res_bind_eq_Inr)
      obtain r where "rep = Some r" "dget r ''call_name'' = PStr (dget_str rp q ''call_name'')"
          "dget r ''call_id'' = PStr (dget_str rp q ''call_id'')"
        using replay_fields [OF rep [unfolded req]] an by (auto simp: n_def)
      with r' Some show ?thesis by auto
    qed
    with t ex d an show ?thesis by (auto simp: st_def Let_def)
  qed
qed

theorem approval_fails_closed_witness:
  "\<exists>replays' out. handle_tool_approval_result (\<lambda>_. []) (\<lambda>d. ''digest'')
       (Some \<lparr>at_request = Some [(''call_name'', PStr ''mail_send'')],
          at_result = Some [(''approved'', PStr ''maybe''), (''answer'', PStr ''yes'')], at_status = ''answered''\<rparr>)
       [(''task_id'', PStr ''t'')] [] = Inr (replays', out) \<and> replays' = []"
proof -
  have ne: "\<not> explicit_approval (\<lambda>_. []) [(''approved'', PStr ''maybe''), (''answer'', PStr ''yes'')]"
    by (simp add: explicit_approval_def dget_def APPROVE_VALUES_def str_lower_def lower_char_def
        str_strip_def strip_by_def is_space_def Let_def)
  let ?t = "\<lparr>at_request = Some [(''call_name'', PStr ''mail_send'')],
     at_result = Some [(''approved'', PStr ''maybe''), (''answer'', PStr ''yes'')], at_status = ''answered''\<rparr>"
  have "\<not> approved_of (normalize_tool_approval_result (\<lambda>_. []) (at_result ?t) i [])" for i
    using ne by (simp add: approved_iff_explicit)
  then obtain replays' out where h: "handle_tool_approval_result (\<lambda>_. []) (\<lambda>d. ''digest'') (Some ?t)
      [(''task_id'', PStr ''t'')] [] = Inr (replays', out)"
    by (simp add: handle_tool_approval_result_def Let_def)
  from approval_fails_closed [OF h] ne have "replays' = []" by auto
  with h show ?thesis by blast
qed

end
