(* ===== verification/Termination_Budget.thy ===== *)
theory Termination_Budget
  imports Py_Values
begin

text \<open>
  The observations of who is still waiting when a run ends (\<open>core/termination_budget.py\<close>): the registry
  of the model calls a runner owns, with the deadline, the drain budget and the grace windows of each,
  and the snapshot that reports what remains of them.

  A call budget is known by its \<open>call_id\<close>, a fresh identifier per call; \<open>_active()\<close> is membership of
  that identifier. A grace window is known by its key, the object the context manager creates; the
  \<open>started\<close> flag of the closure is kept in the registry's set of started keys. The clock is an argument.
\<close>

section \<open>State\<close>

datatype call_phase = Preparing | Waiting | Streaming | Draining | Backoff | Closing | Settling

datatype grace_source = WaitCancel | StreamClose | DrainDetach

record grace_window =
  gw_source :: grace_source
  gw_budget :: "pyfloat option"
  gw_cutoff :: "pyfloat option"

record call_budget =
  cb_deadline :: "pyfloat option"
  cb_logical_call_id :: "string option"
  cb_phase :: call_phase
  cb_attempt_index :: "int option"
  cb_drain_budget :: "pyfloat option"
  cb_drain_cutoff :: "pyfloat option"
  cb_drain_owner_open :: bool
  cb_windows :: "(nat \<times> grace_window) list"

record budget_registry =
  rg_calls :: "(string \<times> call_budget) list"
  rg_started :: "nat set"

definition empty_registry :: budget_registry where
  "empty_registry = \<lparr>rg_calls = [], rg_started = {}\<rparr>"

section \<open>Observations\<close>

definition remaining :: "pyfloat option \<Rightarrow> pyfloat \<Rightarrow> pyfloat option \<Rightarrow> pyfloat option" where
  "remaining cutoff now bound = (case cutoff of
      None \<Rightarrow> None
    | Some c \<Rightarrow>
        let v = flt_max (Fin 0) (flt_sub c now);
            v = (case bound of None \<Rightarrow> v | Some b \<Rightarrow> flt_min v b)
        in if is_finite_float v then Some v else None)"

text \<open>\<open>_observed_grace\<close>: only exact \<open>bool\<close>, \<open>int\<close> and \<open>float\<close> values are read.\<close>

definition observed_grace :: "pyval \<Rightarrow> bool \<times> pyfloat option" where
  "observed_grace v =
    (case (case v of
        PBool b \<Rightarrow> Some (float_of_int (if b then 1 else 0))
      | PInt n \<Rightarrow> Some (float_of_int n)
      | PFloat f \<Rightarrow> Some (Inr f)
      | _ \<Rightarrow> None) of
       Some (Inr f) \<Rightarrow> (let e = flt_max (Fin 0) f in (True, if is_finite_float e then Some e else None))
     | _ \<Rightarrow> (False, None))"

section \<open>Operations\<close>

text \<open>An operation on a call works on the registered budget and does nothing once it is retired.\<close>

definition on_call :: "string \<Rightarrow> (call_budget \<Rightarrow> call_budget) \<Rightarrow> budget_registry \<Rightarrow> budget_registry" where
  "on_call i f r = (case map_of (rg_calls r) i of
      None \<Rightarrow> r
    | Some c \<Rightarrow> r\<lparr>rg_calls := AList.update i (f c) (rg_calls r)\<rparr>)"

definition registry_open ::
    "string \<Rightarrow> pyfloat option \<Rightarrow> pyval \<Rightarrow> budget_registry \<Rightarrow> budget_registry" where
  "registry_open i deadline logical_call_id r = r\<lparr>rg_calls := AList.update i
     \<lparr>cb_deadline = deadline,
      cb_logical_call_id = (case logical_call_id of PStr s \<Rightarrow> if s \<noteq> [] then Some s else None | _ \<Rightarrow> None),
      cb_phase = Preparing, cb_attempt_index = None, cb_drain_budget = None, cb_drain_cutoff = None,
      cb_drain_owner_open = False, cb_windows = []\<rparr> (rg_calls r)\<rparr>"

definition retire :: "string \<Rightarrow> budget_registry \<Rightarrow> budget_registry" where
  "retire i r = r\<lparr>rg_calls := AList.delete i (rg_calls r)\<rparr>"

definition set_phase :: "call_phase \<Rightarrow> call_budget \<Rightarrow> call_budget" where
  "set_phase phase c = (let c = c\<lparr>cb_phase := phase\<rparr> in
     if phase = Preparing
     then c\<lparr>cb_drain_budget := None, cb_drain_cutoff := None, cb_drain_owner_open := False\<rparr> else c)"

definition set_attempt :: "int \<Rightarrow> call_budget \<Rightarrow> call_budget" where
  "set_attempt index c = c\<lparr>cb_attempt_index := Some index\<rparr>"

definition set_stream_budget :: "pyfloat \<Rightarrow> call_budget \<Rightarrow> call_budget" where
  "set_stream_budget budget_s c =
     c\<lparr>cb_drain_budget := Some budget_s, cb_drain_owner_open := flt_lt (Fin 0) budget_s\<rparr>"

definition begin_drain :: "pyfloat \<Rightarrow> pyfloat \<Rightarrow> call_budget \<Rightarrow> call_budget" where
  "begin_drain abort_at budget_s c =
    (if cb_drain_owner_open c \<and> cb_drain_cutoff c = None then
       (let cutoff = flt_add abort_at budget_s;
            c = c\<lparr>cb_drain_budget := Some budget_s,
                 cb_drain_cutoff := Some (case cb_deadline c of
                     Some d \<Rightarrow> flt_min cutoff d | None \<Rightarrow> cutoff)\<rparr>
        in if cb_phase c \<notin> {Closing, Settling} then c\<lparr>cb_phase := Draining\<rparr> else c)
     else c)"

definition end_drain :: "call_budget \<Rightarrow> call_budget" where
  "end_drain c = c\<lparr>cb_drain_cutoff := None, cb_drain_owner_open := False\<rparr>"

text \<open>The three sections of the \<open>grace\<close> context manager.\<close>

definition grace_reserve :: "nat \<Rightarrow> grace_source \<Rightarrow> pyval \<Rightarrow> call_budget \<Rightarrow> call_budget" where
  "grace_reserve k source v c = (case observed_grace v of (observed, budget) \<Rightarrow>
     if observed then c\<lparr>cb_windows := AList.update k
       \<lparr>gw_source = source, gw_budget = budget, gw_cutoff = None\<rparr> (cb_windows c)\<rparr> else c)"

definition grace_start ::
    "string \<Rightarrow> nat \<Rightarrow> grace_source \<Rightarrow> pyval \<Rightarrow> pyfloat \<Rightarrow> budget_registry \<Rightarrow> budget_registry" where
  "grace_start i k source actual now r = (case observed_grace actual of (observed, budget) \<Rightarrow>
     if k \<in> rg_started r \<or> map_of (rg_calls r) i = None then r
     else (let r = r\<lparr>rg_started := insert k (rg_started r)\<rparr> in
       if observed
       then on_call i (\<lambda>c. c\<lparr>cb_windows := AList.update k
              \<lparr>gw_source = source, gw_budget = budget,
               gw_cutoff = (case budget of None \<Rightarrow> None | Some b \<Rightarrow> Some (flt_add now b))\<rparr>
              (cb_windows c)\<rparr>) r
       else on_call i (\<lambda>c. c\<lparr>cb_windows := AList.delete k (cb_windows c)\<rparr>) r))"

definition grace_finish :: "nat \<Rightarrow> call_budget \<Rightarrow> call_budget" where
  "grace_finish k c = c\<lparr>cb_windows := AList.delete k (cb_windows c)\<rparr>"

section \<open>Snapshots\<close>

record grace_observation =
  go_source :: grace_source
  go_budget_s :: "pyfloat option"
  go_remaining_s :: "pyfloat option"

record call_observation =
  co_call_id :: string
  co_phase :: call_phase
  co_logical_call_id :: "string option"
  co_attempt_index :: "int option"
  co_deadline_remaining_s :: "pyfloat option"
  co_drain_budget_s :: "pyfloat option"
  co_drain_remaining_s :: "pyfloat option"
  co_grace_windows :: "grace_observation list"

record budget_snapshot =
  bs_observed_at :: pyfloat
  bs_run_deadline_remaining_s :: "pyfloat option"
  bs_calls :: "call_observation list"

definition observe_window :: "pyfloat \<Rightarrow> grace_window \<Rightarrow> grace_observation" where
  "observe_window now w = \<lparr>go_source = gw_source w, go_budget_s = gw_budget w,
     go_remaining_s = remaining (gw_cutoff w) now (gw_budget w)\<rparr>"

definition observe_call :: "pyfloat \<Rightarrow> string \<times> call_budget \<Rightarrow> call_observation" where
  "observe_call now p = (let c = snd p in
     \<lparr>co_call_id = fst p, co_phase = cb_phase c, co_logical_call_id = cb_logical_call_id c,
      co_attempt_index = cb_attempt_index c,
      co_deadline_remaining_s = remaining (cb_deadline c) now None,
      co_drain_budget_s = cb_drain_budget c,
      co_drain_remaining_s = remaining (cb_drain_cutoff c) now (cb_drain_budget c),
      co_grace_windows = map (\<lambda>q. observe_window now (snd q)) (cb_windows c)\<rparr>)"

definition registry_snapshot :: "pyfloat \<Rightarrow> pyfloat option \<Rightarrow> budget_registry \<Rightarrow> budget_snapshot" where
  "registry_snapshot now run_deadline r = \<lparr>bs_observed_at = now,
     bs_run_deadline_remaining_s = remaining run_deadline now None,
     bs_calls = map (observe_call now) (rg_calls r)\<rparr>"

section \<open>Histories\<close>

datatype budget_op =
    Open string "pyfloat option" pyval
  | Retire string
  | SetPhase string call_phase
  | SetAttempt string int
  | SetStreamBudget string pyfloat
  | BeginDrain string pyfloat pyfloat
  | EndDrain string
  | GraceReserve string nat grace_source pyval
  | GraceStart string nat grace_source pyval pyfloat
  | GraceFinish string nat

fun apply_op :: "budget_op \<Rightarrow> budget_registry \<Rightarrow> budget_registry" where
  "apply_op (Open i d l) r = registry_open i d l r"
| "apply_op (Retire i) r = retire i r"
| "apply_op (SetPhase i p) r = on_call i (set_phase p) r"
| "apply_op (SetAttempt i n) r = on_call i (set_attempt n) r"
| "apply_op (SetStreamBudget i b) r = on_call i (set_stream_budget b) r"
| "apply_op (BeginDrain i a b) r = on_call i (begin_drain a b) r"
| "apply_op (EndDrain i) r = on_call i end_drain r"
| "apply_op (GraceReserve i k s v) r = on_call i (grace_reserve k s v) r"
| "apply_op (GraceStart i k s v n) r = grace_start i k s v n r"
| "apply_op (GraceFinish i k) r = on_call i (grace_finish k) r"

text \<open>Drain budgets are durations: not negative and not NaN.\<close>

fun op_ok :: "budget_op \<Rightarrow> bool" where
  "op_ok (SetStreamBudget i b) = flt_le (Fin 0) b"
| "op_ok (BeginDrain i a b) = flt_le (Fin 0) b"
| "op_ok _ = True"

section \<open>Lemmas\<close>

lemma remaining_nonneg: "remaining cutoff now None = Some v \<Longrightarrow> is_finite_float v \<and> flt_le (Fin 0) v"
  by (auto simp: remaining_def Let_def flt_max_ge1 split: option.splits if_splits)

lemma remaining_bounded:
  assumes "remaining cutoff now (Some b) = Some v" "flt_le (Fin 0) b"
  shows "is_finite_float v \<and> flt_le (Fin 0) v \<and> flt_le v b"
proof -
  from assms obtain c where v: "v = flt_min (flt_max (Fin 0) (flt_sub c now)) b" and f: "is_finite_float v"
    by (auto simp: remaining_def Let_def split: option.splits if_splits)
  have m: "flt_max (Fin 0) (flt_sub c now) \<noteq> NaN" by (simp add: flt_max_not_NaN)
  have b: "b \<noteq> NaN" using assms(2) by auto
  have "flt_le v b" unfolding v by (rule flt_min_le2 [OF b m])
  moreover have "flt_le (Fin 0) v"
    unfolding v flt_min_def using assms(2) flt_max_ge1 [of "Fin 0" "flt_sub c now"] by simp
  ultimately show ?thesis using f by simp
qed

text \<open>What every registered call satisfies.\<close>

definition window_ok :: "grace_window \<Rightarrow> bool" where
  "window_ok w \<longleftrightarrow> (\<forall>b. gw_budget w = Some b \<longrightarrow> flt_le (Fin 0) b) \<and>
     (gw_budget w = None \<longrightarrow> gw_cutoff w = None)"

definition call_ok :: "call_budget \<Rightarrow> bool" where
  "call_ok c \<longleftrightarrow> (\<forall>b. cb_drain_budget c = Some b \<longrightarrow> flt_le (Fin 0) b) \<and>
     (cb_drain_budget c = None \<longrightarrow> cb_drain_cutoff c = None) \<and>
     (\<forall>p \<in> set (cb_windows c). window_ok (snd p))"

definition registry_ok :: "budget_registry \<Rightarrow> bool" where
  "registry_ok r \<longleftrightarrow> distinct (map fst (rg_calls r)) \<and> (\<forall>p \<in> set (rg_calls r). call_ok (snd p))"

lemma set_alist_update: "p \<in> set (AList.update k v al) \<Longrightarrow> p = (k, v) \<or> p \<in> set al"
  by (induction al) (auto split: if_splits)

lemma set_alist_delete: "p \<in> set (AList.delete k al) \<Longrightarrow> p \<in> set al"
  by (induction al) (auto split: if_splits)

lemma observed_grace_ok: "observed_grace v = (ob, Some b) \<Longrightarrow> flt_le (Fin 0) b"
  by (auto simp: observed_grace_def Let_def flt_max_ge1 split: pyval.splits sum.splits option.splits if_splits)

lemma on_call_ok:
  assumes "registry_ok r" "\<And>c. call_ok c \<Longrightarrow> call_ok (f c)"
  shows "registry_ok (on_call i f r)"
proof (cases "map_of (rg_calls r) i")
  case (Some c)
  have "call_ok (f c)" using assms Some by (auto simp: registry_ok_def dest: map_of_SomeD)
  with assms(1) Some show ?thesis
    by (auto simp: registry_ok_def on_call_def distinct_update dest!: set_alist_update)
qed (simp add: on_call_def assms)

lemma grace_start_ok:
  assumes "registry_ok r" shows "registry_ok (grace_start i k s v n r)"
proof -
  obtain ob b where g: "observed_grace v = (ob, b)" by (cases "observed_grace v")
  have "window_ok \<lparr>gw_source = s, gw_budget = b,
      gw_cutoff = (case b of None \<Rightarrow> None | Some x \<Rightarrow> Some (flt_add n x))\<rparr>"
    using observed_grace_ok g by (auto simp: window_ok_def split: option.splits)
  then show ?thesis using assms
    by (auto simp: grace_start_def g Let_def registry_ok_def [of "r\<lparr>rg_started := X\<rparr>" for X]
        registry_ok_def [of r] intro!: on_call_ok
        simp: call_ok_def dest!: set_alist_update set_alist_delete)
qed

lemma apply_op_ok:
  assumes "registry_ok r" "op_ok x" shows "registry_ok (apply_op x r)"
proof (cases x)
  case (Open i d l)
  with assms show ?thesis
    by (auto simp: registry_open_def registry_ok_def distinct_update call_ok_def
        dest!: set_alist_update)
next
  case (Retire i)
  with assms show ?thesis
    by (auto simp: retire_def registry_ok_def distinct_delete dest!: set_alist_delete)
next
  case (SetPhase i p)
  with assms show ?thesis by (auto simp: set_phase_def call_ok_def Let_def intro!: on_call_ok)
next
  case (SetAttempt i n)
  with assms show ?thesis by (auto simp: set_attempt_def call_ok_def intro!: on_call_ok)
next
  case (SetStreamBudget i b)
  with assms show ?thesis by (auto simp: set_stream_budget_def call_ok_def intro!: on_call_ok)
next
  case (BeginDrain i a b)
  with assms show ?thesis by (auto simp: begin_drain_def call_ok_def Let_def intro!: on_call_ok)
next
  case (EndDrain i)
  with assms show ?thesis by (auto simp: end_drain_def call_ok_def intro!: on_call_ok)
next
  case (GraceReserve i k s v)
  obtain ob b where g: "observed_grace v = (ob, b)" by (cases "observed_grace v")
  have "window_ok \<lparr>gw_source = s, gw_budget = b, gw_cutoff = None\<rparr>"
    using observed_grace_ok g by (auto simp: window_ok_def)
  with assms GraceReserve show ?thesis
    by (auto simp: grace_reserve_def g call_ok_def intro!: on_call_ok dest!: set_alist_update)
next
  case (GraceStart i k s v n)
  with assms grace_start_ok show ?thesis by simp
next
  case (GraceFinish i k)
  with assms show ?thesis
    by (auto simp: grace_finish_def call_ok_def intro!: on_call_ok dest!: set_alist_delete)
qed

lemma empty_registry_ok: "registry_ok empty_registry"
  by (simp add: registry_ok_def empty_registry_def)

lemma history_ok: "registry_ok r \<Longrightarrow> list_all op_ok ops \<Longrightarrow> registry_ok (fold apply_op ops r)"
  by (induction ops arbitrary: r) (auto simp: apply_op_ok)

lemma distinct_op: "distinct (map fst (rg_calls r)) \<Longrightarrow> distinct (map fst (rg_calls (apply_op x r)))"
proof -
  assume d: "distinct (map fst (rg_calls r))"
  have "distinct (map fst (rg_calls (on_call i f q)))" if "rg_calls q = rg_calls r" for i f q
    using d that by (simp add: on_call_def distinct_update split: option.split)
  with d show ?thesis
    by (cases x) (simp_all add: registry_open_def retire_def distinct_update distinct_delete
        grace_start_def Let_def split: prod.split)
qed

lemma distinct_history:
  "distinct (map fst (rg_calls r)) \<Longrightarrow> distinct (map fst (rg_calls (fold apply_op ops r)))"
  by (induction ops arbitrary: r) (auto simp: distinct_op simp del: apply_op.simps)

text \<open>Which calls a history leaves open.\<close>

fun open_after :: "budget_op list \<Rightarrow> string set \<Rightarrow> string set" where
  "open_after [] S = S"
| "open_after (Open i _ _ # ops) S = open_after ops (insert i S)"
| "open_after (Retire i # ops) S = open_after ops (S - {i})"
| "open_after (_ # ops) S = open_after ops S"

abbreviation open_calls :: "budget_registry \<Rightarrow> string set" where
  "open_calls r \<equiv> fst ` set (rg_calls r)"

lemma open_on_call [simp]: "open_calls (on_call i f r) = open_calls r"
proof (cases "map_of (rg_calls r) i")
  case (Some c)
  then have "i \<in> open_calls r" by (force dest: map_of_SomeD)
  with Some show ?thesis by (auto simp: on_call_def dom_update)
qed (simp add: on_call_def)

lemma open_grace_start [simp]: "open_calls (grace_start i k s v n r) = open_calls r"
proof -
  have "open_calls (r\<lparr>rg_started := X\<rparr>) = open_calls r" for X by simp
  then show ?thesis by (simp add: grace_start_def Let_def split: prod.split)
qed

lemma keys_delete: "fst ` set (AList.delete k al) = fst ` set al - {k}"
  by (induction al) auto

lemma open_apply_op:
  "open_calls (apply_op x r) = (case x of Open i _ _ \<Rightarrow> insert i (open_calls r)
     | Retire i \<Rightarrow> open_calls r - {i} | _ \<Rightarrow> open_calls r)"
  by (cases x) (auto simp: registry_open_def retire_def dom_update keys_delete)

lemma open_history: "open_calls (fold apply_op ops r) = open_after ops (open_calls r)"
proof (induction ops arbitrary: r)
  case (Cons x ops)
  then show ?case by (cases x) (simp_all add: open_apply_op del: apply_op.simps)
qed simp

text \<open>A drain that has ended does not begin again by itself.\<close>

fun reopens_drain :: "string \<Rightarrow> budget_op \<Rightarrow> bool" where
  "reopens_drain i (SetStreamBudget j _) = (i = j)"
| "reopens_drain i (Open j _ _) = (i = j)"
| "reopens_drain i _ = False"

definition drain_idle :: "string \<Rightarrow> budget_registry \<Rightarrow> bool" where
  "drain_idle i r \<longleftrightarrow> (\<forall>c. map_of (rg_calls r) i = Some c \<longrightarrow>
     cb_drain_cutoff c = None \<and> \<not> cb_drain_owner_open c)"

lemma map_of_on_call:
  "map_of (rg_calls (on_call j f r)) i =
     (if i = j then map_option f (map_of (rg_calls r) i) else map_of (rg_calls r) i)"
  by (auto simp: on_call_def update_conv' split: option.splits)

lemma drain_idle_on_call:
  assumes "drain_idle i r"
    and "\<And>c. cb_drain_cutoff c = None \<Longrightarrow> \<not> cb_drain_owner_open c \<Longrightarrow>
      cb_drain_cutoff (f c) = None \<and> \<not> cb_drain_owner_open (f c)"
  shows "drain_idle i (on_call j f r)"
  using assms by (auto simp: drain_idle_def map_of_on_call split: if_splits)

lemma drain_idle_step:
  assumes "drain_idle i r" "\<not> reopens_drain i x" shows "drain_idle i (apply_op x r)"
proof (cases x)
  case (Open j d l)
  with assms show ?thesis by (auto simp: drain_idle_def registry_open_def update_conv')
next
  case (Retire j)
  with assms show ?thesis by (auto simp: drain_idle_def retire_def delete_conv' split: if_splits)
next
  case (SetStreamBudget j b)
  with assms show ?thesis by (auto simp: drain_idle_def map_of_on_call)
next
  case (GraceStart j k s v n)
  have "drain_idle i (r\<lparr>rg_started := X\<rparr>)" for X using assms(1) by (simp add: drain_idle_def)
  with GraceStart assms(1) show ?thesis
    by (auto simp: grace_start_def Let_def intro!: drain_idle_on_call split: prod.split)
qed (use assms(1) in \<open>auto intro!: drain_idle_on_call simp: set_phase_def set_attempt_def
      begin_drain_def end_drain_def grace_reserve_def grace_finish_def Let_def
      split: prod.splits if_splits\<close>)

lemma drain_idle_history:
  "drain_idle i r \<Longrightarrow> list_all (\<lambda>x. \<not> reopens_drain i x) ops \<Longrightarrow> drain_idle i (fold apply_op ops r)"
  by (induction ops arbitrary: r) (auto simp: drain_idle_step simp del: apply_op.simps)

lemma end_drain_idle: "drain_idle i (apply_op (EndDrain i) r)"
  by (auto simp: drain_idle_def map_of_on_call end_drain_def)

section \<open>Properties of termination budgets\<close>

text \<open>What a snapshot reports is what remains. After any history of operations in which drain budgets
  are durations, a snapshot at any time lists each call that was opened and not retired since, once;
  every remaining time it reports is finite and not negative, and the remaining time of a drain or of
  a grace window does not exceed the budget reported with it.\<close>

theorem snapshot_reports_what_remains:
  assumes "list_all op_ok ops" and "r = fold apply_op ops empty_registry"
    and "s = registry_snapshot now run_deadline r"
  shows "set (map co_call_id (bs_calls s)) = open_after ops {} \<and> distinct (map co_call_id (bs_calls s)) \<and>
    (\<forall>v. bs_run_deadline_remaining_s s = Some v \<longrightarrow> is_finite_float v \<and> flt_le (Fin 0) v) \<and>
    (\<forall>c \<in> set (bs_calls s).
       (\<forall>v. co_deadline_remaining_s c = Some v \<longrightarrow> is_finite_float v \<and> flt_le (Fin 0) v) \<and>
       (\<forall>v. co_drain_remaining_s c = Some v \<longrightarrow> (\<exists>b. co_drain_budget_s c = Some b \<and>
          is_finite_float v \<and> flt_le (Fin 0) v \<and> flt_le v b)) \<and>
       (\<forall>g \<in> set (co_grace_windows c). \<forall>v. go_remaining_s g = Some v \<longrightarrow>
          (\<exists>b. go_budget_s g = Some b \<and> is_finite_float v \<and> flt_le (Fin 0) v \<and> flt_le v b)))"
proof -
  have ok: "registry_ok r" using history_ok [OF empty_registry_ok assms(1)] assms(2) by simp
  have bounded: "\<exists>b. bound = Some b \<and> is_finite_float v \<and> flt_le (Fin 0) v \<and> flt_le v b"
    if "remaining cutoff now bound = Some v" "\<forall>b. bound = Some b \<longrightarrow> flt_le (Fin 0) b"
      "bound = None \<longrightarrow> cutoff = None" for cutoff bound v
    using that remaining_bounded by (cases bound) (auto simp: remaining_def)
  have ids: "map co_call_id (bs_calls s) = map fst (rg_calls r)"
    unfolding assms(3) by (simp add: registry_snapshot_def observe_call_def Let_def)
  have "set (map co_call_id (bs_calls s)) = open_after ops {}"
    using open_history [of ops empty_registry] assms(2) unfolding ids
    by (simp add: empty_registry_def)
  moreover have "distinct (map co_call_id (bs_calls s))"
    unfolding ids using ok by (simp add: registry_ok_def)
  moreover have "\<forall>v. bs_run_deadline_remaining_s s = Some v \<longrightarrow> is_finite_float v \<and> flt_le (Fin 0) v"
    unfolding assms(3) using remaining_nonneg by (simp add: registry_snapshot_def)
  moreover have "(\<forall>v. co_deadline_remaining_s c = Some v \<longrightarrow> is_finite_float v \<and> flt_le (Fin 0) v) \<and>
       (\<forall>v. co_drain_remaining_s c = Some v \<longrightarrow> (\<exists>b. co_drain_budget_s c = Some b \<and>
          is_finite_float v \<and> flt_le (Fin 0) v \<and> flt_le v b)) \<and>
       (\<forall>g \<in> set (co_grace_windows c). \<forall>v. go_remaining_s g = Some v \<longrightarrow>
          (\<exists>b. go_budget_s g = Some b \<and> is_finite_float v \<and> flt_le (Fin 0) v \<and> flt_le v b))"
    if c: "c \<in> set (bs_calls s)" for c
  proof -
    from c obtain i b where m: "(i, b) \<in> set (rg_calls r)" and e: "c = observe_call now (i, b)"
      unfolding assms(3) by (auto simp: registry_snapshot_def)
    from ok m have b: "call_ok b" by (auto simp: registry_ok_def)
    have "\<exists>x. go_budget_s g = Some x \<and> is_finite_float v \<and> flt_le (Fin 0) v \<and> flt_le v x"
      if g: "g \<in> set (co_grace_windows c)" and v: "go_remaining_s g = Some v" for g v
    proof -
      from g e obtain w where w: "g = observe_window now w" and "window_ok w"
        using b by (auto simp: observe_call_def Let_def call_ok_def)
      then show ?thesis using bounded [of "gw_cutoff w" "gw_budget w" v] v
        by (auto simp: observe_window_def window_ok_def)
    qed
    with b bounded remaining_nonneg show ?thesis unfolding e
      by (auto simp: observe_call_def Let_def call_ok_def)
  qed
  ultimately show ?thesis by blast
qed

definition demo_ops :: "budget_op list" where
  "demo_ops = [Open ''c1'' None (PStr ''l1''), Open ''c2'' None PNone, SetStreamBudget ''c1'' (Fin 5),
     BeginDrain ''c1'' (Fin 10) (Fin 5), Retire ''c2'']"

theorem snapshot_reports_what_remains_witness:
  "set (map co_call_id (bs_calls (registry_snapshot (Fin 12) None (fold apply_op demo_ops empty_registry))))
     = {''c1''}"
proof -
  have "list_all op_ok demo_ops" by (simp add: demo_ops_def)
  from snapshot_reports_what_remains [OF this refl refl, of "Fin 12" None]
  have "set (map co_call_id (bs_calls (registry_snapshot (Fin 12) None
      (fold apply_op demo_ops empty_registry)))) = open_after demo_ops {}" by blast
  also have "\<dots> = {''c1''}" by (simp add: demo_ops_def)
  finally show ?thesis .
qed

text \<open>A late start of a drain is ignored: once the wait of a call has ended its drain, no operation but a
  new stream budget (or a new call under that identifier) makes a snapshot report a running drain for
  it, whatever callbacks arrive in between.\<close>

theorem ended_drain_stays_ended:
  assumes "list_all (\<lambda>x. \<not> reopens_drain i x) ops"
    and "c \<in> set (bs_calls (registry_snapshot now run_deadline (fold apply_op ops (apply_op (EndDrain i) r))))"
    and "co_call_id c = i" and "distinct (map fst (rg_calls r))"
  shows "co_drain_remaining_s c = None"
proof -
  let ?r = "fold apply_op ops (apply_op (EndDrain i) r)"
  from assms(2,3) obtain b where m: "(i, b) \<in> set (rg_calls ?r)" and e: "c = observe_call now (i, b)"
    by (auto simp: registry_snapshot_def observe_call_def Let_def)
  have "distinct (map fst (rg_calls ?r))"
    by (rule distinct_history [OF distinct_op [OF assms(4)]])
  with m have "map_of (rg_calls ?r) i = Some b" by simp
  with drain_idle_history [OF end_drain_idle assms(1)] have "cb_drain_cutoff b = None"
    by (simp add: drain_idle_def)
  then show ?thesis unfolding e by (simp add: observe_call_def remaining_def Let_def)
qed

theorem ended_drain_stays_ended_witness:
  "\<exists>c. c \<in> set (bs_calls (registry_snapshot (Fin 12) None
      (fold apply_op [BeginDrain ''c1'' (Fin 11) (Fin 5)] (apply_op (EndDrain ''c1'')
        (fold apply_op demo_ops empty_registry)))))
     \<and> co_call_id c = ''c1'' \<and> co_drain_remaining_s c = None"
proof -
  let ?calls = "bs_calls (registry_snapshot (Fin 12) None
      (fold apply_op [BeginDrain ''c1'' (Fin 11) (Fin 5)] (apply_op (EndDrain ''c1'')
        (fold apply_op demo_ops empty_registry))))"
  have d: "distinct (map fst (rg_calls (fold apply_op demo_ops empty_registry)))"
    by (rule distinct_history) (simp add: empty_registry_def)
  let ?ops = "demo_ops @ [EndDrain ''c1'', BeginDrain ''c1'' (Fin 11) (Fin 5)]"
  have "co_call_id ` set ?calls = open_calls (fold apply_op ?ops empty_registry)"
    by (simp add: registry_snapshot_def observe_call_def Let_def image_image del: apply_op.simps)
  also have "\<dots> = {''c1''}"
    unfolding open_history by (simp add: demo_ops_def empty_registry_def del: apply_op.simps)
  finally have ids: "co_call_id ` set ?calls = {''c1''}" .
  obtain calls where calls: "calls = ?calls" by simp
  from ids have "''c1'' \<in> co_call_id ` set calls" unfolding calls by (rule ssubst) (rule singletonI)
  then obtain c where c: "c \<in> set calls" "co_call_id c = ''c1''" by (metis imageE)
  have "list_all (\<lambda>x. \<not> reopens_drain ''c1'' x) [BeginDrain ''c1'' (Fin 11) (Fin 5)]" by simp
  from ended_drain_stays_ended [OF this c(1) [unfolded calls] c(2) d]
  have "c \<in> set calls \<and> co_call_id c = ''c1'' \<and> co_drain_remaining_s c = None" using c by simp
  then show ?thesis unfolding calls by (rule exI)
qed

end
