(* ===== verification/Safe_Evidence.thy ===== *)
theory Safe_Evidence
  imports Json_Ingress
begin

text \<open>
  The scalar validators of durable and wire evidence (\<open>core/safe_evidence.py\<close>) and the two
  spellings of \<open>core/model_io.py\<close> the durable records use: bounded opaque identifiers and
  addresses, taxonomy codes, UTC time stamps, content digests and idempotency keys.

  A regular expression of the source is the recogniser it denotes. Calendar validity is that of
  \<open>datetime.fromisoformat\<close> in Python 3.11 to 3.13.
\<close>

section \<open>Character classes\<close>

definition in_range :: "char \<Rightarrow> char \<Rightarrow> char \<Rightarrow> bool" where
  "in_range a b c \<longleftrightarrow> (of_char a :: nat) \<le> of_char c \<and> (of_char c :: nat) \<le> of_char b"

definition is_digit_char :: "char \<Rightarrow> bool" where
  "is_digit_char c = in_range CHR ''0'' CHR ''9'' c"

definition is_lower_char :: "char \<Rightarrow> bool" where
  "is_lower_char c = in_range CHR ''a'' CHR ''z'' c"

definition is_alnum_char :: "char \<Rightarrow> bool" where
  "is_alnum_char c \<longleftrightarrow> is_digit_char c \<or> is_lower_char c \<or> in_range CHR ''A'' CHR ''Z'' c"

definition is_hex_char :: "char \<Rightarrow> bool" where
  "is_hex_char c \<longleftrightarrow> is_digit_char c \<or> in_range CHR ''a'' CHR ''f'' c"

definition is_id_char :: "char \<Rightarrow> bool" where
  "is_id_char c \<longleftrightarrow> is_alnum_char c \<or> c \<in> set ''._:+/-''"

definition is_code_char :: "char \<Rightarrow> bool" where
  "is_code_char c \<longleftrightarrow> is_alnum_char c \<or> c \<in> set ''._-''"

definition is_key_char :: "char \<Rightarrow> bool" where
  "is_key_char c \<longleftrightarrow> is_alnum_char c \<or> c \<in> set ''._+-''"

definition is_scheme_char :: "char \<Rightarrow> bool" where
  "is_scheme_char c \<longleftrightarrow> is_lower_char c \<or> is_digit_char c \<or> c \<in> set ''._-''"

text \<open>\<open>[first][rest]{0,n}\<close>, matched against the whole text.\<close>

fun matches_token :: "(char \<Rightarrow> bool) \<Rightarrow> (char \<Rightarrow> bool) \<Rightarrow> nat \<Rightarrow> string \<Rightarrow> bool" where
  "matches_token first rest n [] = False"
| "matches_token first rest n (c # cs) = (first c \<and> list_all rest cs \<and> length cs \<le> n)"

section \<open>Validators\<close>

definition opaque_id :: "string \<Rightarrow> bool" where
  "opaque_id s = matches_token is_alnum_char is_id_char 255 s"

fun is_safe_opaque_id :: "pyval \<Rightarrow> bool" where
  "is_safe_opaque_id (PStr s) = opaque_id s"
| "is_safe_opaque_id _ = False"

text \<open>The scheme of an address has no colon, so its first colon ends it.\<close>

definition opaque_address :: "string \<Rightarrow> bool" where
  "opaque_address s = (length s \<le> 256 \<and>
     matches_token is_lower_char is_scheme_char 31 (takeWhile (\<lambda>c. c \<noteq> CHR '':'') s) \<and>
     (case dropWhile (\<lambda>c. c \<noteq> CHR '':'') s of
        [] \<Rightarrow> False
      | _ # locator \<Rightarrow> matches_token is_alnum_char is_id_char (length locator) locator))"

fun is_safe_opaque_address :: "pyval \<Rightarrow> bool" where
  "is_safe_opaque_address (PStr s) = opaque_address s"
| "is_safe_opaque_address _ = False"

definition taxonomy_code :: "string \<Rightarrow> bool" where
  "taxonomy_code s = matches_token is_alnum_char is_code_char 127 s"

fun is_safe_taxonomy_code :: "pyval \<Rightarrow> bool" where
  "is_safe_taxonomy_code (PStr s) = taxonomy_code s"
| "is_safe_taxonomy_code _ = False"

definition recorded_digest :: "string \<Rightarrow> bool" where
  "recorded_digest s \<longleftrightarrow> length s = 64 \<and> list_all is_hex_char s"

fun is_recorded_digest :: "pyval \<Rightarrow> bool" where
  "is_recorded_digest (PStr s) = recorded_digest s"
| "is_recorded_digest _ = False"

definition idempotency_key_ok :: "string \<Rightarrow> bool" where
  "idempotency_key_ok s = matches_token is_alnum_char is_key_char 127 s"

fun is_valid_idempotency_key :: "pyval \<Rightarrow> bool" where
  "is_valid_idempotency_key (PStr s) = idempotency_key_ok s"
| "is_valid_idempotency_key _ = False"

section \<open>Time stamps\<close>

text \<open>The number written by a run of digits.\<close>

definition digits_at :: "nat \<Rightarrow> nat \<Rightarrow> string \<Rightarrow> nat" where
  "digits_at i n s = foldl (\<lambda>a c. 10 * a + (of_char c - 48)) 0 (take n (drop i s))"

text \<open>The shape \<open>dddd-dd-ddTdd:dd:dd\<close>, an optional fraction of one to six digits, and \<open>Z\<close>.\<close>

definition timestamp_shape :: "string \<Rightarrow> bool" where
  "timestamp_shape s \<longleftrightarrow> 20 \<le> length s \<and>
     list_all (\<lambda>i. if i \<in> {4, 7} then s ! i = CHR ''-''
                   else if i = 10 then s ! i = CHR ''T''
                   else if i \<in> {13, 16} then s ! i = CHR '':''
                   else is_digit_char (s ! i)) [0..<19] \<and>
     (let tail = drop 19 s in
        tail = ''Z'' \<or>
        (hd tail = CHR ''.'' \<and> last tail = CHR ''Z'' \<and> 3 \<le> length tail \<and> length tail \<le> 8 \<and>
         list_all is_digit_char (butlast (tl tail))))"

definition is_leap_year :: "nat \<Rightarrow> bool" where
  "is_leap_year y \<longleftrightarrow> y mod 4 = 0 \<and> (y mod 100 \<noteq> 0 \<or> y mod 400 = 0)"

definition days_in_month :: "nat \<Rightarrow> nat \<Rightarrow> nat" where
  "days_in_month y m = (if m = 2 then (if is_leap_year y then 29 else 28)
     else if m \<in> {4, 6, 9, 11} then 30 else 31)"

text \<open>Whether \<open>fromisoformat\<close> accepts the fields of a text of that shape.\<close>

definition calendar_valid :: "string \<Rightarrow> bool" where
  "calendar_valid s = (let y = digits_at 0 4 s; m = digits_at 5 2 s; d = digits_at 8 2 s in
     1 \<le> y \<and> 1 \<le> m \<and> m \<le> 12 \<and> 1 \<le> d \<and> d \<le> days_in_month y m \<and>
     digits_at 11 2 s \<le> 23 \<and> digits_at 14 2 s \<le> 59 \<and> digits_at 17 2 s \<le> 59)"

fun is_safe_utc_timestamp :: "pyval \<Rightarrow> bool" where
  "is_safe_utc_timestamp (PStr s) = (timestamp_shape s \<and> calendar_valid s)"
| "is_safe_utc_timestamp _ = False"

section \<open>Laws\<close>

text \<open>The interpreter's limit on integer digits is off or at least 640.\<close>

definition digits_limit_ok :: "int \<Rightarrow> bool" where
  "digits_limit_ok cfg \<longleftrightarrow> cfg \<le> 0 \<or> 640 \<le> cfg"

lemma matches_token_bounded:
  "matches_token first rest n s \<Longrightarrow> s \<noteq> [] \<and> length s \<le> Suc n"
  by (cases s) auto

lemma matches_token_mono:
  assumes "matches_token f r n s" and "\<And>c. f c \<Longrightarrow> f' c" and "\<And>c. r c \<Longrightarrow> r' c" and "n \<le> m"
  shows "matches_token f' r' m s"
  using assms by (cases s) (auto elim!: list.pred_mono_strong)

lemma is_hex_alnum: "is_hex_char c \<Longrightarrow> is_alnum_char c"
  by (auto simp: is_hex_char_def is_alnum_char_def is_lower_char_def in_range_def)

lemma recorded_digest_opaque: "recorded_digest s \<Longrightarrow> opaque_id s"
  by (cases s)
     (auto simp: recorded_digest_def opaque_id_def is_hex_alnum is_id_char_def
       elim!: list.pred_mono_strong)

lemma idempotency_key_opaque: "idempotency_key_ok s \<Longrightarrow> opaque_id s"
  unfolding idempotency_key_ok_def opaque_id_def
  by (erule matches_token_mono) (auto simp: is_key_char_def is_id_char_def)

text \<open>A content address is an opaque address.\<close>

lemma blob_address_opaque: "recorded_digest s \<Longrightarrow> opaque_address (''blob:'' @ s)"
proof -
  assume r: "recorded_digest s"
  then have "matches_token is_alnum_char is_id_char (length s) s"
    by (cases s) (auto simp: recorded_digest_def is_hex_alnum is_id_char_def
        elim!: list.pred_mono_strong)
  moreover have "length s = 64" using r by (simp add: recorded_digest_def)
  ultimately show ?thesis
    by (simp add: opaque_address_def is_lower_char_def is_scheme_char_def in_range_def)
qed

lemma digest_nonempty: "recorded_digest s \<Longrightarrow> s \<noteq> []"
  by (auto simp: recorded_digest_def)

end
