(* ===== verification/Cancel_Authority.thy ===== *)
theory Cancel_Authority
  imports Run_Results "HOL-Library.Multiset"
begin

text \<open>
  Execution cancellation (\<open>core/cancellation.py\<close>) and write authority (\<open>core/authority.py\<close>).

  Both objects are shared by threads. An operation is the sequence of its critical sections, each
  a function on the object's state; what runs outside the lock (the callbacks) is handed back to
  the caller. Concurrent use is a step relation that interleaves the sections and the callbacks
  of any number of threads. A callback returns or raises; where its exception leaves the loop over
  the callbacks, the rest of them is abandoned. A callback is identified by the registration it belongs to.
\<close>

section \<open>Cancellation tokens\<close>

record 'cb cancellation_token =
  ct_event :: bool
  ct_callbacks :: "(nat \<times> 'cb) list"
  ct_next_callback_id :: nat
  ct_cause :: "InterruptionCause option"

definition new_token :: "'cb cancellation_token" where
  "new_token = \<lparr>ct_event = False, ct_callbacks = [], ct_next_callback_id = 0, ct_cause = None\<rparr>"

definition OPERATIONAL_CANCELLATION_CAUSES :: "InterruptionCause list" where
  "OPERATIONAL_CANCELLATION_CAUSES = [USER_CANCEL, GRACEFUL_DRAIN, DEADLINE, HOST_SHUTDOWN]"

definition is_operational_cancellation_cause :: "InterruptionCause \<Rightarrow> bool" where
  "is_operational_cancellation_cause c = (c \<in> set OPERATIONAL_CANCELLATION_CAUSES)"

text \<open>The critical section of \<open>_request\<close>: the new state and the callbacks to run. The loop that
  runs them, outside the lock, is the \<open>URun\<close> and \<open>UAbandon\<close> steps of \<open>use_step\<close> below.\<close>

definition token_request :: "InterruptionCause \<Rightarrow> 'cb cancellation_token \<Rightarrow>
    'cb cancellation_token \<times> 'cb list" where
  "token_request cause t =
     (if ct_event t then (t, [])
      else (t\<lparr>ct_cause := Some cause, ct_event := True, ct_callbacks := []\<rparr>,
            map snd (ct_callbacks t)))"

definition token_cancel :: "string \<Rightarrow> 'cb cancellation_token \<Rightarrow>
    ('cb cancellation_token \<times> 'cb list) res" where
  "token_cancel raw t = (case InterruptionCause_of raw of
      Inl _ \<Rightarrow> Inl (ValueError ''cancellation cause is outside the portable vocabulary'')
    | Inr cause \<Rightarrow>
        if \<not> is_operational_cancellation_cause cause
        then Inl (ValueError ''cancellation cause must be operational'')
        else Inr (token_request cause t))"

definition cancel_for_authority_loss :: "'cb cancellation_token \<Rightarrow>
    'cb cancellation_token \<times> 'cb list" where
  "cancel_for_authority_loss t = token_request LEASE_LOST t"

text \<open>The critical section of a registration: \<open>None\<close> means the caller runs the callback now.\<close>

definition add_cancel_callback :: "'cb \<Rightarrow> 'cb cancellation_token \<Rightarrow>
    'cb cancellation_token \<times> nat option" where
  "add_cancel_callback cb t =
     (if ct_event t then (t, None)
      else (t\<lparr>ct_callbacks := AList.update (ct_next_callback_id t) cb (ct_callbacks t),
              ct_next_callback_id := Suc (ct_next_callback_id t)\<rparr>,
            Some (ct_next_callback_id t)))"

definition remove_cancel_callback :: "nat option \<Rightarrow> 'cb cancellation_token \<Rightarrow>
    'cb cancellation_token" where
  "remove_cancel_callback cid t = (case cid of
      None \<Rightarrow> t
    | Some i \<Rightarrow> t\<lparr>ct_callbacks := AList.delete i (ct_callbacks t)\<rparr>)"

definition token_requested :: "'cb cancellation_token \<Rightarrow> bool" where
  "token_requested t = ct_event t"

definition token_snapshot :: "'cb cancellation_token \<Rightarrow> bool \<times> InterruptionCause option" where
  "token_snapshot t = (ct_event t, ct_cause t)"

section \<open>Write authority\<close>

record 'cb write_authority =
  wa_revoke_requested :: bool
  wa_revoked :: bool
  wa_callbacks :: "(nat \<times> 'cb) list"
  wa_next_callback_id :: nat

definition new_authority :: "'cb write_authority" where
  "new_authority = \<lparr>wa_revoke_requested = False, wa_revoked = False, wa_callbacks = [],
     wa_next_callback_id = 0\<rparr>"

definition authority_revoked :: "'cb write_authority \<Rightarrow> bool" where
  "authority_revoked a = wa_revoke_requested a"

text \<open>The two steps of \<open>revoke\<close>: publishing the loss without the lock, then the critical
  section with its return value.\<close>

definition revoke_publish :: "'cb write_authority \<Rightarrow> 'cb write_authority" where
  "revoke_publish a = a\<lparr>wa_revoke_requested := True\<rparr>"

definition revoke_section :: "'cb write_authority \<Rightarrow> 'cb write_authority \<times> 'cb list \<times> bool" where
  "revoke_section a =
     (if wa_revoked a then (a, [], False)
      else (a\<lparr>wa_revoked := True, wa_callbacks := []\<rparr>, map snd (wa_callbacks a), True))"

definition authority_revoke :: "'cb write_authority \<Rightarrow> 'cb write_authority \<times> 'cb list \<times> bool" where
  "authority_revoke a = revoke_section (revoke_publish a)"

definition assert_active :: "'cb write_authority \<Rightarrow> unit res" where
  "assert_active a = guard (\<not> wa_revoke_requested a) WriteAuthorityRevoked"

definition add_revoke_callback :: "'cb \<Rightarrow> 'cb write_authority \<Rightarrow> 'cb write_authority \<times> nat option" where
  "add_revoke_callback cb a =
     (if wa_revoke_requested a then (a, None)
      else (a\<lparr>wa_callbacks := AList.update (wa_next_callback_id a) cb (wa_callbacks a),
              wa_next_callback_id := Suc (wa_next_callback_id a)\<rparr>,
            Some (wa_next_callback_id a)))"

definition remove_revoke_callback :: "nat option \<Rightarrow> 'cb write_authority \<Rightarrow> 'cb write_authority" where
  "remove_revoke_callback cid a = (case cid of
      None \<Rightarrow> a
    | Some i \<Rightarrow> a\<lparr>wa_callbacks := AList.delete i (wa_callbacks a)\<rparr>)"

text \<open>A guarded operation is a function of the world it mutates, which contains the authority:
  the operation itself, or another thread publishing a revocation meanwhile, may revoke. It
  returns the world it leaves and its value or exception.\<close>

type_synonym ('w, 'a) operation = "'w \<Rightarrow> 'w \<times> 'a res"

definition guard_local_mutation :: "('w \<Rightarrow> 'cb write_authority) \<Rightarrow> ('w, 'a) operation \<Rightarrow>
    ('w, 'a) operation" where
  "guard_local_mutation auth operation w =
     (if wa_revoke_requested (auth w) then (w, Inl WriteAuthorityRevoked)
      else case operation w of
        (w', Inl e) \<Rightarrow> (w', Inl (if wa_revoke_requested (auth w') then WriteAuthorityRevoked else e))
      | (w', Inr x) \<Rightarrow> (w', if wa_revoke_requested (auth w') then Inl WriteAuthorityRevoked
                            else Inr x))"

definition guard_external_call :: "('w \<Rightarrow> 'cb write_authority) \<Rightarrow> ('w, 'a) operation \<Rightarrow>
    ('w, 'a) operation" where
  "guard_external_call auth operation w = (case assert_active (auth w) of
      Inl e \<Rightarrow> (w, Inl e)
    | Inr _ \<Rightarrow> (case operation w of (w', r) \<Rightarrow> (case assert_active (auth w') of
          Inl e \<Rightarrow> (w', Inl e)
        | Inr _ \<Rightarrow> (w', r))))"

section \<open>One-shot callback registries\<close>

text \<open>How a callback ends: it returns, it raises an \<open>Exception\<close>, or it raises a
  \<open>BaseException\<close> that is none, such as \<open>KeyboardInterrupt\<close>.\<close>

datatype callback_end = Returned | RaisedException | RaisedBaseException

text \<open>The operations of a registry as its users see them: what is stored, the critical sections
  of a registration (\<open>None\<close>: the registrant runs the callback itself), of firing (with a label,
  such as the cause), of publishing the loss ahead of firing, and of unsubscribing; and which ends
  of a callback leave the loop over the callbacks taken, so that the rest of them is abandoned.
  The loop of \<open>_request\<close> has no handler, the one of \<open>revoke\<close> catches \<open>Exception\<close>.\<close>

record ('s, 'x, 'cb) registry_ops =
  ro_stored :: "'s \<Rightarrow> (nat \<times> 'cb) list"
  ro_register :: "'cb \<Rightarrow> 's \<Rightarrow> 's \<times> nat option"
  ro_take :: "'x \<Rightarrow> 's \<Rightarrow> 's \<times> 'cb list"
  ro_close :: "'s \<Rightarrow> 's"
  ro_remove :: "nat option \<Rightarrow> 's \<Rightarrow> 's"
  ro_abandons :: "callback_end \<Rightarrow> bool"

text \<open>A registry with what its threads hold: the callbacks each thread took or was refused and
  has not run yet, in the order it runs them; the log of the runs with how they ended; the
  callbacks abandoned, each with the one whose exception left the loop before it; the callbacks
  unsubscribed in time; and every registration made.\<close>

record ('s, 'cb) registry_use =
  ru_state :: 's
  ru_held :: "'cb list multiset"
  ru_runs :: "('cb \<times> callback_end) list"
  ru_lost :: "('cb \<times> 'cb) multiset"
  ru_gone :: "'cb multiset"
  ru_made :: "'cb multiset"

definition fresh_use :: "'s \<Rightarrow> ('s, 'cb) registry_use" where
  "fresh_use s = \<lparr>ru_state = s, ru_held = {#}, ru_runs = [], ru_lost = {#}, ru_gone = {#},
     ru_made = {#}\<rparr>"

definition runs_of :: "'cb \<Rightarrow> ('s, 'cb) registry_use \<Rightarrow> nat" where
  "runs_of c u = count_list (map fst (ru_runs u)) c"

text \<open>The callbacks a thread has left to run: nothing is held of an empty list.\<close>

definition batch :: "'cb list \<Rightarrow> 'cb list multiset" where
  "batch cs = (if cs = [] then {#} else {#cs#})"

inductive use_step :: "('s, 'x, 'cb) registry_ops \<Rightarrow> ('s, 'cb) registry_use \<Rightarrow>
    ('s, 'cb) registry_use \<Rightarrow> bool" for ops where
  URegister: "\<lbrakk>c \<notin># ru_made u; ro_register ops c (ru_state u) = (s', r)\<rbrakk> \<Longrightarrow>
     use_step ops u (u\<lparr>ru_state := s',
       ru_held := (if r = None then add_mset [c] (ru_held u) else ru_held u),
       ru_made := add_mset c (ru_made u)\<rparr>)"
| UClose: "use_step ops u (u\<lparr>ru_state := ro_close ops (ru_state u)\<rparr>)"
| UTake: "ro_take ops x (ru_state u) = (s', cs) \<Longrightarrow>
     use_step ops u (u\<lparr>ru_state := s', ru_held := ru_held u + batch cs\<rparr>)"
| URun: "\<lbrakk>c # cs \<in># ru_held u; \<not> ro_abandons ops e\<rbrakk> \<Longrightarrow>
     use_step ops u (u\<lparr>ru_held := ru_held u - {#c # cs#} + batch cs,
       ru_runs := ru_runs u @ [(c, e)]\<rparr>)"
| UAbandon: "\<lbrakk>c # cs \<in># ru_held u; ro_abandons ops e\<rbrakk> \<Longrightarrow>
     use_step ops u (u\<lparr>ru_held := ru_held u - {#c # cs#},
       ru_runs := ru_runs u @ [(c, e)], ru_lost := ru_lost u + mset (map (Pair c) cs)\<rparr>)"
| URemove: "use_step ops u (u\<lparr>ru_state := ro_remove ops i (ru_state u),
     ru_gone := ru_gone u + (mset (map snd (ro_stored ops (ru_state u))) -
       mset (map snd (ro_stored ops (ro_remove ops i (ru_state u)))))\<rparr>)"

inductive_cases use_stepE: "use_step ops u u'"

locale one_shot_registry =
  fixes valid :: "'s \<Rightarrow> bool"
    and ops :: "('s, 'x, 'cb) registry_ops"
  assumes register_law: "valid s \<Longrightarrow> ro_register ops c s = (s', r) \<Longrightarrow> valid s' \<and>
      (case r of None \<Rightarrow> s' = s | Some i \<Rightarrow> ro_stored ops s' = ro_stored ops s @ [(i, c)])"
    and take_law: "valid s \<Longrightarrow> ro_take ops x s = (s', cs) \<Longrightarrow> valid s' \<and>
      cs = map snd (ro_stored ops s) \<and> ro_stored ops s' = []"
    and close_law: "valid s \<Longrightarrow> valid (ro_close ops s)"
      "ro_stored ops (ro_close ops s) = ro_stored ops s"
    and remove_law: "valid s \<Longrightarrow> valid (ro_remove ops i s)"
      "ro_stored ops (ro_remove ops i s) = (case i of None \<Rightarrow> ro_stored ops s
        | Some j \<Rightarrow> AList.delete j (ro_stored ops s))"
begin

definition pending :: "('s, 'cb) registry_use \<Rightarrow> 'cb multiset" where
  "pending u = mset (map snd (ro_stored ops (ru_state u))) + sum_mset (image_mset mset (ru_held u))"

definition spent :: "('s, 'cb) registry_use \<Rightarrow> 'cb multiset" where
  "spent u = mset (map fst (ru_runs u)) + image_mset snd (ru_lost u) + ru_gone u"

definition accounted :: "('s, 'cb) registry_use \<Rightarrow> bool" where
  "accounted u \<longleftrightarrow> valid (ru_state u) \<and> pending u + spent u = ru_made u \<and>
     (\<forall>c. count (ru_made u) c \<le> 1) \<and>
     (\<forall>b c. (b, c) \<in># ru_lost u \<longrightarrow> (\<exists>e. (b, e) \<in> set (ru_runs u) \<and> ro_abandons ops e))"

lemmas account_defs = accounted_def pending_def spent_def

lemma batch_sum: "sum_mset (image_mset mset (batch cs)) = mset cs"
  by (simp add: batch_def)

lemma mset_delete_sub: "mset (map snd (AList.delete j al)) \<subseteq># mset (map snd al)"
  by (induction al) (auto intro: subset_mset.order_trans)

lemma remove_balance:
  "mset (map snd (ro_stored ops (ro_remove ops i s))) +
     (mset (map snd (ro_stored ops s)) - mset (map snd (ro_stored ops (ro_remove ops i s)))) =
   mset (map snd (ro_stored ops s))"
proof -
  have "mset (map snd (ro_stored ops (ro_remove ops i s))) \<subseteq># mset (map snd (ro_stored ops s))"
  proof (cases i)
    case (Some j)
    then show ?thesis using mset_delete_sub [of j "ro_stored ops s"] by (simp add: remove_law)
  qed (simp add: remove_law)
  then show ?thesis by (simp add: subset_mset.add_diff_inverse)
qed

lemma step_accounted: "use_step ops u u' \<Longrightarrow> accounted u \<Longrightarrow> accounted u'"
proof (induction rule: use_step.induct)
  case (URegister c u s' r)
  then have law: "valid s'" "case r of None \<Rightarrow> s' = ru_state u
      | Some i \<Rightarrow> ro_stored ops s' = ro_stored ops (ru_state u) @ [(i, c)]"
    using register_law [OF _ URegister(2)] by (auto simp: accounted_def)
  have one: "\<forall>x. count (add_mset c (ru_made u)) x \<le> 1"
    using URegister by (auto simp: accounted_def not_in_iff)
  show ?case using URegister(3) law one by (cases r) (auto simp: account_defs)
next
  case (UTake x u s' cs)
  then show ?case
    using take_law [OF _ UTake(1)] by (auto simp: account_defs batch_sum ac_simps)
next
  case (URun c cs u e)
  then show ?case by (fastforce simp: account_defs batch_sum ac_simps dest!: multi_member_split)
next
  case (UAbandon c cs u e)
  have "image_mset (snd \<circ> Pair c) (mset cs) = mset cs" by (simp add: comp_def)
  with UAbandon show ?case
    by (fastforce simp: account_defs multiset.map_comp ac_simps dest!: multi_member_split)
next
  case (URemove u i)
  let ?a = "mset (map snd (ro_stored ops (ru_state u)))"
  let ?b = "mset (map snd (ro_stored ops (ro_remove ops i (ru_state u))))"
  have "?b + (h + (q + (l + (ru_gone u + (?a - ?b))))) = (?b + (?a - ?b)) + (h + (q + (l + ru_gone u)))"
    for h q l by (simp only: ac_simps)
  note move = this [unfolded remove_balance]
  show ?case
    using URemove remove_law(1) by (simp add: account_defs move add.assoc del: mset_map)
qed (auto simp: account_defs close_law)

lemma steps_accounted: "(use_step ops)\<^sup>*\<^sup>* u u' \<Longrightarrow> accounted u \<Longrightarrow> accounted u'"
  by (induction rule: rtranclp_induct) (auto intro: step_accounted)

lemma one_shot:
  assumes "(use_step ops)\<^sup>*\<^sup>* (fresh_use s0) u" and "valid s0" and "ro_stored ops s0 = []"
  shows "runs_of c u \<le> 1"
    and "ro_stored ops (ru_state u) = [] \<Longrightarrow> ru_held u = {#} \<Longrightarrow> c \<in># ru_made u \<Longrightarrow>
      c \<notin># ru_gone u \<Longrightarrow> runs_of c u = 1 \<or> (runs_of c u = 0 \<and>
        (\<exists>b e. (b, c) \<in># ru_lost u \<and> (b, e) \<in> set (ru_runs u) \<and> ro_abandons ops e))"
proof -
  have "accounted (fresh_use s0)" using assms(2,3) by (simp add: account_defs fresh_use_def)
  then have acc: "accounted u" using steps_accounted [OF assms(1)] by blast
  then have eq: "pending u + spent u = ru_made u" and le: "count (ru_made u) c \<le> 1"
    by (auto simp: accounted_def)
  have runs: "runs_of c u = count (mset (map fst (ru_runs u))) c"
    by (simp only: runs_of_def count_mset)
  have "runs_of c u \<le> count (ru_made u) c" unfolding runs eq [symmetric] spent_def by simp
  with le show "runs_of c u \<le> 1" by simp
  show "runs_of c u = 1 \<or> (runs_of c u = 0 \<and>
      (\<exists>b e. (b, c) \<in># ru_lost u \<and> (b, e) \<in> set (ru_runs u) \<and> ro_abandons ops e))"
    if "ro_stored ops (ru_state u) = []" "ru_held u = {#}" "c \<in># ru_made u" "c \<notin># ru_gone u"
  proof -
    have "spent u = ru_made u" using eq that(1,2) by (simp add: pending_def)
    then have "runs_of c u + count (image_mset snd (ru_lost u)) c + count (ru_gone u) c =
        count (ru_made u) c"
      unfolding runs spent_def by (metis count_union)
    moreover have "count (ru_made u) c \<noteq> 0" "count (ru_gone u) c = 0"
      using that(3,4) not_in_iff by metis+
    ultimately consider "runs_of c u = 1"
      | "runs_of c u = 0" "count (image_mset snd (ru_lost u)) c \<noteq> 0"
      using le by linarith
    then show ?thesis
    proof cases
      case 2
      then obtain b where "(b, c) \<in># ru_lost u" by (auto simp: count_eq_zero_iff)
      with 2 acc show ?thesis unfolding accounted_def by blast
    qed simp
  qed
qed

end

section \<open>Both objects are one-shot registries\<close>

definition token_ops ::
    "('cb cancellation_token, InterruptionCause, 'cb) registry_ops" where
  "token_ops = \<lparr>ro_stored = ct_callbacks, ro_register = add_cancel_callback,
     ro_take = token_request, ro_close = (\<lambda>t. t), ro_remove = remove_cancel_callback,
     ro_abandons = (\<lambda>e. e \<noteq> Returned)\<rparr>"

definition authority_ops :: "('cb write_authority, unit, 'cb) registry_ops" where
  "authority_ops = \<lparr>ro_stored = wa_callbacks, ro_register = add_revoke_callback,
     ro_take = (\<lambda>_ a. case authority_revoke a of (a', cs, _) \<Rightarrow> (a', cs)),
     ro_close = revoke_publish, ro_remove = remove_revoke_callback,
     ro_abandons = (\<lambda>e. e = RaisedBaseException)\<rparr>"

definition valid_token :: "'cb cancellation_token \<Rightarrow> bool" where
  "valid_token t \<longleftrightarrow> (ct_event t \<longrightarrow> ct_callbacks t = []) \<and>
     (\<forall>i \<in> fst ` set (ct_callbacks t). i < ct_next_callback_id t) \<and>
     (ct_event t \<longleftrightarrow> ct_cause t \<noteq> None)"

definition valid_authority :: "'cb write_authority \<Rightarrow> bool" where
  "valid_authority a \<longleftrightarrow> (wa_revoked a \<longrightarrow> wa_revoke_requested a \<and> wa_callbacks a = []) \<and>
     (\<forall>i \<in> fst ` set (wa_callbacks a). i < wa_next_callback_id a)"

lemma set_delete_sub: "p \<in> set (AList.delete k al) \<Longrightarrow> p \<in> set al"
  by (induction al) (auto split: if_splits)

lemma update_new_key: "\<forall>p \<in> set al. fst p < (n :: nat) \<Longrightarrow> AList.update n v al = al @ [(n, v)]"
  by (induction al) auto

interpretation token: one_shot_registry valid_token token_ops
proof
  fix s s' :: "'a cancellation_token" and c r
  assume "valid_token s" "ro_register token_ops c s = (s', r)"
  then show "valid_token s' \<and> (case r of None \<Rightarrow> s' = s
      | Some i \<Rightarrow> ro_stored token_ops s' = ro_stored token_ops s @ [(i, c)])"
    by (auto simp: token_ops_def add_cancel_callback_def valid_token_def update_new_key
        split: if_splits) (metis fst_conv less_SucI)
next
  fix s :: "'a cancellation_token" and i
  assume "valid_token s"
  then show "valid_token (ro_remove token_ops i s)"
    by (auto simp: token_ops_def remove_cancel_callback_def valid_token_def
        split: option.splits dest!: set_delete_sub)
qed (auto simp: token_ops_def token_request_def remove_cancel_callback_def valid_token_def
      split: if_splits option.splits)

interpretation auth: one_shot_registry valid_authority authority_ops
proof
  fix s s' :: "'a write_authority" and c r
  assume "valid_authority s" "ro_register authority_ops c s = (s', r)"
  then show "valid_authority s' \<and> (case r of None \<Rightarrow> s' = s
      | Some i \<Rightarrow> ro_stored authority_ops s' = ro_stored authority_ops s @ [(i, c)])"
    by (auto simp: authority_ops_def add_revoke_callback_def valid_authority_def update_new_key
        split: if_splits) (metis fst_conv less_SucI)
next
  fix s :: "'a write_authority" and i
  assume "valid_authority s"
  then show "valid_authority (ro_remove authority_ops i s)"
    by (auto simp: authority_ops_def remove_revoke_callback_def valid_authority_def
        split: option.splits dest!: set_delete_sub)
qed (auto simp: authority_ops_def authority_revoke_def revoke_section_def revoke_publish_def
      remove_revoke_callback_def valid_authority_def split: if_splits option.splits)

section \<open>First cause and sticky authority\<close>

text \<open>What threads do to a token: request with a cause, register, unsubscribe.\<close>

datatype 'cb token_action = TRequest InterruptionCause | TRegister 'cb | TRemove "nat option"

fun token_act :: "'cb token_action \<Rightarrow> 'cb cancellation_token \<Rightarrow> 'cb cancellation_token" where
  "token_act (TRequest c) t = fst (token_request c t)"
| "token_act (TRegister cb) t = fst (add_cancel_callback cb t)"
| "token_act (TRemove i) t = remove_cancel_callback i t"

lemma token_act_set:
  "ct_event t \<Longrightarrow> token_snapshot (token_act x t) = token_snapshot t"
  by (cases x) (auto simp: token_snapshot_def token_request_def add_cancel_callback_def
      remove_cancel_callback_def split: option.splits)

lemma token_acts_set: "ct_event t \<Longrightarrow> token_snapshot (fold token_act xs t) = token_snapshot t"
proof (induction xs arbitrary: t)
  case (Cons x xs)
  have "ct_event (token_act x t)"
    using token_act_set [OF Cons.prems, of x] Cons.prems by (simp add: token_snapshot_def)
  with Cons token_act_set [OF Cons.prems] show ?case by simp
qed simp

datatype 'cb authority_action = APublish | ARevoke | ARegister 'cb | ARemove "nat option"

fun authority_act :: "'cb authority_action \<Rightarrow> 'cb write_authority \<Rightarrow> 'cb write_authority" where
  "authority_act APublish a = revoke_publish a"
| "authority_act ARevoke a = fst (authority_revoke a)"
| "authority_act (ARegister cb) a = fst (add_revoke_callback cb a)"
| "authority_act (ARemove i) a = remove_revoke_callback i a"

lemma authority_act_sticky: "wa_revoke_requested a \<Longrightarrow> wa_revoke_requested (authority_act x a)"
  by (cases x) (auto simp: revoke_publish_def authority_revoke_def revoke_section_def
      add_revoke_callback_def remove_revoke_callback_def split: option.splits)

lemma authority_acts_sticky:
  "wa_revoke_requested a \<Longrightarrow> wa_revoke_requested (fold authority_act xs a)"
  by (induction xs arbitrary: a) (auto intro: authority_act_sticky)

section \<open>Properties\<close>

text \<open>C25. A callback runs at most once under every interleaving of registrations, revocations or
  cancellations, unsubscriptions and callback runs of any number of threads, on a token and on an
  authority alike. Once nothing is stored and no thread still holds a callback, every callback
  ever registered and not unsubscribed in time has run exactly once, or it has not run because a
  callback of the same firing before it left the loop: on a token one that raised anything, on an
  authority only one that raised a \<open>BaseException\<close> that is no \<open>Exception\<close>.\<close>

theorem callbacks_are_one_shot:
  "(\<forall>u. (use_step token_ops)\<^sup>*\<^sup>* (fresh_use new_token) u \<longrightarrow> runs_of c u \<le> 1 \<and>
      (ct_callbacks (ru_state u) = [] \<and> ru_held u = {#} \<and> c \<in># ru_made u \<and> c \<notin># ru_gone u \<longrightarrow>
        runs_of c u = 1 \<or> (runs_of c u = 0 \<and>
          (\<exists>b e. (b, c) \<in># ru_lost u \<and> (b, e) \<in> set (ru_runs u) \<and> e \<noteq> Returned)))) \<and>
   (\<forall>u. (use_step authority_ops)\<^sup>*\<^sup>* (fresh_use new_authority) u \<longrightarrow> runs_of d u \<le> 1 \<and>
      (wa_callbacks (ru_state u) = [] \<and> ru_held u = {#} \<and> d \<in># ru_made u \<and> d \<notin># ru_gone u \<longrightarrow>
        runs_of d u = 1 \<or> (runs_of d u = 0 \<and>
          (\<exists>b. (b, d) \<in># ru_lost u \<and> (b, RaisedBaseException) \<in> set (ru_runs u)))))"
proof -
  have t: "valid_token new_token" "ro_stored token_ops new_token = []"
    by (simp_all add: valid_token_def new_token_def token_ops_def)
  have a: "valid_authority new_authority" "ro_stored authority_ops new_authority = []"
    by (simp_all add: valid_authority_def new_authority_def authority_ops_def)
  have ops: "ro_stored token_ops = ct_callbacks" "ro_abandons token_ops e \<longleftrightarrow> e \<noteq> Returned"
    "ro_stored authority_ops = wa_callbacks"
    "ro_abandons authority_ops e \<longleftrightarrow> e = RaisedBaseException" for e
    by (simp_all add: token_ops_def authority_ops_def)
  note laws = token.one_shot [OF _ t, unfolded ops] auth.one_shot [OF _ a, unfolded ops]
  have "runs_of c u \<le> 1 \<and> (ct_callbacks (ru_state u) = [] \<and> ru_held u = {#} \<and> c \<in># ru_made u \<and> c \<notin># ru_gone u \<longrightarrow>
      runs_of c u = 1 \<or> (runs_of c u = 0 \<and>
        (\<exists>b e. (b, c) \<in># ru_lost u \<and> (b, e) \<in> set (ru_runs u) \<and> e \<noteq> Returned)))"
    if "(use_step token_ops)\<^sup>*\<^sup>* (fresh_use new_token) u" for u
    using laws(1,2) [OF that, of c] by blast
  moreover have "runs_of d u \<le> 1 \<and> (wa_callbacks (ru_state u) = [] \<and> ru_held u = {#} \<and> d \<in># ru_made u \<and> d \<notin># ru_gone u \<longrightarrow>
      runs_of d u = 1 \<or> (runs_of d u = 0 \<and>
        (\<exists>b. (b, d) \<in># ru_lost u \<and> (b, RaisedBaseException) \<in> set (ru_runs u))))"
    if "(use_step authority_ops)\<^sup>*\<^sup>* (fresh_use new_authority) u" for u
    using laws(3,4) [OF that, of d] by blast
  ultimately show ?thesis by blast
qed

text \<open>Callbacks 7 and 8 are registered, the object is fired, and 7 raises: on the authority 8 runs
  too, on the token it is abandoned.\<close>

lemma authority_use_example:
  "(use_step authority_ops)\<^sup>*\<^sup>* (fresh_use new_authority)
     \<lparr>ru_state = fst (authority_revoke new_authority)\<lparr>wa_next_callback_id := 2\<rparr>, ru_held = {#},
       ru_runs = [(7 :: nat, RaisedException), (8, Returned)], ru_lost = {#}, ru_gone = {#},
       ru_made = {#8, 7#}\<rparr>"
proof -
  let ?ops = "authority_ops :: (nat write_authority, unit, nat) registry_ops"
  let ?s1 = "new_authority\<lparr>wa_callbacks := [(0, 7 :: nat)], wa_next_callback_id := 1\<rparr>"
  let ?s2 = "new_authority\<lparr>wa_callbacks := [(0, 7 :: nat), (1, 8)], wa_next_callback_id := 2\<rparr>"
  let ?s3 = "fst (authority_revoke new_authority)\<lparr>wa_next_callback_id := 2\<rparr>"
  let ?mk = "\<lambda>s h r m. \<lparr>ru_state = s, ru_held = h, ru_runs = r, ru_lost = {#}, ru_gone = {#}, ru_made = m\<rparr>"
  let ?u0 = "fresh_use new_authority" and ?u1 = "?mk ?s1 {#} [] {#7#}" and ?u2 = "?mk ?s2 {#} [] {#8, 7#}"
    and ?u3 = "?mk ?s3 {#[7, 8]#} [] {#8, 7#}" and ?u4 = "?mk ?s3 {#[8]#} [(7, RaisedException)] {#8, 7#}"
  note defs = authority_ops_def add_revoke_callback_def new_authority_def authority_revoke_def
    revoke_publish_def revoke_section_def fresh_use_def batch_def
  have "use_step ?ops ?u0 ?u1"
    using use_step.URegister [of 7 ?u0 ?ops ?s1 "Some 0"] by (simp add: defs)
  moreover have "use_step ?ops ?u1 ?u2"
    using use_step.URegister [of 8 ?u1 ?ops ?s2 "Some 1"] by (simp add: defs)
  moreover have "use_step ?ops ?u2 ?u3"
    using use_step.UTake [of ?ops "()" ?u2 ?s3 "[7, 8]"] by (simp add: defs)
  moreover have "use_step ?ops ?u3 ?u4"
    using use_step.URun [of 7 "[8]" ?u3 ?ops RaisedException] by (simp add: defs)
  moreover have "use_step ?ops ?u4 (?mk ?s3 {#} [(7, RaisedException), (8, Returned)] {#8, 7#})"
    using use_step.URun [of 8 "[]" ?u4 ?ops Returned] by (simp add: defs)
  ultimately show ?thesis
    by (meson rtranclp.rtrancl_into_rtrancl rtranclp.rtrancl_refl)
qed

lemma token_use_example:
  "(use_step token_ops)\<^sup>*\<^sup>* (fresh_use new_token)
     \<lparr>ru_state = new_token\<lparr>ct_event := True, ct_cause := Some USER_CANCEL, ct_next_callback_id := 2\<rparr>,
       ru_held = {#}, ru_runs = [(7 :: nat, RaisedException)], ru_lost = {#(7, 8)#}, ru_gone = {#},
       ru_made = {#8, 7#}\<rparr>"
proof -
  let ?ops = "token_ops :: (nat cancellation_token, InterruptionCause, nat) registry_ops"
  let ?s1 = "new_token\<lparr>ct_callbacks := [(0, 7 :: nat)], ct_next_callback_id := 1\<rparr>"
  let ?s2 = "new_token\<lparr>ct_callbacks := [(0, 7 :: nat), (1, 8)], ct_next_callback_id := 2\<rparr>"
  let ?s3 = "new_token\<lparr>ct_event := True, ct_cause := Some USER_CANCEL, ct_next_callback_id := 2\<rparr>"
  let ?mk = "\<lambda>s h r l m. \<lparr>ru_state = s, ru_held = h, ru_runs = r, ru_lost = l, ru_gone = {#}, ru_made = m\<rparr>"
  let ?u0 = "fresh_use new_token" and ?u1 = "?mk ?s1 {#} [] {#} {#7#}"
    and ?u2 = "?mk ?s2 {#} [] {#} {#8, 7#}" and ?u3 = "?mk ?s3 {#[7, 8]#} [] {#} {#8, 7#}"
  note defs = token_ops_def add_cancel_callback_def new_token_def token_request_def
    fresh_use_def batch_def
  have "use_step ?ops ?u0 ?u1"
    using use_step.URegister [of 7 ?u0 ?ops ?s1 "Some 0"] by (simp add: defs)
  moreover have "use_step ?ops ?u1 ?u2"
    using use_step.URegister [of 8 ?u1 ?ops ?s2 "Some 1"] by (simp add: defs)
  moreover have "use_step ?ops ?u2 ?u3"
    using use_step.UTake [of ?ops USER_CANCEL ?u2 ?s3 "[7, 8]"] by (simp add: defs)
  moreover have "use_step ?ops ?u3 (?mk ?s3 {#} [(7, RaisedException)] {#(7, 8)#} {#8, 7#})"
    using use_step.UAbandon [of 7 "[8]" ?u3 ?ops RaisedException] by (simp add: defs)
  ultimately show ?thesis
    by (meson rtranclp.rtrancl_into_rtrancl rtranclp.rtrancl_refl)
qed

theorem callbacks_are_one_shot_witness:
  "(\<exists>u. (use_step authority_ops)\<^sup>*\<^sup>* (fresh_use new_authority) u \<and> ru_held u = {#} \<and>
      (7, RaisedException) \<in> set (ru_runs u) \<and> runs_of (8 :: nat) u = 1) \<and>
   (\<exists>u. (use_step token_ops)\<^sup>*\<^sup>* (fresh_use new_token) u \<and> ru_held u = {#} \<and>
      (7, 8) \<in># ru_lost u \<and> runs_of (7 :: nat) u = 1 \<and> runs_of 8 u = 0)"
proof -
  let ?a = "\<lparr>ru_state = fst (authority_revoke (new_authority :: nat write_authority))
         \<lparr>wa_next_callback_id := 2\<rparr>, ru_held = {#},
       ru_runs = [(7 :: nat, RaisedException), (8, Returned)], ru_lost = {#}, ru_gone = {#},
       ru_made = {#8, 7#}\<rparr>"
  let ?t = "\<lparr>ru_state = (new_token :: nat cancellation_token)\<lparr>ct_event := True, ct_cause := Some USER_CANCEL,
       ct_next_callback_id := 2\<rparr>, ru_held = {#}, ru_runs = [(7 :: nat, RaisedException)],
       ru_lost = {#(7, 8)#}, ru_gone = {#}, ru_made = {#8, 7#}\<rparr>"
  have "runs_of 8 ?a = 1"
    using callbacks_are_one_shot [THEN conjunct2, THEN spec, THEN mp, OF authority_use_example, of 8]
    by (simp add: new_authority_def authority_revoke_def revoke_section_def revoke_publish_def)
  then have "\<exists>u. (use_step authority_ops)\<^sup>*\<^sup>* (fresh_use new_authority) u \<and> ru_held u = {#} \<and>
      (7, RaisedException) \<in> set (ru_runs u) \<and> runs_of (8 :: nat) u = 1"
    using authority_use_example by (intro exI [of _ ?a]) simp
  moreover have "runs_of 7 ?t = 1"
    using callbacks_are_one_shot [THEN conjunct1, THEN spec, THEN mp, OF token_use_example, of 7]
    by (simp add: new_token_def)
  then have "\<exists>u. (use_step token_ops)\<^sup>*\<^sup>* (fresh_use new_token) u \<and> ru_held u = {#} \<and>
      (7, 8) \<in># ru_lost u \<and> runs_of (7 :: nat) u = 1 \<and> runs_of 8 u = 0"
    using token_use_example by (intro exI [of _ ?t]) (simp add: runs_of_def)
  ultimately show ?thesis ..
qed

text \<open>C26. The first cancellation decides: a token that was cancelled with a cause keeps the flag
  and that cause through every later request, registration and unsubscription; the public
  operation accepts exactly the four operational causes, and never the loss of a lease.\<close>

theorem first_cancellation_cause_wins:
  "(\<not> ct_event t \<longrightarrow>
     token_snapshot (fold token_act xs (fst (token_request cause t))) = (True, Some cause)) \<and>
   (is_ok (token_cancel raw t) \<longleftrightarrow>
      (\<exists>c \<in> {USER_CANCEL, GRACEFUL_DRAIN, DEADLINE, HOST_SHUTDOWN}. raw = cause_value c))"
proof -
  have "token_snapshot (fold token_act xs (fst (token_request cause t))) = (True, Some cause)"
    if "\<not> ct_event t"
    using that token_acts_set [of "fst (token_request cause t)" xs]
    by (simp add: token_request_def token_snapshot_def)
  moreover have "is_ok (token_cancel raw t) \<longleftrightarrow>
      (\<exists>c \<in> {USER_CANCEL, GRACEFUL_DRAIN, DEADLINE, HOST_SHUTDOWN}. raw = cause_value c)"
  proof (cases "InterruptionCause_of raw")
    case (Inl e)
    then have "raw \<noteq> cause_value c" for c using InterruptionCause_of_value [of c] by auto
    with Inl show ?thesis by (simp add: token_cancel_def)
  next
    case (Inr c)
    then have raw: "raw = cause_value c" by (simp add: InterruptionCause_of_Inr)
    have "is_ok (token_cancel raw t) \<longleftrightarrow> c \<in> {USER_CANCEL, GRACEFUL_DRAIN, DEADLINE, HOST_SHUTDOWN}"
      using Inr by (simp add: token_cancel_def is_operational_cancellation_cause_def
          OPERATIONAL_CANCELLATION_CAUSES_def)
    then show ?thesis by (auto simp: raw cause_value_inj)
  qed
  ultimately show ?thesis by blast
qed

theorem first_cancellation_cause_wins_witness:
  "token_snapshot (fold token_act [TRegister (2 :: nat), TRequest LEASE_LOST]
     (fst (token_request DEADLINE new_token))) = (True, Some DEADLINE)"
  using first_cancellation_cause_wins [of new_token "[TRegister (2 :: nat), TRequest LEASE_LOST]" DEADLINE]
  by (simp add: new_token_def)

text \<open>C27. Revocation is sticky and outranks results: once its loss is published an authority stays
  revoked; a guarded mutation or external call entered after that does not run its operation at
  all; and whatever a guarded operation does, its value or its own exception is delivered only if
  the authority is still active when it ends.\<close>

theorem revoked_authority_publishes_nothing:
  "(wa_revoke_requested a \<longrightarrow> is_ok (assert_active (fold authority_act xs a)) = False) \<and>
   (wa_revoke_requested (auth w) \<longrightarrow>
      guard_local_mutation auth op w = (w, Inl WriteAuthorityRevoked) \<and>
      guard_external_call auth op w = (w, Inl WriteAuthorityRevoked)) \<and>
   (\<forall>g \<in> {guard_local_mutation, guard_external_call}. \<not> wa_revoke_requested (auth w) \<longrightarrow>
      g auth op w = (let (w', r) = op w in
        (w', if wa_revoke_requested (auth w') then Inl WriteAuthorityRevoked else r)))"
proof -
  have "is_ok (assert_active (fold authority_act xs a)) = False" if "wa_revoke_requested a"
    using authority_acts_sticky [OF that, of xs] by (simp add: assert_active_def)
  moreover have "guard_local_mutation auth op w = (let (w', r) = op w in
        (w', if wa_revoke_requested (auth w') then Inl WriteAuthorityRevoked else r))"
    "guard_external_call auth op w = (let (w', r) = op w in
        (w', if wa_revoke_requested (auth w') then Inl WriteAuthorityRevoked else r))"
    if "\<not> wa_revoke_requested (auth w)"
    using that by (auto simp: guard_local_mutation_def guard_external_call_def assert_active_def
        guard_def Let_def split: prod.splits sum.splits)
  moreover have "guard_local_mutation auth op w = (w, Inl WriteAuthorityRevoked)"
    "guard_external_call auth op w = (w, Inl WriteAuthorityRevoked)"
    if "wa_revoke_requested (auth w)"
    using that by (simp_all add: guard_local_mutation_def guard_external_call_def assert_active_def)
  ultimately show ?thesis by blast
qed

theorem revoked_authority_publishes_nothing_witness:
  "guard_local_mutation (\<lambda>w. w) (\<lambda>w. (revoke_publish w, Inr True)) (new_authority :: nat write_authority) =
     (revoke_publish new_authority, Inl WriteAuthorityRevoked)"
  using revoked_authority_publishes_nothing [of "new_authority :: nat write_authority" "[]" "\<lambda>w. w"
      "new_authority :: nat write_authority" "\<lambda>w. (revoke_publish w, Inr True)"]
  by (simp add: new_authority_def revoke_publish_def)

end
