(* ===== verification/Writer_Lease.thy ===== *)
theory Writer_Lease
  imports Safe_Evidence Cancel_Authority
begin

text \<open>
  Durable writer authority: tokens and commit results (\<open>hosting/contracts.py\<close>,
  \<open>hosting/commit_results.py\<close>), the lease values and the claim and renew helpers
  (\<open>hosting/authority.py\<close>) and the store of writer generations in PostgreSQL
  (\<open>adapters/postgres/authority.py\<close>).

  The table \<open>run_authority\<close> is a map from run identifiers to rows, and an SQL statement of the
  source is the function on it that the statement denotes. A transaction is a function from the
  table to the table it leaves and its value; an exception leaves the table as it was. Instants
  and durations are integers of microseconds, the resolution of \<open>timestamptz\<close> and \<open>timedelta\<close>.
  The readings of the database clock are the argument \<open>clk\<close>, one per statement that samples it,
  in no assumed order. \<open>cfg\<close> is the interpreter's limit on integer digits.
\<close>

section \<open>Tokens and commit results\<close>

record writer_token =
  wt_run_id :: string
  wt_owner_id :: string
  wt_generation :: int

definition make_writer_token :: "int \<Rightarrow> string \<Rightarrow> string \<Rightarrow> int \<Rightarrow> writer_token res" where
  "make_writer_token cfg run owner gen =
     (if \<not> opaque_id run then Inl (ValueError ''writer token run_id must be a bounded opaque id'')
      else if \<not> opaque_id owner
      then Inl (ValueError ''writer token owner_id must be a bounded opaque id'')
      else if \<not> is_portable_json_integer cfg (IInt gen) \<or> gen < 1
      then Inl (ValueError ''writer token generation must be a positive portable integer'')
      else Inr \<lparr>wt_run_id = run, wt_owner_id = owner, wt_generation = gen\<rparr>)"

datatype commit_status = Committed | AlreadyCommitted | CommitConflict | CommitFenced

record commit_result =
  cr_status :: commit_status
  cr_sequence :: "int option"
  cr_content_digest :: string
  cr_winner_digest :: string

definition commit_result_valid :: "int \<Rightarrow> commit_result \<Rightarrow> bool" where
  "commit_result_valid cfg r \<longleftrightarrow>
     (case cr_sequence r of None \<Rightarrow> True
        | Some n \<Rightarrow> is_portable_json_integer cfg (IInt n) \<and> 0 \<le> n) \<and>
     (cr_content_digest r = [] \<or> recorded_digest (cr_content_digest r)) \<and>
     (cr_winner_digest r = [] \<or> recorded_digest (cr_winner_digest r))"

text \<open>\<open>accept_fenced_commit_result\<close> on a \<open>CommitResult\<close>: a fenced result revokes the activation's
  authority, which then refuses.\<close>

definition accept_fenced_commit_result :: "commit_result \<Rightarrow> 'cb write_authority \<Rightarrow>
    'cb write_authority \<times> commit_status res" where
  "accept_fenced_commit_result r a = (case cr_status r of
      CommitFenced \<Rightarrow> (let a' = fst (authority_revoke a) in
        (a', res_bind (assert_active a') (\<lambda>_.
           Inl (AssertionError ''revoked authority unexpectedly remained active''))))
    | st \<Rightarrow> (a, Inr st))"

section \<open>Lease values\<close>

record writer_authority =
  wu_token :: writer_token
  wu_leased_until :: int
  wu_observed_at :: int
  wu_revoked :: bool

definition wu_active :: "writer_authority \<Rightarrow> bool" where
  "wu_active a \<longleftrightarrow> \<not> wu_revoked a \<and> wu_observed_at a < wu_leased_until a"

record writer_lease =
  wl_token :: writer_token
  wl_leased_until :: int
  wl_observed_at :: int

definition make_writer_lease :: "writer_token \<Rightarrow> int \<Rightarrow> int \<Rightarrow> writer_lease res" where
  "make_writer_lease t until observed =
     (if until \<le> observed
      then Inl (ValueError ''writer lease must be active at its observation instant'')
      else Inr \<lparr>wl_token = t, wl_leased_until = until, wl_observed_at = observed\<rparr>)"

definition lease_of_authority :: "writer_authority \<Rightarrow> writer_lease res" where
  "lease_of_authority a = make_writer_lease (wu_token a) (wu_leased_until a) (wu_observed_at a)"

datatype renew_result = Renewed writer_lease | RenewFenced "writer_authority option"
datatype release_result =
    Released writer_authority | AlreadyReleased writer_authority
  | ReleaseFenced "writer_authority option"

text \<open>A \<open>timedelta\<close> is kept normalised by the language: days, then seconds and microseconds within
  a day and a second.\<close>

record timedelta =
  td_days :: int
  td_seconds :: int
  td_microseconds :: int

definition timedelta_normal :: "timedelta \<Rightarrow> bool" where
  "timedelta_normal d \<longleftrightarrow> 0 \<le> td_seconds d \<and> td_seconds d < 86400 \<and>
     0 \<le> td_microseconds d \<and> td_microseconds d < 1000000"

text \<open>\<open>ttl <= timedelta(0)\<close> compares the three fields in order.\<close>

definition timedelta_nonpositive :: "timedelta \<Rightarrow> bool" where
  "timedelta_nonpositive d \<longleftrightarrow> td_days d < 0 \<or>
     (td_days d = 0 \<and> (td_seconds d < 0 \<or> (td_seconds d = 0 \<and> td_microseconds d \<le> 0)))"

definition require_ttl :: "timedelta \<Rightarrow> unit res" where
  "require_ttl d = guard (\<not> timedelta_nonpositive d)
     (ValueError ''writer lease ttl must be a positive timedelta'')"

definition ttl_microseconds :: "timedelta \<Rightarrow> int res" where
  "ttl_microseconds d = (if timedelta_nonpositive d
     then Inl (ValueError ''writer lease ttl must be a positive timedelta'')
     else Inr ((td_days d * 86400 + td_seconds d) * 1000000 + td_microseconds d))"

section \<open>The authority table\<close>

definition POSTGRES_BIGINT_MAX :: int where
  "POSTGRES_BIGINT_MAX = 2 ^ 63 - 1"

record authority_row =
  ar_owner_id :: string
  ar_generation :: int
  ar_leased_until :: int
  ar_revoked :: bool
  ar_updated_at :: int

type_synonym authority_table = "string \<Rightarrow> authority_row option"

definition authority_from_row :: "int \<Rightarrow> string \<Rightarrow> authority_row \<Rightarrow> int \<Rightarrow> writer_authority res" where
  "authority_from_row cfg run r now =
     res_bind (make_writer_token cfg run (ar_owner_id r) (ar_generation r)) (\<lambda>t.
     Inr \<lparr>wu_token = t, wu_leased_until = ar_leased_until r, wu_observed_at = now,
          wu_revoked = ar_revoked r\<rparr>)"

definition read_locked :: "int \<Rightarrow> authority_table \<Rightarrow> string \<Rightarrow> int \<Rightarrow> writer_authority option res" where
  "read_locked cfg tbl run now = (case tbl run of
      None \<Rightarrow> Inr None
    | Some r \<Rightarrow> res_bind (authority_from_row cfg run r now) (\<lambda>a. Inr (Some a)))"

text \<open>The first insertion: a revoked placeholder unless the run has a row, then its activation
  from a clock sampled after the insertion.\<close>

definition insert_placeholder :: "authority_table \<Rightarrow> string \<Rightarrow> string \<Rightarrow> int \<Rightarrow> authority_table option" where
  "insert_placeholder tbl run owner now = (case tbl run of
      Some _ \<Rightarrow> None
    | None \<Rightarrow> Some (tbl(run \<mapsto> \<lparr>ar_owner_id = owner, ar_generation = 1, ar_leased_until = now,
                                ar_revoked = True, ar_updated_at = now\<rparr>)))"

definition activate_placeholder :: "authority_table \<Rightarrow> string \<Rightarrow> string \<Rightarrow> int \<Rightarrow> int \<Rightarrow>
    (authority_table \<times> authority_row) option" where
  "activate_placeholder tbl run owner ttl now = (case tbl run of
      None \<Rightarrow> None
    | Some r \<Rightarrow> if ar_owner_id r = owner \<and> ar_generation r = 1 \<and> ar_revoked r
        then (let r' = r\<lparr>ar_leased_until := now + ttl, ar_revoked := False, ar_updated_at := now\<rparr>
              in Some (tbl(run \<mapsto> r'), r'))
        else None)"

definition insert_first :: "int \<Rightarrow> authority_table \<Rightarrow> string \<Rightarrow> string \<Rightarrow> int \<Rightarrow> (nat \<Rightarrow> int) \<Rightarrow>
    (authority_table \<times> writer_lease option) res" where
  "insert_first cfg tbl run owner ttl clk = (case insert_placeholder tbl run owner (clk 1) of
      None \<Rightarrow> Inr (tbl, None)
    | Some tbl1 \<Rightarrow> (case activate_placeholder tbl1 run owner ttl (clk 2) of
          None \<Rightarrow> Inl (RuntimeFault ''writer claim could not activate its inserted row'')
        | Some (tbl2, r) \<Rightarrow> res_bind (authority_from_row cfg run r (clk 2)) (\<lambda>a.
            res_bind (lease_of_authority a) (\<lambda>l. Inr (tbl2, Some l)))))"

text \<open>A takeover raises the generation, a \<open>bigint\<close>: beyond its range the statement fails.\<close>

definition take_over :: "int \<Rightarrow> authority_table \<Rightarrow> string \<Rightarrow> string \<Rightarrow> int \<Rightarrow> int \<Rightarrow>
    (authority_table \<times> writer_lease) res" where
  "take_over cfg tbl run owner ttl now = (case tbl run of
      None \<Rightarrow> Inl (RuntimeFault ''writer authority disappeared during takeover'')
    | Some r \<Rightarrow> if ar_generation r + 1 > POSTGRES_BIGINT_MAX then Inl (DatabaseError False)
        else (let r' = \<lparr>ar_owner_id = owner, ar_generation = ar_generation r + 1,
                        ar_leased_until = now + ttl, ar_revoked = False, ar_updated_at = now\<rparr>
              in res_bind (authority_from_row cfg run r' now) (\<lambda>a.
                 res_bind (lease_of_authority a) (\<lambda>l. Inr (tbl(run \<mapsto> r'), l)))))"

text \<open>What a claim does with the row it has locked.\<close>

definition claim_existing :: "int \<Rightarrow> authority_table \<Rightarrow> string \<Rightarrow> string \<Rightarrow> int \<Rightarrow> writer_authority \<Rightarrow>
    int \<Rightarrow> (authority_table \<times> writer_lease) res" where
  "claim_existing cfg tbl run owner ttl current now =
     (if wu_active current then
        (if wt_owner_id (wu_token current) = owner
         then res_bind (lease_of_authority current) (\<lambda>l. Inr (tbl, l))
         else Inl (WriterLeaseUnavailable (wt_owner_id (wu_token current))
                     (wt_generation (wu_token current))))
      else take_over cfg tbl run owner ttl now)"

text \<open>The body of \<open>claim\<close>. \<open>tbl'\<close> is the table the insertion finds: when the run had no row to
  lock, other transactions may have committed in between.\<close>

definition claim_locked :: "int \<Rightarrow> authority_table \<Rightarrow> authority_table \<Rightarrow> string \<Rightarrow> string \<Rightarrow> int \<Rightarrow>
    (nat \<Rightarrow> int) \<Rightarrow> (authority_table \<times> writer_lease) res" where
  "claim_locked cfg tbl tbl' run owner ttl clk =
     res_bind (read_locked cfg tbl run (clk 0)) (\<lambda>cur. case cur of
       Some current \<Rightarrow> claim_existing cfg tbl run owner ttl current (clk 4)
     | None \<Rightarrow> res_bind (insert_first cfg tbl' run owner ttl clk) (\<lambda>(tbl2, inserted).
         case inserted of
           Some l \<Rightarrow> Inr (tbl2, l)
         | None \<Rightarrow> res_bind (read_locked cfg tbl' run (clk 3)) (\<lambda>cur'. case cur' of
               None \<Rightarrow> Inl (RuntimeFault ''writer claim conflict lost its winner'')
             | Some current \<Rightarrow> claim_existing cfg tbl' run owner ttl current (clk 4))))"

definition claim :: "int \<Rightarrow> bool \<Rightarrow> authority_table \<Rightarrow> authority_table \<Rightarrow> string \<Rightarrow> string \<Rightarrow> timedelta \<Rightarrow>
    (nat \<Rightarrow> int) \<Rightarrow> (authority_table \<times> writer_lease) res" where
  "claim cfg ready tbl tbl' run owner ttl clk =
     res_bind (guard ready (SchemaIncompatible ''writer authority store'')) (\<lambda>_.
     res_bind (guard (opaque_id run) (ValueError ''writer claim run_id must be a bounded opaque id'')) (\<lambda>_.
     res_bind (guard (opaque_id owner) (ValueError ''writer claim owner_id must be a bounded opaque id'')) (\<lambda>_.
     res_bind (ttl_microseconds ttl) (\<lambda>us.
     claim_locked cfg tbl tbl' run owner us clk))))"

text \<open>The condition of the two updates by an exact token.\<close>

definition row_matches :: "authority_table \<Rightarrow> writer_token \<Rightarrow> int \<Rightarrow> authority_row option" where
  "row_matches tbl t now = (case tbl (wt_run_id t) of
      None \<Rightarrow> None
    | Some r \<Rightarrow> if ar_owner_id r = wt_owner_id t \<and> ar_generation r = wt_generation t \<and>
                   \<not> ar_revoked r \<and> now < ar_leased_until r
        then Some r else None)"

definition renew_locked :: "int \<Rightarrow> authority_table \<Rightarrow> writer_token \<Rightarrow> int \<Rightarrow> (nat \<Rightarrow> int) \<Rightarrow>
    (authority_table \<times> renew_result) res" where
  "renew_locked cfg tbl t ttl clk =
     res_bind (read_locked cfg tbl (wt_run_id t) (clk 0)) (\<lambda>cur.
       if (case cur of None \<Rightarrow> True | Some a \<Rightarrow> wu_token a \<noteq> t \<or> \<not> wu_active a)
       then Inr (tbl, RenewFenced cur)
       else case row_matches tbl t (clk 1) of
           None \<Rightarrow> res_bind (read_locked cfg tbl (wt_run_id t) (clk 2)) (\<lambda>cur'.
             Inr (tbl, RenewFenced cur'))
         | Some r \<Rightarrow> (let r' = r\<lparr>ar_leased_until := clk 1 + ttl, ar_updated_at := clk 1\<rparr> in
             res_bind (authority_from_row cfg (wt_run_id t) r' (clk 1)) (\<lambda>a.
             res_bind (lease_of_authority a) (\<lambda>l. Inr (tbl(wt_run_id t \<mapsto> r'), Renewed l)))))"

definition renew :: "int \<Rightarrow> bool \<Rightarrow> authority_table \<Rightarrow> writer_token \<Rightarrow> timedelta \<Rightarrow> (nat \<Rightarrow> int) \<Rightarrow>
    (authority_table \<times> renew_result) res" where
  "renew cfg ready tbl t ttl clk =
     res_bind (guard ready (SchemaIncompatible ''writer authority store'')) (\<lambda>_.
     res_bind (ttl_microseconds ttl) (\<lambda>us. renew_locked cfg tbl t us clk))"

definition release_locked :: "int \<Rightarrow> authority_table \<Rightarrow> writer_token \<Rightarrow> (nat \<Rightarrow> int) \<Rightarrow>
    (authority_table \<times> release_result) res" where
  "release_locked cfg tbl t clk =
     res_bind (read_locked cfg tbl (wt_run_id t) (clk 0)) (\<lambda>cur. case cur of
       None \<Rightarrow> Inr (tbl, ReleaseFenced None)
     | Some a \<Rightarrow>
         if wu_token a \<noteq> t then Inr (tbl, ReleaseFenced cur)
         else if wu_revoked a then Inr (tbl, AlreadyReleased a)
         else if \<not> wu_active a then Inr (tbl, ReleaseFenced cur)
         else case row_matches tbl t (clk 1) of
             None \<Rightarrow> res_bind (read_locked cfg tbl (wt_run_id t) (clk 2)) (\<lambda>cur'.
               Inr (tbl, ReleaseFenced cur'))
           | Some r \<Rightarrow> (let r' = r\<lparr>ar_leased_until := clk 1, ar_revoked := True,
                                   ar_updated_at := clk 1\<rparr> in
               res_bind (authority_from_row cfg (wt_run_id t) r' (clk 1)) (\<lambda>a'.
               Inr (tbl(wt_run_id t \<mapsto> r'), Released a'))))"

definition release :: "int \<Rightarrow> bool \<Rightarrow> authority_table \<Rightarrow> writer_token \<Rightarrow> (nat \<Rightarrow> int) \<Rightarrow>
    (authority_table \<times> release_result) res" where
  "release cfg ready tbl t clk =
     res_bind (guard ready (SchemaIncompatible ''writer authority store'')) (\<lambda>_.
     release_locked cfg tbl t clk)"

definition read_authority :: "int \<Rightarrow> bool \<Rightarrow> authority_table \<Rightarrow> string \<Rightarrow> int \<Rightarrow>
    writer_authority option res" where
  "read_authority cfg ready tbl run now =
     res_bind (guard ready (SchemaIncompatible ''writer authority store'')) (\<lambda>_.
     res_bind (guard (opaque_id run)
       (ValueError ''writer authority run_id must be a bounded opaque id'')) (\<lambda>_.
     read_locked cfg tbl run now))"

text \<open>The fence of every journal mutation (\<open>_current_writer_locked\<close> of the sink).\<close>

definition current_writer_locked :: "int \<Rightarrow> authority_table \<Rightarrow> writer_token \<Rightarrow> int \<Rightarrow> bool res" where
  "current_writer_locked cfg tbl t now =
     res_bind (read_locked cfg tbl (wt_run_id t) now) (\<lambda>cur.
       Inr (case cur of None \<Rightarrow> False | Some a \<Rightarrow> wu_token a = t \<and> wu_active a))"

section \<open>Claiming and renewing through an unreliable store\<close>

text \<open>The exceptions the claim helper passes on; any other is ambiguous.\<close>

fun claim_definite :: "exn \<Rightarrow> bool" where
  "claim_definite (WriterLeaseUnavailable _ _) = True"
| "claim_definite (TypeError _) = True"
| "claim_definite e = is_value_error e"

definition validate_claimed_lease :: "writer_lease \<Rightarrow> string \<Rightarrow> string \<Rightarrow> writer_lease res" where
  "validate_claimed_lease l run owner =
     (if wt_run_id (wl_token l) \<noteq> run \<or> wt_owner_id (wl_token l) \<noteq> owner
      then Inl (TypeError ''writer authority store returned an invalid claim'') else Inr l)"

text \<open>The lease recovered by the final read.\<close>

definition claim_from_read :: "string \<Rightarrow> string \<Rightarrow> exn \<Rightarrow> writer_authority option \<Rightarrow> writer_lease res" where
  "claim_from_read run owner first_error seen = (case seen of
      None \<Rightarrow> Inl first_error
    | Some a \<Rightarrow>
        if wt_run_id (wu_token a) \<noteq> run
        then Inl (TypeError ''writer authority store observed a different run'')
        else if \<not> wu_active a then Inl first_error
        else if wt_owner_id (wu_token a) \<noteq> owner
        then Inl (WriterLeaseUnavailable (wt_owner_id (wu_token a)) (wt_generation (wu_token a)))
        else lease_of_authority a)"

text \<open>\<open>claim_op\<close> and \<open>read_op\<close> are the store's calls, on a world that holds its state.\<close>

definition claim_writer_lease :: "('w, writer_lease) operation \<Rightarrow>
    ('w, writer_authority option) operation \<Rightarrow> string \<Rightarrow> string \<Rightarrow> timedelta \<Rightarrow>
    ('w, writer_lease) operation" where
  "claim_writer_lease claim_op read_op run owner ttl w = (case require_ttl ttl of
      Inl e \<Rightarrow> (w, Inl e)
    | Inr _ \<Rightarrow> (case claim_op w of
        (w1, Inr l) \<Rightarrow> (w1, validate_claimed_lease l run owner)
      | (w1, Inl first) \<Rightarrow>
          if claim_definite first then (w1, Inl first)
          else (case claim_op w1 of
              (w2, Inr l) \<Rightarrow> (w2, validate_claimed_lease l run owner)
            | (w2, Inl second) \<Rightarrow>
                if claim_definite second then (w2, Inl second)
                else (case read_op w2 of
                    (w3, Inl _) \<Rightarrow> (w3, Inl first)
                  | (w3, Inr seen) \<Rightarrow> (w3, res_bind (claim_from_read run owner first seen)
                       (\<lambda>l. validate_claimed_lease l run owner))))))"

text \<open>Renewal: every outcome but a renewed lease of this token revokes the process-local authority.\<close>

definition renew_writer_lease :: "('w \<Rightarrow> 'cb write_authority) \<Rightarrow>
    ('cb write_authority \<Rightarrow> 'w \<Rightarrow> 'w) \<Rightarrow> ('w, renew_result) operation \<Rightarrow> writer_token \<Rightarrow> timedelta \<Rightarrow>
    ('w, renew_result) operation" where
  "renew_writer_lease auth set_auth renew_op t ttl w = (case require_ttl ttl of
      Inl e \<Rightarrow> (w, Inl e)
    | Inr _ \<Rightarrow> (case renew_op w of (w', r) \<Rightarrow>
        (let revoked = set_auth (fst (authority_revoke (auth w'))) w' in
         case r of
           Inl e \<Rightarrow> (revoked, Inl e)
         | Inr (Renewed l) \<Rightarrow> if wl_token l \<noteq> t
             then (revoked, Inl (TypeError ''writer authority store renewed a different writer token''))
             else (w', Inr (Renewed l))
         | Inr (RenewFenced a) \<Rightarrow> (revoked, Inr (RenewFenced a)))))"

section \<open>Laws of rows\<close>

definition row_ok :: "string \<Rightarrow> authority_row \<Rightarrow> bool" where
  "row_ok run r \<longleftrightarrow> opaque_id run \<and> opaque_id (ar_owner_id r) \<and> 1 \<le> ar_generation r \<and>
     ar_generation r \<le> POSTGRES_BIGINT_MAX"

definition table_ok :: "authority_table \<Rightarrow> bool" where
  "table_ok tbl \<longleftrightarrow> (\<forall>run r. tbl run = Some r \<longrightarrow> row_ok run r)"

definition row_token :: "string \<Rightarrow> authority_row \<Rightarrow> writer_token" where
  "row_token run r = \<lparr>wt_run_id = run, wt_owner_id = ar_owner_id r, wt_generation = ar_generation r\<rparr>"

definition row_authority :: "string \<Rightarrow> authority_row \<Rightarrow> int \<Rightarrow> writer_authority" where
  "row_authority run r now = \<lparr>wu_token = row_token run r, wu_leased_until = ar_leased_until r,
     wu_observed_at = now, wu_revoked = ar_revoked r\<rparr>"

definition row_active :: "authority_row \<Rightarrow> int \<Rightarrow> bool" where
  "row_active r now \<longleftrightarrow> \<not> ar_revoked r \<and> now < ar_leased_until r"

lemma ttl_positive: "timedelta_normal d \<Longrightarrow> ttl_microseconds d = Inr us \<Longrightarrow> 0 < us"
  by (auto simp: timedelta_normal_def ttl_microseconds_def timedelta_nonpositive_def split: if_splits)

lemma bigint_portable:
  assumes "digits_limit_ok cfg" and "0 \<le> n" and "n \<le> POSTGRES_BIGINT_MAX"
  shows "is_portable_json_integer cfg (IInt n)"
proof -
  have "20 \<le> spellable_integer_digits cfg"
    using assms(1) by (auto simp: digits_limit_ok_def spellable_integer_digits_def
        MAX_JSON_INTEGER_DIGITS_def)
  then have "(10::int) ^ 20 \<le> digit_bound_magnitude (spellable_integer_digits cfg)"
    unfolding digit_bound_magnitude_def by (intro power_increasing) simp_all
  moreover have "n < 10 ^ 20" using assms(3) by (simp add: POSTGRES_BIGINT_MAX_def)
  ultimately have "n < digit_bound_magnitude (spellable_integer_digits cfg)" by linarith
  moreover have "0 < digit_bound_magnitude (spellable_integer_digits cfg)"
    by (simp add: digit_bound_magnitude_def)
  ultimately show ?thesis using assms(2)
    by (simp add: is_portable_json_integer_def Let_def UNCONDITIONALLY_SPELLABLE_INT_def)
qed

named_theorems lease_simps \<open>reading rows that satisfy the constraints of the table\<close>

lemma authority_from_row_ok [lease_simps]:
  "digits_limit_ok cfg \<Longrightarrow> row_ok run r \<Longrightarrow>
     authority_from_row cfg run r now = Inr (row_authority run r now)"
  using bigint_portable [of cfg "ar_generation r"]
  by (simp add: authority_from_row_def make_writer_token_def row_ok_def row_authority_def
      row_token_def)

lemma wu_active_row [lease_simps]: "wu_active (row_authority run r now) = row_active r now"
  by (auto simp: wu_active_def row_authority_def row_active_def)

lemma row_authority_fields [lease_simps]:
  "wu_token (row_authority run r now) = row_token run r"
  "wu_revoked (row_authority run r now) = ar_revoked r"
  "wu_leased_until (row_authority run r now) = ar_leased_until r"
  "wu_observed_at (row_authority run r now) = now"
  "wt_run_id (row_token run r) = run"
  "wt_owner_id (row_token run r) = ar_owner_id r"
  "wt_generation (row_token run r) = ar_generation r"
  by (simp_all add: row_authority_def row_token_def)

lemma lease_of_row [lease_simps]:
  "lease_of_authority (row_authority run r now) =
     (if ar_leased_until r \<le> now
      then Inl (ValueError ''writer lease must be active at its observation instant'')
      else Inr \<lparr>wl_token = row_token run r, wl_leased_until = ar_leased_until r,
             wl_observed_at = now\<rparr>)"
  by (simp add: lease_of_authority_def make_writer_lease_def lease_simps)

lemma read_locked_ok:
  "digits_limit_ok cfg \<Longrightarrow> table_ok tbl \<Longrightarrow>
     read_locked cfg tbl run now = Inr (map_option (\<lambda>r. row_authority run r now) (tbl run))"
  by (simp add: read_locked_def table_ok_def lease_simps split: option.split)

lemma row_token_eq: "row_token run r = t \<longleftrightarrow>
    wt_run_id t = run \<and> wt_owner_id t = ar_owner_id r \<and> wt_generation t = ar_generation r"
  by (cases t) (auto simp: row_token_def)

lemma current_writer_ok:
  "digits_limit_ok cfg \<Longrightarrow> table_ok tbl \<Longrightarrow> current_writer_locked cfg tbl t now =
     Inr (\<exists>r. tbl (wt_run_id t) = Some r \<and> row_token (wt_run_id t) r = t \<and> row_active r now)"
  by (simp add: current_writer_locked_def read_locked_ok lease_simps split: option.split)

lemma row_matches_row:
  "row_matches tbl t now = (case tbl (wt_run_id t) of None \<Rightarrow> None
     | Some r \<Rightarrow> if row_token (wt_run_id t) r = t \<and> row_active r now then Some r else None)"
  by (auto simp: row_matches_def row_token_eq row_active_def split: option.split)

section \<open>What the three mutations do\<close>

lemma claim_locked_absent:
  assumes "digits_limit_ok cfg" and "tbl run = None" and "tbl' run = None"
    and "opaque_id run" and "opaque_id owner" and "0 < ttl"
  shows "claim_locked cfg tbl tbl' run owner ttl clk =
    (let r = \<lparr>ar_owner_id = owner, ar_generation = 1, ar_leased_until = clk 2 + ttl,
              ar_revoked = False, ar_updated_at = clk 2\<rparr> in
     Inr (tbl'(run \<mapsto> r), \<lparr>wl_token = row_token run r, wl_leased_until = clk 2 + ttl,
                           wl_observed_at = clk 2\<rparr>))"
proof -
  have "row_ok run \<lparr>ar_owner_id = owner, ar_generation = 1, ar_leased_until = clk 2 + ttl,
      ar_revoked = False, ar_updated_at = clk 2\<rparr>"
    using assms by (simp add: row_ok_def POSTGRES_BIGINT_MAX_def)
  then show ?thesis using assms
    by (simp add: claim_locked_def read_locked_def insert_first_def insert_placeholder_def
        activate_placeholder_def Let_def lease_simps)
qed

text \<open>A claim on a row it finds, whether at once or after losing the insertion.\<close>

definition settled_claim :: "authority_table \<Rightarrow> string \<Rightarrow> string \<Rightarrow> int \<Rightarrow> authority_row \<Rightarrow> int \<Rightarrow> int \<Rightarrow>
    (authority_table \<times> writer_lease) res" where
  "settled_claim tbl run owner ttl r now later =
     (if row_active r now then
        (if ar_owner_id r = owner
         then Inr (tbl, \<lparr>wl_token = row_token run r, wl_leased_until = ar_leased_until r,
                        wl_observed_at = now\<rparr>)
         else Inl (WriterLeaseUnavailable (ar_owner_id r) (ar_generation r)))
      else if ar_generation r + 1 > POSTGRES_BIGINT_MAX then Inl (DatabaseError False)
      else (let r' = \<lparr>ar_owner_id = owner, ar_generation = ar_generation r + 1,
                      ar_leased_until = later + ttl, ar_revoked = False, ar_updated_at = later\<rparr> in
        Inr (tbl(run \<mapsto> r'), \<lparr>wl_token = row_token run r', wl_leased_until = later + ttl,
                             wl_observed_at = later\<rparr>)))"

lemma claim_existing_ok:
  assumes "digits_limit_ok cfg" and "tbl run = Some r" and "row_ok run r"
    and "opaque_id owner" and "0 < ttl"
  shows "claim_existing cfg tbl run owner ttl (row_authority run r now) later =
    settled_claim tbl run owner ttl r now later"
proof -
  have "row_ok run \<lparr>ar_owner_id = owner, ar_generation = ar_generation r + 1,
      ar_leased_until = later + ttl, ar_revoked = False, ar_updated_at = later\<rparr>"
    if "ar_generation r + 1 \<le> POSTGRES_BIGINT_MAX"
    using assms that by (simp add: row_ok_def)
  then show ?thesis using assms
    by (auto simp: claim_existing_def settled_claim_def take_over_def Let_def lease_simps
        row_active_def)
qed

lemma claim_locked_found:
  assumes "digits_limit_ok cfg" and "table_ok tbl" and "table_ok tbl'" and "opaque_id owner"
    and "0 < ttl" and "tbl' run = Some r" and "tbl run \<noteq> None \<longrightarrow> tbl = tbl'"
  shows "claim_locked cfg tbl tbl' run owner ttl clk =
    settled_claim tbl' run owner ttl r (if tbl run = None then clk 3 else clk 0) (clk 4)"
proof -
  have r: "row_ok run r" using assms by (simp add: table_ok_def)
  show ?thesis
  proof (cases "tbl run")
    case None
    then have "claim_locked cfg tbl tbl' run owner ttl clk =
        claim_existing cfg tbl' run owner ttl (row_authority run r (clk 3)) (clk 4)"
      using assms by (simp add: claim_locked_def read_locked_ok insert_first_def
          insert_placeholder_def)
    with None show ?thesis using claim_existing_ok assms r by simp
  next
    case (Some r0)
    with assms(7) have t: "tbl' = tbl" by simp
    show ?thesis using claim_existing_ok [OF assms(1) _ r assms(4,5), of tbl] assms(1,2,6)
      unfolding t by (simp add: claim_locked_def read_locked_ok)
  qed
qed

lemma renew_locked_ok:
  assumes "digits_limit_ok cfg" and "table_ok tbl" and "0 < ttl"
  shows "renew_locked cfg tbl t ttl clk =
    (case tbl (wt_run_id t) of
       None \<Rightarrow> Inr (tbl, RenewFenced None)
     | Some r \<Rightarrow>
         if row_token (wt_run_id t) r \<noteq> t \<or> \<not> row_active r (clk 0)
         then Inr (tbl, RenewFenced (Some (row_authority (wt_run_id t) r (clk 0))))
         else if \<not> row_active r (clk 1)
         then Inr (tbl, RenewFenced (Some (row_authority (wt_run_id t) r (clk 2))))
         else Inr (tbl(wt_run_id t \<mapsto> r\<lparr>ar_leased_until := clk 1 + ttl, ar_updated_at := clk 1\<rparr>),
                Renewed \<lparr>wl_token = t, wl_leased_until = clk 1 + ttl, wl_observed_at = clk 1\<rparr>))"
proof (cases "tbl (wt_run_id t)")
  case (Some r)
  then have "row_ok (wt_run_id t) r" using assms(2) by (simp add: table_ok_def)
  then have "row_ok (wt_run_id t) (r\<lparr>ar_leased_until := clk 1 + ttl, ar_updated_at := clk 1\<rparr>)"
    by (simp add: row_ok_def)
  then show ?thesis using assms Some
    by (simp add: renew_locked_def read_locked_ok row_matches_row Let_def lease_simps row_token_eq)
qed (use assms in \<open>simp add: renew_locked_def read_locked_ok\<close>)

lemma release_locked_ok:
  assumes "digits_limit_ok cfg" and "table_ok tbl"
  shows "release_locked cfg tbl t clk =
    (case tbl (wt_run_id t) of
       None \<Rightarrow> Inr (tbl, ReleaseFenced None)
     | Some r \<Rightarrow>
         if row_token (wt_run_id t) r \<noteq> t
         then Inr (tbl, ReleaseFenced (Some (row_authority (wt_run_id t) r (clk 0))))
         else if ar_revoked r then Inr (tbl, AlreadyReleased (row_authority (wt_run_id t) r (clk 0)))
         else if \<not> row_active r (clk 0)
         then Inr (tbl, ReleaseFenced (Some (row_authority (wt_run_id t) r (clk 0))))
         else if \<not> row_active r (clk 1)
         then Inr (tbl, ReleaseFenced (Some (row_authority (wt_run_id t) r (clk 2))))
         else (let r' = r\<lparr>ar_leased_until := clk 1, ar_revoked := True, ar_updated_at := clk 1\<rparr> in
           Inr (tbl(wt_run_id t \<mapsto> r'), Released (row_authority (wt_run_id t) r' (clk 1)))))"
proof (cases "tbl (wt_run_id t)")
  case (Some r)
  then have "row_ok (wt_run_id t) r" using assms(2) by (simp add: table_ok_def)
  then have "row_ok (wt_run_id t)
      (r\<lparr>ar_leased_until := clk 1, ar_revoked := True, ar_updated_at := clk 1\<rparr>)"
    by (simp add: row_ok_def)
  then show ?thesis using assms Some
    by (simp add: release_locked_def read_locked_ok row_matches_row Let_def lease_simps)
qed (use assms in \<open>simp add: release_locked_def read_locked_ok\<close>)

section \<open>Histories of the table\<close>

datatype authority_op =
    ClaimOp string string timedelta "nat \<Rightarrow> int"
  | RenewOp writer_token timedelta "nat \<Rightarrow> int"
  | ReleaseOp writer_token "nat \<Rightarrow> int"

text \<open>A transaction that raises is rolled back.\<close>

definition committed :: "authority_table \<Rightarrow> (authority_table \<times> 'a) res \<Rightarrow> authority_table" where
  "committed tbl m = (case m of Inl _ \<Rightarrow> tbl | Inr (tbl', _) \<Rightarrow> tbl')"

fun authority_apply :: "int \<Rightarrow> authority_op \<Rightarrow> authority_table \<Rightarrow> authority_table" where
  "authority_apply cfg (ClaimOp run owner ttl clk) tbl =
     committed tbl (claim cfg True tbl tbl run owner ttl clk)"
| "authority_apply cfg (RenewOp t ttl clk) tbl = committed tbl (renew cfg True tbl t ttl clk)"
| "authority_apply cfg (ReleaseOp t clk) tbl = committed tbl (release cfg True tbl t clk)"

fun op_ttl_normal :: "authority_op \<Rightarrow> bool" where
  "op_ttl_normal (ClaimOp _ _ ttl _) = timedelta_normal ttl"
| "op_ttl_normal (RenewOp _ ttl _) = timedelta_normal ttl"
| "op_ttl_normal (ReleaseOp _ _) = True"

fun op_clock :: "authority_op \<Rightarrow> nat \<Rightarrow> int" where
  "op_clock (ClaimOp _ _ _ clk) = clk"
| "op_clock (RenewOp _ _ clk) = clk"
| "op_clock (ReleaseOp _ clk) = clk"

text \<open>How the row of a run may change in one transaction whose clock readings are \<open>clk\<close>.\<close>

inductive row_step :: "(nat \<Rightarrow> int) \<Rightarrow> string \<Rightarrow> authority_row option \<Rightarrow> authority_row option \<Rightarrow> bool"
  for clk :: "nat \<Rightarrow> int" and run :: string where
  keep: "row_step clk run x x"
| first: "opaque_id run \<Longrightarrow> row_ok run r \<Longrightarrow> ar_generation r = 1 \<Longrightarrow> row_step clk run None (Some r)"
| take: "\<not> row_active r (clk 0) \<Longrightarrow> row_ok run r' \<Longrightarrow> ar_generation r' = ar_generation r + 1 \<Longrightarrow>
     row_step clk run (Some r) (Some r')"
| extend: "row_active r (clk 0) \<Longrightarrow> row_ok run r' \<Longrightarrow> ar_generation r' = ar_generation r \<Longrightarrow>
     ar_owner_id r' = ar_owner_id r \<Longrightarrow> row_step clk run (Some r) (Some r')"

inductive_cases row_step_SomeE: "row_step clk run (Some r) y"
inductive_cases row_step_toE: "row_step clk run x (Some r')"

lemma settled_claim_step:
  assumes "row_ok run r" and "opaque_id owner" and "tbl run = Some r"
    and "settled_claim tbl run owner ttl r (clk 0) later = Inr (tbl2, l)"
  shows "row_step clk k (tbl k) (tbl2 k)"
proof (cases "row_active r (clk 0)")
  case True
  with assms have "tbl2 = tbl" by (auto simp: settled_claim_def split: if_splits)
  then show ?thesis by (simp add: row_step.keep)
next
  case False
  let ?r = "\<lparr>ar_owner_id = owner, ar_generation = ar_generation r + 1, ar_leased_until = later + ttl,
      ar_revoked = False, ar_updated_at = later\<rparr>"
  from False assms(4) have t: "tbl2 = tbl(run \<mapsto> ?r)" and g: "ar_generation r + 1 \<le> POSTGRES_BIGINT_MAX"
    by (auto simp: settled_claim_def Let_def split: if_splits)
  have "row_ok run ?r" using assms(1,2) g by (simp add: row_ok_def)
  then show ?thesis using False assms(3) unfolding t
    by (auto intro: row_step.keep row_step.take)
qed

lemma authority_step:
  assumes "digits_limit_ok cfg" and "table_ok tbl" and "op_ttl_normal x"
  shows "row_step (op_clock x) k (tbl k) (authority_apply cfg x tbl k)"
proof (cases x)
  case (ClaimOp run owner ttl clk)
  show ?thesis
  proof (cases "claim cfg True tbl tbl run owner ttl clk")
    case (Inr p)
    obtain tbl2 l where p: "p = (tbl2, l)" by (cases p)
    from Inr obtain us where o: "opaque_id run" "opaque_id owner" and us: "ttl_microseconds ttl = Inr us"
      and c: "claim_locked cfg tbl tbl run owner us clk = Inr (tbl2, l)"
      by (auto simp: claim_def res_bind_eq_Inr p)
    have pos: "0 < us" using ttl_positive us assms(3) ClaimOp by simp
    have "row_step clk k (tbl k) (tbl2 k)"
    proof (cases "tbl run")
      case None
      with c claim_locked_absent [OF assms(1), of tbl run tbl owner us clk] o pos
      have t: "tbl2 = tbl(run \<mapsto> \<lparr>ar_owner_id = owner, ar_generation = 1, ar_leased_until = clk 2 + us,
          ar_revoked = False, ar_updated_at = clk 2\<rparr>)" by (simp add: Let_def)
      show ?thesis using None o unfolding t
        by (auto intro!: row_step.keep row_step.first simp: row_ok_def POSTGRES_BIGINT_MAX_def)
    next
      case (Some r)
      with assms(2) have "row_ok run r" by (simp add: table_ok_def)
      then show ?thesis
        using settled_claim_step Some o(2) c
          claim_locked_found [OF assms(1,2,2) o(2) pos, of run r clk] by simp
    qed
    then show ?thesis by (simp add: ClaimOp committed_def Inr p)
  qed (simp add: ClaimOp committed_def row_step.keep)
next
  case (RenewOp t ttl clk)
  show ?thesis
  proof (cases "ttl_microseconds ttl")
    case (Inr us)
    have pos: "0 < us" using ttl_positive Inr assms(3) RenewOp by simp
    show ?thesis
    proof (cases "tbl (wt_run_id t)")
      case (Some r)
      with assms(2) have "row_ok (wt_run_id t) r" by (simp add: table_ok_def)
      with Some Inr show ?thesis
        by (auto simp: RenewOp committed_def renew_def renew_locked_ok [OF assms(1,2) pos] row_ok_def
            intro!: row_step.keep row_step.extend)
    qed (simp add: RenewOp committed_def renew_def Inr renew_locked_ok [OF assms(1,2) pos] row_step.keep)
  qed (simp add: RenewOp committed_def renew_def row_step.keep)
next
  case (ReleaseOp t clk)
  show ?thesis
  proof (cases "tbl (wt_run_id t)")
    case (Some r)
    with assms(2) have "row_ok (wt_run_id t) r" by (simp add: table_ok_def)
    with Some show ?thesis
      by (auto simp: ReleaseOp committed_def release_def release_locked_ok [OF assms(1,2)] row_ok_def
          Let_def intro!: row_step.keep row_step.extend)
  qed (simp add: ReleaseOp committed_def release_def release_locked_ok [OF assms(1,2)] row_step.keep)
qed

lemma table_ok_step:
  assumes "digits_limit_ok cfg" and "table_ok tbl" and "op_ttl_normal x"
  shows "table_ok (authority_apply cfg x tbl)"
  unfolding table_ok_def
proof (intro allI impI)
  fix run r' assume "authority_apply cfg x tbl run = Some r'"
  with authority_step [OF assms, of run] have "row_step (op_clock x) run (tbl run) (Some r')" by simp
  then show "row_ok run r'" using assms(2) by (auto elim: row_step_toE simp: table_ok_def)
qed

lemma table_ok_history:
  "digits_limit_ok cfg \<Longrightarrow> table_ok tbl \<Longrightarrow> list_all op_ttl_normal ops \<Longrightarrow>
     table_ok (fold (authority_apply cfg) ops tbl)"
  by (induction ops arbitrary: tbl) (auto simp: table_ok_step)

text \<open>A token that no longer writes: superseded, of another owner, released or expired.\<close>

definition token_lost :: "authority_table \<Rightarrow> writer_token \<Rightarrow> int \<Rightarrow> bool" where
  "token_lost tbl t now \<longleftrightarrow> (\<exists>r. tbl (wt_run_id t) = Some r \<and>
     (wt_generation t < ar_generation r \<or>
      (wt_generation t = ar_generation r \<and> (ar_owner_id r \<noteq> wt_owner_id t \<or> \<not> row_active r now))))"

lemma row_active_mono: "row_active r later \<Longrightarrow> now \<le> later \<Longrightarrow> row_active r now"
  by (auto simp: row_active_def)

lemma token_lost_step:
  assumes "digits_limit_ok cfg" and "table_ok tbl" and "op_ttl_normal x"
    and "\<And>i. now \<le> op_clock x i" and "token_lost tbl t now"
  shows "token_lost (authority_apply cfg x tbl) t now"
proof -
  from assms(5) obtain r where r: "tbl (wt_run_id t) = Some r" and l: "wt_generation t < ar_generation r \<or>
      (wt_generation t = ar_generation r \<and> (ar_owner_id r \<noteq> wt_owner_id t \<or> \<not> row_active r now))"
    by (auto simp: token_lost_def)
  from authority_step [OF assms(1-3), of "wt_run_id t"]
  have "row_step (op_clock x) (wt_run_id t) (Some r) (authority_apply cfg x tbl (wt_run_id t))"
    by (simp add: r)
  then show ?thesis using l row_active_mono [OF _ assms(4)]
    by (elim row_step_SomeE) (auto simp: token_lost_def)
qed

lemma token_lost_history:
  assumes "digits_limit_ok cfg" and "table_ok tbl" and "list_all op_ttl_normal ops"
    and "list_all (\<lambda>x. \<forall>i. now \<le> op_clock x i) ops" and "token_lost tbl t now"
  shows "token_lost (fold (authority_apply cfg) ops tbl) t now"
  using assms
  by (induction ops arbitrary: tbl) (auto simp: table_ok_step token_lost_step)

lemma token_lost_not_current:
  assumes "digits_limit_ok cfg" and "table_ok tbl" and "token_lost tbl t now" and "now \<le> later"
  shows "current_writer_locked cfg tbl t later = Inr False"
  using assms row_active_mono
  by (auto simp: current_writer_ok token_lost_def row_token_eq)

section \<open>Handover\<close>

text \<open>C15. A lost writer stays fenced. Once a token that was issued for a run does not pass the fence,
  because a later generation exists, its lease ran out or it was released, no history of claims,
  renewals and releases whose clock readings are not earlier makes it pass again: later writes with
  it are fenced, its renewal and release change nothing, and the generation of the run never falls.\<close>

theorem lost_writer_stays_fenced:
  assumes "digits_limit_ok cfg" and "table_ok tbl" and "list_all op_ttl_normal ops"
    and "list_all (\<lambda>x. \<forall>i. now \<le> op_clock x i) ops" and "now \<le> later" and "\<And>i. now \<le> clk i"
    and "tbl (wt_run_id t) = Some r" and "wt_generation t \<le> ar_generation r"
    and "current_writer_locked cfg tbl t now = Inr False" and "timedelta_normal ttl"
  shows "(let tbl' = fold (authority_apply cfg) ops tbl in
    current_writer_locked cfg tbl' t later = Inr False \<and>
    authority_apply cfg (RenewOp t ttl clk) tbl' = tbl' \<and>
    authority_apply cfg (ReleaseOp t clk) tbl' = tbl' \<and>
    (\<exists>r'. tbl' (wt_run_id t) = Some r' \<and> wt_generation t \<le> ar_generation r'))"
proof -
  let ?t = "fold (authority_apply cfg) ops tbl"
  have "token_lost tbl t now" using assms(1,2,7-9)
    by (auto simp: token_lost_def current_writer_ok row_token_eq)
  then have lost: "token_lost ?t t now" using token_lost_history assms(1-4) by blast
  have ok: "table_ok ?t" using table_ok_history assms(1-3) by blast
  have cur: "current_writer_locked cfg ?t t k = Inr False" if "now \<le> k" for k
    using token_lost_not_current [OF assms(1) ok lost that] .
  from lost obtain r' where r': "?t (wt_run_id t) = Some r'" and g: "wt_generation t \<le> ar_generation r'"
    by (auto simp: token_lost_def)
  have dead: "\<not> (row_token (wt_run_id t) r' = t \<and> row_active r' (clk 0))"
    using cur [OF assms(6) [of 0]] r' by (simp add: current_writer_ok [OF assms(1) ok])
  have rel: "authority_apply cfg (ReleaseOp t clk) ?t = ?t"
    using dead r' by (auto simp: committed_def release_def release_locked_ok [OF assms(1) ok])
  have "authority_apply cfg (RenewOp t ttl clk) ?t = ?t"
  proof (cases "ttl_microseconds ttl")
    case (Inr us)
    have pos: "0 < us" using ttl_positive assms(10) Inr by blast
    show ?thesis using dead r'
      by (auto simp: committed_def renew_def Inr renew_locked_ok [OF assms(1) ok pos])
  qed (simp add: committed_def renew_def)
  with rel cur [OF assms(5)] r' g show ?thesis by (simp add: Let_def)
qed

definition demo_lease_row :: authority_row where
  "demo_lease_row = \<lparr>ar_owner_id = ''a'', ar_generation = 3, ar_leased_until = 50, ar_revoked = False,
     ar_updated_at = 10\<rparr>"

definition demo_leases :: authority_table where
  "demo_leases = [''r1'' \<mapsto> demo_lease_row]"

definition demo_ttl :: timedelta where
  "demo_ttl = \<lparr>td_days = 0, td_seconds = 1, td_microseconds = 0\<rparr>"

lemma demo_lease_facts:
  "digits_limit_ok 0" "table_ok demo_leases" "timedelta_normal demo_ttl" "opaque_id ''r1''"
  "opaque_id ''a''" "opaque_id ''b''"
  by (auto simp: digits_limit_ok_def table_ok_def demo_leases_def demo_lease_row_def row_ok_def
      POSTGRES_BIGINT_MAX_def timedelta_normal_def demo_ttl_def opaque_id_def is_alnum_char_def
      is_id_char_def is_lower_char_def is_digit_char_def in_range_def)

theorem lost_writer_stays_fenced_witness:
  "(let tbl' = fold (authority_apply 0) [ClaimOp ''r1'' ''b'' demo_ttl (\<lambda>_. 70)] demo_leases in
    current_writer_locked 0 tbl' \<lparr>wt_run_id = ''r1'', wt_owner_id = ''a'', wt_generation = 3\<rparr> 80
      = Inr False \<and>
    authority_apply 0 (RenewOp \<lparr>wt_run_id = ''r1'', wt_owner_id = ''a'', wt_generation = 3\<rparr> demo_ttl
      (\<lambda>_. 90)) tbl' = tbl' \<and>
    authority_apply 0 (ReleaseOp \<lparr>wt_run_id = ''r1'', wt_owner_id = ''a'', wt_generation = 3\<rparr>
      (\<lambda>_. 90)) tbl' = tbl' \<and> (\<exists>r'. tbl' ''r1'' = Some r' \<and> 3 \<le> ar_generation r'))"
proof -
  let ?t = "\<lparr>wt_run_id = ''r1'', wt_owner_id = ''a'', wt_generation = 3\<rparr>"
  have "current_writer_locked 0 demo_leases ?t 60 = Inr False"
    unfolding current_writer_ok [OF demo_lease_facts(1,2)]
    by (simp add: demo_leases_def demo_lease_row_def row_active_def)
  then show ?thesis
    using lost_writer_stays_fenced [of 0 demo_leases "[ClaimOp ''r1'' ''b'' demo_ttl (\<lambda>_. 70)]" 60 80
        "\<lambda>_. 90" ?t demo_lease_row demo_ttl] demo_lease_facts
    by (simp add: demo_leases_def demo_lease_row_def)
qed

lemma claim_hands_over:
  assumes "digits_limit_ok cfg" and "table_ok tbl" and "timedelta_normal ttl" and "k \<noteq> run"
    and "claim cfg True tbl tbl run owner ttl clk = Inr (tbl2, l)"
  shows "tbl2 k = tbl k"
proof -
  from assms(5) obtain us where o: "opaque_id run" "opaque_id owner" and us: "ttl_microseconds ttl = Inr us"
    and c: "claim_locked cfg tbl tbl run owner us clk = Inr (tbl2, l)"
    by (auto simp: claim_def res_bind_eq_Inr)
  have pos: "0 < us" using ttl_positive us assms(3) by blast
  show ?thesis
  proof (cases "tbl run")
    case None
    then show ?thesis
      using c claim_locked_absent [OF assms(1), of tbl run tbl owner us clk] o pos assms(4)
      by (auto simp: Let_def)
  next
    case (Some r)
    then show ?thesis
      using c claim_locked_found [OF assms(1,2,2) o(2) pos, of run r clk] assms(4)
      by (auto simp: settled_claim_def Let_def split: if_splits)
  qed
qed

text \<open>A claim hands over only what is free. A granted claim leaves its token as the run's current
  writer and touches no other run. If the run had a row, either its lease was active at the reading
  taken under the row lock, belongs to this very owner and is returned as it is, or it was released
  or expired at that reading and the generation is raised by one; an active lease of another owner
  refuses the claim. A run without a row starts at generation one, even when a concurrent insertion
  is lost to it: a claim that loses that race behaves as one that found the winner's row.\<close>

theorem claim_hands_over_free_leases:
  assumes "digits_limit_ok cfg" and "table_ok tbl" and "table_ok tbl'" and "timedelta_normal ttl"
    and "tbl run \<noteq> None \<longrightarrow> tbl = tbl'" and "read_at = (if tbl run = None then clk 3 else clk 0)"
  shows "(case claim cfg True tbl tbl' run owner ttl clk of
     Inr (tbl2, l) \<Rightarrow>
       current_writer_locked cfg tbl2 (wl_token l) (wl_observed_at l) = Inr True \<and>
       wt_owner_id (wl_token l) = owner \<and> (\<forall>k. k \<noteq> run \<longrightarrow> tbl2 k = tbl' k) \<and>
       (case tbl' run of
          None \<Rightarrow> wt_generation (wl_token l) = 1
        | Some r \<Rightarrow> if row_active r read_at
            then ar_owner_id r = owner \<and> wl_token l = row_token run r \<and>
              wl_leased_until l = ar_leased_until r \<and> tbl2 = tbl'
            else wt_generation (wl_token l) = ar_generation r + 1)
   | Inl e \<Rightarrow> opaque_id run \<longrightarrow> opaque_id owner \<longrightarrow> \<not> timedelta_nonpositive ttl \<longrightarrow>
       (\<exists>r. tbl' run = Some r \<and>
         (row_active r read_at \<and> ar_owner_id r \<noteq> owner \<and>
            e = WriterLeaseUnavailable (ar_owner_id r) (ar_generation r) \<or>
          \<not> row_active r read_at \<and> ar_generation r = POSTGRES_BIGINT_MAX)))"
proof (cases "opaque_id run \<and> opaque_id owner \<and> \<not> timedelta_nonpositive ttl")
  case False
  then show ?thesis by (auto simp: claim_def ttl_microseconds_def guard_def)
next
  case True
  then obtain us where us: "ttl_microseconds ttl = Inr us" by (simp add: ttl_microseconds_def)
  have pos: "0 < us" using ttl_positive assms(4) us by blast
  have c: "claim cfg True tbl tbl' run owner ttl clk = claim_locked cfg tbl tbl' run owner us clk"
    using True by (simp add: claim_def us)
  show ?thesis
  proof (cases "tbl' run")
    case None
    then have n: "tbl run = None" using assms(5) by auto
    have "table_ok (tbl'(run \<mapsto> \<lparr>ar_owner_id = owner, ar_generation = 1, ar_leased_until = clk 2 + us,
          ar_revoked = False, ar_updated_at = clk 2\<rparr>))"
      using assms(3) True by (auto simp: table_ok_def row_ok_def POSTGRES_BIGINT_MAX_def)
    then show ?thesis
      unfolding c claim_locked_absent [OF assms(1), of tbl run tbl' owner us clk, OF n None
          True [THEN conjunct1] True [THEN conjunct2, THEN conjunct1] pos]
      using None pos by (simp add: Let_def current_writer_ok assms(1) lease_simps row_active_def)
  next
    case (Some r)
    have r: "row_ok run r" using Some assms(3) by (simp add: table_ok_def)
    have e: "claim cfg True tbl tbl' run owner ttl clk = settled_claim tbl' run owner us r read_at (clk 4)"
      using claim_locked_found [OF assms(1-3), of owner us run r clk] True pos Some assms(5,6)
      unfolding c by simp
    show ?thesis
    proof (cases "row_active r read_at")
      case True
      then show ?thesis using Some assms(1,3) unfolding e
        by (simp add: settled_claim_def current_writer_ok lease_simps)
    next
      case False
      have "table_ok (tbl'(run \<mapsto> \<lparr>ar_owner_id = owner, ar_generation = ar_generation r + 1,
            ar_leased_until = clk 4 + us, ar_revoked = False, ar_updated_at = clk 4\<rparr>))"
        if "ar_generation r + 1 \<le> POSTGRES_BIGINT_MAX"
        using assms(3) True r that by (auto simp: table_ok_def row_ok_def)
      moreover have "ar_generation r = POSTGRES_BIGINT_MAX" if "\<not> ar_generation r + 1 \<le> POSTGRES_BIGINT_MAX"
        using r that by (simp add: row_ok_def)
      ultimately show ?thesis using False Some pos assms(1) unfolding e
        by (auto simp: settled_claim_def Let_def current_writer_ok lease_simps row_active_def not_le)
    qed
  qed
qed

theorem claim_hands_over_free_leases_witness:
  "(case claim 0 True demo_leases demo_leases ''r1'' ''b'' demo_ttl (\<lambda>_. 60) of
     Inr (_, l) \<Rightarrow> wt_owner_id (wl_token l) = ''b'' \<and> wt_generation (wl_token l) = 4 | Inl e \<Rightarrow> False)"
proof -
  have r: "demo_leases ''r1'' = Some demo_lease_row" by (simp add: demo_leases_def)
  have a: "\<not> row_active demo_lease_row 60" "ar_generation demo_lease_row = 3"
    by (simp_all add: row_active_def demo_lease_row_def)
  have "\<not> timedelta_nonpositive demo_ttl" "(3::int) \<noteq> POSTGRES_BIGINT_MAX"
    by (simp_all add: timedelta_nonpositive_def demo_ttl_def POSTGRES_BIGINT_MAX_def)
  then show ?thesis
    using claim_hands_over_free_leases [of 0 demo_leases demo_leases demo_ttl "''r1''" 60 "\<lambda>_. 60" "''b''"]
      demo_lease_facts r a
    by (cases "claim 0 True demo_leases demo_leases ''r1'' ''b'' demo_ttl (\<lambda>_. 60)") auto
qed

section \<open>Lost responses\<close>

text \<open>A store whose calls may fail before or after their transaction commits. The world is the table
  and the number of calls made; \<open>script\<close> gives the fault and the clock of each call.\<close>

datatype call_fault = Answered | LostBefore | LostAfter

definition claim_call :: "int \<Rightarrow> (nat \<Rightarrow> call_fault \<times> (nat \<Rightarrow> int)) \<Rightarrow> string \<Rightarrow> string \<Rightarrow> timedelta \<Rightarrow>
    (authority_table \<times> nat, writer_lease) operation" where
  "claim_call cfg script run owner ttl w = (case w of (tbl, n) \<Rightarrow>
     (case script n of (fault, clk) \<Rightarrow>
       (let m = claim cfg True tbl tbl run owner ttl clk in
        case fault of
          Answered \<Rightarrow> ((committed tbl m, Suc n), map_sum id snd m)
        | LostBefore \<Rightarrow> ((tbl, Suc n), Inl (DatabaseError True))
        | LostAfter \<Rightarrow> ((committed tbl m, Suc n), Inl (DatabaseError True)))))"

definition read_call :: "int \<Rightarrow> (nat \<Rightarrow> call_fault \<times> (nat \<Rightarrow> int)) \<Rightarrow> string \<Rightarrow>
    (authority_table \<times> nat, writer_authority option) operation" where
  "read_call cfg script run w = (case w of (tbl, n) \<Rightarrow>
     (case script n of (fault, clk) \<Rightarrow>
       ((tbl, Suc n), case fault of Answered \<Rightarrow> read_authority cfg True tbl run (clk 0)
                      | _ \<Rightarrow> Inl (DatabaseError True))))"

lemma claim_call_table:
  "fst (fst (claim_call cfg script run owner ttl (tbl, n))) \<in>
     {tbl, authority_apply cfg (ClaimOp run owner ttl (snd (script n))) tbl}"
  by (auto simp: claim_call_def Let_def split: prod.split call_fault.split)

text \<open>A lease that describes the current writer of the table.\<close>

definition lease_current :: "authority_table \<Rightarrow> string \<Rightarrow> string \<Rightarrow> writer_lease \<Rightarrow> bool" where
  "lease_current tbl run owner l \<longleftrightarrow> (\<exists>r. tbl run = Some r \<and> ar_owner_id r = owner \<and>
     wl_token l = row_token run r \<and> wl_leased_until l = ar_leased_until r \<and>
     row_active r (wl_observed_at l))"

lemma claim_grants_current:
  assumes "digits_limit_ok cfg" and "table_ok tbl" and "timedelta_normal ttl"
    and "claim cfg True tbl tbl run owner ttl clk = Inr (tbl2, l)"
  shows "lease_current tbl2 run owner l"
proof -
  from assms(4) obtain us where o: "opaque_id run" "opaque_id owner" and us: "ttl_microseconds ttl = Inr us"
    and c: "claim_locked cfg tbl tbl run owner us clk = Inr (tbl2, l)"
    by (auto simp: claim_def res_bind_eq_Inr)
  have pos: "0 < us" using ttl_positive us assms(3) by blast
  show ?thesis
  proof (cases "tbl run")
    case None
    then show ?thesis
      using c claim_locked_absent [OF assms(1), of tbl run tbl owner us clk] o pos
      by (auto simp: Let_def lease_current_def row_active_def)
  next
    case (Some r)
    then show ?thesis
      using c claim_locked_found [OF assms(1,2,2) o(2) pos, of run r clk] pos
      by (auto simp: settled_claim_def Let_def lease_current_def row_active_def split: if_splits)
  qed
qed

lemma validate_claimed_lease_eq:
  "validate_claimed_lease l run owner = Inr l' \<longleftrightarrow>
     l' = l \<and> wt_run_id (wl_token l) = run \<and> wt_owner_id (wl_token l) = owner"
  by (auto simp: validate_claimed_lease_def)

lemma claim_call_table_ok:
  assumes "digits_limit_ok cfg" and "table_ok tbl" and "timedelta_normal ttl"
    and "claim_call cfg script run owner ttl (tbl, n) = ((tbl', n'), m)"
  shows "table_ok tbl'" and "n' = Suc n"
    and "m = Inr l \<Longrightarrow> lease_current tbl' run owner l"
proof -
  show "table_ok tbl'"
    using claim_call_table [of cfg script run owner ttl tbl n] assms
      table_ok_step [OF assms(1,2), of "ClaimOp run owner ttl (snd (script n))"] by auto
  show "n' = Suc n" using assms(4)
    by (auto simp: claim_call_def Let_def split: prod.splits call_fault.splits)
  show "lease_current tbl' run owner l" if "m = Inr l"
  proof -
    obtain clk where "script n = (Answered, clk)"
      using assms(4) \<open>m = Inr l\<close>
      by (cases "script n") (auto simp: claim_call_def Let_def split: call_fault.splits)
    with assms(4) that have "\<exists>t. claim cfg True tbl tbl run owner ttl clk = Inr (t, l) \<and> tbl' = t"
      by (cases "claim cfg True tbl tbl run owner ttl clk")
         (auto simp: claim_call_def Let_def committed_def)
    then show ?thesis using claim_grants_current assms(1-3) by blast
  qed
qed

lemma claim_call_other_runs:
  assumes "digits_limit_ok cfg" and "table_ok tbl" and "timedelta_normal ttl" and "k \<noteq> run"
    and "claim_call cfg script run owner ttl (tbl, n) = ((tbl', n'), m)"
  shows "tbl' k = tbl k"
proof -
  have "tbl2 k = tbl k" if c: "claim cfg True tbl tbl run owner ttl clk = Inr (tbl2, l)" for clk tbl2 l
    using claim_hands_over assms(1-4) c by blast
  then show ?thesis using assms(5)
    by (cases "script n") (auto simp: claim_call_def Let_def committed_def
        split: call_fault.splits sum.splits)
qed

lemma read_call_current:
  assumes "digits_limit_ok cfg" and "table_ok tbl"
    and "read_call cfg script run (tbl, n) = ((tbl', n'), Inr seen)"
    and "claim_from_read run owner e seen = Inr l"
  shows "lease_current tbl' run owner l"
proof -
  obtain clk where "script n = (Answered, clk)"
    using assms(3) by (cases "script n") (auto simp: read_call_def split: call_fault.splits)
  with assms(1-3) have "tbl' = tbl" and "seen = map_option (\<lambda>r. row_authority run r (clk 0)) (tbl run)"
    by (auto simp: read_call_def read_authority_def read_locked_ok res_bind_eq_Inr)
  then show ?thesis using assms(4)
    by (auto simp: claim_from_read_def lease_simps lease_current_def split: option.splits if_splits)
qed

text \<open>A claim repeated while its lease is active returns it unchanged.\<close>

lemma claim_again:
  assumes "digits_limit_ok cfg" and "table_ok tbl" and "timedelta_normal ttl"
    and "claim cfg True tbl tbl run owner ttl clk1 = Inr (tbl1, l1)" and "clk2 0 < wl_leased_until l1"
  shows "\<exists>l. claim cfg True tbl1 tbl1 run owner ttl clk2 = Inr (tbl1, l) \<and> wl_token l = wl_token l1 \<and>
    wl_leased_until l = wl_leased_until l1"
proof -
  from claim_grants_current [OF assms(1-4)] obtain r where r: "tbl1 run = Some r" "ar_owner_id r = owner"
    "wl_token l1 = row_token run r" "wl_leased_until l1 = ar_leased_until r" "row_active r (wl_observed_at l1)"
    by (auto simp: lease_current_def)
  have act: "row_active r (clk2 0)" using r(4,5) assms(5) by (simp add: row_active_def)
  from assms(4) obtain us where o: "opaque_id run" "opaque_id owner" and us: "ttl_microseconds ttl = Inr us"
    by (auto simp: claim_def res_bind_eq_Inr)
  have pos: "0 < us" using ttl_positive us assms(3) by blast
  have "table_ok tbl1" using table_ok_step [OF assms(1,2), of "ClaimOp run owner ttl clk1"] assms(3,4)
    by (simp add: committed_def)
  from claim_locked_found [OF assms(1) this this o(2) pos r(1), of clk2] act r
  show ?thesis by (simp add: claim_def o us settled_claim_def)
qed

text \<open>C31. A claim survives lost responses. Whatever calls of the store fail before or after their
  transaction commits, a lease the helper returns describes the current writer of the table, held by
  the claiming owner; a claim that was committed but whose response was lost is recovered by the
  second call with the same token and the same expiry; and every change of the table is a claim of
  this owner for this run.\<close>

theorem claim_survives_lost_responses:
  assumes "digits_limit_ok cfg" and "table_ok tbl" and "timedelta_normal ttl"
    and "claim_writer_lease (claim_call cfg script run owner ttl) (read_call cfg script run) run owner ttl
           (tbl, n) = ((tbl', n'), result)"
  shows "(\<forall>l. result = Inr l \<longrightarrow> lease_current tbl' run owner l) \<and> (\<forall>k. k \<noteq> run \<longrightarrow> tbl' k = tbl k) \<and>
    (\<forall>clk1 clk2 tbl1 l1. script n = (LostAfter, clk1) \<and> script (Suc n) = (Answered, clk2) \<and>
       claim cfg True tbl tbl run owner ttl clk1 = Inr (tbl1, l1) \<and> clk2 0 < wl_leased_until l1 \<longrightarrow>
       tbl' = tbl1 \<and> (\<exists>l. result = Inr l \<and> wl_token l = wl_token l1 \<and>
         wl_leased_until l = wl_leased_until l1))"
proof (cases "require_ttl ttl")
  case (Inl e)
  then have "ttl_microseconds ttl = Inl e" by (simp add: require_ttl_def ttl_microseconds_def guard_def split: if_splits)
  with Inl assms(4) show ?thesis by (auto simp: claim_writer_lease_def claim_def res_bind_eq_Inr)
next
  case (Inr u)
  obtain t1 n1 m1 where c1: "claim_call cfg script run owner ttl (tbl, n) = ((t1, n1), m1)"
    by (metis prod.exhaust)
  note k1 = claim_call_table_ok [OF assms(1-3) c1] claim_call_other_runs [OF assms(1-3) _ c1]
  obtain t2 n2 m2 where c2: "claim_call cfg script run owner ttl (t1, n1) = ((t2, n2), m2)"
    by (metis prod.exhaust)
  note k2 = claim_call_table_ok [OF assms(1) k1(1) assms(3) c2]
    claim_call_other_runs [OF assms(1) k1(1) assms(3) _ c2]
  obtain t3 n3 m3 where c3: "read_call cfg script run (t2, n2) = ((t3, n3), m3)"
    by (metis prod.exhaust)
  have t3: "t3 = t2" using c3 by (auto simp: read_call_def split: prod.splits)
  note res = assms(4) [unfolded claim_writer_lease_def Inr sum.case c1 prod.case]
  have cur: "lease_current tbl' run owner l" if "result = Inr l" for l
    using res that k1(3) k2(3) read_call_current [OF assms(1) k2(1)] c3 t3
    by (auto simp: c2 validate_claimed_lease_eq res_bind_eq_Inr split: sum.splits if_splits)
  have other: "tbl' k = tbl k" if "k \<noteq> run" for k
    using res k1(4) [OF that] k2(4) [OF that]
    by (auto simp: c2 c3 t3 split: sum.splits if_splits)
  have again: "tbl' = tbl1 \<and> (\<exists>l. result = Inr l \<and> wl_token l = wl_token l1 \<and>
      wl_leased_until l = wl_leased_until l1)"
    if s: "script n = (LostAfter, clk1)" "script (Suc n) = (Answered, clk2)"
      and c: "claim cfg True tbl tbl run owner ttl clk1 = Inr (tbl1, l1)" and a: "clk2 0 < wl_leased_until l1"
    for clk1 clk2 tbl1 l1
  proof -
    from claim_again [OF assms(1-3) c, of clk2] a obtain l where l: "claim cfg True tbl1 tbl1 run owner ttl clk2 = Inr (tbl1, l)"
      "wl_token l = wl_token l1" "wl_leased_until l = wl_leased_until l1" by blast
    from c1 s c have e1: "t1 = tbl1" "n1 = Suc n" "m1 = Inl (DatabaseError True)"
      by (auto simp: claim_call_def committed_def)
    with c2 s(2) l(1) have e2: "t2 = tbl1" "m2 = Inr l" by (auto simp: claim_call_def committed_def)
    have "table_ok tbl1" using k1(1) e1 by simp
    with claim_grants_current [OF assms(1) this assms(3) l(1)]
    have "wt_run_id (wl_token l) = run \<and> wt_owner_id (wl_token l) = owner"
      by (auto simp: lease_current_def lease_simps)
    with res e1 e2 c2 l show ?thesis by (auto simp: validate_claimed_lease_def)
  qed
  from cur other again show ?thesis by blast
qed

definition demo_script :: "nat \<Rightarrow> call_fault \<times> (nat \<Rightarrow> int)" where
  "demo_script n = (if n = 0 then (LostAfter, \<lambda>_. 60) else (Answered, \<lambda>_. 61))"

theorem claim_survives_lost_responses_witness:
  "\<exists>tbl' n' l. claim_writer_lease (claim_call 0 demo_script ''r1'' ''b'' demo_ttl)
       (read_call 0 demo_script ''r1'') ''r1'' ''b'' demo_ttl (demo_leases, 0) = ((tbl', n'), Inr l) \<and>
     lease_current tbl' ''r1'' ''b'' l \<and> wt_generation (wl_token l) = 4"
proof -
  obtain tbl' n' result where e: "claim_writer_lease (claim_call 0 demo_script ''r1'' ''b'' demo_ttl)
       (read_call 0 demo_script ''r1'') ''r1'' ''b'' demo_ttl (demo_leases, 0) = ((tbl', n'), result)"
    by (metis prod.exhaust)
  have us: "ttl_microseconds demo_ttl = Inr 1000000"
    by (simp add: ttl_microseconds_def timedelta_nonpositive_def demo_ttl_def)
  have r: "demo_leases ''r1'' = Some demo_lease_row" by (simp add: demo_leases_def)
  obtain tbl1 l1 where c: "claim 0 True demo_leases demo_leases ''r1'' ''b'' demo_ttl (\<lambda>_. 60) = Inr (tbl1, l1)"
    and l1: "wt_generation (wl_token l1) = 4" "wl_leased_until l1 = 1000060"
    using claim_locked_found [OF demo_lease_facts(1,2,2,6), of 1000000 "''r1''" demo_lease_row "\<lambda>_. 60"]
    by (simp add: claim_def demo_lease_facts us r settled_claim_def row_active_def demo_lease_row_def
        POSTGRES_BIGINT_MAX_def Let_def row_token_def)
  have "demo_script 0 = (LostAfter, \<lambda>_. 60)" "demo_script (Suc 0) = (Answered, \<lambda>_. 61)"
    by (simp_all add: demo_script_def)
  then obtain l where l: "result = Inr l" "wl_token l = wl_token l1" "lease_current tbl' ''r1'' ''b'' l"
    using claim_survives_lost_responses [OF demo_lease_facts(1-3) e] c l1(2) by fastforce
  with e l1(1) show ?thesis by simp
qed

end
