(* ===== verification/Journal_Store.thy ===== *)
theory Journal_Store
  imports Writer_Lease "HOL-Library.List_Lexorder" "HOL-Library.Char_ord"
begin

text \<open>
  The storage half of the fenced run journal (\<open>adapters/postgres/sink.py\<close>): the tables of the
  journal, content-addressed blobs, the digests that bind a row to its payload, and the
  transaction every mutation runs in, with its reconciliation after an ambiguous failure.
  A table is the list of its rows with their primary keys; each SQL statement is translated to
  what it does to them.
\<close>

section \<open>Tables\<close>

type_synonym blob_bytes = "char list"
type_synonym blob_map = "(string \<times> blob_bytes) list"
type_synonym blob_table = "string \<Rightarrow> (int \<times> blob_bytes) option"
type_synonym call_key = "string \<times> string \<times> int"

text \<open>The columns of a record table beside its primary key: the content digest, the payload, the
  projection of the submitted blobs and the remaining typed columns. Event rows also hold the
  instant of their timestamp.\<close>

record stored_row =
  sr_digest :: string
  sr_payload :: pydict
  sr_blobs :: "(string \<times> string) list"
  sr_typed :: "pyval list"

record event_row = stored_row +
  ew_instant :: int

record journal =
  jn_authority :: authority_table
  jn_blobs :: blob_table
  jn_run_blobs :: "string \<Rightarrow> string \<Rightarrow> bool"
  jn_checkpoints :: "((string \<times> int) \<times> stored_row) list"
  jn_checkpoint_head :: "string \<Rightarrow> int option"
  jn_invocations :: "(call_key \<times> stored_row) list"
  jn_invocation_head :: "string \<times> string \<Rightarrow> int option"
  jn_evidence :: "(call_key \<times> stored_row) list"
  jn_outbox :: "(call_key \<times> stored_row) list"
  jn_events :: "((string \<times> int) \<times> event_row) list"
  jn_event_head :: "string \<Rightarrow> int option"
  jn_terminals :: "(string \<times> stored_row) list"

text \<open>What the sink is given: the wire validator and digit limit of the process, the canonical
  digest of an object, the digest of bytes, the largest blob kept, and the instant a UTC
  timestamp denotes.\<close>

record journal_env =
  je_va :: validator
  je_cfg :: int
  je_sha :: "pydict \<Rightarrow> string"
  je_bsha :: "blob_bytes \<Rightarrow> string"
  je_max_blob :: int
  je_instant :: "string \<Rightarrow> int"

text \<open>\<open>INSERT\<close> without a conflict clause: a taken primary key is an integrity error, which is not
  ambiguous.\<close>

definition insert_row :: "'k \<Rightarrow> 'r \<Rightarrow> ('k \<times> 'r) list \<Rightarrow> ('k \<times> 'r) list res" where
  "insert_row k r t = (case map_of t k of None \<Rightarrow> Inr ((k, r) # t) | Some _ \<Rightarrow> Inl (DatabaseError False))"

text \<open>The head upsert \<open>ON CONFLICT \<dots> DO UPDATE \<dots> WHERE EXCLUDED.sequence > head.sequence\<close>.\<close>

definition advance_head :: "'k \<Rightarrow> int \<Rightarrow> ('k \<Rightarrow> int option) \<Rightarrow> 'k \<Rightarrow> int option" where
  "advance_head k n h = (case h k of
      None \<Rightarrow> h(k \<mapsto> n)
    | Some m \<Rightarrow> if m < n then h(k \<mapsto> n) else h)"

section \<open>Commit results\<close>

definition make_commit_result :: "int \<Rightarrow> commit_status \<Rightarrow> int option \<Rightarrow> string \<Rightarrow> string \<Rightarrow> commit_result res" where
  "make_commit_result cfg st sq digest winner =
     (let r = \<lparr>cr_status = st, cr_sequence = sq, cr_content_digest = digest, cr_winner_digest = winner\<rparr> in
      if commit_result_valid cfg r then Inr r
      else Inl (ValueError ''commit result is outside the portable vocabulary''))"

section \<open>Content digests\<close>

definition blob_projection :: "journal_env \<Rightarrow> blob_map \<Rightarrow> (string \<times> string) list" where
  "blob_projection env blobs = map (\<lambda>(k, v). (k, je_bsha env v)) (sort_key fst blobs)"

definition projection_json :: "(string \<times> string) list \<Rightarrow> pyval" where
  "projection_json ps = PDict (map (\<lambda>(k, d). (k, PStr d)) ps)"

definition bound_digest :: "journal_env \<Rightarrow> pydict \<Rightarrow> (string \<times> string) list \<Rightarrow> string" where
  "bound_digest env payload ps = je_sha env [(''record'', PDict payload), (''blobs'', projection_json ps)]"

definition record_digest :: "journal_env \<Rightarrow> pydict \<Rightarrow> blob_map \<Rightarrow> string" where
  "record_digest env payload blobs = bound_digest env payload (blob_projection env blobs)"

definition record_only_digest :: "journal_env \<Rightarrow> pydict \<Rightarrow> string" where
  "record_only_digest env payload = record_digest env payload []"

definition stored_projection_is_valid :: "(string \<times> string) list \<Rightarrow> bool" where
  "stored_projection_is_valid ps \<longleftrightarrow> list_all (\<lambda>(k, d). recorded_digest k \<and> d = k) ps"

definition checked_stored_digest :: "journal_env \<Rightarrow> pydict \<Rightarrow> (string \<times> string) list \<Rightarrow> string \<Rightarrow> string option" where
  "checked_stored_digest env payload ps digest =
     (if \<not> stored_projection_is_valid ps \<or> \<not> recorded_digest digest then None
      else if bound_digest env payload ps = digest then Some digest else None)"

text \<open>Equality of tuples, element by element.\<close>

definition tuple_eq :: "pyval list \<Rightarrow> pyval list \<Rightarrow> bool" where
  "tuple_eq xs ys \<longleftrightarrow> list_all2 py_eq xs ys"

definition payload_matches_typed_values :: "pydict \<Rightarrow> string list \<Rightarrow> pyval list \<Rightarrow> bool" where
  "payload_matches_typed_values payload columns typed = tuple_eq (map (dget payload) columns) typed"

text \<open>The defaults of retained readers, projected onto the typed columns.\<close>

definition set_default :: "string \<Rightarrow> pyval \<Rightarrow> pydict \<Rightarrow> pydict" where
  "set_default k v d = (if dhas k d then d else d @ [(k, v)])"

definition legacy_policy :: "pydict \<Rightarrow> pyval" where
  "legacy_policy p = (case (if dhas ''requires_evidence'' p then dget p ''requires_evidence'' else PBool False) of
      PBool b \<Rightarrow> PStr (if b then ''required'' else ''passive'')
    | _ \<Rightarrow> PNone)"

definition invocation_typed_payload :: "pydict \<Rightarrow> pydict" where
  "invocation_typed_payload payload =
     set_default ''failure_code'' (PStr []) (set_default ''result_ref'' (PStr [])
       (set_default ''evidence_policy'' (legacy_policy payload) payload))"

definition invocation_payload_matches_typed_values :: "pydict \<Rightarrow> string list \<Rightarrow> pyval list \<Rightarrow> bool" where
  "invocation_payload_matches_typed_values payload columns typed =
     payload_matches_typed_values (invocation_typed_payload payload) columns typed"

text \<open>\<open>_stored_result\<close>: how a row found at the coordinate of a submission answers it. The typed
  columns start with the primary key \<open>keycols\<close>.\<close>

definition stored_result :: "journal_env \<Rightarrow> 'a stored_row_scheme option \<Rightarrow> string \<Rightarrow> int option \<Rightarrow> string list \<Rightarrow>
    pyval list \<Rightarrow> bool \<Rightarrow> pyval list \<Rightarrow> commit_result option res" where
  "stored_result env row digest sq columns expected invocation_payload keycols = (case row of
      None \<Rightarrow> Inr None
    | Some r \<Rightarrow>
        let winner = (if recorded_digest (sr_digest r) then sr_digest r else []);
            typed = keycols @ sr_typed r;
            matches = (if invocation_payload then invocation_payload_matches_typed_values
                       else payload_matches_typed_values)
        in res_bind
          (if checked_stored_digest env (sr_payload r) (sr_blobs r) (sr_digest r) = None \<or>
              \<not> tuple_eq typed expected \<or> \<not> matches (sr_payload r) columns typed
           then make_commit_result (je_cfg env) CommitConflict sq digest winner
           else if winner = digest
           then make_commit_result (je_cfg env) AlreadyCommitted sq digest []
           else make_commit_result (je_cfg env) CommitConflict sq digest winner)
          (\<lambda>c. Inr (Some c)))"

section \<open>Blobs\<close>

definition validated_blobs :: "journal_env \<Rightarrow> blob_map \<Rightarrow> blob_map option" where
  "validated_blobs env blobs =
     (if list_all (\<lambda>(k, v). recorded_digest k \<and> int (length v) \<le> je_max_blob env \<and> je_bsha env v = k) blobs
      then Some blobs else None)"

definition submitted_blobs_preserve_backing :: "journal \<Rightarrow> blob_map \<Rightarrow> bool" where
  "submitted_blobs_preserve_backing j blobs \<longleftrightarrow>
     list_all (\<lambda>(k, v). case jn_blobs j k of None \<Rightarrow> True
        | Some (n, c) \<Rightarrow> n = int (length v) \<and> c = v) (sort_key fst blobs)"

definition associated_blob_is_valid :: "journal_env \<Rightarrow> journal \<Rightarrow> string \<Rightarrow> string \<Rightarrow> bool" where
  "associated_blob_is_valid env j run sha \<longleftrightarrow> recorded_digest sha \<and> jn_run_blobs j run sha \<and>
     (case jn_blobs j sha of None \<Rightarrow> False
        | Some (n, c) \<Rightarrow> n = int (length c) \<and> je_bsha env c = sha)"

definition references_resolve :: "journal_env \<Rightarrow> journal \<Rightarrow> string \<Rightarrow> string list \<Rightarrow> blob_map \<Rightarrow> bool" where
  "references_resolve env j run refs blobs \<longleftrightarrow>
     list_all (\<lambda>sha. sha \<in> fst ` set blobs \<or> associated_blob_is_valid env j run sha) refs"

text \<open>One blob of \<open>_persist_blobs\<close>; \<open>None\<close> is the race that rolls the transaction back.\<close>

definition persist_blob :: "string \<Rightarrow> string \<times> blob_bytes \<Rightarrow> journal \<Rightarrow> journal option" where
  "persist_blob run kv j = (case kv of (k, v) \<Rightarrow>
     (case (case jn_blobs j k of
         None \<Rightarrow> Some (j\<lparr>jn_blobs := (jn_blobs j)(k \<mapsto> (int (length v), v))\<rparr>)
       | Some (n, c) \<Rightarrow> if n \<noteq> int (length v) \<or> c \<noteq> v then None else Some j) of
       None \<Rightarrow> None
     | Some j' \<Rightarrow> Some (j'\<lparr>jn_run_blobs := (jn_run_blobs j')(run := (jn_run_blobs j' run)(k := True))\<rparr>)))"

fun persist_all :: "string \<Rightarrow> blob_map \<Rightarrow> journal \<Rightarrow> journal option" where
  "persist_all run [] j = Some j"
| "persist_all run (kv # bs) j = (case persist_blob run kv j of
      None \<Rightarrow> None | Some j' \<Rightarrow> persist_all run bs j')"

definition persist_blobs :: "string \<Rightarrow> blob_map \<Rightarrow> journal \<Rightarrow> journal option" where
  "persist_blobs run blobs j = persist_all run (sort_key fst blobs) j"

definition read_blob :: "journal_env \<Rightarrow> bool \<Rightarrow> journal \<Rightarrow> string \<Rightarrow> string \<Rightarrow> blob_bytes res" where
  "read_blob env ready j run sha =
     res_bind (guard ready (SchemaIncompatible ''fenced run sink'')) (\<lambda>_.
     res_bind (guard (opaque_id run \<and> recorded_digest sha) (KeyError sha)) (\<lambda>_.
     case (if jn_run_blobs j run sha then jn_blobs j sha else None) of
       None \<Rightarrow> Inl (KeyError sha)
     | Some (n, c) \<Rightarrow> if n \<noteq> int (length c) \<or> je_bsha env c \<noteq> sha
         then Inl (RuntimeFault ''PostgreSQL bytea blob failed content-address verification'')
         else Inr c))"

section \<open>Transactions\<close>

text \<open>What happens around one call of a mutation. The authority row of the run is locked, so only
  transactions of other runs commit during it, and the one table they share is that of the
  blobs. The statements may fail, or the commit may fail with or without having been applied,
  reported as an ambiguous error or not. A reconciliation then runs on a later state, or fails.\<close>

datatype commit_fault = NoFault | BodyFault exn | CommitFault bool bool

record attempt =
  tx_now :: int
  tx_concurrent :: "blob_table \<Rightarrow> blob_table"
  tx_fault :: commit_fault
  tx_later :: "journal \<Rightarrow> journal"
  tx_reread_now :: int
  tx_reread_fails :: bool

definition others :: "attempt \<Rightarrow> journal \<Rightarrow> journal" where
  "others tx j = j\<lparr>jn_blobs := tx_concurrent tx (jn_blobs j)\<rparr>"

text \<open>The body of a mutation: the new state, the result and the content digest, or \<open>None\<close> for the
  two private exceptions that roll the transaction back to a conflict.\<close>

type_synonym body_result = "(journal \<times> commit_result \<times> string) option res"

text \<open>The part the five mutations share, after the fence of the run id: \<open>fenced\<close> is the result for
  a writer that is not current, \<open>rolled_back\<close> the one of the private exceptions.\<close>

definition fenced_body :: "journal_env \<Rightarrow> attempt \<Rightarrow> writer_token \<Rightarrow> commit_result res \<Rightarrow>
    (journal \<Rightarrow> journal \<Rightarrow> body_result) \<Rightarrow> journal \<Rightarrow> body_result" where
  "fenced_body env tx t fenced locked j =
     res_bind (current_writer_locked (je_cfg env) (jn_authority j) t (tx_now tx)) (\<lambda>current.
       if \<not> current then res_bind fenced (\<lambda>r. Inr (Some (others tx j, r, [])))
       else locked j (others tx j))"

definition reconciled :: "journal_env \<Rightarrow> attempt \<Rightarrow> writer_token \<Rightarrow> commit_result res \<Rightarrow>
    (journal \<Rightarrow> commit_result option res) \<Rightarrow> journal \<Rightarrow> commit_result option res" where
  "reconciled env tx t fenced lookup j =
     (if tx_reread_fails tx then Inl (DatabaseError False)
      else res_bind (current_writer_locked (je_cfg env) (jn_authority j) t (tx_reread_now tx)) (\<lambda>current.
        if \<not> current then res_bind fenced (\<lambda>r. Inr (Some r)) else lookup j))"

definition fenced_commit :: "attempt \<Rightarrow> (journal \<Rightarrow> body_result) \<Rightarrow> commit_result res \<Rightarrow>
    (string \<Rightarrow> journal \<Rightarrow> commit_result option res) \<Rightarrow> journal \<Rightarrow> journal \<times> commit_result res" where
  "fenced_commit tx body rolled_back reconcile j = (case tx_fault tx of
      BodyFault e \<Rightarrow> (others tx j, Inl e)
    | f \<Rightarrow> (case body j of
        Inl e \<Rightarrow> (others tx j, Inl e)
      | Inr None \<Rightarrow> (others tx j, rolled_back)
      | Inr (Some (j', r, digest)) \<Rightarrow> (case f of
          CommitFault ambiguous applied \<Rightarrow>
            (let j1 = (if applied then j' else others tx j); e = DatabaseError ambiguous in
             if digest = [] \<or> \<not> ambiguous then (j1, Inl e)
             else (let j2 = tx_later tx j1 in
               case reconcile digest j2 of
                 Inr (Some r') \<Rightarrow> (j2, Inr r')
               | _ \<Rightarrow> (j2, Inl e)))
        | _ \<Rightarrow> (j', Inr r))))"

definition fenced_result :: "journal_env \<Rightarrow> int option \<Rightarrow> commit_result res" where
  "fenced_result env sq = make_commit_result (je_cfg env) CommitFenced sq [] []"

text \<open>A whole mutation: readiness, the run the token was issued for, then the transaction.\<close>

definition fenced_mutation :: "journal_env \<Rightarrow> bool \<Rightarrow> attempt \<Rightarrow> string \<Rightarrow> writer_token \<Rightarrow> commit_result res \<Rightarrow>
    (journal \<Rightarrow> journal \<Rightarrow> body_result) \<Rightarrow> commit_result res \<Rightarrow>
    (string \<Rightarrow> journal \<Rightarrow> commit_result option res) \<Rightarrow> journal \<Rightarrow> journal \<times> commit_result res" where
  "fenced_mutation env ready tx run t fenced locked rolled_back reconcile j =
     (if \<not> ready then (j, Inl (SchemaIncompatible ''fenced run sink''))
      else if run \<noteq> wt_run_id t then (j, fenced)
      else fenced_commit tx (fenced_body env tx t fenced locked) rolled_back
             (\<lambda>digest. reconciled env tx t fenced (reconcile digest)) j)"

text \<open>The exceptions a payload may raise that the mutations answer as a conflict.\<close>

fun is_payload_error :: "exn \<Rightarrow> bool" where
  "is_payload_error (TypeError _) = True"
| "is_payload_error OverflowError = True"
| "is_payload_error e = is_value_error e"

definition or_conflict :: "'a res \<Rightarrow> body_result \<Rightarrow> ('a \<Rightarrow> body_result) \<Rightarrow> body_result" where
  "or_conflict x c f = (case x of Inr a \<Rightarrow> f a | Inl e \<Rightarrow> if is_payload_error e then c else Inl e)"

definition conflict_body :: "journal_env \<Rightarrow> journal \<Rightarrow> int option \<Rightarrow> string \<Rightarrow> string \<Rightarrow> body_result" where
  "conflict_body env j sq digest winner =
     res_bind (make_commit_result (je_cfg env) CommitConflict sq digest winner) (\<lambda>c. Inr (Some (j, c, digest)))"

section \<open>Laws of transactions\<close>

text \<open>A relation between states that no transaction of another run disturbs holds across a whole
  mutation once its locked body keeps it, whatever fails.\<close>

locale journal_relation =
  fixes rel :: "journal \<Rightarrow> journal \<Rightarrow> bool" and good_tx :: "attempt \<Rightarrow> bool"
  assumes rel_refl: "rel j j"
    and rel_trans: "rel a b \<Longrightarrow> rel b c \<Longrightarrow> rel a c"
    and rel_others: "good_tx tx \<Longrightarrow> rel j (others tx j)"
    and rel_later: "good_tx tx \<Longrightarrow> rel j (tx_later tx j)"
begin

lemma fenced_commit_rel:
  assumes "good_tx tx" and "\<And>j' r d. body j = Inr (Some (j', r, d)) \<Longrightarrow> rel j j'"
  shows "rel j (fst (fenced_commit tx body rolled_back reconcile j))"
proof -
  note o = rel_others [OF assms(1)] and l = rel_trans [OF _ rel_later [OF assms(1)]]
  show ?thesis
    using assms(2) unfolding fenced_commit_def Let_def
    by (auto intro: o l split: commit_fault.split sum.split option.split)
qed

lemma fenced_body_rel:
  assumes "good_tx tx" and "fenced_body env tx t fenced locked j = Inr (Some (j', r, d))"
    and "\<And>j' r d. locked j (others tx j) = Inr (Some (j', r, d)) \<Longrightarrow> rel (others tx j) j'"
  shows "rel j j'"
  using assms rel_others [OF assms(1), of j]
  by (auto simp: fenced_body_def res_bind_eq_Inr split: if_splits intro: rel_trans)

lemma mutation_rel:
  assumes "good_tx tx"
    and "\<And>j' r d. run = wt_run_id t \<Longrightarrow> locked j (others tx j) = Inr (Some (j', r, d)) \<Longrightarrow> rel (others tx j) j'"
  shows "rel j (fst (fenced_mutation env ready tx run t fenced locked rolled_back reconcile j))"
  unfolding fenced_mutation_def
  using fenced_commit_rel [OF assms(1)] fenced_body_rel [OF assms(1) _ assms(2)] rel_refl by simp

end

text \<open>A writer that is not current changes nothing and never learns that it committed.\<close>

lemma stale_mutation:
  assumes "current_writer_locked (je_cfg env) (jn_authority j) t (tx_now tx) = Inr False"
    and "fenced_mutation env ready tx run t fenced locked rolled_back reconcile j = (j', r)"
  shows "(j' = j \<or> j' = others tx j) \<and> (r = fenced \<or> (\<exists>e. r = Inl e))"
proof -
  have b: "fenced_body env tx t fenced locked j = res_bind fenced (\<lambda>r. Inr (Some (others tx j, r, [])))"
    by (simp add: fenced_body_def assms(1))
  show ?thesis
    using assms(2) unfolding fenced_mutation_def fenced_commit_def b Let_def
    by (cases fenced) (auto split: if_splits commit_fault.splits)
qed

text \<open>What a returned result rests on: the body that committed, or a reconciliation that found the
  record while the writer was still current.\<close>

lemma mutation_result:
  assumes "fenced_mutation env ready tx run t fenced locked rolled_back reconcile j = (j', Inr r)"
    and "cr_status r \<in> {Committed, AlreadyCommitted}"
    and "\<And>x. fenced = Inr x \<Longrightarrow> cr_status x = CommitFenced" and "\<And>x. rolled_back = Inr x \<Longrightarrow> cr_status x = CommitConflict"
  shows "run = wt_run_id t \<and> current_writer_locked (je_cfg env) (jn_authority j) t (tx_now tx) = Inr True \<and>
    (\<exists>j1 r1 d. locked j (others tx j) = Inr (Some (j1, r1, d)) \<and>
      (tx_fault tx = NoFault \<and> j' = j1 \<and> r = r1 \<or>
       (\<exists>applied j2. tx_fault tx = CommitFault True applied \<and> d \<noteq> [] \<and> j2 = (if applied then j1 else others tx j) \<and>
          j' = tx_later tx j2 \<and> current_writer_locked (je_cfg env) (jn_authority j') t (tx_reread_now tx) = Inr True \<and>
          reconcile d j' = Inr (Some r))))"
proof -
  have ready: "ready" and run: "run = wt_run_id t"
    using assms by (auto simp: fenced_mutation_def split: if_splits)
  then have c: "fenced_commit tx (fenced_body env tx t fenced locked) rolled_back
      (\<lambda>digest. reconciled env tx t fenced (reconcile digest)) j = (j', Inr r)"
    using assms(1) by (simp add: fenced_mutation_def)
  from c assms(2,4) obtain j1 r1 d where b: "fenced_body env tx t fenced locked j = Inr (Some (j1, r1, d))"
    and f: "tx_fault tx = NoFault \<and> j' = j1 \<and> r = r1 \<or>
       (\<exists>applied. tx_fault tx = CommitFault True applied \<and> d \<noteq> [] \<and>
          j' = tx_later tx (if applied then j1 else others tx j) \<and>
          reconciled env tx t fenced (reconcile d) j' = Inr (Some r))"
    unfolding fenced_commit_def Let_def
    by (auto split: commit_fault.splits sum.splits option.splits if_splits prod.splits)
  show ?thesis
  proof (cases "current_writer_locked (je_cfg env) (jn_authority j) t (tx_now tx) = Inr True")
    case True
    then have "locked j (others tx j) = Inr (Some (j1, r1, d))" using b by (simp add: fenced_body_def)
    moreover have "current_writer_locked (je_cfg env) (jn_authority j') t (tx_reread_now tx) = Inr True \<and>
        reconcile d j' = Inr (Some r)" if "reconciled env tx t fenced (reconcile d) j' = Inr (Some r)"
      using that assms(2,3) by (auto simp: reconciled_def res_bind_eq_Inr split: if_splits)
    ultimately show ?thesis using True f run by blast
  next
    case False
    then obtain x where "fenced = Inr x" "r1 = x" "d = []"
      using b by (auto simp: fenced_body_def res_bind_eq_Inr split: if_splits)
    with f assms(2,3) show ?thesis by auto
  qed
qed

section \<open>Growth\<close>

text \<open>Every record table only gains rows; blobs and their associations are kept; the two monotone
  heads advance; and once a run has a terminal record it gains no events.\<close>

definition grows :: "('k \<times> 'r) list \<Rightarrow> ('k \<times> 'r) list \<Rightarrow> bool" where
  "grows t t' \<longleftrightarrow> (\<exists>new. t' = new @ t \<and> fst ` set new \<inter> fst ` set t = {} \<and> distinct (map fst new))"

definition heads_advance :: "('k \<Rightarrow> int option) \<Rightarrow> ('k \<Rightarrow> int option) \<Rightarrow> bool" where
  "heads_advance h h' \<longleftrightarrow> (\<forall>k n. h k = Some n \<longrightarrow> (\<exists>m \<ge> n. h' k = Some m))"

definition run_events :: "journal \<Rightarrow> string \<Rightarrow> ((string \<times> int) \<times> event_row) list" where
  "run_events j run = filter (\<lambda>(k, _). fst k = run) (jn_events j)"

definition extends :: "journal \<Rightarrow> journal \<Rightarrow> bool" where
  "extends j j' \<longleftrightarrow> grows (jn_checkpoints j) (jn_checkpoints j') \<and> grows (jn_invocations j) (jn_invocations j') \<and>
     grows (jn_evidence j) (jn_evidence j') \<and> grows (jn_outbox j) (jn_outbox j') \<and>
     grows (jn_events j) (jn_events j') \<and> grows (jn_terminals j) (jn_terminals j') \<and>
     jn_blobs j \<subseteq>\<^sub>m jn_blobs j' \<and> (\<forall>run k. jn_run_blobs j run k \<longrightarrow> jn_run_blobs j' run k) \<and>
     heads_advance (jn_checkpoint_head j) (jn_checkpoint_head j') \<and>
     heads_advance (jn_event_head j) (jn_event_head j') \<and>
     (\<forall>run. map_of (jn_terminals j) run \<noteq> None \<longrightarrow> run_events j' run = run_events j run)"

definition blobs_ok :: "journal_env \<Rightarrow> blob_table \<Rightarrow> bool" where
  "blobs_ok env b \<longleftrightarrow> (\<forall>k n c. b k = Some (n, c) \<longrightarrow> n = int (length c) \<and> je_bsha env c = k)"

text \<open>What transactions of other runs do to the shared table.\<close>

definition concurrent_ok :: "journal_env \<Rightarrow> attempt \<Rightarrow> bool" where
  "concurrent_ok env tx \<longleftrightarrow> (\<forall>b. b \<subseteq>\<^sub>m tx_concurrent tx b \<and> (blobs_ok env b \<longrightarrow> blobs_ok env (tx_concurrent tx b)))"

lemma grows_refl [simp]: "grows t t"
  by (auto simp: grows_def)

lemma grows_trans: "grows a b \<Longrightarrow> grows b c \<Longrightarrow> grows a c"
  unfolding grows_def by (elim exE) (rule exI [where x = "new' @ new" for new' new], auto)

lemma grows_Cons: "map_of t k = None \<Longrightarrow> grows t ((k, r) # t)"
  unfolding grows_def map_of_eq_None_iff by (intro exI [of _ "[(k, r)]"]) simp

lemma grows_insert: "insert_row k r t = Inr t' \<Longrightarrow> t' = (k, r) # t \<and> map_of t k = None \<and> grows t t'"
  by (auto simp: insert_row_def split: option.splits intro: grows_Cons)

lemma grows_lookup: "grows t t' \<Longrightarrow> map_of t k = Some r \<Longrightarrow> map_of t' k = Some r"
  by (auto simp: grows_def map_add_def map_of_eq_None_iff dest: map_of_SomeD split: option.splits)
     (metis IntI emptyE fst_conv image_eqI map_of_SomeD)

lemma map_le_lookup: "f \<subseteq>\<^sub>m g \<Longrightarrow> f k = Some v \<Longrightarrow> g k = Some v"
  by (simp add: map_le_def) (metis domI)

lemma heads_advance_refl [simp]: "heads_advance h h"
  by (auto simp: heads_advance_def)

lemma heads_advance_trans: "heads_advance a b \<Longrightarrow> heads_advance b c \<Longrightarrow> heads_advance a c"
  unfolding heads_advance_def by (meson order_trans)

lemma heads_advance_head [simp]: "heads_advance h (advance_head k n h)"
  by (auto simp: heads_advance_def advance_head_def split: option.splits)

lemma extends_refl [simp]: "extends j j"
  by (simp add: extends_def)

lemma extends_trans: "extends a b \<Longrightarrow> extends b c \<Longrightarrow> extends a c"
proof -
  assume ab: "extends a b" and bc: "extends b c"
  have t: "map_of (jn_terminals b) run \<noteq> None" if "map_of (jn_terminals a) run \<noteq> None" for run
  proof -
    from ab have "grows (jn_terminals a) (jn_terminals b)" by (simp add: extends_def)
    with that show ?thesis by (auto dest: grows_lookup)
  qed
  have e: "\<forall>run. map_of (jn_terminals a) run \<noteq> None \<longrightarrow> run_events c run = run_events a run"
    using ab bc t by (simp add: extends_def)
  show ?thesis
    using ab bc e unfolding extends_def
    by (elim conjE) (intro conjI; (erule (1) grows_trans | erule (1) heads_advance_trans | erule (1) map_le_trans | blast))
qed

lemma extends_others [simp]: "concurrent_ok env tx \<Longrightarrow> extends j (others tx j)"
  by (simp add: extends_def others_def concurrent_ok_def run_events_def)

text \<open>Persisting blobs keeps every other table and makes each submitted blob available to the run.\<close>

lemma persist_blob_effect:
  assumes "persist_blob run (k, v) j = Some j'"
  shows "\<exists>b a. j' = j\<lparr>jn_blobs := b, jn_run_blobs := a\<rparr> \<and> jn_blobs j \<subseteq>\<^sub>m b \<and> b k = Some (int (length v), v) \<and> a run k \<and>
    (\<forall>r x. jn_run_blobs j r x \<longrightarrow> a r x) \<and> (je_bsha env v = k \<longrightarrow> blobs_ok env (jn_blobs j) \<longrightarrow> blobs_ok env b)"
proof (cases "jn_blobs j k")
  case None
  with assms have "j' = j\<lparr>jn_blobs := (jn_blobs j)(k \<mapsto> (int (length v), v)),
      jn_run_blobs := (jn_run_blobs j)(run := (jn_run_blobs j run)(k := True))\<rparr>"
    by (simp add: persist_blob_def)
  with None show ?thesis
    by (intro exI [of _ "(jn_blobs j)(k \<mapsto> (int (length v), v))"]
        exI [of _ "(jn_run_blobs j)(run := (jn_run_blobs j run)(k := True))"]) (auto simp: map_le_def blobs_ok_def)
next
  case (Some nc)
  with assms have "j' = j\<lparr>jn_blobs := jn_blobs j, jn_run_blobs := (jn_run_blobs j)(run := (jn_run_blobs j run)(k := True))\<rparr>"
    and "nc = (int (length v), v)"
    by (auto simp: persist_blob_def split: if_splits prod.splits)
  with Some show ?thesis
    by (intro exI [of _ "jn_blobs j"] exI [of _ "(jn_run_blobs j)(run := (jn_run_blobs j run)(k := True))"]) auto
qed

lemma persist_all_effect:
  "persist_all run bs j = Some j' \<Longrightarrow>
    \<exists>b a. j' = j\<lparr>jn_blobs := b, jn_run_blobs := a\<rparr> \<and> jn_blobs j \<subseteq>\<^sub>m b \<and> (\<forall>r x. jn_run_blobs j r x \<longrightarrow> a r x) \<and>
      (\<forall>(k, v) \<in> set bs. b k = Some (int (length v), v) \<and> a run k) \<and>
      ((\<forall>(k, v) \<in> set bs. je_bsha env v = k) \<longrightarrow> blobs_ok env (jn_blobs j) \<longrightarrow> blobs_ok env b)"
proof (induction run bs j rule: persist_all.induct)
  case (1 run j)
  then show ?case by (auto intro!: exI [of _ "jn_blobs j"] exI [of _ "jn_run_blobs j"])
next
  case (2 run kv bs j)
  obtain k v where kv: "kv = (k, v)" by (cases kv)
  from 2(2) kv obtain j1 where j1: "persist_blob run (k, v) j = Some j1" and rest: "persist_all run bs j1 = Some j'"
    by (auto split: option.splits)
  from persist_blob_effect [OF j1, of env] obtain b1 a1 where e1: "j1 = j\<lparr>jn_blobs := b1, jn_run_blobs := a1\<rparr>"
    "jn_blobs j \<subseteq>\<^sub>m b1" "b1 k = Some (int (length v), v)" "a1 run k" "\<forall>r x. jn_run_blobs j r x \<longrightarrow> a1 r x"
    "je_bsha env v = k \<longrightarrow> blobs_ok env (jn_blobs j) \<longrightarrow> blobs_ok env b1" by blast
  from 2(1) [of j1] j1 kv rest have "\<exists>b a. j' = j1\<lparr>jn_blobs := b, jn_run_blobs := a\<rparr> \<and> jn_blobs j1 \<subseteq>\<^sub>m b \<and>
      (\<forall>r x. jn_run_blobs j1 r x \<longrightarrow> a r x) \<and>
      (\<forall>(k, v) \<in> set bs. b k = Some (int (length v), v) \<and> a run k) \<and>
      ((\<forall>(k, v) \<in> set bs. je_bsha env v = k) \<longrightarrow> blobs_ok env (jn_blobs j1) \<longrightarrow> blobs_ok env b)" by simp
  then obtain b a where e: "j' = j1\<lparr>jn_blobs := b, jn_run_blobs := a\<rparr>" "jn_blobs j1 \<subseteq>\<^sub>m b"
    "\<forall>r x. jn_run_blobs j1 r x \<longrightarrow> a r x" "\<forall>(k, v) \<in> set bs. b k = Some (int (length v), v) \<and> a run k"
    "(\<forall>(k, v) \<in> set bs. je_bsha env v = k) \<longrightarrow> blobs_ok env (jn_blobs j1) \<longrightarrow> blobs_ok env b" by blast
  have "b k = Some (int (length v), v)" using e(2) e1(1,3) by (simp add: map_le_def) (metis domI)
  then show ?case
    using e e1 kv map_le_trans [OF e1(2), of b] by (intro exI [of _ b] exI [of _ a]) auto
qed

lemma persist_blobs_effect:
  assumes "persist_blobs run blobs j = Some j'"
  obtains b a where "j' = j\<lparr>jn_blobs := b, jn_run_blobs := a\<rparr>" "jn_blobs j \<subseteq>\<^sub>m b"
    "\<forall>r x. jn_run_blobs j r x \<longrightarrow> a r x" "\<forall>(k, v) \<in> set blobs. b k = Some (int (length v), v) \<and> a run k"
    "(\<forall>(k, v) \<in> set blobs. je_bsha env v = k) \<longrightarrow> blobs_ok env (jn_blobs j) \<longrightarrow> blobs_ok env b"
proof -
  from persist_all_effect [OF assms [unfolded persist_blobs_def], of env] show ?thesis
    unfolding set_sort by (elim exE conjE) (rule that, assumption+)
qed

end
