(* ===== verification/Model_Facts.thy ===== *)
theory Model_Facts
  imports Safe_Evidence Capability
begin

text \<open>
  Termination facts and token observations of a model call (\<open>core/model_facts.py\<close>): the closed
  vocabularies, the observation of one dispatch, and the evidence that aggregates the dispatches of
  a call and is checked against the numeric usage.

  \<open>va\<close> is the type adapter of the wire parsers, \<open>cfg\<close> the interpreter's limit on integer digits.
  The helpers that attach facts to exception objects are not modelled.
\<close>

section \<open>Vocabularies\<close>

definition CallOutcome :: "string list" where
  "CallOutcome = [''completed'', ''interrupted'', ''failed'', ''cancelled'', ''timed_out'']"

definition StopRequester :: "string list" where
  "StopRequester = [''user_cancel'', ''turn_interrupt'', ''graceful_drain'', ''deadline'', ''host_shutdown'',
     ''caller_cancel'']"

definition ReadEnd :: "string list" where
  "ReadEnd = [''provider_terminal'', ''provider_eof'', ''provider_error'', ''provider_cancelled'',
     ''stop_request'', ''deadline'', ''drain_timeout'', ''lease_lost'', ''local_failure'']"

definition UsageSource :: "string list" where
  "UsageSource = [''provider'', ''adapter'', ''legacy_ambiguous'']"

definition UsageCollection :: "string list" where
  "UsageCollection = [''normal'', ''drain'']"

definition USAGE_COUNTERS :: "string list" where
  "USAGE_COUNTERS = [''audio_input_tokens'', ''audio_output_tokens'', ''audio_tokens'',
     ''cached_input_tokens'', ''cache_creation_tokens'', ''cache_read_tokens'', ''cache_write_tokens'',
     ''input_tokens'', ''output_tokens'', ''reasoning_tokens'', ''total_tokens'']"

text \<open>A required and a nullable literal.\<close>

definition literal :: "pyval \<Rightarrow> string list \<Rightarrow> string \<Rightarrow> string res" where
  "literal v vocabulary label = (case v of
      PStr s \<Rightarrow> if s \<in> set vocabulary then Inr s
        else Inl (ValueError (label @ '' is outside the public vocabulary''))
    | _ \<Rightarrow> Inl (ValueError (label @ '' is outside the public vocabulary'')))"

definition nullable_literal :: "pyval \<Rightarrow> string list \<Rightarrow> string \<Rightarrow> string option res" where
  "nullable_literal v vocabulary label =
     (if v = PNone then Inr None else res_bind (literal v vocabulary label) (\<lambda>s. Inr (Some s)))"

fun opt_str :: "string option \<Rightarrow> pyval" where
  "opt_str None = PNone"
| "opt_str (Some s) = PStr s"

definition fact_object :: "validator \<Rightarrow> pyval \<Rightarrow> string list \<Rightarrow> string \<Rightarrow> pydict res" where
  "fact_object va payload keys label =
     res_bind (require_object va payload label) (\<lambda>d.
     res_bind (require_only_fields d keys label) (\<lambda>_.
     res_bind (guard (list_all (\<lambda>k. dhas k d) keys)
       (ValueError (label @ '' must contain every declared field''))) (\<lambda>_. Inr d)))"

section \<open>Reported counters\<close>

type_synonym counters = "(string \<times> int) list"

definition counter_ok :: "int \<Rightarrow> string \<times> pyval \<Rightarrow> bool" where
  "counter_ok cfg p \<longleftrightarrow> fst p \<in> set USAGE_COUNTERS \<and>
     (case snd p of PInt n \<Rightarrow> is_portable_json_integer cfg (IInt n) \<and> 0 \<le> n | _ \<Rightarrow> False)"

definition int_of_val :: "pyval \<Rightarrow> int" where
  "int_of_val v = (case v of PInt n \<Rightarrow> n | _ \<Rightarrow> 0)"

definition reported_counters :: "int \<Rightarrow> pyval \<Rightarrow> counters res" where
  "reported_counters cfg v = (case v of
      PDict d \<Rightarrow> if list_all (counter_ok cfg) d then Inr (map (\<lambda>(k, c). (k, int_of_val c)) d)
        else Inl (ValueError ''reported usage requires known counters and non-negative portable integers'')
    | _ \<Rightarrow> Inl (ValueError ''reported usage must be an object''))"

definition counters_json :: "counters \<Rightarrow> pyval" where
  "counters_json c = PDict (map (\<lambda>(k, n). (k, PInt n)) c)"

definition counter_get :: "counters \<Rightarrow> string \<Rightarrow> int" where
  "counter_get c k = (case map_of c k of None \<Rightarrow> 0 | Some n \<Rightarrow> n)"

section \<open>Termination\<close>

record model_call_termination =
  mt_outcome :: string
  mt_ended_by :: string
  mt_requested_by :: "string option"

definition termination_to_json :: "model_call_termination \<Rightarrow> pyval" where
  "termination_to_json t = PDict [(''outcome'', PStr (mt_outcome t)),
     (''requested_by'', opt_str (mt_requested_by t)), (''ended_by'', PStr (mt_ended_by t))]"

definition termination_from_json :: "validator \<Rightarrow> pyval \<Rightarrow> model_call_termination res" where
  "termination_from_json va payload =
     res_bind (fact_object va payload [''outcome'', ''requested_by'', ''ended_by''] ''termination'') (\<lambda>d.
     res_bind (literal (dget d ''outcome'') CallOutcome ''termination outcome'') (\<lambda>oc.
     res_bind (literal (dget d ''ended_by'') ReadEnd ''termination ended_by'') (\<lambda>eb.
     res_bind (nullable_literal (dget d ''requested_by'') StopRequester ''termination requested_by'') (\<lambda>rb.
     Inr \<lparr>mt_outcome = oc, mt_ended_by = eb, mt_requested_by = rb\<rparr>))))"

section \<open>Observations\<close>

record usage_observation =
  uo_reported :: counters
  uo_source :: "string option"
  uo_collection :: "string option"

definition make_observation :: "int \<Rightarrow> pyval \<Rightarrow> pyval \<Rightarrow> pyval \<Rightarrow> usage_observation res" where
  "make_observation cfg rep src coll =
     res_bind (reported_counters cfg rep) (\<lambda>r.
     res_bind (nullable_literal src UsageSource ''usage source'') (\<lambda>s.
     res_bind (nullable_literal coll UsageCollection ''usage collection'') (\<lambda>c.
     if r \<noteq> [] then
       (if s \<notin> {Some ''provider'', Some ''adapter''} \<or> c = None
        then Inl (ValueError ''reported usage requires an explicit source and collection'')
        else Inr \<lparr>uo_reported = r, uo_source = s, uo_collection = c\<rparr>)
     else if s \<notin> {None, Some ''legacy_ambiguous''} \<or> c \<noteq> None
     then Inl (ValueError ''unreported usage must have no collection or asserted source'')
     else Inr \<lparr>uo_reported = r, uo_source = s, uo_collection = c\<rparr>)))"

definition observation_fields :: "usage_observation \<Rightarrow> pydict" where
  "observation_fields x = [(''reported'', counters_json (uo_reported x)),
     (''source'', opt_str (uo_source x)), (''collection'', opt_str (uo_collection x))]"

definition observation_to_json :: "usage_observation \<Rightarrow> pyval" where
  "observation_to_json x = PDict (observation_fields x)"

definition observation_from_json :: "validator \<Rightarrow> int \<Rightarrow> pyval \<Rightarrow> usage_observation res" where
  "observation_from_json va cfg payload =
     res_bind (fact_object va payload [''reported'', ''source'', ''collection''] ''usage observation'') (\<lambda>d.
     make_observation cfg (dget d ''reported'') (dget d ''source'') (dget d ''collection''))"

definition observation_validate_usage :: "usage_observation \<Rightarrow> counters \<Rightarrow> unit res" where
  "observation_validate_usage x usage =
     guard (list_all (\<lambda>(k, n). counter_get usage k = n) (uo_reported x))
       (ValueError ''usage observation must agree with dispatch usage'')"

section \<open>Evidence\<close>

record usage_attempt =
  ua_index :: int
  ua_observation :: usage_observation

definition attempt_to_json :: "usage_attempt \<Rightarrow> pyval" where
  "attempt_to_json a = PDict ((''index'', PInt (ua_index a)) # observation_fields (ua_observation a))"

definition attempt_from_json :: "validator \<Rightarrow> int \<Rightarrow> pyval \<Rightarrow> usage_attempt res" where
  "attempt_from_json va cfg payload =
     res_bind (fact_object va payload [''index'', ''reported'', ''source'', ''collection'']
       ''usage evidence attempt'') (\<lambda>d.
     res_bind (observation_from_json va cfg (PDict (map (\<lambda>k. (k, dget d k))
       [''reported'', ''source'', ''collection'']))) (\<lambda>x.
     case dget d ''index'' of
       PInt i \<Rightarrow> if \<not> is_portable_json_integer cfg (IInt i) \<or> i < 1
         then Inl (ValueError ''usage evidence attempt index must be a positive integer'')
         else Inr \<lparr>ua_index = i, ua_observation = x\<rparr>
     | _ \<Rightarrow> Inl (ValueError ''usage evidence attempt index must be a positive integer'')))"

type_synonym usage_evidence = "usage_attempt list"

definition add_counter :: "string \<times> int \<Rightarrow> counters \<Rightarrow> counters" where
  "add_counter p totals = AList.update (fst p) (counter_get totals (fst p) + snd p) totals"

definition evidence_reported :: "usage_evidence \<Rightarrow> counters" where
  "evidence_reported e =
     fold (\<lambda>a totals. fold add_counter (uo_reported (ua_observation a)) totals) e []"

definition reporting_attempts :: "usage_evidence \<Rightarrow> string \<Rightarrow> nat" where
  "reporting_attempts e k =
     length (filter (\<lambda>a. k \<in> fst ` set (uo_reported (ua_observation a))) e)"

definition coverage_of :: "usage_evidence \<Rightarrow> string \<Rightarrow> string" where
  "coverage_of e k = (if e = [] then ''no_dispatch''
     else if reporting_attempts e k = length e then ''complete''
     else if reporting_attempts e k \<noteq> 0 then ''partial'' else ''unknown'')"

definition evidence_completeness :: "usage_evidence \<Rightarrow> (string \<times> string) list" where
  "evidence_completeness e = map (\<lambda>k. (k, coverage_of e k)) USAGE_COUNTERS"

definition make_evidence :: "int \<Rightarrow> usage_attempt list \<Rightarrow> usage_evidence res" where
  "make_evidence cfg attempts =
     (if map ua_index attempts \<noteq> map int [1..<Suc (length attempts)]
      then Inl (ValueError ''usage evidence must name every attempt once in order'')
      else res_bind (reported_counters cfg (counters_json (evidence_reported attempts)))
        (\<lambda>_. Inr attempts))"

definition completeness_json :: "(string \<times> string) list \<Rightarrow> pyval" where
  "completeness_json c = PDict (map (\<lambda>(k, s). (k, PStr s)) c)"

definition evidence_to_json :: "usage_evidence \<Rightarrow> pyval" where
  "evidence_to_json e = PDict [(''reported'', counters_json (evidence_reported e)),
     (''completeness'', completeness_json (evidence_completeness e)),
     (''attempts'', PList (map attempt_to_json e))]"

definition evidence_from_json :: "validator \<Rightarrow> int \<Rightarrow> pyval \<Rightarrow> usage_evidence res" where
  "evidence_from_json va cfg payload =
     res_bind (fact_object va payload [''reported'', ''completeness'', ''attempts''] ''usage_evidence'') (\<lambda>d.
     case dget d ''attempts'' of
       PList items \<Rightarrow>
         res_bind (res_map (attempt_from_json va cfg) items) (\<lambda>attempts.
         res_bind (make_evidence cfg attempts) (\<lambda>e.
         res_bind (reported_counters cfg (dget d ''reported'')) (\<lambda>r.
         if \<not> py_eq (counters_json r) (counters_json (evidence_reported e)) \<or>
            \<not> py_eq (dget d ''completeness'') (completeness_json (evidence_completeness e))
         then Inl (ValueError ''usage_evidence aggregate must equal its observations'')
         else Inr e)))
     | _ \<Rightarrow> Inl (ValueError ''usage_evidence attempts must be an array''))"

definition evidence_validate_usage :: "usage_evidence \<Rightarrow> counters \<Rightarrow> int \<Rightarrow> unit res" where
  "evidence_validate_usage e usage attempts =
     res_bind (guard (int (length e) = attempts)
       (ValueError ''usage_evidence must cover the receipt attempt count'')) (\<lambda>_.
     guard (list_all (\<lambda>(k, n). \<not> (counter_get usage k < n \<or>
         (coverage_of e k = ''complete'' \<and> n \<noteq> counter_get usage k))) (evidence_reported e))
       (ValueError ''usage_evidence must agree with numeric usage and coverage''))"

section \<open>Laws\<close>

definition observation_ok :: "int \<Rightarrow> usage_observation \<Rightarrow> bool" where
  "observation_ok cfg x \<longleftrightarrow>
     make_observation cfg (counters_json (uo_reported x)) (opt_str (uo_source x))
       (opt_str (uo_collection x)) = Inr x"

definition evidence_ok :: "int \<Rightarrow> usage_evidence \<Rightarrow> bool" where
  "evidence_ok cfg e \<longleftrightarrow> make_evidence cfg e = Inr e \<and>
     list_all (\<lambda>a. observation_ok cfg (ua_observation a) \<and>
       distinct (map fst (uo_reported (ua_observation a))) \<and>
       is_portable_json_integer cfg (IInt (ua_index a)) \<and> 1 \<le> ua_index a) e"

lemma fact_object_strict:
  "pydantic_strict va \<Longrightarrow> fact_object va payload keys label = Inr d \<longleftrightarrow>
     payload = PDict d \<and> fst ` set d = set keys"
  by (auto simp: fact_object_def wire_simps res_bind_eq_Inr require_only_fields_def list_all_iff
      split: pyval.splits)

lemma counters_json_counters [simp]:
  "reported_counters cfg (counters_json c) = Inr c \<longleftrightarrow>
     list_all (\<lambda>(k, n). k \<in> set USAGE_COUNTERS \<and> is_portable_json_integer cfg (IInt n) \<and> 0 \<le> n) c"
proof -
  have "map (\<lambda>(k, v). (k, int_of_val v)) (map (\<lambda>(k, n). (k, PInt n)) c) = c"
    by (induction c) (auto simp: int_of_val_def)
  then show ?thesis
    by (fastforce simp: reported_counters_def counters_json_def counter_ok_def list_all_iff
        simp del: map_map split: if_splits)
qed

lemma counters_json_inverse:
  "reported_counters cfg (counters_json c) = Inr x \<longleftrightarrow>
     x = c \<and> reported_counters cfg (counters_json c) = Inr c"
proof -
  have "map (\<lambda>(k, v). (k, int_of_val v)) (map (\<lambda>(k, n). (k, PInt n)) c) = c"
    by (induction c) (auto simp: int_of_val_def)
  then show ?thesis by (auto simp: reported_counters_def counters_json_def simp del: map_map split: if_splits)
qed

lemma dget_observation_fields [simp]:
  "dget (observation_fields x) ''reported'' = counters_json (uo_reported x)"
  "dget (observation_fields x) ''source'' = opt_str (uo_source x)"
  "dget (observation_fields x) ''collection'' = opt_str (uo_collection x)"
  "dget (p # observation_fields x) k = (if k = fst p then snd p else dget (observation_fields x) k)"
  by (simp_all add: observation_fields_def dget_def)

lemma py_eq_dict_refl:
  assumes "distinct (map fst d)" and "\<And>k v. (k, v) \<in> set d \<Longrightarrow> py_eq v v"
  shows "py_eq (PDict d) (PDict d)"
proof -
  have "(case map_of d (fst p) of None \<Rightarrow> False | Some u \<Rightarrow> py_eq (snd p) u)" if "p \<in> set d" for p
  proof -
    from that assms(1) have "map_of d (fst p) = Some (snd p)" by simp
    with assms(2) [of "fst p" "snd p"] that show ?thesis by simp
  qed
  then show ?thesis by (simp add: list_all_iff)
qed

lemma map_fst_pairs: "map fst (map (\<lambda>(k, v). (k, f v)) d) = map fst d"
  by (induction d) auto

lemma counters_json_eq_refl: "distinct (map fst c) \<Longrightarrow> py_eq (counters_json c) (counters_json c)"
  unfolding counters_json_def
  by (rule py_eq_dict_refl) (auto simp: map_fst_pairs num_eq_def simp del: map_map)

lemma USAGE_COUNTERS_distinct: "distinct USAGE_COUNTERS"
  by (simp add: USAGE_COUNTERS_def)

lemma completeness_json_eq_refl:
  "py_eq (completeness_json (evidence_completeness e)) (completeness_json (evidence_completeness e))"
proof -
  have "map fst (evidence_completeness e) = USAGE_COUNTERS"
    by (simp add: evidence_completeness_def comp_def)
  then show ?thesis unfolding completeness_json_def
    by (intro py_eq_dict_refl)
       (auto simp: map_fst_pairs USAGE_COUNTERS_distinct py_eq_refl_iff simp del: map_map)
qed

text \<open>The totals are the sums over the attempts.\<close>

lemma counter_get_add: "counter_get (add_counter p totals) k =
    counter_get totals k + (if fst p = k then snd p else 0)"
  by (simp add: add_counter_def counter_get_def update_conv')

lemma counter_get_Cons: "counter_get (p # c) k = (if fst p = k then snd p else counter_get c k)"
  by (cases p) (simp add: counter_get_def)

lemma counter_get_fold:
  "distinct (map fst c) \<Longrightarrow>
     counter_get (fold add_counter c totals) k = counter_get totals k + counter_get c k"
proof (induction c arbitrary: totals)
  case (Cons p c)
  have "map_of c (fst p) = None" using Cons.prems by (simp add: map_of_eq_None_iff)
  then have "counter_get c (fst p) = 0" by (simp add: counter_get_def)
  with Cons show ?case by (auto simp: counter_get_add counter_get_Cons)
qed (simp add: counter_get_def)

lemma keys_fold_add: "fst ` set (fold add_counter c totals) = fst ` set totals \<union> fst ` set c"
  by (induction c arbitrary: totals) (auto simp: add_counter_def dom_update)

lemma distinct_fold_add: "distinct (map fst totals) \<Longrightarrow> distinct (map fst (fold add_counter c totals))"
  by (induction c arbitrary: totals) (simp_all add: add_counter_def distinct_update)

lemma evidence_reported_fold:
  assumes "\<And>a. a \<in> set e \<Longrightarrow> distinct (map fst (uo_reported (ua_observation a)))"
  shows "counter_get (fold (\<lambda>a. fold add_counter (uo_reported (ua_observation a))) e totals) k =
    counter_get totals k + (\<Sum>a\<leftarrow>e. counter_get (uo_reported (ua_observation a)) k)"
  using assms by (induction e arbitrary: totals) (simp_all add: counter_get_fold)

lemma evidence_reported_keys:
  "fst ` set (fold (\<lambda>a. fold add_counter (uo_reported (ua_observation a))) e totals) =
    fst ` set totals \<union> (\<Union>a \<in> set e. fst ` set (uo_reported (ua_observation a)))"
  by (induction e arbitrary: totals) (auto simp: keys_fold_add)

lemma evidence_reported_distinct: "distinct (map fst (evidence_reported e))"
proof -
  have "distinct (map fst totals) \<Longrightarrow>
      distinct (map fst (fold (\<lambda>a. fold add_counter (uo_reported (ua_observation a))) e totals))" for totals
    by (induction e arbitrary: totals) (simp_all add: distinct_fold_add)
  then show ?thesis by (simp add: evidence_reported_def)
qed

lemma evidence_total:
  assumes "\<And>a. a \<in> set e \<Longrightarrow> distinct (map fst (uo_reported (ua_observation a)))"
  shows "counter_get (evidence_reported e) k = (\<Sum>a\<leftarrow>e. counter_get (uo_reported (ua_observation a)) k)"
  unfolding evidence_reported_def using evidence_reported_fold [OF assms, of e "[]" k]
  by (simp add: counter_get_def)

lemma coverage_complete:
  "coverage_of e k = ''complete'' \<longleftrightarrow>
     e \<noteq> [] \<and> (\<forall>a \<in> set e. k \<in> fst ` set (uo_reported (ua_observation a)))"
proof -
  have "length (filter P e) = length e \<longleftrightarrow> (\<forall>a \<in> set e. P a)" for P
    by (induction e) (auto simp: le_imp_less_Suc less_imp_neq)
  then show ?thesis unfolding coverage_of_def reporting_attempts_def by simp
qed

lemma observation_roundtrip:
  assumes "pydantic_strict va" and "observation_ok cfg x"
  shows "observation_from_json va cfg (PDict (observation_fields x)) = Inr x"
proof -
  have "fact_object va (PDict (observation_fields x)) [''reported'', ''source'', ''collection'']
      ''usage observation'' = Inr (observation_fields x)"
    using assms(1) by (auto simp: fact_object_strict observation_fields_def)
  with assms(2) show ?thesis by (simp add: observation_from_json_def observation_ok_def)
qed

lemma attempt_roundtrip:
  assumes "pydantic_strict va" and "observation_ok cfg (ua_observation a)"
    and "is_portable_json_integer cfg (IInt (ua_index a))" and "1 \<le> ua_index a"
  shows "attempt_from_json va cfg (attempt_to_json a) = Inr a"
proof -
  let ?d = "(''index'', PInt (ua_index a)) # observation_fields (ua_observation a)"
  have f: "fact_object va (PDict ?d) [''index'', ''reported'', ''source'', ''collection'']
      ''usage evidence attempt'' = Inr ?d"
    using assms(1) by (auto simp: fact_object_strict observation_fields_def)
  have m: "map (\<lambda>k. (k, dget ?d k)) [''reported'', ''source'', ''collection''] =
      observation_fields (ua_observation a)"
    by (simp add: observation_fields_def dget_def)
  have i: "dget ?d ''index'' = PInt (ua_index a)" by simp
  show ?thesis using assms
    unfolding attempt_from_json_def attempt_to_json_def f res_bind_Inr m observation_roundtrip [OF assms(1,2)] i
    by simp
qed

lemma evidence_roundtrip:
  assumes "pydantic_strict va" and "evidence_ok cfg e"
  shows "evidence_from_json va cfg (evidence_to_json e) = Inr e"
proof -
  let ?d = "[(''reported'', counters_json (evidence_reported e)),
     (''completeness'', completeness_json (evidence_completeness e)),
     (''attempts'', PList (map attempt_to_json e))]"
  have f: "fact_object va (PDict ?d) [''reported'', ''completeness'', ''attempts''] ''usage_evidence'' = Inr ?d"
    using assms(1) by (simp add: fact_object_strict)
  have g: "dget ?d ''attempts'' = PList (map attempt_to_json e)"
    "dget ?d ''reported'' = counters_json (evidence_reported e)"
    "dget ?d ''completeness'' = completeness_json (evidence_completeness e)"
    by (simp_all add: dget_def)
  have mk: "make_evidence cfg e = Inr e" using assms(2) by (simp add: evidence_ok_def)
  then have r: "reported_counters cfg (counters_json (evidence_reported e)) = Inr (evidence_reported e)"
    by (auto simp: make_evidence_def res_bind_eq_Inr counters_json_inverse split: if_splits)
  have "res_map (attempt_from_json va cfg) (map attempt_to_json e) = Inr e"
    unfolding res_map_Inr_iff list_all2_map1
    using assms by (intro list.rel_refl_strong) (auto simp: evidence_ok_def list_all_iff attempt_roundtrip)
  then show ?thesis
    unfolding evidence_from_json_def evidence_to_json_def f res_bind_Inr g pyval.case mk r
    by (simp add: mk counters_json_eq_refl [OF evidence_reported_distinct] completeness_json_eq_refl)
qed

section \<open>What accepted evidence says\<close>

lemma nullable_literal_opt_str:
  "nullable_literal v voc l = Inr x \<Longrightarrow> nullable_literal (opt_str x) voc l = Inr x"
  by (auto simp: nullable_literal_def literal_def res_bind_eq_Inr split: if_splits pyval.splits)

lemma reported_counters_inverse:
  assumes "reported_counters cfg v = Inr r"
  shows "reported_counters cfg (counters_json r) = Inr r"
proof -
  obtain d where d: "v = PDict d" "list_all (counter_ok cfg) d" "r = map (\<lambda>(k, c). (k, int_of_val c)) d"
    using assms by (cases v) (auto simp: reported_counters_def split: if_splits)
  have "k \<in> set USAGE_COUNTERS \<and> is_portable_json_integer cfg (IInt n) \<and> 0 \<le> n" if "(k, n) \<in> set r" for k n
  proof -
    from that d(3) obtain c where c: "(k, c) \<in> set d" "n = int_of_val c" by auto
    with d(2) have "counter_ok cfg (k, c)" by (auto simp: list_all_iff)
    with c(2) show ?thesis by (cases c) (auto simp: counter_ok_def int_of_val_def)
  qed
  then show ?thesis by (auto simp: list_all_iff)
qed

lemma make_observation_ok:
  assumes "make_observation cfg rep src coll = Inr x" shows "observation_ok cfg x"
proof -
  from assms obtain r s c where r: "reported_counters cfg rep = Inr r"
    and s: "nullable_literal src UsageSource ''usage source'' = Inr s"
    and c: "nullable_literal coll UsageCollection ''usage collection'' = Inr c"
    by (auto simp: make_observation_def res_bind_eq_Inr)
  with assms have x: "uo_reported x = r" "uo_source x = s" "uo_collection x = c"
    by (auto simp: make_observation_def split: if_splits)
  have "make_observation cfg (counters_json r) (opt_str s) (opt_str c) = make_observation cfg rep src coll"
    unfolding make_observation_def r s c reported_counters_inverse [OF r]
      nullable_literal_opt_str [OF s] nullable_literal_opt_str [OF c] ..
  with assms x show ?thesis by (simp add: observation_ok_def)
qed

lemma make_observation_distinct:
  "make_observation cfg rep src coll = Inr x \<Longrightarrow> wf_val rep \<Longrightarrow> distinct (map fst (uo_reported x))"
  by (auto simp: make_observation_def res_bind_eq_Inr reported_counters_def comp_def case_prod_unfold
      split: if_splits pyval.splits)

lemma wf_dget: "wf_val (PDict d) \<Longrightarrow> wf_val (dget d k)"
  by (fastforce simp: dget_def list_all_iff dest: map_of_SomeD split: option.split)

lemma attempt_from_json_ok:
  assumes "pydantic_strict va" and "attempt_from_json va cfg p = Inr a" and "wf_val p"
  shows "observation_ok cfg (ua_observation a) \<and> distinct (map fst (uo_reported (ua_observation a))) \<and>
    is_portable_json_integer cfg (IInt (ua_index a)) \<and> 1 \<le> ua_index a"
proof -
  from assms(2) obtain d where f: "fact_object va p [''index'', ''reported'', ''source'', ''collection'']
      ''usage evidence attempt'' = Inr d"
    by (auto simp: attempt_from_json_def res_bind_eq_Inr)
  then have p: "p = PDict d" using fact_object_strict assms(1) by blast
  let ?o = "map (\<lambda>k. (k, dget d k)) [''reported'', ''source'', ''collection'']"
  from assms(2) obtain x where x: "observation_from_json va cfg (PDict ?o) = Inr x"
    by (auto simp: attempt_from_json_def f res_bind_eq_Inr simp del: list.map)
  from assms(2) have a: "ua_observation a = x" and i: "is_portable_json_integer cfg (IInt (ua_index a))" "1 \<le> ua_index a"
    unfolding attempt_from_json_def f res_bind_Inr x
    by (cases "dget d ''index''"; force split: if_splits)+
  have o: "fact_object va (PDict ?o) [''reported'', ''source'', ''collection''] ''usage observation'' = Inr ?o"
    using assms(1) by (simp add: fact_object_strict)
  have g: "dget ?o ''reported'' = dget d ''reported''" "dget ?o ''source'' = dget d ''source''"
    "dget ?o ''collection'' = dget d ''collection''" by (simp_all add: dget_def [of "_ # _"])
  have m: "make_observation cfg (dget d ''reported'') (dget d ''source'') (dget d ''collection'') = Inr x"
    using x unfolding observation_from_json_def o res_bind_Inr g .
  have "wf_val (dget d ''reported'')" using assms(3) wf_dget p by simp
  with make_observation_ok [OF m] make_observation_distinct [OF m] a i show ?thesis by simp
qed

lemma make_evidence_id: "make_evidence cfg x = Inr e \<Longrightarrow> e = x"
  by (auto simp: make_evidence_def res_bind_eq_Inr split: if_splits)

lemma evidence_from_json_ok:
  assumes "pydantic_strict va" and "evidence_from_json va cfg p = Inr e" and "wf_val p"
  shows "evidence_ok cfg e"
proof -
  from assms(2) obtain d where f: "fact_object va p [''reported'', ''completeness'', ''attempts''] ''usage_evidence'' = Inr d"
    by (auto simp: evidence_from_json_def res_bind_eq_Inr)
  then have p: "p = PDict d" using fact_object_strict assms(1) by blast
  from assms(2) obtain items where it: "dget d ''attempts'' = PList items"
    by (cases "dget d ''attempts''") (simp_all add: evidence_from_json_def f)
  from assms(2) obtain x where m: "res_map (attempt_from_json va cfg) items = Inr x"
    and x: "make_evidence cfg x = Inr e"
    by (auto simp: evidence_from_json_def f it res_bind_eq_Inr split: if_splits)
  from make_evidence_id [OF x] m x have m: "res_map (attempt_from_json va cfg) items = Inr e"
    and mk: "make_evidence cfg e = Inr e" by simp_all
  have "list_all wf_val items" using wf_dget [of d "''attempts''"] assms(3) p it by simp
  with m have "\<forall>a \<in> set e. \<exists>q. wf_val q \<and> attempt_from_json va cfg q = Inr a"
    unfolding res_map_Inr_iff by (induction rule: list_all2_induct) auto
  with attempt_from_json_ok [OF assms(1)] mk show ?thesis
    unfolding evidence_ok_def list_all_iff by blast
qed

text \<open>C32. Usage evidence is honest about the numeric usage. Evidence that is decoded and passes the
  check against the usage and the attempt count of a receipt covers exactly that many attempts; for a
  counter some attempt reported, the reported amounts add up to at most the numeric usage, and to
  exactly the numeric usage when every attempt reported it; and the evidence written again decodes to
  itself.\<close>

theorem usage_evidence_is_honest:
  assumes "pydantic_strict va" and "wf_val p" and "evidence_from_json va cfg p = Inr e"
    and "evidence_validate_usage e usage n = Inr ()"
  shows "int (length e) = n \<and>
    (\<forall>k a. a \<in> set e \<and> k \<in> fst ` set (uo_reported (ua_observation a)) \<longrightarrow>
       (\<Sum>b\<leftarrow>e. counter_get (uo_reported (ua_observation b)) k) \<le> counter_get usage k \<and>
       ((\<forall>b \<in> set e. k \<in> fst ` set (uo_reported (ua_observation b))) \<longrightarrow>
         (\<Sum>b\<leftarrow>e. counter_get (uo_reported (ua_observation b)) k) = counter_get usage k)) \<and>
    evidence_from_json va cfg (evidence_to_json e) = Inr e"
proof -
  have ok: "evidence_ok cfg e" using evidence_from_json_ok assms(1-3) by blast
  then have d: "\<And>a. a \<in> set e \<Longrightarrow> distinct (map fst (uo_reported (ua_observation a)))"
    by (simp add: evidence_ok_def list_all_iff)
  have v: "int (length e) = n" "\<And>k m. (k, m) \<in> set (evidence_reported e) \<Longrightarrow>
      m \<le> counter_get usage k \<and> (coverage_of e k = ''complete'' \<longrightarrow> m = counter_get usage k)"
    using assms(4) by (auto simp: evidence_validate_usage_def res_bind_eq_Inr list_all_iff)
  have "(\<Sum>b\<leftarrow>e. counter_get (uo_reported (ua_observation b)) k) \<le> counter_get usage k \<and>
       ((\<forall>b \<in> set e. k \<in> fst ` set (uo_reported (ua_observation b))) \<longrightarrow>
         (\<Sum>b\<leftarrow>e. counter_get (uo_reported (ua_observation b)) k) = counter_get usage k)"
    if a: "a \<in> set e" "k \<in> fst ` set (uo_reported (ua_observation a))" for k a
  proof -
    have "k \<in> fst ` set (evidence_reported e)"
      using evidence_reported_keys [of e "[]"] a unfolding evidence_reported_def by auto
    then obtain m where m: "(k, m) \<in> set (evidence_reported e)" by auto
    then have "counter_get (evidence_reported e) k = m"
      using evidence_reported_distinct [of e] by (simp add: counter_get_def)
    then have "(\<Sum>b\<leftarrow>e. counter_get (uo_reported (ua_observation b)) k) = m"
      using evidence_total [OF d, of e k] by simp
    with v(2) [OF m] a(1) show ?thesis by (auto simp: coverage_complete)
  qed
  with v(1) evidence_roundtrip [OF assms(1) ok] show ?thesis by blast
qed

definition demo_evidence :: usage_evidence where
  "demo_evidence = [\<lparr>ua_index = 1, ua_observation = \<lparr>uo_reported = [(''input_tokens'', 5)],
     uo_source = Some ''provider'', uo_collection = Some ''normal''\<rparr>\<rparr>]"

theorem usage_evidence_is_honest_witness:
  "int (length demo_evidence) = 1 \<and> (\<Sum>b\<leftarrow>demo_evidence. counter_get (uo_reported (ua_observation b)) ''input_tokens'')
      = counter_get [(''input_tokens'', 5)] ''input_tokens'' \<and>
   evidence_from_json strict_validator 0 (evidence_to_json demo_evidence) = Inr demo_evidence"
proof -
  have ok: "evidence_ok 0 demo_evidence"
    by (simp add: evidence_ok_def demo_evidence_def make_evidence_def evidence_reported_def add_counter_def
        counter_get_def observation_ok_def make_observation_def nullable_literal_def literal_def
        UsageSource_def UsageCollection_def USAGE_COUNTERS_def is_portable_json_integer_def
        UNCONDITIONALLY_SPELLABLE_INT_def reported_counters_def counters_json_def counter_ok_def int_of_val_def)
  have wf: "wf_val (evidence_to_json demo_evidence)"
    by (simp add: evidence_to_json_def demo_evidence_def counters_json_def completeness_json_def
        evidence_reported_def add_counter_def attempt_to_json_def observation_fields_def
        evidence_completeness_def USAGE_COUNTERS_def)
  have v: "evidence_validate_usage demo_evidence [(''input_tokens'', 5)] 1 = Inr ()"
    by (simp add: evidence_validate_usage_def demo_evidence_def evidence_reported_def add_counter_def counter_get_def)
  show ?thesis
    using usage_evidence_is_honest [OF strict_validator_strict wf
        evidence_roundtrip [OF strict_validator_strict ok] v]
    by (simp add: demo_evidence_def)
qed

end
