(* ===== verification/Durable_Codec.thy ===== *)
theory Durable_Codec
  imports Safe_Evidence
begin

text \<open>
  The versioned reader of durable JSON artifacts (\<open>core/durable_codec.py\<close>): the version grammar
  \<open>namespace.family.vN\<close>, the load result, and decoding with registered one-version migrations.

  Loader and migrations are functions that may raise; values are trees, so a defensive copy is the
  value itself. The texts of error messages are not modelled.
\<close>

section \<open>Artifact versions\<close>

definition MAX_ARTIFACT_VERSION_DIGITS :: nat where
  "MAX_ARTIFACT_VERSION_DIGITS = 9"

record artifact_version =
  av_namespace :: string
  av_family :: string
  av_version :: nat
  av_raw :: string

text \<open>The two parts around the last dot.\<close>

definition rsplit_dot :: "string \<Rightarrow> (string \<times> string) option" where
  "rsplit_dot s = (case dropWhile (\<lambda>c. c \<noteq> CHR ''.'') (rev s) of
      [] \<Rightarrow> None
    | _ # front \<Rightarrow> Some (rev front, rev (takeWhile (\<lambda>c. c \<noteq> CHR ''.'') (rev s))))"

definition version_of_token :: "string \<Rightarrow> nat option" where
  "version_of_token tok =
     (let digits = (if str_startswith tok ''v'' then drop 1 tok else []) in
      if digits = [] \<or> MAX_ARTIFACT_VERSION_DIGITS < length digits \<or> \<not> list_all is_digit_char digits
      then None
      else (let n = digits_at 0 (length digits) digits in if n < 1 then None else Some n))"

definition parse_artifact_version :: "pyval \<Rightarrow> artifact_version option" where
  "parse_artifact_version v = (case v of
      PStr s \<Rightarrow> (case rsplit_dot s of
          None \<Rightarrow> None
        | Some (front, tok) \<Rightarrow> (case rsplit_dot front of
              None \<Rightarrow> None
            | Some (ns, fam) \<Rightarrow>
                if ns = [] \<or> fam = [] then None
                else (case version_of_token tok of
                    None \<Rightarrow> None
                  | Some n \<Rightarrow> Some \<lparr>av_namespace = ns, av_family = fam, av_version = n, av_raw = s\<rparr>)))
    | _ \<Rightarrow> None)"

section \<open>Load results\<close>

datatype load_status = Loaded | Migrated | Missing | Corrupt | UnsupportedVersion

record 'a load_result =
  lr_status :: load_status
  lr_family :: string
  lr_current_schema :: string
  lr_value :: "'a option"
  lr_observed_schema :: "string option"
  lr_migrations :: "string list"
  lr_error_code :: string
  lr_sequence :: "int option"

definition lr_ok :: "'a load_result \<Rightarrow> bool" where
  "lr_ok r \<longleftrightarrow> lr_status r \<in> {Loaded, Migrated} \<and> lr_value r \<noteq> None"

definition lr_map :: "('a \<Rightarrow> 'b) \<Rightarrow> 'a load_result \<Rightarrow> 'b load_result" where
  "lr_map f r = \<lparr>lr_status = lr_status r, lr_family = lr_family r,
     lr_current_schema = lr_current_schema r, lr_value = map_option f (lr_value r),
     lr_observed_schema = lr_observed_schema r, lr_migrations = lr_migrations r,
     lr_error_code = lr_error_code r, lr_sequence = lr_sequence r\<rparr>"

section \<open>Decoding\<close>

type_synonym migration = "pydict \<Rightarrow> pyval res"

record durable_codec =
  dc_family :: string
  dc_current_schema :: string
  dc_current_version :: nat
  dc_namespaces :: "string list"
  dc_migrations :: "nat \<Rightarrow> migration option"

definition make_codec :: "string \<Rightarrow> string \<Rightarrow> string list \<Rightarrow> (nat \<Rightarrow> migration option) \<Rightarrow> durable_codec res" where
  "make_codec family current_schema namespaces migrations =
     (case parse_artifact_version (PStr current_schema) of
        None \<Rightarrow> Inl (ValueError ''current_schema must be a valid version for the codec family'')
      | Some v \<Rightarrow> if av_family v \<noteq> family
          then Inl (ValueError ''current_schema must be a valid version for the codec family'')
          else Inr \<lparr>dc_family = family, dc_current_schema = current_schema,
                 dc_current_version = av_version v, dc_namespaces = namespaces,
                 dc_migrations = migrations\<rparr>)"

definition dash_to_underscore :: "string \<Rightarrow> string" where
  "dash_to_underscore s = map (\<lambda>c. if c = CHR ''-'' then CHR ''_'' else c) s"

definition codec_result :: "durable_codec \<Rightarrow> load_status \<Rightarrow> string option \<Rightarrow> string \<Rightarrow> int option \<Rightarrow> 'a load_result" where
  "codec_result c st observed suffix sq = \<lparr>lr_status = st, lr_family = dc_family c,
     lr_current_schema = dc_current_schema c, lr_value = None, lr_observed_schema = observed,
     lr_migrations = [],
     lr_error_code = (if suffix = [] then [] else dash_to_underscore (dc_family c) @ suffix),
     lr_sequence = sq\<rparr>"

definition codec_missing :: "durable_codec \<Rightarrow> 'a load_result" where
  "codec_missing c = codec_result c Missing None [] None"

definition codec_corrupt :: "durable_codec \<Rightarrow> string option \<Rightarrow> int option \<Rightarrow> 'a load_result" where
  "codec_corrupt c observed sq = codec_result c Corrupt observed ''_corrupt'' sq"

definition codec_unsupported :: "durable_codec \<Rightarrow> string \<Rightarrow> int option \<Rightarrow> 'a load_result" where
  "codec_unsupported c observed sq =
     codec_result c UnsupportedVersion (Some observed) ''_unsupported_version'' sq"

definition step_label :: "nat \<Rightarrow> string" where
  "step_label n = ''v'' @ show_nat n @ ''->v'' @ show_nat (Suc n)"

definition version_tag :: "durable_codec \<Rightarrow> nat \<Rightarrow> string" where
  "version_tag c n = ''monoid.'' @ dc_family c @ ''.v'' @ show_nat n"

text \<open>The migration loop, from version \<open>n\<close> with \<open>k\<close> steps to the current version.\<close>

fun migrate_loop :: "durable_codec \<Rightarrow> string \<Rightarrow> nat \<Rightarrow> nat \<Rightarrow> pydict \<Rightarrow> string list \<Rightarrow>
    'a load_result + (pydict \<times> string list)" where
  "migrate_loop c raw n 0 working steps = Inr (working, steps)"
| "migrate_loop c raw n (Suc k) working steps = (case dc_migrations c n of
      None \<Rightarrow> Inl (codec_unsupported c raw None)
    | Some migration \<Rightarrow> (case migration working of
          Inl e \<Rightarrow> Inl (codec_corrupt c (Some raw) None)
        | Inr (PDict d) \<Rightarrow> migrate_loop c raw (Suc n) k
            (AList.update ''schema_version'' (PStr (version_tag c (Suc n))) d) (steps @ [step_label n])
        | Inr _ \<Rightarrow> Inl (codec_corrupt c (Some raw) None)))"

definition codec_decode :: "durable_codec \<Rightarrow> pyval \<Rightarrow> (pydict \<Rightarrow> 'a res) \<Rightarrow> 'a load_result" where
  "codec_decode c payload loader = (case payload of
      PDict src \<Rightarrow> (case parse_artifact_version (dget src ''schema_version'') of
          None \<Rightarrow> codec_corrupt c None None
        | Some v \<Rightarrow>
            if av_family v \<noteq> dc_family c then codec_corrupt c (Some (av_raw v)) None
            else if av_namespace v \<notin> set (dc_namespaces c) \<or> dc_current_version c < av_version v
            then codec_unsupported c (av_raw v) None
            else (case migrate_loop c (av_raw v) (av_version v) (dc_current_version c - av_version v) src [] of
                Inl r \<Rightarrow> r
              | Inr (working, steps) \<Rightarrow> (case loader working of
                    Inl e \<Rightarrow> codec_corrupt c (Some (av_raw v)) None
                  | Inr x \<Rightarrow> \<lparr>lr_status = (if steps = [] then Loaded else Migrated),
                      lr_family = dc_family c, lr_current_schema = dc_current_schema c,
                      lr_value = Some x, lr_observed_schema = Some (av_raw v),
                      lr_migrations = steps, lr_error_code = [], lr_sequence = None\<rparr>)))
    | _ \<Rightarrow> codec_corrupt c None None)"

section \<open>Laws\<close>

text \<open>The steps of a migration as the composition of the registered functions.\<close>

inductive migrates :: "durable_codec \<Rightarrow> nat \<Rightarrow> pydict \<Rightarrow> nat \<Rightarrow> pydict \<Rightarrow> bool" for c where
  stay: "migrates c n d n d"
| move: "dc_migrations c n = Some m \<Longrightarrow> m d = Inr (PDict d') \<Longrightarrow>
     migrates c (Suc n) (AList.update ''schema_version'' (PStr (version_tag c (Suc n))) d') n' d'' \<Longrightarrow>
     migrates c n d n' d''"

lemma migrates_le: "migrates c n d n' d' \<Longrightarrow> n \<le> n'"
  by (induction rule: migrates.induct) auto

lemma migrate_loop_Inr:
  "(migrate_loop c raw n k d steps :: 'a load_result + _) = Inr (d', steps') \<Longrightarrow>
     migrates c n d (n + k) d' \<and> steps' = steps @ map step_label [n..<n + k]"
proof (induction k arbitrary: n d steps)
  case (Suc k)
  then obtain m e where m: "dc_migrations c n = Some m" "m d = Inr (PDict e)"
    by (auto split: option.splits sum.splits pyval.splits)
  with Suc.prems have "(migrate_loop c raw (Suc n) k
      (AList.update ''schema_version'' (PStr (version_tag c (Suc n))) e) (steps @ [step_label n])
        :: 'a load_result + _) = Inr (d', steps')"
    by simp
  from Suc.IH [OF this] m have "migrates c n d (n + Suc k) d'"
    and "steps' = steps @ step_label n # map step_label [Suc n..<Suc n + k]"
    by (auto intro: migrates.move)
  moreover have "[n..<n + Suc k] = n # [Suc n..<Suc n + k]" by (simp add: upt_conv_Cons del: upt_Suc)
  ultimately show ?case by (simp del: upt_Suc)
qed (simp add: migrates.stay)

lemma migrate_loop_complete:
  "migrates c n d (n + k) d' \<Longrightarrow> \<exists>steps'. (migrate_loop c raw n k d steps :: 'a load_result + _) = Inr (d', steps')"
proof (induction k arbitrary: n d steps)
  case 0
  then show ?case by (cases rule: migrates.cases) (auto dest: migrates_le)
next
  case (Suc k)
  from Suc.prems show ?case
  proof (cases rule: migrates.cases)
    case (move m e)
    from Suc.IH [of "Suc n" _ "steps @ [step_label n]"] move(3) obtain s where
      "(migrate_loop c raw (Suc n) k (AList.update ''schema_version'' (PStr (version_tag c (Suc n))) e)
         (steps @ [step_label n]) :: 'a load_result + _) = Inr (d', s)" by auto
    with move show ?thesis by simp
  qed simp
qed

lemma migrate_loop_Inl:
  "migrate_loop c raw n k d steps = Inl r \<Longrightarrow> lr_value r = None \<and> lr_status r \<in> {Corrupt, UnsupportedVersion}"
  by (induction c raw n k d steps rule: migrate_loop.induct)
     (auto simp: codec_unsupported_def codec_corrupt_def codec_result_def
       split: option.splits sum.splits pyval.splits)

lemma codec_decode_current:
  assumes "parse_artifact_version (dget src ''schema_version'') = Some v" and "av_family v = dc_family c"
    and "av_namespace v \<in> set (dc_namespaces c)" and "av_version v = dc_current_version c" and "loader src = Inr x"
  shows "lr_status (codec_decode c (PDict src) loader) = Loaded \<and>
    lr_value (codec_decode c (PDict src) loader) = Some x"
  using assms by (simp add: codec_decode_def)

lemma codec_decode_value:
  "lr_value (codec_decode c payload loader) = Some x \<Longrightarrow>
     \<exists>src v working steps. payload = PDict src \<and> parse_artifact_version (dget src ''schema_version'') = Some v \<and>
       (migrate_loop c (av_raw v) (av_version v) (dc_current_version c - av_version v) src [] ::
          'a load_result + _) = Inr (working, steps) \<and> loader working = Inr (x :: 'a)"
  by (auto simp: codec_decode_def codec_corrupt_def codec_unsupported_def codec_result_def dest: migrate_loop_Inl
      split: pyval.splits option.splits if_splits sum.splits prod.splits)

text \<open>The checked reader loads exactly the artifacts of its family. A payload decodes to a value
  if and only if it is an object whose schema version has an accepted namespace, the codec's family
  and a version not beyond the current one, every migration from that version to the current one is
  registered and succeeds, and the loader accepts the migrated object; the value is the loader's, the
  migrations are applied once each in version order, and anything else is reported as corrupt or
  unsupported without a value.\<close>

theorem codec_loads_exactly_its_family:
  "(lr_ok (codec_decode c payload loader) \<longleftrightarrow>
      (\<exists>src v d x. payload = PDict src \<and> parse_artifact_version (dget src ''schema_version'') = Some v \<and>
         av_family v = dc_family c \<and> av_namespace v \<in> set (dc_namespaces c) \<and>
         av_version v \<le> dc_current_version c \<and> migrates c (av_version v) src (dc_current_version c) d \<and>
         loader d = Inr x \<and> lr_value (codec_decode c payload loader) = Some x \<and>
         lr_migrations (codec_decode c payload loader) =
           map step_label [av_version v..<dc_current_version c])) \<and>
   (\<not> lr_ok (codec_decode c payload loader) \<longrightarrow>
      lr_value (codec_decode c payload loader) = None \<and>
      lr_status (codec_decode c payload loader) \<in> {Corrupt, UnsupportedVersion})"
proof -
  let ?r = "codec_decode c payload loader"
  consider (refused) "\<nexists>src v. payload = PDict src \<and> parse_artifact_version (dget src ''schema_version'') = Some v \<and>
      av_family v = dc_family c \<and> av_namespace v \<in> set (dc_namespaces c) \<and> av_version v \<le> dc_current_version c"
    | (version) src v where "payload = PDict src" "parse_artifact_version (dget src ''schema_version'') = Some v"
      "av_family v = dc_family c" "av_namespace v \<in> set (dc_namespaces c)" "av_version v \<le> dc_current_version c"
    by blast
  then show ?thesis
  proof cases
    case refused
    then have "lr_value ?r = None \<and> lr_status ?r \<in> {Corrupt, UnsupportedVersion}"
      by (auto simp: codec_decode_def codec_corrupt_def codec_unsupported_def codec_result_def not_less
          split: pyval.splits option.splits)
    with refused show ?thesis by (auto simp: lr_ok_def)
  next
    case version
    let ?loop = "migrate_loop c (av_raw v) (av_version v) (dc_current_version c - av_version v) src []
        :: 'a load_result + pydict \<times> string list"
    have n: "av_version v + (dc_current_version c - av_version v) = dc_current_version c" using version(5) by simp
    show ?thesis
    proof (cases ?loop)
      case (Inl r)
      then have r: "?r = r" using version by (simp add: codec_decode_def)
      have "\<not> migrates c (av_version v) src (dc_current_version c) d" for d
        using migrate_loop_complete [where 'a = 'a, of c "av_version v" src
            "dc_current_version c - av_version v" d "av_raw v" "[]"] Inl n by auto
      with migrate_loop_Inl [OF Inl] r version show ?thesis by (auto simp: lr_ok_def)
    next
      case (Inr p)
      obtain d steps where p: "p = (d, steps)" by (cases p)
      have m: "migrates c (av_version v) src (dc_current_version c) d"
        "steps = map step_label [av_version v..<dc_current_version c]"
        using migrate_loop_Inr [where 'a = 'a, of c "av_raw v" "av_version v" "dc_current_version c - av_version v" src "[]" d steps]
          Inr n by (auto simp: p)
      have uniq: "d' = d" if "migrates c (av_version v) src (dc_current_version c) d'" for d'
        using migrate_loop_complete [where 'a = 'a, of c "av_version v" src
            "dc_current_version c - av_version v" d' "av_raw v" "[]"]
          that Inr n by (auto simp: p)
      have r: "?r = (case loader d of Inl e \<Rightarrow> codec_corrupt c (Some (av_raw v)) None
          | Inr x \<Rightarrow> \<lparr>lr_status = (if steps = [] then Loaded else Migrated), lr_family = dc_family c,
              lr_current_schema = dc_current_schema c, lr_value = Some x, lr_observed_schema = Some (av_raw v),
              lr_migrations = steps, lr_error_code = [], lr_sequence = None\<rparr>)"
        using version Inr by (simp add: codec_decode_def p)
      show ?thesis
      proof (cases "loader d")
        case (Inl e)
        then have "lr_value ?r = None" "lr_status ?r = Corrupt"
          unfolding r by (simp_all add: codec_corrupt_def codec_result_def)
        then show ?thesis by (auto simp: lr_ok_def)
      next
        case (Inr x)
        then have v: "lr_value ?r = Some x" "lr_status ?r \<in> {Loaded, Migrated}" "lr_migrations ?r = steps"
          unfolding r by simp_all
        then show ?thesis using version m Inr by (auto simp: lr_ok_def)
      qed
    qed
  qed
qed

definition demo_codec :: durable_codec where
  "demo_codec = \<lparr>dc_family = ''x'', dc_current_schema = ''monoid.x.v2'', dc_current_version = 2,
     dc_namespaces = [''monoid''], dc_migrations = (\<lambda>n. None)\<rparr>"

theorem codec_loads_exactly_its_family_witness:
  "\<not> lr_ok (codec_decode demo_codec (PDict [(''schema_version'', PStr ''monoid.x.v1'')]) Inr) \<and>
   lr_value (codec_decode demo_codec (PDict [(''schema_version'', PStr ''monoid.x.v1'')]) Inr) = None \<and>
   lr_status (codec_decode demo_codec (PDict [(''schema_version'', PStr ''monoid.x.v1'')]) Inr)
     \<in> {Corrupt, UnsupportedVersion}"
proof -
  have "\<not> migrates demo_codec 1 d 2 d'" for d d'
  proof
    assume "migrates demo_codec 1 d 2 d'"
    then show False by (cases rule: migrates.cases) (simp_all add: demo_codec_def)
  qed
  moreover have "parse_artifact_version (dget [(''schema_version'', PStr ''monoid.x.v1'')] ''schema_version'') =
      Some \<lparr>av_namespace = ''monoid'', av_family = ''x'', av_version = 1, av_raw = ''monoid.x.v1''\<rparr>"
    by (simp add: dget_def parse_artifact_version_def rsplit_dot_def version_of_token_def is_digit_char_def
        in_range_def digits_at_def MAX_ARTIFACT_VERSION_DIGITS_def)
  ultimately have "\<not> lr_ok (codec_decode demo_codec (PDict [(''schema_version'', PStr ''monoid.x.v1'')]) Inr)"
    using codec_loads_exactly_its_family [of demo_codec "PDict [(''schema_version'', PStr ''monoid.x.v1'')]" Inr]
    by (auto simp: demo_codec_def)
  then show ?thesis
    using codec_loads_exactly_its_family [of demo_codec "PDict [(''schema_version'', PStr ''monoid.x.v1'')]" Inr]
    by blast
qed

end
