(* ===== verification/Model_Invocation.thy ===== *)
theory Model_Invocation
  imports Model_Facts Durable_Codec Text_Ingress
begin

text \<open>
  The durable record of a paid model call (\<open>core/model_invocation.py\<close>): the closed receipt
  vocabulary, the invariants of an invocation revision, its canonical wire form and its checked
  reader.

  \<open>va\<close> is the type adapter of the wire parsers, \<open>cfg\<close> the interpreter's limit on integer digits and
  \<open>sha\<close> the digest of an object's canonical JSON. The retained source envelope of a decoded record is
  the object itself instead of its canonical text. The projection of a runner receipt into the
  vocabulary (\<open>model_invocation_receipt\<close>) is not modelled.
\<close>

section \<open>Receipts\<close>

definition RECEIPT_FIELDS :: "(string \<times> string) list" where
  "RECEIPT_FIELDS = [
     (''attempts'', ''attempts''), (''configrecoverable'', ''config_recoverable''),
     (''durationms'', ''duration_ms''), (''finishreason'', ''finish_reason''),
     (''httpstatus'', ''http_status''), (''latencyms'', ''latency_ms''),
     (''providererrorcode'', ''provider_error_code''), (''providerrequestid'', ''provider_request_id''),
     (''providerresponseid'', ''provider_response_id''), (''providerretried'', ''provider_retried''),
     (''requestdigest'', ''request_digest''), (''requestid'', ''request_id''),
     (''responseid'', ''response_id''), (''retryable'', ''retryable''),
     (''settledat'', ''settled_at''), (''startedat'', ''started_at''),
     (''stopreason'', ''stop_reason''), (''streamcommitted'', ''stream_committed''),
     (''systemfingerprint'', ''system_fingerprint''), (''usage'', ''usage'')]"

definition RECEIPT_OPAQUE_ID_FIELDS :: "string list" where
  "RECEIPT_OPAQUE_ID_FIELDS = [''provider_request_id'', ''provider_response_id'', ''request_id'',
     ''response_id'', ''system_fingerprint'']"

definition RECEIPT_CODE_FIELDS :: "string list" where
  "RECEIPT_CODE_FIELDS = [''finish_reason'', ''provider_error_code'', ''stop_reason'']"

definition RECEIPT_TIMESTAMP_FIELDS :: "string list" where
  "RECEIPT_TIMESTAMP_FIELDS = [''settled_at'', ''started_at'']"

definition RECEIPT_BOOLEAN_FIELDS :: "string list" where
  "RECEIPT_BOOLEAN_FIELDS = [''config_recoverable'', ''provider_retried'', ''retryable'', ''stream_committed'']"

definition RECEIPT_DURATION_FIELDS :: "string list" where
  "RECEIPT_DURATION_FIELDS = [''duration_ms'', ''latency_ms'']"

text \<open>\<open>str.casefold\<close> and \<open>str.isalnum\<close> on code points below 256. The sharp s folds to two letters; the
  micro sign folds outside this range, to a letter that no field name has, and is kept as it is.\<close>

definition casefold_char :: "char \<Rightarrow> string" where
  "casefold_char c = (if (of_char c :: nat) = 223 then ''ss'' else [lower_char c])"

definition is_alnum_latin :: "char \<Rightarrow> bool" where
  "is_alnum_latin c \<longleftrightarrow> is_alnum_char c \<or>
     (let n = (of_char c :: nat) in n \<in> {170, 178, 179, 181, 185, 186, 188, 189, 190} \<or>
        (192 \<le> n \<and> n \<noteq> 215 \<and> n \<noteq> 247))"

definition collapsed_receipt_key :: "string \<Rightarrow> string" where
  "collapsed_receipt_key k = filter is_alnum_latin (concat (map casefold_char k))"

definition USAGE_FIELDS :: "(string \<times> string) list" where
  "USAGE_FIELDS = map (\<lambda>k. (filter (\<lambda>c. c \<noteq> CHR ''_'') k, k)) USAGE_COUNTERS"

definition require_positive_int :: "int \<Rightarrow> pyval \<Rightarrow> string \<Rightarrow> unit res" where
  "require_positive_int cfg v field = guard
     (case v of PInt n \<Rightarrow> is_portable_json_integer cfg (IInt n) \<and> 1 \<le> n | _ \<Rightarrow> False)
     (ValueError (''model invocation '' @ field @ '' must be a positive integer''))"

text \<open>Whether \<open>json.dumps(..., allow_nan=False)\<close> writes a value.\<close>

fun json_dumpable :: "int \<Rightarrow> pyval \<Rightarrow> bool" where
  "json_dumpable cfg (PDict d) = list_all (\<lambda>p. json_dumpable cfg (snd p)) d"
| "json_dumpable cfg (PList vs) = list_all (json_dumpable cfg) vs"
| "json_dumpable cfg (PTuple vs) = list_all (json_dumpable cfg) vs"
| "json_dumpable cfg (PFloat f) = is_finite_float f"
| "json_dumpable cfg (PInt n) = (cfg \<le> 0 \<or> \<bar>n\<bar> < 10 ^ nat cfg)"
| "json_dumpable cfg (POther _) = False"
| "json_dumpable cfg _ = True"

definition strict_ingress :: "pyval \<Rightarrow> pyval res" where
  "strict_ingress v = res_bind (normalize_json_ingress scope_ingress_opts (ival_of v)) (\<lambda>w. Inr (pyval_of w))"

fun usage_loop :: "int \<Rightarrow> pydict \<Rightarrow> pydict \<Rightarrow> pydict res" where
  "usage_loop cfg usage [] = Inr usage"
| "usage_loop cfg usage ((k, count) # rest) = (case map_of USAGE_FIELDS (collapsed_receipt_key k) of
      None \<Rightarrow> Inl (ValueError ''model invocation receipt usage contains a private field'')
    | Some key \<Rightarrow>
        if dhas key usage
        then Inl (ValueError ''model invocation receipt usage fields collide after canonicalization'')
        else if (case count of PInt n \<Rightarrow> is_portable_json_integer cfg (IInt n) \<and> 0 \<le> n | _ \<Rightarrow> False)
        then usage_loop cfg (usage @ [(key, count)]) rest
        else Inl (ValueError ''model invocation receipt usage values must be non-negative integers''))"

definition negative_number :: "pyval \<Rightarrow> bool" where
  "negative_number v = (case v of PInt n \<Rightarrow> n < 0 | PFloat f \<Rightarrow> flt_lt f (Fin 0) | _ \<Rightarrow> False)"

definition receipt_refusal :: "string \<Rightarrow> string \<Rightarrow> exn" where
  "receipt_refusal key what = ValueError (''model invocation receipt '' @ key @ '' must be '' @ what)"

text \<open>The canonical value of one field, by the group its name belongs to.\<close>

definition receipt_value :: "validator \<Rightarrow> int \<Rightarrow> string \<Rightarrow> pyval \<Rightarrow> pyval res" where
  "receipt_value va cfg key v =
     (if key = ''termination''
      then res_bind (termination_from_json va v) (\<lambda>t. Inr (termination_to_json t))
      else if key = ''usage_evidence''
      then res_bind (evidence_from_json va cfg v) (\<lambda>e. Inr (evidence_to_json e))
      else if key = ''usage''
      then (case v of
          PDict d \<Rightarrow> res_bind (usage_loop cfg [] d) (\<lambda>u. Inr (PDict u))
        | _ \<Rightarrow> Inl (ValueError ''model invocation receipt usage must be an object''))
      else if key = ''request_digest''
      then (if is_recorded_digest v then Inr v else Inl (receipt_refusal key ''a lowercase SHA-256 digest''))
      else if key \<in> set RECEIPT_OPAQUE_ID_FIELDS
      then (if is_safe_opaque_id v then Inr v else Inl (receipt_refusal key ''a bounded opaque id''))
      else if key \<in> set RECEIPT_CODE_FIELDS
      then (if is_safe_taxonomy_code v then Inr v else Inl (receipt_refusal key ''a bounded code''))
      else if key \<in> set RECEIPT_TIMESTAMP_FIELDS
      then (if is_safe_utc_timestamp v then Inr v else Inl (receipt_refusal key ''a UTC RFC3339 timestamp''))
      else if key \<in> set RECEIPT_BOOLEAN_FIELDS
      then (case v of PBool b \<Rightarrow> Inr v | _ \<Rightarrow> Inl (receipt_refusal key ''a boolean''))
      else if key \<in> set RECEIPT_DURATION_FIELDS
      then (if is_finite_json_number v \<and> \<not> negative_number v then Inr v
            else Inl (receipt_refusal key ''a non-negative number''))
      else if key = ''attempts''
      then res_bind (require_positive_int cfg v ''receipt attempts'') (\<lambda>_. Inr v)
      else if key = ''http_status''
      then (case v of PInt n \<Rightarrow> if 100 \<le> n \<and> n \<le> 599 then Inr v
                        else Inl (receipt_refusal key ''between 100 and 599'')
              | _ \<Rightarrow> Inl (receipt_refusal key ''between 100 and 599''))
      else Inl (AssertionError ''unclassified receipt field''))"

definition canonical_receipt_key :: "bool \<Rightarrow> string \<Rightarrow> string option" where
  "canonical_receipt_key allow_facts k =
     (if allow_facts \<and> k \<in> {''termination'', ''usage_evidence''} then Some k
      else map_of RECEIPT_FIELDS (collapsed_receipt_key k))"

fun receipt_loop :: "validator \<Rightarrow> int \<Rightarrow> bool \<Rightarrow> pydict \<Rightarrow> pydict \<Rightarrow> pydict res" where
  "receipt_loop va cfg allow_facts canonical [] = Inr canonical"
| "receipt_loop va cfg allow_facts canonical ((k, v) # rest) = (case canonical_receipt_key allow_facts k of
      None \<Rightarrow> Inl (ValueError ''model invocation receipt cannot contain private field'')
    | Some key \<Rightarrow>
        if dhas key canonical
        then Inl (ValueError ''model invocation receipt fields collide after canonicalization'')
        else res_bind (receipt_value va cfg key v) (\<lambda>w.
          receipt_loop va cfg allow_facts (canonical @ [(key, w)]) rest))"

definition usage_of_receipt :: "pydict \<Rightarrow> counters" where
  "usage_of_receipt r = (case dget r ''usage'' of
      PDict u \<Rightarrow> map (\<lambda>(k, c). (k, int_of_val c)) u | _ \<Rightarrow> [])"

definition attempts_of_receipt :: "pydict \<Rightarrow> int" where
  "attempts_of_receipt r = int_of_val (dget r ''attempts'')"

definition check_receipt_evidence :: "validator \<Rightarrow> int \<Rightarrow> pydict \<Rightarrow> unit res" where
  "check_receipt_evidence va cfg r =
     (if dhas ''usage_evidence'' r
      then res_bind (evidence_from_json va cfg (dget r ''usage_evidence'')) (\<lambda>e.
        evidence_validate_usage e (usage_of_receipt r) (attempts_of_receipt r))
      else Inr ())"

definition normalized_receipt :: "validator \<Rightarrow> int \<Rightarrow> bool \<Rightarrow> pydict \<Rightarrow> pydict res" where
  "normalized_receipt va cfg allow_facts receipt =
     res_bind (strict_ingress (PDict receipt)) (\<lambda>n. case n of
       PDict items \<Rightarrow>
         if \<not> json_dumpable cfg n
         then Inl (ValueError ''model invocation receipt must be portable JSON'')
         else res_bind (receipt_loop va cfg allow_facts [] items) (\<lambda>canonical.
           res_bind (check_receipt_evidence va cfg canonical) (\<lambda>_. Inr canonical))
     | _ \<Rightarrow> Inl (ValueError ''model invocation receipt must be an object or null''))"

section \<open>Invocations\<close>

datatype dispatch_state = Reserved | DispatchStarted | Settled | DispatchUnknown

fun dispatch_state_str :: "dispatch_state \<Rightarrow> string" where
  "dispatch_state_str Reserved = ''reserved''"
| "dispatch_state_str DispatchStarted = ''dispatch_started''"
| "dispatch_state_str Settled = ''settled''"
| "dispatch_state_str DispatchUnknown = ''unknown''"

datatype evidence_policy = Passive | Required | OutboxEvidence

fun evidence_policy_str :: "evidence_policy \<Rightarrow> string" where
  "evidence_policy_str Passive = ''passive''"
| "evidence_policy_str Required = ''required''"
| "evidence_policy_str OutboxEvidence = ''outbox''"

definition MODEL_INVOCATION_V1_SCHEMA_VERSION :: string where
  "MODEL_INVOCATION_V1_SCHEMA_VERSION = namespaced_id ''model-invocation.v1''"

definition MODEL_INVOCATION_V2_SCHEMA_VERSION :: string where
  "MODEL_INVOCATION_V2_SCHEMA_VERSION = namespaced_id ''model-invocation.v2''"

definition ACCEPTED_MODEL_INVOCATION_SCHEMA_VERSIONS :: "string list" where
  "ACCEPTED_MODEL_INVOCATION_SCHEMA_VERSIONS =
     accepted_namespaced_ids ''model-invocation.v1'' @ [MODEL_INVOCATION_V2_SCHEMA_VERSION]"

definition MODEL_REQUEST_DIGEST_GENERATION :: string where
  "MODEL_REQUEST_DIGEST_GENERATION = namespaced_id ''model-request-digest.v1''"

definition ACCEPTED_MODEL_REQUEST_DIGEST_GENERATIONS :: "string list" where
  "ACCEPTED_MODEL_REQUEST_DIGEST_GENERATIONS = accepted_namespaced_ids ''model-request-digest.v1''"

record invocation =
  iv_schema_version :: string
  iv_run_id :: string
  iv_logical_call_id :: string
  iv_revision :: int
  iv_dispatch_id :: string
  iv_dispatch_attempt :: int
  iv_idempotency_key :: string
  iv_dispatch_state :: dispatch_state
  iv_request_digest :: string
  iv_digest_generation :: string
  iv_evidence_policy :: evidence_policy
  iv_receipt :: "pydict option"
  iv_result_ref :: string
  iv_failure_code :: string
  iv_source_envelope :: "(pydict \<times> string) option"

definition allows_facts :: "invocation \<Rightarrow> bool" where
  "allows_facts i \<longleftrightarrow> iv_schema_version i = MODEL_INVOCATION_V2_SCHEMA_VERSION"

definition opt_receipt :: "validator \<Rightarrow> int \<Rightarrow> bool \<Rightarrow> pydict option \<Rightarrow> pydict option res" where
  "opt_receipt va cfg facts r = (case r of
      None \<Rightarrow> Inr None
    | Some d \<Rightarrow> res_bind (normalized_receipt va cfg facts d) (\<lambda>n. Inr (Some n)))"

text \<open>What a state may carry.\<close>

definition state_shape :: "dispatch_state \<Rightarrow> pydict option \<Rightarrow> string \<Rightarrow> string \<Rightarrow> unit res" where
  "state_shape st receipt result_ref failure_code = (case st of
      DispatchUnknown \<Rightarrow> guard (receipt = None \<and> result_ref = [])
        (ValueError ''unknown model invocation cannot carry a receipt or result'')
    | Settled \<Rightarrow> res_bind (guard (receipt \<noteq> None)
          (ValueError ''settled model invocation must carry a receipt'')) (\<lambda>_.
        if failure_code \<noteq> []
        then guard (result_ref = []) (ValueError ''failed settled model invocation cannot carry a result'')
        else guard (result_ref \<noteq> [])
          (ValueError ''successful settled model invocation must carry a result_ref''))
    | _ \<Rightarrow> guard (receipt = None \<and> result_ref = [] \<and> failure_code = [])
        (ValueError ''model invocation cannot carry a receipt, result, or failure''))"

text \<open>\<open>__post_init__\<close>: the validated invocation with its canonical receipt.\<close>

definition make_invocation :: "validator \<Rightarrow> int \<Rightarrow> invocation \<Rightarrow> invocation res" where
  "make_invocation va cfg i =
     res_bind (guard (iv_schema_version i \<in> set ACCEPTED_MODEL_INVOCATION_SCHEMA_VERSIONS)
       (ValueError ''unsupported model invocation schema'')) (\<lambda>_.
     res_bind (guard (opaque_id (iv_run_id i) \<and> opaque_id (iv_logical_call_id i) \<and> opaque_id (iv_dispatch_id i))
       (ValueError ''model invocation id must be a bounded opaque id'')) (\<lambda>_.
     res_bind (guard (idempotency_key_ok (iv_idempotency_key i))
       (ValueError ''model invocation idempotency_key is outside the portable vocabulary'')) (\<lambda>_.
     res_bind (guard (recorded_digest (iv_request_digest i))
       (ValueError ''model invocation request_digest must be a lowercase SHA-256 digest'')) (\<lambda>_.
     res_bind (guard (iv_digest_generation i \<in> set ACCEPTED_MODEL_REQUEST_DIGEST_GENERATIONS)
       (ValueError ''unsupported model invocation digest_generation'')) (\<lambda>_.
     res_bind (require_positive_int cfg (PInt (iv_revision i)) ''revision'') (\<lambda>_.
     res_bind (require_positive_int cfg (PInt (iv_dispatch_attempt i)) ''dispatch_attempt'') (\<lambda>_.
     res_bind (guard (iv_result_ref i = [] \<or> opaque_address (iv_result_ref i))
       (ValueError ''model invocation result_ref must be empty or a bounded opaque address'')) (\<lambda>_.
     res_bind (guard (iv_failure_code i = [] \<or> taxonomy_code (iv_failure_code i))
       (ValueError ''model invocation failure_code must be empty or a bounded code'')) (\<lambda>_.
     res_bind (opt_receipt va cfg (allows_facts i) (iv_receipt i)) (\<lambda>receipt.
     res_bind (guard (case receipt of None \<Rightarrow> True
         | Some r \<Rightarrow> (case map_of r ''request_digest'' of None \<Rightarrow> True | Some v \<Rightarrow> v = PStr (iv_request_digest i)))
       (ValueError ''model invocation receipt request_digest must match invocation request_digest'')) (\<lambda>_.
     res_bind (state_shape (iv_dispatch_state i) receipt (iv_result_ref i) (iv_failure_code i)) (\<lambda>_.
     Inr (i\<lparr>iv_receipt := receipt\<rparr>)))))))))))))"

definition opt_dict :: "pydict option \<Rightarrow> pyval" where
  "opt_dict r = (case r of None \<Rightarrow> PNone | Some d \<Rightarrow> PDict d)"

text \<open>The members of the wire object after the schema version.\<close>

definition invocation_members :: "invocation \<Rightarrow> pydict option \<Rightarrow> pydict" where
  "invocation_members i receipt = [
     (''run_id'', PStr (iv_run_id i)), (''logical_call_id'', PStr (iv_logical_call_id i)),
     (''revision'', PInt (iv_revision i)), (''dispatch_id'', PStr (iv_dispatch_id i)),
     (''dispatch_attempt'', PInt (iv_dispatch_attempt i)),
     (''idempotency_key'', PStr (iv_idempotency_key i)),
     (''dispatch_state'', PStr (dispatch_state_str (iv_dispatch_state i))),
     (''request_digest'', PStr (iv_request_digest i)),
     (''digest_generation'', PStr MODEL_REQUEST_DIGEST_GENERATION),
     (''evidence_policy'', PStr (evidence_policy_str (iv_evidence_policy i))),
     (''receipt'', opt_dict receipt), (''result_ref'', PStr (iv_result_ref i)),
     (''failure_code'', PStr (iv_failure_code i))]"

definition invocation_to_json :: "validator \<Rightarrow> int \<Rightarrow> invocation \<Rightarrow> pydict res" where
  "invocation_to_json va cfg i =
     res_bind (opt_receipt va cfg (allows_facts i) (iv_receipt i)) (\<lambda>receipt.
     Inr ((''schema_version'', PStr (if allows_facts i then MODEL_INVOCATION_V2_SCHEMA_VERSION
                                   else MODEL_INVOCATION_V1_SCHEMA_VERSION)) # invocation_members i receipt))"

section \<open>Reading\<close>

definition MODEL_INVOCATION_FIELDS :: "string list" where
  "MODEL_INVOCATION_FIELDS = [''schema_version'', ''run_id'', ''logical_call_id'', ''revision'', ''dispatch_id'',
     ''dispatch_attempt'', ''idempotency_key'', ''dispatch_state'', ''request_digest'', ''digest_generation'',
     ''evidence_policy'', ''requires_evidence'', ''receipt'', ''result_ref'', ''failure_code'']"

definition policy_of_str :: "string \<Rightarrow> evidence_policy" where
  "policy_of_str s = (if s = ''required'' then Required else if s = ''outbox'' then OutboxEvidence else Passive)"

definition state_of_str :: "string \<Rightarrow> dispatch_state" where
  "state_of_str s = (if s = ''reserved'' then Reserved else if s = ''dispatch_started'' then DispatchStarted
     else if s = ''settled'' then Settled else DispatchUnknown)"

definition model_evidence_policy_from_payload :: "validator \<Rightarrow> pydict \<Rightarrow> evidence_policy res" where
  "model_evidence_policy_from_payload va p =
     (if dhas ''evidence_policy'' p then
        res_bind (parse_literal p ''evidence_policy'' [''passive'', ''required'', ''outbox''] None) (\<lambda>s.
        let policy = policy_of_str s in
        if dhas ''requires_evidence'' p
        then res_bind (parse_bool va p ''requires_evidence'' False) (\<lambda>legacy.
          if legacy \<noteq> (policy = Required)
          then Inl (ValueError ''model invocation legacy evidence flag conflicts with evidence_policy'')
          else Inr policy)
        else Inr policy)
      else res_bind (parse_bool va p ''requires_evidence'' False) (\<lambda>b.
        Inr (if b then Required else Passive)))"

definition model_invocation_from_payload :: "validator \<Rightarrow> int \<Rightarrow> (pydict \<Rightarrow> string) \<Rightarrow> pydict \<Rightarrow> invocation res" where
  "model_invocation_from_payload va cfg sha p =
     res_bind (require_only_fields p MODEL_INVOCATION_FIELDS ''model invocation'') (\<lambda>_.
     res_bind (case dget p ''receipt'' of PNone \<Rightarrow> Inr None | PDict d \<Rightarrow> Inr (Some d)
       | _ \<Rightarrow> Inl (ValueError ''model invocation receipt must be an object or null'')) (\<lambda>raw.
     res_bind (parse_str va p ''schema_version'' []) (\<lambda>sv.
     res_bind (parse_str va p ''run_id'' []) (\<lambda>run.
     res_bind (parse_str va p ''logical_call_id'' []) (\<lambda>call.
     res_bind (parse_int p ''revision'' 0) (\<lambda>rev.
     res_bind (parse_str va p ''dispatch_id'' []) (\<lambda>did.
     res_bind (parse_int p ''dispatch_attempt'' 0) (\<lambda>att.
     res_bind (parse_str va p ''idempotency_key'' []) (\<lambda>key.
     res_bind (parse_literal p ''dispatch_state'' [''reserved'', ''dispatch_started'', ''settled'', ''unknown''] None) (\<lambda>st.
     res_bind (parse_str va p ''request_digest'' []) (\<lambda>dg.
     res_bind (parse_str va p ''digest_generation'' []) (\<lambda>gen.
     res_bind (model_evidence_policy_from_payload va p) (\<lambda>pol.
     res_bind (parse_str va p ''result_ref'' []) (\<lambda>rref.
     res_bind (parse_str va p ''failure_code'' []) (\<lambda>fc.
     res_bind (make_invocation va cfg \<lparr>iv_schema_version = sv, iv_run_id = run, iv_logical_call_id = call,
       iv_revision = rev, iv_dispatch_id = did, iv_dispatch_attempt = att, iv_idempotency_key = key,
       iv_dispatch_state = state_of_str st, iv_request_digest = dg, iv_digest_generation = gen,
       iv_evidence_policy = pol, iv_receipt = raw, iv_result_ref = rref, iv_failure_code = fc,
       iv_source_envelope = None\<rparr>) (\<lambda>i.
     let i = i\<lparr>iv_digest_generation := MODEL_REQUEST_DIGEST_GENERATION\<rparr> in
     res_bind (invocation_to_json va cfg i) (\<lambda>j.
     Inr (i\<lparr>iv_source_envelope := Some (p, sha j)\<rparr>))))))))))))))))))"

definition MODEL_INVOCATION_CODEC :: durable_codec where
  "MODEL_INVOCATION_CODEC = \<lparr>dc_family = ''model-invocation'',
     dc_current_schema = MODEL_INVOCATION_V1_SCHEMA_VERSION, dc_current_version = 1,
     dc_namespaces = [''monoid'', ''native-agent-runner''], dc_migrations = (\<lambda>_. None)\<rparr>"

definition MODEL_INVOCATION_V2_CODEC :: durable_codec where
  "MODEL_INVOCATION_V2_CODEC = \<lparr>dc_family = ''model-invocation'',
     dc_current_schema = MODEL_INVOCATION_V2_SCHEMA_VERSION, dc_current_version = 2,
     dc_namespaces = [''monoid''], dc_migrations = (\<lambda>_. None)\<rparr>"

definition model_invocation_payload_for_write :: "validator \<Rightarrow> int \<Rightarrow> (pydict \<Rightarrow> string) \<Rightarrow> invocation \<Rightarrow> pydict res" where
  "model_invocation_payload_for_write va cfg sha i =
     res_bind (invocation_to_json va cfg i) (\<lambda>canonical. case iv_source_envelope i of
       None \<Rightarrow> Inr canonical
     | Some (payload, digest) \<Rightarrow> if sha canonical \<noteq> digest
         then Inl (ValueError ''loaded model invocation was mutated; create a new revision'')
         else Inr payload)"

definition decode_model_invocation :: "validator \<Rightarrow> int \<Rightarrow> (pydict \<Rightarrow> string) \<Rightarrow> pyval \<Rightarrow> invocation load_result" where
  "decode_model_invocation va cfg sha payload = (case strict_ingress payload of
      Inl e \<Rightarrow> codec_corrupt MODEL_INVOCATION_CODEC None None
    | Inr n \<Rightarrow>
        if \<not> json_dumpable cfg n then codec_corrupt MODEL_INVOCATION_CODEC None None
        else codec_decode (case n of
            PDict d \<Rightarrow> if dget d ''schema_version'' = PStr MODEL_INVOCATION_V2_SCHEMA_VERSION
              then MODEL_INVOCATION_V2_CODEC else MODEL_INVOCATION_CODEC
          | _ \<Rightarrow> MODEL_INVOCATION_CODEC) n (model_invocation_from_payload va cfg sha))"

section \<open>Addresses\<close>

definition logical_model_call_id :: "(pydict \<Rightarrow> string) \<Rightarrow> string \<Rightarrow> string \<Rightarrow> string res" where
  "logical_model_call_id sha run_id step_id =
     (if \<not> opaque_id run_id then Inl (ValueError ''logical model call run_id must be a bounded opaque id'')
      else if \<not> opaque_id step_id then Inl (ValueError ''logical model call step_id must be a bounded opaque id'')
      else Inr (''mcall_'' @ sha [(''generation'', PStr (namespaced_id ''logical-model-call.v1'')),
        (''run_id'', PStr run_id), (''step_id'', PStr step_id)]))"

definition model_dispatch_id :: "int \<Rightarrow> (pydict \<Rightarrow> string) \<Rightarrow> string \<Rightarrow> int \<Rightarrow> string res" where
  "model_dispatch_id cfg sha logical_call_id dispatch_attempt =
     (if \<not> opaque_id logical_call_id
      then Inl (ValueError ''model dispatch logical_call_id must be a bounded opaque id'')
      else res_bind (require_positive_int cfg (PInt dispatch_attempt) ''dispatch attempt'') (\<lambda>_.
        Inr (''mdispatch_'' @ sha [(''generation'', PStr (namespaced_id ''model-dispatch.v1'')),
          (''logical_call_id'', PStr logical_call_id), (''dispatch_attempt'', PInt dispatch_attempt)])))"

section \<open>Laws of receipts\<close>

lemma strict_ingress_wf: "wf_val v \<Longrightarrow> strict_ingress v = Inr (norm_val False v)"
proof -
  assume wf: "wf_val v"
  have e: "scope_ingress_opts = text_opts False" by (simp add: scope_ingress_opts_def text_opts_def)
  show ?thesis unfolding strict_ingress_def e text_ingress_copy [OF wf] by (simp del: ival_of.simps)
qed

text \<open>What a copy that can be written is: portable JSON.\<close>

lemma dumpable_norm_portable: "json_dumpable cfg (norm_val False v) \<Longrightarrow> portable_json (norm_val False v)"
proof (induction v)
  case (PDict d)
  have "portable_json (norm_val False (snd p))" if "p \<in> set d" for p
    using PDict.IH [of p "snd p"] PDict.prems that by (cases p) (auto simp: list_all_iff)
  then show ?case by (auto simp: list_all_iff)
qed (auto simp: list_all_iff)

text \<open>Collapsing a name of lower-case letters and underscores drops the underscores.\<close>

lemma collapse_snake:
  "list_all (\<lambda>c. is_lower_char c \<or> c = CHR ''_'') k \<Longrightarrow>
     collapsed_receipt_key k = filter (\<lambda>c. c \<noteq> CHR ''_'') k"
proof (induction k)
  case (Cons c k)
  have "casefold_char c = [c]" and "is_alnum_latin c \<longleftrightarrow> c \<noteq> CHR ''_''"
    using Cons.prems
    by (auto simp: casefold_char_def lower_char_def is_lower_char_def in_range_def is_alnum_latin_def
        is_alnum_char_def is_digit_char_def Let_def)
  with Cons show ?case by (simp add: collapsed_receipt_key_def)
qed (simp add: collapsed_receipt_key_def)

lemma receipt_keys_fixed: "list_all (\<lambda>(_, c). map_of RECEIPT_FIELDS (collapsed_receipt_key c) = Some c) RECEIPT_FIELDS"
  by (simp add: RECEIPT_FIELDS_def collapse_snake is_lower_char_def in_range_def)

lemma usage_keys_fixed: "list_all (\<lambda>c. map_of USAGE_FIELDS (collapsed_receipt_key c) = Some c) USAGE_COUNTERS"
  by (simp add: USAGE_FIELDS_def USAGE_COUNTERS_def collapse_snake is_lower_char_def in_range_def)

lemma canonical_key_fixed:
  "canonical_receipt_key facts k = Some c \<Longrightarrow> canonical_receipt_key facts c = Some c"
  using receipt_keys_fixed
  by (auto simp: canonical_receipt_key_def list_all_iff dest: map_of_SomeD split: if_splits)

text \<open>Values a canonical record consists of.\<close>

definition good_val :: "int \<Rightarrow> pyval \<Rightarrow> bool" where
  "good_val cfg v \<longleftrightarrow> wf_val v \<and> portable_json v \<and> json_dumpable cfg v"

lemma good_dict:
  "good_val cfg (PDict d) \<longleftrightarrow> distinct (map fst d) \<and> (\<forall>(k, v) \<in> set d. good_val cfg v)"
  by (fastforce simp: good_val_def list_all_iff)

lemma good_list: "good_val cfg (PList vs) \<longleftrightarrow> (\<forall>v \<in> set vs. good_val cfg v)"
  by (auto simp: good_val_def list_all_iff)

lemma good_simps [simp]:
  "good_val cfg (PStr s)" "good_val cfg PNone" "good_val cfg (PBool b)"
  "good_val cfg (opt_str x)"
  by (auto simp: good_val_def) (cases x; simp)+

lemma good_int:
  assumes "digits_limit_ok cfg" and "is_portable_json_integer cfg (IInt n)"
  shows "good_val cfg (PInt n)"
proof -
  have "cfg \<le> 0 \<or> \<bar>n\<bar> < 10 ^ nat cfg"
  proof (cases "cfg \<le> 0")
    case False
    with assms(1) have c: "640 \<le> nat cfg" by (auto simp: digits_limit_ok_def)
    have "\<bar>n\<bar> < 10 ^ 17 \<or> \<bar>n\<bar> < 10 ^ spellable_integer_digits cfg"
      using assms(2) by (auto simp: is_portable_json_integer_def Let_def UNCONDITIONALLY_SPELLABLE_INT_def
          digit_bound_magnitude_def split: if_splits)
    moreover have "(10::int) ^ 17 \<le> 10 ^ nat cfg"
      using c by (intro power_increasing) simp_all
    moreover have "(10::int) ^ spellable_integer_digits cfg \<le> 10 ^ nat cfg"
      using False by (intro power_increasing) (simp_all add: spellable_integer_digits_def)
    ultimately show ?thesis by linarith
  qed simp
  then show ?thesis by (simp add: good_val_def)
qed

lemma good_norm: "good_val cfg v \<Longrightarrow> strict_ingress v = Inr v"
  by (simp add: good_val_def strict_ingress_wf portable_norm_val)

lemma norm_good:
  assumes "wf_val v" and "json_dumpable cfg (norm_val False v)"
  shows "good_val cfg (norm_val False v)"
  using assms wf_norm_val dumpable_norm_portable by (auto simp: good_val_def)

lemma good_counters:
  assumes "digits_limit_ok cfg" and "distinct (map fst c)"
    and "reported_counters cfg (counters_json c) = Inr c"
  shows "good_val cfg (counters_json c)"
proof -
  have "map fst (map (\<lambda>(k, n). (k, PInt n)) c) = map fst c" by (simp add: case_prod_unfold comp_def)
  moreover have "good_val cfg (PInt n)" if "(k, n) \<in> set c" for k n
    using assms(3) that good_int [OF assms(1)] by (auto simp: list_all_iff)
  ultimately show ?thesis using assms(2)
    unfolding counters_json_def good_dict by (auto simp del: map_map)
qed

lemma good_termination [simp]: "good_val cfg (termination_to_json t)"
  by (simp add: termination_to_json_def good_dict)

lemma good_evidence:
  assumes "digits_limit_ok cfg" and "evidence_ok cfg e"
  shows "good_val cfg (evidence_to_json e)"
proof -
  have mk: "make_evidence cfg e = Inr e" using assms(2) by (simp add: evidence_ok_def)
  then have r: "reported_counters cfg (counters_json (evidence_reported e)) = Inr (evidence_reported e)"
    by (auto simp: make_evidence_def res_bind_eq_Inr counters_json_inverse split: if_splits)
  have "good_val cfg (attempt_to_json a)" if "a \<in> set e" for a
  proof -
    have o: "observation_ok cfg (ua_observation a)" "distinct (map fst (uo_reported (ua_observation a)))"
      "is_portable_json_integer cfg (IInt (ua_index a))"
      using assms(2) that by (auto simp: evidence_ok_def list_all_iff)
    then have "reported_counters cfg (counters_json (uo_reported (ua_observation a))) =
        Inr (uo_reported (ua_observation a))"
      by (auto simp: observation_ok_def make_observation_def res_bind_eq_Inr counters_json_inverse)
    with o show ?thesis
      by (simp add: attempt_to_json_def observation_fields_def good_dict good_int good_counters assms(1))
  qed
  moreover have "good_val cfg (completeness_json (evidence_completeness e))"
  proof -
    have "map fst (map (\<lambda>(k, s). (k, PStr s)) (evidence_completeness e)) = USAGE_COUNTERS"
      by (simp add: evidence_completeness_def comp_def)
    then show ?thesis
      by (auto simp: completeness_json_def good_dict USAGE_COUNTERS_distinct simp del: map_map)
  qed
  ultimately show ?thesis
    by (auto simp: evidence_to_json_def good_dict good_list
        good_counters [OF assms(1) evidence_reported_distinct r])
qed

lemma termination_roundtrip:
  assumes "pydantic_strict va" and "termination_from_json va p = Inr t"
  shows "termination_from_json va (termination_to_json t) = Inr t"
proof -
  let ?d = "[(''outcome'', PStr (mt_outcome t)), (''requested_by'', opt_str (mt_requested_by t)),
      (''ended_by'', PStr (mt_ended_by t))]"
  have f: "fact_object va (PDict ?d) [''outcome'', ''requested_by'', ''ended_by''] ''termination'' = Inr ?d"
    using assms(1) by (simp add: fact_object_strict)
  from assms(2) obtain d where l: "literal (dget d ''outcome'') CallOutcome ''termination outcome'' = Inr (mt_outcome t)"
    "literal (dget d ''ended_by'') ReadEnd ''termination ended_by'' = Inr (mt_ended_by t)"
    "nullable_literal (dget d ''requested_by'') StopRequester ''termination requested_by'' = Inr (mt_requested_by t)"
    by (auto simp: termination_from_json_def res_bind_eq_Inr)
  have "literal (PStr s) voc lb = Inr s" if "literal v voc lb = Inr s" for v voc lb s
    using that by (auto simp: literal_def split: pyval.splits if_splits)
  with l show ?thesis
    unfolding termination_from_json_def termination_to_json_def f res_bind_Inr
    by (simp add: dget_def nullable_literal_opt_str [OF l(3)])
qed

lemma usage_loop_canonical:
  "usage_loop cfg u d = Inr u' \<Longrightarrow> distinct (map fst u) \<Longrightarrow> list_all (counter_ok cfg) u \<Longrightarrow>
     distinct (map fst u') \<and> list_all (counter_ok cfg) u'"
proof (induction cfg u d rule: usage_loop.induct)
  case (2 cfg u k count rest)
  from "2.prems"(1) obtain key where k: "map_of USAGE_FIELDS (collapsed_receipt_key k) = Some key"
    and n: "\<not> dhas key u" and c: "case count of PInt n \<Rightarrow> is_portable_json_integer cfg (IInt n) \<and> 0 \<le> n | _ \<Rightarrow> False"
    and r: "usage_loop cfg (u @ [(key, count)]) rest = Inr u'"
    by (auto split: option.splits if_splits)
  have "key \<in> set USAGE_COUNTERS" using map_of_SomeD [OF k] by (auto simp: USAGE_FIELDS_def)
  with "2.IH" [OF k n c r] "2.prems" n c show ?case by (auto simp: counter_ok_def split: pyval.splits)
qed simp

lemma usage_loop_id:
  "distinct (map fst (u @ d)) \<Longrightarrow> list_all (counter_ok cfg) d \<Longrightarrow> usage_loop cfg u d = Inr (u @ d)"
proof (induction d arbitrary: u)
  case (Cons p d)
  obtain k c where p: "p = (k, c)" by (cases p)
  with Cons.prems have "map_of USAGE_FIELDS (collapsed_receipt_key k) = Some k"
    using usage_keys_fixed by (auto simp: list_all_iff counter_ok_def)
  moreover have "\<not> dhas k u" using Cons.prems by (auto simp: p)
  ultimately show ?case using Cons.IH [of "u @ [(k, c)]"] Cons.prems
    by (auto simp: p counter_ok_def split: pyval.splits)
qed simp

text \<open>A canonical field is its own canonical form.\<close>

lemma receipt_value_canonical:
  assumes "pydantic_strict va" and "digits_limit_ok cfg" and "good_val cfg v"
    and "receipt_value va cfg key v = Inr w"
  shows "receipt_value va cfg key w = Inr w \<and> good_val cfg w"
proof -
  consider (ending) "key = ''termination''" | (evidence) "key = ''usage_evidence''" | (usage) "key = ''usage''"
    | (other) "key \<noteq> ''termination''" "key \<noteq> ''usage_evidence''" "key \<noteq> ''usage''"
    by blast
  then show ?thesis
  proof cases
    case ending
    with assms(4) obtain t where t: "termination_from_json va v = Inr t" "w = termination_to_json t"
      by (auto simp: receipt_value_def res_bind_eq_Inr)
    with ending show ?thesis using termination_roundtrip [OF assms(1) t(1)]
      by (simp add: receipt_value_def)
  next
    case evidence
    with assms(4) obtain e where e: "evidence_from_json va cfg v = Inr e" "w = evidence_to_json e"
      by (auto simp: receipt_value_def res_bind_eq_Inr)
    have "evidence_ok cfg e"
      using evidence_from_json_ok [OF assms(1) e(1)] assms(3) by (simp add: good_val_def)
    with evidence e show ?thesis
      by (simp add: receipt_value_def evidence_roundtrip [OF assms(1)] good_evidence [OF assms(2)])
  next
    case usage
    with assms(4) obtain d u where d: "v = PDict d" "usage_loop cfg [] d = Inr u" "w = PDict u"
      by (auto simp: receipt_value_def res_bind_eq_Inr split: pyval.splits)
    have u: "distinct (map fst u)" "list_all (counter_ok cfg) u"
      using usage_loop_canonical [OF d(2)] by simp_all
    have "good_val cfg c" if "(k, c) \<in> set u" for k c
    proof -
      have "counter_ok cfg (k, c)" using u(2) that by (auto simp: list_all_iff)
      then show ?thesis using good_int [OF assms(2)] by (cases c) (auto simp: counter_ok_def)
    qed
    with u have "good_val cfg w" by (auto simp: d(3) good_dict)
    with usage u d(3) show ?thesis
      by (simp add: receipt_value_def usage_loop_id [of "[]" u, simplified])
  next
    case other
    then have "w = v"
      using assms(4) by (auto simp: receipt_value_def res_bind_eq_Inr split: if_splits pyval.splits)
    with assms show ?thesis by simp
  qed
qed

definition canonical_receipt :: "validator \<Rightarrow> int \<Rightarrow> bool \<Rightarrow> pydict \<Rightarrow> bool" where
  "canonical_receipt va cfg facts r \<longleftrightarrow> distinct (map fst r) \<and>
     (\<forall>(k, v) \<in> set r. canonical_receipt_key facts k = Some k \<and> receipt_value va cfg k v = Inr v \<and> good_val cfg v)"

lemma receipt_loop_canonical:
  assumes "pydantic_strict va" and "digits_limit_ok cfg"
  shows "receipt_loop va cfg facts acc items = Inr r \<Longrightarrow> canonical_receipt va cfg facts acc \<Longrightarrow>
     (\<And>k v. (k, v) \<in> set items \<Longrightarrow> good_val cfg v) \<Longrightarrow> canonical_receipt va cfg facts r"
proof (induction items arbitrary: acc)
  case (Cons p items)
  obtain k v where p: "p = (k, v)" by (cases p)
  from Cons.prems(1) obtain key w where k: "canonical_receipt_key facts k = Some key" and n: "\<not> dhas key acc"
    and w: "receipt_value va cfg key v = Inr w"
    and r: "receipt_loop va cfg facts (acc @ [(key, w)]) items = Inr r"
    by (auto simp: p res_bind_eq_Inr split: option.splits if_splits)
  have "good_val cfg v" using Cons.prems(3) [of k v] by (simp add: p)
  from receipt_value_canonical [OF assms this w] canonical_key_fixed [OF k] n Cons.prems(2)
  have "canonical_receipt va cfg facts (acc @ [(key, w)])"
    by (auto simp: canonical_receipt_def)
  moreover have "good_val cfg v'" if "(k', v') \<in> set items" for k' v'
    using Cons.prems(3) [of k' v'] that by simp
  ultimately show ?case using Cons.IH [OF r] by blast
qed (simp add: canonical_receipt_def)

lemma receipt_loop_id:
  "canonical_receipt va cfg facts (acc @ items) \<Longrightarrow> receipt_loop va cfg facts acc items = Inr (acc @ items)"
proof (induction items arbitrary: acc)
  case (Cons p items)
  obtain k v where p: "p = (k, v)" by (cases p)
  have "canonical_receipt_key facts k = Some k" "receipt_value va cfg k v = Inr v" "\<not> dhas k acc"
    using Cons.prems by (auto simp: p canonical_receipt_def)
  with Cons.IH [of "acc @ [p]"] Cons.prems show ?case by (simp add: p)
qed simp

lemma normalized_receipt_canonical:
  assumes "pydantic_strict va" and "digits_limit_ok cfg" and "wf_val (PDict receipt)"
    and "normalized_receipt va cfg facts receipt = Inr r"
  shows "canonical_receipt va cfg facts r \<and> check_receipt_evidence va cfg r = Inr ()"
proof -
  from assms(4) obtain items where n: "norm_val False (PDict receipt) = PDict items"
    and d: "json_dumpable cfg (PDict items)" and l: "receipt_loop va cfg facts [] items = Inr r"
    and c: "check_receipt_evidence va cfg r = Inr ()"
    unfolding normalized_receipt_def strict_ingress_wf [OF assms(3)]
    by (auto simp: res_bind_eq_Inr split: if_splits)
  have "good_val cfg (PDict items)" using norm_good [OF assms(3), of cfg] d n by simp
  then have "\<And>k v. (k, v) \<in> set items \<Longrightarrow> good_val cfg v" by (auto simp: good_dict)
  with receipt_loop_canonical [OF assms(1,2) l] c show ?thesis by (simp add: canonical_receipt_def)
qed

lemma normalized_receipt_checked:
  assumes "normalized_receipt va cfg facts d = Inr r" shows "check_receipt_evidence va cfg r = Inr ()"
proof (cases "strict_ingress (PDict d)")
  case (Inr n)
  with assms show ?thesis
    by (cases n) (auto simp: normalized_receipt_def res_bind_eq_Inr split: if_splits)
qed (use assms in \<open>simp add: normalized_receipt_def\<close>)

lemma canonical_good: "canonical_receipt va cfg facts r \<Longrightarrow> good_val cfg (PDict r)"
  by (auto simp: canonical_receipt_def good_dict)

lemma normalized_receipt_id:
  assumes "canonical_receipt va cfg facts r" and "check_receipt_evidence va cfg r = Inr ()"
  shows "normalized_receipt va cfg facts r = Inr r"
proof -
  have g: "good_val cfg (PDict r)" using canonical_good assms(1) .
  then have "json_dumpable cfg (PDict r)" by (simp add: good_val_def)
  with assms receipt_loop_id [of va cfg facts "[]" r] show ?thesis
    unfolding normalized_receipt_def good_norm [OF g] by simp
qed

section \<open>Laws of invocations\<close>

text \<open>A valid invocation: what the constructor returns.\<close>

definition invocation_ok :: "validator \<Rightarrow> int \<Rightarrow> invocation \<Rightarrow> bool" where
  "invocation_ok va cfg i \<longleftrightarrow> make_invocation va cfg i = Inr i"

definition opt_receipt_canonical :: "validator \<Rightarrow> int \<Rightarrow> bool \<Rightarrow> pydict option \<Rightarrow> bool" where
  "opt_receipt_canonical va cfg facts x \<longleftrightarrow> (case x of None \<Rightarrow> True
     | Some r \<Rightarrow> canonical_receipt va cfg facts r \<and> check_receipt_evidence va cfg r = Inr ())"

lemma opt_receipt_canonicalD:
  assumes "pydantic_strict va" and "digits_limit_ok cfg" and "wf_val (opt_dict x)"
    and "opt_receipt va cfg facts x = Inr y"
  shows "opt_receipt_canonical va cfg facts y"
  using assms normalized_receipt_canonical [OF assms(1,2)]
  by (auto simp: opt_receipt_def opt_receipt_canonical_def opt_dict_def res_bind_eq_Inr split: option.splits)

lemma opt_receipt_id: "opt_receipt_canonical va cfg facts x \<Longrightarrow> opt_receipt va cfg facts x = Inr x"
  by (auto simp: opt_receipt_def opt_receipt_canonical_def normalized_receipt_id split: option.splits)

text \<open>The conditions on the members other than the receipt, and on the receipt.\<close>

definition members_ok :: "int \<Rightarrow> invocation \<Rightarrow> bool" where
  "members_ok cfg i \<longleftrightarrow> iv_schema_version i \<in> set ACCEPTED_MODEL_INVOCATION_SCHEMA_VERSIONS \<and>
     opaque_id (iv_run_id i) \<and> opaque_id (iv_logical_call_id i) \<and> opaque_id (iv_dispatch_id i) \<and>
     idempotency_key_ok (iv_idempotency_key i) \<and> recorded_digest (iv_request_digest i) \<and>
     iv_digest_generation i \<in> set ACCEPTED_MODEL_REQUEST_DIGEST_GENERATIONS \<and>
     is_portable_json_integer cfg (IInt (iv_revision i)) \<and> 1 \<le> iv_revision i \<and>
     is_portable_json_integer cfg (IInt (iv_dispatch_attempt i)) \<and> 1 \<le> iv_dispatch_attempt i \<and>
     (iv_result_ref i = [] \<or> opaque_address (iv_result_ref i)) \<and>
     (iv_failure_code i = [] \<or> taxonomy_code (iv_failure_code i))"

definition receipt_fits :: "invocation \<Rightarrow> pydict option \<Rightarrow> bool" where
  "receipt_fits i receipt \<longleftrightarrow>
     (case receipt of None \<Rightarrow> True
        | Some r \<Rightarrow> (case map_of r ''request_digest'' of None \<Rightarrow> True | Some v \<Rightarrow> v = PStr (iv_request_digest i))) \<and>
     state_shape (iv_dispatch_state i) receipt (iv_result_ref i) (iv_failure_code i) = Inr ()"

lemma make_invocation_iff:
  "make_invocation va cfg i = Inr i' \<longleftrightarrow> members_ok cfg i \<and>
     (\<exists>r. opt_receipt va cfg (allows_facts i) (iv_receipt i) = Inr r \<and> receipt_fits i r \<and> i' = i\<lparr>iv_receipt := r\<rparr>)"
  by (auto simp: make_invocation_def res_bind_eq_Inr members_ok_def receipt_fits_def require_positive_int_def)

lemma make_invocation_fixed:
  "make_invocation va cfg i = Inr i \<longleftrightarrow> members_ok cfg i \<and> receipt_fits i (iv_receipt i) \<and>
     opt_receipt va cfg (allows_facts i) (iv_receipt i) = Inr (iv_receipt i)"
proof -
  have "i = i\<lparr>iv_receipt := r\<rparr> \<longleftrightarrow> r = iv_receipt i" for r by (cases i) auto
  then show ?thesis unfolding make_invocation_iff by auto
qed

lemma source_update [simp]:
  "members_ok cfg (i\<lparr>iv_source_envelope := x\<rparr>) = members_ok cfg i"
  "receipt_fits (i\<lparr>iv_source_envelope := x\<rparr>) r = receipt_fits i r"
  "allows_facts (i\<lparr>iv_source_envelope := x\<rparr>) = allows_facts i"
  by (simp_all add: members_ok_def receipt_fits_def allows_facts_def split: option.split)

lemma receipt_fields_update [simp]:
  "members_ok cfg (i\<lparr>iv_receipt := r\<rparr>) = members_ok cfg i"
  "receipt_fits (i\<lparr>iv_receipt := r\<rparr>) x = receipt_fits i x"
  by (simp_all add: members_ok_def receipt_fits_def split: option.split)

lemma allows_facts_receipt [simp]: "allows_facts (i\<lparr>iv_receipt := r\<rparr>) = allows_facts i"
  by (simp add: allows_facts_def)

lemma make_invocation_ok:
  assumes "pydantic_strict va" and "digits_limit_ok cfg" and "wf_val (opt_dict (iv_receipt i))"
    and "make_invocation va cfg i = Inr i'"
  shows "invocation_ok va cfg i' \<and> opt_receipt_canonical va cfg (allows_facts i') (iv_receipt i')"
proof -
  from assms(4) obtain r where m: "members_ok cfg i" "receipt_fits i r" and
    r: "opt_receipt va cfg (allows_facts i) (iv_receipt i) = Inr r" "i' = i\<lparr>iv_receipt := r\<rparr>"
    by (auto simp: make_invocation_iff)
  have c: "opt_receipt_canonical va cfg (allows_facts i) r"
    using opt_receipt_canonicalD [OF assms(1-3) r(1)] .
  then have "opt_receipt va cfg (allows_facts i) r = Inr r" by (rule opt_receipt_id)
  with m c r(2) show ?thesis by (simp add: invocation_ok_def make_invocation_iff)
qed

section \<open>Writing and reading\<close>

definition written_schema :: "invocation \<Rightarrow> string" where
  "written_schema i = (if allows_facts i then MODEL_INVOCATION_V2_SCHEMA_VERSION else MODEL_INVOCATION_V1_SCHEMA_VERSION)"

definition wire_object :: "invocation \<Rightarrow> pydict" where
  "wire_object i = (''schema_version'', PStr (written_schema i)) # invocation_members i (iv_receipt i)"

text \<open>The invocation with the current spellings of its schema and digest generation.\<close>

definition current_spelling :: "invocation \<Rightarrow> invocation" where
  "current_spelling i = i\<lparr>iv_schema_version := written_schema i,
     iv_digest_generation := MODEL_REQUEST_DIGEST_GENERATION, iv_source_envelope := None\<rparr>"

lemma schemas_distinct: "MODEL_INVOCATION_V1_SCHEMA_VERSION \<noteq> MODEL_INVOCATION_V2_SCHEMA_VERSION"
  by (simp add: MODEL_INVOCATION_V1_SCHEMA_VERSION_def MODEL_INVOCATION_V2_SCHEMA_VERSION_def namespaced_id_def)

lemma allows_facts_current [simp]: "allows_facts (current_spelling i) = allows_facts i"
  using schemas_distinct by (simp add: allows_facts_def current_spelling_def written_schema_def)

lemma wire_object_current [simp]: "wire_object (current_spelling i) = wire_object i"
  by (simp add: wire_object_def written_schema_def)
     (simp add: invocation_members_def current_spelling_def)

lemma wire_object_source [simp]: "wire_object (i\<lparr>iv_source_envelope := x\<rparr>) = wire_object i"
  by (simp add: wire_object_def written_schema_def invocation_members_def)

lemma invocation_to_json_ok:
  "opt_receipt_canonical va cfg (allows_facts i) (iv_receipt i) \<Longrightarrow> invocation_to_json va cfg i = Inr (wire_object i)"
  by (simp add: invocation_to_json_def opt_receipt_id wire_object_def written_schema_def)

lemma wire_object_good:
  assumes "digits_limit_ok cfg" and "members_ok cfg i" and "opt_receipt_canonical va cfg facts (iv_receipt i)"
  shows "good_val cfg (PDict (wire_object i))"
proof -
  have "good_val cfg (opt_dict (iv_receipt i))"
    using assms(3) canonical_good by (auto simp: opt_receipt_canonical_def opt_dict_def split: option.splits)
  with assms(1,2) show ?thesis
    by (simp add: wire_object_def invocation_members_def good_dict good_int members_ok_def)
qed

lemma written_version:
  "parse_artifact_version (PStr (written_schema i)) = Some \<lparr>av_namespace = ''monoid'',
     av_family = ''model-invocation'', av_version = (if allows_facts i then 2 else 1), av_raw = written_schema i\<rparr>"
  by (simp add: written_schema_def MODEL_INVOCATION_V1_SCHEMA_VERSION_def MODEL_INVOCATION_V2_SCHEMA_VERSION_def
      namespaced_id_def CURRENT_NAMESPACE_def parse_artifact_version_def rsplit_dot_def version_of_token_def
      is_digit_char_def in_range_def digits_at_def MAX_ARTIFACT_VERSION_DIGITS_def)

lemma written_schema_accepted:
  "written_schema i \<in> set ACCEPTED_MODEL_INVOCATION_SCHEMA_VERSIONS"
  "MODEL_REQUEST_DIGEST_GENERATION \<in> set ACCEPTED_MODEL_REQUEST_DIGEST_GENERATIONS"
  by (simp_all add: written_schema_def ACCEPTED_MODEL_INVOCATION_SCHEMA_VERSIONS_def
      MODEL_INVOCATION_V1_SCHEMA_VERSION_def accepted_namespaced_ids_def
      MODEL_REQUEST_DIGEST_GENERATION_def ACCEPTED_MODEL_REQUEST_DIGEST_GENERATIONS_def)

lemma state_of_str_inverse [simp]: "state_of_str (dispatch_state_str s) = s"
  by (cases s) (simp_all add: state_of_str_def)

lemma policy_of_str_inverse [simp]: "policy_of_str (evidence_policy_str p) = p"
  by (cases p) (simp_all add: policy_of_str_def)

lemma parse_state:
  "map_of d ''dispatch_state'' = Some (PStr (dispatch_state_str s)) \<Longrightarrow>
     parse_literal d ''dispatch_state'' [''reserved'', ''dispatch_started'', ''settled'', ''unknown''] None =
       Inr (dispatch_state_str s)"
  by (cases s) (simp_all add: parse_literal_def)

lemma parse_policy:
  "map_of d ''evidence_policy'' = Some (PStr (evidence_policy_str p)) \<Longrightarrow> map_of d ''requires_evidence'' = None \<Longrightarrow>
     model_evidence_policy_from_payload va d = Inr p"
  by (cases p) (simp_all add: model_evidence_policy_from_payload_def parse_literal_def dhas_def policy_of_str_def
      del: dhas_iff)

lemma current_spelling_ok:
  assumes "members_ok cfg i" and "receipt_fits i (iv_receipt i)"
    and "opt_receipt_canonical va cfg (allows_facts i) (iv_receipt i)"
  shows "make_invocation va cfg (current_spelling i) = Inr (current_spelling i)"
proof -
  have "members_ok cfg (current_spelling i)"
    using assms(1) written_schema_accepted by (simp add: members_ok_def current_spelling_def)
  moreover have "receipt_fits (current_spelling i) (iv_receipt i)"
    using assms(2) by (auto simp: receipt_fits_def current_spelling_def split: option.splits)
  moreover have "iv_receipt (current_spelling i) = iv_receipt i" by (simp add: current_spelling_def)
  ultimately show ?thesis using opt_receipt_id [OF assms(3)] by (auto simp: make_invocation_iff)
qed

lemma wire_object_get:
  "map_of (wire_object i) ''schema_version'' = Some (PStr (written_schema i))"
  "map_of (wire_object i) ''run_id'' = Some (PStr (iv_run_id i))"
  "map_of (wire_object i) ''logical_call_id'' = Some (PStr (iv_logical_call_id i))"
  "map_of (wire_object i) ''revision'' = Some (PInt (iv_revision i))"
  "map_of (wire_object i) ''dispatch_id'' = Some (PStr (iv_dispatch_id i))"
  "map_of (wire_object i) ''dispatch_attempt'' = Some (PInt (iv_dispatch_attempt i))"
  "map_of (wire_object i) ''idempotency_key'' = Some (PStr (iv_idempotency_key i))"
  "map_of (wire_object i) ''dispatch_state'' = Some (PStr (dispatch_state_str (iv_dispatch_state i)))"
  "map_of (wire_object i) ''request_digest'' = Some (PStr (iv_request_digest i))"
  "map_of (wire_object i) ''digest_generation'' = Some (PStr MODEL_REQUEST_DIGEST_GENERATION)"
  "map_of (wire_object i) ''evidence_policy'' = Some (PStr (evidence_policy_str (iv_evidence_policy i)))"
  "map_of (wire_object i) ''requires_evidence'' = None"
  "map_of (wire_object i) ''receipt'' = Some (opt_dict (iv_receipt i))"
  "map_of (wire_object i) ''result_ref'' = Some (PStr (iv_result_ref i))"
  "map_of (wire_object i) ''failure_code'' = Some (PStr (iv_failure_code i))"
  by (simp_all add: wire_object_def invocation_members_def)

lemma wire_object_fields: "require_only_fields (wire_object i) MODEL_INVOCATION_FIELDS l = Inr ()"
  by (simp add: require_only_fields_def wire_object_def invocation_members_def MODEL_INVOCATION_FIELDS_def)

lemma invocation_from_wire_object:
  assumes "pydantic_strict va" and "members_ok cfg i" and "receipt_fits i (iv_receipt i)"
    and "opt_receipt_canonical va cfg (allows_facts i) (iv_receipt i)"
  shows "model_invocation_from_payload va cfg sha (wire_object i) =
    Inr ((current_spelling i)\<lparr>iv_source_envelope := Some (wire_object i, sha (wire_object i))\<rparr>)"
proof -
  have r: "(case dget (wire_object i) ''receipt'' of PNone \<Rightarrow> Inr None | PDict d \<Rightarrow> Inr (Some d)
       | _ \<Rightarrow> Inl (ValueError ''model invocation receipt must be an object or null'')) = Inr (iv_receipt i)"
    by (cases "iv_receipt i") (simp_all add: dget_def wire_object_get opt_dict_def)
  have mk: "make_invocation va cfg \<lparr>iv_schema_version = written_schema i, iv_run_id = iv_run_id i,
       iv_logical_call_id = iv_logical_call_id i, iv_revision = iv_revision i, iv_dispatch_id = iv_dispatch_id i,
       iv_dispatch_attempt = iv_dispatch_attempt i, iv_idempotency_key = iv_idempotency_key i,
       iv_dispatch_state = iv_dispatch_state i, iv_request_digest = iv_request_digest i,
       iv_digest_generation = MODEL_REQUEST_DIGEST_GENERATION, iv_evidence_policy = iv_evidence_policy i,
       iv_receipt = iv_receipt i, iv_result_ref = iv_result_ref i, iv_failure_code = iv_failure_code i,
       iv_source_envelope = None\<rparr> = Inr (current_spelling i)"
    using current_spelling_ok [OF assms(2-4)] by (cases i) (simp add: current_spelling_def)
  have c: "(current_spelling i)\<lparr>iv_digest_generation := MODEL_REQUEST_DIGEST_GENERATION\<rparr> = current_spelling i"
    by (simp add: current_spelling_def)
  have j: "invocation_to_json va cfg (current_spelling i) = Inr (wire_object i)"
    using invocation_to_json_ok [of va cfg "current_spelling i"] assms(4)
    by (simp add: current_spelling_def [of i, THEN arg_cong [of _ _ iv_receipt]])
  show ?thesis
    unfolding model_invocation_from_payload_def wire_object_fields res_bind_Inr r parse_str_strict [OF assms(1)]
      parse_int_def wire_object_get option.case pyval.case
      parse_state [OF wire_object_get(8)] parse_policy [OF wire_object_get(11,12)] state_of_str_inverse mk Let_def c j ..
qed

lemma decode_wire_object:
  assumes "pydantic_strict va" and "digits_limit_ok cfg" and "members_ok cfg i" and "receipt_fits i (iv_receipt i)"
    and "opt_receipt_canonical va cfg (allows_facts i) (iv_receipt i)"
  shows "lr_status (decode_model_invocation va cfg sha (PDict (wire_object i))) = Loaded"
    and "lr_value (decode_model_invocation va cfg sha (PDict (wire_object i))) =
      Some ((current_spelling i)\<lparr>iv_source_envelope := Some (wire_object i, sha (wire_object i))\<rparr>)"
proof -
  have g: "good_val cfg (PDict (wire_object i))" using wire_object_good assms(2,3,5) by blast
  then have d: "json_dumpable cfg (PDict (wire_object i))" by (simp add: good_val_def)
  have v: "dget (wire_object i) ''schema_version'' = PStr (written_schema i)" by (simp add: dget_def wire_object_get)
  have e: "decode_model_invocation va cfg sha (PDict (wire_object i)) =
      codec_decode (if allows_facts i then MODEL_INVOCATION_V2_CODEC else MODEL_INVOCATION_CODEC)
        (PDict (wire_object i)) (model_invocation_from_payload va cfg sha)"
    unfolding decode_model_invocation_def good_norm [OF g] using d schemas_distinct
    by (auto simp: v written_schema_def)
  have "lr_status (decode_model_invocation va cfg sha (PDict (wire_object i))) = Loaded \<and>
      lr_value (decode_model_invocation va cfg sha (PDict (wire_object i))) =
        Some ((current_spelling i)\<lparr>iv_source_envelope := Some (wire_object i, sha (wire_object i))\<rparr>)"
    unfolding e
    by (rule codec_decode_current [where v = "\<lparr>av_namespace = ''monoid'', av_family = ''model-invocation'',
          av_version = (if allows_facts i then 2 else 1), av_raw = written_schema i\<rparr>"])
       (simp_all add: v written_version MODEL_INVOCATION_CODEC_def MODEL_INVOCATION_V2_CODEC_def
          invocation_from_wire_object [OF assms(1,3-5)])
  then show "lr_status (decode_model_invocation va cfg sha (PDict (wire_object i))) = Loaded"
    and "lr_value (decode_model_invocation va cfg sha (PDict (wire_object i))) =
      Some ((current_spelling i)\<lparr>iv_source_envelope := Some (wire_object i, sha (wire_object i))\<rparr>)"
    by simp_all
qed

text \<open>C33. Model invocations survive storage. Every invocation the constructor accepts has a wire form;
  reading it back loads the same invocation, in the current spelling of its schema and digest
  generation, which the constructor accepts again unchanged; and reposting the loaded record writes
  the very object that was read, so its content digest does not change.\<close>

theorem invocation_survives_storage:
  assumes "pydantic_strict va" and "digits_limit_ok cfg" and "wf_val (opt_dict (iv_receipt i0))"
    and "make_invocation va cfg i0 = Inr i"
  shows "\<exists>j loaded. invocation_to_json va cfg i = Inr j \<and>
    lr_status (decode_model_invocation va cfg sha (PDict j)) = Loaded \<and>
    lr_value (decode_model_invocation va cfg sha (PDict j)) = Some loaded \<and>
    loaded\<lparr>iv_source_envelope := None\<rparr> = current_spelling i \<and>
    make_invocation va cfg loaded = Inr loaded \<and>
    model_invocation_payload_for_write va cfg sha loaded = Inr j"
proof -
  have ok: "invocation_ok va cfg i" "opt_receipt_canonical va cfg (allows_facts i) (iv_receipt i)"
    using make_invocation_ok [OF assms] by auto
  then have m: "members_ok cfg i" "receipt_fits i (iv_receipt i)"
    by (simp_all add: invocation_ok_def make_invocation_fixed)
  let ?l = "(current_spelling i)\<lparr>iv_source_envelope := Some (wire_object i, sha (wire_object i))\<rparr>"
  have "make_invocation va cfg (current_spelling i) = Inr (current_spelling i)"
    by (rule current_spelling_ok [OF m ok(2)])
  then have "make_invocation va cfg ?l = Inr ?l" by (simp add: make_invocation_fixed)
  moreover have "invocation_to_json va cfg ?l = Inr (wire_object i)"
    using invocation_to_json_ok [of va cfg ?l] ok(2) by (simp add: current_spelling_def [of i, THEN arg_cong [of _ _ iv_receipt]])
  then have "model_invocation_payload_for_write va cfg sha ?l = Inr (wire_object i)"
    by (simp add: model_invocation_payload_for_write_def)
  moreover have "?l\<lparr>iv_source_envelope := None\<rparr> = current_spelling i" by (simp add: current_spelling_def)
  ultimately show ?thesis
    using invocation_to_json_ok [OF ok(2)] decode_wire_object [OF assms(1,2) m ok(2), of sha] by blast
qed

definition demo_invocation :: invocation where
  "demo_invocation = \<lparr>iv_schema_version = MODEL_INVOCATION_V2_SCHEMA_VERSION, iv_run_id = ''r1'',
     iv_logical_call_id = ''mcall'', iv_revision = 3, iv_dispatch_id = ''d1'', iv_dispatch_attempt = 1,
     iv_idempotency_key = ''k1'', iv_dispatch_state = Settled, iv_request_digest = replicate 64 (CHR ''a''),
     iv_digest_generation = MODEL_REQUEST_DIGEST_GENERATION, iv_evidence_policy = Required,
     iv_receipt = Some [(''retryable'', PBool True)], iv_result_ref = [], iv_failure_code = ''http_500'',
     iv_source_envelope = None\<rparr>"

lemma demo_invocation_facts:
  "members_ok 0 demo_invocation" "receipt_fits demo_invocation (iv_receipt demo_invocation)"
  "opt_receipt_canonical strict_validator 0 (allows_facts demo_invocation) (iv_receipt demo_invocation)"
  "make_invocation strict_validator 0 demo_invocation = Inr demo_invocation"
  "current_spelling demo_invocation = demo_invocation"
proof -
  have "canonical_receipt_key f ''retryable'' = Some ''retryable''" for f
    by (simp add: canonical_receipt_key_def RECEIPT_FIELDS_def collapse_snake is_lower_char_def in_range_def)
  then show c: "opt_receipt_canonical strict_validator 0 (allows_facts demo_invocation) (iv_receipt demo_invocation)"
    by (simp add: opt_receipt_canonical_def demo_invocation_def canonical_receipt_def check_receipt_evidence_def
        receipt_value_def RECEIPT_OPAQUE_ID_FIELDS_def RECEIPT_CODE_FIELDS_def RECEIPT_TIMESTAMP_FIELDS_def
        RECEIPT_BOOLEAN_FIELDS_def)
  show m: "members_ok 0 demo_invocation"
    by (simp add: members_ok_def demo_invocation_def ACCEPTED_MODEL_INVOCATION_SCHEMA_VERSIONS_def
        written_schema_accepted opaque_id_def idempotency_key_ok_def is_alnum_char_def is_lower_char_def
        is_digit_char_def is_id_char_def is_key_char_def is_code_char_def is_hex_char_def in_range_def
        recorded_digest_def taxonomy_code_def list_all_iff is_portable_json_integer_def
        UNCONDITIONALLY_SPELLABLE_INT_def)
  show f: "receipt_fits demo_invocation (iv_receipt demo_invocation)"
    by (simp add: receipt_fits_def demo_invocation_def state_shape_def)
  show "make_invocation strict_validator 0 demo_invocation = Inr demo_invocation"
    using m f opt_receipt_id [OF c] by (simp add: make_invocation_fixed)
  show "current_spelling demo_invocation = demo_invocation"
    by (simp add: current_spelling_def written_schema_def allows_facts_def demo_invocation_def)
qed

theorem invocation_survives_storage_witness:
  "\<exists>j loaded. invocation_to_json strict_validator 0 demo_invocation = Inr j \<and>
     lr_value (decode_model_invocation strict_validator 0 (\<lambda>_. ''digest'') (PDict j)) = Some loaded \<and>
     loaded\<lparr>iv_source_envelope := None\<rparr> = demo_invocation"
proof -
  have "wf_val (opt_dict (iv_receipt demo_invocation))" by (simp add: opt_dict_def demo_invocation_def)
  moreover have "digits_limit_ok 0" by (simp add: digits_limit_ok_def)
  ultimately show ?thesis
    using invocation_survives_storage [OF strict_validator_strict _ _ demo_invocation_facts(4), of "\<lambda>_. ''digest''"]
      demo_invocation_facts(5) by auto
qed

lemma loader_result:
  assumes "pydantic_strict va" and "digits_limit_ok cfg" and "wf_val (PDict src)"
    and "model_invocation_from_payload va cfg sha src = Inr i"
  shows "make_invocation va cfg i = Inr i"
proof -
  from assms(4) obtain i0 i1 where mk: "make_invocation va cfg i0 = Inr i1"
    and raw: "(case dget src ''receipt'' of PNone \<Rightarrow> Inr None | PDict d \<Rightarrow> Inr (Some d)
       | _ \<Rightarrow> Inl (ValueError ''model invocation receipt must be an object or null'')) = Inr (iv_receipt i0)"
    and i: "\<exists>x. i = i1\<lparr>iv_digest_generation := MODEL_REQUEST_DIGEST_GENERATION, iv_source_envelope := x\<rparr>"
    unfolding model_invocation_from_payload_def Let_def res_bind_eq_Inr
    by (elim exE conjE) (rule that, assumption, simp, blast)
  have "wf_val (opt_dict (iv_receipt i0))" using raw wf_dget [OF assms(3), of "''receipt''"]
    by (cases "iv_receipt i0") (auto simp: opt_dict_def split: pyval.splits)
  with make_invocation_ok [OF assms(1,2) _ mk] have "make_invocation va cfg i1 = Inr i1"
    by (simp add: invocation_ok_def)
  with i written_schema_accepted(2) show ?thesis
    by (auto simp: make_invocation_fixed members_ok_def receipt_fits_def allows_facts_def split: option.splits)
qed

lemma decode_value:
  assumes "wf_val p" and "lr_value (decode_model_invocation va cfg sha p) = Some i"
  obtains src where "norm_val False p = PDict src" and "json_dumpable cfg (PDict src)"
    and "model_invocation_from_payload va cfg sha src = Inr i"
proof -
  let ?n = "norm_val False p"
  have d: "json_dumpable cfg ?n"
    using assms(2) unfolding decode_model_invocation_def strict_ingress_wf [OF assms(1)]
    by (auto simp: codec_corrupt_def codec_result_def split: if_splits)
  obtain c where c: "lr_value (codec_decode c ?n (model_invocation_from_payload va cfg sha)) = Some i"
    and m: "dc_migrations c = (\<lambda>_. None)"
  proof
    let ?c = "case ?n of PDict d \<Rightarrow> if dget d ''schema_version'' = PStr MODEL_INVOCATION_V2_SCHEMA_VERSION
              then MODEL_INVOCATION_V2_CODEC else MODEL_INVOCATION_CODEC | _ \<Rightarrow> MODEL_INVOCATION_CODEC"
    show "lr_value (codec_decode ?c ?n (model_invocation_from_payload va cfg sha)) = Some i"
      using assms(2) d unfolding decode_model_invocation_def strict_ingress_wf [OF assms(1)] by simp
    show "dc_migrations ?c = (\<lambda>_. None)"
      by (simp add: MODEL_INVOCATION_CODEC_def MODEL_INVOCATION_V2_CODEC_def split: pyval.split)
  qed
  from codec_decode_value [OF c] obtain src working steps and v :: artifact_version
    where n: "?n = PDict src"
    and l: "(migrate_loop c (av_raw v) (av_version v) (dc_current_version c - av_version v) src [] ::
          invocation load_result + _) = Inr (working, steps)"
    and x: "model_invocation_from_payload va cfg sha working = Inr i"
    by blast
  from l m have "working = src"
    by (cases "dc_current_version c - av_version v") (auto simp: codec_unsupported_def)
  with n d x show ?thesis by (intro that) simp_all
qed

text \<open>C34. What the checked reader accepts is a valid record. An invocation decoded from any stored
  object passes the constructor unchanged: its identifiers, digests and counters are well formed, its
  receipt is in canonical form with evidence that agrees with its usage, and only a settled state
  carries a receipt, with a result exactly when it did not fail.\<close>

theorem decoded_invocation_is_valid:
  assumes "pydantic_strict va" and "digits_limit_ok cfg" and "wf_val p"
    and "lr_value (decode_model_invocation va cfg sha p) = Some i"
  shows "make_invocation va cfg i = Inr i \<and> 1 \<le> iv_revision i \<and> 1 \<le> iv_dispatch_attempt i \<and>
    (case iv_dispatch_state i of
       Settled \<Rightarrow> (\<exists>r. iv_receipt i = Some r \<and> normalized_receipt va cfg (allows_facts i) r = Inr r \<and>
           (dhas ''usage_evidence'' r \<longrightarrow> (\<exists>e. evidence_from_json va cfg (dget r ''usage_evidence'') = Inr e \<and>
              evidence_validate_usage e (usage_of_receipt r) (attempts_of_receipt r) = Inr ()))) \<and>
         (iv_failure_code i = []) = (iv_result_ref i \<noteq> [])
     | DispatchUnknown \<Rightarrow> iv_receipt i = None \<and> iv_result_ref i = []
     | _ \<Rightarrow> iv_receipt i = None \<and> iv_result_ref i = [] \<and> iv_failure_code i = [])"
proof -
  from decode_value [OF assms(3,4)] obtain src where n: "norm_val False p = PDict src"
    and l: "model_invocation_from_payload va cfg sha src = Inr i" by blast
  have "wf_val (PDict src)" using wf_norm_val [OF assms(3), of False] n by simp
  from loader_result [OF assms(1,2) this l] have mk: "make_invocation va cfg i = Inr i" .
  then have m: "members_ok cfg i" "receipt_fits i (iv_receipt i)"
    "opt_receipt va cfg (allows_facts i) (iv_receipt i) = Inr (iv_receipt i)"
    by (simp_all add: make_invocation_fixed)
  have shape: "state_shape (iv_dispatch_state i) (iv_receipt i) (iv_result_ref i) (iv_failure_code i) = Inr ()"
    using m(2) by (simp add: receipt_fits_def)
  have "\<exists>r. iv_receipt i = Some r \<and> normalized_receipt va cfg (allows_facts i) r = Inr r \<and>
           (dhas ''usage_evidence'' r \<longrightarrow> (\<exists>e. evidence_from_json va cfg (dget r ''usage_evidence'') = Inr e \<and>
              evidence_validate_usage e (usage_of_receipt r) (attempts_of_receipt r) = Inr ()))"
    if st: "iv_dispatch_state i = Settled"
  proof -
    from shape st obtain r where r: "iv_receipt i = Some r" by (auto simp: state_shape_def res_bind_eq_Inr)
    with m(3) have nr: "normalized_receipt va cfg (allows_facts i) r = Inr r"
      by (simp add: opt_receipt_def res_bind_eq_Inr)
    then have "check_receipt_evidence va cfg r = Inr ()" by (rule normalized_receipt_checked)
    then show ?thesis using r nr
      by (auto simp: check_receipt_evidence_def res_bind_eq_Inr simp del: dhas_iff split: if_splits)
  qed
  moreover have "(iv_failure_code i = []) = (iv_result_ref i \<noteq> [])" if "iv_dispatch_state i = Settled"
    using shape that by (auto simp: state_shape_def res_bind_eq_Inr split: if_splits)
  ultimately show ?thesis using mk m(1) shape
    by (cases "iv_dispatch_state i") (auto simp: members_ok_def state_shape_def simp del: dhas_iff)
qed

theorem decoded_invocation_is_valid_witness:
  "\<exists>i r. lr_value (decode_model_invocation strict_validator 0 (\<lambda>_. ''digest'') (PDict (wire_object demo_invocation)))
       = Some i \<and> iv_receipt i = Some r \<and> normalized_receipt strict_validator 0 (allows_facts i) r = Inr r"
proof -
  have d: "digits_limit_ok 0" by (simp add: digits_limit_ok_def)
  have wf: "wf_val (PDict (wire_object demo_invocation))"
    using wire_object_good [OF d demo_invocation_facts(1,3)] by (simp add: good_val_def)
  let ?i = "(current_spelling demo_invocation)\<lparr>iv_source_envelope :=
      Some (wire_object demo_invocation, ''digest'')\<rparr>"
  note v = decode_wire_object(2) [OF strict_validator_strict d demo_invocation_facts(1-3), of "\<lambda>_. ''digest''"]
  have "iv_dispatch_state ?i = Settled" unfolding demo_invocation_facts(5) by (simp add: demo_invocation_def)
  with decoded_invocation_is_valid [OF strict_validator_strict d wf v] v show ?thesis by auto
qed

end
