(* ===== verification/Run_Journal.thy ===== *)
theory Run_Journal
  imports Journal_Store Model_Invocation
begin

text \<open>
  Model invocations in the fenced run journal (\<open>adapters/postgres/sink.py\<close>): the revisions of a
  logical call, the transition a new revision must make from the head, the evidence record and
  the transactional evidence outbox, and the checked reader.
\<close>

section \<open>Coordinates\<close>

definition STABLE_INVOCATION_FIELDS :: "string list" where
  "STABLE_INVOCATION_FIELDS =
     [''logical_call_id'', ''idempotency_key'', ''request_digest'', ''digest_generation'', ''evidence_policy'']"

definition INVOCATION_TYPED_FIELDS :: "string list" where
  "INVOCATION_TYPED_FIELDS = [''run_id'', ''logical_call_id'', ''revision'', ''schema_version'', ''dispatch_id'',
     ''dispatch_attempt'', ''dispatch_state'', ''idempotency_key'', ''request_digest'', ''digest_generation'',
     ''evidence_policy'', ''result_ref'', ''failure_code'']"

definition EVIDENCE_TYPED_FIELDS :: "string list" where
  "EVIDENCE_TYPED_FIELDS = [''run_id'', ''logical_call_id'', ''revision'', ''schema_version'', ''evidence_policy'']"

definition call_cols :: "call_key \<Rightarrow> pyval list" where
  "call_cols k = (case k of (run, call, n) \<Rightarrow> [PStr run, PStr call, PInt n])"

definition key_of :: "invocation \<Rightarrow> call_key" where
  "key_of i = (iv_run_id i, iv_logical_call_id i, iv_revision i)"

definition payload_for_write :: "journal_env \<Rightarrow> invocation \<Rightarrow> pydict res" where
  "payload_for_write env i = model_invocation_payload_for_write (je_va env) (je_cfg env) (je_sha env) i"

definition decode_stored :: "journal_env \<Rightarrow> pydict \<Rightarrow> invocation load_result" where
  "decode_stored env p = decode_model_invocation (je_va env) (je_cfg env) (je_sha env) (PDict p)"

definition invocation_coordinate :: "journal_env \<Rightarrow> journal \<Rightarrow> invocation \<Rightarrow> pydict \<Rightarrow> string \<Rightarrow>
    commit_result option res" where
  "invocation_coordinate env j i payload digest =
     stored_result env (map_of (jn_invocations j) (key_of i)) digest (Some (iv_revision i)) INVOCATION_TYPED_FIELDS
       (map (dget (invocation_typed_payload payload)) INVOCATION_TYPED_FIELDS) True (call_cols (key_of i))"

text \<open>The head joined with its record: \<open>Some (n, None)\<close> is a head without a record.\<close>

definition invocation_head :: "journal \<Rightarrow> string \<Rightarrow> string \<Rightarrow> (int \<times> stored_row option) option" where
  "invocation_head j run call = (case jn_invocation_head j (run, call) of
      None \<Rightarrow> None
    | Some n \<Rightarrow> Some (n, map_of (jn_invocations j) (run, call, n)))"

text \<open>The checks a stored invocation row passes before it is believed.\<close>

definition row_bound :: "journal_env \<Rightarrow> call_key \<Rightarrow> stored_row \<Rightarrow> bool" where
  "row_bound env k r \<longleftrightarrow> checked_stored_digest env (sr_payload r) (sr_blobs r) (sr_digest r) \<noteq> None \<and>
     invocation_payload_matches_typed_values (sr_payload r) INVOCATION_TYPED_FIELDS (call_cols k @ sr_typed r)"

definition decoded_row :: "journal_env \<Rightarrow> call_key \<Rightarrow> stored_row \<Rightarrow> invocation option" where
  "decoded_row env k r = (if \<not> row_bound env k r then None
     else let d = decode_stored env (sr_payload r) in if lr_ok d then lr_value d else None)"

definition checked_invocation_head :: "journal_env \<Rightarrow> journal \<Rightarrow> string \<Rightarrow> string \<Rightarrow> (invocation \<times> string) option" where
  "checked_invocation_head env j run call = (case invocation_head j run call of
      Some (n, Some r) \<Rightarrow> (case decoded_row env (run, call, n) r of
          Some i \<Rightarrow> if key_of i \<noteq> (run, call, n) then None
                    else Some (i, record_only_digest env (sr_payload r))
        | None \<Rightarrow> None)
    | _ \<Rightarrow> None)"

section \<open>Evidence\<close>

definition evidence_coordinate :: "journal_env \<Rightarrow> journal \<Rightarrow> invocation \<Rightarrow> pydict \<Rightarrow> string \<Rightarrow> bool \<Rightarrow>
    commit_result option res" where
  "evidence_coordinate env j i payload digest outbox =
     stored_result env (map_of (if outbox then jn_outbox j else jn_evidence j) (key_of i)) digest
       (Some (iv_revision i)) EVIDENCE_TYPED_FIELDS
       (map (dget (invocation_typed_payload payload)) EVIDENCE_TYPED_FIELDS) True (call_cols (key_of i))"

definition evidence_row :: "invocation \<Rightarrow> pydict \<Rightarrow> string \<Rightarrow> stored_row" where
  "evidence_row i payload digest = \<lparr>sr_digest = digest, sr_payload = payload, sr_blobs = [],
     sr_typed = [dget payload ''schema_version'', PStr (evidence_policy_str (iv_evidence_policy i))]\<rparr>"

definition portable_sequence :: "int \<Rightarrow> int \<Rightarrow> int option" where
  "portable_sequence cfg n = (if is_portable_json_integer cfg (IInt n) \<and> 0 \<le> n then Some n else None)"

definition commit_evidence_locked :: "journal_env \<Rightarrow> invocation \<Rightarrow> bool \<Rightarrow> journal \<Rightarrow> body_result" where
  "commit_evidence_locked env i outbox j =
     (let sq = portable_sequence (je_cfg env) (iv_revision i) in
      if iv_dispatch_state i \<noteq> Settled \<or> iv_receipt i = None \<or> (outbox \<and> iv_evidence_policy i \<noteq> OutboxEvidence)
      then conflict_body env j sq [] []
      else or_conflict (payload_for_write env i) (conflict_body env j sq [] []) (\<lambda>payload.
        let digest = record_only_digest env payload in
        case checked_invocation_head env j (iv_run_id i) (iv_logical_call_id i) of
          None \<Rightarrow> conflict_body env j (Some (iv_revision i)) digest []
        | Some (_, head_digest) \<Rightarrow>
            if head_digest \<noteq> digest then conflict_body env j (Some (iv_revision i)) digest []
            else res_bind (evidence_coordinate env j i payload digest outbox) (\<lambda>stored. case stored of
                Some c \<Rightarrow> Inr (Some (j, c, digest))
              | None \<Rightarrow>
                  res_bind (insert_row (key_of i) (evidence_row i payload digest)
                     (if outbox then jn_outbox j else jn_evidence j)) (\<lambda>table.
                  res_bind (make_commit_result (je_cfg env) Committed (Some (iv_revision i)) digest []) (\<lambda>c.
                  Inr (Some (if outbox then j\<lparr>jn_outbox := table\<rparr> else j\<lparr>jn_evidence := table\<rparr>,
                             c, digest)))))))"

section \<open>Transitions of a logical call\<close>

definition retryable_receipt :: "invocation \<Rightarrow> bool" where
  "retryable_receipt i \<longleftrightarrow> iv_failure_code i \<noteq> [] \<and>
     (case iv_receipt i of None \<Rightarrow> False | Some r \<Rightarrow> dget r ''retryable'' = PBool True)"

definition dispatch_id_was_used :: "journal_env \<Rightarrow> journal \<Rightarrow> invocation \<Rightarrow> bool" where
  "dispatch_id_was_used env j i \<longleftrightarrow>
     list_ex (\<lambda>(k, r). case decoded_row env k r of
         None \<Rightarrow> True
       | Some d \<Rightarrow> iv_dispatch_id d = iv_dispatch_id i)
       (filter (\<lambda>((run, call, _), _). run = iv_run_id i \<and> call = iv_logical_call_id i) (jn_invocations j))"

fun allowed_next :: "dispatch_state \<Rightarrow> dispatch_state list" where
  "allowed_next Reserved = [DispatchStarted]"
| "allowed_next DispatchStarted = [Settled, DispatchUnknown]"
| "allowed_next _ = []"

definition stable_fields_equal :: "pydict \<Rightarrow> pydict \<Rightarrow> bool" where
  "stable_fields_equal p q \<longleftrightarrow> list_all (\<lambda>f. py_eq (dget p f) (dget q f)) STABLE_INVOCATION_FIELDS"

text \<open>The states part of the transition, after the identity checks.\<close>

definition state_step_allowed :: "journal_env \<Rightarrow> journal \<Rightarrow> invocation \<Rightarrow> invocation \<Rightarrow> bool" where
  "state_step_allowed env j previous i \<longleftrightarrow>
     (if iv_dispatch_state previous \<in> {Settled, DispatchUnknown}
      then iv_dispatch_state previous = Settled \<and> retryable_receipt previous \<and>
           iv_dispatch_state i = Reserved \<and> iv_dispatch_attempt i = iv_dispatch_attempt previous + 1 \<and>
           \<not> dispatch_id_was_used env j i
      else iv_dispatch_attempt i = iv_dispatch_attempt previous \<and> iv_dispatch_id i = iv_dispatch_id previous \<and>
           iv_dispatch_state i \<in> set (allowed_next (iv_dispatch_state previous)))"

definition invocation_transition_winner :: "journal_env \<Rightarrow> journal \<Rightarrow> invocation \<Rightarrow> string option res" where
  "invocation_transition_winner env j i =
     (case invocation_head j (iv_run_id i) (iv_logical_call_id i) of
        None \<Rightarrow> Inr (if iv_revision i = 1 \<and> iv_dispatch_attempt i = 1 \<and> iv_dispatch_state i = Reserved
                     then None else Some [])
      | Some (_, None) \<Rightarrow> Inr (Some [])
      | Some (n, Some r) \<Rightarrow> (case decoded_row env (iv_run_id i, iv_logical_call_id i, n) r of
            None \<Rightarrow> Inr (Some (sr_digest r))
          | Some previous \<Rightarrow>
              if key_of previous \<noteq> (iv_run_id i, iv_logical_call_id i, n) then Inr (Some (sr_digest r))
              else if iv_revision i \<noteq> iv_revision previous + 1 then Inr (Some (sr_digest r))
              else res_bind (invocation_to_json (je_va env) (je_cfg env) i) (\<lambda>p.
                res_bind (invocation_to_json (je_va env) (je_cfg env) previous) (\<lambda>q.
                Inr (if \<not> stable_fields_equal p q \<or> \<not> state_step_allowed env j previous i
                     then Some (sr_digest r) else None)))))"

section \<open>Committing a revision\<close>

definition stage_flag_ok :: "invocation \<Rightarrow> bool \<Rightarrow> bool" where
  "stage_flag_ok i stage \<longleftrightarrow>
     (if stage then iv_evidence_policy i = OutboxEvidence \<and> iv_dispatch_state i = Settled \<and> iv_receipt i \<noteq> None
      else \<not> (iv_evidence_policy i = OutboxEvidence \<and> iv_dispatch_state i = Settled))"

definition result_references :: "invocation \<Rightarrow> string list" where
  "result_references i = (if str_startswith (iv_result_ref i) ''blob:'' then [drop 5 (iv_result_ref i)] else [])"

definition invocation_row :: "journal_env \<Rightarrow> invocation \<Rightarrow> pydict \<Rightarrow> string \<Rightarrow> blob_map \<Rightarrow> stored_row" where
  "invocation_row env i payload digest blobs = \<lparr>sr_digest = digest, sr_payload = payload,
     sr_blobs = blob_projection env blobs,
     sr_typed = [dget payload ''schema_version'', PStr (iv_dispatch_id i), PInt (iv_dispatch_attempt i),
       PStr (dispatch_state_str (iv_dispatch_state i)), PStr (iv_idempotency_key i), PStr (iv_request_digest i),
       dget payload ''digest_generation'', PStr (evidence_policy_str (iv_evidence_policy i)),
       PStr (iv_result_ref i), PStr (iv_failure_code i)]\<rparr>"

text \<open>The inserts of a fresh revision and its staged evidence.\<close>

definition write_revision :: "journal_env \<Rightarrow> invocation \<Rightarrow> pydict \<Rightarrow> string \<Rightarrow> blob_map \<Rightarrow> bool \<Rightarrow> journal \<Rightarrow> body_result" where
  "write_revision env i payload digest blobs stage j =
     (case persist_blobs (iv_run_id i) blobs j of
        None \<Rightarrow> Inr None
      | Some j1 \<Rightarrow>
          res_bind (insert_row (key_of i) (invocation_row env i payload digest blobs) (jn_invocations j1)) (\<lambda>table.
          let j2 = j1\<lparr>jn_invocations := table,
                      jn_invocation_head := (jn_invocation_head j1)((iv_run_id i, iv_logical_call_id i) \<mapsto> iv_revision i)\<rparr> in
          res_bind (if \<not> stage then Inr (Some j2)
                    else res_bind (commit_evidence_locked env i True j2) (\<lambda>staged. case staged of
                        Some (j3, c, _) \<Rightarrow> Inr (if cr_status c = Committed then Some j3 else None)
                      | None \<Rightarrow> Inr None)) (\<lambda>j3. case j3 of
            None \<Rightarrow> Inr None
          | Some j3 \<Rightarrow> res_bind (make_commit_result (je_cfg env) Committed (Some (iv_revision i)) digest []) (\<lambda>c.
              Inr (Some (j3, c, digest))))))"

text \<open>\<open>j\<close> is the state the checks read, \<open>j1\<close> the one the inserts find.\<close>

definition commit_invocation_locked :: "journal_env \<Rightarrow> invocation \<Rightarrow> blob_map \<Rightarrow> bool \<Rightarrow> journal \<Rightarrow> journal \<Rightarrow> body_result" where
  "commit_invocation_locked env i blobs stage j j1 =
     (let refuse = conflict_body env j1 (Some (iv_revision i)) [] [] in
      if \<not> (1 \<le> iv_revision i \<and> iv_revision i \<le> POSTGRES_BIGINT_MAX) then refuse
      else if \<not> (1 \<le> iv_dispatch_attempt i \<and> iv_dispatch_attempt i \<le> POSTGRES_BIGINT_MAX) then refuse
      else if \<not> stage_flag_ok i stage then refuse
      else case validated_blobs env blobs of
        None \<Rightarrow> refuse
      | Some submitted \<Rightarrow> or_conflict (payload_for_write env i) refuse (\<lambda>payload.
          if \<not> submitted_blobs_preserve_backing j submitted then refuse
          else if \<not> references_resolve env j (iv_run_id i) (result_references i) submitted then refuse
          else let digest = record_digest env payload submitted in
            res_bind (invocation_coordinate env j i payload digest) (\<lambda>stored. case stored of
              Some c \<Rightarrow>
                if stage \<and> cr_status c = AlreadyCommitted then
                  res_bind (evidence_coordinate env j i payload (record_only_digest env payload) True) (\<lambda>staged.
                    if (case staged of None \<Rightarrow> True | Some s \<Rightarrow> cr_status s \<noteq> AlreadyCommitted)
                    then conflict_body env j1 (Some (iv_revision i)) digest []
                    else Inr (Some (j1, c, digest)))
                else Inr (Some (j1, c, digest))
            | None \<Rightarrow> res_bind (invocation_transition_winner env j i) (\<lambda>winner. case winner of
                Some w \<Rightarrow> conflict_body env j1 (Some (iv_revision i)) digest w
              | None \<Rightarrow> write_revision env i payload digest submitted stage j1))))"

definition reconcile_invocation :: "journal_env \<Rightarrow> invocation \<Rightarrow> bool \<Rightarrow> string \<Rightarrow> journal \<Rightarrow> commit_result option res" where
  "reconcile_invocation env i stage digest j =
     res_bind (payload_for_write env i) (\<lambda>payload.
     res_bind (invocation_coordinate env j i payload digest) (\<lambda>result. case result of
       None \<Rightarrow> Inr None
     | Some c \<Rightarrow>
         if \<not> stage \<or> cr_status c \<notin> {Committed, AlreadyCommitted} then Inr (Some c)
         else res_bind (evidence_coordinate env j i payload (record_only_digest env payload) True) (\<lambda>staged.
           if (case staged of None \<Rightarrow> False | Some s \<Rightarrow> cr_status s = AlreadyCommitted) then Inr (Some c)
           else res_bind (make_commit_result (je_cfg env) CommitConflict (Some (iv_revision i)) digest [])
             (\<lambda>c'. Inr (Some c')))))"

definition commit_invocation :: "journal_env \<Rightarrow> bool \<Rightarrow> attempt \<Rightarrow> invocation \<Rightarrow> blob_map \<Rightarrow> writer_token \<Rightarrow> bool \<Rightarrow>
    journal \<Rightarrow> journal \<times> commit_result res" where
  "commit_invocation env ready tx i blobs t stage =
     fenced_mutation env ready tx (iv_run_id i) t (fenced_result env None) (commit_invocation_locked env i blobs stage)
       (make_commit_result (je_cfg env) CommitConflict (Some (iv_revision i)) [] [])
       (reconcile_invocation env i stage)"

definition reconcile_evidence :: "journal_env \<Rightarrow> invocation \<Rightarrow> string \<Rightarrow> journal \<Rightarrow> commit_result option res" where
  "reconcile_evidence env i digest j =
     res_bind (payload_for_write env i) (\<lambda>payload.
     if (case checked_invocation_head env j (iv_run_id i) (iv_logical_call_id i) of
           None \<Rightarrow> True | Some (_, d) \<Rightarrow> d \<noteq> digest)
     then res_bind (make_commit_result (je_cfg env) CommitConflict (Some (iv_revision i)) digest []) (\<lambda>c. Inr (Some c))
     else evidence_coordinate env j i payload digest False)"

definition commit_model_evidence :: "journal_env \<Rightarrow> bool \<Rightarrow> attempt \<Rightarrow> invocation \<Rightarrow> writer_token \<Rightarrow>
    journal \<Rightarrow> journal \<times> commit_result res" where
  "commit_model_evidence env ready tx i t =
     fenced_mutation env ready tx (iv_run_id i) t (fenced_result env (Some (iv_revision i)))
       (\<lambda>_. commit_evidence_locked env i False)
       (Inl (RuntimeFault ''PostgreSQL model evidence transaction returned no result''))
       (reconcile_evidence env i)"

section \<open>Reading\<close>

record invocation_record =
  ir_revision :: int
  ir_invocation :: invocation

definition load_invocation :: "journal_env \<Rightarrow> bool \<Rightarrow> journal \<Rightarrow> string \<Rightarrow> string \<Rightarrow> invocation_record load_result res" where
  "load_invocation env ready j run call =
     res_bind (guard ready (SchemaIncompatible ''fenced run sink'')) (\<lambda>_.
     res_bind (guard (opaque_id run) (ValueError ''PostgreSQL invocation run_id must be a bounded opaque id'')) (\<lambda>_.
     res_bind (guard (opaque_id call) (ValueError ''PostgreSQL logical_call_id must be a bounded opaque id'')) (\<lambda>_.
     case invocation_head j run call of
       None \<Rightarrow> Inr (codec_missing MODEL_INVOCATION_CODEC)
     | Some (n, None) \<Rightarrow> Inr (codec_corrupt MODEL_INVOCATION_CODEC None (Some n))
     | Some (n, Some r) \<Rightarrow>
         if \<not> row_bound env (run, call, n) r
         then Inr (codec_corrupt MODEL_INVOCATION_CODEC None (Some n))
         else let decoded = (decode_stored env (sr_payload r))\<lparr>lr_sequence := Some n\<rparr> in
           case (if lr_ok decoded then lr_value decoded else None) of
             Some i \<Rightarrow> if key_of i \<noteq> (run, call, n)
               then Inr (codec_corrupt MODEL_INVOCATION_CODEC (Some (iv_schema_version i)) (Some n))
               else Inr (lr_map (\<lambda>i. \<lparr>ir_revision = n, ir_invocation = i\<rparr>) decoded)
           | None \<Rightarrow> Inr (lr_map (\<lambda>i. \<lparr>ir_revision = n, ir_invocation = i\<rparr>) decoded))))"

section \<open>What is written can be read\<close>

text \<open>The documented behaviour of what the sink is given: strict adapters, an accepted digit limit,
  and digests spelled as 64 hexadecimal characters.\<close>

definition env_ok :: "journal_env \<Rightarrow> bool" where
  "env_ok env \<longleftrightarrow> pydantic_strict (je_va env) \<and> digits_limit_ok (je_cfg env) \<and>
     (\<forall>d. recorded_digest (je_sha env d)) \<and> (\<forall>b. recorded_digest (je_bsha env b))"

text \<open>The invocations a process can hold: built by the constructor, or loaded by the checked reader.\<close>

definition submittable :: "journal_env \<Rightarrow> invocation \<Rightarrow> bool" where
  "submittable env i \<longleftrightarrow>
     (iv_source_envelope i = None \<and> make_invocation (je_va env) (je_cfg env) i = Inr i \<and>
        opt_receipt_canonical (je_va env) (je_cfg env) (allows_facts i) (iv_receipt i)) \<or>
     (\<exists>p. wf_val (PDict p) \<and> lr_value (decode_stored env p) = Some i)"

text \<open>The same call up to the spelling of its schema, digest generation and source.\<close>

definition same_call :: "invocation \<Rightarrow> invocation \<Rightarrow> bool" where
  "same_call a b \<longleftrightarrow> current_spelling a = current_spelling b"

lemma same_call_fields:
  assumes "same_call a b"
  shows "key_of a = key_of b" "iv_run_id a = iv_run_id b" "iv_logical_call_id a = iv_logical_call_id b"
    "iv_revision a = iv_revision b" "iv_dispatch_id a = iv_dispatch_id b"
    "iv_dispatch_attempt a = iv_dispatch_attempt b" "iv_dispatch_state a = iv_dispatch_state b"
    "iv_idempotency_key a = iv_idempotency_key b" "iv_request_digest a = iv_request_digest b"
    "iv_evidence_policy a = iv_evidence_policy b" "iv_receipt a = iv_receipt b"
    "iv_result_ref a = iv_result_ref b" "iv_failure_code a = iv_failure_code b"
  using assms by (cases a; cases b; simp add: same_call_def current_spelling_def key_of_def)+

lemma same_call_refl [simp]: "same_call a a"
  by (simp add: same_call_def)

lemma same_call_trans: "same_call a b \<Longrightarrow> same_call b c \<Longrightarrow> same_call a c"
  by (simp add: same_call_def)

lemma codec_decode_ok: "lr_value (codec_decode c payload loader) = Some x \<Longrightarrow> lr_ok (codec_decode c payload loader)"
  by (auto simp: codec_decode_def codec_corrupt_def codec_unsupported_def codec_result_def lr_ok_def
      dest: migrate_loop_Inl split: pyval.splits option.splits if_splits sum.splits prod.splits)

lemma decode_ok:
  assumes "lr_value (decode_stored env p) = Some i"
  shows "lr_ok (decode_stored env p)"
  using assms unfolding decode_stored_def decode_model_invocation_def
  by (cases "strict_ingress (PDict p)")
     (auto simp: codec_corrupt_def codec_result_def intro: codec_decode_ok split: if_splits)

lemma parse_str_present:
  assumes "pydantic_strict va" and "parse_str va p k [] = Inr s"
  shows "map_of p k = Some (PStr s) \<or> (map_of p k = None \<and> s = [])"
  using assms by (auto simp: parse_str_strict split: option.splits pyval.splits)

lemma parse_int_present: "parse_int p k 0 = Inr n \<Longrightarrow> n \<noteq> 0 \<Longrightarrow> map_of p k = Some (PInt n)"
  by (auto simp: parse_int_def split: option.splits pyval.splits)

lemma parse_literal_value: "parse_literal p k allowed None = Inr s \<Longrightarrow> map_of p k = Some (PStr s)"
  by (auto simp: parse_literal_def find_Some_iff split: option.splits)

lemma policy_str_of: "s \<in> {''passive'', ''required'', ''outbox''} \<Longrightarrow> evidence_policy_str (policy_of_str s) = s"
  by (auto simp: policy_of_str_def)

lemma state_str_of: "s \<in> {''reserved'', ''dispatch_started'', ''settled'', ''unknown''} \<Longrightarrow> dispatch_state_str (state_of_str s) = s"
  by (auto simp: state_of_str_def)

text \<open>The policy the checked reader finds is the one the typed projection spells.\<close>

lemma typed_policy:
  assumes "pydantic_strict va" and "model_evidence_policy_from_payload va p = Inr pol"
  shows "(case map_of p ''evidence_policy'' of None \<Rightarrow> legacy_policy p | Some v \<Rightarrow> v) = PStr (evidence_policy_str pol)"
proof (cases "map_of p ''evidence_policy''")
  case None
  with assms show ?thesis
    by (cases "map_of p ''requires_evidence''")
       (auto simp: model_evidence_policy_from_payload_def dhas_def res_bind_eq_Inr parse_bool_strict
          legacy_policy_def dget_def simp del: dhas_iff split: pyval.splits)
next
  case (Some v)
  with assms obtain s where s: "parse_literal p ''evidence_policy'' [''passive'', ''required'', ''outbox''] None = Inr s"
    and pol: "pol = policy_of_str s"
    by (auto simp: model_evidence_policy_from_payload_def dhas_def res_bind_eq_Inr Let_def simp del: dhas_iff split: if_splits)
  from policy_str_of [of s] parse_literal_mem [OF s] parse_literal_value [OF s] Some pol
  show ?thesis by auto
qed

lemma nonempty_vocabulary:
  "[] \<notin> set ACCEPTED_MODEL_INVOCATION_SCHEMA_VERSIONS" "[] \<notin> set ACCEPTED_MODEL_REQUEST_DIGEST_GENERATIONS"
  by (auto simp: ACCEPTED_MODEL_INVOCATION_SCHEMA_VERSIONS_def ACCEPTED_MODEL_REQUEST_DIGEST_GENERATIONS_def
      accepted_namespaced_ids_def MODEL_INVOCATION_V2_SCHEMA_VERSION_def namespaced_id_def legacy_namespaced_id_def)

lemma loaded_members:
  assumes "pydantic_strict va" and "model_invocation_from_payload va cfg sha src = Inr i"
  shows "map_of src ''run_id'' = Some (PStr (iv_run_id i))"
    "map_of src ''logical_call_id'' = Some (PStr (iv_logical_call_id i))"
    "map_of src ''revision'' = Some (PInt (iv_revision i))"
    "map_of src ''dispatch_id'' = Some (PStr (iv_dispatch_id i))"
    "map_of src ''dispatch_attempt'' = Some (PInt (iv_dispatch_attempt i))"
    "map_of src ''dispatch_state'' = Some (PStr (dispatch_state_str (iv_dispatch_state i)))"
    "map_of src ''idempotency_key'' = Some (PStr (iv_idempotency_key i))"
    "map_of src ''request_digest'' = Some (PStr (iv_request_digest i))"
    "\<exists>s. map_of src ''schema_version'' = Some (PStr s)"
    "\<exists>s. map_of src ''digest_generation'' = Some (PStr s)"
    "map_of src ''result_ref'' = Some (PStr (iv_result_ref i)) \<or> map_of src ''result_ref'' = None \<and> iv_result_ref i = []"
    "map_of src ''failure_code'' = Some (PStr (iv_failure_code i)) \<or> map_of src ''failure_code'' = None \<and> iv_failure_code i = []"
    "(case map_of src ''evidence_policy'' of None \<Rightarrow> legacy_policy src | Some v \<Rightarrow> v) = PStr (evidence_policy_str (iv_evidence_policy i))"
proof -
  from assms(2) obtain sv run call n did att key st dg gen pol rref fc i0 i1 where
    p: "parse_str va src ''schema_version'' [] = Inr sv" "parse_str va src ''run_id'' [] = Inr run"
      "parse_str va src ''logical_call_id'' [] = Inr call" "parse_int src ''revision'' 0 = Inr n"
      "parse_str va src ''dispatch_id'' [] = Inr did" "parse_int src ''dispatch_attempt'' 0 = Inr att"
      "parse_str va src ''idempotency_key'' [] = Inr key"
      "parse_literal src ''dispatch_state'' [''reserved'', ''dispatch_started'', ''settled'', ''unknown''] None = Inr st"
      "parse_str va src ''request_digest'' [] = Inr dg" "parse_str va src ''digest_generation'' [] = Inr gen"
      "model_evidence_policy_from_payload va src = Inr pol" "parse_str va src ''result_ref'' [] = Inr rref"
      "parse_str va src ''failure_code'' [] = Inr fc"
    and mk: "make_invocation va cfg i0 = Inr i1"
    and i0: "iv_schema_version i0 = sv" "iv_run_id i0 = run" "iv_logical_call_id i0 = call" "iv_revision i0 = n"
      "iv_dispatch_id i0 = did" "iv_dispatch_attempt i0 = att" "iv_idempotency_key i0 = key"
      "iv_dispatch_state i0 = state_of_str st" "iv_request_digest i0 = dg" "iv_digest_generation i0 = gen"
      "iv_evidence_policy i0 = pol" "iv_result_ref i0 = rref" "iv_failure_code i0 = fc"
    and i: "\<exists>x. i = i1\<lparr>iv_digest_generation := MODEL_REQUEST_DIGEST_GENERATION, iv_source_envelope := x\<rparr>"
    unfolding model_invocation_from_payload_def Let_def res_bind_eq_Inr
    by (elim exE conjE) (rule that, assumption+, simp_all, blast)
  from mk have m: "members_ok cfg i0" and i1: "\<exists>r. i1 = i0\<lparr>iv_receipt := r\<rparr>" by (auto simp: make_invocation_iff)
  have ne: "run \<noteq> []" "call \<noteq> []" "did \<noteq> []" "key \<noteq> []" "dg \<noteq> []" "n \<noteq> 0" "att \<noteq> 0" "sv \<noteq> []" "gen \<noteq> []"
    using m by (auto simp: members_ok_def i0 opaque_id_def idempotency_key_ok_def recorded_digest_def
      nonempty_vocabulary)
  have f: "iv_run_id i = run" "iv_logical_call_id i = call" "iv_revision i = n" "iv_dispatch_id i = did"
    "iv_dispatch_attempt i = att" "iv_idempotency_key i = key" "iv_dispatch_state i = state_of_str st"
    "iv_request_digest i = dg" "iv_evidence_policy i = pol" "iv_result_ref i = rref" "iv_failure_code i = fc"
    using i i1 i0 by auto
  note s = parse_str_present [OF assms(1)]
  show "map_of src ''run_id'' = Some (PStr (iv_run_id i))" using s [OF p(2)] ne f by auto
  show "map_of src ''logical_call_id'' = Some (PStr (iv_logical_call_id i))" using s [OF p(3)] ne f by auto
  show "map_of src ''revision'' = Some (PInt (iv_revision i))" using parse_int_present [OF p(4)] ne f by auto
  show "map_of src ''dispatch_id'' = Some (PStr (iv_dispatch_id i))" using s [OF p(5)] ne f by auto
  show "map_of src ''dispatch_attempt'' = Some (PInt (iv_dispatch_attempt i))"
    using parse_int_present [OF p(6)] ne f by auto
  show "map_of src ''dispatch_state'' = Some (PStr (dispatch_state_str (iv_dispatch_state i)))"
    using parse_literal_value [OF p(8)] parse_literal_mem [OF p(8)] f state_str_of [of st] by auto
  show "map_of src ''idempotency_key'' = Some (PStr (iv_idempotency_key i))" using s [OF p(7)] ne f by auto
  show "map_of src ''request_digest'' = Some (PStr (iv_request_digest i))" using s [OF p(9)] ne f by auto
  show "\<exists>s. map_of src ''schema_version'' = Some (PStr s)" using s [OF p(1)] ne by auto
  show "\<exists>s. map_of src ''digest_generation'' = Some (PStr s)" using s [OF p(10)] ne by auto
  show "map_of src ''result_ref'' = Some (PStr (iv_result_ref i)) \<or> map_of src ''result_ref'' = None \<and> iv_result_ref i = []"
    using s [OF p(12)] f by auto
  show "map_of src ''failure_code'' = Some (PStr (iv_failure_code i)) \<or> map_of src ''failure_code'' = None \<and> iv_failure_code i = []"
    using s [OF p(13)] f by auto
  show "(case map_of src ''evidence_policy'' of None \<Rightarrow> legacy_policy src | Some v \<Rightarrow> v) = PStr (evidence_policy_str (iv_evidence_policy i))"
    using typed_policy [OF assms(1) p(11)] f by simp
qed

lemma to_json_source [simp]: "invocation_to_json va cfg (i\<lparr>iv_source_envelope := x\<rparr>) = invocation_to_json va cfg i"
  by (simp add: invocation_to_json_def invocation_members_def allows_facts_def)

lemma loaded_source:
  assumes "model_invocation_from_payload va cfg sha src = Inr i"
  shows "model_invocation_payload_for_write va cfg sha i = Inr src"
proof -
  from assms obtain i0 j where "invocation_to_json va cfg i0 = Inr j" and "i = i0\<lparr>iv_source_envelope := Some (src, sha j)\<rparr>"
    unfolding model_invocation_from_payload_def Let_def res_bind_eq_Inr
    by (elim exE conjE) (rule that, assumption, simp)
  then show ?thesis by (simp add: model_invocation_payload_for_write_def)
qed

text \<open>The payload of a submission reads back as the same call, and spells its typed columns.\<close>

definition spells :: "pydict \<Rightarrow> invocation \<Rightarrow> bool" where
  "spells p i \<longleftrightarrow> (\<exists>sv gen. dget p ''schema_version'' = PStr sv \<and> dget p ''digest_generation'' = PStr gen \<and>
     map (dget (invocation_typed_payload p)) INVOCATION_TYPED_FIELDS = call_cols (key_of i) @
       [PStr sv, PStr (iv_dispatch_id i), PInt (iv_dispatch_attempt i),
       PStr (dispatch_state_str (iv_dispatch_state i)), PStr (iv_idempotency_key i), PStr (iv_request_digest i),
       PStr gen, PStr (evidence_policy_str (iv_evidence_policy i)), PStr (iv_result_ref i), PStr (iv_failure_code i)] \<and>
     map (dget (invocation_typed_payload p)) EVIDENCE_TYPED_FIELDS = call_cols (key_of i) @
       [PStr sv, PStr (evidence_policy_str (iv_evidence_policy i))])"

lemma map_of_set_default: "map_of (set_default k v d) k' = (if k' = k \<and> map_of d k = None then Some v else map_of d k')"
  by (auto simp: set_default_def dhas_def map_add_def simp del: dhas_iff split: option.splits)

lemma typed_payload_get:
  "map_of (invocation_typed_payload p) ''evidence_policy'' =
     Some (case map_of p ''evidence_policy'' of None \<Rightarrow> legacy_policy p | Some v \<Rightarrow> v)"
  "map_of (invocation_typed_payload p) ''result_ref'' =
     Some (case map_of p ''result_ref'' of None \<Rightarrow> PStr [] | Some v \<Rightarrow> v)"
  "map_of (invocation_typed_payload p) ''failure_code'' =
     Some (case map_of p ''failure_code'' of None \<Rightarrow> PStr [] | Some v \<Rightarrow> v)"
  "k \<noteq> ''evidence_policy'' \<Longrightarrow> k \<noteq> ''result_ref'' \<Longrightarrow> k \<noteq> ''failure_code'' \<Longrightarrow>
     map_of (invocation_typed_payload p) k = map_of p k"
  by (simp_all add: invocation_typed_payload_def map_of_set_default split: option.split)

lemma loaded_spells:
  assumes "pydantic_strict va" and "model_invocation_from_payload va cfg sha src = Inr i"
  shows "spells src i"
proof -
  note m = loaded_members [OF assms]
  from m(9,10) obtain sv gen where sg: "map_of src ''schema_version'' = Some (PStr sv)"
    "map_of src ''digest_generation'' = Some (PStr gen)" by blast
  have pol: "dget (invocation_typed_payload src) ''evidence_policy'' = PStr (evidence_policy_str (iv_evidence_policy i))"
    using m(13) by (simp add: dget_def typed_payload_get split: option.splits)
  have rr: "dget (invocation_typed_payload src) ''result_ref'' = PStr (iv_result_ref i)"
    "dget (invocation_typed_payload src) ''failure_code'' = PStr (iv_failure_code i)"
    using m(11,12) by (auto simp: dget_def typed_payload_get)
  show ?thesis unfolding spells_def
    using pol rr sg m(1-8)
    by (auto simp: dget_def typed_payload_get INVOCATION_TYPED_FIELDS_def EVIDENCE_TYPED_FIELDS_def call_cols_def key_of_def)
qed

lemma submitted_payload:
  assumes "env_ok env" and "submittable env i"
  obtains p i' where "payload_for_write env i = Inr p" "lr_value (decode_stored env p) = Some i'" "same_call i' i"
    "spells p i" "good_val (je_cfg env) (PDict p)"
proof -
  let ?va = "je_va env" and ?cfg = "je_cfg env" and ?sha = "je_sha env"
  have env: "pydantic_strict ?va" "digits_limit_ok ?cfg" using assms(1) by (simp_all add: env_ok_def)
  from assms(2) consider
    (built) "iv_source_envelope i = None" "make_invocation ?va ?cfg i = Inr i"
      "opt_receipt_canonical ?va ?cfg (allows_facts i) (iv_receipt i)"
  | (loaded) p0 where "wf_val (PDict p0)" "lr_value (decode_stored env p0) = Some i"
    unfolding submittable_def by (elim disjE exE conjE) simp_all
  then show ?thesis
  proof cases
    case built
    then have m: "members_ok ?cfg i" "receipt_fits i (iv_receipt i)" by (simp_all add: make_invocation_fixed)
    let ?i = "(current_spelling i)\<lparr>iv_source_envelope := Some (wire_object i, ?sha (wire_object i))\<rparr>"
    have "payload_for_write env i = Inr (wire_object i)"
      using built by (simp add: payload_for_write_def model_invocation_payload_for_write_def invocation_to_json_ok)
    moreover have "lr_value (decode_stored env (wire_object i)) = Some ?i"
      using decode_wire_object(2) [OF env m built(3)] by (simp add: decode_stored_def)
    moreover have "same_call ?i i" by (simp add: same_call_def current_spelling_def written_schema_def allows_facts_def)
    moreover have "spells (wire_object i) i"
      by (auto simp: spells_def dget_def typed_payload_get wire_object_get INVOCATION_TYPED_FIELDS_def
          EVIDENCE_TYPED_FIELDS_def call_cols_def key_of_def)
    moreover have "good_val ?cfg (PDict (wire_object i))" by (rule wire_object_good [OF env(2) m(1) built(3)])
    ultimately show ?thesis by (rule that)
  next
    case (loaded p0)
    from decode_value [OF loaded(1) loaded(2) [unfolded decode_stored_def]] obtain src
      where n: "norm_val False (PDict p0) = PDict src" and d: "json_dumpable ?cfg (PDict src)"
        and l: "model_invocation_from_payload ?va ?cfg ?sha src = Inr i" .
    have g: "good_val ?cfg (PDict src)" using norm_good [OF loaded(1)] n d by simp
    have "decode_stored env src = decode_stored env p0"
      unfolding decode_stored_def decode_model_invocation_def good_norm [OF g] strict_ingress_wf [OF loaded(1)] n ..
    with loaded(2) have "lr_value (decode_stored env src) = Some i" by simp
    moreover have "payload_for_write env i = Inr src" using loaded_source [OF l] by (simp add: payload_for_write_def)
    ultimately show ?thesis using loaded_spells [OF env(1) l] that [of src i] same_call_refl [of i] g by blast
  qed
qed

section \<open>What a mutation writes\<close>

lemma make_commit_result_status: "make_commit_result cfg st sq d w = Inr r \<Longrightarrow> cr_status r = st \<and> cr_content_digest r = d"
  by (auto simp: make_commit_result_def Let_def split: if_splits)

lemma conflict_body_state: "conflict_body env j sq d w = Inr (Some (j', r, d')) \<Longrightarrow> j' = j \<and> cr_status r = CommitConflict"
  by (auto simp: conflict_body_def res_bind_eq_Inr dest: make_commit_result_status)

lemma stored_result_status: "stored_result env row d sq cs ex ip kc = Inr (Some r) \<Longrightarrow> cr_status r \<in> {AlreadyCommitted, CommitConflict} \<and> row \<noteq> None"
  by (auto simp: stored_result_def Let_def res_bind_eq_Inr dest!: make_commit_result_status split: option.splits if_splits)

lemma stored_result_None: "stored_result env row d sq cs ex ip kc = Inr None \<longleftrightarrow> row = None"
  by (auto simp: stored_result_def Let_def res_bind_eq_Inr split: option.splits)

text \<open>The table an evidence commit writes to.\<close>

definition set_evidence :: "bool \<Rightarrow> (call_key \<times> stored_row) list \<Rightarrow> journal \<Rightarrow> journal" where
  "set_evidence outbox table j = (if outbox then j\<lparr>jn_outbox := table\<rparr> else j\<lparr>jn_evidence := table\<rparr>)"

lemma evidence_effect:
  assumes "commit_evidence_locked env i outbox j = Inr (Some (j', r, d))"
  shows "j' = j \<and> cr_status r \<noteq> Committed \<or>
    (\<exists>payload head. cr_status r = Committed \<and> iv_dispatch_state i = Settled \<and> (outbox \<longrightarrow> iv_evidence_policy i = OutboxEvidence) \<and>
       payload_for_write env i = Inr payload \<and> d = record_only_digest env payload \<and>
       checked_invocation_head env j (iv_run_id i) (iv_logical_call_id i) = Some (head, d) \<and>
       map_of (if outbox then jn_outbox j else jn_evidence j) (key_of i) = None \<and>
       j' = set_evidence outbox ((key_of i, evidence_row i payload d) # (if outbox then jn_outbox j else jn_evidence j)) j)"
proof -
  let ?C = "conflict_body env j (portable_sequence (je_cfg env) (iv_revision i)) [] []"
  let ?T = "if outbox then jn_outbox j else jn_evidence j"
  show ?thesis
  proof (cases "iv_dispatch_state i \<noteq> Settled \<or> iv_receipt i = None \<or> (outbox \<and> iv_evidence_policy i \<noteq> OutboxEvidence)")
    case True
    with assms show ?thesis by (auto simp: commit_evidence_locked_def Let_def dest: conflict_body_state)
  next
    case ok: False
    show ?thesis
    proof (cases "payload_for_write env i")
      case (Inl e)
      with assms ok show ?thesis
        by (auto simp: commit_evidence_locked_def Let_def or_conflict_def dest: conflict_body_state split: if_splits)
    next
      case (Inr payload)
      let ?d = "record_only_digest env payload"
      show ?thesis
      proof (cases "\<exists>head. checked_invocation_head env j (iv_run_id i) (iv_logical_call_id i) = Some (head, ?d)")
        case False
        then have "conflict_body env j (Some (iv_revision i)) ?d [] = Inr (Some (j', r, d))"
          using assms ok Inr by (cases "checked_invocation_head env j (iv_run_id i) (iv_logical_call_id i)")
            (auto simp: commit_evidence_locked_def Let_def or_conflict_def)
        from conflict_body_state [OF this] show ?thesis by simp
      next
        case True
        then obtain head where h: "checked_invocation_head env j (iv_run_id i) (iv_logical_call_id i) = Some (head, ?d)" by blast
        from assms ok Inr h obtain stored where st: "evidence_coordinate env j i payload ?d outbox = Inr stored"
          by (auto simp: commit_evidence_locked_def Let_def or_conflict_def res_bind_eq_Inr)
        show ?thesis
        proof (cases stored)
          case (Some c)
          with assms ok Inr h st stored_result_status [OF st [unfolded evidence_coordinate_def Some]] show ?thesis
            by (auto simp: commit_evidence_locked_def Let_def or_conflict_def)
        next
          case None
          with assms ok Inr h st obtain table c where ins: "insert_row (key_of i) (evidence_row i payload ?d) ?T = Inr table"
            and c: "make_commit_result (je_cfg env) Committed (Some (iv_revision i)) ?d [] = Inr c"
            and j': "j' = set_evidence outbox table j" "r = c" "d = ?d"
            by (auto simp: commit_evidence_locked_def Let_def or_conflict_def res_bind_eq_Inr set_evidence_def)
          from grows_insert [OF ins] make_commit_result_status [OF c] j' Inr h ok show ?thesis by auto
        qed
      qed
    qed
  qed
qed

text \<open>The state after a fresh revision.\<close>

definition with_revision :: "journal_env \<Rightarrow> invocation \<Rightarrow> pydict \<Rightarrow> string \<Rightarrow> blob_map \<Rightarrow> journal \<Rightarrow> journal" where
  "with_revision env i payload digest blobs j = j\<lparr>
     jn_invocations := (key_of i, invocation_row env i payload digest blobs) # jn_invocations j,
     jn_invocation_head := (jn_invocation_head j)((iv_run_id i, iv_logical_call_id i) \<mapsto> iv_revision i)\<rparr>"

lemma write_revision_effect:
  assumes "write_revision env i payload digest blobs stage j = Inr (Some (j', r, d))"
  obtains b a ob where
    "j' = (with_revision env i payload digest blobs j)\<lparr>jn_blobs := b, jn_run_blobs := a, jn_outbox := ob\<rparr>"
    "map_of (jn_invocations j) (key_of i) = None" "cr_status r = Committed" "d = digest" "cr_content_digest r = digest"
    "jn_blobs j \<subseteq>\<^sub>m b" "\<forall>run k. jn_run_blobs j run k \<longrightarrow> a run k"
    "\<forall>(k, v) \<in> set blobs. b k = Some (int (length v), v) \<and> a (iv_run_id i) k"
    "(\<forall>(k, v) \<in> set blobs. je_bsha env v = k) \<longrightarrow> blobs_ok env (jn_blobs j) \<longrightarrow> blobs_ok env b"
    "if stage then (\<exists>p. payload_for_write env i = Inr p \<and> map_of (jn_outbox j) (key_of i) = None \<and>
         ob = (key_of i, evidence_row i p (record_only_digest env p)) # jn_outbox j) else ob = jn_outbox j"
proof -
  from assms obtain j1 table where p: "persist_blobs (iv_run_id i) blobs j = Some j1"
    and ins: "insert_row (key_of i) (invocation_row env i payload digest blobs) (jn_invocations j1) = Inr table"
    by (auto simp: write_revision_def Let_def res_bind_eq_Inr split: option.splits)
  from persist_blobs_effect [OF p, of env] obtain b a where j1: "j1 = j\<lparr>jn_blobs := b, jn_run_blobs := a\<rparr>"
    and ba: "jn_blobs j \<subseteq>\<^sub>m b" "\<forall>r x. jn_run_blobs j r x \<longrightarrow> a r x"
      "\<forall>(k, v) \<in> set blobs. b k = Some (int (length v), v) \<and> a (iv_run_id i) k"
      "(\<forall>(k, v) \<in> set blobs. je_bsha env v = k) \<longrightarrow> blobs_ok env (jn_blobs j) \<longrightarrow> blobs_ok env b" .
  from grows_insert [OF ins] have t: "table = (key_of i, invocation_row env i payload digest blobs) # jn_invocations j"
    "map_of (jn_invocations j) (key_of i) = None" by (simp_all add: j1)
  let ?j2 = "(with_revision env i payload digest blobs j)\<lparr>jn_blobs := b, jn_run_blobs := a\<rparr>"
  have j2: "j1\<lparr>jn_invocations := table, jn_invocation_head := (jn_invocation_head j1)
      ((iv_run_id i, iv_logical_call_id i) \<mapsto> iv_revision i)\<rparr> = ?j2"
    by (simp add: j1 t with_revision_def)
  define finish where "finish = (\<lambda>j3. case j3 of
            None \<Rightarrow> Inr None
          | Some j3 \<Rightarrow> res_bind (make_commit_result (je_cfg env) Committed (Some (iv_revision i)) digest []) (\<lambda>c.
              Inr (Some (j3 :: journal, c, digest))))"
  have w: "write_revision env i payload digest blobs stage j =
      (if \<not> stage then finish (Some ?j2)
       else res_bind (commit_evidence_locked env i True ?j2) (\<lambda>staged. case staged of
                        Some (j3, c, _) \<Rightarrow> finish (if cr_status c = Committed then Some j3 else None)
                      | None \<Rightarrow> finish None))"
    unfolding write_revision_def p option.case ins res_bind_Inr Let_def j2 finish_def [symmetric]
    by (cases "commit_evidence_locked env i True ?j2") (auto split: option.split)
  have fin: "\<exists>c. make_commit_result (je_cfg env) Committed (Some (iv_revision i)) digest [] = Inr c \<and> r = c \<and> d = digest \<and> y = Some j'"
    if "finish y = Inr (Some (j', r, d))" for y
    using that by (cases y) (auto simp: finish_def res_bind_eq_Inr)
  have s: "(\<exists>x y. commit_evidence_locked env i True ?j2 = Inr (Some (j', x, y)) \<and> cr_status x = Committed) \<and>
      (\<exists>y. finish y = Inr (Some (j', r, d)))" if stage
  proof -
    from assms that obtain st where st: "commit_evidence_locked env i True ?j2 = Inr st"
      and f: "(case st of Some (j3, c, _) \<Rightarrow> finish (if cr_status c = Committed then Some j3 else None) | None \<Rightarrow> finish None)
         = Inr (Some (j', r, d))"
      unfolding w by (auto simp: res_bind_eq_Inr)
    from f obtain j3 x y where "st = Some (j3, x, y)" "finish (if cr_status x = Committed then Some j3 else None) = Inr (Some (j', r, d))"
      by (cases st) (auto simp: finish_def)
    with fin [OF this(2)] st show ?thesis by (auto split: if_splits)
  qed
  from assms fin s w obtain c where c: "make_commit_result (je_cfg env) Committed (Some (iv_revision i)) digest [] = Inr c"
    and r: "r = c" "d = digest" by (cases stage) auto
  note rr = make_commit_result_status [OF c] r
  show ?thesis
  proof (cases stage)
    case True
    with s obtain x y where e: "commit_evidence_locked env i True ?j2 = Inr (Some (j', x, y))" "cr_status x = Committed" by auto
    from evidence_effect [OF e(1)] e(2) obtain q where q: "payload_for_write env i = Inr q"
      "map_of (jn_outbox j) (key_of i) = None"
      "j' = set_evidence True ((key_of i, evidence_row i q (record_only_digest env q)) # jn_outbox j) ?j2"
      by (auto simp: with_revision_def)
    show ?thesis
      by (rule that [where b = b and a = a and ob = "(key_of i, evidence_row i q (record_only_digest env q)) # jn_outbox j"])
         (use q t ba rr True in \<open>simp_all add: set_evidence_def with_revision_def\<close>)
  next
    case False
    have j': "j' = ?j2" using fin [of "Some ?j2"] assms False unfolding w by simp
    show ?thesis
      by (rule that [where b = b and a = a and ob = "jn_outbox j"]) (use j' t ba rr False in \<open>simp_all add: with_revision_def\<close>)
  qed
qed

text \<open>Either nothing is written, or a fresh revision that passed every guard.\<close>

definition revision_admitted :: "journal_env \<Rightarrow> invocation \<Rightarrow> blob_map \<Rightarrow> bool \<Rightarrow> journal \<Rightarrow> pydict \<Rightarrow> bool" where
  "revision_admitted env i blobs stage j payload \<longleftrightarrow> payload_for_write env i = Inr payload \<and> stage_flag_ok i stage \<and>
     1 \<le> iv_revision i \<and> iv_revision i \<le> POSTGRES_BIGINT_MAX \<and>
     1 \<le> iv_dispatch_attempt i \<and> iv_dispatch_attempt i \<le> POSTGRES_BIGINT_MAX \<and>
     (\<forall>(k, v) \<in> set blobs. recorded_digest k \<and> int (length v) \<le> je_max_blob env \<and> je_bsha env v = k) \<and>
     submitted_blobs_preserve_backing j blobs \<and>
     references_resolve env j (iv_run_id i) (result_references i) blobs \<and>
     map_of (jn_invocations j) (key_of i) = None \<and> invocation_transition_winner env j i = Inr None"

lemma locked_cases:
  assumes "commit_invocation_locked env i blobs stage j j1 = Inr (Some (j', r, d))"
  shows "j' = j1 \<and> cr_status r \<noteq> Committed \<or>
    (\<exists>payload. revision_admitted env i blobs stage j payload \<and>
       write_revision env i payload (record_digest env payload blobs) blobs stage j1 = Inr (Some (j', r, d)))"
proof -
  let ?R = "conflict_body env j1 (Some (iv_revision i)) [] []"
  have R: ?thesis if "?R = Inr (Some (j', r, d))" using conflict_body_state [OF that] by simp
  show ?thesis
  proof (cases "payload_for_write env i")
    case (Inl e)
    then have "?R = Inr (Some (j', r, d))"
      using assms by (auto simp: commit_invocation_locked_def Let_def or_conflict_def split: if_splits option.splits)
    then show ?thesis by (rule R)
  next
    case (Inr payload)
    let ?d = "record_digest env payload blobs"
    show ?thesis
    proof (cases "1 \<le> iv_revision i \<and> iv_revision i \<le> POSTGRES_BIGINT_MAX \<and> 1 \<le> iv_dispatch_attempt i \<and>
        iv_dispatch_attempt i \<le> POSTGRES_BIGINT_MAX \<and> stage_flag_ok i stage \<and> validated_blobs env blobs = Some blobs \<and>
        submitted_blobs_preserve_backing j blobs \<and>
        references_resolve env j (iv_run_id i) (result_references i) blobs")
      case False
      then have "?R = Inr (Some (j', r, d))"
        using assms Inr by (auto simp: commit_invocation_locked_def Let_def or_conflict_def validated_blobs_def
            split: if_splits option.splits)
      then show ?thesis by (rule R)
    next
      case True
      then have e: "commit_invocation_locked env i blobs stage j j1 =
          res_bind (invocation_coordinate env j i payload ?d) (\<lambda>stored. case stored of
              Some c \<Rightarrow>
                if stage \<and> cr_status c = AlreadyCommitted then
                  res_bind (evidence_coordinate env j i payload (record_only_digest env payload) True) (\<lambda>staged.
                    if (case staged of None \<Rightarrow> True | Some s \<Rightarrow> cr_status s \<noteq> AlreadyCommitted)
                    then conflict_body env j1 (Some (iv_revision i)) ?d []
                    else Inr (Some (j1, c, ?d)))
                else Inr (Some (j1, c, ?d))
            | None \<Rightarrow> res_bind (invocation_transition_winner env j i) (\<lambda>winner. case winner of
                Some w \<Rightarrow> conflict_body env j1 (Some (iv_revision i)) ?d w
              | None \<Rightarrow> write_revision env i payload ?d blobs stage j1))"
        by (simp add: commit_invocation_locked_def Let_def or_conflict_def Inr)
      from assms e obtain stored where st: "invocation_coordinate env j i payload ?d = Inr stored"
        by (auto simp: res_bind_eq_Inr)
      show ?thesis
      proof (cases stored)
        case (Some c)
        with assms st stored_result_status [OF st [unfolded invocation_coordinate_def Some]] show ?thesis
          unfolding e by (auto simp: res_bind_eq_Inr dest: conflict_body_state split: if_splits)
      next
        case None
        then have k: "map_of (jn_invocations j) (key_of i) = None"
          using st by (simp add: invocation_coordinate_def stored_result_None)
        from assms st None obtain w where w: "invocation_transition_winner env j i = Inr w"
          and body: "(case w of Some w \<Rightarrow> conflict_body env j1 (Some (iv_revision i)) ?d w
              | None \<Rightarrow> write_revision env i payload ?d blobs stage j1) = Inr (Some (j', r, d))"
          unfolding e by (auto simp: res_bind_eq_Inr)
        show ?thesis
        proof (cases w)
          case (Some x)
          with body show ?thesis by (auto dest: conflict_body_state)
        next
          case None
          have "revision_admitted env i blobs stage j payload"
            using True w None k Inr
            by (auto simp: revision_admitted_def validated_blobs_def list_all_iff split: if_splits)
          with body None show ?thesis by auto
        qed
      qed
    qed
  qed
qed

section \<open>The history of a call\<close>

definition stored_call :: "journal_env \<Rightarrow> journal \<Rightarrow> call_key \<Rightarrow> invocation option" where
  "stored_call env j k = (case map_of (jn_invocations j) k of None \<Rightarrow> None | Some r \<Rightarrow> decoded_row env k r)"

text \<open>One legal step of a call.\<close>

definition call_step :: "invocation \<Rightarrow> invocation \<Rightarrow> bool" where
  "call_step p i \<longleftrightarrow> iv_idempotency_key i = iv_idempotency_key p \<and> iv_request_digest i = iv_request_digest p \<and>
     iv_evidence_policy i = iv_evidence_policy p \<and>
     (if iv_dispatch_state p \<in> {Settled, DispatchUnknown}
      then iv_dispatch_state p = Settled \<and> retryable_receipt p \<and> iv_dispatch_state i = Reserved \<and>
           iv_dispatch_attempt i = iv_dispatch_attempt p + 1
      else iv_dispatch_attempt i = iv_dispatch_attempt p \<and> iv_dispatch_id i = iv_dispatch_id p \<and>
           iv_dispatch_state i \<in> set (allowed_next (iv_dispatch_state p)))"

text \<open>Every row is readable at its own coordinate; the revisions of a call are those up to its head,
  each a legal step from the one before; a dispatch id belongs to one attempt.\<close>

definition rows_sound :: "journal_env \<Rightarrow> journal \<Rightarrow> bool" where
  "rows_sound env j \<longleftrightarrow> distinct (map fst (jn_invocations j)) \<and>
     (\<forall>(k, r) \<in> set (jn_invocations j). good_val (je_cfg env) (PDict (sr_payload r)) \<and>
        (\<exists>i. decoded_row env k r = Some i \<and> key_of i = k \<and> spells (sr_payload r) i))"

definition heads_cover :: "journal \<Rightarrow> bool" where
  "heads_cover j \<longleftrightarrow> (\<forall>run call n. map_of (jn_invocations j) (run, call, n) \<noteq> None \<longleftrightarrow>
     (\<exists>h. jn_invocation_head j (run, call) = Some h \<and> 1 \<le> n \<and> n \<le> h)) \<and>
     (\<forall>c h. jn_invocation_head j c = Some h \<longrightarrow> 1 \<le> h)"

definition chained :: "journal_env \<Rightarrow> journal \<Rightarrow> bool" where
  "chained env j \<longleftrightarrow>
     (\<forall>run call i. stored_call env j (run, call, 1) = Some i \<longrightarrow> iv_dispatch_attempt i = 1 \<and> iv_dispatch_state i = Reserved) \<and>
     (\<forall>run call n p i. stored_call env j (run, call, n) = Some p \<longrightarrow> stored_call env j (run, call, n + 1) = Some i \<longrightarrow> call_step p i)"

definition ids_fresh :: "journal_env \<Rightarrow> journal \<Rightarrow> bool" where
  "ids_fresh env j \<longleftrightarrow> (\<forall>run call n m a b. stored_call env j (run, call, n) = Some a \<longrightarrow> stored_call env j (run, call, m) = Some b \<longrightarrow>
     iv_dispatch_id a = iv_dispatch_id b \<longrightarrow> iv_dispatch_attempt a = iv_dispatch_attempt b)"

definition calls_ok :: "journal_env \<Rightarrow> journal \<Rightarrow> bool" where
  "calls_ok env j \<longleftrightarrow> rows_sound env j \<and> heads_cover j \<and> chained env j \<and> ids_fresh env j"

lemma tuple_eq_refl: "list_all (\<lambda>v. (\<exists>s. v = PStr s) \<or> (\<exists>n. v = PInt n) \<or> v = PNone) vs \<Longrightarrow> tuple_eq vs vs"
  by (induction vs) (auto simp: tuple_eq_def num_eq_def)

lemma projection_valid:
  assumes "\<forall>(k, v) \<in> set blobs. recorded_digest k \<and> je_bsha env v = k"
  shows "stored_projection_is_valid (blob_projection env blobs)"
  using assms by (auto simp: stored_projection_is_valid_def blob_projection_def list_all_iff)

lemma digest_checks:
  assumes "env_ok env" and "stored_projection_is_valid ps"
  shows "checked_stored_digest env payload ps (bound_digest env payload ps) = Some (bound_digest env payload ps)"
  using assms by (simp add: checked_stored_digest_def env_ok_def bound_digest_def)

lemma new_row_decodes:
  assumes "env_ok env" and "submittable env i" and "payload_for_write env i = Inr p"
    and "\<forall>(k, v) \<in> set blobs. recorded_digest k \<and> je_bsha env v = k"
  shows "row_bound env (key_of i) (invocation_row env i p (record_digest env p blobs) blobs)"
    and "\<exists>i'. decoded_row env (key_of i) (invocation_row env i p (record_digest env p blobs) blobs) = Some i' \<and> same_call i' i"
proof -
  from submitted_payload [OF assms(1,2)] assms(3) obtain i' where
    d: "lr_value (decode_stored env p) = Some i'" "same_call i' i" and sp: "spells p i" by auto
  from sp obtain sv gen where sg: "dget p ''schema_version'' = PStr sv" "dget p ''digest_generation'' = PStr gen"
    and t: "map (dget (invocation_typed_payload p)) INVOCATION_TYPED_FIELDS = call_cols (key_of i) @
       [PStr sv, PStr (iv_dispatch_id i), PInt (iv_dispatch_attempt i),
       PStr (dispatch_state_str (iv_dispatch_state i)), PStr (iv_idempotency_key i), PStr (iv_request_digest i),
       PStr gen, PStr (evidence_policy_str (iv_evidence_policy i)), PStr (iv_result_ref i), PStr (iv_failure_code i)]"
    unfolding spells_def by blast
  show rb: "row_bound env (key_of i) (invocation_row env i p (record_digest env p blobs) blobs)"
    using digest_checks [OF assms(1) projection_valid [OF assms(4)], of p]
    by (auto simp: row_bound_def invocation_payload_matches_typed_values_def payload_matches_typed_values_def t
        invocation_row_def record_digest_def sg call_cols_def split: prod.split intro!: tuple_eq_refl)
  show "\<exists>i'. decoded_row env (key_of i) (invocation_row env i p (record_digest env p blobs) blobs) = Some i' \<and> same_call i' i"
    using rb d decode_ok [OF d(1)] by (simp add: decoded_row_def Let_def invocation_row_def)
qed

lemma to_json_members:
  assumes "invocation_to_json va cfg i = Inr q"
  shows "dget q ''idempotency_key'' = PStr (iv_idempotency_key i)" "dget q ''request_digest'' = PStr (iv_request_digest i)"
    "dget q ''evidence_policy'' = PStr (evidence_policy_str (iv_evidence_policy i))"
  using assms by (auto simp: invocation_to_json_def invocation_members_def res_bind_eq_Inr dget_def)

lemma policy_str_inj: "evidence_policy_str a = evidence_policy_str b \<Longrightarrow> a = b"
  by (metis policy_of_str_inverse)

text \<open>What an admitted transition rests on.\<close>

lemma transition_admitted:
  assumes "invocation_transition_winner env j i = Inr None"
  shows "jn_invocation_head j (iv_run_id i, iv_logical_call_id i) = None \<and> iv_revision i = 1 \<and>
       iv_dispatch_attempt i = 1 \<and> iv_dispatch_state i = Reserved \<or>
    (\<exists>n p. jn_invocation_head j (iv_run_id i, iv_logical_call_id i) = Some n \<and>
       stored_call env j (iv_run_id i, iv_logical_call_id i, n) = Some p \<and>
       key_of p = (iv_run_id i, iv_logical_call_id i, n) \<and> iv_revision i = n + 1 \<and> call_step p i \<and>
       (iv_dispatch_state p \<in> {Settled, DispatchUnknown} \<longrightarrow> \<not> dispatch_id_was_used env j i))"
proof (cases "jn_invocation_head j (iv_run_id i, iv_logical_call_id i)")
  case None
  with assms show ?thesis by (auto simp: invocation_transition_winner_def invocation_head_def split: if_splits)
next
  case (Some n)
  from assms Some obtain r p q q' where
    r: "map_of (jn_invocations j) (iv_run_id i, iv_logical_call_id i, n) = Some r"
    and d: "decoded_row env (iv_run_id i, iv_logical_call_id i, n) r = Some p"
    and k: "key_of p = (iv_run_id i, iv_logical_call_id i, n)" and v: "iv_revision i = iv_revision p + 1"
    and q: "invocation_to_json (je_va env) (je_cfg env) i = Inr q" "invocation_to_json (je_va env) (je_cfg env) p = Inr q'"
    and s: "stable_fields_equal q q'" "state_step_allowed env j p i"
    by (auto simp: invocation_transition_winner_def invocation_head_def res_bind_eq_Inr split: option.splits if_splits)
  from s(1) have st: "iv_idempotency_key i = iv_idempotency_key p" "iv_request_digest i = iv_request_digest p"
    "iv_evidence_policy i = iv_evidence_policy p"
    by (auto simp: stable_fields_equal_def STABLE_INVOCATION_FIELDS_def to_json_members [OF q(1)] to_json_members [OF q(2)]
        dest: policy_str_inj)
  have "call_step p i" and "iv_dispatch_state p \<in> {Settled, DispatchUnknown} \<longrightarrow> \<not> dispatch_id_was_used env j i"
    using s(2) st by (auto simp: call_step_def state_step_allowed_def split: if_splits)
  then show ?thesis using Some r d k v by (auto simp: stored_call_def key_of_def)
qed

lemma stored_call_in:
  assumes "rows_sound env j"
  shows "stored_call env j k = None \<longleftrightarrow> map_of (jn_invocations j) k = None"
    and "stored_call env j k = Some i \<Longrightarrow> key_of i = k"
  using assms by (auto simp: stored_call_def rows_sound_def split: option.splits dest!: map_of_SomeD)

lemma used_id:
  assumes "rows_sound env j" and "\<not> dispatch_id_was_used env j i"
    and "stored_call env j (iv_run_id i, iv_logical_call_id i, n) = Some a"
  shows "iv_dispatch_id a \<noteq> iv_dispatch_id i"
  using assms
  by (auto simp: stored_call_def dispatch_id_was_used_def list_ex_iff split: option.splits dest!: map_of_SomeD)

text \<open>A fresh revision: an admitted step appended to the history of its call.\<close>

definition appended :: "journal_env \<Rightarrow> invocation \<Rightarrow> invocation \<Rightarrow> journal \<Rightarrow> journal \<Rightarrow> bool" where
  "appended env i i' j j' \<longleftrightarrow> same_call i' i \<and> 1 \<le> iv_revision i \<and> map_of (jn_invocations j) (key_of i) = None \<and>
     (\<forall>k. map_of (jn_invocations j') k = None \<longleftrightarrow> k \<noteq> key_of i \<and> map_of (jn_invocations j) k = None) \<and>
     (\<forall>k. stored_call env j' k = (if k = key_of i then Some i' else stored_call env j k)) \<and>
     jn_invocation_head j' = (jn_invocation_head j)((iv_run_id i, iv_logical_call_id i) \<mapsto> iv_revision i) \<and>
     (jn_invocation_head j (iv_run_id i, iv_logical_call_id i) = None \<and> iv_revision i = 1 \<and>
        iv_dispatch_attempt i = 1 \<and> iv_dispatch_state i = Reserved \<or>
      (\<exists>n p. jn_invocation_head j (iv_run_id i, iv_logical_call_id i) = Some n \<and>
         stored_call env j (iv_run_id i, iv_logical_call_id i, n) = Some p \<and> iv_revision i = n + 1 \<and> call_step p i \<and>
         (iv_dispatch_state p \<in> {Settled, DispatchUnknown} \<longrightarrow> \<not> dispatch_id_was_used env j i)))"

lemma stored_call_row: "stored_call env j k = Some a \<Longrightarrow> map_of (jn_invocations j) k \<noteq> None"
  by (auto simp: stored_call_def split: option.splits)

lemma covered:
  assumes "heads_cover j"
  shows "map_of (jn_invocations j) (run, call, n) \<noteq> None \<longleftrightarrow> (\<exists>h. jn_invocation_head j (run, call) = Some h \<and> 1 \<le> n \<and> n \<le> h)"
    and "jn_invocation_head j c = Some h \<Longrightarrow> 1 \<le> h"
  using assms unfolding heads_cover_def by blast+

lemma appended_cover:
  assumes "appended env i i' j j'" and "heads_cover j"
  shows "heads_cover j'"
proof -
  note a = assms(1) [unfolded appended_def] and cov = covered [OF assms(2)]
  have kk: "key_of i = (iv_run_id i, iv_logical_call_id i, iv_revision i)" by (simp add: key_of_def)
  have "map_of (jn_invocations j') (run, call, n) \<noteq> None \<longleftrightarrow>
      (\<exists>h. jn_invocation_head j' (run, call) = Some h \<and> 1 \<le> n \<and> n \<le> h)" for run call n
  proof (cases "(run, call) = (iv_run_id i, iv_logical_call_id i)")
    case True
    then show ?thesis
      using a cov(1) [of run call n] cov(2) [of "(iv_run_id i, iv_logical_call_id i)"] by (auto simp: kk)
  next
    case False
    then show ?thesis using a cov(1) [of run call n] by (auto simp: kk)
  qed
  then show ?thesis using cov(2) a by (auto simp: heads_cover_def)
qed

lemma appended_chained:
  assumes app: "appended env i i' j j'" and cover: "heads_cover j" and chain: "chained env j"
  shows "chained env j'"
proof -
  note a = app [unfolded appended_def] and cov = covered [OF cover]
  have kk: "key_of i = (iv_run_id i, iv_logical_call_id i, iv_revision i)" by (simp add: key_of_def)
  have st: "stored_call env j' k = (if k = key_of i then Some i' else stored_call env j k)" for k using a by blast
  note same = same_call_fields [OF a [THEN conjunct1]]
  have step: "call_step p i' = call_step p i" for p by (simp add: call_step_def same)
  have first: "iv_dispatch_attempt x = 1 \<and> iv_dispatch_state x = Reserved"
    if x: "stored_call env j' (run, call, 1) = Some x" for run call x
  proof (cases "(run, call, 1) = key_of i")
    case True
    then have "iv_revision i = 1" by (simp add: kk)
    then have "iv_dispatch_attempt i = 1 \<and> iv_dispatch_state i = Reserved" using a cov(2) by fastforce
    then show ?thesis using x True same by (auto simp: st)
  next
    case False
    with x chain show ?thesis by (auto simp: st chained_def)
  qed
  have "call_step x y" if x: "stored_call env j' (run, call, n) = Some x" and y: "stored_call env j' (run, call, n + 1) = Some y"
    for run call n x y
  proof (cases "(run, call, n + 1) = key_of i")
    case True
    then have c: "run = iv_run_id i" "call = iv_logical_call_id i" "iv_revision i = n + 1" by (simp_all add: kk)
    have x': "stored_call env j (run, call, n) = Some x" using x c by (auto simp: st kk split: if_splits)
    then obtain h where "jn_invocation_head j (run, call) = Some h" using stored_call_row cov(1) by blast
    with a c x' have "call_step x i" by auto
    moreover have "y = i'" using y True by (simp add: st)
    ultimately show ?thesis by (simp only: step)
  next
    case False
    then have y': "stored_call env j (run, call, n + 1) = Some y" using y by (simp add: st)
    then obtain h where h: "jn_invocation_head j (run, call) = Some h" "n + 1 \<le> h" using stored_call_row cov(1) by blast
    have "(run, call, n) \<noteq> key_of i" using h a by (auto simp: kk)
    with x y' chain show ?thesis by (auto simp: st chained_def)
  qed
  with first show ?thesis unfolding chained_def by blast
qed

lemma appended_fresh:
  assumes app: "appended env i i' j j'" and sound: "rows_sound env j" and cover: "heads_cover j" and fresh: "ids_fresh env j"
  shows "ids_fresh env j'"
proof -
  note a = app [unfolded appended_def] and cov = covered [OF cover]
  note same = same_call_fields [OF a [THEN conjunct1]]
  have st: "stored_call env j' k = (if k = key_of i then Some i' else stored_call env j k)" for k using a by blast
  have new: "iv_dispatch_attempt x = iv_dispatch_attempt i"
    if x: "stored_call env j (iv_run_id i, iv_logical_call_id i, n) = Some x" "iv_dispatch_id x = iv_dispatch_id i" for n x
  proof -
    obtain h where "jn_invocation_head j (iv_run_id i, iv_logical_call_id i) = Some h"
      using stored_call_row [OF x(1)] cov(1) by blast
    with a obtain m p where p: "stored_call env j (iv_run_id i, iv_logical_call_id i, m) = Some p" "call_step p i"
      "iv_dispatch_state p \<in> {Settled, DispatchUnknown} \<longrightarrow> \<not> dispatch_id_was_used env j i" by auto
    show ?thesis
    proof (cases "iv_dispatch_state p \<in> {Settled, DispatchUnknown}")
      case True
      with p(3) used_id [OF sound _ x(1)] x(2) show ?thesis by blast
    next
      case False
      then have "iv_dispatch_id p = iv_dispatch_id i" "iv_dispatch_attempt p = iv_dispatch_attempt i"
        using p(2) by (auto simp: call_step_def)
      with fresh p(1) x show ?thesis unfolding ids_fresh_def by metis
    qed
  qed
  have old: "iv_dispatch_attempt x = iv_dispatch_attempt y"
    if "stored_call env j (run, call, n) = Some x" "stored_call env j (run, call, m) = Some y" "iv_dispatch_id x = iv_dispatch_id y"
    for run call n m x y using fresh that unfolding ids_fresh_def by blast
  have kk: "key_of i = (iv_run_id i, iv_logical_call_id i, iv_revision i)" by (simp add: key_of_def)
  show ?thesis unfolding ids_fresh_def
  proof (intro allI impI)
    fix run call n m x y
    assume x: "stored_call env j' (run, call, n) = Some x" and y: "stored_call env j' (run, call, m) = Some y"
      and e: "iv_dispatch_id x = iv_dispatch_id y"
    consider (xy) "(run, call, n) = key_of i" "(run, call, m) = key_of i"
      | (x) "(run, call, n) = key_of i" "(run, call, m) \<noteq> key_of i"
      | (y) "(run, call, n) \<noteq> key_of i" "(run, call, m) = key_of i"
      | (none) "(run, call, n) \<noteq> key_of i" "(run, call, m) \<noteq> key_of i" by blast
    then show "iv_dispatch_attempt x = iv_dispatch_attempt y"
    proof cases
      case xy
      with x y show ?thesis by (simp add: st)
    next
      case x
      with \<open>stored_call env j' (run, call, n) = Some x\<close> y have "x = i'" "stored_call env j (run, call, m) = Some y"
        by (simp_all add: st)
      with new [of m y] x e same show ?thesis by (simp add: kk)
    next
      case y
      with \<open>stored_call env j' (run, call, m) = Some y\<close> x have "y = i'" "stored_call env j (run, call, n) = Some x"
        by (simp_all add: st)
      with new [of n x] y e same show ?thesis by (simp add: kk)
    next
      case none
      with x y have "stored_call env j (run, call, n) = Some x" "stored_call env j (run, call, m) = Some y" by (simp_all add: st)
      from old [OF this e] show ?thesis .
    qed
  qed
qed

lemma revision_appended:
  assumes "calls_ok env j" and "env_ok env" and "submittable env i" and "revision_admitted env i blobs stage j payload"
    and "jn_invocations j' = (key_of i, invocation_row env i payload (record_digest env payload blobs) blobs) # jn_invocations j"
    and "jn_invocation_head j' = (jn_invocation_head j)((iv_run_id i, iv_logical_call_id i) \<mapsto> iv_revision i)"
  obtains i' where "appended env i i' j j'" "calls_ok env j'"
proof -
  note adm = assms(4) [unfolded revision_admitted_def]
  have p: "payload_for_write env i = Inr payload" "\<forall>(k, v) \<in> set blobs. recorded_digest k \<and> je_bsha env v = k"
    using adm by auto
  from new_row_decodes(2) [OF assms(2,3) p] obtain i' where
    d: "decoded_row env (key_of i) (invocation_row env i payload (record_digest env payload blobs) blobs) = Some i'" "same_call i' i"
    by blast
  have sound: "rows_sound env j" "heads_cover j" "chained env j" "ids_fresh env j"
    using assms(1) by (simp_all add: calls_ok_def)
  have tr: "invocation_transition_winner env j i = Inr None" using adm by simp
  have app: "appended env i i' j j'"
    unfolding appended_def using adm d assms(5,6) transition_admitted [OF tr]
    by (auto simp: stored_call_def)
  have "spells payload i" "good_val (je_cfg env) (PDict payload)" using submitted_payload [OF assms(2,3)] p(1) by auto
  moreover have "spells payload i' \<longleftrightarrow> spells payload i"
    using same_call_fields [OF d(2)] by (simp add: spells_def)
  ultimately have "rows_sound env j'"
    using sound(1) adm d same_call_fields(1) [OF d(2)]
    by (auto simp: rows_sound_def assms(5) map_of_eq_None_iff invocation_row_def)
  with appended_cover [OF app sound(2)] appended_chained [OF app sound(2,3)] appended_fresh [OF app sound(1,2,4)]
  show ?thesis using app by (intro that) (simp_all add: calls_ok_def)
qed

section \<open>Results and evidence of settled calls\<close>

text \<open>Every result a stored call refers to can be read with its content verified, and the outbox
  holds exactly the settled calls of the outbox policy, each with the payload of its revision.\<close>

definition results_ok :: "journal_env \<Rightarrow> journal \<Rightarrow> bool" where
  "results_ok env j \<longleftrightarrow> blobs_ok env (jn_blobs j) \<and>
     (\<forall>k i sha. stored_call env j k = Some i \<longrightarrow> sha \<in> set (result_references i) \<longrightarrow>
        associated_blob_is_valid env j (iv_run_id i) sha)"

definition outbox_ok :: "journal_env \<Rightarrow> journal \<Rightarrow> bool" where
  "outbox_ok env j \<longleftrightarrow>
     (\<forall>k. map_of (jn_outbox j) k \<noteq> None \<longleftrightarrow>
        (\<exists>i. stored_call env j k = Some i \<and> iv_dispatch_state i = Settled \<and> iv_evidence_policy i = OutboxEvidence)) \<and>
     (\<forall>k r. map_of (jn_outbox j) k = Some r \<longrightarrow> (\<exists>row. map_of (jn_invocations j) k = Some row \<and> sr_payload r = sr_payload row))"

definition sound :: "journal_env \<Rightarrow> journal \<Rightarrow> bool" where
  "sound env j \<longleftrightarrow> calls_ok env j \<and> results_ok env j \<and> outbox_ok env j"

lemma stored_call_cong: "jn_invocations j = jn_invocations j' \<Longrightarrow> stored_call env j = stored_call env j'"
  by (rule ext) (simp add: stored_call_def)

lemma calls_ok_cong:
  "jn_invocations j = jn_invocations j' \<Longrightarrow> jn_invocation_head j = jn_invocation_head j' \<Longrightarrow> calls_ok env j = calls_ok env j'"
  by (simp add: calls_ok_def rows_sound_def heads_cover_def chained_def ids_fresh_def stored_call_def)

lemma outbox_ok_cong:
  "jn_invocations j = jn_invocations j' \<Longrightarrow> jn_outbox j = jn_outbox j' \<Longrightarrow> outbox_ok env j = outbox_ok env j'"
  by (simp add: outbox_ok_def stored_call_def)

lemma associated_mono:
  assumes "associated_blob_is_valid env j run sha" and "jn_blobs j \<subseteq>\<^sub>m jn_blobs j'"
    and "jn_run_blobs j run sha \<Longrightarrow> jn_run_blobs j' run sha"
  shows "associated_blob_is_valid env j' run sha"
proof -
  from assms(1) obtain n c where c: "jn_blobs j sha = Some (n, c)" "n = int (length c)" "je_bsha env c = sha"
    by (auto simp: associated_blob_is_valid_def split: option.splits)
  with assms(2) have "jn_blobs j' sha = Some (n, c)" by (simp add: map_le_def) (metis domI)
  with c assms(1,3) show ?thesis by (simp add: associated_blob_is_valid_def)
qed

lemma results_ok_mono:
  assumes "results_ok env j" and "jn_invocations j = jn_invocations j'" and "jn_blobs j \<subseteq>\<^sub>m jn_blobs j'"
    and "\<forall>run k. jn_run_blobs j run k \<longrightarrow> jn_run_blobs j' run k" and "blobs_ok env (jn_blobs j')"
  shows "results_ok env j'"
  unfolding results_ok_def
proof (intro conjI allI impI)
  fix k i sha assume "stored_call env j' k = Some i" "sha \<in> set (result_references i)"
  then have "associated_blob_is_valid env j (iv_run_id i) sha"
    using assms(1) stored_call_cong [OF assms(2)] unfolding results_ok_def by metis
  from associated_mono [OF this assms(3)] assms(4) show "associated_blob_is_valid env j' (iv_run_id i) sha" by blast
qed (rule assms(5))

lemma sound_others:
  assumes "concurrent_ok env tx" and "sound env j"
  shows "sound env (others tx j)"
proof -
  have "calls_ok env (others tx j)" "outbox_ok env (others tx j)"
    using assms(2) calls_ok_cong [of "others tx j" j] outbox_ok_cong [of "others tx j" j] by (simp_all add: sound_def others_def)
  moreover have "results_ok env (others tx j)"
    by (rule results_ok_mono [of env j]) (use assms in \<open>auto simp: sound_def others_def concurrent_ok_def results_ok_def\<close>)
  ultimately show ?thesis by (simp add: sound_def)
qed

text \<open>A fresh revision keeps all of it.\<close>

lemma appended_results:
  assumes "results_ok env j1" and "same_call i' i"
    and st: "\<And>k. stored_call env j' k = (if k = key_of i then Some i' else stored_call env j1 k)"
    and mono: "\<And>run sha. associated_blob_is_valid env j1 run sha \<Longrightarrow> associated_blob_is_valid env j' run sha"
    and new: "\<And>sha. sha \<in> set (result_references i) \<Longrightarrow> associated_blob_is_valid env j' (iv_run_id i) sha"
    and "blobs_ok env (jn_blobs j')"
  shows "results_ok env j'"
  unfolding results_ok_def
proof (intro conjI allI impI)
  fix k x sha assume x: "stored_call env j' k = Some x" and sha: "sha \<in> set (result_references x)"
  show "associated_blob_is_valid env j' (iv_run_id x) sha"
  proof (cases "k = key_of i")
    case True
    then have "x = i'" using x by (simp add: st)
    with sha new show ?thesis by (simp add: result_references_def same_call_fields [OF assms(2)])
  next
    case False
    then have "stored_call env j1 k = Some x" using x by (simp add: st)
    then have "associated_blob_is_valid env j1 (iv_run_id x) sha" using assms(1) sha unfolding results_ok_def by blast
    then show ?thesis by (rule mono)
  qed
qed (rule assms)

lemma appended_outbox:
  assumes "outbox_ok env j1" and "map_of (jn_invocations j1) (key_of i) = None"
    and st: "\<And>k. stored_call env j' k = (if k = key_of i then Some i' else stored_call env j1 k)"
    and "jn_outbox j' = (if stage then [(key_of i, ev)] else []) @ jn_outbox j1"
    and "jn_invocations j' = (key_of i, row) # jn_invocations j1" and "sr_payload ev = sr_payload row"
    and "stage \<longleftrightarrow> iv_dispatch_state i' = Settled \<and> iv_evidence_policy i' = OutboxEvidence"
  shows "outbox_ok env j'"
proof -
  have none: "stored_call env j1 (key_of i) = None" by (simp add: stored_call_def assms(2))
  have o1: "map_of (jn_outbox j1) k \<noteq> None \<longleftrightarrow>
      (\<exists>i. stored_call env j1 k = Some i \<and> iv_dispatch_state i = Settled \<and> iv_evidence_policy i = OutboxEvidence)"
    "map_of (jn_outbox j1) k = Some r \<Longrightarrow> \<exists>row. map_of (jn_invocations j1) k = Some row \<and> sr_payload r = sr_payload row" for k r
    using assms(1) unfolding outbox_ok_def by blast+
  have no: "map_of (jn_outbox j1) (key_of i) = None" using o1(1) [of "key_of i"] none by simp
  show ?thesis unfolding outbox_ok_def
  proof (intro conjI allI impI)
    fix k
    show "map_of (jn_outbox j') k \<noteq> None \<longleftrightarrow>
        (\<exists>i. stored_call env j' k = Some i \<and> iv_dispatch_state i = Settled \<and> iv_evidence_policy i = OutboxEvidence)"
      using o1(1) [of k] no assms(7) by (cases "k = key_of i") (auto simp: st assms(4))
    fix r assume "map_of (jn_outbox j') k = Some r"
    then show "\<exists>row. map_of (jn_invocations j') k = Some row \<and> sr_payload r = sr_payload row"
      using o1(2) [of k r] no assms(6) by (cases "k = key_of i") (auto simp: assms(4,5) split: if_splits)
  qed
qed

lemma new_revision_sound:
  assumes ok: "sound env j1" and env: "env_ok env" and sub: "submittable env i"
    and same: "jn_invocations j = jn_invocations j1" "jn_invocation_head j = jn_invocation_head j1"
    and behind: "jn_blobs j \<subseteq>\<^sub>m jn_blobs j1" "jn_run_blobs j = jn_run_blobs j1"
    and adm: "revision_admitted env i blobs stage j payload"
    and w: "write_revision env i payload (record_digest env payload blobs) blobs stage j1 = Inr (Some (j', r, d))"
  shows "sound env j' \<and> extends j1 j'"
proof -
  let ?row = "invocation_row env i payload (record_digest env payload blobs) blobs"
  from write_revision_effect [OF w] obtain b a ob where
    j': "j' = (with_revision env i payload (record_digest env payload blobs) blobs j1)\<lparr>jn_blobs := b, jn_run_blobs := a, jn_outbox := ob\<rparr>"
    and new: "map_of (jn_invocations j1) (key_of i) = None"
    and ba: "jn_blobs j1 \<subseteq>\<^sub>m b" "\<forall>run k. jn_run_blobs j1 run k \<longrightarrow> a run k"
      "\<forall>(k, v) \<in> set blobs. b k = Some (int (length v), v) \<and> a (iv_run_id i) k"
      "(\<forall>(k, v) \<in> set blobs. je_bsha env v = k) \<longrightarrow> blobs_ok env (jn_blobs j1) \<longrightarrow> blobs_ok env b"
    and ob: "if stage then (\<exists>p. payload_for_write env i = Inr p \<and> map_of (jn_outbox j1) (key_of i) = None \<and>
         ob = (key_of i, evidence_row i p (record_only_digest env p)) # jn_outbox j1) else ob = jn_outbox j1" .
  have inv': "jn_invocations j' = (key_of i, ?row) # jn_invocations j"
    "jn_invocation_head j' = (jn_invocation_head j)((iv_run_id i, iv_logical_call_id i) \<mapsto> iv_revision i)"
    by (simp_all add: j' with_revision_def same)
  have "calls_ok env j" using ok calls_ok_cong [OF same] by (simp add: sound_def)
  from revision_appended [OF this env sub adm inv'] obtain i' where app: "appended env i i' j j'" and calls: "calls_ok env j'" .
  have st: "stored_call env j' k = (if k = key_of i then Some i' else stored_call env j1 k)" for k
    using app unfolding appended_def stored_call_cong [OF same(1)] by blast
  have sc: "same_call i' i" using app by (simp add: appended_def)
  note f = same_call_fields [OF sc]
  have bok: "blobs_ok env b" using ba(4) adm ok by (auto simp: revision_admitted_def sound_def results_ok_def)
  have mono: "associated_blob_is_valid env j' run sha" if "associated_blob_is_valid env j1 run sha" for run sha
    using associated_mono [OF that, of j'] ba(1,2) by (simp add: j' with_revision_def)
  have "results_ok env j'"
  proof (rule appended_results [OF _ sc st mono])
    fix sha assume "sha \<in> set (result_references i)"
    with adm have "sha \<in> fst ` set blobs \<or> associated_blob_is_valid env j (iv_run_id i) sha"
      by (auto simp: revision_admitted_def references_resolve_def list_all_iff)
    then show "associated_blob_is_valid env j' (iv_run_id i) sha"
    proof
      assume "sha \<in> fst ` set blobs"
      then obtain v where v: "(sha, v) \<in> set blobs" by auto
      with ba(3) adm have "b sha = Some (int (length v), v)" "a (iv_run_id i) sha" "je_bsha env v = sha" "recorded_digest sha"
        by (auto simp: revision_admitted_def)
      then show ?thesis by (simp add: associated_blob_is_valid_def j')
    next
      assume "associated_blob_is_valid env j (iv_run_id i) sha"
      from associated_mono [OF this behind(1)] behind(2) mono show ?thesis by simp
    qed
  qed (use bok ok in \<open>simp_all add: sound_def j'\<close>)
  moreover have "outbox_ok env j'"
  proof (rule appended_outbox [where stage = stage and ev = "evidence_row i payload (record_only_digest env payload)" and row = ?row, OF _ new st])
    show "jn_outbox j' = (if stage then [(key_of i, evidence_row i payload (record_only_digest env payload))] else []) @ jn_outbox j1"
      using ob adm by (auto simp: revision_admitted_def j')
    show "stage \<longleftrightarrow> iv_dispatch_state i' = Settled \<and> iv_evidence_policy i' = OutboxEvidence"
      using adm by (auto simp: revision_admitted_def stage_flag_ok_def f split: if_splits)
  qed (use ok inv'(1) same in \<open>simp_all add: sound_def evidence_row_def invocation_row_def\<close>)
  moreover have "grows (jn_invocations j1) (jn_invocations j')"
    using new by (simp add: j' with_revision_def grows_Cons)
  moreover have "grows (jn_outbox j1) ob"
    using ob by (auto intro: grows_Cons split: if_splits)
  ultimately show ?thesis using calls ba
    by (simp add: sound_def extends_def j' with_revision_def run_events_def)
qed

section \<open>Mutations keep the journal sound\<close>

definition calls_evolve :: "journal_env \<Rightarrow> journal \<Rightarrow> journal \<Rightarrow> bool" where
  "calls_evolve env j j' \<longleftrightarrow> extends j j' \<and> (sound env j \<longrightarrow> sound env j')"

lemma calls_evolve_refl [simp]: "calls_evolve env j j"
  by (simp add: calls_evolve_def)

lemma calls_evolve_trans: "calls_evolve env a b \<Longrightarrow> calls_evolve env b c \<Longrightarrow> calls_evolve env a c"
  by (auto simp: calls_evolve_def intro: extends_trans)

lemma calls_evolve_others: "concurrent_ok env tx \<Longrightarrow> calls_evolve env j (others tx j)"
  by (simp add: calls_evolve_def sound_others)

lemma write_revision_extends:
  assumes "write_revision env i payload digest blobs stage j = Inr (Some (j', r, d))"
  shows "extends j j'"
  using assms
proof (rule write_revision_effect)
  fix b a ob
  assume j': "j' = (with_revision env i payload digest blobs j)\<lparr>jn_blobs := b, jn_run_blobs := a, jn_outbox := ob\<rparr>"
    and new: "map_of (jn_invocations j) (key_of i) = None"
    and ba: "jn_blobs j \<subseteq>\<^sub>m b" "\<forall>run k. jn_run_blobs j run k \<longrightarrow> a run k"
    and ob: "if stage then (\<exists>p. payload_for_write env i = Inr p \<and> map_of (jn_outbox j) (key_of i) = None \<and>
         ob = (key_of i, evidence_row i p (record_only_digest env p)) # jn_outbox j) else ob = jn_outbox j"
  have "grows (jn_outbox j) ob" using ob by (auto intro: grows_Cons split: if_splits)
  then show ?thesis using new ba by (simp add: extends_def j' with_revision_def grows_Cons run_events_def)
qed

text \<open>The tables of events and terminal records are not touched.\<close>

definition public_unchanged :: "journal \<Rightarrow> journal \<Rightarrow> bool" where
  "public_unchanged j j' \<longleftrightarrow> jn_events j' = jn_events j \<and> jn_event_head j' = jn_event_head j \<and>
     jn_terminals j' = jn_terminals j \<and> jn_checkpoints j' = jn_checkpoints j \<and> jn_checkpoint_head j' = jn_checkpoint_head j"

lemma locked_invocation_calls_evolve:
  assumes "env_ok env" and "submittable env i" and "concurrent_ok env tx"
    and "commit_invocation_locked env i blobs stage j (others tx j) = Inr (Some (j', r, d))"
  shows "calls_evolve env (others tx j) j' \<and> public_unchanged (others tx j) j'"
  using locked_cases [OF assms(4)]
proof
  assume "j' = others tx j \<and> cr_status r \<noteq> Committed"
  then show ?thesis by (simp add: public_unchanged_def)
next
  assume "\<exists>payload. revision_admitted env i blobs stage j payload \<and>
     write_revision env i payload (record_digest env payload blobs) blobs stage (others tx j) = Inr (Some (j', r, d))"
  then obtain payload where adm: "revision_admitted env i blobs stage j payload"
    and w: "write_revision env i payload (record_digest env payload blobs) blobs stage (others tx j) = Inr (Some (j', r, d))" by blast
  have "sound env j'" if "sound env (others tx j)"
    using new_revision_sound [OF that assms(1,2) _ _ _ _ adm w] assms(3)
    by (simp add: others_def concurrent_ok_def)
  moreover have "public_unchanged (others tx j) j'"
    using w by (rule write_revision_effect) (simp add: public_unchanged_def with_revision_def)
  ultimately show ?thesis using write_revision_extends [OF w] by (simp add: calls_evolve_def)
qed

lemma set_evidence_calls_evolve:
  assumes "map_of (jn_evidence j) k = None"
  shows "calls_evolve env j (set_evidence False ((k, r) # jn_evidence j) j)"
proof -
  have "sound env (set_evidence False ((k, r) # jn_evidence j) j) = sound env j"
    using calls_ok_cong [of "set_evidence False ((k, r) # jn_evidence j) j" j env]
      outbox_ok_cong [of "set_evidence False ((k, r) # jn_evidence j) j" j env]
      stored_call_cong [of "set_evidence False ((k, r) # jn_evidence j) j" j env]
    by (simp add: sound_def set_evidence_def results_ok_def associated_blob_is_valid_def)
  then show ?thesis using assms by (simp add: calls_evolve_def extends_def set_evidence_def grows_Cons run_events_def)
qed

lemma public_unchanged_simps [simp]: "public_unchanged j j" "public_unchanged j (set_evidence b t j)"
  by (simp_all add: public_unchanged_def set_evidence_def)

lemma locked_evidence_calls_evolve:
  assumes "commit_evidence_locked env i False j = Inr (Some (j', r, d))"
  shows "calls_evolve env j j' \<and> public_unchanged j j'"
  using evidence_effect [OF assms]
  by (elim disjE exE conjE) (simp_all add: set_evidence_calls_evolve)

text \<open>What a load returns on a sound journal: the head revision of the call, and nothing else.\<close>

lemma load_sound:
  assumes "sound env j" and "opaque_id run" and "opaque_id call"
  shows "\<exists>l. load_invocation env True j run call = Inr l \<and>
    (case jn_invocation_head j (run, call) of
       None \<Rightarrow> l = codec_missing MODEL_INVOCATION_CODEC
     | Some n \<Rightarrow> \<exists>i. stored_call env j (run, call, n) = Some i \<and> key_of i = (run, call, n) \<and> lr_ok l \<and>
         lr_value l = Some \<lparr>ir_revision = n, ir_invocation = i\<rparr>)"
proof (cases "jn_invocation_head j (run, call)")
  case None
  then show ?thesis using assms by (simp add: load_invocation_def invocation_head_def)
next
  case (Some n)
  have c: "rows_sound env j" "heads_cover j" using assms(1) by (simp_all add: sound_def calls_ok_def)
  from covered(2) [OF c(2) Some] covered(1) [OF c(2), of run call n] Some obtain r
    where r: "map_of (jn_invocations j) (run, call, n) = Some r" by auto
  then obtain i where i: "decoded_row env (run, call, n) r = Some i" and k: "key_of i = (run, call, n)"
    using c(1) by (auto simp: rows_sound_def dest!: map_of_SomeD)
  from i have b: "row_bound env (run, call, n) r" and d: "lr_ok (decode_stored env (sr_payload r))"
    "lr_value (decode_stored env (sr_payload r)) = Some i"
    by (auto simp: decoded_row_def Let_def split: if_splits)
  have "stored_call env j (run, call, n) = Some i" using r i by (simp add: stored_call_def)
  moreover have "load_invocation env True j run call =
      Inr (lr_map (\<lambda>i. \<lparr>ir_revision = n, ir_invocation = i\<rparr>) ((decode_stored env (sr_payload r))\<lparr>lr_sequence := Some n\<rparr>))"
    using assms(2,3) Some r b d k by (simp add: load_invocation_def invocation_head_def Let_def lr_ok_def)
  ultimately show ?thesis using Some k d by (auto simp: lr_ok_def lr_map_def)
qed

section \<open>Admitted revisions commit\<close>

lemma make_commit_result_ok:
  assumes "env_ok env" and "is_portable_json_integer (je_cfg env) (IInt n)" and "0 \<le> n"
  shows "\<exists>r. make_commit_result (je_cfg env) st (Some n) (bound_digest env p ps) [] = Inr r \<and> cr_status r = st \<and>
    cr_sequence r = Some n \<and> cr_content_digest r = bound_digest env p ps"
  using assms by (simp add: make_commit_result_def Let_def commit_result_valid_def env_ok_def bound_digest_def)

lemma submitted_portable:
  assumes "env_ok env" and "submittable env i"
  shows "is_portable_json_integer (je_cfg env) (IInt (iv_revision i)) \<and> 1 \<le> iv_revision i"
  using assms(2) unfolding submittable_def
proof (elim disjE exE conjE)
  assume "make_invocation (je_va env) (je_cfg env) i = Inr i"
  then show ?thesis by (simp add: make_invocation_fixed members_ok_def)
next
  fix p assume "wf_val (PDict p)" "lr_value (decode_stored env p) = Some i"
  from decode_value [OF this(1) this(2) [unfolded decode_stored_def]] obtain src
    where n: "norm_val False (PDict p) = PDict src" and l: "model_invocation_from_payload (je_va env) (je_cfg env) (je_sha env) src = Inr i" by blast
  have "wf_val (PDict src)" using wf_norm_val [OF \<open>wf_val (PDict p)\<close>, of False] unfolding n .
  from loader_result [OF _ _ this l] assms(1) show ?thesis by (simp add: env_ok_def make_invocation_fixed members_ok_def)
qed

lemma persist_all_succeeds:
  assumes "distinct (map fst bs)" and "\<forall>(k, v) \<in> set bs. jn_blobs j k = None \<or> jn_blobs j k = Some (int (length v), v)"
  shows "\<exists>j'. persist_all run bs j = Some j'"
  using assms
proof (induction run bs j rule: persist_all.induct)
  case (2 run kv bs j)
  obtain k v where kv: "kv = (k, v)" by (cases kv)
  from 2(3) kv obtain j1 where j1: "persist_blob run (k, v) j = Some j1" by (auto simp: persist_blob_def)
  have same: "jn_blobs j1 k' = jn_blobs j k'" if "k' \<noteq> k" for k'
    using j1 that by (auto simp: persist_blob_def split: option.splits if_splits)
  have "\<forall>(k', v') \<in> set bs. jn_blobs j1 k' = None \<or> jn_blobs j1 k' = Some (int (length v'), v')"
  proof (intro ballI)
    fix x assume x: "x \<in> set bs"
    then have "fst x \<noteq> k" using 2(2) kv by force
    with 2(3) x same [of "fst x"] show "case x of (k', v') \<Rightarrow> jn_blobs j1 k' = None \<or> jn_blobs j1 k' = Some (int (length v'), v')"
      by (cases x) auto
  qed
  with 2(1) [of j1] j1 kv 2(2) show ?case by simp
qed simp

lemma persist_blobs_succeed:
  assumes "distinct (map fst blobs)" and "submitted_blobs_preserve_backing j blobs"
  shows "\<exists>j'. persist_blobs run blobs j = Some j'"
  unfolding persist_blobs_def
proof (rule persist_all_succeeds)
  show "distinct (map fst (sort_key fst blobs))"
    using assms(1) by (metis distinct_map distinct_sort inj_on_image set_sort)
  show "\<forall>(k, v) \<in> set (sort_key fst blobs). jn_blobs j k = None \<or> jn_blobs j k = Some (int (length v), v)"
  proof (intro ballI)
    fix x assume "x \<in> set (sort_key fst blobs)"
    with assms(2) have "case x of (k, v) \<Rightarrow> case jn_blobs j k of None \<Rightarrow> True | Some (n, c) \<Rightarrow> n = int (length v) \<and> c = v"
      by (simp add: submitted_blobs_preserve_backing_def list_all_iff)
    then show "case x of (k, v) \<Rightarrow> jn_blobs j k = None \<or> jn_blobs j k = Some (int (length v), v)"
      by (cases x) (auto split: option.splits)
  qed
qed

lemma staged_evidence_commits:
  assumes env: "env_ok env" and sub: "submittable env i" and p: "payload_for_write env i = Inr payload"
    and blobs: "\<forall>(k, v) \<in> set blobs. recorded_digest k \<and> je_bsha env v = k" and flag: "stage_flag_ok i True"
    and new: "map_of (jn_outbox j) (key_of i) = None"
    and inv: "map_of (jn_invocations j) (key_of i) = Some (invocation_row env i payload (record_digest env payload blobs) blobs)"
    and head: "jn_invocation_head j (iv_run_id i, iv_logical_call_id i) = Some (iv_revision i)"
  shows "\<exists>j' c d. commit_evidence_locked env i True j = Inr (Some (j', c, d)) \<and> cr_status c = Committed"
proof -
  let ?d = "record_only_digest env payload"
  from new_row_decodes(2) [OF env sub p blobs] obtain i' where
    i': "decoded_row env (key_of i) (invocation_row env i payload (record_digest env payload blobs) blobs) = Some i'" "same_call i' i" by blast
  have kk: "key_of i = (iv_run_id i, iv_logical_call_id i, iv_revision i)" by (simp add: key_of_def)
  have c: "checked_invocation_head env j (iv_run_id i) (iv_logical_call_id i) = Some (i', ?d)"
    using i' same_call_fields(1) [OF i'(2)] head inv
    by (simp add: checked_invocation_head_def invocation_head_def kk invocation_row_def)
  have e: "evidence_coordinate env j i payload ?d True = Inr None"
    using new by (simp add: evidence_coordinate_def stored_result_None)
  have "\<exists>r. make_commit_result (je_cfg env) Committed (Some (iv_revision i)) ?d [] = Inr r \<and> cr_status r = Committed"
    using make_commit_result_ok [OF env, of "iv_revision i"] submitted_portable [OF env sub]
    by (force simp: record_only_digest_def record_digest_def)
  then show ?thesis
    using flag p c e new by (auto simp: commit_evidence_locked_def Let_def or_conflict_def stage_flag_ok_def insert_row_def)
qed

lemma write_succeeds:
  assumes ok: "sound env j" and env: "env_ok env" and sub: "submittable env i"
    and adm: "revision_admitted env i blobs stage j payload" and dist: "distinct (map fst blobs)"
  shows "\<exists>j' r. write_revision env i payload (record_digest env payload blobs) blobs stage j =
    Inr (Some (j', r, record_digest env payload blobs))"
proof -
  let ?d = "record_digest env payload blobs" and ?row = "invocation_row env i payload (record_digest env payload blobs) blobs"
  note a = adm [unfolded revision_admitted_def]
  from persist_blobs_succeed [OF dist, of j "iv_run_id i"] a obtain j1 where
    j1: "persist_blobs (iv_run_id i) blobs j = Some j1" by blast
  then obtain b ab where j1': "j1 = j\<lparr>jn_blobs := b, jn_run_blobs := ab\<rparr>" by (rule persist_blobs_effect)
  let ?j2 = "j1\<lparr>jn_invocations := (key_of i, ?row) # jn_invocations j1,
      jn_invocation_head := (jn_invocation_head j1)((iv_run_id i, iv_logical_call_id i) \<mapsto> iv_revision i)\<rparr>"
  have ins: "insert_row (key_of i) ?row (jn_invocations j1) = Inr ((key_of i, ?row) # jn_invocations j1)"
    using a by (simp add: insert_row_def j1')
  from make_commit_result_ok [OF env, of "iv_revision i" Committed payload "blob_projection env blobs"] submitted_portable [OF env sub]
  obtain r where r: "make_commit_result (je_cfg env) Committed (Some (iv_revision i)) ?d [] = Inr r" by (force simp: record_digest_def)
  show ?thesis
  proof (cases stage)
    case False
    then show ?thesis using j1 ins r by (simp add: write_revision_def Let_def)
  next
    case True
    have "stored_call env j (key_of i) = None" using a by (simp add: stored_call_def)
    then have new: "map_of (jn_outbox j) (key_of i) = None" using ok unfolding sound_def outbox_ok_def by (metis option.distinct(1))
    have "\<exists>j' c d. commit_evidence_locked env i True ?j2 = Inr (Some (j', c, d)) \<and> cr_status c = Committed"
      by (rule staged_evidence_commits [OF env sub, of payload blobs]) (use a True new in \<open>auto simp: j1'\<close>)
    then obtain j3 c d where "commit_evidence_locked env i True ?j2 = Inr (Some (j3, c, d))" "cr_status c = Committed" by blast
    then show ?thesis using j1 ins r True by (simp add: write_revision_def Let_def)
  qed
qed

lemma locked_commits:
  assumes "sound env j1" and env: "env_ok env" and sub: "submittable env i" and "distinct (map fst blobs)"
    and adm: "revision_admitted env i blobs stage j payload" and "j1 = j"
  shows "\<exists>j' r. commit_invocation_locked env i blobs stage j j1 = Inr (Some (j', r, record_digest env payload blobs)) \<and>
    write_revision env i payload (record_digest env payload blobs) blobs stage j1 = Inr (Some (j', r, record_digest env payload blobs))"
proof -
  let ?d = "record_digest env payload blobs"
  note a = adm [unfolded revision_admitted_def]
  have v: "validated_blobs env blobs = Some blobs" using a by (auto simp: validated_blobs_def list_all_iff)
  have c: "invocation_coordinate env j i payload ?d = Inr None" using a by (simp add: invocation_coordinate_def stored_result_None)
  have "commit_invocation_locked env i blobs stage j j1 = write_revision env i payload ?d blobs stage j1"
    using a v c by (simp add: commit_invocation_locked_def Let_def or_conflict_def)
  with write_succeeds [of env j i blobs stage payload] assms show ?thesis by auto
qed

end
