(* ===== verification/Terminal_Outcome.thy ===== *)
theory Terminal_Outcome
  imports Safe_Evidence Run_Results
begin

text \<open>
  The final meaning of a run (\<open>core/outcome.py\<close>): the outcome record with its constructor checks and
  wire form, and its projection from the suspension a pump returned.
\<close>

section \<open>Vocabulary\<close>

definition TERMINAL_OUTCOME_SCHEMA_VERSION :: string where
  "TERMINAL_OUTCOME_SCHEMA_VERSION = namespaced_id ''terminal-outcome.v1''"

definition ACCEPTED_TERMINAL_OUTCOME_SCHEMA_VERSIONS :: "string list" where
  "ACCEPTED_TERMINAL_OUTCOME_SCHEMA_VERSIONS = accepted_namespaced_ids ''terminal-outcome.v1''"

definition TerminalOutcomeKind :: "string list" where
  "TerminalOutcomeKind = [''completed'', ''paused'', ''limited'', ''cancelled'', ''interrupted'',
     ''failed_retryable'', ''failed_config'', ''failed_terminal'', ''dispatch_unknown'', ''evidence_uncommitted'']"

definition TERMINAL_OUTCOME_FIELDS :: "string list" where
  "TERMINAL_OUTCOME_FIELDS = [''schema_version'', ''run_id'', ''kind'', ''retry_eligibility'', ''interruption_cause'',
     ''checkpoint_seq'', ''final_output_ref'', ''partial_output_ref'', ''last_evidence_ref'', ''error_code'',
     ''provider_error_code'', ''http_status'']"

datatype RetryEligibility = NOT_APPLICABLE | SAFE | AFTER_CONFIGURATION | AFTER_RECONCILIATION | FORBIDDEN

fun retry_value :: "RetryEligibility \<Rightarrow> string" where
  "retry_value NOT_APPLICABLE = ''not_applicable''"
| "retry_value SAFE = ''safe''"
| "retry_value AFTER_CONFIGURATION = ''after_configuration''"
| "retry_value AFTER_RECONCILIATION = ''after_reconciliation''"
| "retry_value FORBIDDEN = ''forbidden''"

definition RetryEligibility_of :: "string \<Rightarrow> RetryEligibility res" where
  "RetryEligibility_of s = (case find (\<lambda>r. retry_value r = s)
       [NOT_APPLICABLE, SAFE, AFTER_CONFIGURATION, AFTER_RECONCILIATION, FORBIDDEN] of
      Some r \<Rightarrow> Inr r
    | None \<Rightarrow> Inl (ValueError (s @ '' is not a valid RetryEligibility'')))"

definition SAFE_INTERRUPTION_CAUSES :: "InterruptionCause list" where
  "SAFE_INTERRUPTION_CAUSES = [GRACEFUL_DRAIN, HOST_SHUTDOWN, LEASE_LOST]"

section \<open>Outcomes\<close>

record terminal_outcome =
  to_schema_version :: string
  to_run_id :: string
  to_kind :: string
  to_retry_eligibility :: RetryEligibility
  to_interruption_cause :: "InterruptionCause option"
  to_checkpoint_seq :: "int option"
  to_final_output_ref :: string
  to_partial_output_ref :: string
  to_last_evidence_ref :: string
  to_error_code :: string
  to_provider_error_code :: string
  to_http_status :: "int option"

definition address_or_empty :: "string \<Rightarrow> bool" where
  "address_or_empty s \<longleftrightarrow> s = [] \<or> opaque_address s"

definition code_or_empty :: "string \<Rightarrow> bool" where
  "code_or_empty s \<longleftrightarrow> s = [] \<or> taxonomy_code s"

text \<open>\<open>__post_init__\<close>, on a record whose retry eligibility and cause are members of their enums.\<close>

definition make_outcome :: "int \<Rightarrow> terminal_outcome \<Rightarrow> terminal_outcome res" where
  "make_outcome cfg x =
     res_bind (guard (to_schema_version x \<in> set ACCEPTED_TERMINAL_OUTCOME_SCHEMA_VERSIONS)
       (ValueError ''unsupported terminal outcome schema'')) (\<lambda>_.
     res_bind (guard (opaque_id (to_run_id x))
       (ValueError ''terminal outcome run_id must be a bounded opaque id'')) (\<lambda>_.
     res_bind (guard (to_kind x \<in> set TerminalOutcomeKind)
       (ValueError ''terminal outcome kind is outside the portable vocabulary'')) (\<lambda>_.
     res_bind (guard (to_kind x = ''dispatch_unknown'' \<longrightarrow>
           to_retry_eligibility x \<in> {AFTER_RECONCILIATION, FORBIDDEN})
       (ValueError ''terminal outcome dispatch_unknown requires reconciliation or forbids retry'')) (\<lambda>_.
     res_bind (guard (to_kind x = ''limited'' \<longrightarrow> to_retry_eligibility x = FORBIDDEN)
       (ValueError ''terminal outcome limited forbids retry'')) (\<lambda>_.
     res_bind (guard (case to_checkpoint_seq x of None \<Rightarrow> True
         | Some n \<Rightarrow> is_portable_json_integer cfg (IInt n) \<and> 0 \<le> n)
       (ValueError ''terminal outcome checkpoint_seq must be a non-negative integer or null'')) (\<lambda>_.
     res_bind (guard (case to_http_status x of None \<Rightarrow> True | Some n \<Rightarrow> 100 \<le> n \<and> n \<le> 599)
       (ValueError ''terminal outcome http_status must be between 100 and 599 or null'')) (\<lambda>_.
     res_bind (guard (address_or_empty (to_final_output_ref x) \<and> address_or_empty (to_partial_output_ref x) \<and>
           address_or_empty (to_last_evidence_ref x))
       (ValueError ''terminal outcome reference must be empty or a bounded opaque address'')) (\<lambda>_.
     res_bind (guard (code_or_empty (to_error_code x) \<and> code_or_empty (to_provider_error_code x))
       (ValueError ''terminal outcome code must be empty or a bounded taxonomy code'')) (\<lambda>_.
     Inr x)))))))))"

definition opt_int :: "int option \<Rightarrow> pyval" where
  "opt_int x = (case x of None \<Rightarrow> PNone | Some n \<Rightarrow> PInt n)"

definition opt_cause :: "InterruptionCause option \<Rightarrow> pyval" where
  "opt_cause x = (case x of None \<Rightarrow> PNone | Some c \<Rightarrow> PStr (cause_value c))"

definition outcome_to_json :: "terminal_outcome \<Rightarrow> pydict" where
  "outcome_to_json x = [(''schema_version'', PStr TERMINAL_OUTCOME_SCHEMA_VERSION),
     (''run_id'', PStr (to_run_id x)), (''kind'', PStr (to_kind x)),
     (''retry_eligibility'', PStr (retry_value (to_retry_eligibility x))),
     (''interruption_cause'', opt_cause (to_interruption_cause x)),
     (''checkpoint_seq'', opt_int (to_checkpoint_seq x)),
     (''final_output_ref'', PStr (to_final_output_ref x)),
     (''partial_output_ref'', PStr (to_partial_output_ref x)),
     (''last_evidence_ref'', PStr (to_last_evidence_ref x)),
     (''error_code'', PStr (to_error_code x)),
     (''provider_error_code'', PStr (to_provider_error_code x)),
     (''http_status'', opt_int (to_http_status x))]"

definition nullable_int :: "pydict \<Rightarrow> string \<Rightarrow> int option res" where
  "nullable_int d k = (if dget d k = PNone then Inr None else res_bind (parse_int d k 0) (\<lambda>n. Inr (Some n)))"

definition outcome_from_json :: "validator \<Rightarrow> int \<Rightarrow> pyval \<Rightarrow> terminal_outcome res" where
  "outcome_from_json va cfg payload =
     res_bind (require_object va payload ''terminal outcome'') (\<lambda>d.
     res_bind (require_only_fields d TERMINAL_OUTCOME_FIELDS ''terminal outcome'') (\<lambda>_.
     res_bind (parse_str va d ''schema_version'' []) (\<lambda>sv.
     res_bind (guard (sv \<in> set ACCEPTED_TERMINAL_OUTCOME_SCHEMA_VERSIONS)
       (ValueError ''unsupported terminal outcome schema'')) (\<lambda>_.
     res_bind (if dget d ''interruption_cause'' = PNone then Inr None
               else res_bind (parse_str va d ''interruption_cause'' []) (\<lambda>s.
                 res_bind (InterruptionCause_of s) (\<lambda>c. Inr (Some c)))) (\<lambda>cause.
     res_bind (parse_str va d ''run_id'' []) (\<lambda>run.
     res_bind (parse_literal d ''kind'' TerminalOutcomeKind None) (\<lambda>kind.
     res_bind (res_bind (parse_str va d ''retry_eligibility'' []) RetryEligibility_of) (\<lambda>retry.
     res_bind (nullable_int d ''checkpoint_seq'') (\<lambda>sq.
     res_bind (parse_str va d ''final_output_ref'' []) (\<lambda>final.
     res_bind (parse_str va d ''partial_output_ref'' []) (\<lambda>part.
     res_bind (parse_str va d ''last_evidence_ref'' []) (\<lambda>evid.
     res_bind (parse_str va d ''error_code'' []) (\<lambda>ec.
     res_bind (parse_str va d ''provider_error_code'' []) (\<lambda>pec.
     res_bind (nullable_int d ''http_status'') (\<lambda>http.
     make_outcome cfg \<lparr>to_schema_version = sv, to_run_id = run, to_kind = kind, to_retry_eligibility = retry,
       to_interruption_cause = cause, to_checkpoint_seq = sq, to_final_output_ref = final,
       to_partial_output_ref = part, to_last_evidence_ref = evid, to_error_code = ec,
       to_provider_error_code = pec, to_http_status = http\<rparr>)))))))))))))))"

section \<open>Projection of a suspension\<close>

text \<open>Kind, retry eligibility and recorded cause, in the precedence of the source.\<close>

definition classify_suspension :: "suspension \<Rightarrow> string \<times> RetryEligibility \<times> InterruptionCause option" where
  "classify_suspension s = (let cause = su_interruption_cause s in
     if su_error_code s = ''evidence_uncommitted'' then (''evidence_uncommitted'', SAFE, None)
     else if su_error_code s = ''dispatch_unknown'' then (''dispatch_unknown'', AFTER_RECONCILIATION, None)
     else if su_reason s = ''interrupted'' then (''interrupted'', SAFE, cause)
     else if su_error_code s = ''cancelled'' \<or> cause = Some USER_CANCEL then (''cancelled'', FORBIDDEN, cause)
     else if su_error_code s = ''run_timeout'' \<or> cause = Some DEADLINE then (''cancelled'', FORBIDDEN, cause)
     else if (case cause of None \<Rightarrow> False | Some c \<Rightarrow> c \<in> set SAFE_INTERRUPTION_CAUSES)
     then (''interrupted'', SAFE, cause)
     else if su_reason s = ''settled'' then (''completed'', NOT_APPLICABLE, cause)
     else if su_reason s \<in> {''paused'', ''awaiting_tasks''} then (''paused'', NOT_APPLICABLE, cause)
     else if su_reason s = ''limited'' then (''limited'', FORBIDDEN, cause)
     else if su_config_recoverable s then (''failed_config'', AFTER_CONFIGURATION, cause)
     else if su_retryable s then (''failed_retryable'', SAFE, cause)
     else (''failed_terminal'', FORBIDDEN, cause))"

definition terminal_outcome_from_suspension :: "int \<Rightarrow> suspension \<Rightarrow> string \<Rightarrow> int option \<Rightarrow> string \<Rightarrow> string \<Rightarrow> string \<Rightarrow>
    terminal_outcome res" where
  "terminal_outcome_from_suspension cfg s run_id checkpoint_seq final_ref partial_ref evidence_ref =
     (case classify_suspension s of (kind, retry, cause) \<Rightarrow>
        make_outcome cfg \<lparr>to_schema_version = TERMINAL_OUTCOME_SCHEMA_VERSION, to_run_id = run_id, to_kind = kind,
          to_retry_eligibility = retry, to_interruption_cause = cause, to_checkpoint_seq = checkpoint_seq,
          to_final_output_ref = final_ref, to_partial_output_ref = partial_ref,
          to_last_evidence_ref = evidence_ref, to_error_code = su_error_code s,
          to_provider_error_code = su_provider_error_code s, to_http_status = su_http_status s\<rparr>)"

section \<open>Laws\<close>

lemma make_outcome_id: "make_outcome cfg x = Inr y \<Longrightarrow> y = x"
  by (auto simp: make_outcome_def res_bind_eq_Inr)

lemma retry_of_value [simp]: "RetryEligibility_of (retry_value r) = Inr r"
  by (cases r) (simp_all add: RetryEligibility_of_def)

lemma cause_of_value [simp]: "InterruptionCause_of (cause_value c) = Inr c"
  by (cases c) (simp_all add: InterruptionCause_of_def all_causes_def)

text \<open>The outcome with the current spelling of its schema.\<close>

definition current_outcome :: "terminal_outcome \<Rightarrow> terminal_outcome" where
  "current_outcome x = x\<lparr>to_schema_version := TERMINAL_OUTCOME_SCHEMA_VERSION\<rparr>"

lemma current_schema_accepted:
  "TERMINAL_OUTCOME_SCHEMA_VERSION \<in> set ACCEPTED_TERMINAL_OUTCOME_SCHEMA_VERSIONS"
  by (simp add: TERMINAL_OUTCOME_SCHEMA_VERSION_def ACCEPTED_TERMINAL_OUTCOME_SCHEMA_VERSIONS_def
      accepted_namespaced_ids_def)

lemma make_current_outcome: "make_outcome cfg x = Inr y \<Longrightarrow> make_outcome cfg (current_outcome x) = Inr (current_outcome x)"
  using current_schema_accepted by (auto simp: make_outcome_def current_outcome_def res_bind_eq_Inr)

lemma parse_kind:
  "k \<in> set TerminalOutcomeKind \<Longrightarrow> map_of d ''kind'' = Some (PStr k) \<Longrightarrow>
     parse_literal d ''kind'' TerminalOutcomeKind None = Inr k"
  by (auto simp: parse_literal_def TerminalOutcomeKind_def)

lemma outcome_get:
  "map_of (outcome_to_json x) ''schema_version'' = Some (PStr TERMINAL_OUTCOME_SCHEMA_VERSION)"
  "map_of (outcome_to_json x) ''run_id'' = Some (PStr (to_run_id x))"
  "map_of (outcome_to_json x) ''kind'' = Some (PStr (to_kind x))"
  "map_of (outcome_to_json x) ''retry_eligibility'' = Some (PStr (retry_value (to_retry_eligibility x)))"
  "map_of (outcome_to_json x) ''interruption_cause'' = Some (opt_cause (to_interruption_cause x))"
  "map_of (outcome_to_json x) ''checkpoint_seq'' = Some (opt_int (to_checkpoint_seq x))"
  "map_of (outcome_to_json x) ''final_output_ref'' = Some (PStr (to_final_output_ref x))"
  "map_of (outcome_to_json x) ''partial_output_ref'' = Some (PStr (to_partial_output_ref x))"
  "map_of (outcome_to_json x) ''last_evidence_ref'' = Some (PStr (to_last_evidence_ref x))"
  "map_of (outcome_to_json x) ''error_code'' = Some (PStr (to_error_code x))"
  "map_of (outcome_to_json x) ''provider_error_code'' = Some (PStr (to_provider_error_code x))"
  "map_of (outcome_to_json x) ''http_status'' = Some (opt_int (to_http_status x))"
  by (simp_all add: outcome_to_json_def)

lemma outcome_fields: "require_only_fields (outcome_to_json x) TERMINAL_OUTCOME_FIELDS l = Inr ()"
  by (simp add: require_only_fields_def outcome_to_json_def TERMINAL_OUTCOME_FIELDS_def)

lemma nullable_int_get: "map_of d k = Some (opt_int x) \<Longrightarrow> nullable_int d k = Inr x"
  by (cases x) (simp_all add: nullable_int_def opt_int_def dget_def parse_int_def)

lemma outcome_roundtrip:
  assumes "pydantic_strict va" and "make_outcome cfg x = Inr x"
  shows "outcome_from_json va cfg (PDict (outcome_to_json x)) = Inr (current_outcome x)"
proof -
  have k: "to_kind x \<in> set TerminalOutcomeKind"
    using assms(2) by (auto simp: make_outcome_def res_bind_eq_Inr)
  have c: "(if dget (outcome_to_json x) ''interruption_cause'' = PNone then Inr None
      else res_bind (parse_str va (outcome_to_json x) ''interruption_cause'' []) (\<lambda>s.
        res_bind (InterruptionCause_of s) (\<lambda>c. Inr (Some c)))) = Inr (to_interruption_cause x)"
    by (cases "to_interruption_cause x") (simp_all add: dget_def outcome_get opt_cause_def parse_str_strict [OF assms(1)])
  have r: "require_object va (PDict (outcome_to_json x)) ''terminal outcome'' = Inr (outcome_to_json x)"
    using assms(1) by (simp add: wire_simps)
  have m: "make_outcome cfg \<lparr>to_schema_version = TERMINAL_OUTCOME_SCHEMA_VERSION, to_run_id = to_run_id x,
       to_kind = to_kind x, to_retry_eligibility = to_retry_eligibility x,
       to_interruption_cause = to_interruption_cause x, to_checkpoint_seq = to_checkpoint_seq x,
       to_final_output_ref = to_final_output_ref x, to_partial_output_ref = to_partial_output_ref x,
       to_last_evidence_ref = to_last_evidence_ref x, to_error_code = to_error_code x,
       to_provider_error_code = to_provider_error_code x, to_http_status = to_http_status x\<rparr> = Inr (current_outcome x)"
    using make_current_outcome [OF assms(2)] by (cases x) (simp add: current_outcome_def)
  show ?thesis
    unfolding outcome_from_json_def r res_bind_Inr outcome_fields parse_str_strict [OF assms(1)] outcome_get option.case
      pyval.case c [unfolded parse_str_strict [OF assms(1)] outcome_get option.case pyval.case] parse_kind [OF k outcome_get(3)]
      retry_of_value nullable_int_get [OF outcome_get(6)] nullable_int_get [OF outcome_get(12)] m
    using current_schema_accepted by simp
qed

definition outcome_inputs_ok :: "int \<Rightarrow> suspension \<Rightarrow> string \<Rightarrow> int option \<Rightarrow> string list \<Rightarrow> bool" where
  "outcome_inputs_ok cfg s run_id sq refs \<longleftrightarrow> opaque_id run_id \<and>
     (case sq of None \<Rightarrow> True | Some n \<Rightarrow> is_portable_json_integer cfg (IInt n) \<and> 0 \<le> n) \<and>
     (case su_http_status s of None \<Rightarrow> True | Some n \<Rightarrow> 100 \<le> n \<and> n \<le> 599) \<and> list_all address_or_empty refs \<and>
     code_or_empty (su_error_code s) \<and> code_or_empty (su_provider_error_code s)"

lemma classification_legal:
  assumes "classify_suspension s = (kind, retry, cause)"
  shows "kind \<in> set TerminalOutcomeKind \<and> (kind = ''dispatch_unknown'' \<longrightarrow> retry = AFTER_RECONCILIATION) \<and>
    (kind = ''limited'' \<longrightarrow> retry = FORBIDDEN)"
  using assms unfolding classify_suspension_def Let_def
  by (auto simp: TerminalOutcomeKind_def split: if_splits)

text \<open>C35. The projected outcome is well formed and its retry verdict is exactly determined. Every suspension with well-formed codes
  projects to an outcome the constructor accepts, which reads back from its wire form as itself. The error code \<open>dispatch_unknown\<close>, and
  nothing else, gives the kind \<open>dispatch_unknown\<close>, whose verdict is to reconcile first. A retry is called safe exactly for
  uncommitted evidence and, unless the dispatch is unknown, for an interrupted step, or, unless the run was cancelled or timed out,
  for an interruption by drain, shutdown or lost lease or a failure marked retryable whose remedy is not
  configuration. A cancelled or timed-out run that was not interrupted is never retried, and only a settled run counts as
  completed.\<close>

theorem outcome_projection_decides_retries:
  assumes "pydantic_strict va" and "outcome_inputs_ok cfg s run_id sq [final_ref, partial_ref, evidence_ref]"
  shows "\<exists>x. terminal_outcome_from_suspension cfg s run_id sq final_ref partial_ref evidence_ref = Inr x \<and>
    outcome_from_json va cfg (PDict (outcome_to_json x)) = Inr x \<and>
    (su_error_code s = ''dispatch_unknown'' \<longrightarrow> to_retry_eligibility x = AFTER_RECONCILIATION) \<and>
    (to_kind x = ''dispatch_unknown'' \<longleftrightarrow> su_error_code s = ''dispatch_unknown'') \<and>
    (to_retry_eligibility x = SAFE \<longleftrightarrow> su_error_code s = ''evidence_uncommitted'' \<or>
       su_error_code s \<noteq> ''dispatch_unknown'' \<and> (su_reason s = ''interrupted'' \<or>
         su_error_code s \<notin> {''cancelled'', ''run_timeout''} \<and> su_interruption_cause s \<notin> {Some USER_CANCEL, Some DEADLINE} \<and>
           (su_interruption_cause s \<in> {Some GRACEFUL_DRAIN, Some HOST_SHUTDOWN, Some LEASE_LOST} \<or>
            su_reason s \<notin> {''settled'', ''paused'', ''awaiting_tasks'', ''limited''} \<and> su_retryable s \<and> \<not> su_config_recoverable s))) \<and>
    (su_error_code s \<in> {''cancelled'', ''run_timeout''} \<and> su_reason s \<noteq> ''interrupted'' \<longrightarrow>
       to_kind x = ''cancelled'' \<and> to_retry_eligibility x = FORBIDDEN) \<and>
    (to_kind x = ''completed'' \<longrightarrow> su_reason s = ''settled'')"
proof -
  obtain kind retry cause where c: "classify_suspension s = (kind, retry, cause)" by (metis prod.exhaust)
  define x where "x = \<lparr>to_schema_version = TERMINAL_OUTCOME_SCHEMA_VERSION, to_run_id = run_id, to_kind = kind,
          to_retry_eligibility = retry, to_interruption_cause = cause, to_checkpoint_seq = sq,
          to_final_output_ref = final_ref, to_partial_output_ref = partial_ref,
          to_last_evidence_ref = evidence_ref, to_error_code = su_error_code s,
          to_provider_error_code = su_provider_error_code s, to_http_status = su_http_status s\<rparr>"
  have m: "make_outcome cfg x = Inr x"
    using assms(2) classification_legal [OF c] current_schema_accepted
    by (auto simp: make_outcome_def x_def outcome_inputs_ok_def split: option.splits)
  then have t: "terminal_outcome_from_suspension cfg s run_id sq final_ref partial_ref evidence_ref = Inr x"
    by (simp add: terminal_outcome_from_suspension_def c x_def)
  have "current_outcome x = x" by (simp add: current_outcome_def x_def)
  then have r: "outcome_from_json va cfg (PDict (outcome_to_json x)) = Inr x"
    using outcome_roundtrip [OF assms(1) m] by simp
  have f: "to_kind x = kind" "to_retry_eligibility x = retry" by (simp_all add: x_def)
  have "(su_error_code s = ''dispatch_unknown'' \<longrightarrow> retry = AFTER_RECONCILIATION)"
    using c unfolding classify_suspension_def Let_def by auto
  moreover have "kind = ''dispatch_unknown'' \<longleftrightarrow> su_error_code s = ''dispatch_unknown''"
    using c unfolding classify_suspension_def Let_def by (auto split: if_splits)
  moreover have "retry = SAFE \<longleftrightarrow> su_error_code s = ''evidence_uncommitted'' \<or>
       su_error_code s \<noteq> ''dispatch_unknown'' \<and> (su_reason s = ''interrupted'' \<or>
         su_error_code s \<notin> {''cancelled'', ''run_timeout''} \<and> su_interruption_cause s \<notin> {Some USER_CANCEL, Some DEADLINE} \<and>
           (su_interruption_cause s \<in> {Some GRACEFUL_DRAIN, Some HOST_SHUTDOWN, Some LEASE_LOST} \<or>
            su_reason s \<notin> {''settled'', ''paused'', ''awaiting_tasks'', ''limited''} \<and> su_retryable s \<and> \<not> su_config_recoverable s))"
    using c unfolding classify_suspension_def Let_def
    by (auto simp: SAFE_INTERRUPTION_CAUSES_def split: if_splits option.splits)
  moreover have "su_error_code s \<in> {''cancelled'', ''run_timeout''} \<and> su_reason s \<noteq> ''interrupted'' \<longrightarrow>
       kind = ''cancelled'' \<and> retry = FORBIDDEN"
    using c unfolding classify_suspension_def Let_def by (auto split: if_splits)
  moreover have "kind = ''completed'' \<longrightarrow> su_reason s = ''settled''"
    using c unfolding classify_suspension_def Let_def by (auto split: if_splits)
  ultimately show ?thesis using t r unfolding f [symmetric] by (intro exI [of _ x] conjI)
qed

definition demo_suspension :: suspension where
  "demo_suspension = \<lparr>su_reason = ''terminal'', su_status = ''failed'', su_final_text = [], su_error = [],
     su_error_code = ''dispatch_unknown'', su_awaiting_task_ids = [], su_has_external = False, su_turn = None,
     su_retryable = True, su_http_status = None, su_config_recoverable = False, su_provider_error_code = [],
     su_provider_retried = False, su_model_tool_calls_pending = False, su_interruption_cause = None\<rparr>"

theorem outcome_projection_decides_retries_witness:
  "\<exists>x. terminal_outcome_from_suspension 0 demo_suspension ''r1'' (Some 3) [] [] [] = Inr x \<and>
     to_retry_eligibility x = AFTER_RECONCILIATION"
proof -
  have "outcome_inputs_ok 0 demo_suspension ''r1'' (Some 3) [[], [], []]"
    by (simp add: outcome_inputs_ok_def demo_suspension_def opaque_id_def is_alnum_char_def is_lower_char_def
        is_digit_char_def is_id_char_def in_range_def address_or_empty_def code_or_empty_def taxonomy_code_def
        is_code_char_def is_portable_json_integer_def UNCONDITIONALLY_SPELLABLE_INT_def)
  from outcome_projection_decides_retries [OF strict_validator_strict this]
  show ?thesis by (auto simp: demo_suspension_def)
qed

end
