(* ===== verification/Public_Journal.thy ===== *)
theory Public_Journal
  imports Run_Journal Terminal_Outcome Event_Log
begin

text \<open>
  Events, terminal outcomes and checkpoints in the fenced run journal
  (\<open>adapters/postgres/sink.py\<close>), with their checked readers. A terminal outcome is settled once per
  run and closes its event journal.
\<close>

section \<open>Events\<close>

definition AgentEventType :: "string list" where
  "AgentEventType = [
     ''run.started'', ''run.finished'', ''run.failed'', ''run.waiting'', ''run.resumed'',
     ''run.awaiting_input'', ''session.state.changed'', ''turn.settled'', ''checkpoint.committed'',
     ''agent.config.updated'', ''model.turn.started'', ''model.output.delta'', ''model.reasoning.delta'',
     ''model.turn.finished'', ''turn.failed'', ''turn.interrupted'', ''turn.paused'',
     ''model.input.degraded'', ''tool.call.started'', ''tool.call.finished'', ''tool.call.failed'',
     ''tool.surface.updated'', ''tool.approval.requested'', ''tool.approval.approved'',
     ''tool.approval.denied'', ''shell.exec.started'', ''shell.exec.finished'', ''shell.exec.failed'',
     ''job.started'', ''job.output.updated'', ''job.finished'', ''job.timed_out'', ''job.cancelled'',
     ''job.output_limited'', ''job.failed'', ''task.started'', ''task.finished'', ''task.cancelled'',
     ''task.timed_out'', ''task.failed'', ''subagent.started'', ''subagent.finished'', ''subagent.failed'',
     ''skill.activated'', ''web.search.started'', ''web.search.finished'', ''web.search.failed'',
     ''web.fetch.started'', ''web.fetch.finished'', ''web.fetch.failed'', ''web.context.started'',
     ''web.context.finished'', ''web.context.failed'', ''permission.denied'', ''capability.requested'',
     ''capability.granted'', ''capability.denied'', ''capability.revoked'', ''capability.rotated'',
     ''control.command.received'', ''control.command.completed'', ''control.command.failed'',
     ''outbox.requested'', ''outbox.dispatched'', ''outbox.failed'', ''workspace.file.read'',
     ''workspace.file.changed'', ''workspace.diff.updated'', ''workspace.proposal.updated'',
     ''proposal.ready'', ''proposal.package.exported'', ''proposal.approved'', ''proposal.rejected'',
     ''proposal.applied'', ''proposal.conflict'', ''proposal.stale'', ''artifact.emitted'', ''plan.updated'',
     ''metrics.updated'', ''output.validator.satisfied'', ''output.validation.failed'',
     ''output.validator.skipped'', ''output.validator.error'', ''output.validator.exhausted'']"

definition AgentEventLevel :: "string list" where
  "AgentEventLevel = [''debug'', ''info'', ''warning'', ''error'']"

definition EVENT_TYPED_FIELDS :: "string list" where
  "EVENT_TYPED_FIELDS = [''run_id'', ''seq'', ''event_id'', ''schema_version'', ''type'', ''level'']"

definition optional_id_ok :: "string option \<Rightarrow> bool" where
  "optional_id_ok x = (case x of None \<Rightarrow> True | Some s \<Rightarrow> opaque_id s)"

text \<open>\<open>_event_payload\<close>: the normalised payload of a portable event. A copy that cannot be dumped has no
  canonical digest.\<close>

definition event_payload :: "journal_env \<Rightarrow> agent_event \<Rightarrow> pydict option res" where
  "event_payload env e =
     (if ev_schema_version e \<noteq> EVENT_SCHEMA_VERSION \<or> \<not> opaque_id (ev_event_id e) \<or> \<not> opaque_id (ev_run_id e) \<or>
         \<not> is_portable_json_integer (je_cfg env) (IInt (ev_seq e)) \<or>
         \<not> (1 \<le> ev_seq e \<and> ev_seq e \<le> POSTGRES_BIGINT_MAX) \<or> \<not> is_safe_utc_timestamp (PStr (ev_timestamp e)) \<or>
         ev_type e \<notin> set AgentEventType \<or> ev_level e \<notin> set AgentEventLevel \<or>
         \<not> optional_id_ok (ev_turn_id e) \<or> \<not> optional_id_ok (ev_parent_id e)
      then Inr None
      else case strict_ingress (PDict (event_to_json e)) of
        Inl x \<Rightarrow> if is_payload_error x then Inr None else Inl x
      | Inr n \<Rightarrow>
          if \<not> json_dumpable (je_cfg env) n then Inr None
          else (case n of
              PDict d \<Rightarrow> Inr (if recorded_digest (je_sha env d) then Some d else None)
            | _ \<Rightarrow> Inr None))"

definition timestamp_matches :: "journal_env \<Rightarrow> event_row \<Rightarrow> pydict \<Rightarrow> bool" where
  "timestamp_matches env r payload = (case dget payload ''timestamp'' of
      PStr s \<Rightarrow> ew_instant r = je_instant env s
    | _ \<Rightarrow> False)"

definition winner_of :: "'a stored_row_scheme \<Rightarrow> string" where
  "winner_of r = (if recorded_digest (sr_digest r) then sr_digest r else [])"

definition event_cols :: "string \<times> int \<Rightarrow> pyval list" where
  "event_cols k = [PStr (fst k), PInt (snd k)]"

definition event_coordinate :: "journal_env \<Rightarrow> journal \<Rightarrow> agent_event \<Rightarrow> pydict \<Rightarrow> string \<Rightarrow> commit_result option res" where
  "event_coordinate env j e payload digest = (case map_of (jn_events j) (ev_run_id e, ev_seq e) of
      None \<Rightarrow> Inr None
    | Some r \<Rightarrow>
        if \<not> timestamp_matches env r payload
        then res_bind (make_commit_result (je_cfg env) CommitConflict (Some (ev_seq e)) digest (winner_of r)) (\<lambda>c. Inr (Some c))
        else stored_result env (Some r) digest (Some (ev_seq e)) EVENT_TYPED_FIELDS
          (map (dget payload) EVENT_TYPED_FIELDS) False (event_cols (ev_run_id e, ev_seq e)))"

definition event_id_row :: "journal \<Rightarrow> agent_event \<Rightarrow> event_row option" where
  "event_id_row j e = (case find (\<lambda>(k, r). fst k = ev_run_id e \<and> hd (sr_typed r) = PStr (ev_event_id e)) (jn_events j) of
      None \<Rightarrow> None | Some (_, r) \<Rightarrow> Some r)"

definition event_id_winner :: "journal_env \<Rightarrow> journal \<Rightarrow> agent_event \<Rightarrow> string \<Rightarrow> commit_result option res" where
  "event_id_winner env j e digest = (case event_id_row j e of
      None \<Rightarrow> Inr None
    | Some r \<Rightarrow> res_bind (make_commit_result (je_cfg env) CommitConflict (Some (ev_seq e)) digest (winner_of r))
        (\<lambda>c. Inr (Some c)))"

definition terminal_exists :: "journal \<Rightarrow> string \<Rightarrow> bool" where
  "terminal_exists j run \<longleftrightarrow> map_of (jn_terminals j) run \<noteq> None"

definition make_event_row :: "journal_env \<Rightarrow> agent_event \<Rightarrow> pydict \<Rightarrow> string \<Rightarrow> event_row" where
  "make_event_row env e payload digest = \<lparr>sr_digest = digest, sr_payload = payload, sr_blobs = [],
     sr_typed = [PStr (ev_event_id e), dget payload ''schema_version'', PStr (ev_type e), PStr (ev_level e)],
     ew_instant = je_instant env (ev_timestamp e)\<rparr>"

definition commit_event_locked :: "journal_env \<Rightarrow> agent_event \<Rightarrow> journal \<Rightarrow> body_result" where
  "commit_event_locked env e j =
     res_bind (event_payload env e) (\<lambda>p. case p of
       None \<Rightarrow> conflict_body env j (portable_sequence (je_cfg env) (ev_seq e)) [] []
     | Some payload \<Rightarrow>
         let digest = record_only_digest env payload in
         res_bind (event_coordinate env j e payload digest) (\<lambda>stored. case stored of
           Some c \<Rightarrow> Inr (Some (j, c, digest))
         | None \<Rightarrow> res_bind (event_id_winner env j e digest) (\<lambda>dup. case dup of
             Some c \<Rightarrow> Inr (Some (j, c, digest))
           | None \<Rightarrow>
               if terminal_exists j (ev_run_id e) then conflict_body env j (Some (ev_seq e)) digest []
               else res_bind (insert_row (ev_run_id e, ev_seq e) (make_event_row env e payload digest) (jn_events j)) (\<lambda>table.
                 res_bind (make_commit_result (je_cfg env) Committed (Some (ev_seq e)) digest []) (\<lambda>c.
                 Inr (Some (j\<lparr>jn_events := table,
                   jn_event_head := advance_head (ev_run_id e) (ev_seq e) (jn_event_head j)\<rparr>, c, digest)))))))"

definition reconcile_event :: "journal_env \<Rightarrow> agent_event \<Rightarrow> string \<Rightarrow> journal \<Rightarrow> commit_result option res" where
  "reconcile_event env e digest j =
     res_bind (event_payload env e) (\<lambda>p. case p of
       None \<Rightarrow> Inr None
     | Some payload \<Rightarrow> res_bind (event_coordinate env j e payload digest) (\<lambda>stored. case stored of
           Some c \<Rightarrow> Inr (Some c)
         | None \<Rightarrow> if terminal_exists j (ev_run_id e)
             then res_bind (make_commit_result (je_cfg env) CommitConflict (Some (ev_seq e)) digest []) (\<lambda>c. Inr (Some c))
             else Inr None))"

definition append_event :: "journal_env \<Rightarrow> bool \<Rightarrow> attempt \<Rightarrow> agent_event \<Rightarrow> writer_token \<Rightarrow> journal \<Rightarrow>
    journal \<times> commit_result res" where
  "append_event env ready tx e t =
     fenced_mutation env ready tx (ev_run_id e) t (fenced_result env None) (\<lambda>_. commit_event_locked env e)
       (Inl (RuntimeFault ''PostgreSQL event transaction returned no result'')) (reconcile_event env e)"

section \<open>Terminal outcomes\<close>

definition TERMINAL_TYPED_FIELDS :: "string list" where
  "TERMINAL_TYPED_FIELDS = [''run_id'', ''schema_version'', ''kind'', ''retry_eligibility'', ''checkpoint_seq'', ''error_code'']"

definition terminal_coordinate :: "journal_env \<Rightarrow> journal \<Rightarrow> terminal_outcome \<Rightarrow> pydict \<Rightarrow> string \<Rightarrow> commit_result option res" where
  "terminal_coordinate env j x payload digest =
     stored_result env (map_of (jn_terminals j) (to_run_id x)) digest None TERMINAL_TYPED_FIELDS
       (map (dget payload) TERMINAL_TYPED_FIELDS) False [PStr (to_run_id x)]"

text \<open>The payload is the outcome read back from its own wire form.\<close>

definition terminal_payload :: "journal_env \<Rightarrow> terminal_outcome \<Rightarrow> pydict res" where
  "terminal_payload env x =
     res_bind (outcome_from_json (je_va env) (je_cfg env) (PDict (outcome_to_json x))) (\<lambda>y. Inr (outcome_to_json y))"

definition terminal_row :: "pydict \<Rightarrow> string \<Rightarrow> stored_row" where
  "terminal_row payload digest = \<lparr>sr_digest = digest, sr_payload = payload, sr_blobs = [],
     sr_typed = map (dget payload) (tl TERMINAL_TYPED_FIELDS)\<rparr>"

definition checkpoint_seq_too_large :: "pydict \<Rightarrow> bool" where
  "checkpoint_seq_too_large payload = (case dget payload ''checkpoint_seq'' of
      PInt n \<Rightarrow> POSTGRES_BIGINT_MAX < n
    | _ \<Rightarrow> False)"

definition commit_terminal_locked :: "journal_env \<Rightarrow> terminal_outcome \<Rightarrow> journal \<Rightarrow> body_result" where
  "commit_terminal_locked env x j =
     or_conflict (terminal_payload env x) (conflict_body env j None [] []) (\<lambda>payload.
       if checkpoint_seq_too_large payload then conflict_body env j None [] []
       else let digest = record_only_digest env payload in
         res_bind (terminal_coordinate env j x payload digest) (\<lambda>stored. case stored of
           Some c \<Rightarrow> Inr (Some (j, c, digest))
         | None \<Rightarrow> res_bind (insert_row (to_run_id x) (terminal_row payload digest) (jn_terminals j)) (\<lambda>table.
             res_bind (make_commit_result (je_cfg env) Committed None digest []) (\<lambda>c.
             Inr (Some (j\<lparr>jn_terminals := table\<rparr>, c, digest))))))"

definition reconcile_terminal :: "journal_env \<Rightarrow> terminal_outcome \<Rightarrow> string \<Rightarrow> journal \<Rightarrow> commit_result option res" where
  "reconcile_terminal env x digest j =
     res_bind (terminal_payload env x) (\<lambda>payload. terminal_coordinate env j x payload digest)"

definition settle_terminal :: "journal_env \<Rightarrow> bool \<Rightarrow> attempt \<Rightarrow> terminal_outcome \<Rightarrow> writer_token \<Rightarrow> journal \<Rightarrow>
    journal \<times> commit_result res" where
  "settle_terminal env ready tx x t =
     fenced_mutation env ready tx (to_run_id x) t (fenced_result env None) (\<lambda>_. commit_terminal_locked env x)
       (Inl (RuntimeFault ''PostgreSQL terminal transaction returned no result'')) (reconcile_terminal env x)"

definition read_terminal :: "journal_env \<Rightarrow> bool \<Rightarrow> journal \<Rightarrow> string \<Rightarrow> terminal_outcome option res" where
  "read_terminal env ready j run =
     res_bind (guard ready (SchemaIncompatible ''fenced run sink'')) (\<lambda>_.
     res_bind (guard (opaque_id run) (ValueError ''PostgreSQL terminal run_id must be a bounded opaque id'')) (\<lambda>_.
     case map_of (jn_terminals j) run of
       None \<Rightarrow> Inr None
     | Some r \<Rightarrow> (case outcome_from_json (je_va env) (je_cfg env) (PDict (sr_payload r)) of
           Inl e \<Rightarrow> if is_payload_error e then Inl (RuntimeFault ''PostgreSQL terminal payload is corrupt'') else Inl e
         | Inr x \<Rightarrow>
             let payload = outcome_to_json x in
             res_bind (stored_result env (Some r) (record_only_digest env payload) None TERMINAL_TYPED_FIELDS
                 (map (dget payload) TERMINAL_TYPED_FIELDS) False [PStr run]) (\<lambda>result.
               case result of
                 Some c \<Rightarrow> if cr_status c = AlreadyCommitted then Inr (Some x)
                   else Inl (RuntimeFault ''PostgreSQL terminal record is corrupt'')
               | None \<Rightarrow> Inl (RuntimeFault ''PostgreSQL terminal record is corrupt'')))))"

section \<open>Checkpoints\<close>

text \<open>A checkpoint enters through what the sink takes from it: its coordinate, the payload written for
  it and the blobs it refers to.\<close>

record checkpoint_input =
  ci_run_id :: string
  ci_seq :: int
  ci_payload :: "pydict res"
  ci_references :: "string list res"

definition CHECKPOINT_TYPED_FIELDS :: "string list" where
  "CHECKPOINT_TYPED_FIELDS = [''run_id'', ''seq'', ''schema_version'']"

definition checkpoint_coordinate :: "journal_env \<Rightarrow> journal \<Rightarrow> checkpoint_input \<Rightarrow> pydict \<Rightarrow> string \<Rightarrow>
    commit_result option res" where
  "checkpoint_coordinate env j c payload digest =
     stored_result env (map_of (jn_checkpoints j) (ci_run_id c, ci_seq c)) digest (Some (ci_seq c)) CHECKPOINT_TYPED_FIELDS
       [PStr (ci_run_id c), PInt (ci_seq c), dget payload ''schema_version''] False [PStr (ci_run_id c), PInt (ci_seq c)]"

definition checkpoint_row :: "journal_env \<Rightarrow> pydict \<Rightarrow> string \<Rightarrow> blob_map \<Rightarrow> stored_row" where
  "checkpoint_row env payload digest blobs = \<lparr>sr_digest = digest, sr_payload = payload,
     sr_blobs = blob_projection env blobs, sr_typed = [dget payload ''schema_version'']\<rparr>"

definition commit_checkpoint_locked :: "journal_env \<Rightarrow> checkpoint_input \<Rightarrow> blob_map \<Rightarrow> journal \<Rightarrow> journal \<Rightarrow> body_result" where
  "commit_checkpoint_locked env c blobs j j1 =
     (let refuse = conflict_body env j1 (Some (ci_seq c)) [] [] in
      if ci_seq c < 0 then conflict_body env j1 None [] []
      else if POSTGRES_BIGINT_MAX < ci_seq c then refuse
      else case validated_blobs env blobs of
        None \<Rightarrow> refuse
      | Some submitted \<Rightarrow> or_conflict (ci_payload c) refuse (\<lambda>payload. or_conflict (ci_references c) refuse (\<lambda>refs.
          if \<not> submitted_blobs_preserve_backing j submitted then refuse
          else if \<not> references_resolve env j (ci_run_id c) refs submitted then refuse
          else let digest = record_digest env payload submitted in
            res_bind (checkpoint_coordinate env j c payload digest) (\<lambda>stored. case stored of
              Some r \<Rightarrow> Inr (Some (j1, r, digest))
            | None \<Rightarrow> (case persist_blobs (ci_run_id c) submitted j1 of
                None \<Rightarrow> Inr None
              | Some j2 \<Rightarrow>
                  res_bind (insert_row (ci_run_id c, ci_seq c) (checkpoint_row env payload digest submitted) (jn_checkpoints j2)) (\<lambda>table.
                  res_bind (make_commit_result (je_cfg env) Committed (Some (ci_seq c)) digest []) (\<lambda>r.
                  Inr (Some (j2\<lparr>jn_checkpoints := table,
                    jn_checkpoint_head := advance_head (ci_run_id c) (ci_seq c) (jn_checkpoint_head j2)\<rparr>, r, digest)))))))))"

definition reconcile_checkpoint :: "journal_env \<Rightarrow> checkpoint_input \<Rightarrow> string \<Rightarrow> journal \<Rightarrow> commit_result option res" where
  "reconcile_checkpoint env c digest j =
     res_bind (ci_payload c) (\<lambda>payload. checkpoint_coordinate env j c payload digest)"

definition commit_checkpoint :: "journal_env \<Rightarrow> bool \<Rightarrow> attempt \<Rightarrow> checkpoint_input \<Rightarrow> blob_map \<Rightarrow> writer_token \<Rightarrow>
    journal \<Rightarrow> journal \<times> commit_result res" where
  "commit_checkpoint env ready tx c blobs t =
     fenced_mutation env ready tx (ci_run_id c) t (fenced_result env None) (commit_checkpoint_locked env c blobs)
       (make_commit_result (je_cfg env) CommitConflict (Some (ci_seq c)) [] []) (reconcile_checkpoint env c)"

section \<open>Reading events\<close>

definition EVENT_FIELDS :: "string list" where
  "EVENT_FIELDS = [''schema_version'', ''event_id'', ''seq'', ''run_id'', ''timestamp'', ''type'', ''level'', ''data'',
     ''turn_id'', ''parent_id'']"

text \<open>\<open>AgentEvent(**payload)\<close>: the constructor takes its own fields only and requires those without a
  default.\<close>

definition event_constructible :: "pydict \<Rightarrow> bool" where
  "event_constructible p \<longleftrightarrow> list_all (\<lambda>(k, _). k \<in> set EVENT_FIELDS) p \<and>
     list_all (\<lambda>k. dhas k p) [''schema_version'', ''event_id'', ''seq'', ''run_id'', ''timestamp'', ''type'']"

fun opt_text :: "pyval \<Rightarrow> string option option" where
  "opt_text PNone = Some None"
| "opt_text (PStr s) = Some (Some s)"
| "opt_text _ = None"

text \<open>The event of a payload whose members have the types of the fields; any other is refused by
  \<open>_event_payload\<close>.\<close>

definition event_of_payload :: "pydict \<Rightarrow> agent_event option" where
  "event_of_payload p = (case (dget p ''schema_version'', dget p ''event_id'', dget p ''seq'', dget p ''run_id'',
        dget p ''timestamp'', dget p ''type'') of
      (PStr sv, PStr eid, PInt n, PStr run, PStr ts, PStr ty) \<Rightarrow>
        (case (if dhas ''level'' p then dget p ''level'' else PStr ''info'',
               if dhas ''data'' p then dget p ''data'' else PDict [],
               opt_text (dget p ''turn_id''), opt_text (dget p ''parent_id'')) of
           (PStr lv, PDict d, Some tu, Some pa) \<Rightarrow>
             Some \<lparr>ev_schema_version = sv, ev_event_id = eid, ev_seq = n, ev_run_id = run, ev_timestamp = ts,
               ev_type = ty, ev_level = lv, ev_data = d, ev_turn_id = tu, ev_parent_id = pa\<rparr>
         | _ \<Rightarrow> None)
    | _ \<Rightarrow> None)"

definition read_event :: "journal_env \<Rightarrow> bool \<Rightarrow> journal \<Rightarrow> string \<Rightarrow> int \<Rightarrow> agent_event option res" where
  "read_event env ready j run n =
     res_bind (guard ready (SchemaIncompatible ''fenced run sink'')) (\<lambda>_.
     res_bind (guard (opaque_id run) (ValueError ''PostgreSQL event run_id must be a bounded opaque id'')) (\<lambda>_.
     res_bind (guard (is_portable_json_integer (je_cfg env) (IInt n) \<and> 1 \<le> n \<and> n \<le> POSTGRES_BIGINT_MAX)
       (ValueError ''PostgreSQL event sequence must fit a positive bigint'')) (\<lambda>_.
     case map_of (jn_events j) (run, n) of
       None \<Rightarrow> Inr None
     | Some r \<Rightarrow>
         let payload = sr_payload r in
         if \<not> event_constructible payload then Inl (RuntimeFault ''PostgreSQL event payload is corrupt'')
         else if \<not> dhas ''level'' payload then Inl (KeyError ''level'')
         else if checked_stored_digest env payload [] (sr_digest r) = None \<or>
            \<not> tuple_eq (event_cols (run, n) @ sr_typed r) (map (dget payload) EVENT_TYPED_FIELDS) \<or>
            \<not> timestamp_matches env r payload
         then Inl (RuntimeFault ''PostgreSQL event record is corrupt'')
         else (case event_of_payload payload of
             None \<Rightarrow> Inl (RuntimeFault ''PostgreSQL event record is corrupt'')
           | Some e \<Rightarrow> res_bind (event_payload env e) (\<lambda>p. case p of
               None \<Rightarrow> Inl (RuntimeFault ''PostgreSQL event record is corrupt'')
             | Some q \<Rightarrow> if py_eq (PDict q) (PDict payload) then Inr (Some e)
                 else Inl (RuntimeFault ''PostgreSQL event record is corrupt''))))))"

definition latest_event_sequence :: "journal_env \<Rightarrow> bool \<Rightarrow> journal \<Rightarrow> string \<Rightarrow> int res" where
  "latest_event_sequence env ready j run =
     res_bind (guard ready (SchemaIncompatible ''fenced run sink'')) (\<lambda>_.
     res_bind (guard (opaque_id run) (ValueError ''PostgreSQL event run_id must be a bounded opaque id'')) (\<lambda>_.
     case jn_event_head j run of
       None \<Rightarrow> Inr 0
     | Some n \<Rightarrow>
         if \<not> is_portable_json_integer (je_cfg env) (IInt n) \<or> n < 1 then Inl (RuntimeFault ''PostgreSQL event head is corrupt'')
         else res_bind (read_event env ready j run n) (\<lambda>e. case e of
             None \<Rightarrow> Inl (RuntimeFault ''PostgreSQL event head references a missing record'')
           | Some _ \<Rightarrow> Inr n)))"

section \<open>What the public mutations write\<close>

lemma event_effect:
  assumes "commit_event_locked env e j = Inr (Some (j', r, d))"
  shows "j' = j \<and> cr_status r \<noteq> Committed \<or>
    (\<exists>payload. cr_status r = Committed \<and> event_payload env e = Inr (Some payload) \<and> d = record_only_digest env payload \<and>
       map_of (jn_events j) (ev_run_id e, ev_seq e) = None \<and> event_id_row j e = None \<and> \<not> terminal_exists j (ev_run_id e) \<and>
       j' = j\<lparr>jn_events := ((ev_run_id e, ev_seq e), make_event_row env e payload d) # jn_events j,
              jn_event_head := advance_head (ev_run_id e) (ev_seq e) (jn_event_head j)\<rparr>)"
proof -
  from assms obtain p where p: "event_payload env e = Inr p" by (auto simp: commit_event_locked_def res_bind_eq_Inr)
  show ?thesis
  proof (cases p)
    case None
    with assms p show ?thesis by (auto simp: commit_event_locked_def dest: conflict_body_state)
  next
    case (Some payload)
    let ?d = "record_only_digest env payload"
    from assms p Some obtain stored where st: "event_coordinate env j e payload ?d = Inr stored"
      by (auto simp: commit_event_locked_def Let_def res_bind_eq_Inr)
    show ?thesis
    proof (cases stored)
      case (Some c)
      have "cr_status c \<noteq> Committed"
        using st Some by (auto simp: event_coordinate_def res_bind_eq_Inr dest: make_commit_result_status stored_result_status
            split: option.splits if_splits)
      then show ?thesis using assms p \<open>p = Some payload\<close> st Some by (auto simp: commit_event_locked_def Let_def)
    next
      case None
      then have fresh: "map_of (jn_events j) (ev_run_id e, ev_seq e) = None"
        using st by (auto simp: event_coordinate_def res_bind_eq_Inr stored_result_None split: option.splits if_splits)
      from assms p \<open>p = Some payload\<close> st None obtain dup where dup: "event_id_winner env j e ?d = Inr dup"
        by (auto simp: commit_event_locked_def Let_def res_bind_eq_Inr)
      show ?thesis
      proof (cases dup)
        case (Some c)
        then have "cr_status c = CommitConflict"
          using dup by (auto simp: event_id_winner_def res_bind_eq_Inr dest: make_commit_result_status split: option.splits)
        then show ?thesis using assms p \<open>p = Some payload\<close> st \<open>stored = None\<close> dup Some
          by (auto simp: commit_event_locked_def Let_def)
      next
        case none: None
        then have "event_id_row j e = None" using dup by (auto simp: event_id_winner_def res_bind_eq_Inr split: option.splits)
        then show ?thesis using assms p \<open>p = Some payload\<close> st \<open>stored = None\<close> dup none fresh
          by (auto simp: commit_event_locked_def Let_def res_bind_eq_Inr dest: conflict_body_state make_commit_result_status
              grows_insert split: if_splits)
      qed
    qed
  qed
qed

lemma terminal_effect:
  assumes "commit_terminal_locked env x j = Inr (Some (j', r, d))"
  shows "j' = j \<and> cr_status r \<noteq> Committed \<or>
    (\<exists>payload. cr_status r = Committed \<and> terminal_payload env x = Inr payload \<and> d = record_only_digest env payload \<and>
       map_of (jn_terminals j) (to_run_id x) = None \<and> j' = j\<lparr>jn_terminals := (to_run_id x, terminal_row payload d) # jn_terminals j\<rparr>)"
proof (cases "terminal_payload env x")
  case (Inl e)
  with assms show ?thesis
    by (auto simp: commit_terminal_locked_def or_conflict_def dest: conflict_body_state split: if_splits)
next
  case (Inr payload)
  let ?d = "record_only_digest env payload"
  show ?thesis
  proof (cases "checkpoint_seq_too_large payload")
    case True
    with assms Inr show ?thesis by (auto simp: commit_terminal_locked_def or_conflict_def dest: conflict_body_state)
  next
    case False
    with assms Inr obtain stored where st: "terminal_coordinate env j x payload ?d = Inr stored"
      by (auto simp: commit_terminal_locked_def or_conflict_def Let_def res_bind_eq_Inr)
    show ?thesis
    proof (cases stored)
      case (Some c)
      with assms Inr False st stored_result_status [OF st [unfolded terminal_coordinate_def Some]] show ?thesis
        by (auto simp: commit_terminal_locked_def or_conflict_def Let_def)
    next
      case None
      with assms Inr False st show ?thesis
        by (auto simp: commit_terminal_locked_def or_conflict_def Let_def res_bind_eq_Inr dest: make_commit_result_status grows_insert)
    qed
  qed
qed

section \<open>The event journal\<close>

text \<open>Sequence numbers and event ids are unique in a run, and the head is the highest sequence.\<close>

definition events_ok :: "journal \<Rightarrow> bool" where
  "events_ok j \<longleftrightarrow> distinct (map fst (jn_events j)) \<and> (\<forall>(k, r) \<in> set (jn_events j). 1 \<le> snd k) \<and>
     distinct (map (\<lambda>(k, r). (fst k, hd (sr_typed r))) (jn_events j)) \<and>
     (\<forall>run n. map_of (jn_events j) (run, n) \<noteq> None \<longrightarrow> (\<exists>h. jn_event_head j run = Some h \<and> n \<le> h)) \<and>
     (\<forall>run h. jn_event_head j run = Some h \<longrightarrow> map_of (jn_events j) (run, h) \<noteq> None)"

lemma new_event_ok:
  assumes "events_ok j" and "event_payload env e = Inr (Some payload)"
    and "map_of (jn_events j) (ev_run_id e, ev_seq e) = None" and "event_id_row j e = None"
  shows "events_ok (j\<lparr>jn_events := ((ev_run_id e, ev_seq e), make_event_row env e payload d) # jn_events j,
              jn_event_head := advance_head (ev_run_id e) (ev_seq e) (jn_event_head j)\<rparr>)"
proof -
  have pos: "1 \<le> ev_seq e" using assms(2) by (auto simp: event_payload_def split: if_splits)
  have id: "(ev_run_id e, PStr (ev_event_id e)) \<notin> set (map (\<lambda>(k, r). (fst k, hd (sr_typed r))) (jn_events j))"
    using assms(4) by (auto simp: event_id_row_def find_None_iff split: option.splits prod.splits) blast
  note ok = assms(1) [unfolded events_ok_def]
  have h: "jn_event_head j run = Some h \<Longrightarrow> map_of (jn_events j) (run, h) \<noteq> None"
    "map_of (jn_events j) (run, n) \<noteq> None \<Longrightarrow> \<exists>h. jn_event_head j run = Some h \<and> n \<le> h" for run h n using ok by blast+
  have cover: "\<exists>h. advance_head (ev_run_id e) (ev_seq e) (jn_event_head j) run = Some h \<and> n \<le> h"
    if "map_of (((ev_run_id e, ev_seq e), make_event_row env e payload d) # jn_events j) (run, n) \<noteq> None" for run n
    using that h(2) [of run n] by (auto simp: advance_head_def split: if_splits option.splits)
  have head: "map_of (((ev_run_id e, ev_seq e), make_event_row env e payload d) # jn_events j) (run, h) \<noteq> None"
    if "advance_head (ev_run_id e) (ev_seq e) (jn_event_head j) run = Some h" for run h
    using that [unfolded advance_head_def] ok h(1) [of run h] by (auto split: if_splits option.splits)
  show ?thesis unfolding events_ok_def
    using ok pos id assms(3) cover head by (auto simp: make_event_row_def map_of_eq_None_iff simp del: map_of.simps)
qed

section \<open>Histories of the journal\<close>

definition keeps :: "journal_env \<Rightarrow> journal \<Rightarrow> journal \<Rightarrow> bool" where
  "keeps env j j' \<longleftrightarrow> calls_evolve env j j' \<and> (events_ok j \<longrightarrow> events_ok j')"

text \<open>Whatever happens around a call, other transactions are mutations too.\<close>

definition good_tx :: "journal_env \<Rightarrow> attempt \<Rightarrow> bool" where
  "good_tx env tx \<longleftrightarrow> concurrent_ok env tx \<and> (\<forall>x. keeps env x (tx_later tx x))"

lemma events_ok_cong:
  assumes "jn_events j' = jn_events j" and "jn_event_head j' = jn_event_head j"
  shows "events_ok j' = events_ok j"
  unfolding events_ok_def assms ..

lemma keeps_private: "calls_evolve env j j' \<and> public_unchanged j j' \<Longrightarrow> keeps env j j'"
  using events_ok_cong [of j' j] by (auto simp: keeps_def public_unchanged_def)

lemma public_unchanged_others [simp]: "public_unchanged j (others tx j)"
  by (simp add: public_unchanged_def others_def)

lemma keeps_trans: "keeps env a b \<Longrightarrow> keeps env b c \<Longrightarrow> keeps env a c"
  by (auto simp: keeps_def intro: calls_evolve_trans)

interpretation jr: journal_relation "keeps env" "good_tx env" for env
proof
  show "keeps env j j" for j by (simp add: keeps_def)
  show "keeps env a c" if "keeps env a b" "keeps env b c" for a b c using that by (rule keeps_trans)
  show "keeps env j (others tx j)" if "good_tx env tx" for tx j
    by (rule keeps_private) (use that in \<open>simp add: good_tx_def calls_evolve_others\<close>)
  show "keeps env j (tx_later tx j)" if "good_tx env tx" for tx j using that by (simp add: good_tx_def)
qed

text \<open>Writes to the public tables leave the calls alone.\<close>

lemma sound_cong:
  assumes "jn_invocations j' = jn_invocations j" "jn_invocation_head j' = jn_invocation_head j" "jn_outbox j' = jn_outbox j"
    "jn_blobs j \<subseteq>\<^sub>m jn_blobs j'" "\<forall>run k. jn_run_blobs j run k \<longrightarrow> jn_run_blobs j' run k" "blobs_ok env (jn_blobs j) \<longrightarrow> blobs_ok env (jn_blobs j')"
  shows "sound env j \<Longrightarrow> sound env j'"
  using calls_ok_cong [OF assms(1,2), of env] outbox_ok_cong [OF assms(1,3), of env]
    results_ok_mono [OF _ assms(1) [symmetric] assms(4,5)] assms(6)
  by (auto simp: sound_def results_ok_def)

lemmas locked_invocation_keeps = keeps_private [OF locked_invocation_calls_evolve]
lemmas locked_evidence_keeps = keeps_private [OF locked_evidence_calls_evolve]

lemma locked_event_keeps:
  assumes "commit_event_locked env e j = Inr (Some (j', r, d))"
  shows "keeps env j j'"
  using event_effect [OF assms]
proof (elim disjE exE conjE)
  assume "j' = j"
  then show ?thesis by (simp add: keeps_def)
next
  fix payload
  assume p: "event_payload env e = Inr (Some payload)" and n: "map_of (jn_events j) (ev_run_id e, ev_seq e) = None"
    and id: "event_id_row j e = None" and open_run: "\<not> terminal_exists j (ev_run_id e)"
    and j': "j' = j\<lparr>jn_events := ((ev_run_id e, ev_seq e), make_event_row env e payload d) # jn_events j,
              jn_event_head := advance_head (ev_run_id e) (ev_seq e) (jn_event_head j)\<rparr>"
  have "extends j j'" using n open_run by (auto simp: extends_def j' grows_Cons run_events_def terminal_exists_def)
  moreover have "sound env j'" if "sound env j" using sound_cong [of j' j env] that by (simp add: j')
  moreover have "events_ok j'" if "events_ok j" unfolding j' by (rule new_event_ok [OF that p n id])
  ultimately show ?thesis by (simp add: keeps_def calls_evolve_def)
qed

lemma locked_terminal_keeps:
  assumes "commit_terminal_locked env x j = Inr (Some (j', r, d))"
  shows "keeps env j j'"
  using terminal_effect [OF assms]
proof (elim disjE exE conjE)
  assume "j' = j"
  then show ?thesis by (simp add: keeps_def)
next
  fix payload
  assume n: "map_of (jn_terminals j) (to_run_id x) = None"
    and j': "j' = j\<lparr>jn_terminals := (to_run_id x, terminal_row payload d) # jn_terminals j\<rparr>"
  have "extends j j'" using n by (simp add: extends_def j' grows_Cons run_events_def)
  moreover have "sound env j'" if "sound env j" using sound_cong [of j' j env] that by (simp add: j')
  moreover have "events_ok j' = events_ok j" by (rule events_ok_cong) (simp_all add: j')
  ultimately show ?thesis by (simp add: keeps_def calls_evolve_def)
qed

lemma checkpoint_effect:
  assumes "commit_checkpoint_locked env c blobs j j1 = Inr (Some (j', r, d))"
  shows "j' = j1 \<and> cr_status r \<noteq> Committed \<or>
    (\<exists>payload j2. cr_status r = Committed \<and> ci_payload c = Inr payload \<and> d = record_digest env payload blobs \<and>
       (\<forall>(k, v) \<in> set blobs. je_bsha env v = k) \<and> persist_blobs (ci_run_id c) blobs j1 = Some j2 \<and>
       map_of (jn_checkpoints j2) (ci_run_id c, ci_seq c) = None \<and>
       j' = j2\<lparr>jn_checkpoints := ((ci_run_id c, ci_seq c), checkpoint_row env payload d blobs) # jn_checkpoints j2,
               jn_checkpoint_head := advance_head (ci_run_id c) (ci_seq c) (jn_checkpoint_head j2)\<rparr>)"
proof (cases "0 \<le> ci_seq c \<and> ci_seq c \<le> POSTGRES_BIGINT_MAX \<and> validated_blobs env blobs = Some blobs \<and>
    (\<exists>payload refs. ci_payload c = Inr payload \<and> ci_references c = Inr refs \<and> submitted_blobs_preserve_backing j blobs \<and>
       references_resolve env j (ci_run_id c) refs blobs)")
  case False
  then have "j' = j1 \<and> cr_status r = CommitConflict"
    using assms by (auto simp: commit_checkpoint_locked_def Let_def or_conflict_def validated_blobs_def dest: conflict_body_state
        split: if_splits option.splits sum.splits)
  then show ?thesis by simp
next
  case True
  then obtain payload refs where p: "ci_payload c = Inr payload" "ci_references c = Inr refs" by blast
  let ?d = "record_digest env payload blobs"
  have e: "commit_checkpoint_locked env c blobs j j1 = res_bind (checkpoint_coordinate env j c payload ?d) (\<lambda>stored. case stored of
        Some r \<Rightarrow> Inr (Some (j1, r, ?d))
      | None \<Rightarrow> (case persist_blobs (ci_run_id c) blobs j1 of
          None \<Rightarrow> Inr None
        | Some j2 \<Rightarrow>
            res_bind (insert_row (ci_run_id c, ci_seq c) (checkpoint_row env payload ?d blobs) (jn_checkpoints j2)) (\<lambda>table.
            res_bind (make_commit_result (je_cfg env) Committed (Some (ci_seq c)) ?d []) (\<lambda>r.
            Inr (Some (j2\<lparr>jn_checkpoints := table,
              jn_checkpoint_head := advance_head (ci_run_id c) (ci_seq c) (jn_checkpoint_head j2)\<rparr>, r, ?d))))))"
    using True p by (auto simp: commit_checkpoint_locked_def Let_def or_conflict_def)
  from assms obtain stored where st: "checkpoint_coordinate env j c payload ?d = Inr stored" unfolding e by (auto simp: res_bind_eq_Inr)
  show ?thesis
  proof (cases stored)
    case (Some x)
    with assms st stored_result_status [OF st [unfolded checkpoint_coordinate_def Some]] show ?thesis unfolding e by auto
  next
    case None
    have "\<forall>(k, v) \<in> set blobs. je_bsha env v = k" using True by (auto simp: validated_blobs_def list_all_iff split: if_splits)
    then show ?thesis using assms st None p unfolding e
      by (auto simp: res_bind_eq_Inr dest: make_commit_result_status grows_insert split: option.splits)
  qed
qed

lemma locked_checkpoint_keeps:
  assumes "commit_checkpoint_locked env c blobs j j1 = Inr (Some (j', r, d))"
  shows "keeps env j1 j'"
  using checkpoint_effect [OF assms]
proof (elim disjE exE conjE)
  assume "j' = j1"
  then show ?thesis by (simp add: keeps_def)
next
  fix payload j2
  assume sha: "\<forall>(k, v) \<in> set blobs. je_bsha env v = k" and p: "persist_blobs (ci_run_id c) blobs j1 = Some j2"
    and n: "map_of (jn_checkpoints j2) (ci_run_id c, ci_seq c) = None"
    and j': "j' = j2\<lparr>jn_checkpoints := ((ci_run_id c, ci_seq c), checkpoint_row env payload d blobs) # jn_checkpoints j2,
               jn_checkpoint_head := advance_head (ci_run_id c) (ci_seq c) (jn_checkpoint_head j2)\<rparr>"
  from persist_blobs_effect [OF p, of env] obtain b a where j2: "j2 = j1\<lparr>jn_blobs := b, jn_run_blobs := a\<rparr>" "jn_blobs j1 \<subseteq>\<^sub>m b"
    "\<forall>r x. jn_run_blobs j1 r x \<longrightarrow> a r x" "(\<forall>(k, v) \<in> set blobs. je_bsha env v = k) \<longrightarrow> blobs_ok env (jn_blobs j1) \<longrightarrow> blobs_ok env b" .
  have "extends j1 j'" using n j2 by (simp add: extends_def j' grows_Cons run_events_def)
  moreover have "sound env j'" if "sound env j1" using sound_cong [of j' j1 env] that j2 sha by (simp add: j')
  moreover have "events_ok j' = events_ok j1" by (rule events_ok_cong) (simp_all add: j' j2)
  ultimately show ?thesis by (simp add: keeps_def calls_evolve_def)
qed

end
