(* ===== verification/Checkpoint.thy ===== *)
theory Checkpoint
  imports Lifecycle Cancel_Authority Public_Journal
begin

text \<open>
  Run checkpoints (\<open>core/checkpoint.py\<close>): the checkpoint object, its validation, its checked reader
  and writer, the blobs it refers to (with \<open>blob_shas_in_messages\<close> of \<open>core/media.py\<close>), and its
  latest record in the fenced run journal (\<open>adapters/postgres/sink.py\<close>).

  A checkpoint is a plain container of JSON values; it is the list of its attributes, in the order
  the class declares them. Sets of field names are visited in the order they are written down, which
  only matters for which of several refusals is reported. The texts of refusals name the field and
  the rule that was broken.
\<close>

section \<open>The checkpoint object\<close>

type_synonym run_checkpoint = pydict

definition CHECKPOINT_SCHEMA_VERSION :: string where
  "CHECKPOINT_SCHEMA_VERSION = namespaced_id ''checkpoint.v1''"

text \<open>The attributes with their defaults; the run id has none.\<close>

definition CHECKPOINT_ATTRIBUTES :: "(string \<times> pyval) list" where
  "CHECKPOINT_ATTRIBUTES = [
     (''run_id'', PNone), (''schema_version'', PStr CHECKPOINT_SCHEMA_VERSION), (''seq'', PInt 0),
     (''status'', PStr ''completed''), (''error'', PStr []), (''error_code'', PStr []),
     (''provider_error_code'', PStr []), (''provider_http_status'', PNone), (''final_text'', PStr []),
     (''previous_turn_handle'', PNone), (''pending_user_input'', PNone), (''pending_observations'', PList []),
     (''pending_binding_loads'', PList []), (''tool_call_counts'', PDict []), (''previous_runtime_config'', PNone),
     (''total_tool_calls'', PInt 0), (''output_retries'', PInt 0), (''total_usage'', PDict []),
     (''messages'', PList []), (''session_step'', PInt 0), (''submit_local_step'', PInt 0),
     (''terminal'', PBool False), (''hosted_tasks'', PList []), (''reentry_queue'', PList []),
     (''delivered_reentry_jobs'', PList []), (''workspace_delta'', PList []), (''workspace_base'', PNone),
     (''capability_leases'', PList []), (''pending_capability_replays'', PList []),
     (''pending_tool_approval_replays'', PList []), (''revoked_lease_ids'', PList []),
     (''revoked_capabilities'', PList []), (''revoked_before'', PFloat (Fin 0)), (''revoked_all'', PBool False),
     (''remaining_duration_s'', PNone), (''cancellation_requested'', PBool False), (''queued_messages'', PList []),
     (''inbox_seen_ids'', PList []), (''outbox_requests'', PList []), (''last_suspension'', PNone),
     (''applied_input_ids'', PList []), (''active_input'', PNone), (''applied_input_receipts'', PDict []),
     (''output_failure_history'', PList []), (''subagent_count'', PInt 0), (''subagent_usage'', PDict []),
     (''skill_activation_count'', PInt 0), (''skills_activated'', PList []), (''last_model_invocation'', PNone),
     (''interruption_cause'', PStr []), (''plan'', PList []), (''pending_finish'', PNone),
     (''pending_tool_loads'', PList [])]"

text \<open>The constructor call with keyword arguments.\<close>

definition make_checkpoint :: "pydict \<Rightarrow> run_checkpoint" where
  "make_checkpoint kw = map (\<lambda>(k, d). (k, case map_of kw k of Some v \<Rightarrow> v | None \<Rightarrow> d)) CHECKPOINT_ATTRIBUTES"

definition is_checkpoint :: "run_checkpoint \<Rightarrow> bool" where
  "is_checkpoint c \<longleftrightarrow> map fst c = map fst CHECKPOINT_ATTRIBUTES \<and> wf_val (PDict c)"

lemma is_checkpointD:
  assumes "is_checkpoint c"
  shows "map fst c = map fst CHECKPOINT_ATTRIBUTES" and "wf_val (PDict c)"
  using assms unfolding is_checkpoint_def by blast+

text \<open>\<open>to_json\<close>: the ingress copy of the attributes.\<close>

definition checkpoint_to_json :: "run_checkpoint \<Rightarrow> pydict res" where
  "checkpoint_to_json c = res_bind (strict_ingress (PDict c)) (\<lambda>n. case n of
      PDict d \<Rightarrow> Inr d | _ \<Rightarrow> Inl (ValueError ''checkpoint projection must be an object''))"

section \<open>Validation\<close>

definition ck_refusal :: "string \<Rightarrow> string \<Rightarrow> exn" where
  "ck_refusal field rule = ValueError (''checkpoint '' @ field @ '' '' @ rule)"

fun check_each :: "('a \<Rightarrow> unit res) \<Rightarrow> 'a list \<Rightarrow> unit res" where
  "check_each f [] = Inr ()"
| "check_each f (x # xs) = res_bind (f x) (\<lambda>_. check_each f xs)"

definition is_str :: "pyval \<Rightarrow> bool" where "is_str v = (case v of PStr _ \<Rightarrow> True | _ \<Rightarrow> False)"
definition is_bool :: "pyval \<Rightarrow> bool" where "is_bool v = (case v of PBool _ \<Rightarrow> True | _ \<Rightarrow> False)"
definition is_dict :: "pyval \<Rightarrow> bool" where "is_dict v = (case v of PDict _ \<Rightarrow> True | _ \<Rightarrow> False)"

text \<open>Membership of a value in a set of strings.\<close>

definition in_str_set :: "pyval \<Rightarrow> string list \<Rightarrow> bool res" where
  "in_str_set v ss = (if \<not> py_hashable v then Inl (TypeError ''unhashable type'')
     else Inr (case v of PStr s \<Rightarrow> s \<in> set ss | _ \<Rightarrow> False))"

definition require_member :: "pyval \<Rightarrow> string list \<Rightarrow> exn \<Rightarrow> unit res" where
  "require_member v ss e = res_bind (in_str_set v ss) (\<lambda>b. guard b e)"

definition require_nonempty_string :: "pyval \<Rightarrow> string \<Rightarrow> unit res" where
  "require_nonempty_string v field =
     guard (case v of PStr s \<Rightarrow> str_strip s \<noteq> [] | _ \<Rightarrow> False) (ck_refusal field ''must be a non-empty string'')"

definition require_nonnegative_int :: "pyval \<Rightarrow> string \<Rightarrow> unit res" where
  "require_nonnegative_int v field =
     guard (case v of PInt n \<Rightarrow> 0 \<le> n | _ \<Rightarrow> False) (ck_refusal field ''must be a non-negative integer'')"

definition require_finite_nonnegative_number :: "pyval \<Rightarrow> string \<Rightarrow> unit res" where
  "require_finite_nonnegative_number v field =
     guard (is_finite_json_number v \<and> \<not> negative_number v) (ck_refusal field ''must be a finite non-negative number'')"

definition require_list_of :: "pyval \<Rightarrow> (pyval \<Rightarrow> bool) \<Rightarrow> string \<Rightarrow> unit res" where
  "require_list_of v item field =
     guard (case v of PList xs \<Rightarrow> list_all item xs | _ \<Rightarrow> False) (ck_refusal field ''has an invalid list shape'')"

definition validate_counter_mapping :: "pyval \<Rightarrow> string \<Rightarrow> unit res" where
  "validate_counter_mapping v field = (case v of
      PDict d \<Rightarrow> check_each (\<lambda>(k, count). require_nonnegative_int count (field @ ''.'' @ k)) d
    | _ \<Rightarrow> Inl (ck_refusal field ''must be an object''))"

definition SUSPENSION_STRING_FIELDS :: "string list" where
  "SUSPENSION_STRING_FIELDS = [''final_text'', ''error'', ''error_code'', ''provider_error_code'', ''interruption_cause'']"

definition SUSPENSION_BOOL_FIELDS :: "string list" where
  "SUSPENSION_BOOL_FIELDS = [''has_external'', ''retryable'', ''config_recoverable'', ''provider_retried'',
     ''model_tool_calls_pending'']"

text \<open>A check that only applies when the key is present.\<close>

definition when_present :: "pydict \<Rightarrow> string \<Rightarrow> (pyval \<Rightarrow> unit res) \<Rightarrow> unit res" where
  "when_present d k f = (case map_of d k of None \<Rightarrow> Inr () | Some v \<Rightarrow> f v)"

definition cause_string :: "pyval \<Rightarrow> string \<Rightarrow> InterruptionCause option res" where
  "cause_string v field = (case v of
      PStr s \<Rightarrow> if s = [] then Inr None
        else (case InterruptionCause_of s of
            Inr c \<Rightarrow> Inr (Some c)
          | Inl _ \<Rightarrow> Inl (ck_refusal field ''is outside the portable vocabulary''))
    | _ \<Rightarrow> Inl (ck_refusal field ''is outside the portable vocabulary''))"

definition validate_suspension_payload :: "pyval \<Rightarrow> string \<Rightarrow> unit res" where
  "validate_suspension_payload v field = (case v of
      PNone \<Rightarrow> Inr ()
    | PDict d \<Rightarrow>
        res_bind (require_member (dget d ''reason'') SUSPENSION_REASONS
          (ck_refusal (field @ ''.reason'') ''is outside the park vocabulary'')) (\<lambda>_.
        res_bind (require_member (dget d ''status'') SUSPENSION_CHECKPOINT_STATUSES
          (ck_refusal (field @ ''.status'') ''is outside the durable vocabulary'')) (\<lambda>_.
        res_bind (check_each (\<lambda>k. when_present d k (\<lambda>x.
          guard (is_str x) (ck_refusal (field @ ''.'' @ k) ''must be a string''))) SUSPENSION_STRING_FIELDS) (\<lambda>_.
        res_bind (when_present d ''interruption_cause'' (\<lambda>x.
          res_bind (cause_string x (field @ ''.interruption_cause'')) (\<lambda>_. Inr ()))) (\<lambda>_.
        res_bind (check_each (\<lambda>k. when_present d k (\<lambda>x.
          guard (is_bool x) (ck_refusal (field @ ''.'' @ k) ''must be boolean''))) SUSPENSION_BOOL_FIELDS) (\<lambda>_.
        res_bind (when_present d ''http_status'' (\<lambda>x.
          if x = PNone then Inr () else require_nonnegative_int x (field @ ''.http_status''))) (\<lambda>_.
        when_present d ''awaiting_task_ids'' (\<lambda>x. require_list_of x is_str (field @ ''.awaiting_task_ids''))))))))
    | _ \<Rightarrow> Inl (ck_refusal field ''must be an object or null''))"

definition validate_active_input :: "pyval \<Rightarrow> unit res" where
  "validate_active_input v = (case v of
      PNone \<Rightarrow> Inr ()
    | PDict d \<Rightarrow>
        res_bind (require_nonempty_string (dget d ''input_id'') ''active_input.input_id'') (\<lambda>_.
        res_bind (require_member (dget d ''phase'') [''running'', ''completed'']
          (ck_refusal ''active_input.phase'' ''must be running or completed'')) (\<lambda>_.
        require_nonnegative_int (dget d ''source_seq'') ''active_input.source_seq''))
    | _ \<Rightarrow> Inl (ck_refusal ''active_input'' ''must be an object or null''))"

definition validate_pending_finish :: "pyval \<Rightarrow> unit res" where
  "validate_pending_finish v = (case v of
      PNone \<Rightarrow> Inr ()
    | PDict d \<Rightarrow>
        res_bind (guard (fst ` set d = {''summary'', ''outputs'', ''notes''})
          (ck_refusal ''pending_finish'' ''has an invalid object shape'')) (\<lambda>_.
        res_bind (guard (is_str (dget d ''summary'')) (ck_refusal ''pending_finish.summary'' ''must be a string'')) (\<lambda>_.
        res_bind (require_list_of (dget d ''outputs'') is_str ''pending_finish.outputs'') (\<lambda>_.
        guard (dget d ''notes'' = PNone \<or> is_str (dget d ''notes''))
          (ck_refusal ''pending_finish.notes'' ''must be a string or null''))))
    | _ \<Rightarrow> Inl (ck_refusal ''pending_finish'' ''must be an object or null''))"

section \<open>Receipts of applied inputs\<close>

definition REQUIRED_ACTIVATION_FIELDS :: "string list" where
  "REQUIRED_ACTIVATION_FIELDS = [''checkpoint_seq'', ''checkpoint_sha256'', ''state'', ''terminal'', ''suspension'',
     ''event_cursor'', ''stream_cursor'', ''outcome_kind'', ''retry_eligibility'', ''error_code'',
     ''provider_error_code'', ''interruption_cause'', ''terminal_outcome_ref'']"

definition session_state_ok :: "pyval \<Rightarrow> bool" where
  "session_state_ok v = (case v of PStr s \<Rightarrow> s \<in> state_value ` set all_states | _ \<Rightarrow> False)"

definition portable_cursor :: "int \<Rightarrow> pyval \<Rightarrow> bool" where
  "portable_cursor cfg v = (case v of PInt n \<Rightarrow> is_portable_json_integer cfg (IInt n) \<and> 0 \<le> n | _ \<Rightarrow> False)"

text \<open>The part of the receipt check that only applies to receipts of activations.\<close>

definition validate_activation_receipt :: "int \<Rightarrow> string \<Rightarrow> pydict \<Rightarrow> pyval \<Rightarrow> unit res" where
  "validate_activation_receipt cfg input_id r identity =
     (let prefix = ''applied_input_receipts.'' @ input_id in
      res_bind (guard (is_recorded_digest identity)
        (ck_refusal (prefix @ ''.command_identity_sha256'') ''must be a SHA-256 digest'')) (\<lambda>_.
      res_bind (guard (case identity of PStr s \<Rightarrow> input_id = ''monoid.activation/'' @ s | _ \<Rightarrow> False)
        (ck_refusal prefix ''activation identity is inconsistent'')) (\<lambda>_.
      res_bind (guard (list_all (\<lambda>k. dhas k r) REQUIRED_ACTIVATION_FIELDS)
        (ck_refusal prefix ''activation receipt is incomplete'')) (\<lambda>_.
      res_bind (guard (is_recorded_digest (dget r ''checkpoint_sha256''))
        (ck_refusal (prefix @ ''.checkpoint_sha256'') ''is invalid'')) (\<lambda>_.
      res_bind (guard (session_state_ok (dget r ''state'')) (ck_refusal (prefix @ ''.state'') ''is invalid'')) (\<lambda>_.
      res_bind (check_each (\<lambda>k. guard (portable_cursor cfg (dget r k))
        (ck_refusal (prefix @ ''.'' @ k) ''must be a non-negative portable integer''))
          [''event_cursor'', ''stream_cursor'']) (\<lambda>_.
      res_bind (guard (\<exists>s \<in> set TerminalOutcomeKind. dget r ''outcome_kind'' = PStr s)
        (ck_refusal (prefix @ ''.outcome_kind'') ''is invalid'')) (\<lambda>_.
      res_bind (guard (case dget r ''retry_eligibility'' of PStr s \<Rightarrow> is_ok (RetryEligibility_of s) | _ \<Rightarrow> False)
        (ck_refusal (prefix @ ''.retry_eligibility'') ''is invalid'')) (\<lambda>_.
      res_bind (check_each (\<lambda>k. guard (case dget r k of PStr s \<Rightarrow> code_or_empty s | _ \<Rightarrow> False)
        (ck_refusal (prefix @ ''.'' @ k) ''is invalid'')) [''error_code'', ''provider_error_code'']) (\<lambda>_.
      res_bind (cause_string (dget r ''interruption_cause'') (prefix @ ''.interruption_cause'')) (\<lambda>_.
      res_bind (guard (case dget r ''terminal_outcome_ref'' of PStr s \<Rightarrow> address_or_empty s | _ \<Rightarrow> False)
        (ck_refusal (prefix @ ''.terminal_outcome_ref'') ''is invalid'')) (\<lambda>_.
      guard (dget r ''terminal'' = PBool (py_truthy (dget r ''terminal_outcome_ref'')))
        (ck_refusal (prefix @ ''.terminal_outcome_ref'') ''disagrees with terminal'')))))))))))))"

definition validate_receipt :: "int \<Rightarrow> string \<Rightarrow> pyval \<Rightarrow> unit res" where
  "validate_receipt cfg input_id v =
     res_bind (require_nonempty_string (PStr input_id) ''applied_input_receipts key'') (\<lambda>_. case v of
       PDict r \<Rightarrow>
         (let prefix = ''applied_input_receipts.'' @ input_id in
          res_bind (when_present r ''checkpoint_seq'' (\<lambda>x. require_nonnegative_int x (prefix @ ''.checkpoint_seq''))) (\<lambda>_.
          res_bind (when_present r ''terminal'' (\<lambda>x. guard (is_bool x) (ck_refusal (prefix @ ''.terminal'') ''must be boolean''))) (\<lambda>_.
          res_bind (when_present r ''suspension'' (\<lambda>x. validate_suspension_payload x (prefix @ ''.suspension''))) (\<lambda>_.
          res_bind (check_each (\<lambda>k. when_present r k (\<lambda>x.
            guard (is_str x) (ck_refusal (prefix @ ''.'' @ k) ''must be a string'')))
              [''checkpoint_sha256'', ''state'', ''error'', ''error_code'']) (\<lambda>_.
          if dget r ''command_identity_sha256'' = PNone then Inr ()
          else validate_activation_receipt cfg input_id r (dget r ''command_identity_sha256''))))))
     | _ \<Rightarrow> Inl (ck_refusal ''applied_input_receipts values'' ''must be objects''))"

definition validate_receipts :: "int \<Rightarrow> pyval \<Rightarrow> unit res" where
  "validate_receipts cfg v = (case v of
      PDict d \<Rightarrow> check_each (\<lambda>(k, r). validate_receipt cfg k r) d
    | _ \<Rightarrow> Inl (ck_refusal ''applied_input_receipts'' ''must be an object''))"

section \<open>Payloads\<close>

definition CHECKPOINT_STRING_FIELDS :: "string list" where
  "CHECKPOINT_STRING_FIELDS = [''status'', ''error'', ''error_code'', ''provider_error_code'', ''final_text'']"

definition CHECKPOINT_OPTIONAL_STRING_FIELDS :: "string list" where
  "CHECKPOINT_OPTIONAL_STRING_FIELDS = [''previous_turn_handle'']"

definition CHECKPOINT_NONNEGATIVE_INT_FIELDS :: "string list" where
  "CHECKPOINT_NONNEGATIVE_INT_FIELDS = [''seq'', ''provider_http_status'', ''total_tool_calls'', ''output_retries'',
     ''session_step'', ''submit_local_step'', ''subagent_count'', ''skill_activation_count'']"

definition CHECKPOINT_BOOL_FIELDS :: "string list" where
  "CHECKPOINT_BOOL_FIELDS = [''terminal'', ''revoked_all'', ''cancellation_requested'']"

definition CHECKPOINT_LIST_OF_DICT_FIELDS :: "string list" where
  "CHECKPOINT_LIST_OF_DICT_FIELDS = [''pending_observations'', ''messages'', ''hosted_tasks'', ''workspace_delta'',
     ''capability_leases'', ''pending_capability_replays'', ''pending_tool_approval_replays'', ''outbox_requests'',
     ''output_failure_history'', ''plan'']"

definition CHECKPOINT_LIST_OF_STRING_FIELDS :: "string list" where
  "CHECKPOINT_LIST_OF_STRING_FIELDS = [''pending_binding_loads'', ''reentry_queue'', ''delivered_reentry_jobs'',
     ''revoked_lease_ids'', ''revoked_capabilities'', ''inbox_seen_ids'', ''applied_input_ids'', ''skills_activated'',
     ''pending_tool_loads'']"

text \<open>A check that only applies to a present value other than \<open>None\<close>.\<close>

definition when_not_none :: "pydict \<Rightarrow> string \<Rightarrow> (pyval \<Rightarrow> unit res) \<Rightarrow> unit res" where
  "when_not_none d k f = when_present d k (\<lambda>v. if v = PNone then Inr () else f v)"

definition validate_field_types :: "pydict \<Rightarrow> unit res" where
  "validate_field_types p =
     res_bind (require_nonempty_string (dget p ''run_id'') ''run_id'') (\<lambda>_.
     res_bind (check_each (\<lambda>k. when_present p k (\<lambda>v. guard (is_str v) (ck_refusal k ''must be a string'')))
       CHECKPOINT_STRING_FIELDS) (\<lambda>_.
     res_bind (check_each (\<lambda>k. when_not_none p k (\<lambda>v. guard (is_str v) (ck_refusal k ''must be a string or null'')))
       CHECKPOINT_OPTIONAL_STRING_FIELDS) (\<lambda>_.
     res_bind (check_each (\<lambda>k. when_not_none p k (\<lambda>v. require_nonnegative_int v k)) CHECKPOINT_NONNEGATIVE_INT_FIELDS) (\<lambda>_.
     res_bind (check_each (\<lambda>k. when_present p k (\<lambda>v. guard (is_bool v) (ck_refusal k ''must be boolean'')))
       CHECKPOINT_BOOL_FIELDS) (\<lambda>_.
     res_bind (check_each (\<lambda>k. when_present p k (\<lambda>v. require_list_of v is_dict k)) CHECKPOINT_LIST_OF_DICT_FIELDS) (\<lambda>_.
     res_bind (check_each (\<lambda>k. when_present p k (\<lambda>v. require_list_of v is_str k)) CHECKPOINT_LIST_OF_STRING_FIELDS) (\<lambda>_.
     res_bind (when_not_none p ''pending_user_input'' (\<lambda>v. require_list_of v is_dict ''pending_user_input'')) (\<lambda>_.
     check_each (\<lambda>k. when_not_none p k (\<lambda>v. guard (is_dict v) (ck_refusal k ''must be an object or null'')))
       [''previous_runtime_config'', ''workspace_base'', ''last_model_invocation'']))))))))"

definition validate_last_invocation :: "validator \<Rightarrow> int \<Rightarrow> (pydict \<Rightarrow> string) \<Rightarrow> pydict \<Rightarrow> unit res" where
  "validate_last_invocation va cfg sha p = (if dget p ''last_model_invocation'' = PNone then Inr ()
     else let r = decode_model_invocation va cfg sha (dget p ''last_model_invocation'') in
       res_bind (guard (lr_ok r) (ck_refusal ''last_model_invocation'' ''is invalid'')) (\<lambda>_.
       guard (case lr_value r of None \<Rightarrow> False | Some i \<Rightarrow> dget p ''run_id'' = PStr (iv_run_id i))
         (ck_refusal ''last_model_invocation run_id'' ''must match checkpoint run_id'')))"

definition validate_cancellation :: "pydict \<Rightarrow> unit res" where
  "validate_cancellation p =
     res_bind (case map_of p ''interruption_cause'' of None \<Rightarrow> Inr None
       | Some v \<Rightarrow> cause_string v ''interruption_cause'') (\<lambda>cause.
     guard (\<not> (dget p ''cancellation_requested'' = PBool True \<and>
         (case cause of None \<Rightarrow> False | Some c \<Rightarrow> c \<noteq> LEASE_LOST \<and> \<not> is_operational_cancellation_cause c)))
       (ck_refusal ''cancellation_requested'' ''requires an operational interruption cause''))"

definition queued_message_ok :: "pyval \<Rightarrow> bool" where
  "queued_message_ok v = (case v of PStr _ \<Rightarrow> True | PDict _ \<Rightarrow> True | PList ps \<Rightarrow> list_all is_dict ps | _ \<Rightarrow> False)"

definition validate_queued_messages :: "pyval \<Rightarrow> unit res" where
  "validate_queued_messages v = (case v of
      PList ms \<Rightarrow> guard (list_all queued_message_ok ms)
        (ck_refusal ''queued_messages entries'' ''must be strings, envelopes, or content lists'')
    | _ \<Rightarrow> Inl (ck_refusal ''queued_messages'' ''must be a list''))"

definition validate_checkpoint_payload :: "validator \<Rightarrow> int \<Rightarrow> (pydict \<Rightarrow> string) \<Rightarrow> pydict \<Rightarrow> unit res" where
  "validate_checkpoint_payload va cfg sha p =
     res_bind (validate_field_types p) (\<lambda>_.
     res_bind (when_present p ''last_suspension'' (\<lambda>v. validate_suspension_payload v ''last_suspension'')) (\<lambda>_.
     res_bind (when_present p ''pending_finish'' validate_pending_finish) (\<lambda>_.
     res_bind (validate_last_invocation va cfg sha p) (\<lambda>_.
     res_bind (validate_cancellation p) (\<lambda>_.
     res_bind (check_each (\<lambda>k. when_present p k (\<lambda>v. validate_counter_mapping v k))
       [''tool_call_counts'', ''total_usage'', ''subagent_usage'']) (\<lambda>_.
     res_bind (check_each (\<lambda>k. when_not_none p k (\<lambda>v. require_finite_nonnegative_number v k))
       [''revoked_before'', ''remaining_duration_s'']) (\<lambda>_.
     res_bind (when_present p ''queued_messages'' validate_queued_messages) (\<lambda>_.
     res_bind (when_present p ''active_input'' validate_active_input) (\<lambda>_.
     when_present p ''applied_input_receipts'' (validate_receipts cfg))))))))))"

definition checkpoint_from_payload :: "validator \<Rightarrow> int \<Rightarrow> (pydict \<Rightarrow> string) \<Rightarrow> pydict \<Rightarrow> run_checkpoint res" where
  "checkpoint_from_payload va cfg sha p =
     res_bind (validate_checkpoint_payload va cfg sha p) (\<lambda>_.
     Inr (make_checkpoint (filter (\<lambda>(k, _). k \<in> fst ` set CHECKPOINT_ATTRIBUTES) p)))"

definition CHECKPOINT_CODEC :: durable_codec where
  "CHECKPOINT_CODEC = \<lparr>dc_family = ''checkpoint'', dc_current_schema = CHECKPOINT_SCHEMA_VERSION, dc_current_version = 1,
     dc_namespaces = [''monoid'', ''native-agent-runner''], dc_migrations = (\<lambda>_. None)\<rparr>"

definition decode_checkpoint :: "validator \<Rightarrow> int \<Rightarrow> (pydict \<Rightarrow> string) \<Rightarrow> pyval \<Rightarrow> run_checkpoint load_result" where
  "decode_checkpoint va cfg sha v = codec_decode CHECKPOINT_CODEC v (checkpoint_from_payload va cfg sha)"

definition checkpoint_payload_for_write :: "validator \<Rightarrow> int \<Rightarrow> (pydict \<Rightarrow> string) \<Rightarrow> run_checkpoint \<Rightarrow> pydict res" where
  "checkpoint_payload_for_write va cfg sha c =
     res_bind (checkpoint_to_json c) (\<lambda>d.
     let p = AList.update ''schema_version'' (PStr CHECKPOINT_SCHEMA_VERSION) d in
     res_bind (if dget p ''last_model_invocation'' = PNone then Inr p
       else let r = decode_model_invocation va cfg sha (dget p ''last_model_invocation'') in
         (case (lr_ok r, lr_value r) of
            (True, Some i) \<Rightarrow> res_bind (model_invocation_payload_for_write va cfg sha i) (\<lambda>w.
              Inr (AList.update ''last_model_invocation'' (PDict w) p))
          | _ \<Rightarrow> Inl (ck_refusal ''last_model_invocation'' ''is invalid''))) (\<lambda>p.
     res_bind (validate_checkpoint_payload va cfg sha p) (\<lambda>_. Inr p)))"

section \<open>Blobs of a checkpoint\<close>

definition BLOB_SCHEME :: string where "BLOB_SCHEME = ''blob:''"

definition blob_suffix :: "pyval \<Rightarrow> string list" where
  "blob_suffix v = (case v of PStr s \<Rightarrow> if str_startswith s BLOB_SCHEME then [drop (length BLOB_SCHEME) s] else [] | _ \<Rightarrow> [])"

definition parts_of :: "pyval \<Rightarrow> pyval list" where
  "parts_of v = (case v of PList ps \<Rightarrow> ps | _ \<Rightarrow> [])"

definition attr :: "pyval \<Rightarrow> string \<Rightarrow> pyval" where
  "attr v k = (case v of PDict d \<Rightarrow> dget d k | _ \<Rightarrow> PNone)"

definition blob_shas_in_messages :: "pyval list \<Rightarrow> string list" where
  "blob_shas_in_messages ms = concat (map (\<lambda>m. concat (map (\<lambda>k.
     concat (map (\<lambda>part. blob_suffix (attr part ''source_ref'')) (parts_of (attr m k)))) [''content'', ''media''])) ms)"

definition message_carrier :: "pyval \<Rightarrow> pyval list" where
  "message_carrier v = (case v of PList ps \<Rightarrow> [PDict [(''content'', PList ps)]] | PDict d \<Rightarrow> [PDict d] | _ \<Rightarrow> [])"

definition checkpoint_blob_references :: "validator \<Rightarrow> int \<Rightarrow> (pydict \<Rightarrow> string) \<Rightarrow> run_checkpoint \<Rightarrow> string list res" where
  "checkpoint_blob_references va cfg sha c =
     (let delta = concat (map (\<lambda>item. case attr item ''content_sha256'' of PStr s \<Rightarrow> if s = [] then [] else [s] | _ \<Rightarrow> [])
            (parts_of (dget c ''workspace_delta'')));
          refs = delta @ blob_shas_in_messages (parts_of (dget c ''messages'')) @
            blob_shas_in_messages (concat (map message_carrier (parts_of (dget c ''queued_messages'')))) in
      if dget c ''last_model_invocation'' = PNone then Inr refs
      else let r = decode_model_invocation va cfg sha (dget c ''last_model_invocation'') in
        (case (lr_ok r, lr_value r) of
           (True, Some i) \<Rightarrow> Inr (refs @ blob_suffix (PStr (iv_result_ref i)))
         | _ \<Rightarrow> Inl (ck_refusal ''last_model_invocation'' ''is invalid'')))"

section \<open>Committed records\<close>

record checkpoint_record =
  kr_seq :: int
  kr_checkpoint :: run_checkpoint

definition ck_run_id :: "run_checkpoint \<Rightarrow> pyval" where "ck_run_id c = dget c ''run_id''"
definition ck_seq :: "run_checkpoint \<Rightarrow> pyval" where "ck_seq c = dget c ''seq''"

definition bind_checkpoint_record_result :: "checkpoint_record load_result \<Rightarrow> string \<Rightarrow> checkpoint_record load_result" where
  "bind_checkpoint_record_result r run = (if \<not> lr_ok r then r
     else case lr_value r of
       None \<Rightarrow> codec_corrupt CHECKPOINT_CODEC None (lr_sequence r)
     | Some k \<Rightarrow>
         if kr_seq k < 0 then codec_corrupt CHECKPOINT_CODEC None (lr_sequence r)
         else if ck_run_id (kr_checkpoint k) \<noteq> PStr run \<or> ck_seq (kr_checkpoint k) \<noteq> PInt (kr_seq k) \<or>
           (lr_sequence r \<noteq> None \<and> lr_sequence r \<noteq> Some (kr_seq k))
         then codec_corrupt CHECKPOINT_CODEC None (Some (kr_seq k))
         else r\<lparr>lr_sequence := Some (kr_seq k)\<rparr>)"

text \<open>\<open>PostgresFencedRunSink.latest_checked\<close>.\<close>

definition decode_env_checkpoint :: "journal_env \<Rightarrow> pyval \<Rightarrow> run_checkpoint load_result" where
  "decode_env_checkpoint env = decode_checkpoint (je_va env) (je_cfg env) (je_sha env)"

definition latest_checked :: "journal_env \<Rightarrow> bool \<Rightarrow> journal \<Rightarrow> string \<Rightarrow> checkpoint_record load_result res" where
  "latest_checked env ready j run =
     res_bind (guard ready (SchemaIncompatible ''fenced run sink'')) (\<lambda>_.
     res_bind (guard (opaque_id run) (ValueError ''PostgreSQL checkpoint run_id must be a bounded opaque id'')) (\<lambda>_.
     case jn_checkpoint_head j run of
       None \<Rightarrow> Inr (codec_missing CHECKPOINT_CODEC)
     | Some n \<Rightarrow> Inr (case map_of (jn_checkpoints j) (run, n) of
           None \<Rightarrow> codec_corrupt CHECKPOINT_CODEC None (Some n)
         | Some r \<Rightarrow>
             if checked_stored_digest env (sr_payload r) (sr_blobs r) (sr_digest r) = None \<or>
                \<not> payload_matches_typed_values (sr_payload r) CHECKPOINT_TYPED_FIELDS (PStr run # PInt n # sr_typed r)
             then codec_corrupt CHECKPOINT_CODEC None (Some n)
             else bind_checkpoint_record_result
               ((lr_map (\<lambda>c. \<lparr>kr_seq = n, kr_checkpoint = c\<rparr>)
                  (decode_env_checkpoint env (PDict (sr_payload r))))\<lparr>lr_sequence := Some n\<rparr>) run)))"

text \<open>What the sink takes from a checkpoint.\<close>

fun str_val :: "pyval \<Rightarrow> string" where "str_val (PStr s) = s" | "str_val _ = []"
fun int_val :: "pyval \<Rightarrow> int" where "int_val (PInt n) = n" | "int_val _ = 0"

definition checkpoint_input_of :: "journal_env \<Rightarrow> run_checkpoint \<Rightarrow> checkpoint_input" where
  "checkpoint_input_of env c = \<lparr>ci_run_id = str_val (ck_run_id c), ci_seq = int_val (ck_seq c),
     ci_payload = checkpoint_payload_for_write (je_va env) (je_cfg env) (je_sha env) c,
     ci_references = checkpoint_blob_references (je_va env) (je_cfg env) (je_sha env) c\<rparr>"

text \<open>What a process hands to the sink is a checkpoint with an integer sequence number.\<close>

definition real_checkpoint :: "journal_env \<Rightarrow> checkpoint_input \<Rightarrow> bool" where
  "real_checkpoint env ci \<longleftrightarrow> (\<exists>c n. is_checkpoint c \<and> ck_seq c = PInt n \<and> ci = checkpoint_input_of env c)"

section \<open>Writing and reading\<close>

lemma attributes_distinct: "distinct (map fst CHECKPOINT_ATTRIBUTES)"
  by (simp add: CHECKPOINT_ATTRIBUTES_def)

lemma constructor_id:
  assumes "map fst p = map fst as" and "distinct (map fst as)"
  shows "map (\<lambda>(k, d). (k, case map_of p k of Some v \<Rightarrow> v | None \<Rightarrow> d)) as = p"
  using assms
proof (induction as arbitrary: p)
  case (Cons a as)
  then obtain v p' where p: "p = (fst a, v) # p'" and t: "map fst p' = map fst as" by (cases p) auto
  have "map_of p k = map_of p' k" if "k \<in> fst ` set as" for k
    using Cons.prems(2) that p by (cases "k = fst a") simp_all
  then have "map (\<lambda>(k, d). (k, case map_of p k of Some v \<Rightarrow> v | None \<Rightarrow> d)) as =
      map (\<lambda>(k, d). (k, case map_of p' k of Some v \<Rightarrow> v | None \<Rightarrow> d)) as"
    by (intro map_cong) (auto simp: rev_image_eqI)
  with Cons.IH [OF t] Cons.prems(2) p show ?case by (cases a) simp
qed simp

lemma make_checkpoint_id:
  assumes "map fst p = map fst CHECKPOINT_ATTRIBUTES"
  shows "make_checkpoint (filter (\<lambda>(k, _). k \<in> fst ` set CHECKPOINT_ATTRIBUTES) p) = p"
proof -
  have "fst ` set p = fst ` set CHECKPOINT_ATTRIBUTES" using arg_cong [OF assms, of set] by simp
  then have "filter (\<lambda>(k, _). k \<in> fst ` set CHECKPOINT_ATTRIBUTES) p = p"
    by (subst filter_id_conv) (metis (no_types, lifting) case_prod_unfold image_eqI)
  then show ?thesis unfolding make_checkpoint_def using constructor_id [OF assms attributes_distinct] by simp
qed

lemma checkpoint_to_json_wf:
  "wf_val (PDict c) \<Longrightarrow> checkpoint_to_json c = Inr (map (\<lambda>(k, v). (k, norm_val False v)) c)"
  unfolding checkpoint_to_json_def by (simp add: strict_ingress_wf)

lemma norm_items_get: "dget (map (\<lambda>(k, v). (k, norm_val False v)) c) k = norm_val False (dget c k)"
  by (induction c) (auto simp: dget_def)

text \<open>A loaded invocation is written back as the object it was read from.\<close>

lemma reposted_invocation:
  assumes "wf_val v" and "norm_val False v = v" and "lr_value (decode_model_invocation va cfg sha v) = Some i"
  shows "\<exists>w. model_invocation_payload_for_write va cfg sha i = Inr w \<and> v = PDict w"
proof -
  from decode_value [OF assms(1,3)] obtain src where v: "v = PDict src"
    and l: "model_invocation_from_payload va cfg sha src = Inr i" using assms(2) by auto
  from l obtain i0 j where i: "i = i0\<lparr>iv_source_envelope := Some (src, sha j)\<rparr>" and j: "invocation_to_json va cfg i0 = Inr j"
    unfolding model_invocation_from_payload_def Let_def res_bind_eq_Inr by (elim exE conjE) (rule that, simp_all)
  have "invocation_to_json va cfg i = Inr j"
    using j by (simp add: i invocation_to_json_def invocation_members_def allows_facts_def)
  then have "model_invocation_payload_for_write va cfg sha i = Inr src"
    by (simp add: model_invocation_payload_for_write_def i)
  with v show ?thesis by blast
qed

text \<open>The written payload: the copy of the attributes, under the current schema version.\<close>

definition written_payload :: "run_checkpoint \<Rightarrow> pydict" where
  "written_payload c = AList.update ''schema_version'' (PStr CHECKPOINT_SCHEMA_VERSION)
     (map (\<lambda>(k, v). (k, norm_val False v)) c)"

lemma set_update: "set (AList.update k v d) \<subseteq> insert (k, v) (set d)"
  by (induction d) auto

lemma keys_of_checkpoint:
  assumes "map fst c = map fst CHECKPOINT_ATTRIBUTES"
  shows "''schema_version'' \<in> fst ` set c" "''last_model_invocation'' \<in> fst ` set c"
proof -
  have "fst ` set c = fst ` set CHECKPOINT_ATTRIBUTES" using arg_cong [OF assms, of set] by simp
  then show "''schema_version'' \<in> fst ` set c" "''last_model_invocation'' \<in> fst ` set c"
    by (simp_all add: CHECKPOINT_ATTRIBUTES_def)
qed

lemma written_keys:
  assumes "is_checkpoint c" shows "map fst (written_payload c) = map fst CHECKPOINT_ATTRIBUTES"
proof -
  have m: "map fst (map (\<lambda>(k, v). (k, norm_val False v)) c) = map fst CHECKPOINT_ATTRIBUTES"
    using assms by (auto simp: is_checkpoint_def comp_def case_prod_unfold)
  show ?thesis unfolding written_payload_def update_keys m using keys_of_checkpoint(1) [OF m] arg_cong [OF m, of set]
    by (simp add: CHECKPOINT_ATTRIBUTES_def)
qed

lemma written_get:
  "dget (written_payload c) k = (if k = ''schema_version'' then PStr CHECKPOINT_SCHEMA_VERSION else norm_val False (dget c k))"
  by (simp add: written_payload_def dget_update norm_items_get)

lemma written_wf: assumes "is_checkpoint c" shows "wf_val (PDict (written_payload c))"
proof -
  note c = is_checkpointD(2) [OF assms]
  have "distinct (map fst (written_payload c))" 
    unfolding written_keys [OF assms] by (rule attributes_distinct)
  moreover have "wf_val v" if "(k, v) \<in> set (written_payload c)" for k v
  proof -
    from that have "(k, v) \<in> set (map (\<lambda>(k, v). (k, norm_val False v)) c) \<or> v = PStr CHECKPOINT_SCHEMA_VERSION"
      using set_update [of "''schema_version''" "PStr CHECKPOINT_SCHEMA_VERSION"] unfolding written_payload_def by blast
    then show ?thesis using wf_norm_val [OF c, of False] by (auto simp: list_all_iff)
  qed
  ultimately show ?thesis by (auto simp: list_all_iff)
qed

lemma written_items_norm: "map (\<lambda>(k, v). (k, norm_val False v)) (written_payload c) = written_payload c"
proof -
  have "map (\<lambda>(k, v). (k, norm_val False v)) (AList.update k (PStr s) d) =
      AList.update k (PStr s) (map (\<lambda>(k, v). (k, norm_val False v)) d)" for k s and d :: pydict
    by (induction d) auto
  moreover have "map (\<lambda>(k, v). (k, norm_val False v)) (map (\<lambda>(k, v). (k, norm_val False v)) c) =
      map (\<lambda>(k, v). (k, norm_val False v)) c"
    by (auto simp: case_prod_unfold)
  ultimately show ?thesis unfolding written_payload_def by (simp only:)
qed

lemma written_is_checkpoint: "is_checkpoint c \<Longrightarrow> is_checkpoint (written_payload c)"
  unfolding is_checkpoint_def [of "written_payload c"] using written_keys written_wf by blast

lemma written_again: "is_checkpoint c \<Longrightarrow> written_payload (written_payload c) = written_payload c"
  unfolding written_payload_def [of "written_payload c"] written_items_norm
  by (rule update_triv) (simp add: written_payload_def update_conv')

text \<open>A checkpoint is accepted for writing exactly when the copy of its attributes is valid, and that is
  what is written.\<close>

lemma checkpoint_written:
  assumes "is_checkpoint c"
  shows "checkpoint_payload_for_write va cfg sha c =
    (if dget (written_payload c) ''last_model_invocation'' = PNone \<or>
        lr_ok (decode_model_invocation va cfg sha (dget (written_payload c) ''last_model_invocation''))
     then res_bind (validate_checkpoint_payload va cfg sha (written_payload c)) (\<lambda>_. Inr (written_payload c))
     else Inl (ck_refusal ''last_model_invocation'' ''is invalid''))"
proof -
  let ?p = "written_payload c" and ?k = "''last_model_invocation''"
  let ?r = "decode_model_invocation va cfg sha (dget ?p ?k)"
  note w = is_checkpointD(2) [OF assms]
  have n: "norm_val False (dget ?p ?k) = dget ?p ?k" by (simp add: written_get)
  have h: "map_of ?p ?k = Some (dget ?p ?k)"
    using keys_of_checkpoint(2) [OF written_keys [OF assms]] by (auto simp: dget_def map_of_eq_None_iff split: option.split)
  have same: "res_bind (model_invocation_payload_for_write va cfg sha i) (\<lambda>w. Inr (AList.update ?k (PDict w) ?p)) = Inr ?p"
    if "lr_value ?r = Some i" for i
    using reposted_invocation [OF wf_dget [OF written_wf [OF assms]] n that] h update_triv [of ?p ?k] by auto
  have e: "checkpoint_payload_for_write va cfg sha c = res_bind (if dget ?p ?k = PNone then Inr ?p
       else (case (lr_ok ?r, lr_value ?r) of
            (True, Some i) \<Rightarrow> res_bind (model_invocation_payload_for_write va cfg sha i) (\<lambda>w. Inr (AList.update ?k (PDict w) ?p))
          | _ \<Rightarrow> Inl (ck_refusal ?k ''is invalid''))) (\<lambda>p. res_bind (validate_checkpoint_payload va cfg sha p) (\<lambda>_. Inr p))"
    unfolding checkpoint_payload_for_write_def checkpoint_to_json_wf [OF w] res_bind_Inr Let_def written_payload_def ..
  show ?thesis
  proof (cases "lr_ok ?r")
    case True
    then obtain i where i: "lr_value ?r = Some i" by (auto simp: lr_ok_def)
    from same [OF this] show ?thesis unfolding e i using True by simp
  next
    case False
    then show ?thesis unfolding e by simp
  qed
qed

lemma checkpoint_version:
  "parse_artifact_version (PStr CHECKPOINT_SCHEMA_VERSION) =
     Some \<lparr>av_namespace = ''monoid'', av_family = ''checkpoint'', av_version = 1, av_raw = CHECKPOINT_SCHEMA_VERSION\<rparr>"
  by (simp add: CHECKPOINT_SCHEMA_VERSION_def namespaced_id_def CURRENT_NAMESPACE_def parse_artifact_version_def
      rsplit_dot_def version_of_token_def is_digit_char_def in_range_def digits_at_def MAX_ARTIFACT_VERSION_DIGITS_def)

lemma written_decodes:
  assumes "is_checkpoint c" and "checkpoint_payload_for_write va cfg sha c = Inr p"
  shows "p = written_payload c" "lr_status (decode_checkpoint va cfg sha (PDict p)) = Loaded"
    "lr_value (decode_checkpoint va cfg sha (PDict p)) = Some p" "checkpoint_payload_for_write va cfg sha p = Inr p"
proof -
  show p: "p = written_payload c" using assms(2) unfolding checkpoint_written [OF assms(1)]
    by (auto simp: res_bind_eq_Inr split: if_splits)
  have v: "validate_checkpoint_payload va cfg sha p = Inr ()" using assms(2) unfolding checkpoint_written [OF assms(1)]
    by (auto simp: res_bind_eq_Inr split: if_splits)
  have l: "checkpoint_from_payload va cfg sha p = Inr p"
    unfolding checkpoint_from_payload_def v res_bind_Inr using make_checkpoint_id [OF written_keys [OF assms(1)]] p by simp
  have s: "dget p ''schema_version'' = PStr CHECKPOINT_SCHEMA_VERSION" by (simp add: p written_get)
  show "lr_status (decode_checkpoint va cfg sha (PDict p)) = Loaded" "lr_value (decode_checkpoint va cfg sha (PDict p)) = Some p"
    unfolding decode_checkpoint_def
    using codec_decode_current [of p _ CHECKPOINT_CODEC, unfolded s, OF checkpoint_version, of "checkpoint_from_payload va cfg sha" p] l
    by (simp_all add: CHECKPOINT_CODEC_def)
  show "checkpoint_payload_for_write va cfg sha p = Inr p"
    using assms(2) checkpoint_written [OF written_is_checkpoint [OF assms(1)]] written_again [OF assms(1)]
      checkpoint_written [OF assms(1)] p by metis
qed

end
