(* ===== verification/Journal_History.thy ===== *)
theory Journal_History
  imports Checkpoint
begin

text \<open>
  Histories of the fenced run journal: sequences of mutations by any writers, with lost responses,
  failing statements, transactions of other runs in between and changes of authority. The
  properties of the journal are stated here.
\<close>

section \<open>Mutations and runs\<close>

datatype mutation =
    CommitInvocation invocation blob_map bool
  | CommitEvidence invocation
  | AppendEvent agent_event
  | SettleTerminal terminal_outcome
  | CommitCheckpoint checkpoint_input blob_map

fun perform :: "journal_env \<Rightarrow> bool \<Rightarrow> attempt \<Rightarrow> writer_token \<Rightarrow> mutation \<Rightarrow> journal \<Rightarrow> journal \<times> commit_result res" where
  "perform env ready tx t (CommitInvocation i blobs stage) = commit_invocation env ready tx i blobs t stage"
| "perform env ready tx t (CommitEvidence i) = commit_model_evidence env ready tx i t"
| "perform env ready tx t (AppendEvent e) = append_event env ready tx e t"
| "perform env ready tx t (SettleTerminal x) = settle_terminal env ready tx x t"
| "perform env ready tx t (CommitCheckpoint c blobs) = commit_checkpoint env ready tx c blobs t"

definition submits :: "journal_env \<Rightarrow> mutation \<Rightarrow> bool" where
  "submits env m = (case m of CommitInvocation i _ _ \<Rightarrow> submittable env i
     | CommitCheckpoint c _ \<Rightarrow> real_checkpoint env c | _ \<Rightarrow> True)"

text \<open>Before a mutation it is not known which transactions of other writers come in between, only that
  they are mutations too.\<close>

inductive journal_run :: "journal_env \<Rightarrow> journal \<Rightarrow> journal \<Rightarrow> bool" for env :: journal_env where
  start: "journal_run env j j"
| mutate: "journal_run env j j1 \<Longrightarrow> submits env m \<Longrightarrow> concurrent_ok env tx \<Longrightarrow> (\<And>x. journal_run env x (tx_later tx x)) \<Longrightarrow>
    perform env ready tx t m j1 = (j2, r) \<Longrightarrow> journal_run env j j2"
| authority: "journal_run env j j1 \<Longrightarrow> journal_run env j (j1\<lparr>jn_authority := a\<rparr>)"

lemma perform_keeps:
  assumes "env_ok env" and "submits env m" and "good_tx env tx"
  shows "keeps env j (fst (perform env ready tx t m j))"
proof (cases m)
  case (CommitInvocation i blobs stage)
  have "concurrent_ok env tx" using assms(3) by (simp add: good_tx_def)
  then show ?thesis using CommitInvocation assms jr.mutation_rel [OF assms(3)] locked_invocation_keeps [OF assms(1)]
    by (simp add: commit_invocation_def submits_def)
next
  case (CommitEvidence i)
  then show ?thesis using jr.mutation_rel [OF assms(3)] locked_evidence_keeps by (simp add: commit_model_evidence_def)
next
  case (AppendEvent e)
  then show ?thesis using jr.mutation_rel [OF assms(3)] locked_event_keeps by (simp add: append_event_def)
next
  case (SettleTerminal x)
  then show ?thesis using jr.mutation_rel [OF assms(3)] locked_terminal_keeps by (simp add: settle_terminal_def)
next
  case (CommitCheckpoint c blobs)
  then show ?thesis using jr.mutation_rel [OF assms(3)] locked_checkpoint_keeps by (simp add: commit_checkpoint_def)
qed

lemma authority_keeps: "keeps env j (j\<lparr>jn_authority := a\<rparr>)"
proof -
  let ?j = "j\<lparr>jn_authority := a\<rparr>"
  have "extends j ?j" by (simp add: extends_def run_events_def)
  moreover have "sound env ?j" if "sound env j" using sound_cong [of ?j j env] that by simp
  moreover have "events_ok ?j = events_ok j" by (rule events_ok_cong) simp_all
  ultimately show ?thesis by (simp add: keeps_def calls_evolve_def)
qed

lemma run_keeps:
  assumes "env_ok env" and "journal_run env j j'"
  shows "keeps env j j'"
  using assms(2)
proof induction
  case (start j)
  show ?case by (rule jr.rel_refl)
next
  case (mutate j j1 m tx ready t j2 r)
  have "good_tx env tx" using mutate by (simp add: good_tx_def)
  from perform_keeps [OF assms(1) mutate(2) this, of j1 ready t] have "keeps env j1 j2" by (simp add: mutate)
  with mutate.IH show ?case by (blast intro: keeps_trans)
next
  case (authority j j1 a)
  then show ?case using authority_keeps keeps_trans by blast
qed

definition empty_journal :: "authority_table \<Rightarrow> journal" where
  "empty_journal a = \<lparr>jn_authority = a, jn_blobs = Map.empty, jn_run_blobs = (\<lambda>_ _. False), jn_checkpoints = [],
     jn_checkpoint_head = Map.empty, jn_invocations = [], jn_invocation_head = Map.empty, jn_evidence = [],
     jn_outbox = [], jn_events = [], jn_event_head = Map.empty, jn_terminals = []\<rparr>"

lemma empty_sound: "sound env (empty_journal a)" "events_ok (empty_journal a)"
  by (auto simp: sound_def calls_ok_def rows_sound_def heads_cover_def chained_def ids_fresh_def stored_call_def
      results_ok_def outbox_ok_def blobs_ok_def events_ok_def empty_journal_def)

section \<open>A small journal\<close>

definition demo_journal_env :: journal_env where
  "demo_journal_env = \<lparr>je_va = strict_validator, je_cfg = 0, je_sha = (\<lambda>_. replicate 64 (CHR ''a'')),
     je_bsha = (\<lambda>_. replicate 64 (CHR ''b'')), je_max_blob = 1000, je_instant = (\<lambda>_. 0)\<rparr>"

definition demo_tx :: attempt where
  "demo_tx = \<lparr>tx_now = 5, tx_concurrent = (\<lambda>b. b), tx_fault = NoFault, tx_later = (\<lambda>j. j), tx_reread_now = 5,
     tx_reread_fails = False\<rparr>"

definition demo_token :: writer_token where
  "demo_token = \<lparr>wt_run_id = ''r1'', wt_owner_id = ''w1'', wt_generation = 1\<rparr>"

definition demo_authority :: authority_table where
  "demo_authority = [''r1'' \<mapsto> \<lparr>ar_owner_id = ''w1'', ar_generation = 1, ar_leased_until = 9, ar_revoked = False, ar_updated_at = 0\<rparr>]"

lemma demo_journal_env_ok: "env_ok demo_journal_env"
  by (simp add: env_ok_def demo_journal_env_def strict_validator_strict digits_limit_ok_def recorded_digest_def list_all_iff
      is_hex_char_def in_range_def)

lemma demo_run: "submits demo_journal_env m \<Longrightarrow> journal_run demo_journal_env j (fst (perform demo_journal_env True demo_tx t m j))"
  by (rule journal_run.mutate [OF journal_run.start, where m = m and tx = demo_tx and t = t and ready = True])
     (auto simp: demo_tx_def concurrent_ok_def intro: journal_run.start prod.collapse [symmetric])

definition demo_first :: invocation where
  "demo_first = demo_invocation\<lparr>iv_revision := 1, iv_dispatch_state := Reserved, iv_evidence_policy := Passive, iv_receipt := None,
     iv_failure_code := []\<rparr>"

lemma demo_first_facts: "members_ok 0 demo_first" "receipt_fits demo_first None" "iv_receipt demo_first = None"
  "iv_source_envelope demo_first = None"
  using demo_invocation_facts(1) by (simp_all add: members_ok_def receipt_fits_def demo_first_def demo_invocation_def state_shape_def
      is_portable_json_integer_def UNCONDITIONALLY_SPELLABLE_INT_def)

lemma demo_first_submittable: "submittable demo_journal_env demo_first"
proof -
  have c: "opt_receipt_canonical strict_validator 0 f None" for f by (simp add: opt_receipt_canonical_def)
  have "make_invocation strict_validator 0 demo_first = Inr demo_first"
    using demo_first_facts opt_receipt_id [OF c] by (simp add: make_invocation_fixed)
  then show ?thesis using c demo_first_facts(3,4) by (simp add: submittable_def demo_journal_env_def)
qed

lemma demo_authority_ok: "table_ok demo_authority"
  by (auto simp: table_ok_def demo_authority_def row_ok_def POSTGRES_BIGINT_MAX_def opaque_id_def is_alnum_char_def
      is_id_char_def is_lower_char_def is_digit_char_def in_range_def)

lemma demo_writer_current:
  "current_writer_locked (je_cfg demo_journal_env) demo_authority demo_token n = Inr (n < 9)"
  using current_writer_ok [OF demo_lease_facts(1) demo_authority_ok]
  by (simp add: demo_journal_env_def demo_authority_def demo_token_def row_active_def row_token_def)

lemma demo_first_admitted: "\<exists>payload. revision_admitted demo_journal_env demo_first [] False (empty_journal a) payload"
proof -
  obtain p i' where "payload_for_write demo_journal_env demo_first = Inr p"
    by (rule submitted_payload [OF demo_journal_env_ok demo_first_submittable])
  then have "revision_admitted demo_journal_env demo_first [] False (empty_journal a) p"
    by (simp add: revision_admitted_def stage_flag_ok_def invocation_transition_winner_def invocation_head_def result_references_def
        references_resolve_def submitted_blobs_preserve_backing_def empty_journal_def demo_first_def demo_invocation_def
        POSTGRES_BIGINT_MAX_def)
  then show ?thesis ..
qed

section \<open>Fencing\<close>

lemma perform_mutation:
  "\<exists>run fenced locked rolled_back reconcile. perform env ready tx t m = fenced_mutation env ready tx run t fenced locked rolled_back reconcile \<and>
     (\<forall>x. fenced = Inr x \<longrightarrow> cr_status x = CommitFenced)"
proof -
  have f: "fenced_result env sq = Inr x \<Longrightarrow> cr_status x = CommitFenced" for sq x
    by (auto simp: fenced_result_def dest: make_commit_result_status)
  show ?thesis
    by (cases m) (auto simp: commit_invocation_def commit_model_evidence_def append_event_def settle_terminal_def
        commit_checkpoint_def intro!: exI conjI dest: f)
qed

text \<open>C10. A writer that lost its lease publishes nothing. Once the token of a writer has been overtaken,
  released or expired, then whatever claims, renewals and releases follow, no mutation it submits
  at any later time writes a record, whichever of its statements or responses fail; and no such
  call is ever answered with a success or a conflict, only with \<open>fenced\<close> or an exception.\<close>

theorem stale_writer_publishes_nothing:
  assumes "env_ok env" and "table_ok tbl" and "token_lost tbl t now" and "list_all op_ttl_normal ops"
    and "list_all (\<lambda>x. \<forall>n. now \<le> op_clock x n) ops"
    and "jn_authority j = fold (authority_apply (je_cfg env)) ops tbl" and "now \<le> tx_now tx"
    and "perform env ready tx t m j = (j', r)"
  shows "(j' = j \<or> j' = j\<lparr>jn_blobs := tx_concurrent tx (jn_blobs j)\<rparr>) \<and> (\<forall>c. r = Inr c \<longrightarrow> cr_status c = CommitFenced)"
proof -
  have cfg: "digits_limit_ok (je_cfg env)" using assms(1) by (simp add: env_ok_def)
  have "token_lost (jn_authority j) t now" unfolding assms(6)
    by (rule token_lost_history [OF cfg assms(2,4,5,3)])
  moreover have "table_ok (jn_authority j)" unfolding assms(6) using table_ok_history [OF cfg assms(2,4)] .
  ultimately have stale: "current_writer_locked (je_cfg env) (jn_authority j) t (tx_now tx) = Inr False"
    using token_lost_not_current [OF cfg] assms(7) by blast
  from perform_mutation [of env ready tx t m] obtain run fenced locked rolled_back reconcile where
    p: "perform env ready tx t m = fenced_mutation env ready tx run t fenced locked rolled_back reconcile"
    and f: "\<forall>x. fenced = Inr x \<longrightarrow> cr_status x = CommitFenced" by blast
  from stale_mutation [OF stale assms(8) [unfolded p]] f show ?thesis by (auto simp: others_def)
qed

theorem stale_writer_publishes_nothing_witness:
  "(let j = empty_journal demo_authority; tx = demo_tx\<lparr>tx_now := 20\<rparr>;
        (j', r) = perform demo_journal_env True tx demo_token (CommitInvocation demo_first [] False) j in
    j' = j \<and> (\<forall>c. \<not> (r = Inr c \<and> cr_status c = Committed)))"
proof -
  let ?tx = "demo_tx\<lparr>tx_now := 20\<rparr>" and ?j = "empty_journal demo_authority"
  let ?p = "perform demo_journal_env True ?tx demo_token (CommitInvocation demo_first [] False) ?j"
  have "token_lost demo_authority demo_token 10"
    by (simp add: token_lost_def demo_authority_def demo_token_def row_active_def)
  from stale_writer_publishes_nothing [OF demo_journal_env_ok demo_authority_ok this, of "[]" ?j ?tx True "CommitInvocation demo_first [] False" "fst ?p" "snd ?p"]
  show ?thesis by (cases ?p) (auto simp: empty_journal_def demo_tx_def)
qed

section \<open>Immutability\<close>

text \<open>C14. Committed records are final. Over any history of the journal, with any writers, faults and
  handovers, every invocation revision, evidence record, outbox entry, event, checkpoint and
  terminal outcome stays exactly as it was committed, blobs keep their content, the checkpoint and
  event cursors never move back, and once a run has a terminal outcome its event journal is
  closed: it keeps exactly the events it has.\<close>

theorem committed_records_are_final:
  assumes "env_ok env" and "journal_run env j j'"
  shows "(\<forall>k r. map_of (jn_invocations j) k = Some r \<longrightarrow> map_of (jn_invocations j') k = Some r) \<and>
    (\<forall>k r. map_of (jn_evidence j) k = Some r \<longrightarrow> map_of (jn_evidence j') k = Some r) \<and>
    (\<forall>k r. map_of (jn_outbox j) k = Some r \<longrightarrow> map_of (jn_outbox j') k = Some r) \<and>
    (\<forall>k r. map_of (jn_events j) k = Some r \<longrightarrow> map_of (jn_events j') k = Some r) \<and>
    (\<forall>k r. map_of (jn_checkpoints j) k = Some r \<longrightarrow> map_of (jn_checkpoints j') k = Some r) \<and>
    (\<forall>k r. map_of (jn_terminals j) k = Some r \<longrightarrow> map_of (jn_terminals j') k = Some r) \<and>
    (\<forall>k r. jn_blobs j k = Some r \<longrightarrow> jn_blobs j' k = Some r) \<and>
    (\<forall>run n. jn_checkpoint_head j run = Some n \<longrightarrow> (\<exists>m \<ge> n. jn_checkpoint_head j' run = Some m)) \<and>
    (\<forall>run n. jn_event_head j run = Some n \<longrightarrow> (\<exists>m \<ge> n. jn_event_head j' run = Some m)) \<and>
    (\<forall>run. terminal_exists j run \<longrightarrow> run_events j' run = run_events j run)"
proof -
  have "extends j j'" using run_keeps [OF assms] by (simp add: keeps_def calls_evolve_def)
  then show ?thesis
    unfolding extends_def heads_advance_def terminal_exists_def
    by (elim conjE) (intro conjI; (blast intro: grows_lookup map_le_lookup | simp))
qed

theorem committed_records_are_final_witness:
  "\<exists>j'. journal_run demo_journal_env ((empty_journal demo_authority)\<lparr>jn_terminals := [(''r1'', terminal_row [] ''d'')]\<rparr>) j' \<and>
     map_of (jn_terminals j') ''r1'' = Some (terminal_row [] ''d'') \<and> run_events j' ''r1'' = []"
proof -
  let ?j = "(empty_journal demo_authority)\<lparr>jn_terminals := [(''r1'', terminal_row [] ''d'')]\<rparr>"
  have r: "journal_run demo_journal_env ?j (fst (perform demo_journal_env True demo_tx demo_token (AppendEvent e) ?j))" for e
    by (rule demo_run) (simp add: submits_def)
  fix e :: agent_event
  from committed_records_are_final [OF demo_journal_env_ok r [of e]] show ?thesis
    using r [of e] by (auto simp: empty_journal_def run_events_def terminal_exists_def)
qed

section \<open>Committing a revision\<close>

lemma revision_commits:
  assumes "sound env j" and env: "env_ok env" and sub: "submittable env i" and "distinct (map fst blobs)"
    and "revision_admitted env i blobs stage j payload" and "iv_run_id i = wt_run_id t"
    and "current_writer_locked (je_cfg env) (jn_authority j) t (tx_now tx) = Inr True"
    and "tx_fault tx = NoFault" and "tx_concurrent tx = (\<lambda>b. b)"
  obtains j' r i' where "commit_invocation env True tx i blobs t stage j = (j', Inr r)" "cr_status r = Committed"
    "sound env j'" "jn_authority j' = jn_authority j" "appended env i i' j j'"
    "map_of (jn_invocations j') (key_of i) = Some (invocation_row env i payload (record_digest env payload blobs) blobs)"
proof -
  have o: "others tx j = j" using assms(9) by (simp add: others_def)
  from locked_commits [OF assms(1) env sub assms(4,5)] obtain j' r where
    l: "commit_invocation_locked env i blobs stage j j = Inr (Some (j', r, record_digest env payload blobs))"
    and w: "write_revision env i payload (record_digest env payload blobs) blobs stage j = Inr (Some (j', r, record_digest env payload blobs))"
    by blast
  have c: "commit_invocation env True tx i blobs t stage j = (j', Inr r)"
    using l assms(6-8) by (simp add: commit_invocation_def fenced_mutation_def fenced_commit_def fenced_body_def o)
  from write_revision_effect [OF w] obtain b a ob where
    j': "j' = (with_revision env i payload (record_digest env payload blobs) blobs j)\<lparr>jn_blobs := b, jn_run_blobs := a, jn_outbox := ob\<rparr>"
    and r: "cr_status r = Committed" .
  have calls: "calls_ok env j" using assms(1) by (simp add: sound_def)
  obtain i' where "appended env i i' j j'"
    by (rule revision_appended [OF calls env sub assms(5), of j']) (simp_all add: j' with_revision_def)
  moreover have "sound env j'" using new_revision_sound [OF assms(1) env sub _ _ _ _ assms(5) w] by simp
  ultimately show ?thesis using that c r by (simp add: j' with_revision_def)
qed

lemma demo_first_commits:
  "\<exists>j r. perform demo_journal_env True demo_tx demo_token (CommitInvocation demo_first [] False) (empty_journal demo_authority) = (j, Inr r) \<and>
     cr_status r = Committed \<and> (\<exists>i. stored_call demo_journal_env j (''r1'', ''mcall'', 1) = Some i)"
proof -
  have k: "key_of demo_first = (''r1'', ''mcall'', 1)" by (simp add: key_of_def demo_first_def demo_invocation_def)
  obtain payload where p: "revision_admitted demo_journal_env demo_first [] False (empty_journal demo_authority) payload"
    using demo_first_admitted ..
  have t: "iv_run_id demo_first = wt_run_id demo_token" "tx_fault demo_tx = NoFault" "tx_concurrent demo_tx = (\<lambda>b. b)"
    "current_writer_locked (je_cfg demo_journal_env) (jn_authority (empty_journal demo_authority)) demo_token (tx_now demo_tx) = Inr True"
    by (simp_all add: demo_first_def demo_invocation_def demo_tx_def empty_journal_def demo_writer_current) (simp add: demo_token_def)
  show ?thesis
    by (rule revision_commits [OF empty_sound(1) demo_journal_env_ok demo_first_submittable _ p t(1,4,2,3)])
       (auto simp: appended_def k)
qed

section \<open>Paid dispatches\<close>

text \<open>Revision \<open>n\<close> of a call is the reservation, the start or the end of attempt \<open>(n + 2) div 3\<close>.\<close>

fun stage_of :: "dispatch_state \<Rightarrow> int" where
  "stage_of Reserved = 0"
| "stage_of DispatchStarted = 1"
| "stage_of _ = 2"

lemma call_step_rank: "call_step p i \<Longrightarrow> 3 * iv_dispatch_attempt i + stage_of (iv_dispatch_state i) =
    3 * iv_dispatch_attempt p + stage_of (iv_dispatch_state p) + 1"
  by (cases "iv_dispatch_state p") (auto simp: call_step_def)

lemma revision_rank:
  assumes "calls_ok env j" and "stored_call env j (run, call, n) = Some i"
  shows "1 \<le> n \<and> 3 * iv_dispatch_attempt i + stage_of (iv_dispatch_state i) = n + 2"
proof -
  have c: "heads_cover j" "chained env j" "rows_sound env j" using assms(1) by (simp_all add: calls_ok_def)
  have "stored_call env j (run, call, int k + 1) = Some i \<Longrightarrow>
      3 * iv_dispatch_attempt i + stage_of (iv_dispatch_state i) = int k + 3" for k i
  proof (induction k arbitrary: i)
    case 0
    with c(2) show ?case by (auto simp: chained_def)
  next
    case (Suc k)
    from stored_call_row [OF Suc.prems] obtain h where "jn_invocation_head j (run, call) = Some h" "int (Suc k) + 1 \<le> h"
      using covered(1) [OF c(1)] by blast
    then have "map_of (jn_invocations j) (run, call, int k + 1) \<noteq> None" using covered(1) [OF c(1), of run call "int k + 1"] by simp
    then obtain p where p: "stored_call env j (run, call, int k + 1) = Some p"
      using stored_call_in(1) [OF c(3)] by (metis option.exhaust)
    have "stored_call env j (run, call, (int k + 1) + 1) = Some i" using Suc.prems by (simp add: ac_simps)
    with p c(2) have "call_step p i" unfolding chained_def by blast
    from call_step_rank [OF this] Suc.IH [OF p] show ?case by simp
  qed
  from this [of "nat (n - 1)" i] assms(2) have "1 \<le> n \<Longrightarrow> 3 * iv_dispatch_attempt i + stage_of (iv_dispatch_state i) = n + 2" by simp
  moreover have "1 \<le> n" using stored_call_row [OF assms(2)] covered(1) [OF c(1)] by blast
  ultimately show ?thesis by simp
qed

lemma reached_sound:
  assumes "env_ok env" and "journal_run env (empty_journal a) j"
  shows "sound env j" "events_ok j"
  using run_keeps [OF assms] empty_sound by (simp_all add: keeps_def calls_evolve_def)

text \<open>C9. A paid model dispatch is never repeated. In every journal reached from the empty one, revision
  \<open>n\<close> of a logical call is the reservation, the start or the end of attempt \<open>(n + 2) div 3\<close>; two
  revisions that start a dispatch carry different dispatch ids, so no id is sent to the provider
  twice; and a call goes on after it ended only when it settled with a failure marked retryable,
  never when its outcome is unknown. This holds across takeovers, lost responses and replays.\<close>

theorem paid_dispatch_is_never_repeated:
  assumes "env_ok env" and "journal_run env (empty_journal a) j"
  shows "(\<forall>run call n i. stored_call env j (run, call, n) = Some i \<longrightarrow> 1 \<le> n \<and> iv_dispatch_attempt i = (n + 2) div 3 \<and>
       iv_dispatch_state i \<in> (if n mod 3 = 1 then {Reserved} else if n mod 3 = 2 then {DispatchStarted}
                               else {Settled, DispatchUnknown})) \<and>
    (\<forall>run call n m i k. stored_call env j (run, call, n) = Some i \<longrightarrow> stored_call env j (run, call, m) = Some k \<longrightarrow> n \<noteq> m \<longrightarrow>
       iv_dispatch_state i = DispatchStarted \<longrightarrow> iv_dispatch_state k = DispatchStarted \<longrightarrow> iv_dispatch_id i \<noteq> iv_dispatch_id k) \<and>
    (\<forall>run call n i k. stored_call env j (run, call, n) = Some i \<longrightarrow> stored_call env j (run, call, n + 1) = Some k \<longrightarrow>
       iv_dispatch_state i \<in> {Settled, DispatchUnknown} \<longrightarrow> iv_dispatch_state i = Settled \<and> retryable_receipt i)"
proof -
  have c: "calls_ok env j" using reached_sound(1) [OF assms] by (simp add: sound_def)
  note rank = revision_rank [OF c]
  have pos: "1 \<le> n \<and> iv_dispatch_attempt i = (n + 2) div 3 \<and> stage_of (iv_dispatch_state i) = (n + 2) mod 3"
    if "stored_call env j (run, call, n) = Some i" for run call n i
  proof -
    have s: "0 \<le> stage_of (iv_dispatch_state i) \<and> stage_of (iv_dispatch_state i) < 3" by (cases "iv_dispatch_state i") auto
    have "x = (n + 2) div 3 \<and> y = (n + 2) mod 3" if "3 * x + y = n + 2" "0 \<le> y" "y < 3" for x y :: int
      using that by presburger
    from this [of "iv_dispatch_attempt i" "stage_of (iv_dispatch_state i)"] rank [OF that] s show ?thesis by blast
  qed
  have st: "iv_dispatch_state i \<in> (if n mod 3 = 1 then {Reserved} else if n mod 3 = 2 then {DispatchStarted}
      else {Settled, DispatchUnknown})" if "stored_call env j (run, call, n) = Some i" for run call n i
  proof -
    have "(n + 2) mod 3 = (if n mod 3 = 1 then 0 else if n mod 3 = 2 then 1 else (2::int))" by presburger
    with pos [OF that] show ?thesis by (cases "iv_dispatch_state i") (auto split: if_splits)
  qed
  have ids: "iv_dispatch_id i \<noteq> iv_dispatch_id k"
    if i: "stored_call env j (run, call, n) = Some i" and k: "stored_call env j (run, call, m) = Some k" and "n \<noteq> m"
      "iv_dispatch_state i = DispatchStarted" "iv_dispatch_state k = DispatchStarted" for run call n m i k
  proof
    assume "iv_dispatch_id i = iv_dispatch_id k"
    then have "iv_dispatch_attempt i = iv_dispatch_attempt k" using c i k unfolding calls_ok_def ids_fresh_def by blast
    with rank [OF i] rank [OF k] that show False by simp
  qed
  have goes_on: "iv_dispatch_state i = Settled \<and> retryable_receipt i"
    if "stored_call env j (run, call, n) = Some i" "stored_call env j (run, call, n + 1) = Some k"
      "iv_dispatch_state i \<in> {Settled, DispatchUnknown}" for run call n i k
  proof -
    have "call_step i k" using c that(1,2) unfolding calls_ok_def chained_def by blast
    with that(3) show ?thesis by (auto simp: call_step_def split: if_splits)
  qed
  from pos st ids goes_on show ?thesis by blast
qed

theorem paid_dispatch_is_never_repeated_witness:
  "\<exists>j i. journal_run demo_journal_env (empty_journal demo_authority) j \<and>
     stored_call demo_journal_env j (''r1'', ''mcall'', 1) = Some i \<and> iv_dispatch_state i = Reserved \<and> iv_dispatch_attempt i = 1"
proof -
  let ?m = "CommitInvocation demo_first [] False"
  obtain j r i where p: "perform demo_journal_env True demo_tx demo_token ?m (empty_journal demo_authority) = (j, Inr r)"
    and i: "stored_call demo_journal_env j (''r1'', ''mcall'', 1) = Some i" using demo_first_commits by blast
  have "journal_run demo_journal_env (empty_journal demo_authority) j"
    using demo_run [of ?m "empty_journal demo_authority" demo_token] p demo_first_submittable by (simp add: submits_def)
  with paid_dispatch_is_never_repeated [OF demo_journal_env_ok this] i show ?thesis by fastforce
qed

end
