(* ===== verification/Model_Calls.thy ===== *)
theory Model_Calls
  imports Run_Journal Cancel_Authority
begin

text \<open>
  The durable life of a paid model call (hosting/model_calls.py and the runner side of
  model_lifecycle.py): reservation, start, settlement, ambiguity and recovery, over the interface of
  a fenced run sink. The laws of that interface are a locale here; the PostgreSQL journal is shown to
  satisfy them in a later theory.
\<close>

section \<open>Operations that raise\<close>

definition op_return :: "'a \<Rightarrow> ('w, 'a) operation" where
  "op_return x w = (w, Inr x)"

definition op_raise :: "exn \<Rightarrow> ('w, 'a) operation" where
  "op_raise e w = (w, Inl e)"

definition op_lift :: "'a res \<Rightarrow> ('w, 'a) operation" where
  "op_lift r w = (w, r)"

definition op_bind :: "('w, 'a) operation \<Rightarrow> ('a \<Rightarrow> ('w, 'b) operation) \<Rightarrow> ('w, 'b) operation" where
  "op_bind m f w = (case m w of (w', Inl e) \<Rightarrow> (w', Inl e) | (w', Inr x) \<Rightarrow> f x w')"

definition op_catch :: "('w, 'a) operation \<Rightarrow> (exn \<Rightarrow> ('w, 'a) operation) \<Rightarrow> ('w, 'a) operation" where
  "op_catch m f w = (case m w of (w', Inl e) \<Rightarrow> f e w' | (w', Inr x) \<Rightarrow> (w', Inr x))"

named_theorems op_simps \<open>results of raising operations\<close>

lemma op_return_Inr [op_simps]: "op_return x w = (w', Inr y) \<longleftrightarrow> w' = w \<and> y = x"
  by (auto simp: op_return_def)

lemma op_raise_Inr [op_simps]: "op_raise e w \<noteq> (w', Inr y)"
  by (simp add: op_raise_def)

lemma op_lift_Inr [op_simps]: "op_lift r w = (w', Inr y) \<longleftrightarrow> w' = w \<and> r = Inr y"
  by (auto simp: op_lift_def)

lemma op_bind_Inr [op_simps]: "op_bind m f w = (w', Inr y) \<longleftrightarrow> (\<exists>w1 x. m w = (w1, Inr x) \<and> f x w1 = (w', Inr y))"
  by (auto simp: op_bind_def split: prod.splits sum.splits)

lemma op_catch_Inr: "op_catch m f w = (w', Inr y) \<longleftrightarrow>
    m w = (w', Inr y) \<or> (\<exists>w1 e. m w = (w1, Inl e) \<and> f e w1 = (w', Inr y))"
  by (auto simp: op_catch_def split: prod.splits sum.splits)

section \<open>The values of the lifecycle\<close>

record reservation =
  dr_logical_call_id :: string
  dr_dispatch_attempt :: int
  dr_dispatch_id :: string
  dr_request_digest :: string
  dr_digest_generation :: string
  dr_idempotency_key :: string

definition make_reservation :: "int \<Rightarrow> reservation \<Rightarrow> reservation res" where
  "make_reservation cfg r =
     res_bind (guard (opaque_id (dr_logical_call_id r)) (ValueError ''model dispatch logical_call_id must be a bounded opaque id'')) (\<lambda>_.
     res_bind (guard (is_portable_json_integer cfg (IInt (dr_dispatch_attempt r)) \<and> 1 \<le> dr_dispatch_attempt r)
       (ValueError ''model dispatch attempt must be a positive portable integer'')) (\<lambda>_.
     res_bind (guard (opaque_id (dr_dispatch_id r)) (ValueError ''model dispatch dispatch_id must be a bounded opaque id'')) (\<lambda>_.
     res_bind (guard (recorded_digest (dr_request_digest r))
       (ValueError ''model dispatch request_digest must be a lowercase SHA-256 digest'')) (\<lambda>_.
     res_bind (guard (dr_digest_generation r = MODEL_REQUEST_DIGEST_GENERATION)
       (ValueError ''model dispatch digest_generation is unsupported'')) (\<lambda>_.
     res_bind (guard (idempotency_key_ok (dr_idempotency_key r))
       (ValueError ''model dispatch idempotency_key is outside the portable vocabulary'')) (\<lambda>_.
     Inr r))))))"

record recovery_query =
  rq_logical_call_id :: string
  rq_request_digest :: string
  rq_digest_generation :: string
  rq_require_evidence :: bool

definition make_recovery_query :: "recovery_query \<Rightarrow> recovery_query res" where
  "make_recovery_query q =
     res_bind (guard (opaque_id (rq_logical_call_id q)) (ValueError ''model recovery logical_call_id must be a bounded opaque id'')) (\<lambda>_.
     res_bind (guard (recorded_digest (rq_request_digest q))
       (ValueError ''model recovery request_digest must be a lowercase SHA-256 digest'')) (\<lambda>_.
     res_bind (guard (rq_digest_generation q = MODEL_REQUEST_DIGEST_GENERATION)
       (ValueError ''model recovery digest_generation is unsupported'')) (\<lambda>_. Inr q)))"

text \<open>A recovered dispatch and a settlement have the same members and the same checks.\<close>

record settlement =
  st_reservation :: reservation
  st_receipt :: pydict
  st_result_blob :: "blob_bytes option"
  st_failure_code :: string

definition make_settlement :: "settlement \<Rightarrow> settlement res" where
  "make_settlement s =
     (if st_failure_code s \<noteq> [] then
        res_bind (guard (taxonomy_code (st_failure_code s)) (ValueError ''model dispatch failure_code must be a bounded taxonomy code'')) (\<lambda>_.
        res_bind (guard (st_result_blob s = None)
          (ValueError ''failed model dispatch settlement cannot carry a result blob'')) (\<lambda>_. Inr s))
      else res_bind (guard (st_result_blob s \<noteq> None)
          (ValueError ''successful model dispatch settlement must carry result bytes'')) (\<lambda>_. Inr s))"

type_synonym recovered = settlement

definition make_recovered :: "recovered \<Rightarrow> recovered res" where
  "make_recovered s =
     (if st_failure_code s \<noteq> [] then
        res_bind (guard (taxonomy_code (st_failure_code s)) (ValueError ''recovered model failure_code must be a bounded taxonomy code'')) (\<lambda>_.
        res_bind (guard (st_result_blob s = None)
          (ValueError ''recovered failed dispatch cannot carry a result blob'')) (\<lambda>_. Inr s))
      else res_bind (guard (st_result_blob s \<noteq> None)
          (ValueError ''recovered successful dispatch must carry result bytes'')) (\<lambda>_. Inr s))"

record unknown_dispatch =
  ud_reservation :: reservation
  ud_failure_code :: string

definition make_unknown :: "unknown_dispatch \<Rightarrow> unknown_dispatch res" where
  "make_unknown u = res_bind (guard (taxonomy_code (ud_failure_code u))
     (ValueError ''unknown model dispatch failure_code must be a bounded taxonomy code'')) (\<lambda>_. Inr u)"

section \<open>The host of a call\<close>

text \<open>The calls a host makes on its sink, each an operation on the state of the store. \<open>so_outbox\<close> is
  the transactional outbox capability (false when reading it raises). \<open>so_revoked\<close> says whether
  another thread of the host, such as the one renewing the lease, has revoked the authority by the
  time a call returns.\<close>

record 's sink_ops =
  so_load :: "string \<Rightarrow> string \<Rightarrow> ('s, invocation_record load_result) operation"
  so_blob :: "string \<Rightarrow> string \<Rightarrow> ('s, blob_bytes) operation"
  so_commit :: "invocation \<Rightarrow> blob_map \<Rightarrow> writer_token \<Rightarrow> bool \<Rightarrow> ('s, commit_result) operation"
  so_evidence :: "invocation \<Rightarrow> writer_token \<Rightarrow> ('s, commit_result) operation"
  so_outbox :: "'s \<Rightarrow> bool"
  so_revoked :: "'s \<Rightarrow> bool"

record ('s, 'cb) call_host =
  ch_store :: 's
  ch_token :: writer_token
  ch_policy :: evidence_policy
  ch_authority :: "'cb write_authority"
  ch_last :: "invocation option"

definition revoke_host :: "('s, 'cb) call_host \<Rightarrow> ('s, 'cb) call_host" where
  "revoke_host h = h\<lparr>ch_authority := fst (authority_revoke (ch_authority h))\<rparr>"

definition sink_call :: "'s sink_ops \<Rightarrow> ('s, 'a) operation \<Rightarrow> (('s, 'cb) call_host, 'a) operation" where
  "sink_call sk f h = (case f (ch_store h) of (s, r) \<Rightarrow>
     ((if so_revoked sk s then revoke_host (h\<lparr>ch_store := s\<rparr>) else h\<lparr>ch_store := s\<rparr>), r))"

definition guarded_sink_call :: "'s sink_ops \<Rightarrow> ('s, 'a) operation \<Rightarrow> string \<Rightarrow> (('s, 'cb) call_host, 'a) operation" where
  "guarded_sink_call sk f code =
     op_catch (guard_external_call ch_authority (sink_call sk f))
       (\<lambda>e h. if e = WriteAuthorityRevoked then (revoke_host h, Inl e) else (h, Inl (DurableModelCallError code)))"

definition load_call :: "'s sink_ops \<Rightarrow> string \<Rightarrow> (('s, 'cb) call_host, invocation_record option) operation" where
  "load_call sk call h =
     op_bind (guarded_sink_call sk (so_load sk (wt_run_id (ch_token h)) call) ''durable_invocation_load_failed'') (\<lambda>l h.
       if lr_status l = Missing then (h, Inr None)
       else case (if lr_ok l then lr_value l else None) of
         None \<Rightarrow> (h, Inl (DurableModelCallError
           (if lr_status l = UnsupportedVersion then ''durable_invocation_unsupported_version'' else ''durable_invocation_corrupt'')))
       | Some r \<Rightarrow>
           if iv_run_id (ir_invocation r) \<noteq> wt_run_id (ch_token h) \<or> iv_logical_call_id (ir_invocation r) \<noteq> call
           then (h, Inl (DurableModelCallError ''durable_invocation_corrupt''))
           else (h\<lparr>ch_last := Some (ir_invocation r)\<rparr>, Inr (Some r))) h"

definition accept_result :: "commit_result \<Rightarrow> (('s, 'cb) call_host, commit_status) operation" where
  "accept_result r h = (case accept_fenced_commit_result r (ch_authority h) of (a, x) \<Rightarrow> (h\<lparr>ch_authority := a\<rparr>, x))"

definition commit_call :: "'s sink_ops \<Rightarrow> invocation \<Rightarrow> blob_map \<Rightarrow> bool \<Rightarrow> (('s, 'cb) call_host, unit) operation" where
  "commit_call sk i blobs stage h =
     op_bind (guarded_sink_call sk (so_commit sk i blobs (ch_token h) stage) ''durable_invocation_commit_failed'') (\<lambda>r.
     op_bind (op_catch (accept_result r) (\<lambda>e h. ((if e = WriteAuthorityRevoked then revoke_host h else h), Inl e))) (\<lambda>st h.
       if st = CommitConflict then (h, Inl (DurableModelCallError ''durable_invocation_conflict''))
       else (h\<lparr>ch_last := Some i\<rparr>, Inr ()))) h"

definition commit_evidence :: "'s sink_ops \<Rightarrow> invocation \<Rightarrow> (('s, 'cb) call_host, unit) operation" where
  "commit_evidence sk i h =
     op_catch (op_bind (guard_external_call ch_authority (sink_call sk (so_evidence sk i (ch_token h)))) (\<lambda>r.
               op_bind (accept_result r) (\<lambda>st.
               op_lift (guard (st \<in> {Committed, AlreadyCommitted}) (RuntimeFault ''required evidence commit was not accepted'')))))
       (\<lambda>e. op_raise (if e = WriteAuthorityRevoked then e else ModelEvidenceUncommitted)) h"

definition reject_evidence_policy_change :: "'s sink_ops \<Rightarrow> invocation \<Rightarrow> blob_map \<Rightarrow> bool \<Rightarrow> (('s, 'cb) call_host, 'a) operation" where
  "reject_evidence_policy_change sk i blobs prove =
     op_bind (if prove then commit_call sk i blobs False else op_return ())
       (\<lambda>_. op_raise (DurableModelCallError ''durable_invocation_evidence_policy_conflict''))"

definition require_outbox_capability :: "'s sink_ops \<Rightarrow> invocation option \<Rightarrow> (('s, 'cb) call_host, unit) operation" where
  "require_outbox_capability sk i h =
     (if so_outbox sk (ch_store h) then (h, Inr ())
      else op_bind (case i of None \<Rightarrow> op_return () | Some i \<Rightarrow> commit_call sk i [] False)
        (\<lambda>_. op_raise (DurableModelCallError ''durable_invocation_evidence_policy_conflict'')) h)"

definition effective_evidence_policy :: "'s sink_ops \<Rightarrow> invocation \<Rightarrow> bool \<Rightarrow> blob_map \<Rightarrow> bool \<Rightarrow>
    (('s, 'cb) call_host, evidence_policy) operation" where
  "effective_evidence_policy sk i require blobs prove h =
     (let stored = iv_evidence_policy i in
      if require \<and> stored \<noteq> Required then reject_evidence_policy_change sk i blobs prove h
      else if ch_policy h \<noteq> Passive \<and> ch_policy h \<noteq> stored then reject_evidence_policy_change sk i blobs prove h
      else op_bind (if stored = OutboxEvidence then require_outbox_capability sk (if prove then Some i else None) else op_return ())
        (\<lambda>_. op_return stored) h)"

definition commit_settled :: "'s sink_ops \<Rightarrow> invocation \<Rightarrow> blob_map \<Rightarrow> bool \<Rightarrow> bool \<Rightarrow> bool \<Rightarrow> (('s, 'cb) call_host, unit) operation" where
  "commit_settled sk i blobs require evidence_committed authoritative =
     op_bind (effective_evidence_policy sk i require blobs authoritative) (\<lambda>policy.
     op_bind (commit_call sk i blobs (policy = OutboxEvidence)) (\<lambda>_.
     if policy = Required \<and> \<not> evidence_committed then commit_evidence sk i else op_return ()))"

definition same_dispatch :: "invocation \<Rightarrow> reservation \<Rightarrow> bool" where
  "same_dispatch i r \<longleftrightarrow> iv_logical_call_id i = dr_logical_call_id r \<and> iv_dispatch_attempt i = dr_dispatch_attempt r \<and>
     iv_dispatch_id i = dr_dispatch_id r \<and> iv_request_digest i = dr_request_digest r \<and>
     iv_digest_generation i = dr_digest_generation r \<and> iv_idempotency_key i = dr_idempotency_key r"

text \<open>\<open>replace\<close> on an invocation: the constructor runs again and the new value has no source.\<close>

definition next_revision :: "journal_env \<Rightarrow> invocation \<Rightarrow> dispatch_state \<Rightarrow> pydict option \<Rightarrow> string \<Rightarrow> string \<Rightarrow> invocation res" where
  "next_revision env i st receipt ref code = make_invocation (je_va env) (je_cfg env)
     (i\<lparr>iv_schema_version := MODEL_INVOCATION_V2_SCHEMA_VERSION, iv_revision := iv_revision i + 1, iv_dispatch_state := st,
        iv_receipt := receipt, iv_result_ref := ref, iv_failure_code := code, iv_source_envelope := None\<rparr>)"

definition unknown_started :: "journal_env \<Rightarrow> 's sink_ops \<Rightarrow> invocation \<Rightarrow> (('s, 'cb) call_host, 'a) operation" where
  "unknown_started env sk i =
     op_bind (op_lift (next_revision env i DispatchUnknown (iv_receipt i) (iv_result_ref i) ''dispatch_unknown'')) (\<lambda>u.
     op_bind (commit_call sk u [] False) (\<lambda>_.
     op_raise (DurableModelCallError ''dispatch_unknown'')))"

section \<open>Recovery\<close>

definition reservation_of :: "int \<Rightarrow> invocation \<Rightarrow> reservation res" where
  "reservation_of cfg i = make_reservation cfg \<lparr>dr_logical_call_id = iv_logical_call_id i, dr_dispatch_attempt = iv_dispatch_attempt i,
     dr_dispatch_id = iv_dispatch_id i, dr_request_digest = iv_request_digest i, dr_digest_generation = iv_digest_generation i,
     dr_idempotency_key = iv_idempotency_key i\<rparr>"

definition result_error :: exn where
  "result_error = DurableModelCallError ''durable_invocation_result_corrupt''"

definition recover_settled :: "journal_env \<Rightarrow> 's sink_ops \<Rightarrow> bool \<Rightarrow> bool \<Rightarrow> invocation \<Rightarrow> pydict \<Rightarrow> (('s, 'cb) call_host, recovered) operation" where
  "recover_settled env sk require evidence_committed i receipt =
     op_bind (op_lift (reservation_of (je_cfg env) i)) (\<lambda>r.
     if iv_failure_code i \<noteq> [] then
       op_bind (commit_settled sk i [] require evidence_committed True) (\<lambda>_.
       op_lift (make_recovered \<lparr>st_reservation = r, st_receipt = receipt, st_result_blob = None, st_failure_code = iv_failure_code i\<rparr>))
     else let sha = (if str_startswith (iv_result_ref i) ''blob:'' then drop 5 (iv_result_ref i) else iv_result_ref i) in
       if sha = [] \<or> iv_result_ref i \<noteq> ''blob:'' @ sha then op_raise result_error
       else op_bind (op_catch (sink_call sk (so_blob sk (iv_run_id i) sha)) (\<lambda>_. op_raise result_error)) (\<lambda>blob.
         if je_bsha env blob \<noteq> sha then op_raise result_error
         else op_bind (commit_settled sk i [(sha, blob)] require evidence_committed True) (\<lambda>_.
           op_lift (make_recovered \<lparr>st_reservation = r, st_receipt = receipt, st_result_blob = Some blob, st_failure_code = []\<rparr>))))"

definition recover_delivered :: "journal_env \<Rightarrow> 's sink_ops \<Rightarrow> recovery_query \<Rightarrow> bool \<Rightarrow> invocation \<Rightarrow> (('s, 'cb) call_host, recovered option) operation" where
  "recover_delivered env sk q evidence_committed i =
     (if iv_request_digest i \<noteq> rq_request_digest q \<or> iv_digest_generation i \<noteq> rq_digest_generation q
      then op_raise (DurableModelCallError ''durable_invocation_request_conflict'')
      else case iv_dispatch_state i of
        Reserved \<Rightarrow> op_return None
      | DispatchStarted \<Rightarrow> unknown_started env sk i
      | DispatchUnknown \<Rightarrow> op_raise (DurableModelCallError ''dispatch_unknown'')
      | Settled \<Rightarrow> (case iv_receipt i of
          None \<Rightarrow> op_raise (DurableModelCallError ''durable_invocation_corrupt'')
        | Some receipt \<Rightarrow> op_bind (recover_settled env sk (rq_require_evidence q) evidence_committed i receipt) (\<lambda>x. op_return (Some x))))"

definition recover :: "journal_env \<Rightarrow> 's sink_ops \<Rightarrow> recovery_query \<Rightarrow> (('s, 'cb) call_host, recovered option) operation" where
  "recover env sk q =
     op_bind (load_call sk (rq_logical_call_id q)) (\<lambda>record. case record of
       None \<Rightarrow> op_return None
     | Some record \<Rightarrow>
        let i = ir_invocation record; deliver = (iv_dispatch_state i = Settled \<and> iv_evidence_policy i = Required) in
        op_bind (if deliver then commit_evidence sk i else op_return ()) (\<lambda>_. recover_delivered env sk q deliver i))"

section \<open>Reservation, start, settlement\<close>

definition with_key :: "int \<Rightarrow> reservation \<Rightarrow> string \<Rightarrow> reservation res" where
  "with_key cfg r key = make_reservation cfg (r\<lparr>dr_idempotency_key := key\<rparr>)"

definition commit_reservation :: "journal_env \<Rightarrow> 's sink_ops \<Rightarrow> reservation \<Rightarrow> int \<Rightarrow> evidence_policy \<Rightarrow> (('s, 'cb) call_host, reservation) operation" where
  "commit_reservation env sk r revision policy h =
     op_bind (op_lift (make_invocation (je_va env) (je_cfg env)
       \<lparr>iv_schema_version = MODEL_INVOCATION_V2_SCHEMA_VERSION, iv_run_id = wt_run_id (ch_token h),
        iv_logical_call_id = dr_logical_call_id r, iv_revision = revision, iv_dispatch_id = dr_dispatch_id r,
        iv_dispatch_attempt = dr_dispatch_attempt r, iv_idempotency_key = dr_idempotency_key r, iv_dispatch_state = Reserved,
        iv_request_digest = dr_request_digest r, iv_digest_generation = dr_digest_generation r, iv_evidence_policy = policy,
        iv_receipt = None, iv_result_ref = [], iv_failure_code = [], iv_source_envelope = None\<rparr>)) (\<lambda>i.
     op_bind (commit_call sk i [] False) (\<lambda>_. op_return r)) h"

definition reserve :: "journal_env \<Rightarrow> 's sink_ops \<Rightarrow> reservation \<Rightarrow> (('s, 'cb) call_host, reservation) operation" where
  "reserve env sk proposed =
     op_bind (load_call sk (dr_logical_call_id proposed)) (\<lambda>record. case record of
       None \<Rightarrow> (\<lambda>h. op_bind (if ch_policy h = OutboxEvidence then require_outbox_capability sk None else op_return ())
                  (\<lambda>_. commit_reservation env sk proposed 1 (ch_policy h)) h)
     | Some record \<Rightarrow> let i = ir_invocation record in
         (case iv_dispatch_state i of
            Reserved \<Rightarrow>
              op_bind (effective_evidence_policy sk i False [] True) (\<lambda>_.
              op_bind (op_lift (with_key (je_cfg env) proposed (iv_idempotency_key i))) (\<lambda>effective.
              if \<not> same_dispatch i effective then op_raise (DurableModelCallError ''durable_invocation_request_conflict'')
              else op_return effective))
          | DispatchStarted \<Rightarrow> unknown_started env sk i
          | DispatchUnknown \<Rightarrow> op_raise (DurableModelCallError ''dispatch_unknown'')
          | Settled \<Rightarrow>
              op_bind (effective_evidence_policy sk i False [] True) (\<lambda>policy.
              if \<not> retryable_receipt i then op_raise (DurableModelCallError ''durable_invocation_already_settled'')
              else op_bind (op_lift (with_key (je_cfg env) proposed (iv_idempotency_key i))) (\<lambda>effective.
                if dr_dispatch_attempt effective \<noteq> iv_dispatch_attempt i + 1 \<or> dr_request_digest effective \<noteq> iv_request_digest i \<or>
                   dr_digest_generation effective \<noteq> iv_digest_generation i
                then op_raise (DurableModelCallError ''durable_invocation_request_conflict'')
                else commit_reservation env sk effective (iv_revision i + 1) policy))))"

text \<open>The common beginning of the three reports on a reserved or started dispatch.\<close>

definition load_dispatch :: "'s sink_ops \<Rightarrow> dispatch_state \<Rightarrow> reservation \<Rightarrow> (('s, 'cb) call_host, invocation) operation" where
  "load_dispatch sk st r =
     op_bind (load_call sk (dr_logical_call_id r)) (\<lambda>record.
       case (case record of None \<Rightarrow> None | Some x \<Rightarrow> if iv_dispatch_state (ir_invocation x) = st then Some (ir_invocation x) else None) of
         None \<Rightarrow> op_raise (DurableModelCallError ''durable_invocation_conflict'')
       | Some i \<Rightarrow> if \<not> same_dispatch i r then op_raise (DurableModelCallError ''durable_invocation_request_conflict'')
           else op_return i)"

definition dispatch_started :: "journal_env \<Rightarrow> 's sink_ops \<Rightarrow> reservation \<Rightarrow> (('s, 'cb) call_host, unit) operation" where
  "dispatch_started env sk r =
     op_bind (load_dispatch sk Reserved r) (\<lambda>i.
     op_bind (op_lift (next_revision env i DispatchStarted (iv_receipt i) (iv_result_ref i) (iv_failure_code i))) (\<lambda>u.
     commit_call sk u [] False))"

definition settled :: "journal_env \<Rightarrow> 's sink_ops \<Rightarrow> settlement \<Rightarrow> (('s, 'cb) call_host, unit) operation" where
  "settled env sk s =
     op_bind (load_dispatch sk DispatchStarted (st_reservation s)) (\<lambda>i.
     let blobs = (case st_result_blob s of None \<Rightarrow> [] | Some b \<Rightarrow> [(je_bsha env b, b)]);
         ref = (case st_result_blob s of None \<Rightarrow> [] | Some b \<Rightarrow> ''blob:'' @ je_bsha env b) in
     op_bind (op_lift (next_revision env i Settled (Some (st_receipt s)) ref (st_failure_code s))) (\<lambda>u.
     commit_settled sk u blobs False False False))"

definition unknown :: "journal_env \<Rightarrow> 's sink_ops \<Rightarrow> unknown_dispatch \<Rightarrow> (('s, 'cb) call_host, unit) operation" where
  "unknown env sk u =
     op_bind (load_dispatch sk DispatchStarted (ud_reservation u)) (\<lambda>i.
     op_bind (op_lift (next_revision env i DispatchUnknown (iv_receipt i) (iv_result_ref i) (ud_failure_code u))) (\<lambda>x.
     commit_call sk x [] False))"

section \<open>The runner's side\<close>

text \<open>The hook of the runner, as operations on the host.\<close>

record 'w call_hook =
  hk_reserve :: "reservation \<Rightarrow> ('w, reservation) operation"
  hk_settled :: "settlement \<Rightarrow> ('w, unit) operation"
  hk_unknown :: "unknown_dispatch \<Rightarrow> ('w, unit) operation"
  hk_recover :: "(recovery_query \<Rightarrow> ('w, recovered option) operation) option"

definition fenced_hook :: "journal_env \<Rightarrow> 's sink_ops \<Rightarrow> ('s, 'cb) call_host call_hook" where
  "fenced_hook env sk = \<lparr>hk_reserve = reserve env sk, hk_settled = settled env sk, hk_unknown = unknown env sk,
     hk_recover = Some (recover env sk)\<rparr>"

definition safe_failure_code :: "string \<Rightarrow> string \<Rightarrow> string" where
  "safe_failure_code v d = (if taxonomy_code v then v else d)"

definition reserve_model_dispatch :: "int \<Rightarrow> (pydict \<Rightarrow> string) \<Rightarrow> 'w call_hook \<Rightarrow> string \<Rightarrow> int \<Rightarrow> string \<Rightarrow> string \<Rightarrow> ('w, reservation) operation" where
  "reserve_model_dispatch cfg sha hook call attempt digest key =
     op_bind (op_lift (res_bind (model_dispatch_id cfg sha call attempt) (\<lambda>d. make_reservation cfg
       \<lparr>dr_logical_call_id = call, dr_dispatch_attempt = attempt, dr_dispatch_id = d, dr_request_digest = digest,
        dr_digest_generation = MODEL_REQUEST_DIGEST_GENERATION, dr_idempotency_key = key\<rparr>))) (\<lambda>proposed.
     op_bind (hk_reserve hook proposed) (\<lambda>effective.
     if effective\<lparr>dr_idempotency_key := dr_idempotency_key proposed\<rparr> \<noteq> proposed
     then op_raise (DurableModelCallError ''durable_invocation_reservation_conflict'')
     else op_return effective))"

definition recover_model_dispatch :: "'w call_hook \<Rightarrow> string \<Rightarrow> string \<Rightarrow> bool \<Rightarrow> ('w, recovered option) operation" where
  "recover_model_dispatch hook call digest require = (case hk_recover hook of
      None \<Rightarrow> op_return None
    | Some f \<Rightarrow>
        op_bind (op_lift (make_recovery_query \<lparr>rq_logical_call_id = call, rq_request_digest = digest,
          rq_digest_generation = MODEL_REQUEST_DIGEST_GENERATION, rq_require_evidence = require\<rparr>)) (\<lambda>q.
        op_bind (f q) (\<lambda>x. case x of
          None \<Rightarrow> op_return None
        | Some x \<Rightarrow> if dr_logical_call_id (st_reservation x) \<noteq> rq_logical_call_id q \<or>
              dr_request_digest (st_reservation x) \<noteq> rq_request_digest q \<or>
              dr_digest_generation (st_reservation x) \<noteq> rq_digest_generation q
            then op_raise (DurableModelCallError ''durable_invocation_recovery_conflict'')
            else op_return (Some x))))"

text \<open>The ambiguity is committed when possible; either way the call ends with \<open>dispatch_unknown\<close>.\<close>

definition raise_model_dispatch_unknown :: "'w call_hook \<Rightarrow> reservation \<Rightarrow> string \<Rightarrow> ('w, 'a) operation" where
  "raise_model_dispatch_unknown hook r code =
     op_bind (op_catch (op_bind (op_lift (make_unknown \<lparr>ud_reservation = r,
         ud_failure_code = safe_failure_code code ''dispatch_unknown''\<rparr>)) (hk_unknown hook)) (\<lambda>_. op_return ()))
       (\<lambda>_. op_raise (DurableModelCallError ''dispatch_unknown''))"

text \<open>\<open>evidence\<close> is the receipt projected onto the durable vocabulary, which may fail.\<close>

definition settle_model_dispatch :: "'w call_hook \<Rightarrow> reservation \<Rightarrow> pydict res \<Rightarrow> blob_bytes option \<Rightarrow> string \<Rightarrow> bool option \<Rightarrow> ('w, unit) operation" where
  "settle_model_dispatch hook r evidence result_blob failure_code stream_committed =
     (let safe_failure = (if failure_code \<noteq> [] then safe_failure_code failure_code ''model_error'' else []) in
      op_catch (op_bind (op_lift (res_bind evidence (\<lambda>receipt. make_settlement \<lparr>st_reservation = r,
           st_receipt = (case stream_committed of None \<Rightarrow> receipt | Some b \<Rightarrow> AList.update ''stream_committed'' (PBool b) receipt),
           st_result_blob = result_blob, st_failure_code = safe_failure\<rparr>))) (hk_settled hook))
        (\<lambda>e. if e = ModelEvidenceUncommitted then op_raise e
             else raise_model_dispatch_unknown hook r ''settlement_uncommitted''))"

section \<open>What a success passed through\<close>

text \<open>Two invocations with the same typed columns.\<close>

definition same_facts :: "invocation \<Rightarrow> invocation \<Rightarrow> bool" where
  "same_facts a b \<longleftrightarrow> key_of a = key_of b \<and> iv_dispatch_id a = iv_dispatch_id b \<and> iv_dispatch_attempt a = iv_dispatch_attempt b \<and>
     iv_dispatch_state a = iv_dispatch_state b \<and> iv_idempotency_key a = iv_idempotency_key b \<and>
     iv_request_digest a = iv_request_digest b \<and> iv_evidence_policy a = iv_evidence_policy b \<and>
     iv_result_ref a = iv_result_ref b \<and> iv_failure_code a = iv_failure_code b"

lemma same_call_facts: "same_call a b \<Longrightarrow> same_facts a b"
  using same_call_fields [of a b] by (simp add: same_facts_def)

lemma revoke_host_requested [simp]: "wa_revoke_requested (ch_authority (revoke_host h))"
  by (simp add: revoke_host_def authority_revoke_def revoke_section_def revoke_publish_def)

lemma sink_call_Inr: "sink_call sk f h = (h', Inr x) \<longleftrightarrow> (\<exists>s. f (ch_store h) = (s, Inr x) \<and>
    h' = (if so_revoked sk s then revoke_host (h\<lparr>ch_store := s\<rparr>) else h\<lparr>ch_store := s\<rparr>))"
  by (auto simp: sink_call_def split: prod.splits)

lemma guard_external_Inr: "guard_external_call ch_authority (sink_call sk f) h = (h', Inr x) \<longleftrightarrow>
    \<not> wa_revoke_requested (ch_authority h) \<and> (\<exists>s. f (ch_store h) = (s, Inr x) \<and> \<not> so_revoked sk s \<and> h' = h\<lparr>ch_store := s\<rparr>)"
  by (auto simp: guard_external_call_def assert_active_def guard_def sink_call_def split: prod.splits sum.splits if_splits)

lemma guarded_sink_call_Inr [op_simps]: "guarded_sink_call sk f code h = (h', Inr x) \<longleftrightarrow>
    \<not> wa_revoke_requested (ch_authority h) \<and> (\<exists>s. f (ch_store h) = (s, Inr x) \<and> \<not> so_revoked sk s \<and> h' = h\<lparr>ch_store := s\<rparr>)"
  by (auto simp: guarded_sink_call_def op_catch_Inr guard_external_Inr split: if_splits)

lemma accept_result_Inr [op_simps]: "accept_result r h = (h', Inr st) \<longleftrightarrow> cr_status r \<noteq> CommitFenced \<and> h' = h \<and> st = cr_status r"
  by (cases "cr_status r") (auto simp: accept_result_def accept_fenced_commit_result_def Let_def assert_active_def guard_def
      authority_revoke_def revoke_section_def revoke_publish_def split: prod.splits)

lemma commit_call_Inr [op_simps]: "commit_call sk i blobs stage h = (h', Inr u) \<longleftrightarrow> \<not> wa_revoke_requested (ch_authority h) \<and>
    (\<exists>s c. so_commit sk i blobs (ch_token h) stage (ch_store h) = (s, Inr c) \<and> \<not> so_revoked sk s \<and>
       cr_status c \<in> {Committed, AlreadyCommitted} \<and> h' = h\<lparr>ch_store := s, ch_last := Some i\<rparr>)"
proof -
  have "x \<noteq> CommitFenced \<and> x \<noteq> CommitConflict \<longleftrightarrow> x \<in> {Committed, AlreadyCommitted}" for x by (cases x) auto
  then show ?thesis
    by (auto simp: commit_call_def op_simps op_catch_Inr split: if_splits)
qed

lemma commit_evidence_Inr [op_simps]: "commit_evidence sk i h = (h', Inr u) \<longleftrightarrow> \<not> wa_revoke_requested (ch_authority h) \<and>
    (\<exists>s c. so_evidence sk i (ch_token h) (ch_store h) = (s, Inr c) \<and> \<not> so_revoked sk s \<and>
       cr_status c \<in> {Committed, AlreadyCommitted} \<and> h' = h\<lparr>ch_store := s\<rparr>)"
  by (auto simp: commit_evidence_def op_simps op_catch_Inr guard_external_Inr)

lemma load_call_Inr: "load_call sk call h = (h', Inr (Some r)) \<Longrightarrow> \<not> wa_revoke_requested (ch_authority h) \<and>
    (\<exists>s l. so_load sk (wt_run_id (ch_token h)) call (ch_store h) = (s, Inr l) \<and> \<not> so_revoked sk s \<and> lr_ok l \<and>
       lr_value l = Some r \<and> iv_run_id (ir_invocation r) = wt_run_id (ch_token h) \<and> iv_logical_call_id (ir_invocation r) = call \<and>
       h' = h\<lparr>ch_store := s, ch_last := Some (ir_invocation r)\<rparr>)"
  by (auto simp: load_call_def op_simps lr_ok_def split: if_splits option.splits)

lemma load_dispatch_Inr:
  assumes "load_dispatch sk st r h = (h', Inr i)"
  shows "\<exists>x. load_call sk (dr_logical_call_id r) h = (h', Inr (Some x)) \<and> i = ir_invocation x \<and> iv_dispatch_state i = st \<and> same_dispatch i r"
proof -
  from assms obtain h1 y where l: "load_call sk (dr_logical_call_id r) h = (h1, Inr y)"
    and c: "(case (case y of None \<Rightarrow> None | Some x \<Rightarrow> if iv_dispatch_state (ir_invocation x) = st then Some (ir_invocation x) else None) of
         None \<Rightarrow> op_raise (DurableModelCallError ''durable_invocation_conflict'')
       | Some i \<Rightarrow> if \<not> same_dispatch i r then op_raise (DurableModelCallError ''durable_invocation_request_conflict'')
           else op_return i) h1 = (h', Inr i)"
    unfolding load_dispatch_def op_bind_Inr by blast
  show ?thesis using l c by (cases y) (auto simp: op_simps split: if_splits)
qed

lemma raising_operations:
  "unknown_started env sk i h \<noteq> (h', Inr x)"
  "reject_evidence_policy_change sk i blobs prove h \<noteq> (h', Inr y)"
  "raise_model_dispatch_unknown hook r code w \<noteq> (w', Inr z)"
  by (simp_all add: unknown_started_def reject_evidence_policy_change_def raise_model_dispatch_unknown_def op_simps)

lemma effective_policy_Inr: "effective_evidence_policy sk i require blobs prove h = (h', Inr p) \<Longrightarrow>
    h' = h \<and> p = iv_evidence_policy i \<and> (require \<longrightarrow> p = Required)"
  by (auto simp: effective_evidence_policy_def require_outbox_capability_def raising_operations op_simps Let_def
      split: if_splits option.splits)

lemma invocation_submittable:
  assumes "env_ok env" and "make_invocation (je_va env) (je_cfg env) x = Inr u" and "iv_source_envelope x = None"
    and "wf_val (opt_dict (iv_receipt x))"
  shows "submittable env u"
proof -
  have "iv_source_envelope u = None" using assms(2,3) by (auto simp: make_invocation_iff)
  with make_invocation_ok [OF _ _ assms(4,2)] assms(1) show ?thesis
    by (simp add: submittable_def env_ok_def invocation_ok_def)
qed

lemma submittable_made:
  assumes "env_ok env" and "submittable env i"
  shows "make_invocation (je_va env) (je_cfg env) i = Inr i"
  using assms(2) unfolding submittable_def
proof (elim disjE exE conjE)
  fix p assume "wf_val (PDict p)" "lr_value (decode_stored env p) = Some i"
  then obtain src where n: "norm_val False (PDict p) = PDict src"
    and l: "model_invocation_from_payload (je_va env) (je_cfg env) (je_sha env) src = Inr i"
    unfolding decode_stored_def by (blast elim: decode_value)
  have "wf_val (PDict src)" using wf_norm_val [OF \<open>wf_val (PDict p)\<close>, of False] unfolding n .
  then show ?thesis using loader_result [OF _ _ _ l] assms(1) by (auto simp: env_ok_def)
qed simp

lemma open_call_bare:
  assumes "env_ok env" and "submittable env i" and "iv_dispatch_state i \<in> {Reserved, DispatchStarted}"
  shows "iv_receipt i = None"
  using submittable_made [OF assms(1,2)] assms(3)
  by (auto simp: make_invocation_fixed receipt_fits_def state_shape_def split: if_splits)

lemma next_revision_facts:
  assumes "env_ok env" and "next_revision env i st receipt ref code = Inr u" and "wf_val (opt_dict receipt)"
  shows "submittable env u" "key_of u = (iv_run_id i, iv_logical_call_id i, iv_revision i + 1)" "iv_dispatch_state u = st"
    "iv_dispatch_id u = iv_dispatch_id i" "iv_dispatch_attempt u = iv_dispatch_attempt i" "iv_result_ref u = ref" "iv_failure_code u = code"
    "iv_request_digest u = iv_request_digest i" "iv_evidence_policy u = iv_evidence_policy i"
    "iv_idempotency_key u = iv_idempotency_key i"
  using invocation_submittable [OF assms(1) assms(2) [unfolded next_revision_def]] assms(2,3)
  by (auto simp: next_revision_def make_invocation_iff key_of_def)

lemma reservation_of_id: "reservation_of cfg i = Inr r \<Longrightarrow> dr_dispatch_id r = iv_dispatch_id i"
  by (auto simp: reservation_of_def make_reservation_def res_bind_eq_Inr)

text \<open>The states of a store that a host passes through by its own calls.\<close>

inductive own_calls :: "'s sink_ops \<Rightarrow> writer_token \<Rightarrow> 's \<Rightarrow> 's \<Rightarrow> bool" for sk :: "'s sink_ops" and t :: writer_token and s :: 's where
  none: "own_calls sk t s s"
| load: "own_calls sk t s s1 \<Longrightarrow> so_load sk run call s1 = (s2, lres) \<Longrightarrow> own_calls sk t s s2"
| blob: "own_calls sk t s s1 \<Longrightarrow> so_blob sk run sha s1 = (s2, bres) \<Longrightarrow> own_calls sk t s s2"
| commit: "own_calls sk t s s1 \<Longrightarrow> so_commit sk i blobs t stage s1 = (s2, cres) \<Longrightarrow> own_calls sk t s s2"
| evidence: "own_calls sk t s s1 \<Longrightarrow> so_evidence sk i t s1 = (s2, cres) \<Longrightarrow> own_calls sk t s s2"

lemma own_calls_trans:
  assumes "own_calls sk t s s1" and "own_calls sk t s1 s2"
  shows "own_calls sk t s s2"
  using assms(2,1) by (induction rule: own_calls.induct) (blast intro: own_calls.intros)+

text \<open>The revision is put into the store by a commit that reports success.\<close>

definition commits_at :: "'s sink_ops \<Rightarrow> invocation \<Rightarrow> writer_token \<Rightarrow> 's \<Rightarrow> 's \<Rightarrow> bool" where
  "commits_at sk i t s s' \<longleftrightarrow> (\<exists>blobs stage c. so_commit sk i blobs t stage s = (s', Inr c) \<and> cr_status c \<in> {Committed, AlreadyCommitted})"

section \<open>Laws of a fenced sink\<close>

text \<open>What the host relies on. \<open>stored\<close> are the revisions a state of the store holds, \<open>later\<close> is the
  passing of time with any transactions of other writers, \<open>fence s t\<close> says that the next mutation
  finds \<open>t\<close> to be the current writer, and \<open>delivered\<close> are the revisions whose evidence is recorded.\<close>

locale fenced_sink =
  fixes env :: journal_env and sk :: "'s sink_ops" and good :: "'s \<Rightarrow> bool" and later :: "'s \<Rightarrow> 's \<Rightarrow> bool"
    and stored :: "'s \<Rightarrow> call_key \<Rightarrow> invocation option" and fence :: "'s \<Rightarrow> writer_token \<Rightarrow> bool"
    and delivered :: "'s \<Rightarrow> call_key \<Rightarrow> bool"
  assumes good_env: "good s \<Longrightarrow> env_ok env"
    and later_trans: "later s s1 \<Longrightarrow> later s1 s2 \<Longrightarrow> later s s2"
    and later_stored: "later s s' \<Longrightarrow> stored s k = Some i \<Longrightarrow> stored s' k = Some i"
    and later_delivered: "later s s' \<Longrightarrow> delivered s k \<Longrightarrow> delivered s' k"
    and load_later: "good s \<Longrightarrow> so_load sk run call s = (s', lres) \<Longrightarrow> good s' \<and> later s s'"
    and blob_later: "good s \<Longrightarrow> so_blob sk run sha s = (s', bres) \<Longrightarrow> good s' \<and> later s s'"
    and commit_later: "good s \<Longrightarrow> submittable env i \<Longrightarrow> so_commit sk i blobs t stage s = (s', cres) \<Longrightarrow> good s' \<and> later s s'"
    and evidence_later: "good s \<Longrightarrow> so_evidence sk i t s = (s', cres) \<Longrightarrow> good s' \<and> later s s'"
    and load_head: "good s \<Longrightarrow> so_load sk run call s = (s', Inr l) \<Longrightarrow> lr_ok l \<Longrightarrow> lr_value l = Some r \<Longrightarrow>
      stored s' (key_of (ir_invocation r)) = Some (ir_invocation r) \<and>
      (\<forall>n. iv_revision (ir_invocation r) < n \<longrightarrow> stored s' (run, call, n) = None)"
    and stored_submittable: "good s \<Longrightarrow> stored s k = Some i \<Longrightarrow> submittable env i"
    and commit_stored: "good s \<Longrightarrow> submittable env i \<Longrightarrow> so_commit sk i blobs t stage s = (s', Inr c) \<Longrightarrow>
      cr_status c \<in> {Committed, AlreadyCommitted} \<Longrightarrow> fence s t \<and> (\<exists>i'. stored s' (key_of i) = Some i' \<and> same_facts i' i)"
    and evidence_delivered: "good s \<Longrightarrow> so_evidence sk i t s = (s', Inr c) \<Longrightarrow>
      cr_status c \<in> {Committed, AlreadyCommitted} \<Longrightarrow> fence s t \<and> delivered s' (key_of i)"
    and one_revision: "good s \<Longrightarrow> stored s (run, call, n) = Some a \<Longrightarrow> stored s (run, call, m) = Some b \<Longrightarrow>
      iv_dispatch_id a = iv_dispatch_id b \<Longrightarrow> iv_dispatch_state a = iv_dispatch_state b \<Longrightarrow> n = m"
begin

lemma loaded:
  assumes "good (ch_store h)" and "load_call sk call h = (h', Inr (Some r))"
  shows "good (ch_store h') \<and> later (ch_store h) (ch_store h') \<and> ch_token h' = ch_token h \<and>
    key_of (ir_invocation r) = (wt_run_id (ch_token h), call, iv_revision (ir_invocation r)) \<and>
    stored (ch_store h') (key_of (ir_invocation r)) = Some (ir_invocation r) \<and> submittable env (ir_invocation r) \<and>
    (\<forall>n. iv_revision (ir_invocation r) < n \<longrightarrow> stored (ch_store h') (wt_run_id (ch_token h), call, n) = None)"
proof -
  from load_call_Inr [OF assms(2)] obtain s l where l: "so_load sk (wt_run_id (ch_token h)) call (ch_store h) = (s, Inr l)"
    "lr_ok l" "lr_value l = Some r" and k: "iv_run_id (ir_invocation r) = wt_run_id (ch_token h)" "iv_logical_call_id (ir_invocation r) = call"
    and h': "h' = h\<lparr>ch_store := s, ch_last := Some (ir_invocation r)\<rparr>" by blast
  from load_later [OF assms(1) l(1)] load_head [OF assms(1) l] k show ?thesis
    by (auto simp: h' key_of_def intro: stored_submittable)
qed

lemma committed_call:
  assumes "good (ch_store h)" and "submittable env i" and "commit_call sk i blobs stage h = (h', Inr u)"
  shows "good (ch_store h') \<and> later (ch_store h) (ch_store h') \<and> ch_token h' = ch_token h \<and> fence (ch_store h) (ch_token h) \<and>
    (\<exists>i'. stored (ch_store h') (key_of i) = Some i' \<and> same_facts i' i)"
proof -
  from assms(3) [unfolded commit_call_Inr] obtain s c where
    c: "so_commit sk i blobs (ch_token h) stage (ch_store h) = (s, Inr c)" "cr_status c \<in> {Committed, AlreadyCommitted}"
    and h': "h' = h\<lparr>ch_store := s, ch_last := Some i\<rparr>" by blast
  from commit_later [OF assms(1,2) c(1)] commit_stored [OF assms(1,2) c] show ?thesis by (simp add: h')
qed

lemma committed_at:
  assumes "commit_call sk i blobs stage h = (h', Inr u)"
  shows "commits_at sk i (ch_token h) (ch_store h) (ch_store h')"
proof -
  from assms [unfolded commit_call_Inr] obtain s c where "so_commit sk i blobs (ch_token h) stage (ch_store h) = (s, Inr c)"
    "cr_status c \<in> {Committed, AlreadyCommitted}" "ch_store h' = s" by auto
  then show ?thesis unfolding commits_at_def by blast
qed

text \<open>A dispatch that may start has gone, in this very call, from a reservation at the head of its
  call to a start.\<close>

lemma started:
  assumes "good (ch_store h)" and "dispatch_started env sk r h = (h', Inr u)"
  obtains s1 n a b where "good s1" "later (ch_store h) s1" "later s1 (ch_store h')" "good (ch_store h')"
    "fence s1 (ch_token h)"
    "\<exists>l. so_load sk (wt_run_id (ch_token h)) (dr_logical_call_id r) (ch_store h) = (s1, Inr l)"
    "\<exists>v. commits_at sk v (ch_token h) s1 (ch_store h')"
    "stored s1 (wt_run_id (ch_token h), dr_logical_call_id r, n) = Some a" "iv_dispatch_state a = Reserved"
    "iv_dispatch_id a = dr_dispatch_id r" "iv_dispatch_attempt a = dr_dispatch_attempt r"
    "\<forall>m > n. stored s1 (wt_run_id (ch_token h), dr_logical_call_id r, m) = None"
    "stored (ch_store h') (wt_run_id (ch_token h), dr_logical_call_id r, n + 1) = Some b" "iv_dispatch_state b = DispatchStarted"
    "iv_dispatch_id b = dr_dispatch_id r"
proof -
  from assms(2) obtain h1 a v where l: "load_dispatch sk Reserved r h = (h1, Inr a)"
    and v: "next_revision env a DispatchStarted (iv_receipt a) (iv_result_ref a) (iv_failure_code a) = Inr v"
    and c: "commit_call sk v [] False h1 = (h', Inr u)"
    unfolding dispatch_started_def op_bind_Inr op_lift_Inr by auto
  from load_dispatch_Inr [OF l] obtain x where x: "load_call sk (dr_logical_call_id r) h = (h1, Inr (Some x))"
    and a: "a = ir_invocation x" "iv_dispatch_state a = Reserved" "same_dispatch a r" by blast
  note L = loaded [OF assms(1) x, folded a(1)]
  have "wf_val (opt_dict (iv_receipt a))" using open_call_bare [OF good_env [OF assms(1)], of a] L a(2) by (simp add: opt_dict_def)
  note V = next_revision_facts [OF good_env [OF assms(1)] v this]
  have g: "good (ch_store h1)" using L by blast
  from committed_call [OF g V(1) c] obtain b where b: "stored (ch_store h') (key_of v) = Some b" "same_facts b v"
    and C: "good (ch_store h')" "later (ch_store h1) (ch_store h')" "fence (ch_store h1) (ch_token h1)" by blast
  have "\<exists>l. so_load sk (wt_run_id (ch_token h)) (dr_logical_call_id r) (ch_store h) = (ch_store h1, Inr l)"
    using load_call_Inr [OF x] by auto
  moreover have "\<exists>v. commits_at sk v (ch_token h) (ch_store h1) (ch_store h')"
    using committed_at [OF c] L by auto
  ultimately show ?thesis
    by (intro that [where ?s1.0 = "ch_store h1" and n = "iv_revision a" and a = a and b = b])
       (use L C b V a in \<open>auto simp: same_facts_def same_dispatch_def key_of_def\<close>)
qed

lemma started_once:
  assumes "good (ch_store h)" and "dispatch_started env sk r h = (h', Inr u)"
    and "good (ch_store k)" and "dispatch_started env sk q k = (k', Inr v)"
    and "later (ch_store h') (ch_store k)" and "wt_run_id (ch_token k) = wt_run_id (ch_token h)"
    and "dr_logical_call_id q = dr_logical_call_id r"
  shows "dr_dispatch_id q \<noteq> dr_dispatch_id r"
proof
  assume same: "dr_dispatch_id q = dr_dispatch_id r"
  let ?key = "\<lambda>n. (wt_run_id (ch_token h), dr_logical_call_id r, n)"
  from started [OF assms(1,2)] obtain s1 n a b where
    A: "later s1 (ch_store h')" "stored s1 (?key n) = Some a" "iv_dispatch_state a = Reserved"
      "iv_dispatch_id a = dr_dispatch_id r" "stored (ch_store h') (?key (n + 1)) = Some b" by metis
  from started [OF assms(3,4)] obtain s2 m c where
    B: "good s2" "later (ch_store k) s2" "stored s2 (?key m) = Some c" "iv_dispatch_state c = Reserved"
      "iv_dispatch_id c = dr_dispatch_id r" "\<forall>i > m. stored s2 (?key i) = None"
    unfolding assms(6,7) same by metis
  have "later (ch_store h') s2" using later_trans assms(5) B(2) by blast
  then have s: "stored s2 (?key n) = Some a" "stored s2 (?key (n + 1)) = Some b"
    using later_stored later_trans A by metis+
  have "n = m" using one_revision [OF B(1) s(1) B(3)] A B by simp
  with s(2) B(6) show False by auto
qed

lemma evidence_committed:
  assumes "good (ch_store h)" and "commit_evidence sk i h = (h', Inr u)"
  shows "good (ch_store h') \<and> later (ch_store h) (ch_store h') \<and> ch_token h' = ch_token h \<and> fence (ch_store h) (ch_token h) \<and>
    delivered (ch_store h') (key_of i)"
proof -
  from assms(2) [unfolded commit_evidence_Inr] obtain s c where
    c: "so_evidence sk i (ch_token h) (ch_store h) = (s, Inr c)" "cr_status c \<in> {Committed, AlreadyCommitted}"
    and h': "h' = h\<lparr>ch_store := s\<rparr>" by blast
  from evidence_later [OF assms(1) c(1)] evidence_delivered [OF assms(1) c] show ?thesis by (simp add: h')
qed

lemma settlement_committed:
  assumes "good (ch_store h)" and "submittable env i" and "commit_settled sk i blobs require ec auth h = (h', Inr u)"
  shows "good (ch_store h') \<and> later (ch_store h) (ch_store h') \<and> ch_token h' = ch_token h \<and> fence (ch_store h) (ch_token h) \<and>
    (\<exists>i'. stored (ch_store h') (key_of i) = Some i' \<and> same_facts i' i) \<and>
    ((iv_evidence_policy i = Required \<longrightarrow> ec) \<longrightarrow> commits_at sk i (ch_token h) (ch_store h) (ch_store h')) \<and>
    (iv_evidence_policy i = Required \<longrightarrow> \<not> ec \<longrightarrow> delivered (ch_store h') (key_of i)) \<and> (require \<longrightarrow> iv_evidence_policy i = Required)"
proof -
  from assms(3) obtain h0 p h1 w where p: "effective_evidence_policy sk i require blobs auth h = (h0, Inr p)"
    and c: "commit_call sk i blobs (p = OutboxEvidence) h0 = (h1, Inr w)"
    and v: "(if p = Required \<and> \<not> ec then commit_evidence sk i else op_return ()) h1 = (h', Inr u)"
    unfolding commit_settled_def op_bind_Inr by blast
  have h0: "h0 = h" "p = iv_evidence_policy i" "require \<longrightarrow> p = Required" using effective_policy_Inr [OF p] by blast+
  note C = committed_call [OF assms(1,2) c [unfolded h0(1)]]
  show ?thesis
  proof (cases "p = Required \<and> \<not> ec")
    case True
    with v have "commit_evidence sk i h1 = (h', Inr u)" by simp
    with C have E: "good (ch_store h') \<and> later (ch_store h1) (ch_store h') \<and> ch_token h' = ch_token h1 \<and> delivered (ch_store h') (key_of i)"
      using evidence_committed by blast
    from C obtain i' where "stored (ch_store h1) (key_of i) = Some i'" "same_facts i' i" by blast
    moreover from this(1) have "stored (ch_store h') (key_of i) = Some i'" using E later_stored by blast
    moreover have "later (ch_store h) (ch_store h')" using C E later_trans by blast
    ultimately show ?thesis using C E h0 True by auto
  next
    case False
    with v have "h' = h1" by (auto simp: op_simps)
    with C h0 False committed_at [OF c] show ?thesis by auto
  qed
qed

text \<open>What a recovered result rests on.\<close>

lemma recovered_settled:
  assumes "good (ch_store h)" and "submittable env i" and "recover_settled env sk require ec i receipt h = (h', Inr x)"
  shows "good (ch_store h') \<and> later (ch_store h) (ch_store h') \<and>
    (\<exists>s. own_calls sk (ch_token h) (ch_store h) s \<and> fence s (ch_token h) \<and>
       ((iv_evidence_policy i = Required \<longrightarrow> ec) \<longrightarrow> commits_at sk i (ch_token h) s (ch_store h'))) \<and>
    st_receipt x = receipt \<and> st_failure_code x = iv_failure_code i \<and> reservation_of (je_cfg env) i = Inr (st_reservation x) \<and>
    (if iv_failure_code i = [] then \<exists>b. st_result_blob x = Some b \<and> iv_result_ref i = ''blob:'' @ je_bsha env b else st_result_blob x = None) \<and>
    (iv_evidence_policy i = Required \<longrightarrow> \<not> ec \<longrightarrow> delivered (ch_store h') (key_of i)) \<and> (require \<longrightarrow> iv_evidence_policy i = Required)"
proof -
  obtain rv where rv: "reservation_of (je_cfg env) i = Inr rv"
    using assms(3) unfolding recover_settled_def op_bind_Inr op_lift_Inr by blast
  show ?thesis
  proof (cases "iv_failure_code i = []")
    case False
    with assms(3) rv obtain h1 w where c: "commit_settled sk i [] require ec True h = (h1, Inr w)"
      and m: "h' = h1" "make_recovered \<lparr>st_reservation = rv, st_receipt = receipt, st_result_blob = None, st_failure_code = iv_failure_code i\<rparr> = Inr x"
      by (auto simp: recover_settled_def op_simps)
    have "x = \<lparr>st_reservation = rv, st_receipt = receipt, st_result_blob = None, st_failure_code = iv_failure_code i\<rparr>"
      using m(2) by (auto simp: make_recovered_def res_bind_eq_Inr split: if_splits)
    with settlement_committed [OF assms(1,2) c] m(1) rv False own_calls.none show ?thesis by fastforce
  next
    case True
    let ?sha = "if str_startswith (iv_result_ref i) ''blob:'' then drop 5 (iv_result_ref i) else iv_result_ref i"
    from True assms(3) rv obtain h1 h2 blob w where ref: "iv_result_ref i = ''blob:'' @ ?sha"
      and b: "sink_call sk (so_blob sk (iv_run_id i) ?sha) h = (h1, Inr blob)" "je_bsha env blob = ?sha"
      and c: "commit_settled sk i [(?sha, blob)] require ec True h1 = (h2, Inr w)"
      and m: "h' = h2" "make_recovered \<lparr>st_reservation = rv, st_receipt = receipt, st_result_blob = Some blob, st_failure_code = []\<rparr> = Inr x"
      unfolding recover_settled_def op_bind_Inr op_lift_Inr Let_def
      by (auto simp: op_simps op_catch_Inr split: if_splits)
    from b(1) obtain s where s: "so_blob sk (iv_run_id i) ?sha (ch_store h) = (s, Inr blob)" "ch_store h1 = s" "ch_token h1 = ch_token h"
      by (auto simp: sink_call_Inr revoke_host_def)
    have g: "good (ch_store h1)" "later (ch_store h) (ch_store h1)" using blob_later [OF assms(1) s(1)] s(2) by simp_all
    have "x = \<lparr>st_reservation = rv, st_receipt = receipt, st_result_blob = Some blob, st_failure_code = []\<rparr>"
      using m(2) by (auto simp: make_recovered_def res_bind_eq_Inr split: if_splits)
    moreover have "own_calls sk (ch_token h) (ch_store h) (ch_store h1)"
      using own_calls.blob [OF own_calls.none s(1)] s(2) by simp
    ultimately show ?thesis using settlement_committed [OF g(1) assms(2) c] m(1) rv True ref b(2) s(3) g(2)
      by (fastforce intro: later_trans)
  qed
qed

lemma recovered_result:
  assumes "good (ch_store h)" and "recover env sk q h = (h', Inr (Some x))"
  obtains s n i where "own_calls sk (ch_token h) (ch_store h) s" "fence s (ch_token h)" "commits_at sk i (ch_token h) s (ch_store h')"
    "good (ch_store h')" "key_of i = (wt_run_id (ch_token h), rq_logical_call_id q, n)"
    "stored (ch_store h') (wt_run_id (ch_token h), rq_logical_call_id q, n) = Some i" "iv_dispatch_state i = Settled"
    "iv_request_digest i = rq_request_digest q" "iv_receipt i = Some (st_receipt x)" "st_failure_code x = iv_failure_code i"
    "dr_dispatch_id (st_reservation x) = iv_dispatch_id i"
    "if iv_failure_code i = [] then \<exists>b. st_result_blob x = Some b \<and> iv_result_ref i = ''blob:'' @ je_bsha env b else st_result_blob x = None"
    "iv_evidence_policy i = Required \<longrightarrow> delivered (ch_store h') (wt_run_id (ch_token h), rq_logical_call_id q, n)"
    "rq_require_evidence q \<longrightarrow> iv_evidence_policy i = Required"
proof -
  from assms(2) obtain h1 y where l: "load_call sk (rq_logical_call_id q) h = (h1, Inr (Some y))"
    by (auto simp: recover_def op_simps split: option.splits)
  define i where "i = ir_invocation y"
  define deliver where "deliver \<longleftrightarrow> iv_dispatch_state i = Settled \<and> iv_evidence_policy i = Required"
  have "op_bind (if deliver then commit_evidence sk i else op_return ()) (\<lambda>_. recover_delivered env sk q deliver i) h1 = (h', Inr (Some x))"
    using assms(2) unfolding recover_def op_bind_def [of "load_call sk (rq_logical_call_id q)"] l Let_def
    by (simp only: prod.case sum.case option.case i_def deliver_def)
  then obtain h2 w where d: "(if deliver then commit_evidence sk i else op_return ()) h1 = (h2, Inr w)"
    and r: "recover_delivered env sk q deliver i h2 = (h', Inr (Some x))"
    unfolding op_bind_Inr by blast
  from r obtain receipt where st: "iv_dispatch_state i = Settled" "iv_receipt i = Some receipt" "iv_request_digest i = rq_request_digest q"
    and rs: "recover_settled env sk (rq_require_evidence q) deliver i receipt h2 = (h', Inr x)"
    by (auto simp: recover_delivered_def op_simps raising_operations split: if_splits dispatch_state.splits option.splits)
  note L = loaded [OF assms(1) l, folded i_def]
  have D: "good (ch_store h2) \<and> (h2 = h1 \<or> later (ch_store h1) (ch_store h2)) \<and> ch_token h2 = ch_token h1 \<and>
      (deliver \<longrightarrow> delivered (ch_store h2) (key_of i))"
    using d L evidence_committed [of h1 i h2 w] by (auto simp: op_simps split: if_splits)
  have own1: "own_calls sk (ch_token h) (ch_store h) (ch_store h1)"
    using load_call_Inr [OF l] own_calls.load [OF own_calls.none] by fastforce
  have own2: "own_calls sk (ch_token h) (ch_store h) (ch_store h2)"
  proof (cases deliver)
    case True
    with d have "commit_evidence sk i h1 = (h2, Inr w)" by simp
    then obtain c where "so_evidence sk i (ch_token h1) (ch_store h1) = (ch_store h2, Inr c)" unfolding commit_evidence_Inr by auto
    with own1 L show ?thesis by (metis own_calls.evidence)
  next
    case False
    with d own1 show ?thesis by (auto simp: op_simps)
  qed
  have g: "good (ch_store h2)" "submittable env i" using D L by blast+
  from recovered_settled [OF g rs] obtain s where R: "good (ch_store h')" "later (ch_store h2) (ch_store h')"
    "own_calls sk (ch_token h2) (ch_store h2) s" "fence s (ch_token h2)"
    "st_receipt x = receipt" "st_failure_code x = iv_failure_code i" "reservation_of (je_cfg env) i = Inr (st_reservation x)"
    "if iv_failure_code i = [] then \<exists>b. st_result_blob x = Some b \<and> iv_result_ref i = ''blob:'' @ je_bsha env b else st_result_blob x = None"
    "iv_evidence_policy i = Required \<longrightarrow> \<not> deliver \<longrightarrow> delivered (ch_store h') (key_of i)"
    "rq_require_evidence q \<longrightarrow> iv_evidence_policy i = Required"
    "(iv_evidence_policy i = Required \<longrightarrow> deliver) \<longrightarrow> commits_at sk i (ch_token h2) s (ch_store h')" by blast
  have lt: "later (ch_store h) (ch_store h2)" "later (ch_store h1) (ch_store h')" using L D R(2) by (metis later_trans)+
  show ?thesis
  proof (rule that [where s = s and n = "iv_revision i" and i = i])
    show "own_calls sk (ch_token h) (ch_store h) s" using own_calls_trans [OF own2] R(3) D L by simp
    show "commits_at sk i (ch_token h) s (ch_store h')" using R(11) D L st(1) by (auto simp: deliver_def)
    show "stored (ch_store h') (wt_run_id (ch_token h), rq_logical_call_id q, iv_revision i) = Some i"
      using L later_stored [OF lt(2)] by metis
    show "dr_dispatch_id (st_reservation x) = iv_dispatch_id i"
      using R(7) by (rule reservation_of_id)
    show "iv_evidence_policy i = Required \<longrightarrow> delivered (ch_store h') (wt_run_id (ch_token h), rq_logical_call_id q, iv_revision i)"
      using R(9) D later_delivered [OF R(2)] L st(1) by (metis deliver_def)
  qed (use R st D L in auto)
qed

text \<open>A reservation is returned only for a call that may still be dispatched, and is then the one
  stored.\<close>

lemma load_none:
  assumes "good (ch_store h)" and "load_call sk call h = (h', Inr None)"
  shows "good (ch_store h') \<and> ch_token h' = ch_token h"
  using assms(2) load_later [OF assms(1)] by (auto simp: load_call_def op_simps split: if_splits option.splits)

lemma reservation_committed:
  assumes "good (ch_store h)" and "commit_reservation env sk r n p h = (h', Inr r')"
  shows "r' = r \<and> (\<exists>i. stored (ch_store h') (wt_run_id (ch_token h), dr_logical_call_id r, n) = Some i \<and> iv_dispatch_state i = Reserved \<and>
    iv_dispatch_id i = dr_dispatch_id r \<and> iv_dispatch_attempt i = dr_dispatch_attempt r)"
proof -
  from assms(2) obtain i w x where m: "make_invocation (je_va env) (je_cfg env) x = Inr i" "iv_source_envelope x = None" "iv_receipt x = None"
      "key_of x = (wt_run_id (ch_token h), dr_logical_call_id r, n)" "iv_dispatch_state x = Reserved"
      "iv_dispatch_id x = dr_dispatch_id r" "iv_dispatch_attempt x = dr_dispatch_attempt r"
    and c: "commit_call sk i [] False h = (h', Inr w)" and r: "r' = r"
    unfolding commit_reservation_def op_bind_Inr op_lift_Inr op_return_Inr by (auto simp: key_of_def)
  have "submittable env i" using invocation_submittable [OF good_env [OF assms(1)] m(1,2)] m(3) by (simp add: opt_dict_def)
  from committed_call [OF assms(1) this c] m show ?thesis
    by (auto simp: r make_invocation_iff same_facts_def key_of_def)
qed

lemma reserved:
  assumes "good (ch_store h)" and "reserve env sk p h = (h', Inr r)"
  shows "dr_logical_call_id r = dr_logical_call_id p \<and> dr_dispatch_attempt r = dr_dispatch_attempt p \<and> dr_dispatch_id r = dr_dispatch_id p \<and>
    (\<exists>n i. stored (ch_store h') (wt_run_id (ch_token h), dr_logical_call_id r, n) = Some i \<and> iv_dispatch_state i = Reserved \<and>
       iv_dispatch_id i = dr_dispatch_id r \<and> iv_dispatch_attempt i = dr_dispatch_attempt r)"
proof -
  from assms(2) obtain h1 y where l: "load_call sk (dr_logical_call_id p) h = (h1, Inr y)"
    unfolding reserve_def op_bind_Inr by blast
  note body = assms(2) [unfolded reserve_def op_bind_def [of "load_call sk (dr_logical_call_id p)"] l prod.case sum.case]
  have key: "with_key cfg p k = Inr e \<Longrightarrow> e = p\<lparr>dr_idempotency_key := k\<rparr>" for cfg k e
    by (auto simp: with_key_def make_reservation_def res_bind_eq_Inr)
  show ?thesis
  proof (cases y)
    case None
    note L = load_none [OF assms(1) l [unfolded None]]
    from body None obtain h2 w where "commit_reservation env sk p 1 (ch_policy h1) h2 = (h', Inr r)"
      and o: "(if ch_policy h1 = OutboxEvidence then require_outbox_capability sk None else op_return ()) h1 = (h2, Inr w)"
      by (auto simp: op_bind_Inr)
    moreover have "h2 = h1" using o by (auto simp: require_outbox_capability_def op_simps split: if_splits)
    ultimately show ?thesis using reservation_committed L by metis
  next
    case (Some x)
    note L = loaded [OF assms(1) l [unfolded Some]]
    define i where "i = ir_invocation x"
    note L = L [folded i_def]
    note body = body [unfolded Some option.case Let_def, folded i_def]
    show ?thesis
    proof (cases "iv_dispatch_state i")
      case Reserved
      with body obtain h2 pol e where "effective_evidence_policy sk i False [] True h1 = (h2, Inr pol)"
        and e: "with_key (je_cfg env) p (iv_idempotency_key i) = Inr e" "same_dispatch i e" "r = e" "h' = h2"
        by (auto simp: op_simps split: if_splits)
      then have "h' = h1" using effective_policy_Inr by blast
      moreover have "stored (ch_store h1) (wt_run_id (ch_token h), dr_logical_call_id p, iv_revision i) = Some i" using L by metis
      ultimately show ?thesis using e key [OF e(1)] Reserved by (intro conjI exI [of _ "iv_revision i"] exI [of _ i]) (auto simp: same_dispatch_def)
    next
      case Settled
      with body obtain h2 pol e where "effective_evidence_policy sk i False [] True h1 = (h2, Inr pol)"
        and e: "with_key (je_cfg env) p (iv_idempotency_key i) = Inr e"
        and c: "commit_reservation env sk e (iv_revision i + 1) pol h2 = (h', Inr r)"
        by (auto simp: op_simps split: if_splits)
      then have "h2 = h1" using effective_policy_Inr by blast
      with L c reservation_committed [of h2 e "iv_revision i + 1" pol h' r] key [OF e] show ?thesis by auto
    qed (use body in \<open>auto simp: raising_operations op_simps\<close>)
  qed
qed

end

end
