(* ===== verification/Postgres_Calls.thy ===== *)
theory Postgres_Calls
  imports Journal_History Model_Calls
begin

text \<open>
  The durable life of model calls on the PostgreSQL journal: a call of the lifecycle runs against the
  journal with other transactions before and between its accesses, and the interface that the
  lifecycle relies on (a success is a stored revision, reads return stored revisions, a reservation
  becomes a start only under the fence) is interpreted on the operations of the journal.
\<close>

section \<open>A success is a stored revision\<close>

lemma state_str_inj: "dispatch_state_str a = dispatch_state_str b \<Longrightarrow> a = b"
  by (cases a; cases b) simp_all

text \<open>Two payloads with equal typed columns spell the same facts.\<close>

lemma spelled_facts:
  assumes "spells p a" and "spells q b"
    and "tuple_eq (map (dget (invocation_typed_payload p)) INVOCATION_TYPED_FIELDS) cols"
    and "tuple_eq cols (map (dget (invocation_typed_payload q)) INVOCATION_TYPED_FIELDS)"
  shows "same_facts a b"
proof -
  obtain x y where p: "map (dget (invocation_typed_payload p)) INVOCATION_TYPED_FIELDS = call_cols (key_of a) @
       [PStr x, PStr (iv_dispatch_id a), PInt (iv_dispatch_attempt a),
       PStr (dispatch_state_str (iv_dispatch_state a)), PStr (iv_idempotency_key a), PStr (iv_request_digest a),
       PStr y, PStr (evidence_policy_str (iv_evidence_policy a)), PStr (iv_result_ref a), PStr (iv_failure_code a)]"
    using assms(1) unfolding spells_def by blast
  obtain x' y' where q: "map (dget (invocation_typed_payload q)) INVOCATION_TYPED_FIELDS = call_cols (key_of b) @
       [PStr x', PStr (iv_dispatch_id b), PInt (iv_dispatch_attempt b),
       PStr (dispatch_state_str (iv_dispatch_state b)), PStr (iv_idempotency_key b), PStr (iv_request_digest b),
       PStr y', PStr (evidence_policy_str (iv_evidence_policy b)), PStr (iv_result_ref b), PStr (iv_failure_code b)]"
    using assms(2) unfolding spells_def by blast
  have t: "py_eq (PStr u) v \<Longrightarrow> py_eq v (PStr w) \<Longrightarrow> u = w" "py_eq (PInt m) v \<Longrightarrow> py_eq v (PInt n) \<Longrightarrow> m = n" for u v w m n
    by (cases v; simp add: num_eq_def)+
  define rel where "rel u w \<longleftrightarrow> (\<exists>v. py_eq u v \<and> py_eq v w)" for u w
  have "rel (PStr u) (PStr w) \<Longrightarrow> u = w" "rel (PInt m) (PInt n) \<Longrightarrow> m = n" for u w m n
    using t by (auto simp: rel_def)
  moreover have "list_all2 rel (map (dget (invocation_typed_payload p)) INVOCATION_TYPED_FIELDS)
      (map (dget (invocation_typed_payload q)) INVOCATION_TYPED_FIELDS)"
    using list_all2_trans [OF _ assms(3,4) [unfolded tuple_eq_def], of rel] by (auto simp: rel_def)
  ultimately show ?thesis unfolding p q call_cols_def key_of_def same_facts_def
    by (simp add: state_str_inj policy_str_inj)
qed

lemma found_revision:
  assumes "rows_sound env j" and "spells payload i"
    and "invocation_coordinate env j i payload digest = Inr (Some c)" and "cr_status c \<in> {Committed, AlreadyCommitted}"
  shows "\<exists>i'. stored_call env j (key_of i) = Some i' \<and> same_facts i' i"
proof -
  from assms(3,4) obtain r where r: "map_of (jn_invocations j) (key_of i) = Some r"
    and t: "tuple_eq (call_cols (key_of i) @ sr_typed r) (map (dget (invocation_typed_payload payload)) INVOCATION_TYPED_FIELDS)"
    by (auto simp: invocation_coordinate_def stored_result_def Let_def res_bind_eq_Inr split: option.splits if_splits
        dest!: make_commit_result_status)
  from assms(1) map_of_SomeD [OF r] obtain i' where d: "decoded_row env (key_of i) r = Some i'" and sp: "spells (sr_payload r) i'"
    by (auto simp: rows_sound_def)
  then have b: "row_bound env (key_of i) r" by (auto simp: decoded_row_def Let_def split: if_splits)
  then have "same_facts i' i"
    using spelled_facts [OF sp assms(2) _ t]
    by (simp add: row_bound_def invocation_payload_matches_typed_values_def payload_matches_typed_values_def)
  then show ?thesis using r d by (simp add: stored_call_def)
qed

lemma locked_found:
  assumes "commit_invocation_locked env i blobs stage j j1 = Inr (Some (j', r, d))" and "cr_status r = AlreadyCommitted"
  shows "\<exists>payload. payload_for_write env i = Inr payload \<and> invocation_coordinate env j i payload d = Inr (Some r)"
proof -
  have R: "conflict_body env j1 sq x w \<noteq> Inr (Some (j', r, d))" for sq x w
    using conflict_body_state [of env j1 sq x w j' r d] assms(2) by auto
  obtain payload where p: "payload_for_write env i = Inr payload"
    using assms(1) R by (cases "payload_for_write env i")
      (auto simp: commit_invocation_locked_def Let_def or_conflict_def split: if_splits option.splits)
  have W: "write_revision env i payload x b stage' j1 \<noteq> Inr (Some (j', r, d))" for x b stage'
    using write_revision_effect [of env i payload x b stage' j1 j' r d] assms(2) by auto
  have "invocation_coordinate env j i payload d = Inr (Some r)"
    using assms(1) unfolding commit_invocation_locked_def or_conflict_def p Let_def
    by (auto simp: R W res_bind_eq_Inr split: if_splits option.splits)
  with p show ?thesis by blast
qed

lemma others_stored: "stored_call env (others tx j) = stored_call env j"
  by (rule ext) (simp add: stored_call_def others_def)

lemma commit_success_stored:
  assumes env: "env_ok env" and snd: "sound env j" "sound env j'" and sub: "submittable env i"
    and c: "commit_invocation env ready tx i blobs t stage j = (j', Inr r)" and st: "cr_status r \<in> {Committed, AlreadyCommitted}"
  shows "iv_run_id i = wt_run_id t \<and> current_writer_locked (je_cfg env) (jn_authority j) t (tx_now tx) = Inr True \<and>
    (\<exists>i'. stored_call env j' (key_of i) = Some i' \<and> same_facts i' i)"
proof -
  have rows: "rows_sound env j" "rows_sound env j'" using snd by (simp_all add: sound_def calls_ok_def)
  obtain payload where p: "payload_for_write env i = Inr payload" and sp: "spells payload i"
    by (rule submitted_payload [OF env sub])
  from mutation_result [OF c [unfolded commit_invocation_def] st] obtain j1 r1 d where
    w: "iv_run_id i = wt_run_id t" "current_writer_locked (je_cfg env) (jn_authority j) t (tx_now tx) = Inr True"
    and l: "commit_invocation_locked env i blobs stage j (others tx j) = Inr (Some (j1, r1, d))"
    and cs: "j' = j1 \<and> r = r1 \<or> reconcile_invocation env i stage d j' = Inr (Some r)"
    by (auto simp: fenced_result_def dest: make_commit_result_status)
  have "\<exists>i'. stored_call env j' (key_of i) = Some i' \<and> same_facts i' i"
  proof (cases "reconcile_invocation env i stage d j' = Inr (Some r)")
    case True
    then obtain x where "invocation_coordinate env j' i payload d = Inr (Some x)" "cr_status x \<in> {Committed, AlreadyCommitted}"
      using st by (auto simp: reconcile_invocation_def p res_bind_eq_Inr split: option.splits if_splits dest: make_commit_result_status)
    then show ?thesis by (rule found_revision [OF rows(2) sp])
  next
    case False
    with cs have j: "j' = j1" "r = r1" by auto
    show ?thesis
    proof (cases "cr_status r = Committed")
      case True
      with locked_cases [OF l] j obtain q where
        q: "revision_admitted env i blobs stage j q"
          "write_revision env i q (record_digest env q blobs) blobs stage (others tx j) = Inr (Some (j', r, d))" by auto
      from write_revision_effect [OF q(2)] obtain b a ob where
        e: "j' = (with_revision env i q (record_digest env q blobs) blobs (others tx j))\<lparr>jn_blobs := b, jn_run_blobs := a, jn_outbox := ob\<rparr>" .
      have calls: "calls_ok env j" using snd by (simp add: sound_def)
      obtain i' where "appended env i i' j j'"
        by (rule revision_appended [OF calls env sub q(1), of j']) (simp_all add: e with_revision_def others_def)
      then have "same_call i' i" "stored_call env j' (key_of i) = Some i'" unfolding appended_def by presburger+
      then show ?thesis by (blast intro: same_call_facts)
    next
      case False
      with st have a: "cr_status r1 = AlreadyCommitted" by (simp add: j)
      from locked_found [OF l a] p have f: "invocation_coordinate env j i payload d = Inr (Some r1)" by auto
      have "j1 = others tx j" using locked_cases [OF l] a write_revision_effect by fastforce
      then show ?thesis using found_revision [OF rows(1) sp f] a j by (simp add: others_stored)
    qed
  qed
  with w show ?thesis by blast
qed

text \<open>What the fence demands, over the columns of the row.\<close>

definition holds_lease :: "authority_table \<Rightarrow> writer_token \<Rightarrow> int \<Rightarrow> bool" where
  "holds_lease tbl t now \<longleftrightarrow> (\<exists>r. tbl (wt_run_id t) = Some r \<and> ar_owner_id r = wt_owner_id t \<and>
     ar_generation r = wt_generation t \<and> \<not> ar_revoked r \<and> now < ar_leased_until r)"

lemma current_writer_holds_lease:
  assumes "current_writer_locked cfg tbl t now = Inr True"
  shows "holds_lease tbl t now"
proof -
  from assms obtain r u where r: "tbl (wt_run_id t) = Some r" "authority_from_row cfg (wt_run_id t) r now = Inr u"
    and u: "wu_token u = t" "wu_active u"
    by (auto simp: current_writer_locked_def read_locked_def res_bind_eq_Inr split: option.splits)
  from r(2) obtain t' where t': "make_writer_token cfg (wt_run_id t) (ar_owner_id r) (ar_generation r) = Inr t'"
    "u = \<lparr>wu_token = t', wu_leased_until = ar_leased_until r, wu_observed_at = now, wu_revoked = ar_revoked r\<rparr>"
    by (auto simp: authority_from_row_def res_bind_eq_Inr)
  have "wt_owner_id t' = ar_owner_id r" "wt_generation t' = ar_generation r"
    using t'(1) by (auto simp: make_writer_token_def split: if_splits)
  with r(1) u t'(2) show ?thesis by (auto simp: holds_lease_def wu_active_def)
qed

section \<open>A session on the journal\<close>

text \<open>What surrounds the next call of a host: the transactions of others that commit before it, the
  attempt of its own transaction, the failure of a read, and whether the authority is revoked
  meanwhile. A session has met a finite number of calls; beyond them the database is gone. The log
  of a session is no state of the program: it records every call the host made, the latest first,
  with the journal that call met, so that a property can speak of the host's own transactions.\<close>

record pending_call =
  pc_before :: "journal \<Rightarrow> journal"
  pc_attempt :: attempt
  pc_read_error :: "exn option"
  pc_revoked :: bool

record session =
  se_journal :: journal
  se_next :: "pending_call list"
  se_revoked :: bool
  se_log :: "(pending_call \<times> journal) list"

definition with_call :: "(pending_call \<Rightarrow> journal \<Rightarrow> journal \<times> 'a res) \<Rightarrow> (session, 'a) operation" where
  "with_call f s = (case se_next s of
      [] \<Rightarrow> (s, Inl (DatabaseError False))
    | p # ps \<Rightarrow> (case f p (pc_before p (se_journal s)) of (j, r) \<Rightarrow>
        (\<lparr>se_journal = j, se_next = ps, se_revoked = pc_revoked p,
          se_log = (p, pc_before p (se_journal s)) # se_log s\<rparr>, r)))"

definition reading :: "(journal \<Rightarrow> 'a res) \<Rightarrow> pending_call \<Rightarrow> journal \<Rightarrow> journal \<times> 'a res" where
  "reading f p j = (j, case pc_read_error p of None \<Rightarrow> f j | Some e \<Rightarrow> Inl e)"

definition postgres_ops :: "journal_env \<Rightarrow> session sink_ops" where
  "postgres_ops env = \<lparr>
     so_load = (\<lambda>run call. with_call (reading (\<lambda>j. load_invocation env True j run call))),
     so_blob = (\<lambda>run sha. with_call (reading (\<lambda>j. read_blob env True j run sha))),
     so_commit = (\<lambda>i blobs t stage. with_call (\<lambda>p. commit_invocation env True (pc_attempt p) i blobs t stage)),
     so_evidence = (\<lambda>i t. with_call (\<lambda>p. commit_model_evidence env True (pc_attempt p) i t)),
     so_outbox = (\<lambda>_. True),
     so_revoked = se_revoked\<rparr>"

definition pending_ok :: "journal_env \<Rightarrow> pending_call \<Rightarrow> bool" where
  "pending_ok env p \<longleftrightarrow> concurrent_ok env (pc_attempt p) \<and> (\<forall>j. journal_run env j (tx_later (pc_attempt p) j)) \<and>
     (\<forall>j. journal_run env j (pc_before p j))"

definition session_ok :: "journal_env \<Rightarrow> session \<Rightarrow> bool" where
  "session_ok env s \<longleftrightarrow> env_ok env \<and> sound env (se_journal s) \<and> list_all (pending_ok env) (se_next s)"

definition session_later :: "journal_env \<Rightarrow> session \<Rightarrow> session \<Rightarrow> bool" where
  "session_later env s s' \<longleftrightarrow> keeps env (se_journal s) (se_journal s')"

text \<open>The next call of the session finds the lease of the run with \<open>t\<close>.\<close>

definition session_fence :: "session \<Rightarrow> writer_token \<Rightarrow> bool" where
  "session_fence s t \<longleftrightarrow> (case se_next s of [] \<Rightarrow> False
     | p # _ \<Rightarrow> holds_lease (jn_authority (pc_before p (se_journal s))) t (tx_now (pc_attempt p)))"

lemma pending_ok_tx: "env_ok env \<Longrightarrow> pending_ok env p \<Longrightarrow> good_tx env (pc_attempt p)"
  using run_keeps by (auto simp: pending_ok_def good_tx_def)

lemma keeps_sound: "keeps env j j' \<Longrightarrow> sound env j \<Longrightarrow> sound env j'"
  by (simp add: keeps_def calls_evolve_def)

text \<open>A call keeps a session in order when its transaction keeps the journal.\<close>

lemma with_call_later:
  assumes "session_ok env s" and "with_call f s = (s', r)"
    and "\<And>p j. pending_ok env p \<Longrightarrow> sound env j \<Longrightarrow> keeps env j (fst (f p j))"
  shows "session_ok env s' \<and> session_later env s s'"
proof (cases "se_next s")
  case Nil
  with assms(1,2) show ?thesis by (auto simp: with_call_def session_later_def intro: jr.rel_refl)
next
  case (Cons p ps)
  let ?j = "pc_before p (se_journal s)"
  have ok: "env_ok env" "pending_ok env p" "sound env (se_journal s)" using assms(1) Cons by (simp_all add: session_ok_def)
  have b: "keeps env (se_journal s) ?j" using run_keeps [OF ok(1)] ok(2) by (simp add: pending_ok_def)
  have k: "keeps env ?j (fst (f p ?j))" by (rule assms(3) [OF ok(2) keeps_sound [OF b ok(3)]])
  have "keeps env (se_journal s) (fst (f p ?j))" using b k by (rule keeps_trans)
  moreover have "se_journal s' = fst (f p ?j)" "se_next s' = ps"
    using assms(2) Cons by (auto simp: with_call_def split: prod.splits)
  ultimately show ?thesis using assms(1) Cons keeps_sound by (auto simp: session_ok_def session_later_def)
qed

lemma with_call_Inr:
  assumes "with_call f s = (s', Inr x)"
  obtains p ps j where "se_next s = p # ps" "f p (pc_before p (se_journal s)) = (j, Inr x)" "se_journal s' = j"
    "se_next s' = ps" "se_log s' = (p, pc_before p (se_journal s)) # se_log s"
  using assms by (cases "se_next s") (auto simp: with_call_def split: prod.splits)

text \<open>The calls of a host only add to its log, and take the calls from the front.\<close>

definition logged_after :: "session \<Rightarrow> session \<Rightarrow> bool" where
  "logged_after s s' \<longleftrightarrow> (\<exists>calls. se_log s' = calls @ se_log s \<and> se_next s = rev (map fst calls) @ se_next s')"

lemma logged_after_refl: "logged_after s s"
  by (simp add: logged_after_def)

lemma logged_after_trans:
  assumes "logged_after s s1" and "logged_after s1 s2"
  shows "logged_after s s2"
proof -
  from assms obtain a b where "se_log s1 = a @ se_log s" "se_next s = rev (map fst a) @ se_next s1"
    "se_log s2 = b @ se_log s1" "se_next s1 = rev (map fst b) @ se_next s2" by (auto simp: logged_after_def)
  then show ?thesis unfolding logged_after_def by (intro exI [of _ "b @ a"]) simp
qed

lemma with_call_logged: "with_call f s = (s', r) \<Longrightarrow> logged_after s s'"
  by (cases "se_next s") (auto simp: with_call_def logged_after_def split: prod.splits)

lemma keeps_stored: "keeps env j j' \<Longrightarrow> stored_call env j k = Some i \<Longrightarrow> stored_call env j' k = Some i"
  by (auto simp: keeps_def calls_evolve_def extends_def stored_call_def dest: grows_lookup split: option.splits)

lemma keeps_evidence: "keeps env j j' \<Longrightarrow> map_of (jn_evidence j) k \<noteq> None \<Longrightarrow> map_of (jn_evidence j') k \<noteq> None"
  by (auto simp: keeps_def calls_evolve_def extends_def dest: grows_lookup)

lemma locked_evidence_stored:
  assumes "commit_evidence_locked env i False j = Inr (Some (j', r, d))" and "cr_status r \<in> {Committed, AlreadyCommitted}"
  shows "map_of (jn_evidence j') (key_of i) \<noteq> None"
proof (cases "cr_status r = Committed")
  case True
  with evidence_effect [OF assms(1)] show ?thesis by (auto simp: set_evidence_def)
next
  case False
  with assms(2) have a: "cr_status r = AlreadyCommitted" by simp
  have R: "conflict_body env j sq x w \<noteq> Inr (Some (j', r, d))" for sq x w
    using conflict_body_state [of env j sq x w j' r d] a by auto
  obtain payload where p: "payload_for_write env i = Inr payload"
    using assms(1) R by (cases "payload_for_write env i") (auto simp: commit_evidence_locked_def Let_def or_conflict_def split: if_splits)
  obtain c where "evidence_coordinate env j i payload (record_only_digest env payload) False = Inr (Some c)"
    using assms(1) R a p by (auto simp: commit_evidence_locked_def Let_def or_conflict_def res_bind_eq_Inr split: if_splits option.splits
        dest!: make_commit_result_status)
  moreover have "j' = j" using evidence_effect [OF assms(1)] a by auto
  ultimately show ?thesis using stored_result_status by (fastforce simp: evidence_coordinate_def)
qed

lemma evidence_success_stored:
  assumes "commit_model_evidence env ready tx i t j = (j', Inr r)" and "cr_status r \<in> {Committed, AlreadyCommitted}"
  shows "current_writer_locked (je_cfg env) (jn_authority j) t (tx_now tx) = Inr True \<and> map_of (jn_evidence j') (key_of i) \<noteq> None"
proof -
  from mutation_result [OF assms(1) [unfolded commit_model_evidence_def] assms(2)] obtain j1 r1 d where
    w: "current_writer_locked (je_cfg env) (jn_authority j) t (tx_now tx) = Inr True"
    and l: "commit_evidence_locked env i False (others tx j) = Inr (Some (j1, r1, d))"
    and cs: "j' = j1 \<and> r = r1 \<or> reconcile_evidence env i d j' = Inr (Some r)"
    by (auto simp: fenced_result_def dest: make_commit_result_status)
  have "map_of (jn_evidence j') (key_of i) \<noteq> None" if "reconcile_evidence env i d j' = Inr (Some r)"
    using that assms(2) by (auto simp: reconcile_evidence_def res_bind_eq_Inr evidence_coordinate_def split: if_splits option.splits
        dest!: make_commit_result_status dest: stored_result_status)
  then show ?thesis using w l cs locked_evidence_stored assms(2) by blast
qed

lemma loaded_head:
  assumes "sound env j" and "load_invocation env True j run call = Inr l" and "lr_ok l" and "lr_value l = Some r"
  shows "stored_call env j (key_of (ir_invocation r)) = Some (ir_invocation r)" 
    and "iv_revision (ir_invocation r) < n \<Longrightarrow> stored_call env j (run, call, n) = None"
proof -
  have c: "rows_sound env j" "heads_cover j" using assms(1) by (simp_all add: sound_def calls_ok_def)
  have "opaque_id run" "opaque_id call" using assms(2) by (auto simp: load_invocation_def res_bind_eq_Inr)
  from load_sound [OF assms(1) this] assms(2-4) obtain m i where h: "jn_invocation_head j (run, call) = Some m"
    and i: "stored_call env j (run, call, m) = Some i" "key_of i = (run, call, m)" "r = \<lparr>ir_revision = m, ir_invocation = i\<rparr>"
    by (auto simp: codec_missing_def codec_result_def lr_ok_def split: option.splits)
  show "stored_call env j (key_of (ir_invocation r)) = Some (ir_invocation r)" using i by simp
  show "stored_call env j (run, call, n) = None" if "iv_revision (ir_invocation r) < n"
    using that i h covered(1) [OF c(2), of run call n] stored_call_in(1) [OF c(1)] by (auto simp: key_of_def)
qed

lemma stored_is_submittable:
  assumes "sound env j" and "stored_call env j k = Some i"
  shows "submittable env i"
proof -
  from assms(2) obtain r where r: "map_of (jn_invocations j) k = Some r" "decoded_row env k r = Some i"
    by (auto simp: stored_call_def split: option.splits)
  have "wf_val (PDict (sr_payload r))" using assms(1) map_of_SomeD [OF r(1)] by (auto simp: sound_def calls_ok_def rows_sound_def good_val_def)
  moreover have "lr_value (decode_stored env (sr_payload r)) = Some i" using r(2) by (auto simp: decoded_row_def Let_def split: if_splits)
  ultimately show ?thesis unfolding submittable_def by blast
qed

lemma one_revision_per_id:
  assumes "sound env j" and "stored_call env j (run, call, n) = Some a" and "stored_call env j (run, call, m) = Some b"
    and "iv_dispatch_id a = iv_dispatch_id b" and "iv_dispatch_state a = iv_dispatch_state b"
  shows "n = m"
proof -
  have c: "calls_ok env j" using assms(1) by (simp add: sound_def)
  then have "iv_dispatch_attempt a = iv_dispatch_attempt b" using assms(2-4) unfolding calls_ok_def ids_fresh_def by blast
  with revision_rank [OF c assms(2)] revision_rank [OF c assms(3)] assms(5) show ?thesis by simp
qed

lemma session_before_sound:
  assumes "session_ok env s" and "se_next s = p # ps"
  shows "sound env (pc_before p (se_journal s))"
proof -
  have "env_ok env" "journal_run env (se_journal s) (pc_before p (se_journal s))" "sound env (se_journal s)"
    using assms by (simp_all add: session_ok_def pending_ok_def)
  then show ?thesis using run_keeps keeps_sound by blast
qed

interpretation pg: fenced_sink env "postgres_ops env" "session_ok env" "session_later env" "\<lambda>s. stored_call env (se_journal s)"
  "session_fence" "\<lambda>s k. map_of (jn_evidence (se_journal s)) k \<noteq> None" for env
proof unfold_locales
  fix s s' :: session and run call sha :: string and i :: invocation and blobs t stage
  show "session_ok env s \<Longrightarrow> env_ok env" by (simp add: session_ok_def)
  show "session_later env s s1 \<Longrightarrow> session_later env s1 s2 \<Longrightarrow> session_later env s s2" for s1 s2
    unfolding session_later_def by (rule keeps_trans)
  show "session_later env s s' \<Longrightarrow> stored_call env (se_journal s) k = Some x \<Longrightarrow> stored_call env (se_journal s') k = Some x" for k x
    unfolding session_later_def by (rule keeps_stored)
  show "session_later env s s' \<Longrightarrow> map_of (jn_evidence (se_journal s)) k \<noteq> None \<Longrightarrow> map_of (jn_evidence (se_journal s')) k \<noteq> None" for k
    unfolding session_later_def by (rule keeps_evidence)
  show "session_ok env s \<Longrightarrow> so_load (postgres_ops env) run call s = (s', r) \<Longrightarrow> session_ok env s' \<and> session_later env s s'" for r
    by (rule with_call_later) (auto simp: postgres_ops_def reading_def intro: jr.rel_refl)
  show "session_ok env s \<Longrightarrow> so_blob (postgres_ops env) run sha s = (s', r) \<Longrightarrow> session_ok env s' \<and> session_later env s s'" for r
    by (rule with_call_later) (auto simp: postgres_ops_def reading_def intro: jr.rel_refl)
  show "session_ok env s \<Longrightarrow> submittable env i \<Longrightarrow> so_commit (postgres_ops env) i blobs t stage s = (s', r) \<Longrightarrow>
      session_ok env s' \<and> session_later env s s'" for r
    using perform_keeps [of env "CommitInvocation i blobs stage"] pending_ok_tx
    by (intro with_call_later [where f = "\<lambda>p. commit_invocation env True (pc_attempt p) i blobs t stage" and r = r])
       (auto simp: postgres_ops_def submits_def session_ok_def)
  show "session_ok env s \<Longrightarrow> so_evidence (postgres_ops env) i t s = (s', r) \<Longrightarrow> session_ok env s' \<and> session_later env s s'" for r
    using perform_keeps [of env "CommitEvidence i"] pending_ok_tx
    by (intro with_call_later [where f = "\<lambda>p. commit_model_evidence env True (pc_attempt p) i t" and r = r])
       (auto simp: postgres_ops_def submits_def session_ok_def)
  note sound' = session_before_sound
  show "stored_call env (se_journal s') (key_of (ir_invocation r)) = Some (ir_invocation r) \<and>
      (\<forall>n. iv_revision (ir_invocation r) < n \<longrightarrow> stored_call env (se_journal s') (run, call, n) = None)"
    if ok: "session_ok env s" and l: "so_load (postgres_ops env) run call s = (s', Inr l)" "lr_ok l" "lr_value l = Some r" for l r
  proof -
    from l(1) obtain p ps where p: "se_next s = p # ps" and j: "se_journal s' = pc_before p (se_journal s)"
      and i: "load_invocation env True (se_journal s') run call = Inr l"
      by (auto simp: postgres_ops_def reading_def elim!: with_call_Inr split: option.splits)
    have "sound env (se_journal s')" using sound' [OF ok p] j by simp
    from loaded_head [OF this i l(2,3)] show ?thesis by blast
  qed
  show "session_ok env s \<Longrightarrow> stored_call env (se_journal s) k = Some x \<Longrightarrow> submittable env x" for k x
    unfolding session_ok_def by (blast intro: stored_is_submittable)
  show "session_fence s t \<and> (\<exists>i'. stored_call env (se_journal s') (key_of i) = Some i' \<and> same_facts i' i)"
    if ok: "session_ok env s" and sub: "submittable env i" and c: "so_commit (postgres_ops env) i blobs t stage s = (s', Inr r)"
      and st: "cr_status r \<in> {Committed, AlreadyCommitted}" for r
  proof -
    from c obtain p ps where p: "se_next s = p # ps"
      and i: "commit_invocation env True (pc_attempt p) i blobs t stage (pc_before p (se_journal s)) = (se_journal s', Inr r)"
      by (auto simp: postgres_ops_def elim!: with_call_Inr)
    have env: "env_ok env" "good_tx env (pc_attempt p)" using ok p pending_ok_tx by (auto simp: session_ok_def)
    have "keeps env (pc_before p (se_journal s)) (se_journal s')"
      using perform_keeps [OF env(1) _ env(2), of "CommitInvocation i blobs stage" "pc_before p (se_journal s)" True t] i sub by (simp add: submits_def)
    with sound' [OF ok p] have "sound env (se_journal s')" by (blast intro: keeps_sound)
    from commit_success_stored [OF env(1) sound' [OF ok p] this sub i st] show ?thesis
      by (auto simp: session_fence_def p intro: current_writer_holds_lease)
  qed
  show "session_fence s t \<and> map_of (jn_evidence (se_journal s')) (key_of i) \<noteq> None"
    if c: "so_evidence (postgres_ops env) i t s = (s', Inr r)" and st: "cr_status r \<in> {Committed, AlreadyCommitted}" for r
  proof -
    from c obtain p ps where p: "se_next s = p # ps"
      and i: "commit_model_evidence env True (pc_attempt p) i t (pc_before p (se_journal s)) = (se_journal s', Inr r)"
      by (auto simp: postgres_ops_def elim!: with_call_Inr)
    from evidence_success_stored [OF i st] show ?thesis
      by (auto simp: session_fence_def p intro: current_writer_holds_lease)
  qed
  show "session_ok env s \<Longrightarrow> stored_call env (se_journal s) (run, call, n) = Some a \<Longrightarrow> stored_call env (se_journal s) (run, call, m) = Some b \<Longrightarrow>
      iv_dispatch_id a = iv_dispatch_id b \<Longrightarrow> iv_dispatch_state a = iv_dispatch_state b \<Longrightarrow> n = m" for n m a b
    unfolding session_ok_def by (blast intro: one_revision_per_id)
qed

section \<open>The transactions of a call\<close>

lemma own_calls_logged: "own_calls (postgres_ops env) t s s' \<Longrightarrow> logged_after s s'"
proof (induction rule: own_calls.induct)
  case none
  show ?case by (rule logged_after_refl)
qed (auto simp: postgres_ops_def dest!: with_call_logged intro: logged_after_trans)

text \<open>The transaction of a successful commit, with the journal it met.\<close>

lemma commit_transaction:
  assumes "commits_at (postgres_ops env) i t s s'"
  obtains p blobs stage c where "se_next s = p # se_next s'" "se_log s' = (p, pc_before p (se_journal s)) # se_log s"
    "commit_invocation env True (pc_attempt p) i blobs t stage (pc_before p (se_journal s)) = (se_journal s', Inr c)"
    "cr_status c \<in> {Committed, AlreadyCommitted}"
  using assms by (auto simp: commits_at_def postgres_ops_def elim!: with_call_Inr)

lemma load_transaction:
  assumes "so_load (postgres_ops env) run call s = (s', Inr l)"
  obtains p where "se_next s = p # se_next s'" "se_journal s' = pc_before p (se_journal s)"
  using assms by (auto simp: postgres_ops_def reading_def elim!: with_call_Inr)

section \<open>Progress\<close>

lemma submitted_json:
  assumes "env_ok env" and "submittable env i"
  obtains q where "invocation_to_json (je_va env) (je_cfg env) i = Inr q" "dget q ''logical_call_id'' = PStr (iv_logical_call_id i)"
    "dget q ''idempotency_key'' = PStr (iv_idempotency_key i)" "dget q ''request_digest'' = PStr (iv_request_digest i)"
    "dget q ''digest_generation'' = PStr MODEL_REQUEST_DIGEST_GENERATION"
    "dget q ''evidence_policy'' = PStr (evidence_policy_str (iv_evidence_policy i))"
proof -
  have "opt_receipt (je_va env) (je_cfg env) (allows_facts i) (iv_receipt i) = Inr (iv_receipt i)"
    using submittable_made [OF assms] by (simp add: make_invocation_fixed)
  then have q: "invocation_to_json (je_va env) (je_cfg env) i = Inr (wire_object i)"
    by (simp add: invocation_to_json_def wire_object_def written_schema_def)
  show ?thesis by (rule that [OF q]) (simp_all add: dget_def wire_object_get)
qed

text \<open>The next revision of an open call is an admitted step from its head.\<close>

lemma next_revision_admitted:
  assumes snd: "sound env j" and env: "env_ok env" and head: "jn_invocation_head j (run, call) = Some n"
    and p: "stored_call env j (run, call, n) = Some p" and st: "st \<in> set (allowed_next (iv_dispatch_state p))"
    and i: "next_revision env p st receipt ref code = Inr i" and wf: "wf_val (opt_dict receipt)"
    and bound: "n < POSTGRES_BIGINT_MAX" "iv_dispatch_attempt p \<le> POSTGRES_BIGINT_MAX"
    and flag: "stage_flag_ok i stage" and blobs: "\<forall>(k, v) \<in> set blobs. recorded_digest k \<and> int (length v) \<le> je_max_blob env \<and> je_bsha env v = k"
    and backing: "submitted_blobs_preserve_backing j blobs" and refs: "references_resolve env j run (result_references i) blobs"
  shows "\<exists>payload. revision_admitted env i blobs stage j payload"
proof -
  have c: "rows_sound env j" "heads_cover j" "calls_ok env j" using snd by (simp_all add: sound_def calls_ok_def)
  have k: "key_of p = (run, call, n)" by (rule stored_call_in(2) [OF c(1) p])
  note F = next_revision_facts [OF env i wf]
  have ki: "key_of i = (run, call, n + 1)" using F(2) k by (simp add: key_of_def)
  have sp: "submittable env p" by (rule stored_is_submittable [OF snd p])
  obtain payload where pay: "payload_for_write env i = Inr payload" by (rule submitted_payload [OF env F(1)])
  obtain q where q: "invocation_to_json (je_va env) (je_cfg env) i = Inr q" "dget q ''logical_call_id'' = PStr (iv_logical_call_id i)"
    "dget q ''idempotency_key'' = PStr (iv_idempotency_key i)" "dget q ''request_digest'' = PStr (iv_request_digest i)"
    "dget q ''digest_generation'' = PStr MODEL_REQUEST_DIGEST_GENERATION"
    "dget q ''evidence_policy'' = PStr (evidence_policy_str (iv_evidence_policy i))" by (rule submitted_json [OF env F(1)])
  obtain q' where q': "invocation_to_json (je_va env) (je_cfg env) p = Inr q'" "dget q' ''logical_call_id'' = PStr (iv_logical_call_id p)"
    "dget q' ''idempotency_key'' = PStr (iv_idempotency_key p)" "dget q' ''request_digest'' = PStr (iv_request_digest p)"
    "dget q' ''digest_generation'' = PStr MODEL_REQUEST_DIGEST_GENERATION"
    "dget q' ''evidence_policy'' = PStr (evidence_policy_str (iv_evidence_policy p))" by (rule submitted_json [OF env sp])
  have key: "iv_idempotency_key i = iv_idempotency_key p" "iv_run_id i = run" "iv_logical_call_id i = call" "iv_revision i = n + 1"
      "iv_logical_call_id p = call" "iv_revision p = n"
    using F(10) ki k by (simp_all add: key_of_def)
  have "stable_fields_equal q q'"
    using q(2-6) q'(2-6) key F(8,9) by (simp add: stable_fields_equal_def STABLE_INVOCATION_FIELDS_def)
  moreover have "state_step_allowed env j p i"
    using st F(3-5) by (cases "iv_dispatch_state p") (auto simp: state_step_allowed_def)
  moreover obtain r where r: "map_of (jn_invocations j) (run, call, n) = Some r" "decoded_row env (run, call, n) r = Some p"
    using p by (auto simp: stored_call_def split: option.splits)
  ultimately have "invocation_transition_winner env j i = Inr None"
    using head q(1) q'(1) k key by (simp add: invocation_transition_winner_def invocation_head_def)
  moreover have "map_of (jn_invocations j) (key_of i) = None" using covered(1) [OF c(2), of run call "n + 1"] head ki by auto
  moreover have "1 \<le> n" "1 \<le> iv_dispatch_attempt p"
    using revision_rank [OF c(3) p] submittable_made [OF env sp] by (simp_all add: make_invocation_fixed members_ok_def)
  ultimately have "revision_admitted env i blobs stage j payload"
    unfolding revision_admitted_def using pay flag blobs backing refs bound F(5) key by auto
  then show ?thesis ..
qed

end
