(* ===== verification/Call_Safety.thy ===== *)
theory Call_Safety
  imports Postgres_Calls
begin

text \<open>
  The properties of paid model calls on the PostgreSQL journal, from the laws of the journal sink that
  \<open>Postgres_Calls\<close> establishes: a dispatch starts at most once, a recovered outcome is the stored one and
  passed the fence, an exact retry changes nothing, and the current writer makes progress. The histories
  range over hosts, writers, faults and lost responses.
\<close>

section \<open>Progress of the current writer\<close>

text \<open>Calls that meet no fault and no other transaction.\<close>

definition quiet :: "pending_call \<Rightarrow> bool" where
  "quiet p \<longleftrightarrow> pc_before p = (\<lambda>j. j) \<and> pc_read_error p = None \<and> \<not> pc_revoked p \<and>
     tx_fault (pc_attempt p) = NoFault \<and> tx_concurrent (pc_attempt p) = (\<lambda>b. b)"

lemma quiet_load:
  assumes "session_ok env (ch_store h)" and "se_next (ch_store h) = p # ps" and "quiet p"
    and "\<not> wa_revoke_requested (ch_authority h)"
    and "jn_invocation_head (se_journal (ch_store h)) (wt_run_id (ch_token h), call) = Some n"
    and "stored_call env (se_journal (ch_store h)) (wt_run_id (ch_token h), call, n) = Some i"
  shows "load_call (postgres_ops env) call h =
    (h\<lparr>ch_store := \<lparr>se_journal = se_journal (ch_store h), se_next = ps, se_revoked = False, se_log = (p, se_journal (ch_store h)) # se_log (ch_store h)\<rparr>, ch_last := Some i\<rparr>,
     Inr (Some \<lparr>ir_revision = n, ir_invocation = i\<rparr>))"
proof -
  let ?j = "se_journal (ch_store h)"
  have ok: "env_ok env" "sound env ?j" using assms(1) by (simp_all add: session_ok_def)
  have k: "key_of i = (wt_run_id (ch_token h), call, n)"
    using ok(2) stored_call_in(2) assms(6) by (auto simp: sound_def calls_ok_def)
  have "members_ok (je_cfg env) i"
    using submittable_made [OF ok(1) stored_is_submittable [OF ok(2) assms(6)]] by (simp add: make_invocation_fixed)
  then have "opaque_id (wt_run_id (ch_token h))" "opaque_id call" using k by (auto simp: members_ok_def key_of_def)
  from load_sound [OF ok(2) this] assms(5,6) obtain l where l: "load_invocation env True ?j (wt_run_id (ch_token h)) call = Inr l"
    "lr_ok l" "lr_value l = Some \<lparr>ir_revision = n, ir_invocation = i\<rparr>" by auto
  have "so_load (postgres_ops env) (wt_run_id (ch_token h)) call (ch_store h) =
      (\<lparr>se_journal = ?j, se_next = ps, se_revoked = False, se_log = (p, se_journal (ch_store h)) # se_log (ch_store h)\<rparr>, Inr l)"
    using assms(2,3) l(1) by (simp add: postgres_ops_def with_call_def reading_def quiet_def)
  moreover have "so_revoked (postgres_ops env) = se_revoked" by (simp add: postgres_ops_def)
  ultimately show ?thesis using assms(4) l(2,3) k
    by (auto simp: load_call_def op_bind_def guarded_sink_call_def op_catch_def guard_external_call_def assert_active_def
        sink_call_def guard_def lr_ok_def key_of_def)
qed

lemma quiet_commit:
  assumes "session_ok env (ch_store h)" and "se_next (ch_store h) = p # ps" and "quiet p"
    and "\<not> wa_revoke_requested (ch_authority h)"
    and "commit_invocation env True (pc_attempt p) i blobs (ch_token h) stage (se_journal (ch_store h)) = (j, Inr c)"
    and "cr_status c \<in> {Committed, AlreadyCommitted}"
  shows "commit_call (postgres_ops env) i blobs stage h =
    (h\<lparr>ch_store := \<lparr>se_journal = j, se_next = ps, se_revoked = False, se_log = (p, se_journal (ch_store h)) # se_log (ch_store h)\<rparr>, ch_last := Some i\<rparr>, Inr ())"
proof -
  have "so_commit (postgres_ops env) i blobs (ch_token h) stage (ch_store h) =
      (\<lparr>se_journal = j, se_next = ps, se_revoked = False, se_log = (p, se_journal (ch_store h)) # se_log (ch_store h)\<rparr>, Inr c)"
    using assms(2,3,5) by (simp add: postgres_ops_def with_call_def quiet_def)
  moreover have "so_revoked (postgres_ops env) = se_revoked" by (simp add: postgres_ops_def)
  ultimately show ?thesis unfolding commit_call_Inr using assms(4,6) by simp
qed

lemma start_of_reservation:
  assumes env: "env_ok env" and sub: "submittable env i" and st: "iv_dispatch_state i = Reserved" and rev: "iv_revision i < POSTGRES_BIGINT_MAX"
  obtains u where "next_revision env i DispatchStarted (iv_receipt i) (iv_result_ref i) (iv_failure_code i) = Inr u"
proof -
  have m: "members_ok (je_cfg env) i" "receipt_fits i (iv_receipt i)" and r: "iv_receipt i = None"
    using submittable_made [OF env sub] open_call_bare [OF env sub] st by (simp_all add: make_invocation_fixed)
  have s: "iv_result_ref i = []" "iv_failure_code i = []" using m(2) st r by (auto simp: receipt_fits_def state_shape_def)
  have "is_portable_json_integer (je_cfg env) (IInt (iv_revision i + 1))"
    using bigint_portable [of "je_cfg env" "iv_revision i + 1"] env m(1) rev by (auto simp: env_ok_def members_ok_def)
  then have "next_revision env i DispatchStarted (iv_receipt i) (iv_result_ref i) (iv_failure_code i) =
      Inr (i\<lparr>iv_schema_version := MODEL_INVOCATION_V2_SCHEMA_VERSION, iv_revision := iv_revision i + 1, iv_dispatch_state := DispatchStarted,
        iv_receipt := None, iv_result_ref := [], iv_failure_code := [], iv_source_envelope := None\<rparr>)"
    using m(1) written_schema_accepted
    by (auto simp: next_revision_def make_invocation_iff r s receipt_fits_def state_shape_def opt_receipt_def members_ok_def
        ACCEPTED_MODEL_INVOCATION_SCHEMA_VERSIONS_def)
  then show ?thesis by (rule that)
qed

lemma quiet_start:
  assumes ok: "session_ok env (ch_store h)" and nx: "se_next (ch_store h) = p # p' # ps" and q: "quiet p" "quiet p'"
    and act: "\<not> wa_revoke_requested (ch_authority h)"
    and head: "jn_invocation_head (se_journal (ch_store h)) (wt_run_id (ch_token h), dr_logical_call_id r) = Some n"
    and i: "stored_call env (se_journal (ch_store h)) (wt_run_id (ch_token h), dr_logical_call_id r, n) = Some i"
    and st: "iv_dispatch_state i = Reserved" "same_dispatch i r"
    and bound: "n < POSTGRES_BIGINT_MAX" "dr_dispatch_attempt r \<le> POSTGRES_BIGINT_MAX"
    and cur: "current_writer_locked (je_cfg env) (jn_authority (se_journal (ch_store h))) (ch_token h) (tx_now (pc_attempt p')) = Inr True"
  shows "\<exists>h'. dispatch_started env (postgres_ops env) r h = (h', Inr ())"
proof -
  let ?j = "se_journal (ch_store h)" and ?run = "wt_run_id (ch_token h)" and ?call = "dr_logical_call_id r"
  have env: "env_ok env" "sound env ?j" using ok by (simp_all add: session_ok_def)
  have sub: "submittable env i" by (rule stored_is_submittable [OF env(2) i])
  have k: "key_of i = (?run, ?call, n)" using env(2) stored_call_in(2) i by (auto simp: sound_def calls_ok_def)
  define h1 where "h1 = h\<lparr>ch_store := \<lparr>se_journal = ?j, se_next = p' # ps, se_revoked = False, se_log = (p, ?j) # se_log (ch_store h)\<rparr>, ch_last := Some i\<rparr>"
  have l: "load_call (postgres_ops env) ?call h = (h1, Inr (Some \<lparr>ir_revision = n, ir_invocation = i\<rparr>))"
    using quiet_load [OF ok nx q(1) act head i] by (simp add: h1_def)
  have ok1: "session_ok env (ch_store h1)" using ok nx by (simp add: session_ok_def h1_def)
  obtain u where u: "next_revision env i DispatchStarted (iv_receipt i) (iv_result_ref i) (iv_failure_code i) = Inr u"
    by (rule start_of_reservation [OF env(1) sub st(1)]) (use k bound in \<open>auto simp: key_of_def\<close>)
  have bare: "iv_receipt i = None" using open_call_bare [OF env(1) sub] st(1) by simp
  note F = next_revision_facts [OF env(1) u]
  have wf: "wf_val (opt_dict (iv_receipt i))" by (simp add: bare opt_dict_def)
  have ref: "iv_result_ref u = []" using F(6) [OF wf] submittable_made [OF env(1) sub] st(1) bare
    by (auto simp: make_invocation_fixed receipt_fits_def state_shape_def)
  have ru: "iv_run_id u = ?run" using F(2) [OF wf] k by (simp add: key_of_def)
  have "\<exists>payload. revision_admitted env u [] False ?j payload"
    by (rule next_revision_admitted [OF env(2,1) head i _ u wf bound(1)])
       (use st bound F(3) [OF wf] ref in \<open>auto simp: stage_flag_ok_def submitted_blobs_preserve_backing_def
          references_resolve_def result_references_def same_dispatch_def\<close>)
  then obtain payload where adm: "revision_admitted env u [] False ?j payload" ..
  obtain j' c i' where c: "commit_invocation env True (pc_attempt p') u [] (ch_token h) False ?j = (j', Inr c)" "cr_status c = Committed"
    by (rule revision_commits [OF env(2,1) F(1) [OF wf] _ adm ru cur]) (use q in \<open>auto simp: quiet_def\<close>)
  have "commit_call (postgres_ops env) u [] False h1 =
      (h1\<lparr>ch_store := \<lparr>se_journal = j', se_next = ps, se_revoked = False, se_log = (p', ?j) # (p, ?j) # se_log (ch_store h)\<rparr>, ch_last := Some u\<rparr>, Inr ())"
    using quiet_commit [OF ok1 _ q(2), of ps u "[]" False j' c] c act by (simp add: h1_def)
  then show ?thesis
    by (auto simp: dispatch_started_def load_dispatch_def op_bind_def l st op_return_def op_lift_def u)
qed

text \<open>C37. The current writer gets its dispatch started. When a call is reserved at the head of its journal
  for exactly this dispatch, the writer is current and neither of the two database calls meets a
  fault or another transaction, then \<open>dispatch_started\<close> returns, and the journal holds the started
  revision of this dispatch right behind the reservation.\<close>

theorem reserved_dispatch_starts:
  assumes "session_ok env (ch_store h)" and "se_next (ch_store h) = p # p' # ps" and "quiet p" and "quiet p'"
    and "\<not> wa_revoke_requested (ch_authority h)"
    and "jn_invocation_head (se_journal (ch_store h)) (wt_run_id (ch_token h), dr_logical_call_id r) = Some n"
    and "stored_call env (se_journal (ch_store h)) (wt_run_id (ch_token h), dr_logical_call_id r, n) = Some i"
    and "iv_dispatch_state i = Reserved" and "same_dispatch i r"
    and "n < POSTGRES_BIGINT_MAX" and "dr_dispatch_attempt r \<le> POSTGRES_BIGINT_MAX"
    and "current_writer_locked (je_cfg env) (jn_authority (se_journal (ch_store h))) (ch_token h) (tx_now (pc_attempt p')) = Inr True"
  shows "\<exists>h' b m. dispatch_started env (postgres_ops env) r h = (h', Inr ()) \<and>
    stored_call env (se_journal (ch_store h')) (wt_run_id (ch_token h), dr_logical_call_id r, m + 1) = Some b \<and>
    iv_dispatch_state b = DispatchStarted \<and> iv_dispatch_id b = dr_dispatch_id r"
proof -
  from quiet_start [OF assms] obtain h' where s: "dispatch_started env (postgres_ops env) r h = (h', Inr ())" ..
  from pg.started [OF assms(1) s] obtain m b where
    "stored_call env (se_journal (ch_store h')) (wt_run_id (ch_token h), dr_logical_call_id r, m + 1) = Some b"
    "iv_dispatch_state b = DispatchStarted" "iv_dispatch_id b = dr_dispatch_id r" by metis
  with s show ?thesis by blast
qed

definition demo_step :: pending_call where
  "demo_step = \<lparr>pc_before = (\<lambda>j. j), pc_attempt = demo_tx, pc_read_error = None, pc_revoked = False\<rparr>"

definition demo_host :: "journal \<Rightarrow> pending_call list \<Rightarrow> (session, nat) call_host" where
  "demo_host j ps = \<lparr>ch_store = \<lparr>se_journal = j, se_next = ps, se_revoked = False, se_log = []\<rparr>, ch_token = demo_token, ch_policy = Passive,
     ch_authority = new_authority, ch_last = None\<rparr>"

definition demo_reservation :: reservation where
  "demo_reservation = \<lparr>dr_logical_call_id = ''mcall'', dr_dispatch_attempt = 1, dr_dispatch_id = ''d1'',
     dr_request_digest = replicate 64 (CHR ''a''), dr_digest_generation = MODEL_REQUEST_DIGEST_GENERATION, dr_idempotency_key = ''k1''\<rparr>"

lemma demo_step_ok: "pending_ok demo_journal_env demo_step" "quiet demo_step"
  by (simp_all add: pending_ok_def demo_step_def demo_tx_def concurrent_ok_def quiet_def journal_run.start)

lemma stored_generation:
  assumes "sound env j" and "stored_call env j k = Some i"
  shows "iv_digest_generation i = MODEL_REQUEST_DIGEST_GENERATION"
proof -
  from assms(2) obtain r where r: "map_of (jn_invocations j) k = Some r" "decoded_row env k r = Some i"
    by (auto simp: stored_call_def split: option.splits)
  have wf: "wf_val (PDict (sr_payload r))" using assms(1) map_of_SomeD [OF r(1)] by (auto simp: sound_def calls_ok_def rows_sound_def good_val_def)
  have "lr_value (decode_stored env (sr_payload r)) = Some i" using r(2) by (auto simp: decoded_row_def Let_def split: if_splits)
  then obtain src where "model_invocation_from_payload (je_va env) (je_cfg env) (je_sha env) src = Inr i"
    using decode_value [OF wf] unfolding decode_stored_def by blast
  then show ?thesis unfolding model_invocation_from_payload_def Let_def res_bind_eq_Inr by (elim exE conjE) auto
qed

text \<open>A journal whose only record is the reservation of the call.\<close>

lemma demo_reserved:
  obtains j i where "journal_run demo_journal_env (empty_journal demo_authority) j" "sound demo_journal_env j" "jn_authority j = demo_authority"
    "jn_invocation_head j (''r1'', ''mcall'') = Some 1" "stored_call demo_journal_env j (''r1'', ''mcall'', 1) = Some i"
    "iv_dispatch_state i = Reserved" "same_dispatch i demo_reservation" "iv_evidence_policy i = Passive"
proof -
  let ?m = "CommitInvocation demo_first [] False"
  have k: "key_of demo_first = (''r1'', ''mcall'', 1)" by (simp add: key_of_def demo_first_def demo_invocation_def)
  obtain payload where p: "revision_admitted demo_journal_env demo_first [] False (empty_journal demo_authority) payload"
    using demo_first_admitted ..
  have t: "iv_run_id demo_first = wt_run_id demo_token" "tx_fault demo_tx = NoFault" "tx_concurrent demo_tx = (\<lambda>b. b)"
    "current_writer_locked (je_cfg demo_journal_env) (jn_authority (empty_journal demo_authority)) demo_token (tx_now demo_tx) = Inr True"
    by (simp_all add: demo_first_def demo_invocation_def demo_tx_def empty_journal_def demo_writer_current) (simp add: demo_token_def)
  obtain j r i where c: "commit_invocation demo_journal_env True demo_tx demo_first [] demo_token False (empty_journal demo_authority) = (j, Inr r)"
    and s: "sound demo_journal_env j" "jn_authority j = jn_authority (empty_journal demo_authority)"
    and a: "appended demo_journal_env demo_first i (empty_journal demo_authority) j"
    by (rule revision_commits [OF empty_sound(1) demo_journal_env_ok demo_first_submittable _ p t(1,4,2,3)]) auto
  have run: "journal_run demo_journal_env (empty_journal demo_authority) j"
    using demo_run [of ?m "empty_journal demo_authority" demo_token] c demo_first_submittable by (simp add: submits_def)
  have sc: "same_call i demo_first" and st: "stored_call demo_journal_env j (key_of demo_first) = Some i"
    and h: "jn_invocation_head j = (jn_invocation_head (empty_journal demo_authority))((iv_run_id demo_first, iv_logical_call_id demo_first) \<mapsto> iv_revision demo_first)"
    using a unfolding appended_def by presburger+
  have "iv_digest_generation i = MODEL_REQUEST_DIGEST_GENERATION" by (rule stored_generation [OF s(1) st])
  then show ?thesis
    using that [of j i] run s st [unfolded k] h same_call_fields [OF sc]
    by (simp add: same_dispatch_def demo_reservation_def demo_first_def demo_invocation_def empty_journal_def)
qed

lemma demo_host_ok:
  assumes "sound demo_journal_env j" and "set ps \<subseteq> {demo_step}"
  shows "session_ok demo_journal_env (ch_store (demo_host j ps))"
  using assms demo_step_ok(1) demo_journal_env_ok by (auto simp: session_ok_def demo_host_def list_all_iff)

lemma demo_start:
  obtains j h' where "journal_run demo_journal_env (empty_journal demo_authority) j" "sound demo_journal_env j"
    "dispatch_started demo_journal_env (postgres_ops demo_journal_env) demo_reservation (demo_host j [demo_step, demo_step]) = (h', Inr ())"
proof -
  obtain j i where r: "journal_run demo_journal_env (empty_journal demo_authority) j" and s: "sound demo_journal_env j" "jn_authority j = demo_authority"
    "jn_invocation_head j (''r1'', ''mcall'') = Some 1" "stored_call demo_journal_env j (''r1'', ''mcall'', 1) = Some i"
    "iv_dispatch_state i = Reserved" "same_dispatch i demo_reservation" by (rule demo_reserved)
  let ?h = "demo_host j [demo_step, demo_step]"
  have w: "current_writer_locked (je_cfg demo_journal_env) (jn_authority j) demo_token (tx_now demo_tx) = Inr True"
    by (simp add: s(2) demo_writer_current demo_tx_def)
  have "\<exists>h'. dispatch_started demo_journal_env (postgres_ops demo_journal_env) demo_reservation ?h = (h', Inr ())"
    by (rule quiet_start [OF demo_host_ok [OF s(1)] _ demo_step_ok(2) demo_step_ok(2), where n = 1 and i = i])
       (use s w in \<open>simp_all add: demo_host_def new_authority_def demo_token_def demo_reservation_def demo_step_def POSTGRES_BIGINT_MAX_def\<close>)
  then show ?thesis using that r s(1) by blast
qed

theorem reserved_dispatch_starts_witness:
  "\<exists>j h' b m. dispatch_started demo_journal_env (postgres_ops demo_journal_env) demo_reservation (demo_host j [demo_step, demo_step]) = (h', Inr ()) \<and>
     stored_call demo_journal_env (se_journal (ch_store h')) (''r1'', ''mcall'', m + 1) = Some b \<and> iv_dispatch_state b = DispatchStarted"
proof -
  obtain j i where s: "sound demo_journal_env j" "jn_authority j = demo_authority"
    "jn_invocation_head j (''r1'', ''mcall'') = Some 1" "stored_call demo_journal_env j (''r1'', ''mcall'', 1) = Some i"
    "iv_dispatch_state i = Reserved" "same_dispatch i demo_reservation" by (rule demo_reserved)
  have w: "current_writer_locked (je_cfg demo_journal_env) (jn_authority j) demo_token (tx_now demo_tx) = Inr True"
    by (simp add: s(2) demo_writer_current demo_tx_def)
  have n: "ch_token (demo_host j ps) = demo_token" "se_journal (ch_store (demo_host j ps)) = j" "se_next (ch_store (demo_host j ps)) = ps"
      "wt_run_id demo_token = ''r1''" "dr_logical_call_id demo_reservation = ''mcall''" "pc_attempt demo_step = demo_tx"
      "\<not> wa_revoke_requested (ch_authority (demo_host j ps))" "dr_dispatch_attempt demo_reservation = 1" for ps
    by (simp_all add: demo_host_def demo_token_def demo_reservation_def demo_step_def new_authority_def)
  from reserved_dispatch_starts [OF demo_host_ok [OF s(1)] _ demo_step_ok(2) demo_step_ok(2), of "[demo_step, demo_step]" "[]" demo_reservation 1 i]
  show ?thesis unfolding n using s(3-6) w n(7) [of "[demo_step, demo_step]"] by (auto simp: POSTGRES_BIGINT_MAX_def)
qed

section \<open>Safety of paid dispatches\<close>

text \<open>C4. The provider is entered at most once for a dispatch. A returning \<open>dispatch_started\<close> makes exactly
  two calls of the database: a read that finds the reservation of this dispatch at the head of the
  call, and the commit of the started revision, whose transaction meets a journal in which the lease row of
  the run names this owner and generation, unrevoked and unexpired at the clock of that
  transaction; the journal it leaves holds the start right behind the reservation. And once it has returned for a
  reservation, no call of \<open>dispatch_started\<close> that begins later returns for the same dispatch,
  neither to the same host nor to any other host of the run, whatever transactions, takeovers, lost responses and failing
  calls lie between. (Two overlapping calls of one writer are outside this statement: a writer has one loop.)\<close>

theorem dispatch_starts_once:
  assumes "env_ok env" and "journal_run env (empty_journal a) (se_journal (ch_store h))" and "list_all (pending_ok env) (se_next (ch_store h))"
    and "dispatch_started env (postgres_ops env) r h = (h', Inr ())"
  shows "(\<exists>p p' j j' v blobs stage c w n i b. se_next (ch_store h) = p # p' # se_next (ch_store h') \<and>
      j = pc_before p (se_journal (ch_store h)) \<and> j' = pc_before p' j \<and>
      stored_call env j (wt_run_id (ch_token h), dr_logical_call_id r, n) = Some i \<and> iv_dispatch_state i = Reserved \<and>
      iv_dispatch_id i = dr_dispatch_id r \<and>
      (\<forall>m > n. stored_call env j (wt_run_id (ch_token h), dr_logical_call_id r, m) = None) \<and>
      commit_invocation env True (pc_attempt p') v blobs (ch_token h) stage j' = (se_journal (ch_store h'), Inr c) \<and>
      jn_authority j' (wt_run_id (ch_token h)) = Some w \<and> ar_owner_id w = wt_owner_id (ch_token h) \<and>
      ar_generation w = wt_generation (ch_token h) \<and> \<not> ar_revoked w \<and> tx_now (pc_attempt p') < ar_leased_until w \<and>
      stored_call env (se_journal (ch_store h')) (wt_run_id (ch_token h), dr_logical_call_id r, n + 1) = Some b \<and>
      iv_dispatch_state b = DispatchStarted \<and> iv_dispatch_id b = dr_dispatch_id r) \<and>
    (\<forall>(k :: (session, 'cb) call_host) k' q. journal_run env (se_journal (ch_store h')) (se_journal (ch_store k)) \<longrightarrow> list_all (pending_ok env) (se_next (ch_store k)) \<longrightarrow>
      wt_run_id (ch_token k) = wt_run_id (ch_token h) \<longrightarrow> dr_logical_call_id q = dr_logical_call_id r \<longrightarrow>
      dr_dispatch_id q = dr_dispatch_id r \<longrightarrow> dispatch_started env (postgres_ops env) q k \<noteq> (k', Inr ()))"
proof -
  have ok: "session_ok env (ch_store h)" using assms(1-3) reached_sound(1) by (auto simp: session_ok_def)
  from pg.started [OF ok assms(4)] obtain s n i b where g: "session_ok env (ch_store h')" and f: "session_fence s (ch_token h)"
    and l: "\<exists>l. so_load (postgres_ops env) (wt_run_id (ch_token h)) (dr_logical_call_id r) (ch_store h) = (s, Inr l)"
    and v: "\<exists>v. commits_at (postgres_ops env) v (ch_token h) s (ch_store h')"
    and A: "stored_call env (se_journal s) (wt_run_id (ch_token h), dr_logical_call_id r, n) = Some i" "iv_dispatch_state i = Reserved"
      "iv_dispatch_id i = dr_dispatch_id r"
      "\<forall>m > n. stored_call env (se_journal s) (wt_run_id (ch_token h), dr_logical_call_id r, m) = None"
      "stored_call env (se_journal (ch_store h')) (wt_run_id (ch_token h), dr_logical_call_id r, n + 1) = Some b"
      "iv_dispatch_state b = DispatchStarted" "iv_dispatch_id b = dr_dispatch_id r" by metis
  from l obtain p where p: "se_next (ch_store h) = p # se_next s" "se_journal s = pc_before p (se_journal (ch_store h))"
    by (blast elim: load_transaction)
  from v obtain v where "commits_at (postgres_ops env) v (ch_token h) s (ch_store h')" ..
  then obtain p' blobs stage c where p': "se_next s = p' # se_next (ch_store h')"
    "commit_invocation env True (pc_attempt p') v blobs (ch_token h) stage (pc_before p' (se_journal s)) = (se_journal (ch_store h'), Inr c)"
    by (rule commit_transaction)
  from f obtain w where w: "jn_authority (pc_before p' (se_journal s)) (wt_run_id (ch_token h)) = Some w" "ar_owner_id w = wt_owner_id (ch_token h)"
    "ar_generation w = wt_generation (ch_token h)" "\<not> ar_revoked w" "tx_now (pc_attempt p') < ar_leased_until w"
    by (auto simp: session_fence_def p'(1) holds_lease_def)
  note A = A [unfolded p(2)] and w = w [unfolded p(2)] and p' = p' [unfolded p(2)] and p = p [unfolded p']
  have ok': "sound env (se_journal (ch_store h'))" using g by (auto simp: session_ok_def)
  have B: "dispatch_started env (postgres_ops env) q k \<noteq> (k', Inr ())"
    if k: "journal_run env (se_journal (ch_store h')) (se_journal (ch_store k))" "list_all (pending_ok env) (se_next (ch_store k))"
      and same: "wt_run_id (ch_token k) = wt_run_id (ch_token h)" "dr_logical_call_id q = dr_logical_call_id r"
        "dr_dispatch_id q = dr_dispatch_id r" for k k' :: "(session, 'cb) call_host" and q
  proof
    assume d: "dispatch_started env (postgres_ops env) q k = (k', Inr ())"
    have kp: "keeps env (se_journal (ch_store h')) (se_journal (ch_store k))" by (rule run_keeps [OF assms(1) k(1)])
    then have "session_later env (ch_store h') (ch_store k)" by (simp add: session_later_def)
    moreover have "session_ok env (ch_store k)" using keeps_sound [OF kp ok'] k(2) assms(1) by (simp add: session_ok_def)
    ultimately show False using pg.started_once [OF ok assms(4) _ d] same by blast
  qed
  show ?thesis
  proof (rule conjI)
    show "\<exists>p p' j j' v blobs stage c w n i b. se_next (ch_store h) = p # p' # se_next (ch_store h') \<and>
      j = pc_before p (se_journal (ch_store h)) \<and> j' = pc_before p' j \<and>
      stored_call env j (wt_run_id (ch_token h), dr_logical_call_id r, n) = Some i \<and> iv_dispatch_state i = Reserved \<and>
      iv_dispatch_id i = dr_dispatch_id r \<and>
      (\<forall>m > n. stored_call env j (wt_run_id (ch_token h), dr_logical_call_id r, m) = None) \<and>
      commit_invocation env True (pc_attempt p') v blobs (ch_token h) stage j' = (se_journal (ch_store h'), Inr c) \<and>
      jn_authority j' (wt_run_id (ch_token h)) = Some w \<and> ar_owner_id w = wt_owner_id (ch_token h) \<and>
      ar_generation w = wt_generation (ch_token h) \<and> \<not> ar_revoked w \<and> tx_now (pc_attempt p') < ar_leased_until w \<and>
      stored_call env (se_journal (ch_store h')) (wt_run_id (ch_token h), dr_logical_call_id r, n + 1) = Some b \<and>
      iv_dispatch_state b = DispatchStarted \<and> iv_dispatch_id b = dr_dispatch_id r"
      by (intro exI conjI, rule p(1), rule refl, rule refl, rule A, rule A, rule A, rule A, rule p') (rule w A)+
  qed (use B in blast)
qed

theorem dispatch_starts_once_witness:
  "\<exists>j h'. dispatch_started demo_journal_env (postgres_ops demo_journal_env) demo_reservation (demo_host j [demo_step, demo_step]) = (h', Inr ()) \<and>
     (\<forall>k'. dispatch_started demo_journal_env (postgres_ops demo_journal_env) demo_reservation
        (demo_host (se_journal (ch_store h')) [demo_step, demo_step]) \<noteq> (k', Inr ()))"
proof -
  obtain j h' where r: "journal_run demo_journal_env (empty_journal demo_authority) j"
    and d: "dispatch_started demo_journal_env (postgres_ops demo_journal_env) demo_reservation (demo_host j [demo_step, demo_step]) = (h', Inr ())"
    by (rule demo_start)
  have n: "se_journal (ch_store (demo_host x [demo_step, demo_step])) = x" "ch_token (demo_host x [demo_step, demo_step]) = demo_token"
    "se_next (ch_store (demo_host x [demo_step, demo_step])) = [demo_step, demo_step]" for x by (simp_all add: demo_host_def)
  have c: "list_all (pending_ok demo_journal_env) [demo_step, demo_step]" by (simp add: demo_step_ok(1))
  let ?k = "demo_host (se_journal (ch_store h')) [demo_step, demo_step]"
  have "dispatch_started demo_journal_env (postgres_ops demo_journal_env) demo_reservation ?k \<noteq> (k', Inr ())" for k'
    by (rule conjunct2 [OF dispatch_starts_once [OF demo_journal_env_ok _ _ d, of demo_authority], rule_format])
       (use r c in \<open>simp_all add: n journal_run.start\<close>)
  with d show ?thesis by blast
qed

section \<open>Retries\<close>

lemma py_eq_columns:
  assumes "tuple_eq xs ys" and "list_all (\<lambda>v. (\<exists>s. v = PStr s) \<or> (\<exists>n. v = PInt n)) xs"
  shows "tuple_eq ys xs"
proof -
  have sym: "py_eq (PStr s) v \<Longrightarrow> py_eq v (PStr s)" "py_eq (PInt n) v \<Longrightarrow> py_eq v (PInt n)" for s n v
    by (cases v; simp add: num_eq_def)+
  from assms(1) [unfolded tuple_eq_def] assms(2) show ?thesis unfolding tuple_eq_def
  proof (induction rule: list_all2_induct)
    case (Cons x xs y ys)
    then have "(\<exists>s. x = PStr s) \<or> (\<exists>n. x = PInt n)" "list_all2 py_eq ys xs" by simp_all
    with Cons(1) sym show ?case by auto
  qed simp
qed

text \<open>A stored revision is written again exactly as it is stored.\<close>

lemma stored_row_facts:
  assumes snd: "sound env j" and i: "stored_call env j k = Some i"
  obtains r where "map_of (jn_invocations j) k = Some r" "payload_for_write env i = Inr (sr_payload r)" "spells (sr_payload r) i"
    "row_bound env k r" "key_of i = k"
proof -
  from i obtain r where r: "map_of (jn_invocations j) k = Some r" "decoded_row env k r = Some i"
    by (auto simp: stored_call_def split: option.splits)
  have g: "good_val (je_cfg env) (PDict (sr_payload r))" and s: "spells (sr_payload r) i" "key_of i = k"
    using snd map_of_SomeD [OF r(1)] r(2) by (auto simp: sound_def calls_ok_def rows_sound_def)
  have b: "row_bound env k r" and v: "lr_value (decode_stored env (sr_payload r)) = Some i"
    using r(2) by (auto simp: decoded_row_def Let_def split: if_splits)
  have wf: "wf_val (PDict (sr_payload r))" using g by (simp add: good_val_def)
  obtain src where n: "norm_val False (PDict (sr_payload r)) = PDict src"
    and l: "model_invocation_from_payload (je_va env) (je_cfg env) (je_sha env) src = Inr i"
    by (rule decode_value [OF wf v [unfolded decode_stored_def]])
  have "src = sr_payload r" using good_norm [OF g] n unfolding strict_ingress_wf [OF wf] by simp
  with loaded_source [OF l] have "payload_for_write env i = Inr (sr_payload r)" by (simp add: payload_for_write_def)
  with r(1) s b show ?thesis using that by blast
qed

lemma replay_found:
  assumes env: "env_ok env" and snd: "sound env j" and i: "stored_call env j k = Some i" and r: "map_of (jn_invocations j) k = Some r"
    and blobs: "sr_blobs r = blob_projection env blobs" "validated_blobs env blobs = Some blobs" "submitted_blobs_preserve_backing j blobs"
    and bound: "iv_revision i \<le> POSTGRES_BIGINT_MAX" "iv_dispatch_attempt i \<le> POSTGRES_BIGINT_MAX" and flag: "stage_flag_ok i False"
    and run: "iv_run_id i = wt_run_id t" and cur: "current_writer_locked (je_cfg env) (jn_authority j) t (tx_now tx) = Inr True"
    and tx: "tx_fault tx = NoFault" "tx_concurrent tx = (\<lambda>b. b)"
  shows "\<exists>c. commit_invocation env True tx i blobs t False j = (j, Inr c) \<and> cr_status c = AlreadyCommitted \<and>
    cr_content_digest c = sr_digest r"
proof -
  obtain p: "payload_for_write env i = Inr (sr_payload r)" and sp: "spells (sr_payload r) i" and b: "row_bound env k r" and k: "key_of i = k"
    by (rule stored_row_facts [OF snd i]) (use r in auto)
  let ?d = "record_digest env (sr_payload r) blobs"
  let ?cols = "call_cols k @ sr_typed r" and ?typed = "map (dget (invocation_typed_payload (sr_payload r))) INVOCATION_TYPED_FIELDS"
  have d: "checked_stored_digest env (sr_payload r) (sr_blobs r) (sr_digest r) \<noteq> None" "sr_digest r = ?d" "recorded_digest (sr_digest r)"
    using b blobs(1) by (auto simp: row_bound_def checked_stored_digest_def record_digest_def split: if_splits)
  have t: "tuple_eq ?typed ?cols"
    using b by (simp add: row_bound_def invocation_payload_matches_typed_values_def payload_matches_typed_values_def)
  have "tuple_eq ?cols ?typed"
    by (rule py_eq_columns [OF t]) (use sp in \<open>auto simp: spells_def call_cols_def split: prod.split\<close>)
  moreover obtain c where c: "make_commit_result (je_cfg env) AlreadyCommitted (Some (iv_revision i)) ?d [] = Inr c"
    "cr_status c = AlreadyCommitted" "cr_content_digest c = ?d"
    using make_commit_result_ok [OF env, of "iv_revision i" AlreadyCommitted "sr_payload r" "blob_projection env blobs"]
      submitted_portable [OF env stored_is_submittable [OF snd i]] by (auto simp: record_digest_def)
  ultimately have co: "invocation_coordinate env j i (sr_payload r) ?d = Inr (Some c)"
    using d t b by (auto simp: invocation_coordinate_def stored_result_def k r Let_def row_bound_def)
  have refs: "references_resolve env j (iv_run_id i) (result_references i) blobs"
    using snd i unfolding sound_def results_ok_def references_resolve_def list_all_iff by blast
  have "1 \<le> iv_revision i" "1 \<le> iv_dispatch_attempt i"
    using submittable_made [OF env stored_is_submittable [OF snd i]] by (simp_all add: make_invocation_fixed members_ok_def)
  then have "commit_invocation_locked env i blobs False j j = Inr (Some (j, c, ?d))"
    using bound flag blobs(2,3) p refs co by (simp add: commit_invocation_locked_def Let_def or_conflict_def)
  moreover have "others tx j = j" using tx by (simp add: others_def)
  ultimately have "commit_invocation env True tx i blobs t False j = (j, Inr c)"
    using run cur tx by (simp add: commit_invocation_def fenced_mutation_def fenced_commit_def fenced_body_def)
  then show ?thesis using c d(2) by simp
qed

text \<open>C36. Exact retries are idempotent. When the current writer submits a stored revision of a call again
  with the blobs of its first submission, whether it was loaded or is replayed after a lost
  response, the answer is \<open>already_committed\<close> with the digest of the stored record, and no table
  changes.\<close>

theorem exact_retry_is_idempotent:
  assumes "env_ok env" and "sound env j" and "stored_call env j k = Some i" and "map_of (jn_invocations j) k = Some r"
    and "sr_blobs r = blob_projection env blobs" "validated_blobs env blobs = Some blobs" "submitted_blobs_preserve_backing j blobs"
    and "iv_revision i \<le> POSTGRES_BIGINT_MAX" "iv_dispatch_attempt i \<le> POSTGRES_BIGINT_MAX" and "stage_flag_ok i False"
    and "iv_run_id i = wt_run_id t" and "current_writer_locked (je_cfg env) (jn_authority j) t (tx_now tx) = Inr True"
    and "tx_fault tx = NoFault" "tx_concurrent tx = (\<lambda>b. b)"
  shows "\<exists>c. commit_invocation env True tx i blobs t False j = (j, Inr c) \<and> cr_status c = AlreadyCommitted \<and>
    cr_content_digest c = sr_digest r"
  by (rule replay_found [OF assms])

lemma journal_run_trans: "journal_run env b c \<Longrightarrow> journal_run env a b \<Longrightarrow> journal_run env a c"
  by (induction arbitrary: a rule: journal_run.induct) (blast intro: journal_run.mutate journal_run.authority)+

section \<open>A call from reservation to recovery\<close>

lemma failed_settlement:
  assumes env: "env_ok env" and sub: "submittable env i" and rev: "iv_revision i < POSTGRES_BIGINT_MAX"
    and rc: "opt_receipt_canonical (je_va env) (je_cfg env) True (Some rc)" "map_of rc ''request_digest'' = None"
    and code: "taxonomy_code code" "code \<noteq> []"
  obtains u where "next_revision env i Settled (Some rc) [] code = Inr u" "iv_receipt u = Some rc"
proof -
  have m: "members_ok (je_cfg env) i" using submittable_made [OF env sub] by (simp add: make_invocation_fixed)
  have "is_portable_json_integer (je_cfg env) (IInt (iv_revision i + 1))"
    using bigint_portable [of "je_cfg env" "iv_revision i + 1"] env m rev by (auto simp: env_ok_def members_ok_def)
  moreover have "opt_receipt (je_va env) (je_cfg env) True (Some rc) = Inr (Some rc)" by (rule opt_receipt_id [OF rc(1)])
  ultimately have "next_revision env i Settled (Some rc) [] code =
      Inr (i\<lparr>iv_schema_version := MODEL_INVOCATION_V2_SCHEMA_VERSION, iv_revision := iv_revision i + 1, iv_dispatch_state := Settled,
        iv_receipt := Some rc, iv_result_ref := [], iv_failure_code := code, iv_source_envelope := None\<rparr>)"
    using m written_schema_accepted code rc(2)
    by (auto simp: next_revision_def make_invocation_iff receipt_fits_def state_shape_def members_ok_def allows_facts_def
        ACCEPTED_MODEL_INVOCATION_SCHEMA_VERSIONS_def)
  then show ?thesis by (rule that) simp
qed

lemma demo_advance:
  assumes "sound demo_journal_env j" and "jn_authority j = demo_authority" and "jn_invocation_head j (''r1'', ''mcall'') = Some n"
    and "stored_call demo_journal_env j (''r1'', ''mcall'', n) = Some p" and "st \<in> set (allowed_next (iv_dispatch_state p))"
    and "next_revision demo_journal_env p st receipt [] code = Inr u" and "wf_val (opt_dict receipt)"
    and "n < 9" and "iv_dispatch_attempt p = 1" and "iv_evidence_policy p = Passive"
  obtains j' i row where "journal_run demo_journal_env j j'" "sound demo_journal_env j'" "jn_authority j' = demo_authority"
    "jn_invocation_head j' (''r1'', ''mcall'') = Some (n + 1)" "stored_call demo_journal_env j' (''r1'', ''mcall'', n + 1) = Some i"
    "same_call i u" "map_of (jn_invocations j') (''r1'', ''mcall'', n + 1) = Some row" "sr_blobs row = []"
proof -
  note F = next_revision_facts [OF demo_journal_env_ok assms(6,7)]
  have k: "key_of p = (''r1'', ''mcall'', n)" using assms(1,4) stored_call_in(2) by (auto simp: sound_def calls_ok_def)
  have ku: "key_of u = (''r1'', ''mcall'', n + 1)" using F(2) k by (simp add: key_of_def)
  have "\<exists>payload. revision_admitted demo_journal_env u [] False j payload"
    by (rule next_revision_admitted [OF assms(1) demo_journal_env_ok assms(3,4,5,6,7)])
       (use assms F(6,9) in \<open>simp_all add: POSTGRES_BIGINT_MAX_def stage_flag_ok_def submitted_blobs_preserve_backing_def
          references_resolve_def result_references_def\<close>)
  then obtain payload where adm: "revision_admitted demo_journal_env u [] False j payload" ..
  have t: "iv_run_id u = wt_run_id demo_token" "tx_fault demo_tx = NoFault" "tx_concurrent demo_tx = (\<lambda>b. b)"
    "current_writer_locked (je_cfg demo_journal_env) (jn_authority j) demo_token (tx_now demo_tx) = Inr True"
    using ku by (simp_all add: assms(2) demo_tx_def demo_writer_current key_of_def) (simp add: demo_token_def)
  obtain j' r i where c: "commit_invocation demo_journal_env True demo_tx u [] demo_token False j = (j', Inr r)"
    and s: "sound demo_journal_env j'" "jn_authority j' = jn_authority j" and a: "appended demo_journal_env u i j j'"
    and row: "map_of (jn_invocations j') (key_of u) = Some (invocation_row demo_journal_env u payload (record_digest demo_journal_env payload []) [])"
    by (rule revision_commits [OF assms(1) demo_journal_env_ok F(1) _ adm t(1,4,2,3)]) auto
  have "journal_run demo_journal_env j j'"
    using demo_run [of "CommitInvocation u [] False" j demo_token] c F(1) by (simp add: submits_def)
  moreover have st: "same_call i u" "stored_call demo_journal_env j' (key_of u) = Some i"
      "jn_invocation_head j' = (jn_invocation_head j)((iv_run_id u, iv_logical_call_id u) \<mapsto> iv_revision u)"
    using a unfolding appended_def by presburger+
  moreover have "jn_invocation_head j' (''r1'', ''mcall'') = Some (n + 1)" using st(3) ku by (simp add: key_of_def)
  ultimately show ?thesis using that [OF _ s(1) _ _ st(2) [unfolded ku] st(1) row [unfolded ku]] s(2) assms(2)
    by (simp add: invocation_row_def blob_projection_def)
qed

lemma demo_settled:
  obtains j i row where "journal_run demo_journal_env (empty_journal demo_authority) j" "sound demo_journal_env j" "jn_authority j = demo_authority"
    "jn_invocation_head j (''r1'', ''mcall'') = Some 3" "stored_call demo_journal_env j (''r1'', ''mcall'', 3) = Some i"
    "iv_dispatch_state i = Settled" "iv_failure_code i = ''http_500''" "iv_evidence_policy i = Passive" "iv_dispatch_attempt i = 1"
    "iv_receipt i = Some [(''retryable'', PBool True)]" "iv_request_digest i = replicate 64 (CHR ''a'')"
    "map_of (jn_invocations j) (''r1'', ''mcall'', 3) = Some row" "sr_blobs row = []"
proof -
  obtain j1 i1 where a: "journal_run demo_journal_env (empty_journal demo_authority) j1" "sound demo_journal_env j1" "jn_authority j1 = demo_authority"
    "jn_invocation_head j1 (''r1'', ''mcall'') = Some 1" "stored_call demo_journal_env j1 (''r1'', ''mcall'', 1) = Some i1"
    "iv_dispatch_state i1 = Reserved" "same_dispatch i1 demo_reservation" "iv_evidence_policy i1 = Passive" by (rule demo_reserved)
  have s1: "submittable demo_journal_env i1" by (rule stored_is_submittable [OF a(2,5)])
  have k1: "key_of i1 = (''r1'', ''mcall'', 1)" using a(2,5) stored_call_in(2) by (auto simp: sound_def calls_ok_def)
  have b1: "iv_receipt i1 = None" using open_call_bare [OF demo_journal_env_ok s1] a(6) by simp
  have e1: "iv_result_ref i1 = []" using submittable_made [OF demo_journal_env_ok s1] a(6) b1
    by (auto simp: make_invocation_fixed receipt_fits_def state_shape_def)
  obtain u where u: "next_revision demo_journal_env i1 DispatchStarted (iv_receipt i1) (iv_result_ref i1) (iv_failure_code i1) = Inr u"
    by (rule start_of_reservation [OF demo_journal_env_ok s1 a(6)]) (use k1 in \<open>auto simp: key_of_def POSTGRES_BIGINT_MAX_def\<close>)
  note U = next_revision_facts [OF demo_journal_env_ok u]
  obtain j2 i2 where b: "journal_run demo_journal_env j1 j2" "sound demo_journal_env j2" "jn_authority j2 = demo_authority"
    "jn_invocation_head j2 (''r1'', ''mcall'') = Some 2" "stored_call demo_journal_env j2 (''r1'', ''mcall'', 2) = Some i2" "same_call i2 u"
    by (rule demo_advance [OF a(2-5) _ u [unfolded e1]]) (use a b1 in \<open>auto simp: opt_dict_def same_dispatch_def demo_reservation_def\<close>)
  note f2 = same_call_fields [OF b(6)] and U = U [unfolded b1 opt_dict_def, simplified]
  have s2: "submittable demo_journal_env i2" by (rule stored_is_submittable [OF b(2,5)])
  have k2: "key_of i2 = (''r1'', ''mcall'', 2)" using b(2,5) stored_call_in(2) by (auto simp: sound_def calls_ok_def)
  have rc: "opt_receipt_canonical (je_va demo_journal_env) (je_cfg demo_journal_env) True (Some [(''retryable'', PBool True)])"
    using demo_invocation_facts(3) by (simp add: demo_journal_env_def demo_invocation_def allows_facts_def)
  have code: "taxonomy_code ''http_500''" using demo_invocation_facts(1) by (simp add: members_ok_def demo_invocation_def)
  obtain v where v: "next_revision demo_journal_env i2 Settled (Some [(''retryable'', PBool True)]) [] ''http_500'' = Inr v"
    and vr: "iv_receipt v = Some [(''retryable'', PBool True)]"
    by (rule failed_settlement [OF demo_journal_env_ok s2 _ rc _ code]) (use k2 in \<open>auto simp: key_of_def POSTGRES_BIGINT_MAX_def\<close>)
  have wf: "wf_val (opt_dict (Some [(''retryable'', PBool True)]))" by (simp add: opt_dict_def)
  note V = next_revision_facts [OF demo_journal_env_ok v wf]
  have p2: "iv_dispatch_state i2 = DispatchStarted" "iv_dispatch_attempt i2 = 1" "iv_evidence_policy i2 = Passive"
    "iv_request_digest i2 = replicate 64 (CHR ''a'')"
    using f2 U a(7,8) by (simp_all add: same_dispatch_def demo_reservation_def)
  obtain j3 i3 row where c: "journal_run demo_journal_env j2 j3" "sound demo_journal_env j3" "jn_authority j3 = demo_authority"
    "jn_invocation_head j3 (''r1'', ''mcall'') = Some 3" "stored_call demo_journal_env j3 (''r1'', ''mcall'', 3) = Some i3" "same_call i3 v"
    "map_of (jn_invocations j3) (''r1'', ''mcall'', 3) = Some row" "sr_blobs row = []"
    by (rule demo_advance [OF b(2-5) _ v wf]) (use p2 in auto)
  note f3 = same_call_fields [OF c(6)]
  have "journal_run demo_journal_env (empty_journal demo_authority) j3" using a(1) b(1) c(1) journal_run_trans by blast
  then show ?thesis using that c f3 V p2 vr by simp
qed

theorem exact_retry_is_idempotent_witness:
  "\<exists>j i c. stored_call demo_journal_env j (''r1'', ''mcall'', 3) = Some i \<and>
     commit_invocation demo_journal_env True demo_tx i [] demo_token False j = (j, Inr c) \<and> cr_status c = AlreadyCommitted"
proof -
  obtain j i row where s: "sound demo_journal_env j" "jn_authority j = demo_authority" "stored_call demo_journal_env j (''r1'', ''mcall'', 3) = Some i"
    "iv_evidence_policy i = Passive" "iv_dispatch_attempt i = 1" "map_of (jn_invocations j) (''r1'', ''mcall'', 3) = Some row" "sr_blobs row = []"
    by (rule demo_settled)
  have k: "key_of i = (''r1'', ''mcall'', 3)" using s(1,3) stored_call_in(2) by (auto simp: sound_def calls_ok_def)
  have w: "current_writer_locked (je_cfg demo_journal_env) (jn_authority j) demo_token (tx_now demo_tx) = Inr True"
    by (simp add: s(2) demo_writer_current demo_tx_def)
  have "\<exists>c. commit_invocation demo_journal_env True demo_tx i [] demo_token False j = (j, Inr c) \<and> cr_status c = AlreadyCommitted \<and>
      cr_content_digest c = sr_digest row"
    by (rule exact_retry_is_idempotent [OF demo_journal_env_ok s(1,3,6)])
       (use s k w in \<open>simp_all add: blob_projection_def validated_blobs_def submitted_blobs_preserve_backing_def POSTGRES_BIGINT_MAX_def
          stage_flag_ok_def key_of_def demo_tx_def demo_token_def\<close>)
  with s(3) show ?thesis by blast
qed

text \<open>C11. A recovered result is authoritative. When \<open>recover\<close> hands a host the outcome of an earlier
  dispatch, that outcome is the settled revision stored in the journal for the asked call and
  request: its receipt, its failure code, or the bytes its result reference addresses. The last call
  of the database that this recovery makes is its own commit of that very revision, and the transaction of that commit meets a journal in which the
  lease row of the run names this owner and generation, unrevoked and unexpired at the clock of the transaction, so no host that lost its lease learns a result; and
  when the call promised evidence, or the query asks for it, the evidence is recorded.\<close>

theorem recovered_results_are_authoritative:
  assumes "env_ok env" and "journal_run env (empty_journal a) (se_journal (ch_store h))" and "list_all (pending_ok env) (se_next (ch_store h))"
    and "recover env (postgres_ops env) q h = (h', Inr (Some x))"
  shows "\<exists>p j calls blobs stage c w n i. se_log (ch_store h') = (p, j) # calls @ se_log (ch_store h) \<and>
    se_next (ch_store h) = rev (p # map fst calls) @ se_next (ch_store h') \<and>
    commit_invocation env True (pc_attempt p) i blobs (ch_token h) stage j = (se_journal (ch_store h'), Inr c) \<and>
    cr_status c \<in> {Committed, AlreadyCommitted} \<and>
    jn_authority j (wt_run_id (ch_token h)) = Some w \<and> ar_owner_id w = wt_owner_id (ch_token h) \<and>
    ar_generation w = wt_generation (ch_token h) \<and> \<not> ar_revoked w \<and> tx_now (pc_attempt p) < ar_leased_until w \<and>
    stored_call env (se_journal (ch_store h')) (wt_run_id (ch_token h), rq_logical_call_id q, n) = Some i \<and> iv_dispatch_state i = Settled \<and>
    iv_request_digest i = rq_request_digest q \<and> iv_receipt i = Some (st_receipt x) \<and> st_failure_code x = iv_failure_code i \<and>
    dr_dispatch_id (st_reservation x) = iv_dispatch_id i \<and>
    (if iv_failure_code i = [] then \<exists>b. st_result_blob x = Some b \<and> iv_result_ref i = ''blob:'' @ je_bsha env b else st_result_blob x = None) \<and>
    (iv_evidence_policy i = Required \<longrightarrow>
       map_of (jn_evidence (se_journal (ch_store h'))) (wt_run_id (ch_token h), rq_logical_call_id q, n) \<noteq> None) \<and>
    (rq_require_evidence q \<longrightarrow> iv_evidence_policy i = Required)"
proof -
  have ok: "session_ok env (ch_store h)" using assms(1-3) reached_sound(1) by (auto simp: session_ok_def)
  from pg.recovered_result [OF ok assms(4)] obtain s n i where
    o: "own_calls (postgres_ops env) (ch_token h) (ch_store h) s" and f: "session_fence s (ch_token h)"
    and v: "commits_at (postgres_ops env) i (ch_token h) s (ch_store h')"
    and A: "stored_call env (se_journal (ch_store h')) (wt_run_id (ch_token h), rq_logical_call_id q, n) = Some i" "iv_dispatch_state i = Settled"
      "iv_request_digest i = rq_request_digest q" "iv_receipt i = Some (st_receipt x)" "st_failure_code x = iv_failure_code i"
      "dr_dispatch_id (st_reservation x) = iv_dispatch_id i"
      "if iv_failure_code i = [] then \<exists>b. st_result_blob x = Some b \<and> iv_result_ref i = ''blob:'' @ je_bsha env b else st_result_blob x = None"
      "iv_evidence_policy i = Required \<longrightarrow>
         map_of (jn_evidence (se_journal (ch_store h'))) (wt_run_id (ch_token h), rq_logical_call_id q, n) \<noteq> None"
      "rq_require_evidence q \<longrightarrow> iv_evidence_policy i = Required" by metis
  from own_calls_logged [OF o] obtain calls where l: "se_log s = calls @ se_log (ch_store h)"
    "se_next (ch_store h) = rev (map fst calls) @ se_next s" by (auto simp: logged_after_def)
  from v obtain p blobs stage c where p: "se_next s = p # se_next (ch_store h')"
    "se_log (ch_store h') = (p, pc_before p (se_journal s)) # se_log s"
    "commit_invocation env True (pc_attempt p) i blobs (ch_token h) stage (pc_before p (se_journal s)) = (se_journal (ch_store h'), Inr c)"
    "cr_status c \<in> {Committed, AlreadyCommitted}" by (rule commit_transaction)
  from f obtain w where "jn_authority (pc_before p (se_journal s)) (wt_run_id (ch_token h)) = Some w" "ar_owner_id w = wt_owner_id (ch_token h)"
    "ar_generation w = wt_generation (ch_token h)" "\<not> ar_revoked w" "tx_now (pc_attempt p) < ar_leased_until w"
    by (auto simp: session_fence_def p(1) holds_lease_def)
  with A l p show ?thesis by (intro exI conjI) (assumption | simp)+
qed

definition demo_query :: recovery_query where
  "demo_query = \<lparr>rq_logical_call_id = ''mcall'', rq_request_digest = replicate 64 (CHR ''a''),
     rq_digest_generation = MODEL_REQUEST_DIGEST_GENERATION, rq_require_evidence = False\<rparr>"

lemma demo_recovered:
  obtains j h' x where "journal_run demo_journal_env (empty_journal demo_authority) j"
    "recover demo_journal_env (postgres_ops demo_journal_env) demo_query (demo_host j [demo_step, demo_step]) = (h', Inr (Some x))"
proof -
  obtain j i row where run: "journal_run demo_journal_env (empty_journal demo_authority) j" and s: "sound demo_journal_env j" "jn_authority j = demo_authority"
    "jn_invocation_head j (''r1'', ''mcall'') = Some 3" "stored_call demo_journal_env j (''r1'', ''mcall'', 3) = Some i"
    "iv_dispatch_state i = Settled" "iv_failure_code i = ''http_500''" "iv_evidence_policy i = Passive" "iv_dispatch_attempt i = 1"
    "iv_receipt i = Some [(''retryable'', PBool True)]" "iv_request_digest i = replicate 64 (CHR ''a'')"
    "map_of (jn_invocations j) (''r1'', ''mcall'', 3) = Some row" "sr_blobs row = []" by (rule demo_settled)
  let ?ops = "postgres_ops demo_journal_env" and ?h = "demo_host j [demo_step, demo_step] :: (session, nat) call_host"
  have n: "ch_token ?h = demo_token" "se_journal (ch_store ?h) = j" "se_next (ch_store ?h) = [demo_step, demo_step]" "ch_policy ?h = Passive"
      "wt_run_id demo_token = ''r1''" "\<not> wa_revoke_requested (ch_authority ?h)" "pc_attempt demo_step = demo_tx"
      "se_log (ch_store ?h) = []"
    by (simp_all add: demo_host_def demo_token_def demo_step_def new_authority_def)
  let ?h1 = "?h\<lparr>ch_store := \<lparr>se_journal = j, se_next = [demo_step], se_revoked = False, se_log = [(demo_step, j)]\<rparr>, ch_last := Some i\<rparr>"
  have l: "load_call ?ops ''mcall'' ?h = (?h1, Inr (Some \<lparr>ir_revision = 3, ir_invocation = i\<rparr>))"
    using quiet_load [OF demo_host_ok [OF s(1)] n(3) demo_step_ok(2) n(6), of "''mcall''" 3 i] s(3,4) by (simp add: n)
  have k: "key_of i = (''r1'', ''mcall'', 3)" using s(1,4) stored_call_in(2) by (auto simp: sound_def calls_ok_def)
  have w: "current_writer_locked (je_cfg demo_journal_env) (jn_authority j) demo_token (tx_now demo_tx) = Inr True"
    by (simp add: s(2) demo_writer_current demo_tx_def)
  obtain c where c: "commit_invocation demo_journal_env True demo_tx i [] demo_token False j = (j, Inr c)" "cr_status c = AlreadyCommitted"
    using replay_found [OF demo_journal_env_ok s(1,4,11), of "[]" demo_token demo_tx] s k w
    by (auto simp: blob_projection_def validated_blobs_def submitted_blobs_preserve_backing_def POSTGRES_BIGINT_MAX_def
        stage_flag_ok_def key_of_def demo_tx_def demo_token_def)
  have m: "members_ok (je_cfg demo_journal_env) i"
    using submittable_made [OF demo_journal_env_ok stored_is_submittable [OF s(1,4)]] by (simp add: make_invocation_fixed)
  have g: "iv_digest_generation i = MODEL_REQUEST_DIGEST_GENERATION" by (rule stored_generation [OF s(1,4)])
  obtain rv where rv: "reservation_of (je_cfg demo_journal_env) i = Inr rv"
    using m g by (auto simp: reservation_of_def make_reservation_def members_ok_def)
  have "commit_call ?ops i [] False ?h1 = (?h1\<lparr>ch_store := \<lparr>se_journal = j, se_next = [], se_revoked = False, se_log = [(demo_step, j), (demo_step, j)]\<rparr>, ch_last := Some i\<rparr>, Inr ())"
    using quiet_commit [of demo_journal_env ?h1 demo_step "[]" i "[]" False j c] s(1) c demo_step_ok n demo_journal_env_ok
    by (simp add: session_ok_def)
  then have "recover demo_journal_env ?ops demo_query ?h = (?h1\<lparr>ch_store := \<lparr>se_journal = j, se_next = [], se_revoked = False, se_log = [(demo_step, j), (demo_step, j)]\<rparr>, ch_last := Some i\<rparr>,
      Inr (Some \<lparr>st_reservation = rv, st_receipt = [(''retryable'', PBool True)], st_result_blob = None, st_failure_code = ''http_500''\<rparr>))"
    using l s rv g m n by (simp add: recover_def recover_delivered_def recover_settled_def op_bind_def demo_query_def op_return_def op_lift_def
        commit_settled_def effective_evidence_policy_def Let_def make_recovered_def members_ok_def)
  then show ?thesis using that run by blast
qed

theorem recovered_results_are_authoritative_witness:
  "\<exists>j h' x i n. recover demo_journal_env (postgres_ops demo_journal_env) demo_query (demo_host j [demo_step, demo_step]) = (h', Inr (Some x)) \<and>
     stored_call demo_journal_env (se_journal (ch_store h')) (''r1'', ''mcall'', n) = Some i \<and> iv_dispatch_state i = Settled \<and>
     iv_receipt i = Some (st_receipt x)"
proof -
  obtain j h' x where r: "journal_run demo_journal_env (empty_journal demo_authority) j"
    and d: "recover demo_journal_env (postgres_ops demo_journal_env) demo_query (demo_host j [demo_step, demo_step]) = (h', Inr (Some x))"
    by (rule demo_recovered)
  have n: "se_journal (ch_store (demo_host j ps)) = j" "ch_token (demo_host j ps) = demo_token" "se_next (ch_store (demo_host j ps)) = ps"
      "wt_run_id demo_token = ''r1''" "rq_logical_call_id demo_query = ''mcall''" for ps
    by (simp_all add: demo_host_def demo_token_def demo_query_def)
  have "list_all (pending_ok demo_journal_env) [demo_step, demo_step]" by (simp add: demo_step_ok(1))
  with recovered_results_are_authoritative [OF demo_journal_env_ok _ _ d, of demo_authority, unfolded n] r
  have "\<exists>n i. stored_call demo_journal_env (se_journal (ch_store h')) (''r1'', ''mcall'', n) = Some i \<and> iv_dispatch_state i = Settled \<and>
     iv_receipt i = Some (st_receipt x)" by metis
  with d show ?thesis by metis
qed

end
