(* ===== verification/Revision_Rules.thy ===== *)
theory Revision_Rules
  imports Postgres_Calls
begin

text \<open>
  Which revisions of a model call the PostgreSQL journal accepts, specified over the stored records
  alone (the table of dispatch states, the identity of a call, the evidence flag, the blobs and the
  row of the lease) and proved equivalent to what \<open>commit_invocation\<close> answers.
\<close>

section \<open>The rules\<close>

text \<open>A call has one idempotency key, one request digest and one evidence policy.\<close>

definition same_identity :: "invocation \<Rightarrow> invocation \<Rightarrow> bool" where
  "same_identity p i \<longleftrightarrow> iv_idempotency_key i = iv_idempotency_key p \<and>
     iv_request_digest i = iv_request_digest p \<and> iv_evidence_policy i = iv_evidence_policy p"

text \<open>The life of a dispatch: it is reserved, started and then settled or of unknown outcome, all
  within one attempt and under one dispatch id; after a settlement with a failure whose receipt
  says \<open>retryable\<close> the next attempt is reserved under an id no revision of the call has used.\<close>

definition legal_step :: "journal_env \<Rightarrow> journal \<Rightarrow> invocation \<Rightarrow> invocation \<Rightarrow> bool" where
  "legal_step env j p i \<longleftrightarrow>
     (iv_dispatch_state p = Reserved \<and> iv_dispatch_state i = DispatchStarted \<or>
      iv_dispatch_state p = DispatchStarted \<and> iv_dispatch_state i = Settled \<or>
      iv_dispatch_state p = DispatchStarted \<and> iv_dispatch_state i = DispatchUnknown) \<and>
     iv_dispatch_attempt i = iv_dispatch_attempt p \<and> iv_dispatch_id i = iv_dispatch_id p \<or>
     iv_dispatch_state p = Settled \<and> iv_dispatch_state i = Reserved \<and>
     iv_failure_code p \<noteq> [] \<and> (\<exists>r. iv_receipt p = Some r \<and> dget r ''retryable'' = PBool True) \<and>
     iv_dispatch_attempt i = iv_dispatch_attempt p + 1 \<and>
     (\<forall>m q. stored_call env j (iv_run_id i, iv_logical_call_id i, m) = Some q \<longrightarrow>
        iv_dispatch_id q \<noteq> iv_dispatch_id i)"

text \<open>The first revision of a call reserves its first attempt; every other one follows the head.\<close>

definition legal_successor :: "journal_env \<Rightarrow> journal \<Rightarrow> invocation \<Rightarrow> bool" where
  "legal_successor env j i \<longleftrightarrow> (case jn_invocation_head j (iv_run_id i, iv_logical_call_id i) of
      None \<Rightarrow> iv_revision i = 1 \<and> iv_dispatch_attempt i = 1 \<and> iv_dispatch_state i = Reserved
    | Some n \<Rightarrow> iv_revision i = n + 1 \<and>
        (\<exists>p. stored_call env j (iv_run_id i, iv_logical_call_id i, n) = Some p \<and>
           same_identity p i \<and> legal_step env j p i))"

text \<open>Evidence is staged with the revision exactly when the policy asks for an outbox record and the
  call settled; there is then a receipt to stage.\<close>

definition legal_evidence :: "invocation \<Rightarrow> bool \<Rightarrow> bool" where
  "legal_evidence i stage \<longleftrightarrow>
     stage = (iv_evidence_policy i = OutboxEvidence \<and> iv_dispatch_state i = Settled) \<and>
     (stage \<longrightarrow> iv_receipt i \<noteq> None)"

text \<open>A blob is filed under the digest of its bytes, within the size limit, and what the journal
  already stores under that digest are the same bytes.\<close>

definition legal_blob :: "journal_env \<Rightarrow> journal \<Rightarrow> string \<Rightarrow> blob_bytes \<Rightarrow> bool" where
  "legal_blob env j k v \<longleftrightarrow> recorded_digest k \<and> je_bsha env v = k \<and> int (length v) \<le> je_max_blob env \<and>
     (jn_blobs j k = None \<or> jn_blobs j k = Some (int (length v), v))"

text \<open>A result reference into the blob store names a blob submitted with the revision or one the run
  holds already, intact.\<close>

definition legal_reference :: "journal_env \<Rightarrow> journal \<Rightarrow> invocation \<Rightarrow> blob_map \<Rightarrow> bool" where
  "legal_reference env j i blobs \<longleftrightarrow> (\<forall>k. iv_result_ref i = ''blob:'' @ k \<longrightarrow> k \<in> fst ` set blobs \<or>
     recorded_digest k \<and> jn_run_blobs j (iv_run_id i) k \<and>
     (\<exists>c. jn_blobs j k = Some (int (length c), c) \<and> je_bsha env c = k))"

definition legal_revision :: "journal_env \<Rightarrow> journal \<Rightarrow> invocation \<Rightarrow> blob_map \<Rightarrow> bool \<Rightarrow> bool" where
  "legal_revision env j i blobs stage \<longleftrightarrow> legal_successor env j i \<and> legal_evidence i stage \<and>
     (\<forall>(k, v) \<in> set blobs. legal_blob env j k v) \<and> legal_reference env j i blobs \<and>
     iv_revision i < 2 ^ 63 \<and> iv_dispatch_attempt i < 2 ^ 63"

section \<open>The guards of the journal decide them\<close>

lemma evidence_guard: "stage_flag_ok i stage \<longleftrightarrow> legal_evidence i stage"
  by (auto simp: stage_flag_ok_def legal_evidence_def)

lemma reference_guard: "references_resolve env j (iv_run_id i) (result_references i) blobs \<longleftrightarrow> legal_reference env j i blobs"
proof (cases "\<exists>k. iv_result_ref i = ''blob:'' @ k")
  case True
  then obtain k where "iv_result_ref i = ''blob:'' @ k" ..
  then show ?thesis
    by (auto simp: references_resolve_def result_references_def legal_reference_def associated_blob_is_valid_def
        str_startswith_iff split: option.splits)
qed (auto simp: references_resolve_def result_references_def legal_reference_def str_startswith_iff)

lemma blob_guards:
  "(\<forall>(k, v) \<in> set blobs. recorded_digest k \<and> int (length v) \<le> je_max_blob env \<and> je_bsha env v = k) \<and>
   submitted_blobs_preserve_backing j blobs \<longleftrightarrow> (\<forall>(k, v) \<in> set blobs. legal_blob env j k v)"
proof -
  have kept: "(case x of None \<Rightarrow> True | Some (m, c) \<Rightarrow> m = n \<and> c = v) \<longleftrightarrow> x = None \<or> x = Some (n, v)"
    for x :: "(int \<times> blob_bytes) option" and n v by (auto split: option.splits)
  have "submitted_blobs_preserve_backing j blobs \<longleftrightarrow>
      (\<forall>(k, v) \<in> set blobs. jn_blobs j k = None \<or> jn_blobs j k = Some (int (length v), v))"
    by (simp add: submitted_blobs_preserve_backing_def list_all_iff kept)
  then show ?thesis unfolding legal_blob_def case_prod_unfold ball_conj_distrib by (simp only: conj_ac)
qed

lemma id_guard:
  assumes "rows_sound env j"
  shows "dispatch_id_was_used env j i \<longleftrightarrow> (\<exists>m q. stored_call env j (iv_run_id i, iv_logical_call_id i, m) = Some q \<and>
    iv_dispatch_id q = iv_dispatch_id i)"
proof
  assume "dispatch_id_was_used env j i"
  then obtain m r where r: "((iv_run_id i, iv_logical_call_id i, m), r) \<in> set (jn_invocations j)"
    and d: "case decoded_row env (iv_run_id i, iv_logical_call_id i, m) r of None \<Rightarrow> True
      | Some d \<Rightarrow> iv_dispatch_id d = iv_dispatch_id i"
    by (auto simp: dispatch_id_was_used_def list_ex_iff)
  have "map_of (jn_invocations j) (iv_run_id i, iv_logical_call_id i, m) = Some r"
    and "\<exists>q. decoded_row env (iv_run_id i, iv_logical_call_id i, m) r = Some q"
    using assms r by (auto simp: rows_sound_def)
  with d show "\<exists>m q. stored_call env j (iv_run_id i, iv_logical_call_id i, m) = Some q \<and> iv_dispatch_id q = iv_dispatch_id i"
    by (auto simp: stored_call_def intro!: exI [of _ m])
qed (use used_id [OF assms] in blast)

lemma step_guard:
  assumes "rows_sound env j"
  shows "state_step_allowed env j p i \<longleftrightarrow> legal_step env j p i"
  by (cases "iv_dispatch_state p") (auto simp: state_step_allowed_def legal_step_def retryable_receipt_def
      id_guard [OF assms] split: option.splits)

lemma successor_guard:
  assumes snd: "sound env j" and env: "env_ok env" and sub: "submittable env i"
  shows "invocation_transition_winner env j i = Inr None \<longleftrightarrow> legal_successor env j i"
proof (cases "jn_invocation_head j (iv_run_id i, iv_logical_call_id i)")
  case (Some n)
  let ?k = "(iv_run_id i, iv_logical_call_id i, n)"
  have c: "rows_sound env j" "heads_cover j" using snd by (simp_all add: sound_def calls_ok_def)
  have "map_of (jn_invocations j) ?k \<noteq> None" using covered(1) [OF c(2)] c(2) Some by (auto simp: heads_cover_def)
  then obtain r where r: "map_of (jn_invocations j) ?k = Some r" by blast
  obtain p where p: "stored_call env j ?k = Some p" using stored_call_in(1) [OF c(1), of ?k] r by (metis option.exhaust option.distinct(1))
  have k: "key_of p = ?k" by (rule stored_call_in(2) [OF c(1) p])
  have d: "decoded_row env ?k r = Some p" using p r by (simp add: stored_call_def)
  obtain q where q: "invocation_to_json (je_va env) (je_cfg env) i = Inr q" "dget q ''logical_call_id'' = PStr (iv_logical_call_id i)"
    "dget q ''digest_generation'' = PStr MODEL_REQUEST_DIGEST_GENERATION" by (rule submitted_json [OF env sub])
  obtain q' where q': "invocation_to_json (je_va env) (je_cfg env) p = Inr q'" "dget q' ''logical_call_id'' = PStr (iv_logical_call_id p)"
    "dget q' ''digest_generation'' = PStr MODEL_REQUEST_DIGEST_GENERATION"
    by (rule submitted_json [OF env stored_is_submittable [OF snd p]])
  have "stable_fields_equal q q' \<longleftrightarrow> same_identity p i"
    using q(2,3) q'(2,3) k
    by (auto simp: stable_fields_equal_def STABLE_INVOCATION_FIELDS_def same_identity_def key_of_def
        to_json_members [OF q(1)] to_json_members [OF q'(1)] dest: policy_str_inj)
  then show ?thesis
    using Some r d p k q(1) q'(1) step_guard [OF c(1)]
    by (auto simp: invocation_transition_winner_def invocation_head_def legal_successor_def key_of_def)
qed (simp add: invocation_transition_winner_def invocation_head_def legal_successor_def)

lemma legal_revision_fresh:
  assumes snd: "sound env j" and "env_ok env" "submittable env i" and l: "legal_successor env j i"
  shows "1 \<le> iv_revision i" "1 \<le> iv_dispatch_attempt i" "map_of (jn_invocations j) (key_of i) = None"
proof -
  have c: "heads_cover j" using snd by (simp add: sound_def calls_ok_def)
  have h: "jn_invocation_head j x = Some n \<Longrightarrow> 1 \<le> n" for x n using c unfolding heads_cover_def by blast
  show "1 \<le> iv_revision i" using l by (auto simp: legal_successor_def dest: h split: option.splits)
  show "1 \<le> iv_dispatch_attempt i"
    using submittable_made [OF assms(2,3)] by (simp add: make_invocation_fixed members_ok_def)
  show "map_of (jn_invocations j) (key_of i) = None"
    using l covered(1) [OF c, of "iv_run_id i" "iv_logical_call_id i" "iv_revision i"]
    by (auto simp: legal_successor_def key_of_def split: option.splits)
qed

lemma legal_iff_admitted:
  assumes "sound env j" and "env_ok env" and "submittable env i"
  shows "(\<exists>payload. revision_admitted env i blobs stage j payload) \<longleftrightarrow> legal_revision env j i blobs stage"
proof -
  obtain payload where "payload_for_write env i = Inr payload" by (rule submitted_payload [OF assms(2,3)])
  then show ?thesis
    using legal_revision_fresh [OF assms] blob_guards [of blobs env j]
    by (auto simp: revision_admitted_def legal_revision_def evidence_guard reference_guard POSTGRES_BIGINT_MAX_def
        successor_guard [OF assms])
qed

lemma lease_guard:
  assumes "make_writer_token cfg (wt_run_id t) (wt_owner_id t) (wt_generation t) = Inr t"
  shows "current_writer_locked cfg tbl t now = Inr True \<longleftrightarrow> holds_lease tbl t now"
  using assms current_writer_holds_lease [of cfg tbl t now]
  by (auto simp: holds_lease_def current_writer_locked_def read_locked_def authority_from_row_def wu_active_def)

lemma current_token_well_formed:
  assumes "current_writer_locked cfg tbl t now = Inr True"
  shows "make_writer_token cfg (wt_run_id t) (wt_owner_id t) (wt_generation t) = Inr t"
proof -
  from assms obtain r u where "authority_from_row cfg (wt_run_id t) r now = Inr u" "wu_token u = t"
    by (auto simp: current_writer_locked_def read_locked_def res_bind_eq_Inr split: option.splits)
  then have mk: "make_writer_token cfg (wt_run_id t) (ar_owner_id r) (ar_generation r) = Inr t"
    by (auto simp: authority_from_row_def res_bind_eq_Inr)
  then have "ar_owner_id r = wt_owner_id t" "ar_generation r = wt_generation t"
    by (cases t; simp add: make_writer_token_def split: if_splits)+
  with mk show ?thesis by simp
qed

section \<open>What commits\<close>

text \<open>C19. Exactly the legal next revision commits. For a well-formed token of the run, with no fault and no
  transaction of another run in between, a submitted revision is answered with \<open>committed\<close> if and
  only if the row of the run names the token's owner and generation, is not revoked and has not
  expired, and the revision is legal: the reservation of the first attempt where the call has no
  revision yet, or else the successor of the head with the same key, digest and policy that starts
  a reserved dispatch, settles a started one or leaves it unknown under the same id, or reserves
  the next attempt under an unused id after a retryable failure; with evidence staged exactly when
  the policy asks for it, content-addressed blobs that agree with the stored bytes, and a result
  reference that resolves. The journal then holds that revision as the head of the call.\<close>

theorem legal_revisions_commit:
  assumes "env_ok env" and "sound env j" and "submittable env i" and "distinct (map fst blobs)"
    and "iv_run_id i = wt_run_id t" and "make_writer_token (je_cfg env) (wt_run_id t) (wt_owner_id t) (wt_generation t) = Inr t"
    and "tx_fault tx = NoFault" and "tx_concurrent tx = (\<lambda>b. b)"
  shows "((\<exists>j' r. commit_invocation env True tx i blobs t stage j = (j', Inr r) \<and> cr_status r = Committed) \<longleftrightarrow>
      holds_lease (jn_authority j) t (tx_now tx) \<and> legal_revision env j i blobs stage) \<and>
    (\<forall>j' r. commit_invocation env True tx i blobs t stage j = (j', Inr r) \<and> cr_status r = Committed \<longrightarrow>
      jn_invocation_head j' (iv_run_id i, iv_logical_call_id i) = Some (iv_revision i) \<and>
      (\<exists>i'. stored_call env j' (iv_run_id i, iv_logical_call_id i, iv_revision i) = Some i' \<and> same_call i' i))"
proof -
  have only_if: "holds_lease (jn_authority j) t (tx_now tx) \<and> legal_revision env j i blobs stage"
    if c: "commit_invocation env True tx i blobs t stage j = (j', Inr r)" "cr_status r = Committed" for j' r
  proof -
    have o: "others tx j = j" using assms(8) by (simp add: others_def)
    from mutation_result [OF c(1) [unfolded commit_invocation_def]] c(2) assms(7) obtain j1 d
      where l: "current_writer_locked (je_cfg env) (jn_authority j) t (tx_now tx) = Inr True"
        "commit_invocation_locked env i blobs stage j j = Inr (Some (j1, r, d))"
      by (auto simp: o fenced_result_def dest!: make_commit_result_status)
    from locked_cases [OF l(2)] c(2) l(1) show ?thesis
      using legal_iff_admitted [OF assms(2,1,3)] lease_guard [OF assms(6)] by blast
  qed
  have effect: "\<exists>j' r i'. commit_invocation env True tx i blobs t stage j = (j', Inr r) \<and> cr_status r = Committed \<and> appended env i i' j j'"
    if h: "holds_lease (jn_authority j) t (tx_now tx)" and l: "legal_revision env j i blobs stage"
  proof -
    from l obtain payload where p: "revision_admitted env i blobs stage j payload"
      using legal_iff_admitted [OF assms(2,1,3)] by blast
    show ?thesis
      by (rule revision_commits [OF assms(2,1,3,4) p assms(5) _ assms(7,8)])
        (use lease_guard [OF assms(6)] h in blast)+
  qed
  have app: "jn_invocation_head j' (iv_run_id i, iv_logical_call_id i) = Some (iv_revision i) \<and>
      (\<exists>i'. stored_call env j' (iv_run_id i, iv_logical_call_id i, iv_revision i) = Some i' \<and> same_call i' i)"
    if "appended env i i' j j'" for i' j'
    using that by (auto simp: appended_def key_of_def)
  show ?thesis using only_if effect app by (metis Pair_inject sum.inject(2))
qed

theorem legal_revisions_commit_witness:
  "\<exists>j r. commit_invocation demo_journal_env True demo_tx demo_first [] demo_token False (empty_journal demo_authority) = (j, Inr r) \<and>
     cr_status r = Committed \<and> jn_invocation_head j (''r1'', ''mcall'') = Some 1"
proof -
  have t: "iv_run_id demo_first = wt_run_id demo_token" "tx_fault demo_tx = NoFault" "tx_concurrent demo_tx = (\<lambda>b. b)"
    "current_writer_locked (je_cfg demo_journal_env) (jn_authority (empty_journal demo_authority)) demo_token (tx_now demo_tx) = Inr True"
    by (simp_all add: demo_first_def demo_invocation_def demo_tx_def empty_journal_def demo_writer_current) (simp add: demo_token_def)
  have mk: "make_writer_token (je_cfg demo_journal_env) (wt_run_id demo_token) (wt_owner_id demo_token) (wt_generation demo_token) = Inr demo_token"
    by (rule current_token_well_formed [OF t(4)])
  note law = legal_revisions_commit [OF demo_journal_env_ok empty_sound(1) demo_first_submittable _ t(1) mk t(2,3), of "[]"]
  have "legal_revision demo_journal_env (empty_journal demo_authority) demo_first [] False"
    by (simp add: legal_revision_def legal_successor_def legal_evidence_def legal_reference_def empty_journal_def
        demo_first_def demo_invocation_def)
  moreover have "iv_run_id demo_first = ''r1''" "iv_logical_call_id demo_first = ''mcall''" "iv_revision demo_first = 1"
    by (simp_all add: demo_first_def demo_invocation_def)
  ultimately show ?thesis
    using law [of False demo_authority] current_writer_holds_lease [OF t(4)] by auto
qed

end
