(* ===== verification/Shape_Refusal.thy ===== *)
theory Shape_Refusal
  imports Monoid_Prelude
begin

text \<open>
  The shape refusal of \<open>core/json_ingress.py\<close> (\<open>_refuse_unportable_shape\<close>) on object graphs, in which
  containers may be shared and may contain themselves. A heap gives the children of the container
  with a given identity, in order; a child is a scalar or a reference to a container. The pass is
  the loop of the code over an explicit stack, with the containers on the current path and the
  heights of the finished ones.
\<close>

section \<open>The pass\<close>

datatype pyref = Leaf | Ref nat

type_synonym heap = "nat \<Rightarrow> pyref list"

record shape_state =
  sh_settled :: "nat \<Rightarrow> nat option"
  sh_on_path :: "nat list"
  sh_stack :: "(pyref \<times> bool) list"

definition tallest_allowed :: nat where
  "tallest_allowed = 64"

text \<open>The heights of the container children; a child without one is a \<open>KeyError\<close>.\<close>

fun child_heights :: "(nat \<Rightarrow> nat option) \<Rightarrow> pyref list \<Rightarrow> nat list res" where
  "child_heights settled [] = Inr []"
| "child_heights settled (Leaf # cs) = child_heights settled cs"
| "child_heights settled (Ref c # cs) = (case settled c of
      None \<Rightarrow> Inl (KeyError ''settled'')
    | Some k \<Rightarrow> res_bind (child_heights settled cs) (\<lambda>ks. Inr (k # ks)))"

definition leave :: "heap \<Rightarrow> nat \<Rightarrow> shape_state \<Rightarrow> shape_state res" where
  "leave h key s =
     res_bind (child_heights (sh_settled s) (h key)) (\<lambda>ks.
     let k = fold max ks 0 + 1 in
     if k > tallest_allowed then Inl (UnportableContainerError ''container nests deeper than 64 levels; flatten the payload or pass it as a workspace file'')
     else Inr (s\<lparr>sh_settled := (sh_settled s)(key \<mapsto> k), sh_on_path := removeAll key (sh_on_path s)\<rparr>))"

definition enter :: "heap \<Rightarrow> nat \<Rightarrow> shape_state \<Rightarrow> shape_state res" where
  "enter h key s =
     (if key \<in> set (sh_on_path s) then Inl (UnportableContainerError ''container is reachable from itself and cannot be written as portable JSON'')
      else if sh_settled s key \<noteq> None then Inr s
      else Inr (s\<lparr>sh_on_path := key # sh_on_path s,
                  sh_stack := rev (map (\<lambda>c. (c, False)) (h key)) @ (Ref key, True) # sh_stack s\<rparr>))"

text \<open>One round of the loop, on a non-empty stack.\<close>

definition shape_step :: "heap \<Rightarrow> shape_state \<Rightarrow> shape_state res" where
  "shape_step h s = (case sh_stack s of
      [] \<Rightarrow> Inr s
    | (node, leaving) # rest \<Rightarrow> let s' = s\<lparr>sh_stack := rest\<rparr> in
        (case node of
           Leaf \<Rightarrow> Inr s'
         | Ref key \<Rightarrow> if leaving then leave h key s' else enter h key s'))"

partial_function (option) shape_loop :: "heap \<Rightarrow> shape_state \<Rightarrow> unit res option" where
  "shape_loop h s = (if sh_stack s = [] then Some (Inr ())
     else case shape_step h s of Inl e \<Rightarrow> Some (Inl e) | Inr s' \<Rightarrow> shape_loop h s')"

definition refuse_unportable_shape :: "heap \<Rightarrow> pyref \<Rightarrow> unit res option" where
  "refuse_unportable_shape h x =
     shape_loop h \<lparr>sh_settled = (\<lambda>_. None), sh_on_path = [], sh_stack = [(x, False)]\<rparr>"

section \<open>Paths of containers\<close>

definition kid :: "heap \<Rightarrow> nat \<Rightarrow> nat \<Rightarrow> bool" where
  "kid h a b \<longleftrightarrow> Ref b \<in> set (h a)"

text \<open>A path through containers, each a child of the one before; from a container on, and how long
  such paths get.\<close>

fun linked :: "heap \<Rightarrow> nat list \<Rightarrow> bool" where
  "linked h (a # b # p) \<longleftrightarrow> kid h a b \<and> linked h (b # p)"
| "linked h _ \<longleftrightarrow> True"

definition height :: "heap \<Rightarrow> nat \<Rightarrow> nat \<Rightarrow> bool" where
  "height h a k \<longleftrightarrow> (\<forall>p. linked h (a # p) \<longrightarrow> length p < k) \<and> (\<exists>p. linked h (a # p) \<and> Suc (length p) = k)"

lemma height_pos: "height h a k \<Longrightarrow> 0 < k"
  by (auto simp: height_def)

lemma linked_append: "linked h (xs @ [x]) \<Longrightarrow> linked h (x # ys) \<Longrightarrow> linked h (xs @ x # ys)"
  by (induction h xs rule: linked.induct) auto

lemma linked_tail: "linked h (a # p) \<Longrightarrow> linked h p"
  by (cases p) auto

lemma linked_drop: "linked h (xs @ ys) \<Longrightarrow> linked h ys"
  by (induction xs) (auto dest: linked_tail)

lemma cycle_long:
  assumes "linked h (a # p @ [a])"
  shows "\<exists>q. linked h (a # q) \<and> n \<le> length q"
proof (induction n)
  case (Suc n)
  then obtain q where "linked h (a # q)" "n \<le> length q" by blast
  then have "linked h (a # p @ a # q)" using linked_append [of h "a # p" a q] assms by simp
  then show ?case using \<open>n \<le> length q\<close> by (intro exI [of _ "p @ a # q"]) simp
qed (intro exI [of _ "[]"], simp)

lemma child_heights_ok:
  assumes "\<forall>b. Ref b \<in> set cs \<longrightarrow> settled b \<noteq> None"
  shows "\<exists>ks. child_heights settled cs = Inr ks \<and> (\<forall>k. k \<in> set ks \<longleftrightarrow> (\<exists>b. Ref b \<in> set cs \<and> settled b = Some k))"
  using assms
proof (induction settled cs rule: child_heights.induct)
  case (3 settled c cs)
  then obtain k where k: "settled c = Some k" by auto
  with 3 obtain ks where "child_heights settled cs = Inr ks" "\<forall>k. k \<in> set ks \<longleftrightarrow> (\<exists>b. Ref b \<in> set cs \<and> settled b = Some k)" by auto
  with k show ?case by (intro exI [of _ "k # ks"]) auto
qed auto

lemma height_of_children:
  assumes "\<forall>b. kid h a b \<longrightarrow> (\<exists>k. settled b = Some k \<and> height h b k)"
    and "\<forall>k. k \<in> set ks \<longleftrightarrow> (\<exists>b. kid h a b \<and> settled b = Some k)"
  shows "height h a (fold max ks 0 + 1)"
proof -
  have m: "fold max ks 0 = Max (insert 0 (set ks))" using Max.set_eq_fold [of 0 ks] by simp
  have b: "k \<le> fold max ks 0" if "k \<in> set ks" for k using that by (simp add: m)
  have "length p < fold max ks 0 + 1" if "linked h (a # p)" for p
  proof (cases p)
    case (Cons x q)
    with that have "kid h a x" "linked h (x # q)" by auto
    with assms obtain k where "settled x = Some k" "height h x k" "k \<in> set ks" by blast
    then have "length q < k" "k \<le> fold max ks 0" using \<open>linked h (x # q)\<close> b by (auto simp: height_def)
    then show ?thesis using Cons by simp
  qed simp
  moreover have "\<exists>p. linked h (a # p) \<and> Suc (length p) = fold max ks 0 + 1"
  proof (cases "ks = []")
    case True
    then show ?thesis by (intro exI [of _ "[]"]) simp
  next
    case False
    have "fold max ks 0 \<in> insert 0 (set ks)" unfolding m by (rule Max_in) auto
    moreover have "0 < k" if "k \<in> set ks" for k using assms that height_pos by (metis option.inject)
    ultimately have "fold max ks 0 \<in> set ks" using False b by (cases ks) fastforce+
    with assms obtain x where "kid h a x" "height h x (fold max ks 0)" by (metis option.inject)
    then obtain q where "linked h (x # q)" "Suc (length q) = fold max ks 0" by (auto simp: height_def)
    with \<open>kid h a x\<close> show ?thesis by (intro exI [of _ "x # q"]) simp
  qed
  ultimately show ?thesis by (simp add: height_def)
qed

section \<open>The invariant\<close>

text \<open>The stack is a sequence of frames, one for each container on the path, with the pending children
  of the container above its leaving entry. \<open>cur\<close> is the container of the frame above. Every child
  of a container on the path is settled, pending or being explored.\<close>

fun framed :: "heap \<Rightarrow> (nat \<Rightarrow> nat option) \<Rightarrow> pyref \<Rightarrow> nat option \<Rightarrow> (pyref \<times> bool) list \<Rightarrow> nat list \<Rightarrow> bool" where
  "framed h st x cur stack [] \<longleftrightarrow> (\<forall>c. cur = Some c \<longrightarrow> x = Ref c) \<and>
     (stack = [(x, False)] \<and> cur = None \<or> stack = [] \<and> (\<forall>r. x = Ref r \<longrightarrow> st r \<noteq> None \<or> cur = Some r))"
| "framed h st x cur stack (a # path) \<longleftrightarrow> (\<forall>c. cur = Some c \<longrightarrow> kid h a c) \<and>
     (\<exists>pend rest. stack = pend @ (Ref a, True) # rest \<and> set pend \<subseteq> (\<lambda>c. (c, False)) ` set (h a) \<and>
        (\<forall>b. kid h a b \<longrightarrow> st b \<noteq> None \<or> (Ref b, False) \<in> set pend \<or> cur = Some b) \<and> framed h st x (Some a) rest path)"

definition shape_inv :: "heap \<Rightarrow> pyref \<Rightarrow> shape_state \<Rightarrow> bool" where
  "shape_inv h x s \<longleftrightarrow> framed h (sh_settled s) x None (sh_stack s) (sh_on_path s) \<and> distinct (sh_on_path s) \<and>
     (\<forall>a \<in> set (sh_on_path s). sh_settled s a = None) \<and>
     (\<forall>a k. sh_settled s a = Some k \<longrightarrow> height h a k \<and> k \<le> tallest_allowed)"

text \<open>Some path from the checked value is too long.\<close>

definition too_tall :: "heap \<Rightarrow> pyref \<Rightarrow> bool" where
  "too_tall h x \<longleftrightarrow> (\<exists>r p. x = Ref r \<and> linked h (r # p) \<and> tallest_allowed < length (r # p))"

lemma frame:
  assumes "\<forall>c. cur = Some c \<longrightarrow> kid h a c" and "set pend \<subseteq> (\<lambda>c. (c, False)) ` set (h a)"
    and "\<And>b. kid h a b \<Longrightarrow> st b \<noteq> None \<or> (Ref b, False) \<in> set pend \<or> cur = Some b" and "framed h st x (Some a) rest path"
  shows "framed h st x cur (pend @ (Ref a, True) # rest) (a # path)"
  using assms by (simp only: framed.simps) blast

lemma framed_mono:
  assumes "\<And>a. st a \<noteq> None \<Longrightarrow> st' a \<noteq> None"
  shows "framed h st x cur stack path \<Longrightarrow> framed h st' x cur stack path"
proof (induction path arbitrary: cur stack)
  case Nil
  with assms show ?case by auto
next
  case (Cons a path)
  from Cons.prems obtain pend rest where f: "stack = pend @ (Ref a, True) # rest" "set pend \<subseteq> (\<lambda>c. (c, False)) ` set (h a)"
    "\<forall>b. kid h a b \<longrightarrow> st b \<noteq> None \<or> (Ref b, False) \<in> set pend \<or> cur = Some b" "framed h st x (Some a) rest path"
    "\<forall>c. cur = Some c \<longrightarrow> kid h a c" by (simp only: framed.simps) blast
  show ?case unfolding f(1) by (rule frame [OF f(5,2) _ Cons.IH [OF f(4)]]) (use f(3) assms in blast)
qed

lemma framed_settle:
  assumes "framed h st x (Some key) stack path"
  shows "framed h (st(key \<mapsto> k)) x None stack path"
proof (cases path)
  case Nil
  with assms show ?thesis by auto
next
  case (Cons a p)
  with assms obtain pend rest where f: "stack = pend @ (Ref a, True) # rest" "set pend \<subseteq> (\<lambda>c. (c, False)) ` set (h a)"
    "\<forall>b. kid h a b \<longrightarrow> st b \<noteq> None \<or> (Ref b, False) \<in> set pend \<or> Some key = Some b" "framed h st x (Some a) rest p" by auto
  have "framed h (st(key \<mapsto> k)) x (Some a) rest p" by (rule framed_mono [OF _ f(4)]) auto
  then show ?thesis unfolding f(1) Cons by (intro frame) (use f(2,3) in auto)
qed

lemma framed_linked:
  "framed h st x cur stack path \<Longrightarrow> linked h (rev path @ (case cur of None \<Rightarrow> [] | Some c \<Rightarrow> [c])) \<and>
     (\<forall>r ys. rev path @ (case cur of None \<Rightarrow> [] | Some c \<Rightarrow> [c]) = r # ys \<longrightarrow> x = Ref r)"
proof (induction path arbitrary: cur stack)
  case Nil
  then show ?case by (auto split: option.split)
next
  case (Cons a path)
  then obtain rest where f: "framed h st x (Some a) rest path" and c: "\<forall>c. cur = Some c \<longrightarrow> kid h a c" by auto
  note IH = Cons.IH [OF f, simplified]
  show ?case
  proof (cases cur)
    case None
    with IH show ?thesis by simp
  next
    case (Some c)
    have "linked h (a # [c])" using Some c by simp
    then have "linked h (rev path @ a # [c])" using linked_append IH by blast
    with IH Some show ?thesis by (cases "rev path") auto
  qed
qed

text \<open>A long path from a container on the path, or from a child of its top, is one from the value.\<close>

lemma long_from_path:
  assumes "framed h st x (Some key) stack path" and "linked h (key # q)" and "tallest_allowed \<le> length q"
  shows "too_tall h x"
proof -
  have l: "linked h (rev path @ [key])" and x: "\<forall>r ys. rev path @ [key] = r # ys \<longrightarrow> x = Ref r"
    using framed_linked [OF assms(1)] by simp_all
  obtain r ys where r: "rev path @ key # q = r # ys" by (cases "rev path") auto
  have "linked h (r # ys)" using linked_append [OF l assms(2)] r by simp
  moreover have "x = Ref r" using x r by (cases "rev path") auto
  moreover have "tallest_allowed < length (r # ys)" unfolding r [symmetric] using assms(3) by simp
  ultimately show ?thesis unfolding too_tall_def by blast
qed

lemma leave_inv:
  assumes inv: "shape_inv h x s" and st: "sh_stack s = (Ref key, True) # rest"
  shows "case leave h key (s\<lparr>sh_stack := rest\<rparr>) of
      Inr s' \<Rightarrow> shape_inv h x s' \<and> sh_stack s' = rest \<and> set (sh_on_path s') \<union> dom (sh_settled s') = set (sh_on_path s) \<union> dom (sh_settled s)
    | Inl e \<Rightarrow> too_tall h x \<and> (\<exists>m. e = UnportableContainerError m)"
proof -
  have f: "framed h (sh_settled s) x None ((Ref key, True) # rest) (sh_on_path s)" using inv st by (simp add: shape_inv_def)
  then obtain a p where p: "sh_on_path s = a # p" by (cases "sh_on_path s") auto
  with f obtain pend r' where "(Ref key, True) # rest = pend @ (Ref a, True) # r'" "set pend \<subseteq> (\<lambda>c. (c, False)) ` set (h a)"
    and cov: "\<forall>b. kid h a b \<longrightarrow> sh_settled s b \<noteq> None \<or> (Ref b, False) \<in> set pend" and fr: "framed h (sh_settled s) x (Some a) r' p" by auto
  then have [simp]: "pend = []" "a = key" "r' = rest" by (cases pend; auto)+
  from cov have cov: "\<forall>b. kid h key b \<longrightarrow> sh_settled s b \<noteq> None" by simp
  from child_heights_ok [of "h key" "sh_settled s"] cov obtain ks where
    ks: "child_heights (sh_settled s) (h key) = Inr ks" "\<forall>k. k \<in> set ks \<longleftrightarrow> (\<exists>b. kid h key b \<and> sh_settled s b = Some k)"
    by (auto simp: kid_def)
  let ?k = "fold max ks 0 + 1"
  have k: "height h key ?k" using cov inv ks(2) by (intro height_of_children) (auto simp: shape_inv_def)
  show ?thesis
  proof (cases "?k > tallest_allowed")
    case True
    from k obtain q where "linked h (key # q)" "Suc (length q) = ?k" by (auto simp: height_def)
    with True long_from_path [OF fr, of q] show ?thesis by (simp add: leave_def ks Let_def)
  next
    case False
    have d: "key \<notin> set p" "removeAll key p = p" using inv p by (auto simp: shape_inv_def)
    have "framed h ((sh_settled s)(key \<mapsto> ?k)) x None rest p" using framed_settle fr by simp
    with inv p d False k show ?thesis by (auto simp: leave_def ks Let_def shape_inv_def)
  qed
qed

lemma enter_inv:
  assumes inv: "shape_inv h x s" and st: "sh_stack s = (Ref key, False) # rest"
  shows "case enter h key (s\<lparr>sh_stack := rest\<rparr>) of
      Inr s' \<Rightarrow> shape_inv h x s' \<and> sh_settled s' = sh_settled s \<and>
        (s' = s\<lparr>sh_stack := rest\<rparr> \<or> sh_stack s' = rev (map (\<lambda>c. (c, False)) (h key)) @ (Ref key, True) # rest \<and>
           sh_on_path s' = key # sh_on_path s \<and> key \<notin> set (sh_on_path s) \<and> sh_settled s key = None)
    | Inl e \<Rightarrow> too_tall h x \<and> (\<exists>m. e = UnportableContainerError m)"
proof (cases "sh_on_path s")
  case Nil
  with inv st show ?thesis by (auto simp: enter_def shape_inv_def kid_def intro!: frame [where pend = "rev (map (\<lambda>c. (c, False)) (h key))"])
next
  case (Cons a p)
  have f: "framed h (sh_settled s) x None ((Ref key, False) # rest) (a # p)" using inv st Cons by (simp add: shape_inv_def)
  then obtain pend r where eq: "(Ref key, False) # rest = pend @ (Ref a, True) # r" and sub: "set pend \<subseteq> (\<lambda>c. (c, False)) ` set (h a)"
    and cov: "\<forall>b. kid h a b \<longrightarrow> sh_settled s b \<noteq> None \<or> (Ref b, False) \<in> set pend" and fr: "framed h (sh_settled s) x (Some a) r p" by auto
  then obtain pend' where pend: "pend = (Ref key, False) # pend'" and rest: "rest = pend' @ (Ref a, True) # r" by (cases pend) auto
  have kid: "kid h a key" using sub by (auto simp: pend kid_def)
  have top: "framed h (sh_settled s) x (Some key) rest (a # p)"
    unfolding rest by (rule frame [OF _ _ _ fr]) (use kid sub cov in \<open>auto simp: pend\<close>)
  consider "key \<in> set (a # p)" | "key \<notin> set (a # p)" "sh_settled s key \<noteq> None" | "key \<notin> set (a # p)" "sh_settled s key = None" by blast
  then show ?thesis
  proof cases
    case 1
    then obtain ys zs where p: "a # p = ys @ key # zs" by (meson split_list)
    have "linked h (rev (a # p) @ [key])" using framed_linked [OF top] by simp
    then have "linked h (rev zs @ key # rev ys @ [key])" unfolding p by simp
    then have "linked h (key # rev ys @ [key])" by (rule linked_drop)
    from cycle_long [OF this, of tallest_allowed] long_from_path [OF top] have "too_tall h x" by blast
    with 1 Cons show ?thesis by (simp add: enter_def)
  next
    case 2
    have "framed h (sh_settled s) x None rest (a # p)"
      unfolding rest by (rule frame [OF _ _ _ fr]) (use 2 sub cov in \<open>auto simp: pend\<close>)
    with 2 inv Cons show ?thesis by (simp add: enter_def shape_inv_def)
  next
    case 3
    have "framed h (sh_settled s) x None (rev (map (\<lambda>c. (c, False)) (h key)) @ (Ref key, True) # rest) (key # a # p)"
      by (rule frame [OF _ _ _ top]) (auto simp: kid_def)
    with 3 inv Cons show ?thesis by (auto simp: enter_def shape_inv_def simp del: framed.simps)
  qed
qed

section \<open>The pass decides\<close>

lemma leaf_inv:
  assumes inv: "shape_inv h x s" and st: "sh_stack s = (Leaf, l) # rest"
  shows "shape_inv h x (s\<lparr>sh_stack := rest\<rparr>)"
proof (cases "sh_on_path s")
  case Nil
  with inv st show ?thesis by (auto simp: shape_inv_def)
next
  case (Cons a p)
  have f: "framed h (sh_settled s) x None ((Leaf, l) # rest) (a # p)" using inv st Cons by (simp add: shape_inv_def)
  then obtain pend r where eq: "(Leaf, l) # rest = pend @ (Ref a, True) # r" and sub: "set pend \<subseteq> (\<lambda>c. (c, False)) ` set (h a)"
    and cov: "\<forall>b. kid h a b \<longrightarrow> sh_settled s b \<noteq> None \<or> (Ref b, False) \<in> set pend" and fr: "framed h (sh_settled s) x (Some a) r p" by auto
  then obtain pend' where pend: "pend = (Leaf, l) # pend'" and rest: "rest = pend' @ (Ref a, True) # r" by (cases pend) auto
  have "framed h (sh_settled s) x None rest (a # p)"
    unfolding rest by (rule frame [OF _ _ _ fr]) (use sub cov in \<open>auto simp: pend\<close>)
  with inv Cons show ?thesis by (simp add: shape_inv_def)
qed

text \<open>The containers in sight: those a finite set of containers closed under children holds. A round
  enters a new one of them or shortens the stack.\<close>

definition in_sight :: "nat set \<Rightarrow> shape_state \<Rightarrow> bool" where
  "in_sight R s \<longleftrightarrow> (\<forall>a l. (Ref a, l) \<in> set (sh_stack s) \<longrightarrow> a \<in> R)"

definition unvisited :: "nat set \<Rightarrow> shape_state \<Rightarrow> nat set" where
  "unvisited R s = R - (set (sh_on_path s) \<union> dom (sh_settled s))"

lemma step_inv:
  assumes inv: "shape_inv h x s" and sight: "in_sight R s" and R: "finite R" "\<And>a b. a \<in> R \<Longrightarrow> kid h a b \<Longrightarrow> b \<in> R"
    and ne: "sh_stack s \<noteq> []"
  shows "case shape_step h s of
      Inr s' \<Rightarrow> shape_inv h x s' \<and> in_sight R s' \<and>
        (card (unvisited R s') < card (unvisited R s) \<or>
         card (unvisited R s') = card (unvisited R s) \<and> length (sh_stack s') < length (sh_stack s))
    | Inl e \<Rightarrow> too_tall h x \<and> (\<exists>m. e = UnportableContainerError m)"
proof -
  obtain node l rest where st: "sh_stack s = (node, l) # rest" using ne by (cases "sh_stack s") auto
  show ?thesis
  proof (cases node)
    case Leaf
    with leaf_inv [OF inv st [unfolded Leaf]] sight st show ?thesis by (auto simp: shape_step_def in_sight_def unvisited_def)
  next
    case (Ref key)
    have key: "key \<in> R" using sight st Ref by (auto simp: in_sight_def)
    show ?thesis
    proof (cases l)
      case True
      then have "sh_stack s = (Ref key, True) # rest" using st Ref by simp
      from leave_inv [OF inv this] sight st Ref True show ?thesis
        by (auto simp: shape_step_def in_sight_def unvisited_def split: sum.splits)
    next
      case False
      then have "sh_stack s = (Ref key, False) # rest" using st Ref by simp
      note E = enter_inv [OF inv this]
      show ?thesis
      proof (cases "enter h key (s\<lparr>sh_stack := rest\<rparr>)")
        case (Inl e)
        with E st Ref False show ?thesis by (simp add: shape_step_def)
      next
        case (Inr s')
        from E Inr consider "s' = s\<lparr>sh_stack := rest\<rparr>"
          | "sh_stack s' = rev (map (\<lambda>c. (c, False)) (h key)) @ (Ref key, True) # rest" "sh_on_path s' = key # sh_on_path s"
            "key \<notin> set (sh_on_path s)" "sh_settled s key = None" by auto
        then show ?thesis
        proof cases
          case 1
          with E Inr st Ref False sight show ?thesis by (auto simp: shape_step_def in_sight_def unvisited_def)
        next
          case 2
          have "unvisited R s' = unvisited R s - {key}" "key \<in> unvisited R s"
            using 2 E Inr key by (auto simp: unvisited_def)
          then have "card (unvisited R s') < card (unvisited R s)" using R(1) by (metis card_Diff1_less finite_Diff unvisited_def)
          moreover have "in_sight R s'" using 2 R(2) [OF key] sight st key by (auto simp: in_sight_def kid_def)
          ultimately show ?thesis using E Inr st Ref False by (simp add: shape_step_def)
        qed
      qed
    qed
  qed
qed

lemma shape_loop_decides:
  assumes "finite R" and "\<And>a b. a \<in> R \<Longrightarrow> kid h a b \<Longrightarrow> b \<in> R"
  shows "shape_inv h x s \<Longrightarrow> in_sight R s \<Longrightarrow> \<exists>r. shape_loop h s = Some r \<and>
    (case r of Inr _ \<Rightarrow> \<not> too_tall h x | Inl e \<Rightarrow> too_tall h x \<and> (\<exists>m. e = UnportableContainerError m))"
proof (induction s rule: wf_induct_rule [OF wf_measures [of "[\<lambda>s. card (unvisited R s), \<lambda>s. length (sh_stack s)]"]])
  case (1 s)
  show ?case
  proof (cases "sh_stack s = []")
    case True
    then have f: "framed h (sh_settled s) x None [] (sh_on_path s)" using 1(2) by (simp add: shape_inv_def)
    then have "\<forall>r. x = Ref r \<longrightarrow> sh_settled s r \<noteq> None" by (cases "sh_on_path s") auto
    then have "\<not> too_tall h x" using 1(2) by (fastforce simp: too_tall_def shape_inv_def height_def)
    then show ?thesis using True by (subst shape_loop.simps) simp
  next
    case False
    note S = step_inv [OF 1(2,3) assms False]
    show ?thesis
    proof (cases "shape_step h s")
      case (Inl e)
      with S False show ?thesis by (subst shape_loop.simps) simp
    next
      case (Inr s')
      with S have "(s', s) \<in> measures [\<lambda>s. card (unvisited R s), \<lambda>s. length (sh_stack s)]" by auto
      from 1(1) [OF this] S Inr have "\<exists>r. shape_loop h s' = Some r \<and>
        (case r of Inr _ \<Rightarrow> \<not> too_tall h x | Inl e \<Rightarrow> too_tall h x \<and> (\<exists>m. e = UnportableContainerError m))" by simp
      then show ?thesis using Inr False by (subst shape_loop.simps) simp
    qed
  qed
qed

lemma reach_linked: "(kid h)\<^sup>*\<^sup>* a b \<Longrightarrow> \<exists>p. linked h (p @ [b]) \<and> hd (p @ [b]) = a"
proof (induction rule: rtranclp_induct)
  case base
  show ?case by (intro exI [of _ "[]"]) simp
next
  case (step b c)
  then obtain p where p: "linked h (p @ [b])" "hd (p @ [b]) = a" by blast
  have "linked h (p @ b # [c])" by (rule linked_append [OF p(1)]) (simp add: step)
  then show ?case using p(2) by (intro exI [of _ "p @ [b]"]) (cases p, auto)
qed

lemma reachable_cycle:
  assumes "x = Ref a" and "(kid h)\<^sup>*\<^sup>* a b" and "(kid h)\<^sup>+\<^sup>+ b b"
  shows "too_tall h x"
proof -
  from assms(3) obtain c where c: "kid h b c" "(kid h)\<^sup>*\<^sup>* c b" by (metis tranclpD)
  from reach_linked [OF c(2)] obtain q where q: "linked h (q @ [b])" "hd (q @ [b]) = c" by blast
  then have "linked h (b # q @ [b])" using c(1) by (cases q) auto
  from cycle_long [OF this, of tallest_allowed] obtain r where r: "linked h (b # r)" "tallest_allowed \<le> length r" by blast
  from reach_linked [OF assms(2)] obtain p where p: "linked h (p @ [b])" "hd (p @ [b]) = a" by blast
  have "linked h (p @ b # r)" by (rule linked_append [OF p(1) r(1)])
  moreover have "p @ b # r = a # tl (p @ b # r)" using p(2) by (cases p) auto
  ultimately show ?thesis unfolding too_tall_def using assms(1) r(2)
    by (intro exI [of _ a] exI [of _ "tl (p @ b # r)"]) (auto simp del: tl_append)
qed

text \<open>C22. The shape pass always ends, and it refuses exactly the shapes that are too tall. On every
  object graph in which finitely many containers are reachable, with any sharing and any cycles,
  the loop terminates; it raises \<open>UnportableContainerError\<close> when some path through containers from
  the checked value is longer than 64, as every graph with a reachable cycle has, and returns
  otherwise; it never looks up a height that has not been settled.\<close>

theorem shape_pass_terminates_and_decides:
  assumes "finite {b. \<exists>a. x = Ref a \<and> (kid h)\<^sup>*\<^sup>* a b}"
  shows "\<exists>r. refuse_unportable_shape h x = Some r \<and>
    (r = Inr () \<longleftrightarrow> (\<forall>a p. x = Ref a \<longrightarrow> linked h (a # p) \<longrightarrow> length (a # p) \<le> 64)) \<and>
    (r \<noteq> Inr () \<longrightarrow> (\<exists>m. r = Inl (UnportableContainerError m))) \<and>
    ((\<exists>a b. x = Ref a \<and> (kid h)\<^sup>*\<^sup>* a b \<and> (kid h)\<^sup>+\<^sup>+ b b) \<longrightarrow> r \<noteq> Inr ())"
proof -
  let ?R = "{b. \<exists>a. x = Ref a \<and> (kid h)\<^sup>*\<^sup>* a b}"
  let ?s = "\<lparr>sh_settled = (\<lambda>_. None), sh_on_path = [], sh_stack = [(x, False)]\<rparr>"
  have "shape_inv h x ?s" "in_sight ?R ?s" by (auto simp: shape_inv_def in_sight_def)
  moreover have "b \<in> ?R" if "a \<in> ?R" "kid h a b" for a b using that by (auto intro: rtranclp.rtrancl_into_rtrancl)
  ultimately obtain r where r: "refuse_unportable_shape h x = Some r"
    and d: "case r of Inr _ \<Rightarrow> \<not> too_tall h x | Inl e \<Rightarrow> too_tall h x \<and> (\<exists>m. e = UnportableContainerError m)"
    using shape_loop_decides [OF assms, of h x ?s] unfolding refuse_unportable_shape_def by blast
  have t: "too_tall h x \<longleftrightarrow> \<not> (\<forall>a p. x = Ref a \<longrightarrow> linked h (a # p) \<longrightarrow> length (a # p) \<le> 64)"
    by (auto simp: too_tall_def tallest_allowed_def not_le)
  have "r = Inr () \<longleftrightarrow> \<not> too_tall h x" using d by (cases r) auto
  moreover have "too_tall h x" if "x = Ref a" "(kid h)\<^sup>*\<^sup>* a b" "(kid h)\<^sup>+\<^sup>+ b b" for a b
    using that reachable_cycle by blast
  ultimately show ?thesis using r d t by (cases r) auto
qed

theorem shape_pass_terminates_and_decides_witness:
  "(\<exists>m. refuse_unportable_shape (\<lambda>_. [Leaf, Ref 0]) (Ref 0) = Some (Inl (UnportableContainerError m))) \<and>
   refuse_unportable_shape (\<lambda>a. if a = 0 then [Ref 1, Ref 1] else []) (Ref 0) = Some (Inr ())"
proof
  let ?h = "\<lambda>_ :: nat. [Leaf, Ref 0]" and ?g = "\<lambda>a :: nat. if a = 0 then [Ref 1, Ref 1] else []"
  have kid: "kid ?h a b \<longleftrightarrow> b = 0" for a b by (auto simp: kid_def)
  have "finite {b. \<exists>a. Ref 0 = Ref a \<and> (kid ?h)\<^sup>*\<^sup>* a b}"
    by (rule finite_subset [of _ "{0}"]) (auto elim: rtranclp.cases simp: kid)
  moreover have "(kid ?h)\<^sup>+\<^sup>+ 0 0" by (rule tranclp.r_into_trancl) (simp add: kid)
  ultimately show "\<exists>m. refuse_unportable_shape ?h (Ref 0) = Some (Inl (UnportableContainerError m))"
    using shape_pass_terminates_and_decides [of "Ref 0" ?h] by blast
  have kid: "kid ?g a b \<longleftrightarrow> a = 0 \<and> b = 1" for a b by (auto simp: kid_def)
  have "length (a # p) \<le> 64" if "linked ?g (a # p)" for a p
    using that by (cases p; cases "tl p") (auto simp: kid)
  moreover have "finite {b. \<exists>a. Ref 0 = Ref a \<and> (kid ?g)\<^sup>*\<^sup>* a b}"
    by (rule finite_subset [of _ "{0, 1}"]) (auto elim: rtranclp.cases simp: kid)
  ultimately show "refuse_unportable_shape ?g (Ref 0) = Some (Inr ())"
    using shape_pass_terminates_and_decides [of "Ref 0" ?g] by blast
qed

end
