(* ===== verification/Checkpoint_History.thy ===== *)
theory Checkpoint_History
  imports Journal_History
begin

text \<open>
  Checkpoints over the histories of the fenced run journal: every stored checkpoint can be read back,
  the head of a run is its highest checkpoint, and an acknowledged checkpoint stays the latest one or
  is followed by a later one, whatever other writers do.
\<close>

section \<open>Stored checkpoints\<close>

definition checkpoint_row_ok :: "journal_env \<Rightarrow> string \<Rightarrow> int \<Rightarrow> stored_row \<Rightarrow> bool" where
  "checkpoint_row_ok env run n r \<longleftrightarrow> 0 \<le> n \<and>
     (\<exists>c. is_checkpoint c \<and> ck_run_id c = PStr run \<and> ck_seq c = PInt n \<and>
        checkpoint_payload_for_write (je_va env) (je_cfg env) (je_sha env) c = Inr (sr_payload r)) \<and>
     checked_stored_digest env (sr_payload r) (sr_blobs r) (sr_digest r) = Some (sr_digest r) \<and>
     sr_typed r = [PStr CHECKPOINT_SCHEMA_VERSION]"

definition checkpoints_ok :: "journal_env \<Rightarrow> journal \<Rightarrow> bool" where
  "checkpoints_ok env j \<longleftrightarrow>
     (\<forall>run n r. map_of (jn_checkpoints j) (run, n) = Some r \<longrightarrow> checkpoint_row_ok env run n r) \<and>
     (\<forall>run n. map_of (jn_checkpoints j) (run, n) \<noteq> None \<longrightarrow> (\<exists>h. jn_checkpoint_head j run = Some h \<and> n \<le> h)) \<and>
     (\<forall>run h. jn_checkpoint_head j run = Some h \<longrightarrow> map_of (jn_checkpoints j) (run, h) \<noteq> None)"

lemma check_each_ok: "check_each f xs = Inr () \<Longrightarrow> x \<in> set xs \<Longrightarrow> f x = Inr ()"
  by (induction xs) (auto simp: res_bind_eq_Inr)

lemma norm_str: "norm_val False v = PStr s \<Longrightarrow> v = PStr s"
  by (cases v) simp_all

text \<open>What the writer accepts names its run and has a sequence number from zero on.\<close>

lemma written_coordinates:
  assumes "is_checkpoint c" and "ck_seq c = PInt n" and "checkpoint_payload_for_write va cfg sha c = Inr p"
  shows "\<exists>run. ck_run_id c = PStr run" and "0 \<le> n"
proof -
  note p = written_decodes(1) [OF assms(1,3)]
  have v: "validate_field_types p = Inr ()"
    using assms(3) unfolding checkpoint_written [OF assms(1)] p
    by (auto simp: res_bind_eq_Inr validate_checkpoint_payload_def split: if_splits)
  then have r: "require_nonempty_string (dget p ''run_id'') ''run_id'' = Inr ()"
    and s: "check_each (\<lambda>k. when_not_none p k (\<lambda>v. require_nonnegative_int v k)) CHECKPOINT_NONNEGATIVE_INT_FIELDS = Inr ()"
    by (auto simp: validate_field_types_def res_bind_eq_Inr)
  from r obtain run where "dget p ''run_id'' = PStr run" by (auto simp: require_nonempty_string_def split: pyval.splits)
  then have "norm_val False (dget c ''run_id'') = PStr run" by (simp add: p written_get)
  then show "\<exists>run. ck_run_id c = PStr run" unfolding ck_run_id_def using norm_str by blast
  have q: "dget p ''seq'' = PInt n" using assms(2) by (simp add: p written_get ck_seq_def)
  then have "map_of p ''seq'' = Some (PInt n)" by (auto simp: dget_def split: option.splits)
  moreover have "when_not_none p ''seq'' (\<lambda>v. require_nonnegative_int v ''seq'') = Inr ()"
    using check_each_ok [OF s, of "''seq''"] by (simp add: CHECKPOINT_NONNEGATIVE_INT_FIELDS_def)
  ultimately show "0 \<le> n" by (simp add: when_not_none_def when_present_def require_nonnegative_int_def)
qed

lemma bound_row:
  assumes "env_ok env" and "\<forall>(k, v) \<in> set blobs. je_bsha env v = k"
  shows "checked_stored_digest env p (blob_projection env blobs) (record_digest env p blobs) = Some (record_digest env p blobs)"
proof -
  have "recorded_digest (record_digest env p blobs)" using assms(1) by (simp add: env_ok_def record_digest_def bound_digest_def)
  moreover have "stored_projection_is_valid (blob_projection env blobs)"
    using assms by (auto simp: stored_projection_is_valid_def blob_projection_def list_all_iff env_ok_def)
  ultimately show ?thesis by (simp add: checked_stored_digest_def record_digest_def)
qed

lemma new_checkpoint_ok:
  assumes "env_ok env" and "checkpoints_ok env j" and "real_checkpoint env c" and "ci_payload c = Inr payload"
    and "\<forall>(k, v) \<in> set blobs. je_bsha env v = k" and "map_of (jn_checkpoints j) (ci_run_id c, ci_seq c) = None"
  shows "checkpoints_ok env (j\<lparr>jn_checkpoints := ((ci_run_id c, ci_seq c), checkpoint_row env payload (record_digest env payload blobs) blobs)
            # jn_checkpoints j, jn_checkpoint_head := advance_head (ci_run_id c) (ci_seq c) (jn_checkpoint_head j)\<rparr>)"
proof -
  let ?run = "ci_run_id c" and ?n = "ci_seq c" and ?r = "checkpoint_row env payload (record_digest env payload blobs) blobs"
  from assms(3) obtain k n where k: "is_checkpoint k" "ck_seq k = PInt n" "c = checkpoint_input_of env k"
    by (auto simp: real_checkpoint_def)
  then have w: "checkpoint_payload_for_write (je_va env) (je_cfg env) (je_sha env) k = Inr payload"
    using assms(4) by (simp add: checkpoint_input_of_def)
  from written_coordinates [OF k(1,2) w] obtain run where run: "ck_run_id k = PStr run" and pos: "0 \<le> n" by blast
  have c: "?run = run" "?n = n" using k run by (simp_all add: checkpoint_input_of_def)
  have s: "dget payload ''schema_version'' = PStr CHECKPOINT_SCHEMA_VERSION"
    using written_decodes(1) [OF k(1) w] by (simp add: written_get)
  have row: "checkpoint_row_ok env ?run ?n ?r"
    unfolding checkpoint_row_ok_def c using pos k(1,2) run w s bound_row [OF assms(1,5)]
    by (auto simp: checkpoint_row_def)
  note ok = assms(2) [unfolded checkpoints_ok_def]
  have h: "jn_checkpoint_head j run = Some h \<Longrightarrow> map_of (jn_checkpoints j) (run, h) \<noteq> None"
    "map_of (jn_checkpoints j) (run, n) \<noteq> None \<Longrightarrow> \<exists>h. jn_checkpoint_head j run = Some h \<and> n \<le> h" for run h n using ok by blast+
  have cover: "\<exists>h. advance_head ?run ?n (jn_checkpoint_head j) run' = Some h \<and> m \<le> h"
    if "map_of (((?run, ?n), ?r) # jn_checkpoints j) (run', m) \<noteq> None" for run' m
    using that h(2) [of run' m] by (auto simp: advance_head_def split: if_splits option.splits)
  have head: "map_of (((?run, ?n), ?r) # jn_checkpoints j) (run', h) \<noteq> None"
    if "advance_head ?run ?n (jn_checkpoint_head j) run' = Some h" for run' h
    using that [unfolded advance_head_def] h(1) [of run' h] by (auto split: if_splits option.splits)
  have rows: "checkpoint_row_ok env run' m r" if "map_of (((?run, ?n), ?r) # jn_checkpoints j) (run', m) = Some r" for run' m r
    using that row ok by (auto split: if_splits)
  show ?thesis unfolding checkpoints_ok_def using cover head rows by (simp del: map_of.simps)
qed

lemma checkpoints_ok_cong:
  "jn_checkpoints j' = jn_checkpoints j \<Longrightarrow> jn_checkpoint_head j' = jn_checkpoint_head j \<Longrightarrow> checkpoints_ok env j' = checkpoints_ok env j"
  by (simp add: checkpoints_ok_def)

section \<open>Histories\<close>

text \<open>Checkpoints stay readable, and none is removed.\<close>

definition checkpoints_kept :: "journal_env \<Rightarrow> journal \<Rightarrow> journal \<Rightarrow> bool" where
  "checkpoints_kept env j j' \<longleftrightarrow> (checkpoints_ok env j \<longrightarrow> checkpoints_ok env j') \<and>
     (\<forall>k r. map_of (jn_checkpoints j) k = Some r \<longrightarrow> map_of (jn_checkpoints j') k = Some r)"

lemma checkpoints_kept_same:
  "jn_checkpoints j' = jn_checkpoints j \<Longrightarrow> jn_checkpoint_head j' = jn_checkpoint_head j \<Longrightarrow> checkpoints_kept env j j'"
  by (simp add: checkpoints_kept_def checkpoints_ok_def)

definition checkpoint_tx :: "journal_env \<Rightarrow> attempt \<Rightarrow> bool" where
  "checkpoint_tx env tx \<longleftrightarrow> (\<forall>x. checkpoints_kept env x (tx_later tx x))"

interpretation cr: journal_relation "checkpoints_kept env" "checkpoint_tx env" for env
proof
  show "checkpoints_kept env j j" for j by (simp add: checkpoints_kept_def)
  show "checkpoints_kept env a c" if "checkpoints_kept env a b" "checkpoints_kept env b c" for a b c
    using that unfolding checkpoints_kept_def by presburger
  show "checkpoints_kept env j (others tx j)" for tx j by (rule checkpoints_kept_same) (simp_all add: others_def)
  show "checkpoints_kept env j (tx_later tx j)" if "checkpoint_tx env tx" for tx j using that by (simp add: checkpoint_tx_def)
qed

lemma locked_checkpoint_kept:
  assumes "env_ok env" and "real_checkpoint env c" and "commit_checkpoint_locked env c blobs j j1 = Inr (Some (j', r, d))"
  shows "checkpoints_kept env j1 j'"
  using checkpoint_effect [OF assms(3)]
proof (elim disjE exE conjE)
  assume "j' = j1"
  then show ?thesis by (simp add: checkpoints_kept_same)
next
  fix payload j2
  assume p: "ci_payload c = Inr payload" and d: "d = record_digest env payload blobs"
    and sha: "\<forall>(k, v) \<in> set blobs. je_bsha env v = k" and b: "persist_blobs (ci_run_id c) blobs j1 = Some j2"
    and n: "map_of (jn_checkpoints j2) (ci_run_id c, ci_seq c) = None"
    and j': "j' = j2\<lparr>jn_checkpoints := ((ci_run_id c, ci_seq c), checkpoint_row env payload d blobs) # jn_checkpoints j2,
               jn_checkpoint_head := advance_head (ci_run_id c) (ci_seq c) (jn_checkpoint_head j2)\<rparr>"
  from persist_blobs_effect [OF b] obtain x y where "j2 = j1\<lparr>jn_blobs := x, jn_run_blobs := y\<rparr>" .
  then have e: "jn_checkpoints j2 = jn_checkpoints j1" "jn_checkpoint_head j2 = jn_checkpoint_head j1" by simp_all
  have "checkpoints_ok env j'" if "checkpoints_ok env j1"
    unfolding j' d using new_checkpoint_ok [OF assms(1) _ assms(2) p sha n] that checkpoints_ok_cong [OF e] by blast
  moreover have "map_of (jn_checkpoints j') k = Some x" if "map_of (jn_checkpoints j1) k = Some x" for k x
    using that n by (auto simp: j' e)
  ultimately show ?thesis by (simp add: checkpoints_kept_def)
qed

lemma perform_checkpoints_kept:
  assumes "env_ok env" and "submits env m" and "concurrent_ok env tx" and "checkpoint_tx env tx"
  shows "checkpoints_kept env j (fst (perform env ready tx t m j))"
proof (cases m)
  case (CommitInvocation i blobs stage)
  have "checkpoints_kept env (others tx j) j'"
    if "commit_invocation_locked env i blobs stage j (others tx j) = Inr (Some (j', r, d))" for j' r d
    using locked_invocation_calls_evolve [OF assms(1) _ assms(3) that] assms(2) CommitInvocation
    by (intro checkpoints_kept_same) (simp_all add: submits_def public_unchanged_def)
  then show ?thesis using cr.mutation_rel [OF assms(4)] by (simp add: CommitInvocation commit_invocation_def)
next
  case (CommitEvidence i)
  have "checkpoints_kept env x j'" if "commit_evidence_locked env i False x = Inr (Some (j', r, d))" for x j' r d
    using evidence_effect [OF that] by (intro checkpoints_kept_same) (auto simp: set_evidence_def)
  then show ?thesis using cr.mutation_rel [OF assms(4)] by (simp add: CommitEvidence commit_model_evidence_def)
next
  case (AppendEvent e)
  have "checkpoints_kept env x j'" if "commit_event_locked env e x = Inr (Some (j', r, d))" for x j' r d
    using event_effect [OF that] by (intro checkpoints_kept_same) auto
  then show ?thesis using cr.mutation_rel [OF assms(4)] by (simp add: AppendEvent append_event_def)
next
  case (SettleTerminal x)
  have "checkpoints_kept env y j'" if "commit_terminal_locked env x y = Inr (Some (j', r, d))" for y j' r d
    using terminal_effect [OF that] by (intro checkpoints_kept_same) auto
  then show ?thesis using cr.mutation_rel [OF assms(4)] by (simp add: SettleTerminal settle_terminal_def)
next
  case (CommitCheckpoint c blobs)
  have "real_checkpoint env c" using assms(2) by (simp add: CommitCheckpoint submits_def)
  then show ?thesis using cr.mutation_rel [OF assms(4)] locked_checkpoint_kept [OF assms(1)]
    by (simp add: CommitCheckpoint commit_checkpoint_def)
qed

lemma run_checkpoints_kept:
  assumes "env_ok env" and "journal_run env j j'"
  shows "checkpoints_kept env j j'"
  using assms(2)
proof induction
  case (start j)
  show ?case by (rule cr.rel_refl)
next
  case (mutate j j1 m tx ready t j2 r)
  have "checkpoint_tx env tx" using mutate by (simp add: checkpoint_tx_def)
  from perform_checkpoints_kept [OF assms(1) mutate(2,3) this, of j1 ready t] have "checkpoints_kept env j1 j2"
    by (simp add: mutate)
  with mutate.IH show ?case by (blast intro: cr.rel_trans)
next
  case (authority j j1 a)
  have "checkpoints_kept env j1 (j1\<lparr>jn_authority := a\<rparr>)" by (rule checkpoints_kept_same) simp_all
  with authority show ?case by (blast intro: cr.rel_trans)
qed

lemma empty_checkpoints: "checkpoints_ok env (empty_journal a)"
  by (simp add: checkpoints_ok_def empty_journal_def)

section \<open>The latest checkpoint\<close>

lemma latest_of_ok:
  assumes "checkpoints_ok env j" and "opaque_id run"
  shows "case jn_checkpoint_head j run of
      None \<Rightarrow> latest_checked env True j run = Inr (codec_missing CHECKPOINT_CODEC)
    | Some n \<Rightarrow> \<exists>r l. map_of (jn_checkpoints j) (run, n) = Some r \<and> latest_checked env True j run = Inr l \<and>
        lr_status l = Loaded \<and> lr_value l = Some \<lparr>kr_seq = n, kr_checkpoint = sr_payload r\<rparr> \<and> lr_sequence l = Some n"
proof (cases "jn_checkpoint_head j run")
  case None
  then show ?thesis using assms(2) by (simp add: latest_checked_def)
next
  case (Some n)
  then obtain r where r: "map_of (jn_checkpoints j) (run, n) = Some r"
    using assms(1) unfolding checkpoints_ok_def by blast
  then have "checkpoint_row_ok env run n r" using assms(1) by (simp add: checkpoints_ok_def)
  then obtain c where pos: "0 \<le> n" and c: "is_checkpoint c" "ck_run_id c = PStr run" "ck_seq c = PInt n"
    "checkpoint_payload_for_write (je_va env) (je_cfg env) (je_sha env) c = Inr (sr_payload r)"
    and d: "checked_stored_digest env (sr_payload r) (sr_blobs r) (sr_digest r) = Some (sr_digest r)"
    and t: "sr_typed r = [PStr CHECKPOINT_SCHEMA_VERSION]"
    by (auto simp: checkpoint_row_ok_def)
  note w = written_decodes [OF c(1,4)]
  have p: "dget (sr_payload r) ''run_id'' = PStr run" "dget (sr_payload r) ''seq'' = PInt n"
    "dget (sr_payload r) ''schema_version'' = PStr CHECKPOINT_SCHEMA_VERSION"
    using c(2,3) by (simp_all add: w(1) written_get ck_run_id_def ck_seq_def)
  have m: "payload_matches_typed_values (sr_payload r) CHECKPOINT_TYPED_FIELDS (PStr run # PInt n # sr_typed r)"
    by (simp add: payload_matches_typed_values_def CHECKPOINT_TYPED_FIELDS_def t p tuple_eq_def num_eq_def)
  let ?l = "(lr_map (\<lambda>c. \<lparr>kr_seq = n, kr_checkpoint = c\<rparr>)
                  (decode_env_checkpoint env (PDict (sr_payload r))))\<lparr>lr_sequence := Some n\<rparr>"
  have l: "latest_checked env True j run = Inr (bind_checkpoint_record_result ?l run)"
    using assms(2) by (simp add: latest_checked_def Some r d m)
  have v: "lr_status ?l = Loaded" "lr_value ?l = Some \<lparr>kr_seq = n, kr_checkpoint = sr_payload r\<rparr>" "lr_sequence ?l = Some n"
    using w(2,3) by (simp_all add: lr_map_def decode_env_checkpoint_def)
  then have "bind_checkpoint_record_result ?l run = ?l\<lparr>lr_sequence := Some n\<rparr>"
    using pos p(1,2) by (simp add: bind_checkpoint_record_result_def lr_ok_def ck_run_id_def ck_seq_def)
  with l v Some r show ?thesis by simp
qed

lemma success_stores_checkpoint:
  assumes "commit_checkpoint env ready tx c blobs t j = (j', Inr r)" and "cr_status r \<in> {Committed, AlreadyCommitted}"
  shows "map_of (jn_checkpoints j') (ci_run_id c, ci_seq c) \<noteq> None \<and>
    (cr_status r = Committed \<longrightarrow> (\<exists>p x. ci_payload c = Inr p \<and>
       map_of (jn_checkpoints j') (ci_run_id c, ci_seq c) = Some x \<and> sr_payload x = p))"
proof -
  have found: "map_of (jn_checkpoints x) (ci_run_id c, ci_seq c) \<noteq> None \<and> cr_status r' \<noteq> Committed"
    if "checkpoint_coordinate env x c p d = Inr (Some r')" for x p d r'
    using that by (auto simp: checkpoint_coordinate_def stored_result_None stored_result_def dest: stored_result_status
        make_commit_result_status simp: res_bind_eq_Inr Let_def split: option.splits if_splits)
  from mutation_result [OF assms(1) [unfolded commit_checkpoint_def] assms(2)] obtain j1 r1 d where
    l: "commit_checkpoint_locked env c blobs j (others tx j) = Inr (Some (j1, r1, d))"
    and cs: "j' = j1 \<and> r = r1 \<or> reconcile_checkpoint env c d j' = Inr (Some r)"
    by (auto simp: fenced_result_def dest: make_commit_result_status)
  show ?thesis
  proof (cases "reconcile_checkpoint env c d j' = Inr (Some r)")
    case True
    then show ?thesis using found by (auto simp: reconcile_checkpoint_def res_bind_eq_Inr)
  next
    case False
    with cs have e: "j' = j1" "r = r1" by auto
    show ?thesis
    proof (cases "cr_status r = Committed")
      case True
      with checkpoint_effect [OF l] e show ?thesis by (auto simp: checkpoint_row_def)
    next
      case False
      with assms(2) have a: "cr_status r1 = AlreadyCommitted" by (simp add: e)
      have R: "conflict_body env x sq y w \<noteq> Inr (Some (j1, r1, d))" for x sq y w
        using conflict_body_state [of env x sq y w j1 r1 d] a by auto
      have "\<exists>p. checkpoint_coordinate env j c p d = Inr (Some r1)"
        using l R a unfolding commit_checkpoint_locked_def Let_def or_conflict_def
        by (auto simp: res_bind_eq_Inr dest: make_commit_result_status split: if_splits option.splits sum.splits)
      moreover have "j1 = others tx j" using checkpoint_effect [OF l] a by auto
      ultimately show ?thesis using found False e by (auto simp: others_def)
    qed
  qed
qed

section \<open>Acknowledged checkpoints\<close>

text \<open>C1. An acknowledged checkpoint is never lost. Once a commit of a checkpoint was answered as
  committed, possibly only after an ambiguous failure was reconciled, then in every later state of the
  journal, whatever writers come and go and fail, the latest checkpoint of the run loads: its sequence
  number is at least the acknowledged one, it is bound to the run and that number, writing it again
  yields the same payload, and if no later checkpoint followed a commit of this very call, it is the
  payload written for the acknowledged checkpoint.\<close>

theorem acknowledged_checkpoint_is_never_lost:
  assumes "env_ok env" and "journal_run env (empty_journal a) j"
    and "is_checkpoint c" and "ck_run_id c = PStr run" and "ck_seq c = PInt n" and "opaque_id run"
    and "concurrent_ok env tx" and "\<forall>x. journal_run env x (tx_later tx x)"
    and "commit_checkpoint env ready tx (checkpoint_input_of env c) blobs t j = (j1, Inr r)"
    and "cr_status r \<in> {Committed, AlreadyCommitted}" and "journal_run env j1 j2"
  shows "\<exists>l k. latest_checked env True j2 run = Inr l \<and> lr_status l = Loaded \<and> lr_value l = Some k \<and> n \<le> kr_seq k \<and>
    ck_run_id (kr_checkpoint k) = PStr run \<and> ck_seq (kr_checkpoint k) = PInt (kr_seq k) \<and>
    checkpoint_payload_for_write (je_va env) (je_cfg env) (je_sha env) (kr_checkpoint k) = Inr (kr_checkpoint k) \<and>
    (cr_status r = Committed \<and> kr_seq k = n \<longrightarrow> kr_checkpoint k = written_payload c)"
proof -
  have run: "journal_run env j j1"
    by (rule journal_run.mutate [OF journal_run.start, where m = "CommitCheckpoint (checkpoint_input_of env c) blobs" and tx = tx
          and ready = ready and t = t and r = "Inr r"])
       (use assms in \<open>auto simp: submits_def real_checkpoint_def\<close>)
  have ok: "checkpoints_ok env j2"
    using run_checkpoints_kept [OF assms(1)] assms(2,11) run empty_checkpoints unfolding checkpoints_kept_def by blast
  have ci: "ci_run_id (checkpoint_input_of env c) = run" "ci_seq (checkpoint_input_of env c) = n"
    using assms(4,5) by (simp_all add: checkpoint_input_of_def)
  from success_stores_checkpoint [OF assms(9,10)] obtain x where x: "map_of (jn_checkpoints j1) (run, n) = Some x"
    and p: "cr_status r = Committed \<longrightarrow> ci_payload (checkpoint_input_of env c) = Inr (sr_payload x)"
    unfolding ci by auto
  have x2: "map_of (jn_checkpoints j2) (run, n) = Some x"
    using run_checkpoints_kept [OF assms(1,11)] x unfolding checkpoints_kept_def by blast
  then obtain h where h: "jn_checkpoint_head j2 run = Some h" "n \<le> h"
    using ok unfolding checkpoints_ok_def by blast
  from latest_of_ok [OF ok assms(6)] h obtain y l where y: "map_of (jn_checkpoints j2) (run, h) = Some y"
    and l: "latest_checked env True j2 run = Inr l" "lr_status l = Loaded"
      "lr_value l = Some \<lparr>kr_seq = h, kr_checkpoint = sr_payload y\<rparr>" by auto
  from y ok have "checkpoint_row_ok env run h y" unfolding checkpoints_ok_def by blast
  then obtain k where k: "is_checkpoint k" "ck_run_id k = PStr run" "ck_seq k = PInt h"
    "checkpoint_payload_for_write (je_va env) (je_cfg env) (je_sha env) k = Inr (sr_payload y)"
    by (auto simp: checkpoint_row_ok_def)
  note w = written_decodes [OF k(1,4)]
  have "ck_run_id (sr_payload y) = PStr run" "ck_seq (sr_payload y) = PInt h"
    using k(2,3) by (simp_all add: w(1) written_get ck_run_id_def ck_seq_def)
  moreover have "sr_payload y = written_payload c" if "cr_status r = Committed" "h = n"
    using that p x2 y written_decodes(1) [OF assms(3)] by (simp add: checkpoint_input_of_def)
  ultimately show ?thesis using l h(2) w(4) by auto
qed

definition demo_checkpoint :: run_checkpoint where
  "demo_checkpoint = make_checkpoint [(''run_id'', PStr ''r1''), (''seq'', PInt 3)]"

lemma demo_checkpoint_attributes:
  "is_checkpoint demo_checkpoint" "ck_run_id demo_checkpoint = PStr ''r1''" "ck_seq demo_checkpoint = PInt 3"
  "written_payload demo_checkpoint = demo_checkpoint" "dget demo_checkpoint ''last_model_invocation'' = PNone"
  by (simp_all add: demo_checkpoint_def is_checkpoint_def make_checkpoint_def CHECKPOINT_ATTRIBUTES_def ck_run_id_def
      ck_seq_def dget_def written_payload_def)

lemma demo_checkpoint_valid: "validate_checkpoint_payload strict_validator 0 (\<lambda>_. replicate 64 (CHR ''a'')) demo_checkpoint = Inr ()"
  by code_simp

lemma demo_checkpoint_written:
  "checkpoint_payload_for_write strict_validator 0 (\<lambda>_. replicate 64 (CHR ''a'')) demo_checkpoint = Inr demo_checkpoint"
  using checkpoint_written [OF demo_checkpoint_attributes(1), of strict_validator 0 "\<lambda>_. replicate 64 (CHR ''a'')"]
    demo_checkpoint_attributes(4,5) demo_checkpoint_valid by simp

lemma demo_facts: "jn_authority (empty_journal a) = a" "tx_fault demo_tx = NoFault" "tx_now demo_tx = 5" "wt_run_id demo_token = ''r1''"
  by (simp_all add: empty_journal_def demo_tx_def demo_token_def)

definition demo_checkpoint_commit :: "journal \<times> commit_result res" where
  "demo_checkpoint_commit = commit_checkpoint demo_journal_env True demo_tx (checkpoint_input_of demo_journal_env demo_checkpoint) []
     demo_token (empty_journal demo_authority)"

lemma demo_checkpoint_committed: "\<exists>j r. demo_checkpoint_commit = (j, Inr r) \<and> cr_status r = Committed"
proof -
  let ?c = "checkpoint_input_of demo_journal_env demo_checkpoint"
  have c: "ci_run_id ?c = ''r1''" "ci_seq ?c = 3" "ci_payload ?c = Inr demo_checkpoint" "ci_references ?c = Inr []"
    using demo_checkpoint_attributes demo_checkpoint_written
    by (simp_all add: checkpoint_input_of_def checkpoint_blob_references_def demo_journal_env_def)
       (simp add: demo_checkpoint_def make_checkpoint_def CHECKPOINT_ATTRIBUTES_def dget_def parts_of_def blob_shas_in_messages_def)
  have "\<exists>j r. commit_checkpoint_locked demo_journal_env ci [] (empty_journal demo_authority) (others demo_tx (empty_journal demo_authority)) =
      Inr (Some (j, r, record_digest demo_journal_env demo_checkpoint [])) \<and> cr_status r = Committed"
    if "ci_run_id ci = ''r1''" "ci_seq ci = 3" "ci_payload ci = Inr demo_checkpoint" "ci_references ci = Inr []" for ci
    using that
    by (simp add: commit_checkpoint_locked_def Let_def or_conflict_def validated_blobs_def submitted_blobs_preserve_backing_def
        references_resolve_def checkpoint_coordinate_def stored_result_def persist_blobs_def insert_row_def make_commit_result_def
        empty_journal_def others_def demo_tx_def demo_journal_env_def commit_result_valid_def record_digest_def bound_digest_def
        recorded_digest_def is_hex_char_def in_range_def list_all_iff POSTGRES_BIGINT_MAX_def
        is_portable_json_integer_def UNCONDITIONALLY_SPELLABLE_INT_def)
  from this [OF c]
  show ?thesis
    using demo_writer_current [of 5] c(1)
    by (auto simp: demo_checkpoint_commit_def commit_checkpoint_def fenced_mutation_def fenced_commit_def fenced_body_def
        simp: demo_facts)
qed

theorem acknowledged_checkpoint_is_never_lost_witness:
  "\<exists>l k. latest_checked demo_journal_env True (fst demo_checkpoint_commit) ''r1'' = Inr l \<and> lr_status l = Loaded \<and>
     lr_value l = Some k \<and> 3 \<le> kr_seq k \<and> ck_run_id (kr_checkpoint k) = PStr ''r1''"
proof -
  from demo_checkpoint_committed obtain j r where c: "demo_checkpoint_commit = (j, Inr r)" and st: "cr_status r = Committed" by blast
  have o: "opaque_id ''r1''" by (simp add: opaque_id_def is_alnum_char_def is_lower_char_def is_digit_char_def is_id_char_def in_range_def)
  have tx: "concurrent_ok demo_journal_env demo_tx" "\<forall>x. journal_run demo_journal_env x (tx_later demo_tx x)"
    by (simp_all add: demo_tx_def concurrent_ok_def journal_run.start)
  have "cr_status r \<in> {Committed, AlreadyCommitted}" using st by simp
  from acknowledged_checkpoint_is_never_lost [OF demo_journal_env_ok journal_run.start demo_checkpoint_attributes(1-3) o tx
      c [unfolded demo_checkpoint_commit_def] this journal_run.start]
  show ?thesis unfolding c by auto
qed

end
