(* ===== verification/Activation.thy ===== *)
theory Activation
  imports Checkpoint_History
begin

text \<open>
  Finite activations (\<open>hosting/activation.py\<close>): the identity-bound command, the receipt of an applied
  command and its projection from a checkpoint, and the annotation a checkpoint receives when an
  activation commits it. \<open>sha\<close> is the digest of an object's canonical JSON.
\<close>

section \<open>Commands\<close>

definition ACTIVATION_COMMAND_SCHEMA_VERSION :: string where
  "ACTIVATION_COMMAND_SCHEMA_VERSION = namespaced_id ''activation-command.v1''"

definition ACCEPTED_ACTIVATION_COMMAND_SCHEMA_VERSIONS :: "string list" where
  "ACCEPTED_ACTIVATION_COMMAND_SCHEMA_VERSIONS = accepted_namespaced_ids ''activation-command.v1''"

definition ACTIVATION_RECEIPT_SCHEMA_VERSION :: string where
  "ACTIVATION_RECEIPT_SCHEMA_VERSION = namespaced_id ''activation-receipt.v1''"

definition ACCEPTED_ACTIVATION_RECEIPT_SCHEMA_VERSIONS :: "string list" where
  "ACCEPTED_ACTIVATION_RECEIPT_SCHEMA_VERSIONS = accepted_namespaced_ids ''activation-receipt.v1''"

definition ActivationCommandKind :: "string list" where
  "ActivationCommandKind = [''input'', ''control'']"

definition ACTIVATION_COMMAND_FIELDS :: "string list" where
  "ACTIVATION_COMMAND_FIELDS = [''schema_version'', ''run_id'', ''command_id'', ''command_sequence'', ''kind'',
     ''source_checkpoint_seq'', ''source_checkpoint_sha256'', ''request_digest'', ''payload_ref'', ''identity_sha256'']"

record activation_command =
  am_run_id :: string
  am_command_id :: string
  am_command_sequence :: int
  am_kind :: string
  am_source_checkpoint_seq :: int
  am_source_checkpoint_sha256 :: string
  am_request_digest :: string
  am_payload_ref :: string
  am_schema_version :: string

definition portable_from :: "int \<Rightarrow> int \<Rightarrow> int \<Rightarrow> bool" where
  "portable_from cfg low n \<longleftrightarrow> is_portable_json_integer cfg (IInt n) \<and> low \<le> n"

definition require_positive_integer :: "int \<Rightarrow> int \<Rightarrow> string \<Rightarrow> unit res" where
  "require_positive_integer cfg n field = guard (portable_from cfg 1 n) (ValueError (field @ '' must be a positive portable integer''))"

definition require_nonnegative_integer :: "int \<Rightarrow> int \<Rightarrow> string \<Rightarrow> unit res" where
  "require_nonnegative_integer cfg n field =
     guard (portable_from cfg 0 n) (ValueError (field @ '' must be a non-negative portable integer''))"

definition require_digest :: "string \<Rightarrow> string \<Rightarrow> unit res" where
  "require_digest s field = guard (recorded_digest s) (ValueError (field @ '' must be a lowercase SHA-256 digest''))"

text \<open>\<open>__post_init__\<close>.\<close>

definition make_activation :: "int \<Rightarrow> activation_command \<Rightarrow> activation_command res" where
  "make_activation cfg m =
     res_bind (guard (am_schema_version m \<in> set ACCEPTED_ACTIVATION_COMMAND_SCHEMA_VERSIONS)
       (ValueError ''unsupported activation command schema'')) (\<lambda>_.
     res_bind (guard (opaque_id (am_run_id m)) (ValueError ''activation command run_id must be a bounded opaque id'')) (\<lambda>_.
     res_bind (guard (opaque_id (am_command_id m)) (ValueError ''activation command command_id must be a bounded opaque id'')) (\<lambda>_.
     res_bind (require_positive_integer cfg (am_command_sequence m) ''activation command sequence'') (\<lambda>_.
     res_bind (guard (am_kind m \<in> set ActivationCommandKind)
       (ValueError ''activation command kind is outside the portable vocabulary'')) (\<lambda>_.
     res_bind (require_nonnegative_integer cfg (am_source_checkpoint_seq m) ''activation source checkpoint sequence'') (\<lambda>_.
     res_bind (require_digest (am_source_checkpoint_sha256 m) ''activation source checkpoint digest'') (\<lambda>_.
     res_bind (require_digest (am_request_digest m) ''activation request digest'') (\<lambda>_.
     res_bind (guard (opaque_address (am_payload_ref m))
       (ValueError ''activation payload_ref must be a bounded opaque address'')) (\<lambda>_.
     Inr m)))))))))"

definition activation_members :: "activation_command \<Rightarrow> pydict" where
  "activation_members m = [(''schema_version'', PStr ACTIVATION_COMMAND_SCHEMA_VERSION), (''run_id'', PStr (am_run_id m)),
     (''command_id'', PStr (am_command_id m)), (''command_sequence'', PInt (am_command_sequence m)), (''kind'', PStr (am_kind m)),
     (''source_checkpoint_seq'', PInt (am_source_checkpoint_seq m)),
     (''source_checkpoint_sha256'', PStr (am_source_checkpoint_sha256 m)),
     (''request_digest'', PStr (am_request_digest m)), (''payload_ref'', PStr (am_payload_ref m))]"

definition activation_identity :: "(pydict \<Rightarrow> string) \<Rightarrow> activation_command \<Rightarrow> string" where
  "activation_identity sha m = sha (activation_members m)"

definition checkpoint_marker :: "(pydict \<Rightarrow> string) \<Rightarrow> activation_command \<Rightarrow> string" where
  "checkpoint_marker sha m = ''monoid.activation/'' @ activation_identity sha m"

definition applied_input_ref :: "(pydict \<Rightarrow> string) \<Rightarrow> activation_command \<Rightarrow> string" where
  "applied_input_ref sha m = ''activation:'' @ activation_identity sha m"

definition activation_to_json :: "(pydict \<Rightarrow> string) \<Rightarrow> activation_command \<Rightarrow> pydict" where
  "activation_to_json sha m = activation_members m @ [(''identity_sha256'', PStr (activation_identity sha m))]"

definition req_str :: "validator \<Rightarrow> pydict \<Rightarrow> string \<Rightarrow> string res" where
  "req_str va d k = parse_required_str va d k False True"

definition activation_from_json :: "validator \<Rightarrow> int \<Rightarrow> (pydict \<Rightarrow> string) \<Rightarrow> pyval \<Rightarrow> activation_command res" where
  "activation_from_json va cfg sha payload =
     res_bind (require_object va payload ''activation command'') (\<lambda>d.
     res_bind (require_only_fields d ACTIVATION_COMMAND_FIELDS ''activation command'') (\<lambda>_.
     res_bind (req_str va d ''schema_version'') (\<lambda>sv.
     res_bind (req_str va d ''run_id'') (\<lambda>run.
     res_bind (req_str va d ''command_id'') (\<lambda>cid.
     res_bind (parse_int d ''command_sequence'' 0) (\<lambda>sq.
     res_bind (parse_literal d ''kind'' ActivationCommandKind None) (\<lambda>kind.
     res_bind (parse_int d ''source_checkpoint_seq'' 0) (\<lambda>src.
     res_bind (req_str va d ''source_checkpoint_sha256'') (\<lambda>ssha.
     res_bind (req_str va d ''request_digest'') (\<lambda>rd.
     res_bind (req_str va d ''payload_ref'') (\<lambda>pr.
     res_bind (make_activation cfg \<lparr>am_run_id = run, am_command_id = cid, am_command_sequence = sq, am_kind = kind,
       am_source_checkpoint_seq = src, am_source_checkpoint_sha256 = ssha, am_request_digest = rd, am_payload_ref = pr,
       am_schema_version = sv\<rparr>) (\<lambda>m.
     res_bind (req_str va d ''identity_sha256'') (\<lambda>ident.
     if ident \<noteq> activation_identity sha m then Inl (ValueError ''activation command identity digest mismatch'')
     else Inr m)))))))))))))"

section \<open>Receipts\<close>

definition ACTIVATION_RECEIPT_FIELDS :: "string list" where
  "ACTIVATION_RECEIPT_FIELDS = [''schema_version'', ''run_id'', ''command_id'', ''command_sequence'', ''command_identity_sha256'',
     ''checkpoint_seq'', ''checkpoint_sha256'', ''checkpoint_ref'', ''state'', ''boundary_reason'', ''terminal'', ''terminal_ref'',
     ''applied_input_ref'', ''event_cursor'', ''stream_cursor'', ''outcome_kind'', ''retry_eligibility'', ''error_code'',
     ''provider_error_code'', ''interruption_cause'']"

record activation_receipt =
  rt_run_id :: string
  rt_command_id :: string
  rt_command_sequence :: int
  rt_command_identity_sha256 :: string
  rt_checkpoint_seq :: int
  rt_checkpoint_sha256 :: string
  rt_checkpoint_ref :: string
  rt_state :: string
  rt_boundary_reason :: string
  rt_terminal :: bool
  rt_terminal_ref :: string
  rt_applied_input_ref :: string
  rt_event_cursor :: int
  rt_stream_cursor :: int
  rt_outcome_kind :: string
  rt_retry_eligibility :: RetryEligibility
  rt_error_code :: string
  rt_provider_error_code :: string
  rt_interruption_cause :: "InterruptionCause option"
  rt_schema_version :: string

text \<open>\<open>__post_init__\<close>, on a record whose retry eligibility and cause are members of their enums.\<close>

definition make_activation_receipt :: "int \<Rightarrow> activation_receipt \<Rightarrow> activation_receipt res" where
  "make_activation_receipt cfg r =
     res_bind (guard (rt_schema_version r \<in> set ACCEPTED_ACTIVATION_RECEIPT_SCHEMA_VERSIONS)
       (ValueError ''unsupported activation receipt schema'')) (\<lambda>_.
     res_bind (guard (opaque_id (rt_run_id r) \<and> opaque_id (rt_command_id r))
       (ValueError ''activation receipt identities must be bounded opaque ids'')) (\<lambda>_.
     res_bind (require_positive_integer cfg (rt_command_sequence r) ''activation receipt command sequence'') (\<lambda>_.
     res_bind (require_digest (rt_command_identity_sha256 r) ''activation command identity'') (\<lambda>_.
     res_bind (require_positive_integer cfg (rt_checkpoint_seq r) ''activation receipt checkpoint sequence'') (\<lambda>_.
     res_bind (require_digest (rt_checkpoint_sha256 r) ''activation receipt checkpoint digest'') (\<lambda>_.
     res_bind (guard (opaque_address (rt_checkpoint_ref r))
       (ValueError ''activation receipt checkpoint_ref must be an opaque address'')) (\<lambda>_.
     res_bind (guard (opaque_address (rt_applied_input_ref r))
       (ValueError ''activation receipt applied_input_ref must be an opaque address'')) (\<lambda>_.
     res_bind (guard (address_or_empty (rt_terminal_ref r))
       (ValueError ''activation receipt terminal_ref must be empty or an opaque address'')) (\<lambda>_.
     res_bind (guard (session_state_ok (PStr (rt_state r)))
       (ValueError ''activation receipt state is outside the lifecycle vocabulary'')) (\<lambda>_.
     res_bind (guard (rt_boundary_reason r \<in> set SUSPENSION_REASONS)
       (ValueError ''activation receipt boundary reason is outside the pump vocabulary'')) (\<lambda>_.
     res_bind (guard (rt_terminal r = (rt_terminal_ref r \<noteq> []))
       (ValueError ''activation receipt terminal flag and ref must agree'')) (\<lambda>_.
     res_bind (require_nonnegative_integer cfg (rt_event_cursor r) ''activation receipt event cursor'') (\<lambda>_.
     res_bind (require_nonnegative_integer cfg (rt_stream_cursor r) ''activation receipt stream cursor'') (\<lambda>_.
     res_bind (guard (rt_outcome_kind r \<in> set TerminalOutcomeKind)
       (ValueError ''activation receipt outcome kind is outside the portable vocabulary'')) (\<lambda>_.
     res_bind (guard (code_or_empty (rt_error_code r)) (ValueError ''activation receipt error_code is invalid'')) (\<lambda>_.
     res_bind (guard (code_or_empty (rt_provider_error_code r))
       (ValueError ''activation receipt provider_error_code is invalid'')) (\<lambda>_.
     Inr r)))))))))))))))))"

definition cause_text :: "InterruptionCause option \<Rightarrow> string" where
  "cause_text c = (case c of None \<Rightarrow> [] | Some x \<Rightarrow> cause_value x)"

definition activation_receipt_to_json :: "activation_receipt \<Rightarrow> pydict" where
  "activation_receipt_to_json r = [(''schema_version'', PStr ACTIVATION_RECEIPT_SCHEMA_VERSION), (''run_id'', PStr (rt_run_id r)),
     (''command_id'', PStr (rt_command_id r)), (''command_sequence'', PInt (rt_command_sequence r)),
     (''command_identity_sha256'', PStr (rt_command_identity_sha256 r)), (''checkpoint_seq'', PInt (rt_checkpoint_seq r)),
     (''checkpoint_sha256'', PStr (rt_checkpoint_sha256 r)), (''checkpoint_ref'', PStr (rt_checkpoint_ref r)),
     (''state'', PStr (rt_state r)), (''boundary_reason'', PStr (rt_boundary_reason r)), (''terminal'', PBool (rt_terminal r)),
     (''terminal_ref'', PStr (rt_terminal_ref r)), (''applied_input_ref'', PStr (rt_applied_input_ref r)),
     (''event_cursor'', PInt (rt_event_cursor r)), (''stream_cursor'', PInt (rt_stream_cursor r)),
     (''outcome_kind'', PStr (rt_outcome_kind r)), (''retry_eligibility'', PStr (retry_value (rt_retry_eligibility r))),
     (''error_code'', PStr (rt_error_code r)), (''provider_error_code'', PStr (rt_provider_error_code r)),
     (''interruption_cause'', PStr (cause_text (rt_interruption_cause r)))]"

definition activation_receipt_from_json :: "validator \<Rightarrow> int \<Rightarrow> pyval \<Rightarrow> activation_receipt res" where
  "activation_receipt_from_json va cfg payload =
     res_bind (require_object va payload ''activation receipt'') (\<lambda>d.
     res_bind (require_only_fields d ACTIVATION_RECEIPT_FIELDS ''activation receipt'') (\<lambda>_.
     res_bind (parse_str va d ''interruption_cause'' []) (\<lambda>raw_cause.
     res_bind (req_str va d ''schema_version'') (\<lambda>sv.
     res_bind (req_str va d ''run_id'') (\<lambda>run.
     res_bind (req_str va d ''command_id'') (\<lambda>cid.
     res_bind (parse_int d ''command_sequence'' 0) (\<lambda>sq.
     res_bind (req_str va d ''command_identity_sha256'') (\<lambda>ident.
     res_bind (parse_int d ''checkpoint_seq'' 0) (\<lambda>cseq.
     res_bind (req_str va d ''checkpoint_sha256'') (\<lambda>csha.
     res_bind (req_str va d ''checkpoint_ref'') (\<lambda>cref.
     res_bind (req_str va d ''state'') (\<lambda>st.
     res_bind (req_str va d ''boundary_reason'') (\<lambda>reason.
     res_bind (parse_bool va d ''terminal'' False) (\<lambda>term.
     res_bind (parse_str va d ''terminal_ref'' []) (\<lambda>tref.
     res_bind (req_str va d ''applied_input_ref'') (\<lambda>aref.
     res_bind (parse_int d ''event_cursor'' 0) (\<lambda>ec.
     res_bind (parse_int d ''stream_cursor'' 0) (\<lambda>sc.
     res_bind (parse_literal d ''outcome_kind'' TerminalOutcomeKind None) (\<lambda>kind.
     res_bind (res_bind (req_str va d ''retry_eligibility'') RetryEligibility_of) (\<lambda>retry.
     res_bind (parse_str va d ''error_code'' []) (\<lambda>err.
     res_bind (parse_str va d ''provider_error_code'' []) (\<lambda>perr.
     res_bind (if raw_cause = [] then Inr None else res_bind (InterruptionCause_of raw_cause) (\<lambda>c. Inr (Some c))) (\<lambda>cause.
     make_activation_receipt cfg \<lparr>rt_run_id = run, rt_command_id = cid, rt_command_sequence = sq, rt_command_identity_sha256 = ident,
       rt_checkpoint_seq = cseq, rt_checkpoint_sha256 = csha, rt_checkpoint_ref = cref, rt_state = st, rt_boundary_reason = reason,
       rt_terminal = term, rt_terminal_ref = tref, rt_applied_input_ref = aref, rt_event_cursor = ec, rt_stream_cursor = sc,
       rt_outcome_kind = kind, rt_retry_eligibility = retry, rt_error_code = err, rt_provider_error_code = perr,
       rt_interruption_cause = cause, rt_schema_version = sv\<rparr>)))))))))))))))))))))))"

section \<open>The receipt in a checkpoint\<close>

definition applied_inputs :: "run_checkpoint \<Rightarrow> pyval list" where
  "applied_inputs c = parts_of (dget c ''applied_input_ids'')"

definition stored_receipt :: "run_checkpoint \<Rightarrow> string \<Rightarrow> pyval" where
  "stored_receipt c marker = attr (dget c ''applied_input_receipts'') marker"

definition checkpoint_digest :: "(pydict \<Rightarrow> string) \<Rightarrow> run_checkpoint \<Rightarrow> string res" where
  "checkpoint_digest sha c = res_bind (checkpoint_to_json c) (\<lambda>d. Inr (sha d))"

definition checkpoint_receipt_digest :: "(pydict \<Rightarrow> string) \<Rightarrow> run_checkpoint \<Rightarrow> string \<Rightarrow> string res" where
  "checkpoint_receipt_digest sha c marker = res_bind (checkpoint_to_json c) (\<lambda>d.
     case dget d ''applied_input_receipts'' of
       PDict receipts \<Rightarrow> (case dget receipts marker of
           PDict target \<Rightarrow> Inr (sha (AList.update ''applied_input_receipts'' (PDict (AList.update marker
               (PDict (AList.update ''checkpoint_sha256'' (PStr []) target)) receipts)) d))
         | _ \<Rightarrow> Inl (ValueError ''activation checkpoint receipt is missing''))
     | _ \<Rightarrow> Inl (ValueError ''activation checkpoint receipts are invalid''))"

definition checkpoint_ref :: "string \<Rightarrow> int \<Rightarrow> string" where
  "checkpoint_ref run n = ''checkpoint:'' @ run @ ''/'' @ show_int n"

definition terminal_ref :: "string \<Rightarrow> bool \<Rightarrow> string" where
  "terminal_ref run term = (if term then ''terminal:'' @ run else [])"

definition dget_default :: "pydict \<Rightarrow> string \<Rightarrow> pyval \<Rightarrow> pyval" where
  "dget_default d k v = (case map_of d k of None \<Rightarrow> v | Some x \<Rightarrow> x)"

text \<open>The metadata of a boundary as the receipt has to spell it.\<close>

definition boundary_metadata_ok :: "int \<Rightarrow> (pydict \<Rightarrow> string) \<Rightarrow> activation_command \<Rightarrow> run_checkpoint \<Rightarrow> pydict \<Rightarrow> suspension \<Rightarrow>
    SessionState \<Rightarrow> bool" where
  "boundary_metadata_ok cfg sha m c r s st \<longleftrightarrow>
     (case dget r ''checkpoint_seq'' of
        PInt n \<Rightarrow> is_portable_json_integer cfg (IInt n) \<and> n \<le> int_val (ck_seq c) \<and> am_source_checkpoint_seq m < n
      | _ \<Rightarrow> False) \<and>
     is_recorded_digest (dget r ''checkpoint_sha256'') \<and>
     dget r ''state'' = PStr (state_value st) \<and>
     (case dget r ''terminal'' of
        PBool b \<Rightarrow> (su_reason s = ''terminal'' \<longrightarrow> b) \<and> (b \<longrightarrow> su_reason s \<in> {''terminal'', ''limited''})
      | _ \<Rightarrow> False) \<and>
     dget r ''command_identity_sha256'' = PStr (activation_identity sha m) \<and>
     portable_cursor cfg (dget_default r ''event_cursor'' (PInt 0)) \<and>
     portable_cursor cfg (dget_default r ''stream_cursor'' (PInt 0))"

definition outcome_metadata_ok :: "activation_command \<Rightarrow> pydict \<Rightarrow> terminal_outcome \<Rightarrow> bool \<Rightarrow> bool" where
  "outcome_metadata_ok m r x term \<longleftrightarrow>
     dget r ''outcome_kind'' = PStr (to_kind x) \<and>
     dget r ''retry_eligibility'' = PStr (retry_value (to_retry_eligibility x)) \<and>
     dget r ''error_code'' = PStr (to_error_code x) \<and>
     dget r ''provider_error_code'' = PStr (to_provider_error_code x) \<and>
     dget r ''interruption_cause'' = PStr (cause_text (to_interruption_cause x)) \<and>
     dget r ''terminal_outcome_ref'' = PStr (terminal_ref (am_run_id m) term)"

text \<open>\<open>ActivationReceipt.from_checkpoint\<close>.\<close>

definition receipt_from_checkpoint :: "validator \<Rightarrow> int \<Rightarrow> (pydict \<Rightarrow> string) \<Rightarrow> activation_command \<Rightarrow> run_checkpoint \<Rightarrow>
    terminal_outcome option \<Rightarrow> activation_receipt res" where
  "receipt_from_checkpoint va cfg sha m c winner =
     (let marker = checkpoint_marker sha m in
      if PStr marker \<notin> set (applied_inputs c) then Inl (NativeAgentError ''missing_activation_marker'')
      else case stored_receipt c marker of
        PDict r \<Rightarrow> (case dget r ''suspension'' of
          PDict raw \<Rightarrow> (case suspension_from_checkpoint_payload va raw of
            Inl e \<Rightarrow> if is_payload_error e then Inl (NativeAgentError ''invalid_activation_boundary'') else Inl e
          | Inr s \<Rightarrow>
              res_bind (state_from_suspension s) (\<lambda>st.
              if \<not> boundary_metadata_ok cfg sha m c r s st then Inl (NativeAgentError ''invalid_activation_receipt'')
              else
                let n = int_val (dget r ''checkpoint_seq''); csha = str_val (dget r ''checkpoint_sha256'');
                    term = (dget r ''terminal'' = PBool True) in
                res_bind (if PInt n = ck_seq c
                  then res_bind (checkpoint_receipt_digest sha c marker) (\<lambda>digest.
                    guard (dget c ''terminal'' = PBool term \<and> csha = digest) (NativeAgentError ''invalid_activation_receipt''))
                  else Inr ()) (\<lambda>_.
                res_bind (terminal_outcome_from_suspension cfg s (am_run_id m) (Some n) [] [] []) (\<lambda>x.
                if \<not> outcome_metadata_ok m r x term then Inl (NativeAgentError ''invalid_activation_receipt'')
                else
                  res_bind (case winner of
                      None \<Rightarrow> Inr x
                    | Some w \<Rightarrow> if \<not> term \<or> to_run_id w \<noteq> am_run_id m then Inl (NativeAgentError ''terminal_receipt_mismatch'') else Inr w) (\<lambda>y.
                  make_activation_receipt cfg \<lparr>rt_run_id = am_run_id m, rt_command_id = am_command_id m,
                    rt_command_sequence = am_command_sequence m, rt_command_identity_sha256 = activation_identity sha m,
                    rt_checkpoint_seq = n, rt_checkpoint_sha256 = csha, rt_checkpoint_ref = checkpoint_ref (am_run_id m) n,
                    rt_state = state_value st, rt_boundary_reason = su_reason s, rt_terminal = term,
                    rt_terminal_ref = terminal_ref (am_run_id m) term, rt_applied_input_ref = applied_input_ref sha m,
                    rt_event_cursor = int_val (dget_default r ''event_cursor'' (PInt 0)),
                    rt_stream_cursor = int_val (dget_default r ''stream_cursor'' (PInt 0)),
                    rt_outcome_kind = to_kind y, rt_retry_eligibility = to_retry_eligibility y,
                    rt_error_code = to_error_code y, rt_provider_error_code = to_provider_error_code y,
                    rt_interruption_cause = to_interruption_cause y, rt_schema_version = ACTIVATION_RECEIPT_SCHEMA_VERSION\<rparr>)))))
          | _ \<Rightarrow> Inl (NativeAgentError ''missing_activation_boundary''))
      | _ \<Rightarrow> Inl (NativeAgentError ''missing_activation_receipt''))"

section \<open>Annotating a checkpoint\<close>

text \<open>What \<open>_ActivationRunSink.commit_checkpoint\<close> writes into the checkpoint before handing it to the
  sink. \<open>cursor\<close> is the last event sequence of the activation.\<close>

definition set_attr :: "string \<Rightarrow> pyval \<Rightarrow> run_checkpoint \<Rightarrow> run_checkpoint" where
  "set_attr k v c = AList.update k v c"

definition active_input_of :: "(pydict \<Rightarrow> string) \<Rightarrow> activation_command \<Rightarrow> bool \<Rightarrow> pyval" where
  "active_input_of sha m done_flag = PDict [(''input_id'', PStr (checkpoint_marker sha m)),
     (''source_seq'', PInt (am_source_checkpoint_seq m)), (''phase'', PStr (if done_flag then ''completed'' else ''running''))]"

definition boundary_receipt :: "(pydict \<Rightarrow> string) \<Rightarrow> activation_command \<Rightarrow> int \<Rightarrow> int \<Rightarrow> suspension \<Rightarrow> SessionState \<Rightarrow> bool \<Rightarrow>
    terminal_outcome \<Rightarrow> string \<Rightarrow> pydict" where
  "boundary_receipt sha m n cursor s st term x digest = [(''checkpoint_seq'', PInt n), (''checkpoint_sha256'', PStr digest),
     (''state'', PStr (state_value st)), (''terminal'', PBool term), (''suspension'', PDict (suspension_checkpoint_payload s)),
     (''command_identity_sha256'', PStr (activation_identity sha m)), (''event_cursor'', PInt cursor), (''stream_cursor'', PInt 0),
     (''outcome_kind'', PStr (to_kind x)), (''retry_eligibility'', PStr (retry_value (to_retry_eligibility x))),
     (''error_code'', PStr (to_error_code x)), (''provider_error_code'', PStr (to_provider_error_code x)),
     (''interruption_cause'', PStr (cause_text (to_interruption_cause x))),
     (''terminal_outcome_ref'', PStr (terminal_ref (am_run_id m) term))]"

definition receipts_of :: "run_checkpoint \<Rightarrow> pydict" where
  "receipts_of c = (case dget c ''applied_input_receipts'' of PDict d \<Rightarrow> d | _ \<Rightarrow> [])"

definition with_receipt :: "run_checkpoint \<Rightarrow> string \<Rightarrow> pydict \<Rightarrow> run_checkpoint" where
  "with_receipt c marker r = set_attr ''applied_input_receipts'' (PDict (AList.update marker (PDict r) (receipts_of c))) c"

definition boundary_of :: "validator \<Rightarrow> int \<Rightarrow> activation_command \<Rightarrow> run_checkpoint \<Rightarrow> (suspension \<times> terminal_outcome) res" where
  "boundary_of va cfg m c =
     (let raw = (case dget c ''last_suspension'' of PDict d \<Rightarrow> d | _ \<Rightarrow> []) in
      case res_bind (suspension_from_checkpoint_payload va raw) (\<lambda>s.
             res_bind (terminal_outcome_from_suspension cfg s (am_run_id m) (Some (int_val (ck_seq c))) [] [] []) (\<lambda>x. Inr (s, x))) of
        Inr p \<Rightarrow> Inr p
      | Inl e \<Rightarrow> if is_payload_error e then Inl (NativeAgentError ''invalid_activation_boundary'') else Inl e)"

definition annotated_checkpoint :: "validator \<Rightarrow> int \<Rightarrow> (pydict \<Rightarrow> string) \<Rightarrow> activation_command \<Rightarrow> int \<Rightarrow> run_checkpoint \<Rightarrow>
    run_checkpoint res" where
  "annotated_checkpoint va cfg sha m cursor c =
     (let completed = (dget c ''last_suspension'' \<noteq> PNone); marker = checkpoint_marker sha m;
          c1 = set_attr ''active_input'' (active_input_of sha m completed) c in
      if \<not> completed then Inr c1
      else res_bind (boundary_of va cfg m c) (\<lambda>(s, x).
        let term = (dget c ''terminal'' = PBool True \<or> su_reason s = ''terminal'');
            ids = sort (remdups (marker # map str_val (applied_inputs c)));
            c2 = set_attr ''applied_input_ids'' (PList (map PStr ids)) c1 in
        res_bind (state_from_suspension s) (\<lambda>st.
        let receipt = boundary_receipt sha m (int_val (ck_seq c)) cursor s st term x in
        res_bind (checkpoint_receipt_digest sha (with_receipt c2 marker (receipt [])) marker) (\<lambda>digest.
        Inr (with_receipt c2 marker (receipt digest))))))"

section \<open>Laws of addresses\<close>

lemma digit_chars: "d < 10 \<Longrightarrow> is_digit_char (show_digit d)"
proof -
  assume d: "d < 10"
  then have "(of_char (char_of (48 + d) :: char) :: nat) = 48 + d" by (simp only: of_char_of mod_less)
  with d show ?thesis by (simp add: is_digit_char_def in_range_def show_digit_def)
qed

lemma show_nat_digits: "list_all is_digit_char (show_nat n) \<and> show_nat n \<noteq> []"
  by (induction n rule: show_nat.induct) (subst show_nat.simps, simp add: digit_chars)

lemma digit_id_char: "is_digit_char c \<Longrightarrow> is_id_char c"
  by (simp add: is_id_char_def is_alnum_char_def)

lemma address_of:
  assumes "list_all is_lower_char scheme" and "scheme \<noteq> []" and "length scheme \<le> 32" and "opaque_id run"
    and "list_all is_id_char rest" and "length scheme + length run + length rest \<le> 255"
  shows "opaque_address (scheme @ '':'' @ run @ rest)"
proof -
  have nc: "c \<noteq> CHR '':''" if "c \<in> set scheme" for c
    using assms(1) that by (auto simp: list_all_iff is_lower_char_def in_range_def)
  have t: "takeWhile (\<lambda>c. c \<noteq> CHR '':'') (scheme @ '':'' @ run @ rest) = scheme"
    "dropWhile (\<lambda>c. c \<noteq> CHR '':'') (scheme @ '':'' @ run @ rest) = CHR '':'' # run @ rest"
    using nc by (simp_all add: takeWhile_append dropWhile_append)
  have "matches_token is_lower_char is_scheme_char 31 scheme"
    using assms(1-3) by (cases scheme) (auto simp: list_all_iff is_scheme_char_def)
  moreover have "matches_token is_alnum_char is_id_char (length (run @ rest)) (run @ rest)"
    using assms(4,5) by (cases run) (auto simp: opaque_id_def)
  ultimately show ?thesis unfolding opaque_address_def t using assms(6) by simp
qed

lemma checkpoint_ref_address:
  assumes "opaque_id run" and "0 \<le> n" and "length run + length (show_int n) \<le> 244"
  shows "opaque_address (checkpoint_ref run n)"
proof -
  have "list_all is_id_char (''/'' @ show_int n)"
    using show_nat_digits [of "nat n"] digit_id_char assms(2) by (auto simp: show_int_def list_all_iff is_id_char_def)
  from address_of [OF _ _ _ assms(1) this, of "''checkpoint''"] assms(3) show ?thesis
    by (simp add: checkpoint_ref_def is_lower_char_def in_range_def)
qed

lemma terminal_ref_address: "opaque_id run \<Longrightarrow> length run \<le> 247 \<Longrightarrow> address_or_empty (terminal_ref run term)"
  using address_of [of "''terminal''" run "[]"]
  by (simp add: terminal_ref_def address_or_empty_def is_lower_char_def in_range_def)

lemma applied_ref_address: "recorded_digest (activation_identity sha m) \<Longrightarrow> opaque_address (applied_input_ref sha m)"
  using address_of [of "''activation''" "activation_identity sha m" "[]"] recorded_digest_opaque
  by (simp add: applied_input_ref_def is_lower_char_def in_range_def recorded_digest_def)

section \<open>A written annotation is recognised\<close>

definition norm_items :: "pydict \<Rightarrow> pydict" where
  "norm_items d = map (\<lambda>(k, v). (k, norm_val False v)) d"

lemma norm_items_update: "norm_items (AList.update k v d) = AList.update k (norm_val False v) (norm_items d)"
  by (induction d) (auto simp: norm_items_def)

lemma norm_dict: "norm_val False (PDict d) = PDict (norm_items d)"
  by (simp add: norm_items_def)

lemma update_again [simp]: "AList.update k v (AList.update k w d) = AList.update k v d"
  by (induction d) auto

lemma dget_norm_items: "dget (norm_items d) k = norm_val False (dget d k)"
  unfolding norm_items_def by (rule norm_items_get)

lemma norm_receipt [simp]: "norm_items (boundary_receipt sha m n cursor s st term x digest) = boundary_receipt sha m n cursor s st term x digest"
  by (simp add: norm_items_def boundary_receipt_def suspension_checkpoint_payload_def comp_def split: option.split)

lemma receipt_get:
  "dget (boundary_receipt sha m n cursor s st term x digest) ''checkpoint_seq'' = PInt n"
  "dget (boundary_receipt sha m n cursor s st term x digest) ''checkpoint_sha256'' = PStr digest"
  "dget (boundary_receipt sha m n cursor s st term x digest) ''state'' = PStr (state_value st)"
  "dget (boundary_receipt sha m n cursor s st term x digest) ''terminal'' = PBool term"
  "dget (boundary_receipt sha m n cursor s st term x digest) ''suspension'' = PDict (suspension_checkpoint_payload s)"
  "dget (boundary_receipt sha m n cursor s st term x digest) ''command_identity_sha256'' = PStr (activation_identity sha m)"
  "dget_default (boundary_receipt sha m n cursor s st term x digest) ''event_cursor'' v = PInt cursor"
  "dget_default (boundary_receipt sha m n cursor s st term x digest) ''stream_cursor'' v = PInt 0"
  "dget (boundary_receipt sha m n cursor s st term x digest) ''outcome_kind'' = PStr (to_kind x)"
  "dget (boundary_receipt sha m n cursor s st term x digest) ''retry_eligibility'' = PStr (retry_value (to_retry_eligibility x))"
  "dget (boundary_receipt sha m n cursor s st term x digest) ''error_code'' = PStr (to_error_code x)"
  "dget (boundary_receipt sha m n cursor s st term x digest) ''provider_error_code'' = PStr (to_provider_error_code x)"
  "dget (boundary_receipt sha m n cursor s st term x digest) ''interruption_cause'' = PStr (cause_text (to_interruption_cause x))"
  "dget (boundary_receipt sha m n cursor s st term x digest) ''terminal_outcome_ref'' = PStr (terminal_ref (am_run_id m) term)"
  by (simp_all add: boundary_receipt_def dget_def dget_default_def)

lemma receipt_blanked:
  "AList.update ''checkpoint_sha256'' (PStr d') (boundary_receipt sha m n cursor s st term x digest) = boundary_receipt sha m n cursor s st term x d'"
  by (simp add: boundary_receipt_def)

lemma norm_items_idem [simp]: "norm_items (norm_items d) = norm_items d"
  by (auto simp: norm_items_def)

lemma receipts_of_norm: "receipts_of (norm_items c) = norm_items (receipts_of c)"
  unfolding receipts_of_def dget_norm_items by (cases "dget c ''applied_input_receipts''") (simp_all add: norm_items_def)

lemma norm_with_receipt: "norm_items (with_receipt c marker r) = with_receipt (norm_items c) marker (norm_items r)"
  by (simp add: with_receipt_def set_attr_def norm_items_update receipts_of_norm norm_dict del: norm_val.simps(4))

lemma with_receipt_get:
  "dget (with_receipt c marker r) k = (if k = ''applied_input_receipts'' then PDict (AList.update marker (PDict r) (receipts_of c)) else dget c k)"
  by (simp add: with_receipt_def set_attr_def dget_update)

lemma digest_with_receipt:
  assumes "wf_val (PDict (with_receipt c marker (boundary_receipt sha m n cursor s st term x digest)))"
  shows "checkpoint_receipt_digest sha (with_receipt c marker (boundary_receipt sha m n cursor s st term x digest)) marker =
    Inr (sha (with_receipt (norm_items c) marker (boundary_receipt sha m n cursor s st term x [])))"
  unfolding checkpoint_receipt_digest_def checkpoint_to_json_wf [OF assms] norm_items_def [symmetric] norm_with_receipt norm_receipt
  by (simp add: with_receipt_get dget_update receipt_blanked) (simp add: with_receipt_def set_attr_def)

lemma set_attr_checkpoint:
  assumes "is_checkpoint c" and "k \<in> fst ` set CHECKPOINT_ATTRIBUTES" and "wf_val v"
  shows "is_checkpoint (set_attr k v c)"
proof -
  note c = is_checkpointD [OF assms(1)]
  have k: "k \<in> set (map fst c)" using assms(2) unfolding c(1) by simp
  then have keys: "map fst (set_attr k v c) = map fst CHECKPOINT_ATTRIBUTES" unfolding set_attr_def update_keys using c(1) by simp
  have "distinct (map fst (set_attr k v c))" unfolding keys by (rule attributes_distinct)
  moreover have "wf_val w" if "(q, w) \<in> set (set_attr k v c)" for q w
  proof -
    from that set_update [of k v c] have "(q, w) = (k, v) \<or> (q, w) \<in> set c" unfolding set_attr_def by blast
    then show ?thesis using c(2) assms(3) by (auto simp: list_all_iff)
  qed
  ultimately have "wf_val (PDict (set_attr k v c))" by (auto simp: list_all_iff)
  with keys show ?thesis unfolding is_checkpoint_def by blast
qed

lemma attribute_names:
  "''active_input'' \<in> fst ` set CHECKPOINT_ATTRIBUTES" "''applied_input_ids'' \<in> fst ` set CHECKPOINT_ATTRIBUTES"
  "''applied_input_receipts'' \<in> fst ` set CHECKPOINT_ATTRIBUTES"
  by (simp_all add: CHECKPOINT_ATTRIBUTES_def)

lemma wf_update:
  assumes "wf_val (PDict d)" and "wf_val v" shows "wf_val (PDict (AList.update k v d))"
  using assms set_update [of k v d] distinct_update [of d k v] by (auto simp: list_all_iff)

lemma wf_receipt: "wf_val (PDict (boundary_receipt sha m n cursor s st term x digest))"
  by (auto simp: boundary_receipt_def suspension_checkpoint_payload_def list_all_iff split: option.split)

lemma with_receipt_checkpoint:
  assumes "is_checkpoint c" shows "is_checkpoint (with_receipt c marker (boundary_receipt sha m n cursor s st term x digest))"
proof -
  have "wf_val (PDict (receipts_of c))"
    using wf_dget [OF is_checkpointD(2) [OF assms], of "''applied_input_receipts''"]
    by (cases "dget c ''applied_input_receipts''") (simp_all add: receipts_of_def)
  from wf_update [OF this wf_receipt] show ?thesis
    unfolding with_receipt_def by (rule set_attr_checkpoint [OF assms attribute_names(3)])
qed

lemma wf_active_input [simp]: "wf_val (active_input_of sha m b)"
  by (simp add: active_input_of_def)

lemma suspension_of_payload:
  assumes "pydantic_strict va" and "suspension_from_checkpoint_payload va raw = Inr s"
  shows "suspension_from_checkpoint_payload va (suspension_checkpoint_payload s) = Inr s"
proof -
  note v = suspension_from_payload_vocabulary [OF assms(2)]
  show ?thesis using suspension_roundtrip [OF assms(1) v(1,2)] v(3) by simp
qed

lemma suspension_reason:
  assumes "pydantic_strict va" and "suspension_from_checkpoint_payload va raw = Inr s"
  shows "dget raw ''reason'' = PStr (su_reason s)"
proof -
  have "parse_str va raw ''reason'' [] = Inr (su_reason s)"
    using assms(2) unfolding suspension_from_checkpoint_payload_def res_bind_eq_Inr by (elim exE conjE) auto
  moreover have "su_reason s \<noteq> []" using suspension_from_payload_vocabulary(1) [OF assms(2)] by (auto simp: SUSPENSION_REASONS_def)
  ultimately show ?thesis unfolding parse_str_strict [OF assms(1)] dget_def by (auto split: option.splits pyval.splits)
qed

lemma state_value_ok [simp]: "session_state_ok (PStr (state_value st))"
  by (cases st) (simp_all add: session_state_ok_def all_states_def)

lemma reason_mapped: "su_reason s \<in> set SUSPENSION_REASONS \<Longrightarrow> \<exists>st. state_from_suspension s = Inr st"
  by (auto simp: SUSPENSION_REASONS_def state_from_suspension_def REASON_TO_STATE_def)

text \<open>What the annotation of a completed checkpoint consists of.\<close>

lemma annotated_completed:
  assumes "is_checkpoint c" and "dget c ''last_suspension'' \<noteq> PNone" and "annotated_checkpoint va cfg sha m cursor c = Inr c'"
  obtains s x st c2 where "boundary_of va cfg m c = Inr (s, x)" and "state_from_suspension s = Inr st" and "is_checkpoint c2"
    and "PStr (checkpoint_marker sha m) \<in> set (applied_inputs c2)"
    and "\<forall>k. k \<notin> {''active_input'', ''applied_input_ids''} \<longrightarrow> dget c2 k = dget c k"
    and "\<exists>digest. digest = sha (with_receipt (norm_items c2) (checkpoint_marker sha m) (boundary_receipt sha m (int_val (ck_seq c)) cursor s st
          (dget c ''terminal'' = PBool True \<or> su_reason s = ''terminal'') x [])) \<and>
        c' = with_receipt c2 (checkpoint_marker sha m) (boundary_receipt sha m (int_val (ck_seq c)) cursor s st
          (dget c ''terminal'' = PBool True \<or> su_reason s = ''terminal'') x digest)"
proof -
  let ?k = "checkpoint_marker sha m"
  let ?c1 = "set_attr ''active_input'' (active_input_of sha m True) c"
  let ?ids = "sort (remdups (?k # map str_val (applied_inputs c)))"
  let ?c2 = "set_attr ''applied_input_ids'' (PList (map PStr ?ids)) ?c1"
  from assms(2,3) obtain s x st where b: "boundary_of va cfg m c = Inr (s, x)" and st: "state_from_suspension s = Inr st"
    and d: "res_bind (checkpoint_receipt_digest sha (with_receipt ?c2 ?k (boundary_receipt sha m (int_val (ck_seq c)) cursor s st
          (dget c ''terminal'' = PBool True \<or> su_reason s = ''terminal'') x [])) ?k) (\<lambda>digest.
        Inr (with_receipt ?c2 ?k (boundary_receipt sha m (int_val (ck_seq c)) cursor s st
          (dget c ''terminal'' = PBool True \<or> su_reason s = ''terminal'') x digest))) = Inr c'"
    by (auto simp: annotated_checkpoint_def Let_def res_bind_eq_Inr split: prod.splits)
  have c1: "is_checkpoint ?c1" by (rule set_attr_checkpoint [OF assms(1) attribute_names(1)]) simp
  have c2: "is_checkpoint ?c2" by (rule set_attr_checkpoint [OF c1 attribute_names(2)]) (simp add: list_all_iff)
  have a: "PStr ?k \<in> set (applied_inputs ?c2)" by (simp add: applied_inputs_def set_attr_def dget_update parts_of_def)
  have g: "\<forall>k. k \<notin> {''active_input'', ''applied_input_ids''} \<longrightarrow> dget ?c2 k = dget c k" by (simp add: set_attr_def dget_update)
  note w = is_checkpointD(2) [OF with_receipt_checkpoint [OF c2]]
  show thesis by (rule that [OF b st c2 a g]) (use d in \<open>simp only: digest_with_receipt [OF w] res_bind_Inr; blast\<close>)
qed

lemma annotated_is_checkpoint:
  assumes "is_checkpoint c" and "dget c ''last_suspension'' \<noteq> PNone" and "annotated_checkpoint va cfg sha m cursor c = Inr c'"
  shows "is_checkpoint c'"
proof (rule annotated_completed [OF assms])
  fix s x st c2
  assume c2: "is_checkpoint c2"
  assume "\<exists>digest. digest = sha (with_receipt (norm_items c2) (checkpoint_marker sha m) (boundary_receipt sha m (int_val (ck_seq c)) cursor s st
          (dget c ''terminal'' = PBool True \<or> su_reason s = ''terminal'') x [])) \<and>
        c' = with_receipt c2 (checkpoint_marker sha m) (boundary_receipt sha m (int_val (ck_seq c)) cursor s st
          (dget c ''terminal'' = PBool True \<or> su_reason s = ''terminal'') x digest)"
  then show ?thesis using with_receipt_checkpoint [OF c2] by metis
qed

lemma written_norm:
  assumes "is_checkpoint c" and "dget c ''schema_version'' = PStr CHECKPOINT_SCHEMA_VERSION"
  shows "written_payload c = norm_items c"
proof -
  have k: "map fst (norm_items c) = map fst c" by (auto simp: norm_items_def comp_def case_prod_unfold)
  have "''schema_version'' \<in> set (map fst (norm_items c))" unfolding k using keys_of_checkpoint(1) [OF is_checkpointD(1) [OF assms(1)]] by simp
  then obtain v where v: "map_of (norm_items c) ''schema_version'' = Some v" by (cases "map_of (norm_items c) ''schema_version''") (auto simp: map_of_eq_None_iff)
  then have "v = dget (norm_items c) ''schema_version''" by (simp add: dget_def)
  then have "v = PStr CHECKPOINT_SCHEMA_VERSION" by (simp add: dget_norm_items assms(2))
  with v show ?thesis unfolding written_payload_def norm_items_def [symmetric] by (simp add: update_triv)
qed

lemma boundary_outcome:
  assumes "boundary_of va cfg m c = Inr (s, x)" and "dget c ''last_suspension'' = PDict raw"
  shows "suspension_from_checkpoint_payload va raw = Inr s"
    and "terminal_outcome_from_suspension cfg s (am_run_id m) (Some (int_val (ck_seq c))) [] [] [] = Inr x"
  using assms by (auto simp: boundary_of_def res_bind_eq_Inr split: sum.splits if_splits)

lemma outcome_of_suspension_fields:
  assumes "terminal_outcome_from_suspension cfg s run sq [] [] [] = Inr x"
  shows "to_kind x \<in> set TerminalOutcomeKind" "code_or_empty (to_error_code x)" "code_or_empty (to_provider_error_code x)"
  using assms make_outcome_id unfolding terminal_outcome_from_suspension_def
  by (auto simp: make_outcome_def res_bind_eq_Inr split: prod.splits)

lemma activation_receipt_roundtrip:
  assumes "pydantic_strict va" and "make_activation_receipt cfg r = Inr r" and "rt_schema_version r = ACTIVATION_RECEIPT_SCHEMA_VERSION"
  shows "activation_receipt_from_json va cfg (PDict (activation_receipt_to_json r)) = Inr r"
proof -
  have ne: "opaque_id s \<Longrightarrow> s \<noteq> []" "recorded_digest s \<Longrightarrow> s \<noteq> []" "opaque_address s \<Longrightarrow> s \<noteq> []" "session_state_ok (PStr s) \<Longrightarrow> s \<noteq> []"
    "s \<in> set SUSPENSION_REASONS \<Longrightarrow> s \<noteq> []" for s
    by (auto simp: opaque_id_def recorded_digest_def opaque_address_def session_state_ok_def all_states_def SUSPENSION_REASONS_def)
  have R: "req_str va d k = (case map_of d k of Some (PStr s) \<Rightarrow> if s = [] then Inl (ValueError (k @ '' is required'')) else Inr s
      | Some _ \<Rightarrow> Inl (ValueError (k @ '' must be a string'')) | None \<Rightarrow> Inl (ValueError (k @ '' is required'')))" for d k
    using assms(1) by (auto simp: req_str_def parse_required_str_def parse_str_strict dhas_def simp del: dhas_iff split: option.split pyval.split)
  have m: "opaque_id (rt_run_id r)" "opaque_id (rt_command_id r)" "recorded_digest (rt_command_identity_sha256 r)"
    "recorded_digest (rt_checkpoint_sha256 r)" "opaque_address (rt_checkpoint_ref r)" "opaque_address (rt_applied_input_ref r)"
    "session_state_ok (PStr (rt_state r))" "rt_boundary_reason r \<in> set SUSPENSION_REASONS" "rt_outcome_kind r \<in> set TerminalOutcomeKind"
    using assms(2) by (auto simp: make_activation_receipt_def require_digest_def res_bind_eq_Inr)
  have nes: "rt_run_id r \<noteq> []" "rt_command_id r \<noteq> []" "rt_command_identity_sha256 r \<noteq> []" "rt_checkpoint_sha256 r \<noteq> []"
    "rt_checkpoint_ref r \<noteq> []" "rt_applied_input_ref r \<noteq> []" "rt_state r \<noteq> []" "rt_boundary_reason r \<noteq> []"
    using m ne by blast+
  have k: "parse_literal (activation_receipt_to_json r) ''outcome_kind'' TerminalOutcomeKind None = Inr (rt_outcome_kind r)"
    by (rule parse_literal_present [OF _ m(9)]) (simp add: activation_receipt_to_json_def)
  have y: "RetryEligibility_of (retry_value z) = Inr z" "retry_value z \<noteq> []" for z
    by (cases z; simp add: RetryEligibility_of_def)+
  have c: "(if cause_text z = [] then Inr None else res_bind (InterruptionCause_of (cause_text z)) (\<lambda>c. Inr (Some c))) = Inr z" for z
    by (cases z) (simp_all add: cause_text_def)
  have f: "require_only_fields (activation_receipt_to_json r) ACTIVATION_RECEIPT_FIELDS l = Inr ()" for l
    by (simp add: require_only_fields_def activation_receipt_to_json_def ACTIVATION_RECEIPT_FIELDS_def)
  have sv: "ACTIVATION_RECEIPT_SCHEMA_VERSION \<noteq> []" by (simp add: ACTIVATION_RECEIPT_SCHEMA_VERSION_def)
  note rest = parse_str_strict [OF assms(1)] parse_bool_strict [OF assms(1)] parse_int_def
  have s: "make_activation_receipt cfg (r\<lparr>rt_schema_version := ACTIVATION_RECEIPT_SCHEMA_VERSION\<rparr>) = Inr r"
    using assms(2,3) by (cases r) simp
  show ?thesis
    unfolding activation_receipt_from_json_def require_object_strict [OF assms(1)] pyval.case res_bind_Inr f k
    using nes s by (cases r) (simp add: activation_receipt_to_json_def R rest y c sv)
qed

section \<open>Redelivered commands\<close>

lemma written_receipt_accepted:
  assumes strict: "pydantic_strict va" and sha: "\<forall>d. recorded_digest (sha d)" and cmd: "make_activation cfg m = Inr m"
    and c: "is_checkpoint c" "ck_seq c = PInt n" "dget c ''schema_version'' = PStr CHECKPOINT_SCHEMA_VERSION" "dget c ''terminal'' = PBool b"
    and src: "am_source_checkpoint_seq m < n" "is_portable_json_integer cfg (IInt n)" "portable_from cfg 0 cursor"
    and len: "length (am_run_id m) + length (show_int n) \<le> 244"
    and raw: "dget c ''last_suspension'' = PDict raw" and trm: "dget raw ''reason'' = PStr ''terminal'' \<Longrightarrow> b"
      "b \<Longrightarrow> dget raw ''reason'' \<in> {PStr ''terminal'', PStr ''limited''}"
    and ann: "annotated_checkpoint va cfg sha m cursor c = Inr c'"
    and wr: "checkpoint_payload_for_write va cfg sha c' = Inr p"
  shows "\<exists>r. receipt_from_checkpoint va cfg sha m p None = Inr r \<and> make_activation_receipt cfg r = Inr r \<and>
    rt_schema_version r = ACTIVATION_RECEIPT_SCHEMA_VERSION \<and>
    rt_command_id r = am_command_id m \<and> rt_command_identity_sha256 r = activation_identity sha m \<and> rt_checkpoint_seq r = n \<and>
    rt_event_cursor r = cursor \<and> rt_terminal r = b \<and> dget raw ''reason'' = PStr (rt_boundary_reason r)"
proof -
  let ?k = "checkpoint_marker sha m" and ?id = "activation_identity sha m"
  have ne: "dget c ''last_suspension'' \<noteq> PNone" using raw by simp
  obtain s x st c2 where bd: "boundary_of va cfg m c = Inr (s, x)" and st: "state_from_suspension s = Inr st" and c2: "is_checkpoint c2"
    and ids: "PStr ?k \<in> set (applied_inputs c2)" and get: "\<forall>k. k \<notin> {''active_input'', ''applied_input_ids''} \<longrightarrow> dget c2 k = dget c k"
    and c': "\<exists>digest. digest = sha (with_receipt (norm_items c2) ?k (boundary_receipt sha m (int_val (ck_seq c)) cursor s st
          (dget c ''terminal'' = PBool True \<or> su_reason s = ''terminal'') x [])) \<and>
        c' = with_receipt c2 ?k (boundary_receipt sha m (int_val (ck_seq c)) cursor s st
          (dget c ''terminal'' = PBool True \<or> su_reason s = ''terminal'') x digest)"
    by (rule annotated_completed [OF c(1) ne ann])
  note sus = boundary_outcome [OF bd raw]
  note reason = suspension_reason [OF strict sus(1)]
  have t: "(dget c ''terminal'' = PBool True \<or> su_reason s = ''terminal'') = b" using c(4) trm reason by auto
  let ?R = "\<lambda>d. boundary_receipt sha m n cursor s st b x d"
  let ?D = "sha (with_receipt (norm_items c2) ?k (?R []))"
  have c': "c' = with_receipt c2 ?k (?R ?D)" using c' by (simp add: t c(2))
  have wc: "is_checkpoint c'" unfolding c' by (rule with_receipt_checkpoint [OF c2])
  have p: "p = with_receipt (norm_items c2) ?k (?R ?D)"
    using written_decodes(1) [OF wc wr] written_norm [OF wc] get c(3) by (simp add: c' with_receipt_get norm_with_receipt)
  have pc: "is_checkpoint p" using written_is_checkpoint [OF wc] written_decodes(1) [OF wc wr] by simp
  have dg: "checkpoint_receipt_digest sha p ?k = Inr ?D"
    using digest_with_receipt [OF is_checkpointD(2) [OF pc, unfolded p]] by (simp add: p)
  have pg: "PStr ?k \<in> set (applied_inputs p)" "stored_receipt p ?k = PDict (?R ?D)" "ck_seq p = PInt n" "dget p ''terminal'' = PBool b"
  proof -
    have "dget p ''applied_input_ids'' = norm_val False (dget c2 ''applied_input_ids'')" by (simp add: p with_receipt_get dget_norm_items)
    then show "PStr ?k \<in> set (applied_inputs p)" using ids
      by (cases "dget c2 ''applied_input_ids''") (force simp: applied_inputs_def parts_of_def)+
    show "stored_receipt p ?k = PDict (?R ?D)" by (simp add: stored_receipt_def attr_def p with_receipt_get dget_update)
    show "ck_seq p = PInt n" "dget p ''terminal'' = PBool b"
      using get c(2,4) by (simp_all add: ck_seq_def p with_receipt_get dget_norm_items)
  qed
  have id: "recorded_digest ?id" "recorded_digest ?D" using sha by (simp_all add: activation_identity_def)
  have bm: "boundary_metadata_ok cfg sha m p (?R ?D) s st"
    using src id(2) trm reason pg(3) by (auto simp: boundary_metadata_ok_def receipt_get portable_cursor_def portable_from_def
        is_portable_json_integer_def UNCONDITIONALLY_SPELLABLE_INT_def)
  have om: "outcome_metadata_ok m (?R ?D) x b" by (simp add: outcome_metadata_ok_def receipt_get)
  have oc: "terminal_outcome_from_suspension cfg s (am_run_id m) (Some n) [] [] [] = Inr x" using sus(2) by (simp add: c(2))
  let ?r = "\<lparr>rt_run_id = am_run_id m, rt_command_id = am_command_id m,
      rt_command_sequence = am_command_sequence m, rt_command_identity_sha256 = ?id,
      rt_checkpoint_seq = n, rt_checkpoint_sha256 = ?D, rt_checkpoint_ref = checkpoint_ref (am_run_id m) n,
      rt_state = state_value st, rt_boundary_reason = su_reason s, rt_terminal = b,
      rt_terminal_ref = terminal_ref (am_run_id m) b, rt_applied_input_ref = applied_input_ref sha m,
      rt_event_cursor = cursor, rt_stream_cursor = 0, rt_outcome_kind = to_kind x, rt_retry_eligibility = to_retry_eligibility x,
      rt_error_code = to_error_code x, rt_provider_error_code = to_provider_error_code x,
      rt_interruption_cause = to_interruption_cause x, rt_schema_version = ACTIVATION_RECEIPT_SCHEMA_VERSION\<rparr>"
  have run: "opaque_id (am_run_id m)" "opaque_id (am_command_id m)" "portable_from cfg 1 (am_command_sequence m)" "0 \<le> am_source_checkpoint_seq m"
    using cmd by (auto simp: make_activation_def require_positive_integer_def require_nonnegative_integer_def portable_from_def res_bind_eq_Inr)
  have zero: "portable_from cfg 0 0" by (simp add: portable_from_def is_portable_json_integer_def UNCONDITIONALLY_SPELLABLE_INT_def)
  have digits: "0 < length (show_int n)" using show_nat_digits [of "nat n"] by (simp add: show_int_def)
  have mk: "make_activation_receipt cfg ?r = Inr ?r"
    using run src id outcome_of_suspension_fields [OF oc] suspension_from_payload_vocabulary(1) [OF sus(1)] zero
      checkpoint_ref_address [OF run(1) _ len] applied_ref_address [OF id(1)] terminal_ref_address [OF run(1), of b] len digits
    by (simp add: make_activation_receipt_def ACCEPTED_ACTIVATION_RECEIPT_SCHEMA_VERSIONS_def ACTIVATION_RECEIPT_SCHEMA_VERSION_def
        accepted_namespaced_ids_iff require_positive_integer_def require_nonnegative_integer_def require_digest_def portable_from_def terminal_ref_def)
  have "receipt_from_checkpoint va cfg sha m p None = make_activation_receipt cfg ?r"
    using pg(1,2,3,4) suspension_of_payload [OF strict sus(1)] st bm om oc dg
    by (simp add: receipt_from_checkpoint_def receipt_get Let_def)
  with mk reason show ?thesis by (intro exI [of _ ?r]) simp
qed

text \<open>C38. A redelivered activation is recognised. When an activation completes, its sink annotates the
  checkpoint with the identity of the command and the receipt of the boundary before it is written. The
  payload that is stored, and so the checkpoint any process loads later, yields a valid receipt for the
  very same command: its own identity, the boundary, the event cursor and the terminal flag of the
  annotated checkpoint, which survives its own wire form. A second delivery of the command is therefore
  answered from storage.\<close>

theorem redelivered_activation_is_recognised:
  assumes "pydantic_strict va" and "\<forall>d. recorded_digest (sha d)" and "make_activation cfg m = Inr m"
    and "is_checkpoint c" and "ck_seq c = PInt n" and "dget c ''schema_version'' = PStr CHECKPOINT_SCHEMA_VERSION"
    and "dget c ''terminal'' = PBool b" and "am_source_checkpoint_seq m < n" and "is_portable_json_integer cfg (IInt n)"
    and "portable_from cfg 0 cursor" and "length (am_run_id m) + length (show_int n) \<le> 244"
    and "dget c ''last_suspension'' = PDict raw" and "dget raw ''reason'' = PStr ''terminal'' \<Longrightarrow> b"
    and "b \<Longrightarrow> dget raw ''reason'' \<in> {PStr ''terminal'', PStr ''limited''}"
    and "annotated_checkpoint va cfg sha m cursor c = Inr c'" and "checkpoint_payload_for_write va cfg sha c' = Inr p"
  shows "\<exists>r. lr_value (decode_checkpoint va cfg sha (PDict p)) = Some p \<and> receipt_from_checkpoint va cfg sha m p None = Inr r \<and>
    rt_command_identity_sha256 r = activation_identity sha m \<and> rt_command_id r = am_command_id m \<and> rt_checkpoint_seq r = n \<and>
    rt_event_cursor r = cursor \<and> rt_terminal r = b \<and> dget raw ''reason'' = PStr (rt_boundary_reason r) \<and>
    activation_receipt_from_json va cfg (PDict (activation_receipt_to_json r)) = Inr r"
proof -
  from written_receipt_accepted [OF assms] obtain r where r: "receipt_from_checkpoint va cfg sha m p None = Inr r"
    "make_activation_receipt cfg r = Inr r" "rt_schema_version r = ACTIVATION_RECEIPT_SCHEMA_VERSION"
    "rt_command_id r = am_command_id m" "rt_command_identity_sha256 r = activation_identity sha m" "rt_checkpoint_seq r = n"
    "rt_event_cursor r = cursor" "rt_terminal r = b" "dget raw ''reason'' = PStr (rt_boundary_reason r)" by blast
  have "dget c ''last_suspension'' \<noteq> PNone" using assms(12) by simp
  from annotated_is_checkpoint [OF assms(4) this assms(15)] have "is_checkpoint c'" .
  from written_decodes(3) [OF this assms(16)] r activation_receipt_roundtrip [OF assms(1) r(2,3)] show ?thesis by blast
qed

definition demo_activation :: activation_command where
  "demo_activation = \<lparr>am_run_id = ''r1'', am_command_id = ''cmd1'', am_command_sequence = 1, am_kind = ''input'',
     am_source_checkpoint_seq = 2, am_source_checkpoint_sha256 = replicate 64 (CHR ''a''),
     am_request_digest = replicate 64 (CHR ''a''), am_payload_ref = ''blob:x'', am_schema_version = ACTIVATION_COMMAND_SCHEMA_VERSION\<rparr>"

definition demo_park :: pydict where
  "demo_park = [(''reason'', PStr ''settled''), (''status'', PStr ''completed'')]"

definition demo_parked :: run_checkpoint where
  "demo_parked = make_checkpoint [(''run_id'', PStr ''r1''), (''seq'', PInt 3), (''last_suspension'', PDict demo_park)]"

definition demo_sha :: "pydict \<Rightarrow> string" where "demo_sha d = replicate 64 (CHR ''a'')"

lemma demo_parked_facts:
  "is_checkpoint demo_parked" "ck_seq demo_parked = PInt 3" "dget demo_parked ''schema_version'' = PStr CHECKPOINT_SCHEMA_VERSION"
  "dget demo_parked ''terminal'' = PBool False" "dget demo_parked ''last_suspension'' = PDict demo_park"
  by (simp_all add: demo_parked_def is_checkpoint_def make_checkpoint_def CHECKPOINT_ATTRIBUTES_def ck_seq_def dget_def demo_park_def)

definition demo_annotated :: "run_checkpoint res" where
  "demo_annotated = annotated_checkpoint strict_validator 0 demo_sha demo_activation 7 demo_parked"

definition demo_annotated_payload :: "pydict res" where
  "demo_annotated_payload = res_bind demo_annotated (checkpoint_payload_for_write strict_validator 0 demo_sha)"

definition demo_boundary_suspension :: suspension where
  "demo_boundary_suspension = \<lparr>su_reason = ''settled'', su_status = ''completed'', su_final_text = [], su_error = [], su_error_code = [],
     su_awaiting_task_ids = [], su_has_external = False, su_turn = None, su_retryable = False, su_http_status = None,
     su_config_recoverable = False, su_provider_error_code = [], su_provider_retried = False, su_model_tool_calls_pending = False,
     su_interruption_cause = None\<rparr>"

definition demo_outcome :: terminal_outcome where
  "demo_outcome = \<lparr>to_schema_version = TERMINAL_OUTCOME_SCHEMA_VERSION, to_run_id = ''r1'', to_kind = ''completed'',
     to_retry_eligibility = NOT_APPLICABLE, to_interruption_cause = None, to_checkpoint_seq = Some 3, to_final_output_ref = [],
     to_partial_output_ref = [], to_last_evidence_ref = [], to_error_code = [], to_provider_error_code = [], to_http_status = None\<rparr>"

lemma demo_boundary: "boundary_of strict_validator 0 demo_activation demo_parked = Inr (demo_boundary_suspension, demo_outcome)"
  by code_simp

definition demo_marked :: run_checkpoint where
  "demo_marked = set_attr ''applied_input_ids'' (PList [PStr (checkpoint_marker demo_sha demo_activation)])
     (set_attr ''active_input'' (active_input_of demo_sha demo_activation True) demo_parked)"

definition demo_completed :: run_checkpoint where
  "demo_completed = with_receipt demo_marked (checkpoint_marker demo_sha demo_activation)
     (boundary_receipt demo_sha demo_activation 3 7 demo_boundary_suspension AWAITING_INPUT False demo_outcome (demo_sha []))"

lemma demo_marked_checkpoint: "is_checkpoint demo_marked"
  unfolding demo_marked_def by (intro set_attr_checkpoint demo_parked_facts(1) attribute_names) simp_all

lemma demo_annotated_eq: "demo_annotated = Inr demo_completed"
proof -
  let ?r = "boundary_receipt demo_sha demo_activation 3 7 demo_boundary_suspension AWAITING_INPUT False demo_outcome"
  have d: "checkpoint_receipt_digest demo_sha (with_receipt demo_marked k (?r [])) k = Inr (demo_sha [])" for k
    unfolding digest_with_receipt [OF is_checkpointD(2) [OF with_receipt_checkpoint [OF demo_marked_checkpoint]]] by (simp add: demo_sha_def)
  have "applied_inputs demo_parked = []"
    by (simp add: applied_inputs_def demo_parked_def make_checkpoint_def CHECKPOINT_ATTRIBUTES_def dget_def parts_of_def)
  moreover have "state_from_suspension demo_boundary_suspension = Inr AWAITING_INPUT" "su_reason demo_boundary_suspension \<noteq> ''terminal''"
    by (simp_all add: demo_boundary_suspension_def state_from_suspension_def REASON_TO_STATE_def)
  ultimately show ?thesis
    using demo_boundary demo_parked_facts d by (simp add: demo_annotated_def annotated_checkpoint_def demo_completed_def demo_marked_def Let_def)
qed

lemma demo_completed_valid: "validate_checkpoint_payload strict_validator 0 demo_sha (written_payload demo_completed) = Inr ()"
  by code_simp

lemma demo_annotated_written: "is_ok demo_annotated_payload"
proof -
  have c: "is_checkpoint demo_completed" unfolding demo_completed_def by (rule with_receipt_checkpoint [OF demo_marked_checkpoint])
  have n: "dget demo_parked ''last_model_invocation'' = PNone"
    by (simp add: demo_parked_def make_checkpoint_def CHECKPOINT_ATTRIBUTES_def dget_def)
  have "dget (written_payload demo_completed) ''last_model_invocation'' = PNone"
    by (simp add: written_get demo_completed_def with_receipt_get demo_marked_def set_attr_def dget_update n)
  then show ?thesis
    using checkpoint_written [OF c, of strict_validator 0 demo_sha] demo_completed_valid
    by (simp add: demo_annotated_payload_def demo_annotated_eq)
qed

lemma demo_activation_ok: "make_activation 0 demo_activation = Inr demo_activation"
  by code_simp

theorem redelivered_activation_is_recognised_witness:
  "\<exists>p r. demo_annotated_payload = Inr p \<and> receipt_from_checkpoint strict_validator 0 demo_sha demo_activation p None = Inr r \<and>
     rt_checkpoint_seq r = 3 \<and> rt_event_cursor r = 7 \<and> \<not> rt_terminal r"
proof -
  from demo_annotated_written obtain c p where c: "demo_annotated = Inr c"
    and p: "checkpoint_payload_for_write strict_validator 0 demo_sha c = Inr p"
    by (auto simp: demo_annotated_payload_def is_ok_iff res_bind_eq_Inr)
  have sha: "\<forall>d. recorded_digest (demo_sha d)" by (simp add: demo_sha_def recorded_digest_def is_hex_char_def in_range_def list_all_iff)
  have src: "am_source_checkpoint_seq demo_activation < 3" "is_portable_json_integer 0 (IInt 3)" "portable_from 0 0 7"
    "length (am_run_id demo_activation) + length (show_int 3) \<le> 244"
    "dget demo_park ''reason'' = PStr ''terminal'' \<Longrightarrow> False" "False \<Longrightarrow> dget demo_park ''reason'' \<in> {PStr ''terminal'', PStr ''limited''}"
    by (simp_all add: demo_activation_def is_portable_json_integer_def UNCONDITIONALLY_SPELLABLE_INT_def portable_from_def show_int_def
        show_nat.simps [of 3] demo_park_def dget_def)
  from redelivered_activation_is_recognised [OF strict_validator_strict sha demo_activation_ok demo_parked_facts(1-4) src(1-4)
      demo_parked_facts(5) src(5,6) c [unfolded demo_annotated_def] p]
  obtain r where "receipt_from_checkpoint strict_validator 0 demo_sha demo_activation p None = Inr r" "rt_checkpoint_seq r = 3"
    "rt_event_cursor r = 7" "\<not> rt_terminal r" by blast
  moreover have "demo_annotated_payload = Inr p" unfolding demo_annotated_payload_def c by (simp add: p)
  ultimately show ?thesis by blast
qed

text \<open>Run ids of up to 256 characters are admitted, but the address of a checkpoint has to fit 256 characters
  together with its scheme: no receipt can be built for a run whose id is longer than 244 characters, and an
  activation of such a run never gets one.\<close>

lemma long_run_ids_have_no_receipt:
  assumes "244 \<le> length (am_run_id m)"
  shows "\<not> is_ok (receipt_from_checkpoint va cfg sha m c winner)"
proof
  assume "is_ok (receipt_from_checkpoint va cfg sha m c winner)"
  then obtain r where "receipt_from_checkpoint va cfg sha m c winner = Inr r" by (auto simp: is_ok_iff)
  then have "\<exists>r0 n. make_activation_receipt cfg r0 = Inr r \<and> rt_checkpoint_ref r0 = checkpoint_ref (am_run_id m) n"
    unfolding receipt_from_checkpoint_def Let_def
    by (simp add: res_bind_eq_Inr split: if_splits pyval.splits sum.splits)
       ((elim exE conjE)?, intro exI conjI, assumption, simp)+
  then obtain r0 n where "make_activation_receipt cfg r0 = Inr r" "rt_checkpoint_ref r0 = checkpoint_ref (am_run_id m) n" by blast
  then have "opaque_address (checkpoint_ref (am_run_id m) n)" by (auto simp: make_activation_receipt_def res_bind_eq_Inr)
  then have "length (checkpoint_ref (am_run_id m) n) \<le> 256" by (simp add: opaque_address_def)
  moreover have "0 < length (show_int n)" using show_nat_digits [of "nat n"] by (simp add: show_int_def)
  ultimately show False using assms by (simp add: checkpoint_ref_def)
qed

end
