(* ===== verification/Admission.thy ===== *)
theory Admission
  imports Activation
begin

text \<open>
  Command admission (\<open>hosting/admission.py\<close>): requests, admitted commands, receipts, dispatch claims and
  results with their constructor checks and wire forms, and the finite claim-send-settle cycle of the
  command dispatcher over an arbitrary store and transport.
\<close>

section \<open>Bounds\<close>

definition MAX_COMMAND_DISPATCH_LEASE_S :: rat where "MAX_COMMAND_DISPATCH_LEASE_S = 86400"
definition MAX_COMMAND_RETRY_DELAY_S :: rat where "MAX_COMMAND_RETRY_DELAY_S = 86400"

definition retry_delay_error :: exn where
  "retry_delay_error = ValueError ''command dispatcher retry delay must be a non-negative finite number''"

definition bounded_retry_delay_s :: "pyval \<Rightarrow> pyfloat res" where
  "bounded_retry_delay_s v = (case v of
      PInt n \<Rightarrow> if n < 0 then Inl retry_delay_error
        else if MAX_COMMAND_RETRY_DELAY_S < of_int n then Inr (Fin MAX_COMMAND_RETRY_DELAY_S)
        else float_of_int n
    | PFloat f \<Rightarrow> if \<not> is_finite_float f \<or> flt_lt f (Fin 0) then Inl retry_delay_error
        else Inr (flt_min f (Fin MAX_COMMAND_RETRY_DELAY_S))
    | _ \<Rightarrow> Inl retry_delay_error)"

definition validated_dispatch_lease_s :: "pyval \<Rightarrow> pyfloat res" where
  "validated_dispatch_lease_s v =
     (let valid = (case v of
          PInt n \<Rightarrow> 0 < n \<and> of_int n \<le> MAX_COMMAND_DISPATCH_LEASE_S
        | PFloat f \<Rightarrow> is_finite_float f \<and> flt_lt (Fin 0) f \<and> flt_le f (Fin MAX_COMMAND_DISPATCH_LEASE_S)
        | _ \<Rightarrow> False) in
      if \<not> valid then Inl (ValueError ''command dispatcher lease_s must be in the range (0, 86400]'') else to_float v)"

section \<open>Requests\<close>

definition ADMISSION_REQUEST_SCHEMA_VERSION :: string where
  "ADMISSION_REQUEST_SCHEMA_VERSION = namespaced_id ''admission-request.v1''"
definition ACCEPTED_ADMISSION_REQUEST_SCHEMA_VERSIONS :: "string list" where
  "ACCEPTED_ADMISSION_REQUEST_SCHEMA_VERSIONS = accepted_namespaced_ids ''admission-request.v1''"
definition ADMITTED_COMMAND_SCHEMA_VERSION :: string where
  "ADMITTED_COMMAND_SCHEMA_VERSION = namespaced_id ''admitted-command.v1''"
definition ACCEPTED_ADMITTED_COMMAND_SCHEMA_VERSIONS :: "string list" where
  "ACCEPTED_ADMITTED_COMMAND_SCHEMA_VERSIONS = accepted_namespaced_ids ''admitted-command.v1''"
definition ADMISSION_RECEIPT_SCHEMA_VERSION :: string where
  "ADMISSION_RECEIPT_SCHEMA_VERSION = namespaced_id ''admission-receipt.v1''"
definition ACCEPTED_ADMISSION_RECEIPT_SCHEMA_VERSIONS :: "string list" where
  "ACCEPTED_ADMISSION_RECEIPT_SCHEMA_VERSIONS = accepted_namespaced_ids ''admission-receipt.v1''"

definition ADMISSION_REQUEST_FIELDS :: "string list" where
  "ADMISSION_REQUEST_FIELDS = [''schema_version'', ''run_id'', ''command_id'', ''kind'', ''request_digest'', ''payload_ref'',
     ''identity_sha256'']"

definition ADMITTED_COMMAND_FIELDS :: "string list" where
  "ADMITTED_COMMAND_FIELDS = [''schema_version'', ''run_id'', ''command_id'', ''command_sequence'', ''kind'', ''request_digest'',
     ''payload_ref'', ''request_identity_sha256'', ''identity_sha256'']"

record admission_request =
  aq_run_id :: string
  aq_command_id :: string
  aq_kind :: string
  aq_request_digest :: string
  aq_payload_ref :: string
  aq_schema_version :: string

definition make_request :: "admission_request \<Rightarrow> admission_request res" where
  "make_request q =
     res_bind (guard (aq_schema_version q \<in> set ACCEPTED_ADMISSION_REQUEST_SCHEMA_VERSIONS)
       (ValueError ''unsupported admission request schema'')) (\<lambda>_.
     res_bind (guard (opaque_id (aq_run_id q) \<and> opaque_id (aq_command_id q))
       (ValueError ''admission request identities must be bounded opaque ids'')) (\<lambda>_.
     res_bind (guard (aq_kind q \<in> set ActivationCommandKind)
       (ValueError ''admission request kind is outside the portable vocabulary'')) (\<lambda>_.
     res_bind (require_digest (aq_request_digest q) ''admission request digest'') (\<lambda>_.
     res_bind (guard (opaque_address (aq_payload_ref q))
       (ValueError ''admission request payload_ref must be a bounded opaque address'')) (\<lambda>_.
     Inr q)))))"

definition request_members :: "admission_request \<Rightarrow> pydict" where
  "request_members q = [(''schema_version'', PStr ADMISSION_REQUEST_SCHEMA_VERSION), (''run_id'', PStr (aq_run_id q)),
     (''command_id'', PStr (aq_command_id q)), (''kind'', PStr (aq_kind q)), (''request_digest'', PStr (aq_request_digest q)),
     (''payload_ref'', PStr (aq_payload_ref q))]"

definition request_identity :: "(pydict \<Rightarrow> string) \<Rightarrow> admission_request \<Rightarrow> string" where
  "request_identity sha q = sha (request_members q)"

definition request_to_json :: "(pydict \<Rightarrow> string) \<Rightarrow> admission_request \<Rightarrow> pydict" where
  "request_to_json sha q = request_members q @ [(''identity_sha256'', PStr (request_identity sha q))]"

definition request_from_json :: "validator \<Rightarrow> (pydict \<Rightarrow> string) \<Rightarrow> pyval \<Rightarrow> admission_request res" where
  "request_from_json va sha payload =
     res_bind (require_object va payload ''admission request'') (\<lambda>d.
     res_bind (require_only_fields d ADMISSION_REQUEST_FIELDS ''admission request'') (\<lambda>_.
     res_bind (req_str va d ''schema_version'') (\<lambda>sv.
     res_bind (req_str va d ''run_id'') (\<lambda>run.
     res_bind (req_str va d ''command_id'') (\<lambda>cid.
     res_bind (parse_literal d ''kind'' ActivationCommandKind None) (\<lambda>kind.
     res_bind (req_str va d ''request_digest'') (\<lambda>rd.
     res_bind (req_str va d ''payload_ref'') (\<lambda>pr.
     res_bind (make_request \<lparr>aq_run_id = run, aq_command_id = cid, aq_kind = kind, aq_request_digest = rd,
       aq_payload_ref = pr, aq_schema_version = sv\<rparr>) (\<lambda>q.
     res_bind (req_str va d ''identity_sha256'') (\<lambda>ident.
     if ident \<noteq> request_identity sha q then Inl (ValueError ''admission request identity digest mismatch'') else Inr q))))))))))"

section \<open>Admitted commands\<close>

record admitted_command =
  ad_run_id :: string
  ad_command_id :: string
  ad_command_sequence :: int
  ad_kind :: string
  ad_request_digest :: string
  ad_payload_ref :: string
  ad_request_identity_sha256 :: string
  ad_schema_version :: string

definition request_of :: "admitted_command \<Rightarrow> admission_request" where
  "request_of a = \<lparr>aq_run_id = ad_run_id a, aq_command_id = ad_command_id a, aq_kind = ad_kind a,
     aq_request_digest = ad_request_digest a, aq_payload_ref = ad_payload_ref a, aq_schema_version = ADMISSION_REQUEST_SCHEMA_VERSION\<rparr>"

definition make_admitted :: "int \<Rightarrow> (pydict \<Rightarrow> string) \<Rightarrow> admitted_command \<Rightarrow> admitted_command res" where
  "make_admitted cfg sha a =
     res_bind (guard (ad_schema_version a \<in> set ACCEPTED_ADMITTED_COMMAND_SCHEMA_VERSIONS)
       (ValueError ''unsupported admitted command schema'')) (\<lambda>_.
     res_bind (guard (opaque_id (ad_run_id a) \<and> opaque_id (ad_command_id a))
       (ValueError ''admitted command identities must be bounded opaque ids'')) (\<lambda>_.
     res_bind (require_positive_integer cfg (ad_command_sequence a) ''admitted command sequence'') (\<lambda>_.
     res_bind (guard (ad_kind a \<in> set ActivationCommandKind)
       (ValueError ''admitted command kind is outside the portable vocabulary'')) (\<lambda>_.
     res_bind (require_digest (ad_request_digest a) ''admitted command request digest'') (\<lambda>_.
     res_bind (require_digest (ad_request_identity_sha256 a) ''admission request identity'') (\<lambda>_.
     res_bind (guard (opaque_address (ad_payload_ref a))
       (ValueError ''admitted command payload_ref must be a bounded opaque address'')) (\<lambda>_.
     res_bind (make_request (request_of a)) (\<lambda>q.
     res_bind (guard (request_identity sha q = ad_request_identity_sha256 a)
       (ValueError ''admitted command request identity mismatch'')) (\<lambda>_.
     Inr a)))))))))"

definition admitted_members :: "admitted_command \<Rightarrow> pydict" where
  "admitted_members a = [(''schema_version'', PStr ADMITTED_COMMAND_SCHEMA_VERSION), (''run_id'', PStr (ad_run_id a)),
     (''command_id'', PStr (ad_command_id a)), (''command_sequence'', PInt (ad_command_sequence a)), (''kind'', PStr (ad_kind a)),
     (''request_digest'', PStr (ad_request_digest a)), (''payload_ref'', PStr (ad_payload_ref a)),
     (''request_identity_sha256'', PStr (ad_request_identity_sha256 a))]"

definition admitted_identity :: "(pydict \<Rightarrow> string) \<Rightarrow> admitted_command \<Rightarrow> string" where
  "admitted_identity sha a = sha (admitted_members a)"

definition admitted_to_json :: "(pydict \<Rightarrow> string) \<Rightarrow> admitted_command \<Rightarrow> pydict" where
  "admitted_to_json sha a = admitted_members a @ [(''identity_sha256'', PStr (admitted_identity sha a))]"

definition admitted_from_request :: "int \<Rightarrow> (pydict \<Rightarrow> string) \<Rightarrow> admission_request \<Rightarrow> int \<Rightarrow> admitted_command res" where
  "admitted_from_request cfg sha q n = make_admitted cfg sha \<lparr>ad_run_id = aq_run_id q, ad_command_id = aq_command_id q,
     ad_command_sequence = n, ad_kind = aq_kind q, ad_request_digest = aq_request_digest q, ad_payload_ref = aq_payload_ref q,
     ad_request_identity_sha256 = request_identity sha q, ad_schema_version = ADMITTED_COMMAND_SCHEMA_VERSION\<rparr>"

definition admitted_from_json :: "validator \<Rightarrow> int \<Rightarrow> (pydict \<Rightarrow> string) \<Rightarrow> pyval \<Rightarrow> admitted_command res" where
  "admitted_from_json va cfg sha payload =
     res_bind (require_object va payload ''admitted command'') (\<lambda>d.
     res_bind (require_only_fields d ADMITTED_COMMAND_FIELDS ''admitted command'') (\<lambda>_.
     res_bind (req_str va d ''schema_version'') (\<lambda>sv.
     res_bind (req_str va d ''run_id'') (\<lambda>run.
     res_bind (req_str va d ''command_id'') (\<lambda>cid.
     res_bind (parse_int d ''command_sequence'' 0) (\<lambda>sq.
     res_bind (parse_literal d ''kind'' ActivationCommandKind None) (\<lambda>kind.
     res_bind (req_str va d ''request_digest'') (\<lambda>rd.
     res_bind (req_str va d ''payload_ref'') (\<lambda>pr.
     res_bind (req_str va d ''request_identity_sha256'') (\<lambda>ri.
     res_bind (make_admitted cfg sha \<lparr>ad_run_id = run, ad_command_id = cid, ad_command_sequence = sq, ad_kind = kind,
       ad_request_digest = rd, ad_payload_ref = pr, ad_request_identity_sha256 = ri, ad_schema_version = sv\<rparr>) (\<lambda>a.
     res_bind (req_str va d ''identity_sha256'') (\<lambda>ident.
     if ident \<noteq> admitted_identity sha a then Inl (ValueError ''admitted command identity digest mismatch'') else Inr a))))))))))))"

definition activation_matches_admission :: "activation_command \<Rightarrow> admitted_command \<Rightarrow> bool" where
  "activation_matches_admission m a \<longleftrightarrow> am_run_id m = ad_run_id a \<and> am_command_id m = ad_command_id a \<and>
     am_command_sequence m = ad_command_sequence a \<and> am_kind m = ad_kind a \<and> am_request_digest m = ad_request_digest a \<and>
     am_payload_ref m = ad_payload_ref a"

section \<open>Receipts\<close>

datatype admission_state = Prepared | Dispatched | ActivationClaimed | Completed | RunTerminal | DeadLetter

fun admission_state_str :: "admission_state \<Rightarrow> string" where
  "admission_state_str Prepared = ''prepared''"
| "admission_state_str Dispatched = ''dispatched''"
| "admission_state_str ActivationClaimed = ''activation_claimed''"
| "admission_state_str Completed = ''completed''"
| "admission_state_str RunTerminal = ''run_terminal''"
| "admission_state_str DeadLetter = ''dead_letter''"

definition all_admission_states :: "admission_state list" where
  "all_admission_states = [Prepared, Dispatched, ActivationClaimed, Completed, RunTerminal, DeadLetter]"

record admission_receipt =
  ap_command :: admitted_command
  ap_state :: admission_state
  ap_attempt_count :: int
  ap_dispatch_ref :: string
  ap_error_code :: string
  ap_activation_command :: "activation_command option"
  ap_activation_receipt :: "activation_receipt option"
  ap_schema_version :: string

definition completion_consistent :: "(pydict \<Rightarrow> string) \<Rightarrow> activation_command option \<Rightarrow> activation_receipt \<Rightarrow> bool" where
  "completion_consistent sha activation r = (case activation of
      None \<Rightarrow> False
    | Some m \<Rightarrow> rt_run_id r = am_run_id m \<and> rt_command_id r = am_command_id m \<and> rt_command_sequence r = am_command_sequence m \<and>
        rt_command_identity_sha256 r = activation_identity sha m \<and> am_source_checkpoint_seq m < rt_checkpoint_seq r \<and>
        rt_checkpoint_ref r = checkpoint_ref (am_run_id m) (rt_checkpoint_seq r) \<and>
        rt_applied_input_ref r = applied_input_ref sha m \<and> rt_terminal_ref r = terminal_ref (am_run_id m) (rt_terminal r))"

text \<open>The evidence a state carries: the complaint about a receipt whose evidence does not fit its state.\<close>

definition state_evidence_error :: "admission_receipt \<Rightarrow> string option" where
  "state_evidence_error p =
     (let bound = (ap_activation_command p \<noteq> None); finished = (ap_activation_receipt p \<noteq> None);
          sent = (ap_dispatch_ref p \<noteq> []); failed = (ap_error_code p \<noteq> []) in
     case ap_state p of
       Prepared \<Rightarrow> if sent \<or> bound \<or> finished then Some ''prepared admission receipt carries later-state evidence''
         else if ap_attempt_count p = 0 \<and> failed then Some ''unclaimed admission receipt cannot carry a dispatch error''
         else None
     | Dispatched \<Rightarrow> if \<not> sent \<or> failed \<or> bound \<or> finished
         then Some ''dispatched admission receipt evidence is inconsistent'' else None
     | ActivationClaimed \<Rightarrow> if \<not> sent \<or> failed \<or> \<not> bound \<or> finished
         then Some ''claimed admission receipt evidence is inconsistent'' else None
     | Completed \<Rightarrow> if \<not> sent \<or> failed \<or> \<not> bound \<or> \<not> finished
         then Some ''completed admission receipt evidence is inconsistent'' else None
     | RunTerminal \<Rightarrow> if ap_error_code p \<noteq> ''run_terminal'' \<or> sent \<or> bound \<or> finished
         then Some ''terminal-run admission receipt evidence is inconsistent'' else None
     | DeadLetter \<Rightarrow> if \<not> failed \<or> sent \<or> bound \<or> finished
         then Some ''dead-letter admission receipt evidence is inconsistent'' else None)"

definition make_receipt :: "int \<Rightarrow> (pydict \<Rightarrow> string) \<Rightarrow> admission_receipt \<Rightarrow> admission_receipt res" where
  "make_receipt cfg sha p =
     res_bind (guard (ap_schema_version p \<in> set ACCEPTED_ADMISSION_RECEIPT_SCHEMA_VERSIONS)
       (ValueError ''unsupported admission receipt schema'')) (\<lambda>_.
     res_bind (require_nonnegative_integer cfg (ap_attempt_count p) ''admission receipt attempt count'') (\<lambda>_.
     res_bind (guard (ap_state p \<in> {Dispatched, ActivationClaimed, Completed, DeadLetter} \<longrightarrow> 1 \<le> ap_attempt_count p)
       (ValueError ''post-claim admission receipt requires a dispatch attempt'')) (\<lambda>_.
     res_bind (guard (address_or_empty (ap_dispatch_ref p))
       (ValueError ''admission receipt dispatch_ref must be an opaque address'')) (\<lambda>_.
     res_bind (guard (code_or_empty (ap_error_code p))
       (ValueError ''admission receipt error_code must be a taxonomy code'')) (\<lambda>_.
     res_bind (guard (case ap_activation_command p of None \<Rightarrow> True | Some m \<Rightarrow> activation_matches_admission m (ap_command p))
       (ValueError ''admission receipt activation binding is inconsistent'')) (\<lambda>_.
     res_bind (guard (case ap_activation_receipt p of None \<Rightarrow> True | Some r \<Rightarrow> completion_consistent sha (ap_activation_command p) r)
       (ValueError ''admission receipt completion is inconsistent'')) (\<lambda>_.
     (case state_evidence_error p of Some complaint \<Rightarrow> Inl (ValueError complaint) | None \<Rightarrow> Inr p))))))))"

definition receipt_to_json :: "(pydict \<Rightarrow> string) \<Rightarrow> admission_receipt \<Rightarrow> pydict" where
  "receipt_to_json sha p = [(''schema_version'', PStr ADMISSION_RECEIPT_SCHEMA_VERSION),
     (''command'', PDict (admitted_to_json sha (ap_command p))), (''state'', PStr (admission_state_str (ap_state p))),
     (''attempt_count'', PInt (ap_attempt_count p)), (''dispatch_ref'', PStr (ap_dispatch_ref p)),
     (''error_code'', PStr (ap_error_code p)),
     (''activation_command'', case ap_activation_command p of None \<Rightarrow> PNone | Some m \<Rightarrow> PDict (activation_to_json sha m)),
     (''activation_receipt'', case ap_activation_receipt p of None \<Rightarrow> PNone | Some r \<Rightarrow> PDict (activation_receipt_to_json r))]"

definition ADMISSION_RECEIPT_FIELDS :: "string list" where
  "ADMISSION_RECEIPT_FIELDS = [''schema_version'', ''command'', ''state'', ''attempt_count'', ''dispatch_ref'', ''error_code'',
     ''activation_command'', ''activation_receipt'']"

definition admission_state_of :: "string \<Rightarrow> admission_state" where
  "admission_state_of s = (case find (\<lambda>a. admission_state_str a = s) all_admission_states of Some a \<Rightarrow> a | None \<Rightarrow> Prepared)"

definition receipt_from_json :: "validator \<Rightarrow> int \<Rightarrow> (pydict \<Rightarrow> string) \<Rightarrow> pyval \<Rightarrow> admission_receipt res" where
  "receipt_from_json va cfg sha payload =
     res_bind (require_object va payload ''admission receipt'') (\<lambda>d.
     res_bind (require_only_fields d ADMISSION_RECEIPT_FIELDS ''admission receipt'') (\<lambda>_.
     res_bind (req_str va d ''schema_version'') (\<lambda>sv.
     res_bind (admitted_from_json va cfg sha (dget d ''command'')) (\<lambda>a.
     res_bind (parse_literal d ''state'' (map admission_state_str all_admission_states) None) (\<lambda>st.
     res_bind (parse_int d ''attempt_count'' 0) (\<lambda>n.
     res_bind (parse_str va d ''dispatch_ref'' []) (\<lambda>ref.
     res_bind (parse_str va d ''error_code'' []) (\<lambda>err.
     res_bind (if dget d ''activation_command'' = PNone then Inr None
       else res_bind (activation_from_json va cfg sha (dget d ''activation_command'')) (\<lambda>m. Inr (Some m))) (\<lambda>m.
     res_bind (if dget d ''activation_receipt'' = PNone then Inr None
       else res_bind (activation_receipt_from_json va cfg (dget d ''activation_receipt'')) (\<lambda>r. Inr (Some r))) (\<lambda>r.
     make_receipt cfg sha \<lparr>ap_command = a, ap_state = admission_state_of st, ap_attempt_count = n, ap_dispatch_ref = ref,
       ap_error_code = err, ap_activation_command = m, ap_activation_receipt = r, ap_schema_version = sv\<rparr>))))))))))"

section \<open>Reading back\<close>

lemma req_str_strict:
  assumes "pydantic_strict va"
  shows "req_str va d k = (case map_of d k of Some (PStr s) \<Rightarrow> if s = [] then Inl (ValueError (k @ '' is required'')) else Inr s
      | Some _ \<Rightarrow> Inl (ValueError (k @ '' must be a string'')) | None \<Rightarrow> Inl (ValueError (k @ '' is required'')))"
  using assms
  by (auto simp: req_str_def parse_required_str_def parse_str_strict dhas_def simp del: dhas_iff split: option.split pyval.split)

lemma checked_text_nonempty [simp]:
  "opaque_id s \<Longrightarrow> s \<noteq> []" "recorded_digest s \<Longrightarrow> s \<noteq> []" "opaque_address s \<Longrightarrow> s \<noteq> []"
  by (auto simp: opaque_id_def recorded_digest_def opaque_address_def)

lemma current_schemas [simp]:
  "ACTIVATION_COMMAND_SCHEMA_VERSION \<noteq> []" "ADMITTED_COMMAND_SCHEMA_VERSION \<noteq> []" "ADMISSION_REQUEST_SCHEMA_VERSION \<noteq> []"
  by (simp_all add: ACTIVATION_COMMAND_SCHEMA_VERSION_def ADMITTED_COMMAND_SCHEMA_VERSION_def ADMISSION_REQUEST_SCHEMA_VERSION_def)

lemma activation_roundtrip:
  assumes "pydantic_strict va" and "make_activation cfg m = Inr m" and "am_schema_version m = ACTIVATION_COMMAND_SCHEMA_VERSION"
    and "recorded_digest (activation_identity sha m)"
  shows "activation_from_json va cfg sha (PDict (activation_to_json sha m)) = Inr m"
proof -
  have m: "opaque_id (am_run_id m)" "opaque_id (am_command_id m)" "am_kind m \<in> set ActivationCommandKind"
    "recorded_digest (am_source_checkpoint_sha256 m)" "recorded_digest (am_request_digest m)" "opaque_address (am_payload_ref m)"
    using assms(2) by (auto simp: make_activation_def require_digest_def res_bind_eq_Inr)
  have k: "parse_literal (activation_to_json sha m) ''kind'' ActivationCommandKind None = Inr (am_kind m)"
    by (rule parse_literal_present [OF _ m(3)]) (simp add: activation_to_json_def activation_members_def)
  have f: "require_only_fields (activation_to_json sha m) ACTIVATION_COMMAND_FIELDS l = Inr ()" for l
    by (simp add: require_only_fields_def activation_to_json_def activation_members_def ACTIVATION_COMMAND_FIELDS_def)
  have s: "make_activation cfg (m\<lparr>am_schema_version := ACTIVATION_COMMAND_SCHEMA_VERSION\<rparr>) = Inr m"
    using assms(2,3) by (cases m) simp
  note e = activation_to_json_def activation_members_def
  show ?thesis
    unfolding activation_from_json_def require_object_strict [OF assms(1)] pyval.case res_bind_Inr f k
    using s assms(4) m by (cases m) (simp add: req_str_strict [OF assms(1)] e parse_int_def)
qed

lemma admitted_members_ok:
  assumes "make_admitted cfg sha a = Inr a"
  shows "opaque_id (ad_run_id a)" "opaque_id (ad_command_id a)" "ad_kind a \<in> set ActivationCommandKind"
    "recorded_digest (ad_request_digest a)" "recorded_digest (ad_request_identity_sha256 a)" "opaque_address (ad_payload_ref a)"
    "portable_from cfg 1 (ad_command_sequence a)" "request_identity sha (request_of a) = ad_request_identity_sha256 a"
  using assms
  by (auto simp: make_admitted_def require_digest_def require_positive_integer_def make_request_def res_bind_eq_Inr)

lemma admitted_roundtrip:
  assumes "pydantic_strict va" and "make_admitted cfg sha a = Inr a" and "ad_schema_version a = ADMITTED_COMMAND_SCHEMA_VERSION"
    and "recorded_digest (admitted_identity sha a)"
  shows "admitted_from_json va cfg sha (PDict (admitted_to_json sha a)) = Inr a"
proof -
  note m = admitted_members_ok [OF assms(2)]
  have k: "parse_literal (admitted_to_json sha a) ''kind'' ActivationCommandKind None = Inr (ad_kind a)"
    by (rule parse_literal_present [OF _ m(3)]) (simp add: admitted_to_json_def admitted_members_def)
  have f: "require_only_fields (admitted_to_json sha a) ADMITTED_COMMAND_FIELDS l = Inr ()" for l
    by (simp add: require_only_fields_def admitted_to_json_def admitted_members_def ADMITTED_COMMAND_FIELDS_def)
  have s: "make_admitted cfg sha (a\<lparr>ad_schema_version := ADMITTED_COMMAND_SCHEMA_VERSION\<rparr>) = Inr a"
    using assms(2,3) by (cases a) simp
  note e = admitted_to_json_def admitted_members_def
  show ?thesis
    unfolding admitted_from_json_def require_object_strict [OF assms(1)] pyval.case res_bind_Inr f k
    using s assms(4) m by (cases a) (simp add: req_str_strict [OF assms(1)] e parse_int_def)
qed

section \<open>Dispatch claims and results\<close>

record dispatch_token =
  dk_run_id :: string
  dk_command_id :: string
  dk_owner_id :: string
  dk_claim_id :: string
  dk_generation :: int

definition make_token :: "int \<Rightarrow> dispatch_token \<Rightarrow> dispatch_token res" where
  "make_token cfg k =
     (let checked = [(''run_id'', dk_run_id k), (''command_id'', dk_command_id k), (''owner_id'', dk_owner_id k),
        (''claim_id'', dk_claim_id k)] in
      case find (\<lambda>(_, v). \<not> opaque_id v) checked of
        Some (name, _) \<Rightarrow> Inl (ValueError (''dispatch token '' @ name @ '' must be a bounded opaque id''))
      | None \<Rightarrow> res_bind (require_positive_integer cfg (dk_generation k) ''dispatch token generation'') (\<lambda>_. Inr k))"

record dispatch_claim =
  dm_token :: dispatch_token
  dm_command :: admitted_command
  dm_attempt :: int

definition make_claim :: "int \<Rightarrow> dispatch_claim \<Rightarrow> dispatch_claim res" where
  "make_claim cfg m =
     (if dk_run_id (dm_token m) \<noteq> ad_run_id (dm_command m) \<or> dk_command_id (dm_token m) \<noteq> ad_command_id (dm_command m)
      then Inl (ValueError ''dispatch claim token belongs to another command'')
      else res_bind (require_positive_integer cfg (dm_attempt m) ''dispatch claim attempt'') (\<lambda>_. Inr m))"

datatype dispatch_status = Accepted | Retry | Rejected

record dispatch_result =
  ds_status :: dispatch_status
  ds_dispatch_ref :: string
  ds_error_code :: string

definition make_dispatch_result :: "dispatch_result \<Rightarrow> dispatch_result res" where
  "make_dispatch_result r =
     res_bind (guard (address_or_empty (ds_dispatch_ref r)) (ValueError ''dispatch result ref must be an opaque address'')) (\<lambda>_.
     res_bind (guard (code_or_empty (ds_error_code r)) (ValueError ''dispatch result error_code must be a taxonomy code'')) (\<lambda>_.
     if ds_status r = Accepted \<and> (ds_dispatch_ref r = [] \<or> ds_error_code r \<noteq> [])
     then Inl (ValueError ''accepted dispatch result requires only a dispatch ref'')
     else if ds_status r \<noteq> Accepted \<and> (ds_dispatch_ref r \<noteq> [] \<or> ds_error_code r = [])
     then Inl (ValueError ''failed dispatch result requires only an error code'')
     else Inr r))"

definition failed_result :: "string \<Rightarrow> dispatch_result" where
  "failed_result code = \<lparr>ds_status = Retry, ds_dispatch_ref = [], ds_error_code = code\<rparr>"

section \<open>The dispatcher\<close>

text \<open>One cycle of \<open>CommandOutboxDispatcher\<close> over a world that holds the store and the transport. What
  the transport answers is its result, something else, or an exception it raised.\<close>

datatype transport_answer = Answers dispatch_result | NoResult | Raises exn

record 'w dispatch_ops =
  do_claim :: "string \<Rightarrow> string \<Rightarrow> pyfloat \<Rightarrow> 'w \<Rightarrow> 'w \<times> dispatch_claim option res"
  do_send :: "admitted_command \<Rightarrow> 'w \<Rightarrow> 'w \<times> transport_answer"
  do_acknowledge :: "dispatch_token \<Rightarrow> dispatch_result \<Rightarrow> 'w \<Rightarrow> 'w \<times> admission_receipt res"
  do_retry :: "dispatch_token \<Rightarrow> string \<Rightarrow> pyval \<Rightarrow> 'w \<Rightarrow> 'w \<times> admission_receipt res"
  do_reject :: "dispatch_token \<Rightarrow> string \<Rightarrow> 'w \<Rightarrow> 'w \<times> admission_receipt res"

record dispatcher =
  dp_owner_id :: string
  dp_lease_s :: pyfloat
  dp_retry_delay_s :: "int \<Rightarrow> pyval res"

definition make_dispatcher :: "string \<Rightarrow> pyval \<Rightarrow> (int \<Rightarrow> pyval res) \<Rightarrow> dispatcher res" where
  "make_dispatcher owner lease delay =
     res_bind (guard (opaque_id owner) (ValueError ''command dispatcher owner_id must be a bounded opaque id'')) (\<lambda>_.
     res_bind (validated_dispatch_lease_s lease) (\<lambda>l.
     Inr \<lparr>dp_owner_id = owner, dp_lease_s = l, dp_retry_delay_s = delay\<rparr>))"

text \<open>The delay a dispatcher uses unless told otherwise: \<open>min(60.0, 2.0 ** min(attempt, 6))\<close>.\<close>

definition default_retry_delay_s :: "int \<Rightarrow> pyval res" where
  "default_retry_delay_s attempt = Inr (PFloat (flt_min (Fin 60) (Fin (2 ^ nat (min attempt 6)))))"

definition sent_result :: "transport_answer \<Rightarrow> dispatch_result" where
  "sent_result a = (case a of
      Answers r \<Rightarrow> r
    | Raises _ \<Rightarrow> failed_result ''dispatch_transport_error''
    | NoResult \<Rightarrow> failed_result ''invalid_dispatch_result'')"

definition settle_claim :: "'w dispatch_ops \<Rightarrow> dispatcher \<Rightarrow> dispatch_claim \<Rightarrow> dispatch_result \<Rightarrow> 'w \<Rightarrow> 'w \<times> admission_receipt res" where
  "settle_claim ops d m r w = (case ds_status r of
      Accepted \<Rightarrow> do_acknowledge ops (dm_token m) r w
    | Rejected \<Rightarrow> do_reject ops (dm_token m) (ds_error_code r) w
    | Retry \<Rightarrow> (case res_bind (dp_retry_delay_s d (dm_attempt m)) bounded_retry_delay_s of
          Inl e \<Rightarrow> (w, Inl e)
        | Inr delay \<Rightarrow> do_retry ops (dm_token m) (ds_error_code r) (PFloat delay) w))"

definition dispatch_once :: "'w dispatch_ops \<Rightarrow> dispatcher \<Rightarrow> string \<Rightarrow> 'w \<Rightarrow> 'w \<times> admission_receipt option res" where
  "dispatch_once ops d claim_id w =
     (if \<not> opaque_id claim_id
      then (w, Inl (ValueError ''command dispatcher claim factory returned an invalid opaque id''))
      else case do_claim ops (dp_owner_id d) claim_id (dp_lease_s d) w of
        (w1, Inl e) \<Rightarrow> (w1, Inl e)
      | (w1, Inr None) \<Rightarrow> (w1, Inr None)
      | (w1, Inr (Some m)) \<Rightarrow>
          (case do_send ops (dm_command m) w1 of
            (w2, answer) \<Rightarrow> (case settle_claim ops d m (sent_result answer) w2 of
                (w3, Inl e) \<Rightarrow> (w3, Inl e)
              | (w3, Inr p) \<Rightarrow> (w3, Inr (Some p)))))"

end
