(* ===== verification/Admission_Store.thy ===== *)
theory Admission_Store
  imports Admission
begin

text \<open>
  The PostgreSQL command admission store (\<open>adapters/postgres/admission.py\<close>): durable admission of
  commands, the ordered dispatch outbox with its claims, and the binding of a delivered command to the
  checkpoint it starts from. The tables are those of \<open>sql/0005\<close>, next to the run journal of the same
  schema. A statement denotes a function on the tables; row locks make the statements of a transaction
  one step, except that a dispatch claim first looks for its claim id and then works on the tables other
  transactions have left meanwhile.
\<close>

section \<open>Tables\<close>

datatype delivery_state = DPending | DLeased | DDelivered | DRunTerminal | DDeadLetter

text \<open>The three columns of a binding are filled together (a check of the table).\<close>

record admission_row =
  aw_sequence :: int
  aw_kind :: string
  aw_request_digest :: string
  aw_payload_ref :: string
  aw_request_identity :: string
  aw_admitted_identity :: string
  aw_content_digest :: string
  aw_payload :: pydict
  aw_activation :: "(string \<times> string \<times> pydict) option"

record dispatch_row =
  dw_state :: delivery_state
  dw_attempts :: int
  dw_available_at :: int
  dw_claim_owner :: "string option"
  dw_claim_id :: "string option"
  dw_generation :: int
  dw_leased_until :: "int option"
  dw_dispatch_ref :: string
  dw_delivered_at :: "int option"
  dw_error_code :: string
  dw_delay :: int
  dw_created_at :: int

type_synonym command_key = "string \<times> string"

record admission_db =
  db_journal :: journal
  db_head :: "string \<Rightarrow> int option"
  db_records :: "(command_key \<times> admission_row) list"
  db_outbox :: "(command_key \<times> dispatch_row) list"

definition update_row :: "'k \<Rightarrow> ('r \<Rightarrow> 'r) \<Rightarrow> ('k \<times> 'r) list \<Rightarrow> ('k \<times> 'r) list" where
  "update_row k f t = map (\<lambda>(k', r). (k', if k' = k then f r else r)) t"

text \<open>\<open>ORDER BY\<close>: the position of a row is compared column by column. Run ids are compared by the rank the
  collation of the database gives them.\<close>

datatype queue_position = Position int int int int

instantiation queue_position :: linorder
begin

fun position_key :: "queue_position \<Rightarrow> int list" where
  "position_key (Position a b c d) = [a, b, c, d]"

definition less_eq_queue_position :: "queue_position \<Rightarrow> queue_position \<Rightarrow> bool" where
  "p \<le> q \<longleftrightarrow> position_key p \<le> position_key q"

definition less_queue_position :: "queue_position \<Rightarrow> queue_position \<Rightarrow> bool" where
  "p < q \<longleftrightarrow> position_key p < position_key q"

instance
proof
  fix p q r :: queue_position
  show "(p < q) = (p \<le> q \<and> \<not> q \<le> p)" by (auto simp: less_eq_queue_position_def less_queue_position_def)
  show "p \<le> p" by (simp add: less_eq_queue_position_def)
  show "p \<le> q \<Longrightarrow> q \<le> r \<Longrightarrow> p \<le> r" by (simp add: less_eq_queue_position_def)
  show "p \<le> q \<Longrightarrow> q \<le> p \<Longrightarrow> p = q" by (cases p; cases q) (auto simp: less_eq_queue_position_def)
  show "p \<le> q \<or> q \<le> p" by (auto simp: less_eq_queue_position_def)
qed

end

text \<open>\<open>LIMIT 1\<close> after \<open>ORDER BY\<close>.\<close>

definition first_by :: "('a \<Rightarrow> queue_position) \<Rightarrow> 'a list \<Rightarrow> 'a option" where
  "first_by f xs = (case sort_key f xs of [] \<Rightarrow> None | x # _ \<Rightarrow> Some x)"

section \<open>Calls\<close>

text \<open>What happens around one call: the readings of the database clock, the rows other transactions hold
  locked (\<open>SKIP LOCKED\<close>), what other transactions commit in the middle of a claim, how the call's own
  transaction fails, the states later reads find, and whether those reads fail.\<close>

record admission_attempt =
  ax_now :: "nat \<Rightarrow> int"
  ax_collate :: "string \<Rightarrow> int"
  ax_locked :: "command_key \<Rightarrow> bool"
  ax_between :: "admission_db \<Rightarrow> admission_db"
  ax_fault :: commit_fault
  ax_later :: "nat \<Rightarrow> admission_db \<Rightarrow> admission_db"
  ax_read_fault :: "exn option"
  ax_reread_fails :: bool

fun after :: "admission_attempt \<Rightarrow> nat \<Rightarrow> admission_db \<Rightarrow> admission_db" where
  "after tx 0 d = d"
| "after tx (Suc n) d = ax_later tx n (after tx n d)"

definition admission_conflict :: exn where "admission_conflict = NativeAgentError ''admission_conflict''"
definition admission_run_unavailable :: exn where "admission_run_unavailable = NativeAgentError ''admission_run_unavailable''"
definition admission_run_terminal :: exn where "admission_run_terminal = NativeAgentError ''admission_run_terminal''"
definition dispatch_claim_lost :: exn where "dispatch_claim_lost = NativeAgentError ''dispatch_claim_lost''"
definition activation_binding_conflict :: exn where "activation_binding_conflict = NativeAgentError ''activation_binding_conflict''"
definition activation_binding_fenced :: exn where "activation_binding_fenced = NativeAgentError ''activation_binding_writer_fenced''"
definition admission_corrupt :: exn where "admission_corrupt = NativeAgentError ''admission_corrupt''"
definition admission_not_ready :: exn where "admission_not_ready = SchemaIncompatible ''command admission''"

fun is_ambiguous :: "exn \<Rightarrow> bool" where
  "is_ambiguous (DatabaseError b) = b"
| "is_ambiguous _ = False"

fun is_native_error :: "exn \<Rightarrow> bool" where
  "is_native_error (NativeAgentError _) = True"
| "is_native_error _ = False"

text \<open>A transaction: an exception of its body or of its statements rolls it back; a failing commit may
  have been applied.\<close>

definition admission_transaction :: "admission_attempt \<Rightarrow> (admission_db \<Rightarrow> (admission_db \<times> 'a) res) \<Rightarrow> admission_db \<Rightarrow>
    admission_db \<times> 'a res" where
  "admission_transaction tx body d = (case body d of
      Inl e \<Rightarrow> (d, Inl e)
    | Inr (d', x) \<Rightarrow> (case ax_fault tx of
          NoFault \<Rightarrow> (d', Inr x)
        | BodyFault e \<Rightarrow> (d, Inl e)
        | CommitFault ambiguous applied \<Rightarrow> (if applied then d' else d, Inl (DatabaseError ambiguous))))"

section \<open>Reading a command\<close>

record stored_admission =
  sd_command :: admitted_command
  sd_activation :: "activation_command option"
  sd_state :: delivery_state
  sd_attempts :: int
  sd_dispatch_ref :: string
  sd_error_code :: string
  sd_owner :: string
  sd_claim_id :: string
  sd_generation :: int
  sd_lease_active :: bool
  sd_delay :: int
  sd_run_terminal :: bool

definition content_digest :: "journal_env \<Rightarrow> pydict \<Rightarrow> string" where
  "content_digest env payload = je_sha env payload"

definition or_corrupt :: "'a res \<Rightarrow> 'a res" where
  "or_corrupt r = (case r of Inl e \<Rightarrow> Inl (if is_payload_error e then admission_corrupt else e) | Inr x \<Rightarrow> Inr x)"

definition command_columns_ok :: "journal_env \<Rightarrow> command_key \<Rightarrow> admission_row \<Rightarrow> admitted_command \<Rightarrow> bool" where
  "command_columns_ok env k a c \<longleftrightarrow> k = (ad_run_id c, ad_command_id c) \<and> aw_sequence a = ad_command_sequence c \<and>
     aw_kind a = ad_kind c \<and> aw_request_digest a = ad_request_digest c \<and> aw_payload_ref a = ad_payload_ref c \<and>
     aw_request_identity a = ad_request_identity_sha256 c \<and> aw_admitted_identity a = admitted_identity (je_sha env) c \<and>
     aw_content_digest a = content_digest env (admitted_to_json (je_sha env) c)"

definition decode_binding :: "journal_env \<Rightarrow> admission_row \<Rightarrow> admitted_command \<Rightarrow> activation_command option res" where
  "decode_binding env a c = (case aw_activation a of
      None \<Rightarrow> Inr None
    | Some (ident, digest, payload) \<Rightarrow>
        res_bind (or_corrupt (activation_from_json (je_va env) (je_cfg env) (je_sha env) (PDict payload))) (\<lambda>m.
        if ident \<noteq> activation_identity (je_sha env) m \<or> digest \<noteq> content_digest env (activation_to_json (je_sha env) m) \<or>
           \<not> activation_matches_admission m c
        then Inl admission_corrupt else Inr (Some m)))"

definition decode_row :: "journal_env \<Rightarrow> command_key \<Rightarrow> admission_row \<Rightarrow> dispatch_row \<Rightarrow> int \<Rightarrow> bool \<Rightarrow> stored_admission res" where
  "decode_row env k a w now terminal_run =
     res_bind (or_corrupt (admitted_from_json (je_va env) (je_cfg env) (je_sha env) (PDict (aw_payload a)))) (\<lambda>c.
     res_bind (guard (command_columns_ok env k a c) admission_corrupt) (\<lambda>_.
     res_bind (decode_binding env a c) (\<lambda>m.
     if dw_attempts w < 0 \<or> dw_generation w < 0 \<or> dw_delay w < 0 then Inl admission_corrupt
     else Inr \<lparr>sd_command = c, sd_activation = m, sd_state = dw_state w, sd_attempts = dw_attempts w,
        sd_dispatch_ref = dw_dispatch_ref w, sd_error_code = dw_error_code w,
        sd_owner = (case dw_claim_owner w of None \<Rightarrow> [] | Some s \<Rightarrow> s),
        sd_claim_id = (case dw_claim_id w of None \<Rightarrow> [] | Some s \<Rightarrow> s), sd_generation = dw_generation w,
        sd_lease_active = (case dw_leased_until w of None \<Rightarrow> False | Some u \<Rightarrow> now < u), sd_delay = dw_delay w,
        sd_run_terminal = terminal_run\<rparr>)))"

definition stored :: "journal_env \<Rightarrow> admission_db \<Rightarrow> int \<Rightarrow> command_key \<Rightarrow> stored_admission option res" where
  "stored env d now k = (case (map_of (db_records d) k, map_of (db_outbox d) k) of
      (Some a, Some w) \<Rightarrow> res_bind (decode_row env k a w now (terminal_exists (db_journal d) (fst k))) (\<lambda>s. Inr (Some s))
    | _ \<Rightarrow> Inr None)"

text \<open>The completion of a bound command, from the latest checkpoint and then the terminal outcome of its
  run; the two reads may find different journals.\<close>

definition completion :: "journal_env \<Rightarrow> journal \<Rightarrow> journal \<Rightarrow> activation_command \<Rightarrow> activation_receipt option res" where
  "completion env j1 j2 m =
     (let project = (\<lambda>c winner. case receipt_from_checkpoint (je_va env) (je_cfg env) (je_sha env) m c winner of
            Inl e \<Rightarrow> Inl (if is_native_error e then admission_corrupt else e) | Inr r \<Rightarrow> Inr r) in
      res_bind (latest_checked env True j1 (am_run_id m)) (\<lambda>l.
      if lr_status l = Missing then Inr None
      else if lr_status l \<notin> {Loaded, Migrated} then Inl admission_corrupt
      else case lr_value l of
        None \<Rightarrow> Inl admission_corrupt
      | Some k \<Rightarrow>
          let c = kr_checkpoint k in
          if PStr (checkpoint_marker (je_sha env) m) \<notin> set (applied_inputs c) then Inr None
          else res_bind (project c None) (\<lambda>r.
            if \<not> rt_terminal r then Inr (Some r)
            else res_bind (read_terminal env True j2 (am_run_id m)) (\<lambda>t. case t of
                None \<Rightarrow> Inr None
              | Some x \<Rightarrow> res_bind (project c (Some x)) (\<lambda>r. Inr (Some r))))))"

definition plain_receipt :: "admitted_command \<Rightarrow> admission_state \<Rightarrow> int \<Rightarrow> string \<Rightarrow> string \<Rightarrow> admission_receipt" where
  "plain_receipt c st n ref err = \<lparr>ap_command = c, ap_state = st, ap_attempt_count = n, ap_dispatch_ref = ref, ap_error_code = err,
     ap_activation_command = None, ap_activation_receipt = None, ap_schema_version = ADMISSION_RECEIPT_SCHEMA_VERSION\<rparr>"

definition receipt_from_stored :: "journal_env \<Rightarrow> journal \<Rightarrow> journal \<Rightarrow> stored_admission \<Rightarrow> admission_receipt res" where
  "receipt_from_stored env j1 j2 s =
     (let receipt = make_receipt (je_cfg env) (je_sha env); c = sd_command s; n = sd_attempts s in
      if sd_state s = DDeadLetter then receipt (plain_receipt c DeadLetter n [] (sd_error_code s))
      else if sd_state s = DRunTerminal \<or> (sd_run_terminal s \<and> sd_activation s = None)
      then receipt (plain_receipt c RunTerminal n [] ''run_terminal'')
      else if sd_state s \<noteq> DDelivered then
        (if sd_activation s \<noteq> None then Inl admission_corrupt else receipt (plain_receipt c Prepared n [] (sd_error_code s)))
      else case sd_activation s of
        None \<Rightarrow> receipt (plain_receipt c Dispatched n (sd_dispatch_ref s) [])
      | Some m \<Rightarrow> res_bind (completion env j1 j2 m) (\<lambda>r.
          receipt ((plain_receipt c (if r \<noteq> None then Completed else ActivationClaimed) n (sd_dispatch_ref s) [])
            \<lparr>ap_activation_command := Some m, ap_activation_receipt := r\<rparr>)))"

text \<open>\<open>receipt\<close>: the row is read in \<open>d\<close>, the journal in later states.\<close>

definition receipt :: "journal_env \<Rightarrow> bool \<Rightarrow> admission_db \<Rightarrow> journal \<Rightarrow> journal \<Rightarrow> int \<Rightarrow> string \<Rightarrow> string \<Rightarrow> admission_receipt option res" where
  "receipt env ready d j1 j2 now run cid =
     res_bind (guard ready admission_not_ready) (\<lambda>_.
     res_bind (guard (opaque_id run \<and> opaque_id cid) (ValueError ''admission receipt target must use bounded opaque ids'')) (\<lambda>_.
     res_bind (stored env d now (run, cid)) (\<lambda>s. case s of
         None \<Rightarrow> Inr None
       | Some x \<Rightarrow> res_bind (receipt_from_stored env j1 j2 x) (\<lambda>p. Inr (Some p)))))"

definition require_receipt :: "journal_env \<Rightarrow> admission_db \<Rightarrow> journal \<Rightarrow> journal \<Rightarrow> int \<Rightarrow> command_key \<Rightarrow> admission_receipt res" where
  "require_receipt env d j1 j2 now k =
     res_bind (receipt env True d j1 j2 now (fst k) (snd k)) (\<lambda>p. case p of None \<Rightarrow> Inl admission_corrupt | Some x \<Rightarrow> Inr x)"

text \<open>How a committing operation is answered: with the receipt read back, and after an ambiguous error with
  what a later read shows, if the operation accepts it.\<close>

definition answered :: "journal_env \<Rightarrow> admission_attempt \<Rightarrow> command_key \<Rightarrow> (stored_admission \<Rightarrow> bool res) \<Rightarrow>
    admission_db \<times> unit res \<Rightarrow> admission_db \<times> admission_receipt res" where
  "answered env tx k accept dr = (case dr of (d, r) \<Rightarrow>
     (case res_bind r (\<lambda>_. case ax_read_fault tx of
         Some e \<Rightarrow> Inl e
       | None \<Rightarrow> require_receipt env (after tx 1 d) (db_journal (after tx 2 d)) (db_journal (after tx 3 d)) (ax_now tx 7) k) of
        Inr p \<Rightarrow> (after tx 3 d, Inr p)
      | Inl e \<Rightarrow> if \<not> is_ambiguous e then (after tx 3 d, Inl e)
          else (after tx 6 d, if ax_reread_fails tx then Inl e
            else case stored env (after tx 4 d) (ax_now tx 8) k of
                Inr (Some s) \<Rightarrow> (case accept s of
                    Inl e' \<Rightarrow> Inl e'
                  | Inr False \<Rightarrow> Inl e
                  | Inr True \<Rightarrow> receipt_from_stored env (db_journal (after tx 5 d)) (db_journal (after tx 6 d)) s)
              | _ \<Rightarrow> Inl e)))"

section \<open>Admission\<close>

definition lock_run :: "admission_db \<Rightarrow> string \<Rightarrow> bool" where
  "lock_run d run \<longleftrightarrow> jn_authority (db_journal d) run \<noteq> None"

definition lock_admission_head :: "admission_db \<Rightarrow> string \<Rightarrow> (admission_db \<times> int) res" where
  "lock_admission_head d run =
     (let d' = (case db_head d run of None \<Rightarrow> d\<lparr>db_head := (db_head d)(run \<mapsto> 0)\<rparr> | Some _ \<Rightarrow> d) in
      case db_head d' run of
        Some n \<Rightarrow> if 0 \<le> n \<and> n \<le> POSTGRES_BIGINT_MAX then Inr (d', n) else Inl admission_corrupt
      | None \<Rightarrow> Inl admission_corrupt)"

definition new_record :: "journal_env \<Rightarrow> admitted_command \<Rightarrow> admission_row" where
  "new_record env c = \<lparr>aw_sequence = ad_command_sequence c, aw_kind = ad_kind c, aw_request_digest = ad_request_digest c,
     aw_payload_ref = ad_payload_ref c, aw_request_identity = ad_request_identity_sha256 c,
     aw_admitted_identity = admitted_identity (je_sha env) c,
     aw_content_digest = content_digest env (admitted_to_json (je_sha env) c), aw_payload = admitted_to_json (je_sha env) c,
     aw_activation = None\<rparr>"

definition new_dispatch :: "int \<Rightarrow> dispatch_row" where
  "new_dispatch now = \<lparr>dw_state = DPending, dw_attempts = 0, dw_available_at = now, dw_claim_owner = None, dw_claim_id = None,
     dw_generation = 0, dw_leased_until = None, dw_dispatch_ref = [], dw_delivered_at = None, dw_error_code = [], dw_delay = 0,
     dw_created_at = now\<rparr>"

text \<open>The unique keys of the record table: the command, the sequence of the run, the admitted identity.\<close>

definition record_taken :: "admission_db \<Rightarrow> command_key \<Rightarrow> admission_row \<Rightarrow> bool" where
  "record_taken d k a \<longleftrightarrow> list_ex (\<lambda>(k', b). k' = k \<or> (fst k' = fst k \<and> aw_sequence b = aw_sequence a) \<or>
     aw_admitted_identity b = aw_admitted_identity a) (db_records d)"

definition insert_admission :: "journal_env \<Rightarrow> admission_attempt \<Rightarrow> admission_request \<Rightarrow> int \<Rightarrow> admission_db \<Rightarrow> admission_db res" where
  "insert_admission env tx q current d =
     (let n = current + 1 in
      if POSTGRES_BIGINT_MAX < n then Inl OverflowError
      else res_bind (admitted_from_request (je_cfg env) (je_sha env) q n) (\<lambda>c.
        let k = (ad_run_id c, ad_command_id c); a = new_record env c in
        if record_taken d k a \<or> map_of (db_outbox d) k \<noteq> None then Inl UniqueViolation
        else Inr (d\<lparr>db_records := db_records d @ [(k, a)], db_outbox := db_outbox d @ [(k, new_dispatch (ax_now tx 1))],
                    db_head := (db_head d)(ad_run_id c \<mapsto> n)\<rparr>)))"

definition admit_locked :: "journal_env \<Rightarrow> admission_attempt \<Rightarrow> admission_request \<Rightarrow> admission_db \<Rightarrow> (admission_db \<times> unit) res" where
  "admit_locked env tx q d =
     (if \<not> lock_run d (aq_run_id q) then Inl admission_run_unavailable
      else res_bind (lock_admission_head d (aq_run_id q)) (\<lambda>(d1, current).
        res_bind (stored env d1 (ax_now tx 0) (aq_run_id q, aq_command_id q)) (\<lambda>existing. case existing of
            Some s \<Rightarrow> if ad_request_identity_sha256 (sd_command s) \<noteq> request_identity (je_sha env) q
              then Inl admission_conflict else Inr (d1, ())
          | None \<Rightarrow> if terminal_exists (db_journal d1) (aq_run_id q) then Inl admission_run_terminal
              else res_bind (insert_admission env tx q current d1) (\<lambda>d2. Inr (d2, ())))))"

definition same_request :: "journal_env \<Rightarrow> admission_request \<Rightarrow> stored_admission \<Rightarrow> bool res" where
  "same_request env q s = (if ad_request_identity_sha256 (sd_command s) \<noteq> request_identity (je_sha env) q
     then Inl admission_conflict else Inr True)"

definition admit :: "journal_env \<Rightarrow> bool \<Rightarrow> admission_attempt \<Rightarrow> admission_request \<Rightarrow> admission_db \<Rightarrow> admission_db \<times> admission_receipt res" where
  "admit env ready tx q d =
     (if \<not> ready then (d, Inl admission_not_ready)
      else answered env tx (aq_run_id q, aq_command_id q) (same_request env q) (admission_transaction tx (admit_locked env tx q) d))"

section \<open>Dispatch claims\<close>

definition unsettled :: "delivery_state list" where "unsettled = [DPending, DLeased, DDelivered]"

text \<open>The oldest row of a finished run that nothing was bound for, or the given one.\<close>

definition terminal_candidate :: "admission_attempt \<Rightarrow> command_key option \<Rightarrow> admission_db \<Rightarrow> command_key option" where
  "terminal_candidate tx target d = map_option fst (first_by
     (\<lambda>(k, w). Position 0 (dw_created_at w) (ax_collate tx (fst k)) (case map_of (db_records d) k of Some a \<Rightarrow> aw_sequence a | None \<Rightarrow> 0))
     (filter (\<lambda>(k, w). dw_state w \<in> set unsettled \<and>
        (case map_of (db_records d) k of Some a \<Rightarrow> aw_activation a = None | None \<Rightarrow> False) \<and>
        terminal_exists (db_journal d) (fst k) \<and> (case target of None \<Rightarrow> True | Some t \<Rightarrow> k = t) \<and> \<not> ax_locked tx k) (db_outbox d)))"

definition close_row :: "dispatch_row \<Rightarrow> dispatch_row" where
  "close_row w = w\<lparr>dw_state := DRunTerminal, dw_leased_until := None, dw_dispatch_ref := [], dw_delivered_at := None,
     dw_error_code := ''run_terminal'', dw_delay := 0\<rparr>"

definition reconcile_one_terminal_dispatch :: "admission_attempt \<Rightarrow> command_key option \<Rightarrow> admission_db \<Rightarrow> admission_db" where
  "reconcile_one_terminal_dispatch tx target d = (case terminal_candidate tx target d of
      None \<Rightarrow> d
    | Some k \<Rightarrow> d\<lparr>db_outbox := update_row k close_row (db_outbox d)\<rparr>)"

definition dispatch_claim_of :: "journal_env \<Rightarrow> stored_admission \<Rightarrow> string \<Rightarrow> string \<Rightarrow> dispatch_claim res" where
  "dispatch_claim_of env s owner claim_id =
     (if sd_state s \<noteq> DLeased \<or> \<not> sd_lease_active s \<or> sd_run_terminal s \<or> sd_owner s \<noteq> owner \<or> sd_claim_id s \<noteq> claim_id \<or>
         sd_generation s < 1 \<or> sd_attempts s < 1
      then Inl dispatch_claim_lost
      else res_bind (make_token (je_cfg env) \<lparr>dk_run_id = ad_run_id (sd_command s), dk_command_id = ad_command_id (sd_command s),
          dk_owner_id = owner, dk_claim_id = claim_id, dk_generation = sd_generation s\<rparr>) (\<lambda>t.
        make_claim (je_cfg env) \<lparr>dm_token = t, dm_command = sd_command s, dm_attempt = sd_attempts s\<rparr>))"

definition claim_ready :: "int \<Rightarrow> dispatch_row \<Rightarrow> bool" where
  "claim_ready now w \<longleftrightarrow> (dw_state w = DPending \<and> dw_available_at w \<le> now) \<or>
     (dw_state w = DLeased \<and> (case dw_leased_until w of Some u \<Rightarrow> u \<le> now | None \<Rightarrow> False))"

text \<open>An earlier command of the run that is not delivered.\<close>

definition prior_undelivered :: "admission_db \<Rightarrow> command_key \<Rightarrow> int \<Rightarrow> bool" where
  "prior_undelivered d k n \<longleftrightarrow> list_ex (\<lambda>(k', w). fst k' = fst k \<and> dw_state w \<noteq> DDelivered \<and>
     (case map_of (db_records d) k' of Some b \<Rightarrow> aw_sequence b < n | None \<Rightarrow> False)) (db_outbox d)"

definition claim_candidate :: "admission_attempt \<Rightarrow> admission_db \<Rightarrow> command_key option" where
  "claim_candidate tx d = map_option fst (first_by
     (\<lambda>(k, w). Position (dw_available_at w) (dw_created_at w) (ax_collate tx (fst k))
        (case map_of (db_records d) k of Some a \<Rightarrow> aw_sequence a | None \<Rightarrow> 0))
     (filter (\<lambda>(k, w). claim_ready (ax_now tx 2) w \<and> jn_authority (db_journal d) (fst k) \<noteq> None \<and>
        \<not> terminal_exists (db_journal d) (fst k) \<and> \<not> ax_locked tx k \<and>
        (case map_of (db_records d) k of Some a \<Rightarrow> \<not> prior_undelivered d k (aw_sequence a) | None \<Rightarrow> False)) (db_outbox d)))"

definition claim_row :: "string \<Rightarrow> string \<Rightarrow> int \<Rightarrow> dispatch_row \<Rightarrow> dispatch_row" where
  "claim_row owner claim_id until w = w\<lparr>dw_state := DLeased, dw_attempts := dw_attempts w + 1, dw_claim_owner := Some owner,
     dw_claim_id := Some claim_id, dw_generation := dw_generation w + 1, dw_leased_until := Some until, dw_error_code := [], dw_delay := 0\<rparr>"

definition POSTGRES_INTEGER_MAX :: int where "POSTGRES_INTEGER_MAX = 2 ^ 31 - 1"

definition claim_statement :: "admission_attempt \<Rightarrow> string \<Rightarrow> string \<Rightarrow> int \<Rightarrow> admission_db \<Rightarrow> (admission_db \<times> command_key option) res" where
  "claim_statement tx owner claim_id us d = (case claim_candidate tx d of
      None \<Rightarrow> Inr (d, None)
    | Some k \<Rightarrow>
        if list_ex (\<lambda>(k', w). k' = k \<and> POSTGRES_INTEGER_MAX \<le> dw_attempts w) (db_outbox d) then Inl (DatabaseError False)
        else if list_ex (\<lambda>(k', w). k' \<noteq> k \<and> dw_claim_id w = Some claim_id) (db_outbox d) then Inl UniqueViolation
        else Inr (d\<lparr>db_outbox := update_row k (claim_row owner claim_id (ax_now tx 3 + us)) (db_outbox d)\<rparr>, Some k))"

definition claim_key :: "admission_db \<Rightarrow> string \<Rightarrow> command_key option" where
  "claim_key d claim_id = map_option fst (find (\<lambda>(k, w). dw_claim_id w = Some claim_id) (db_outbox d))"

definition claim_existing_dispatch :: "journal_env \<Rightarrow> admission_attempt \<Rightarrow> string \<Rightarrow> string \<Rightarrow> command_key \<Rightarrow> admission_db \<Rightarrow>
    (admission_db \<times> dispatch_claim option) res" where
  "claim_existing_dispatch env tx owner claim_id k d =
     (if \<not> lock_run d (fst k) then Inr (d, None)
      else res_bind (stored env d (ax_now tx 0) k) (\<lambda>existing. case existing of
          None \<Rightarrow> Inl (AssertionError [])
        | Some s \<Rightarrow>
            if sd_run_terminal s
            then Inr (reconcile_one_terminal_dispatch tx (Some (ad_run_id (sd_command s), ad_command_id (sd_command s))) d, None)
            else if sd_owner s \<noteq> owner then Inl admission_conflict
            else res_bind (dispatch_claim_of env s owner claim_id) (\<lambda>m. Inr (d, Some m))))"

definition claim_new_dispatch :: "journal_env \<Rightarrow> admission_attempt \<Rightarrow> string \<Rightarrow> string \<Rightarrow> int \<Rightarrow> admission_db \<Rightarrow>
    (admission_db \<times> dispatch_claim option) res" where
  "claim_new_dispatch env tx owner claim_id us d =
     res_bind (claim_statement tx owner claim_id us (reconcile_one_terminal_dispatch tx None d)) (\<lambda>(d2, selected). case selected of
         None \<Rightarrow> Inr (d2, None)
       | Some k \<Rightarrow> res_bind (stored env d2 (ax_now tx 4) k) (\<lambda>s. case s of
             None \<Rightarrow> Inl (AssertionError [])
           | Some x \<Rightarrow> res_bind (dispatch_claim_of env x owner claim_id) (\<lambda>m. Inr (d2, Some m))))"

definition claim_dispatch_locked :: "journal_env \<Rightarrow> admission_attempt \<Rightarrow> string \<Rightarrow> string \<Rightarrow> int \<Rightarrow> command_key option \<Rightarrow> admission_db \<Rightarrow>
    (admission_db \<times> dispatch_claim option) res" where
  "claim_dispatch_locked env tx owner claim_id us found d = (case found of
      Some k \<Rightarrow> claim_existing_dispatch env tx owner claim_id k d
    | None \<Rightarrow> claim_new_dispatch env tx owner claim_id us d)"

definition claim_by_id :: "journal_env \<Rightarrow> admission_attempt \<Rightarrow> admission_db \<Rightarrow> string \<Rightarrow> stored_admission option res" where
  "claim_by_id env tx d claim_id = (case claim_key d claim_id of
      None \<Rightarrow> Inr None
    | Some k \<Rightarrow> if \<not> lock_run d (fst k) then Inr None else stored env d (ax_now tx 8) k)"

text \<open>\<open>math.ceil(seconds * 1_000_000)\<close> on a float, and the check of a duration.\<close>

definition duration_microseconds :: "pyfloat \<Rightarrow> int" where
  "duration_microseconds f = (case f of
      Fin q \<Rightarrow> (case rnd (q * 1000000) of Fin r \<Rightarrow> \<lceil>r\<rceil> | _ \<Rightarrow> 0)
    | _ \<Rightarrow> 0)"

definition checked_duration :: "pyval \<Rightarrow> (pyfloat \<Rightarrow> bool) \<Rightarrow> string \<Rightarrow> pyfloat res" where
  "checked_duration v bounded message = (case v of
      PInt _ \<Rightarrow> res_bind (to_float v) (\<lambda>f. if is_finite_float f \<and> bounded f then Inr f else Inl (ValueError message))
    | PFloat f \<Rightarrow> if is_finite_float f \<and> bounded f then Inr f else Inl (ValueError message)
    | _ \<Rightarrow> Inl (ValueError message))"

definition claim_dispatch :: "journal_env \<Rightarrow> bool \<Rightarrow> admission_attempt \<Rightarrow> string \<Rightarrow> string \<Rightarrow> pyval \<Rightarrow> admission_db \<Rightarrow>
    admission_db \<times> dispatch_claim option res" where
  "claim_dispatch env ready tx owner claim_id lease_s d =
     (if \<not> ready then (d, Inl admission_not_ready)
      else if \<not> opaque_id owner \<or> \<not> opaque_id claim_id then (d, Inl (ValueError ''dispatch owner and claim IDs must be bounded opaque ids''))
      else case checked_duration lease_s (\<lambda>f. flt_lt (Fin 0) f \<and> flt_le f (Fin MAX_COMMAND_DISPATCH_LEASE_S))
          ''dispatch lease_s must be in the range (0, 86400]'' of
        Inl e \<Rightarrow> (d, Inl e)
      | Inr f \<Rightarrow>
          (case admission_transaction tx
              (claim_dispatch_locked env tx owner claim_id (duration_microseconds f) (claim_key d claim_id)) (ax_between tx d) of
            (d1, Inr m) \<Rightarrow> (d1, Inr m)
          | (d1, Inl e) \<Rightarrow> if \<not> (is_ambiguous e \<or> e = UniqueViolation) then (d1, Inl e)
              else (after tx 1 d1, if ax_reread_fails tx then Inl e
                else case claim_by_id env tx (after tx 1 d1) claim_id of
                    Inr (Some s) \<Rightarrow> if sd_owner s \<noteq> owner then Inl admission_conflict
                      else res_bind (dispatch_claim_of env s owner claim_id) (\<lambda>m. Inr (Some m))
                  | _ \<Rightarrow> Inl e)))"

section \<open>Settling a claim\<close>

definition token_matches :: "stored_admission \<Rightarrow> dispatch_token \<Rightarrow> bool" where
  "token_matches s t \<longleftrightarrow> ad_run_id (sd_command s) = dk_run_id t \<and> ad_command_id (sd_command s) = dk_command_id t \<and>
     sd_owner s = dk_owner_id t \<and> sd_claim_id s = dk_claim_id t \<and> sd_generation s = dk_generation t"

definition require_active_claim :: "stored_admission option \<Rightarrow> dispatch_token \<Rightarrow> unit res" where
  "require_active_claim s t = (case s of
      None \<Rightarrow> Inl dispatch_claim_lost
    | Some x \<Rightarrow> if \<not> token_matches x t \<or> sd_state x \<noteq> DLeased \<or> \<not> sd_lease_active x \<or> sd_run_terminal x
        then Inl dispatch_claim_lost else Inr ())"

definition token_key :: "dispatch_token \<Rightarrow> command_key" where
  "token_key t = (dk_run_id t, dk_command_id t)"

text \<open>The part the settlements share: \<open>applied\<close> recognises a settlement that was applied before.\<close>

definition settle_locked :: "journal_env \<Rightarrow> admission_attempt \<Rightarrow> dispatch_token \<Rightarrow> (stored_admission \<Rightarrow> bool) \<Rightarrow> (dispatch_row \<Rightarrow> dispatch_row) \<Rightarrow>
    admission_db \<Rightarrow> (admission_db \<times> unit) res" where
  "settle_locked env tx t applied f d =
     (if \<not> lock_run d (dk_run_id t) then Inl dispatch_claim_lost
      else res_bind (stored env d (ax_now tx 0) (token_key t)) (\<lambda>s.
        if (case s of Some x \<Rightarrow> applied x | None \<Rightarrow> False) then Inr (d, ())
        else res_bind (require_active_claim s t) (\<lambda>_.
          Inr (d\<lparr>db_outbox := update_row (token_key t) f (db_outbox d)\<rparr>, ()))))"

definition delivered_as :: "dispatch_token \<Rightarrow> dispatch_result \<Rightarrow> stored_admission \<Rightarrow> bool" where
  "delivered_as t r s \<longleftrightarrow> sd_state s = DDelivered \<and> token_matches s t \<and> sd_dispatch_ref s = ds_dispatch_ref r"

definition deliver_row :: "string \<Rightarrow> int \<Rightarrow> dispatch_row \<Rightarrow> dispatch_row" where
  "deliver_row ref now w = w\<lparr>dw_state := DDelivered, dw_leased_until := None, dw_dispatch_ref := ref, dw_delivered_at := Some now,
     dw_error_code := [], dw_delay := 0\<rparr>"

definition acknowledge_dispatch :: "journal_env \<Rightarrow> bool \<Rightarrow> admission_attempt \<Rightarrow> dispatch_token \<Rightarrow> dispatch_result \<Rightarrow> admission_db \<Rightarrow>
    admission_db \<times> admission_receipt res" where
  "acknowledge_dispatch env ready tx t r d =
     (if \<not> ready then (d, Inl admission_not_ready)
      else if ds_status r \<noteq> Accepted then (d, Inl (ValueError ''dispatch acknowledgement requires an accepted result''))
      else answered env tx (token_key t) (\<lambda>s. Inr (delivered_as t r s))
        (admission_transaction tx (settle_locked env tx t (delivered_as t r) (deliver_row (ds_dispatch_ref r) (ax_now tx 5))) d))"

definition failed_as :: "dispatch_token \<Rightarrow> delivery_state \<Rightarrow> string \<Rightarrow> int \<Rightarrow> stored_admission \<Rightarrow> bool" where
  "failed_as t st err us s \<longleftrightarrow> sd_state s = st \<and> token_matches s t \<and> sd_error_code s = err \<and> sd_delay s = us"

definition fail_row :: "delivery_state \<Rightarrow> string \<Rightarrow> int \<Rightarrow> int \<Rightarrow> dispatch_row \<Rightarrow> dispatch_row" where
  "fail_row st err us now w = w\<lparr>dw_state := st, dw_leased_until := None, dw_available_at := now + us, dw_dispatch_ref := [],
     dw_delivered_at := None, dw_error_code := err, dw_delay := us\<rparr>"

definition settle_failed_dispatch :: "journal_env \<Rightarrow> bool \<Rightarrow> admission_attempt \<Rightarrow> dispatch_token \<Rightarrow> string \<Rightarrow> delivery_state \<Rightarrow> pyval \<Rightarrow> admission_db \<Rightarrow>
    admission_db \<times> admission_receipt res" where
  "settle_failed_dispatch env ready tx t err st delay d =
     (if \<not> ready then (d, Inl admission_not_ready)
      else if \<not> taxonomy_code err then (d, Inl (ValueError ''dispatch settlement error_code must be a taxonomy code''))
      else case checked_duration delay (\<lambda>f. flt_le (Fin 0) f \<and> flt_le f (Fin MAX_COMMAND_RETRY_DELAY_S))
          ''dispatch retry delay must be in the range [0, 86400]'' of
        Inl e \<Rightarrow> (d, Inl e)
      | Inr f \<Rightarrow> let us = duration_microseconds f in
          answered env tx (token_key t) (\<lambda>s. Inr (failed_as t st err us s))
            (admission_transaction tx (settle_locked env tx t (failed_as t st err us) (fail_row st err us (ax_now tx 5))) d))"

definition retry_dispatch :: "journal_env \<Rightarrow> bool \<Rightarrow> admission_attempt \<Rightarrow> dispatch_token \<Rightarrow> string \<Rightarrow> pyval \<Rightarrow> admission_db \<Rightarrow>
    admission_db \<times> admission_receipt res" where
  "retry_dispatch env ready tx t err delay = settle_failed_dispatch env ready tx t err DPending delay"

definition reject_dispatch :: "journal_env \<Rightarrow> bool \<Rightarrow> admission_attempt \<Rightarrow> dispatch_token \<Rightarrow> string \<Rightarrow> admission_db \<Rightarrow>
    admission_db \<times> admission_receipt res" where
  "reject_dispatch env ready tx t err = settle_failed_dispatch env ready tx t err DDeadLetter (PFloat (Fin 0))"

section \<open>Binding a command to its checkpoint\<close>

definition checked_checkpoint_locked :: "journal_env \<Rightarrow> journal \<Rightarrow> string \<Rightarrow> run_checkpoint res" where
  "checked_checkpoint_locked env j run = (case jn_checkpoint_head j run of
      None \<Rightarrow> Inl admission_run_unavailable
    | Some n \<Rightarrow> (case map_of (jn_checkpoints j) (run, n) of
        None \<Rightarrow> Inl admission_run_unavailable
      | Some r \<Rightarrow>
          if sr_digest r \<noteq> bound_digest env (sr_payload r) (sr_blobs r) \<or>
             \<not> tuple_eq (PStr run # PInt n # sr_typed r) (map (dget (sr_payload r)) CHECKPOINT_TYPED_FIELDS)
          then Inl admission_corrupt
          else let l = decode_env_checkpoint env (PDict (sr_payload r)) in
            case lr_value l of
              Some c \<Rightarrow> if lr_status l \<in> {Loaded, Migrated} then Inr c else Inl admission_corrupt
            | None \<Rightarrow> Inl admission_corrupt))"

definition predecessor_key :: "admission_db \<Rightarrow> admitted_command \<Rightarrow> command_key option" where
  "predecessor_key d c = map_option fst (find (\<lambda>(k, a). fst k = ad_run_id c \<and> aw_sequence a = ad_command_sequence c - 1) (db_records d))"

definition require_prior_activations_completed :: "journal_env \<Rightarrow> admission_attempt \<Rightarrow> admission_db \<Rightarrow> admitted_command \<Rightarrow> run_checkpoint \<Rightarrow> unit res" where
  "require_prior_activations_completed env tx d c ck =
     (if ad_command_sequence c = 1 then Inr ()
      else case predecessor_key d c of
        None \<Rightarrow> Inl admission_corrupt
      | Some k \<Rightarrow> res_bind (stored env d (ax_now tx 2) k) (\<lambda>prior. case prior of
            None \<Rightarrow> Inl admission_corrupt
          | Some p \<Rightarrow> (case sd_activation p of
              None \<Rightarrow> Inl activation_binding_conflict
            | Some m \<Rightarrow>
                if PStr (checkpoint_marker (je_sha env) m) \<notin> set (applied_inputs ck) then Inl activation_binding_conflict
                else (case receipt_from_checkpoint (je_va env) (je_cfg env) (je_sha env) m ck None of
                    Inl e \<Rightarrow> Inl (if is_native_error e then admission_corrupt else e)
                  | Inr _ \<Rightarrow> Inr ()))))"

definition activation_of :: "journal_env \<Rightarrow> admitted_command \<Rightarrow> run_checkpoint \<Rightarrow> activation_command res" where
  "activation_of env c ck = res_bind (checkpoint_digest (je_sha env) ck) (\<lambda>digest.
     make_activation (je_cfg env) \<lparr>am_run_id = ad_run_id c, am_command_id = ad_command_id c,
       am_command_sequence = ad_command_sequence c, am_kind = ad_kind c, am_source_checkpoint_seq = int_val (ck_seq ck),
       am_source_checkpoint_sha256 = digest, am_request_digest = ad_request_digest c, am_payload_ref = ad_payload_ref c,
       am_schema_version = ACTIVATION_COMMAND_SCHEMA_VERSION\<rparr>)"

definition binding_of :: "journal_env \<Rightarrow> activation_command \<Rightarrow> string \<times> string \<times> pydict" where
  "binding_of env m = (activation_identity (je_sha env) m, content_digest env (activation_to_json (je_sha env) m),
     activation_to_json (je_sha env) m)"

text \<open>The guarded update of the binding columns: they must be empty, and the identity unused.\<close>

definition write_binding :: "journal_env \<Rightarrow> command_key \<Rightarrow> activation_command \<Rightarrow> admission_db \<Rightarrow> admission_db res" where
  "write_binding env k m d =
     (if \<not> list_ex (\<lambda>(k', a). k' = k \<and> aw_activation a = None) (db_records d) then Inl activation_binding_conflict
      else if list_ex (\<lambda>(k', a). k' \<noteq> k \<and> map_option fst (aw_activation a) = Some (activation_identity (je_sha env) m)) (db_records d)
      then Inl UniqueViolation
      else Inr (d\<lparr>db_records := update_row k (\<lambda>a. a\<lparr>aw_activation := Some (binding_of env m)\<rparr>) (db_records d)\<rparr>))"

definition bind_fresh :: "journal_env \<Rightarrow> admission_attempt \<Rightarrow> admitted_command \<Rightarrow> admission_db \<Rightarrow> (admission_db \<times> activation_command) res" where
  "bind_fresh env tx c d =
     (if terminal_exists (db_journal d) (ad_run_id c) then Inl admission_run_terminal
      else res_bind (checked_checkpoint_locked env (db_journal d) (ad_run_id c)) (\<lambda>ck.
        if dget ck ''terminal'' = PBool True then Inl admission_run_terminal
        else res_bind (require_prior_activations_completed env tx d c ck) (\<lambda>_.
          res_bind (activation_of env c ck) (\<lambda>m.
          res_bind (write_binding env (ad_run_id c, ad_command_id c) m d) (\<lambda>d'. Inr (d', m))))))"

definition bind_locked :: "journal_env \<Rightarrow> admission_attempt \<Rightarrow> admitted_command \<Rightarrow> writer_token \<Rightarrow> admission_db \<Rightarrow>
    (admission_db \<times> activation_command) res" where
  "bind_locked env tx c t d =
     res_bind (current_writer_locked (je_cfg env) (jn_authority (db_journal d)) t (ax_now tx 0)) (\<lambda>current.
     if \<not> current then Inl activation_binding_fenced
     else res_bind (stored env d (ax_now tx 1) (ad_run_id c, ad_command_id c)) (\<lambda>s. case s of
         None \<Rightarrow> Inl admission_conflict
       | Some x \<Rightarrow>
           if sd_command x \<noteq> c then Inl admission_conflict
           else if sd_state x \<noteq> DDelivered then Inl activation_binding_conflict
           else (case sd_activation x of
               Some m \<Rightarrow> Inr (d, m)
             | None \<Rightarrow> bind_fresh env tx c d)))"

definition read_bound_activation :: "journal_env \<Rightarrow> admission_attempt \<Rightarrow> admission_db \<Rightarrow> admitted_command \<Rightarrow> writer_token \<Rightarrow> activation_command option res" where
  "read_bound_activation env tx d c t =
     res_bind (current_writer_locked (je_cfg env) (jn_authority (db_journal d)) t (ax_now tx 7)) (\<lambda>current.
     if \<not> current then Inl activation_binding_fenced
     else res_bind (stored env d (ax_now tx 8) (ad_run_id c, ad_command_id c)) (\<lambda>s. case s of
         None \<Rightarrow> Inl admission_conflict
       | Some x \<Rightarrow> if sd_command x \<noteq> c then Inl admission_conflict else Inr (sd_activation x)))"

definition bind_activation :: "journal_env \<Rightarrow> bool \<Rightarrow> admission_attempt \<Rightarrow> admitted_command \<Rightarrow> writer_token \<Rightarrow> admission_db \<Rightarrow>
    admission_db \<times> activation_command res" where
  "bind_activation env ready tx c t d =
     (if \<not> ready then (d, Inl admission_not_ready)
      else if ad_run_id c \<noteq> wt_run_id t then (d, Inl activation_binding_conflict)
      else (case admission_transaction tx (bind_locked env tx c t) d of
          (d1, Inr m) \<Rightarrow> (d1, Inr m)
        | (d1, Inl e) \<Rightarrow> if \<not> is_ambiguous e then (d1, Inl e)
            else (after tx 1 d1, if ax_reread_fails tx then Inl e
              else case read_bound_activation env tx (after tx 1 d1) c t of
                  Inr (Some m) \<Rightarrow> Inr m
                | _ \<Rightarrow> Inl e)))"

end
