(* ===== verification/Admission_History.thy ===== *)
theory Admission_History
  imports Admission_Store
begin

text \<open>
  The invariant of the command admission store, the elementary steps its tables take, and that every
  step keeps the invariant and lets the rows of a command evolve only forward. The steps are an
  abstract description of the store; the operations are shown to be sequences of them in a later
  theory. A locale holds what a relation between states needs for a whole operation to keep it,
  whatever fails and whatever other transactions do meanwhile.
\<close>

section \<open>Rows\<close>

definition good_command :: "journal_env \<Rightarrow> admitted_command \<Rightarrow> bool" where
  "good_command env c \<longleftrightarrow> make_admitted (je_cfg env) (je_sha env) c = Inr c \<and> ad_schema_version c = ADMITTED_COMMAND_SCHEMA_VERSION"

definition good_activation :: "journal_env \<Rightarrow> admitted_command \<Rightarrow> activation_command \<Rightarrow> bool" where
  "good_activation env c m \<longleftrightarrow> make_activation (je_cfg env) m = Inr m \<and> am_schema_version m = ACTIVATION_COMMAND_SCHEMA_VERSION \<and>
     activation_matches_admission m c"

definition record_of :: "journal_env \<Rightarrow> admitted_command \<Rightarrow> activation_command option \<Rightarrow> admission_row" where
  "record_of env c m = (new_record env c)\<lparr>aw_activation := map_option (binding_of env) m\<rparr>"

text \<open>The command and the binding a record holds.\<close>

definition command_at :: "journal_env \<Rightarrow> admission_db \<Rightarrow> command_key \<Rightarrow> admitted_command \<Rightarrow> activation_command option \<Rightarrow> bool" where
  "command_at env d k c m \<longleftrightarrow> map_of (db_records d) k = Some (record_of env c m) \<and> k = (ad_run_id c, ad_command_id c) \<and>
     good_command env c \<and> (\<forall>x. m = Some x \<longrightarrow> good_activation env c x)"

text \<open>The checks of the outbox table.\<close>

definition row_checks :: "dispatch_row \<Rightarrow> bool" where
  "row_checks w \<longleftrightarrow> (dw_state w = DLeased \<longleftrightarrow> dw_leased_until w \<noteq> None) \<and>
     (dw_state w = DDelivered \<longleftrightarrow> dw_delivered_at w \<noteq> None) \<and> (dw_state w = DDelivered \<longleftrightarrow> dw_dispatch_ref w \<noteq> []) \<and>
     (dw_state w = DDelivered \<longrightarrow> dw_error_code w = []) \<and> (dw_state w = DDeadLetter \<longrightarrow> dw_error_code w \<noteq> []) \<and>
     (dw_state w = DRunTerminal \<longrightarrow> dw_error_code w = ''run_terminal'') \<and>
     dw_attempts w = dw_generation w \<and> 0 \<le> dw_generation w \<and> dw_generation w \<le> POSTGRES_INTEGER_MAX \<and>
     (dw_generation w = 0 \<longleftrightarrow> dw_claim_owner w = None) \<and> (dw_generation w = 0 \<longleftrightarrow> dw_claim_id w = None) \<and>
     (dw_generation w = 0 \<longrightarrow> dw_state w \<in> {DPending, DRunTerminal}) \<and> 0 \<le> dw_delay w \<and> (dw_state w \<noteq> DPending \<longrightarrow> dw_delay w = 0) \<and>
     (dw_generation w = 0 \<and> dw_state w = DPending \<longrightarrow> dw_error_code w = []) \<and>
     address_or_empty (dw_dispatch_ref w) \<and> code_or_empty (dw_error_code w)"

text \<open>How a row of the outbox may change: a claim raises the generation, a settled claim is never
  active again, and the two final states stay.\<close>

definition row_evolves :: "dispatch_row \<Rightarrow> dispatch_row \<Rightarrow> bool" where
  "row_evolves w w' \<longleftrightarrow> dw_generation w \<le> dw_generation w' \<and>
     (dw_generation w' = dw_generation w \<longrightarrow> dw_claim_owner w' = dw_claim_owner w \<and> dw_claim_id w' = dw_claim_id w \<and>
        (dw_state w \<noteq> DLeased \<longrightarrow> dw_state w' \<noteq> DLeased)) \<and>
     (dw_state w \<in> {DDeadLetter, DRunTerminal} \<longrightarrow> w' = w) \<and>
     (dw_state w = DDelivered \<longrightarrow> w' = w \<or> dw_state w' = DRunTerminal)"

definition record_evolves :: "admission_row \<Rightarrow> admission_row \<Rightarrow> bool" where
  "record_evolves a a' \<longleftrightarrow> a' = a\<lparr>aw_activation := aw_activation a'\<rparr> \<and> (aw_activation a \<noteq> None \<longrightarrow> a' = a)"

lemma row_evolves_refl [simp]: "row_evolves w w" by (simp add: row_evolves_def)

lemma row_evolves_trans:
  assumes "row_evolves a b" and "row_evolves b c"
  shows "row_evolves a c"
proof -
  note ab = assms(1) [unfolded row_evolves_def] and bc = assms(2) [unfolded row_evolves_def]
  have g: "dw_generation a \<le> dw_generation b" "dw_generation b \<le> dw_generation c" using ab bc by blast+
  show ?thesis unfolding row_evolves_def
  proof (intro conjI impI)
    show "dw_generation a \<le> dw_generation c" using g by linarith
    assume "dw_generation c = dw_generation a"
    then have e: "dw_generation b = dw_generation a" "dw_generation c = dw_generation b" using g by linarith+
    have "dw_claim_owner b = dw_claim_owner a \<and> dw_claim_id b = dw_claim_id a" using ab e(1) by blast
    moreover have "dw_claim_owner c = dw_claim_owner b \<and> dw_claim_id c = dw_claim_id b" using bc e(2) by blast
    ultimately show "dw_claim_owner c = dw_claim_owner a" "dw_claim_id c = dw_claim_id a" by (blast intro: trans)+
    show "dw_state c \<noteq> DLeased" if "dw_state a \<noteq> DLeased" using ab bc e that by blast
  next
    assume a: "dw_state a \<in> {DDeadLetter, DRunTerminal}"
    then have "b = a" using ab by blast
    with a bc show "c = a" by blast
  next
    assume a: "dw_state a = DDelivered"
    then have "b = a \<or> dw_state b = DRunTerminal" using ab by blast
    with a bc show "c = a \<or> dw_state c = DRunTerminal" by blast
  qed
qed

lemma record_evolves_refl [simp]: "record_evolves a a" by (simp add: record_evolves_def)

lemma record_evolves_trans:
  assumes "record_evolves a b" and "record_evolves b c"
  shows "record_evolves a c"
proof -
  from assms have b: "b = a\<lparr>aw_activation := aw_activation b\<rparr>" and c: "c = b\<lparr>aw_activation := aw_activation c\<rparr>"
    and s: "aw_activation a \<noteq> None \<longrightarrow> b = a" "aw_activation b \<noteq> None \<longrightarrow> c = b" by (auto simp: record_evolves_def)
  have "c = a\<lparr>aw_activation := aw_activation c\<rparr>" by (subst c, subst b) simp
  with s show ?thesis unfolding record_evolves_def by auto
qed

section \<open>Tables\<close>

text \<open>The dispatched commands of a run form an initial stretch of its sequence.\<close>

definition in_order :: "admission_db \<Rightarrow> bool" where
  "in_order d \<longleftrightarrow> (\<forall>k a w k' a' w'. map_of (db_records d) k = Some a \<longrightarrow> map_of (db_outbox d) k = Some w \<longrightarrow>
     map_of (db_records d) k' = Some a' \<longrightarrow> map_of (db_outbox d) k' = Some w' \<longrightarrow> fst k' = fst k \<longrightarrow>
     aw_sequence a' < aw_sequence a \<longrightarrow> 0 < dw_generation w \<longrightarrow> dw_state w' \<in> {DDelivered, DRunTerminal})"

text \<open>The commands of a run are numbered without gaps up to its head.\<close>

definition numbered :: "admission_db \<Rightarrow> bool" where
  "numbered d \<longleftrightarrow> (\<forall>k a. map_of (db_records d) k = Some a \<longrightarrow> (\<exists>n. db_head d (fst k) = Some n \<and> 1 \<le> aw_sequence a \<and> aw_sequence a \<le> n)) \<and>
     (\<forall>run n i. db_head d run = Some n \<longrightarrow> 1 \<le> i \<longrightarrow> i \<le> n \<longrightarrow>
        (\<exists>cid a. map_of (db_records d) (run, cid) = Some a \<and> aw_sequence a = i)) \<and>
     (\<forall>run cid cid' a a'. map_of (db_records d) (run, cid) = Some a \<longrightarrow> map_of (db_records d) (run, cid') = Some a' \<longrightarrow>
        aw_sequence a = aw_sequence a' \<longrightarrow> cid = cid') \<and>
     (\<forall>run n. db_head d run = Some n \<longrightarrow> 0 \<le> n \<and> n \<le> POSTGRES_BIGINT_MAX)"

text \<open>A bound command is delivered, and it starts from a later checkpoint than the command before it,
  which is bound too.\<close>

definition bound_in_turn :: "journal_env \<Rightarrow> admission_db \<Rightarrow> bool" where
  "bound_in_turn env d \<longleftrightarrow> (\<forall>k c m w. command_at env d k c (Some m) \<longrightarrow> map_of (db_outbox d) k = Some w \<longrightarrow> dw_state w = DDelivered \<and>
     (1 < ad_command_sequence c \<longrightarrow> (\<exists>k' c' m'. command_at env d k' c' (Some m') \<and> ad_run_id c' = ad_run_id c \<and>
        ad_command_sequence c' = ad_command_sequence c - 1 \<and> am_source_checkpoint_seq m' < am_source_checkpoint_seq m)))"

text \<open>Rows are closed only for a run that has its terminal outcome.\<close>

definition closed_at_terminal :: "admission_db \<Rightarrow> bool" where
  "closed_at_terminal d \<longleftrightarrow> (\<forall>k w. map_of (db_outbox d) k = Some w \<longrightarrow> dw_state w = DRunTerminal \<longrightarrow> terminal_exists (db_journal d) (fst k))"

definition admission_ok :: "journal_env \<Rightarrow> admission_db \<Rightarrow> bool" where
  "admission_ok env d \<longleftrightarrow> distinct (map fst (db_records d)) \<and> map fst (db_outbox d) = map fst (db_records d) \<and>
     (\<forall>k a. map_of (db_records d) k = Some a \<longrightarrow> (\<exists>c m. a = record_of env c m \<and> command_at env d k c m)) \<and>
     (\<forall>k w. map_of (db_outbox d) k = Some w \<longrightarrow> row_checks w) \<and>
     (\<forall>k w k' w'. map_of (db_outbox d) k = Some w \<longrightarrow> map_of (db_outbox d) k' = Some w' \<longrightarrow> dw_claim_id w \<noteq> None \<longrightarrow>
        dw_claim_id w' = dw_claim_id w \<longrightarrow> k' = k) \<and>
     numbered d \<and> in_order d \<and> bound_in_turn env d \<and> closed_at_terminal d"

definition evolves :: "journal_env \<Rightarrow> admission_db \<Rightarrow> admission_db \<Rightarrow> bool" where
  "evolves env d d' \<longleftrightarrow> (admission_ok env d \<longrightarrow> admission_ok env d' \<and>
     (\<forall>k a. map_of (db_records d) k = Some a \<longrightarrow> (\<exists>a'. map_of (db_records d') k = Some a' \<and> record_evolves a a')) \<and>
     (\<forall>k w. map_of (db_outbox d) k = Some w \<longrightarrow> (\<exists>w'. map_of (db_outbox d') k = Some w' \<and> row_evolves w w')))"

section \<open>Relations kept by every operation\<close>

text \<open>A reflexive and transitive relation between states that other transactions keep is kept by a whole
  operation once its locked body keeps it.\<close>

locale admission_relation =
  fixes rel :: "admission_db \<Rightarrow> admission_db \<Rightarrow> bool"
  assumes rel_refl: "rel d d" and rel_trans: "rel a b \<Longrightarrow> rel b c \<Longrightarrow> rel a c"
begin

lemma after_rel: "\<forall>n x. rel x (ax_later tx n x) \<Longrightarrow> rel d (after tx n d)"
  by (induction n) (auto intro: rel_refl rel_trans)

lemma transaction_rel:
  "(\<And>d' x. body d = Inr (d', x) \<Longrightarrow> rel d d') \<Longrightarrow> rel d (fst (admission_transaction tx body d))"
  by (auto simp: admission_transaction_def rel_refl split: sum.split prod.split commit_fault.split)

lemma answered_rel:
  assumes "\<forall>n x. rel x (ax_later tx n x)" and "rel d (fst dr)"
  shows "rel d (fst (answered env tx k accept dr))"
proof -
  have "rel d (after tx n (fst dr))" for n using rel_trans [OF assms(2) after_rel [OF assms(1)]] .
  then show ?thesis by (auto simp: answered_def split: prod.split sum.split)
qed

lemma settlement_rel:
  assumes "\<forall>n x. rel x (ax_later tx n x)" and "\<And>d' x. settle_locked env tx t applied f d = Inr (d', x) \<Longrightarrow> rel d d'"
  shows "rel d (fst (answered env tx k accept (admission_transaction tx (settle_locked env tx t applied f) d)))"
  using answered_rel [OF assms(1) transaction_rel] assms(2) by blast

lemma admit_rel:
  assumes "\<forall>n x. rel x (ax_later tx n x)" and "\<And>d' x. admit_locked env tx q d = Inr (d', x) \<Longrightarrow> rel d d'"
  shows "rel d (fst (admit env ready tx q d))"
  using answered_rel [OF assms(1) transaction_rel] assms(2) rel_refl by (simp add: admit_def)

lemma claim_rel:
  assumes "\<forall>n x. rel x (ax_later tx n x)" and "\<forall>x. rel x (ax_between tx x)"
    and "\<And>us found x d' y. claim_dispatch_locked env tx owner cid us found x = Inr (d', y) \<Longrightarrow> rel x d'"
  shows "rel d (fst (claim_dispatch env ready tx owner cid lease_s d))"
proof -
  have t: "rel d (fst (admission_transaction tx (claim_dispatch_locked env tx owner cid us found) (ax_between tx d)))" for us found
    using rel_trans [OF assms(2) [rule_format] transaction_rel] assms(3) by blast
  then have "rel d (after tx 1 (fst (admission_transaction tx (claim_dispatch_locked env tx owner cid us found) (ax_between tx d))))" for us found
    using rel_trans [OF t after_rel [OF assms(1)]] by blast
  with t show ?thesis by (auto simp: claim_dispatch_def rel_refl split: sum.split prod.split) (metis fst_conv)+
qed

lemma bind_rel:
  assumes "\<forall>n x. rel x (ax_later tx n x)" and "\<And>d' x. bind_locked env tx c t d = Inr (d', x) \<Longrightarrow> rel d d'"
  shows "rel d (fst (bind_activation env ready tx c t d))"
proof -
  have b: "rel d (fst (admission_transaction tx (bind_locked env tx c t) d))" using transaction_rel assms(2) by blast
  have "rel d (after tx 1 (fst (admission_transaction tx (bind_locked env tx c t) d)))"
    using rel_trans [OF b after_rel [OF assms(1)]] .
  with b show ?thesis by (auto simp: bind_activation_def rel_refl split: sum.split prod.split)
qed

end

interpretation ev: admission_relation "evolves env" for env
proof
  show "evolves env d d" for d by (simp add: evolves_def)
  show "evolves env a b \<Longrightarrow> evolves env b c \<Longrightarrow> evolves env a c" for a b c
    unfolding evolves_def by (meson record_evolves_trans row_evolves_trans)
qed

lemma map_of_update_row: "map_of (update_row k f t) k' = (if k' = k then map_option f (map_of t k') else map_of t k')"
  by (induction t) (auto simp: update_row_def)

lemma keys_update_row [simp]: "map fst (update_row k f t) = map fst t"
  by (simp add: update_row_def comp_def case_prod_beta)

lemma same_keys:
  assumes "admission_ok env d"
  shows "map_of (db_outbox d) k = None \<longleftrightarrow> map_of (db_records d) k = None"
proof -
  have "fst ` set (db_outbox d) = fst ` set (db_records d)"
    using assms unfolding admission_ok_def by (metis list.set_map)
  then show ?thesis by (simp add: map_of_eq_None_iff)
qed

lemma row_in_table:
  assumes "admission_ok env d"
  shows "(k, w) \<in> set (db_outbox d) \<longleftrightarrow> map_of (db_outbox d) k = Some w"
    and "(k, a) \<in> set (db_records d) \<longleftrightarrow> map_of (db_records d) k = Some a"
proof -
  have "distinct (map fst (db_outbox d))" "distinct (map fst (db_records d))"
    using assms unfolding admission_ok_def by metis+
  then show "(k, w) \<in> set (db_outbox d) \<longleftrightarrow> map_of (db_outbox d) k = Some w"
    "(k, a) \<in> set (db_records d) \<longleftrightarrow> map_of (db_records d) k = Some a" by simp_all
qed

lemma prior_undelivered_iff:
  assumes "admission_ok env d"
  shows "prior_undelivered d k n \<longleftrightarrow> (\<exists>k' w a. map_of (db_outbox d) k' = Some w \<and> map_of (db_records d) k' = Some a \<and>
    fst k' = fst k \<and> dw_state w \<noteq> DDelivered \<and> aw_sequence a < n)"
  unfolding prior_undelivered_def list_ex_iff
  using row_in_table(1) [OF assms] by (fastforce split: option.splits)

section \<open>Steps of the tables\<close>

text \<open>The elementary changes the operations make: an abstract description of the store. A settlement is a
  delivery, a retry or a rejection.\<close>

definition settling :: "(dispatch_row \<Rightarrow> dispatch_row) \<Rightarrow> bool" where
  "settling f \<longleftrightarrow> (\<exists>ref now. opaque_address ref \<and> f = deliver_row ref now) \<or>
     (\<exists>err us now. taxonomy_code err \<and> 0 \<le> us \<and> f = fail_row DPending err us now) \<or>
     (\<exists>err now. taxonomy_code err \<and> f = fail_row DDeadLetter err 0 now)"

text \<open>A command that may be appended.\<close>

definition appendable :: "journal_env \<Rightarrow> admitted_command \<Rightarrow> int \<Rightarrow> admission_db \<Rightarrow> bool" where
  "appendable env c n d \<longleftrightarrow> good_command env c \<and> db_head d (ad_run_id c) = Some n \<and> 0 \<le> n \<and> n + 1 \<le> POSTGRES_BIGINT_MAX \<and>
     ad_command_sequence c = n + 1 \<and> \<not> record_taken d (ad_run_id c, ad_command_id c) (new_record env c) \<and>
     map_of (db_outbox d) (ad_run_id c, ad_command_id c) = None"

definition appended_command :: "journal_env \<Rightarrow> admitted_command \<Rightarrow> int \<Rightarrow> admission_db \<Rightarrow> admission_db" where
  "appended_command env c now d = (let k = (ad_run_id c, ad_command_id c) in
     d\<lparr>db_records := db_records d @ [(k, new_record env c)], db_outbox := db_outbox d @ [(k, new_dispatch now)],
       db_head := (db_head d)(ad_run_id c \<mapsto> ad_command_sequence c)\<rparr>)"

definition bound_command :: "journal_env \<Rightarrow> admitted_command \<Rightarrow> activation_command \<Rightarrow> admission_db \<Rightarrow> admission_db" where
  "bound_command env c m d = d\<lparr>db_records := update_row (ad_run_id c, ad_command_id c)
     (\<lambda>a. a\<lparr>aw_activation := Some (binding_of env m)\<rparr>) (db_records d)\<rparr>"

definition predecessor_bound_before :: "journal_env \<Rightarrow> admission_db \<Rightarrow> admitted_command \<Rightarrow> int \<Rightarrow> bool" where
  "predecessor_bound_before env d c n \<longleftrightarrow> (\<exists>k now s m. predecessor_key d c = Some k \<and> stored env d now k = Inr (Some s) \<and>
     sd_activation s = Some m \<and> am_source_checkpoint_seq m < n)"

inductive table_step :: "journal_env \<Rightarrow> admission_db \<Rightarrow> admission_db \<Rightarrow> bool" for env :: journal_env where
  open_head: "db_head d run = None \<Longrightarrow> table_step env d (d\<lparr>db_head := (db_head d)(run \<mapsto> 0)\<rparr>)"
| append: "appendable env c n d \<Longrightarrow> table_step env d (appended_command env c now d)"
| close: "map_of (db_outbox d) k = Some w \<Longrightarrow> dw_state w \<in> set unsettled \<Longrightarrow> map_of (db_records d) k = Some a \<Longrightarrow> aw_activation a = None \<Longrightarrow>
    terminal_exists (db_journal d) (fst k) \<Longrightarrow> table_step env d (d\<lparr>db_outbox := update_row k close_row (db_outbox d)\<rparr>)"
| claim_command: "map_of (db_outbox d) k = Some w \<Longrightarrow> dw_state w \<in> {DPending, DLeased} \<Longrightarrow> map_of (db_records d) k = Some a \<Longrightarrow>
    \<not> prior_undelivered d k (aw_sequence a) \<Longrightarrow> dw_attempts w < POSTGRES_INTEGER_MAX \<Longrightarrow>
    (\<And>k' w'. map_of (db_outbox d) k' = Some w' \<Longrightarrow> k' \<noteq> k \<Longrightarrow> dw_claim_id w' \<noteq> Some cid) \<Longrightarrow>
    table_step env d (d\<lparr>db_outbox := update_row k (claim_row owner cid until) (db_outbox d)\<rparr>)"
| settle: "map_of (db_outbox d) k = Some w \<Longrightarrow> dw_state w = DLeased \<Longrightarrow> map_of (db_records d) k = Some a \<Longrightarrow> settling f \<Longrightarrow>
    table_step env d (d\<lparr>db_outbox := update_row k f (db_outbox d)\<rparr>)"
| bind: "stored env d now (ad_run_id c, ad_command_id c) = Inr (Some s) \<Longrightarrow> sd_command s = c \<Longrightarrow> sd_state s = DDelivered \<Longrightarrow> sd_activation s = None \<Longrightarrow>
    good_activation env c m \<Longrightarrow> ad_command_sequence c = 1 \<or> predecessor_bound_before env d c (am_source_checkpoint_seq m) \<Longrightarrow>
    table_step env d (bound_command env c m d)"

section \<open>Reading a stored command\<close>

definition stored_view :: "admitted_command \<Rightarrow> activation_command option \<Rightarrow> dispatch_row \<Rightarrow> int \<Rightarrow> bool \<Rightarrow> stored_admission" where
  "stored_view c m w now terminal_run = \<lparr>sd_command = c, sd_activation = m, sd_state = dw_state w, sd_attempts = dw_attempts w,
     sd_dispatch_ref = dw_dispatch_ref w, sd_error_code = dw_error_code w,
     sd_owner = (case dw_claim_owner w of None \<Rightarrow> [] | Some s \<Rightarrow> s), sd_claim_id = (case dw_claim_id w of None \<Rightarrow> [] | Some s \<Rightarrow> s),
     sd_generation = dw_generation w, sd_lease_active = (case dw_leased_until w of None \<Rightarrow> False | Some u \<Rightarrow> now < u),
     sd_delay = dw_delay w, sd_run_terminal = terminal_run\<rparr>"

text \<open>No row of the invariant is reported as corrupt.\<close>

lemma stored_of:
  assumes "env_ok env" and "command_at env d k c m" and "map_of (db_outbox d) k = Some w" and "row_checks w"
  shows "stored env d now k = Inr (Some (stored_view c m w now (terminal_exists (db_journal d) (fst k))))"
proof -
  have va: "pydantic_strict (je_va env)" and sha: "\<And>x. recorded_digest (je_sha env x)" using assms(1) by (simp_all add: env_ok_def)
  have c: "admitted_from_json (je_va env) (je_cfg env) (je_sha env) (PDict (admitted_to_json (je_sha env) c)) = Inr c"
    using assms(2) by (intro admitted_roundtrip [OF va]) (simp_all add: command_at_def good_command_def admitted_identity_def sha)
  have m: "decode_binding env (record_of env c m) c = Inr m"
  proof (cases m)
    case (Some x)
    then have x: "good_activation env c x" using assms(2) by (simp add: command_at_def)
    then have "activation_from_json (je_va env) (je_cfg env) (je_sha env) (PDict (activation_to_json (je_sha env) x)) = Inr x"
      by (intro activation_roundtrip [OF va]) (simp_all add: good_activation_def activation_identity_def sha)
    with Some x show ?thesis by (simp add: decode_binding_def record_of_def binding_of_def or_corrupt_def good_activation_def)
  qed (simp add: decode_binding_def record_of_def)
  have k: "command_columns_ok env k (record_of env c m) c" "aw_payload (record_of env c m) = admitted_to_json (je_sha env) c"
    using assms(2) by (simp_all add: command_columns_ok_def record_of_def new_record_def command_at_def)
  have "0 \<le> dw_attempts w \<and> 0 \<le> dw_generation w \<and> 0 \<le> dw_delay w" using assms(4) by (simp add: row_checks_def)
  moreover have "map_of (db_records d) k = Some (record_of env c m)" using assms(2) unfolding command_at_def by blast
  ultimately show ?thesis
    using assms(3) by (simp add: stored_def decode_row_def k c m or_corrupt_def stored_view_def)
qed

lemma stored_command_at:
  assumes "env_ok env" and "admission_ok env d" and "stored env d now k = Inr (Some s)"
  obtains c m w where "command_at env d k c m" "map_of (db_outbox d) k = Some w" "row_checks w"
    "s = stored_view c m w now (terminal_exists (db_journal d) (fst k))"
proof -
  from assms(3) obtain a w where a: "map_of (db_records d) k = Some a" and w: "map_of (db_outbox d) k = Some w"
    by (auto simp: stored_def split: option.splits)
  from a assms(2) obtain c m where c: "command_at env d k c m" unfolding admission_ok_def by blast
  from w assms(2) have r: "row_checks w" unfolding admission_ok_def by blast
  from that [OF c w r] stored_of [OF assms(1) c w r] assms(3) show thesis by simp
qed

text \<open>What a read shows of the row, whatever the tables hold.\<close>

lemma stored_row_read:
  assumes "stored env d now k = Inr (Some s)"
  obtains a w where "map_of (db_records d) k = Some a" "map_of (db_outbox d) k = Some w" "sd_state s = dw_state w"
    "sd_generation s = dw_generation w" "k = (ad_run_id (sd_command s), ad_command_id (sd_command s))"
    "sd_activation s = None \<longleftrightarrow> aw_activation a = None"
proof -
  from assms obtain a w where a: "map_of (db_records d) k = Some a" and w: "map_of (db_outbox d) k = Some w"
    and s: "decode_row env k a w now (terminal_exists (db_journal d) (fst k)) = Inr s"
    by (auto simp: stored_def res_bind_eq_Inr split: option.splits)
  have b: "m = None \<longleftrightarrow> aw_activation a = None" if "decode_binding env a c = Inr m" for c m
    using that by (cases "aw_activation a") (auto simp: decode_binding_def res_bind_eq_Inr split: if_splits)
  have "sd_state s = dw_state w \<and> sd_generation s = dw_generation w \<and> k = (ad_run_id (sd_command s), ad_command_id (sd_command s)) \<and>
      (sd_activation s = None \<longleftrightarrow> aw_activation a = None)"
    using s b by (auto simp: decode_row_def res_bind_eq_Inr command_columns_ok_def split: if_splits)
  with that [OF a w] show thesis by blast
qed

section \<open>Steps keep the invariant\<close>

lemma admission_okD:
  assumes "admission_ok env d"
  shows "distinct (map fst (db_records d))" "map fst (db_outbox d) = map fst (db_records d)"
    "map_of (db_records d) k = Some a \<Longrightarrow> \<exists>c m. a = record_of env c m \<and> command_at env d k c m"
    "map_of (db_outbox d) k = Some w \<Longrightarrow> row_checks w"
    "map_of (db_outbox d) k = Some w \<Longrightarrow> map_of (db_outbox d) k' = Some w' \<Longrightarrow> dw_claim_id w \<noteq> None \<Longrightarrow> dw_claim_id w' = dw_claim_id w \<Longrightarrow> k' = k"
    "numbered d" "in_order d" "bound_in_turn env d" "closed_at_terminal d"
  using assms unfolding admission_ok_def by blast+

lemma command_at_outbox [simp]: "command_at env (d\<lparr>db_outbox := t\<rparr>) = command_at env d"
  by (simp add: command_at_def fun_eq_iff)

lemma outbox_update_ok:
  assumes ok: "admission_ok env d" and w: "map_of (db_outbox d) k = Some w" and a: "map_of (db_records d) k = Some a"
    and checks: "row_checks (f w)"
    and order: "dw_state w \<in> {DDelivered, DRunTerminal} \<Longrightarrow> dw_state (f w) \<in> {DDelivered, DRunTerminal}"
    and claimed: "dw_generation w = 0 \<Longrightarrow> 0 < dw_generation (f w) \<Longrightarrow> \<not> prior_undelivered d k (aw_sequence a)"
    and bound: "aw_activation a \<noteq> None \<Longrightarrow> dw_state (f w) = DDelivered"
    and ids: "dw_claim_id (f w) = dw_claim_id w \<or> (\<forall>k' w'. map_of (db_outbox d) k' = Some w' \<longrightarrow> k' \<noteq> k \<longrightarrow> dw_claim_id w' \<noteq> dw_claim_id (f w))"
    and ended: "dw_state (f w) = DRunTerminal \<Longrightarrow> terminal_exists (db_journal d) (fst k)"
  shows "admission_ok env (d\<lparr>db_outbox := update_row k f (db_outbox d)\<rparr>)" (is "admission_ok env ?d")
proof -
  note D = admission_okD [OF ok]
  have row: "map_of (db_outbox ?d) k' = (if k' = k then Some (f w) else map_of (db_outbox d) k')" for k'
    by (simp add: map_of_update_row w)
  have old: "\<exists>x. map_of (db_outbox d) k' = Some x \<and> y = (if k' = k then f w else x)" if "map_of (db_outbox ?d) k' = Some y" for k' y
    using that w unfolding row by (auto split: if_splits)
  have gen: "0 \<le> dw_generation w" using D(4) [OF w] by (simp add: row_checks_def)
  have "in_order ?d"
    unfolding in_order_def
  proof (intro allI impI)
    fix k1 a1 w1 k2 a2 w2
    assume 1: "map_of (db_records ?d) k1 = Some a1" "map_of (db_outbox ?d) k1 = Some w1" "map_of (db_records ?d) k2 = Some a2"
      "map_of (db_outbox ?d) k2 = Some w2" "fst k2 = fst k1" "aw_sequence a2 < aw_sequence a1" "0 < dw_generation w1"
    from old [OF 1(2)] obtain x1 where x1: "map_of (db_outbox d) k1 = Some x1" "w1 = (if k1 = k then f w else x1)" by blast
    from old [OF 1(4)] obtain x2 where x2: "map_of (db_outbox d) k2 = Some x2" "w2 = (if k2 = k then f w else x2)" by blast
    have r: "map_of (db_records d) k1 = Some a1" "map_of (db_records d) k2 = Some a2" using 1(1,3) by simp_all
    have "dw_state x2 \<in> {DDelivered, DRunTerminal}"
    proof (cases "0 < dw_generation x1")
      case True
      with D(7) r x1(1) x2(1) 1(5,6) show ?thesis unfolding in_order_def by blast
    next
      case False
      with 1(7) x1 gen w have "k1 = k" "dw_generation w = 0" "0 < dw_generation (f w)" by (auto split: if_splits)
      with claimed a r(1) 1(5,6) have "\<not> prior_undelivered d k1 (aw_sequence a1)" by simp
      with prior_undelivered_iff [OF ok] x2(1) r(2) 1(5,6) show ?thesis by blast
    qed
    then show "dw_state w2 \<in> {DDelivered, DRunTerminal}" using x2 w order by (auto split: if_splits)
  qed
  moreover have "bound_in_turn env ?d"
    unfolding bound_in_turn_def
  proof (intro allI impI)
    fix k1 c m y
    assume c: "command_at env ?d k1 c (Some m)" and y: "map_of (db_outbox ?d) k1 = Some y"
    from old [OF y] obtain x where x: "map_of (db_outbox d) k1 = Some x" "y = (if k1 = k then f w else x)" by blast
    have c0: "command_at env d k1 c (Some m)" using c by simp
    have "k1 = k \<Longrightarrow> aw_activation a \<noteq> None" using c0 a by (auto simp: command_at_def record_of_def)
    with D(8) [unfolded bound_in_turn_def, rule_format, OF c0 x(1)] x(2) bound
    show "dw_state y = DDelivered \<and> (1 < ad_command_sequence c \<longrightarrow> (\<exists>k' c' m'. command_at env ?d k' c' (Some m') \<and>
        ad_run_id c' = ad_run_id c \<and> ad_command_sequence c' = ad_command_sequence c - 1 \<and>
        am_source_checkpoint_seq m' < am_source_checkpoint_seq m))"
      by (cases "k1 = k") simp_all
  qed
  moreover have "k2 = k1" if "map_of (db_outbox ?d) k1 = Some y1" "map_of (db_outbox ?d) k2 = Some y2" "dw_claim_id y1 \<noteq> None"
    "dw_claim_id y2 = dw_claim_id y1" for k1 y1 k2 y2
    using ids
  proof
    assume "dw_claim_id (f w) = dw_claim_id w"
    with D(5) old [OF that(1)] old [OF that(2)] that(3,4) w show ?thesis by (metis option.inject)
  next
    assume "\<forall>k' w'. map_of (db_outbox d) k' = Some w' \<longrightarrow> k' \<noteq> k \<longrightarrow> dw_claim_id w' \<noteq> dw_claim_id (f w)"
    with D(5) old [OF that(1)] old [OF that(2)] that(3,4) show ?thesis by metis
  qed
  moreover have "numbered ?d" using D(6) by (simp add: numbered_def)
  moreover have "closed_at_terminal ?d" using D(9) ended unfolding closed_at_terminal_def row by auto
  moreover have "row_checks y" if "map_of (db_outbox ?d) k1 = Some y" for k1 y
    using that checks D(4) unfolding row by (auto split: if_splits)
  moreover have "map fst (db_outbox ?d) = map fst (db_records ?d)" "distinct (map fst (db_records ?d))" using D(1,2) by simp_all
  moreover have "\<exists>c m. x = record_of env c m \<and> command_at env ?d k1 c m" if "map_of (db_records ?d) k1 = Some x" for k1 x
    using D(3) that by simp
  ultimately show ?thesis unfolding admission_ok_def by blast
qed

lemma row_evolves_step:
  assumes "map_of (db_outbox d) k = Some w" and "row_evolves w (f w)" and "admission_ok env d \<Longrightarrow> admission_ok env (d\<lparr>db_outbox := update_row k f (db_outbox d)\<rparr>)"
  shows "evolves env d (d\<lparr>db_outbox := update_row k f (db_outbox d)\<rparr>)"
  using assms by (auto simp: evolves_def map_of_update_row)

lemma unbound_row:
  assumes "admission_ok env d" and "map_of (db_records d) k = Some a" and "map_of (db_outbox d) k = Some w" and "dw_state w \<noteq> DDelivered"
  shows "aw_activation a = None"
proof (rule ccontr)
  assume n: "aw_activation a \<noteq> None"
  from admission_okD(3) [OF assms(1,2)] obtain c m where c: "a = record_of env c m" "command_at env d k c m" by blast
  with n obtain x where "m = Some x" by (cases m) (auto simp: record_of_def)
  with c admission_okD(8) [OF assms(1)] assms(3,4) show False unfolding bound_in_turn_def by blast
qed

lemma close_evolves:
  assumes "map_of (db_outbox d) k = Some w" and "dw_state w \<in> set unsettled" and "map_of (db_records d) k = Some a" and "aw_activation a = None"
    and "terminal_exists (db_journal d) (fst k)"
  shows "evolves env d (d\<lparr>db_outbox := update_row k close_row (db_outbox d)\<rparr>)"
proof (rule row_evolves_step [OF assms(1)])
  show "row_evolves w (close_row w)" using assms(2) by (auto simp: row_evolves_def close_row_def unsettled_def)
  assume ok: "admission_ok env d"
  have c: "code_or_empty ''run_terminal''" by code_simp
  have r: "row_checks w" using admission_okD(4) [OF ok assms(1)] .
  then have "(dw_claim_owner w = None) = (dw_claim_id w = None)" unfolding row_checks_def by blast
  with r have "row_checks (close_row w)"
    using c assms(2) by (cases "dw_state w") (simp_all add: row_checks_def close_row_def unsettled_def address_or_empty_def)
  then show "admission_ok env (d\<lparr>db_outbox := update_row k close_row (db_outbox d)\<rparr>)"
    by (rule outbox_update_ok [OF ok assms(1,3)]) (simp_all add: close_row_def assms(4,5))
qed

lemma claim_evolves:
  assumes "map_of (db_outbox d) k = Some w" and "dw_state w \<in> {DPending, DLeased}" and "map_of (db_records d) k = Some a"
    and "\<not> prior_undelivered d k (aw_sequence a)" and "dw_attempts w < POSTGRES_INTEGER_MAX"
    and "\<And>k' w'. map_of (db_outbox d) k' = Some w' \<Longrightarrow> k' \<noteq> k \<Longrightarrow> dw_claim_id w' \<noteq> Some cid"
  shows "evolves env d (d\<lparr>db_outbox := update_row k (claim_row owner cid until) (db_outbox d)\<rparr>)"
proof (rule row_evolves_step [OF assms(1)])
  show "row_evolves w (claim_row owner cid until w)" using assms(2) by (auto simp: row_evolves_def claim_row_def)
  assume ok: "admission_ok env d"
  have r: "row_checks w" using admission_okD(4) [OF ok assms(1)] .
  then have "row_checks (claim_row owner cid until w)"
    using assms(2,5) by (cases "dw_state w") (simp_all add: row_checks_def claim_row_def code_or_empty_def address_or_empty_def)
  then show "admission_ok env (d\<lparr>db_outbox := update_row k (claim_row owner cid until) (db_outbox d)\<rparr>)"
    using unbound_row [OF ok assms(3,1)] assms(2,4,6)
    by (intro outbox_update_ok [OF ok assms(1,3)]) (auto simp: claim_row_def)
qed

lemma settle_evolves:
  assumes "map_of (db_outbox d) k = Some w" and "dw_state w = DLeased" and "map_of (db_records d) k = Some a" and "settling f"
  shows "evolves env d (d\<lparr>db_outbox := update_row k f (db_outbox d)\<rparr>)"
proof (rule row_evolves_step [OF assms(1)])
  have f: "dw_generation (f w) = dw_generation w" "dw_claim_owner (f w) = dw_claim_owner w" "dw_claim_id (f w) = dw_claim_id w"
    "dw_state (f w) \<noteq> DLeased" "dw_state (f w) \<noteq> DRunTerminal"
    using assms(4) by (auto simp: settling_def deliver_row_def fail_row_def)
  then show "row_evolves w (f w)" using assms(2) by (simp add: row_evolves_def)
  assume ok: "admission_ok env d"
  have r: "row_checks w" using admission_okD(4) [OF ok assms(1)] .
  have "err \<noteq> []" if "taxonomy_code err" for err using that by (auto simp: taxonomy_code_def)
  moreover have "\<exists>x. dw_claim_owner w = Some x" "\<exists>x. dw_claim_id w = Some x" using r assms(2) by (auto simp: row_checks_def)
  ultimately have "row_checks (f w)"
    using r assms(2) assms(4) [unfolded settling_def] checked_text_nonempty(3)
    by (elim disjE exE conjE) (simp_all add: row_checks_def deliver_row_def fail_row_def code_or_empty_def address_or_empty_def)
  then show "admission_ok env (d\<lparr>db_outbox := update_row k f (db_outbox d)\<rparr>)"
    using unbound_row [OF ok assms(3,1)] assms(2) f by (intro outbox_update_ok [OF ok assms(1,3)]) auto
qed

lemma numberedD:
  assumes "numbered d"
  shows "map_of (db_records d) k = Some a \<Longrightarrow> \<exists>n. db_head d (fst k) = Some n \<and> 1 \<le> aw_sequence a \<and> aw_sequence a \<le> n"
    "db_head d run = Some n \<Longrightarrow> 1 \<le> i \<Longrightarrow> i \<le> n \<Longrightarrow> \<exists>cid a. map_of (db_records d) (run, cid) = Some a \<and> aw_sequence a = i"
    "map_of (db_records d) (run, cid) = Some a \<Longrightarrow> map_of (db_records d) (run, cid') = Some a' \<Longrightarrow> aw_sequence a = aw_sequence a' \<Longrightarrow> cid = cid'"
    "db_head d run = Some n \<Longrightarrow> 0 \<le> n \<and> n \<le> POSTGRES_BIGINT_MAX"
  using assms unfolding numbered_def by blast+

lemma open_head_evolves:
  assumes "db_head d run = None"
  shows "evolves env d (d\<lparr>db_head := (db_head d)(run \<mapsto> 0)\<rparr>)" (is "evolves env d ?d")
proof -
  have c: "command_at env ?d = command_at env d" by (simp add: command_at_def fun_eq_iff)
  have "admission_ok env ?d" if ok: "admission_ok env d"
  proof -
    have "numbered ?d" using admission_okD(6) [OF ok] assms
      by (auto simp: numbered_def POSTGRES_BIGINT_MAX_def) (metis option.distinct(1))
    moreover have "in_order ?d = in_order d" "bound_in_turn env ?d = bound_in_turn env d" "closed_at_terminal ?d = closed_at_terminal d"
      by (simp_all add: in_order_def bound_in_turn_def closed_at_terminal_def c)
    ultimately show ?thesis using ok unfolding admission_ok_def c by simp
  qed
  then show ?thesis by (simp add: evolves_def)
qed

lemma fresh_record:
  assumes "\<not> record_taken d k a" and "map_of (db_records d) k' = Some b"
  shows "k' \<noteq> k" "fst k' = fst k \<Longrightarrow> aw_sequence b \<noteq> aw_sequence a"
  using assms map_of_SomeD [OF assms(2)] by (auto simp: record_taken_def list_ex_iff)

lemma append_get:
  assumes "map_of t k = None"
  shows "map_of (t @ [(k, x)]) k' = (if k' = k then Some x else map_of t k')"
  using assms by (auto simp: map_add_def split: option.split)

lemma appended_tables:
  assumes "appendable env c n d" and "k = (ad_run_id c, ad_command_id c)"
  shows "map_of (db_records d) k = None" "map_of (db_outbox d) k = None"
    "map_of (db_records (appended_command env c now d)) k' = (if k' = k then Some (record_of env c None) else map_of (db_records d) k')"
    "map_of (db_outbox (appended_command env c now d)) k' = (if k' = k then Some (new_dispatch now) else map_of (db_outbox d) k')"
    "db_head (appended_command env c now d) = (db_head d)(ad_run_id c \<mapsto> n + 1)"
    "aw_sequence (record_of env c None) = n + 1"
proof -
  show n: "map_of (db_records d) k = None" "map_of (db_outbox d) k = None"
    using assms fresh_record(1) [of d k "new_record env c"] by (cases "map_of (db_records d) k"; force simp: appendable_def)+
  have e: "new_record env c = record_of env c None" by (simp add: record_of_def new_record_def)
  show "map_of (db_records (appended_command env c now d)) k' = (if k' = k then Some (record_of env c None) else map_of (db_records d) k')"
    using append_get [OF n(1), of "new_record env c" k'] assms(2) e by (simp add: appended_command_def Let_def del: map_of_append)
  show "map_of (db_outbox (appended_command env c now d)) k' = (if k' = k then Some (new_dispatch now) else map_of (db_outbox d) k')"
    using append_get [OF n(2), of "new_dispatch now" k'] assms(2) by (simp add: appended_command_def Let_def del: map_of_append)
  show "db_head (appended_command env c now d) = (db_head d)(ad_run_id c \<mapsto> n + 1)" "aw_sequence (record_of env c None) = n + 1"
    using assms(1) by (simp_all add: appended_command_def appendable_def record_of_def new_record_def Let_def)
qed

lemma head_bounds_sequences:
  assumes "numbered d" and "appendable env c n d" and "map_of (db_records d) (ad_run_id c, cid) = Some a"
  shows "aw_sequence a \<le> n"
  using numberedD(1) [OF assms(1,3)] assms(2) by (auto simp: appendable_def)

lemma append_numbered:
  assumes ok: "numbered d" and c: "appendable env c n d"
  shows "numbered (appended_command env c now d)" (is "numbered ?d")
proof -
  note N = numberedD [OF ok] and T = appended_tables [OF c refl] and le = head_bounds_sequences [OF ok c]
  have head: "db_head d (ad_run_id c) = Some n" "0 \<le> n" "n + 1 \<le> POSTGRES_BIGINT_MAX" using c by (simp_all add: appendable_def)
  show ?thesis unfolding numbered_def
  proof (intro conjI allI impI)
    fix k a assume a: "map_of (db_records ?d) k = Some a"
    show "\<exists>n. db_head ?d (fst k) = Some n \<and> 1 \<le> aw_sequence a \<and> aw_sequence a \<le> n"
    proof (cases "k = (ad_run_id c, ad_command_id c)")
      case True
      with a T(6) head(2) show ?thesis by (auto simp: T(3,5))
    next
      case False
      with a have "map_of (db_records d) k = Some a" by (simp add: T(3))
      from N(1) [OF this] head(1) show ?thesis by (auto simp: T(5))
    qed
  next
    fix run l i assume 1: "db_head ?d run = Some l" "1 \<le> i" "i \<le> l"
    show "\<exists>cid a. map_of (db_records ?d) (run, cid) = Some a \<and> aw_sequence a = i"
    proof (cases "run = ad_run_id c \<and> i = n + 1")
      case True
      then show ?thesis using T(6) by (intro exI [of _ "ad_command_id c"] exI [of _ "record_of env c None"]) (simp add: T(3))
    next
      case False
      with 1 head(1) obtain l' where "db_head d run = Some l'" "i \<le> l'" by (auto simp: T(5) split: if_splits)
      from N(2) [OF this(1) 1(2) this(2)] T(1) show ?thesis by (metis option.distinct(1) T(3))
    qed
  next
    fix run cid cid' a a'
    assume 1: "map_of (db_records ?d) (run, cid) = Some a" "map_of (db_records ?d) (run, cid') = Some a'" "aw_sequence a = aw_sequence a'"
    have *: "aw_sequence b \<noteq> n + 1" if "map_of (db_records d) (run, x) = Some b" "run = ad_run_id c" for x b
      using le [of x b] that by simp
    show "cid = cid'"
    proof (cases "(run, cid) = (ad_run_id c, ad_command_id c) \<or> (run, cid') = (ad_run_id c, ad_command_id c)")
      case True
      with 1 * T(6) show ?thesis unfolding T(3) by (metis option.inject prod.inject)
    next
      case False
      with 1 have "map_of (db_records d) (run, cid) = Some a" "map_of (db_records d) (run, cid') = Some a'"
        by (auto simp: T(3) split: if_splits)
      from N(3) [OF this 1(3)] show ?thesis .
    qed
  next
    fix run l assume "db_head ?d run = Some l"
    then show "0 \<le> l" "l \<le> POSTGRES_BIGINT_MAX" using N(4) [of run l] head by (auto simp: T(5) split: if_splits)
  qed
qed

lemma append_in_order:
  assumes "numbered d" and "in_order d" and c: "appendable env c n d"
  shows "in_order (appended_command env c now d)" (is "in_order ?d")
  unfolding in_order_def
proof (intro allI impI)
  note T = appended_tables [OF c refl]
  let ?k = "(ad_run_id c, ad_command_id c)"
  fix k1 a1 w1 k2 a2 w2
  assume 1: "map_of (db_records ?d) k1 = Some a1" "map_of (db_outbox ?d) k1 = Some w1" "map_of (db_records ?d) k2 = Some a2"
    "map_of (db_outbox ?d) k2 = Some w2" "fst k2 = fst k1" "aw_sequence a2 < aw_sequence a1" "0 < dw_generation w1"
  then have k1: "k1 \<noteq> ?k" unfolding T by (auto simp: new_dispatch_def)
  have "k2 \<noteq> ?k"
  proof
    assume k2: "k2 = ?k"
    with 1(5) have "k1 = (ad_run_id c, snd k1)" by (metis fst_conv prod.collapse)
    then have "aw_sequence a1 \<le> n" using head_bounds_sequences [OF assms(1) c, of "snd k1"] 1(1) k1 unfolding T by metis
    moreover have "aw_sequence a2 = n + 1" using 1(3) k2 T(6) unfolding T(3) by auto
    ultimately show False using 1(6) by simp
  qed
  with 1 k1 have "map_of (db_records d) k1 = Some a1" "map_of (db_outbox d) k1 = Some w1" "map_of (db_records d) k2 = Some a2"
    "map_of (db_outbox d) k2 = Some w2" unfolding T by auto
  with assms(2) 1(5-7) show "dw_state w2 \<in> {DDelivered, DRunTerminal}" unfolding in_order_def by blast
qed

lemma append_command_at:
  assumes "appendable env c n d" and "command_at env (appended_command env c now d) k b (Some m)"
  shows "command_at env d k b (Some m)"
proof -
  note T = appended_tables [OF assms(1) refl]
  have "record_of env b (Some m) \<noteq> record_of env c None"
    by (auto simp: record_of_def new_record_def dest: arg_cong [of _ _ aw_activation])
  then show ?thesis using assms(2) unfolding command_at_def T by (metis option.inject)
qed

lemma command_at_appended:
  assumes "appendable env c n d" and "command_at env d k b m"
  shows "command_at env (appended_command env c now d) k b m"
  using assms(2) appended_tables(1,3) [OF assms(1) refl] unfolding command_at_def by (metis option.distinct(1))

lemma append_evolves:
  assumes c: "appendable env c n d"
  shows "evolves env d (appended_command env c now d)" (is "evolves env d ?d")
proof -
  note T = appended_tables [OF c refl]
  have "admission_ok env ?d" if ok: "admission_ok env d"
  proof -
    note D = admission_okD [OF ok]
    have "bound_in_turn env ?d" unfolding bound_in_turn_def
    proof (intro allI impI)
      fix k b m y assume b: "command_at env ?d k b (Some m)" and y: "map_of (db_outbox ?d) k = Some y"
      from append_command_at [OF c b] have b0: "command_at env d k b (Some m)" .
      then have "k \<noteq> (ad_run_id c, ad_command_id c)" using T(1) unfolding command_at_def by auto
      with y have "map_of (db_outbox d) k = Some y" unfolding T by simp
      with D(8) b0 show "dw_state y = DDelivered \<and> (1 < ad_command_sequence b \<longrightarrow> (\<exists>k' c' m'. command_at env ?d k' c' (Some m') \<and>
        ad_run_id c' = ad_run_id b \<and> ad_command_sequence c' = ad_command_sequence b - 1 \<and>
        am_source_checkpoint_seq m' < am_source_checkpoint_seq m))"
        unfolding bound_in_turn_def by (meson command_at_appended [OF c])
    qed
    moreover have "\<exists>b m. a = record_of env b m \<and> command_at env ?d k b m" if "map_of (db_records ?d) k = Some a" for k a
    proof (cases "k = (ad_run_id c, ad_command_id c)")
      case True
      with that c show ?thesis by (intro exI [of _ c] exI [of _ None]) (simp add: T command_at_def appendable_def)
    next
      case False
      with that D(3) [of k a] show ?thesis by (auto simp: T intro: command_at_appended [OF c])
    qed
    moreover have "row_checks (new_dispatch now)"
      by (simp add: row_checks_def new_dispatch_def address_or_empty_def code_or_empty_def POSTGRES_INTEGER_MAX_def)
    then have "row_checks y" if "map_of (db_outbox ?d) k = Some y" for k y using that D(4) unfolding T by (auto split: if_splits)
    moreover have "k2 = k1" if "map_of (db_outbox ?d) k1 = Some y1" "map_of (db_outbox ?d) k2 = Some y2" "dw_claim_id y1 \<noteq> None"
      "dw_claim_id y2 = dw_claim_id y1" for k1 y1 k2 y2
      using that D(5) unfolding T by (auto simp: new_dispatch_def split: if_splits)
    moreover have "distinct (map fst (db_records ?d))" "map fst (db_outbox ?d) = map fst (db_records ?d)"
      using D(1,2) T(1) by (auto simp: appended_command_def Let_def map_of_eq_None_iff)
    moreover have "closed_at_terminal ?d" using D(9) unfolding closed_at_terminal_def T(4)
      by (auto simp: new_dispatch_def appended_command_def Let_def)
    ultimately show ?thesis using append_numbered [OF D(6) c] append_in_order [OF D(6,7) c] unfolding admission_ok_def by blast
  qed
  then show ?thesis using T(1,2) unfolding evolves_def T(3,4) by auto
qed

lemma sequences_cong:
  assumes "\<And>k. map_option aw_sequence (map_of (db_records d') k) = map_option aw_sequence (map_of (db_records d) k)"
  shows "map_of (db_records d') k = Some a' \<Longrightarrow> \<exists>a. map_of (db_records d) k = Some a \<and> aw_sequence a = aw_sequence a'"
    "map_of (db_records d) k = Some a \<Longrightarrow> \<exists>a'. map_of (db_records d') k = Some a' \<and> aw_sequence a' = aw_sequence a"
  using assms [of k] by (auto simp: map_option_case split: option.splits)

lemma order_cong:
  assumes sq: "\<And>k. map_option aw_sequence (map_of (db_records d') k) = map_option aw_sequence (map_of (db_records d) k)"
    and "db_outbox d' = db_outbox d" and "db_head d' = db_head d"
  shows "numbered d \<Longrightarrow> numbered d'" and "in_order d \<Longrightarrow> in_order d'"
proof -
  note S = sequences_cong [of d' d, OF sq]
  show "numbered d'" if n: "numbered d"
    unfolding numbered_def assms(3)
  proof (intro conjI allI impI)
    fix k a assume "map_of (db_records d') k = Some a"
    from S(1) [OF this] numberedD(1) [OF n]
    show "\<exists>n. db_head d (fst k) = Some n \<and> 1 \<le> aw_sequence a \<and> aw_sequence a \<le> n" by metis
  next
    fix run l i assume "db_head d run = Some l" "1 \<le> i" "i \<le> l"
    from numberedD(2) [OF n this] S(2) show "\<exists>cid a. map_of (db_records d') (run, cid) = Some a \<and> aw_sequence a = i" by metis
  next
    fix run cid cid' a a'
    assume "map_of (db_records d') (run, cid) = Some a" "map_of (db_records d') (run, cid') = Some a'" "aw_sequence a = aw_sequence a'"
    with S(1) numberedD(3) [OF n] show "cid = cid'" by metis
  next
    fix run l assume "db_head d run = Some l"
    from numberedD(4) [OF n this] show "0 \<le> l" "l \<le> POSTGRES_BIGINT_MAX" by blast+
  qed
  show "in_order d'" if o: "in_order d"
    unfolding in_order_def assms(2)
  proof (intro allI impI)
    fix k1 a1 w1 k2 a2 w2
    assume 1: "map_of (db_records d') k1 = Some a1" "map_of (db_outbox d) k1 = Some w1" "map_of (db_records d') k2 = Some a2"
      "map_of (db_outbox d) k2 = Some w2" "fst k2 = fst k1" "aw_sequence a2 < aw_sequence a1" "0 < dw_generation w1"
    from S(1) [OF 1(1)] S(1) [OF 1(3)] obtain b1 b2 where "map_of (db_records d) k1 = Some b1" "map_of (db_records d) k2 = Some b2"
      "aw_sequence b2 < aw_sequence b1" using 1(6) by auto
    with o 1 show "dw_state w2 \<in> {DDelivered, DRunTerminal}" unfolding in_order_def by blast
  qed
qed

lemma binding_source: "binding_of env x = binding_of env y \<Longrightarrow> am_source_checkpoint_seq x = am_source_checkpoint_seq y"
  by (simp add: binding_of_def activation_to_json_def activation_members_def)

lemma record_of_fields:
  "record_of env b x = record_of env c y \<Longrightarrow> ad_command_sequence b = ad_command_sequence c \<and> map_option (binding_of env) x = map_option (binding_of env) y"
  by (auto simp: record_of_def new_record_def)

lemma predecessor_at:
  assumes "env_ok env" and "admission_ok env d" and "predecessor_bound_before env d c n"
  obtains k c' m' where "command_at env d k c' (Some m')" "ad_run_id c' = ad_run_id c"
    "ad_command_sequence c' = ad_command_sequence c - 1" "am_source_checkpoint_seq m' < n"
proof -
  from assms(3) obtain k now s m where k: "predecessor_key d c = Some k" and s: "stored env d now k = Inr (Some s)"
    and m: "sd_activation s = Some m" "am_source_checkpoint_seq m < n" unfolding predecessor_bound_before_def by blast
  from stored_command_at [OF assms(1,2) s] obtain c' x w where c': "command_at env d k c' x"
    and v: "s = stored_view c' x w now (terminal_exists (db_journal d) (fst k))" by blast
  have x: "x = Some m" using v m(1) by (simp add: stored_view_def)
  from k obtain a where a: "(k, a) \<in> set (db_records d)" "fst k = ad_run_id c" "aw_sequence a = ad_command_sequence c - 1"
    by (auto simp: predecessor_key_def find_Some_iff nth_mem) (metis nth_mem)
  have "map_of (db_records d) k = Some a" using row_in_table(2) [OF assms(2)] a(1) by simp
  with c' a(2,3) have "ad_run_id c' = ad_run_id c" "ad_command_sequence c' = ad_command_sequence c - 1"
    by (auto simp: command_at_def record_of_def new_record_def)
  with that c' x m(2) show thesis by blast
qed

lemma bound_tables:
  assumes "command_at env d k c None" and "good_activation env c m"
  shows "map_of (db_records (bound_command env c m d)) k' = (if k' = k then Some (record_of env c (Some m)) else map_of (db_records d) k')"
    "command_at env (bound_command env c m d) k c (Some m)"
    "k' \<noteq> k \<Longrightarrow> command_at env (bound_command env c m d) k' b y \<longleftrightarrow> command_at env d k' b y"
    "command_at env d k' b (Some z) \<Longrightarrow> k' \<noteq> k"
proof -
  have k: "k = (ad_run_id c, ad_command_id c)" and g: "good_command env c" and r: "map_of (db_records d) k = Some (record_of env c None)"
    using assms(1) unfolding command_at_def by blast+
  show t: "map_of (db_records (bound_command env c m d)) k' = (if k' = k then Some (record_of env c (Some m)) else map_of (db_records d) k')" for k'
    using r by (simp add: bound_command_def map_of_update_row k [symmetric] record_of_def)
  show "command_at env (bound_command env c m d) k c (Some m)" unfolding command_at_def t using k g assms(2) by simp
  show "k' \<noteq> k \<Longrightarrow> command_at env (bound_command env c m d) k' b y \<longleftrightarrow> command_at env d k' b y" unfolding command_at_def t by simp
  show "k' \<noteq> k" if "command_at env d k' b (Some z)"
  proof
    assume "k' = k"
    with that r have "record_of env b (Some z) = record_of env c None" unfolding command_at_def by auto
    from record_of_fields [OF this] show False by simp
  qed
qed

lemma bind_in_turn:
  assumes env: "env_ok env" and ok: "admission_ok env d" and c: "command_at env d k c None" and good: "good_activation env c m"
    and w: "map_of (db_outbox d) k = Some w" "dw_state w = DDelivered"
    and before: "ad_command_sequence c = 1 \<or> predecessor_bound_before env d c (am_source_checkpoint_seq m)"
  shows "bound_in_turn env (bound_command env c m d)" (is "bound_in_turn env ?d")
  unfolding bound_in_turn_def
proof (intro allI impI)
  note T = bound_tables [OF c good]
  fix k1 b y u assume b: "command_at env ?d k1 b (Some y)" and "map_of (db_outbox ?d) k1 = Some u"
  then have u: "map_of (db_outbox d) k1 = Some u" by (simp add: bound_command_def)
  have pred: "\<exists>k' c' m'. command_at env ?d k' c' (Some m') \<and> ad_run_id c' = ad_run_id b \<and>
      ad_command_sequence c' = ad_command_sequence b - 1 \<and> am_source_checkpoint_seq m' < am_source_checkpoint_seq y"
    if "command_at env d k' c1 (Some m1)" "ad_run_id c1 = ad_run_id b" "ad_command_sequence c1 = ad_command_sequence b - 1"
      "am_source_checkpoint_seq m1 < am_source_checkpoint_seq y" for k' c1 m1
    using that T(3) [OF T(4) [OF that(1)]] by blast
  show "dw_state u = DDelivered \<and> (1 < ad_command_sequence b \<longrightarrow> (\<exists>k' c' m'. command_at env ?d k' c' (Some m') \<and>
    ad_run_id c' = ad_run_id b \<and> ad_command_sequence c' = ad_command_sequence b - 1 \<and>
    am_source_checkpoint_seq m' < am_source_checkpoint_seq y))"
  proof (cases "k1 = k")
    case True
    with b T(1) have r: "record_of env b (Some y) = record_of env c (Some m)" unfolding command_at_def by auto
    have run: "ad_run_id b = ad_run_id c" using b c True unfolding command_at_def by auto
    from record_of_fields [OF r] have sq: "ad_command_sequence b = ad_command_sequence c" and "binding_of env y = binding_of env m" by simp_all
    then have src: "am_source_checkpoint_seq y = am_source_checkpoint_seq m" by (blast intro: binding_source)
    have "\<exists>k' c' m'. command_at env ?d k' c' (Some m') \<and> ad_run_id c' = ad_run_id b \<and>
      ad_command_sequence c' = ad_command_sequence b - 1 \<and> am_source_checkpoint_seq m' < am_source_checkpoint_seq y"
      if "1 < ad_command_sequence b"
    proof -
      have "predecessor_bound_before env d c (am_source_checkpoint_seq m)" using before that sq by auto
      from predecessor_at [OF env ok this] obtain k' c' m' where "command_at env d k' c' (Some m')" "ad_run_id c' = ad_run_id c"
        "ad_command_sequence c' = ad_command_sequence c - 1" "am_source_checkpoint_seq m' < am_source_checkpoint_seq m" .
      then show ?thesis using pred sq src run by simp
    qed
    moreover have "dw_state u = DDelivered" using u w True by simp
    ultimately show ?thesis by blast
  next
    case False
    then have "command_at env d k1 b (Some y)" using b T(3) by blast
    from admission_okD(8) [OF ok, unfolded bound_in_turn_def, rule_format, OF this u]
    show ?thesis using pred by blast
  qed
qed

lemma bind_evolves:
  assumes env: "env_ok env" and s: "stored env d now (ad_run_id c, ad_command_id c) = Inr (Some s)" "sd_command s = c" "sd_state s = DDelivered"
    "sd_activation s = None" and good: "good_activation env c m"
    and before: "ad_command_sequence c = 1 \<or> predecessor_bound_before env d c (am_source_checkpoint_seq m)"
  shows "evolves env d (bound_command env c m d)" (is "evolves env d ?d")
proof -
  let ?k = "(ad_run_id c, ad_command_id c)"
  have "admission_ok env ?d" if ok: "admission_ok env d"
  proof -
    note D = admission_okD [OF ok]
    from stored_command_at [OF env ok s(1)] obtain c' x w where c': "command_at env d ?k c' x" and w: "map_of (db_outbox d) ?k = Some w"
      and v: "s = stored_view c' x w now (terminal_exists (db_journal d) (fst ?k))" by blast
    have e: "c' = c" "x = None" "dw_state w = DDelivered" using s(2-4) v by (simp_all add: stored_view_def)
    note T = bound_tables [OF c' [unfolded e(1,2)] good]
    have o: "db_outbox ?d = db_outbox d" "map fst (db_records ?d) = map fst (db_records d)" "db_head ?d = db_head d"
      "closed_at_terminal ?d = closed_at_terminal d"
      by (simp_all add: bound_command_def closed_at_terminal_def)
    have "map_option aw_sequence (map_of (db_records ?d) k) = map_option aw_sequence (map_of (db_records d) k)" for k
      by (simp add: bound_command_def map_of_update_row option.map_comp comp_def)
    from order_cong [of ?d d, OF this] have "numbered ?d" "in_order ?d" using D(6,7) o by simp_all
    moreover have "\<exists>b y. a = record_of env b y \<and> command_at env ?d k b y" if "map_of (db_records ?d) k = Some a" for k a
      using that T(2,3) D(3) [of k a] unfolding T(1) by (cases "k = ?k") auto
    ultimately show ?thesis using D(1,2,4,5,9) bind_in_turn [OF env ok c' [unfolded e(1,2)] good w e(3) before]
      unfolding admission_ok_def o by blast
  qed
  moreover have "record_evolves a (a\<lparr>aw_activation := Some (binding_of env m)\<rparr>)" if "map_of (db_records d) ?k = Some a" for a
  proof -
    have "aw_activation a = None" using stored_row_read [OF s(1)] s(4) that by (metis option.inject)
    then show ?thesis by (simp add: record_evolves_def)
  qed
  ultimately show ?thesis unfolding evolves_def by (auto simp: bound_command_def map_of_update_row)
qed

lemma step_evolves: "table_step env d d' \<Longrightarrow> env_ok env \<Longrightarrow> evolves env d d'"
  by (induction rule: table_step.induct)
     (blast intro: open_head_evolves append_evolves close_evolves claim_evolves settle_evolves bind_evolves)+

lemma steps_evolve: "(table_step env)\<^sup>*\<^sup>* d d' \<Longrightarrow> env_ok env \<Longrightarrow> evolves env d d'"
  by (induction rule: rtranclp_induct) (auto intro: ev.rel_refl ev.rel_trans step_evolves)

end
