(* ===== verification/Admission_Safety.thy ===== *)
theory Admission_Safety
  imports Admission_History
begin

text \<open>
  Histories of the command admission store: sequences of admissions, claims, settlements and bindings
  by any callers, interleaved with mutations of the run journal, with statements and commits that fail
  and responses that are lost. Every operation is a sequence of the abstract steps, so the invariant
  holds in every history; ordered dispatch, idempotent admission, fenced claims and serial activation
  binding follow.
\<close>

section \<open>Operations are sequences of steps\<close>

lemma first_by_Some: "first_by f xs = Some x \<Longrightarrow> x \<in> set xs"
  unfolding first_by_def by (cases "sort_key f xs") (auto dest: arg_cong [of _ _ set])

lemma reconcile_steps:
  assumes "admission_ok env d"
  shows "(table_step env)\<^sup>*\<^sup>* d (reconcile_one_terminal_dispatch tx target d)"
proof (cases "terminal_candidate tx target d")
  case None
  then show ?thesis by (simp add: reconcile_one_terminal_dispatch_def)
next
  case (Some k)
  then obtain w where "(k, w) \<in> set (db_outbox d)" and st: "dw_state w \<in> set unsettled"
    and r: "case map_of (db_records d) k of Some a \<Rightarrow> aw_activation a = None | None \<Rightarrow> False" and x: "terminal_exists (db_journal d) (fst k)"
    by (auto simp: terminal_candidate_def dest!: first_by_Some)
  then have "map_of (db_outbox d) k = Some w" using row_in_table(1) [OF assms] by simp
  moreover from r obtain a where "map_of (db_records d) k = Some a" "aw_activation a = None" by (auto split: option.splits)
  ultimately have "table_step env d (d\<lparr>db_outbox := update_row k close_row (db_outbox d)\<rparr>)" using st x by (blast intro: table_step.close)
  with Some show ?thesis by (simp add: reconcile_one_terminal_dispatch_def)
qed

lemma claim_statement_steps:
  assumes "admission_ok env d" and "claim_statement tx owner cid us d = Inr (d', sel)"
  shows "(table_step env)\<^sup>*\<^sup>* d d'"
proof (cases "claim_candidate tx d")
  case None
  then show ?thesis using assms(2) by (simp add: claim_statement_def)
next
  case (Some k)
  note T = row_in_table(1) [OF assms(1)]
  from Some obtain w where kw: "(k, w) \<in> set (db_outbox d)" and c: "claim_ready (ax_now tx 2) w"
    and r: "case map_of (db_records d) k of Some a \<Rightarrow> \<not> prior_undelivered d k (aw_sequence a) | None \<Rightarrow> False"
    by (auto simp: claim_candidate_def dest!: first_by_Some)
  have d': "d' = d\<lparr>db_outbox := update_row k (claim_row owner cid (ax_now tx 3 + us)) (db_outbox d)\<rparr>"
    and n: "\<not> list_ex (\<lambda>(k', w). k' = k \<and> POSTGRES_INTEGER_MAX \<le> dw_attempts w) (db_outbox d)"
      "\<not> list_ex (\<lambda>(k', w). k' \<noteq> k \<and> dw_claim_id w = Some cid) (db_outbox d)"
    using assms(2) Some by (auto simp: claim_statement_def split: if_splits)
  from r obtain a where a: "map_of (db_records d) k = Some a" "\<not> prior_undelivered d k (aw_sequence a)" by (auto split: option.splits)
  have "dw_state w \<in> {DPending, DLeased}" using c by (auto simp: claim_ready_def)
  moreover have "dw_attempts w < POSTGRES_INTEGER_MAX" using n(1) kw unfolding list_ex_iff by fastforce
  moreover have "dw_claim_id w' \<noteq> Some cid" if "map_of (db_outbox d) k' = Some w'" "k' \<noteq> k" for k' w'
    using n(2) T that unfolding list_ex_iff by fastforce
  ultimately show ?thesis unfolding d' using table_step.claim_command [of d k w a cid env owner] T kw a by blast
qed

lemma claim_steps:
  assumes "env_ok env" and "admission_ok env d" and "claim_dispatch_locked env tx owner cid us found d = Inr (d', m)"
  shows "(table_step env)\<^sup>*\<^sup>* d d'"
proof (cases found)
  case (Some k)
  have R: "d' = d \<or> (\<exists>t. d' = reconcile_one_terminal_dispatch tx t d)"
    using assms(3) Some unfolding claim_dispatch_locked_def claim_existing_dispatch_def
    by (auto simp: res_bind_eq_Inr split: if_splits option.splits)
  then show ?thesis using reconcile_steps [OF assms(2)] by auto
next
  case None
  then obtain sel where c: "claim_statement tx owner cid us (reconcile_one_terminal_dispatch tx None d) = Inr (d', sel)"
    using assms(3) unfolding claim_dispatch_locked_def claim_new_dispatch_def
    by (auto simp: res_bind_eq_Inr split: option.splits)
  note r = reconcile_steps [OF assms(2), of tx None]
  have "admission_ok env (reconcile_one_terminal_dispatch tx None d)" using steps_evolve [OF r assms(1)] assms(2) unfolding evolves_def by blast
  from rtranclp_trans [OF r claim_statement_steps [OF this c]] show ?thesis .
qed

lemma settle_steps:
  assumes "settling f" and "settle_locked env tx t applied f d = Inr (d', x)"
  shows "(table_step env)\<^sup>*\<^sup>* d d'"
proof (cases "d' = d")
  case False
  with assms(2) obtain s where s: "stored env d (ax_now tx 0) (token_key t) = Inr (Some s)" and l: "sd_state s = DLeased"
    and d': "d' = d\<lparr>db_outbox := update_row (token_key t) f (db_outbox d)\<rparr>"
    by (auto simp: settle_locked_def require_active_claim_def res_bind_eq_Inr split: if_splits option.splits)
  from stored_row_read [OF s] obtain a w where "map_of (db_records d) (token_key t) = Some a" "map_of (db_outbox d) (token_key t) = Some w"
    "dw_state w = DLeased" using l by metis
  then have "table_step env d d'" unfolding d' using table_step.settle assms(1) by blast
  then show ?thesis by blast
qed simp

lemma admit_steps:
  assumes "make_request q = Inr q" and "admit_locked env tx q d = Inr (d', x)"
  shows "(table_step env)\<^sup>*\<^sup>* d d'"
proof -
  from assms(2) obtain d1 n where h: "lock_admission_head d (aq_run_id q) = Inr (d1, n)"
    and cs: "d' = d1 \<or> insert_admission env tx q n d1 = Inr d'"
    unfolding admit_locked_def by (auto simp: res_bind_eq_Inr split: if_splits option.splits)
  have 1: "(table_step env)\<^sup>*\<^sup>* d d1" and n: "db_head d1 (aq_run_id q) = Some n" "0 \<le> n"
    using h unfolding lock_admission_head_def Let_def
    by (auto split: option.splits if_splits intro: table_step.open_head)
  show ?thesis
  proof (cases "d' = d1")
    case False
    with cs have i: "insert_admission env tx q n d1 = Inr d'" by blast
    then obtain c where c: "admitted_from_request (je_cfg env) (je_sha env) q (n + 1) = Inr c"
      and free: "\<not> record_taken d1 (ad_run_id c, ad_command_id c) (new_record env c)"
        "map_of (db_outbox d1) (ad_run_id c, ad_command_id c) = None" and b: "n + 1 \<le> POSTGRES_BIGINT_MAX"
      and d': "d' = d1\<lparr>db_records := db_records d1 @ [((ad_run_id c, ad_command_id c), new_record env c)],
        db_outbox := db_outbox d1 @ [((ad_run_id c, ad_command_id c), new_dispatch (ax_now tx 1))],
        db_head := (db_head d1)(ad_run_id c \<mapsto> n + 1)\<rparr>"
      unfolding insert_admission_def Let_def by (auto simp: res_bind_eq_Inr split: if_splits)
    have e: "ad_run_id c = aq_run_id q" "ad_command_sequence c = n + 1" "good_command env c"
      using c unfolding admitted_from_request_def good_command_def
      by (auto simp: make_admitted_def res_bind_eq_Inr)
    have "appendable env c n d1" using n e free b by (simp add: appendable_def)
    moreover have "d' = appended_command env c (ax_now tx 1) d1" by (simp add: d' appended_command_def Let_def e(2))
    ultimately have "table_step env d1 d'" using table_step.append by blast
    with 1 show ?thesis by simp
  qed (use 1 in simp)
qed

lemma make_activation_id: "make_activation cfg m = Inr m' \<Longrightarrow> m' = m"
  by (auto simp: make_activation_def res_bind_eq_Inr)

text \<open>A receipt in a checkpoint belongs to a command bound to an earlier one.\<close>

lemma receipt_after_source:
  assumes "receipt_from_checkpoint va cfg sha m c winner = Inr r"
  shows "am_source_checkpoint_seq m < int_val (ck_seq c)"
proof -
  from assms obtain r' s st where "boundary_metadata_ok cfg sha m c r' s st"
    unfolding receipt_from_checkpoint_def Let_def
    by (auto simp: res_bind_eq_Inr split: if_splits pyval.splits sum.splits)
  then show ?thesis unfolding boundary_metadata_ok_def by (auto split: pyval.splits)
qed

lemma prior_completed:
  assumes "require_prior_activations_completed env tx d c ck = Inr ()"
  shows "ad_command_sequence c = 1 \<or> predecessor_bound_before env d c (int_val (ck_seq ck))"
proof (cases "ad_command_sequence c = 1")
  case False
  note R = assms [unfolded require_prior_activations_completed_def]
  from R False obtain k where k: "predecessor_key d c = Some k" by (cases "predecessor_key d c") auto
  with R False obtain s where s: "stored env d (ax_now tx 2) k = Inr (Some s)"
    by (cases "stored env d (ax_now tx 2) k") (auto split: option.splits)
  with R False k obtain m where m: "sd_activation s = Some m" by (cases "sd_activation s") auto
  with R False k s obtain r where "receipt_from_checkpoint (je_va env) (je_cfg env) (je_sha env) m ck None = Inr r"
    by (cases "receipt_from_checkpoint (je_va env) (je_cfg env) (je_sha env) m ck None") (auto split: if_splits)
  with k s m show ?thesis using receipt_after_source unfolding predecessor_bound_before_def by blast
qed simp

lemma activation_of_good:
  assumes "activation_of env c ck = Inr m"
  shows "good_activation env c m" "am_source_checkpoint_seq m = int_val (ck_seq ck)"
proof -
  from assms obtain digest where x: "make_activation (je_cfg env) \<lparr>am_run_id = ad_run_id c, am_command_id = ad_command_id c,
       am_command_sequence = ad_command_sequence c, am_kind = ad_kind c, am_source_checkpoint_seq = int_val (ck_seq ck),
       am_source_checkpoint_sha256 = digest, am_request_digest = ad_request_digest c, am_payload_ref = ad_payload_ref c,
       am_schema_version = ACTIVATION_COMMAND_SCHEMA_VERSION\<rparr> = Inr m" (is "make_activation _ ?x = _")
    unfolding activation_of_def res_bind_eq_Inr by blast
  have m: "m = ?x" using make_activation_id [OF x] .
  with x have "make_activation (je_cfg env) m = Inr m" by simp
  then show "good_activation env c m" "am_source_checkpoint_seq m = int_val (ck_seq ck)"
    using m by (simp_all add: good_activation_def activation_matches_admission_def)
qed

lemma bind_steps:
  assumes "bind_locked env tx c t d = Inr (d', m)"
  shows "(table_step env)\<^sup>*\<^sup>* d d'"
proof (cases "d' = d")
  case False
  let ?k = "(ad_run_id c, ad_command_id c)"
  from assms obtain x where x: "stored env d (ax_now tx 1) ?k = Inr x"
    unfolding bind_locked_def res_bind_eq_Inr by (auto simp: res_bind_eq_Inr split: if_splits)
  with assms obtain s where s: "stored env d (ax_now tx 1) ?k = Inr (Some s)" "sd_command s = c" "sd_state s = DDelivered"
    unfolding bind_locked_def by (cases x) (auto simp: res_bind_eq_Inr split: if_splits)
  with assms False have n: "sd_activation s = None" and f: "bind_fresh env tx c d = Inr (d', m)"
    unfolding bind_locked_def by (cases "sd_activation s"; auto simp: res_bind_eq_Inr split: if_splits)+
  from f obtain ck where p: "require_prior_activations_completed env tx d c ck = Inr ()" and m: "activation_of env c ck = Inr m"
    and w: "write_binding env (ad_run_id c, ad_command_id c) m d = Inr d'"
    unfolding bind_fresh_def by (auto simp: res_bind_eq_Inr split: if_splits)
  note A = activation_of_good [OF m]
  have "d' = bound_command env c m d" using w by (auto simp: write_binding_def bound_command_def split: if_splits)
  moreover have "ad_command_sequence c = 1 \<or> predecessor_bound_before env d c (am_source_checkpoint_seq m)"
    using prior_completed [OF p] A(2) by simp
  ultimately have "table_step env d d'" using table_step.bind [OF s n A(1)] by blast
  then show ?thesis by blast
qed simp

section \<open>Histories\<close>

datatype admission_op =
    Admit admission_request
  | ClaimDispatch string string pyval
  | AcknowledgeDispatch dispatch_token dispatch_result
  | RetryDispatch dispatch_token string pyval
  | RejectDispatch dispatch_token string
  | BindActivation admitted_command writer_token

fun perform_op :: "journal_env \<Rightarrow> bool \<Rightarrow> admission_attempt \<Rightarrow> admission_op \<Rightarrow> admission_db \<Rightarrow> admission_db" where
  "perform_op env ready tx (Admit q) d = fst (admit env ready tx q d)"
| "perform_op env ready tx (ClaimDispatch owner cid lease_s) d = fst (claim_dispatch env ready tx owner cid lease_s d)"
| "perform_op env ready tx (AcknowledgeDispatch t r) d = fst (acknowledge_dispatch env ready tx t r d)"
| "perform_op env ready tx (RetryDispatch t err delay) d = fst (retry_dispatch env ready tx t err delay d)"
| "perform_op env ready tx (RejectDispatch t err) d = fst (reject_dispatch env ready tx t err d)"
| "perform_op env ready tx (BindActivation c t) d = fst (bind_activation env ready tx c t d)"

text \<open>The values handed in were built by their constructors.\<close>

fun op_built :: "admission_op \<Rightarrow> bool" where
  "op_built (Admit q) = (make_request q = Inr q)"
| "op_built (AcknowledgeDispatch t r) = (make_dispatch_result r = Inr r)"
| "op_built _ = True"

inductive admission_run :: "journal_env \<Rightarrow> admission_db \<Rightarrow> admission_db \<Rightarrow> bool" for env :: journal_env where
  start: "admission_run env d d"
| operate: "admission_run env d d1 \<Longrightarrow> op_built x \<Longrightarrow> (\<And>y. admission_run env y (ax_between tx y)) \<Longrightarrow>
    (\<And>n y. admission_run env y (ax_later tx n y)) \<Longrightarrow> admission_run env d (perform_op env ready tx x d1)"
| journal: "admission_run env d d1 \<Longrightarrow> journal_run env (db_journal d1) j \<Longrightarrow> admission_run env d (d1\<lparr>db_journal := j\<rparr>)"

text \<open>A relation kept by sequences of steps and by the journal holds along every history.\<close>

locale admission_history = admission_relation rel for rel :: "admission_db \<Rightarrow> admission_db \<Rightarrow> bool" +
  fixes env :: journal_env
  assumes steps_rel: "(env_ok env \<Longrightarrow> admission_ok env d \<Longrightarrow> (table_step env)\<^sup>*\<^sup>* d d') \<Longrightarrow> rel d d'"
    and journal_rel: "journal_run env (db_journal d) j \<Longrightarrow> rel d (d\<lparr>db_journal := j\<rparr>)"
begin

lemma settlement_op_rel:
  assumes "\<forall>n x. rel x (ax_later tx n x)" and "settling f"
  shows "rel d (fst (answered env tx k accept (admission_transaction tx (settle_locked env tx t applied f) d)))"
  using settlement_rel [OF assms(1)] settle_steps [OF assms(2)] steps_rel by blast

lemma failed_rel:
  assumes "\<forall>n x. rel x (ax_later tx n x)" and "\<And>f us now. checked_duration delay (\<lambda>f. flt_le (Fin 0) f \<and> flt_le f (Fin MAX_COMMAND_RETRY_DELAY_S))
      ''dispatch retry delay must be in the range [0, 86400]'' = Inr f \<Longrightarrow> taxonomy_code err \<Longrightarrow> settling (fail_row st err (duration_microseconds f) now)"
  shows "rel d (fst (settle_failed_dispatch env ready tx t err st delay d))"
  using settlement_op_rel [OF assms(1)] assms(2) rel_refl
  by (auto simp: settle_failed_dispatch_def Let_def split: sum.split)

lemma op_rel:
  assumes "\<forall>n x. rel x (ax_later tx n x)" and "\<forall>x. rel x (ax_between tx x)" and "op_built x"
  shows "rel d (perform_op env ready tx x d)"
proof (cases x)
  case (Admit q)
  with assms admit_rel [OF assms(1)] admit_steps steps_rel show ?thesis by simp
next
  case (ClaimDispatch owner cid l)
  then show ?thesis using claim_rel [OF assms(1,2)] claim_steps steps_rel by simp
next
  case (AcknowledgeDispatch t r)
  then have "settling (deliver_row (ds_dispatch_ref r) now)" if "ds_status r = Accepted" for now
    using assms(3) that unfolding settling_def
    by (auto simp: make_dispatch_result_def res_bind_eq_Inr address_or_empty_def split: if_splits)
  then show ?thesis using settlement_op_rel [OF assms(1)] rel_refl by (simp add: AcknowledgeDispatch acknowledge_dispatch_def)
next
  case (RetryDispatch t err delay)
  have "0 \<le> duration_microseconds f" if "flt_le (Fin 0) f" for f
  proof (cases f)
    case (Fin x)
    with that rnd_nonneg [of "x * 1000000"] show ?thesis by (cases "rnd (x * 1000000)") (auto simp: duration_microseconds_def)
  qed (use that in \<open>auto simp: duration_microseconds_def\<close>)
  then have "settling (fail_row DPending err (duration_microseconds f) now)"
    if "checked_duration delay (\<lambda>f. flt_le (Fin 0) f \<and> flt_le f (Fin MAX_COMMAND_RETRY_DELAY_S)) y = Inr f" "taxonomy_code err" for f now y
    using that unfolding settling_def checked_duration_def
    by (auto simp: res_bind_eq_Inr split: pyval.splits if_splits)
  then show ?thesis using failed_rel [OF assms(1)] by (simp add: RetryDispatch retry_dispatch_def)
next
  case (RejectDispatch t err)
  have "duration_microseconds (Fin 0) = 0" by (simp add: duration_microseconds_def rnd_def)
  then have "settling (fail_row DDeadLetter err (duration_microseconds f) now)"
    if "checked_duration (PFloat (Fin 0)) z y = Inr f" "taxonomy_code err" for f now y z
    using that unfolding settling_def checked_duration_def by (auto split: if_splits)
  then show ?thesis using failed_rel [OF assms(1)] by (simp add: RejectDispatch reject_dispatch_def)
next
  case (BindActivation c t)
  then show ?thesis using bind_rel [OF assms(1)] bind_steps steps_rel by simp
qed

lemma run_rel: "admission_run env d d' \<Longrightarrow> rel d d'"
  by (induction rule: admission_run.induct) (use rel_refl rel_trans op_rel journal_rel in blast)+

end

lemma terminal_persists: "env_ok env \<Longrightarrow> journal_run env j j' \<Longrightarrow> terminal_exists j run \<Longrightarrow> terminal_exists j' run"
  using run_keeps [of env j j'] unfolding keeps_def calls_evolve_def extends_def terminal_exists_def
  by (metis grows_lookup option.exhaust option.distinct(1))

lemma journal_evolves:
  assumes "env_ok env" and "journal_run env (db_journal d) j"
  shows "evolves env d (d\<lparr>db_journal := j\<rparr>)" (is "evolves env d ?d")
proof -
  have c: "command_at env ?d = command_at env d" by (simp add: command_at_def fun_eq_iff)
  have "closed_at_terminal d \<Longrightarrow> closed_at_terminal ?d" using terminal_persists [OF assms] by (auto simp: closed_at_terminal_def)
  moreover have "in_order ?d = in_order d" "bound_in_turn env ?d = bound_in_turn env d" "numbered ?d = numbered d"
    by (simp_all add: in_order_def bound_in_turn_def numbered_def c)
  ultimately show ?thesis unfolding evolves_def admission_ok_def c by simp
qed

interpretation eh: admission_history "\<lambda>d d'. env_ok env \<longrightarrow> evolves env d d'" env for env
proof
  show "env_ok env \<longrightarrow> evolves env d d" for d by (simp add: ev.rel_refl)
  show "env_ok env \<longrightarrow> evolves env a b \<Longrightarrow> env_ok env \<longrightarrow> evolves env b c \<Longrightarrow> env_ok env \<longrightarrow> evolves env a c" for a b c
    using ev.rel_trans by blast
  show "env_ok env \<longrightarrow> evolves env d d'" if "env_ok env \<Longrightarrow> admission_ok env d \<Longrightarrow> (table_step env)\<^sup>*\<^sup>* d d'" for d d'
    using that steps_evolve unfolding evolves_def by blast
  show "env_ok env \<longrightarrow> evolves env d (d\<lparr>db_journal := j\<rparr>)" if "journal_run env (db_journal d) j" for d j
    using journal_evolves that by blast
qed

lemmas run_evolves = eh.run_rel [rule_format]

definition empty_admission :: "journal \<Rightarrow> admission_db" where
  "empty_admission j = \<lparr>db_journal = j, db_head = (\<lambda>_. None), db_records = [], db_outbox = []\<rparr>"

lemma reached_ok:
  assumes "env_ok env" and "admission_run env (empty_admission j) d"
  shows "admission_ok env d"
proof -
  have "admission_ok env (empty_admission j)"
    by (simp add: admission_ok_def empty_admission_def numbered_def in_order_def bound_in_turn_def closed_at_terminal_def command_at_def)
  then show ?thesis using run_evolves [OF assms(2,1)] unfolding evolves_def by blast
qed

section \<open>What stays\<close>

lemma admitted_json_inj:
  assumes "admitted_to_json sha a = admitted_to_json sha b" and "ad_schema_version a = ad_schema_version b"
  shows "a = b"
  using assms by (cases a; cases b) (simp add: admitted_to_json_def admitted_members_def)

lemma activation_json_inj:
  assumes "activation_to_json sha a = activation_to_json sha b" and "am_schema_version a = am_schema_version b"
  shows "a = b"
  using assms by (cases a; cases b) (simp add: activation_to_json_def activation_members_def)

lemma command_at_unique:
  assumes "command_at env d k c m" and "command_at env d k c' m'"
  shows "c' = c" "m' = m"
proof -
  have r: "record_of env c m = record_of env c' m'" and g: "good_command env c" "good_command env c'"
    and x: "\<forall>y. m = Some y \<longrightarrow> good_activation env c y" "\<forall>y. m' = Some y \<longrightarrow> good_activation env c' y"
    using assms unfolding command_at_def by auto
  from r have "admitted_to_json (je_sha env) c = admitted_to_json (je_sha env) c'" by (simp add: record_of_def new_record_def)
  with g show "c' = c" using admitted_json_inj unfolding good_command_def by metis
  have b: "map_option (binding_of env) m = map_option (binding_of env) m'" using record_of_fields [OF r] by simp
  then show "m' = m"
  proof (cases m)
    case (Some y)
    with b obtain z where z: "m' = Some z" "binding_of env y = binding_of env z" by (cases m') auto
    then have "activation_to_json (je_sha env) y = activation_to_json (je_sha env) z" by (simp add: binding_of_def)
    moreover have "am_schema_version y = am_schema_version z" using x Some z(1) by (simp add: good_activation_def)
    ultimately show ?thesis using activation_json_inj Some z(1) by metis
  qed simp
qed

text \<open>A stored command keeps its place, and a binding is never changed.\<close>

lemma command_persists:
  assumes "admission_ok env d" and "evolves env d d'" and c: "command_at env d k c m"
  shows "\<exists>m'. command_at env d' k c m' \<and> (m \<noteq> None \<longrightarrow> m' = m)"
proof -
  from c have a: "map_of (db_records d) k = Some (record_of env c m)" unfolding command_at_def by blast
  with assms(1,2) obtain a' where a': "map_of (db_records d') k = Some a'" "record_evolves (record_of env c m) a'" and ok: "admission_ok env d'"
    unfolding evolves_def by blast
  from admission_okD(3) [OF ok a'(1)] obtain c' m' where r: "a' = record_of env c' m'" and c': "command_at env d' k c' m'" by blast
  have "aw_payload a' = aw_payload (record_of env c m)" using a'(2) unfolding record_evolves_def by (metis admission_row.simps(8) admission_row.surjective admission_row.update_convs(9))
  then have "admitted_to_json (je_sha env) c' = admitted_to_json (je_sha env) c" by (simp add: r record_of_def new_record_def)
  then have e: "c' = c" using admitted_json_inj c c' unfolding command_at_def good_command_def by metis
  have "m' = m" if "m \<noteq> None"
  proof -
    have "aw_activation (record_of env c m) \<noteq> None" using that by (simp add: record_of_def)
    then have "a' = record_of env c m" using a'(2) by (simp add: record_evolves_def)
    then have "command_at env d k c m'" using c c' a unfolding command_at_def r e by auto
    with command_at_unique(2) [OF c] show ?thesis by blast
  qed
  with c' e show ?thesis by blast
qed

lemma row_persists:
  assumes "admission_ok env d" and "evolves env d d'" and "map_of (db_outbox d) k = Some w"
  obtains w' where "map_of (db_outbox d') k = Some w'" "row_evolves w w'"
  using assms unfolding evolves_def by blast

text \<open>What other transactions do around a call.\<close>

definition others_ok :: "journal_env \<Rightarrow> admission_attempt \<Rightarrow> bool" where
  "others_ok env tx \<longleftrightarrow> (\<forall>y. admission_run env y (ax_between tx y)) \<and> (\<forall>n y. admission_run env y (ax_later tx n y))"

lemma others_evolve:
  assumes "env_ok env" and "others_ok env tx"
  shows "evolves env d (after tx n d)" "m \<le> n \<Longrightarrow> evolves env (after tx m d) (after tx n d)" "evolves env d (ax_between tx d)"
proof -
  have l: "\<forall>n x. evolves env x (ax_later tx n x)" using assms run_evolves unfolding others_ok_def by blast
  show "evolves env d (after tx n d)" using ev.after_rel [OF l] .
  show "evolves env d (ax_between tx d)" using assms run_evolves unfolding others_ok_def by blast
  show "evolves env (after tx m d) (after tx n d)" if "m \<le> n"
    using that by (induction n rule: dec_induct) (auto intro: ev.rel_refl ev.rel_trans l [rule_format])
qed

lemma applied_op_evolves:
  assumes "env_ok env" and "others_ok env tx" and "op_built x"
  shows "evolves env d (perform_op env ready tx x d)"
  using eh.op_rel [where tx = tx and x = x and env = env] assms run_evolves unfolding others_ok_def by blast

section \<open>Ordered dispatch\<close>

text \<open>A claim that a read of the tables shows.\<close>

definition shows_claim :: "journal_env \<Rightarrow> admission_db \<Rightarrow> string \<Rightarrow> string \<Rightarrow> dispatch_claim \<Rightarrow> bool" where
  "shows_claim env d owner cid m \<longleftrightarrow> (\<exists>k now s. stored env d now k = Inr (Some s) \<and> dispatch_claim_of env s owner cid = Inr m)"

lemma existing_claim_read:
  assumes "claim_existing_dispatch env tx owner cid k d = Inr (d1, Some m)"
  shows "shows_claim env d1 owner cid m"
proof -
  from assms obtain e where e: "stored env d (ax_now tx 0) k = Inr e"
    unfolding claim_existing_dispatch_def by (auto simp: res_bind_eq_Inr split: if_splits)
  with assms obtain s where "e = Some s" unfolding claim_existing_dispatch_def by (cases e) (auto split: if_splits)
  with assms e have "d1 = d" "dispatch_claim_of env s owner cid = Inr m"
    unfolding claim_existing_dispatch_def by (auto simp: res_bind_eq_Inr split: if_splits)
  with e \<open>e = Some s\<close> show ?thesis unfolding shows_claim_def by blast
qed

lemma new_claim_read:
  assumes "claim_new_dispatch env tx owner cid us d = Inr (d1, Some m)"
  shows "shows_claim env d1 owner cid m"
proof -
  from assms obtain d2 sel where c: "claim_statement tx owner cid us (reconcile_one_terminal_dispatch tx None d) = Inr (d2, sel)"
    unfolding claim_new_dispatch_def by (auto simp: res_bind_eq_Inr)
  with assms obtain k where "sel = Some k" unfolding claim_new_dispatch_def by (cases sel) auto
  with assms c obtain e where e: "stored env d2 (ax_now tx 4) k = Inr e" unfolding claim_new_dispatch_def by (auto simp: res_bind_eq_Inr)
  with assms c \<open>sel = Some k\<close> obtain s where "e = Some s" "d1 = d2" "dispatch_claim_of env s owner cid = Inr m"
    unfolding claim_new_dispatch_def by (cases e) (auto simp: res_bind_eq_Inr)
  with e show ?thesis unfolding shows_claim_def by blast
qed

lemma claim_read:
  assumes "claim_dispatch env ready tx owner cid lease_s d = (d1, Inr (Some m))"
  shows "shows_claim env d1 owner cid m"
proof -
  have e: "shows_claim env x owner cid m" if "claim_dispatch_locked env tx owner cid us found y = Inr (x, Some m)" for us found x y
    using that existing_claim_read new_claim_read unfolding claim_dispatch_locked_def by (cases found) auto
  have r: "shows_claim env x owner cid m" if "claim_by_id env tx x cid = Inr (Some s)" "dispatch_claim_of env s owner cid = Inr m" for x s
    using that unfolding claim_by_id_def shows_claim_def by (cases "claim_key x cid") (auto split: if_splits)
  show ?thesis
    using assms e r unfolding claim_dispatch_def admission_transaction_def
    by (auto simp: res_bind_eq_Inr split: if_splits sum.splits prod.splits option.splits commit_fault.splits)
qed

lemma claim_of_view:
  assumes "dispatch_claim_of env (stored_view c m w now x) owner cid = Inr r"
  shows "dw_state w = DLeased" "\<not> x" "dm_command r = c" "dw_generation w = dk_generation (dm_token r)"
    "token_key (dm_token r) = (ad_run_id c, ad_command_id c)" "0 < dw_generation w"
  using assms unfolding dispatch_claim_of_def make_token_def make_claim_def Let_def stored_view_def
  by (auto simp: res_bind_eq_Inr token_key_def split: if_splits option.splits)

lemma leased_alone:
  assumes ok: "admission_ok env d" and c: "command_at env d k c m" and w: "map_of (db_outbox d) k = Some w" "dw_state w = DLeased"
    and running: "\<not> terminal_exists (db_journal d) (ad_run_id c)"
    and a: "map_of (db_records d) k' = Some a" and w': "map_of (db_outbox d) k' = Some w'" and run: "fst k' = ad_run_id c" and ne: "k' \<noteq> k"
  shows "dw_state w' \<noteq> DLeased \<and> (aw_sequence a < ad_command_sequence c \<longrightarrow> dw_state w' = DDelivered)"
proof -
  note D = admission_okD [OF ok]
  have k: "k = (ad_run_id c, ad_command_id c)" and rc: "map_of (db_records d) k = Some (record_of env c m)"
    using c unfolding command_at_def by blast+
  have sq: "aw_sequence (record_of env c m) = ad_command_sequence c" by (simp add: record_of_def new_record_def)
  have same: "fst k' = fst k" "fst k = fst k'" using run k by simp_all
  have gen: "0 < dw_generation x" if "map_of (db_outbox d) k1 = Some x" "dw_state x = DLeased" for k1 x
    using D(4) [OF that(1)] that(2) by (auto simp: row_checks_def)
  note order = D(7) [unfolded in_order_def, rule_format]
  have "dw_state w' \<noteq> DRunTerminal" using D(9) [unfolded closed_at_terminal_def, rule_format, OF w'] running run by auto
  then have early: "dw_state w' = DDelivered" if "aw_sequence a < ad_command_sequence c"
    using order [OF rc w(1) a w' same(1) _ gen [OF w]] that sq by simp
  have "dw_state w' \<noteq> DLeased" if "ad_command_sequence c < aw_sequence a"
    using order [OF a w' rc w(1) same(2) _ gen [OF w']] that sq w(2) by auto
  moreover have "aw_sequence a \<noteq> ad_command_sequence c"
    using numberedD(3) [OF D(6), of "fst k" "snd k" _ "snd k'"] rc a ne same sq by (metis prod.collapse)
  ultimately show ?thesis using early by force
qed

text \<open>C2. Commands are dispatched in order, one at a time. Whatever callers admitted, claimed, settled and
  bound before, with whatever failures and lost responses, and also when the claim itself was answered
  only after reconciling an ambiguous failure: a claim handed to a dispatcher is the lease of a stored,
  still unbound command of a run without terminal outcome, under the generation of the row; every earlier command of
  the run is delivered, and no other command of the run is leased.\<close>

theorem dispatch_is_ordered:
  assumes "env_ok env" and "admission_run env (empty_admission j) d" and "others_ok env tx"
    and "claim_dispatch env ready tx owner cid lease_s d = (d1, Inr (Some r))"
  shows "\<exists>w. map_of (db_outbox d1) (token_key (dm_token r)) = Some w \<and> dw_state w = DLeased \<and> dw_generation w = dk_generation (dm_token r) \<and>
    command_at env d1 (token_key (dm_token r)) (dm_command r) None \<and> \<not> terminal_exists (db_journal d1) (ad_run_id (dm_command r)) \<and>
    (\<forall>k' a w'. map_of (db_records d1) k' = Some a \<and> map_of (db_outbox d1) k' = Some w' \<and> fst k' = ad_run_id (dm_command r) \<and>
       k' \<noteq> token_key (dm_token r) \<longrightarrow>
       dw_state w' \<noteq> DLeased \<and> (aw_sequence a < ad_command_sequence (dm_command r) \<longrightarrow> dw_state w' = DDelivered))"
proof -
  have "evolves env d d1" using applied_op_evolves [OF assms(1,3), of "ClaimDispatch owner cid lease_s" d ready] assms(4) by simp
  then have ok: "admission_ok env d1" using reached_ok [OF assms(1,2)] unfolding evolves_def by blast
  note D = admission_okD [OF ok]
  from claim_read [OF assms(4)] obtain k now s where s: "stored env d1 now k = Inr (Some s)" and r: "dispatch_claim_of env s owner cid = Inr r"
    unfolding shows_claim_def by blast
  from stored_command_at [OF assms(1) ok s] obtain c m w where c: "command_at env d1 k c m" and w: "map_of (db_outbox d1) k = Some w"
    and v: "s = stored_view c m w now (terminal_exists (db_journal d1) (fst k))" by blast
  note V = claim_of_view [OF r [unfolded v]]
  have k: "k = (ad_run_id c, ad_command_id c)" and rc: "map_of (db_records d1) k = Some (record_of env c m)"
    using c unfolding command_at_def by blast+
  have "m = None" using unbound_row [OF ok rc w] V(1) by (simp add: record_of_def)
  have open_run: "\<not> terminal_exists (db_journal d1) (ad_run_id c)" using V(2) by (simp add: k)
  note alone = leased_alone [OF ok c w V(1) open_run]
  with w V c k \<open>m = None\<close> open_run show ?thesis by auto
qed

section \<open>Idempotent admission\<close>

lemma receipt_command: "receipt_from_stored env j1 j2 s = Inr p \<Longrightarrow> ap_command p = sd_command s"
proof -
  have m: "make_receipt cfg sha x = Inr p \<Longrightarrow> p = x" for cfg sha x
    by (auto simp: make_receipt_def res_bind_eq_Inr split: option.splits)
  show "receipt_from_stored env j1 j2 s = Inr p \<Longrightarrow> ap_command p = sd_command s"
    unfolding receipt_from_stored_def Let_def plain_receipt_def
    by (auto simp: res_bind_eq_Inr dest!: m split: if_splits option.splits)
qed

text \<open>A receipt is answered from a read of the row, after the operation's own transaction or, when an
  ambiguous error had to be reconciled, after the operation accepted what the read shows.\<close>

lemma answered_read:
  assumes "answered env tx k accept (d, r) = (d1, Inr p)"
  obtains n m now s where "n \<le> m" "d1 = after tx m d" "stored env (after tx n d) now k = Inr (Some s)" "ap_command p = sd_command s"
    "(\<exists>x. r = Inr x) \<or> accept s = Inr True"
proof (cases "res_bind r (\<lambda>_. case ax_read_fault tx of Some e \<Rightarrow> Inl e
       | None \<Rightarrow> require_receipt env (after tx 1 d) (db_journal (after tx 2 d)) (db_journal (after tx 3 d)) (ax_now tx 7) k)")
  case (Inr q)
  then obtain x where r: "r = Inr x" and q: "require_receipt env (after tx 1 d) (db_journal (after tx 2 d)) (db_journal (after tx 3 d)) (ax_now tx 7) k = Inr q"
    by (auto simp: res_bind_eq_Inr split: option.splits)
  from q obtain y s where s: "stored env (after tx 1 d) (ax_now tx 7) (fst k, snd k) = Inr (Some s)"
    "receipt_from_stored env (db_journal (after tx 2 d)) (db_journal (after tx 3 d)) s = Inr q"
    unfolding require_receipt_def receipt_def by (auto simp: res_bind_eq_Inr split: option.splits)
  have "d1 = after tx 3 d" "p = q" using assms Inr by (simp_all add: answered_def)
  with that [of 1 3] s r receipt_command [OF s(2)] show thesis by simp
next
  case (Inl e)
  have a: "is_ambiguous e" "d1 = after tx 6 d" "\<not> ax_reread_fails tx"
    using assms Inl by (auto simp: answered_def split: if_splits)
  with assms Inl obtain s where s: "stored env (after tx 4 d) (ax_now tx 8) k = Inr (Some s)"
    by (auto simp: answered_def split: sum.splits option.splits)
  with assms Inl a have "accept s = Inr True" and q: "receipt_from_stored env (db_journal (after tx 5 d)) (db_journal (after tx 6 d)) s = Inr p"
    by (auto simp: answered_def split: sum.splits bool.splits)
  with that [of 4 6] s a receipt_command [OF q] show thesis by simp
qed

text \<open>The request of the command stored under its key.\<close>

lemma admitted_request_stored:
  assumes env: "env_ok env" and ok: "admission_ok env d" and "make_request q = Inr q" and l: "admit_locked env tx q d = Inr (d', x)"
  shows "\<exists>c m. command_at env d' (aq_run_id q, aq_command_id q) c m \<and> ad_request_identity_sha256 c = request_identity (je_sha env) q"
proof -
  let ?k = "(aq_run_id q, aq_command_id q)"
  have ok': "admission_ok env d'" using steps_evolve [OF admit_steps [OF assms(3) l] env] ok unfolding evolves_def by blast
  have "\<exists>a. map_of (db_records d') ?k = Some a \<and> aw_request_identity a = request_identity (je_sha env) q"
  proof -
    from l obtain d1 n e where h: "lock_admission_head d (aq_run_id q) = Inr (d1, n)" and e: "stored env d1 (ax_now tx 0) ?k = Inr e"
      unfolding admit_locked_def by (auto simp: res_bind_eq_Inr split: if_splits)
    show ?thesis
    proof (cases e)
      case (Some s)
      with l h e have i: "d' = d1" "ad_request_identity_sha256 (sd_command s) = request_identity (je_sha env) q"
        unfolding admit_locked_def by (auto simp: res_bind_eq_Inr split: if_splits)
      have "stored env d' (ax_now tx 0) ?k = Inr (Some s)" using e Some i(1) by simp
      from stored_command_at [OF env ok' this] obtain c m w where "command_at env d' ?k c m"
        "s = stored_view c m w (ax_now tx 0) (terminal_exists (db_journal d') (fst ?k))" by blast
      then show ?thesis using i(2) by (auto simp: command_at_def stored_view_def record_of_def new_record_def)
    next
      case None
      with l h e obtain c where c: "admitted_from_request (je_cfg env) (je_sha env) q (n + 1) = Inr c"
        and d': "(((ad_run_id c, ad_command_id c), new_record env c)) \<in> set (db_records d')"
        unfolding admit_locked_def insert_admission_def Let_def by (auto simp: res_bind_eq_Inr split: if_splits)
      from c have "(ad_run_id c, ad_command_id c) = ?k" "ad_request_identity_sha256 c = request_identity (je_sha env) q"
        by (auto simp: admitted_from_request_def make_admitted_def res_bind_eq_Inr)
      then show ?thesis using d' row_in_table(2) [OF ok'] by (auto simp: new_record_def)
    qed
  qed
  then obtain a where a: "map_of (db_records d') ?k = Some a" "aw_request_identity a = request_identity (je_sha env) q" by blast
  from admission_okD(3) [OF ok' a(1)] obtain c m where "a = record_of env c m" "command_at env d' ?k c m" by blast
  with a(2) show ?thesis by (auto simp: record_of_def new_record_def)
qed

lemma admit_result:
  assumes env: "env_ok env" and ok: "admission_ok env d" and o: "others_ok env tx" and q: "make_request q = Inr q"
    and a: "admit env ready tx q d = (d1, Inr p)"
  shows "\<exists>m. command_at env d1 (aq_run_id q, aq_command_id q) (ap_command p) m \<and>
    ad_request_identity_sha256 (ap_command p) = request_identity (je_sha env) q"
proof -
  let ?k = "(aq_run_id q, aq_command_id q)" and ?t = "admission_transaction tx (admit_locked env tx q) d"
  obtain d' r where t: "?t = (d', r)" by (cases ?t) auto
  have "evolves env d d'" using ev.transaction_rel [of "admit_locked env tx q" d env tx] admit_steps [OF q] steps_evolve [OF _ env] by (metis t fst_conv)
  then have ok': "admission_ok env d'" using ok unfolding evolves_def by blast
  from a t have "answered env tx ?k (same_request env q) (d', r) = (d1, Inr p)" by (simp add: admit_def split: if_splits)
  from answered_read [OF this] obtain n m now s where nm: "n \<le> m" "d1 = after tx m d'" and s: "stored env (after tx n d') now ?k = Inr (Some s)"
    and p: "ap_command p = sd_command s" and acc: "(\<exists>x. r = Inr x) \<or> same_request env q s = Inr True" by blast
  note E = others_evolve [OF env o]
  have okn: "admission_ok env (after tx n d')" using E(1) ok' unfolding evolves_def by blast
  from stored_command_at [OF env okn s] obtain c b w where c: "command_at env (after tx n d') ?k c b"
    and v: "s = stored_view c b w now (terminal_exists (db_journal (after tx n d')) (fst ?k))" by blast
  have pc: "ap_command p = c" using p v by (simp add: stored_view_def)
  have "ad_request_identity_sha256 c = request_identity (je_sha env) q"
    using acc
  proof
    assume "\<exists>x. r = Inr x"
    with t have "\<exists>y. admit_locked env tx q d = Inr (d', y)"
      by (auto simp: admission_transaction_def split: sum.splits prod.splits commit_fault.splits)
    then obtain c0 m0 where c0: "command_at env d' ?k c0 m0" "ad_request_identity_sha256 c0 = request_identity (je_sha env) q"
      using admitted_request_stored [OF env ok q] by blast
    from command_persists [OF ok' E(1) c0(1)] c command_at_unique(1) c0(2) show ?thesis by blast
  next
    assume "same_request env q s = Inr True"
    then show ?thesis using v by (simp add: same_request_def stored_view_def split: if_splits)
  qed
  with command_persists [OF okn E(2) [OF nm(1)] c] pc nm(2) show ?thesis by blast
qed

text \<open>C3. Admission is idempotent. After a request was admitted, in every later state of the store and whatever
  happened to responses in between, admitting under the same command id succeeds only for a request of
  the same identity, and is then answered with the same command under the same sequence number. The
  commands of a run are numbered 1, 2, 3, \<dots> without gaps or repetitions.\<close>

theorem admission_is_idempotent:
  assumes "env_ok env" and "admission_run env (empty_admission j) d" and "make_request q = Inr q" and "others_ok env tx"
    and "admit env ready tx q d = (d1, Inr p)" and "admission_run env d1 d2"
    and "make_request q' = Inr q'" and "others_ok env tx'" and "admit env ready' tx' q' d2 = (d3, Inr p')"
    and "aq_run_id q' = aq_run_id q" and "aq_command_id q' = aq_command_id q"
  shows "ap_command p' = ap_command p \<and> request_identity (je_sha env) q' = request_identity (je_sha env) q \<and>
    (\<forall>run n. db_head d3 run = Some n \<longrightarrow> bij_betw (\<lambda>cid. aw_sequence (the (map_of (db_records d3) (run, cid))))
       {cid. map_of (db_records d3) (run, cid) \<noteq> None} {1..n})"
proof -
  let ?k = "(aq_run_id q, aq_command_id q)"
  have ok: "admission_ok env d" using reached_ok [OF assms(1,2)] .
  have e1: "evolves env d d1" using applied_op_evolves [OF assms(1,4), of "Admit q" d ready] assms(3,5) by simp
  have e2: "evolves env d1 d2" using run_evolves [OF assms(6,1)] .
  have e3: "evolves env d2 d3" using applied_op_evolves [OF assms(1,8), of "Admit q'" d2 ready'] assms(7,9) by simp
  have ok1: "admission_ok env d1" "admission_ok env d2" "admission_ok env d3" using ok e1 e2 e3 unfolding evolves_def by blast+
  from admit_result [OF assms(1) ok assms(4,3,5)] obtain m where c: "command_at env d1 ?k (ap_command p) m"
    "ad_request_identity_sha256 (ap_command p) = request_identity (je_sha env) q" by blast
  from admit_result [OF assms(1) ok1(2) assms(8,7,9)] obtain m' where c': "command_at env d3 ?k (ap_command p') m'"
    "ad_request_identity_sha256 (ap_command p') = request_identity (je_sha env) q'" unfolding assms(10,11) by blast
  from command_persists [OF ok1(1) ev.rel_trans [OF e2 e3] c(1)] c'(1) have "ap_command p' = ap_command p"
    using command_at_unique(1) by blast
  moreover have "bij_betw (\<lambda>cid. aw_sequence (the (map_of (db_records d3) (run, cid)))) {cid. map_of (db_records d3) (run, cid) \<noteq> None} {1..n}"
    if n: "db_head d3 run = Some n" for run n
  proof -
    note N = numberedD [OF admission_okD(6) [OF ok1(3)]]
    show ?thesis unfolding bij_betw_def
    proof
      show "inj_on (\<lambda>cid. aw_sequence (the (map_of (db_records d3) (run, cid)))) {cid. map_of (db_records d3) (run, cid) \<noteq> None}"
        using N(3) [of run] by (auto intro!: inj_onI)
      show "(\<lambda>cid. aw_sequence (the (map_of (db_records d3) (run, cid)))) ` {cid. map_of (db_records d3) (run, cid) \<noteq> None} = {1..n}"
        using N(1) [of "(run, _)"] N(2) [OF n] n by (fastforce simp: image_iff)
    qed
  qed
  ultimately show ?thesis using c(2) c'(2) by simp
qed

section \<open>Fenced claims\<close>

text \<open>A claim is spent once its row was claimed again or settled.\<close>

definition claim_spent :: "dispatch_token \<Rightarrow> dispatch_row \<Rightarrow> bool" where
  "claim_spent t w \<longleftrightarrow> dk_generation t < dw_generation w \<or> (dk_generation t = dw_generation w \<and> dw_state w \<noteq> DLeased)"

lemma claim_spent_evolves: "row_evolves w w' \<Longrightarrow> claim_spent t w \<Longrightarrow> claim_spent t w'"
  unfolding row_evolves_def claim_spent_def by (metis order_le_less order_less_le_trans)

lemma spent_settlement:
  assumes "env_ok env" and "admission_ok env d" and w: "map_of (db_outbox d) (token_key t) = Some w" and spent: "claim_spent t w"
    and recognises: "\<And>s. applied s \<Longrightarrow> token_matches s t"
  shows "fst (admission_transaction tx (settle_locked env tx t applied f) d) = d"
    and "dk_generation t < dw_generation w \<Longrightarrow> admission_transaction tx (settle_locked env tx t applied f) d = (d, Inl dispatch_claim_lost)"
proof -
  obtain a where "map_of (db_records d) (token_key t) = Some a"
    using same_keys [OF assms(2), of "token_key t"] w by (cases "map_of (db_records d) (token_key t)") auto
  with admission_okD(3) [OF assms(2)] obtain c m where c: "command_at env d (token_key t) c m" by blast
  define s where "s = stored_view c m w (ax_now tx 0) (terminal_exists (db_journal d) (fst (token_key t)))"
  have st: "stored env d (ax_now tx 0) (token_key t) = Inr (Some s)"
    unfolding s_def by (rule stored_of [OF assms(1) c w admission_okD(4) [OF assms(2) w]])
  have g: "sd_generation s = dw_generation w" "sd_state s = dw_state w" by (simp_all add: s_def stored_view_def)
  have lost: "require_active_claim (Some s) t = Inl dispatch_claim_lost"
    using spent g by (auto simp: require_active_claim_def claim_spent_def token_matches_def)
  then show "fst (admission_transaction tx (settle_locked env tx t applied f) d) = d"
    by (simp add: admission_transaction_def settle_locked_def st split: commit_fault.split)
  assume "dk_generation t < dw_generation w"
  then have "\<not> applied s" using recognises g by (auto simp: token_matches_def)
  then show "admission_transaction tx (settle_locked env tx t applied f) d = (d, Inl dispatch_claim_lost)"
    using lost by (simp add: admission_transaction_def settle_locked_def st)
qed

text \<open>The three settlements of a token.\<close>

definition settle_with :: "journal_env \<Rightarrow> bool \<Rightarrow> admission_attempt \<Rightarrow> dispatch_token \<Rightarrow> admission_op \<Rightarrow> admission_db \<Rightarrow> (admission_db \<times> admission_receipt res) option" where
  "settle_with env ready tx t x d = (case x of
      AcknowledgeDispatch u r \<Rightarrow> if u = t then Some (acknowledge_dispatch env ready tx t r d) else None
    | RetryDispatch u err delay \<Rightarrow> if u = t then Some (retry_dispatch env ready tx t err delay d) else None
    | RejectDispatch u err \<Rightarrow> if u = t then Some (reject_dispatch env ready tx t err d) else None
    | _ \<Rightarrow> None)"

definition as_settlement :: "journal_env \<Rightarrow> admission_attempt \<Rightarrow> dispatch_token \<Rightarrow> admission_db \<Rightarrow> admission_db \<times> admission_receipt res \<Rightarrow> bool" where
  "as_settlement env tx t d x \<longleftrightarrow> (\<exists>e. x = (d, Inl e)) \<or> (\<exists>applied f accept. (\<forall>s. applied s \<longrightarrow> token_matches s t) \<and>
     x = answered env tx (token_key t) accept (admission_transaction tx (settle_locked env tx t applied f) d))"

lemma as_settlementI:
  "as_settlement env tx t d (d, Inl e)"
  "(\<And>s. applied s \<Longrightarrow> token_matches s t) \<Longrightarrow>
     as_settlement env tx t d (answered env tx (token_key t) accept (admission_transaction tx (settle_locked env tx t applied f) d))"
  unfolding as_settlement_def by blast+

lemma acknowledge_as_settlement: "as_settlement env tx t d (acknowledge_dispatch env ready tx t v d)"
proof -
  have "delivered_as t v s \<Longrightarrow> token_matches s t" for s by (simp add: delivered_as_def)
  from as_settlementI(2) [OF this] show ?thesis by (simp add: acknowledge_dispatch_def as_settlementI(1))
qed

lemma failure_as_settlement: "as_settlement env tx t d (settle_failed_dispatch env ready tx t err st delay d)"
proof -
  have "failed_as t st err us s \<Longrightarrow> token_matches s t" for us s by (simp add: failed_as_def)
  from as_settlementI(2) [OF this] show ?thesis
    by (auto simp: settle_failed_dispatch_def Let_def as_settlementI(1) split: sum.split)
qed

lemma settle_with_cases:
  assumes "settle_with env ready tx t x d = Some y"
  shows "as_settlement env tx t d y"
  using assms acknowledge_as_settlement [of env tx t d ready] failure_as_settlement [of env tx t d ready]
  by (auto simp: settle_with_def retry_dispatch_def reject_dispatch_def split: admission_op.splits if_splits)

text \<open>C13. A spent dispatch claim is fenced. Once the row of a claim was claimed again (its generation has
  passed the token's) or the claim was settled, then in every later state no acknowledgement, retry or
  rejection with that token changes anything: the tables afterwards are those other transactions left.
  And a token that was overtaken is always refused.\<close>

theorem spent_claim_is_fenced:
  assumes "env_ok env" and "admission_run env (empty_admission j) d" and "map_of (db_outbox d) (token_key t) = Some w"
    and "claim_spent t w" and "admission_run env d d1" and "others_ok env tx" and "settle_with env ready tx t x d1 = Some (d2, r)"
  shows "(\<exists>n. d2 = after tx n d1) \<and> (dk_generation t < dw_generation w \<longrightarrow> (\<exists>e. r = Inl e))"
proof -
  have ok: "admission_ok env d" using reached_ok [OF assms(1,2)] .
  have ev: "evolves env d d1" using run_evolves [OF assms(5,1)] .
  then have ok1: "admission_ok env d1" using ok unfolding evolves_def by blast
  from row_persists [OF ok ev assms(3)] obtain w' where w': "map_of (db_outbox d1) (token_key t) = Some w'" "row_evolves w w'" .
  note spent = claim_spent_evolves [OF w'(2) assms(4)]
  from settle_with_cases [OF assms(7)] show ?thesis unfolding as_settlement_def
  proof
    assume "\<exists>e. (d2, r) = (d1, Inl e)"
    then show ?thesis using after.simps(1) by (metis Pair_inject)
  next
    assume "\<exists>applied f accept. (\<forall>s. applied s \<longrightarrow> token_matches s t) \<and>
      (d2, r) = answered env tx (token_key t) accept (admission_transaction tx (settle_locked env tx t applied f) d1)"
    then obtain applied f accept where m: "\<And>s. applied s \<Longrightarrow> token_matches s t"
      and a: "(d2, r) = answered env tx (token_key t) accept (admission_transaction tx (settle_locked env tx t applied f) d1)" by blast
    have S: "fst (admission_transaction tx (settle_locked env tx t applied f) d1) = d1"
      "dk_generation t < dw_generation w' \<Longrightarrow> admission_transaction tx (settle_locked env tx t applied f) d1 = (d1, Inl dispatch_claim_lost)"
      using spent_settlement [OF assms(1) ok1 w'(1) spent] m by blast+
    obtain y where "admission_transaction tx (settle_locked env tx t applied f) d1 = (d1, y)" using S(1) by (metis prod.collapse)
    then have "\<exists>n. d2 = after tx n d1"
      using a by (auto simp: answered_def split: sum.splits if_splits)
    moreover have "\<exists>e. r = Inl e" if "dk_generation t < dw_generation w"
    proof -
      have "dk_generation t < dw_generation w'" using that w'(2) by (simp add: row_evolves_def)
      from S(2) [OF this] a show ?thesis by (simp add: answered_def dispatch_claim_lost_def)
    qed
    ultimately show ?thesis by blast
  qed
qed

section \<open>Serial binding\<close>

lemma bind_read:
  assumes env: "env_ok env" and ok: "admission_ok env d" and o: "others_ok env tx" and b: "bind_activation env ready tx c t d = (d1, Inr m)"
  shows "command_at env d1 (ad_run_id c, ad_command_id c) c (Some m)"
proof -
  let ?k = "(ad_run_id c, ad_command_id c)"
  have ok1: "admission_ok env d1"
    using applied_op_evolves [OF env o, of "BindActivation c t" d ready] b ok unfolding evolves_def by simp
  have read: "command_at env x ?k c (Some m)" if "admission_ok env x" "stored env x now ?k = Inr (Some s)" "sd_command s = c" "sd_activation s = Some m" for x now s
  proof -
    from stored_command_at [OF env that(1,2)] obtain c' m' w where "command_at env x ?k c' m'"
      "s = stored_view c' m' w now (terminal_exists (db_journal x) (fst ?k))" by blast
    with that(3,4) show ?thesis by (simp add: stored_view_def)
  qed
  have locked: "command_at env x ?k c (Some m)" if l: "bind_locked env tx c t y = Inr (x, m)" and y: "admission_ok env y" for x y
  proof -
    have x: "admission_ok env x" using steps_evolve [OF bind_steps [OF l] env] y unfolding evolves_def by blast
    from l obtain e where e: "stored env y (ax_now tx 1) ?k = Inr e" unfolding bind_locked_def by (auto simp: res_bind_eq_Inr split: if_splits)
    with l obtain s where s: "stored env y (ax_now tx 1) ?k = Inr (Some s)" "sd_command s = c"
      unfolding bind_locked_def by (cases e) (auto simp: res_bind_eq_Inr split: if_splits)
    show ?thesis
    proof (cases "sd_activation s")
      case (Some m')
      with l s have "x = y" "m' = m" unfolding bind_locked_def by (auto simp: res_bind_eq_Inr split: if_splits)
      with read [OF y s] Some show ?thesis by simp
    next
      case None
      with l s have "bind_fresh env tx c y = Inr (x, m)" unfolding bind_locked_def by (auto simp: res_bind_eq_Inr split: if_splits)
      then obtain ck where a: "activation_of env c ck = Inr m" and w: "write_binding env ?k m y = Inr x"
        unfolding bind_fresh_def by (auto simp: res_bind_eq_Inr split: if_splits)
      from stored_command_at [OF env y s(1)] s(2) None have "command_at env y ?k c None" by (metis stored_admission.select_convs(1,2) stored_view_def)
      from bound_tables(2) [OF this activation_of_good(1) [OF a]] w show ?thesis
        by (simp add: write_binding_def bound_command_def split: if_splits)
    qed
  qed
  from b have "bind_locked env tx c t d = Inr (d1, m) \<or> (\<exists>now s. stored env d1 now ?k = Inr (Some s) \<and> sd_command s = c \<and> sd_activation s = Some m)"
    unfolding bind_activation_def admission_transaction_def read_bound_activation_def
    by (auto simp: res_bind_eq_Inr split: if_splits sum.splits prod.splits option.splits commit_fault.splits)
  then show ?thesis
  proof (elim disjE exE conjE)
    assume "bind_locked env tx c t d = Inr (d1, m)"
    then show ?thesis by (rule locked [OF _ ok])
  next
    fix now s
    assume "stored env d1 now ?k = Inr (Some s)" "sd_command s = c" "sd_activation s = Some m"
    then show ?thesis by (rule read [OF ok1])
  qed
qed

lemma numbered_positive:
  assumes "admission_ok env d" and "command_at env d k c m"
  shows "1 \<le> ad_command_sequence c"
proof -
  from assms(2) have "map_of (db_records d) k = Some (record_of env c m)" unfolding command_at_def by blast
  from numberedD(1) [OF admission_okD(6) [OF assms(1)] this] show ?thesis by (auto simp: record_of_def new_record_def)
qed

lemma bound_alone:
  assumes "admission_ok env d" and "command_at env d k c m" and "command_at env d k' c' m'"
    and "ad_run_id c' = ad_run_id c" and "ad_command_sequence c' = ad_command_sequence c"
  shows "k' = k"
proof -
  have "aw_sequence (record_of env c m) = aw_sequence (record_of env c' m')" using assms(5) by (simp add: record_of_def new_record_def)
  with assms show ?thesis using numberedD(3) [OF admission_okD(6) [OF assms(1)]] unfolding command_at_def by metis
qed

lemma bound_delivered:
  assumes "admission_ok env d" and "command_at env d k c (Some m)"
  obtains w where "map_of (db_outbox d) k = Some w" "dw_state w = DDelivered"
proof -
  have "map_of (db_records d) k \<noteq> None" using assms(2) unfolding command_at_def by (metis option.distinct(1))
  then obtain w where w: "map_of (db_outbox d) k = Some w" using same_keys [OF assms(1), of k] by (cases "map_of (db_outbox d) k") auto
  with admission_okD(8) [OF assms(1)] assms(2) have "dw_state w = DDelivered" unfolding bound_in_turn_def by blast
  with w that show thesis by blast
qed

lemma bound_predecessor:
  assumes "admission_ok env d" and "command_at env d k c (Some m)" and "1 < ad_command_sequence c"
  obtains k' c' m' where "command_at env d k' c' (Some m')" "ad_run_id c' = ad_run_id c"
    "ad_command_sequence c' = ad_command_sequence c - 1" "am_source_checkpoint_seq m' < am_source_checkpoint_seq m"
proof -
  from bound_delivered [OF assms(1,2)] obtain w where "map_of (db_outbox d) k = Some w" .
  with admission_okD(8) [OF assms(1)] assms(2,3) that show thesis unfolding bound_in_turn_def by blast
qed

lemma sources_increase:
  assumes ok: "admission_ok env d" and c: "command_at env d k c (Some m)"
  shows "command_at env d k' c' (Some m') \<Longrightarrow> ad_run_id c' = ad_run_id c \<Longrightarrow> ad_command_sequence c' = ad_command_sequence c + int (Suc n) \<Longrightarrow>
    am_source_checkpoint_seq m < am_source_checkpoint_seq m'"
proof (induction n arbitrary: k' c' m')
  case 0
  have "1 < ad_command_sequence c'" using numbered_positive [OF ok c] 0(3) by simp
  from bound_predecessor [OF ok 0(1) this] obtain k1 c1 m1 where p: "command_at env d k1 c1 (Some m1)" "ad_run_id c1 = ad_run_id c'"
    "ad_command_sequence c1 = ad_command_sequence c' - 1" "am_source_checkpoint_seq m1 < am_source_checkpoint_seq m'" .
  with 0 have "k1 = k" using bound_alone [OF ok c p(1)] by simp
  with p(1,4) c show ?case using command_at_unique(2) [OF c] by blast
next
  case (Suc n)
  have "1 < ad_command_sequence c'" using numbered_positive [OF ok c] Suc.prems(3) by simp
  from bound_predecessor [OF ok Suc.prems(1) this] obtain k1 c1 m1 where p: "command_at env d k1 c1 (Some m1)" "ad_run_id c1 = ad_run_id c'"
    "ad_command_sequence c1 = ad_command_sequence c' - 1" "am_source_checkpoint_seq m1 < am_source_checkpoint_seq m'" .
  from Suc.IH [OF p(1)] p(2,3) Suc.prems(2,3) have "am_source_checkpoint_seq m < am_source_checkpoint_seq m1" by simp
  with p(4) show ?case by simp
qed

text \<open>C12. A binding is final, and bindings follow the order of the run. Once a command was bound to a source
  checkpoint, also when the answer came from reconciling a lost response, then in every later state of
  the store the command still carries that binding and its row is delivered; and of two bound commands
  of a run the one with the larger sequence number starts from a later checkpoint.\<close>

theorem binding_is_final_and_serial:
  assumes "env_ok env" and "admission_run env (empty_admission j) d" and "others_ok env tx"
    and "bind_activation env ready tx c t d = (d1, Inr m)" and "admission_run env d1 d2"
  shows "command_at env d2 (ad_run_id c, ad_command_id c) c (Some m) \<and>
    (\<exists>w. map_of (db_outbox d2) (ad_run_id c, ad_command_id c) = Some w \<and> dw_state w = DDelivered) \<and>
    (\<forall>k' c' m'. command_at env d2 k' c' (Some m') \<and> ad_run_id c' = ad_run_id c \<longrightarrow>
       (ad_command_sequence c < ad_command_sequence c' \<longleftrightarrow> am_source_checkpoint_seq m < am_source_checkpoint_seq m'))"
proof -
  let ?k = "(ad_run_id c, ad_command_id c)"
  have ok: "admission_ok env d" using reached_ok [OF assms(1,2)] .
  have e: "evolves env d d1" "evolves env d1 d2"
    using applied_op_evolves [OF assms(1,3), of "BindActivation c t" d ready] run_evolves [OF assms(5,1)] assms(4) by simp_all
  then have ok1: "admission_ok env d1" and ok2: "admission_ok env d2" using ok unfolding evolves_def by blast+
  from command_persists [OF ok1 e(2) bind_read [OF assms(1) ok assms(3,4)]] have c: "command_at env d2 ?k c (Some m)" by auto
  have "ad_command_sequence c < ad_command_sequence c' \<longleftrightarrow> am_source_checkpoint_seq m < am_source_checkpoint_seq m'"
    if c': "command_at env d2 k' c' (Some m')" "ad_run_id c' = ad_run_id c" for k' c' m'
  proof (rule linorder_cases [of "ad_command_sequence c" "ad_command_sequence c'"])
    assume less: "ad_command_sequence c < ad_command_sequence c'"
    then have "am_source_checkpoint_seq m < am_source_checkpoint_seq m'"
      using sources_increase [OF ok2 c c', of "nat (ad_command_sequence c' - ad_command_sequence c - 1)"] by simp
    with less show ?thesis by simp
  next
    assume less: "ad_command_sequence c' < ad_command_sequence c"
    then have "am_source_checkpoint_seq m' < am_source_checkpoint_seq m"
      using sources_increase [OF ok2 c'(1) c c'(2) [symmetric], of "nat (ad_command_sequence c - ad_command_sequence c' - 1)"] by simp
    with less show ?thesis by simp
  next
    assume same: "ad_command_sequence c = ad_command_sequence c'"
    then have "k' = ?k" using bound_alone [OF ok2 c c'] by simp
    then have "m' = m" using command_at_unique(2) [OF c] c'(1) by blast
    with same show ?thesis by simp
  qed
  moreover from bound_delivered [OF ok2 c] obtain w where "map_of (db_outbox d2) ?k = Some w" "dw_state w = DDelivered" .
  ultimately show ?thesis using c by blast
qed

end
