(* ===== verification/Admission_Progress.thy ===== *)
theory Admission_Progress
  imports Admission_Safety
begin

text \<open>
  Progress of command admission when nothing interferes: a fresh request is admitted, a ready command is
  claimed, a current claim is acknowledged, and a delivered first command is bound to the latest
  checkpoint of its run. A small store goes through these steps and shows that the safety theorems apply.
\<close>

section \<open>Undisturbed calls\<close>

text \<open>Nothing fails, nobody holds rows and nobody else changes the tables.\<close>

definition undisturbed :: "admission_attempt \<Rightarrow> bool" where
  "undisturbed tx \<longleftrightarrow> ax_fault tx = NoFault \<and> ax_between tx = id \<and> ax_later tx = (\<lambda>_. id) \<and> ax_read_fault tx = None \<and> ax_locked tx = (\<lambda>_. False)"

lemma quiet_after [simp]: "undisturbed tx \<Longrightarrow> after tx n d = d"
  by (induction n) (simp_all add: undisturbed_def)

lemma quiet_others: "undisturbed tx \<Longrightarrow> others_ok env tx"
  by (simp add: undisturbed_def others_ok_def admission_run.start)

lemma quiet_transaction: "undisturbed tx \<Longrightarrow> body d = Inr (d', x) \<Longrightarrow> admission_transaction tx body d = (d', Inr x)"
  by (simp add: undisturbed_def admission_transaction_def)

lemma quiet_answer:
  assumes "undisturbed tx" and "opaque_id (fst k)" and "opaque_id (snd k)" and "stored env d (ax_now tx 7) k = Inr (Some s)"
    and "receipt_from_stored env (db_journal d) (db_journal d) s = Inr p"
  shows "answered env tx k accept (d, Inr ()) = (d, Inr p)"
proof -
  have "ax_read_fault tx = None" using assms(1) by (simp add: undisturbed_def)
  moreover have "require_receipt env d (db_journal d) (db_journal d) (ax_now tx 7) k = Inr p"
    using assms(2-) by (simp add: require_receipt_def receipt_def)
  ultimately show ?thesis using assms(1) by (simp add: answered_def del: after.simps)
qed

lemma small_portable: "0 \<le> n \<Longrightarrow> n \<le> POSTGRES_INTEGER_MAX \<Longrightarrow> is_portable_json_integer cfg (IInt n)"
  by (simp add: is_portable_json_integer_def UNCONDITIONALLY_SPELLABLE_INT_def POSTGRES_INTEGER_MAX_def)

lemma good_command_ids:
  assumes "good_command env c"
  shows "opaque_id (ad_run_id c)" "opaque_id (ad_command_id c)"
  using assms admitted_members_ok(1,2) unfolding good_command_def by blast+

section \<open>Admission\<close>

lemma admitted_fresh:
  assumes "make_request q = Inr q" and "env_ok env" and "portable_from (je_cfg env) 1 n" and "aq_schema_version q = ADMISSION_REQUEST_SCHEMA_VERSION"
  obtains c where "admitted_from_request (je_cfg env) (je_sha env) q n = Inr c" "good_command env c" "ad_run_id c = aq_run_id q"
    "ad_command_id c = aq_command_id q" "ad_command_sequence c = n"
proof -
  let ?c = "\<lparr>ad_run_id = aq_run_id q, ad_command_id = aq_command_id q,
     ad_command_sequence = n, ad_kind = aq_kind q, ad_request_digest = aq_request_digest q, ad_payload_ref = aq_payload_ref q,
     ad_request_identity_sha256 = request_identity (je_sha env) q, ad_schema_version = ADMITTED_COMMAND_SCHEMA_VERSION\<rparr>"
  have r: "request_of ?c = q" using assms(4) by (cases q) (simp add: request_of_def)
  have m: "opaque_id (aq_run_id q)" "opaque_id (aq_command_id q)" "aq_kind q \<in> set ActivationCommandKind"
    "recorded_digest (aq_request_digest q)" "opaque_address (aq_payload_ref q)"
    using assms(1) by (auto simp: make_request_def require_digest_def res_bind_eq_Inr)
  have i: "recorded_digest (request_identity (je_sha env) q)" using assms(2) by (simp add: env_ok_def request_identity_def)
  have "ADMITTED_COMMAND_SCHEMA_VERSION \<in> set ACCEPTED_ADMITTED_COMMAND_SCHEMA_VERSIONS"
    by (simp add: ADMITTED_COMMAND_SCHEMA_VERSION_def ACCEPTED_ADMITTED_COMMAND_SCHEMA_VERSIONS_def accepted_namespaced_ids_def namespaced_id_def)
  then have "make_admitted (je_cfg env) (je_sha env) ?c = Inr ?c"
    using m i assms(1,3) r by (simp add: make_admitted_def require_digest_def require_positive_integer_def)
  then show thesis using that [of ?c] by (simp add: admitted_from_request_def good_command_def)
qed

lemma receipt_schema: "ADMISSION_RECEIPT_SCHEMA_VERSION \<in> set ACCEPTED_ADMISSION_RECEIPT_SCHEMA_VERSIONS"
  by (simp add: ADMISSION_RECEIPT_SCHEMA_VERSION_def ACCEPTED_ADMISSION_RECEIPT_SCHEMA_VERSIONS_def accepted_namespaced_ids_def namespaced_id_def)

lemma prepared_receipt: "make_receipt cfg sha (plain_receipt c Prepared 0 [] []) = Inr (plain_receipt c Prepared 0 [] [])"
  using small_portable [of 0 cfg]
  by (simp add: make_receipt_def plain_receipt_def receipt_schema require_nonnegative_integer_def portable_from_def
      address_or_empty_def code_or_empty_def state_evidence_error_def POSTGRES_INTEGER_MAX_def)

lemma dispatched_receipt:
  assumes "1 \<le> n" and "n \<le> POSTGRES_INTEGER_MAX" and "opaque_address ref"
  shows "make_receipt cfg sha (plain_receipt c Dispatched n ref []) = Inr (plain_receipt c Dispatched n ref [])"
  using small_portable [of n cfg] assms
  by (simp add: make_receipt_def plain_receipt_def receipt_schema require_nonnegative_integer_def portable_from_def
      address_or_empty_def code_or_empty_def state_evidence_error_def)

text \<open>The run a request is for accepts commands, and the request is new there.\<close>

definition admissible :: "journal_env \<Rightarrow> admission_db \<Rightarrow> admission_request \<Rightarrow> int \<Rightarrow> bool" where
  "admissible env d q n \<longleftrightarrow> lock_run d (aq_run_id q) \<and> \<not> terminal_exists (db_journal d) (aq_run_id q) \<and>
     n = (case db_head d (aq_run_id q) of None \<Rightarrow> 0 | Some m \<Rightarrow> m) + 1 \<and> n \<le> POSTGRES_BIGINT_MAX \<and> portable_from (je_cfg env) 1 n \<and>
     map_of (db_records d) (aq_run_id q, aq_command_id q) = None \<and>
     (\<forall>c. admitted_from_request (je_cfg env) (je_sha env) q n = Inr c \<longrightarrow>
        (\<forall>k a. map_of (db_records d) k = Some a \<longrightarrow> aw_admitted_identity a \<noteq> admitted_identity (je_sha env) c))"

lemma fresh_admission:
  assumes env: "env_ok env" and ok: "admission_ok env d" and q: "make_request q = Inr q" "aq_schema_version q = ADMISSION_REQUEST_SCHEMA_VERSION"
    and tx: "undisturbed tx" and a: "admissible env d q n"
  obtains c where "admit env True tx q d = (appended_command env c (ax_now tx 1) (d\<lparr>db_head := (db_head d)(aq_run_id q \<mapsto> n - 1)\<rparr>),
      Inr (plain_receipt c Prepared 0 [] []))"
    "good_command env c" "ad_run_id c = aq_run_id q" "ad_command_id c = aq_command_id q" "ad_command_sequence c = n"
proof -
  let ?k = "(aq_run_id q, aq_command_id q)" and ?d = "d\<lparr>db_head := (db_head d)(aq_run_id q \<mapsto> n - 1)\<rparr>"
  note A = a [unfolded admissible_def]
  have p: "portable_from (je_cfg env) 1 n" using A by blast
  obtain c where c: "admitted_from_request (je_cfg env) (je_sha env) q n = Inr c" "good_command env c" "ad_run_id c = aq_run_id q"
    "ad_command_id c = aq_command_id q" "ad_command_sequence c = n" using admitted_fresh [OF q(1) env p q(2)] .
  have head: "0 \<le> n - 1" "n - 1 \<le> POSTGRES_BIGINT_MAX" using A by (auto simp: portable_from_def)
  have h: "lock_admission_head d (aq_run_id q) = Inr (?d, n - 1)"
    using A head by (cases "db_head d (aq_run_id q)") (simp_all add: lock_admission_head_def fun_upd_idem)
  have k: "?k = (ad_run_id c, ad_command_id c)" using c by simp
  have free: "map_of (db_records ?d) ?k = None" "map_of (db_outbox ?d) ?k = None" using A same_keys [OF ok, of ?k] by auto
  have "\<not> record_taken ?d ?k (new_record env c)"
  proof -
    note N = admission_okD(6) [OF ok]
    have "k' \<noteq> ?k \<and> \<not> (fst k' = fst ?k \<and> aw_sequence b = aw_sequence (new_record env c)) \<and>
        aw_admitted_identity b \<noteq> aw_admitted_identity (new_record env c)" if b: "map_of (db_records d) k' = Some b" for k' b
    proof -
      have "k' \<noteq> ?k" using b A by auto
      moreover have "aw_sequence b < n" if "fst k' = aq_run_id q" using numberedD(1) [OF N b] that A by auto
      moreover have "aw_admitted_identity b \<noteq> admitted_identity (je_sha env) c" using A b c(1) by blast
      ultimately show ?thesis using c(5) by (auto simp: new_record_def)
    qed
    then have "\<not> (case x of (k', b) \<Rightarrow> k' = ?k \<or> (fst k' = fst ?k \<and> aw_sequence b = aw_sequence (new_record env c)) \<or>
        aw_admitted_identity b = aw_admitted_identity (new_record env c))" if "x \<in> set (db_records d)" for x
      using that row_in_table(2) [OF ok] by (cases x) blast
    then show ?thesis unfolding record_taken_def list_ex_iff by simp
  qed
  moreover have s0: "stored env ?d (ax_now tx 0) ?k = Inr None" using free by (simp add: stored_def)
  ultimately have i: "insert_admission env tx q (n - 1) ?d = Inr (appended_command env c (ax_now tx 1) ?d)"
    using A c free by (simp add: insert_admission_def Let_def appended_command_def)
  let ?d2 = "appended_command env c (ax_now tx 1) ?d"
  have l: "admit_locked env tx q d = Inr (?d2, ())" using A h s0 i by (simp add: admit_locked_def)
  have ok2: "admission_ok env ?d2" using steps_evolve [OF admit_steps [OF q(1) l] env] ok unfolding evolves_def by blast
  have r: "map_of (db_records ?d2) ?k = Some (record_of env c None)" "map_of (db_outbox ?d2) ?k = Some (new_dispatch (ax_now tx 1))"
    using free k by (simp_all add: appended_command_def Let_def map_add_def record_of_def new_record_def)
  have c2: "command_at env ?d2 ?k c None" using r(1) c(2-4) by (simp add: command_at_def)
  have "\<not> terminal_exists (db_journal ?d2) (aq_run_id q)" using A by (simp add: appended_command_def Let_def)
  with stored_of [OF env c2 r(2) admission_okD(4) [OF ok2 r(2)], of "ax_now tx 7"] have
    "stored env ?d2 (ax_now tx 7) ?k = Inr (Some (stored_view c None (new_dispatch (ax_now tx 1)) (ax_now tx 7) False))" by simp
  from quiet_answer [OF tx _ _ this, of "plain_receipt c Prepared 0 [] []" "same_request env q"] good_command_ids [OF c(2)]
  have "answered env tx ?k (same_request env q) (?d2, Inr ()) = (?d2, Inr (plain_receipt c Prepared 0 [] []))"
    using c by (simp add: receipt_from_stored_def stored_view_def new_dispatch_def prepared_receipt)
  moreover have "admission_transaction tx (admit_locked env tx q) d = (?d2, Inr ())" by (rule quiet_transaction [OF tx]) (rule l)
  ultimately have "admit env True tx q d = (?d2, Inr (plain_receipt c Prepared 0 [] []))" by (simp add: admit_def)
  from that [OF this c(2-)] show thesis .
qed

section \<open>Claims\<close>

definition claimable :: "admission_attempt \<Rightarrow> admission_db \<Rightarrow> command_key \<Rightarrow> bool" where
  "claimable tx d k \<longleftrightarrow> (\<exists>w a. map_of (db_outbox d) k = Some w \<and> map_of (db_records d) k = Some a \<and> claim_ready (ax_now tx 2) w \<and>
     lock_run d (fst k) \<and> \<not> terminal_exists (db_journal d) (fst k) \<and> \<not> prior_undelivered d k (aw_sequence a))"

lemma first_by_nonempty: "xs \<noteq> [] \<Longrightarrow> \<exists>x. first_by f xs = Some x"
  by (cases "sort_key f xs") (auto simp: first_by_def dest: arg_cong [of _ _ length])

lemma claim_candidate_iff:
  assumes "undisturbed tx" and ok: "admission_ok env d"
  shows "claim_candidate tx d = Some k \<Longrightarrow> claimable tx d k"
    "claimable tx d k \<Longrightarrow> \<exists>k'. claim_candidate tx d = Some k'"
proof -
  note T = row_in_table(1) [OF ok]
  have l: "ax_locked tx k \<longleftrightarrow> False" for k using assms(1) by (simp add: undisturbed_def)
  show "claimable tx d k" if c: "claim_candidate tx d = Some k"
  proof -
    from c obtain w where kw: "(k, w) \<in> set (db_outbox d)" and w: "claim_ready (ax_now tx 2) w" "lock_run d (fst k)" "\<not> terminal_exists (db_journal d) (fst k)"
      and r: "case map_of (db_records d) k of Some a \<Rightarrow> \<not> prior_undelivered d k (aw_sequence a) | None \<Rightarrow> False"
      by (auto simp: claim_candidate_def lock_run_def dest!: first_by_Some)
    from r obtain a where "map_of (db_records d) k = Some a" "\<not> prior_undelivered d k (aw_sequence a)" by (auto split: option.splits)
    with w kw T show ?thesis unfolding claimable_def by blast
  qed
  assume "claimable tx d k"
  then obtain w a where w: "map_of (db_outbox d) k = Some w" "map_of (db_records d) k = Some a" "claim_ready (ax_now tx 2) w"
    "lock_run d (fst k)" "\<not> terminal_exists (db_journal d) (fst k)" "\<not> prior_undelivered d k (aw_sequence a)" unfolding claimable_def by blast
  let ?xs = "filter (\<lambda>(k, w). claim_ready (ax_now tx 2) w \<and> jn_authority (db_journal d) (fst k) \<noteq> None \<and>
        \<not> terminal_exists (db_journal d) (fst k) \<and> \<not> ax_locked tx k \<and>
        (case map_of (db_records d) k of Some a \<Rightarrow> \<not> prior_undelivered d k (aw_sequence a) | None \<Rightarrow> False)) (db_outbox d)"
  have "(k, w) \<in> set ?xs" using w T l by (simp add: lock_run_def)
  then have "?xs \<noteq> []" by (metis list.set(1) empty_iff)
  from first_by_nonempty [OF this] show "\<exists>k'. claim_candidate tx d = Some k'" unfolding claim_candidate_def by (metis option.simps(9))
qed

lemma reconciled_row:
  assumes "admission_ok env d" and "map_of (db_outbox (reconcile_one_terminal_dispatch tx target d)) k = Some w'"
  obtains w where "map_of (db_outbox d) k = Some w" "dw_claim_id w' = dw_claim_id w" "dw_attempts w' = dw_attempts w"
    "\<not> terminal_exists (db_journal d) (fst k) \<Longrightarrow> w' = w"
proof (cases "terminal_candidate tx target d")
  case None
  with assms that show thesis by (simp add: reconcile_one_terminal_dispatch_def)
next
  case (Some k0)
  then have "terminal_exists (db_journal d) (fst k0)" by (auto simp: terminal_candidate_def dest!: first_by_Some)
  with Some assms(2) that show thesis
    by (cases "map_of (db_outbox d) k") (auto simp: reconcile_one_terminal_dispatch_def map_of_update_row close_row_def split: if_splits)
qed

lemma reconciled_rest [simp]:
  "db_records (reconcile_one_terminal_dispatch tx target d) = db_records d"
  "db_journal (reconcile_one_terminal_dispatch tx target d) = db_journal d"
  by (simp_all add: reconcile_one_terminal_dispatch_def split: option.split)

lemma reconciled_command [simp]: "command_at env (reconcile_one_terminal_dispatch tx target d) = command_at env d"
  by (simp add: command_at_def fun_eq_iff)

lemma reconciled_claimable:
  assumes env: "env_ok env" and ok: "admission_ok env d" and c: "claimable tx d k"
  shows "claimable tx (reconcile_one_terminal_dispatch tx target d) k" (is "claimable tx ?d k")
proof -
  have ok': "admission_ok env ?d" using steps_evolve [OF reconcile_steps [OF ok] env] ok unfolding evolves_def by blast
  from c obtain w a where w: "map_of (db_outbox d) k = Some w" "map_of (db_records d) k = Some a" "claim_ready (ax_now tx 2) w"
    "lock_run d (fst k)" "\<not> terminal_exists (db_journal d) (fst k)" "\<not> prior_undelivered d k (aw_sequence a)" unfolding claimable_def by blast
  have same: "map_of (db_outbox ?d) k' = map_of (db_outbox d) k'" if "fst k' = fst k" for k'
  proof (cases "map_of (db_outbox ?d) k'")
    case None
    then show ?thesis using same_keys [OF ok, of k'] same_keys [OF ok', of k'] by simp
  next
    case (Some w')
    from reconciled_row [OF ok this] show ?thesis using w(5) that Some by metis
  qed
  have "\<not> prior_undelivered ?d k (aw_sequence a)"
    using w(6) same unfolding prior_undelivered_iff [OF ok] prior_undelivered_iff [OF ok'] reconciled_rest by metis
  with w same [OF refl] show ?thesis unfolding claimable_def lock_run_def by (intro exI [of _ w] exI [of _ a]) simp
qed

lemma leased_claim:
  assumes "good_command env c" and "row_checks w" and "dw_attempts w < POSTGRES_INTEGER_MAX" and "opaque_id owner" and "opaque_id cid" and "now < until"
  shows "dispatch_claim_of env (stored_view c m (claim_row owner cid until w) now False) owner cid =
    Inr \<lparr>dm_token = \<lparr>dk_run_id = ad_run_id c, dk_command_id = ad_command_id c, dk_owner_id = owner, dk_claim_id = cid,
      dk_generation = dw_generation w + 1\<rparr>, dm_command = c, dm_attempt = dw_generation w + 1\<rparr>"
proof -
  have g: "dw_attempts w = dw_generation w" "0 \<le> dw_generation w" using assms(2) by (simp_all add: row_checks_def)
  have "is_portable_json_integer cfg (IInt (dw_generation w + 1))" for cfg using small_portable [of "dw_generation w + 1"] g assms(3) by simp
  then show ?thesis using g assms(4-) good_command_ids [OF assms(1)]
    by (simp add: dispatch_claim_of_def stored_view_def claim_row_def make_token_def make_claim_def Let_def require_positive_integer_def portable_from_def)
qed

text \<open>A lease request the store accepts: bounded ids, a duration in range that outlasts the reading of the
  claimed row, a claim id no row carries, and rows whose attempts fit their column.\<close>

definition claim_request_ok :: "admission_attempt \<Rightarrow> admission_db \<Rightarrow> string \<Rightarrow> string \<Rightarrow> pyval \<Rightarrow> int \<Rightarrow> bool" where
  "claim_request_ok tx d owner cid lease_s us \<longleftrightarrow> opaque_id owner \<and> opaque_id cid \<and>
     (\<exists>f. checked_duration lease_s (\<lambda>f. flt_lt (Fin 0) f \<and> flt_le f (Fin MAX_COMMAND_DISPATCH_LEASE_S))
        ''dispatch lease_s must be in the range (0, 86400]'' = Inr f \<and> us = duration_microseconds f) \<and>
     ax_now tx 4 < ax_now tx 3 + us \<and>
     (\<forall>k w. map_of (db_outbox d) k = Some w \<longrightarrow> dw_claim_id w \<noteq> Some cid \<and> dw_attempts w < POSTGRES_INTEGER_MAX)"

lemma ready_claim:
  assumes env: "env_ok env" and ok: "admission_ok env d" and tx: "undisturbed tx" and q: "claim_request_ok tx d owner cid lease_s us" and k: "claimable tx d k"
  obtains k' w c where
    "claim_dispatch env True tx owner cid lease_s d =
       ((reconcile_one_terminal_dispatch tx None d)\<lparr>db_outbox := update_row k' (claim_row owner cid (ax_now tx 3 + us))
          (db_outbox (reconcile_one_terminal_dispatch tx None d))\<rparr>,
        Inr (Some \<lparr>dm_token = \<lparr>dk_run_id = ad_run_id c, dk_command_id = ad_command_id c, dk_owner_id = owner, dk_claim_id = cid,
          dk_generation = dw_generation w + 1\<rparr>, dm_command = c, dm_attempt = dw_generation w + 1\<rparr>))"
    "command_at env d k' c None" "map_of (db_outbox d) k' = Some w" "lock_run d (fst k')" "\<not> terminal_exists (db_journal d) (fst k')"
    "map_of (db_outbox (reconcile_one_terminal_dispatch tx None d)) k' = Some w"
proof -
  let ?d = "reconcile_one_terminal_dispatch tx None d"
  note Q = q [unfolded claim_request_ok_def]
  have ok': "admission_ok env ?d" using steps_evolve [OF reconcile_steps [OF ok] env] ok unfolding evolves_def by blast
  have row: "dw_claim_id w \<noteq> Some cid \<and> dw_attempts w < POSTGRES_INTEGER_MAX" if "(k1, w) \<in> set (db_outbox ?d)" for k1 w
    using reconciled_row [OF ok, of tx None k1 w] row_in_table(1) [OF ok'] that Q by metis
  from claim_candidate_iff(2) [OF tx ok' reconciled_claimable [OF env ok k]] obtain k' where k': "claim_candidate tx ?d = Some k'" ..
  from claim_candidate_iff(1) [OF tx ok' k'] obtain w a where w: "map_of (db_outbox ?d) k' = Some w" "map_of (db_records d) k' = Some a"
    "claim_ready (ax_now tx 2) w" "\<not> terminal_exists (db_journal d) (fst k')" "lock_run d (fst k')"
    unfolding claimable_def lock_run_def by auto
  from reconciled_row [OF ok w(1)] w(4) have w0: "map_of (db_outbox d) k' = Some w" by metis
  have w': "(k', w) \<in> set (db_outbox ?d)" using w(1) row_in_table(1) [OF ok'] by blast
  let ?d2 = "?d\<lparr>db_outbox := update_row k' (claim_row owner cid (ax_now tx 3 + us)) (db_outbox ?d)\<rparr>"
  have "\<not> list_ex (\<lambda>(k1, w). k1 = k' \<and> POSTGRES_INTEGER_MAX \<le> dw_attempts w) (db_outbox ?d)"
    "\<not> list_ex (\<lambda>(k1, w). k1 \<noteq> k' \<and> dw_claim_id w = Some cid) (db_outbox ?d)" using row unfolding list_ex_iff by fastforce+
  then have st: "claim_statement tx owner cid us ?d = Inr (?d2, Some k')" by (simp add: claim_statement_def k')
  have ok2: "admission_ok env ?d2" using steps_evolve [OF claim_statement_steps [OF ok' st] env] ok' unfolding evolves_def by blast
  from admission_okD(3) [OF ok w(2)] obtain c m where c: "a = record_of env c m" "command_at env d k' c m" by blast
  have "dw_state w \<noteq> DDelivered" using w(3) by (auto simp: claim_ready_def)
  from unbound_row [OF ok w(2) w0 this] c(1) have "m = None" by (simp add: record_of_def)
  have c2: "command_at env ?d2 k' c m" using c(2) by simp
  have r2: "map_of (db_outbox ?d2) k' = Some (claim_row owner cid (ax_now tx 3 + us) w)" using w(1) by (simp add: map_of_update_row)
  note s = stored_of [OF env c2 r2 admission_okD(4) [OF ok2 r2], of "ax_now tx 4"]
  have good: "good_command env c" using c(2) unfolding command_at_def by blast
  note m = leased_claim [OF good admission_okD(4) [OF ok' w(1)]]
  have "claim_new_dispatch env tx owner cid us d = Inr (?d2, Some \<lparr>dm_token = \<lparr>dk_run_id = ad_run_id c, dk_command_id = ad_command_id c,
      dk_owner_id = owner, dk_claim_id = cid, dk_generation = dw_generation w + 1\<rparr>, dm_command = c, dm_attempt = dw_generation w + 1\<rparr>)"
  proof -
    have "stored env ?d2 (ax_now tx 4) k' = Inr (Some (stored_view c m (claim_row owner cid (ax_now tx 3 + us) w) (ax_now tx 4) False))"
      using s w(4) by simp
    moreover note m [of owner cid "ax_now tx 4" "ax_now tx 3 + us" m] row [OF w'] Q
    ultimately show ?thesis by (simp add: claim_new_dispatch_def st del: reconciled_command)
  qed
  moreover have "claim_key d cid = None"
  proof -
    have "dw_claim_id y \<noteq> Some cid" if "(x, y) \<in> set (db_outbox d)" for x y
      using row_in_table(1) [OF ok, of x y] that Q by blast
    then show ?thesis by (auto simp: claim_key_def find_None_iff)
  qed
  ultimately have "admission_transaction tx (claim_dispatch_locked env tx owner cid us (claim_key d cid)) (ax_between tx d) =
      (?d2, Inr (Some \<lparr>dm_token = \<lparr>dk_run_id = ad_run_id c, dk_command_id = ad_command_id c, dk_owner_id = owner, dk_claim_id = cid,
        dk_generation = dw_generation w + 1\<rparr>, dm_command = c, dm_attempt = dw_generation w + 1\<rparr>))"
    using tx by (intro quiet_transaction) (simp_all add: undisturbed_def claim_dispatch_locked_def)
  with Q have "claim_dispatch env True tx owner cid lease_s d = (?d2, Inr (Some \<lparr>dm_token = \<lparr>dk_run_id = ad_run_id c,
      dk_command_id = ad_command_id c, dk_owner_id = owner, dk_claim_id = cid, dk_generation = dw_generation w + 1\<rparr>, dm_command = c,
      dm_attempt = dw_generation w + 1\<rparr>))" by (auto simp: claim_dispatch_def)
  from that [OF this c(2) [unfolded \<open>m = None\<close>] w0 w(5,4,1)] show thesis .
qed

lemma claimableI:
  assumes ok: "admission_ok env d" and r: "map_of (db_outbox d) k = Some w" "map_of (db_records d) k = Some a"
    and ready: "dw_state w = DPending \<and> dw_available_at w \<le> ax_now tx 2 \<or>
      dw_state w = DLeased \<and> (\<exists>u. dw_leased_until w = Some u \<and> u \<le> ax_now tx 2)"
    and run: "jn_authority (db_journal d) (fst k) \<noteq> None" "map_of (jn_terminals (db_journal d)) (fst k) = None"
    and prior: "\<And>k' w' a'. fst k' = fst k \<Longrightarrow> map_of (db_outbox d) k' = Some w' \<Longrightarrow> map_of (db_records d) k' = Some a' \<Longrightarrow>
      aw_sequence a' < aw_sequence a \<Longrightarrow> dw_state w' = DDelivered"
  shows "claimable tx d k"
proof -
  have "claim_ready (ax_now tx 2) w" using ready by (auto simp: claim_ready_def)
  moreover have "\<not> prior_undelivered d k (aw_sequence a)" unfolding prior_undelivered_iff [OF ok] using prior by blast
  ultimately show ?thesis using r run unfolding claimable_def lock_run_def terminal_exists_def by blast
qed

text \<open>C39. Dispatch never stalls. Whenever some stored command is pending and due, or leased with a lease that
  has run out, its run is registered and has no terminal outcome and every earlier command of the run is delivered, a claim
  with valid arguments that nothing interferes with returns a claim, under the given owner and claim id, of a
  command of the store, and the row of that command is leased for the asked duration under a generation one higher.\<close>

theorem ready_command_is_claimed:
  assumes "env_ok env" and "admission_run env (empty_admission j) d" and "undisturbed tx" and "claim_request_ok tx d owner cid lease_s us"
    and "map_of (db_outbox d) k = Some w" and "map_of (db_records d) k = Some a"
    and "dw_state w = DPending \<and> dw_available_at w \<le> ax_now tx 2 \<or>
      dw_state w = DLeased \<and> (\<exists>u. dw_leased_until w = Some u \<and> u \<le> ax_now tx 2)"
    and "jn_authority (db_journal d) (fst k) \<noteq> None" and "map_of (jn_terminals (db_journal d)) (fst k) = None"
    and "\<forall>k' w' a'. fst k' = fst k \<and> map_of (db_outbox d) k' = Some w' \<and> map_of (db_records d) k' = Some a' \<and>
      aw_sequence a' < aw_sequence a \<longrightarrow> dw_state w' = DDelivered"
  shows "\<exists>d1 r v v'. claim_dispatch env True tx owner cid lease_s d = (d1, Inr (Some r)) \<and> dk_owner_id (dm_token r) = owner \<and>
    dk_claim_id (dm_token r) = cid \<and> dm_attempt r = dk_generation (dm_token r) \<and> 1 \<le> dm_attempt r \<and>
    map_of (db_outbox d) (token_key (dm_token r)) = Some v \<and> map_of (db_outbox d1) (token_key (dm_token r)) = Some v' \<and>
    dw_state v' = DLeased \<and> dw_leased_until v' = Some (ax_now tx 3 + us) \<and> dw_generation v' = dw_generation v + 1 \<and>
    dk_generation (dm_token r) = dw_generation v'"
proof -
  have ok: "admission_ok env d" using reached_ok [OF assms(1,2)] .
  have cl: "claimable tx d k" by (rule claimableI [OF ok assms(5-9)]) (use assms(10) in blast)
  from ready_claim [OF assms(1) ok assms(3,4) cl] obtain k' v c where c: "claim_dispatch env True tx owner cid lease_s d =
       ((reconcile_one_terminal_dispatch tx None d)\<lparr>db_outbox := update_row k' (claim_row owner cid (ax_now tx 3 + us))
          (db_outbox (reconcile_one_terminal_dispatch tx None d))\<rparr>,
        Inr (Some \<lparr>dm_token = \<lparr>dk_run_id = ad_run_id c, dk_command_id = ad_command_id c, dk_owner_id = owner, dk_claim_id = cid,
          dk_generation = dw_generation v + 1\<rparr>, dm_command = c, dm_attempt = dw_generation v + 1\<rparr>))"
    and at: "command_at env d k' c None"
    and v: "map_of (db_outbox d) k' = Some v" "map_of (db_outbox (reconcile_one_terminal_dispatch tx None d)) k' = Some v" by blast
  have "0 \<le> dw_generation v" using admission_okD(4) [OF ok v(1)] by (simp add: row_checks_def)
  moreover have "k' = (ad_run_id c, ad_command_id c)" using at by (simp add: command_at_def)
  ultimately show ?thesis using c v by (simp add: token_key_def map_of_update_row claim_row_def)
qed

section \<open>Acknowledgement and binding\<close>

text \<open>The row a token holds the lease of.\<close>

definition holds :: "dispatch_token \<Rightarrow> int \<Rightarrow> dispatch_row \<Rightarrow> bool" where
  "holds t now w \<longleftrightarrow> dw_state w = DLeased \<and> dw_generation w = dk_generation t \<and> dw_claim_owner w = Some (dk_owner_id t) \<and>
     dw_claim_id w = Some (dk_claim_id t) \<and> (\<exists>u. dw_leased_until w = Some u \<and> now < u)"

lemma acknowledged_claim:
  assumes env: "env_ok env" and ok: "admission_ok env d" and tx: "undisturbed tx" and c: "command_at env d (token_key t) c None"
    and w: "map_of (db_outbox d) (token_key t) = Some w" "holds t (ax_now tx 0) w" and run: "lock_run d (dk_run_id t)" "\<not> terminal_exists (db_journal d) (dk_run_id t)"
    and v: "make_dispatch_result v = Inr v" "ds_status v = Accepted"
  shows "acknowledge_dispatch env True tx t v d =
    (d\<lparr>db_outbox := update_row (token_key t) (deliver_row (ds_dispatch_ref v) (ax_now tx 5)) (db_outbox d)\<rparr>,
     Inr (plain_receipt c Dispatched (dk_generation t) (ds_dispatch_ref v) []))"
proof -
  let ?k = "token_key t" and ?f = "deliver_row (ds_dispatch_ref v) (ax_now tx 5)"
  let ?d = "d\<lparr>db_outbox := update_row ?k ?f (db_outbox d)\<rparr>"
  note H = w(2) [unfolded holds_def]
  have k: "dk_run_id t = ad_run_id c" "dk_command_id t = ad_command_id c" and g: "good_command env c"
    using c by (simp_all add: command_at_def token_key_def)
  have W: "row_checks w" using admission_okD(4) [OF ok w(1)] .
  have gen: "dw_attempts w = dw_generation w" "1 \<le> dw_generation w" "dw_generation w \<le> POSTGRES_INTEGER_MAX" using W H by (auto simp: row_checks_def)
  have ref: "opaque_address (ds_dispatch_ref v)" using v by (auto simp: make_dispatch_result_def address_or_empty_def res_bind_eq_Inr split: if_splits)
  have s: "stored env d (ax_now tx 0) ?k = Inr (Some (stored_view c None w (ax_now tx 0) False))"
    using stored_of [OF env c w(1) W] run(2) by (simp add: token_key_def)
  have tm: "token_matches (stored_view c None w n b) t" for n b using H k by (simp add: token_matches_def stored_view_def)
  have "require_active_claim (Some (stored_view c None w (ax_now tx 0) False)) t = Inr ()"
    using tm H by (auto simp: require_active_claim_def stored_view_def)
  moreover have "\<not> delivered_as t v (stored_view c None w (ax_now tx 0) False)" using H by (simp add: delivered_as_def stored_view_def)
  ultimately have l: "settle_locked env tx t (delivered_as t v) ?f d = Inr (?d, ())" using run s by (simp add: settle_locked_def)
  have "settling ?f" using ref unfolding settling_def by blast
  from steps_evolve [OF settle_steps [OF this l] env] ok have ok': "admission_ok env ?d" unfolding evolves_def by blast
  have r: "map_of (db_outbox ?d) ?k = Some (?f w)" using w(1) by (simp add: map_of_update_row)
  have c': "command_at env ?d ?k c None" using c by simp
  have s': "stored env ?d (ax_now tx 7) ?k = Inr (Some (stored_view c None (?f w) (ax_now tx 7) False))"
    using stored_of [OF env c' r admission_okD(4) [OF ok' r]] run(2) by (simp add: token_key_def)
  have "answered env tx ?k a (?d, Inr ()) = (?d, Inr (plain_receipt c Dispatched (dk_generation t) (ds_dispatch_ref v) []))" for a
    by (rule quiet_answer [OF tx _ _ s'])
       (use good_command_ids [OF g] k gen H ref in \<open>simp_all add: token_key_def receipt_from_stored_def stored_view_def deliver_row_def dispatched_receipt\<close>)
  moreover have "admission_transaction tx (settle_locked env tx t (delivered_as t v) ?f) d = (?d, Inr ())" by (rule quiet_transaction [OF tx]) (rule l)
  ultimately show ?thesis using v(2) by (simp add: acknowledge_dispatch_def)
qed

lemma first_binding:
  assumes env: "env_ok env" and ok: "admission_ok env d" and tx: "undisturbed tx" and c: "command_at env d k c None"
    and w: "map_of (db_outbox d) k = Some w" "dw_state w = DDelivered" and first: "ad_command_sequence c = 1"
    and t: "wt_run_id t = ad_run_id c" "current_writer_locked (je_cfg env) (jn_authority (db_journal d)) t (ax_now tx 0) = Inr True"
    and run: "\<not> terminal_exists (db_journal d) (ad_run_id c)"
    and ck: "checked_checkpoint_locked env (db_journal d) (ad_run_id c) = Inr ck" "dget ck ''terminal'' \<noteq> PBool True" "activation_of env c ck = Inr m"
    and unused: "\<And>k' a. map_of (db_records d) k' = Some a \<Longrightarrow> k' \<noteq> k \<Longrightarrow> map_option fst (aw_activation a) \<noteq> Some (activation_identity (je_sha env) m)"
  shows "bind_activation env True tx c t d = (bound_command env c m d, Inr m)"
proof -
  have k: "k = (ad_run_id c, ad_command_id c)" and r: "map_of (db_records d) k = Some (record_of env c None)" using c unfolding command_at_def by blast+
  have s: "stored env d (ax_now tx 1) (ad_run_id c, ad_command_id c) = Inr (Some (stored_view c None w (ax_now tx 1) False))"
    using stored_of [OF env c w(1) admission_okD(4) [OF ok w(1)]] run k by simp
  have "(k, record_of env c None) \<in> set (db_records d)" using r row_in_table(2) [OF ok] by blast
  then have 1: "list_ex (\<lambda>(k', a). k' = k \<and> aw_activation a = None) (db_records d)"
    unfolding list_ex_iff by (rule bexI [rotated]) (simp add: record_of_def)
  have "\<not> (k' \<noteq> k \<and> map_option fst (aw_activation a) = Some (activation_identity (je_sha env) m))" if "(k', a) \<in> set (db_records d)" for k' a
    using unused row_in_table(2) [OF ok] that by blast
  then have 2: "\<not> list_ex (\<lambda>(k', a). k' \<noteq> k \<and> map_option fst (aw_activation a) = Some (activation_identity (je_sha env) m)) (db_records d)"
    unfolding list_ex_iff by fast
  from 1 2 have "write_binding env (ad_run_id c, ad_command_id c) m d = Inr (bound_command env c m d)"
    unfolding k by (simp add: write_binding_def bound_command_def)
  then have "bind_fresh env tx c d = Inr (bound_command env c m d, m)"
    using run ck first by (simp add: bind_fresh_def require_prior_activations_completed_def)
  then have l: "bind_locked env tx c t d = Inr (bound_command env c m d, m)"
    using t(2) s w(2) by (simp add: bind_locked_def stored_view_def)
  have "admission_transaction tx (bind_locked env tx c t) d = (bound_command env c m d, Inr m)" by (rule quiet_transaction [OF tx]) (rule l)
  then show ?thesis using t(1) by (simp add: bind_activation_def)
qed

section \<open>A small store\<close>

definition demo_quiet :: admission_attempt where
  "demo_quiet = \<lparr>ax_now = (\<lambda>_. 5), ax_collate = (\<lambda>_. 0), ax_locked = (\<lambda>_. False), ax_between = id, ax_fault = NoFault,
     ax_later = (\<lambda>_. id), ax_read_fault = None, ax_reread_fails = False\<rparr>"

definition demo_command_request :: admission_request where
  "demo_command_request = \<lparr>aq_run_id = ''r1'', aq_command_id = ''cmd1'', aq_kind = ''input'', aq_request_digest = replicate 64 (CHR ''a''),
     aq_payload_ref = ''blob:x'', aq_schema_version = ADMISSION_REQUEST_SCHEMA_VERSION\<rparr>"

text \<open>A run with a writer and one checkpoint.\<close>

definition demo_run_journal :: journal where
  "demo_run_journal = (empty_journal demo_authority)\<lparr>jn_checkpoint_head := [''r1'' \<mapsto> 3],
     jn_checkpoints := [((''r1'', 3), checkpoint_row demo_journal_env demo_checkpoint (record_digest demo_journal_env demo_checkpoint []) [])]\<rparr>"

definition demo_admission :: "admission_db \<times> admission_receipt res" where
  "demo_admission = admit demo_journal_env True demo_quiet demo_command_request (empty_admission demo_run_journal)"

definition demo_claim :: "admission_db \<times> dispatch_claim option res" where
  "demo_claim = claim_dispatch demo_journal_env True demo_quiet ''d1'' ''c1'' (PInt 30) (fst demo_admission)"

definition demo_dispatch_token :: dispatch_token where
  "demo_dispatch_token = \<lparr>dk_run_id = ''r1'', dk_command_id = ''cmd1'', dk_owner_id = ''d1'', dk_claim_id = ''c1'', dk_generation = 1\<rparr>"

definition demo_accepted :: dispatch_result where
  "demo_accepted = \<lparr>ds_status = Accepted, ds_dispatch_ref = ''blob:x'', ds_error_code = []\<rparr>"

definition demo_acknowledged :: "admission_db \<times> admission_receipt res" where
  "demo_acknowledged = acknowledge_dispatch demo_journal_env True demo_quiet demo_dispatch_token demo_accepted (fst demo_claim)"

lemma demo_quiet [simp]: "undisturbed demo_quiet" "ax_now demo_quiet n = 5"
  by (simp_all add: undisturbed_def demo_quiet_def)

lemma demo_journal_facts [simp]:
  "jn_authority demo_run_journal = demo_authority" "\<not> terminal_exists demo_run_journal run"
  by (simp_all add: demo_run_journal_def empty_journal_def terminal_exists_def)

lemma demo_texts [simp]: "opaque_id ''r1''" "opaque_id ''cmd1''" "opaque_id ''d1''" "opaque_id ''c1''" "opaque_address ''blob:x''"
  by code_simp+

lemma demo_request_ok: "make_request demo_command_request = Inr demo_command_request" "aq_schema_version demo_command_request = ADMISSION_REQUEST_SCHEMA_VERSION"
  "aq_run_id demo_command_request = ''r1''" "aq_command_id demo_command_request = ''cmd1''"
  by code_simp (simp_all add: demo_command_request_def)

lemma quiet_run: "undisturbed tx \<Longrightarrow> admission_run env d d1 \<Longrightarrow> op_built x \<Longrightarrow> admission_run env d (perform_op env True tx x d1)"
  by (rule admission_run.operate) (simp_all add: undisturbed_def admission_run.start)

lemma reconcile_idle: "\<forall>run. \<not> terminal_exists (db_journal d) run \<Longrightarrow> reconcile_one_terminal_dispatch tx target d = d"
  by (simp add: reconcile_one_terminal_dispatch_def terminal_candidate_def first_by_def)

lemma demo_admitted:
  obtains c d where "demo_admission = (d, Inr (plain_receipt c Prepared 0 [] []))"
    "db_records d = [((''r1'', ''cmd1''), record_of demo_journal_env c None)]" "db_outbox d = [((''r1'', ''cmd1''), new_dispatch 5)]"
    "db_journal d = demo_run_journal" "command_at demo_journal_env d (''r1'', ''cmd1'') c None" "ad_command_sequence c = 1"
    "admission_run demo_journal_env (empty_admission demo_run_journal) d"
proof -
  let ?d = "empty_admission demo_run_journal"
  have ok: "admission_ok demo_journal_env ?d" using reached_ok [OF demo_journal_env_ok admission_run.start] .
  have "admissible demo_journal_env ?d demo_command_request 1"
    using small_portable [of 1]
    by (simp add: admissible_def demo_request_ok empty_admission_def lock_run_def demo_authority_def portable_from_def POSTGRES_BIGINT_MAX_def
        POSTGRES_INTEGER_MAX_def)
  from fresh_admission [OF demo_journal_env_ok ok demo_request_ok(1,2) demo_quiet(1) this] obtain c where
    a: "demo_admission = (appended_command demo_journal_env c 5 (?d\<lparr>db_head := (db_head ?d)(''r1'' \<mapsto> 0)\<rparr>), Inr (plain_receipt c Prepared 0 [] []))"
    and c: "good_command demo_journal_env c" "ad_run_id c = ''r1''" "ad_command_id c = ''cmd1''" "ad_command_sequence c = 1"
    by (auto simp: demo_admission_def demo_request_ok)
  have n: "new_record demo_journal_env c = record_of demo_journal_env c None" by (simp add: record_of_def new_record_def)
  have "admission_run demo_journal_env ?d (fst demo_admission)"
    using quiet_run [OF demo_quiet(1) admission_run.start, of "Admit demo_command_request" demo_journal_env ?d] demo_request_ok(1)
    by (simp add: demo_admission_def)
  then have "admission_run demo_journal_env ?d (appended_command demo_journal_env c 5 (?d\<lparr>db_head := (db_head ?d)(''r1'' \<mapsto> 0)\<rparr>))"
    unfolding a by simp
  with that [OF a] show thesis using c n by (simp add: appended_command_def Let_def empty_admission_def command_at_def)
qed

lemma demo_lease: "checked_duration (PInt 30) (\<lambda>f. flt_lt (Fin 0) f \<and> flt_le f (Fin MAX_COMMAND_DISPATCH_LEASE_S)) msg = Inr (Fin 30)"
  "duration_microseconds (Fin 30) = 30000000"
  using rnd_of_int [of 30] rnd_of_int [of 30000000]
  by (simp_all add: checked_duration_def float_of_int_def duration_microseconds_def MAX_COMMAND_DISPATCH_LEASE_S_def)

lemma demo_claim_asked:
  assumes "demo_admission = (d, r)"
  shows "claim_request_ok demo_quiet d ''d1'' ''c1'' (PInt 30) 30000000" "claimable demo_quiet d (''r1'', ''cmd1'')"
proof -
  obtain c d' where a: "demo_admission = (d', Inr (plain_receipt c Prepared 0 [] []))"
    and "db_records d' = [((''r1'', ''cmd1''), record_of demo_journal_env c None)]" "db_outbox d' = [((''r1'', ''cmd1''), new_dispatch 5)]"
    "db_journal d' = demo_run_journal" "ad_command_sequence c = 1"
    by (rule demo_admitted)
  moreover have "d' = d" using assms a by (metis Pair_inject)
  ultimately have d: "db_records d = [((''r1'', ''cmd1''), record_of demo_journal_env c None)]" "db_outbox d = [((''r1'', ''cmd1''), new_dispatch 5)]"
    "db_journal d = demo_run_journal" "ad_command_sequence c = 1" by simp_all
  show "claim_request_ok demo_quiet d ''d1'' ''c1'' (PInt 30) 30000000"
    unfolding claim_request_ok_def using demo_lease by (auto simp: d new_dispatch_def POSTGRES_INTEGER_MAX_def)
  show "claimable demo_quiet d (''r1'', ''cmd1'')"
    by (simp add: claimable_def d lock_run_def demo_authority_def claim_ready_def new_dispatch_def prior_undelivered_def)
qed

lemma demo_claimed:
  obtains c d where "demo_claim = (d, Inr (Some \<lparr>dm_token = demo_dispatch_token, dm_command = c, dm_attempt = 1\<rparr>))"
    "command_at demo_journal_env d (''r1'', ''cmd1'') c None" "map_of (db_outbox d) (''r1'', ''cmd1'') = Some (claim_row ''d1'' ''c1'' 30000005 (new_dispatch 5))"
    "db_records d = [((''r1'', ''cmd1''), record_of demo_journal_env c None)]" "db_journal d = demo_run_journal" "ad_command_sequence c = 1"
    "admission_run demo_journal_env (empty_admission demo_run_journal) d"
proof -
  obtain c d where a: "demo_admission = (d, Inr (plain_receipt c Prepared 0 [] []))"
    and d: "db_records d = [((''r1'', ''cmd1''), record_of demo_journal_env c None)]" "db_outbox d = [((''r1'', ''cmd1''), new_dispatch 5)]"
    "db_journal d = demo_run_journal" and c: "command_at demo_journal_env d (''r1'', ''cmd1'') c None" "ad_command_sequence c = 1"
    and run: "admission_run demo_journal_env (empty_admission demo_run_journal) d" by (rule demo_admitted)
  have idle: "reconcile_one_terminal_dispatch demo_quiet None d = d" using d(3) by (simp add: reconcile_idle)
  obtain k' w c' where "claim_dispatch demo_journal_env True demo_quiet ''d1'' ''c1'' (PInt 30) d =
       ((reconcile_one_terminal_dispatch demo_quiet None d)\<lparr>db_outbox := update_row k' (claim_row ''d1'' ''c1'' (ax_now demo_quiet 3 + 30000000))
          (db_outbox (reconcile_one_terminal_dispatch demo_quiet None d))\<rparr>,
        Inr (Some \<lparr>dm_token = \<lparr>dk_run_id = ad_run_id c', dk_command_id = ad_command_id c', dk_owner_id = ''d1'', dk_claim_id = ''c1'',
          dk_generation = dw_generation w + 1\<rparr>, dm_command = c', dm_attempt = dw_generation w + 1\<rparr>))"
    and c': "command_at demo_journal_env d k' c' None" and w: "map_of (db_outbox d) k' = Some w"
    by (rule ready_claim [OF demo_journal_env_ok reached_ok [OF demo_journal_env_ok run] demo_quiet(1) demo_claim_asked [OF a]])
  then have r: "demo_claim = (d\<lparr>db_outbox := update_row k' (claim_row ''d1'' ''c1'' 30000005) (db_outbox d)\<rparr>,
        Inr (Some \<lparr>dm_token = \<lparr>dk_run_id = ad_run_id c', dk_command_id = ad_command_id c', dk_owner_id = ''d1'', dk_claim_id = ''c1'',
          dk_generation = dw_generation w + 1\<rparr>, dm_command = c', dm_attempt = dw_generation w + 1\<rparr>))"
    by (simp add: demo_claim_def a idle)
  from w have k: "k' = (''r1'', ''cmd1'')" and "w = new_dispatch 5" by (auto simp: d split: if_splits)
  then have e: "c' = c" "dw_generation w = 0" using command_at_unique(1) [OF c(1)] c' by (auto simp: new_dispatch_def)
  have i: "ad_run_id c = ''r1''" "ad_command_id c = ''cmd1''" using c(1) by (simp_all add: command_at_def)
  let ?d = "d\<lparr>db_outbox := update_row k' (claim_row ''d1'' ''c1'' 30000005) (db_outbox d)\<rparr>"
  have "admission_run demo_journal_env (empty_admission demo_run_journal) (fst demo_claim)"
    using quiet_run [OF demo_quiet(1) run, of "ClaimDispatch ''d1'' ''c1'' (PInt 30)"] unfolding demo_claim_def a by simp
  then have run': "admission_run demo_journal_env (empty_admission demo_run_journal) ?d" unfolding r by simp
  have "demo_claim = (?d, Inr (Some \<lparr>dm_token = demo_dispatch_token, dm_command = c, dm_attempt = 1\<rparr>))"
    unfolding r using e i by (simp add: demo_dispatch_token_def)
  from that [OF this _ _ _ _ _ run'] show thesis using c d k by (simp add: update_row_def)
qed

lemma demo_accepted_ok: "make_dispatch_result demo_accepted = Inr demo_accepted" "ds_status demo_accepted = Accepted" "ds_dispatch_ref demo_accepted = ''blob:x''"
  by code_simp (simp_all add: demo_accepted_def)

lemma demo_later: "admission_run demo_journal_env (fst demo_admission) (fst demo_acknowledged)"
proof -
  have "admission_run demo_journal_env (fst demo_admission) (fst demo_claim)"
    using quiet_run [OF demo_quiet(1) admission_run.start, of "ClaimDispatch ''d1'' ''c1'' (PInt 30)"] by (simp add: demo_claim_def)
  from quiet_run [OF demo_quiet(1) this, of "AcknowledgeDispatch demo_dispatch_token demo_accepted"] show ?thesis
    by (simp add: demo_acknowledged_def demo_accepted_ok(1))
qed

lemma demo_delivered:
  obtains c d where "demo_acknowledged = (d, Inr (plain_receipt c Dispatched 1 ''blob:x'' []))"
    "command_at demo_journal_env d (''r1'', ''cmd1'') c None"
    "map_of (db_outbox d) (''r1'', ''cmd1'') = Some (deliver_row ''blob:x'' 5 (claim_row ''d1'' ''c1'' 30000005 (new_dispatch 5)))"
    "db_records d = [((''r1'', ''cmd1''), record_of demo_journal_env c None)]" "db_journal d = demo_run_journal" "ad_command_sequence c = 1"
    "admission_run demo_journal_env (empty_admission demo_run_journal) d"
proof -
  obtain c d where a: "demo_claim = (d, Inr (Some \<lparr>dm_token = demo_dispatch_token, dm_command = c, dm_attempt = 1\<rparr>))"
    and c: "command_at demo_journal_env d (''r1'', ''cmd1'') c None"
    and w: "map_of (db_outbox d) (''r1'', ''cmd1'') = Some (claim_row ''d1'' ''c1'' 30000005 (new_dispatch 5))"
    and d: "db_records d = [((''r1'', ''cmd1''), record_of demo_journal_env c None)]" "db_journal d = demo_run_journal" "ad_command_sequence c = 1"
    and run: "admission_run demo_journal_env (empty_admission demo_run_journal) d" by (rule demo_claimed)
  have k: "token_key demo_dispatch_token = (''r1'', ''cmd1'')" "dk_run_id demo_dispatch_token = ''r1''" "dk_generation demo_dispatch_token = 1"
    by (simp_all add: demo_dispatch_token_def token_key_def)
  have tk: "command_at demo_journal_env d (token_key demo_dispatch_token) c None"
    "map_of (db_outbox d) (token_key demo_dispatch_token) = Some (claim_row ''d1'' ''c1'' 30000005 (new_dispatch 5))"
    unfolding k by (rule c, rule w)
  note v = demo_accepted_ok
  have "holds demo_dispatch_token (ax_now demo_quiet 0) (claim_row ''d1'' ''c1'' 30000005 (new_dispatch 5))"
    by (simp add: holds_def demo_dispatch_token_def claim_row_def new_dispatch_def)
  moreover have "lock_run d (dk_run_id demo_dispatch_token)" "\<not> terminal_exists (db_journal d) (dk_run_id demo_dispatch_token)"
    by (simp_all add: lock_run_def d k demo_authority_def)
  ultimately have r: "demo_acknowledged = (d\<lparr>db_outbox := update_row (''r1'', ''cmd1'') (deliver_row ''blob:x'' 5) (db_outbox d)\<rparr>,
      Inr (plain_receipt c Dispatched 1 ''blob:x'' []))"
    using acknowledged_claim [OF demo_journal_env_ok reached_ok [OF demo_journal_env_ok run] demo_quiet(1) tk _ _ _ v(1,2)]
    unfolding demo_acknowledged_def a by (simp add: k v)
  have "admission_run demo_journal_env (empty_admission demo_run_journal) (fst demo_acknowledged)"
    using quiet_run [OF demo_quiet(1) run, of "AcknowledgeDispatch demo_dispatch_token demo_accepted"] v(1) unfolding demo_acknowledged_def a by simp
  then have "admission_run demo_journal_env (empty_admission demo_run_journal) (d\<lparr>db_outbox := update_row (''r1'', ''cmd1'') (deliver_row ''blob:x'' 5) (db_outbox d)\<rparr>)"
    unfolding r by simp
  from that [OF r _ _ _ _ _ this] c w d show thesis by (simp add: map_of_update_row)
qed

lemma demo_source:
  assumes "ad_command_sequence c = 1" and "good_command demo_journal_env c"
  obtains m where "checked_checkpoint_locked demo_journal_env demo_run_journal ''r1'' = Inr demo_checkpoint" "dget demo_checkpoint ''terminal'' \<noteq> PBool True"
    "activation_of demo_journal_env c demo_checkpoint = Inr m" "am_source_checkpoint_seq m = 3"
proof -
  have w: "checkpoint_payload_for_write (je_va demo_journal_env) (je_cfg demo_journal_env) (je_sha demo_journal_env) demo_checkpoint = Inr demo_checkpoint"
    using demo_checkpoint_written by (simp add: demo_journal_env_def)
  note D = written_decodes [OF demo_checkpoint_attributes(1) w]
  have p: "dget demo_checkpoint ''run_id'' = PStr ''r1''" "dget demo_checkpoint ''seq'' = PInt 3"
    "dget demo_checkpoint ''schema_version'' = PStr CHECKPOINT_SCHEMA_VERSION"
    using demo_checkpoint_attributes(2,3)
    by (simp_all add: ck_run_id_def ck_seq_def) (simp add: demo_checkpoint_def make_checkpoint_def CHECKPOINT_ATTRIBUTES_def dget_def)
  have 1: "checked_checkpoint_locked demo_journal_env demo_run_journal ''r1'' = Inr demo_checkpoint"
    using D(2,3) by (simp add: checked_checkpoint_locked_def demo_run_journal_def checkpoint_row_def record_digest_def
        CHECKPOINT_TYPED_FIELDS_def p tuple_eq_def num_eq_def decode_env_checkpoint_def)
  have 2: "dget demo_checkpoint ''terminal'' \<noteq> PBool True"
    by (simp add: demo_checkpoint_def make_checkpoint_def CHECKPOINT_ATTRIBUTES_def dget_def)
  have d: "recorded_digest (je_sha demo_journal_env x)" for x using demo_journal_env_ok by (simp add: env_ok_def)
  note A = admitted_members_ok [OF assms(2) [unfolded good_command_def, THEN conjunct1]]
  have "is_portable_json_integer cfg (IInt 3)" "is_portable_json_integer cfg (IInt 1)" for cfg
    using small_portable [of 3 cfg] small_portable [of 1 cfg] by (simp_all add: POSTGRES_INTEGER_MAX_def)
  moreover have "ACTIVATION_COMMAND_SCHEMA_VERSION \<in> set ACCEPTED_ACTIVATION_COMMAND_SCHEMA_VERSIONS"
    by (simp add: ACTIVATION_COMMAND_SCHEMA_VERSION_def ACCEPTED_ACTIVATION_COMMAND_SCHEMA_VERSIONS_def accepted_namespaced_ids_def namespaced_id_def)
  ultimately have "\<exists>m. activation_of demo_journal_env c demo_checkpoint = Inr m"
    using A d assms(1) demo_checkpoint_attributes(3)
    by (simp add: activation_of_def checkpoint_digest_def checkpoint_to_json_wf [OF is_checkpointD(2) [OF demo_checkpoint_attributes(1)]]
        make_activation_def require_digest_def require_positive_integer_def require_nonnegative_integer_def portable_from_def)
  then obtain m where m: "activation_of demo_journal_env c demo_checkpoint = Inr m" ..
  with activation_of_good(2) [OF m] demo_checkpoint_attributes(3) that [OF 1 2] show thesis by simp
qed

lemma repeated_admission:
  assumes env: "env_ok env" and ok: "admission_ok env d" and tx: "undisturbed tx" and c: "command_at env d (aq_run_id q, aq_command_id q) c m"
    and same: "ad_request_identity_sha256 c = request_identity (je_sha env) q" and w: "map_of (db_outbox d) (aq_run_id q, aq_command_id q) = Some w"
    and run: "lock_run d (aq_run_id q)"
    and p: "receipt_from_stored env (db_journal d) (db_journal d) (stored_view c m w (ax_now tx 7) (terminal_exists (db_journal d) (aq_run_id q))) = Inr p"
  shows "admit env True tx q d = (d, Inr p)"
proof -
  let ?k = "(aq_run_id q, aq_command_id q)"
  note s = stored_of [OF env c w admission_okD(4) [OF ok w]]
  have k: "?k = (ad_run_id c, ad_command_id c)" and g: "good_command env c" and r: "map_of (db_records d) ?k = Some (record_of env c m)"
    using c unfolding command_at_def by blast+
  note N = admission_okD(6) [OF ok]
  from numberedD(1) [OF N r] obtain n where "db_head d (aq_run_id q) = Some n" by auto
  with numberedD(4) [OF N this] have "lock_admission_head d (aq_run_id q) = Inr (d, n)" by (simp add: lock_admission_head_def)
  with run s [of "ax_now tx 0"] same have l: "admit_locked env tx q d = Inr (d, ())" by (simp add: admit_locked_def stored_view_def)
  have "admission_transaction tx (admit_locked env tx q) d = (d, Inr ())" by (rule quiet_transaction [OF tx]) (rule l)
  moreover have "answered env tx ?k (same_request env q) (d, Inr ()) = (d, Inr p)"
    by (rule quiet_answer [OF tx _ _ s]) (use good_command_ids [OF g] k p in simp_all)
  ultimately show ?thesis by (simp add: admit_def)
qed

lemma demo_request_same: "good_command demo_journal_env c \<Longrightarrow> ad_request_identity_sha256 c = request_identity (je_sha demo_journal_env) q"
  using admitted_members_ok(8) [of "je_cfg demo_journal_env" "je_sha demo_journal_env" c]
  by (simp add: good_command_def request_identity_def) (simp add: demo_journal_env_def)

section \<open>The theorems at work\<close>

definition demo_reclaim_tx :: admission_attempt where
  "demo_reclaim_tx = demo_quiet\<lparr>ax_now := (\<lambda>_. 40000000)\<rparr>"

lemma demo_reclaim: "undisturbed demo_reclaim_tx" "ax_now demo_reclaim_tx n = 40000000" "opaque_id ''d2''" "opaque_id ''c2''"
  by (simp_all add: undisturbed_def demo_reclaim_tx_def demo_quiet_def) code_simp+

lemma demo_only_command:
  assumes "db_records d = [(k, a)]"
  shows "\<forall>k' w' a'. fst k' = fst k \<and> map_of (db_outbox d) k' = Some w' \<and> map_of (db_records d) k' = Some a' \<and>
      aw_sequence a' < aw_sequence a \<longrightarrow> dw_state w' = DDelivered"
  using assms by (auto split: if_splits)

lemma demo_row: "dw_claim_id (claim_row ''d1'' ''c1'' n (new_dispatch m)) \<noteq> Some ''c2'' \<and>
    dw_attempts (claim_row ''d1'' ''c1'' n (new_dispatch m)) < POSTGRES_INTEGER_MAX"
  by (simp add: claim_row_def new_dispatch_def POSTGRES_INTEGER_MAX_def)

lemma demo_reclaim_asked:
  assumes "admission_ok env d" and "db_records d = [(k, a)]" and "map_of (db_outbox d) k = Some (claim_row ''d1'' ''c1'' 30000005 (new_dispatch 5))"
  shows "claim_request_ok demo_reclaim_tx d ''d2'' ''c2'' (PInt 30) 30000000"
proof -
  have "w = claim_row ''d1'' ''c1'' 30000005 (new_dispatch 5)" if "map_of (db_outbox d) k' = Some w" for k' w
    using same_keys [OF assms(1), of k'] that assms(2,3) by (auto split: if_splits)
  then have "dw_claim_id w \<noteq> Some ''c2'' \<and> dw_attempts w < POSTGRES_INTEGER_MAX" if "map_of (db_outbox d) k' = Some w" for k' w
    using that by (metis demo_row)
  then show ?thesis unfolding claim_request_ok_def using demo_lease demo_reclaim by auto
qed

text \<open>The first claim, and after its lease has run out the claim of another dispatcher.\<close>

theorem ready_command_is_claimed_witness:
  "(\<exists>d r. demo_claim = (d, Inr (Some r)) \<and> dk_owner_id (dm_token r) = ''d1'' \<and> 1 \<le> dk_generation (dm_token r)) \<and>
   (\<exists>d r. claim_dispatch demo_journal_env True demo_reclaim_tx ''d2'' ''c2'' (PInt 30) (fst demo_claim) = (d, Inr (Some r)) \<and>
      dk_owner_id (dm_token r) = ''d2'' \<and> 1 \<le> dk_generation (dm_token r))"
proof (rule conjI)
  let ?k = "(''r1'', ''cmd1'')"
  have j: "jn_authority demo_run_journal (fst ?k) \<noteq> None" "map_of (jn_terminals demo_run_journal) (fst ?k) = None"
    by (simp_all add: demo_authority_def) (simp add: demo_run_journal_def empty_journal_def)
  obtain c d where a: "demo_admission = (d, Inr (plain_receipt c Prepared 0 [] []))"
    and d: "db_records d = [(?k, record_of demo_journal_env c None)]" "db_outbox d = [(?k, new_dispatch 5)]" "db_journal d = demo_run_journal"
    and run: "admission_run demo_journal_env (empty_admission demo_run_journal) d" by (rule demo_admitted)
  have q: "map_of (db_outbox d) ?k = Some (new_dispatch 5)" "map_of (db_records d) ?k = Some (record_of demo_journal_env c None)"
    by (simp_all add: d)
  have r: "dw_state (new_dispatch 5) = DPending \<and> dw_available_at (new_dispatch 5) \<le> ax_now demo_quiet 2 \<or>
      dw_state (new_dispatch 5) = DLeased \<and> (\<exists>u. dw_leased_until (new_dispatch 5) = Some u \<and> u \<le> ax_now demo_quiet 2)"
    by (simp add: new_dispatch_def)
  from ready_command_is_claimed [OF demo_journal_env_ok run demo_quiet(1) demo_claim_asked(1) [OF a] q r j [folded d(3)] demo_only_command [OF d(1)]]
  show "\<exists>d r. demo_claim = (d, Inr (Some r)) \<and> dk_owner_id (dm_token r) = ''d1'' \<and> 1 \<le> dk_generation (dm_token r)"
    unfolding demo_claim_def a by auto
  obtain c' d' where b: "demo_claim = (d', Inr (Some \<lparr>dm_token = demo_dispatch_token, dm_command = c', dm_attempt = 1\<rparr>))"
    and w: "map_of (db_outbox d') ?k = Some (claim_row ''d1'' ''c1'' 30000005 (new_dispatch 5))"
    and d': "db_records d' = [(?k, record_of demo_journal_env c' None)]" "db_journal d' = demo_run_journal"
    and run': "admission_run demo_journal_env (empty_admission demo_run_journal) d'" by (rule demo_claimed)
  have q': "map_of (db_records d') ?k = Some (record_of demo_journal_env c' None)" by (simp add: d')
  let ?w = "claim_row ''d1'' ''c1'' 30000005 (new_dispatch 5)"
  have r': "dw_state ?w = DPending \<and> dw_available_at ?w \<le> ax_now demo_reclaim_tx 2 \<or>
      dw_state ?w = DLeased \<and> (\<exists>u. dw_leased_until ?w = Some u \<and> u \<le> ax_now demo_reclaim_tx 2)"
    by (simp add: claim_row_def demo_reclaim)
  note ask = demo_reclaim_asked [OF reached_ok [OF demo_journal_env_ok run'] d'(1) w]
  from ready_command_is_claimed [OF demo_journal_env_ok run' demo_reclaim(1) ask w q' r' j [folded d'(2)] demo_only_command [OF d'(1)]]
  show "\<exists>d r. claim_dispatch demo_journal_env True demo_reclaim_tx ''d2'' ''c2'' (PInt 30) (fst demo_claim) = (d, Inr (Some r)) \<and>
      dk_owner_id (dm_token r) = ''d2'' \<and> 1 \<le> dk_generation (dm_token r)"
    unfolding b by auto
qed

theorem dispatch_is_ordered_witness:
  "\<exists>w. map_of (db_outbox (fst demo_claim)) (''r1'', ''cmd1'') = Some w \<and> dw_state w = DLeased \<and> dw_generation w = 1"
proof -
  obtain c d where a: "demo_admission = (d, Inr (plain_receipt c Prepared 0 [] []))"
    and run: "admission_run demo_journal_env (empty_admission demo_run_journal) d" by (rule demo_admitted)
  obtain c' d' where r: "demo_claim = (d', Inr (Some \<lparr>dm_token = demo_dispatch_token, dm_command = c', dm_attempt = 1\<rparr>))" by (rule demo_claimed)
  have q: "claim_dispatch demo_journal_env True demo_quiet ''d1'' ''c1'' (PInt 30) d =
      (d', Inr (Some \<lparr>dm_token = demo_dispatch_token, dm_command = c', dm_attempt = 1\<rparr>))"
    using r unfolding demo_claim_def a by simp
  from dispatch_is_ordered [OF demo_journal_env_ok run quiet_others [OF demo_quiet(1)] q]
  show ?thesis unfolding r by (auto simp: demo_dispatch_token_def token_key_def)
qed

theorem admission_is_idempotent_witness:
  "\<exists>p p'. snd demo_admission = Inr p \<and>
     snd (admit demo_journal_env True demo_quiet demo_command_request (fst demo_acknowledged)) = Inr p' \<and> ap_command p' = ap_command p"
proof -
  obtain c0 d0 where a0: "demo_admission = (d0, Inr (plain_receipt c0 Prepared 0 [] []))" by (rule demo_admitted)
  obtain c d where a: "demo_acknowledged = (d, Inr (plain_receipt c Dispatched 1 ''blob:x'' []))"
    and c: "command_at demo_journal_env d (''r1'', ''cmd1'') c None"
    and w: "map_of (db_outbox d) (''r1'', ''cmd1'') = Some (deliver_row ''blob:x'' 5 (claim_row ''d1'' ''c1'' 30000005 (new_dispatch 5)))"
    and d: "db_journal d = demo_run_journal" "admission_run demo_journal_env (empty_admission demo_run_journal) d" by (rule demo_delivered)
  have ok: "admission_ok demo_journal_env d" using reached_ok [OF demo_journal_env_ok d(2)] .
  have e: "admit demo_journal_env True demo_quiet demo_command_request d = (d, Inr (plain_receipt c Dispatched 1 ''blob:x'' []))"
    by (rule repeated_admission [OF demo_journal_env_ok ok demo_quiet(1) c [folded demo_request_ok(3,4)] _ w [folded demo_request_ok(3,4)]])
       (use c demo_request_same [of c] in \<open>simp_all add: demo_request_ok d lock_run_def demo_authority_def receipt_from_stored_def stored_view_def
          deliver_row_def claim_row_def new_dispatch_def dispatched_receipt POSTGRES_INTEGER_MAX_def command_at_def\<close>)
  have "admission_run demo_journal_env d0 d" using demo_later unfolding a a0 by simp
  from admission_is_idempotent [OF demo_journal_env_ok admission_run.start demo_request_ok(1) quiet_others [OF demo_quiet(1)]
      a0 [unfolded demo_admission_def] this demo_request_ok(1) quiet_others [OF demo_quiet(1)] e refl refl]
  show ?thesis unfolding a a0 using e by simp
qed

theorem spent_claim_is_fenced_witness:
  "fst (retry_dispatch demo_journal_env True demo_quiet demo_dispatch_token ''late'' (PInt 1) (fst demo_acknowledged)) = fst demo_acknowledged"
proof -
  obtain c d where a: "demo_acknowledged = (d, Inr (plain_receipt c Dispatched 1 ''blob:x'' []))"
    and w: "map_of (db_outbox d) (''r1'', ''cmd1'') = Some (deliver_row ''blob:x'' 5 (claim_row ''d1'' ''c1'' 30000005 (new_dispatch 5)))"
    and run: "admission_run demo_journal_env (empty_admission demo_run_journal) d" by (rule demo_delivered)
  obtain d2 r where q: "retry_dispatch demo_journal_env True demo_quiet demo_dispatch_token ''late'' (PInt 1) d = (d2, r)" by fastforce
  then have x: "settle_with demo_journal_env True demo_quiet demo_dispatch_token (RetryDispatch demo_dispatch_token ''late'' (PInt 1)) d = Some (d2, r)"
    by (simp add: settle_with_def)
  have k: "map_of (db_outbox d) (token_key demo_dispatch_token) = Some (deliver_row ''blob:x'' 5 (claim_row ''d1'' ''c1'' 30000005 (new_dispatch 5)))"
    using w by (simp add: demo_dispatch_token_def token_key_def)
  have "claim_spent demo_dispatch_token (deliver_row ''blob:x'' 5 (claim_row ''d1'' ''c1'' 30000005 (new_dispatch 5)))"
    by (simp add: claim_spent_def demo_dispatch_token_def deliver_row_def claim_row_def new_dispatch_def)
  from spent_claim_is_fenced [OF demo_journal_env_ok run k this admission_run.start quiet_others [OF demo_quiet(1)] x]
  show ?thesis unfolding a using q by simp
qed

theorem binding_is_final_and_serial_witness:
  "\<exists>c d m w. bind_activation demo_journal_env True demo_quiet c demo_token (fst demo_acknowledged) = (d, Inr m) \<and>
     command_at demo_journal_env d (''r1'', ''cmd1'') c (Some m) \<and> am_source_checkpoint_seq m = 3 \<and>
     map_of (db_outbox d) (''r1'', ''cmd1'') = Some w \<and> dw_state w = DDelivered"
proof -
  obtain c d where a: "demo_acknowledged = (d, Inr (plain_receipt c Dispatched 1 ''blob:x'' []))"
    and c: "command_at demo_journal_env d (''r1'', ''cmd1'') c None"
    and w: "map_of (db_outbox d) (''r1'', ''cmd1'') = Some (deliver_row ''blob:x'' 5 (claim_row ''d1'' ''c1'' 30000005 (new_dispatch 5)))"
    and d: "db_records d = [((''r1'', ''cmd1''), record_of demo_journal_env c None)]" "db_journal d = demo_run_journal" "ad_command_sequence c = 1"
    and run: "admission_run demo_journal_env (empty_admission demo_run_journal) d" by (rule demo_delivered)
  have k: "ad_run_id c = ''r1''" "ad_command_id c = ''cmd1''" and g: "good_command demo_journal_env c" using c by (simp_all add: command_at_def)
  obtain m where m: "checked_checkpoint_locked demo_journal_env demo_run_journal ''r1'' = Inr demo_checkpoint" "dget demo_checkpoint ''terminal'' \<noteq> PBool True"
    "activation_of demo_journal_env c demo_checkpoint = Inr m" "am_source_checkpoint_seq m = 3" by (rule demo_source [OF d(3) g])
  have "bind_activation demo_journal_env True demo_quiet c demo_token d = (bound_command demo_journal_env c m d, Inr m)"
    by (rule first_binding [OF demo_journal_env_ok reached_ok [OF demo_journal_env_ok run] demo_quiet(1) c w _ d(3) _ _ _ _ m(2,3)])
       (use demo_writer_current [of 5] m(1) in \<open>auto simp: deliver_row_def demo_facts k d split: if_splits\<close>)
  with binding_is_final_and_serial [OF demo_journal_env_ok run quiet_others [OF demo_quiet(1)] this admission_run.start] m(4) k
  show ?thesis unfolding a by auto
qed

end
