(* ===== verification/Path_Policy.thy ===== *)
theory Path_Policy
  imports Capability Safe_Evidence
begin

text \<open>
  The path permission policy of a run (\<open>permissions.py\<close>, \<open>workspace/paths.py\<close>, \<open>_policy_util.py\<close>):
  workspace paths and their lexical normal form, path patterns with their spellings in
  configuration, JSON and retained artifacts, and the checks of a policy. The glob matcher
  (\<open>pathspec\<close>) and the historical matcher of \<open>PurePosixPath\<close> are arguments. The quoted value at the end
  of a message is left out.
\<close>

section \<open>Strings\<close>

fun split_at :: "char \<Rightarrow> string \<Rightarrow> string list" where
  "split_at d [] = [[]]"
| "split_at d (c # s) = (if c = d then [] # split_at d s
     else (case split_at d s of x # xs \<Rightarrow> (c # x) # xs | [] \<Rightarrow> [[c]]))"

fun join_with :: "char \<Rightarrow> string list \<Rightarrow> string" where
  "join_with d [] = []"
| "join_with d [x] = x"
| "join_with d (x # y # xs) = x @ d # join_with d (y # xs)"

text \<open>\<open>s.rstrip()\<close> for a set of characters.\<close>

definition rstrip_by :: "(char \<Rightarrow> bool) \<Rightarrow> string \<Rightarrow> string" where
  "rstrip_by p s = rev (dropWhile p (rev s))"

definition is_control :: "char \<Rightarrow> bool" where
  "is_control c \<longleftrightarrow> (of_char c :: nat) < 32 \<or> (of_char c :: nat) = 127"

section \<open>Workspace paths\<close>

definition workspace_error :: "string \<Rightarrow> exn" where "workspace_error m = NativeAgentError m"

definition WINDOWS_INVALID_CHARS :: string where "WINDOWS_INVALID_CHARS = ''<>:'' @ [CHR 0x22] @ ''|?*''"

definition WINDOWS_RESERVED_NAMES :: "string list" where
  "WINDOWS_RESERVED_NAMES = [''CON'', ''PRN'', ''AUX'', ''NUL'', ''CONIN$'', ''CONOUT$''] @
     concat (map (\<lambda>c. [''COM'' @ [c], ''LPT'' @ [c]]) (''123456789'' @ [CHR 0xB9, CHR 0xB2, CHR 0xB3]))"

text \<open>\<open>upper\<close> on the letters the reserved names consist of.\<close>

definition ascii_upper :: "string \<Rightarrow> string" where
  "ascii_upper s = map (\<lambda>c. if (97::nat) \<le> of_char c \<and> of_char c \<le> (122::nat) then char_of ((of_char c :: nat) - 32) else c) s"

definition device_stem :: "string \<Rightarrow> string" where
  "device_stem part = ascii_upper (rstrip_by (\<lambda>c. c \<in> set '' .'') (hd (split_at CHR ''.'' part)))"

text \<open>\<open>^[^ .~]{1,6}~[0-9]+(?:\.[^ .]{1,3})?$\<close>\<close>

definition windows_short_name :: "string \<Rightarrow> bool" where
  "windows_short_name s =
     (let stem = takeWhile (\<lambda>c. c \<noteq> CHR ''~'') s; rest = drop (length stem + 1) s;
          digits = takeWhile is_digit_char rest; ext = drop (length digits) rest in
      CHR ''~'' \<in> set s \<and> 1 \<le> length stem \<and> length stem \<le> 6 \<and> list_all (\<lambda>c. c \<notin> set '' .'') stem \<and> digits \<noteq> [] \<and>
      (ext = [] \<or> (hd ext = CHR ''.'' \<and> 1 \<le> length (tl ext) \<and> length (tl ext) \<le> 3 \<and> list_all (\<lambda>c. c \<notin> set '' .'') (tl ext))))"

text \<open>\<open>nt\<close> tells whether the platform is Windows.\<close>

definition validate_workspace_segment :: "bool \<Rightarrow> string \<Rightarrow> unit res" where
  "validate_workspace_segment nt part =
     (if list_ex is_control part then Inl (workspace_error ''control characters are not allowed in workspace paths'')
      else if \<not> nt then Inr ()
      else if list_ex (\<lambda>c. c \<in> set WINDOWS_INVALID_CHARS) part then Inl (workspace_error ''invalid Windows workspace path'')
      else if str_endswith part ''.'' \<or> str_endswith part '' '' then Inl (workspace_error ''ambiguous Windows workspace path'')
      else if device_stem part \<in> set WINDOWS_RESERVED_NAMES then Inl (workspace_error ''reserved Windows device path'')
      else if windows_short_name part then Inl (workspace_error ''Windows short-name aliases are not allowed'')
      else Inr ())"

fun workspace_parts :: "bool \<Rightarrow> string list \<Rightarrow> string list res" where
  "workspace_parts nt [] = Inr []"
| "workspace_parts nt (p # ps) =
     (if p \<in> {[], ''.''} then workspace_parts nt ps
      else if p = ''..'' then Inl (workspace_error ''parent traversal is not allowed'')
      else res_bind (validate_workspace_segment nt p) (\<lambda>_. res_bind (workspace_parts nt ps) (\<lambda>qs. Inr (p # qs))))"

definition workspace_text :: "string option \<Rightarrow> string" where
  "workspace_text raw = (case raw of None \<Rightarrow> ''.'' | Some s \<Rightarrow> if s = [] then ''.''
     else map (\<lambda>c. if c = CHR 92 then CHR ''/'' else c) (normalize_text s))"

definition normalize_workspace_path :: "bool \<Rightarrow> string option \<Rightarrow> string res" where
  "normalize_workspace_path nt raw =
     (let v = workspace_text raw in
      if str_startswith v ''/'' \<or> (2 \<le> length v \<and> v ! 1 = CHR '':'') then Inl (workspace_error ''absolute paths are not allowed'')
      else res_bind (workspace_parts nt (split_at CHR ''/'' v)) (\<lambda>parts. Inr (if parts = [] then ''.'' else join_with CHR ''/'' parts)))"

section \<open>Patterns\<close>

text \<open>A pattern is a string, or one retained from an old artifact (\<open>_LegacyPathPattern\<close>).\<close>

datatype path_pattern = Current string | Legacy string

fun pattern_text :: "path_pattern \<Rightarrow> string" where
  "pattern_text (Current s) = s"
| "pattern_text (Legacy s) = s"

text \<open>The two matchers: the patterns \<open>pathspec\<close> compiles to, and \<open>PurePosixPath(path).match(pattern)\<close>.\<close>

record matchers =
  mt_lines :: "string list \<Rightarrow> (string \<Rightarrow> bool) res"
  mt_pure :: "string \<Rightarrow> string \<Rightarrow> bool res"

definition drive_prefix :: "string \<Rightarrow> bool" where
  "drive_prefix s = (case s of a # b # _ \<Rightarrow> b = CHR '':'' \<and>
     ((65::nat) \<le> of_char a \<and> of_char a \<le> (90::nat) \<or> (97::nat) \<le> of_char a \<and> of_char a \<le> (122::nat)) | _ \<Rightarrow> False)"

definition trimmed_segments :: "string \<Rightarrow> string list" where
  "trimmed_segments body = (let xs = split_at CHR ''/'' body in if last xs = [] then butlast xs else xs)"

definition canonical_body :: "bool \<Rightarrow> string \<Rightarrow> string option" where
  "canonical_body anchored body =
     (let wire = (\<not> anchored \<and> str_startswith body [CHR 92, CHR ''!'']); remaining = (if wire then drop 2 body else body);
          xs = trimmed_segments body; p = (if anchored then [CHR ''/''] else []) @ join_with CHR ''/'' xs in
      if (str_startswith body [CHR 92] \<and> \<not> wire) \<or> CHR 92 \<in> set remaining then None
      else if drive_prefix body then None
      else if xs = [] \<or> list_ex (\<lambda>x. x \<in> {[], ''.'', ''..''}) xs then None
      else if str_startswith p ''/'' \<and> strip_by (\<lambda>c. c \<in> {CHR ''/'', CHR '' '', CHR 9}) p = [] then None
      else if p = [] then None else Some p)"

definition canonical_pattern :: "string \<Rightarrow> string option" where
  "canonical_pattern s =
     (if str_startswith s ''//'' \<or> str_startswith s [CHR 92, CHR 92] then None
      else if str_startswith s ''/'' then canonical_body True (tl s)
      else canonical_body False (if str_startswith s ''./'' then drop 2 s else s))"

text \<open>The offset of the first segment that is not a dot.\<close>

function segment_offset :: "nat \<Rightarrow> string \<Rightarrow> nat" where
  "segment_offset n s =
     (let k = length (takeWhile (\<lambda>c. c = CHR ''/'') s); t = drop k s; seg = takeWhile (\<lambda>c. c \<noteq> CHR ''/'') t in
      if t = [] then n + length s
      else if seg \<noteq> ''.'' then n + k
      else segment_offset (n + k + 1) (drop 1 t))"
  by pat_completeness auto
termination by (relation "measure (\<lambda>(_, s). length s)") auto

declare segment_offset.simps [simp del]

definition first_pattern_segment_offset :: "string \<Rightarrow> nat" where
  "first_pattern_segment_offset s = segment_offset 0 s"

definition pathspec_pattern :: "string \<Rightarrow> string option res" where
  "pathspec_pattern s = (case canonical_pattern s of
      None \<Rightarrow> Inr None
    | Some p \<Rightarrow>
        if list_ex (\<lambda>c. c \<noteq> CHR '' '') (drop (length (rstrip_by is_space p)) p)
        then Inl (ValueError ''non-ASCII trailing whitespace is not supported in path patterns'')
        else let base = rstrip_by (\<lambda>c. c = CHR '' '') p; n = length p - length base;
                 q = (if 0 < n \<and> \<not> str_endswith base [CHR 92] then base @ concat (replicate n [CHR 92, CHR '' '']) else p) in
          Inr (Some (if str_startswith q ''!'' \<or> str_startswith q ''#'' then CHR 92 # q else q)))"

definition compiled :: "matchers \<Rightarrow> string list \<Rightarrow> (string \<Rightarrow> bool) res" where
  "compiled mt ps = res_bind (res_map pathspec_pattern ps) (\<lambda>cs. mt_lines mt (List.map_filter (\<lambda>c. c) cs))"

definition str_tuple :: "pyval \<Rightarrow> string list res" where
  "str_tuple v = (case (case v of PList xs \<Rightarrow> Some xs | PTuple xs \<Rightarrow> Some xs | _ \<Rightarrow> None) of
      None \<Rightarrow> Inl (ValueError ''expected an array of path patterns'')
    | Some xs \<Rightarrow>
        if list_ex (\<lambda>x. case x of PStr _ \<Rightarrow> False | _ \<Rightarrow> True) xs then Inl (ValueError ''expected an array of path patterns'')
        else let items = List.map_filter (\<lambda>x. case x of PStr s \<Rightarrow> Some s | _ \<Rightarrow> None) xs in
          if list_ex (\<lambda>s. str_strip s = []) items then Inl (ValueError ''empty path pattern is not allowed'') else Inr items)"

definition bang :: string where "bang = [CHR 92, CHR ''!'']"

definition checked_pattern :: "string \<Rightarrow> string res" where
  "checked_pattern s =
     (if list_ex is_control s then Inl (ValueError ''control characters are not allowed in path patterns'')
      else case canonical_pattern s of
        None \<Rightarrow> Inl (ValueError ''path pattern must name a workspace path'')
      | Some c \<Rightarrow> Inr c)"

fun validated_pattern :: "path_pattern \<Rightarrow> path_pattern res" where
  "validated_pattern (Legacy s) = Inr (Legacy (normalize_text s))"
| "validated_pattern (Current s) = res_bind (checked_pattern (normalize_text s)) (\<lambda>c.
     if str_startswith c bang
     then Inl (ValueError ''escaped leading ! is a configuration spelling; direct patterns use a literal leading !'')
     else Inr (Current (normalize_text s)))"

fun current_text :: "path_pattern \<Rightarrow> string option" where
  "current_text (Current s) = Some s"
| "current_text (Legacy s) = None"

fun is_pattern_error :: "exn \<Rightarrow> bool" where
  "is_pattern_error (RegexError _) = True"
| "is_pattern_error e = is_value_error e"

definition validate_internal_path_patterns :: "matchers \<Rightarrow> path_pattern list \<Rightarrow> path_pattern list res" where
  "validate_internal_path_patterns mt ps =
     (if list_ex (\<lambda>p. str_strip (pattern_text p) = []) ps then Inl (ValueError ''empty path pattern is not allowed'')
      else res_bind (res_map validated_pattern ps) (\<lambda>qs.
        case compiled mt (List.map_filter current_text qs) of
          Inl e \<Rightarrow> Inl (if is_pattern_error e then ValueError ''invalid path pattern'' else e)
        | Inr _ \<Rightarrow> Inr qs))"

definition without_char :: "nat \<Rightarrow> string \<Rightarrow> string" where
  "without_char n s = take n s @ drop (n + 1) s"

definition parsed_pattern :: "string \<Rightarrow> string res" where
  "parsed_pattern s = res_bind (checked_pattern s) (\<lambda>c.
     if str_startswith c bang then Inr (without_char (first_pattern_segment_offset s) s)
     else if str_startswith c ''!'' then Inl (ValueError ''negated path patterns are not supported (pattern order would decide the result)'')
     else Inr s)"

definition parse_patterns :: "matchers \<Rightarrow> string list \<Rightarrow> path_pattern list res" where
  "parse_patterns mt ss = res_bind (res_map parsed_pattern ss) (\<lambda>qs. validate_internal_path_patterns mt (map Current qs))"

definition or_empty :: "pyval \<Rightarrow> pyval" where "or_empty v = (if v = PNone then PTuple [] else v)"

definition parse_path_patterns :: "matchers \<Rightarrow> pyval \<Rightarrow> path_pattern list res" where
  "parse_path_patterns mt raw = res_bind (str_tuple (or_empty raw)) (parse_patterns mt)"

section \<open>Spellings\<close>

definition PATH_PATTERN_ENCODING_FIELD :: string where "PATH_PATTERN_ENCODING_FIELD = ''path_pattern_encoding''"
definition PATH_PATTERN_ENCODING_LITERAL_BANG :: string where "PATH_PATTERN_ENCODING_LITERAL_BANG = ''monoid.literal-bang.v1''"

text \<open>The encoding marker: whether it is present.\<close>

definition path_pattern_encoding :: "pydict \<Rightarrow> bool res" where
  "path_pattern_encoding d = (case map_of d PATH_PATTERN_ENCODING_FIELD of
      None \<Rightarrow> Inr False
    | Some v \<Rightarrow> if v = PStr PATH_PATTERN_ENCODING_LITERAL_BANG then Inr True
        else Inl (ValueError ''unsupported path pattern encoding''))"

text \<open>Whether the first segment, at the root or behind a dot, starts with the given text.\<close>

definition leads_with :: "string \<Rightarrow> string \<Rightarrow> bool" where
  "leads_with s x = (let m = first_pattern_segment_offset s in take m s \<in> {[], ''./''} \<and> str_startswith (drop m s) x)"

definition escape_bang :: "string \<Rightarrow> string" where
  "escape_bang s = (let m = first_pattern_segment_offset s in if leads_with s ''!'' then take m s @ CHR 92 # drop m s else s)"

definition marked_pattern :: "string \<Rightarrow> string res" where
  "marked_pattern s = (if leads_with s bang
     then Inl (ValueError ''marked path patterns use a raw leading !; the escaped spelling is legacy-ambiguous'')
     else Inr (escape_bang s))"

definition parse_serialized_path_patterns :: "matchers \<Rightarrow> pyval \<Rightarrow> bool \<Rightarrow> path_pattern list res" where
  "parse_serialized_path_patterns mt raw marked =
     (if \<not> marked then parse_path_patterns mt raw
      else res_bind (str_tuple (or_empty raw)) (\<lambda>ss.
           res_bind (res_map marked_pattern ss) (\<lambda>ms. parse_path_patterns mt (PTuple (map PStr ms)))))"

text \<open>A pattern the current grammar cannot represent, kept for the historical matcher.\<close>

definition retained :: "matchers \<Rightarrow> string \<Rightarrow> path_pattern list res" where
  "retained mt s = (case mt_pure mt ''compatibility/sentinel'' s of
      Inl e \<Rightarrow> Inl (ValueError ''invalid retained path pattern'')
    | Inr _ \<Rightarrow> Inr [Legacy s])"

definition durable_pattern :: "matchers \<Rightarrow> string \<Rightarrow> path_pattern list res" where
  "durable_pattern mt s =
     (if leads_with s bang then retained mt s
      else case parse_path_patterns mt (PTuple [PStr (escape_bang s)]) of
        Inl e \<Rightarrow> if is_value_error e then retained mt s else Inl e
      | Inr ps \<Rightarrow> Inr ps)"

definition parse_durable_path_patterns :: "matchers \<Rightarrow> pyval \<Rightarrow> path_pattern list res" where
  "parse_durable_path_patterns mt raw = res_bind (str_tuple (or_empty raw)) (\<lambda>ss.
     res_bind (res_map (durable_pattern mt) ss) (\<lambda>pss. Inr (concat pss)))"

fun serialized_pattern :: "path_pattern \<Rightarrow> string res" where
  "serialized_pattern (Legacy s) = Inr s"
| "serialized_pattern (Current s) = (if canonical_pattern s = None
     then Inl (ValueError ''path pattern must name a workspace path'') else Inr s)"

definition serialize_path_patterns :: "path_pattern list \<Rightarrow> pyval res" where
  "serialize_path_patterns ps = res_bind (res_map serialized_pattern ps) (\<lambda>ss. Inr (PList (map PStr ss)))"

fun needs_marker :: "path_pattern \<Rightarrow> bool" where
  "needs_marker (Legacy s) = leads_with s bang"
| "needs_marker (Current s) = (case canonical_pattern s of None \<Rightarrow> False | Some c \<Rightarrow> str_startswith c ''!'')"

definition path_patterns_need_encoding_marker :: "path_pattern list \<Rightarrow> path_pattern list \<Rightarrow> bool" where
  "path_patterns_need_encoding_marker xs ys \<longleftrightarrow> list_ex needs_marker xs \<or> list_ex needs_marker ys"

section \<open>Matching\<close>

fun any_pure_match :: "matchers \<Rightarrow> string \<Rightarrow> path_pattern list \<Rightarrow> bool res" where
  "any_pure_match mt path [] = Inr False"
| "any_pure_match mt path (Current _ # ps) = any_pure_match mt path ps"
| "any_pure_match mt path (Legacy s # ps) = res_bind (mt_pure mt path s) (\<lambda>b. if b then Inr True else any_pure_match mt path ps)"

definition matches_path_patterns :: "matchers \<Rightarrow> bool \<Rightarrow> string \<Rightarrow> path_pattern list \<Rightarrow> bool res" where
  "matches_path_patterns mt nt rel ps =
     (let current = List.map_filter current_text ps in
      if ps = [] then Inr False
      else if list_ex (\<lambda>s. canonical_pattern s = None \<and> \<not> (str_startswith s ''/'' \<or> str_startswith s [CHR 92, CHR 92])) current
      then Inl (ValueError ''path pattern must name a workspace path'')
      else if list_ex (list_ex is_control) current then Inl (ValueError ''control characters are not allowed in path patterns'')
      else res_bind (normalize_workspace_path nt (Some rel)) (\<lambda>path.
        if path = ''.'' then Inr False
        else res_bind (if current = [] then Inr False else res_bind (compiled mt current) (\<lambda>m. Inr (m path))) (\<lambda>b.
          if b then Inr True else any_pure_match mt path ps)))"

section \<open>The policy\<close>

record permission_policy =
  pp_deny_patterns :: "path_pattern list"
  pp_redact_patterns :: "path_pattern list"

definition make_policy :: "matchers \<Rightarrow> path_pattern list \<Rightarrow> path_pattern list \<Rightarrow> permission_policy res" where
  "make_policy mt deny redact =
     res_bind (validate_internal_path_patterns mt deny) (\<lambda>d.
     res_bind (validate_internal_path_patterns mt redact) (\<lambda>r. Inr \<lparr>pp_deny_patterns = d, pp_redact_patterns = r\<rparr>))"

definition policy_is_default :: "permission_policy \<Rightarrow> bool" where
  "policy_is_default p \<longleftrightarrow> pp_deny_patterns p = [] \<and> pp_redact_patterns p = []"

definition policy_reader :: "(matchers \<Rightarrow> pyval \<Rightarrow> bool \<Rightarrow> path_pattern list res) \<Rightarrow> matchers \<Rightarrow> pyval \<Rightarrow> permission_policy res" where
  "policy_reader parse mt payload = (case payload of
      PNone \<Rightarrow> make_policy mt [] []
    | PDict d \<Rightarrow> res_bind (path_pattern_encoding d) (\<lambda>marked.
        res_bind (parse mt (dget d ''deny_patterns'') marked) (\<lambda>deny.
        res_bind (parse mt (dget d ''redact_patterns'') marked) (\<lambda>redact. make_policy mt deny redact)))
    | _ \<Rightarrow> Inl (ValueError ''permission_policy must be an object''))"

definition policy_from_json :: "matchers \<Rightarrow> pyval \<Rightarrow> permission_policy res" where
  "policy_from_json = policy_reader parse_serialized_path_patterns"

definition policy_from_durable_json :: "matchers \<Rightarrow> pyval \<Rightarrow> permission_policy res" where
  "policy_from_durable_json = policy_reader (\<lambda>mt raw marked. parse_durable_path_patterns mt raw)"

definition policy_to_json :: "permission_policy \<Rightarrow> pydict res" where
  "policy_to_json p =
     res_bind (serialize_path_patterns (pp_deny_patterns p)) (\<lambda>deny.
     res_bind (serialize_path_patterns (pp_redact_patterns p)) (\<lambda>redact.
     Inr ([(''deny_patterns'', deny), (''redact_patterns'', redact)] @
       (if path_patterns_need_encoding_marker (pp_deny_patterns p) (pp_redact_patterns p)
        then [(PATH_PATTERN_ENCODING_FIELD, PStr PATH_PATTERN_ENCODING_LITERAL_BANG)] else []))))"

text \<open>\<open>dedupe\<close>: a retained pattern compares equal to a string of the same text.\<close>

fun dedupe_patterns :: "path_pattern list \<Rightarrow> path_pattern list" where
  "dedupe_patterns [] = []"
| "dedupe_patterns (p # ps) = p # filter (\<lambda>q. pattern_text q \<noteq> pattern_text p) (dedupe_patterns ps)"

definition merged :: "matchers \<Rightarrow> permission_policy \<Rightarrow> string list \<Rightarrow> string list \<Rightarrow> permission_policy res" where
  "merged mt p deny redact =
     res_bind (parse_path_patterns mt (PTuple (map PStr deny))) (\<lambda>d.
     res_bind (parse_path_patterns mt (PTuple (map PStr redact))) (\<lambda>r.
     make_policy mt (dedupe_patterns (pp_deny_patterns p @ d)) (dedupe_patterns (pp_redact_patterns p @ r))))"

datatype permission_operation = ReadOp | WriteOp | ArtifactOp | RunOp

fun operation_name :: "permission_operation \<Rightarrow> string" where
  "operation_name ReadOp = ''read''"
| "operation_name WriteOp = ''write''"
| "operation_name ArtifactOp = ''artifact''"
| "operation_name RunOp = ''run''"

definition is_path_denied :: "matchers \<Rightarrow> bool \<Rightarrow> permission_policy \<Rightarrow> string \<Rightarrow> bool res" where
  "is_path_denied mt nt p rel = matches_path_patterns mt nt rel (pp_deny_patterns p)"

definition is_path_redacted :: "matchers \<Rightarrow> bool \<Rightarrow> permission_policy \<Rightarrow> string \<Rightarrow> bool res" where
  "is_path_redacted mt nt p rel = matches_path_patterns mt nt rel (pp_redact_patterns p)"

fun check_each_path :: "matchers \<Rightarrow> bool \<Rightarrow> permission_policy \<Rightarrow> permission_operation \<Rightarrow> string list \<Rightarrow> unit res" where
  "check_each_path mt nt p op [] = Inr ()"
| "check_each_path mt nt p op (raw # paths) =
     res_bind (normalize_workspace_path nt (Some raw)) (\<lambda>rel.
     res_bind (is_path_denied mt nt p rel) (\<lambda>denied.
     if denied then Inl (PermissionDenied (operation_name op @ '' denied for path: '' @ rel))
     else check_each_path mt nt p op paths))"

definition check_paths :: "matchers \<Rightarrow> bool \<Rightarrow> permission_policy \<Rightarrow> permission_operation \<Rightarrow> string list \<Rightarrow> unit res" where
  "check_paths mt nt p op paths = (if op \<in> {ArtifactOp, RunOp} then Inr () else check_each_path mt nt p op paths)"

section \<open>Segments\<close>

lemma split_at_ne [simp]: "split_at d s \<noteq> []"
  by (cases s) (auto split: list.split)

lemma hd_split: "hd (split_at d s) = takeWhile (\<lambda>c. c \<noteq> d) s"
  by (induction s) (auto split: list.split)

lemma join_Cons: "xs \<noteq> [] \<Longrightarrow> join_with d (x # xs) = x @ d # join_with d xs"
  by (cases xs) auto

lemma join_push: "join_with d ((c # x) # xs) = c # join_with d (x # xs)"
  by (cases xs) auto

lemma join_split [simp]: "join_with d (split_at d s) = s"
proof (induction s)
  case (Cons c s)
  then show ?case by (cases "split_at d s") (auto simp: join_Cons join_push)
qed simp

lemma join_snoc: "xs \<noteq> [] \<Longrightarrow> join_with d (xs @ [[]]) = join_with d xs @ [d]"
proof (induction xs)
  case (Cons x xs)
  then show ?case by (cases "xs = []") (auto simp: join_Cons)
qed simp

lemma split_segments: "x \<in> set (split_at d s) \<Longrightarrow> d \<notin> set x"
  by (induction s arbitrary: x) (auto split: if_splits list.splits)

lemma split_join: "xs \<noteq> [] \<Longrightarrow> \<forall>x \<in> set xs. d \<notin> set x \<Longrightarrow> split_at d (join_with d xs) = xs"
proof (induction xs)
  case (Cons x xs)
  have app: "d \<notin> set x \<Longrightarrow> split_at d (x @ d # y) = x # split_at d y" for y by (induction x) auto
  have alone: "d \<notin> set x \<Longrightarrow> split_at d x = [x]" by (induction x) auto
  show ?case using Cons app alone by (cases "xs = []") (auto simp: join_Cons)
qed simp

lemma trimmed_join:
  assumes "trimmed_segments b \<noteq> []"
  shows "b = join_with CHR ''/'' (trimmed_segments b) \<or> b = join_with CHR ''/'' (trimmed_segments b) @ ''/''"
    and "hd (trimmed_segments b) = takeWhile (\<lambda>c. c \<noteq> CHR ''/'') b"
proof -
  let ?xs = "split_at CHR ''/'' b"
  have b: "b = join_with CHR ''/'' ?xs" by simp
  show "b = join_with CHR ''/'' (trimmed_segments b) \<or> b = join_with CHR ''/'' (trimmed_segments b) @ ''/''"
  proof (cases "last ?xs = []")
    case True
    then have t: "trimmed_segments b = butlast ?xs" by (simp add: trimmed_segments_def)
    have "?xs = butlast ?xs @ [[]]" using True by (metis append_butlast_last_id split_at_ne)
    then have "b = join_with CHR ''/'' (butlast ?xs @ [[]])" using b by simp
    with assms t show ?thesis by (simp add: join_snoc)
  qed (simp add: trimmed_segments_def)
  show "hd (trimmed_segments b) = takeWhile (\<lambda>c. c \<noteq> CHR ''/'') b"
    using assms unfolding trimmed_segments_def Let_def hd_split [symmetric]
    by (auto split: if_splits) (metis append_butlast_last_id hd_append2 split_at_ne)
qed

lemma canonical_body_shape:
  assumes "canonical_body a b = Some c"
  obtains q where "c = (if a then ''/'' else []) @ q" "b = q \<or> b = q @ ''/''" "q \<noteq> []" "takeWhile (\<lambda>c. c \<noteq> CHR ''/'') b \<notin> {[], ''.''}"
    "str_startswith b [CHR 92] \<longrightarrow> \<not> a \<and> str_startswith b bang"
proof -
  let ?xs = "trimmed_segments b"
  have xs: "?xs \<noteq> []" "\<not> list_ex (\<lambda>x. x \<in> {[], ''.'', ''..''}) ?xs" and c: "c = (if a then ''/'' else []) @ join_with CHR ''/'' ?xs"
    and e: "str_startswith b [CHR 92] \<longrightarrow> \<not> a \<and> str_startswith b bang"
    using assms by (auto simp: canonical_body_def Let_def bang_def split: if_splits)
  note T = trimmed_join [OF xs(1)]
  have "hd ?xs \<notin> {[], ''.''}" using xs by (cases ?xs) auto
  then have h: "takeWhile (\<lambda>c. c \<noteq> CHR ''/'') b \<notin> {[], ''.''}" unfolding T(2) .
  have "join_with CHR ''/'' ?xs \<noteq> []" using T(1) h by (cases "join_with CHR ''/'' ?xs") auto
  with that [OF c T(1) _ h e] show thesis by blast
qed

lemma offset_here:
  assumes "takeWhile (\<lambda>c. c \<noteq> CHR ''/'') b \<notin> {[], ''.''}"
  shows "segment_offset n b = n"
proof -
  obtain x b' where "b = x # b'" "x \<noteq> CHR ''/''" using assms by (cases b) (auto split: if_splits)
  then show ?thesis using assms by (subst segment_offset.simps) (auto simp: Let_def)
qed

lemma offset_behind:
  assumes "takeWhile (\<lambda>c. c \<noteq> CHR ''/'') b \<notin> {[], ''.''}"
  shows "segment_offset n (CHR ''/'' # b) = n + 1"
proof -
  obtain x b' where "b = x # b'" "x \<noteq> CHR ''/''" using assms by (cases b) (auto split: if_splits)
  then show ?thesis using assms by (subst segment_offset.simps) (auto simp: Let_def)
qed

lemma offset_dot:
  assumes "takeWhile (\<lambda>c. c \<noteq> CHR ''/'') b \<notin> {[], ''.''}"
  shows "segment_offset n (''./'' @ b) = n + 2"
  using offset_behind [OF assms, of "n + 1"] by (subst segment_offset.simps) (simp add: Let_def)

text \<open>A pattern with a canonical form is anchored, or its first segment comes at once or behind a dot.\<close>

lemma canonical_shape:
  assumes "canonical_pattern s = Some c"
  obtains (anchored) "first_pattern_segment_offset s = 1" "take 1 s = ''/''" "str_startswith c ''/''"
    | (relative) pre b where "pre \<in> {[], ''./''}" "s = pre @ b" "first_pattern_segment_offset s = length pre" "canonical_body False b = Some c"
proof (cases "str_startswith s ''/''")
  case True
  then obtain b where s: "s = CHR ''/'' # b" by (cases s) auto
  with assms have b: "canonical_body True b = Some c" by (auto simp: canonical_pattern_def split: if_splits)
  from canonical_body_shape [OF this] obtain q where "c = ''/'' @ q" "takeWhile (\<lambda>c. c \<noteq> CHR ''/'') b \<notin> {[], ''.''}" by auto
  with anchored s offset_behind [of b 0] show thesis by (simp add: first_pattern_segment_offset_def)
next
  case False
  let ?b = "if str_startswith s ''./'' then drop 2 s else s"
  have b: "canonical_body False ?b = Some c" using assms False by (auto simp: canonical_pattern_def split: if_splits)
  from canonical_body_shape [OF b] have h: "takeWhile (\<lambda>c. c \<noteq> CHR ''/'') ?b \<notin> {[], ''.''}" by blast
  show thesis
  proof (cases "str_startswith s ''./''")
    case True
    then obtain b' where s: "s = ''./'' @ b'" by (cases s; cases "tl s") auto
    with relative [of "''./''" b'] b h offset_dot [of b' 0] show thesis by (simp add: first_pattern_segment_offset_def)
  next
    case no: False
    with relative [of "[]" s] b h offset_here [of s 0] show thesis by (simp add: first_pattern_segment_offset_def)
  qed
qed

section \<open>Spellings are read back\<close>

lemma starts_Cons [simp]: "str_startswith s [x] \<longleftrightarrow> (\<exists>t. s = x # t)"
  by (cases s) auto

lemma starts_bang: "str_startswith s bang \<longleftrightarrow> (\<exists>t. s = CHR 92 # CHR ''!'' # t)"
  by (cases s; cases "tl s") (auto simp: bang_def)

lemma body_leads:
  assumes "canonical_body False b = Some c"
  shows "str_startswith c ''!'' \<longleftrightarrow> str_startswith b ''!''" "str_startswith c bang \<longleftrightarrow> str_startswith b bang"
proof -
  from canonical_body_shape [OF assms] obtain q where "c = q" "b = q \<or> b = q @ ''/''" "q \<noteq> []"
    "str_startswith b [CHR 92] \<longrightarrow> str_startswith b bang" by auto
  then show "str_startswith c ''!'' \<longleftrightarrow> str_startswith b ''!''" "str_startswith c bang \<longleftrightarrow> str_startswith b bang"
    by (cases q; cases "tl q"; auto simp: starts_bang)+
qed

lemma trimmed_push:
  assumes "x \<noteq> CHR ''/''" and "trimmed_segments b \<noteq> []" and "hd (trimmed_segments b) \<noteq> []"
  shows "trimmed_segments (x # b) = (x # hd (trimmed_segments b)) # tl (trimmed_segments b)"
proof -
  obtain y ys where xs: "split_at CHR ''/'' b = y # ys" by (cases "split_at CHR ''/'' b") auto
  then have s: "split_at CHR ''/'' (x # b) = (x # y) # ys" using assms(1) by simp
  show ?thesis
  proof (cases "ys = []")
    case True
    with xs s assms show ?thesis by (auto simp: trimmed_segments_def Let_def split: if_splits)
  next
    case False
    with xs s show ?thesis by (simp add: trimmed_segments_def Let_def)
  qed
qed

lemma canonical_escaped:
  assumes "canonical_body False b = Some c" and "str_startswith b ''!''"
  shows "canonical_body False (CHR 92 # b) = Some (CHR 92 # c)"
proof -
  let ?t = "trimmed_segments b"
  obtain r where b: "b = CHR ''!'' # r" using assms(2) by auto
  have t: "?t \<noteq> []" "\<not> list_ex (\<lambda>x. x \<in> {[], ''.'', ''..''}) ?t" "CHR 92 \<notin> set b" "c = join_with CHR ''/'' ?t"
    using assms(1) by (auto simp: canonical_body_def Let_def b split: if_splits)
  have h: "hd ?t \<noteq> []" using t(1,2) by (cases ?t) auto
  note p = trimmed_push [OF _ t(1) h, of "CHR 92"]
  have j: "join_with CHR ''/'' ((CHR 92 # hd ?t) # tl ?t) = CHR 92 # c" using t(1,4) by (cases ?t) (simp_all add: join_push)
  have "\<not> list_ex (\<lambda>x. x \<in> {[], ''.'', ''..''}) ((CHR 92 # hd ?t) # tl ?t)" using t(1,2) by (cases ?t) auto
  then show ?thesis using t(3) p j by (simp add: canonical_body_def Let_def b drive_prefix_def)
qed

text \<open>The texts the constructor accepts.\<close>

definition valid_text :: "string \<Rightarrow> bool" where
  "valid_text s \<longleftrightarrow> (\<exists>c. checked_pattern s = Inr c \<and> \<not> str_startswith c bang)"

lemma validated_iff: "validated_pattern (Current s) = Inr p \<longleftrightarrow> valid_text s \<and> p = Current s"
  by (auto simp: valid_text_def res_bind_eq_Inr split: if_splits)

lemma reparse:
  assumes "valid_text s"
  shows "\<not> leads_with s bang" "parsed_pattern (escape_bang s) = Inr s" "\<not> needs_marker (Current s) \<Longrightarrow> parsed_pattern s = Inr s"
    "canonical_pattern s \<noteq> None"
proof -
  from assms obtain c where c: "canonical_pattern s = Some c" "\<not> str_startswith c bang" "\<not> list_ex is_control s"
    by (auto simp: valid_text_def checked_pattern_def split: if_splits option.splits)
  have plain: "parsed_pattern s = Inr s" if "\<not> str_startswith c ''!''"
    using that c by (simp add: parsed_pattern_def checked_pattern_def)
  then show "\<not> needs_marker (Current s) \<Longrightarrow> parsed_pattern s = Inr s" using c(1) by simp
  show "canonical_pattern s \<noteq> None" using c(1) by simp
  show "\<not> leads_with s bang" using c(1)
  proof (cases rule: canonical_shape)
    case anchored
    then show ?thesis by (auto simp: leads_with_def)
  next
    case (relative pre b)
    then show ?thesis using body_leads(2) [OF relative(4)] c(2) by (simp add: leads_with_def)
  qed
  show "parsed_pattern (escape_bang s) = Inr s" using c(1)
  proof (cases rule: canonical_shape)
    case anchored
    then have "escape_bang s = s" "\<not> str_startswith c ''!''" by (auto simp: escape_bang_def leads_with_def)
    with plain show ?thesis by simp
  next
    case (relative pre b)
    show ?thesis
    proof (cases "str_startswith b ''!''")
      case False
      then have "escape_bang s = s" using relative by (simp add: escape_bang_def leads_with_def)
      with plain False body_leads(1) [OF relative(4)] show ?thesis by simp
    next
      case True
      note e = canonical_escaped [OF relative(4) True]
      have w: "escape_bang s = pre @ CHR 92 # b" using True relative by (simp add: escape_bang_def leads_with_def)
      have k: "canonical_pattern (pre @ CHR 92 # b) = Some (CHR 92 # c)"
        using relative(1) e True by (auto simp: canonical_pattern_def)
      have x: "str_startswith (CHR 92 # c) bang" using True body_leads(1) [OF relative(4)] by (auto simp: starts_bang)
      have h: "takeWhile (\<lambda>c. c \<noteq> CHR ''/'') (CHR 92 # b) \<notin> {[], ''.''}" by simp
      have "first_pattern_segment_offset (pre @ CHR 92 # b) = length pre"
        using relative(1) offset_here [OF h, of 0] offset_dot [OF h, of 0] by (auto simp: first_pattern_segment_offset_def)
      moreover have "\<not> list_ex is_control (pre @ CHR 92 # b)" using c(3) relative(2) by (simp add: is_control_def)
      moreover have "without_char (length pre) (pre @ CHR 92 # b) = s" unfolding relative(2) by (simp add: without_char_def)
      ultimately show ?thesis unfolding w parsed_pattern_def checked_pattern_def k by (simp only: x option.case res_bind_Inr if_True if_False)
    qed
  qed
qed

lemma str_tuple_texts: "str_tuple (PTuple (map PStr ss)) = (if list_ex (\<lambda>s. str_strip s = []) ss then Inl (ValueError ''empty path pattern is not allowed'') else Inr ss)"
  "str_tuple (PList (map PStr ss)) = str_tuple (PTuple (map PStr ss))"
proof -
  have "list_ex (\<lambda>x. case x of PStr _ \<Rightarrow> False | _ \<Rightarrow> True) (map PStr ss) = False" by (induction ss) auto
  moreover have "List.map_filter (\<lambda>x. case x of PStr s \<Rightarrow> Some s | _ \<Rightarrow> None) (map PStr ss) = ss" by (induction ss) (auto simp: List.map_filter_simps)
  ultimately show "str_tuple (PTuple (map PStr ss)) = (if list_ex (\<lambda>s. str_strip s = []) ss then Inl (ValueError ''empty path pattern is not allowed'') else Inr ss)"
    "str_tuple (PList (map PStr ss)) = str_tuple (PTuple (map PStr ss))" by (simp_all add: str_tuple_def Let_def)
qed

lemma or_empty_lists [simp]: "or_empty (PTuple xs) = PTuple xs" "or_empty (PList xs) = PList xs"
  by (simp_all add: or_empty_def)



section \<open>Reading policies back\<close>

lemma strip_nonempty: "c \<in> set s \<Longrightarrow> \<not> is_space c \<Longrightarrow> str_strip s \<noteq> []"
proof
  assume c: "c \<in> set s" "\<not> is_space c" and "str_strip s = []"
  then have "\<forall>x \<in> set (dropWhile is_space s). is_space x" by (simp add: str_strip_def strip_by_def)
  then have "dropWhile is_space s = []" using hd_dropWhile [of is_space s] by (metis list.set_sel(1))
  with c show False by simp
qed

lemma escape_nonblank: "str_strip s \<noteq> [] \<Longrightarrow> str_strip (escape_bang s) \<noteq> []"
  using strip_nonempty [of "CHR 92" "take m s @ CHR 92 # drop m s" for m] by (auto simp: escape_bang_def Let_def is_space_def)

lemma validate_fixed:
  assumes "validate_internal_path_patterns mt ps = Inr qs"
  shows "qs = ps" "Current s \<in> set ps \<Longrightarrow> valid_text s" "p \<in> set ps \<Longrightarrow> str_strip (pattern_text p) \<noteq> []"
    "\<exists>m. compiled mt (List.map_filter current_text ps) = Inr m"
proof -
  have same: "validated_pattern p = Inr q \<Longrightarrow> q = p" for p q by (cases p) (auto simp: res_bind_eq_Inr split: if_splits)
  from assms obtain rs where r: "res_map validated_pattern ps = Inr rs" and b: "\<not> list_ex (\<lambda>p. str_strip (pattern_text p) = []) ps"
    by (auto simp: validate_internal_path_patterns_def res_bind_eq_Inr split: if_splits)
  with assms have c: "\<exists>m. compiled mt (List.map_filter current_text rs) = Inr m" "qs = rs"
    by (cases "compiled mt (List.map_filter current_text rs)"; simp add: validate_internal_path_patterns_def)+
  from r have l: "list_all2 (\<lambda>p q. validated_pattern p = Inr q) ps rs" by (simp add: res_map_Inr_iff)
  then have "list_all2 (=) ps rs" by (rule list.rel_mono_strong) (use same in auto)
  then have e: "rs = ps" by (simp add: list.rel_eq)
  show "qs = ps" using c(2) e by simp
  show "valid_text s" if "Current s \<in> set ps"
  proof -
    from l [unfolded e] that have "validated_pattern (Current s) = Inr (Current s)" by (auto simp: list_all2_same)
    then show ?thesis unfolding validated_iff by blast
  qed
  show "str_strip (pattern_text p) \<noteq> []" if "p \<in> set ps" using b that by (auto simp: list_ex_iff)
  show "\<exists>m. compiled mt (List.map_filter current_text ps) = Inr m" using c(1) e by simp
qed

lemma parse_texts:
  assumes "res_map parsed_pattern ws = Inr ss" and "validate_internal_path_patterns mt (map Current ss) = Inr (map Current ss)"
    and "\<forall>w \<in> set ws. str_strip w \<noteq> []"
  shows "parse_path_patterns mt (PTuple (map PStr ws)) = Inr (map Current ss)"
  using assms by (simp add: parse_path_patterns_def str_tuple_texts parse_patterns_def list_ex_iff)

lemma parse_path_result:
  assumes "parse_path_patterns mt (PTuple (map PStr ws)) = Inr ps"
  obtains ss where "ps = map Current ss" "res_map parsed_pattern ws = Inr ss" "validate_internal_path_patterns mt ps = Inr ps"
proof -
  from assms obtain ss where s: "res_map parsed_pattern ws = Inr ss" "validate_internal_path_patterns mt (map Current ss) = Inr ps"
    by (auto simp: parse_path_patterns_def str_tuple_texts parse_patterns_def res_bind_eq_Inr split: if_splits)
  have "ps = map Current ss" using validate_fixed(1) [OF s(2)] .
  with that s show thesis by simp
qed

lemma res_map_all: "(\<And>x. x \<in> set xs \<Longrightarrow> f x = Inr (g x)) \<Longrightarrow> res_map f xs = Inr (map g xs)"
  by (induction xs) auto

lemma serialize_valid:
  assumes "validate_internal_path_patterns mt ps = Inr ps"
  shows "serialize_path_patterns ps = Inr (PList (map PStr (map pattern_text ps)))"
proof -
  have "serialized_pattern p = Inr (pattern_text p)" if "p \<in> set ps" for p
    using validate_fixed(2) [OF assms] reparse(4) that by (cases p) auto
  then have "res_map serialized_pattern ps = Inr (map pattern_text ps)" by (rule res_map_all)
  then show ?thesis by (simp add: serialize_path_patterns_def)
qed

lemma serialized_reads_back:
  assumes v: "validate_internal_path_patterns mt (map Current ss) = Inr (map Current ss)"
    and m: "list_ex needs_marker (map Current ss) \<Longrightarrow> marked"
  shows "parse_serialized_path_patterns mt (PList (map PStr ss)) marked = Inr (map Current ss)"
proof -
  have ok: "valid_text s" "str_strip s \<noteq> []" if "s \<in> set ss" for s
    using validate_fixed(2,3) [OF v] that by force+
  have e: "parse_path_patterns mt (PList xs) = parse_path_patterns mt (PTuple xs)" for xs
    by (simp add: parse_path_patterns_def str_tuple_def)
  show ?thesis
  proof (cases marked)
    case True
    have "res_map marked_pattern ss = Inr (map escape_bang ss)" using ok reparse(1) by (intro res_map_all) (simp add: marked_pattern_def)
    moreover have "res_map parsed_pattern (map escape_bang ss) = Inr ss"
      using res_map_all [of ss "\<lambda>s. parsed_pattern (escape_bang s)" id] ok reparse(2) by (simp add: res_map_Inr_iff list_all2_map1)
    ultimately show ?thesis using True parse_texts [OF _ v, of "map escape_bang ss"] ok escape_nonblank
      by (simp add: parse_serialized_path_patterns_def str_tuple_texts list_ex_iff)
  next
    case False
    with m have n: "\<not> needs_marker (Current s)" if "s \<in> set ss" for s using that by (auto simp: list_ex_iff)
    have "res_map parsed_pattern ss = Inr ss" using res_map_all [of ss parsed_pattern id] ok reparse(3) n by simp
    from parse_texts [OF this v] ok False show ?thesis by (simp add: parse_serialized_path_patterns_def e)
  qed
qed

lemma durable_fixed:
  assumes "durable_pattern mt s = Inr ps" and "str_strip s \<noteq> []"
  obtains p where "ps = [p]" "durable_pattern mt (pattern_text p) = Inr [p]" "str_strip (pattern_text p) \<noteq> []"
proof (cases "\<exists>qs. \<not> leads_with s bang \<and> parse_path_patterns mt (PTuple [PStr (escape_bang s)]) = Inr qs")
  case True
  then have p: "parse_path_patterns mt (PTuple (map PStr [escape_bang s])) = Inr ps" and "\<not> leads_with s bang"
    using assms(1) by (auto simp: durable_pattern_def)
  from parse_path_result [OF p] obtain ss where s: "ps = map Current ss" "res_map parsed_pattern [escape_bang s] = Inr ss"
    and v: "validate_internal_path_patterns mt ps = Inr ps" by blast
  then obtain t where t: "ps = [Current t]" by (auto simp: res_bind_eq_Inr)
  have ok: "valid_text t" "str_strip t \<noteq> []" using validate_fixed(2,3) [OF v] t by force+
  have "res_map parsed_pattern [escape_bang t] = Inr [t]" using reparse(2) [OF ok(1)] by simp
  from parse_texts [OF this] v t escape_nonblank [OF ok(2)] have "parse_path_patterns mt (PTuple [PStr (escape_bang t)]) = Inr ps" by simp
  with that [OF t] reparse(1) [OF ok(1)] t ok(2) show thesis by (simp add: durable_pattern_def)
next
  case False
  then have "retained mt s = Inr ps" and d: "durable_pattern mt s = retained mt s"
    using assms(1) by (auto simp: durable_pattern_def split: if_splits sum.splits)
  moreover from this have "ps = [Legacy s]" by (auto simp: retained_def split: sum.splits)
  ultimately show thesis using that [of "Legacy s"] assms by simp
qed

lemma list_all2_right: "list_all2 P xs ys \<Longrightarrow> y \<in> set ys \<Longrightarrow> \<exists>x \<in> set xs. P x y"
  by (induction rule: list_all2_induct) auto

lemma durable_reads_back:
  assumes "parse_durable_path_patterns mt raw = Inr ps"
  shows "parse_durable_path_patterns mt (PList (map PStr (map pattern_text ps))) = Inr ps"
    and "p \<in> set ps \<Longrightarrow> durable_pattern mt (pattern_text p) = Inr [p]"
proof -
  from assms obtain ss pss where s: "str_tuple (or_empty raw) = Inr ss" "res_map (durable_pattern mt) ss = Inr pss" "ps = concat pss"
    by (auto simp: parse_durable_path_patterns_def res_bind_eq_Inr)
  from s(1) have b: "\<forall>x \<in> set ss. str_strip x \<noteq> []" by (auto simp: str_tuple_def Let_def list_ex_iff split: option.splits if_splits)
  have f: "durable_pattern mt (pattern_text p) = Inr [p] \<and> str_strip (pattern_text p) \<noteq> []" if "p \<in> set ps" for p
  proof -
    from that s(3) obtain qs where qs: "qs \<in> set pss" "p \<in> set qs" by auto
    from s(2) have "list_all2 (\<lambda>x y. durable_pattern mt x = Inr y) ss pss" by (simp add: res_map_Inr_iff)
    from list_all2_right [OF this qs(1)] obtain x where "x \<in> set ss" "durable_pattern mt x = Inr qs" by blast
    with b obtain q where "qs = [q]" "durable_pattern mt (pattern_text q) = Inr [q]" "str_strip (pattern_text q) \<noteq> []"
      using durable_fixed by blast
    with qs(2) show ?thesis by simp
  qed
  then show "p \<in> set ps \<Longrightarrow> durable_pattern mt (pattern_text p) = Inr [p]" by blast
  have "res_map (durable_pattern mt) (map pattern_text ps) = Inr (map (\<lambda>p. [p]) ps)"
    using res_map_all [of ps "\<lambda>p. durable_pattern mt (pattern_text p)" "\<lambda>p. [p]"] f by (simp add: res_map_Inr_iff list_all2_map1)
  then show "parse_durable_path_patterns mt (PList (map PStr (map pattern_text ps))) = Inr ps"
    using f unfolding parse_durable_path_patterns_def or_empty_lists str_tuple_texts by (simp add: list_ex_iff)
qed

lemma make_policy_iff:
  "make_policy mt d r = Inr p \<longleftrightarrow> validate_internal_path_patterns mt d = Inr d \<and> validate_internal_path_patterns mt r = Inr r \<and>
     p = \<lparr>pp_deny_patterns = d, pp_redact_patterns = r\<rparr>"
  using validate_fixed(1) [of mt d] validate_fixed(1) [of mt r] by (auto simp: make_policy_def res_bind_eq_Inr)

lemma durable_policy:
  assumes "policy_from_durable_json mt payload = Inr p"
  obtains d r where "validate_internal_path_patterns mt d = Inr d" "validate_internal_path_patterns mt r = Inr r"
    "p = \<lparr>pp_deny_patterns = d, pp_redact_patterns = r\<rparr>"
    "parse_durable_path_patterns mt (PList (map PStr (map pattern_text d))) = Inr d"
    "parse_durable_path_patterns mt (PList (map PStr (map pattern_text r))) = Inr r"
proof (cases payload)
  case PNone
  have e: "parse_durable_path_patterns mt (PList (map PStr (map pattern_text []))) = Inr []"
    by (simp add: parse_durable_path_patterns_def str_tuple_def)
  from assms PNone have "make_policy mt [] [] = Inr p" by (simp add: policy_from_durable_json_def policy_reader_def)
  with that [of "[]" "[]"] e show thesis unfolding make_policy_iff by simp
next
  case (PDict x)
  with assms obtain d r where "parse_durable_path_patterns mt (dget x ''deny_patterns'') = Inr d"
    "parse_durable_path_patterns mt (dget x ''redact_patterns'') = Inr r" "make_policy mt d r = Inr p"
    by (auto simp: policy_from_durable_json_def policy_reader_def res_bind_eq_Inr)
  with that [of d r] durable_reads_back(1) show thesis unfolding make_policy_iff by blast
qed (use assms in \<open>simp_all add: policy_from_durable_json_def policy_reader_def\<close>)

lemma policy_json_marker:
  assumes "policy_to_json p = Inr j"
  shows "path_pattern_encoding j = Inr (path_patterns_need_encoding_marker (pp_deny_patterns p) (pp_redact_patterns p))"
  using assms by (auto simp: policy_to_json_def path_pattern_encoding_def PATH_PATTERN_ENCODING_FIELD_def res_bind_eq_Inr)

text \<open>C40. A policy survives being written. The policy of a run, built from patterns in code or read from a
  retained artifact with whatever mixture of current and old spellings, is written as JSON that reads
  back as the same policy: no rule is lost, none changes its matcher, and a literal leading
  exclamation mark never turns into a negation.\<close>

theorem policy_survives_json:
  assumes "make_policy mt (map Current deny) (map Current redact) = Inr p" and "policy_from_durable_json mt payload = Inr p'"
  shows "(\<exists>j. policy_to_json p = Inr j \<and> policy_from_json mt (PDict j) = Inr p) \<and>
    (\<exists>j. policy_to_json p' = Inr j \<and> policy_from_durable_json mt (PDict j) = Inr p')"
proof
  note P = assms(1) [unfolded make_policy_iff]
  have d: "pp_deny_patterns p = map Current deny" "pp_redact_patterns p = map Current redact" using P by simp_all
  have t: "map pattern_text (map Current xs) = xs" for xs by (induction xs) simp_all
  obtain j where j: "policy_to_json p = Inr j"
    using serialize_valid P unfolding policy_to_json_def d by auto
  have g: "dget j ''deny_patterns'' = PList (map PStr deny)" "dget j ''redact_patterns'' = PList (map PStr redact)"
    using j serialize_valid P unfolding policy_to_json_def d
    by (auto simp: dget_def t simp del: map_map)
  have "policy_from_json mt (PDict j) = Inr p"
    using serialized_reads_back [of mt deny] serialized_reads_back [of mt redact] P policy_json_marker [OF j] d
    by (simp add: policy_from_json_def policy_reader_def g path_patterns_need_encoding_marker_def make_policy_iff)
  with j show "\<exists>j. policy_to_json p = Inr j \<and> policy_from_json mt (PDict j) = Inr p" by blast
next
  show "\<exists>j. policy_to_json p' = Inr j \<and> policy_from_durable_json mt (PDict j) = Inr p'"
  proof -
    from assms(2) obtain d r where v: "validate_internal_path_patterns mt d = Inr d" "validate_internal_path_patterns mt r = Inr r"
      and p': "p' = \<lparr>pp_deny_patterns = d, pp_redact_patterns = r\<rparr>"
      and b: "parse_durable_path_patterns mt (PList (map PStr (map pattern_text d))) = Inr d"
        "parse_durable_path_patterns mt (PList (map PStr (map pattern_text r))) = Inr r"
      by (rule durable_policy)
    obtain j where j: "policy_to_json p' = Inr j" using serialize_valid v unfolding policy_to_json_def p' by auto
    have g: "dget j ''deny_patterns'' = PList (map PStr (map pattern_text d))" "dget j ''redact_patterns'' = PList (map PStr (map pattern_text r))"
      using j serialize_valid v unfolding policy_to_json_def p' by (auto simp: dget_def simp del: map_map)
    have "policy_from_durable_json mt (PDict j) = Inr p'"
      using v b policy_json_marker [OF j] unfolding policy_from_durable_json_def policy_reader_def
      by (simp add: g make_policy_iff p' del: map_map)
    with j show ?thesis by blast
  qed
qed

section \<open>Confined paths\<close>

lemma split_chars: "y \<in> set (split_at d v) \<Longrightarrow> c \<in> set y \<Longrightarrow> c \<in> set v"
  by (induction v arbitrary: y) (fastforce split: if_splits list.splits)+

definition confined :: "string \<Rightarrow> bool" where
  "confined rel \<longleftrightarrow> rel = ''.'' \<or> (\<forall>x \<in> set (split_at CHR ''/'' rel). x \<notin> {[], ''.'', ''..''} \<and> \<not> list_ex is_control x \<and> CHR 92 \<notin> set x)"

lemma workspace_parts_ok:
  assumes "workspace_parts nt xs = Inr ys"
  shows "y \<in> set ys \<Longrightarrow> y \<in> set xs \<and> y \<notin> {[], ''.'', ''..''} \<and> validate_workspace_segment nt y = Inr ()" "workspace_parts nt ys = Inr ys"
proof -
  have "(\<forall>y \<in> set ys. y \<in> set xs \<and> y \<notin> {[], ''.'', ''..''} \<and> validate_workspace_segment nt y = Inr ()) \<and> workspace_parts nt ys = Inr ys"
    using assms by (induction xs arbitrary: ys) (auto simp: res_bind_eq_Inr split: if_splits)
  then show "y \<in> set ys \<Longrightarrow> y \<in> set xs \<and> y \<notin> {[], ''.'', ''..''} \<and> validate_workspace_segment nt y = Inr ()" "workspace_parts nt ys = Inr ys"
    by blast+
qed

lemma join_chars: "c \<in> set (join_with d xs) \<Longrightarrow> c = d \<or> (\<exists>x \<in> set xs. c \<in> set x)"
  by (induction d xs rule: join_with.induct) auto

text \<open>A normal form never leaves the workspace, and it is its own normal form unless it looks like a drive,
  which only platforms other than Windows let through.\<close>

lemma normalized_path:
  assumes "normalize_workspace_path nt raw = Inr rel"
  shows "confined rel" "nt \<or> \<not> (2 \<le> length rel \<and> rel ! 1 = CHR '':'') \<Longrightarrow> normalize_workspace_path nt (Some rel) = Inr rel"
proof -
  define v where "v = workspace_text raw"
  have v: "CHR 92 \<notin> set v" unfolding v_def by (cases raw) (auto simp: workspace_text_def split: if_splits)
  have "res_bind (workspace_parts nt (split_at CHR ''/'' v)) (\<lambda>parts. Inr (if parts = [] then ''.'' else join_with CHR ''/'' parts)) = Inr rel"
    using assms unfolding normalize_workspace_path_def v_def [symmetric] Let_def by (metis Inl_Inr_False)
  then obtain parts where p: "workspace_parts nt (split_at CHR ''/'' v) = Inr parts"
    and rel: "rel = (if parts = [] then ''.'' else join_with CHR ''/'' parts)" unfolding res_bind_eq_Inr by blast
  have seg: "y \<notin> {[], ''.'', ''..''} \<and> validate_workspace_segment nt y = Inr () \<and> CHR ''/'' \<notin> set y \<and> CHR 92 \<notin> set y" if "y \<in> set parts" for y
  proof -
    have y: "y \<in> set (split_at CHR ''/'' v)" using workspace_parts_ok(1) [OF p that] by blast
    with workspace_parts_ok(1) [OF p that] split_segments [OF y] split_chars [OF y] v show ?thesis by blast
  qed
  have split: "split_at CHR ''/'' rel = parts" if "parts \<noteq> []" using that seg rel by (simp add: split_join)
  have "\<not> list_ex is_control y" if "y \<in> set parts" for y using seg [OF that] by (auto simp: validate_workspace_segment_def split: if_splits)
  then show "confined rel" using seg split rel by (cases "parts = []") (auto simp: confined_def)
  have clean: "c \<noteq> CHR 92 \<and> (nt \<longrightarrow> c \<noteq> CHR '':'')" if "c \<in> set rel" for c
  proof (cases "parts = []")
    case False
    with that rel join_chars [of c "CHR ''/''" parts] have "c = CHR ''/'' \<or> (\<exists>x \<in> set parts. c \<in> set x)" by simp
    then show ?thesis
    proof
      assume "\<exists>x \<in> set parts. c \<in> set x"
      then obtain x where "x \<in> set parts" "c \<in> set x" ..
      with seg [of x] show ?thesis
        by (auto simp: validate_workspace_segment_def list_ex_iff WINDOWS_INVALID_CHARS_def split: if_splits)
    qed simp
  qed (use that rel in auto)
  assume "nt \<or> \<not> (2 \<le> length rel \<and> rel ! 1 = CHR '':'')"
  moreover have "rel ! 1 \<in> set rel" if "2 \<le> length rel" using that by (intro nth_mem) simp
  ultimately have drive: "\<not> (2 \<le> length rel \<and> rel ! 1 = CHR '':'')" using clean by blast
  have ne: "rel \<noteq> []" "\<not> str_startswith rel ''/''"
  proof -
    have "\<exists>x r. rel = x # r \<and> x \<noteq> CHR ''/''"
    proof (cases parts)
      case (Cons y ys)
      then obtain x y' where y: "y = x # y'" "x \<noteq> CHR ''/''" using seg [of y] by (cases y) auto
      have "rel = x # join_with CHR ''/'' (y' # ys)" using rel Cons y(1) by (simp add: join_push)
      with y(2) show ?thesis by blast
    qed (use rel in simp)
    then show "rel \<noteq> []" "\<not> str_startswith rel ''/''" by auto
  qed
  have "map (\<lambda>c. if c = CHR 92 then CHR ''/'' else c) rel = rel" using clean by (simp add: map_idI)
  moreover have "workspace_parts nt (split_at CHR ''/'' rel) = Inr parts"
    using split workspace_parts_ok(2) [OF p] rel by (cases "parts = []") simp_all
  ultimately show "normalize_workspace_path nt (Some rel) = Inr rel"
    using ne drive rel by (simp add: normalize_workspace_path_def workspace_text_def Let_def)
qed

text \<open>A drive-like first segment behind a dot gets a normal form that is refused as a path.\<close>

lemma normal_form_may_be_refused:
  "normalize_workspace_path False (Some ''./c:/x'') = Inr ''c:/x'' \<and>
   normalize_workspace_path False (Some ''c:/x'') = Inl (workspace_error ''absolute paths are not allowed'')"
  by (simp add: normalize_workspace_path_def workspace_text_def Let_def validate_workspace_segment_def is_control_def)

section \<open>Denied paths\<close>

text \<open>What \<open>pathspec\<close> promises for patterns without negation: each line compiles alone, and a path matches
  when some line matches it.\<close>

definition independent_lines :: "matchers \<Rightarrow> bool" where
  "independent_lines mt \<longleftrightarrow> (\<forall>ls m. list_all (\<lambda>l. \<not> str_startswith l ''!'') ls \<longrightarrow> mt_lines mt ls = Inr m \<longrightarrow>
     (\<forall>l \<in> set ls. \<exists>k. mt_lines mt [l] = Inr k) \<and> (\<forall>path. m path \<longleftrightarrow> (\<exists>l \<in> set ls. \<exists>k. mt_lines mt [l] = Inr k \<and> k path)))"

lemma line_not_negated: "pathspec_pattern s = Inr (Some l) \<Longrightarrow> \<not> str_startswith l ''!''"
  by (auto simp: pathspec_pattern_def Let_def split: option.splits if_splits)

lemma compiled_lines:
  assumes "independent_lines mt" and "compiled mt ss = Inr m"
  shows "m path \<longleftrightarrow> (\<exists>s \<in> set ss. \<exists>k. compiled mt [s] = Inr k \<and> k path)"
    and "s \<in> set ss \<Longrightarrow> canonical_pattern s \<noteq> None \<Longrightarrow> \<exists>k. compiled mt [s] = Inr k"
proof -
  from assms(2) obtain cs where cs: "res_map pathspec_pattern ss = Inr cs" and m: "mt_lines mt (List.map_filter (\<lambda>c. c) cs) = Inr m"
    by (auto simp: compiled_def res_bind_eq_Inr)
  let ?ls = "List.map_filter (\<lambda>c. c) cs"
  have l2: "list_all2 (\<lambda>s c. pathspec_pattern s = Inr c) ss cs" using cs by (simp add: res_map_Inr_iff)
  have sl: "l \<in> set ?ls \<longleftrightarrow> (\<exists>s \<in> set ss. pathspec_pattern s = Inr (Some l))" for l
    using l2 by (induction rule: list_all2_induct) (auto simp: List.map_filter_simps split: option.splits)
  have one: "compiled mt [s] = mt_lines mt [l]" if "pathspec_pattern s = Inr (Some l)" for s l
    using that by (simp add: compiled_def List.map_filter_simps)
  have none: "\<not> k path" if "pathspec_pattern s = Inr None" "compiled mt [s] = Inr k" for s k
    using that assms(1) unfolding independent_lines_def by (auto simp: compiled_def List.map_filter_simps dest: spec [of _ "[]"])
  have "list_all (\<lambda>l. \<not> str_startswith l ''!'') ?ls" using sl line_not_negated unfolding list_all_iff by blast
  with assms(1) m have I: "\<forall>l \<in> set ?ls. \<exists>k. mt_lines mt [l] = Inr k" "m path \<longleftrightarrow> (\<exists>l \<in> set ?ls. \<exists>k. mt_lines mt [l] = Inr k \<and> k path)"
    unfolding independent_lines_def by blast+
  have every: "\<exists>c. pathspec_pattern s = Inr c" if "s \<in> set ss" for s using l2 that by (induction rule: list_all2_induct) auto
  have "(\<exists>s \<in> set ss. \<exists>k. compiled mt [s] = Inr k \<and> k path) \<longleftrightarrow> (\<exists>l \<in> set ?ls. \<exists>k. mt_lines mt [l] = Inr k \<and> k path)" (is "?L \<longleftrightarrow> ?R")
  proof
    assume ?L
    then obtain s k where s: "s \<in> set ss" "compiled mt [s] = Inr k" "k path" by blast
    from every [OF s(1)] obtain c where c: "pathspec_pattern s = Inr c" ..
    with none s obtain l where "c = Some l" by (cases c) auto
    with c s sl one show ?R by auto
  next
    assume ?R
    then show ?L using sl one by fastforce
  qed
  with I(2) show "m path \<longleftrightarrow> (\<exists>s \<in> set ss. \<exists>k. compiled mt [s] = Inr k \<and> k path)" by blast
  show "\<exists>k. compiled mt [s] = Inr k" if "s \<in> set ss" "canonical_pattern s \<noteq> None"
  proof -
    from every [OF that(1)] that(2) obtain l where "pathspec_pattern s = Inr (Some l)"
      by (auto simp: pathspec_pattern_def Let_def split: option.splits if_splits)
    with I(1) sl one that(1) show ?thesis by auto
  qed
qed

lemma current_texts: "s \<in> set (List.map_filter current_text ps) \<longleftrightarrow> Current s \<in> set ps"
proof (induction ps)
  case (Cons p ps)
  then show ?case by (cases p) (auto simp: List.map_filter_simps)
qed (simp add: List.map_filter_simps)

lemma matches_True:
  assumes "matches_path_patterns mt nt rel ps = Inr True"
  obtains path where "normalize_workspace_path nt (Some rel) = Inr path" "path \<noteq> ''.''"
    "(\<exists>m. compiled mt (List.map_filter current_text ps) = Inr m \<and> m path) \<or> any_pure_match mt path ps = Inr True"
proof -
  let ?c = "List.map_filter current_text ps"
  have r: "res_bind (normalize_workspace_path nt (Some rel)) (\<lambda>path. if path = ''.'' then Inr False
        else res_bind (if ?c = [] then Inr False else res_bind (compiled mt ?c) (\<lambda>m. Inr (m path))) (\<lambda>b.
          if b then Inr True else any_pure_match mt path ps)) = Inr True"
    using assms unfolding matches_path_patterns_def Let_def by (auto split: if_splits)
  then obtain path where n: "normalize_workspace_path nt (Some rel) = Inr path"
    and r: "(if path = ''.'' then Inr False else res_bind (if ?c = [] then Inr False else res_bind (compiled mt ?c) (\<lambda>m. Inr (m path))) (\<lambda>b.
          if b then Inr True else any_pure_match mt path ps)) = Inr True" unfolding res_bind_eq_Inr by blast
  from r have "(\<exists>m. compiled mt ?c = Inr m \<and> m path) \<or> any_pure_match mt path ps = Inr True"
    by (cases "?c = []"; cases "compiled mt ?c") (auto split: if_splits)
  with that [OF n] r show thesis by (auto split: if_splits)
qed

lemma matches_TrueI:
  assumes v: "validate_internal_path_patterns mt ps = Inr ps" and i: "independent_lines mt" and n: "normalize_workspace_path nt (Some rel) = Inr path" "path \<noteq> ''.''"
    and hit: "(\<exists>s k. Current s \<in> set ps \<and> compiled mt [s] = Inr k \<and> k path) \<or> any_pure_match mt path ps = Inr True"
  shows "matches_path_patterns mt nt rel ps = Inr True"
proof -
  let ?c = "List.map_filter current_text ps"
  obtain m where m: "compiled mt ?c = Inr m" using validate_fixed(4) [OF v] ..
  note hits = compiled_lines(1) [OF i m, of path, unfolded current_texts Bex_def]
  have ok: "canonical_pattern s \<noteq> None \<and> \<not> list_ex is_control s" if "s \<in> set ?c" for s
  proof -
    have "valid_text s" using validate_fixed(2) [OF v] that unfolding current_texts .
    then show ?thesis by (auto simp: valid_text_def checked_pattern_def split: if_splits option.splits)
  qed
  have "ps \<noteq> []" using hit by auto
  moreover have "\<not> list_ex (\<lambda>s. canonical_pattern s = None \<and> \<not> (str_startswith s ''/'' \<or> str_startswith s [CHR 92, CHR 92])) ?c"
    "\<not> list_ex (list_ex is_control) ?c" using ok unfolding list_ex_iff by blast+
  moreover have "?c \<noteq> [] \<or> any_pure_match mt path ps = Inr True" using hit current_texts [of _ ps] by fastforce
  moreover have "m path \<or> any_pure_match mt path ps = Inr True" using hit hits by blast
  ultimately show ?thesis using n m unfolding matches_path_patterns_def Let_def by auto
qed

text \<open>No text is both a current and a retained pattern.\<close>

definition texts_apart :: "path_pattern list \<Rightarrow> bool" where
  "texts_apart ps \<longleftrightarrow> (\<forall>a \<in> set ps. \<forall>b \<in> set ps. pattern_text a = pattern_text b \<longrightarrow> a = b)"

lemma dedupe_set: "texts_apart ps \<Longrightarrow> set (dedupe_patterns ps) = set ps"
  by (induction ps) (auto simp: texts_apart_def)

lemma pure_current [simp]: "any_pure_match mt path (map Current ss) = Inr False"
  by (induction ss) simp_all

lemma any_pure_filter:
  "(\<And>q. q \<in> set ps \<Longrightarrow> \<not> P q \<Longrightarrow> (\<exists>s. q = Current s) \<or> mt_pure mt path (pattern_text q) = Inr False) \<Longrightarrow>
     any_pure_match mt path (filter P ps) = any_pure_match mt path ps"
proof (induction ps)
  case (Cons q ps)
  then have ih: "any_pure_match mt path (filter P ps) = any_pure_match mt path ps" by simp
  from Cons.prems [of q] show ?case by (cases q) (auto simp: ih cong: if_cong)
qed simp

lemma any_pure_dedupe:
  assumes "texts_apart ps" and "any_pure_match mt path ps = Inr True"
  shows "any_pure_match mt path (dedupe_patterns ps) = Inr True"
  using assms
proof (induction ps)
  case (Cons p ps)
  have apart: "texts_apart ps" using Cons.prems(1) by (simp add: texts_apart_def)
  let ?f = "filter (\<lambda>q. pattern_text q \<noteq> pattern_text p) (dedupe_patterns ps)"
  have same: "q = p" if "q \<in> set (dedupe_patterns ps)" "pattern_text q = pattern_text p" for q
    using that Cons.prems(1) unfolding dedupe_set [OF apart] by (simp add: texts_apart_def)
  show ?case
  proof (cases p)
    case (Current s)
    with Cons.prems(2) Cons.IH [OF apart] have "any_pure_match mt path (dedupe_patterns ps) = Inr True" by simp
    moreover have "any_pure_match mt path ?f = any_pure_match mt path (dedupe_patterns ps)"
      by (rule any_pure_filter) (use same Current in auto)
    ultimately show ?thesis by (simp add: Current)
  next
    case (Legacy s)
    with Cons.prems(2) obtain b where b: "mt_pure mt path s = Inr b" by (auto simp: res_bind_eq_Inr)
    show ?thesis
    proof (cases b)
      case False
      with Cons.prems(2) b Legacy Cons.IH [OF apart] have "any_pure_match mt path (dedupe_patterns ps) = Inr True" by simp
      moreover have "any_pure_match mt path ?f = any_pure_match mt path (dedupe_patterns ps)"
        by (rule any_pure_filter) (use same b False Legacy in auto)
      ultimately show ?thesis using b False by (simp add: Legacy)
    qed (use b in \<open>simp add: Legacy\<close>)
  qed
qed simp

lemma durable_texts:
  assumes i: "independent_lines mt" and d: "\<And>p. p \<in> set ds \<Longrightarrow> durable_pattern mt (pattern_text p) = Inr [p]"
    and v: "validate_internal_path_patterns mt (map Current ss) = Inr (map Current ss)"
  shows "texts_apart (ds @ map Current ss)"
proof -
  have cur: "List.map_filter current_text (map Current ss) = ss" by (induction ss) (simp_all add: List.map_filter_simps)
  obtain m where m: "compiled mt ss = Inr m" using validate_fixed(4) [OF v] unfolding cur ..
  have new: "durable_pattern mt s = Inr [Current s]" if s: "s \<in> set ss" for s
  proof -
    have ok: "valid_text s" "str_strip s \<noteq> []" using validate_fixed(2,3) [OF v] s by force+
    obtain k where "compiled mt [s] = Inr k" using compiled_lines(2) [OF i m s reparse(4) [OF ok(1)]] ..
    then have "validate_internal_path_patterns mt (map Current [s]) = Inr (map Current [s])"
      using ok validated_iff [of s "Current s"] by (simp add: validate_internal_path_patterns_def List.map_filter_simps)
    from parse_texts [OF _ this, of "[escape_bang s]"] reparse(1,2) [OF ok(1)] escape_nonblank [OF ok(2)]
    show ?thesis by (simp add: durable_pattern_def)
  qed
  have "durable_pattern mt (pattern_text p) = Inr [p]" if "p \<in> set (ds @ map Current ss)" for p
    using that d new by auto
  then have "[a] = [b]" if "a \<in> set (ds @ map Current ss)" "b \<in> set (ds @ map Current ss)" "pattern_text a = pattern_text b" for a b
    using that by (metis Inr_inject)
  then show ?thesis unfolding texts_apart_def by blast
qed

lemma denied_after_merge:
  assumes i: "independent_lines mt" and p: "policy_from_durable_json mt payload = Inr p" and g: "merged mt p deny redact = Inr p'"
    and hit: "is_path_denied mt nt p rel = Inr True \<or>
      (\<exists>ns. parse_path_patterns mt (PTuple (map PStr deny)) = Inr ns \<and> matches_path_patterns mt nt rel ns = Inr True)"
  shows "is_path_denied mt nt p' rel = Inr True"
proof -
  from p obtain d r where vd: "validate_internal_path_patterns mt d = Inr d" and pd: "pp_deny_patterns p = d"
    and b: "parse_durable_path_patterns mt (PList (map PStr (map pattern_text d))) = Inr d" by (rule durable_policy) auto
  from g obtain ns where ns: "parse_path_patterns mt (PTuple (map PStr deny)) = Inr ns"
    and v: "validate_internal_path_patterns mt (dedupe_patterns (d @ ns)) = Inr (dedupe_patterns (d @ ns))"
    and p': "pp_deny_patterns p' = dedupe_patterns (d @ ns)"
    by (auto simp: merged_def res_bind_eq_Inr make_policy_iff pd)
  from parse_path_result [OF ns] obtain ss where ss: "ns = map Current ss" and vn: "validate_internal_path_patterns mt ns = Inr ns" by blast
  have apart: "texts_apart (d @ ns)" unfolding ss by (rule durable_texts [OF i durable_reads_back(2) [OF b]]) (use vn ss in auto)
  note same = dedupe_set [OF apart]
  have pure: "any_pure_match mt path (d @ ns) = any_pure_match mt path d" for path
    unfolding ss by (induction mt path d rule: any_pure_match.induct) (auto simp: pure_current cong: if_cong)
  have line: "\<exists>s k. Current s \<in> set ps \<and> compiled mt [s] = Inr k \<and> k path" if "compiled mt (List.map_filter current_text ps) = Inr m" "m path" for ps m path
    using compiled_lines(1) [OF i that(1), of path] that(2) current_texts [of _ ps] by blast
  from hit obtain path where n: "normalize_workspace_path nt (Some rel) = Inr path" "path \<noteq> ''.''"
    and h: "(\<exists>s k. Current s \<in> set (d @ ns) \<and> compiled mt [s] = Inr k \<and> k path) \<or> any_pure_match mt path (d @ ns) = Inr True"
  proof
    assume "is_path_denied mt nt p rel = Inr True"
    then have "matches_path_patterns mt nt rel d = Inr True" by (simp add: is_path_denied_def pd)
    from matches_True [OF this] obtain path where n: "normalize_workspace_path nt (Some rel) = Inr path" "path \<noteq> ''.''"
      and h: "(\<exists>m. compiled mt (List.map_filter current_text d) = Inr m \<and> m path) \<or> any_pure_match mt path d = Inr True" .
    from h have "(\<exists>s k. Current s \<in> set d \<and> compiled mt [s] = Inr k \<and> k path) \<or> any_pure_match mt path (d @ ns) = Inr True"
      using line [of d _ path] unfolding pure by blast
    then show thesis using that [OF n] by auto
  next
    assume "\<exists>ns. parse_path_patterns mt (PTuple (map PStr deny)) = Inr ns \<and> matches_path_patterns mt nt rel ns = Inr True"
    with ns have "matches_path_patterns mt nt rel ns = Inr True" by auto
    from matches_True [OF this] obtain path where n: "normalize_workspace_path nt (Some rel) = Inr path" "path \<noteq> ''.''"
      and h: "(\<exists>m. compiled mt (List.map_filter current_text ns) = Inr m \<and> m path) \<or> any_pure_match mt path ns = Inr True" .
    from h have "\<exists>s k. Current s \<in> set ns \<and> compiled mt [s] = Inr k \<and> k path"
      using line [of ns _ path] unfolding ss pure_current by blast
    then show thesis using that [OF n] by auto
  qed
  have "matches_path_patterns mt nt rel (dedupe_patterns (d @ ns)) = Inr True"
    by (rule matches_TrueI [OF v i n]) (use h any_pure_dedupe [OF apart, of mt path] in \<open>auto simp: same\<close>)
  then show ?thesis by (simp add: is_path_denied_def p')
qed

lemma checked_each:
  "check_each_path mt nt p op paths = Inr () \<Longrightarrow> raw \<in> set paths \<Longrightarrow>
     \<exists>rel. normalize_workspace_path nt (Some raw) = Inr rel \<and> is_path_denied mt nt p rel = Inr False"
  by (induction paths) (auto simp: res_bind_eq_Inr split: if_splits)

text \<open>C6. Denied paths are never touched. When a read or a write passes the check of a policy that was restored
  from a retained artifact and extended by the operator, each of its paths has a normal form inside the
  workspace (no parent step, no absolute or control-character spelling), no rule of the restored policy
  matches that form, and none of the added rules does: extending a policy never opens what it denied, and no added
  rule is lost to one of the same text.\<close>

theorem denied_paths_are_never_touched:
  assumes "independent_lines mt" and "policy_from_durable_json mt payload = Inr p" and "merged mt p deny redact = Inr p'"
    and "check_paths mt nt p' op paths = Inr ()" and "op \<in> {ReadOp, WriteOp}" and "raw \<in> set paths"
  shows "\<exists>rel ns. normalize_workspace_path nt (Some raw) = Inr rel \<and> confined rel \<and> is_path_denied mt nt p rel \<noteq> Inr True \<and>
    parse_path_patterns mt (PTuple (map PStr deny)) = Inr ns \<and> matches_path_patterns mt nt rel ns \<noteq> Inr True"
proof -
  have "check_each_path mt nt p' op paths = Inr ()" using assms(4,5) by (auto simp: check_paths_def)
  from checked_each [OF this assms(6)] obtain rel where rel: "normalize_workspace_path nt (Some raw) = Inr rel" "is_path_denied mt nt p' rel = Inr False" by blast
  from assms(3) obtain ns where ns: "parse_path_patterns mt (PTuple (map PStr deny)) = Inr ns" by (auto simp: merged_def res_bind_eq_Inr)
  have "\<not> (is_path_denied mt nt p rel = Inr True \<or> matches_path_patterns mt nt rel ns = Inr True)"
    using denied_after_merge [OF assms(1-3), of nt rel] ns rel(2) by auto
  with rel ns normalized_path(1) [OF rel(1)] show ?thesis by blast
qed

section \<open>Examples\<close>

declare normalize_text_id [code_unfold]

text \<open>A matcher that knows only literal lines.\<close>

definition demo_matchers :: matchers where
  "demo_matchers = \<lparr>mt_lines = (\<lambda>ls. Inr (\<lambda>path. path \<in> set ls)), mt_pure = (\<lambda>path s. Inr (path = s))\<rparr>"

definition demo_retained :: pyval where
  "demo_retained = PDict [(''deny_patterns'', PList [PStr ''!x'', PStr ''a//b'', PStr (bang @ ''y'')])]"

definition demo_policy :: permission_policy where
  "demo_policy = \<lparr>pp_deny_patterns = [Current ''!x'', Legacy ''a//b'', Legacy (bang @ ''y'')], pp_redact_patterns = []\<rparr>"

definition demo_wider :: permission_policy where
  "demo_wider = \<lparr>pp_deny_patterns = [Current ''!x'', Legacy ''a//b'', Legacy (bang @ ''y''), Current ''.env''], pp_redact_patterns = []\<rparr>"

lemma demo_matchers_independent: "independent_lines demo_matchers"
  by (auto simp: independent_lines_def demo_matchers_def)

lemma demo_policy_read: "policy_from_durable_json demo_matchers demo_retained = Inr demo_policy"
  by code_simp

theorem policy_survives_json_witness:
  "\<exists>j. policy_to_json demo_policy = Inr j \<and> policy_from_durable_json demo_matchers (PDict j) = Inr demo_policy"
proof -
  have "make_policy demo_matchers (map Current [''!x'']) (map Current [''/e'']) =
      Inr \<lparr>pp_deny_patterns = [Current ''!x''], pp_redact_patterns = [Current ''/e'']\<rparr>" by code_simp
  from policy_survives_json [OF this demo_policy_read] show ?thesis by blast
qed

theorem denied_paths_are_never_touched_witness:
  "\<exists>rel. normalize_workspace_path False (Some ''./src//main.py'') = Inr rel \<and> confined rel \<and> is_path_denied demo_matchers False demo_policy rel \<noteq> Inr True"
proof -
  have m: "merged demo_matchers demo_policy [''.env''] [] = Inr demo_wider" by code_simp
  have c: "check_paths demo_matchers False demo_wider ReadOp [''./src//main.py''] = Inr ()" by code_simp
  from denied_paths_are_never_touched [OF demo_matchers_independent demo_policy_read m c, of "''./src//main.py''"] show ?thesis by auto
qed

end
