(* ===== verification/Spec2Isabelle.thy ===== *)
theory Spec2Isabelle
  imports Event_Sequencing Tool_Gate Termination_Budget Writer_Lease Call_Safety Revision_Rules Shape_Refusal Admission_Progress Path_Policy
begin

text \<open>
  \<^bold>\<open>The Monoid agent kernel: a verification library.\<close>

  The kernel (\<open>src/src/monoid_agent_kernel\<close>) runs an agent loop: it calls a model, admits and executes
  the tools the model asks for, records what happened, and can be stopped, resumed and handed from one
  host to another at any time. The library models the parts on which that promise rests, translated
  from the sources function by function, and proves what they guarantee.

  \<^bold>\<open>The parts and how they interact.\<close> A host claims the durable authority of a run (a writer lease) and
  drives one activation of it. Everything the activation publishes (events, checkpoints, model calls,
  evidence, the terminal outcome) goes through a run journal that checks the lease in the same
  transaction. Commands enter a run through an admission store, are delivered by a dispatcher that
  holds dispatch claims, and are bound to the checkpoint they start from. Inside an activation a
  paid model call is reserved, started and settled in the journal; a tool call passes the surface
  authorization, its quota, the approval, the side-effect policy and the capability gate; a side
  effect is staged in an outbox and drained by a dispatcher. Whatever crosses a process boundary is
  JSON and passes the ingress, wire and evidence validators.

  \<^bold>\<open>Theories and sources.\<close>

  \<^item> Language and library: \<open>Monoid_Prelude\<close> (exceptions as a datatype, results, strings, decimal
    printing, floats), \<open>Py_Values\<close> (dynamically typed values, dictionaries as ordered association lists,
    Python equality and truth).
  \<^item> Wire and ingress: \<open>Wire_Validation\<close> (\<open>core/wire_validation.py\<close>, \<open>identifiers.py\<close>,
    \<open>core/runtime_controls.py\<close>), \<open>Json_Ingress\<close>, \<open>Text_Ingress\<close>, \<open>Shape_Refusal\<close>
    (\<open>core/json_ingress.py\<close>), \<open>Safe_Evidence\<close> (\<open>core/safe_evidence.py\<close>), \<open>Durable_Codec\<close>
    (\<open>core/durable_codec.py\<close>).
  \<^item> Runs and their lifecycle: \<open>Run_Results\<close> (\<open>core/result.py\<close>, \<open>core/interruption.py\<close>), \<open>Lifecycle\<close>
    (\<open>core/lifecycle.py\<close>), \<open>Terminal_Outcome\<close> (\<open>core/outcome.py\<close>), \<open>Cancel_Authority\<close>
    (\<open>core/cancellation.py\<close>, \<open>core/authority.py\<close>), \<open>Termination_Budget\<close> (\<open>core/termination_budget.py\<close>).
  \<^item> Capabilities and tools: \<open>Scope\<close> (\<open>core/scope.py\<close>, \<open>core/lease_admission.py\<close>), \<open>Capability\<close>
    (\<open>core/capability.py\<close>, \<open>core/capability_revocation.py\<close>, the lease gate of \<open>loop.py\<close>), \<open>Tool_Gate\<close>
    (\<open>core/tool_approval.py\<close>, \<open>core/side_effect_policy.py\<close>, the tool call of \<open>loop.py\<close>), \<open>Path_Policy\<close>
    (\<open>permissions.py\<close>, \<open>workspace/paths.py\<close>, \<open>_policy_util.py\<close>).
  \<^item> Side effects and messages: \<open>Keyed_Store\<close>, \<open>Outbox\<close> (\<open>core/outbox.py\<close>, \<open>core/inbox.py\<close>,
    \<open>reference/backend/outbox_dispatch.py\<close>).
  \<^item> Events on disk: \<open>Event_Log\<close> (\<open>core/_event_log.py\<close>, \<open>core/events.py\<close>, \<open>recorder.py\<close>), \<open>Event_Sequencing\<close>
    (\<open>core/event_sequencing.py\<close>).
  \<^item> Durable authority and journal: \<open>Writer_Lease\<close> (\<open>hosting/contracts.py\<close>, \<open>hosting/commit_results.py\<close>,
    \<open>hosting/authority.py\<close>, \<open>adapters/postgres/authority.py\<close>), \<open>Journal_Store\<close>, \<open>Run_Journal\<close>, \<open>Public_Journal\<close>
    (\<open>adapters/postgres/sink.py\<close>), \<open>Journal_History\<close> (what holds over all histories of the journal).
  \<^item> Paid model calls: \<open>Model_Facts\<close> (\<open>core/model_facts.py\<close>), \<open>Model_Invocation\<close> (\<open>core/model_invocation.py\<close>),
    \<open>Model_Calls\<close> (\<open>hosting/model_calls.py\<close>, \<open>model_lifecycle.py\<close>), \<open>Postgres_Calls\<close> (the journal satisfies the
    laws the calls rely on), \<open>Revision_Rules\<close> (which revisions of a call the journal accepts), \<open>Call_Safety\<close>.
  \<^item> Checkpoints, activations and commands: \<open>Checkpoint\<close> (\<open>core/checkpoint.py\<close>, \<open>core/media.py\<close>),
    \<open>Checkpoint_History\<close>, \<open>Activation\<close> (\<open>hosting/activation.py\<close>), \<open>Admission\<close> (\<open>hosting/admission.py\<close>),
    \<open>Admission_Store\<close> (\<open>adapters/postgres/admission.py\<close>), \<open>Admission_History\<close> (its invariant and abstract steps),
    \<open>Admission_Safety\<close> (all histories of the store), \<open>Admission_Progress\<close> (undisturbed calls succeed).

  \<^bold>\<open>State and operations.\<close> A dataclass is a record with a prefix per record, its constructor checks a
  function \<open>make_\<dots>\<close> that returns the value or the exception, an enumeration a datatype, and an
  exception a value of \<open>exn\<close>; a function that may raise returns \<open>'a res\<close>. A checkpoint, whose fields
  are validated by name, is the list of its attributes. Methods that mutate return the new state.
  Methods of the two lock-protected objects (cancellation token, write authority) are split into
  their critical sections, and their properties quantify over interleavings of those with the runs of
  callbacks, which may return or raise. The event
  log is the bytes of its file, with a crash possible at every byte. A database table is the list of its
  rows with their primary keys or a map, and each SQL statement is translated to the function on the
  tables that it denotes. A mutation of the journal takes an \<open>attempt\<close>: the clock reading, what other
  runs do to the shared blob table meanwhile, which statement or commit fails, whether it was applied
  nevertheless, and the state on which a reconciliation then runs. A call of the admission store takes
  an \<open>admission_attempt\<close> of the same kind, with the rows others hold locked (\<open>SKIP LOCKED\<close>) as any set;
  its statements run under the locks of the run and count as one step, except that a dispatch claim
  looks for its claim id first and goes on with the tables that others left meanwhile. Where a
  statement orders rows, its columns form a \<open>queue_position\<close>, a linear order. Three records are ghosts that no
  operation reads: the log of the database calls a session made (\<open>se_log\<close>), the requests handed to the
  sender (\<open>eg_sent\<close>) and the log of callback runs (\<open>ru_runs\<close>); theorems count calls with them.

  \<^bold>\<open>What is shown.\<close> The theories of values prove that what a checked reader accepts is valid and that
  what is written is read back as itself. The lifecycle and cancellation theories prove that terminal
  states absorb, that the first cause wins and that a callback runs at most once and is
  skipped only behind one whose exception left the loop. The capability theories
  prove that a tool's handler runs only with an unrevoked lease, that an admitted lease narrows the request on
  every constraint it names, and that a revocation by any vault of a run tree binds all of them and survives restarts; a path rule survives being written and extended, and a checked path stays
  inside the workspace. The outbox drain refines an abstract settlement that sends each due request
  once, and a committed request is neither lost nor sent after its settlement was committed. The event log keeps every
  committed event over any crash, and paging reads every event once. The journal theories prove that a
  stale writer publishes nothing, that records never change, that no dispatch of a paid call starts
  twice, that exactly the legal next revision of a call commits and that an acknowledged checkpoint is never lost; these hold for every sequence of
  operations by any number of hosts, with responses lost at any point. The admission store refines a
  small set of table steps: commands of a run are numbered without gaps, dispatched in order and one
  at a time, admitted once under a command id, bound to ever later checkpoints, and a claim that was
  overtaken or settled changes nothing any more; while a command is ready, or its claim has run out, a claim is granted.

  \<^bold>\<open>Parameters, bounds and fuel.\<close> Code that is not part of the repository is an argument: the pydantic
  validators (\<open>validator\<close>, with the documented behaviour as the hypotheses of \<open>env_ok\<close> and of the round
  trips), SHA-256 over canonical JSON (total, where the code raises on a payload outside the portable domain), the JSON reader and writer (which
  fixes the key order of a line), the glob matcher (with the independence of its lines as
  hypothesis), tool handlers, brokers, senders and
  transports, the clock, and identifiers drawn at random. Loops over finite input recurse on it. The
  passes of the shape refusal and of the event reader that carry fuel are shown to end within it. Integers are unbounded
  as in Python; the range of \<open>bigint\<close> columns and of portable JSON integers is written out where
  the code checks it. The digit limit of the interpreter is the argument \<open>cfg\<close>.

  \<^bold>\<open>Not modelled.\<close> Model providers, gateways, command line, studio, conformance suite, observability and
  the adapters that only move bytes (object store, Temporal, DBOS, MCP) are left out: their
  correctness is that of services outside the repository, or they present data. Of \<open>loop.py\<close> the gates
  before a tool call and the bookkeeping of capabilities and outbox are modelled; the orchestration of turns around them
  depends on the provider adapters and is left out. The manifest lists every component with its status.
\<close>

end
